(* ===== verification/Prelude.thy ===== *)
theory Prelude
  imports Main "HOL-Library.Word" "HOL-Library.Monad_Syntax"
begin

text \<open>
  The prelude of the HalOS development.  It fixes the machine types, bounded access to C
  arrays, the conventions for undefined behaviour (a step that C leaves undefined is
  \<open>None\<close>), the shape of C loops with \<open>break\<close> and \<open>return\<close>, a small total-correctness
  calculus over them, and the lemmas on words and lists that the components share.
\<close>

unbundle bit_operations_syntax

named_theorems word_nat \<open>unat equations for word arithmetic that does not wrap\<close>

section \<open>Machine types\<close>

type_synonym u8 = "8 word"
type_synonym u16 = "16 word"
type_synonym u32 = "32 word"

text \<open>C's \<open>int\<close> is 32 bits wide; signed overflow is undefined behaviour.\<close>

definition int_ok :: "int \<Rightarrow> bool" where
  "int_ok x \<longleftrightarrow> - (2 ^ 31) \<le> x \<and> x < 2 ^ 31"

definition chk_int :: "int \<Rightarrow> int option" where
  "chk_int x = (if int_ok x then Some x else None)"

section \<open>Total correctness of computations that may be undefined\<close>

text \<open>
  \<open>runs m Q\<close>: the computation \<open>m\<close> is defined (no access out of bounds, no overflow, no null
  pointer) and its result satisfies \<open>Q\<close>.
\<close>

definition runs :: "'a option \<Rightarrow> ('a \<Rightarrow> bool) \<Rightarrow> bool" where
  "runs m Q = (case m of None \<Rightarrow> False | Some x \<Rightarrow> Q x)"

lemma runs_simps [simp]:
  "runs (Some x) Q = Q x"
  "runs None Q = False"
  "runs (Option.bind m f) Q = runs m (\<lambda>x. runs (f x) Q)"
  by (simp_all add: runs_def split: option.splits bind_splits)

lemma runs_if [simp]: "runs (if b then m else n) Q = (if b then runs m Q else runs n Q)"
  by simp

lemma runs_mono: "runs m P \<Longrightarrow> (\<And>x. P x \<Longrightarrow> Q x) \<Longrightarrow> runs m Q"
  by (simp add: runs_def split: option.splits)

lemma runs_mono_Some: "runs m P \<Longrightarrow> (\<And>x. m = Some x \<Longrightarrow> P x \<Longrightarrow> Q x) \<Longrightarrow> runs m Q"
  by (simp add: runs_def split: option.splits)

lemma runs_mono_pair:
  "runs m (\<lambda>(a, s). P a s) \<Longrightarrow> (\<And>a s. P a s \<Longrightarrow> Q a s) \<Longrightarrow> runs m (\<lambda>(a, s). Q a s)"
  by (auto simp: runs_def split: option.splits)

lemma runs_conj: "runs m P \<Longrightarrow> runs m Q \<Longrightarrow> runs m (\<lambda>x. P x \<and> Q x)"
  by (simp add: runs_def split: option.splits)

lemma runs_iff: "runs m Q \<longleftrightarrow> (\<exists>x. m = Some x \<and> Q x)"
  by (simp add: runs_def split: option.splits)

lemma runsD: "runs m Q \<Longrightarrow> m = Some x \<Longrightarrow> Q x"
  by (simp add: runs_def)

lemma runs_chk_int [simp]: "runs (chk_int x) Q \<longleftrightarrow> int_ok x \<and> Q x"
  by (simp add: chk_int_def)

lemma runs_map_option [simp]: "runs (map_option f m) Q = runs m (\<lambda>x. Q (f x))"
  by (cases m) simp_all

section \<open>Bounded access to a C array\<close>

definition rd :: "'a list \<Rightarrow> nat \<Rightarrow> 'a option" where
  "rd xs i = (if i < length xs then Some (xs ! i) else None)"

definition wr :: "'a list \<Rightarrow> nat \<Rightarrow> 'a \<Rightarrow> 'a list option" where
  "wr xs i v = (if i < length xs then Some (xs[i := v]) else None)"

lemma rd_Some_iff [simp]: "rd xs i = Some v \<longleftrightarrow> i < length xs \<and> xs ! i = v"
  by (auto simp: rd_def)

lemma wr_Some_iff [simp]: "wr xs i v = Some ys \<longleftrightarrow> i < length xs \<and> ys = xs[i := v]"
  by (auto simp: wr_def)

lemma runs_rd [simp]: "runs (rd xs i) Q \<longleftrightarrow> i < length xs \<and> Q (xs ! i)"
  by (simp add: rd_def)

lemma runs_wr [simp]: "runs (wr xs i v) Q \<longleftrightarrow> i < length xs \<and> Q (xs[i := v])"
  by (simp add: wr_def)

section \<open>Counting loops with break and return\<close>

text \<open>
  The body of a C loop either goes on, leaves the loop (\<open>break\<close>) or leaves the function
  (\<open>return\<close>); the loop as a whole falls through to the next statement or returns.
\<close>

datatype ('s, 'r) ctl = Next 's | Break 's | Return 'r 's

datatype ('s, 'r) outcome = Done 's | Returned 'r 's

fun exit_state :: "('s, 'r) outcome \<Rightarrow> 's" where
  "exit_state (Done s) = s"
| "exit_state (Returned r s) = s"

text \<open>The loop \<open>for (uint32_t i = a; i < n; i++) body\<close>.\<close>

function for_loop ::
  "u32 \<Rightarrow> u32 \<Rightarrow> (u32 \<Rightarrow> 's \<Rightarrow> ('s, 'r) ctl option) \<Rightarrow> 's \<Rightarrow> ('s, 'r) outcome option" where
  "for_loop i n body s =
     (if i < n then
        (case body i s of
           None \<Rightarrow> None
         | Some (Next s') \<Rightarrow> for_loop (i + 1) n body s'
         | Some (Break s') \<Rightarrow> Some (Done s')
         | Some (Return r s') \<Rightarrow> Some (Returned r s'))
      else Some (Done s))"
  by pat_completeness auto

lemma unat_inc [word_nat]:
  fixes i n :: u32
  assumes "i < n"
  shows "unat (i + 1) = Suc (unat i)"
  using assms unsigned_less [of n, where ?'a = nat]
  by (simp add: unat_word_ariths word_less_nat_alt)

termination for_loop
  by (relation "measure (\<lambda>(i, n, _, _). unat n - unat i)")
    (auto simp: unat_inc word_less_nat_alt)

declare for_loop.simps [simp del]

text \<open>
  The loop rule.  The invariant is indexed by the counter as a natural number; the two
  postconditions cover leaving by \<open>break\<close> and by \<open>return\<close>.
\<close>

lemma for_loop_rule:
  assumes "unat i \<le> unat n" and "I (unat i) s"
    and "\<And>j s. unat i \<le> unat j \<Longrightarrow> unat j < unat n \<Longrightarrow> I (unat j) s \<Longrightarrow>
      runs (body j s) (\<lambda>out. case out of Next s' \<Rightarrow> I (Suc (unat j)) s'
        | Break s' \<Rightarrow> B s' | Return r s' \<Rightarrow> R r s')"
  shows "runs (for_loop i n body s)
    (\<lambda>out. case out of Done s' \<Rightarrow> I (unat n) s' \<or> B s' | Returned r s' \<Rightarrow> R r s')"
  using assms
proof (induction i n body s rule: for_loop.induct)
  case (1 i n body s)
  show ?case
  proof (cases "i < n")
    case True
    then have lt: "unat i < unat n" by (simp add: word_less_nat_alt)
    have suc: "unat (i + 1) = Suc (unat i)" using True by (rule unat_inc)
    have step: "runs (body i s) (\<lambda>out. case out of Next s' \<Rightarrow> I (Suc (unat i)) s'
        | Break s' \<Rightarrow> B s' | Return r s' \<Rightarrow> R r s')"
      using "1.prems"(2,3) lt by simp
    then obtain out where out: "body i s = Some out"
      and post: "case out of Next s' \<Rightarrow> I (Suc (unat i)) s'
        | Break s' \<Rightarrow> B s' | Return r s' \<Rightarrow> R r s'"
      by (auto simp: runs_iff)
    show ?thesis
    proof (cases out)
      case (Next s')
      have "runs (for_loop (i + 1) n body s')
        (\<lambda>out. case out of Done s' \<Rightarrow> I (unat n) s' \<or> B s' | Returned r s' \<Rightarrow> R r s')"
      proof (rule "1.IH" [OF True out Next])
        show "unat (i + 1) \<le> unat n" using suc lt by simp
        show "I (unat (i + 1)) s'" using post Next suc by simp
      qed (use "1.prems"(3) suc in simp)
      then show ?thesis using True out Next by (subst for_loop.simps) simp
    qed (use True out post in \<open>subst for_loop.simps, simp\<close>)+
  next
    case False
    then have "unat i = unat n" using "1.prems"(1) by (simp add: word_less_nat_alt)
    then show ?thesis using False "1.prems"(2) by (subst for_loop.simps) simp
  qed
qed

text \<open>The form for a loop that neither breaks nor returns.\<close>

lemma for_loop_rule_next:
  assumes "unat i \<le> unat n" and "I (unat i) s"
    and "\<And>j s. unat i \<le> unat j \<Longrightarrow> unat j < unat n \<Longrightarrow> I (unat j) s \<Longrightarrow>
      runs (body j s) (\<lambda>out. \<exists>s'. out = Next s' \<and> I (Suc (unat j)) s')"
  shows "runs (for_loop i n body s) (\<lambda>out. \<exists>s'. out = Done s' \<and> I (unat n) s')"
proof -
  have "runs (for_loop i n body s)
    (\<lambda>out. case out of Done s' \<Rightarrow> I (unat n) s' \<or> False | Returned r s' \<Rightarrow> False)"
    by (rule for_loop_rule [where I = I, OF assms(1,2)], drule (2) assms(3), erule runs_mono) auto
  then show ?thesis by (rule runs_mono) (auto split: outcome.splits)
qed

text \<open>What every turn of a loop preserves, the loop preserves.\<close>

fun ctl_state :: "('s, 'r) ctl \<Rightarrow> 's" where
  "ctl_state (Next s) = s"
| "ctl_state (Break s) = s"
| "ctl_state (Return r s) = s"

lemma for_loop_preserves:
  assumes "for_loop i n body s = Some out"
    and "\<And>j s c. body j s = Some c \<Longrightarrow> P s \<Longrightarrow> P (ctl_state c)" and "P s"
  shows "P (exit_state out)"
  using assms
proof (induction i n body s rule: for_loop.induct)
  case (1 i n body s)
  show ?case
  proof (cases "i < n")
    case True
    then obtain c where c: "body i s = Some c"
      using "1.prems"(1) by (subst (asm) for_loop.simps) (auto split: option.splits)
    then have P: "P (ctl_state c)" using "1.prems"(2,3) by blast
    show ?thesis
    proof (cases c)
      case (Next s')
      then have "for_loop (i + 1) n body s' = Some out"
        using "1.prems"(1) True c by (subst (asm) for_loop.simps) simp
      then show ?thesis using "1.IH" [OF True c Next] "1.prems"(2) P Next by simp
    qed (use "1.prems"(1) True c P in \<open>subst (asm) for_loop.simps, auto\<close>)+
  next
    case False
    then show ?thesis using "1.prems"(1,3) by (subst (asm) for_loop.simps) auto
  qed
qed

section \<open>Words and numbers\<close>

lemma unat_add_le [word_nat]:
  fixes a b :: "'a::len word"
  shows "unat a + unat b < 2 ^ LENGTH('a) \<Longrightarrow> unat (a + b) = unat a + unat b"
  by (simp add: unat_word_ariths)

lemma unat_mult_le [word_nat]:
  fixes a b :: "'a::len word"
  shows "unat a * unat b < 2 ^ LENGTH('a) \<Longrightarrow> unat (a * b) = unat a * unat b"
  by (simp add: unat_word_ariths)

lemmas word_le_unat = word_le_nat_alt word_less_nat_alt

lemma u32_bound: "unat (x :: u32) < 4294967296"
  using unsigned_less [of x, where ?'a = nat] by simp

lemma u16_bound: "unat (x :: u16) < 65536"
  using unsigned_less [of x, where ?'a = nat] by simp

lemma u8_bound: "unat (x :: u8) < 256"
  using unsigned_less [of x, where ?'a = nat] by simp

lemma unat_eq_iff: "(x :: 'a::len word) = y \<longleftrightarrow> unat x = unat y"
  by (simp add: word_unat_eq_iff)

lemma word_bits_eq_iff: "(x :: 'a::len word) = y \<longleftrightarrow> (\<forall>n < LENGTH('a). bit x n \<longleftrightarrow> bit y n)"
  by (auto intro: bit_word_eqI)


lemma uint_of_small: "unat (x :: u32) < 2 ^ 31 \<Longrightarrow> uint x < 2 ^ 31"
  by (metis of_nat_less_iff of_nat_numeral of_nat_power uint_nat)

lemma signed_take_bit_31: "0 \<le> k \<Longrightarrow> k < 2 ^ 31 \<Longrightarrow> signed_take_bit 31 k = (k :: int)"
  by (rule signed_take_bit_int_eq_self) simp_all

lemma sint_of_small:
  assumes "unat (x :: u32) < 2 ^ 31"
  shows "sint x = int (unat x)"
proof -
  have "sint x = signed_take_bit 31 (uint x)" by (subst sint_uint) simp
  also have "\<dots> = uint x"
    by (rule signed_take_bit_31 [OF unsigned_greater_eq uint_of_small [OF assms]])
  finally show ?thesis by simp
qed

declare unat_div_distrib [simp] unat_mod_distrib [simp]

section \<open>Lists\<close>

lemma nth_list_update_if: "i < length xs \<Longrightarrow> xs[i := v] ! j = (if i = j then v else xs ! j)"
  by (auto simp: nth_list_update)

end
