(* ===== verification/Bitmap.thy ===== *)
theory Bitmap
  imports Prelude
begin

text \<open>
  The allocation bitmaps of \<open>src/mm/pmm.c\<close> and \<open>src/mm/vmm.c\<close>: one bit per block in an array
  of bytes.  The C code repeats the same three fragments (compute \<open>byte_idx\<close> and
  \<open>bit_idx\<close>, then test, set or clear the bit); here they are \<open>bitmap_test\<close>, \<open>bitmap_set\<close> and
  \<open>bitmap_clear\<close>; \<open>bm_blocks\<close> is the set of used blocks they act on.
\<close>

section \<open>The C fragments\<close>

text \<open>\<open>1 << bit_idx\<close>, narrowed to the byte it is combined with.\<close>

definition bit_mask :: "u32 \<Rightarrow> u8" where
  "bit_mask bit_idx = push_bit (unat bit_idx) 1"

definition bitmap_test :: "u8 list \<Rightarrow> u32 \<Rightarrow> bool option" where
  "bitmap_test m b =
     do { v \<leftarrow> rd m (unat (b div 8)); Some (v AND bit_mask (b mod 8) \<noteq> 0) }"

definition bitmap_set :: "u8 list \<Rightarrow> u32 \<Rightarrow> u8 list option" where
  "bitmap_set m b =
     do { v \<leftarrow> rd m (unat (b div 8)); wr m (unat (b div 8)) (v OR bit_mask (b mod 8)) }"

definition bitmap_clear :: "u8 list \<Rightarrow> u32 \<Rightarrow> u8 list option" where
  "bitmap_clear m b =
     do { v \<leftarrow> rd m (unat (b div 8)); wr m (unat (b div 8)) (v AND NOT (bit_mask (b mod 8))) }"

section \<open>Their meaning: a set of block numbers\<close>

definition bm_bit :: "u8 list \<Rightarrow> nat \<Rightarrow> bool" where
  "bm_bit m n = bit (m ! (n div 8)) (n mod 8)"

text \<open>The blocks below \<open>n\<close> whose bit is set.\<close>

definition bm_blocks :: "u8 list \<Rightarrow> nat \<Rightarrow> nat set" where
  "bm_blocks m n = {b. b < n \<and> bm_bit m b}"

lemma bm_blocks_iff [simp]: "b \<in> bm_blocks m n \<longleftrightarrow> b < n \<and> bm_bit m b"
  by (simp add: bm_blocks_def)

lemma bm_blocks_subset: "bm_blocks m n \<subseteq> {..<n}"
  by auto

lemma finite_bm_blocks [simp, intro]: "finite (bm_blocks m n)"
  by (rule finite_subset [OF bm_blocks_subset]) simp

lemma card_bm_blocks_le: "card (bm_blocks m n) \<le> n"
  using card_mono [OF _ bm_blocks_subset [of m n]] by simp

lemma bit_bit_mask [simp]: "bit (bit_mask i) n \<longleftrightarrow> n = unat i \<and> n < 8"
  by (auto simp: bit_mask_def bit_exp_iff)

lemma and_mask_zero_iff: "unat i < 8 \<Longrightarrow> v AND bit_mask i = 0 \<longleftrightarrow> \<not> bit v (unat i)"
  by (auto simp: word_bits_eq_iff bit_and_iff)

lemma unat_mod8: "unat ((b :: u32) mod 8) < 8"
  by simp

lemma runs_bitmap_test:
  assumes "unat b < 8 * length m"
  shows "runs (bitmap_test m b) Q \<longleftrightarrow> Q (bm_bit m (unat b))"
proof -
  have "unat (b div 8) < length m" using assms by simp
  then show ?thesis
    by (simp add: bitmap_test_def and_mask_zero_iff [OF unat_mod8] bm_bit_def)
qed

lemma bitmap_test_Some:
  "unat b < 8 * length m \<Longrightarrow> bitmap_test m b = Some (bm_bit m (unat b))"
  using runs_bitmap_test [of b m "\<lambda>x. x = bm_bit m (unat b)"] by (auto simp: runs_iff)

lemma bm_bit_update:
  assumes "b < 8 * length m" and "n < 8 * length m"
    and "\<And>k. k < 8 \<Longrightarrow> bit v k \<longleftrightarrow> (if k = b mod 8 then x else bit (m ! (b div 8)) k)"
  shows "bm_bit (m[b div 8 := v]) n \<longleftrightarrow> (if n = b then x else bm_bit m n)"
proof (cases "n div 8 = b div 8")
  case True
  then have "n = b \<longleftrightarrow> n mod 8 = b mod 8" by (metis div_mult_mod_eq)
  moreover have "b div 8 < length m" using assms(1) by simp
  ultimately show ?thesis using True assms(3) [of "n mod 8"] by (simp add: bm_bit_def)
next
  case False
  then show ?thesis by (auto simp: bm_bit_def)
qed

lemma runs_bitmap_set:
  assumes "unat b < 8 * length m"
    and "\<And>m'. length m' = length m \<Longrightarrow>
      (\<And>n. n < 8 * length m \<Longrightarrow> bm_bit m' n \<longleftrightarrow> n = unat b \<or> bm_bit m n) \<Longrightarrow> Q m'"
  shows "runs (bitmap_set m b) Q"
proof -
  have lt: "unat b div 8 < length m" using assms(1) by simp
  let ?m' = "m[unat b div 8 := m ! (unat b div 8) OR bit_mask (b mod 8)]"
  have "Q ?m'"
  proof (rule assms(2))
    fix n assume "n < 8 * length m"
    then show "bm_bit ?m' n \<longleftrightarrow> n = unat b \<or> bm_bit m n"
      using assms(1) by (subst bm_bit_update [where x = True]) (auto simp: bit_or_iff)
  qed simp
  then show ?thesis using lt by (simp add: bitmap_set_def)
qed

lemma runs_bitmap_clear:
  assumes "unat b < 8 * length m"
    and "\<And>m'. length m' = length m \<Longrightarrow>
      (\<And>n. n < 8 * length m \<Longrightarrow> bm_bit m' n \<longleftrightarrow> n \<noteq> unat b \<and> bm_bit m n) \<Longrightarrow> Q m'"
  shows "runs (bitmap_clear m b) Q"
proof -
  have lt: "unat b div 8 < length m" using assms(1) by simp
  let ?m' = "m[unat b div 8 := m ! (unat b div 8) AND NOT (bit_mask (b mod 8))]"
  have "Q ?m'"
  proof (rule assms(2))
    fix n assume "n < 8 * length m"
    then show "bm_bit ?m' n \<longleftrightarrow> n \<noteq> unat b \<and> bm_bit m n"
      using assms(1)
      by (subst bm_bit_update [where x = False]) (auto simp: bit_and_iff bit_not_iff)
  qed simp
  then show ?thesis using lt by (simp add: bitmap_clear_def)
qed

lemma bm_blocks_set:
  assumes "\<And>k. k < n \<Longrightarrow> bm_bit m' k \<longleftrightarrow> k = b \<or> bm_bit m k" and "b < n"
  shows "bm_blocks m' n = insert b (bm_blocks m n)"
  using assms by auto

lemma bm_blocks_clear:
  assumes "\<And>k. k < n \<Longrightarrow> bm_bit m' k \<longleftrightarrow> k \<noteq> b \<and> bm_bit m k"
  shows "bm_blocks m' n = bm_blocks m n - {b}"
  using assms by auto

text \<open>A byte with all bits set holds eight used blocks.\<close>

lemma full_byte_bits: "m ! k = (0xFF :: u8) \<Longrightarrow> n div 8 = k \<Longrightarrow> bm_bit m n"
proof -
  assume "m ! k = 0xFF" "n div 8 = k"
  moreover have "bit (0xFF :: u8) j" if "j < 8" for j :: nat
  proof -
    have "(0xFF :: u8) = mask 8" by (simp add: mask_eq_exp_minus_1)
    then show ?thesis using that by (simp only: bit_mask_iff) simp
  qed
  ultimately show ?thesis by (simp add: bm_bit_def)
qed

end
