(* ===== verification/CString.thy ===== *)
theory CString
  imports Prelude
begin

text \<open>
  The C library of the kernel, \<open>src/libs/string.c\<close>.

  A \<open>char *\<close> that is only moved forward is the list of the bytes from the pointer to the end
  of its object: \<open>*s\<close> is the head, \<open>s++\<close> the tail, and a dereference of \<open>[]\<close> is an access
  outside the object, which is \<open>None\<close>.  A store through such a pointer returns the updated
  rest of the object.  Functions that move pointers backwards or keep two pointers into one
  object (\<open>memmove\<close>, \<open>itoa\<close>, \<open>strtok\<close>) take the object and offsets into it.  Plain \<open>char\<close> is
  signed on i686, so the promotion of a byte to \<open>int\<close> is \<open>sint\<close>; \<open>uint8_t\<close> promotes with \<open>uint\<close>.
  Sizes are the values of \<open>size_t\<close> as natural numbers.
\<close>

text \<open>The characters of a string literal, without the \<open>NUL\<close> at its end.\<close>

definition ascii :: "string \<Rightarrow> u8 list" where
  "ascii s = map (\<lambda>c. of_nat (of_char c)) s"

section \<open>Memory blocks\<close>

fun memset :: "u8 list \<Rightarrow> u8 \<Rightarrow> nat \<Rightarrow> u8 list option" where
  "memset d c 0 = Some d"
| "memset [] c (Suc n) = None"
| "memset (_ # d) c (Suc n) = map_option (Cons c) (memset d c n)"

fun memcpy :: "u8 list \<Rightarrow> u8 list \<Rightarrow> nat \<Rightarrow> u8 list option" where
  "memcpy p q 0 = Some p"
| "memcpy (_ # p) (x # q) (Suc n) = map_option (Cons x) (memcpy p q n)"
| "memcpy p q (Suc n) = None"

fun memcmp :: "u8 list \<Rightarrow> u8 list \<Rightarrow> nat \<Rightarrow> int option" where
  "memcmp p q 0 = Some 0"
| "memcmp (x # p) (y # q) (Suc n) =
     (if x \<noteq> y then Some (uint x - uint y) else memcmp p q n)"
| "memcmp p q (Suc n) = None"

fun memmove_fwd :: "u8 list \<Rightarrow> nat \<Rightarrow> nat \<Rightarrow> nat \<Rightarrow> u8 list option" where
  "memmove_fwd b d s 0 = Some b"
| "memmove_fwd b d s (Suc n) =
     do { v \<leftarrow> rd b s; b' \<leftarrow> wr b d v; memmove_fwd b' (Suc d) (Suc s) n }"

fun memmove_bwd :: "u8 list \<Rightarrow> nat \<Rightarrow> nat \<Rightarrow> nat \<Rightarrow> u8 list option" where
  "memmove_bwd b d s 0 = Some b"
| "memmove_bwd b d s (Suc n) =
     do { v \<leftarrow> rd b (s + n); b' \<leftarrow> wr b (d + n) v; memmove_bwd b' d s n }"

definition memmove :: "u8 list \<Rightarrow> nat \<Rightarrow> nat \<Rightarrow> nat \<Rightarrow> u8 list option" where
  "memmove b dest src n =
     (if dest < src then memmove_fwd b dest src n else memmove_bwd b dest src n)"

section \<open>Strings\<close>

fun strlen :: "u8 list \<Rightarrow> nat option" where
  "strlen [] = None"
| "strlen (c # s) = (if c \<noteq> 0 then map_option Suc (strlen s) else Some 0)"

fun strncpy_pad :: "u8 list \<Rightarrow> nat \<Rightarrow> u8 list option" where
  "strncpy_pad d 0 = Some d"
| "strncpy_pad [] (Suc n) = None"
| "strncpy_pad (_ # d) (Suc n) = map_option (Cons 0) (strncpy_pad d n)"

fun strncpy :: "u8 list \<Rightarrow> u8 list \<Rightarrow> nat \<Rightarrow> u8 list option" where
  "strncpy d s 0 = Some d"
| "strncpy d [] (Suc n) = None"
| "strncpy d (c # s) (Suc n) =
     (if c \<noteq> 0
      then (case d of [] \<Rightarrow> None | _ # d' \<Rightarrow> map_option (Cons c) (strncpy d' s n))
      else strncpy_pad d (Suc n))"

fun strcmp :: "u8 list \<Rightarrow> u8 list \<Rightarrow> int option" where
  "strcmp (a # s1) (b # s2) =
     (if a = b then (if b = 0 then Some 0 else strcmp s1 s2) else Some 1)"
| "strcmp s1 s2 = None"

fun strncmp :: "u8 list \<Rightarrow> u8 list \<Rightarrow> nat \<Rightarrow> int option" where
  "strncmp s1 s2 0 = Some 0"
| "strncmp (a # s1) (b # s2) (Suc c) =
     (let result = sint a - sint b
      in if result \<noteq> 0 \<or> a = 0 then Some result else strncmp s1 s2 c)"
| "strncmp s1 s2 (Suc c) = None"

fun strcpy :: "u8 list \<Rightarrow> u8 list \<Rightarrow> u8 list option" where
  "strcpy (_ # d) (c # s) = (if c \<noteq> 0 then map_option (Cons c) (strcpy d s) else Some (0 # d))"
| "strcpy d s = None"

fun strcat :: "u8 list \<Rightarrow> u8 list \<Rightarrow> u8 list option" where
  "strcat [] src = None"
| "strcat (x # d) src =
     (if x \<noteq> 0 then map_option (Cons x) (strcat d src) else strcpy (x # d) src)"

fun strncat_copy :: "u8 list \<Rightarrow> u8 list \<Rightarrow> nat \<Rightarrow> u8 list option" where
  "strncat_copy (_ # d) s 0 = Some (0 # d)"
| "strncat_copy (_ # d) (c # s) (Suc n) =
     (if c \<noteq> 0 then map_option (Cons c) (strncat_copy d s n) else Some (0 # d))"
| "strncat_copy d s n = None"

definition strncat :: "u8 list \<Rightarrow> u8 list \<Rightarrow> nat \<Rightarrow> u8 list option" where
  "strncat dest src n =
     do { dest_len \<leftarrow> strlen dest;
          tail \<leftarrow> strncat_copy (drop dest_len dest) src n;
          Some (take dest_len dest @ tail) }"

text \<open>\<open>NULL\<close> is \<open>Some None\<close>: a defined result that is no pointer.\<close>

fun strchr_from :: "u8 list \<Rightarrow> u8 \<Rightarrow> u8 list option option" where
  "strchr_from [] ch = None"
| "strchr_from (x # s) ch =
     (if x \<noteq> 0 then (if x = ch then Some (Some (x # s)) else strchr_from s ch)
      else if ch = 0 then Some (Some (x # s)) else Some None)"

definition strchr :: "u8 list \<Rightarrow> int \<Rightarrow> u8 list option option" where
  "strchr s c = strchr_from s (word_of_int c)"

fun strrchr_from :: "u8 list \<Rightarrow> int \<Rightarrow> u8 list option \<Rightarrow> u8 list option option" where
  "strrchr_from [] c lst = None"
| "strrchr_from (x # s) c lst =
     (if x \<noteq> 0 then strrchr_from s c (if sint x = c then Some (x # s) else lst) else Some lst)"

definition strrchr :: "u8 list \<Rightarrow> int \<Rightarrow> u8 list option option" where
  "strrchr s c = strrchr_from s c None"

fun strstr_scan :: "u8 list \<Rightarrow> u8 \<Rightarrow> u8 list \<Rightarrow> nat \<Rightarrow> u8 list option option" where
  "strstr_scan [] c str len = None"
| "strstr_scan (sc # s) c str len =
     (if sc = 0 then Some None
      else if sc \<noteq> c then strstr_scan s c str len
      else do { r \<leftarrow> strncmp s str len;
                if r \<noteq> 0 then strstr_scan s c str len else Some (Some (sc # s)) })"

definition strstr :: "u8 list \<Rightarrow> u8 list \<Rightarrow> u8 list option option" where
  "strstr s str =
     (case str of
        [] \<Rightarrow> None
      | c # str' \<Rightarrow>
          if c = 0 then Some (Some s)
          else do { len \<leftarrow> strlen str'; strstr_scan s c str' len })"

section \<open>Characters\<close>

definition isspace :: "int \<Rightarrow> bool" where
  "isspace c \<longleftrightarrow> c = 32 \<or> (9 \<le> c \<and> c \<le> 13)"

definition isalpha :: "int \<Rightarrow> bool" where
  "isalpha c \<longleftrightarrow> (65 \<le> c \<and> c \<le> 90) \<or> (97 \<le> c \<and> c \<le> 122)"

definition upper :: "u8 \<Rightarrow> u8" where
  "upper c = (if sint c \<ge> 97 \<and> sint c \<le> 122 then c - 32 else c)"

definition lower :: "u8 \<Rightarrow> u8" where
  "lower c = (if sint c \<ge> 65 \<and> sint c \<le> 90 then c + 32 else c)"

definition toupper :: "int \<Rightarrow> int" where
  "toupper c = (if c \<ge> 97 \<and> c \<le> 122 then c AND NOT 32 else c)"

definition tolower :: "int \<Rightarrow> int" where
  "tolower c = (if c \<ge> 65 \<and> c \<le> 90 then c OR 32 else c)"

definition MIN_c :: "int \<Rightarrow> int \<Rightarrow> int" where
  "MIN_c a b = (if a < b then a else b)"

text \<open>\<open>assert\<close> does not return when the condition is false.\<close>

definition assert_c :: "int \<Rightarrow> unit option" where
  "assert_c condition = (if condition = 0 then None else Some ())"

section \<open>Numbers\<close>

definition itoa_divisor :: "int \<Rightarrow> nat" where
  "itoa_divisor base = (if base = 120 then 16 else 10)"

definition itoa_digit :: "nat \<Rightarrow> u8" where
  "itoa_digit r = (if r < 10 then of_nat (r + 48) else of_nat (r + 97 - 10))"

text \<open>The \<open>do \<dots> while (ud /= divisor)\<close> loop: \<open>p\<close> is the offset of the store pointer.\<close>

function itoa_digits :: "u8 list \<Rightarrow> nat \<Rightarrow> nat \<Rightarrow> int \<Rightarrow> (u8 list \<times> nat) option" where
  "itoa_digits buf p ud base =
     (case wr buf p (itoa_digit (ud mod itoa_divisor base)) of
        None \<Rightarrow> None
      | Some buf' \<Rightarrow>
          if ud div itoa_divisor base = 0 then Some (buf', Suc p)
          else itoa_digits buf' (Suc p) (ud div itoa_divisor base) base)"
  by pat_completeness auto
termination
  by (relation "measure (\<lambda>(_, _, ud, _). ud)") (auto simp: itoa_divisor_def split: if_splits)

declare itoa_digits.simps [simp del]

function itoa_reverse :: "u8 list \<Rightarrow> nat \<Rightarrow> nat \<Rightarrow> u8 list option" where
  "itoa_reverse buf p1 p2 =
     (if p1 < p2 then
        do { a \<leftarrow> rd buf p1; b \<leftarrow> rd buf p2;
             buf \<leftarrow> wr buf p1 b; buf \<leftarrow> wr buf p2 a;
             itoa_reverse buf (Suc p1) (p2 - 1) }
      else Some buf)"
  by pat_completeness auto
termination
  by (relation "measure (\<lambda>(_, p1, p2). p2 - p1)") auto

declare itoa_reverse.simps [simp del]

definition itoa :: "u8 list \<Rightarrow> int \<Rightarrow> int \<Rightarrow> u8 list option" where
  "itoa buf base d =
     do { (buf, start, ud) \<leftarrow>
            (if base = 100 \<and> d < 0
             then do { buf' \<leftarrow> wr buf 0 45; ud \<leftarrow> chk_int (- d); Some (buf', 1, nat ud) }
             else Some (buf, 0, nat (d mod 2 ^ 32)));
          (buf, p) \<leftarrow> itoa_digits buf start ud base;
          buf \<leftarrow> wr buf p 0;
          itoa_reverse buf start (p - 1) }"

fun atoi_skip :: "u8 list \<Rightarrow> u8 list option" where
  "atoi_skip [] = None"
| "atoi_skip (c # s) = (if c = 32 \<or> c = 9 \<or> c = 10 then atoi_skip s else Some (c # s))"

fun atoi_digits :: "u8 list \<Rightarrow> int \<Rightarrow> int option" where
  "atoi_digits [] result = None"
| "atoi_digits (c # s) result =
     (if sint c \<ge> 48 \<and> sint c \<le> 57
      then do { r10 \<leftarrow> chk_int (result * 10);
                r \<leftarrow> chk_int (r10 + (sint c - 48));
                atoi_digits s r }
      else Some result)"

definition atoi :: "u8 list \<Rightarrow> int option" where
  "atoi str =
     do { s \<leftarrow> atoi_skip str;
          c \<leftarrow> rd s 0;
          (if c = 45 then do { r \<leftarrow> atoi_digits (tl s) 0; chk_int (- 1 * r) }
           else if c = 43 then atoi_digits (tl s) 0
           else atoi_digits s 0) }"

section \<open>Tokens\<close>

text \<open>
  \<open>strtok\<close> keeps the static pointer \<open>last\<close> into the object being split; here the object is
  \<open>buf\<close> and \<open>last\<close> an offset into it, \<open>None\<close> for \<open>NULL\<close>.
\<close>

function strtok_skip :: "u8 list \<Rightarrow> u8 list \<Rightarrow> nat \<Rightarrow> nat option" where
  "strtok_skip buf delim p =
     (if p < length buf
      then (if buf ! p \<noteq> 0
            then do { d \<leftarrow> strchr delim (sint (buf ! p));
                      if d \<noteq> None then strtok_skip buf delim (Suc p) else Some p }
            else Some p)
      else None)"
  by pat_completeness auto
termination
  by (relation "measure (\<lambda>(buf, _, p). length buf - p)") auto

function strtok_end :: "u8 list \<Rightarrow> u8 list \<Rightarrow> nat \<Rightarrow> nat option" where
  "strtok_end buf delim p =
     (if p < length buf
      then (if buf ! p \<noteq> 0
            then do { d \<leftarrow> strchr delim (sint (buf ! p));
                      if d = None then strtok_end buf delim (Suc p) else Some p }
            else Some p)
      else None)"
  by pat_completeness auto
termination
  by (relation "measure (\<lambda>(buf, _, p). length buf - p)") auto

declare strtok_skip.simps [simp del] strtok_end.simps [simp del]

definition strtok ::
  "u8 list \<Rightarrow> nat option \<Rightarrow> nat option \<Rightarrow> u8 list \<Rightarrow> (nat option \<times> u8 list \<times> nat option) option" where
  "strtok buf lst str delim =
     (case (case str of Some p \<Rightarrow> Some p | None \<Rightarrow> lst) of
        None \<Rightarrow> Some (None, buf, None)
      | Some p \<Rightarrow>
          do { token_start \<leftarrow> strtok_skip buf delim p;
               c \<leftarrow> rd buf token_start;
               (if c = 0 then Some (None, buf, Some token_start)
                else do { e \<leftarrow> strtok_end buf delim token_start;
                          c \<leftarrow> rd buf e;
                          (if c \<noteq> 0
                           then do { buf' \<leftarrow> wr buf e 0; Some (Some token_start, buf', Some (Suc e)) }
                           else Some (Some token_start, buf, None)) }) })"

section \<open>What the memory functions do\<close>

lemma memset_ok: "n \<le> length d \<Longrightarrow> memset d c n = Some (replicate n c @ drop n d)"
  by (induction d c n rule: memset.induct) auto

lemma memcpy_ok:
  "n \<le> length p \<Longrightarrow> n \<le> length q \<Longrightarrow> memcpy p q n = Some (take n q @ drop n p)"
  by (induction p q n rule: memcpy.induct) (auto simp: neq_Nil_conv Suc_le_length_iff)

lemma memcmp_ok:
  "n \<le> length p \<Longrightarrow> n \<le> length q \<Longrightarrow>
     \<exists>r. memcmp p q n = Some r \<and> (r = 0 \<longleftrightarrow> take n p = take n q)"
  by (induction p q n rule: memcmp.induct) (auto simp: word_uint_eq_iff)

lemma memmove_fwd_ok:
  "d < s \<Longrightarrow> s + n \<le> length b \<Longrightarrow>
     memmove_fwd b d s n = Some (take d b @ take n (drop s b) @ drop (d + n) b)"
proof (induction b d s n rule: memmove_fwd.induct)
  case (1 b d s)
  then show ?case by simp
next
  case (2 b d s n)
  let ?b = "b[d := b ! s]"
  have "memmove_fwd ?b (Suc d) (Suc s) n
      = Some (take (Suc d) ?b @ take n (drop (Suc s) ?b) @ drop (Suc d + n) ?b)"
    using "2.prems" by (intro "2.IH") auto
  moreover have "take (Suc d) ?b = take d b @ [b ! s]"
    using "2.prems" by (simp add: take_Suc_conv_app_nth)
  moreover have "take (Suc n) (drop s b) = b ! s # take n (drop (Suc s) b)"
    using "2.prems" by (simp add: Cons_nth_drop_Suc [symmetric])
  ultimately show ?case using "2.prems" by (simp add: rd_def wr_def)
qed

lemma memmove_bwd_ok:
  "s \<le> d \<Longrightarrow> d + n \<le> length b \<Longrightarrow>
     memmove_bwd b d s n = Some (take d b @ take n (drop s b) @ drop (d + n) b)"
proof (induction b d s n rule: memmove_bwd.induct)
  case (1 b d s)
  then show ?case by simp
next
  case (2 b d s n)
  let ?b = "b[d + n := b ! (s + n)]"
  have "memmove_bwd ?b d s n = Some (take d ?b @ take n (drop s ?b) @ drop (d + n) ?b)"
    using "2.prems" by (intro "2.IH") auto
  moreover have "take n (drop s ?b) = take n (drop s b)"
    using "2.prems" by (simp add: drop_update_swap)
  moreover have "drop (d + n) ?b = b ! (s + n) # drop (Suc (d + n)) b"
    using "2.prems" by (simp add: Cons_nth_drop_Suc [symmetric])
  moreover have "take (Suc n) (drop s b) = take n (drop s b) @ [b ! (s + n)]"
    using "2.prems" by (simp add: take_Suc_conv_app_nth)
  ultimately show ?case using "2.prems" by (simp add: rd_def wr_def)
qed

section \<open>What the string functions do\<close>

text \<open>\<open>cstr p xs\<close>: the pointer \<open>p\<close> points to the NUL-terminated string \<open>xs\<close>.\<close>

definition cstr :: "u8 list \<Rightarrow> u8 list \<Rightarrow> bool" where
  "cstr p xs \<longleftrightarrow> 0 \<notin> set xs \<and> (\<exists>rest. p = xs @ 0 # rest)"

lemma cstr_Nil [simp]: "cstr p [] \<longleftrightarrow> (\<exists>rest. p = 0 # rest)"
  by (simp add: cstr_def)

lemma cstr_Cons [simp]: "cstr p (x # xs) \<longleftrightarrow> x \<noteq> 0 \<and> (\<exists>p'. p = x # p' \<and> cstr p' xs)"
  by (auto simp: cstr_def)

lemma not_cstr_empty [simp]: "\<not> cstr [] xs"
  by (simp add: cstr_def)

lemma cstr_split:
  "cstr (x # p) xs \<longleftrightarrow> (if x = 0 then xs = [] else (\<exists>ys. xs = x # ys \<and> cstr p ys))"
  by (cases xs) auto

lemma strlen_iff: "strlen p = Some n \<longleftrightarrow> (\<exists>xs. cstr p xs \<and> length xs = n)"
  by (induction p arbitrary: n) (auto simp: cstr_split)

lemma strlen_cstr: "cstr p xs \<Longrightarrow> strlen p = Some (length xs)"
  by (auto simp: strlen_iff)

lemma strcmp_ok:
  "cstr p xs \<Longrightarrow> cstr q ys \<Longrightarrow> \<exists>r. strcmp p q = Some r \<and> (r = 0 \<longleftrightarrow> xs = ys)"
  by (induction p q arbitrary: xs ys rule: strcmp.induct) (auto simp: cstr_split split: if_splits)

lemma strncmp_prefix:
  "cstr p xs \<Longrightarrow> cstr q ys \<Longrightarrow>
     \<exists>r. strncmp p q (length ys) = Some r \<and> (r = 0 \<longleftrightarrow> take (length ys) xs = ys)"
proof (induction ys arbitrary: p q xs)
  case Nil
  then show ?case by simp
next
  case (Cons y ys)
  then obtain q' where q: "q = y # q'" "y \<noteq> 0" "cstr q' ys" by auto
  show ?case
  proof (cases xs)
    case Nil
    with Cons.prems q show ?thesis by (auto simp: Let_def signed_eq_0_iff)
  next
    case (Cons x xs')
    with Cons.prems(1) obtain p' where p: "p = x # p'" "x \<noteq> 0" "cstr p' xs'" by auto
    from Cons.IH [OF p(3) q(3)] show ?thesis using p q Cons
      by (auto simp: Let_def dest: signed_word_eqI)
  qed
qed

lemma strncpy_pad_ok: "n \<le> length d \<Longrightarrow> strncpy_pad d n = Some (replicate n 0 @ drop n d)"
  by (induction d n rule: strncpy_pad.induct) auto

lemma strncpy_ok:
  "cstr s xs \<Longrightarrow> n \<le> length d \<Longrightarrow>
     strncpy d s n = Some (take n xs @ replicate (n - length xs) 0 @ drop n d)"
proof (induction d s n arbitrary: xs rule: strncpy.induct)
  case (3 d c s n)
  then obtain x d' where d: "d = x # d'" by (cases d) auto
  show ?case
  proof (cases "c = 0")
    case True
    then show ?thesis using "3.prems" d by (simp add: cstr_split strncpy_pad_ok)
  next
    case False
    then show ?thesis using "3.prems" "3.IH" [OF False d] d by (auto simp: cstr_split)
  qed
qed auto

lemma strcpy_ok:
  "cstr s xs \<Longrightarrow> length xs < length d \<Longrightarrow>
     strcpy d s = Some (xs @ 0 # drop (Suc (length xs)) d)"
  by (induction d s arbitrary: xs rule: strcpy.induct) (auto simp: cstr_split split: if_splits)

lemma strcat_ok:
  "cstr d xs \<Longrightarrow> cstr s ys \<Longrightarrow> length xs + length ys < length d \<Longrightarrow>
     strcat d s = Some (xs @ ys @ 0 # drop (Suc (length xs + length ys)) d)"
  by (induction d s arbitrary: xs rule: strcat.induct)
    (auto simp: cstr_split strcpy_ok split: if_splits)

lemma strncat_copy_ok:
  "cstr s ys \<Longrightarrow> min n (length ys) < length d \<Longrightarrow>
     strncat_copy d s n = Some (take n ys @ 0 # drop (Suc (min n (length ys))) d)"
  by (induction d s n arbitrary: ys rule: strncat_copy.induct)
    (auto simp: cstr_split split: if_splits)

lemma strchr_from_ok:
  "cstr s xs \<Longrightarrow> ch \<noteq> 0 \<Longrightarrow>
     strchr_from s ch = Some (if ch \<in> set xs
       then Some (drop (length (takeWhile (\<lambda>x. x \<noteq> ch) xs)) s) else None)"
  by (induction s ch arbitrary: xs rule: strchr_from.induct) (auto simp: cstr_split split: if_splits)

section \<open>Substring search\<close>

definition occurs_at :: "u8 list \<Rightarrow> u8 list \<Rightarrow> nat \<Rightarrow> bool" where
  "occurs_at ys xs i \<longleftrightarrow> take (length ys) (drop i xs) = ys"

lemma occurs_at_Suc [simp]: "occurs_at ys (x # xs) (Suc i) = occurs_at ys xs i"
  by (simp add: occurs_at_def)

lemma strstr_scan_ok:
  assumes "cstr s xs" and "c \<noteq> 0" and "cstr str ys"
  shows "\<exists>r. strstr_scan s c str (length ys) = Some r \<and>
    (case r of None \<Rightarrow> \<forall>i. \<not> occurs_at (c # ys) xs i
     | Some t \<Rightarrow> \<exists>i. t = drop i s \<and> occurs_at (c # ys) xs i \<and> (\<forall>j<i. \<not> occurs_at (c # ys) xs j))"
  using assms(1)
proof (induction xs arbitrary: s)
  case Nil
  then show ?case by (auto simp: occurs_at_def)
next
  case (Cons x xs)
  then obtain s' where s: "s = x # s'" "x \<noteq> 0" "cstr s' xs" by auto
  have zero: "occurs_at (c # ys) (x # xs) 0 \<longleftrightarrow> x = c \<and> take (length ys) xs = ys"
    by (auto simp: occurs_at_def)
  obtain r where r: "strstr_scan s' c str (length ys) = Some r"
    and post: "case r of None \<Rightarrow> \<forall>i. \<not> occurs_at (c # ys) xs i
     | Some t \<Rightarrow> \<exists>i. t = drop i s' \<and> occurs_at (c # ys) xs i \<and> (\<forall>j<i. \<not> occurs_at (c # ys) xs j)"
    using Cons.IH [OF s(3)] by blast
  obtain k where k: "strncmp s' str (length ys) = Some k"
    and k0: "k = 0 \<longleftrightarrow> take (length ys) xs = ys"
    using strncmp_prefix [OF s(3) assms(3)] by blast
  show ?case
  proof (cases "occurs_at (c # ys) (x # xs) 0")
    case True
    then have "strstr_scan s c str (length ys) = Some (Some s)"
      using s k k0 zero by simp
    then show ?thesis using True by (intro exI [of _ "Some s"]) (auto intro!: exI [of _ 0])
  next
    case False
    then have "strstr_scan s c str (length ys) = Some r"
      using s k k0 zero r by simp
    moreover have "case r of None \<Rightarrow> \<forall>i. \<not> occurs_at (c # ys) (x # xs) i
     | Some t \<Rightarrow> \<exists>i. t = drop i s \<and> occurs_at (c # ys) (x # xs) i \<and>
         (\<forall>j<i. \<not> occurs_at (c # ys) (x # xs) j)"
    proof (cases r)
      case None
      have "\<not> occurs_at (c # ys) (x # xs) i" for i
        using False None post by (cases i) auto
      then show ?thesis using None by simp
    next
      case (Some t)
      then obtain i where i: "t = drop i s'" "occurs_at (c # ys) xs i"
        "\<forall>j<i. \<not> occurs_at (c # ys) xs j" using post by auto
      have "\<not> occurs_at (c # ys) (x # xs) j" if "j < Suc i" for j
        using that False i(3) by (cases j) auto
      then show ?thesis using Some i s(1) by (auto intro!: exI [of _ "Suc i"])
    qed
    ultimately show ?thesis by blast
  qed
qed

section \<open>Decimal digits\<close>

text \<open>The digits \<open>itoa\<close> stores before it reverses them, least significant first.\<close>

function ud_digits :: "int \<Rightarrow> nat \<Rightarrow> nat list" where
  "ud_digits base ud =
     ud mod itoa_divisor base #
     (if ud div itoa_divisor base = 0 then [] else ud_digits base (ud div itoa_divisor base))"
  by pat_completeness auto
termination
  by (relation "measure snd") (auto simp: itoa_divisor_def split: if_splits)

declare ud_digits.simps [simp del]

lemma ud_digits_nonempty [simp]: "ud_digits base ud \<noteq> []"
  by (subst ud_digits.simps) simp

lemma itoa_divisor_pos: "0 < itoa_divisor base"
  by (simp add: itoa_divisor_def)

lemma ud_digits_lt: "d \<in> set (ud_digits base ud) \<Longrightarrow> d < itoa_divisor base"
proof (induction base ud rule: ud_digits.induct)
  case (1 base ud)
  then show ?case
    using itoa_divisor_pos [of base]
    by (subst (asm) (2) ud_digits.simps) (auto split: if_splits)
qed

lemma ud_digits_value:
  "foldr (\<lambda>d a. d + itoa_divisor base * a) (ud_digits base ud) 0 = ud"
proof (induction base ud rule: ud_digits.induct)
  case (1 base ud)
  then show ?case by (subst ud_digits.simps) (auto simp: div_eq_0_iff split: if_splits)
qed

lemma ud_digits_length: "ud < itoa_divisor base ^ k \<Longrightarrow> 0 < k \<Longrightarrow> length (ud_digits base ud) \<le> k"
proof (induction base ud arbitrary: k rule: ud_digits.induct)
  case (1 base ud)
  show ?case
  proof (cases "ud div itoa_divisor base = 0")
    case True
    then show ?thesis using "1.prems" by (subst ud_digits.simps) simp
  next
    case False
    then have "itoa_divisor base \<le> ud" by (metis div_less not_less)
    with "1.prems"(1) have "k \<noteq> 1" by auto
    with "1.prems"(2) have k: "k = Suc (k - 1)" "0 < k - 1" by auto
    let ?j = "k - 1"
    have "ud < itoa_divisor base * itoa_divisor base ^ ?j"
      using "1.prems"(1) k(1) by (metis power_Suc)
    then have "ud div itoa_divisor base < itoa_divisor base ^ ?j"
      by (simp add: less_mult_imp_div_less mult.commute)
    then have "length (ud_digits base (ud div itoa_divisor base)) \<le> ?j"
      using "1.IH" [OF False] k(2) by blast
    then show ?thesis using False k(1) by (subst ud_digits.simps) simp
  qed
qed

lemma itoa_digits_ok:
  "p + length (ud_digits base ud) \<le> length buf \<Longrightarrow>
     itoa_digits buf p ud base =
       Some (take p buf @ map itoa_digit (ud_digits base ud) @ drop (p + length (ud_digits base ud)) buf,
         p + length (ud_digits base ud))"
proof (induction buf p ud base rule: itoa_digits.induct)
  case (1 buf p ud base)
  let ?dv = "itoa_divisor base"
  let ?b = "buf[p := itoa_digit (ud mod ?dv)]"
  have p: "p < length buf"
    using "1.prems" by (subst (asm) ud_digits.simps) (auto split: if_splits)
  then have wr: "wr buf p (itoa_digit (ud mod ?dv)) = Some ?b"
    by simp
  have tk: "take (Suc p) ?b = take p buf @ [itoa_digit (ud mod ?dv)]"
    using p by (simp add: take_Suc_conv_app_nth)
  show ?case
  proof (cases "ud div ?dv = 0")
    case True
    then show ?thesis using p
      by (subst itoa_digits.simps, subst (1 2 3) ud_digits.simps)
        (simp add: wr_def upd_conv_take_nth_drop)
  next
    case False
    then have ud: "ud_digits base ud = ud mod ?dv # ud_digits base (ud div ?dv)"
      by (subst ud_digits.simps) simp
    then show ?thesis
      using "1.IH" [OF wr False] "1.prems" p tk False
      by (subst itoa_digits.simps) (simp add: wr_def)
  qed
qed

lemma itoa_reverse_ok:
  "m \<noteq> [] \<Longrightarrow>
     itoa_reverse (a @ m @ b) (length a) (length a + length m - 1) = Some (a @ rev m @ b)"
proof (induction "length m" arbitrary: m a b rule: less_induct)
  case less
  show ?case
  proof (cases "length m \<le> 1")
    case True
    then obtain x where "m = [x]" using less.prems by (cases m) auto
    then show ?thesis by (subst itoa_reverse.simps) simp
  next
    case False
    then obtain x m1 where m1: "m = x # m1" "m1 \<noteq> []" by (cases m) auto
    then obtain m' y where m: "m = x # m' @ [y]" by (cases m1 rule: rev_cases) auto
    let ?b1 = "(a @ [y]) @ m' @ (x # b)"
    have "itoa_reverse ?b1 (Suc (length a)) (length a + length m') = Some (a @ rev m @ b)"
    proof (cases "m' = []")
      case True
      then show ?thesis using m by (subst itoa_reverse.simps) simp
    next
      case False
      then show ?thesis using less.hyps [of m' "a @ [y]" "x # b"] m by simp
    qed
    moreover have "(a @ m @ b)[length a := y, Suc (length a + length m') := x] = ?b1"
      using m by (simp add: list_update_append)
    ultimately show ?thesis using m
      by (subst itoa_reverse.simps) (simp add: rd_def wr_def nth_append)
  qed
qed

section \<open>Printing and reading back\<close>

lemma sint_itoa_digit: "r < 10 \<Longrightarrow> sint (itoa_digit r) = int r + 48"
proof -
  assume "r < 10"
  then have "r \<in> {0, 1, 2, 3, 4, 5, 6, 7, 8, 9}" by auto
  then show ?thesis by (auto simp: itoa_digit_def)
qed

abbreviation dec_value :: "int \<Rightarrow> nat list \<Rightarrow> int" where
  "dec_value acc ds \<equiv> foldl (\<lambda>a d. a * 10 + int d) acc ds"

lemma dec_value_ge: "0 \<le> acc \<Longrightarrow> acc \<le> dec_value acc ds"
proof (induction ds arbitrary: acc)
  case (Cons d ds)
  then have "acc * 10 + int d \<le> dec_value (acc * 10 + int d) ds" by simp
  then show ?case using Cons.prems by simp
qed simp

lemma dec_value_digits: "dec_value 0 (rev (ud_digits 100 ud)) = int ud"
proof -
  have "dec_value 0 (rev ds) = int (foldr (\<lambda>d a. d + 10 * a) ds 0)" for ds
    by (induction ds) (simp_all add: mult.commute)
  moreover have "foldr (\<lambda>d a. d + 10 * a) (ud_digits 100 ud) 0 = ud"
    using ud_digits_value [of 100 ud] by (simp add: itoa_divisor_def)
  ultimately show ?thesis by simp
qed

lemma atoi_digits_ok:
  "(\<forall>d\<in>set ds. d < 10) \<Longrightarrow> 0 \<le> acc \<Longrightarrow> dec_value acc ds < 2 ^ 31 \<Longrightarrow>
     atoi_digits (map itoa_digit ds @ 0 # rest) acc = Some (dec_value acc ds)"
proof (induction ds arbitrary: acc)
  case Nil
  then show ?case by simp
next
  case (Cons d ds)
  then have "acc * 10 + int d \<le> dec_value (acc * 10 + int d) ds"
    by (intro dec_value_ge) simp
  with Cons.prems have "int_ok (acc * 10)" "int_ok (acc * 10 + int d)"
    by (auto simp: int_ok_def)
  with Cons show ?case by (simp add: sint_itoa_digit chk_int_def)
qed

lemma itoa_ok:
  assumes "if d < 0 then buf = x # buf' \<and> - (2 ^ 31) < d else buf = buf' \<and> d < 2 ^ 31"
    and "length (ud_digits 100 (nat \<bar>d\<bar>)) < length buf'"
  shows "itoa buf 100 d = Some ((if d < 0 then [45] else [])
    @ map itoa_digit (rev (ud_digits 100 (nat \<bar>d\<bar>))) @ 0
      # drop (Suc (length (ud_digits 100 (nat \<bar>d\<bar>)))) buf')"
proof -
  let ?ds = "ud_digits 100 (nat \<bar>d\<bar>)" and ?pre = "if d < 0 then [45 :: u8] else []"
  let ?n = "length ?ds"
  have len: "?n + length ?pre < length (?pre @ buf')" using assms(2) by simp
  have dig: "itoa_digits (?pre @ buf') (length ?pre) (nat \<bar>d\<bar>) 100
    = Some (?pre @ map itoa_digit ?ds @ drop ?n buf', length ?pre + ?n)"
    using len by (subst itoa_digits_ok) auto
  have dr: "drop ?n buf' = buf' ! ?n # drop (Suc ?n) buf'"
    using assms(2) by (simp add: Cons_nth_drop_Suc)
  have nul: "wr (?pre @ map itoa_digit ?ds @ drop ?n buf') (length ?pre + ?n) 0
    = Some (?pre @ map itoa_digit ?ds @ 0 # drop (Suc ?n) buf')"
    using len dr by (simp add: wr_def list_update_append)
  have rev: "itoa_reverse (?pre @ map itoa_digit ?ds @ 0 # drop (Suc ?n) buf')
      (length ?pre) (length ?pre + ?n - 1)
    = Some (?pre @ map itoa_digit (rev ?ds) @ 0 # drop (Suc ?n) buf')"
    using itoa_reverse_ok [of "map itoa_digit ?ds" ?pre "0 # drop (Suc ?n) buf'"]
    by (simp add: rev_map)
  show ?thesis
  proof (cases "d < 0")
    case True
    with assms(1) have "itoa buf 100 d =
      do { (buf, p) \<leftarrow> itoa_digits (?pre @ buf') (length ?pre) (nat \<bar>d\<bar>) 100;
           buf \<leftarrow> wr buf p 0; itoa_reverse buf (length ?pre) (p - 1) }"
      by (simp add: itoa_def wr_def chk_int_def int_ok_def)
    then show ?thesis by (simp only: dig bind.bind_lunit prod.case nul rev)
  next
    case False
    with assms(1) have "itoa buf 100 d =
      do { (buf, p) \<leftarrow> itoa_digits (?pre @ buf') (length ?pre) (nat \<bar>d\<bar>) 100;
           buf \<leftarrow> wr buf p 0; itoa_reverse buf (length ?pre) (p - 1) }"
      by (simp add: itoa_def)
    then show ?thesis by (simp only: dig bind.bind_lunit prod.case nul rev)
  qed
qed

lemma atoi_itoa_image:
  assumes "- (2 ^ 31) < d" and "d < 2 ^ 31"
  shows "atoi ((if d < 0 then [45] else []) @
    map itoa_digit (rev (ud_digits 100 (nat \<bar>d\<bar>))) @ 0 # rest) = Some d"
proof -
  let ?ds = "rev (ud_digits 100 (nat \<bar>d\<bar>))"
  have small: "\<forall>e\<in>set ?ds. e < 10"
    using ud_digits_lt [of _ 100] by (auto simp: itoa_divisor_def)
  have val: "atoi_digits (map itoa_digit ?ds @ 0 # rest) 0 = Some \<bar>d\<bar>"
    using assms small by (subst atoi_digits_ok) (simp_all add: dec_value_digits)
  obtain e es where e: "?ds = e # es" by (cases ?ds) auto
  with small have "e < 10" by simp
  then have s: "sint (itoa_digit e) = int e + 48" by (rule sint_itoa_digit)
  have ne: "itoa_digit e \<noteq> 32" "itoa_digit e \<noteq> 9" "itoa_digit e \<noteq> 10"
    "itoa_digit e \<noteq> 45" "itoa_digit e \<noteq> 43"
    using s by auto
  show ?thesis
  proof (cases "d < 0")
    case True
    then show ?thesis using val assms
      by (simp add: atoi_def rd_def chk_int_def int_ok_def)
  next
    case False
    then show ?thesis using val e ne by (simp add: atoi_def rd_def)
  qed
qed

lemma ud_digits_length_int: "ud < 2 ^ 31 \<Longrightarrow> length (ud_digits 100 ud) \<le> 10"
  by (rule ud_digits_length) (simp_all add: itoa_divisor_def)

section \<open>Properties\<close>

text \<open>C36. Decimal printing and parsing are inverse: in a buffer of twelve bytes \<open>itoa(buf, 'd', d)\<close>
  is defined for every \<open>int\<close> except the least one, and \<open>atoi\<close> reads the number back.\<close>

theorem atoi_itoa:
  assumes "12 \<le> length buf" and "- (2 ^ 31) < d" and "d < 2 ^ 31"
  shows "\<exists>b. itoa buf 100 d = Some b \<and> length b = length buf \<and> atoi b = Some d"
proof -
  obtain x buf1 where buf: "buf = x # buf1" using assms(1) by (cases buf) auto
  define buf' where "buf' = (if d < 0 then buf1 else buf)"
  have small: "length (ud_digits 100 (nat \<bar>d\<bar>)) \<le> 10"
    using assms by (intro ud_digits_length_int) auto
  then have len: "length (ud_digits 100 (nat \<bar>d\<bar>)) < length buf'"
    using assms(1) buf by (cases "d < 0") (simp_all add: buf'_def)
  have "if d < 0 then buf = x # buf' \<and> - (2 ^ 31) < d else buf = buf' \<and> d < 2 ^ 31"
    using assms buf by (simp add: buf'_def)
  from itoa_ok [OF this len] atoi_itoa_image [OF assms(2,3)] len buf show ?thesis
    by (auto simp: buf'_def)
qed

theorem atoi_itoa_witness:
  "\<exists>b. itoa (replicate 12 0) 100 (- 1234) = Some b \<and> length b = 12 \<and> atoi b = Some (- 1234)"
  using atoi_itoa [of "replicate 12 0" "- 1234"] by simp

text \<open>\<open>memmove\<close> copies the source block as it was before the call, for every overlap of the
  two blocks, and leaves the rest of the object alone.\<close>

theorem memmove_correct:
  assumes "dest + n \<le> length b" and "src + n \<le> length b"
  shows "memmove b dest src n = Some (take dest b @ take n (drop src b) @ drop (dest + n) b)"
  using assms by (auto simp: memmove_def memmove_fwd_ok memmove_bwd_ok)

theorem memmove_correct_witness:
  "memmove [1, 2, 3, 4, 5] 1 0 3 = Some [1, 1, 2, 3, 5]"
  using memmove_correct [of 1 3 "[1, 2, 3, 4, 5]" 0] by (simp add: numeral_3_eq_3)

text \<open>\<open>strstr\<close> returns the first occurrence of the pattern, and \<open>NULL\<close> exactly when the pattern
  does not occur; on two C strings it never reads outside them.\<close>

theorem strstr_correct:
  assumes "cstr s xs" and "cstr str ys"
  shows "\<exists>r. strstr s str = Some r \<and>
    (case r of None \<Rightarrow> \<forall>i. \<not> occurs_at ys xs i
     | Some t \<Rightarrow> \<exists>i. t = drop i s \<and> occurs_at ys xs i \<and> (\<forall>j<i. \<not> occurs_at ys xs j))"
proof (cases ys)
  case Nil
  then show ?thesis using assms(2)
    by (auto simp: strstr_def occurs_at_def intro!: exI [of _ "Some s"] exI [of _ 0])
next
  case (Cons c ys')
  then obtain str' where str: "str = c # str'" "c \<noteq> 0" "cstr str' ys'" using assms(2) by auto
  then have "strstr s str = strstr_scan s c str' (length ys')"
    by (simp add: strstr_def strlen_cstr)
  then show ?thesis using strstr_scan_ok [OF assms(1) str(2,3)] unfolding Cons by (simp only:)
qed

theorem strstr_correct_witness:
  "\<exists>r. strstr [97, 98, 97, 98, 99, 0] [97, 98, 99, 0] = Some r \<and> r \<noteq> None"
proof -
  let ?xs = "[97, 98, 97, 98, 99] :: u8 list" and ?ys = "[97, 98, 99] :: u8 list"
  have "occurs_at ?ys ?xs 2" by (simp add: occurs_at_def)
  then show ?thesis
    using strstr_correct [of "?xs @ [0]" ?xs "?ys @ [0]" ?ys]
    by (auto simp: cstr_def split: option.splits)
qed

end
