(* ===== verification/Pmm.thy ===== *)
theory Pmm
  imports Bitmap CString
begin

text \<open>
  The physical memory manager, \<open>src/mm/pmm.c\<close>: a bitmap with one bit per 4 KiB block, a count
  of the used blocks and a next-fit hint.  The file-level variables are the record \<open>pmm\<close>; the
  bitmap buffer that \<open>pmm_memory_map\<close> points to is its contents (\<open>[]\<close> while the pointer is
  \<open>NULL\<close>).  A block address is returned as a number, with 0 for \<open>NULL\<close>, as the C code does.
  Log output is left out.
\<close>

section \<open>State\<close>

record pmm =
  pmm_memory_size :: u32
  pmm_used_blocks :: u32
  pmm_max_blocks :: u32
  pmm_memory_map :: "u8 list"
  pmm_initialized :: bool
  pmm_last_alloc :: u32

definition pmm_boot :: pmm where
  "pmm_boot = \<lparr>pmm_memory_size = 0, pmm_used_blocks = 0, pmm_max_blocks = 0,
     pmm_memory_map = [], pmm_initialized = False, pmm_last_alloc = 0\<rparr>"

abbreviation (input) PMM_BLOCK_SIZE :: u32 where
  "PMM_BLOCK_SIZE \<equiv> 4096"

abbreviation (input) PMM_BLOCKS_PER_BYTE :: u32 where
  "PMM_BLOCKS_PER_BYTE \<equiv> 8"

section \<open>Marking regions\<close>

definition mark_used_body :: "u32 \<Rightarrow> u32 \<Rightarrow> pmm \<Rightarrow> (pmm, unit) ctl option" where
  "mark_used_body start_block i s =
     (let block = start_block + i in
      if block \<ge> pmm_max_blocks s then Some (Break s)
      else do { used \<leftarrow> bitmap_test (pmm_memory_map s) block;
                if \<not> used
                then do { m \<leftarrow> bitmap_set (pmm_memory_map s) block;
                          Some (Next (s\<lparr>pmm_memory_map := m,
                            pmm_used_blocks := pmm_used_blocks s + 1\<rparr>)) }
                else Some (Next s) })"

definition pmm_mark_used_region :: "u32 \<Rightarrow> u32 \<Rightarrow> pmm \<Rightarrow> pmm option" where
  "pmm_mark_used_region base sz s =
     (let start_block = base div PMM_BLOCK_SIZE;
          num_blocks = (sz + PMM_BLOCK_SIZE - 1) div PMM_BLOCK_SIZE
      in map_option exit_state (for_loop 0 num_blocks (mark_used_body start_block) s))"

definition mark_unused_body :: "u32 \<Rightarrow> u32 \<Rightarrow> pmm \<Rightarrow> (pmm, unit) ctl option" where
  "mark_unused_body start_block i s =
     (let block = start_block + i in
      if block \<ge> pmm_max_blocks s then Some (Break s)
      else do { used \<leftarrow> bitmap_test (pmm_memory_map s) block;
                if used
                then do { m \<leftarrow> bitmap_clear (pmm_memory_map s) block;
                          Some (Next (s\<lparr>pmm_memory_map := m,
                            pmm_used_blocks := pmm_used_blocks s - 1\<rparr>)) }
                else Some (Next s) })"

definition pmm_mark_unused_region :: "u32 \<Rightarrow> u32 \<Rightarrow> pmm \<Rightarrow> pmm option" where
  "pmm_mark_unused_region base sz s =
     (let start_block = base div PMM_BLOCK_SIZE;
          num_blocks = (sz + PMM_BLOCK_SIZE - 1) div PMM_BLOCK_SIZE
      in map_option exit_state (for_loop 0 num_blocks (mark_unused_body start_block) s))"

section \<open>Initialisation\<close>

text \<open>
  \<open>kernel_start\<close> and \<open>kernel_end\<close> are the addresses of the linker's symbols
  \<open>__kernel_physical_start\<close> and \<open>__kernel_physical_end\<close>; \<open>bitmap_addr\<close> and \<open>bitmap\<close> are the
  address and the contents of the buffer the caller passes (address 0 for \<open>NULL\<close>).
\<close>

definition pmm_init ::
  "u32 \<Rightarrow> u32 \<Rightarrow> u32 \<Rightarrow> u32 \<Rightarrow> u8 list \<Rightarrow> pmm \<Rightarrow> pmm option" where
  "pmm_init kernel_start kernel_end mem_size bitmap_addr bitmap s =
     (if mem_size = 0 \<or> bitmap_addr = 0 then Some s
      else do {
        let max_blocks = (mem_size + PMM_BLOCK_SIZE - 1) div PMM_BLOCK_SIZE;
        let bitmap_size = (max_blocks + PMM_BLOCKS_PER_BYTE - 1) div PMM_BLOCKS_PER_BYTE;
        m \<leftarrow> memset bitmap 0 (unat bitmap_size);
        let s = s\<lparr>pmm_memory_size := mem_size, pmm_memory_map := m,
                  pmm_max_blocks := max_blocks, pmm_used_blocks := 0\<rparr>;
        s \<leftarrow> pmm_mark_used_region 0 0x100000 s;
        s \<leftarrow> pmm_mark_used_region kernel_start (kernel_end - kernel_start) s;
        s \<leftarrow> pmm_mark_used_region bitmap_addr (pmm_max_blocks s div PMM_BLOCKS_PER_BYTE) s;
        Some (s\<lparr>pmm_initialized := True\<rparr>) })"

definition pmm_get_total_memory :: "pmm \<Rightarrow> u32" where
  "pmm_get_total_memory s = pmm_memory_size s"

section \<open>Allocating one block\<close>

definition alloc_block_bit :: "u32 \<Rightarrow> u32 \<Rightarrow> pmm \<Rightarrow> (pmm, u32) ctl option" where
  "alloc_block_bit byte_idx bit_idx s =
     (let block = byte_idx * PMM_BLOCKS_PER_BYTE + bit_idx in
      if block \<ge> pmm_max_blocks s then Some (Break s)
      else do { v \<leftarrow> rd (pmm_memory_map s) (unat byte_idx);
                if v AND bit_mask bit_idx = 0
                then do { m \<leftarrow> wr (pmm_memory_map s) (unat byte_idx) (v OR bit_mask bit_idx);
                          Some (Return (block * PMM_BLOCK_SIZE)
                            (s\<lparr>pmm_memory_map := m, pmm_used_blocks := pmm_used_blocks s + 1\<rparr>)) }
                else Some (Next s) })"

definition alloc_block_byte :: "u32 \<Rightarrow> pmm \<Rightarrow> (pmm, u32) ctl option" where
  "alloc_block_byte byte_idx s =
     do { v \<leftarrow> rd (pmm_memory_map s) (unat byte_idx);
          if v = 0xFF then Some (Next s)
          else do { r \<leftarrow> for_loop 0 PMM_BLOCKS_PER_BYTE (alloc_block_bit byte_idx) s;
                    Some (case r of Done s' \<Rightarrow> Next s' | Returned a s' \<Rightarrow> Return a s') } }"

definition pmm_alloc_block :: "pmm \<Rightarrow> (u32 \<times> pmm) option" where
  "pmm_alloc_block s =
     (if pmm_used_blocks s \<ge> pmm_max_blocks s then Some (0, s)
      else do { r \<leftarrow> for_loop 0 (pmm_max_blocks s div PMM_BLOCKS_PER_BYTE) alloc_block_byte s;
                Some (case r of Done s' \<Rightarrow> (0, s') | Returned a s' \<Rightarrow> (a, s')) })"

section \<open>Contiguous blocks\<close>

definition pmm_is_block_free :: "u32 \<Rightarrow> pmm \<Rightarrow> bool option" where
  "pmm_is_block_free block s =
     (if block \<ge> pmm_max_blocks s then Some False
      else map_option Not (bitmap_test (pmm_memory_map s) block))"

text \<open>The inner loop counts \<open>j\<close>; its value after the loop is the loop's state.\<close>

definition run_body :: "u32 \<Rightarrow> pmm \<Rightarrow> u32 \<Rightarrow> u32 \<Rightarrow> (u32, unit) ctl option" where
  "run_body i s j _ =
     (if i + j \<ge> pmm_max_blocks s then Some (Break j)
      else do { free \<leftarrow> pmm_is_block_free (i + j) s;
                Some (if free then Next (j + 1) else Break j) })"

definition find_contiguous_body :: "u32 \<Rightarrow> pmm \<Rightarrow> u32 \<Rightarrow> unit \<Rightarrow> (unit, u32) ctl option" where
  "find_contiguous_body num_blocks s i _ =
     do { free \<leftarrow> pmm_is_block_free i s;
          if free
          then do { r \<leftarrow> for_loop 0 num_blocks (run_body i s) 0;
                    Some (if exit_state r = num_blocks then Return i () else Next ()) }
          else Some (Next ()) }"

definition find_contiguous_free_blocks :: "u32 \<Rightarrow> pmm \<Rightarrow> u32 option" where
  "find_contiguous_free_blocks num_blocks s =
     do { r \<leftarrow> for_loop 0 (pmm_max_blocks s) (find_contiguous_body num_blocks s) ();
          Some (case r of Done _ \<Rightarrow> - 1 | Returned i _ \<Rightarrow> i) }"

definition mark_block_used :: "u32 \<Rightarrow> pmm \<Rightarrow> pmm option" where
  "mark_block_used block s =
     do { m \<leftarrow> bitmap_set (pmm_memory_map s) block;
          Some (s\<lparr>pmm_memory_map := m, pmm_used_blocks := pmm_used_blocks s + 1\<rparr>) }"

definition mark_run :: "u32 \<Rightarrow> u32 \<Rightarrow> pmm \<Rightarrow> pmm option" where
  "mark_run start_block num_blocks s =
     map_option exit_state
       (for_loop 0 num_blocks
         (\<lambda>i s. map_option Next (mark_block_used (start_block + i) s) :: (pmm, unit) ctl option) s)"

definition pmm_alloc_contiguous :: "u32 \<Rightarrow> pmm \<Rightarrow> (u32 \<times> pmm) option" where
  "pmm_alloc_contiguous num_blocks s =
     (if num_blocks = 0 \<or> num_blocks > pmm_max_blocks s then Some (0, s)
      else do { start_block \<leftarrow> find_contiguous_free_blocks num_blocks s;
                if sint start_block < 0 then Some (0, s)
                else do { s' \<leftarrow> mark_run start_block num_blocks s;
                          Some (start_block * PMM_BLOCK_SIZE, s') } })"

definition clear_block :: "u32 \<Rightarrow> pmm \<Rightarrow> pmm option" where
  "clear_block block s =
     do { m \<leftarrow> bitmap_clear (pmm_memory_map s) block;
          Some (s\<lparr>pmm_memory_map := m, pmm_used_blocks := pmm_used_blocks s - 1\<rparr>) }"

definition double_free_check :: "u32 \<Rightarrow> pmm \<Rightarrow> u32 \<Rightarrow> unit \<Rightarrow> (unit, unit) ctl option" where
  "double_free_check block s i _ =
     do { free \<leftarrow> pmm_is_block_free (block + i) s; Some (if free then Return () () else Next ()) }"

definition pmm_free_contiguous :: "u32 \<Rightarrow> u32 \<Rightarrow> pmm \<Rightarrow> pmm option" where
  "pmm_free_contiguous ptr num_blocks s =
     (if ptr = 0 \<or> num_blocks = 0 then Some s
      else let block = ptr div PMM_BLOCK_SIZE in
        if block + num_blocks > pmm_max_blocks s then Some s
        else do { r \<leftarrow> for_loop 0 num_blocks (double_free_check block s) ();
                  case r of
                    Returned _ _ \<Rightarrow> Some s
                  | Done _ \<Rightarrow>
                      map_option exit_state
                        (for_loop 0 num_blocks
                          (\<lambda>i s. map_option Next (clear_block (block + i) s) :: (pmm, unit) ctl option) s) })"

section \<open>Next-fit allocation of several blocks\<close>

definition validate_allocation_request :: "u32 \<Rightarrow> pmm \<Rightarrow> bool" where
  "validate_allocation_request blocks s =
     (if \<not> pmm_initialized s then False
      else if blocks = 0 \<or> blocks > pmm_max_blocks s then False
      else if pmm_used_blocks s + blocks > pmm_max_blocks s then False
      else True)"

record scan =
  consecutive :: u32
  start_block :: u32
  scanned :: pmm

text \<open>\<open>for (i = start_block; i < start_block + num_blocks; i++)\<close> marks the run and counts it.\<close>

definition mark_range :: "u32 \<Rightarrow> u32 \<Rightarrow> pmm \<Rightarrow> pmm option" where
  "mark_range first num_blocks s =
     map_option exit_state
       (for_loop first (first + num_blocks)
         (\<lambda>i s. map_option Next (mark_block_used i s) :: (pmm, unit) ctl option) s)"

definition alloc_blocks_body :: "u32 \<Rightarrow> u32 \<Rightarrow> scan \<Rightarrow> (scan, u32) ctl option" where
  "alloc_blocks_body num_blocks block st =
     do { used \<leftarrow> bitmap_test (pmm_memory_map (scanned st)) block;
          if \<not> used
          then do {
            let st = (if consecutive st = 0 then st\<lparr>start_block := block\<rparr> else st);
            let st = st\<lparr>consecutive := consecutive st + 1\<rparr>;
            if consecutive st = num_blocks
            then do {
              s \<leftarrow> mark_range (start_block st) num_blocks (scanned st);
              let s = s\<lparr>pmm_last_alloc := (start_block st + num_blocks) mod pmm_max_blocks s\<rparr>;
              Some (Return (start_block st * PMM_BLOCK_SIZE) (st\<lparr>scanned := s\<rparr>)) }
            else Some (Next st) }
          else Some (Next (st\<lparr>consecutive := 0\<rparr>)) }"

text \<open>
  One turn of the \<open>while (tries < max_tries)\<close> loop: scan from \<open>start\<close>, then continue from 0.  The
  counters \<open>consecutive\<close> and \<open>start_block\<close> keep their values from one turn to the next.
\<close>

definition alloc_blocks_try :: "u32 \<Rightarrow> u32 \<Rightarrow> u32 \<times> scan \<Rightarrow> (u32 \<times> scan, u32) ctl option" where
  "alloc_blocks_try num_blocks tries st =
     (case st of (start, sc) \<Rightarrow>
        do { r \<leftarrow> for_loop start (pmm_max_blocks (scanned sc)) (alloc_blocks_body num_blocks) sc;
             Some (case r of Done sc' \<Rightarrow> Next (0, sc') | Returned a sc' \<Rightarrow> Return a (start, sc')) })"

definition pmm_alloc_blocks :: "u32 \<Rightarrow> pmm \<Rightarrow> (u32 \<times> pmm) option" where
  "pmm_alloc_blocks num_blocks s =
     (if \<not> validate_allocation_request num_blocks s then Some (0, s)
      else do { r \<leftarrow> for_loop 0 2 (alloc_blocks_try num_blocks)
                       (pmm_last_alloc s, \<lparr>consecutive = 0, start_block = 0, scanned = s\<rparr>);
                Some (case r of Done (_, sc) \<Rightarrow> (0, scanned sc)
                      | Returned a (_, sc) \<Rightarrow> (a, scanned sc)) })"

section \<open>Freeing\<close>

text \<open>
  \<open>pmm_free_block\<close>: the \<open>if (p == NULL)\<close> has no braces, so the \<open>return\<close> after the log line is
  executed for every argument, and the rest of the function is never reached.  That rest is
  kept here as \<open>pmm_free_block_unreached\<close>.
\<close>

definition pmm_free_block_unreached :: "u32 \<Rightarrow> pmm \<Rightarrow> pmm option" where
  "pmm_free_block_unreached addr s =
     (if addr mod PMM_BLOCK_SIZE \<noteq> 0 then Some s
      else let block = addr div PMM_BLOCK_SIZE in
        if block \<ge> pmm_max_blocks s then Some s
        else do { used \<leftarrow> bitmap_test (pmm_memory_map s) block;
                  if used then clear_block block s else Some s })"

definition pmm_free_block :: "u32 \<Rightarrow> pmm \<Rightarrow> pmm option" where
  "pmm_free_block p s =
     do { r \<leftarrow> (if p = 0 then Some s else Some s);  \<comment> \<open>only the log line depends on \<open>p\<close>\<close>
          Some r }"

text \<open>
  \<open>num_blocks\<close> is an \<open>int\<close>; \<open>start_block + num_blocks\<close> is computed in \<open>uint32_t\<close>.  The loop
  variable counts below a positive \<open>num_blocks\<close>, so its values are those of \<open>uint32_t\<close>.
\<close>

definition pmm_free_blocks :: "u32 \<Rightarrow> u32 \<Rightarrow> pmm \<Rightarrow> pmm option" where
  "pmm_free_blocks p num_blocks s =
     (if p = 0 \<or> sint num_blocks \<le> 0 then Some s
      else if p div PMM_BLOCK_SIZE + num_blocks > pmm_max_blocks s then Some s
      else map_option exit_state
        (for_loop 0 num_blocks
          (\<lambda>i s. map_option Next (pmm_free_block (p + i * PMM_BLOCK_SIZE) s) :: (pmm, unit) ctl option) s))"

section \<open>Allocating within an address range\<close>

definition alloc_range_body :: "u32 \<Rightarrow> u32 \<Rightarrow> scan \<Rightarrow> (scan, u32) ctl option" where
  "alloc_range_body num_blocks block st =
     do { free \<leftarrow> pmm_is_block_free block (scanned st);
          if free
          then do {
            let st = (if consecutive st = 0 then st\<lparr>start_block := block\<rparr> else st);
            let st = st\<lparr>consecutive := consecutive st + 1\<rparr>;
            if consecutive st = num_blocks
            then do {
              m \<leftarrow> for_loop 0 num_blocks
                     (\<lambda>i m. map_option Next (bitmap_set m (start_block st + i)) :: (u8 list, unit) ctl option)
                     (pmm_memory_map (scanned st));
              let s = (scanned st)\<lparr>pmm_memory_map := exit_state m,
                        pmm_used_blocks := pmm_used_blocks (scanned st) + num_blocks\<rparr>;
              Some (Return (start_block st * PMM_BLOCK_SIZE) (st\<lparr>scanned := s\<rparr>)) }
            else Some (Next st) }
          else Some (Next (st\<lparr>consecutive := 0\<rparr>)) }"

definition pmm_alloc_blocks_in_range :: "u32 \<Rightarrow> u32 \<Rightarrow> u32 \<Rightarrow> pmm \<Rightarrow> (u32 \<times> pmm) option" where
  "pmm_alloc_blocks_in_range num_blocks start_addr end_addr s =
     (if num_blocks = 0 \<or> start_addr \<ge> end_addr then Some (0, s)
      else
        let start_addr = (start_addr + PMM_BLOCK_SIZE - 1) AND NOT (PMM_BLOCK_SIZE - 1);
            end_addr = end_addr AND NOT (PMM_BLOCK_SIZE - 1);
            first = start_addr div PMM_BLOCK_SIZE;
            end_block = end_addr div PMM_BLOCK_SIZE
        in do { r \<leftarrow> for_loop first end_block (alloc_range_body num_blocks)
                       \<lparr>consecutive = 0, start_block = 0, scanned = s\<rparr>;
                Some (case r of Done sc \<Rightarrow> (0, scanned sc) | Returned a sc \<Rightarrow> (a, scanned sc)) })"

section \<open>The invariant\<close>

text \<open>The blocks marked used, as a set of block numbers; and the fields that no allocation changes.\<close>

definition pmm_used :: "pmm \<Rightarrow> nat set" where
  "pmm_used s = bm_blocks (pmm_memory_map s) (unat (pmm_max_blocks s))"

definition pmm_frame :: "pmm \<Rightarrow> u32 \<times> u32 \<times> nat \<times> bool" where
  "pmm_frame s = (pmm_memory_size s, pmm_max_blocks s, length (pmm_memory_map s), pmm_initialized s)"

text \<open>
  The bitmap covers every block, there are at most \<open>2 ^ 20\<close> blocks (4 GiB), and the counter is the
  number of used blocks.
\<close>

definition pmm_inv :: "pmm \<Rightarrow> bool" where
  "pmm_inv s \<longleftrightarrow> unat (pmm_max_blocks s) \<le> 8 * length (pmm_memory_map s)
     \<and> unat (pmm_max_blocks s) \<le> 2 ^ 20
     \<and> unat (pmm_used_blocks s) = card (pmm_used s)"

abbreviation pmm_blocks :: "pmm \<Rightarrow> nat" where
  "pmm_blocks s \<equiv> unat (pmm_max_blocks s)"

lemma finite_pmm_used [simp, intro]: "finite (pmm_used s)"
  by (simp add: pmm_used_def)

lemma pmm_used_lt: "b \<in> pmm_used s \<Longrightarrow> b < pmm_blocks s"
  by (simp add: pmm_used_def)

lemma pmm_inv_bounds:
  "pmm_inv s \<Longrightarrow> pmm_blocks s \<le> 8 * length (pmm_memory_map s)"
  "pmm_inv s \<Longrightarrow> pmm_blocks s \<le> 1048576"
  by (simp_all add: pmm_inv_def)

lemma pmm_frame_max: "pmm_frame s' = pmm_frame s \<Longrightarrow> pmm_max_blocks s' = pmm_max_blocks s"
  by (simp add: pmm_frame_def)

lemma pmm_test:
  assumes "pmm_inv s" and "unat b < pmm_blocks s"
  shows "bitmap_test (pmm_memory_map s) b = Some (unat b \<in> pmm_used s)"
  using assms by (subst bitmap_test_Some) (auto simp: pmm_used_def pmm_inv_def)

lemma runs_mark_block_used:
  assumes "pmm_inv s" and "unat b < pmm_blocks s" and "unat b \<notin> pmm_used s"
    and "\<And>s'. pmm_inv s' \<Longrightarrow> pmm_used s' = insert (unat b) (pmm_used s) \<Longrightarrow>
      pmm_frame s' = pmm_frame s \<Longrightarrow> pmm_last_alloc s' = pmm_last_alloc s \<Longrightarrow> Q s'"
  shows "runs (mark_block_used b s) Q"
proof -
  have b: "unat b < 8 * length (pmm_memory_map s)"
    using assms(1,2) by (simp add: pmm_inv_def)
  have room: "card (pmm_used s) < pmm_blocks s"
  proof -
    have "card (insert (unat b) (pmm_used s)) \<le> card {..<pmm_blocks s}"
      using assms(2) by (intro card_mono) (auto dest: pmm_used_lt)
    then show ?thesis using assms(3) by simp
  qed
  then have inc: "unat (pmm_used_blocks s + 1) = Suc (card (pmm_used s))"
    using assms(1) u32_bound [of "pmm_max_blocks s"] by (subst unat_add_le) (auto simp: pmm_inv_def)
  show ?thesis
    unfolding mark_block_used_def runs_simps
  proof (rule runs_bitmap_set [OF b])
    fix m' assume len: "length m' = length (pmm_memory_map s)"
      and bits: "\<And>n. n < 8 * length (pmm_memory_map s) \<Longrightarrow>
        bm_bit m' n \<longleftrightarrow> n = unat b \<or> bm_bit (pmm_memory_map s) n"
    let ?s = "s\<lparr>pmm_memory_map := m', pmm_used_blocks := pmm_used_blocks s + 1\<rparr>"
    have used: "pmm_used ?s = insert (unat b) (pmm_used s)"
      using bits assms(1,2) by (auto simp: pmm_used_def pmm_inv_def)
    then have "pmm_inv ?s" using assms(1,3) len inc by (simp add: pmm_inv_def)
    then show "Q ?s" using used len by (intro assms(4)) (simp_all add: pmm_frame_def)
  qed
qed

lemma runs_clear_block:
  assumes "pmm_inv s" and "unat b < pmm_blocks s" and "unat b \<in> pmm_used s"
    and "\<And>s'. pmm_inv s' \<Longrightarrow> pmm_used s' = pmm_used s - {unat b} \<Longrightarrow>
      pmm_frame s' = pmm_frame s \<Longrightarrow> pmm_last_alloc s' = pmm_last_alloc s \<Longrightarrow> Q s'"
  shows "runs (clear_block b s) Q"
proof -
  have b: "unat b < 8 * length (pmm_memory_map s)"
    using assms(1,2) by (simp add: pmm_inv_def)
  have pos: "0 < card (pmm_used s)" using assms(3) by (auto simp: card_gt_0_iff)
  then have dec: "unat (pmm_used_blocks s - 1) = card (pmm_used s) - 1"
    using assms(1) by (subst unat_sub) (auto simp: pmm_inv_def word_le_nat_alt)
  show ?thesis
    unfolding clear_block_def runs_simps
  proof (rule runs_bitmap_clear [OF b])
    fix m' assume len: "length m' = length (pmm_memory_map s)"
      and bits: "\<And>n. n < 8 * length (pmm_memory_map s) \<Longrightarrow>
        bm_bit m' n \<longleftrightarrow> n \<noteq> unat b \<and> bm_bit (pmm_memory_map s) n"
    let ?s = "s\<lparr>pmm_memory_map := m', pmm_used_blocks := pmm_used_blocks s - 1\<rparr>"
    have used: "pmm_used ?s = pmm_used s - {unat b}"
      using bits assms(1) by (auto simp: pmm_used_def pmm_inv_def)
    then have "pmm_inv ?s" using assms(1,3) len dec by (simp add: pmm_inv_def)
    then show "Q ?s" using used len by (intro assms(4)) (simp_all add: pmm_frame_def)
  qed
qed

section \<open>Marking regions\<close>

lemma mark_used_body_eq:
  "mark_used_body start i s =
     (if start + i \<ge> pmm_max_blocks s then Some (Break s)
      else do { used \<leftarrow> bitmap_test (pmm_memory_map s) (start + i);
                if \<not> used then map_option Next (mark_block_used (start + i) s) else Some (Next s) })"
  by (simp add: mark_used_body_def mark_block_used_def Let_def map_option_bind
      option.map_comp o_def bind_map_option cong: if_cong)

lemma mark_unused_body_eq:
  "mark_unused_body start i s =
     (if start + i \<ge> pmm_max_blocks s then Some (Break s)
      else do { used \<leftarrow> bitmap_test (pmm_memory_map s) (start + i);
                if used then map_option Next (clear_block (start + i) s) else Some (Next s) })"
  by (simp add: mark_unused_body_def clear_block_def Let_def map_option_bind
      option.map_comp o_def bind_map_option cong: if_cong)

text \<open>The blocks a region of \<open>sz\<close> bytes at \<open>base\<close> touches, as the code computes them.\<close>

definition region_blocks :: "u32 \<Rightarrow> u32 \<Rightarrow> nat set" where
  "region_blocks base sz =
     {unat base div 4096 ..< unat base div 4096 + unat (sz + 4095) div 4096}"

lemma interval_insert:
  "st + k < n \<Longrightarrow> A \<union> ({st ..< st + Suc k} \<inter> {..<n}) =
     insert (st + k) (A \<union> ({st ..< st + k} \<inter> {..<n}))"
  for st k n :: nat
  by auto

lemma interval_remove: "A - {st ..< st + Suc k} = A - {st ..< st + k} - {st + k}"
  for st k :: nat
  by auto

lemma region_add:
  fixes base i sz :: u32
  assumes "unat i < unat ((sz + 4095 :: u32) div 4096)"
  shows "unat (base div 4096 + i) = unat base div 4096 + unat i"
  using assms u32_bound [of base] u32_bound [of "sz + 4095"]
  by (subst unat_add_le) simp_all

lemma pmm_mark_used_region_ok:
  assumes inv: "pmm_inv s"
    and post: "\<And>s'. pmm_inv s' \<Longrightarrow> pmm_frame s' = pmm_frame s \<Longrightarrow>
      pmm_used s' = pmm_used s \<union> (region_blocks base sz \<inter> {..<pmm_blocks s}) \<Longrightarrow> Q s'"
  shows "runs (pmm_mark_used_region base sz s) Q"
proof -
  let ?st = "unat base div 4096" and ?n = "(sz + 4095) div 4096 :: u32"
  define I where "I = (\<lambda>k s'. pmm_inv s' \<and> pmm_frame s' = pmm_frame s \<and>
    pmm_used s' = pmm_used s \<union> ({?st ..< ?st + k} \<inter> {..<pmm_blocks s}))"
  have "runs (for_loop 0 ?n (mark_used_body (base div 4096)) s)
    (\<lambda>out. case out of Done s' \<Rightarrow> I (unat ?n) s' \<or> I (unat ?n) s' | Returned r s' \<Rightarrow> False)"
  proof (rule for_loop_rule [where I = I])
    show "I (unat (0 :: u32)) s" using inv by (simp add: I_def)
  next
    fix j :: u32 and s' assume j: "unat j < unat ?n" and I: "I (unat j) s'"
    have add: "unat (base div 4096 + j) = ?st + unat j" using j by (rule region_add)
    have inv': "pmm_inv s'" and max: "pmm_max_blocks s' = pmm_max_blocks s"
      using I by (auto simp: I_def dest: pmm_frame_max)
    show "runs (mark_used_body (base div 4096) j s') (\<lambda>out. case out of
      Next s' \<Rightarrow> I (Suc (unat j)) s' | Break s' \<Rightarrow> I (unat ?n) s' | Return r s' \<Rightarrow> False)"
    proof (cases "?st + unat j < pmm_blocks s")
      case False
      then have eq: "{?st ..< ?st + unat j} \<inter> {..<pmm_blocks s} =
        {?st ..< ?st + unat ?n} \<inter> {..<pmm_blocks s}" using j by auto
      have "I (unat ?n) s'" using I unfolding I_def eq by simp
      then show ?thesis using False add max
        by (simp add: mark_used_body_eq word_le_nat_alt)
    next
      case True
      then have lt: "unat (base div 4096 + j) < pmm_blocks s'" using add max by simp
      have ins: "pmm_used s \<union> ({?st ..< ?st + Suc (unat j)} \<inter> {..<pmm_blocks s}) =
        insert (?st + unat j) (pmm_used s')"
        using I interval_insert [OF True] by (simp add: I_def)
      show ?thesis
      proof (cases "?st + unat j \<in> pmm_used s'")
        case True
        then have "I (Suc (unat j)) s'" using I ins by (simp add: I_def insert_absorb)
        then show ?thesis using lt True add pmm_test [OF inv' lt]
          by (simp add: mark_used_body_eq word_le_nat_alt)
      next
        case False
        have "runs (mark_block_used (base div 4096 + j) s') (I (Suc (unat j)))"
          using inv' lt False I ins add
          by (intro runs_mark_block_used) (simp_all add: I_def)
        then show ?thesis using lt False add pmm_test [OF inv' lt]
          by (simp add: mark_used_body_eq word_le_nat_alt)
      qed
    qed
  qed simp
  then have "runs (for_loop 0 ?n (mark_used_body (base div 4096)) s) (\<lambda>out. Q (exit_state out))"
  proof (rule runs_mono)
    fix out :: "(pmm, unit) outcome"
    assume "case out of Done s' \<Rightarrow> I (unat ?n) s' \<or> I (unat ?n) s' | Returned r s' \<Rightarrow> False"
    then obtain s' where "out = Done s'" "I (unat ?n) s'" by (cases out) auto
    then show "Q (exit_state out)" by (simp add: I_def region_blocks_def post)
  qed
  then show ?thesis by (simp add: pmm_mark_used_region_def add.commute)
qed

lemma pmm_mark_unused_region_ok:
  assumes inv: "pmm_inv s"
    and post: "\<And>s'. pmm_inv s' \<Longrightarrow> pmm_frame s' = pmm_frame s \<Longrightarrow>
      pmm_used s' = pmm_used s - region_blocks base sz \<Longrightarrow> Q s'"
  shows "runs (pmm_mark_unused_region base sz s) Q"
proof -
  let ?st = "unat base div 4096" and ?n = "(sz + 4095) div 4096 :: u32"
  define I where "I = (\<lambda>k s'. pmm_inv s' \<and> pmm_frame s' = pmm_frame s \<and>
    pmm_used s' = pmm_used s - {?st ..< ?st + k})"
  have "runs (for_loop 0 ?n (mark_unused_body (base div 4096)) s)
    (\<lambda>out. case out of Done s' \<Rightarrow> I (unat ?n) s' \<or> I (unat ?n) s' | Returned r s' \<Rightarrow> False)"
  proof (rule for_loop_rule [where I = I])
    show "I (unat (0 :: u32)) s" using inv by (simp add: I_def)
  next
    fix j :: u32 and s' assume j: "unat j < unat ?n" and I: "I (unat j) s'"
    have add: "unat (base div 4096 + j) = ?st + unat j" using j by (rule region_add)
    have inv': "pmm_inv s'" and max: "pmm_max_blocks s' = pmm_max_blocks s"
      using I by (auto simp: I_def dest: pmm_frame_max)
    show "runs (mark_unused_body (base div 4096) j s') (\<lambda>out. case out of
      Next s' \<Rightarrow> I (Suc (unat j)) s' | Break s' \<Rightarrow> I (unat ?n) s' | Return r s' \<Rightarrow> False)"
    proof (cases "?st + unat j < pmm_blocks s")
      case False
      then have "pmm_used s - {?st ..< ?st + unat j} = pmm_used s - {?st ..< ?st + unat ?n}"
        using j by (auto dest: pmm_used_lt)
      then have "I (unat ?n) s'" using I unfolding I_def by simp
      then show ?thesis using False add max
        by (simp add: mark_unused_body_eq word_le_nat_alt)
    next
      case True
      then have lt: "unat (base div 4096 + j) < pmm_blocks s'" using add max by simp
      have del: "pmm_used s - {?st ..< ?st + Suc (unat j)} = pmm_used s' - {?st + unat j}"
        using I interval_remove [of "pmm_used s" ?st "unat j"] by (simp add: I_def)
      show ?thesis
      proof (cases "?st + unat j \<in> pmm_used s'")
        case False
        then have "I (Suc (unat j)) s'" using I del by (simp add: I_def)
        then show ?thesis using lt False add pmm_test [OF inv' lt]
          by (simp add: mark_unused_body_eq word_le_nat_alt)
      next
        case True
        have "runs (clear_block (base div 4096 + j) s') (I (Suc (unat j)))"
          using inv' lt True I del add
          by (intro runs_clear_block) (simp_all add: I_def)
        then show ?thesis using lt True add pmm_test [OF inv' lt]
          by (simp add: mark_unused_body_eq word_le_nat_alt)
      qed
    qed
  qed simp
  then have "runs (for_loop 0 ?n (mark_unused_body (base div 4096)) s) (\<lambda>out. Q (exit_state out))"
  proof (rule runs_mono)
    fix out :: "(pmm, unit) outcome"
    assume "case out of Done s' \<Rightarrow> I (unat ?n) s' \<or> I (unat ?n) s' | Returned r s' \<Rightarrow> False"
    then obtain s' where "out = Done s'" "I (unat ?n) s'" by (cases out) auto
    then show "Q (exit_state out)" by (simp add: I_def region_blocks_def post)
  qed
  then show ?thesis by (simp add: pmm_mark_unused_region_def add.commute)
qed

section \<open>Initialisation\<close>

text \<open>The blocks reserved at boot: the first megabyte, the kernel image and (part of) the bitmap.\<close>

definition boot_reserved :: "u32 \<Rightarrow> u32 \<Rightarrow> u32 \<Rightarrow> u32 \<Rightarrow> nat set" where
  "boot_reserved kernel_start kernel_end bitmap_addr max_blocks =
     (region_blocks 0 0x100000 \<union> region_blocks kernel_start (kernel_end - kernel_start)
      \<union> region_blocks bitmap_addr (max_blocks div 8)) \<inter> {..<unat max_blocks}"

lemma blocks_of_memory:
  fixes m :: u32
  shows "unat ((m + 4095) div 4096) \<le> 2 ^ 20"
  using u32_bound [of "m + 4095"] by simp

lemma pmm_init_ok:
  fixes mem_size :: u32
  defines "max_blocks \<equiv> (mem_size + 4095) div 4096"
  assumes "mem_size \<noteq> 0" and "bitmap_addr \<noteq> 0"
    and len: "unat max_blocks \<le> 8 * length bitmap"
  shows "runs (pmm_init kernel_start kernel_end mem_size bitmap_addr bitmap s)
    (\<lambda>s'. pmm_inv s' \<and> pmm_initialized s' \<and> pmm_max_blocks s' = max_blocks \<and>
      length (pmm_memory_map s') = length bitmap \<and>
      pmm_used s' = boot_reserved kernel_start kernel_end bitmap_addr max_blocks)"
proof -
  have le: "unat max_blocks \<le> 2 ^ 20" unfolding max_blocks_def by (rule blocks_of_memory)
  have add7: "unat (max_blocks + 7) = unat max_blocks + 7"
    using le by (subst unat_add_le) auto
  then have sz: "unat ((max_blocks + 7) div 8) = (unat max_blocks + 7) div 8" by simp
  then have n: "unat ((max_blocks + 7) div 8) \<le> length bitmap" using len by simp
  let ?m = "replicate (unat ((max_blocks + 7) div 8)) 0 @ drop (unat ((max_blocks + 7) div 8)) bitmap"
  let ?s = "s\<lparr>pmm_memory_size := mem_size, pmm_memory_map := ?m,
                  pmm_max_blocks := max_blocks, pmm_used_blocks := 0\<rparr>"
  have zero: "\<not> bm_bit ?m b" if "b < unat max_blocks" for b
  proof -
    have "b div 8 < (unat max_blocks + 7) div 8" using that by linarith
    then show ?thesis by (simp add: bm_bit_def nth_append add7)
  qed
  then have empty: "pmm_used ?s = {}" by (auto simp: pmm_used_def)
  then have inv: "pmm_inv ?s" using len le n by (simp add: pmm_inv_def)
  have lenm: "length ?m = length bitmap" using n by simp
  have mset: "memset bitmap 0 (unat ((max_blocks + 7) div 8)) = Some ?m"
    using n by (rule memset_ok)
  have un: "A \<inter> M \<union> B \<inter> M \<union> C \<inter> M = (A \<union> B \<union> C) \<inter> M" for A B C M :: "nat set" by blast
  have "runs (do { s \<leftarrow> pmm_mark_used_region 0 0x100000 ?s;
        s \<leftarrow> pmm_mark_used_region kernel_start (kernel_end - kernel_start) s;
        s \<leftarrow> pmm_mark_used_region bitmap_addr (pmm_max_blocks s div PMM_BLOCKS_PER_BYTE) s;
        Some (s\<lparr>pmm_initialized := True\<rparr>) })
    (\<lambda>s'. pmm_inv s' \<and> pmm_initialized s' \<and> pmm_max_blocks s' = max_blocks \<and>
      length (pmm_memory_map s') = length bitmap \<and>
      pmm_used s' = boot_reserved kernel_start kernel_end bitmap_addr max_blocks)"
    unfolding runs_simps
  proof (rule pmm_mark_used_region_ok [OF inv], rule pmm_mark_used_region_ok, assumption,
      rule pmm_mark_used_region_ok, assumption)
    fix s1 s2 s3
    assume *: "pmm_frame s1 = pmm_frame ?s" "pmm_frame s2 = pmm_frame s1" "pmm_frame s3 = pmm_frame s2"
      "pmm_inv s3"
      and u1: "pmm_used s1 = pmm_used ?s \<union> region_blocks 0 0x100000 \<inter> {..<pmm_blocks ?s}"
      and u2: "pmm_used s2 = pmm_used s1 \<union>
        region_blocks kernel_start (kernel_end - kernel_start) \<inter> {..<pmm_blocks s1}"
      and u3: "pmm_used s3 = pmm_used s2 \<union>
        region_blocks bitmap_addr (pmm_max_blocks s2 div PMM_BLOCKS_PER_BYTE) \<inter> {..<pmm_blocks s2}"
    have max: "pmm_max_blocks s1 = max_blocks" "pmm_max_blocks s2 = max_blocks"
      "pmm_max_blocks s3 = max_blocks" "length (pmm_memory_map s3) = length bitmap"
      using * lenm by (simp_all add: pmm_frame_def)
    have "pmm_used s3 = boot_reserved kernel_start kernel_end bitmap_addr max_blocks"
      unfolding u3 u2 u1 empty boot_reserved_def using max by (simp add: un)
    moreover have "pmm_inv (s3\<lparr>pmm_initialized := True\<rparr>)" "pmm_used (s3\<lparr>pmm_initialized := True\<rparr>) = pmm_used s3"
      using *(4) by (simp_all add: pmm_inv_def pmm_used_def)
    ultimately show "pmm_inv (s3\<lparr>pmm_initialized := True\<rparr>) \<and> pmm_initialized (s3\<lparr>pmm_initialized := True\<rparr>) \<and>
      pmm_max_blocks (s3\<lparr>pmm_initialized := True\<rparr>) = max_blocks \<and>
      length (pmm_memory_map (s3\<lparr>pmm_initialized := True\<rparr>)) = length bitmap \<and>
      pmm_used (s3\<lparr>pmm_initialized := True\<rparr>) = boot_reserved kernel_start kernel_end bitmap_addr max_blocks"
      using max by simp
  qed
  moreover have e: "(mem_size + PMM_BLOCK_SIZE - 1) div PMM_BLOCK_SIZE = max_blocks"
    "(max_blocks + PMM_BLOCKS_PER_BYTE - 1) div PMM_BLOCKS_PER_BYTE = (max_blocks + 7) div 8"
    by (simp_all add: max_blocks_def add.commute)
  ultimately show ?thesis
    using assms(2,3) unfolding pmm_init_def Let_def e mset by simp
qed

section \<open>Allocating one block\<close>

lemma block_split:
  fixes byte_idx bit_idx :: u32
  assumes "unat byte_idx < 2 ^ 17" and "unat bit_idx < 8"
  shows "unat (byte_idx * 8 + bit_idx) = 8 * unat byte_idx + unat bit_idx"
    and "(byte_idx * 8 + bit_idx) div 8 = byte_idx"
    and "(byte_idx * 8 + bit_idx) mod 8 = bit_idx"
proof -
  have "unat (byte_idx * 8) = 8 * unat byte_idx"
    using assms(1) by (subst unat_mult_le) auto
  then show un: "unat (byte_idx * 8 + bit_idx) = 8 * unat byte_idx + unat bit_idx"
    using assms by (subst unat_add_le) auto
  show "(byte_idx * 8 + bit_idx) div 8 = byte_idx" "(byte_idx * 8 + bit_idx) mod 8 = bit_idx"
    using un assms(2) by (simp_all add: unat_eq_iff)
qed

lemma alloc_block_bit_eq:
  assumes "unat byte_idx < 2 ^ 17" and "unat bit_idx < 8"
  shows "alloc_block_bit byte_idx bit_idx s =
     (let block = byte_idx * 8 + bit_idx in
      if block \<ge> pmm_max_blocks s then Some (Break s)
      else do { used \<leftarrow> bitmap_test (pmm_memory_map s) block;
                if \<not> used then map_option (Return (block * 4096)) (mark_block_used block s)
                else Some (Next s) })"
  using block_split [OF assms]
  by (auto simp: alloc_block_bit_def mark_block_used_def bitmap_test_def bitmap_set_def Let_def
      map_option_bind option.map_comp o_def bind_map_option rd_def wr_def)

definition all_used_below :: "nat \<Rightarrow> pmm \<Rightarrow> bool" where
  "all_used_below n s \<longleftrightarrow> {..<n} \<subseteq> pmm_used s"

lemma all_used_below_Suc: "all_used_below (Suc n) s \<longleftrightarrow> all_used_below n s \<and> n \<in> pmm_used s"
  by (auto simp: all_used_below_def less_Suc_eq)

text \<open>What one call of \<open>pmm_alloc_block\<close> has done when it returns a block.\<close>

definition block_taken :: "pmm \<Rightarrow> u32 \<Rightarrow> pmm \<Rightarrow> bool" where
  "block_taken s a s' \<longleftrightarrow> (\<exists>b. a = of_nat (4096 * b) \<and> b < 8 * (pmm_blocks s div 8) \<and>
     b \<notin> pmm_used s \<and> all_used_below b s \<and> pmm_inv s' \<and> pmm_used s' = insert b (pmm_used s) \<and>
     pmm_frame s' = pmm_frame s \<and> pmm_last_alloc s' = pmm_last_alloc s)"

lemma alloc_block_bit_ok:
  assumes inv: "pmm_inv s" and byte: "unat byte_idx < pmm_blocks s div 8" and bit: "unat bit_idx < 8"
    and below: "all_used_below (8 * unat byte_idx + unat bit_idx) s"
  shows "runs (alloc_block_bit byte_idx bit_idx s) (\<lambda>out. case out of
      Next s' \<Rightarrow> s' = s \<and> all_used_below (8 * unat byte_idx + Suc (unat bit_idx)) s
    | Break s' \<Rightarrow> False | Return a s' \<Rightarrow> block_taken s a s')"
proof -
  have b17: "unat byte_idx < 2 ^ 17" using byte pmm_inv_bounds(2) [OF inv] by simp
  let ?b = "byte_idx * 8 + bit_idx"
  have un: "unat ?b = 8 * unat byte_idx + unat bit_idx" using b17 bit by (rule block_split)
  have lt: "unat ?b < pmm_blocks s" using un byte bit by simp
  have addr: "?b * 4096 = of_nat (4096 * unat ?b)"
    by (simp add: mult.commute)
  show ?thesis
  proof (cases "unat ?b \<in> pmm_used s")
    case True
    then have "alloc_block_bit byte_idx bit_idx s = Some (Next s)"
      using lt pmm_test [OF inv lt]
      by (simp add: alloc_block_bit_eq [OF b17 bit] Let_def word_le_nat_alt)
    then show ?thesis using True below un by (simp add: all_used_below_Suc)
  next
    case False
    have "runs (mark_block_used ?b s) (block_taken s (?b * 4096))"
      using inv lt False
    proof (rule runs_mark_block_used)
      fix s' assume s': "pmm_inv s'" "pmm_used s' = insert (unat ?b) (pmm_used s)"
        "pmm_frame s' = pmm_frame s" "pmm_last_alloc s' = pmm_last_alloc s"
      have "unat ?b < 8 * (pmm_blocks s div 8)" using un byte bit by simp
      then show "block_taken s (?b * 4096) s'"
        unfolding block_taken_def using s' False below un addr by (intro exI [of _ "unat ?b"]) simp
    qed
    then show ?thesis using False lt pmm_test [OF inv lt]
      by (simp add: alloc_block_bit_eq [OF b17 bit] Let_def word_le_nat_alt)
  qed
qed

lemma alloc_block_byte_ok:
  assumes inv: "pmm_inv s" and byte: "unat byte_idx < pmm_blocks s div 8"
    and below: "all_used_below (8 * unat byte_idx) s"
  shows "runs (alloc_block_byte byte_idx s) (\<lambda>out. case out of
      Next s' \<Rightarrow> s' = s \<and> all_used_below (8 * Suc (unat byte_idx)) s
    | Break s' \<Rightarrow> False | Return a s' \<Rightarrow> block_taken s a s')"
proof -
  have len: "unat byte_idx < length (pmm_memory_map s)"
    using byte pmm_inv_bounds(1) [OF inv] by linarith
  show ?thesis
  proof (cases "pmm_memory_map s ! unat byte_idx = 0xFF")
    case True
    have "{..<8 * Suc (unat byte_idx)} \<subseteq> pmm_used s"
    proof
      fix n assume n: "n \<in> {..<8 * Suc (unat byte_idx)}"
      show "n \<in> pmm_used s"
      proof (cases "n < 8 * unat byte_idx")
        case True
        then show ?thesis using below by (auto simp: all_used_below_def)
      next
        case False
        then have "n div 8 = unat byte_idx" using n by auto
        moreover from this have "n < pmm_blocks s" using byte by linarith
        ultimately show ?thesis
          using full_byte_bits [OF True] by (simp add: pmm_used_def)
      qed
    qed
    then show ?thesis using True len by (simp add: alloc_block_byte_def all_used_below_def)
  next
    case False
    define I where "I = (\<lambda>k s'. s' = s \<and> all_used_below (8 * unat byte_idx + k) s)"
    have "runs (for_loop 0 8 (alloc_block_bit byte_idx) s)
      (\<lambda>out. case out of Done s' \<Rightarrow> I (unat (8 :: u32)) s' \<or> False | Returned a s' \<Rightarrow> block_taken s a s')"
    proof (rule for_loop_rule [where I = I])
      show "I (unat (0 :: u32)) s" using below by (simp add: I_def)
    next
      fix j :: u32 and s' assume j: "unat j < unat (8 :: u32)" and "I (unat j) s'"
      then have s': "s' = s" and b: "all_used_below (8 * unat byte_idx + unat j) s"
        by (auto simp: I_def)
      have j8: "unat j < 8" using j by simp
      show "runs (alloc_block_bit byte_idx j s') (\<lambda>out. case out of
          Next s' \<Rightarrow> I (Suc (unat j)) s' | Break s' \<Rightarrow> False | Return r s' \<Rightarrow> block_taken s r s')"
        unfolding s' using alloc_block_bit_ok [OF inv byte j8 b]
        by (rule runs_mono) (auto simp: I_def split: ctl.splits)
    qed simp
    then have "runs (for_loop 0 8 (alloc_block_bit byte_idx) s) (\<lambda>out. case out of
        Done s' \<Rightarrow> s' = s \<and> all_used_below (8 * unat byte_idx + 8) s
      | Returned a s' \<Rightarrow> block_taken s a s')"
      by (rule runs_mono) (simp add: I_def split: outcome.splits)
    then show ?thesis using False len
      by (simp add: alloc_block_byte_def)
        (erule runs_mono, auto simp: add.commute [of 8] split: outcome.splits)
  qed
qed

lemma pmm_alloc_block_ok:
  assumes inv: "pmm_inv s"
  shows "runs (pmm_alloc_block s) (\<lambda>(a, s'). a = 0 \<and> s' = s \<and>
      (pmm_used s = {..<pmm_blocks s} \<or> all_used_below (8 * (pmm_blocks s div 8)) s)
    \<or> block_taken s a s')"
proof (cases "pmm_used_blocks s \<ge> pmm_max_blocks s")
  case True
  then have "card {..<pmm_blocks s} \<le> card (pmm_used s)"
    using inv by (simp add: pmm_inv_def word_le_nat_alt)
  then have "pmm_used s = {..<pmm_blocks s}"
    by (intro card_seteq) (auto dest: pmm_used_lt)
  then show ?thesis using True by (simp add: pmm_alloc_block_def)
next
  case False
  define I where "I = (\<lambda>k s'. s' = s \<and> all_used_below (8 * k) s)"
  let ?n = "pmm_max_blocks s div 8"
  have "runs (for_loop 0 ?n alloc_block_byte s)
    (\<lambda>out. case out of Done s' \<Rightarrow> I (unat ?n) s' \<or> False | Returned a s' \<Rightarrow> block_taken s a s')"
  proof (rule for_loop_rule [where I = I])
    show "I (unat (0 :: u32)) s" by (simp add: I_def all_used_below_def)
  next
    fix j :: u32 and s' assume j: "unat j < unat ?n" and "I (unat j) s'"
    then have s': "s' = s" and b: "all_used_below (8 * unat j) s" by (auto simp: I_def)
    have "unat j < pmm_blocks s div 8" using j by simp
    from alloc_block_byte_ok [OF inv this b]
    show "runs (alloc_block_byte j s') (\<lambda>out. case out of
        Next s' \<Rightarrow> I (Suc (unat j)) s' | Break s' \<Rightarrow> False | Return r s' \<Rightarrow> block_taken s r s')"
      unfolding s' by (rule runs_mono) (auto simp: I_def split: ctl.splits)
  qed simp
  then show ?thesis using False
    by (simp add: pmm_alloc_block_def) (erule runs_mono, auto simp: I_def split: outcome.splits)
qed

section \<open>Runs of free blocks\<close>

text \<open>\<open>run_free s i n\<close>: the \<open>n\<close> blocks from \<open>i\<close> on exist and are free.\<close>

definition run_free :: "pmm \<Rightarrow> nat \<Rightarrow> nat \<Rightarrow> bool" where
  "run_free s i n \<longleftrightarrow> i + n \<le> pmm_blocks s \<and> (\<forall>b\<in>{i ..< i + n}. b \<notin> pmm_used s)"

lemma run_free_Suc:
  "run_free s i (Suc n) \<longleftrightarrow> run_free s i n \<and> i + n < pmm_blocks s \<and> i + n \<notin> pmm_used s"
  by (auto simp: run_free_def less_Suc_eq)

lemma run_free_0 [simp]: "run_free s i 0 \<longleftrightarrow> i \<le> pmm_blocks s"
  by (simp add: run_free_def)

lemma run_free_mono: "run_free s i n \<Longrightarrow> m \<le> n \<Longrightarrow> run_free s i m"
  by (auto simp: run_free_def)

lemma pmm_is_block_free_eq:
  "pmm_inv s \<Longrightarrow>
     pmm_is_block_free b s = Some (unat b < pmm_blocks s \<and> unat b \<notin> pmm_used s)"
  using pmm_test [of s b] by (auto simp: pmm_is_block_free_def word_le_nat_alt)

lemma sum_small:
  fixes a b :: u32
  assumes "unat a \<le> 1048576" and "unat b \<le> 1048576"
  shows "unat (a + b) = unat a + unat b"
  using assms by (subst unat_add_le) simp_all

lemma run_loop_ok:
  assumes inv: "pmm_inv s" and i: "unat i < pmm_blocks s" and num: "unat num \<le> pmm_blocks s"
  shows "runs (for_loop 0 num (run_body i s) 0)
    (\<lambda>r. exit_state r = num \<longleftrightarrow> run_free s (unat i) (unat num))"
proof -
  note bnd = pmm_inv_bounds(2) [OF inv]
  define I where "I = (\<lambda>k (j :: u32). unat j = k \<and> run_free s (unat i) k)"
  define B where "B = (\<lambda>j :: u32. unat j < unat num \<and> \<not> run_free s (unat i) (Suc (unat j)))"
  have "runs (for_loop 0 num (run_body i s) 0)
    (\<lambda>out. case out of Done j \<Rightarrow> I (unat num) j \<or> B j | Returned r j \<Rightarrow> False)"
  proof (rule for_loop_rule [where I = I])
    show "I (unat (0 :: u32)) 0" using i by (simp add: I_def)
  next
    fix j j' :: u32 assume j: "unat j < unat num" and I: "I (unat j) j'"
    then have j': "j' = j" by (simp add: I_def unat_eq_iff)
    have add: "unat (i + j) = unat i + unat j" using i j num bnd by (intro sum_small) linarith+
    have suc: "unat (j + 1) = Suc (unat j)" using j by (intro unat_inc) (simp add: word_less_nat_alt)
    show "runs (run_body i s j j') (\<lambda>out. case out of Next s' \<Rightarrow> I (Suc (unat j)) s'
        | Break s' \<Rightarrow> B s' | Return r s' \<Rightarrow> False)"
      using I j
      by (auto simp: run_body_def pmm_is_block_free_eq [OF inv] add suc j' I_def B_def
          run_free_Suc word_le_nat_alt)
  qed simp
  then show ?thesis
  proof (rule runs_mono)
    fix r :: "(u32, unit) outcome"
    assume "case r of Done j \<Rightarrow> I (unat num) j \<or> B j | Returned r j \<Rightarrow> False"
    then obtain j where j: "r = Done j" "I (unat num) j \<or> B j" by (cases r) auto
    then show "exit_state r = num \<longleftrightarrow> run_free s (unat i) (unat num)"
      by (auto simp: I_def B_def unat_eq_iff dest: run_free_mono [of _ _ "unat num" "Suc (unat j)"])
  qed
qed

lemma find_contiguous_ok:
  assumes inv: "pmm_inv s" and num: "unat num \<le> pmm_blocks s" "0 < unat num"
  shows "runs (find_contiguous_free_blocks num s) (\<lambda>r.
    if \<exists>i. run_free s i (unat num)
    then 0 \<le> sint r \<and> run_free s (unat r) (unat num) \<and> (\<forall>i<unat r. \<not> run_free s i (unat num))
    else r = - 1)"
proof -
  define I where "I = (\<lambda>k (_ :: unit). \<forall>i<k. \<not> run_free s i (unat num))"
  define R where "R = (\<lambda>(r :: u32) (_ :: unit). unat r < pmm_blocks s \<and>
    run_free s (unat r) (unat num) \<and> (\<forall>i<unat r. \<not> run_free s i (unat num)))"
  have "runs (for_loop 0 (pmm_max_blocks s) (find_contiguous_body num s) ())
    (\<lambda>out. case out of Done u \<Rightarrow> I (pmm_blocks s) u \<or> False | Returned r u \<Rightarrow> R r u)"
  proof (rule for_loop_rule [where I = I])
    show "I (unat (0 :: u32)) ()" by (simp add: I_def)
  next
    fix j :: u32 and u :: unit
    assume j: "unat j < pmm_blocks s" and I: "I (unat j) u"
    have suc: "I (Suc (unat j)) u" if "\<not> run_free s (unat j) (unat num)"
      using I that by (auto simp: I_def less_Suc_eq)
    have "\<not> run_free s (unat j) (unat num)" if "unat j \<in> pmm_used s"
      using that num(2) by (auto simp: run_free_def)
    then show "runs (find_contiguous_body num s j u) (\<lambda>out. case out of
        Next s' \<Rightarrow> I (Suc (unat j)) s' | Break s' \<Rightarrow> False | Return r s' \<Rightarrow> R r s')"
      using suc I j
      by (auto simp: find_contiguous_body_def pmm_is_block_free_eq [OF inv] R_def I_def
          intro!: runs_mono [OF run_loop_ok [OF inv j num(1)]])
  qed simp
  then show ?thesis
    unfolding find_contiguous_free_blocks_def runs_simps
  proof (rule runs_mono)
    fix out :: "(unit, u32) outcome"
    assume out: "case out of Done u \<Rightarrow> I (pmm_blocks s) u \<or> False | Returned r u \<Rightarrow> R r u"
    show "if \<exists>i. run_free s i (unat num)
      then 0 \<le> sint (case out of Done _ \<Rightarrow> - 1 | Returned i _ \<Rightarrow> i) \<and>
        run_free s (unat (case out of Done _ \<Rightarrow> - 1 | Returned i _ \<Rightarrow> i)) (unat num) \<and>
        (\<forall>i<unat (case out of Done _ \<Rightarrow> - 1 | Returned i _ \<Rightarrow> i). \<not> run_free s i (unat num))
      else (case out of Done _ \<Rightarrow> - 1 | Returned i _ \<Rightarrow> i) = - 1"
    proof (cases out)
      case (Done u)
      have "\<not> run_free s i (unat num)" for i
      proof (cases "i < pmm_blocks s")
        case True
        then show ?thesis using out Done by (simp add: I_def)
      next
        case False
        then show ?thesis using num(2) by (simp add: run_free_def)
      qed
      then show ?thesis using Done by simp
    next
      case (Returned r u)
      then have r: "R r u" using out by simp
      then have "unat r < 1048576" using pmm_inv_bounds(2) [OF inv] by (simp add: R_def)
      then have "0 \<le> sint r" by (simp add: sint_of_small)
      then show ?thesis using Returned r by (auto simp: R_def)
    qed
  qed
qed

text \<open>What an allocation of \<open>n\<close> blocks at \<open>b\<close> has done.\<close>

definition run_taken :: "pmm \<Rightarrow> nat \<Rightarrow> nat \<Rightarrow> pmm \<Rightarrow> bool" where
  "run_taken s b n s' \<longleftrightarrow> run_free s b n \<and> pmm_inv s' \<and> pmm_frame s' = pmm_frame s \<and>
     pmm_used s' = pmm_used s \<union> {b ..< b + n}"

lemma run_taken_step:
  assumes inv: "pmm_inv s'" and frame: "pmm_frame s' = pmm_frame s"
    and used: "pmm_used s' = pmm_used s \<union> {b ..< b + k}"
    and run: "run_free s b n" and k: "k < n" and x: "unat x = b + k"
  shows "runs (mark_block_used x s') (\<lambda>t. pmm_inv t \<and> pmm_frame t = pmm_frame s \<and>
    pmm_last_alloc t = pmm_last_alloc s' \<and> pmm_used t = pmm_used s \<union> {b ..< b + Suc k})"
proof (rule runs_mark_block_used [OF inv])
  show "unat x < pmm_blocks s'"
    using run k x pmm_frame_max [OF frame] by (simp add: run_free_def)
  show "unat x \<notin> pmm_used s'" using run k x used by (auto simp: run_free_def)
next
  fix t assume t: "pmm_inv t" "pmm_used t = insert (unat x) (pmm_used s')" "pmm_frame t = pmm_frame s'"
    "pmm_last_alloc t = pmm_last_alloc s'"
  have "insert (b + k) (pmm_used s \<union> {b ..< b + k}) = pmm_used s \<union> {b ..< b + Suc k}" by auto
  then show "pmm_inv t \<and> pmm_frame t = pmm_frame s \<and> pmm_last_alloc t = pmm_last_alloc s' \<and>
    pmm_used t = pmm_used s \<union> {b ..< b + Suc k}"
    using t used frame x by simp
qed

lemma mark_run_ok:
  assumes inv: "pmm_inv s" and run: "run_free s (unat st) (unat num)"
  shows "runs (mark_run st num s) (run_taken s (unat st) (unat num))"
proof -
  note bnd = pmm_inv_bounds(2) [OF inv]
  define I where "I = (\<lambda>k t. pmm_inv t \<and> pmm_frame t = pmm_frame s \<and>
    pmm_used t = pmm_used s \<union> {unat st ..< unat st + k})"
  have "runs (for_loop 0 num
      (\<lambda>i s. map_option Next (mark_block_used (st + i) s) :: (pmm, unit) ctl option) s)
    (\<lambda>out. \<exists>t. out = Done t \<and> I (unat num) t)"
  proof (rule for_loop_rule_next [where I = I])
    show "I (unat (0 :: u32)) s" using inv by (simp add: I_def)
  next
    fix j :: u32 and t assume j: "unat j < unat num" and I: "I (unat j) t"
    have add: "unat (st + j) = unat st + unat j"
      using j run bnd by (intro sum_small) (simp_all add: run_free_def)
    show "runs (map_option Next (mark_block_used (st + j) t))
      (\<lambda>out. \<exists>s'. out = (Next s' :: (pmm, unit) ctl) \<and> I (Suc (unat j)) s')"
      using run_taken_step [of t s "unat st" "unat j" "unat num" "st + j"] I run j add
      by (auto simp: I_def elim!: runs_mono)
  qed simp
  then show ?thesis
    using run by (auto simp: mark_run_def I_def run_taken_def elim!: runs_mono)
qed

lemma mark_range_ok:
  assumes inv: "pmm_inv s" and run: "run_free s (unat st) (unat num)"
  shows "runs (mark_range st num s) (\<lambda>t. run_taken s (unat st) (unat num) t \<and>
    pmm_last_alloc t = pmm_last_alloc s)"
proof -
  note bnd = pmm_inv_bounds(2) [OF inv]
  have add: "unat (st + num) = unat st + unat num"
    using run bnd by (intro sum_small) (simp_all add: run_free_def)
  define I where "I = (\<lambda>k t. pmm_inv t \<and> pmm_frame t = pmm_frame s \<and>
    pmm_last_alloc t = pmm_last_alloc s \<and>
    pmm_used t = pmm_used s \<union> {unat st ..< unat st + (k - unat st)})"
  have "runs (for_loop st (st + num)
      (\<lambda>i s. map_option Next (mark_block_used i s) :: (pmm, unit) ctl option) s)
    (\<lambda>out. \<exists>t. out = Done t \<and> I (unat (st + num)) t)"
  proof (rule for_loop_rule_next [where I = I])
    show "I (unat st) s" using inv by (simp add: I_def)
    show "unat st \<le> unat (st + num)" using add by simp
  next
    fix j :: u32 and t
    assume j: "unat st \<le> unat j" "unat j < unat (st + num)" and I: "I (unat j) t"
    then have k: "unat j - unat st < unat num" "unat j = unat st + (unat j - unat st)"
      and suc: "Suc (unat j - unat st) = Suc (unat j) - unat st"
      using add by simp_all
    show "runs (map_option Next (mark_block_used j t))
      (\<lambda>out. \<exists>s'. out = (Next s' :: (pmm, unit) ctl) \<and> I (Suc (unat j)) s')"
      using run_taken_step [OF _ _ _ run k, of t] I
      unfolding suc by (auto simp: I_def elim!: runs_mono)
  qed
  then show ?thesis
    using run add by (auto simp: mark_range_def I_def run_taken_def elim!: runs_mono)
qed

lemma pmm_alloc_contiguous_ok:
  assumes inv: "pmm_inv s"
  shows "runs (pmm_alloc_contiguous num s) (\<lambda>(a, s').
    if num \<noteq> 0 \<and> (\<exists>i. run_free s i (unat num))
    then \<exists>b. a = of_nat (4096 * b) \<and> run_taken s b (unat num) s' \<and>
      (\<forall>i<b. \<not> run_free s i (unat num))
    else a = 0 \<and> s' = s)"
proof (cases "num = 0 \<or> num > pmm_max_blocks s")
  case True
  then have "num = 0 \<or> \<not> (\<exists>i. run_free s i (unat num))"
    by (auto simp: run_free_def word_less_nat_alt)
  then show ?thesis using True by (auto simp: pmm_alloc_contiguous_def)
next
  case False
  then have num: "unat num \<le> pmm_blocks s" "0 < unat num"
    by (auto simp: word_less_nat_alt unat_gt_0)
  have "runs (do { start_block \<leftarrow> find_contiguous_free_blocks num s;
      if sint start_block < 0 then Some (0, s)
      else do { s' \<leftarrow> mark_run start_block num s; Some (start_block * 4096, s') } })
    (\<lambda>(a, s'). if \<exists>i. run_free s i (unat num)
      then \<exists>b. a = of_nat (4096 * b) \<and> run_taken s b (unat num) s' \<and>
        (\<forall>i<b. \<not> run_free s i (unat num))
      else a = 0 \<and> s' = s)"
    unfolding runs_simps
  proof (rule runs_mono [OF find_contiguous_ok [OF inv num]])
    fix r :: u32
    let ?ex = "\<exists>i. run_free s i (unat num)"
    assume r: "if ?ex then 0 \<le> sint r \<and> run_free s (unat r) (unat num) \<and>
        (\<forall>i<unat r. \<not> run_free s i (unat num)) else r = - 1"
    have addr: "r * 4096 = of_nat (4096 * unat r)" by (simp add: mult.commute)
    show "runs (if sint r < 0 then Some (0, s)
        else do { s' \<leftarrow> mark_run r num s; Some (r * 4096, s') })
      (\<lambda>(a, s'). if ?ex then \<exists>b. a = of_nat (4096 * b) \<and> run_taken s b (unat num) s' \<and>
        (\<forall>i<b. \<not> run_free s i (unat num)) else a = 0 \<and> s' = s)"
    proof (cases ?ex)
      case True
      then have least: "\<forall>i<unat r. \<not> run_free s i (unat num)" using r by simp
      from True have "runs (mark_run r num s) (run_taken s (unat r) (unat num))"
        using r by (intro mark_run_ok [OF inv]) simp
      then have "runs (mark_run r num s) (\<lambda>s'. \<exists>b. r * 4096 = of_nat (4096 * b) \<and>
        run_taken s b (unat num) s' \<and> (\<forall>i<b. \<not> run_free s i (unat num)))"
      proof (rule runs_mono)
        fix s' assume "run_taken s (unat r) (unat num) s'"
        then show "\<exists>b. r * 4096 = of_nat (4096 * b) \<and> run_taken s b (unat num) s' \<and>
            (\<forall>i<b. \<not> run_free s i (unat num))"
          using least addr by blast
      qed
      moreover have "\<not> sint r < 0" using True r by simp
      ultimately show ?thesis by (simp only: True if_True if_False runs_simps prod.case)
    next
      case False
      then show ?thesis using r by simp
    qed
  qed
  then show ?thesis using False by (simp add: pmm_alloc_contiguous_def)
qed

end
