(* ===== verification/PmmBlocks.thy ===== *)
theory PmmBlocks
  imports Pmm
begin

text \<open>
  The multi-block operations of \<open>src/mm/pmm.c\<close>: the next-fit search of \<open>pmm_alloc_blocks\<close>, the
  search of \<open>pmm_alloc_blocks_in_range\<close>, \<open>pmm_free_contiguous\<close> and the single-block free that
  never frees; the interface locale of a frame allocator and its interpretation on the PMM; and the
  properties of the physical memory manager.
\<close>

section \<open>Next-fit search\<close>

lemma run_room:
  assumes "pmm_inv s" and "run_free s i n"
  shows "card (pmm_used s) + n \<le> pmm_blocks s"
proof -
  have "card (pmm_used s) + n = card (pmm_used s \<union> {i ..< i + n})"
    using assms(2) by (subst card_Un_disjoint) (auto simp: run_free_def)
  also have "\<dots> \<le> card {..<pmm_blocks s}"
    using assms(2) by (intro card_mono) (auto simp: run_free_def dest: pmm_used_lt)
  finally show ?thesis by simp
qed

text \<open>
  The state of the scan before block \<open>k\<close>: \<open>consecutive\<close> free blocks end at \<open>k\<close> and the run starts at
  \<open>start_block\<close>.  Before block 0 of the second turn the counter may still hold the tail of
  the first turn.  With \<open>full\<close>, no run of \<open>n\<close> blocks ends at or before \<open>k\<close>.
\<close>

definition scan_inv :: "bool \<Rightarrow> pmm \<Rightarrow> nat \<Rightarrow> nat \<Rightarrow> scan \<Rightarrow> bool" where
  "scan_inv full s n k sc \<longleftrightarrow> scanned sc = s \<and> unat (consecutive sc) < n \<and>
     (k = 0 \<or>
       (let c = unat (consecutive sc) in c \<le> k \<and> run_free s (k - c) c \<and>
          (0 < c \<longrightarrow> unat (start_block sc) = k - c) \<and>
          (full \<longrightarrow> (k = c \<or> k - c - 1 \<in> pmm_used s) \<and>
             (\<forall>i. i + n \<le> k \<longrightarrow> \<not> run_free s i n))))"

lemma scan_inv_start:
  assumes "0 < n" and "k \<le> pmm_blocks s"
  shows "scan_inv False s n k \<lparr>consecutive = 0, start_block = 0, scanned = s\<rparr>"
  using assms by (simp add: scan_inv_def run_free_def Let_def)

lemma scan_inv_used:
  assumes "scan_inv full s n k sc" and "k < pmm_blocks s" and "k \<in> pmm_used s" and "0 < n"
  shows "scan_inv full s n (Suc k) (sc\<lparr>consecutive := 0\<rparr>)"
proof -
  have "\<not> run_free s i n" if "i + n \<le> Suc k" and full: full for i
  proof (cases "i + n \<le> k")
    case True
    then show ?thesis
      using assms(1,4) full by (cases "k = 0") (auto simp: scan_inv_def Let_def)
  next
    case False
    then have "k = i + (n - 1)" using that assms(4) by simp
    then show ?thesis using assms(3,4) by (auto simp: run_free_def)
  qed
  then show ?thesis using assms by (simp add: scan_inv_def run_free_def Let_def)
qed

lemma scan_inv_free:
  assumes inv: "scan_inv full s n k sc" and k: "0 < k" "k < pmm_blocks s" "k \<notin> pmm_used s"
    and c: "Suc (unat (consecutive sc)) < n" "unat c' = Suc (unat (consecutive sc))"
    and st: "unat st = k - unat (consecutive sc)"
  shows "scan_inv full s n (Suc k) (sc\<lparr>start_block := st, consecutive := c'\<rparr>)"
proof -
  let ?c = "unat (consecutive sc)"
  have run: "run_free s (k - ?c) ?c" and le: "?c \<le> k"
    and full: "full \<Longrightarrow> (k = ?c \<or> k - ?c - 1 \<in> pmm_used s) \<and> (\<forall>i. i + n \<le> k \<longrightarrow> \<not> run_free s i n)"
    using inv k(1) by (auto simp: scan_inv_def Let_def)
  have run': "run_free s (k - ?c) (Suc ?c)" using run le k by (simp add: run_free_Suc)
  have "\<not> run_free s i n" if "i + n \<le> Suc k" and full for i
  proof (cases "i + n \<le> k")
    case True
    then show ?thesis using full that by blast
  next
    case False
    then have i: "i + n = Suc k" using that by simp
    then have "k \<noteq> ?c" using c(1) by simp
    then have "k - ?c - 1 \<in> pmm_used s" using full that by blast
    moreover have "k - ?c - 1 = i + (k - ?c - 1 - i)" "k - ?c - 1 - i < n"
      using i c(1) le by simp_all
    ultimately show ?thesis by (auto simp: run_free_def)
  qed
  then show ?thesis
    using inv run' le full c st by (auto simp: scan_inv_def Let_def)
qed

text \<open>One iteration: a used block resets the run, a free one extends it, the last one completes it.\<close>

definition scan_found :: "pmm \<Rightarrow> nat \<Rightarrow> u32 \<Rightarrow> scan \<Rightarrow> bool" where
  "scan_found s n a sc \<longleftrightarrow> (\<exists>b. a = of_nat (4096 * b) \<and> run_taken s b n (scanned sc) \<and>
     unat (pmm_last_alloc (scanned sc)) = (b + n) mod pmm_blocks s)"

lemma run_taken_last_alloc [simp]:
  "run_taken s b n (s'\<lparr>pmm_last_alloc := x\<rparr>) \<longleftrightarrow> run_taken s b n s'"
  by (simp add: run_taken_def pmm_inv_def pmm_used_def pmm_frame_def)

lemma run_taken_max: "run_taken s b n s' \<Longrightarrow> pmm_max_blocks s' = pmm_max_blocks s"
  by (auto simp: run_taken_def dest: pmm_frame_max)

lemma alloc_blocks_body_ok:
  assumes inv: "pmm_inv s" and num: "num \<noteq> 0" and k: "unat k < pmm_blocks s"
    and I: "scan_inv full s (unat num) (unat k) sc"
    and zero: "k = 0 \<longrightarrow> 0 \<in> pmm_used s"
  shows "runs (alloc_blocks_body num k sc) (\<lambda>out. case out of
    Next sc' \<Rightarrow> scan_inv full s (unat num) (Suc (unat k)) sc'
    | Break sc' \<Rightarrow> False | Return a sc' \<Rightarrow> scan_found s (unat num) a sc')"
proof -
  let ?c = "unat (consecutive sc)"
  have sc: "scanned sc = s" and lt: "?c < unat num" using I by (simp_all add: scan_inv_def)
  have n0: "0 < unat num" using num by (simp add: unat_gt_0)
  show ?thesis
  proof (cases "unat k \<in> pmm_used s")
    case True
    then show ?thesis
      using scan_inv_used [OF I k True n0] sc pmm_test [OF inv k]
      by (simp add: alloc_blocks_body_def)
  next
    case False
    then have k0: "0 < unat k" using zero by (auto simp: unat_gt_0)
    have run: "run_free s (unat k - ?c) ?c" and le: "?c \<le> unat k"
      and st: "0 < ?c \<longrightarrow> unat (start_block sc) = unat k - ?c"
      using I k0 by (auto simp: scan_inv_def Let_def)
    define st where "st = (if consecutive sc = 0 then k else start_block sc)"
    have st: "unat st = unat k - ?c"
      using st by (auto simp: st_def unat_eq_iff)
    have inc: "unat (consecutive sc + 1) = Suc ?c"
      using lt by (intro unat_inc) (simp add: word_less_nat_alt)
    define sc1 where "sc1 = sc\<lparr>start_block := st, consecutive := consecutive sc + 1\<rparr>"
    have upd: "(if consecutive sc = 0 then sc\<lparr>start_block := k\<rparr> else sc)\<lparr>consecutive :=
      consecutive (if consecutive sc = 0 then sc\<lparr>start_block := k\<rparr> else sc) + 1\<rparr> = sc1"
      by (simp add: sc1_def st_def)
    have body: "alloc_blocks_body num k sc =
      (if consecutive sc + 1 = num
       then do { s' \<leftarrow> mark_range st num s;
                 let s' = s'\<lparr>pmm_last_alloc := (st + num) mod pmm_max_blocks s'\<rparr>;
                 Some (Return (st * 4096) (sc1\<lparr>scanned := s'\<rparr>)) }
       else Some (Next sc1))"
      using False pmm_test [OF inv k] sc upd
      by (simp add: alloc_blocks_body_def Let_def sc1_def st_def)
    show ?thesis
    proof (cases "consecutive sc + 1 = num")
      case True
      then have n: "unat num = Suc ?c" using inc by simp
      then have free: "run_free s (unat st) (unat num)"
        using run False k le st by (simp add: run_free_Suc)
      have add: "unat (st + num) = unat st + unat num"
        using free pmm_inv_bounds(2) [OF inv] by (subst unat_add_le) (simp_all add: run_free_def)
      have addr: "st * 4096 = of_nat (4096 * unat st)" by (simp add: mult.commute)
      have "runs (mark_range st num s) (\<lambda>s'. scan_found s (unat num) (st * 4096)
          (sc1\<lparr>scanned := s'\<lparr>pmm_last_alloc := (st + num) mod pmm_max_blocks s'\<rparr>\<rparr>))"
      proof (rule runs_mono [OF mark_range_ok [OF inv free]])
        fix t assume t: "run_taken s (unat st) (unat num) t \<and> pmm_last_alloc t = pmm_last_alloc s"
        then have "pmm_max_blocks t = pmm_max_blocks s" by (blast dest: run_taken_max)
        then show "scan_found s (unat num) (st * 4096)
          (sc1\<lparr>scanned := t\<lparr>pmm_last_alloc := (st + num) mod pmm_max_blocks t\<rparr>\<rparr>)"
          unfolding scan_found_def using t add addr by (intro exI [of _ "unat st"]) simp
      qed
      then show ?thesis using body True by simp
    next
      case False
      then have "Suc ?c \<noteq> unat num" using inc by (metis unat_eq_iff)
      then have "Suc ?c < unat num" using lt by simp
      then have "scan_inv full s (unat num) (Suc (unat k)) sc1"
        unfolding sc1_def using I k0 k \<open>unat k \<notin> pmm_used s\<close> inc st
        by (intro scan_inv_free) simp_all
      then show ?thesis using body False by simp
    qed
  qed
qed

text \<open>One turn of the search, from \<open>start\<close> to the last block.\<close>

lemma alloc_blocks_turn_ok:
  assumes inv: "pmm_inv s" and num: "num \<noteq> 0" and zero: "0 \<in> pmm_used s"
    and start: "unat start \<le> pmm_blocks s"
    and I: "scan_inv full s (unat num) (unat start) sc"
  shows "runs (for_loop start (pmm_max_blocks s) (alloc_blocks_body num) sc) (\<lambda>out. case out of
    Done sc' \<Rightarrow> scan_inv full s (unat num) (pmm_blocks s) sc'
    | Returned a sc' \<Rightarrow> scan_found s (unat num) a sc')"
proof -
  have "runs (for_loop start (pmm_max_blocks s) (alloc_blocks_body num) sc) (\<lambda>out. case out of
    Done sc' \<Rightarrow> scan_inv full s (unat num) (pmm_blocks s) sc' \<or> False
    | Returned a sc' \<Rightarrow> scan_found s (unat num) a sc')"
    by (rule for_loop_rule [where I = "\<lambda>k. scan_inv full s (unat num) k", OF start I])
      (rule alloc_blocks_body_ok [OF inv num], auto simp: zero)
  then show ?thesis by (simp cong: outcome.case_cong)
qed

lemma scan_inv_again: "scan_inv full s n k sc \<Longrightarrow> scan_inv full' s n 0 sc"
  by (simp add: scan_inv_def)

lemma scan_inv_empty:
  "0 < n \<Longrightarrow> scan_inv full s n 0 \<lparr>consecutive = 0, start_block = 0, scanned = s\<rparr>"
  by (simp add: scan_inv_def)

lemma alloc_blocks_first_turn:
  assumes inv: "pmm_inv s" and num: "num \<noteq> 0" and zero: "0 \<in> pmm_used s"
  shows "runs (for_loop start (pmm_max_blocks s) (alloc_blocks_body num)
      \<lparr>consecutive = 0, start_block = 0, scanned = s\<rparr>) (\<lambda>out. case out of
    Done sc' \<Rightarrow> scan_inv True s (unat num) 0 sc'
    | Returned a sc' \<Rightarrow> scan_found s (unat num) a sc')"
proof (cases "unat start \<le> pmm_blocks s")
  case True
  have "0 < unat num" using num by (simp add: unat_gt_0)
  then have I: "scan_inv False s (unat num) (unat start)
      \<lparr>consecutive = 0, start_block = 0, scanned = s\<rparr>"
    using True by (rule scan_inv_start)
  show ?thesis
    by (rule runs_mono [OF alloc_blocks_turn_ok [OF inv num zero True I]])
      (auto split: outcome.splits intro: scan_inv_again)
next
  case False
  then have "\<not> start < pmm_max_blocks s" by (simp add: word_less_nat_alt)
  then show ?thesis
    using num by (subst for_loop.simps) (simp add: scan_inv_empty unat_gt_0)
qed

lemma pmm_alloc_blocks_ok:
  assumes inv: "pmm_inv s" and zero: "0 \<in> pmm_used s"
  shows "runs (pmm_alloc_blocks num s) (\<lambda>(a, s').
    if pmm_initialized s \<and> num \<noteq> 0 \<and> (\<exists>i. run_free s i (unat num))
    then \<exists>b. a = of_nat (4096 * b) \<and> run_taken s b (unat num) s' \<and>
      unat (pmm_last_alloc s') = (b + unat num) mod pmm_blocks s
    else a = 0 \<and> s' = s)" (is "runs _ ?post")
proof (cases "validate_allocation_request num s")
  case False
  have none: "\<not> (pmm_initialized s \<and> num \<noteq> 0 \<and> (\<exists>i. run_free s i (unat num)))"
  proof
    assume *: "pmm_initialized s \<and> num \<noteq> 0 \<and> (\<exists>i. run_free s i (unat num))"
    then obtain i where i: "run_free s i (unat num)" by blast
    have room: "unat (pmm_used_blocks s) + unat num \<le> pmm_blocks s"
      using run_room [OF inv i] inv by (simp add: pmm_inv_def)
    then have "unat (pmm_used_blocks s + num) = unat (pmm_used_blocks s) + unat num"
      using u32_bound [of "pmm_max_blocks s"] by (intro unat_add_le) simp
    then show False using False * room by (simp add: validate_allocation_request_def word_less_nat_alt)
  qed
  have "pmm_alloc_blocks num s = Some (0, s)" using False by (simp add: pmm_alloc_blocks_def)
  then show ?thesis by (simp only: runs_simps prod.case if_not_P [OF none] simp_thms)
next
  case True
  then have init: "pmm_initialized s" and num: "num \<noteq> 0"
    by (simp_all add: validate_allocation_request_def split: if_splits)
  let ?init = "\<lparr>consecutive = 0, start_block = 0, scanned = s\<rparr>"
  define I where "I = (\<lambda>(t :: nat) (start, sc). if t = 0 then start = pmm_last_alloc s \<and> sc = ?init
    else start = (0 :: u32) \<and> scan_inv True s (unat num) (if t = 1 then 0 else pmm_blocks s) sc)"
  have "runs (for_loop 0 2 (alloc_blocks_try num) (pmm_last_alloc s, ?init)) (\<lambda>out. case out of
      Done st \<Rightarrow> I (unat (2 :: u32)) st \<or> False
      | Returned a st \<Rightarrow> scan_found s (unat num) a (snd st))"
  proof (rule for_loop_rule [where I = I])
    show "I (unat (0 :: u32)) (pmm_last_alloc s, ?init)" by (simp add: I_def)
  next
    fix j :: u32 and st
    assume j: "unat j < unat (2 :: u32)" and I: "I (unat j) st"
    obtain start sc where st: "st = (start, sc)" by fastforce
    consider "unat j = 0" | "unat j = 1" using j by fastforce
    then show "runs (alloc_blocks_try num j st) (\<lambda>out. case out of
      Next st' \<Rightarrow> I (Suc (unat j)) st' | Break st' \<Rightarrow> False
      | Return a st' \<Rightarrow> scan_found s (unat num) a (snd st'))"
    proof cases
      case 1
      then have eq: "start = pmm_last_alloc s" "sc = ?init" using I st by (simp_all add: I_def)
      show ?thesis
        unfolding alloc_blocks_try_def st prod.case eq runs_simps scan.simps
        by (rule runs_mono [OF alloc_blocks_first_turn [OF inv num zero]])
          (auto simp: I_def 1 split: outcome.splits)
    next
      case 2
      then have eq: "start = 0" and sc: "scan_inv True s (unat num) (unat (0 :: u32)) sc" "scanned sc = s"
        using I st by (simp_all add: I_def scan_inv_def)
      show ?thesis
        unfolding alloc_blocks_try_def st prod.case eq runs_simps sc(2)
        by (rule runs_mono [OF alloc_blocks_turn_ok [OF inv num zero _ sc(1)]])
          (auto simp: I_def 2 split: outcome.splits)
    qed
  qed simp
  then have "runs (for_loop 0 2 (alloc_blocks_try num) (pmm_last_alloc s, ?init)) (\<lambda>r.
      ?post (case r of Done (_, sc) \<Rightarrow> (0, scanned sc) | Returned a (_, sc) \<Rightarrow> (a, scanned sc)))"
  proof (rule runs_mono)
    fix out :: "(u32 \<times> scan, u32) outcome"
    assume out: "case out of Done st \<Rightarrow> I (unat (2 :: u32)) st \<or> False
      | Returned a st \<Rightarrow> scan_found s (unat num) a (snd st)"
    show "?post (case out of Done (_, sc) \<Rightarrow> (0, scanned sc) | Returned a (_, sc) \<Rightarrow> (a, scanned sc))"
    proof (cases out)
      case (Done st)
      then have sc: "scan_inv True s (unat num) (pmm_blocks s) (snd st)"
        using out by (simp add: I_def split_beta)
      have "0 < pmm_blocks s" using pmm_used_lt [OF zero] by simp
      then have none: "\<not> run_free s i (unat num)" for i
        using sc by (cases "i + unat num \<le> pmm_blocks s") (auto simp: scan_inv_def Let_def run_free_def)
      then show ?thesis using sc Done by (simp add: split_beta scan_inv_def)
    next
      case (Returned a st)
      then obtain b where b: "a = of_nat (4096 * b)" "run_taken s b (unat num) (scanned (snd st))"
          "unat (pmm_last_alloc (scanned (snd st))) = (b + unat num) mod pmm_blocks s"
        using out by (auto simp: scan_found_def)
      then have "run_free s b (unat num)" by (simp add: run_taken_def)
      then show ?thesis using b Returned init num by (auto simp: split_beta)
    qed
  qed
  then show ?thesis using True by (simp add: pmm_alloc_blocks_def)
qed

section \<open>Freeing\<close>

text \<open>\<open>pmm_free_block\<close> returns before it looks at the bitmap, whatever it is given.\<close>

lemma pmm_free_block_eq [simp]: "pmm_free_block p s = Some s"
  by (simp add: pmm_free_block_def)

lemma pmm_free_blocks_eq: "pmm_free_blocks p n s = Some s"
proof -
  have "runs (for_loop 0 n
      (\<lambda>i s. map_option Next (pmm_free_block (p + i * 4096) s) :: (pmm, unit) ctl option) s)
    (\<lambda>out. \<exists>t. out = Done t \<and> t = s)"
    by (rule for_loop_rule_next [where I = "\<lambda>_ t. t = s"]) auto
  then show ?thesis by (auto simp: pmm_free_blocks_def runs_iff)
qed

lemma double_free_check_ok:
  assumes inv: "pmm_inv s" and n: "unat b + unat num \<le> pmm_blocks s"
  shows "runs (for_loop 0 num (double_free_check b s) ()) (\<lambda>r.
    (\<exists>u. r = Done u) \<longleftrightarrow> {unat b ..< unat b + unat num} \<subseteq> pmm_used s)"
proof -
  have "runs (for_loop 0 num (double_free_check b s) ()) (\<lambda>out. case out of
      Done u \<Rightarrow> {unat b ..< unat b + unat num} \<subseteq> pmm_used s \<or> False
      | Returned r u \<Rightarrow> \<not> {unat b ..< unat b + unat num} \<subseteq> pmm_used s)"
  proof (rule for_loop_rule [where I = "\<lambda>k _. {unat b ..< unat b + k} \<subseteq> pmm_used s"])
    fix j :: u32 and u :: unit
    assume j: "unat j < unat num" and I: "{unat b ..< unat b + unat j} \<subseteq> pmm_used s"
    have add: "unat (b + j) = unat b + unat j"
      using j n pmm_inv_bounds(2) [OF inv] by (subst unat_add_le) simp_all
    have mem: "unat b + unat j \<in> {unat b ..< unat b + unat num}" using j by simp
    have out: "\<not> {unat b ..< unat b + unat num} \<subseteq> pmm_used s" if "unat b + unat j \<notin> pmm_used s"
      using mem that by blast
    have lt: "unat b + unat j < pmm_blocks s" using j n by simp
    have ins: "{unat b ..< unat b + Suc (unat j)} = insert (unat b + unat j) {unat b ..< unat b + unat j}"
      by auto
    show "runs (double_free_check b s j u) (\<lambda>out. case out of
        Next s' \<Rightarrow> {unat b ..< unat b + Suc (unat j)} \<subseteq> pmm_used s | Break s' \<Rightarrow> False
        | Return r s' \<Rightarrow> \<not> {unat b ..< unat b + unat num} \<subseteq> pmm_used s)"
      unfolding ins double_free_check_def pmm_is_block_free_eq [OF inv] runs_simps
      using I out lt add by (cases "unat b + unat j \<in> pmm_used s") simp_all
  qed simp_all
  then show ?thesis by (rule runs_mono) (auto split: outcome.splits)
qed

lemma pmm_free_contiguous_ok:
  assumes inv: "pmm_inv s" and wrap: "unat p div 4096 + unat num < 2 ^ 32"
  shows "runs (pmm_free_contiguous p num s) (\<lambda>s'.
    if p \<noteq> 0 \<and> num \<noteq> 0 \<and> {unat p div 4096 ..< unat p div 4096 + unat num} \<subseteq> pmm_used s
    then pmm_inv s' \<and> pmm_frame s' = pmm_frame s \<and>
      pmm_used s' = pmm_used s - {unat p div 4096 ..< unat p div 4096 + unat num}
    else s' = s)" (is "runs _ (\<lambda>s'. if ?c then ?Q s' else s' = s)")
proof -
  let ?b = "p div 4096 :: u32"
  let ?R = "{unat p div 4096 ..< unat p div 4096 + unat num}"
  have add: "unat (?b + num) = unat p div 4096 + unat num"
    using wrap by (subst unat_add_le) simp_all
  show ?thesis
  proof (cases "p = 0 \<or> num = 0 \<or> ?b + num > pmm_max_blocks s")
    case True
    have "\<not> ?c"
    proof
      assume c: ?c
      then have "pmm_blocks s < unat p div 4096 + unat num" "0 < unat num"
        using True add by (simp_all add: word_less_nat_alt unat_gt_0)
      then have "unat p div 4096 + unat num - 1 \<in> ?R" "pmm_blocks s \<le> unat p div 4096 + unat num - 1"
        by simp_all
      then show False using c pmm_used_lt by fastforce
    qed
    have "pmm_free_contiguous p num s = Some s" using True by (auto simp: pmm_free_contiguous_def)
    then show ?thesis by (simp only: runs_simps if_not_P [OF \<open>\<not> ?c\<close>])
  next
    case False
    then have nz: "p \<noteq> 0" "num \<noteq> 0" and le: "unat ?b + unat num \<le> pmm_blocks s"
      using add by (simp_all add: word_less_nat_alt)
    define I where "I = (\<lambda>k t. pmm_inv t \<and> pmm_frame t = pmm_frame s \<and>
      pmm_used t = pmm_used s - {unat p div 4096 ..< unat p div 4096 + k})"
    have clear: "runs (for_loop 0 num
        (\<lambda>i s. map_option Next (clear_block (?b + i) s) :: (pmm, unit) ctl option) s)
      (\<lambda>out. \<exists>t. out = Done t \<and> I (unat num) t)" if used: "?R \<subseteq> pmm_used s"
    proof (rule for_loop_rule_next [where I = I])
      show "I (unat (0 :: u32)) s" using inv by (simp add: I_def)
    next
      fix j :: u32 and t
      assume j: "unat j < unat num" and I: "I (unat j) t"
      have addj: "unat (?b + j) = unat p div 4096 + unat j"
        using j le pmm_inv_bounds(2) [OF inv] by (subst unat_add_le) simp_all
      have "runs (clear_block (?b + j) t) (I (Suc (unat j)))"
      proof (rule runs_clear_block)
        show "pmm_inv t" using I by (simp add: I_def)
        show "unat (?b + j) < pmm_blocks t"
          using I j le addj by (auto simp: I_def dest: pmm_frame_max)
        have "unat p div 4096 + unat j \<in> ?R" using j by simp
        then show "unat (?b + j) \<in> pmm_used t" using used I addj by (auto simp: I_def)
        fix t' assume t': "pmm_inv t'" "pmm_used t' = pmm_used t - {unat (?b + j)}" "pmm_frame t' = pmm_frame t"
        then show "I (Suc (unat j)) t'" using I addj interval_remove [of "pmm_used s" "unat p div 4096" "unat j"] by (simp add: I_def)
      qed
      then show "runs (map_option Next (clear_block (?b + j) t))
        (\<lambda>out. \<exists>s'. out = (Next s' :: (pmm, unit) ctl) \<and> I (Suc (unat j)) s')" by simp
    qed simp
    have eq: "pmm_free_contiguous p num s =
      do { r \<leftarrow> for_loop 0 num (double_free_check ?b s) ();
           case r of Returned _ _ \<Rightarrow> Some s
           | Done _ \<Rightarrow> map_option exit_state (for_loop 0 num
              (\<lambda>i s. map_option Next (clear_block (?b + i) s) :: (pmm, unit) ctl option) s) }"
      using False by (simp add: pmm_free_contiguous_def Let_def)
    show ?thesis
      unfolding eq runs_simps
    proof (rule runs_mono [OF double_free_check_ok [OF inv le]])
      fix r :: "(unit, unit) outcome"
      assume r: "(\<exists>u. r = Done u) \<longleftrightarrow> {unat ?b ..< unat ?b + unat num} \<subseteq> pmm_used s"
      show "runs (case r of Returned _ _ \<Rightarrow> Some s
          | Done _ \<Rightarrow> map_option exit_state (for_loop 0 num
              (\<lambda>i s. map_option Next (clear_block (?b + i) s) :: (pmm, unit) ctl option) s))
        (\<lambda>s'. if ?c then ?Q s' else s' = s)"
      proof (cases r)
        case (Done u)
        then have used: "?R \<subseteq> pmm_used s" using r by simp
        have "runs (for_loop 0 num
            (\<lambda>i s. map_option Next (clear_block (?b + i) s) :: (pmm, unit) ctl option) s)
          (\<lambda>out. ?Q (exit_state out))"
          by (rule runs_mono [OF clear [OF used]]) (elim exE conjE, simp only: I_def exit_state.simps)
        moreover have ?c using nz used by blast
        ultimately show ?thesis by (simp only: Done outcome.case runs_map_option if_P simp_thms if_True)
      next
        case (Returned x u)
        then have "\<not> ?R \<subseteq> pmm_used s" using r by simp
        then have "\<not> ?c" by blast
        then show ?thesis by (simp only: Returned outcome.case runs_simps if_not_P simp_thms)
      qed
    qed
  qed
qed

section \<open>The interface of a frame allocator\<close>

text \<open>
  What the paging code and the virtual memory manager rely on when they take a frame: the address
  0 means that nothing was allocated (or that the frame is block 0, which the callers treat
  the same way); any other address is a page that was free and now is used, and every used page
  stays used.
\<close>

locale frame_allocator =
  fixes alloc :: "'s \<Rightarrow> (u32 \<times> 's) option"
    and inv :: "'s \<Rightarrow> bool"
    and used :: "'s \<Rightarrow> nat set"
  assumes alloc_law: "inv s \<Longrightarrow> runs (alloc s) (\<lambda>(a, s'). inv s' \<and> used s \<subseteq> used s' \<and>
    (a \<noteq> 0 \<longrightarrow> 4096 dvd unat a \<and> unat a div 4096 \<notin> used s \<and>
      used s' = insert (unat a div 4096) (used s)))"
begin

text \<open>A sequence of allocations, as a client makes them.\<close>

primrec alloc_many :: "nat \<Rightarrow> 's \<Rightarrow> (u32 list \<times> 's) option" where
  "alloc_many 0 s = Some ([], s)"
| "alloc_many (Suc n) s = do { (a, s) \<leftarrow> alloc s; (as, s) \<leftarrow> alloc_many n s; Some (a # as, s) }"

lemma alloc_many_ok:
  "inv s \<Longrightarrow> runs (alloc_many n s) (\<lambda>(as, s'). inv s' \<and> length as = n \<and> used s \<subseteq> used s' \<and>
    distinct (filter (\<lambda>a. a \<noteq> 0) as) \<and>
    (\<forall>a\<in>set as. a \<noteq> 0 \<longrightarrow> 4096 dvd unat a \<and> unat a div 4096 \<notin> used s \<and> unat a div 4096 \<in> used s'))"
proof (induction n arbitrary: s)
  case 0
  then show ?case by simp
next
  case (Suc n)
  show ?case
    unfolding alloc_many.simps runs_simps case_prod_unfold
  proof (rule runs_mono [OF alloc_law [OF Suc.prems]], unfold case_prod_unfold, elim conjE)
    fix x :: "u32 \<times> 's"
    assume x: "inv (snd x)" "used s \<subseteq> used (snd x)"
      "fst x \<noteq> 0 \<longrightarrow> 4096 dvd unat (fst x) \<and> unat (fst x) div 4096 \<notin> used s \<and>
        used (snd x) = insert (unat (fst x) div 4096) (used s)"
    show "runs (alloc_many n (snd x)) (\<lambda>y :: u32 list \<times> 's. inv (snd (fst x # fst y, snd y)) \<and>
        length (fst (fst x # fst y, snd y)) = Suc n \<and> used s \<subseteq> used (snd (fst x # fst y, snd y)) \<and>
        distinct (filter (\<lambda>a. a \<noteq> 0) (fst (fst x # fst y, snd y))) \<and>
        (\<forall>a\<in>set (fst (fst x # fst y, snd y)). a \<noteq> 0 \<longrightarrow> 4096 dvd unat a \<and>
          unat a div 4096 \<notin> used s \<and> unat a div 4096 \<in> used (snd (fst x # fst y, snd y))))"
      by (rule runs_mono [OF Suc.IH [OF x(1)]]) (use x in auto)
  qed
qed

end

lemma pmm_alloc_law:
  assumes "pmm_inv s"
  shows "runs (pmm_alloc_block s) (\<lambda>(a, s'). pmm_inv s' \<and> pmm_used s \<subseteq> pmm_used s' \<and>
    (a \<noteq> 0 \<longrightarrow> 4096 dvd unat a \<and> unat a div 4096 \<notin> pmm_used s \<and>
      pmm_used s' = insert (unat a div 4096) (pmm_used s)))"
proof (rule runs_mono_pair [OF pmm_alloc_block_ok [OF assms]])
  fix a s'
  assume "a = 0 \<and> s' = s \<and> (pmm_used s = {..<pmm_blocks s} \<or> all_used_below (8 * (pmm_blocks s div 8)) s)
    \<or> block_taken s a s'"
  then consider "a = 0" "s' = s" | b where "a = of_nat (4096 * b)" "b < 8 * (pmm_blocks s div 8)"
      "b \<notin> pmm_used s" "pmm_used s' = insert b (pmm_used s)" "pmm_inv s'"
    unfolding block_taken_def by blast
  then show "pmm_inv s' \<and> pmm_used s \<subseteq> pmm_used s' \<and>
    (a \<noteq> 0 \<longrightarrow> 4096 dvd unat a \<and> unat a div 4096 \<notin> pmm_used s \<and>
      pmm_used s' = insert (unat a div 4096) (pmm_used s))"
  proof cases
    case 2
    have "8 * (pmm_blocks s div 8) \<le> pmm_blocks s" by simp
    then have "4096 * b < 4294967296" using 2(2) pmm_inv_bounds(2) [OF assms] by linarith
    then have "unat a = 4096 * b" unfolding 2(1) by (simp only: unat_of_nat) simp
    then show ?thesis using 2 by auto
  qed (use assms in simp)
qed

interpretation pmm: frame_allocator pmm_alloc_block pmm_inv pmm_used
  by unfold_locales (rule pmm_alloc_law)

section \<open>Properties\<close>

text \<open>A small memory of 16 blocks: blocks 0 to 3 are used.\<close>

definition small_pmm :: pmm where
  "small_pmm = \<lparr>pmm_memory_size = 0x10000, pmm_used_blocks = 4, pmm_max_blocks = 16,
     pmm_memory_map = [0x0F, 0x00], pmm_initialized = True, pmm_last_alloc = 0\<rparr>"

text \<open>The same memory with its first two and last two blocks free.\<close>

definition tail_free :: pmm where
  "tail_free = \<lparr>pmm_memory_size = 0x10000, pmm_used_blocks = 12, pmm_max_blocks = 16,
     pmm_memory_map = [0xFC, 0x3F, 0x00], pmm_initialized = True, pmm_last_alloc = 14\<rparr>"

lemma pmm_used_small: "pmm_used small_pmm = {0, 1, 2, 3}"
proof -
  have "bm_blocks [0x0F, 0x00] 16 = set (filter (bm_bit [0x0F, 0x00]) [0..<16])"
    by (auto simp: bm_blocks_def)
  also have "filter (bm_bit [0x0F, 0x00]) [0..<16] = [0, 1, 2, 3]" by code_simp
  finally show ?thesis by (simp add: pmm_used_def small_pmm_def)
qed

lemma small_pmm_inv: "pmm_inv small_pmm"
  by (simp add: pmm_inv_def pmm_used_small) (simp add: small_pmm_def)

text \<open>The blocks that hold a byte of the \<open>n\<close> bytes from \<open>base\<close> on.\<close>

definition blocks_with_bytes :: "nat \<Rightarrow> nat \<Rightarrow> nat set" where
  "blocks_with_bytes base n = (\<lambda>a. a div 4096) ` {base..<base + n}"

lemma blocks_with_bytes_aligned:
  assumes "4096 dvd base"
  shows "blocks_with_bytes base n = {base div 4096..<base div 4096 + (n + 4095) div 4096}"
proof (rule set_eqI, rule iffI)
  fix b assume "b \<in> blocks_with_bytes base n"
  then obtain a where a: "base \<le> a" "a < base + n" "b = a div 4096" by (auto simp: blocks_with_bytes_def)
  obtain q where q: "base = 4096 * q" using assms by (rule dvdE)
  have "q \<le> b" "b < q + (n + 4095) div 4096" using a unfolding q by linarith+
  then show "b \<in> {base div 4096..<base div 4096 + (n + 4095) div 4096}" unfolding q by simp
next
  obtain q where q: "base = 4096 * q" using assms by (rule dvdE)
  fix b assume "b \<in> {base div 4096..<base div 4096 + (n + 4095) div 4096}"
  then have "q \<le> b" "b < q + (n + 4095) div 4096" unfolding q by simp_all
  then have "base \<le> 4096 * b" "4096 * b < base + n" unfolding q by linarith+
  then show "b \<in> blocks_with_bytes base n" unfolding blocks_with_bytes_def by (intro image_eqI [of _ _ "4096 * b"]) auto
qed

lemma ceiling_div:
  fixes k d :: nat
  assumes "0 < k mod d" "0 < d"
  shows "(k + d - 1) div d = Suc (k div d)"
proof -
  obtain r where r: "k mod d = Suc r" using assms(1) by (cases "k mod d") simp_all
  have "k + d - 1 = r + d * Suc (k div d)" using r mult_div_mod_eq [of d k] by simp
  moreover have "r < d" using r mod_less_divisor [OF assms(2), of k] by simp
  ultimately show ?thesis using assms(2) by (simp only: div_mult_self2 div_less)
qed

lemma region_blocks_bytes:
  assumes "4096 dvd unat base" "unat sz + 4095 < 2 ^ 32"
  shows "region_blocks base sz = blocks_with_bytes (unat base) (unat sz)"
  using assms by (simp add: region_blocks_def blocks_with_bytes_aligned unat_add_le)

text \<open>C21. \<open>pmm_init\<close> establishes the invariant of the block bitmap and leaves used exactly the blocks below the end of
  memory that hold a byte of the first megabyte, of the kernel image or of the bitmap, given that image and bitmap
  start on a page.  The bitmap has a byte for eight blocks or part of eight; the code reserves one byte
  less when the number of blocks is not a multiple of eight, which the third but last condition excludes where it
  matters: then the block that holds the last byte of the bitmap alone stays free.\<close>

theorem pmm_init_reserves:
  fixes mem_size :: u32
  defines "n \<equiv> unat ((mem_size + 4095) div 4096)"
  assumes "mem_size \<noteq> 0" and "bitmap_addr \<noteq> 0" and "n \<le> 8 * length bitmap"
    and "8 dvd n \<or> \<not> 4096 dvd n div 8"
    and "4096 dvd unat bitmap_addr" and "4096 dvd unat kernel_start" and "kernel_start \<le> kernel_end" "unat kernel_end + 4095 < 2 ^ 32"
  shows "runs (pmm_init kernel_start kernel_end mem_size bitmap_addr bitmap s)
    (\<lambda>s'. pmm_inv s' \<and> pmm_initialized s' \<and> unat (pmm_max_blocks s') = n \<and> length (pmm_memory_map s') = length bitmap \<and>
      pmm_used s' = (blocks_with_bytes 0 0x100000 \<union> blocks_with_bytes (unat kernel_start) (unat kernel_end - unat kernel_start)
        \<union> blocks_with_bytes (unat bitmap_addr) ((n + 7) div 8)) \<inter> {..<n})"
proof -
  let ?max = "(mem_size + 4095) div 4096"
  have le: "n \<le> 2 ^ 20" unfolding n_def by (rule blocks_of_memory)
  have k: "unat (kernel_end - kernel_start) = unat kernel_end - unat kernel_start" using assms(8) by (simp add: unat_sub)
  have "region_blocks kernel_start (kernel_end - kernel_start) =
      blocks_with_bytes (unat kernel_start) (unat kernel_end - unat kernel_start)"
    using assms(7,9) k by (subst region_blocks_bytes) simp_all
  moreover have "region_blocks 0 0x100000 = blocks_with_bytes 0 0x100000"
    by (subst region_blocks_bytes) simp_all
  moreover have "((n + 7) div 8 + 4095) div 4096 = (n div 8 + 4095) div 4096"
  proof (cases "8 dvd n")
    case True
    then obtain q where "n = 8 * q" by (rule dvdE)
    then show ?thesis by simp
  next
    case False
    then have "0 < n mod 8" by (simp add: dvd_eq_mod_eq_0)
    from ceiling_div [OF this] have "(n + 7) div 8 = n div 8 + 1" by simp
    moreover have "0 < (n div 8) mod 4096" using False assms(5) by (simp add: dvd_eq_mod_eq_0)
    from ceiling_div [OF this] have "(n div 8 + 1 + 4095) div 4096 = (n div 8 + 4095) div 4096"
      using div_add_self1 [of 4096 "n div 8"] by (simp add: add.commute)
    ultimately show ?thesis by simp
  qed
  then have "region_blocks bitmap_addr (?max div 8) = blocks_with_bytes (unat bitmap_addr) ((n + 7) div 8)"
    using assms(6) le by (subst region_blocks_bytes) (simp_all add: blocks_with_bytes_aligned n_def)
  ultimately have b: "boot_reserved kernel_start kernel_end bitmap_addr ?max =
      (blocks_with_bytes 0 0x100000 \<union> blocks_with_bytes (unat kernel_start) (unat kernel_end - unat kernel_start)
        \<union> blocks_with_bytes (unat bitmap_addr) ((n + 7) div 8)) \<inter> {..<n}"
    by (simp add: boot_reserved_def n_def)
  show ?thesis
    by (rule runs_mono [OF pmm_init_ok]) (use assms(2-4) in \<open>simp_all only: n_def b, simp_all\<close>)
qed

theorem pmm_init_reserves_witness:
  "runs (pmm_init 0x100000 0x180001 0x800000 0x200000 (replicate 256 0) pmm_boot)
    (\<lambda>s'. pmm_inv s' \<and> unat (pmm_max_blocks s') = 2048 \<and>
      0x180 \<in> pmm_used s' \<and> 0x181 \<notin> pmm_used s' \<and> 0x200 \<in> pmm_used s' \<and> 0x201 \<notin> pmm_used s')"
proof -
  have n: "unat ((0x800000 + 4095 :: u32) div 4096) = 2048" by simp
  have b: "blocks_with_bytes 0 0x100000 = {0..<0x100}" "blocks_with_bytes 0x100000 0x80001 = {0x100..<0x181}"
      "blocks_with_bytes 0x200000 256 = {0x200..<0x201}"
    by (simp_all add: blocks_with_bytes_aligned)
  show ?thesis
    using pmm_init_reserves [where mem_size = "0x800000" and bitmap_addr = "0x200000"
      and bitmap = "replicate 256 0" and kernel_start = "0x100000" and kernel_end = "0x180001" and s = pmm_boot, unfolded n]
    by (simp add: b) (erule runs_mono, auto)
qed

text \<open>C7. \<open>pmm_alloc_block\<close> hands out the lowest free block and marks exactly that block; it
  returns \<open>NULL\<close> only when every block, or every block of a complete bitmap byte, is used (the blocks
  of an incomplete last byte are never handed out).\<close>

theorem pmm_alloc_block_lowest:
  assumes "pmm_inv s"
  shows "runs (pmm_alloc_block s) (\<lambda>(a, s').
    (a = 0 \<and> s' = s \<and> (\<forall>b < 8 * (pmm_blocks s div 8). b \<in> pmm_used s)) \<or>
    (\<exists>b. a = of_nat (4096 * b) \<and> b \<notin> pmm_used s \<and> (\<forall>b' < b. b' \<in> pmm_used s) \<and>
       pmm_inv s' \<and> pmm_used s' = insert b (pmm_used s) \<and> pmm_frame s' = pmm_frame s))"
proof (rule runs_mono_pair [OF pmm_alloc_block_ok [OF assms]])
  fix a s'
  have "8 * (pmm_blocks s div 8) \<le> pmm_blocks s" by simp
  moreover assume "a = 0 \<and> s' = s \<and> (pmm_used s = {..<pmm_blocks s} \<or> all_used_below (8 * (pmm_blocks s div 8)) s)
    \<or> block_taken s a s'"
  ultimately show "(a = 0 \<and> s' = s \<and> (\<forall>b < 8 * (pmm_blocks s div 8). b \<in> pmm_used s)) \<or>
    (\<exists>b. a = of_nat (4096 * b) \<and> b \<notin> pmm_used s \<and> (\<forall>b' < b. b' \<in> pmm_used s) \<and>
       pmm_inv s' \<and> pmm_used s' = insert b (pmm_used s) \<and> pmm_frame s' = pmm_frame s)"
    unfolding block_taken_def all_used_below_def by (elim disjE conjE exE) (auto simp: subset_eq)
qed

theorem pmm_alloc_block_lowest_witness:
  "pmm_used small_pmm = {0, 1, 2, 3} \<and> runs (pmm_alloc_block small_pmm) (\<lambda>(a, s').
    (a = 0 \<and> s' = small_pmm \<and> (\<forall>b < 8 * (pmm_blocks small_pmm div 8). b \<in> pmm_used small_pmm)) \<or>
    (\<exists>b. a = of_nat (4096 * b) \<and> b \<notin> pmm_used small_pmm \<and> (\<forall>b' < b. b' \<in> pmm_used small_pmm) \<and>
       pmm_inv s' \<and> pmm_used s' = insert b (pmm_used small_pmm) \<and> pmm_frame s' = pmm_frame small_pmm))"
  using pmm_alloc_block_lowest [OF small_pmm_inv] pmm_used_small by blast

text \<open>C22. \<open>pmm_alloc_contiguous\<close> is a first-fit search: it takes the lowest run of free blocks of the
  requested length, and fails exactly when there is none.\<close>

theorem pmm_alloc_contiguous_first_fit:
  assumes "pmm_inv s"
  shows "runs (pmm_alloc_contiguous num s) (\<lambda>(a, s').
    if num \<noteq> 0 \<and> (\<exists>i. run_free s i (unat num))
    then \<exists>b. a = of_nat (4096 * b) \<and> run_taken s b (unat num) s' \<and>
      (\<forall>i<b. \<not> run_free s i (unat num))
    else a = 0 \<and> s' = s)"
  by (rule pmm_alloc_contiguous_ok [OF assms])

theorem pmm_alloc_contiguous_first_fit_witness:
  "runs (pmm_alloc_contiguous 3 small_pmm) (\<lambda>(a, s').
    if (3 :: u32) \<noteq> 0 \<and> (\<exists>i. run_free small_pmm i (unat (3 :: u32)))
    then \<exists>b. a = of_nat (4096 * b) \<and> run_taken small_pmm b (unat (3 :: u32)) s' \<and>
      (\<forall>i<b. \<not> run_free small_pmm i (unat (3 :: u32)))
    else a = 0 \<and> s' = small_pmm)"
  by (rule pmm_alloc_contiguous_first_fit [OF small_pmm_inv])

text \<open>C12. \<open>pmm_alloc_blocks\<close> (next fit, two turns) finds a run whenever there is one, marks exactly
  that run and moves the search start behind it, provided block 0 is in use, as \<open>pmm_init\<close> leaves
  it: the run counter is not reset between the turns.\<close>

theorem pmm_alloc_blocks_next_fit:
  assumes "pmm_inv s" and "0 \<in> pmm_used s"
  shows "runs (pmm_alloc_blocks num s) (\<lambda>(a, s').
    if pmm_initialized s \<and> num \<noteq> 0 \<and> (\<exists>i. run_free s i (unat num))
    then \<exists>b. a = of_nat (4096 * b) \<and> run_taken s b (unat num) s' \<and>
      unat (pmm_last_alloc s') = (b + unat num) mod pmm_blocks s
    else a = 0 \<and> s' = s)"
  using assms by (rule pmm_alloc_blocks_ok)

theorem pmm_alloc_blocks_next_fit_witness:
  "runs (pmm_alloc_blocks 5 small_pmm) (\<lambda>(a, s').
    if pmm_initialized small_pmm \<and> (5 :: u32) \<noteq> 0 \<and> (\<exists>i. run_free small_pmm i (unat (5 :: u32)))
    then \<exists>b. a = of_nat (4096 * b) \<and> run_taken small_pmm b (unat (5 :: u32)) s' \<and>
      unat (pmm_last_alloc s') = (b + unat (5 :: u32)) mod pmm_blocks small_pmm
    else a = 0 \<and> s' = small_pmm)"
  by (rule pmm_alloc_blocks_next_fit [OF small_pmm_inv]) (simp add: pmm_used_small)

text \<open>Without that proviso the next-fit search joins the free tail of the memory with the free
  blocks at its start: the request for three blocks is answered with blocks 14, 15 and 16 of a
  memory of 16 blocks.\<close>

theorem pmm_alloc_blocks_crosses_end:
  "map_option (\<lambda>(a, s). (a, pmm_memory_map s, pmm_used_blocks s)) (pmm_alloc_blocks 3 tail_free) =
    Some (0xE000, [0xFC, 0xFF, 0x01], 15)"
  by code_simp

text \<open>C23. \<open>pmm_free_contiguous\<close> undoes \<open>pmm_alloc_contiguous\<close>: after an allocation of \<open>num\<close> blocks at a
  non-null address, freeing them restores the set of used blocks.\<close>

theorem pmm_free_contiguous_undoes_alloc:
  assumes inv: "pmm_inv s"
  shows "runs (pmm_alloc_contiguous num s) (\<lambda>(a, s'). a \<noteq> 0 \<longrightarrow>
    runs (pmm_free_contiguous a num s') (\<lambda>s''. pmm_inv s'' \<and> pmm_used s'' = pmm_used s))"
proof (rule runs_mono_pair [OF pmm_alloc_contiguous_ok [OF inv]], intro impI)
  fix a :: u32 and s'
  assume post: "if num \<noteq> 0 \<and> (\<exists>i. run_free s i (unat num))
      then \<exists>b. a = of_nat (4096 * b) \<and> run_taken s b (unat num) s' \<and>
        (\<forall>i<b. \<not> run_free s i (unat num))
      else a = 0 \<and> s' = s" and a: "a \<noteq> 0"
  from post a have num: "num \<noteq> 0" by (metis)
  from post a obtain b where b: "a = of_nat (4096 * b)" and t: "run_taken s b (unat num) s'" by metis
  have run: "run_free s b (unat num)" "pmm_inv s'" "pmm_used s' = pmm_used s \<union> {b ..< b + unat num}"
    using t by (simp_all add: run_taken_def)
  have bnd: "b + unat num \<le> 1048576"
    using run(1) pmm_inv_bounds(2) [OF inv] by (simp add: run_free_def)
  then have "4096 * b < 4294967296" using num by (simp add: unat_gt_0 [symmetric])
  then have ua: "unat a = 4096 * b" unfolding b by (simp only: unat_of_nat) simp
  have "{b ..< b + unat num} \<inter> pmm_used s = {}" using run(1) by (auto simp: run_free_def)
  then have "pmm_used s' - {b ..< b + unat num} = pmm_used s" using run(3) by blast
  moreover have "{b ..< b + unat num} \<subseteq> pmm_used s'" using run(3) by blast
  ultimately show "runs (pmm_free_contiguous a num s') (\<lambda>s''. pmm_inv s'' \<and> pmm_used s'' = pmm_used s)"
    using runs_mono [OF pmm_free_contiguous_ok [OF run(2), of a num],
        of "\<lambda>s''. pmm_inv s'' \<and> pmm_used s'' = pmm_used s"] bnd a num by (simp add: ua)
qed

theorem pmm_free_contiguous_undoes_alloc_witness:
  "runs (pmm_alloc_contiguous 3 small_pmm) (\<lambda>(a, s'). a \<noteq> 0 \<longrightarrow>
    runs (pmm_free_contiguous a 3 s') (\<lambda>s''. pmm_inv s'' \<and> pmm_used s'' = pmm_used small_pmm))"
  by (rule pmm_free_contiguous_undoes_alloc [OF small_pmm_inv])

text \<open>\<open>pmm_free_block\<close> and \<open>pmm_free_blocks\<close> never free anything: the \<open>return\<close> after the log
  line for \<open>NULL\<close> is outside the \<open>if\<close>, so the state is unchanged for every argument, where the
  code below it would clear the bit of a used block.\<close>

theorem pmm_free_block_never_frees:
  "pmm_free_block p s = Some s \<and> pmm_free_blocks p n s = Some s \<and>
   (pmm_inv s \<and> p mod 4096 = 0 \<and> unat (p div 4096) \<in> pmm_used s \<longrightarrow>
     runs (pmm_free_block_unreached p s) (\<lambda>s'. pmm_used s' = pmm_used s - {unat (p div 4096)}))"
proof (intro conjI impI)
  assume *: "pmm_inv s \<and> p mod 4096 = 0 \<and> unat (p div 4096) \<in> pmm_used s"
  then have lt: "unat (p div 4096) < pmm_blocks s" by (blast dest: pmm_used_lt)
  have "runs (clear_block (p div 4096) s) (\<lambda>s'. pmm_used s' = pmm_used s - {unat (p div 4096)})"
    using * lt by (intro runs_clear_block) simp_all
  then show "runs (pmm_free_block_unreached p s) (\<lambda>s'. pmm_used s' = pmm_used s - {unat (p div 4096)})"
    using * lt pmm_test [of s "p div 4096"]
    by (simp add: pmm_free_block_unreached_def Let_def word_le_nat_alt)
qed (simp_all add: pmm_free_blocks_eq)

theorem pmm_free_block_never_frees_witness:
  "pmm_free_block 0x2000 small_pmm = Some small_pmm \<and>
   runs (pmm_free_block_unreached 0x2000 small_pmm) (\<lambda>s'. pmm_used s' = {0, 1, 3})"
proof -
  have "pmm_used small_pmm - {2} = {0, 1, 3}" by (auto simp: pmm_used_small)
  then show ?thesis
    using pmm_free_block_never_frees [of "0x2000" small_pmm 1] small_pmm_inv pmm_used_small by simp
qed

text \<open>C24. A sequence of single-block allocations never hands out the same frame twice, nor a frame
  that was in use before (a property of every frame allocator, here of the PMM).\<close>

theorem pmm_alloc_sequence_distinct:
  assumes "pmm_inv s"
  shows "runs (pmm.alloc_many n s) (\<lambda>(as, s'). pmm_inv s' \<and> length as = n \<and> pmm_used s \<subseteq> pmm_used s' \<and>
    distinct (filter (\<lambda>a. a \<noteq> 0) as) \<and>
    (\<forall>a\<in>set as. a \<noteq> 0 \<longrightarrow> 4096 dvd unat a \<and> unat a div 4096 \<notin> pmm_used s \<and>
      unat a div 4096 \<in> pmm_used s'))"
  using assms by (rule pmm.alloc_many_ok)

theorem pmm_alloc_sequence_distinct_witness:
  "runs (pmm.alloc_many 3 small_pmm) (\<lambda>(as, s'). pmm_inv s' \<and> length as = 3 \<and>
    pmm_used small_pmm \<subseteq> pmm_used s' \<and> distinct (filter (\<lambda>a. a \<noteq> 0) as) \<and>
    (\<forall>a\<in>set as. a \<noteq> 0 \<longrightarrow> 4096 dvd unat a \<and> unat a div 4096 \<notin> pmm_used small_pmm \<and>
      unat a div 4096 \<in> pmm_used s'))"
  by (rule pmm_alloc_sequence_distinct [OF small_pmm_inv])
end
