(* ===== verification/Paging.thy ===== *)
theory Paging
  imports PmmBlocks
begin

text \<open>
  \<open>src/mm/paging.c\<close> on the memory it manages.  The machine has a physical memory of bytes and the
  control registers that matter here; every pointer access of the code goes through the
  two-level page walk of the processor once \<open>CR0.PG\<close> is set, and is physical before.  A page
  fault is \<open>None\<close>.  The TLB is not modelled: the code executes \<open>invlpg\<close> for the address whose entry it
  changes, and the walk always sees the current tables (an alias in a shared table is not flushed).
\<close>

section \<open>Memory and the page walk\<close>

type_synonym pmem = "u32 \<Rightarrow> u8"

record machine =
  phys :: pmem
  cr3 :: u32
  cr0_pg :: bool
  page_directory :: u32
  paging_active :: bool
  frames :: pmm
  vmm_bitmap :: u32
  vmm_max_pages :: u32

text \<open>Little-endian words.\<close>

definition get32 :: "pmem \<Rightarrow> u32 \<Rightarrow> u32" where
  "get32 m a = ucast (m a) OR push_bit 8 (ucast (m (a + 1))) OR push_bit 16 (ucast (m (a + 2)))
     OR push_bit 24 (ucast (m (a + 3)))"

definition put32 :: "pmem \<Rightarrow> u32 \<Rightarrow> u32 \<Rightarrow> pmem" where
  "put32 m a v = m(a := ucast v, a + 1 := ucast (drop_bit 8 v), a + 2 := ucast (drop_bit 16 v),
     a + 3 := ucast (drop_bit 24 v))"

abbreviation (input) PAGE_SIZE :: u32 where "PAGE_SIZE \<equiv> 4096"
abbreviation (input) PAGE_PRESENT :: u32 where "PAGE_PRESENT \<equiv> 1"
abbreviation (input) PAGE_WRITABLE :: u32 where "PAGE_WRITABLE \<equiv> 2"
abbreviation (input) PAGE_USER :: u32 where "PAGE_USER \<equiv> 4"
abbreviation (input) PAGE_UNCACHED :: u32 where "PAGE_UNCACHED \<equiv> 16"

definition pd_index :: "u32 \<Rightarrow> u32" where
  "pd_index va = drop_bit 22 va"

definition pt_index :: "u32 \<Rightarrow> u32" where
  "pt_index va = drop_bit 12 va AND 0x3FF"

definition frame_of :: "u32 \<Rightarrow> u32" where
  "frame_of e = e AND NOT 0xFFF"

definition present :: "u32 \<Rightarrow> bool" where
  "present e \<longleftrightarrow> e AND PAGE_PRESENT \<noteq> 0"

text \<open>The processor's walk from the directory at physical address \<open>pd\<close>.\<close>

definition pde_addr :: "u32 \<Rightarrow> u32 \<Rightarrow> u32" where
  "pde_addr pd va = pd + 4 * pd_index va"

definition pte_addr :: "pmem \<Rightarrow> u32 \<Rightarrow> u32 \<Rightarrow> u32" where
  "pte_addr m pd va = frame_of (get32 m (pde_addr pd va)) + 4 * pt_index va"

definition page_walk :: "pmem \<Rightarrow> u32 \<Rightarrow> u32 \<Rightarrow> u32 option" where
  "page_walk m pd va =
     (if \<not> present (get32 m (pde_addr pd va)) then None
      else let pte = get32 m (pte_addr m pd va) in
        if \<not> present pte then None else Some (frame_of pte OR (va AND 0xFFF)))"

definition mmu_translate :: "machine \<Rightarrow> u32 \<Rightarrow> u32 option" where
  "mmu_translate st va = (if cr0_pg st then page_walk (phys st) (cr3 st) va else Some va)"

definition load8 :: "u32 \<Rightarrow> machine \<Rightarrow> u8 option" where
  "load8 va st = map_option (phys st) (mmu_translate st va)"

definition store8 :: "u32 \<Rightarrow> u8 \<Rightarrow> machine \<Rightarrow> machine option" where
  "store8 va v st = map_option (\<lambda>a. st\<lparr>phys := (phys st)(a := v)\<rparr>) (mmu_translate st va)"

text \<open>Words are accessed at aligned addresses only, so a word never crosses a page.\<close>

definition load32 :: "u32 \<Rightarrow> machine \<Rightarrow> u32 option" where
  "load32 va st = map_option (get32 (phys st)) (mmu_translate st va)"

definition store32 :: "u32 \<Rightarrow> u32 \<Rightarrow> machine \<Rightarrow> machine option" where
  "store32 va v st = map_option (\<lambda>a. st\<lparr>phys := put32 (phys st) a v\<rparr>) (mmu_translate st va)"

definition memset8 :: "u32 \<Rightarrow> u8 \<Rightarrow> u32 \<Rightarrow> machine \<Rightarrow> machine option" where
  "memset8 p v n st =
     map_option exit_state
       (for_loop 0 n (\<lambda>i st. map_option Next (store8 (p + i) v st) :: (machine, unit) ctl option) st)"

section \<open>The functions of paging.c\<close>

text \<open>A frame from the PMM; the address 0 is \<open>NULL\<close>.\<close>

definition alloc_frame :: "machine \<Rightarrow> (u32 \<times> machine) option" where
  "alloc_frame st = map_option (\<lambda>(a, s). (a, st\<lparr>frames := s\<rparr>)) (pmm_alloc_block (frames st))"

text \<open>
  The second half of \<open>paging_init\<close>: the first page table, filled by a loop of 2048 iterations, serves
  both the lowest addresses and the kernel's.
\<close>

definition install_first_table :: "u32 \<Rightarrow> u32 \<Rightarrow> machine \<Rightarrow> machine option" where
  "install_first_table pd first_page_table st =
     do { st \<leftarrow> memset8 first_page_table 0 PAGE_SIZE st;
          st \<leftarrow> map_option exit_state
            (for_loop 0 2048
              (\<lambda>i st. map_option Next
                (store32 (first_page_table + 4 * i)
                  (i * PAGE_SIZE OR PAGE_PRESENT OR PAGE_WRITABLE) st) :: (machine, unit) ctl option) st);
          st \<leftarrow> store32 pd (first_page_table AND 0xFFFFF000 OR PAGE_PRESENT OR PAGE_WRITABLE) st;
          store32 (pd + 4 * 768) (first_page_table OR PAGE_PRESENT OR PAGE_WRITABLE) st }"

definition paging_init :: "machine \<Rightarrow> machine option" where
  "paging_init st =
     do { (pd, st) \<leftarrow> alloc_frame st;
          let st = st\<lparr>page_directory := pd\<rparr>;
          if pd = 0 then Some st
          else do {
            st \<leftarrow> memset8 pd 0 PAGE_SIZE st;
            (first_page_table, st) \<leftarrow> alloc_frame st;
            if first_page_table = 0 then Some st
            else install_first_table pd first_page_table st } }"

text \<open>
  \<open>paging_enable\<close>: \<open>load_page_directory\<close> writes \<open>CR3\<close>, \<open>enable_paging_internal\<close> sets \<open>CR0.PG\<close>; the
  pointer to the directory is then rebased to its kernel address.
\<close>

definition load_page_directory :: "u32 \<Rightarrow> machine \<Rightarrow> machine" where
  "load_page_directory pd_addr st = st\<lparr>cr3 := frame_of pd_addr\<rparr>"

definition enable_paging_internal :: "machine \<Rightarrow> machine" where
  "enable_paging_internal st = st\<lparr>cr0_pg := True\<rparr>"

definition paging_enable :: "u32 \<Rightarrow> machine \<Rightarrow> machine" where
  "paging_enable page_directory_addr st =
     (if page_directory_addr = 0 then st
      else let st = enable_paging_internal (load_page_directory page_directory_addr st)
           in st\<lparr>paging_active := True, page_directory := 0xC0000000 + page_directory st\<rparr>)"

text \<open>The address at which the code accesses the physical address \<open>pa\<close>.\<close>

definition kernel_ptr :: "machine \<Rightarrow> u32 \<Rightarrow> u32" where
  "kernel_ptr st pa = (if paging_active st then 0xC0000000 + pa else pa)"

definition new_page_table :: "u32 \<Rightarrow> machine \<Rightarrow> (bool \<times> machine) option" where
  "new_page_table pdi st =
     do { (phys_table, st) \<leftarrow> alloc_frame st;
          if phys_table = 0 then Some (False, st)
          else do { st \<leftarrow> memset8 (kernel_ptr st phys_table) 0 PAGE_SIZE st;
                    st \<leftarrow> store32 (page_directory st + 4 * pdi)
                             (phys_table OR (PAGE_PRESENT OR PAGE_WRITABLE)) st;
                    Some (True, st) } }"

definition paging_map_page :: "u32 \<Rightarrow> u32 \<Rightarrow> u32 \<Rightarrow> machine \<Rightarrow> (bool \<times> machine) option" where
  "paging_map_page phys_addr virt_addr flags st =
     do { pde \<leftarrow> load32 (page_directory st + 4 * pd_index virt_addr) st;
          (ok, st) \<leftarrow> (if \<not> present pde then new_page_table (pd_index virt_addr) st
                       else Some (True, st));
          if \<not> ok then Some (False, st)
          else do {
            pde \<leftarrow> load32 (page_directory st + 4 * pd_index virt_addr) st;
            let page_table = kernel_ptr st (frame_of pde);
            st \<leftarrow> store32 (page_table + 4 * pt_index virt_addr)
                     (frame_of phys_addr OR flags OR PAGE_PRESENT) st;
            Some (True, st) } }"

definition paging_unmap_page :: "u32 \<Rightarrow> machine \<Rightarrow> machine option" where
  "paging_unmap_page virt_addr st =
     do { pde \<leftarrow> load32 (page_directory st + 4 * pd_index virt_addr) st;
          if \<not> present pde then Some st
          else do {
            let pt = frame_of pde;
            pte \<leftarrow> load32 (pt + 4 * pt_index virt_addr) st;
            if \<not> present pte then Some st
            else store32 (pt + 4 * pt_index virt_addr) 0 st } }"

definition get_page_directory :: "machine \<Rightarrow> u32" where
  "get_page_directory st = page_directory st"

text \<open>\<open>virt_to_phys\<close> of \<open>vmm.c\<close> walks the tables in software; \<open>UINT32_MAX\<close> is its error value.\<close>

definition virt_to_phys :: "u32 \<Rightarrow> machine \<Rightarrow> u32 option" where
  "virt_to_phys virt_addr st =
     do { pde \<leftarrow> load32 (get_page_directory st + 4 * pd_index virt_addr) st;
          if \<not> present pde then Some 0xFFFFFFFF
          else do {
            let pt = kernel_ptr st (frame_of pde);
            pte \<leftarrow> load32 (pt + 4 * pt_index virt_addr) st;
            if \<not> present pte then Some 0xFFFFFFFF
            else Some (frame_of pte OR (virt_addr AND 0xFFF)) } }"

definition phys_to_virt :: "u32 \<Rightarrow> u32" where
  "phys_to_virt phys_addr = phys_addr + 0xC0000000"

section \<open>Words in memory\<close>

lemma bit_u8_high: "\<not> n < 8 \<Longrightarrow> \<not> bit (b :: u8) n"
  by (auto dest: bit_imp_le_length)

lemma bytes_of_word:
  fixes v :: u32
  shows "ucast (ucast v :: u8) OR push_bit 8 (ucast (ucast (drop_bit 8 v) :: u8)) OR
    push_bit 16 (ucast (ucast (drop_bit 16 v) :: u8)) OR
    push_bit 24 (ucast (ucast (drop_bit 24 v) :: u8)) = v"
proof (rule bit_word_eqI)
  fix n assume "n < LENGTH(32)"
  then consider "n < 8" | "8 \<le> n" "n < 16" | "16 \<le> n" "n < 24" | "24 \<le> n" "n < 32"
    by force
  then show "bit (ucast (ucast v :: u8) OR push_bit 8 (ucast (ucast (drop_bit 8 v) :: u8)) OR
    push_bit 16 (ucast (ucast (drop_bit 16 v) :: u8)) OR
    push_bit 24 (ucast (ucast (drop_bit 24 v) :: u8)) :: u32) n = bit v n"
    by cases (auto simp: bit_or_iff bit_push_bit_iff bit_ucast_iff bit_drop_bit_eq bit_u8_high)
qed

definition aligned :: "u32 \<Rightarrow> bool" where
  "aligned a \<longleftrightarrow> 4 dvd unat a"

lemma four_distinct:
  "a \<noteq> a + 1" "a \<noteq> a + 2" "a \<noteq> a + 3" "a + 1 \<noteq> a + 2" "a + 1 \<noteq> a + 3" "a + 2 \<noteq> a + 3"
  for a :: u32
  by simp_all

lemma get32_put32_same: "get32 (put32 m a v) a = v"
  using bytes_of_word [of v] by (simp add: get32_def put32_def)

lemma unat_word_offset:
  fixes k :: u32
  assumes "aligned a" and "unat k < 4"
  shows "unat (a + k) = unat a + unat k"
proof -
  have "unat a < 4294967296" by (rule u32_bound)
  then have "unat a + unat k < 4294967296" using assms by (auto simp: aligned_def)
  then show ?thesis by (intro unat_add_le) simp
qed

lemma word_bytes_disjoint:
  fixes a b k l :: u32
  assumes "aligned a" "aligned b" "unat k < 4" "unat l < 4" "a + k = b + l"
  shows "a = b"
proof -
  have "unat a + unat k = unat b + unat l"
    using assms unat_word_offset by metis
  then have "unat a = unat b"
    using assms(1-4) unfolding aligned_def by presburger
  then show ?thesis by (simp add: unat_eq_iff)
qed

lemma get32_put32_other:
  assumes "aligned a" "aligned b" "a \<noteq> b"
  shows "get32 (put32 m a v) b = get32 m b"
proof -
  have ne: "b + l \<noteq> a + k" if "unat k < 4" "unat l < 4" for k l :: u32
    using word_bytes_disjoint [OF assms(1,2) that] assms(3) by metis
  have "put32 m a v (b + l) = m (b + l)" if "unat l < 4" for l
    using ne [of 0 l] ne [of 1 l] ne [of 2 l] ne [of 3 l] that by (simp add: put32_def)
  from this [of 0] this [of 1] this [of 2] this [of 3] show ?thesis by (simp add: get32_def)
qed

lemma get32_put32:
  "aligned a \<Longrightarrow> aligned b \<Longrightarrow> get32 (put32 m a v) b = (if a = b then v else get32 m b)"
  by (simp add: get32_put32_same get32_put32_other)

text \<open>Frames are taken from the PMM's allocator, so its interface carries over.\<close>

interpretation machine_frames: frame_allocator alloc_frame "\<lambda>st. pmm_inv (frames st)"
    "\<lambda>st. pmm_used (frames st)"
proof unfold_locales
  fix st :: machine assume "pmm_inv (frames st)"
  then show "runs (alloc_frame st) (\<lambda>(a, st'). pmm_inv (frames st') \<and>
      pmm_used (frames st) \<subseteq> pmm_used (frames st') \<and>
      (a \<noteq> 0 \<longrightarrow> 4096 dvd unat a \<and> unat a div 4096 \<notin> pmm_used (frames st) \<and>
        pmm_used (frames st') = insert (unat a div 4096) (pmm_used (frames st))))"
    using pmm.alloc_law [of "frames st"] by (simp add: alloc_frame_def case_prod_unfold)
qed

section \<open>Addresses of table entries\<close>

definition page_aligned :: "u32 \<Rightarrow> bool" where
  "page_aligned a \<longleftrightarrow> 4096 dvd unat a"

lemma unat_and_fff: "unat (x AND 0xFFF :: u32) = unat x mod 4096"
proof -
  have "(0xFFF :: u32) = mask 12" by (simp add: mask_eq_exp_minus_1)
  then have "x AND 0xFFF = take_bit 12 x" by (simp only: take_bit_eq_mask)
  then show ?thesis by (simp add: unsigned_take_bit_eq take_bit_eq_mod)
qed

lemma frame_of_plus: "frame_of e + (e AND 0xFFF) = e"
proof -
  have "frame_of e + (e AND 0xFFF) = frame_of e OR (e AND 0xFFF)"
    unfolding frame_of_def by (rule disjunctive_add) (auto simp: bit_simps)
  also have "\<dots> = e" by (rule bit_word_eqI) (auto simp: frame_of_def bit_simps)
  finally show ?thesis .
qed

lemma unat_frame_of: "unat (frame_of e) = 4096 * (unat e div 4096)"
proof -
  have "frame_of e = e - (e AND 0xFFF)" using frame_of_plus [of e] by (metis add_diff_cancel)
  moreover have "e AND 0xFFF \<le> e" by (simp add: word_le_nat_alt unat_and_fff)
  ultimately have "unat (frame_of e) = unat e - unat e mod 4096"
    by (simp add: unat_sub unat_and_fff)
  then show ?thesis by (simp add: minus_mod_eq_mult_div)
qed

lemma page_aligned_frame_of [simp]: "page_aligned (frame_of e)"
  by (simp add: page_aligned_def unat_frame_of)

lemma unat_pt_index: "unat (pt_index va) = unat va div 4096 mod 1024"
proof -
  have "(0x3FF :: u32) = mask 10" by (simp add: mask_eq_exp_minus_1)
  then have "pt_index va = take_bit 10 (drop_bit 12 va)"
    by (simp add: pt_index_def take_bit_eq_mask)
  then show ?thesis
    by (simp add: unsigned_take_bit_eq take_bit_eq_mod unsigned_drop_bit_eq drop_bit_eq_div)
qed

lemma unat_pd_index: "unat (pd_index va) = unat va div 4194304"
  by (simp add: pd_index_def unsigned_drop_bit_eq drop_bit_eq_div)

lemma pt_index_less [simp]: "unat (pt_index va) < 1024"
  by (simp add: unat_pt_index)

lemma pd_index_less [simp]: "unat (pd_index va) < 1024"
  using u32_bound [of va] by (simp add: unat_pd_index)

lemma unat_entry:
  assumes "page_aligned f" and "unat i < 1024"
  shows "unat (f + 4 * i) = unat f + 4 * unat i"
proof -
  have four: "unat (4 * i) = 4 * unat i" using assms(2) by (subst unat_mult_le) simp_all
  obtain q where "unat f = 4096 * q" using assms(1) by (auto simp: page_aligned_def)
  then have "q < 1048576" using u32_bound [of f] by linarith
  then have "q \<le> 1048575" by simp
  then have "unat f + 4 * unat i < 4294967296" using assms(2) \<open>unat f = 4096 * q\<close> by linarith
  then show ?thesis using four by (subst unat_add_le) simp_all
qed

lemma aligned_entry [simp]: "page_aligned f \<Longrightarrow> unat i < 1024 \<Longrightarrow> aligned (f + 4 * i)"
  unfolding aligned_def by (subst unat_entry) (auto simp: page_aligned_def)

lemma entry_eq_iff:
  assumes "page_aligned f" "page_aligned g" "unat i < 1024" "unat j < 1024"
  shows "f + 4 * i = g + 4 * j \<longleftrightarrow> f = g \<and> i = j"
proof
  assume "f + 4 * i = g + 4 * j"
  then have "unat f + 4 * unat i = unat g + 4 * unat j" using assms unat_entry by metis
  moreover obtain q r where q: "unat f = 4096 * q" "unat g = 4096 * r"
    using assms(1,2) unfolding page_aligned_def by (elim dvdE)
  ultimately have eq: "1024 * q + unat i = 1024 * r + unat j" by simp
  have "q = (1024 * q + unat i) div 1024" "r = (1024 * r + unat j) div 1024"
    using assms(3,4) by simp_all
  then have "q = r" using eq by metis
  then have "unat f = unat g \<and> unat i = unat j" using eq q by simp
  then show "f = g \<and> i = j" by (simp add: unat_eq_iff)
qed simp

text \<open>Two addresses with the same indices are in the same page.\<close>

lemma same_page_iff:
  "frame_of va = frame_of vb \<longleftrightarrow> pd_index va = pd_index vb \<and> pt_index va = pt_index vb"
proof -
  have split: "unat v div 4096 = 1024 * (unat v div 4194304) + unat v div 4096 mod 1024" for v :: u32
  proof -
    have "unat v div 4194304 = unat v div 4096 div 1024" by (simp add: div_mult2_eq [symmetric])
    then show ?thesis by (simp only: mult_div_mod_eq)
  qed
  show ?thesis
    unfolding unat_eq_iff unat_frame_of unat_pd_index unat_pt_index
    using split [of va] split [of vb] by auto
qed

text \<open>An entry built from an aligned address and flag bits.\<close>

lemma frame_of_or: "frame_of (a OR b) = frame_of a OR frame_of b"
  by (rule bit_word_eqI) (auto simp: frame_of_def bit_simps)

lemma frame_of_frame_of [simp]: "frame_of (frame_of a) = frame_of a"
  by (rule bit_word_eqI) (auto simp: frame_of_def bit_simps)

lemma frame_of_page_aligned: "page_aligned f \<Longrightarrow> frame_of f = f"
  by (auto simp: page_aligned_def unat_eq_iff unat_frame_of)

lemma present_or: "present (a OR b) \<longleftrightarrow> present a \<or> present b"
  unfolding present_def by (auto simp: word_bits_eq_iff bit_simps)

lemma present_1 [simp]: "present 1" "present 3" "\<not> present 0"
  by (simp_all add: present_def)

lemma frame_of_small [simp]: "frame_of 1 = 0" "frame_of 3 = 0" "frame_of 0 = 0"
  by (simp_all add: frame_of_def)

section \<open>Clearing a page\<close>

definition fill :: "pmem \<Rightarrow> u32 \<Rightarrow> nat \<Rightarrow> u8 \<Rightarrow> pmem" where
  "fill m p n v = (\<lambda>x. if unat (x - p) < n then v else m x)"

lemma fill_step:
  "(fill m p (unat i) v)(p + i := v) = fill m p (Suc (unat i)) v"
proof -
  have "x = p + i \<longleftrightarrow> unat (x - p) = unat i" for x
    by (metis add.commute diff_eq_eq unat_eq_iff)
  then show ?thesis by (auto simp: fill_def fun_eq_iff less_Suc_eq)
qed

abbreviation real_mode :: "machine \<Rightarrow> bool" where
  "real_mode st \<equiv> \<not> cr0_pg st \<and> \<not> paging_active st"

lemma real_mode_access:
  assumes "\<not> cr0_pg st"
  shows "mmu_translate st va = Some va" and "load8 va st = Some (phys st va)"
    and "load32 va st = Some (get32 (phys st) va)"
    and "store8 va b st = Some (st\<lparr>phys := (phys st)(va := b)\<rparr>)"
    and "store32 va v st = Some (st\<lparr>phys := put32 (phys st) va v\<rparr>)"
  using assms by (simp_all add: mmu_translate_def load8_def load32_def store8_def store32_def)

lemma memset8_real:
  assumes "\<not> cr0_pg st"
  shows "memset8 p v n st = Some (st\<lparr>phys := fill (phys st) p (unat n) v\<rparr>)"
proof -
  have "runs (for_loop 0 n (\<lambda>i st. map_option Next (store8 (p + i) v st) :: (machine, unit) ctl option) st)
    (\<lambda>out. \<exists>t. out = Done t \<and> t = st\<lparr>phys := fill (phys st) p (unat n) v\<rparr>)"
  proof (rule for_loop_rule_next [where I = "\<lambda>k t. t = st\<lparr>phys := fill (phys st) p k v\<rparr>"])
    show "st = st\<lparr>phys := fill (phys st) p (unat (0 :: u32)) v\<rparr>" by (simp add: fill_def)
  next
    fix j :: u32 and t
    assume "t = st\<lparr>phys := fill (phys st) p (unat j) v\<rparr>"
    then show "runs (map_option Next (store8 (p + j) v t)) (\<lambda>out. \<exists>s'. out = (Next s' :: (machine, unit) ctl) \<and>
        s' = st\<lparr>phys := fill (phys st) p (Suc (unat j)) v\<rparr>)"
      using assms by (simp add: real_mode_access fill_step)
  qed simp
  then show ?thesis by (auto simp: memset8_def runs_iff)
qed

lemma unat_in_page:
  assumes "page_aligned f" and "unat k < 4096"
  shows "unat (f + k) = unat f + unat k"
proof -
  obtain q where q: "unat f = 4096 * q" using assms(1) by (auto simp: page_aligned_def)
  then have "q < 1048576" using u32_bound [of f] by linarith
  then have "unat f + unat k < 4294967296" using assms(2) q by linarith
  then show ?thesis by (intro unat_add_le) simp
qed

lemma frame_of_in_page:
  assumes "page_aligned f" and "unat k < 4096"
  shows "frame_of (f + k) = f"
proof -
  obtain q where q: "unat f = 4096 * q" using assms(1) unfolding page_aligned_def by (elim dvdE)
  have "unat (frame_of (f + k)) = 4096 * ((4096 * q + unat k) div 4096)"
    by (simp only: unat_frame_of unat_in_page [OF assms] q)
  also have "\<dots> = unat f" using assms(2) q by simp
  finally show ?thesis by (simp add: unat_eq_iff)
qed

lemma unat_entry_byte:
  fixes i l :: u32
  assumes "unat i < 1024" and "unat l < 4"
  shows "unat (4 * i + l) = 4 * unat i + unat l"
proof -
  have "unat (4 * i) = 4 * unat i" using assms(1) by (subst unat_mult_le) simp_all
  then show ?thesis using assms by (subst unat_add_le) simp_all
qed

lemma fill_entry_same:
  assumes "unat i < 1024"
  shows "get32 (fill m f 4096 0) (f + 4 * i) = 0"
proof -
  have z: "fill m f 4096 0 (f + 4 * i + l) = 0" if "unat l < 4" for l
    using unat_entry_byte [OF assms that] that assms by (simp add: fill_def add.assoc)
  show ?thesis using z [of 0] z [of 1] z [of 2] z [of 3] by (simp add: get32_def)
qed

lemma fill_entry_other:
  assumes "page_aligned f" "page_aligned g" "f \<noteq> g" and "unat i < 1024" and n: "n \<le> 4096"
  shows "get32 (fill m f n v) (g + 4 * i) = get32 m (g + 4 * i)"
proof -
  have z: "fill m f n v (g + 4 * i + l) = m (g + 4 * i + l)" if l: "unat l < 4" for l
  proof -
    have "unat (4 * i + l) < 4096" using unat_entry_byte [OF assms(4) l] l assms(4) by simp
    then have g: "frame_of (g + (4 * i + l)) = g" by (rule frame_of_in_page [OF assms(2)])
    have "\<not> unat (g + (4 * i + l) - f) < n"
    proof
      assume "unat (g + (4 * i + l) - f) < n"
      then have "unat (g + (4 * i + l) - f) < 4096" using n by simp
      from frame_of_in_page [OF assms(1) this] show False using g assms(3) by simp
    qed
    then show ?thesis by (simp add: fill_def add.assoc)
  qed
  show ?thesis using z [of 0] z [of 1] z [of 2] z [of 3] by (simp add: get32_def)
qed

section \<open>What the tables translate\<close>

text \<open>
  \<open>pd_phys st\<close> is the physical address of the directory: the code keeps a pointer to it, which is
  physical before paging and rebased after; \<open>CR3\<close> has it then.  \<open>maps st va\<close> is what the processor
  makes of \<open>va\<close> with that directory.  In a well-formed set of tables the directory and the tables
  are frames the PMM has handed out, and no table is the directory.
\<close>

definition pd_phys :: "machine \<Rightarrow> u32" where
  "pd_phys st = (if paging_active st then cr3 st else page_directory st)"

lemma pd_phys_real: "\<not> paging_active st \<Longrightarrow> pd_phys st = page_directory st"
  by (simp add: pd_phys_def)

lemma pd_phys_update [simp]:
  "pd_phys (st\<lparr>phys := m\<rparr>) = pd_phys st" "pd_phys (st\<lparr>frames := s\<rparr>) = pd_phys st"
  by (simp_all add: pd_phys_def)

definition maps :: "machine \<Rightarrow> u32 \<Rightarrow> u32 option" where
  "maps st va = page_walk (phys st) (pd_phys st) va"

definition pde_at :: "machine \<Rightarrow> u32 \<Rightarrow> u32" where
  "pde_at st i = get32 (phys st) (pd_phys st + 4 * i)"

definition frame_used :: "machine \<Rightarrow> u32 \<Rightarrow> bool" where
  "frame_used st f \<longleftrightarrow> unat f div 4096 \<in> pmm_used (frames st)"

definition tables_ok :: "machine \<Rightarrow> bool" where
  "tables_ok st \<longleftrightarrow> page_aligned (pd_phys st) \<and> frame_used st (pd_phys st) \<and>
     pmm_inv (frames st) \<and>
     (\<forall>i. unat i < 1024 \<longrightarrow> present (pde_at st i) \<longrightarrow>
        frame_of (pde_at st i) \<noteq> pd_phys st \<and> frame_used st (frame_of (pde_at st i)))"

text \<open>Two addresses have one table entry: they are in the same page, or at the same place below two
  directory entries that point to one table.\<close>

definition same_entry :: "machine \<Rightarrow> u32 \<Rightarrow> u32 \<Rightarrow> bool" where
  "same_entry st va vb \<longleftrightarrow> pt_index vb = pt_index va \<and> (pd_index vb = pd_index va \<or>
     present (pde_at st (pd_index va)) \<and> present (pde_at st (pd_index vb)) \<and>
       frame_of (pde_at st (pd_index vb)) = frame_of (pde_at st (pd_index va)))"

lemma maps_eq:
  "maps st va =
     (if \<not> present (pde_at st (pd_index va)) then None
      else let pte = get32 (phys st) (frame_of (pde_at st (pd_index va)) + 4 * pt_index va) in
        if \<not> present pte then None else Some (frame_of pte OR (va AND 0xFFF)))"
  by (simp add: maps_def page_walk_def pde_addr_def pte_addr_def pde_at_def)

text \<open>The state after the entry of \<open>va\<close> in a present table has been written.\<close>

definition set_pte :: "u32 \<Rightarrow> u32 \<Rightarrow> machine \<Rightarrow> machine" where
  "set_pte va v st =
     st\<lparr>phys := put32 (phys st) (frame_of (pde_at st (pd_index va)) + 4 * pt_index va) v\<rparr>"

lemma set_pte_frame [simp]:
  "page_directory (set_pte va v st) = page_directory st" "pd_phys (set_pte va v st) = pd_phys st" "frames (set_pte va v st) = frames st"
  "cr0_pg (set_pte va v st) = cr0_pg st" "paging_active (set_pte va v st) = paging_active st"
  "cr3 (set_pte va v st) = cr3 st" "vmm_bitmap (set_pte va v st) = vmm_bitmap st"
  "vmm_max_pages (set_pte va v st) = vmm_max_pages st"
  by (simp_all add: set_pte_def pd_phys_def)

lemma set_pte_pde [simp]:
  assumes "tables_ok st" and "present (pde_at st (pd_index va))" and "unat i < 1024"
  shows "pde_at (set_pte va v st) i = pde_at st i"
proof -
  have "frame_of (pde_at st (pd_index va)) \<noteq> pd_phys st" and al: "page_aligned (pd_phys st)"
    using assms(1,2) by (auto simp: tables_ok_def)
  then have "frame_of (pde_at st (pd_index va)) + 4 * pt_index va \<noteq> pd_phys st + 4 * i"
    using assms(3) by (subst entry_eq_iff) auto
  then show ?thesis
    using assms(3) al unfolding set_pte_def pde_at_def by (simp add: get32_put32_other)
qed

lemma set_pte_tables_ok:
  assumes "tables_ok st" and "present (pde_at st (pd_index va))"
  shows "tables_ok (set_pte va v st)"
  using assms by (simp add: tables_ok_def frame_used_def set_pte_pde [OF assms])

lemma set_pte_entry:
  assumes ok: "tables_ok st" and pre: "present (pde_at st (pd_index va))"
  shows "get32 (phys (set_pte va v st)) (frame_of (pde_at st (pd_index va)) + 4 * pt_index va) = v"
  by (simp add: set_pte_def get32_put32_same)

lemma set_pte_maps_same:
  assumes "tables_ok st" and "present (pde_at st (pd_index va))"
  shows "maps (set_pte va v st) va =
    (if present v then Some (frame_of v OR (va AND 0xFFF)) else None)"
  using assms by (simp add: maps_eq set_pte_entry)

lemma set_pte_maps_other:
  assumes ok: "tables_ok st" and pre: "present (pde_at st (pd_index va))"
    and other: "pt_index vb \<noteq> pt_index va \<or>
      frame_of (pde_at st (pd_index vb)) \<noteq> frame_of (pde_at st (pd_index va))"
  shows "maps (set_pte va v st) vb = maps st vb"
proof -
  have "frame_of (pde_at st (pd_index va)) + 4 * pt_index va \<noteq>
      frame_of (pde_at st (pd_index vb)) + 4 * pt_index vb"
    using other by (subst entry_eq_iff) auto
  then have "get32 (phys (set_pte va v st)) (frame_of (pde_at st (pd_index vb)) + 4 * pt_index vb) =
      get32 (phys st) (frame_of (pde_at st (pd_index vb)) + 4 * pt_index vb)"
    unfolding set_pte_def by (simp add: get32_put32_other)
  then show ?thesis using ok pre by (simp add: maps_eq)
qed

text \<open>The exact effect of an entry: all addresses that share it, and no others.\<close>

lemma set_pte_maps:
  assumes ok: "tables_ok st" and pre: "present (pde_at st (pd_index va))"
  shows "maps (set_pte va v st) vb =
    (if same_entry st va vb then (if present v then Some (frame_of v OR (vb AND 0xFFF)) else None)
     else maps st vb)"
proof (cases "same_entry st va vb")
  case True
  then have "present (pde_at st (pd_index vb))" "set_pte va v st = set_pte vb v st"
    using pre by (auto simp: same_entry_def set_pte_def)
  then show ?thesis using True set_pte_maps_same [OF ok, of vb v] by simp
next
  case False
  show ?thesis
  proof (cases "present (pde_at st (pd_index vb))")
    case True
    then show ?thesis
      using False pre by (subst set_pte_maps_other [OF ok pre]) (auto simp: same_entry_def)
  next
    case False
    then show ?thesis using \<open>\<not> same_entry st va vb\<close> ok pre by (simp add: maps_eq)
  qed
qed

lemma block_taken_frame:
  assumes inv: "pmm_inv s" and taken: "block_taken s a s'"
  shows "page_aligned a" "unat a div 4096 \<notin> pmm_used s"
    "pmm_used s' = insert (unat a div 4096) (pmm_used s)" "pmm_inv s'"
    "\<And>b. b < unat a div 4096 \<Longrightarrow> b \<in> pmm_used s"
proof -
  obtain b where b: "a = of_nat (4096 * b)" "b < 8 * (pmm_blocks s div 8)" "b \<notin> pmm_used s"
    "pmm_used s' = insert b (pmm_used s)" "pmm_inv s'" "all_used_below b s"
    using taken unfolding block_taken_def by blast
  have "8 * (pmm_blocks s div 8) \<le> pmm_blocks s" by simp
  then have "b < 1048576" using b(2) pmm_inv_bounds(2) [OF inv] by linarith
  then have "4096 * b < 4294967296" by simp
  then have a: "unat a = 4096 * b" unfolding b(1) by (simp only: unat_of_nat) simp
  show "page_aligned a" "unat a div 4096 \<notin> pmm_used s"
    "pmm_used s' = insert (unat a div 4096) (pmm_used s)" "pmm_inv s'"
    using a b(3-5) by (simp_all add: page_aligned_def)
  show "\<And>b. b < unat a div 4096 \<Longrightarrow> b \<in> pmm_used s"
    using a b(6) by (auto simp: all_used_below_def)
qed

text \<open>A new, empty table for the directory entry \<open>i\<close>.\<close>

definition add_table :: "u32 \<Rightarrow> u32 \<Rightarrow> pmm \<Rightarrow> machine \<Rightarrow> machine" where
  "add_table i f s st =
     st\<lparr>frames := s, phys := put32 (fill (phys st) f 4096 0) (pd_phys st + 4 * i) (f OR 3)\<rparr>"

lemma add_table_frame [simp]:
  "pd_phys (add_table i f s st) = pd_phys st"
  "page_directory (add_table i f s st) = page_directory st" "frames (add_table i f s st) = s"
  "cr0_pg (add_table i f s st) = cr0_pg st" "paging_active (add_table i f s st) = paging_active st"
  "cr3 (add_table i f s st) = cr3 st" "vmm_bitmap (add_table i f s st) = vmm_bitmap st"
  "vmm_max_pages (add_table i f s st) = vmm_max_pages st"
  by (simp_all add: add_table_def pd_phys_def)

lemma add_table_facts:
  assumes ok: "tables_ok st" and taken: "block_taken (frames st) f s" and i: "unat i < 1024"
    and pre: "\<not> present (pde_at st i)"
  shows add_table_pde: "unat j < 1024 \<Longrightarrow> pde_at (add_table i f s st) j = (if j = i then f OR 3 else pde_at st j)"
    and add_table_ok: "tables_ok (add_table i f s st)"
    and add_table_maps: "maps (add_table i f s st) va = maps st va"
    and add_table_same_entry: "pd_index va = i \<Longrightarrow> same_entry (add_table i f s st) va vb = same_entry st va vb"
proof -
  have inv: "pmm_inv (frames st)" and pd: "page_aligned (pd_phys st)"
    and tabs: "\<And>i. unat i < 1024 \<Longrightarrow> present (pde_at st i) \<Longrightarrow>
        frame_of (pde_at st i) \<noteq> pd_phys st \<and> frame_used st (frame_of (pde_at st i))"
    and pdu: "frame_used st (pd_phys st)"
    using ok by (auto simp: tables_ok_def)
  note f = block_taken_frame [OF inv taken]
  have fpd: "f \<noteq> pd_phys st" using f(2) pdu by (auto simp: frame_used_def)
  have ff: "frame_of (f OR 3) = f" using f(1) by (simp add: frame_of_or frame_of_page_aligned)
  have pf: "present (f OR 3)" by (simp add: present_or)
  have old: "f \<noteq> frame_of (pde_at st j)" if "unat j < 1024" "present (pde_at st j)" for j
    using tabs [OF that] f(2) by (auto simp: frame_used_def)
  have pde: "pde_at (add_table i f s st) j = (if j = i then f OR 3 else pde_at st j)"
    if j: "unat j < 1024" for j
  proof -
    have "get32 (fill (phys st) f 4096 0) (pd_phys st + 4 * j) = pde_at st j"
      using fill_entry_other [OF f(1) pd fpd j order_refl] by (simp add: pde_at_def)
    moreover have "pd_phys st + 4 * i = pd_phys st + 4 * j \<longleftrightarrow> i = j"
      using pd i j by (subst entry_eq_iff) simp_all
    ultimately show ?thesis
      using pd i j by (auto simp: pde_at_def add_table_def get32_put32)
  qed
  then show "unat j < 1024 \<Longrightarrow> pde_at (add_table i f s st) j = (if j = i then f OR 3 else pde_at st j)"
    by blast
  show "tables_ok (add_table i f s st)"
    using pd fpd f ff tabs pdu i by (auto simp: tables_ok_def pde frame_used_def)
  show "same_entry (add_table i f s st) va vb = same_entry st va vb" if "pd_index va = i"
    using that i old [of "pd_index vb"] ff pre by (auto simp: same_entry_def pde)
  have pte: "get32 (phys (add_table i f s st)) (g + 4 * k) = (if g = f then 0 else get32 (phys st) (g + 4 * k))"
    if "g \<noteq> pd_phys st" "page_aligned g" "unat k < 1024" for g k
  proof -
    have "pd_phys st + 4 * i \<noteq> g + 4 * k"
      using that pd i by (subst entry_eq_iff) auto
    then show ?thesis
      using that pd i f(1) fill_entry_same [of k] fill_entry_other [OF f(1) that(2) _ _ order_refl]
      by (auto simp: add_table_def get32_put32_other)
  qed
  show "maps (add_table i f s st) va = maps st va"
  proof (cases "pd_index va = i")
    case True
    then show ?thesis using pre i pf ff fpd f(1) by (simp add: maps_eq pde pte)
  next
    case False
    then show ?thesis using tabs [of "pd_index va"] old [of "pd_index va"]
      by (auto simp: maps_eq pde pte Let_def)
  qed
qed

section \<open>The pointers of the code\<close>

text \<open>
  The code reaches the directory through \<open>page_directory\<close> and a table at the frame \<open>f\<close> through
  \<open>kernel_ptr st f\<close>: physical addresses before paging, addresses above 3 GiB after.  \<open>pointers_ok\<close>
  says that these pointers lead to the directory, to every table and to the frame the PMM hands
  out next.  Before paging this holds of itself; with paging on it is the kernel's window on the
  physical memory.
\<close>

definition reached :: "machine \<Rightarrow> u32 \<Rightarrow> bool" where
  "reached st f \<longleftrightarrow> (\<forall>k. unat k < 4096 \<longrightarrow> mmu_translate st (kernel_ptr st f + k) = Some (f + k))"

definition directory_reached :: "machine \<Rightarrow> bool" where
  "directory_reached st \<longleftrightarrow> cr0_pg st = paging_active st \<and>
     (\<forall>k. unat k < 4096 \<longrightarrow> mmu_translate st (page_directory st + k) = Some (pd_phys st + k))"

definition pointers_ok :: "machine \<Rightarrow> bool" where
  "pointers_ok st \<longleftrightarrow> directory_reached st \<and>
     (\<forall>i. unat i < 1024 \<longrightarrow> present (pde_at st i) \<longrightarrow> reached st (frame_of (pde_at st i))) \<and>
     (\<forall>f s. block_taken (frames st) f s \<longrightarrow> reached st f)"

lemma pointers_ok_real: "real_mode st \<Longrightarrow> pointers_ok st"
  by (simp add: pointers_ok_def directory_reached_def reached_def real_mode_access kernel_ptr_def pd_phys_def)

lemma mmu_translate_maps:
  "cr0_pg st = paging_active st \<Longrightarrow> mmu_translate st va = (if cr0_pg st then maps st va else Some va)"
  by (simp add: mmu_translate_def maps_def pd_phys_def)

lemma mmu_translate_same:
  assumes "cr0_pg st = paging_active st" and "cr0_pg st' = cr0_pg st" "paging_active st' = paging_active st"
    and "maps st' = maps st"
  shows "mmu_translate st' = mmu_translate st"
  using assms by (simp add: fun_eq_iff mmu_translate_maps)

lemma unat_entry_offset: "unat i < 1024 \<Longrightarrow> unat (4 * i :: u32) < 4096"
  by (subst unat_mult_le) simp_all

lemma load_pde:
  assumes "directory_reached st" and "unat i < 1024"
  shows "load32 (page_directory st + 4 * i) st = Some (pde_at st i)"
  using assms unat_entry_offset [OF assms(2)] by (simp add: directory_reached_def load32_def pde_at_def)

lemma store_reached:
  assumes "reached st f" and "unat i < 1024"
  shows "store32 (kernel_ptr st f + 4 * i) v st = Some (st\<lparr>phys := put32 (phys st) (f + 4 * i) v\<rparr>)"
  using assms unat_entry_offset [OF assms(2)] by (simp add: reached_def store32_def)

text \<open>Clearing an unused frame through its pointer changes no translation on the way.\<close>

definition unused_frame :: "machine \<Rightarrow> u32 \<Rightarrow> bool" where
  "unused_frame st f \<longleftrightarrow> page_aligned f \<and> f \<noteq> pd_phys st \<and>
     (\<forall>i. unat i < 1024 \<longrightarrow> present (pde_at st i) \<longrightarrow> f \<noteq> frame_of (pde_at st i))"

lemma maps_fill:
  assumes ok: "tables_ok st" and f: "unused_frame st f" and n: "n \<le> 4096"
  shows "maps (st\<lparr>phys := fill (phys st) f n v\<rparr>) = maps st"
proof
  fix va
  let ?st = "st\<lparr>phys := fill (phys st) f n v\<rparr>"
  have "page_aligned (pd_phys st)" using ok by (simp add: tables_ok_def)
  then have pde: "pde_at ?st (pd_index va) = pde_at st (pd_index va)"
    using f n fill_entry_other [of f "pd_phys st" "pd_index va" n]
    by (simp add: pde_at_def unused_frame_def)
  show "maps ?st va = maps st va"
  proof (cases "present (pde_at st (pd_index va))")
    case True
    then have "f \<noteq> frame_of (pde_at st (pd_index va))" using f by (simp add: unused_frame_def)
    then show ?thesis
      using f n fill_entry_other [of f "frame_of (pde_at st (pd_index va))" "pt_index va" n]
      by (simp add: maps_eq pde unused_frame_def)
  next
    case False
    then show ?thesis by (simp add: maps_eq pde)
  qed
qed

lemma memset8_reached:
  assumes ok: "tables_ok st" and f: "unused_frame st f" and r: "reached st f"
    and mode: "cr0_pg st = paging_active st"
  shows "memset8 (kernel_ptr st f) v 4096 st = Some (st\<lparr>phys := fill (phys st) f 4096 v\<rparr>)"
proof -
  define I where "I = (\<lambda>k t. t = st\<lparr>phys := fill (phys st) f k v\<rparr>)"
  have "runs (for_loop 0 4096 (\<lambda>i t. map_option Next (store8 (kernel_ptr st f + i) v t)
      :: (machine, unit) ctl option) st) (\<lambda>out. \<exists>t. out = Done t \<and> I (unat (4096 :: u32)) t)"
  proof (rule for_loop_rule_next [where I = I])
    show "I (unat (0 :: u32)) st" by (simp add: I_def fill_def)
  next
    fix j :: u32 and t
    assume j: "unat j < unat (4096 :: u32)" and "I (unat j) t"
    then have t: "t = st\<lparr>phys := fill (phys st) f (unat j) v\<rparr>" by (simp add: I_def)
    have "mmu_translate t = mmu_translate st"
      using maps_fill [OF ok f, of "unat j" v] j by (intro mmu_translate_same) (simp_all add: t mode)
    then show "runs (map_option Next (store8 (kernel_ptr st f + j) v t))
        (\<lambda>out. \<exists>s'. out = (Next s' :: (machine, unit) ctl) \<and> I (Suc (unat j)) s')"
      using r j by (simp add: store8_def reached_def t I_def fill_step)
  qed simp
  then show ?thesis by (auto simp: memset8_def runs_iff I_def)
qed

section \<open>Mapping a page\<close>

lemma block_taken_unused:
  assumes ok: "tables_ok st" and taken: "block_taken (frames st) f s"
  shows "unused_frame st f"
proof -
  have inv: "pmm_inv (frames st)" using ok by (simp add: tables_ok_def)
  show ?thesis
    using block_taken_frame(1,2) [OF inv taken] ok
    by (auto simp: unused_frame_def tables_ok_def frame_used_def)
qed

lemma add_table_translate:
  assumes ok: "tables_ok st" and ptr: "directory_reached st"
    and taken: "block_taken (frames st) f s" and i: "unat i < 1024" and pre: "\<not> present (pde_at st i)"
  shows "mmu_translate (add_table i f s st) = mmu_translate st"
  using ptr add_table_maps [OF ok taken i pre]
  by (intro mmu_translate_same) (simp_all add: directory_reached_def fun_eq_iff)

lemma install_table_facts:
  assumes ok: "tables_ok st" and ptr: "pointers_ok st" and taken: "block_taken (frames st) f s"
    and i: "unat i < 1024"
  shows install_table_clear: "memset8 (kernel_ptr st f) 0 4096 (st\<lparr>frames := s\<rparr>) =
      Some (st\<lparr>frames := s, phys := fill (phys st) f 4096 0\<rparr>)"
    and install_table_enter: "store32 (page_directory st + 4 * i) (f OR 3)
      (st\<lparr>frames := s, phys := fill (phys st) f 4096 0\<rparr>) = Some (add_table i f s st)"
proof -
  let ?st = "st\<lparr>frames := s\<rparr>"
  have inv: "pmm_inv (frames st)" using ok by (simp add: tables_ok_def)
  note f = block_taken_frame [OF inv taken]
  have mode: "cr0_pg st = paging_active st" and dir: "directory_reached st" and r: "reached st f"
    using ptr taken by (auto simp: pointers_ok_def directory_reached_def)
  have maps: "maps ?st = maps st" by (simp add: maps_def fun_eq_iff)
  have tr: "mmu_translate ?st = mmu_translate st"
    using mode maps by (intro mmu_translate_same) simp_all
  have kp: "kernel_ptr ?st f = kernel_ptr st f" by (simp add: kernel_ptr_def)
  have ok': "tables_ok ?st" using ok f(3,4) by (auto simp: tables_ok_def frame_used_def pde_at_def)
  have un: "unused_frame ?st f"
    using block_taken_unused [OF ok taken] by (simp add: unused_frame_def pde_at_def)
  have "reached ?st f" using r by (simp add: reached_def tr kp)
  then show "memset8 (kernel_ptr st f) 0 4096 ?st = Some (?st\<lparr>phys := fill (phys st) f 4096 0\<rparr>)"
    using memset8_reached [OF ok' un, of 0] mode by (simp add: kp)
  let ?st2 = "?st\<lparr>phys := fill (phys st) f 4096 0\<rparr>"
  have "maps ?st2 = maps st" using maps_fill [OF ok' un order_refl, of 0] maps by simp
  then have "mmu_translate ?st2 = mmu_translate st" using mode by (intro mmu_translate_same) simp_all
  then show "store32 (page_directory st + 4 * i) (f OR 3) ?st2 = Some (add_table i f s st)"
    using dir unat_entry_offset [OF i] by (simp add: store32_def directory_reached_def add_table_def)
qed

lemma new_page_table_ok:
  assumes ok: "tables_ok st" and ptr: "pointers_ok st" and i: "unat i < 1024"
  shows "runs (new_page_table i st) (\<lambda>(r, st'). (\<not> r \<and> (st' = st \<or>
      (\<exists>s. block_taken (frames st) 0 s \<and> st' = st\<lparr>frames := s\<rparr>))) \<or>
    (r \<and> (\<exists>f s. f \<noteq> 0 \<and> block_taken (frames st) f s \<and> st' = add_table i f s st)))"
proof -
  have inv: "pmm_inv (frames st)" using ok by (simp add: tables_ok_def)
  show ?thesis
    unfolding new_page_table_def alloc_frame_def runs_simps runs_map_option
  proof (rule runs_mono [OF pmm_alloc_block_ok [OF inv]])
    fix r :: "u32 \<times> pmm"
    obtain a s where r: "r = (a, s)" by fastforce
    assume post: "case r of (a, s') \<Rightarrow> a = 0 \<and> s' = frames st \<and>
        (pmm_used (frames st) = {..<pmm_blocks (frames st)} \<or>
          all_used_below (8 * (pmm_blocks (frames st) div 8)) (frames st))
      \<or> block_taken (frames st) a s'"
    show "runs (case case r of (a, s) \<Rightarrow> (a, st\<lparr>frames := s\<rparr>) of (phys_table, st) \<Rightarrow>
        if phys_table = 0 then Some (False, st)
        else do { st \<leftarrow> memset8 (kernel_ptr st phys_table) 0 PAGE_SIZE st;
                  st \<leftarrow> store32 (page_directory st + 4 * i) (phys_table OR (PAGE_PRESENT OR PAGE_WRITABLE)) st;
                  Some (True, st) })
      (\<lambda>(r, st'). (\<not> r \<and> (st' = st \<or> (\<exists>s. block_taken (frames st) 0 s \<and> st' = st\<lparr>frames := s\<rparr>))) \<or>
        (r \<and> (\<exists>f s. f \<noteq> 0 \<and> block_taken (frames st) f s \<and> st' = add_table i f s st)))"
    proof (cases "a = 0")
      case True
      then show ?thesis using post r by auto
    next
      case False
      then have taken: "block_taken (frames st) a s" using post r by auto
      have kp: "kernel_ptr (st\<lparr>frames := s\<rparr>) a = kernel_ptr st a" by (simp add: kernel_ptr_def)
      show ?thesis
        using r False taken install_table_clear [OF ok ptr taken i] install_table_enter [OF ok ptr taken i]
        by (auto simp: kp)
    qed
  qed
qed

lemma frame_of_and_fff [simp]: "frame_of (va AND 0xFFF) = 0"
  by (rule bit_word_eqI) (auto simp: frame_of_def bit_simps)

lemma frame_of_map:
  "frame_of fl = 0 \<Longrightarrow> frame_of (frame_of pa OR fl OR PAGE_PRESENT) = frame_of pa"
  by (simp add: frame_of_or)

lemma map_page_present:
  assumes ptr: "pointers_ok st" and pre: "present (pde_at st (pd_index va))"
  shows "paging_map_page pa va fl st = Some (True, set_pte va (frame_of pa OR fl OR PAGE_PRESENT) st)"
  using pre load_pde [of st "pd_index va"] store_reached [of st "frame_of (pde_at st (pd_index va))" "pt_index va"] ptr
  by (simp add: paging_map_page_def pointers_ok_def set_pte_def)

lemma low_bits_in_page:
  assumes "unat (k :: u32) < 4096"
  shows "(frame_of va + k) AND 0xFFF = k"
proof -
  have "frame_of va + k = frame_of va + ((frame_of va + k) AND 0xFFF)"
    using frame_of_plus [of "frame_of va + k"] frame_of_in_page [OF page_aligned_frame_of assms, of va]
    by simp
  then show ?thesis by (metis add_left_imp_eq)
qed

text \<open>What a successful call leaves: the table entry of \<open>va\<close> and with it the translation of exactly
  the addresses that share it; the registers and the pointer stay.\<close>

definition same_registers :: "machine \<Rightarrow> machine \<Rightarrow> bool" where
  "same_registers st st' \<longleftrightarrow> cr0_pg st' = cr0_pg st \<and> cr3 st' = cr3 st \<and>
     page_directory st' = page_directory st \<and> paging_active st' = paging_active st"

definition mapped_page :: "u32 \<Rightarrow> u32 \<Rightarrow> u32 \<Rightarrow> machine \<Rightarrow> machine \<Rightarrow> bool" where
  "mapped_page pa va fl st st' \<longleftrightarrow> tables_ok st' \<and> same_registers st st' \<and>
     get32 (phys st') (pte_addr (phys st') (pd_phys st') va) = frame_of pa OR fl OR PAGE_PRESENT \<and>
     (\<forall>vb. maps st' vb =
       (if same_entry st va vb then Some (frame_of pa OR (vb AND 0xFFF)) else maps st vb))"

lemma set_pte_mapped:
  assumes ok: "tables_ok st" and pre: "present (pde_at st (pd_index va))" and fl: "frame_of fl = 0"
  shows "mapped_page pa va fl st (set_pte va (frame_of pa OR fl OR PAGE_PRESENT) st)"
proof -
  let ?v = "frame_of pa OR fl OR PAGE_PRESENT" and ?st = "set_pte va (frame_of pa OR fl OR PAGE_PRESENT) st"
  have "present ?v" by (simp add: present_or)
  moreover have "pte_addr (phys ?st) (pd_phys ?st) va = frame_of (pde_at ?st (pd_index va)) + 4 * pt_index va"
    by (simp only: pte_addr_def pde_addr_def pde_at_def)
  then have "get32 (phys ?st) (pte_addr (phys ?st) (pd_phys ?st) va) = ?v"
    using set_pte_entry [OF ok pre, of ?v] set_pte_pde [OF ok pre pd_index_less] by simp
  ultimately show ?thesis
    using set_pte_tables_ok [OF ok pre] set_pte_maps [OF ok pre] frame_of_map [OF fl, of pa]
    by (simp add: mapped_page_def same_registers_def)
qed

lemma paging_map_page_ok:
  assumes ok: "tables_ok st" and ptr: "pointers_ok st" and fl: "frame_of fl = 0"
  shows "runs (paging_map_page pa va fl st) (\<lambda>(r, st').
    if r then mapped_page pa va fl st st'
    else \<not> present (pde_at st (pd_index va)) \<and> tables_ok st' \<and> maps st' = maps st)"
proof (cases "present (pde_at st (pd_index va))")
  case True
  then show ?thesis
    using map_page_present [OF ptr True] set_pte_mapped [OF ok True fl] by simp
next
  case False
  have inv: "pmm_inv (frames st)" using ok by (simp add: tables_ok_def)
  have dir: "directory_reached st" using ptr by (simp add: pointers_ok_def)
  have eq: "paging_map_page pa va fl st =
    do { (r, st') \<leftarrow> new_page_table (pd_index va) st;
         if \<not> r then Some (False, st')
         else do { pde \<leftarrow> load32 (page_directory st' + 4 * pd_index va) st';
                   st'' \<leftarrow> store32 (kernel_ptr st' (frame_of pde) + 4 * pt_index va)
                     (frame_of pa OR fl OR PAGE_PRESENT) st';
                   Some (True, st'') } }"
    using False load_pde [OF dir, of "pd_index va"] unfolding paging_map_page_def Let_def by simp
  show ?thesis
    unfolding eq runs_simps
  proof (rule runs_mono [OF new_page_table_ok [OF ok ptr pd_index_less]])
    fix x :: "bool \<times> machine"
    obtain r st' where x: "x = (r, st')" by fastforce
    assume "case x of (r, st') \<Rightarrow> (\<not> r \<and> (st' = st \<or>
        (\<exists>s. block_taken (frames st) 0 s \<and> st' = st\<lparr>frames := s\<rparr>))) \<or>
      (r \<and> (\<exists>f s. f \<noteq> 0 \<and> block_taken (frames st) f s \<and> st' = add_table (pd_index va) f s st))"
    then consider "\<not> r" "st' = st"
      | s where "\<not> r" "block_taken (frames st) 0 s" "st' = st\<lparr>frames := s\<rparr>"
      | f s where "r" "block_taken (frames st) f s" "st' = add_table (pd_index va) f s st"
      unfolding x by auto
    then show "runs (case x of (r, st') \<Rightarrow> if \<not> r then Some (False, st')
         else do { pde \<leftarrow> load32 (page_directory st' + 4 * pd_index va) st';
                   st'' \<leftarrow> store32 (kernel_ptr st' (frame_of pde) + 4 * pt_index va)
                     (frame_of pa OR fl OR PAGE_PRESENT) st';
                   Some (True, st'') })
      (\<lambda>(r, st'). if r then mapped_page pa va fl st st'
        else \<not> present (pde_at st (pd_index va)) \<and> tables_ok st' \<and> maps st' = maps st)"
    proof cases
      case 1
      then show ?thesis using x ok False by simp
    next
      case 2
      have "tables_ok st'" using ok block_taken_frame(3,4) [OF inv 2(2)]
        by (auto simp: 2(3) tables_ok_def frame_used_def pde_at_def)
      moreover have "maps st' = maps st" by (simp add: 2(3) maps_def fun_eq_iff)
      ultimately show ?thesis using x 2 False by simp
    next
      case 3
      let ?t = "add_table (pd_index va) f s st" and ?v = "frame_of pa OR fl OR PAGE_PRESENT"
      note t = add_table_ok [OF ok 3(2) pd_index_less False]
        add_table_maps [OF ok 3(2) pd_index_less False]
        add_table_same_entry [OF ok 3(2) pd_index_less False, of va]
      have pde: "pde_at ?t (pd_index va) = f OR 3"
        by (simp add: add_table_pde [OF ok 3(2) pd_index_less False])
      have f: "frame_of (f OR 3) = f"
        using block_taken_frame(1) [OF inv 3(2)] by (simp add: frame_of_or frame_of_page_aligned)
      have pre: "present (pde_at ?t (pd_index va))" by (simp add: pde present_or)
      have tr: "mmu_translate ?t = mmu_translate st"
        by (rule add_table_translate [OF ok dir 3(2) pd_index_less False])
      have "directory_reached ?t" using dir by (simp add: directory_reached_def tr)
      then have load: "load32 (page_directory ?t + 4 * pd_index va) ?t = Some (f OR 3)"
        by (subst load_pde) (simp_all add: pde)
      have "reached st f" using ptr 3(2) by (auto simp: pointers_ok_def)
      then have "reached ?t f" by (simp add: reached_def tr kernel_ptr_def)
      then have store: "store32 (kernel_ptr ?t f + 4 * pt_index va) ?v ?t = Some (set_pte va ?v ?t)"
        by (subst store_reached) (simp_all add: set_pte_def pde f)
      have "mapped_page pa va fl ?t (set_pte va ?v ?t)" by (rule set_pte_mapped [OF t(1) pre fl])
      then have "mapped_page pa va fl st (set_pte va ?v ?t)"
        using t(2,3) by (simp add: mapped_page_def same_registers_def)
      then show ?thesis using x 3(1) load store by (simp add: 3(3) f del: add_table_frame)
    qed
  qed
qed

section \<open>Looking up and unmapping\<close>

lemma virt_to_phys_ok:
  assumes "pointers_ok st"
  shows "virt_to_phys va st = Some (case maps st va of None \<Rightarrow> 0xFFFFFFFF | Some a \<Rightarrow> a)"
proof -
  have pde: "load32 (page_directory st + 4 * pd_index va) st = Some (pde_at st (pd_index va))"
    using assms by (intro load_pde) (simp_all add: pointers_ok_def)
  have pte: "load32 (kernel_ptr st (frame_of (pde_at st (pd_index va))) + 4 * pt_index va) st =
      Some (get32 (phys st) (frame_of (pde_at st (pd_index va)) + 4 * pt_index va))"
    if "present (pde_at st (pd_index va))"
    using assms that unat_entry_offset [OF pt_index_less, of va]
    by (simp add: pointers_ok_def reached_def load32_def)
  show ?thesis by (simp add: virt_to_phys_def get_page_directory_def pde pte maps_eq Let_def)
qed

text \<open>\<open>paging_unmap_page\<close> does not rebase: it reaches a table only where its frame is mapped to
  itself.\<close>

definition tables_identity :: "machine \<Rightarrow> bool" where
  "tables_identity st \<longleftrightarrow> directory_reached st \<and>
     (\<forall>i. unat i < 1024 \<longrightarrow> present (pde_at st i) \<longrightarrow>
       (\<forall>k. unat k < 4096 \<longrightarrow> mmu_translate st (frame_of (pde_at st i) + k) = Some (frame_of (pde_at st i) + k)))"

lemma tables_identity_real: "real_mode st \<Longrightarrow> tables_identity st"
  by (simp add: tables_identity_def directory_reached_def real_mode_access pd_phys_def)

lemma unmap_page_eq:
  assumes "tables_identity st"
  shows "paging_unmap_page va st = Some (if maps st va = None then st else set_pte va 0 st)"
proof -
  let ?f = "frame_of (pde_at st (pd_index va))"
  have pde: "load32 (page_directory st + 4 * pd_index va) st = Some (pde_at st (pd_index va))"
    using assms by (intro load_pde) (simp_all add: tables_identity_def)
  have "mmu_translate st (?f + 4 * pt_index va) = Some (?f + 4 * pt_index va)"
    if "present (pde_at st (pd_index va))"
    using assms that unat_entry_offset [OF pt_index_less, of va] by (simp add: tables_identity_def)
  then have pte: "load32 (?f + 4 * pt_index va) st = Some (get32 (phys st) (?f + 4 * pt_index va))"
      "store32 (?f + 4 * pt_index va) 0 st = Some (set_pte va 0 st)"
    if "present (pde_at st (pd_index va))"
    using that by (simp_all add: load32_def store32_def set_pte_def)
  show ?thesis by (simp add: paging_unmap_page_def pde pte maps_eq Let_def)
qed

lemma paging_unmap_page_ok:
  assumes ok: "tables_ok st" and id: "tables_identity st"
  shows "runs (paging_unmap_page va st) (\<lambda>st'. tables_ok st' \<and> same_registers st st' \<and>
    (\<forall>vb. maps st' vb = (if same_entry st va vb then None else maps st vb)))"
proof (cases "maps st va = None")
  case True
  have "maps st vb = None" if "same_entry st va vb" for vb
    using True that by (auto simp: maps_eq same_entry_def Let_def split: if_splits)
  then show ?thesis using True ok by (simp add: unmap_page_eq [OF id] same_registers_def)
next
  case False
  then have pre: "present (pde_at st (pd_index va))" by (auto simp: maps_eq split: if_splits)
  have "paging_unmap_page va st = Some (set_pte va 0 st)"
    using unmap_page_eq [OF id, of va] False by (simp only: if_False)
  then show ?thesis
    using set_pte_tables_ok [OF ok pre] set_pte_maps [OF ok pre, of 0] by (simp add: same_registers_def)
qed

section \<open>The tables built at boot\<close>

text \<open>
  The loop of \<open>paging_init\<close> writes 2048 entries, twice the size of a table: the second half lands in
  the frame after the table.
\<close>

definition entries_written :: "u32 \<Rightarrow> (u32 \<Rightarrow> u32) \<Rightarrow> nat \<Rightarrow> pmem \<Rightarrow> pmem \<Rightarrow> bool" where
  "entries_written T f k m m' \<longleftrightarrow> (\<forall>i. unat i < k \<longrightarrow> get32 m' (T + 4 * i) = f i) \<and>
     (\<forall>a. aligned a \<longrightarrow> (\<forall>i. unat i < k \<longrightarrow> a \<noteq> T + 4 * i) \<longrightarrow> get32 m' a = get32 m a)"

lemma unat_quad: "unat i < 2048 \<Longrightarrow> unat (4 * i) = 4 * unat i" for i :: u32
  by (subst unat_mult_le) simp_all

lemma quad_inj:
  fixes i j :: u32
  assumes "unat i < 2048" "unat j < 2048"
  shows "T + 4 * i = T + 4 * j \<longleftrightarrow> i = j"
proof
  assume "T + 4 * i = T + 4 * j"
  then have "4 * i = 4 * j" by (rule add_left_imp_eq)
  then have "unat (4 * i) = unat (4 * j)" by (rule arg_cong)
  then have "unat i = unat j" by (simp only: unat_quad [OF assms(1)] unat_quad [OF assms(2)])
  then show "i = j" by (simp add: unat_eq_iff)
qed simp

lemma aligned_quad:
  fixes i :: u32
  assumes "aligned T" "unat i < 2048"
  shows "aligned (T + 4 * i)"
proof -
  have "4 dvd (unat T + unat (4 * i)) mod 4294967296"
    using assms(1) unat_quad [OF assms(2)] by (intro dvd_mod) (auto simp: aligned_def)
  then show ?thesis by (simp add: aligned_def unat_word_ariths)
qed

lemma entries_written_step:
  fixes j :: u32
  assumes w: "entries_written T f (unat j) m m'" and T: "aligned T" and j: "unat j < 2048"
  shows "entries_written T f (Suc (unat j)) m (put32 m' (T + 4 * j) (f j))"
  unfolding entries_written_def
proof (intro conjI allI impI)
  fix i :: u32 assume i: "unat i < Suc (unat j)"
  show "get32 (put32 m' (T + 4 * j) (f j)) (T + 4 * i) = f i"
  proof (cases "i = j")
    case False
    then have "unat i < unat j" using i by (simp add: less_Suc_eq unat_eq_iff)
    moreover have "T + 4 * j \<noteq> T + 4 * i"
      using False quad_inj [of i j] j i by simp
    ultimately show ?thesis
      using w aligned_quad [OF T] j by (simp add: get32_put32_other entries_written_def)
  qed (simp add: get32_put32_same)
next
  fix a assume a: "aligned a" "\<forall>i. unat i < Suc (unat j) \<longrightarrow> a \<noteq> T + 4 * i"
  then have "T + 4 * j \<noteq> a" by (metis lessI)
  moreover have "get32 m' a = get32 m a" using w a by (simp add: entries_written_def)
  ultimately show "get32 (put32 m' (T + 4 * j) (f j)) a = get32 m a"
    using aligned_quad [OF T j] a(1) by (simp add: get32_put32_other)
qed

lemma store_entries:
  fixes n :: u32
  assumes real: "\<not> cr0_pg st" and T: "aligned T" and n: "unat n \<le> 2048"
  shows "runs (for_loop 0 n (\<lambda>i st. map_option Next (store32 (T + 4 * i) (f i) st)
      :: (machine, unit) ctl option) st)
    (\<lambda>out. \<exists>m. out = Done (st\<lparr>phys := m\<rparr>) \<and> entries_written T f (unat n) (phys st) m)"
proof -
  define I where "I = (\<lambda>k t. \<exists>m. t = st\<lparr>phys := m\<rparr> \<and> entries_written T f k (phys st) m)"
  have "runs (for_loop 0 n (\<lambda>i st. map_option Next (store32 (T + 4 * i) (f i) st)
      :: (machine, unit) ctl option) st) (\<lambda>out. \<exists>t. out = Done t \<and> I (unat n) t)"
  proof (rule for_loop_rule_next [where I = I])
    show "I (unat (0 :: u32)) st"
      unfolding I_def by (rule exI [of _ "phys st"]) (simp add: entries_written_def)
  next
    fix j :: u32 and t assume j: "unat j < unat n" and "I (unat j) t"
    then obtain m where t: "t = st\<lparr>phys := m\<rparr>" and w: "entries_written T f (unat j) (phys st) m"
      by (auto simp: I_def)
    have "I (Suc (unat j)) (st\<lparr>phys := put32 m (T + 4 * j) (f j)\<rparr>)"
      using entries_written_step [OF w T] j n by (auto simp: I_def)
    then show "runs (map_option Next (store32 (T + 4 * j) (f j) t))
      (\<lambda>out. \<exists>s'. out = (Next s' :: (machine, unit) ctl) \<and> I (Suc (unat j)) s')"
      using real t by (simp add: real_mode_access)
  qed simp
  then show ?thesis by (rule runs_mono) (auto simp: I_def)
qed

definition boot_tables :: "u32 \<Rightarrow> machine \<Rightarrow> bool" where
  "boot_tables T st \<longleftrightarrow> tables_ok st \<and> real_mode st \<and> page_aligned T \<and>
     (\<forall>i. unat i < 1024 \<longrightarrow> pde_at st i = (if i = 0 \<or> i = 768 then T OR 3 else 0)) \<and>
     (\<forall>i. unat i < 2048 \<longrightarrow> get32 (phys st) (T + 4 * i) = i * 4096 OR 3)"

lemma page_aligned_next: "page_aligned T \<Longrightarrow> page_aligned (T + 4096)"
proof -
  assume "page_aligned T"
  then have "4096 dvd (unat T + 4096) mod 4294967296"
    by (intro dvd_mod) (auto simp: page_aligned_def)
  then show ?thesis by (simp add: page_aligned_def unat_word_ariths)
qed

lemma page_aligned_aligned: "page_aligned T \<Longrightarrow> aligned T"
  by (auto simp: page_aligned_def aligned_def elim: dvd_trans [rotated])

text \<open>The double-length table at \<open>T\<close> stays clear of a directory in an earlier frame.\<close>

lemma double_table_clear:
  fixes i j :: u32
  assumes T: "page_aligned T" and pd: "page_aligned pd" "pd \<noteq> 0" "unat pd < unat T"
    and i: "unat i < 1024" and j: "unat j < 2048"
  shows "pd + 4 * i \<noteq> T + 4 * j"
proof (cases "unat j < 1024")
  case True
  then show ?thesis using entry_eq_iff [OF pd(1) T i True] pd(3) by auto
next
  case False
  define j' where "j' = j - 1024"
  have j': "unat j' < 1024" using False j by (simp add: j'_def unat_sub word_le_nat_alt)
  have "T + 4 * j = (T + 4096) + 4 * j'" by (simp add: j'_def algebra_simps)
  moreover have "pd \<noteq> T + 4096"
  proof
    assume eq: "pd = T + 4096"
    have "unat (T + 4096) = (unat T + 4096) mod 4294967296" by (simp add: unat_word_ariths)
    moreover have "unat T + 4096 \<le> 4294967296"
    proof -
      obtain q where q: "unat T = 4096 * q" using T unfolding page_aligned_def by (elim dvdE)
      then have "q < 1048576" using u32_bound [of T] by linarith
      then show ?thesis using q by simp
    qed
    ultimately have "unat (T + 4096) = 0 \<or> unat (T + 4096) = unat T + 4096"
      by (cases "unat T + 4096 = 4294967296") simp_all
    then show False using eq pd(2,3) by (auto simp: unat_eq_iff)
  qed
  ultimately show ?thesis using entry_eq_iff [OF pd(1) page_aligned_next [OF T] i j'] by metis
qed

lemma install_first_table_ok:
  assumes real: "real_mode st" and inv: "pmm_inv (frames st)"
    and pd: "page_aligned (page_directory st)" "page_directory st \<noteq> 0" "frame_used st (page_directory st)"
    and T: "page_aligned T" "unat (page_directory st) < unat T" "frame_used st T"
    and zero: "\<And>i. unat i < 1024 \<Longrightarrow> pde_at st i = 0"
  shows "runs (install_first_table (page_directory st) T st)
    (\<lambda>st'. boot_tables T st' \<and> page_directory st' = page_directory st \<and> frames st' = frames st)"
proof -
  let ?pd = "page_directory st" and ?f = "\<lambda>i :: u32. i * 4096 OR PAGE_PRESENT OR PAGE_WRITABLE"
  let ?m = "fill (phys st) T 4096 0"
  note clear = double_table_clear [OF T(1) pd(1,2) T(2)]
  have Tpd: "T \<noteq> ?pd" using T(2) by auto
  have three: "x OR PAGE_PRESENT OR PAGE_WRITABLE = x OR 3" for x :: u32 by (simp add: or.assoc)
  have "(0xFFFFF000 :: u32) = NOT 0xFFF" by code_simp
  then have Tf: "T AND 0xFFFFF000 = T"
    using frame_of_page_aligned [OF T(1)] by (simp only: frame_of_def)
  have loop: "runs (for_loop 0 2048 (\<lambda>i st. map_option Next
        (store32 (T + 4 * i) (?f i) st) :: (machine, unit) ctl option) (st\<lparr>phys := ?m\<rparr>))
    (\<lambda>out. \<exists>m. out = Done (st\<lparr>phys := m\<rparr>) \<and> entries_written T ?f 2048 ?m m)"
    using store_entries [of "st\<lparr>phys := ?m\<rparr>" T 2048 ?f] real page_aligned_aligned [OF T(1)] by simp
  have final: "boot_tables T (st\<lparr>phys := put32 (put32 m ?pd (T OR 3)) (?pd + 4 * 768) (T OR 3)\<rparr>)"
    if m: "entries_written T ?f 2048 ?m m" for m
  proof -
    let ?st = "st\<lparr>phys := put32 (put32 m ?pd (T OR 3)) (?pd + 4 * 768) (T OR 3)\<rparr>"
    have dir: "get32 m (?pd + 4 * i) = 0" if i: "unat i < 1024" for i
    proof -
      have "get32 m (?pd + 4 * i) = get32 ?m (?pd + 4 * i)"
        using m clear [OF i] aligned_entry [OF pd(1) i] by (simp add: entries_written_def)
      also have "\<dots> = 0"
        using fill_entry_other [OF T(1) pd(1) Tpd i order_refl] zero [OF i] real by (simp add: pde_at_def pd_phys_real)
      finally show ?thesis .
    qed
    have e768: "?pd + 4 * 768 = ?pd + 4 * i \<longleftrightarrow> i = 768" and e0: "?pd = ?pd + 4 * i \<longleftrightarrow> i = 0"
      if "unat i < 1024" for i
      using entry_eq_iff [OF pd(1) pd(1) _ that, of 768] entry_eq_iff [OF pd(1) pd(1) _ that, of 0]
      by auto
    have al: "aligned ?pd" "aligned (?pd + 4 * 768)"
      using aligned_entry [OF pd(1), of 0] aligned_entry [OF pd(1), of 768] by simp_all
    have pde: "pde_at ?st i = (if i = 0 \<or> i = 768 then T OR 3 else 0)" if i: "unat i < 1024" for i
      unfolding pde_at_def
      using dir [OF i] e768 [OF i] e0 [OF i] al aligned_entry [OF pd(1) i] real by (simp add: get32_put32 pd_phys_real)
    have ent: "get32 (phys ?st) (T + 4 * i) = i * 4096 OR 3" if i: "unat i < 2048" for i
    proof -
      have "?pd \<noteq> T + 4 * i" "?pd + 4 * 768 \<noteq> T + 4 * i"
        using clear [OF _ i, of 0] clear [OF _ i, of 768] by simp_all
      then show ?thesis
        using m i al aligned_quad [OF page_aligned_aligned [OF T(1)] i]
        by (simp add: get32_put32_other entries_written_def three)
    qed
    have "frame_of (T OR 3) = T" using T(1) by (simp add: frame_of_or frame_of_page_aligned)
    then have "tables_ok ?st"
      using inv pd T Tpd pde real by (auto simp: tables_ok_def frame_used_def pd_phys_real)
    then show ?thesis using pde ent real T(1) by (simp add: boot_tables_def)
  qed
  show ?thesis
    unfolding install_first_table_def memset8_real [OF conjunct1 [OF real]] runs_simps runs_map_option
    by (rule runs_mono [where P = "\<lambda>out. \<exists>m. out = Done (st\<lparr>phys := m\<rparr>) \<and> entries_written T ?f 2048 ?m m"])
      (use loop final real in \<open>auto simp: real_mode_access three Tf\<close>)
qed

lemma paging_init_ok:
  assumes inv: "pmm_inv (frames st)" and real: "real_mode st"
  shows "runs (paging_init st) (\<lambda>st'. page_directory st' = 0 \<or>
    (tables_ok st' \<and> (\<forall>i. unat i < 1024 \<longrightarrow> pde_at st' i = 0)) \<or> (\<exists>T. boot_tables T st'))"
    (is "runs _ ?Q")
proof -
  let ?F = "\<lambda>(pd, st). do { let st = st\<lparr>page_directory := pd\<rparr>;
          if pd = 0 then Some st
          else do {
            st \<leftarrow> memset8 pd 0 PAGE_SIZE st;
            (first_page_table, st) \<leftarrow> alloc_frame st;
            if first_page_table = 0 then Some st
            else install_first_table pd first_page_table st } }"
  have "runs (pmm_alloc_block (frames st)) (\<lambda>(a, s). runs (?F (a, st\<lparr>frames := s\<rparr>)) ?Q)"
  proof (rule runs_mono_pair [OF pmm_alloc_block_ok [OF inv]])
    fix pd s1
    assume post: "pd = 0 \<and> s1 = frames st \<and>
        (pmm_used (frames st) = {..<pmm_blocks (frames st)} \<or>
          all_used_below (8 * (pmm_blocks (frames st) div 8)) (frames st))
      \<or> block_taken (frames st) pd s1"
    show "runs (?F (pd, st\<lparr>frames := s1\<rparr>)) ?Q"
    proof (cases "pd = 0")
      case False
      then have taken: "block_taken (frames st) pd s1" using post by simp
      note p = block_taken_frame [OF inv taken]
      let ?st = "\<lambda>s. st\<lparr>page_directory := pd, phys := fill (phys st) pd 4096 0, frames := s\<rparr>"
      let ?G = "\<lambda>(T, st). if T = 0 then Some st else install_first_table pd T st"
      have zero: "pde_at (?st s) i = 0" if "unat i < 1024" for i s
        using fill_entry_same [OF that] real by (simp add: pde_at_def pd_phys_real)
      have "runs (pmm_alloc_block s1) (\<lambda>(T, s). runs (?G (T, ?st s)) ?Q)"
      proof (rule runs_mono_pair [OF pmm_alloc_block_ok [OF p(4)]])
        fix T s2
        assume post2: "T = 0 \<and> s2 = s1 \<and>
            (pmm_used s1 = {..<pmm_blocks s1} \<or> all_used_below (8 * (pmm_blocks s1 div 8)) s1)
          \<or> block_taken s1 T s2"
        show "runs (?G (T, ?st s2)) ?Q"
        proof (cases "T = 0")
          case True
          have "pmm_inv s2" "unat pd div 4096 \<in> pmm_used s2"
            using post2 p block_taken_frame [OF p(4)] by auto
          then have "tables_ok (?st s2)"
            using p(1) zero real by (simp add: tables_ok_def frame_used_def pd_phys_real)
          then have "?Q (?st s2)" using zero by blast
          then show ?thesis by (simp only: True prod.case refl if_True runs_simps)
        next
          case T0: False
          then have taken2: "block_taken s1 T s2" using post2 by simp
          note t = block_taken_frame [OF p(4) taken2]
          have neq: "unat pd div 4096 \<noteq> unat T div 4096" using t(2) p(3) by auto
          have "\<not> unat T div 4096 < unat pd div 4096" using p(5) t(2) p(3) by blast
          then have lt: "unat pd < unat T" using neq by (metis div_le_mono linorder_neqE_nat nat_less_le not_le)
          have "runs (install_first_table (page_directory (?st s2)) T (?st s2))
            (\<lambda>st'. boot_tables T st' \<and> page_directory st' = page_directory (?st s2) \<and> frames st' = frames (?st s2))"
            by (rule install_first_table_ok) (use real p t lt False zero in \<open>simp_all add: frame_used_def\<close>)
          then have "runs (install_first_table pd T (?st s2)) (\<lambda>st'. boot_tables T st' \<and> page_directory st' = pd \<and> frames st' = s2)"
            by simp
          then have "runs (install_first_table pd T (?st s2)) ?Q" by (rule runs_mono) blast
          then show ?thesis by (simp only: T0 prod.case if_False)
        qed
      qed
      then show ?thesis
        using real False by (simp add: Let_def memset8_real alloc_frame_def case_prod_unfold cong: if_cong)
    qed simp
  qed
  then show ?thesis by (simp add: paging_init_def alloc_frame_def case_prod_unfold cong: if_cong)
qed

lemma high_alias:
  assumes "unat v < 4194304"
  shows "pd_index (0xC0000000 + v) = 768" "pt_index (0xC0000000 + v) = pt_index v"
    "pd_index v = 0" "(0xC0000000 + v) AND 0xFFF = v AND 0xFFF"
    "unat (0xC0000000 + v) = 3221225472 + unat v"
proof -
  show un: "unat (0xC0000000 + v) = 3221225472 + unat v"
    using assms by (subst unat_add_le) simp_all
  have "3221225472 + unat v = unat v + 768 * 4194304" by simp
  then show "pd_index (0xC0000000 + v) = 768"
    using assms unfolding unat_eq_iff unat_pd_index un by simp
  have "(3221225472 + unat v) div 4096 = unat v div 4096 + 768 * 1024" by simp
  then have "(3221225472 + unat v) div 4096 mod 1024 = unat v div 4096 mod 1024"
    by (simp only: mod_mult_self1)
  then show "pt_index (0xC0000000 + v) = pt_index v"
    unfolding unat_eq_iff unat_pt_index un by simp
  show "pd_index v = 0" using assms by (simp add: unat_eq_iff unat_pd_index)
  have "3221225472 + unat v = unat v + 786432 * 4096" by simp
  then have "(3221225472 + unat v) mod 4096 = unat v mod 4096" by (simp only: mod_mult_self1)
  then show "(0xC0000000 + v) AND 0xFFF = v AND 0xFFF"
    unfolding unat_eq_iff unat_and_fff un by simp
qed

lemma entry_frame:
  assumes "unat i < 1024"
  shows "frame_of (i * 4096 OR 3) = i * 4096" "present (i * 4096 OR 3)"
proof -
  have "unat (i * 4096) = unat i * 4096" using assms by (subst unat_mult_le) simp_all
  then have "page_aligned (i * 4096)" by (simp add: page_aligned_def)
  then show "frame_of (i * 4096 OR 3) = i * 4096"
    by (simp add: frame_of_or frame_of_page_aligned)
qed (simp add: present_or)

lemma frame_plus_offset_or: "frame_of v OR (v AND 0xFFF) = v"
  by (rule bit_word_eqI) (auto simp: frame_of_def bit_simps)

lemma pt_index_frame:
  assumes "unat v < 4194304"
  shows "pt_index v * 4096 = frame_of v"
proof -
  have "unat (pt_index v * 4096) = unat (pt_index v) * 4096"
    by (subst unat_mult_le) (rule less_trans [OF mult_strict_right_mono [OF pt_index_less]], simp_all)
  also have "\<dots> = unat (frame_of v)" using assms by (simp add: unat_pt_index unat_frame_of)
  finally show ?thesis by (simp add: unat_eq_iff)
qed

lemma boot_tables_maps:
  assumes boot: "boot_tables T st" and v: "unat v < 4194304"
  shows "maps st v = Some v" "maps st (0xC0000000 + v) = Some v"
proof -
  have T: "frame_of (T OR 3) = T" "present (T OR 3)"
    using boot by (simp_all add: boot_tables_def frame_of_or frame_of_page_aligned present_or)
  have lt: "unat (pt_index v) < 2048" by (rule less_trans [OF pt_index_less]) simp
  have pde: "pde_at st 0 = T OR 3" "pde_at st 768 = T OR 3"
    and pte: "get32 (phys st) (T + 4 * pt_index v) = pt_index v * 4096 OR 3"
    using boot lt by (simp_all add: boot_tables_def)
  show "maps st v = Some v" "maps st (0xC0000000 + v) = Some v"
    using high_alias [OF v] entry_frame [OF pt_index_less, of v] pt_index_frame [OF v]
    by (simp_all add: maps_eq pde pte T frame_plus_offset_or)
qed

text \<open>Turning paging on keeps the translations, and the window reaches what the tables map there.\<close>

lemma paging_enable_on:
  assumes "pd_phys st \<noteq> 0" and "page_aligned (pd_phys st)" and "real_mode st"
  shows "paging_enable (page_directory st) st = st\<lparr>cr3 := pd_phys st, cr0_pg := True,
      paging_active := True, page_directory := 0xC0000000 + pd_phys st\<rparr>"
  using assms
  by (simp add: paging_enable_def enable_paging_internal_def load_page_directory_def Let_def
      frame_of_page_aligned pd_phys_real)

lemma paging_enable_maps:
  assumes ok: "tables_ok st" and real: "real_mode st" and nz: "pd_phys st \<noteq> 0"
    and st': "st' = paging_enable (page_directory st) st"
  shows "pd_phys st' = pd_phys st" "maps st' = maps st" "pde_at st' = pde_at st" "tables_ok st'"
    "mmu_translate st' = maps st" "frames st' = frames st" "kernel_ptr st' = (\<lambda>f. 0xC0000000 + f)"
    "page_directory st' = 0xC0000000 + pd_phys st" "paging_active st'" "cr0_pg st'" "phys st' = phys st"
proof -
  have al: "page_aligned (pd_phys st)" using ok by (simp add: tables_ok_def)
  note eq = st' [unfolded paging_enable_on [OF nz al real]]
  show pd: "pd_phys st' = pd_phys st" by (simp add: eq pd_phys_def [of "st\<lparr>cr3 := _\<rparr>"] pd_phys_def [of "_\<lparr>page_directory := _\<rparr>"])
  show ph: "phys st' = phys st" "frames st' = frames st" by (simp_all add: eq)
  show m: "maps st' = maps st" by (simp add: maps_def fun_eq_iff pd ph)
  show pde: "pde_at st' = pde_at st" by (simp add: pde_at_def fun_eq_iff pd ph)
  show "tables_ok st'" using ok by (simp add: tables_ok_def frame_used_def pd ph pde)
  show on: "paging_active st'" "cr0_pg st'" by (simp_all add: eq)
  then show "mmu_translate st' = maps st"
    by (simp add: fun_eq_iff mmu_translate_maps m)
  show "kernel_ptr st' = (\<lambda>f. 0xC0000000 + f)" using on by (simp add: kernel_ptr_def fun_eq_iff)
  show "page_directory st' = 0xC0000000 + pd_phys st" by (simp add: eq)
qed

text \<open>\<open>windowed st f\<close>: the tables map the frame \<open>f\<close> at the kernel's base.\<close>

definition windowed :: "machine \<Rightarrow> u32 \<Rightarrow> bool" where
  "windowed st f \<longleftrightarrow> (\<forall>k. unat k < 4096 \<longrightarrow> maps st (0xC0000000 + f + k) = Some (f + k))"

lemma paging_enable_pointers:
  assumes ok: "tables_ok st" and real: "real_mode st" and nz: "pd_phys st \<noteq> 0"
    and dir: "windowed st (pd_phys st)"
    and tabs: "\<And>i. unat i < 1024 \<Longrightarrow> present (pde_at st i) \<Longrightarrow> windowed st (frame_of (pde_at st i))"
    and free: "\<And>f s. block_taken (frames st) f s \<Longrightarrow> windowed st f"
  shows "pointers_ok (paging_enable (page_directory st) st)"
proof -
  note en = paging_enable_maps [OF ok real nz refl]
  show ?thesis
    using dir tabs free
    by (simp add: pointers_ok_def directory_reached_def reached_def windowed_def en)
qed

lemma low_frame_byte:
  assumes "page_aligned f" and "unat f < 4194304" and "unat k < 4096"
  shows "unat (f + k) < 4194304"
proof -
  obtain q where q: "unat f = 4096 * q" using assms(1) unfolding page_aligned_def by (elim dvdE)
  then have "q < 1024" using assms(2) by simp
  then show ?thesis using q assms(3) unat_in_page [OF assms(1,3)] by simp
qed

lemma boot_tables_windowed:
  assumes "boot_tables T st" and "page_aligned f" and "unat f < 4194304"
  shows "windowed st f"
  using boot_tables_maps(2) [OF assms(1) low_frame_byte [OF assms(2,3)]]
  by (simp add: windowed_def add.assoc)

section \<open>Properties\<close>

text \<open>A machine before paging with an empty directory in block 1.\<close>

definition small_machine :: machine where
  "small_machine = \<lparr>phys = (\<lambda>_. 0), cr3 = 0, cr0_pg = False, page_directory = 0x1000,
     paging_active = False, frames = small_pmm, vmm_bitmap = 0, vmm_max_pages = 0\<rparr>"

lemma small_machine_ok: "tables_ok small_machine" "real_mode small_machine"
  using small_pmm_inv pmm_used_small
  by (simp_all add: tables_ok_def small_machine_def pde_at_def pd_phys_def get32_def frame_used_def page_aligned_def)

text \<open>The tables of \<open>paging_init\<close> on the small machine: directory in block 1, table in block 2.\<close>

lemma small_boot:
  "runs (install_first_table 0x1000 0x2000 small_machine)
    (\<lambda>st. boot_tables 0x2000 st \<and> page_directory st = 0x1000 \<and> frames st = small_pmm)"
proof -
  have "runs (install_first_table (page_directory small_machine) 0x2000 small_machine)
    (\<lambda>st. boot_tables 0x2000 st \<and> page_directory st = page_directory small_machine \<and>
      frames st = frames small_machine)"
    by (rule install_first_table_ok)
      (use small_machine_ok small_pmm_inv pmm_used_small in
        \<open>simp_all add: small_machine_def frame_used_def page_aligned_def pde_at_def pd_phys_def get32_def\<close>)
  then show ?thesis by (simp add: small_machine_def)
qed

lemma small_block_low:
  assumes "block_taken small_pmm f s"
  shows "unat f < 4194304"
proof -
  obtain b where f: "f = of_nat (4096 * b)" and b: "b < 16"
    using assms by (auto simp: block_taken_def small_pmm_def)
  have "unat f = 4096 * b" unfolding f using b by (simp only: unat_of_nat) simp
  then show ?thesis using b by simp
qed

text \<open>The same machine after the boot tables are entered and paging is on.\<close>

lemma small_paging:
  assumes boot: "boot_tables 0x2000 st" "page_directory st = 0x1000" "frames st = small_pmm"
    and st': "st' = paging_enable (page_directory st) st"
  shows "tables_ok st'" "pointers_ok st'" "tables_identity st'"
proof -
  have ok: "tables_ok st" "real_mode st" using boot(1) by (simp_all add: boot_tables_def)
  have pd: "pd_phys st = 0x1000" using ok(2) boot(2) by (simp add: pd_phys_real)
  then have nz: "pd_phys st \<noteq> 0" by simp
  note en = paging_enable_maps [OF ok nz st']
  have win: "windowed st f" if "page_aligned f" "unat f < 4194304" for f
    using boot(1) that by (rule boot_tables_windowed)
  have tab: "frame_of (pde_at st i) = 0x2000" if "unat i < 1024" "present (pde_at st i)" for i
    using boot(1) that by (auto simp: boot_tables_def frame_of_def split: if_splits)
  show "tables_ok st'" by (rule en)
  show "pointers_ok st'"
    unfolding st'
  proof (rule paging_enable_pointers [OF ok nz])
    show "windowed st (pd_phys st)" by (rule win) (simp_all add: pd page_aligned_def)
    show "windowed st (frame_of (pde_at st i))" if "unat i < 1024" "present (pde_at st i)" for i
      by (rule win) (simp_all add: tab [OF that] page_aligned_def)
    fix f s assume "block_taken (frames st) f s"
    then have f: "block_taken small_pmm f s" using boot(3) by simp
    show "windowed st f"
      using small_block_low [OF f] block_taken_frame(1) [OF small_pmm_inv f] by (intro win) simp_all
  qed
  show "tables_identity st'"
    using boot_tables_maps(1) [OF boot(1) low_frame_byte [of "0x2000"]] \<open>pointers_ok st'\<close>
    by (auto simp: tables_identity_def pointers_ok_def en tab page_aligned_def)
qed

lemma kernel_alias_ok:
  assumes boot: "boot_tables T st" and v: "unat v < 4194304" and fl: "frame_of fl = 0"
  shows "runs (paging_map_page pa (0xC0000000 + v) fl st) (\<lambda>(r, st'). r \<and>
    maps st' (0xC0000000 + v) = Some (frame_of pa OR (v AND 0xFFF)) \<and>
    maps st' v = Some (frame_of pa OR (v AND 0xFFF)))"
proof -
  have st: "tables_ok st" "real_mode st" "page_aligned T" using boot by (simp_all add: boot_tables_def)
  have pde: "pde_at st 0 = T OR 3" "pde_at st 768 = T OR 3" using boot by (simp_all add: boot_tables_def)
  let ?e = "frame_of pa OR fl OR PAGE_PRESENT"
  have T: "frame_of (T OR 3) = T" "present (T OR 3)"
    using st(3) by (simp_all add: frame_of_or frame_of_page_aligned present_or)
  have pre: "present (pde_at st (pd_index (0xC0000000 + v)))" "present (pde_at st (pd_index v))"
    using high_alias [OF v] pde T by simp_all
  have same: "set_pte (0xC0000000 + v) ?e st = set_pte v ?e st"
    using high_alias [OF v] pde by (simp add: set_pte_def)
  have "present ?e" by (simp add: present_or)
  then have "maps (set_pte (0xC0000000 + v) ?e st) (0xC0000000 + v) = Some (frame_of pa OR (v AND 0xFFF))"
    "maps (set_pte v ?e st) v = Some (frame_of pa OR (v AND 0xFFF))"
    using set_pte_maps_same [OF st(1) pre(1)] set_pte_maps_same [OF st(1) pre(2)]
      frame_of_map [OF fl, of pa] high_alias [OF v] by simp_all
  then show ?thesis using map_page_present [OF pointers_ok_real [OF st(2)] pre(1), of pa fl] same by simp
qed

text \<open>C6. Mapping a page, with paging off or on: on success the entry holds the frame, the flags and
  the present bit, and exactly the addresses that share this entry translate to the given frame,
  every other address as before; on failure (no frame for a new table) no translation has changed.
  The pointers of the code must lead to the tables (with paging off they do; with paging on the
  window above 3 GiB must map the directory, the tables and the frame for a new table, as it does
  after the switch in \<open>vmm_init\<close>: \<open>enter_paging_pointers\<close> in theory \<open>Vmm\<close>).\<close>

theorem paging_map_page_maps:
  assumes "tables_ok st" and "pointers_ok st" and "frame_of fl = 0"
  shows "runs (paging_map_page pa va fl st) (\<lambda>(r, st').
    if r then tables_ok st' \<and> same_registers st st' \<and>
      get32 (phys st') (pte_addr (phys st') (pd_phys st') va) = frame_of pa OR fl OR PAGE_PRESENT \<and>
      (\<forall>vb. maps st' vb =
        (if same_entry st va vb then Some (frame_of pa OR (vb AND 0xFFF)) else maps st vb))
    else \<not> present (pde_at st (pd_index va)) \<and> tables_ok st' \<and> maps st' = maps st)"
  by (rule paging_map_page_ok [OF assms, unfolded mapped_page_def])

text \<open>Twice: on the machine before paging, and with paging on after the tables of the boot.\<close>

theorem paging_map_page_maps_witness:
  "runs (paging_map_page 0x5000 0x400000 3 small_machine) (\<lambda>(r, st').
    if r then tables_ok st' \<and> same_registers small_machine st' \<and>
      get32 (phys st') (pte_addr (phys st') (pd_phys st') 0x400000) = frame_of 0x5000 OR 3 OR PAGE_PRESENT \<and>
      (\<forall>vb. maps st' vb = (if same_entry small_machine 0x400000 vb
        then Some (frame_of 0x5000 OR (vb AND 0xFFF)) else maps small_machine vb))
    else \<not> present (pde_at small_machine (pd_index 0x400000)) \<and> tables_ok st' \<and>
      maps st' = maps small_machine) \<and>
   runs (install_first_table 0x1000 0x2000 small_machine) (\<lambda>st0.
    let st = paging_enable (page_directory st0) st0 in cr0_pg st \<and>
    runs (paging_map_page 0x5000 0x400000 3 st) (\<lambda>(r, st').
    if r then tables_ok st' \<and> same_registers st st' \<and>
      get32 (phys st') (pte_addr (phys st') (pd_phys st') 0x400000) = frame_of 0x5000 OR 3 OR PAGE_PRESENT \<and>
      (\<forall>vb. maps st' vb = (if same_entry st 0x400000 vb
        then Some (frame_of 0x5000 OR (vb AND 0xFFF)) else maps st vb))
    else \<not> present (pde_at st (pd_index 0x400000)) \<and> tables_ok st' \<and> maps st' = maps st))"
  (is "?off \<and> ?on")
proof
  show ?off
    by (rule paging_map_page_maps [OF small_machine_ok(1) pointers_ok_real [OF small_machine_ok(2)]]) simp
  show ?on
  proof (rule runs_mono [OF small_boot], elim conjE)
    fix st0 assume st0: "boot_tables 0x2000 st0" "page_directory st0 = 0x1000" "frames st0 = small_pmm"
    show "let st = paging_enable (page_directory st0) st0 in cr0_pg st \<and>
      runs (paging_map_page 0x5000 0x400000 3 st) (\<lambda>(r, st').
      if r then tables_ok st' \<and> same_registers st st' \<and>
        get32 (phys st') (pte_addr (phys st') (pd_phys st') 0x400000) = frame_of 0x5000 OR 3 OR PAGE_PRESENT \<and>
        (\<forall>vb. maps st' vb = (if same_entry st 0x400000 vb
          then Some (frame_of 0x5000 OR (vb AND 0xFFF)) else maps st vb))
      else \<not> present (pde_at st (pd_index 0x400000)) \<and> tables_ok st' \<and> maps st' = maps st)"
      unfolding Let_def
    proof
      show "cr0_pg (paging_enable (page_directory st0) st0)"
        using st0(2) by (simp add: paging_enable_def Let_def enable_paging_internal_def load_page_directory_def)
    qed (rule paging_map_page_maps [OF small_paging(1,2) [OF st0 refl]], simp)
  qed
qed

text \<open>C25. Unmapping a page, with paging off or on, where the frames of the tables are mapped to
  themselves: exactly the addresses that share the entry of the page lose their translation.\<close>

theorem paging_unmap_page_unmaps:
  assumes "tables_ok st" and "tables_identity st"
  shows "runs (paging_unmap_page va st) (\<lambda>st'. tables_ok st' \<and> same_registers st st' \<and>
    (\<forall>vb. maps st' vb = (if same_entry st va vb then None else maps st vb)))"
  using assms by (rule paging_unmap_page_ok)

theorem paging_unmap_page_unmaps_witness:
  "runs (install_first_table 0x1000 0x2000 small_machine) (\<lambda>st0.
    let st = paging_enable (page_directory st0) st0 in
    runs (paging_unmap_page 0xC0003000 st) (\<lambda>st'. tables_ok st' \<and> same_registers st st' \<and>
      (\<forall>vb. maps st' vb = (if same_entry st 0xC0003000 vb then None else maps st vb))))"
  unfolding Let_def
  by (rule runs_mono [OF small_boot], elim conjE,
      rule paging_unmap_page_unmaps [OF small_paging(1,3) [OF _ _ _ refl]])

text \<open>\<open>paging_init\<close>: unless the PMM runs out of frames, the first 4 MiB are mapped to themselves
  and at the kernel's base, through one shared table.  The loop that fills the table writes 2048
  entries, so that the 1024 words of the frame after the table are overwritten, too.\<close>

theorem paging_init_identity:
  assumes "pmm_inv (frames st)" and "real_mode st"
  shows "runs (paging_init st) (\<lambda>st'. page_directory st' = 0 \<or> (\<forall>i. unat i < 1024 \<longrightarrow> pde_at st' i = 0) \<or>
    (\<exists>T. tables_ok st' \<and> frame_of (pde_at st' 0) = T \<and> frame_of (pde_at st' 768) = T \<and>
      (\<forall>v. unat v < 4194304 \<longrightarrow> maps st' v = Some v \<and> maps st' (0xC0000000 + v) = Some v) \<and>
      (\<forall>i. 1024 \<le> unat i \<and> unat i < 2048 \<longrightarrow> get32 (phys st') (T + 4 * i) = i * 4096 OR 3)))"
proof (rule runs_mono [OF paging_init_ok [OF assms]], elim disjE conjE exE)
  fix st' T assume boot: "boot_tables T st'"
  then have "frame_of (T OR 3) = T" by (simp add: boot_tables_def frame_of_or frame_of_page_aligned)
  then show "page_directory st' = 0 \<or> (\<forall>i. unat i < 1024 \<longrightarrow> pde_at st' i = 0) \<or>
    (\<exists>T. tables_ok st' \<and> frame_of (pde_at st' 0) = T \<and> frame_of (pde_at st' 768) = T \<and>
      (\<forall>v. unat v < 4194304 \<longrightarrow> maps st' v = Some v \<and> maps st' (0xC0000000 + v) = Some v) \<and>
      (\<forall>i. 1024 \<le> unat i \<and> unat i < 2048 \<longrightarrow> get32 (phys st') (T + 4 * i) = i * 4096 OR 3))"
    using boot boot_tables_maps [OF boot] by (intro disjI2 exI [of _ T]) (simp add: boot_tables_def)
qed auto

theorem paging_init_identity_witness:
  "runs (paging_init small_machine) (\<lambda>st'. page_directory st' = 0 \<or>
    (\<forall>i. unat i < 1024 \<longrightarrow> pde_at st' i = 0) \<or>
    (\<exists>T. tables_ok st' \<and> frame_of (pde_at st' 0) = T \<and> frame_of (pde_at st' 768) = T \<and>
      (\<forall>v. unat v < 4194304 \<longrightarrow> maps st' v = Some v \<and> maps st' (0xC0000000 + v) = Some v) \<and>
      (\<forall>i. 1024 \<le> unat i \<and> unat i < 2048 \<longrightarrow> get32 (phys st') (T + 4 * i) = i * 4096 OR 3)))"
  using paging_init_identity [of small_machine] small_machine_ok small_pmm_inv
  by (simp add: small_machine_def)

text \<open>The shared table couples the kernel's addresses to the identity mapping: mapping a page
  below \<open>0xC0400000\<close> after \<open>paging_init\<close> also moves the identically mapped page 3 GiB below it.\<close>

theorem kernel_mapping_moves_identity:
  assumes "boot_tables T st" and "unat v < 4194304" and "frame_of fl = 0"
  shows "runs (paging_map_page pa (0xC0000000 + v) fl st) (\<lambda>(r, st'). r \<and>
    maps st v = Some v \<and>
    maps st' (0xC0000000 + v) = Some (frame_of pa OR (v AND 0xFFF)) \<and>
    maps st' v = Some (frame_of pa OR (v AND 0xFFF)))"
  using kernel_alias_ok [OF assms] boot_tables_maps(1) [OF assms(1,2)] by simp

theorem kernel_mapping_moves_identity_witness:
  "runs (install_first_table 0x1000 0x2000 small_machine) (\<lambda>st.
    runs (paging_map_page 0x9000 (0xC0000000 + 0x3000) 3 st) (\<lambda>(r, st'). r \<and>
      maps st 0x3000 = Some 0x3000 \<and>
      maps st' (0xC0000000 + 0x3000) = Some (frame_of 0x9000 OR (0x3000 AND 0xFFF)) \<and>
      maps st' 0x3000 = Some (frame_of 0x9000 OR (0x3000 AND 0xFFF))))"
  by (rule runs_mono [OF small_boot], elim conjE, rule kernel_mapping_moves_identity [of "0x2000"]) simp_all

end
