(* ===== verification/Vmm.thy ===== *)
theory Vmm
  imports Paging
begin

text \<open>
  \<open>src/mm/vmm.c\<close> and the hooks of \<open>src/mm/liballoc_hook.c\<close>: a bitmap of virtual pages above
  \<open>KERNEL_VMEM_START\<close>, kept in memory behind the pointer \<open>vmm_bitmap\<close> (so that every access goes
  through the page walk), physical frames from the PMM and mappings by the paging code; the search of the bitmap, and what
  the addresses below 4 MiB and their aliases lead to once the kernel is mapped and paging is on.  The
  log lines are left out.
\<close>

abbreviation (input) KERNEL_VMEM_START :: u32 where "KERNEL_VMEM_START \<equiv> 0xC0000000"
abbreviation (input) USER_SPACE_END :: u32 where "USER_SPACE_END \<equiv> 0xBFFFFFFF"
abbreviation (input) UINT32_MAX :: u32 where "UINT32_MAX \<equiv> 0xFFFFFFFF"

section \<open>The bitmap of virtual pages\<close>

definition is_page_free :: "u32 \<Rightarrow> machine \<Rightarrow> bool option" where
  "is_page_free page st =
     do { v \<leftarrow> load8 (vmm_bitmap st + page div 8) st; Some (v AND bit_mask (page mod 8) = 0) }"

definition find_free_page :: "machine \<Rightarrow> u32 option" where
  "find_free_page st =
     do { r \<leftarrow> for_loop 0 (vmm_max_pages st)
                 (\<lambda>i _. do { free \<leftarrow> is_page_free i st;
                             Some (if free then Return i () else Next ()) }) ();
          Some (case r of Done _ \<Rightarrow> - 1 | Returned i _ \<Rightarrow> i) }"

text \<open>The loop over \<open>j\<close> inside \<open>find_contiguous_free_pages\<close> and \<open>vmm_map_mmio\<close>; its value is \<open>j\<close>.\<close>

definition free_run_length :: "u32 \<Rightarrow> u32 \<Rightarrow> machine \<Rightarrow> u32 option" where
  "free_run_length i pages_needed st =
     map_option exit_state
       (for_loop 0 pages_needed
         (\<lambda>j _. if i + j \<ge> vmm_max_pages st then Some (Break j)
                else do { free \<leftarrow> is_page_free (i + j) st;
                          Some (if free then Next (j + 1) else Break j :: (u32, unit) ctl) }) 0)"

definition find_contiguous_free_pages :: "u32 \<Rightarrow> machine \<Rightarrow> u32 option" where
  "find_contiguous_free_pages pages_needed st =
     do { r \<leftarrow> for_loop 0 (vmm_max_pages st)
                 (\<lambda>i _. do { free \<leftarrow> is_page_free i st;
                             if free
                             then do { j \<leftarrow> free_run_length i pages_needed st;
                                       Some (if j = pages_needed then Return i () else Next ()) }
                             else Some (Next ()) }) ();
          Some (case r of Done _ \<Rightarrow> - 1 | Returned i _ \<Rightarrow> i) }"

definition mark_page :: "u32 \<Rightarrow> bool \<Rightarrow> machine \<Rightarrow> machine option" where
  "mark_page page used st =
     do { v \<leftarrow> load8 (vmm_bitmap st + page div 8) st;
          store8 (vmm_bitmap st + page div 8)
            (if used then v OR bit_mask (page mod 8) else v AND NOT (bit_mask (page mod 8))) st }"

text \<open>\<open>for (i = first; i < first + n; i++) mark_page(i, used)\<close>\<close>

definition mark_pages :: "u32 \<Rightarrow> u32 \<Rightarrow> bool \<Rightarrow> machine \<Rightarrow> machine option" where
  "mark_pages first n used st =
     map_option exit_state
       (for_loop first (first + n)
         (\<lambda>i st. map_option Next (mark_page i used st) :: (machine, unit) ctl option) st)"

text \<open>The pages \<open>list_available_pages\<close> prints: it tests whole bytes, indexed by the page number.\<close>

definition list_available_pages :: "machine \<Rightarrow> u32 list option" where
  "list_available_pages st =
     map_option exit_state
       (for_loop 0 (vmm_max_pages st)
         (\<lambda>i out. do { v \<leftarrow> load8 (vmm_bitmap st + i) st;
                       Some (Next (if v = 0 then out @ [i] else out) :: (u32 list, unit) ctl) }) [])"

section \<open>Mapping ranges\<close>

text \<open>
  The loop \<open>for (i = 0; i < n; i++) if (!paging_map_page(...)) ...\<close>: the number of pages mapped before a
  failure is returned.
\<close>

definition map_range :: "u32 \<Rightarrow> u32 \<Rightarrow> u32 \<Rightarrow> u32 \<Rightarrow> machine \<Rightarrow> (machine, u32) outcome option" where
  "map_range phys_start virt_start n flags st =
     for_loop 0 n
       (\<lambda>i st. do { (ok, st) \<leftarrow> paging_map_page (phys_start + i * PAGE_SIZE) (virt_start + i * PAGE_SIZE) flags st;
                    Some (if ok then Next st else Return i st) }) st"

definition vmm_map_mmio :: "u32 \<Rightarrow> u32 \<Rightarrow> u32 \<Rightarrow> machine \<Rightarrow> (u32 \<times> machine) option" where
  "vmm_map_mmio phys_addr sz flags st =
     do { let sz = (sz + PAGE_SIZE - 1) AND NOT (PAGE_SIZE - 1);
          let pages_needed = (sz + PAGE_SIZE - 1) div PAGE_SIZE;
          start_index \<leftarrow> find_contiguous_free_pages pages_needed st;
          if sint start_index < 0 then Some (0, st)
          else do {
            st \<leftarrow> mark_pages start_index pages_needed True st;
            let virt_start = KERNEL_VMEM_START + start_index * PAGE_SIZE;
            r \<leftarrow> map_range phys_addr virt_start pages_needed (flags OR PAGE_PRESENT OR PAGE_WRITABLE) st;
            Some (case r of Returned _ st \<Rightarrow> (0, st) | Done st \<Rightarrow> (virt_start, st)) } }"

section \<open>Initialisation\<close>

definition with_frames :: "(pmm \<Rightarrow> ('a \<times> pmm) option) \<Rightarrow> machine \<Rightarrow> ('a \<times> machine) option" where
  "with_frames f st = map_option (\<lambda>(a, s). (a, st\<lparr>frames := s\<rparr>)) (f (frames st))"

definition frames_update_opt :: "(pmm \<Rightarrow> pmm option) \<Rightarrow> machine \<Rightarrow> machine option" where
  "frames_update_opt f st = map_option (\<lambda>s. st\<lparr>frames := s\<rparr>) (f (frames st))"

definition vmm_bitmap_init :: "machine \<Rightarrow> machine option" where
  "vmm_bitmap_init st =
     (let total_phys_mem = pmm_get_total_memory (frames st) in
      if total_phys_mem = 0 then Some st
      else do {
        let st = st\<lparr>vmm_max_pages := total_phys_mem div PAGE_SIZE\<rparr>;
        let bitmap_size = (vmm_max_pages st + 7) div 8;
        let bitmap_pages = (bitmap_size + PAGE_SIZE - 1) div PAGE_SIZE;
        (bitmap_phys, st) \<leftarrow> with_frames (pmm_alloc_blocks bitmap_pages) st;
        if bitmap_phys = 0 then Some st
        else do {
          (p, st) \<leftarrow> vmm_map_mmio bitmap_phys (bitmap_pages * PAGE_SIZE) (PAGE_PRESENT OR PAGE_WRITABLE) st;
          let st = st\<lparr>vmm_bitmap := p\<rparr>;
          if p = 0 then frames_update_opt (pmm_free_blocks bitmap_phys bitmap_pages) st
          else memset8 p 0 bitmap_size st } })"

text \<open>
  \<open>kernel_start\<close> and \<open>kernel_end\<close> are the linker's symbols.  The results of the two calls of
  \<open>paging_map_page\<close> are ignored by the code.
\<close>

definition map_kernel_page :: "u32 \<Rightarrow> u32 \<Rightarrow> machine \<Rightarrow> machine option" where
  "map_kernel_page kernel_start i st =
     do { let phys_addr = kernel_start + i * PAGE_SIZE;
          (_, st) \<leftarrow> paging_map_page phys_addr phys_addr (PAGE_PRESENT OR PAGE_WRITABLE) st;
          (_, st) \<leftarrow> paging_map_page phys_addr (KERNEL_VMEM_START + i * PAGE_SIZE) (PAGE_PRESENT OR PAGE_WRITABLE) st;
          Some st }"

definition map_kernel_pages :: "u32 \<Rightarrow> u32 \<Rightarrow> machine \<Rightarrow> machine option" where
  "map_kernel_pages kernel_start num_pages st =
     map_option exit_state
       (for_loop 0 num_pages
         (\<lambda>i st. map_option Next (map_kernel_page kernel_start i st) :: (machine, unit) ctl option) st)"

text \<open>The part of \<open>vmm_init\<close> after the two calls: the kernel's pages are mapped and paging is enabled.\<close>

definition enter_paging :: "u32 \<Rightarrow> u32 \<Rightarrow> machine \<Rightarrow> machine option" where
  "enter_paging kernel_start kernel_end st =
     (let pd = get_page_directory st in
      if pd = 0 then Some st
      else do {
        let num_pages = (kernel_end - kernel_start + PAGE_SIZE - 1) div PAGE_SIZE;
        st \<leftarrow> map_kernel_pages kernel_start num_pages st;
        Some (paging_enable pd st) })"

definition vmm_init :: "u32 \<Rightarrow> u32 \<Rightarrow> machine \<Rightarrow> machine option" where
  "vmm_init kernel_start kernel_end st =
     do { st \<leftarrow> paging_init st;
          st \<leftarrow> vmm_bitmap_init st;
          enter_paging kernel_start kernel_end st }"

section \<open>Single pages\<close>

definition vmm_alloc_page :: "machine \<Rightarrow> (u32 \<times> machine) option" where
  "vmm_alloc_page st =
     do { page_index \<leftarrow> find_free_page st;
          if sint page_index < 0 then Some (0, st)
          else do {
            st \<leftarrow> mark_page page_index True st;
            let virt_addr = KERNEL_VMEM_START + page_index * PAGE_SIZE;
            (phys_addr, st) \<leftarrow> alloc_frame st;
            if phys_addr = 0 then do { st \<leftarrow> mark_page page_index False st; Some (0, st) }
            else do {
              (ok, st) \<leftarrow> paging_map_page phys_addr virt_addr (PAGE_PRESENT OR PAGE_WRITABLE) st;
              if \<not> ok then do {
                st \<leftarrow> frames_update_opt (pmm_free_block phys_addr) st;
                st \<leftarrow> mark_page page_index False st;
                Some (0, st) }
              else Some (virt_addr, st) } } }"

definition vmm_free_page :: "u32 \<Rightarrow> machine \<Rightarrow> machine option" where
  "vmm_free_page addr st =
     (if addr = 0 then Some st
      else if addr AND (PAGE_SIZE - 1) \<noteq> 0 then Some st
      else if addr < KERNEL_VMEM_START then Some st
      else let page_index = (addr - KERNEL_VMEM_START) div PAGE_SIZE in
        if page_index \<ge> vmm_max_pages st then Some st
        else do {
          phys_addr \<leftarrow> virt_to_phys addr st;
          if phys_addr = UINT32_MAX then Some st
          else do {
            st \<leftarrow> frames_update_opt (pmm_free_block phys_addr) st;
            st \<leftarrow> paging_unmap_page addr st;
            mark_page page_index False st } })"

section \<open>Contiguous pages and DMA buffers\<close>

definition free_contiguous_page :: "u32 \<Rightarrow> u32 \<Rightarrow> u32 \<Rightarrow> u32 \<Rightarrow> machine \<Rightarrow> machine option" where
  "free_contiguous_page virt_start phys_start start_index i st =
     do { st \<leftarrow> paging_unmap_page (virt_start + i * PAGE_SIZE) st;
          st \<leftarrow> frames_update_opt (pmm_mark_unused_region (phys_start + i * PAGE_SIZE) PAGE_SIZE) st;
          mark_page (start_index + i) False st }"

definition vmm_free_contiguous :: "u32 \<Rightarrow> u32 \<Rightarrow> machine \<Rightarrow> machine option" where
  "vmm_free_contiguous virt_addr pages st =
     (if virt_addr = 0 \<or> pages = 0 then Some st
      else do {
        phys_start \<leftarrow> virt_to_phys virt_addr st;
        if phys_start = UINT32_MAX then Some st
        else do {
          st \<leftarrow> frames_update_opt (pmm_free_blocks phys_start pages) st;
          let start_index = (virt_addr - KERNEL_VMEM_START) div PAGE_SIZE;
          map_option exit_state
            (for_loop 0 pages
              (\<lambda>i st. map_option Next (free_contiguous_page virt_addr phys_start start_index i st)
                :: (machine, unit) ctl option) st) } })"

definition vmm_alloc_contiguous :: "u32 \<Rightarrow> machine \<Rightarrow> (u32 \<times> machine) option" where
  "vmm_alloc_contiguous pages st =
     (if pages = 0 \<or> pages > vmm_max_pages st then Some (0, st)
      else do {
        start_index \<leftarrow> find_contiguous_free_pages pages st;
        if start_index = - 1 then Some (0, st)
        else do {
          st \<leftarrow> mark_pages start_index pages True st;
          (phys_start, st) \<leftarrow> with_frames (pmm_alloc_contiguous pages) st;
          if phys_start = 0
          then do { st \<leftarrow> mark_pages start_index pages False st; Some (0, st) }
          else do {
            let virt_start = KERNEL_VMEM_START + start_index * PAGE_SIZE;
            r \<leftarrow> map_range phys_start virt_start pages (PAGE_PRESENT OR PAGE_WRITABLE) st;
            case r of
              Done st \<Rightarrow> Some (virt_start, st)
            | Returned i st \<Rightarrow> do { st \<leftarrow> vmm_free_contiguous virt_start i st; Some (0, st) } } } })"

text \<open>\<open>dma_alloc\<close> ignores the results of \<open>vmm_alloc_contiguous\<close> and of \<open>paging_map_page\<close>.\<close>

definition dma_alloc :: "u32 \<Rightarrow> machine \<Rightarrow> (u32 \<times> machine) option" where
  "dma_alloc sz st =
     do { let pages = (sz + PAGE_SIZE - 1) div PAGE_SIZE;
          (p, st) \<leftarrow> with_frames (pmm_alloc_blocks_in_range pages 0x100000 0x1000000) st;
          if p = 0 then Some (0, st)
          else do {
            (virt, st) \<leftarrow> vmm_alloc_contiguous pages st;
            st \<leftarrow> map_option exit_state
              (for_loop 0 pages
                (\<lambda>i st. map_option (\<lambda>(_, st). Next st)
                   (paging_map_page (p + i * PAGE_SIZE) (virt + i * PAGE_SIZE)
                     (PAGE_PRESENT OR PAGE_WRITABLE OR PAGE_UNCACHED) st) :: (machine, unit) ctl option) st);
            Some (virt, st) } }"

definition dma_free :: "u32 \<Rightarrow> u32 \<Rightarrow> machine \<Rightarrow> machine option" where
  "dma_free addr sz st =
     (if addr = 0 \<or> sz = 0 then Some st
      else if addr AND (PAGE_SIZE - 1) \<noteq> 0 then Some st
      else let pages = (sz + PAGE_SIZE - 1) div PAGE_SIZE in
        if pages > vmm_max_pages st then Some st
        else vmm_free_contiguous addr pages st)"

section \<open>User pages\<close>

definition vmm_map_userspace :: "u32 \<Rightarrow> u32 \<Rightarrow> u32 \<Rightarrow> machine \<Rightarrow> (bool \<times> machine) option" where
  "vmm_map_userspace virt_addr phys_addr flags st =
     (if virt_addr \<ge> KERNEL_VMEM_START then Some (False, st)
      else paging_map_page phys_addr virt_addr (flags OR PAGE_PRESENT OR PAGE_USER) st)"

definition vmm_alloc_userspace_pages :: "u32 \<Rightarrow> machine \<Rightarrow> (u32 \<times> machine) option" where
  "vmm_alloc_userspace_pages pages st =
     do { let virt_addr = USER_SPACE_END - pages * PAGE_SIZE;
          (p, st) \<leftarrow> with_frames (pmm_alloc_blocks pages) st;
          if p = 0 then Some (0, st)
          else do {
            r \<leftarrow> map_range p virt_addr pages (PAGE_PRESENT OR PAGE_WRITABLE OR PAGE_USER) st;
            case r of
              Done st \<Rightarrow> Some (virt_addr, st)
            | Returned i st \<Rightarrow> do {
                st \<leftarrow> map_option exit_state
                  (for_loop 0 i
                    (\<lambda>j st. map_option Next (paging_unmap_page (virt_addr + j * PAGE_SIZE) st)
                      :: (machine, unit) ctl option) st);
                st \<leftarrow> frames_update_opt (pmm_free_blocks p pages) st;
                Some (0, st) } } }"

section \<open>The hooks of the heap\<close>

definition free_pages_from :: "u32 \<Rightarrow> u32 \<Rightarrow> machine \<Rightarrow> machine option" where
  "free_pages_from ptr n st =
     map_option exit_state
       (for_loop 0 n
         (\<lambda>i st. map_option Next (vmm_free_page (ptr + i * PAGE_SIZE) st) :: (machine, unit) ctl option) st)"

definition liballoc_alloc :: "u32 \<Rightarrow> machine \<Rightarrow> (u32 \<times> machine) option" where
  "liballoc_alloc num_blocks st =
     (if sint num_blocks \<le> 0 then Some (0, st)
      else do {
        r \<leftarrow> for_loop 0 num_blocks
          (\<lambda>i (virt_addr, st). do {
             (page, st) \<leftarrow> vmm_alloc_page st;
             if page = 0 then do { st \<leftarrow> free_pages_from virt_addr i st; Some (Return () (virt_addr, st)) }
             else Some (Next (if i = 0 then page else virt_addr, st)) })
          (0, st);
        Some (case r of Done (virt_addr, st) \<Rightarrow> (virt_addr, st) | Returned _ (_, st) \<Rightarrow> (0, st)) })"

definition liballoc_free :: "u32 \<Rightarrow> u32 \<Rightarrow> machine \<Rightarrow> (int \<times> machine) option" where
  "liballoc_free ptr num_blocks st =
     (if ptr = 0 then Some (-1, st)
      else if sint num_blocks \<le> 0 then Some (0, st)
      else map_option (\<lambda>st. (0, st)) (free_pages_from ptr num_blocks st))"

section \<open>Searching the bitmap\<close>

text \<open>
  The view of the bitmap: its bytes can be read (the pointer is mapped), page \<open>n\<close> is free when its
  bit is clear.
\<close>

definition bitmap_mapped :: "machine \<Rightarrow> bool" where
  "bitmap_mapped st \<longleftrightarrow> unat (vmm_max_pages st) \<le> 2 ^ 20 \<and>
     (\<forall>p. p < vmm_max_pages st \<longrightarrow> is_page_free p st \<noteq> None)"

definition page_free :: "machine \<Rightarrow> nat \<Rightarrow> bool" where
  "page_free st n \<longleftrightarrow> n < unat (vmm_max_pages st) \<and> is_page_free (of_nat n) st = Some True"

definition free_pages_run :: "machine \<Rightarrow> nat \<Rightarrow> nat \<Rightarrow> bool" where
  "free_pages_run st i n \<longleftrightarrow> (\<forall>k<n. page_free st (i + k))"

lemma is_page_free_eq:
  assumes "bitmap_mapped st" and "unat p < unat (vmm_max_pages st)"
  shows "is_page_free p st = Some (page_free st (unat p))"
proof -
  have "is_page_free p st \<noteq> None" using assms by (simp add: bitmap_mapped_def word_less_nat_alt)
  then obtain b where "is_page_free p st = Some b" by blast
  then show ?thesis using assms(2) by (cases b) (simp_all add: page_free_def)
qed

lemma free_pages_run_Suc: "free_pages_run st i (Suc n) \<longleftrightarrow> free_pages_run st i n \<and> page_free st (i + n)"
  by (auto simp: free_pages_run_def less_Suc_eq)

lemma free_pages_run_mono: "free_pages_run st i n \<Longrightarrow> m \<le> n \<Longrightarrow> free_pages_run st i m"
  by (simp add: free_pages_run_def)

lemma page_index_nonneg: "unat r < 1048576 \<Longrightarrow> 0 \<le> sint (r :: u32)"
  by (simp add: sint_of_small)

lemma find_free_page_ok:
  assumes mapped: "bitmap_mapped st"
  shows "runs (find_free_page st) (\<lambda>r.
    if \<exists>n. page_free st n then 0 \<le> sint r \<and> page_free st (unat r) \<and> (\<forall>n<unat r. \<not> page_free st n)
    else r = - 1)"
proof -
  define I where "I = (\<lambda>k (_ :: unit). \<forall>n<k. \<not> page_free st n)"
  define R where "R = (\<lambda>(r :: u32) (_ :: unit). page_free st (unat r) \<and> (\<forall>n<unat r. \<not> page_free st n))"
  have "runs (for_loop 0 (vmm_max_pages st)
      (\<lambda>i _. do { free \<leftarrow> is_page_free i st; Some (if free then Return i () else Next ()) }) ())
    (\<lambda>out. case out of Done u \<Rightarrow> I (unat (vmm_max_pages st)) u \<or> False | Returned r u \<Rightarrow> R r u)"
  proof (rule for_loop_rule [where I = I])
    show "I (unat (0 :: u32)) ()" by (simp add: I_def)
  next
    fix j :: u32 and u :: unit
    assume j: "unat j < unat (vmm_max_pages st)" and I: "I (unat j) u"
    show "runs (do { free \<leftarrow> is_page_free j st; Some (if free then Return j () else Next ()) })
      (\<lambda>out. case out of Next s' \<Rightarrow> I (Suc (unat j)) s' | Break s' \<Rightarrow> False | Return r s' \<Rightarrow> R r s')"
      using I by (simp add: is_page_free_eq [OF mapped j] I_def R_def less_Suc_eq)
  qed simp
  then show ?thesis
    unfolding find_free_page_def runs_simps
  proof (rule runs_mono)
    fix out :: "(unit, u32) outcome"
    assume out: "case out of Done u \<Rightarrow> I (unat (vmm_max_pages st)) u \<or> False | Returned r u \<Rightarrow> R r u"
    show "if \<exists>n. page_free st n
      then 0 \<le> sint (case out of Done _ \<Rightarrow> - 1 | Returned i _ \<Rightarrow> i) \<and>
        page_free st (unat (case out of Done _ \<Rightarrow> - 1 | Returned i _ \<Rightarrow> i)) \<and>
        (\<forall>n<unat (case out of Done _ \<Rightarrow> - 1 | Returned i _ \<Rightarrow> i). \<not> page_free st n)
      else (case out of Done _ \<Rightarrow> - 1 | Returned i _ \<Rightarrow> i) = - 1"
    proof (cases out)
      case (Done u)
      then have "\<not> page_free st n" for n
        using out by (cases "n < unat (vmm_max_pages st)") (auto simp: I_def page_free_def)
      then show ?thesis using Done by simp
    next
      case (Returned r u)
      then have r: "R r u" using out by simp
      then have "unat r < 1048576"
        using mapped by (auto simp: R_def page_free_def bitmap_mapped_def)
      then show ?thesis using Returned r page_index_nonneg by (auto simp: R_def)
    qed
  qed
qed

lemma free_run_length_ok:
  assumes mapped: "bitmap_mapped st" and i: "unat i < unat (vmm_max_pages st)"
    and n: "unat n \<le> 1048576"
  shows "runs (free_run_length i n st) (\<lambda>j. j = n \<longleftrightarrow> free_pages_run st (unat i) (unat n))"
proof -
  let ?body = "\<lambda>j _. if i + j \<ge> vmm_max_pages st then Some (Break j)
    else do { free \<leftarrow> is_page_free (i + j) st;
              Some (if free then Next (j + 1) else Break j :: (u32, unit) ctl) }"
  define I where "I = (\<lambda>k (j :: u32). unat j = k \<and> free_pages_run st (unat i) k)"
  define B where "B = (\<lambda>j :: u32. unat j < unat n \<and> \<not> free_pages_run st (unat i) (Suc (unat j)))"
  have "runs (for_loop 0 n ?body 0)
    (\<lambda>out. case out of Done j \<Rightarrow> I (unat n) j \<or> B j | Returned r j \<Rightarrow> False)"
  proof (rule for_loop_rule [where I = I])
    show "I (unat (0 :: u32)) 0" by (simp add: I_def free_pages_run_def)
  next
    fix j j' :: u32
    assume j: "unat j < unat n" and I: "I (unat j) j'"
    then have j': "j' = j" by (simp add: I_def unat_eq_iff)
    have bnd: "unat (vmm_max_pages st) \<le> 1048576" using mapped by (simp add: bitmap_mapped_def)
    have add: "unat (i + j) = unat i + unat j" using j n i bnd by (intro unat_add_le) simp
    have suc: "unat (j + 1) = Suc (unat j)" using j by (intro unat_inc) (simp add: word_less_nat_alt)
    show "runs (?body j j') (\<lambda>out. case out of Next s' \<Rightarrow> I (Suc (unat j)) s'
        | Break s' \<Rightarrow> B s' | Return r s' \<Rightarrow> False)"
    proof (cases "unat i + unat j < unat (vmm_max_pages st)")
      case True
      then have eq: "is_page_free (i + j) st = Some (page_free st (unat i + unat j))"
        using is_page_free_eq [OF mapped, of "i + j"] add by simp
      show ?thesis using True add I j suc
        by (simp add: eq word_le_nat_alt I_def B_def j' free_pages_run_Suc)
    next
      case False
      then show ?thesis using add j
        by (simp add: word_le_nat_alt B_def j' free_pages_run_Suc page_free_def)
    qed
  qed simp
  then show ?thesis
    unfolding free_run_length_def runs_map_option
  proof (rule runs_mono)
    fix out :: "(u32, unit) outcome"
    assume "case out of Done j \<Rightarrow> I (unat n) j \<or> B j | Returned r j \<Rightarrow> False"
    then obtain j where j: "out = Done j" "I (unat n) j \<or> B j" by (cases out) auto
    then show "exit_state out = n \<longleftrightarrow> free_pages_run st (unat i) (unat n)"
      by (auto simp: I_def B_def unat_eq_iff dest: free_pages_run_mono [of _ _ "unat n" "Suc (unat j)"])
  qed
qed

lemma find_contiguous_free_pages_ok:
  assumes mapped: "bitmap_mapped st" and n: "0 < unat n" "unat n \<le> 1048576"
  shows "runs (find_contiguous_free_pages n st) (\<lambda>r.
    if \<exists>i. free_pages_run st i (unat n)
    then 0 \<le> sint r \<and> free_pages_run st (unat r) (unat n) \<and>
      (\<forall>i<unat r. \<not> free_pages_run st i (unat n))
    else r = - 1)"
proof -
  let ?body = "\<lambda>i _. do { free \<leftarrow> is_page_free i st;
    if free then do { j \<leftarrow> free_run_length i n st; Some (if j = n then Return i () else Next ()) }
    else Some (Next ()) }"
  define I where "I = (\<lambda>k (_ :: unit). \<forall>i<k. \<not> free_pages_run st i (unat n))"
  define R where "R = (\<lambda>(r :: u32) (_ :: unit). free_pages_run st (unat r) (unat n) \<and>
    (\<forall>i<unat r. \<not> free_pages_run st i (unat n)))"
  have first: "free_pages_run st i (unat n) \<Longrightarrow> page_free st i" for i
    using n(1) by (force simp: free_pages_run_def)
  have "runs (for_loop 0 (vmm_max_pages st) ?body ())
    (\<lambda>out. case out of Done u \<Rightarrow> I (unat (vmm_max_pages st)) u \<or> False | Returned r u \<Rightarrow> R r u)"
  proof (rule for_loop_rule [where I = I])
    show "I (unat (0 :: u32)) ()" by (simp add: I_def)
  next
    fix j :: u32 and u :: unit
    assume j: "unat j < unat (vmm_max_pages st)" and I: "I (unat j) u"
    show "runs (?body j u) (\<lambda>out. case out of
        Next s' \<Rightarrow> I (Suc (unat j)) s' | Break s' \<Rightarrow> False | Return r s' \<Rightarrow> R r s')"
    proof (cases "page_free st (unat j)")
      case True
      have "runs (free_run_length j n st) (\<lambda>l. case if l = n then Return j () else Next () of
          Next s' \<Rightarrow> I (Suc (unat j)) s' | Break s' \<Rightarrow> False | Return r s' \<Rightarrow> R r s')"
        by (rule runs_mono [OF free_run_length_ok [OF mapped j n(2)]])
          (use I in \<open>auto simp: I_def R_def less_Suc_eq\<close>)
      then show ?thesis using True by (simp add: is_page_free_eq [OF mapped j])
    next
      case False
      then have "\<not> free_pages_run st (unat j) (unat n)" using first by blast
      then show ?thesis using False I
        by (simp add: is_page_free_eq [OF mapped j] I_def less_Suc_eq)
    qed
  qed simp
  then show ?thesis
    unfolding find_contiguous_free_pages_def runs_simps
  proof (rule runs_mono)
    fix out :: "(unit, u32) outcome"
    assume out: "case out of Done u \<Rightarrow> I (unat (vmm_max_pages st)) u \<or> False | Returned r u \<Rightarrow> R r u"
    let ?r = "case out of Done _ \<Rightarrow> - 1 | Returned i _ \<Rightarrow> i"
    show "if \<exists>i. free_pages_run st i (unat n)
      then 0 \<le> sint ?r \<and> free_pages_run st (unat ?r) (unat n) \<and>
        (\<forall>i<unat ?r. \<not> free_pages_run st i (unat n))
      else ?r = - 1"
    proof (cases out)
      case (Done u)
      then have "\<not> free_pages_run st i (unat n)" for i
        using out first [of i] by (cases "i < unat (vmm_max_pages st)") (auto simp: I_def page_free_def)
      then show ?thesis using Done by simp
    next
      case (Returned r u)
      then have r: "R r u" using out by simp
      then have "page_free st (unat r)" using first by (simp add: R_def)
      then have "unat r < 1048576"
        using mapped by (auto simp: page_free_def bitmap_mapped_def)
      then have "0 \<le> sint r" by (rule page_index_nonneg)
      then show ?thesis using Returned r by (auto simp: R_def)
    qed
  qed
qed

section \<open>What an operation leaves alone\<close>

lemma store8_frames: "store8 a v st = Some st' \<Longrightarrow> frames st' = frames st"
  by (auto simp: store8_def)

lemma store32_frames: "store32 a v st = Some st' \<Longrightarrow> frames st' = frames st"
  by (auto simp: store32_def)

lemma mark_page_frames: "mark_page p b st = Some st' \<Longrightarrow> frames st' = frames st"
  by (auto simp: mark_page_def dest: store8_frames split: bind_splits)

lemma unmap_frames: "paging_unmap_page va st = Some st' \<Longrightarrow> frames st' = frames st"
  by (auto simp: paging_unmap_page_def Let_def dest: store32_frames split: bind_splits if_splits)

lemma vmm_free_page_frames: "vmm_free_page a st = Some st' \<Longrightarrow> frames st' = frames st"
  by (auto simp: vmm_free_page_def Let_def frames_update_opt_def split: bind_splits if_splits
      dest!: mark_page_frames unmap_frames)

lemma free_pages_frames:
  assumes "free_pages_from ptr n st = Some st'"
  shows "frames st' = frames st"
proof -
  obtain out where out: "for_loop 0 n
      (\<lambda>i st. map_option Next (vmm_free_page (ptr + i * PAGE_SIZE) st) :: (machine, unit) ctl option) st = Some out"
    "st' = exit_state out"
    using assms by (auto simp: free_pages_from_def)
  have "frames (exit_state out) = frames st"
    by (rule for_loop_preserves [OF out(1), where P = "\<lambda>t. frames t = frames st"])
      (auto dest: vmm_free_page_frames)
  then show ?thesis using out(2) by simp
qed

lemma userspace_address:
  assumes "vmm_alloc_userspace_pages pages st = Some (a, st')" and "a \<noteq> 0"
  shows "a = 0xBFFFFFFF - pages * 4096"
  using assms by (auto simp: vmm_alloc_userspace_pages_def Let_def
      split: bind_splits if_splits outcome.splits)

lemma page_aligned_mult: "page_aligned (x * 4096)"
proof -
  have "4096 dvd (unat x * 4096) mod 4294967296" by (intro dvd_mod) simp_all
  then show ?thesis by (simp add: page_aligned_def unat_word_ariths)
qed

lemma and_fff_sub_page: "(0xBFFFFFFF - n * 4096) AND 0xFFF = (0xFFF :: u32)"
proof -
  have "page_aligned ((0xBFFFF - n) * 4096)" by (rule page_aligned_mult)
  moreover have "(0xBFFFF - n) * 4096 = 0xBFFFF000 - n * 4096" by (simp add: algebra_simps)
  ultimately have al: "page_aligned (0xBFFFF000 - n * 4096)" by simp
  have "0xBFFFFFFF - n * 4096 = (0xBFFFF000 - n * 4096) + 0xFFF" by simp
  then have h: "0xBFFFFFFF - n * 4096 = frame_of (0xBFFFF000 - n * 4096) + 0xFFF"
    using frame_of_page_aligned [OF al] by simp
  show ?thesis unfolding h by (rule low_bits_in_page) simp
qed

section \<open>The kernel\'s pages\<close>

lemma page_plus_offset: "page_aligned a \<Longrightarrow> a OR (v AND 0xFFF) = a + (v AND 0xFFF)"
proof -
  assume "page_aligned a"
  then have a: "a = frame_of a" by (simp add: frame_of_page_aligned)
  have "frame_of a OR (v AND 0xFFF) = frame_of a + (v AND 0xFFF)"
    unfolding frame_of_def by (rule disjunctive_add [symmetric]) (auto simp: bit_simps)
  then show ?thesis using a by simp
qed

text \<open>The first and the 768th entry lead to one table, as \<open>paging_init\<close> leaves them.\<close>

definition first_table_shared :: "machine \<Rightarrow> bool" where
  "first_table_shared st \<longleftrightarrow> present (pde_at st 0) \<and> present (pde_at st 768) \<and>
     frame_of (pde_at st 768) = frame_of (pde_at st 0)"

lemma pt_index_low: "unat v < 4194304 \<Longrightarrow> unat (pt_index v) = unat v div 4096"
  by (simp add: unat_pt_index)

lemma same_entry_low:
  assumes "first_table_shared st" and "unat a < 4194304" "unat v < 4194304"
  shows "same_entry st a v \<longleftrightarrow> unat v div 4096 = unat a div 4096"
    "same_entry st (0xC0000000 + a) v \<longleftrightarrow> unat v div 4096 = unat a div 4096"
proof -
  have "pt_index v = pt_index a \<longleftrightarrow> unat v div 4096 = unat a div 4096"
    using pt_index_low [OF assms(2)] pt_index_low [OF assms(3)] by (simp add: unat_eq_iff)
  then show "same_entry st a v \<longleftrightarrow> unat v div 4096 = unat a div 4096"
      "same_entry st (0xC0000000 + a) v \<longleftrightarrow> unat v div 4096 = unat a div 4096"
    using assms(1) high_alias [OF assms(2)] high_alias [OF assms(3)]
    by (simp_all add: same_entry_def first_table_shared_def)
qed

lemma maps_alias:
  assumes "first_table_shared st" and "unat v < 4194304"
  shows "maps st (0xC0000000 + v) = maps st v"
  using assms(1) high_alias [OF assms(2)] by (simp add: maps_eq first_table_shared_def Let_def)

definition same_tables :: "machine \<Rightarrow> machine \<Rightarrow> bool" where
  "same_tables st st' \<longleftrightarrow> frames st' = frames st \<and> (\<forall>i. unat i < 1024 \<longrightarrow> pde_at st' i = pde_at st i)"

lemma same_tables_shared: "same_tables st st' \<Longrightarrow> first_table_shared st' = first_table_shared st"
  by (simp add: same_tables_def first_table_shared_def)

lemma map_low_page:
  assumes ok: "tables_ok st" and real: "real_mode st" and shared: "first_table_shared st"
    and a: "unat a < 4194304" and va: "va = a \<or> va = 0xC0000000 + a" and pa: "page_aligned pa"
  shows "runs (paging_map_page pa va 3 st) (\<lambda>(_, st'). tables_ok st' \<and> same_registers st st' \<and>
    same_tables st st' \<and>
    (\<forall>v. unat v < 4194304 \<longrightarrow> maps st' v =
       (if unat v div 4096 = unat a div 4096 then Some (pa + (v AND 0xFFF)) else maps st v)))"
proof -
  have idx: "pd_index va = 0 \<or> pd_index va = 768" using va high_alias [OF a] by auto
  then have pre: "present (pde_at st (pd_index va))" using shared by (auto simp: first_table_shared_def)
  let ?e = "frame_of pa OR 3 OR PAGE_PRESENT"
  have "same_tables st (set_pte va ?e st)"
    using set_pte_pde [OF ok pre] by (simp add: same_tables_def)
  moreover have "maps (set_pte va ?e st) v =
      (if unat v div 4096 = unat a div 4096 then Some (pa + (v AND 0xFFF)) else maps st v)"
    if "unat v < 4194304" for v
  proof -
    have "same_entry st va v \<longleftrightarrow> unat v div 4096 = unat a div 4096"
      using va same_entry_low [OF shared a that] by auto
    then show ?thesis
      using set_pte_maps [OF ok pre, of ?e v] pa frame_of_map [of 3 pa]
      by (simp add: present_or frame_of_page_aligned page_plus_offset)
  qed
  ultimately show ?thesis
    using map_page_present [OF pointers_ok_real [OF real] pre, of pa 3] set_pte_tables_ok [OF ok pre]
    by (simp add: same_registers_def)
qed

text \<open>Where the address \<open>v\<close> below 4 MiB leads after \<open>k\<close> pages of the kernel are mapped.\<close>

definition kernel_target :: "u32 \<Rightarrow> nat \<Rightarrow> machine \<Rightarrow> u32 \<Rightarrow> u32 option" where
  "kernel_target ks k st v =
     (if unat v < 4096 * k then Some (ks + v)
      else if unat ks \<le> unat v \<and> unat v < unat ks + 4096 * k then Some v
      else maps st v)"

definition kernel_mapped :: "u32 \<Rightarrow> machine \<Rightarrow> nat \<Rightarrow> machine \<Rightarrow> bool" where
  "kernel_mapped ks st k t \<longleftrightarrow> tables_ok t \<and> same_registers st t \<and> same_tables st t \<and>
     (\<forall>v. unat v < 4194304 \<longrightarrow> maps t v = kernel_target ks k st v)"

lemma kernel_target_Suc:
  assumes ks: "page_aligned ks" "ks \<noteq> 0" and v: "unat v < 4194304"
  shows "kernel_target ks (Suc k) st v =
    (if unat v div 4096 = k then Some (ks + v)
     else if unat v div 4096 = unat ks div 4096 + k then Some v else kernel_target ks k st v)"
proof -
  obtain q where q: "unat ks = 4096 * q" using ks(1) unfolding page_aligned_def by (elim dvdE)
  then have q0: "0 < q" using ks(2) by (auto simp: unat_eq_iff)
  have v1: "unat v < 4096 * m \<longleftrightarrow> unat v div 4096 < m" for m
    using less_mult_imp_div_less [of "unat v" m 4096] by (auto simp: mult.commute div_less_iff_less_mult)
  have v2: "4096 * q \<le> unat v \<longleftrightarrow> q \<le> unat v div 4096"
    using v1 [of q] by linarith
  have v3: "unat v < 4096 * q + 4096 * m \<longleftrightarrow> unat v div 4096 < q + m" for m
    using v1 [of "q + m"] by (simp add: distrib_left)
  show ?thesis unfolding kernel_target_def q v1 v2 v3 using q0 by auto
qed

lemma kernel_page_step:
  assumes ks: "page_aligned ks" "ks \<noteq> 0" and i: "unat ks + 4096 * Suc (unat i) \<le> 4194304"
    and st: "real_mode st" "first_table_shared st" and inv: "kernel_mapped ks st (unat i) t"
  shows "runs (map_kernel_page ks i t) (kernel_mapped ks st (Suc (unat i)))"
proof -
  have off: "unat (i * 4096) = 4096 * unat i" using i by (subst unat_mult_le) simp_all
  then have pa: "unat (ks + i * 4096) = unat ks + 4096 * unat i" using i by (subst unat_add_le) simp_all
  have low: "unat (ks + i * 4096) < 4194304" "unat (i * 4096) < 4194304" using pa off i by simp_all
  have al: "page_aligned (ks + i * 4096)" using ks(1) pa by (simp add: page_aligned_def)
  have d: "unat (ks + i * 4096) div 4096 = unat ks div 4096 + unat i" "unat (i * 4096) div 4096 = unat i"
    using pa off by (simp_all add: add.commute)
  have t: "tables_ok t" "first_table_shared t" "real_mode t"
    using inv st same_tables_shared [of st t] by (simp_all add: kernel_mapped_def same_registers_def)
  have second: "runs (paging_map_page (ks + i * 4096) (0xC0000000 + i * 4096) 3 t1)
      (\<lambda>(_, t2). kernel_mapped ks st (Suc (unat i)) t2)"
    if t1: "tables_ok t1 \<and> same_registers t t1 \<and> same_tables t t1 \<and>
      (\<forall>v. unat v < 4194304 \<longrightarrow> maps t1 v =
        (if unat v div 4096 = unat (ks + i * 4096) div 4096
         then Some (ks + i * 4096 + (v AND 0xFFF)) else maps t v))" for t1
  proof -
    have real1: "real_mode t1" "first_table_shared t1"
      using t(2,3) t1 same_tables_shared [of t t1] by (simp_all add: same_registers_def)
    show ?thesis
    proof (rule runs_mono_pair [OF map_low_page [OF _ real1 low(2) disjI2 [OF refl] al]])
      fix r t2
      assume t2: "tables_ok t2 \<and> same_registers t1 t2 \<and> same_tables t1 t2 \<and>
        (\<forall>v. unat v < 4194304 \<longrightarrow> maps t2 v =
          (if unat v div 4096 = unat (i * 4096) div 4096
           then Some (ks + i * 4096 + (v AND 0xFFF)) else maps t1 v))"
      have "maps t2 v = kernel_target ks (Suc (unat i)) st v" if v: "unat v < 4194304" for v
      proof -
        have split: "v = frame_of v + (v AND 0xFFF)" by (simp add: frame_of_plus)
        have hi: "ks + i * 4096 + (v AND 0xFFF) = v" if "unat v div 4096 = unat ks div 4096 + unat i"
        proof -
          have "unat (frame_of v) = 4096 * (unat (ks + i * 4096) div 4096)"
            by (simp only: unat_frame_of that d(1))
          also have "\<dots> = unat (ks + i * 4096)"
            using al unfolding page_aligned_def by (rule dvd_mult_div_cancel)
          finally have "frame_of v = ks + i * 4096" by (simp add: unat_eq_iff)
          then show ?thesis using split by simp
        qed
        have lo: "ks + i * 4096 + (v AND 0xFFF) = ks + v" if "unat v div 4096 = unat i"
        proof -
          have "frame_of v = i * 4096" using that off by (simp add: unat_eq_iff unat_frame_of)
          then show ?thesis using split by (simp add: add.assoc)
        qed
        show ?thesis
          using t1 t2 v inv d hi lo
          by (simp add: kernel_target_Suc [OF ks v] kernel_mapped_def)
      qed
      then show "kernel_mapped ks st (Suc (unat i)) t2"
        using t2 t1 inv by (simp add: kernel_mapped_def same_registers_def same_tables_def)
    qed (use t1 in simp_all)
  qed
  have "runs (paging_map_page (ks + i * 4096) (ks + i * 4096) 3 t) (\<lambda>(_, t1).
      runs (paging_map_page (ks + i * 4096) (0xC0000000 + i * 4096) 3 t1)
        (\<lambda>(_, t2). kernel_mapped ks st (Suc (unat i)) t2))"
    by (rule runs_mono_pair [OF map_low_page [OF t(1,3,2) low(1) disjI1 [OF refl] al]], rule second)
  then show ?thesis by (simp add: map_kernel_page_def Let_def case_prod_unfold)
qed

lemma map_kernel_pages_ok:
  assumes ks: "page_aligned ks" "ks \<noteq> 0" and n: "unat ks + 4096 * unat n \<le> 4194304"
    and st: "tables_ok st" "real_mode st" "first_table_shared st"
  shows "runs (map_kernel_pages ks n st) (kernel_mapped ks st (unat n))"
proof -
  have "runs (for_loop 0 n (\<lambda>i st. map_option Next (map_kernel_page ks i st) :: (machine, unit) ctl option) st)
    (\<lambda>out. \<exists>t. out = Done t \<and> kernel_mapped ks st (unat n) t)"
  proof (rule for_loop_rule_next [where I = "kernel_mapped ks st"])
    show "kernel_mapped ks st (unat (0 :: u32)) st"
      using st by (auto simp: kernel_mapped_def kernel_target_def same_registers_def same_tables_def)
  next
    fix j :: u32 and t assume j: "unat j < unat n" and inv: "kernel_mapped ks st (unat j) t"
    have "4096 * Suc (unat j) \<le> 4096 * unat n" using j by (intro mult_le_mono2) simp
    then have "unat ks + 4096 * Suc (unat j) \<le> 4194304" using n by linarith
    from kernel_page_step [OF ks this st(2,3) inv]
    show "runs (map_option Next (map_kernel_page ks j t))
        (\<lambda>out. \<exists>s'. out = (Next s' :: (machine, unit) ctl) \<and> kernel_mapped ks st (Suc (unat j)) s')"
      by simp
  qed simp
  then show ?thesis by (auto simp: map_kernel_pages_def elim!: runs_mono)
qed

lemma enter_paging_run:
  assumes ks: "page_aligned ks" "ks \<noteq> 0" and ke: "ks \<le> ke" "unat ke \<le> 4194304"
    and st: "tables_ok st" "real_mode st" "first_table_shared st" "page_directory st \<noteq> 0"
    and n: "n = (unat ke - unat ks + 4095) div 4096"
  shows "runs (enter_paging ks ke st)
    (\<lambda>st'. \<exists>t. kernel_mapped ks st n t \<and> st' = paging_enable (page_directory t) t)"
proof -
  let ?n = "(ke - ks + PAGE_SIZE - 1) div PAGE_SIZE"
  have "unat (ke - ks) = unat ke - unat ks" using ke(1) by (simp add: unat_sub)
  moreover have "ke - ks + PAGE_SIZE - 1 = ke - ks + 4095" by simp
  moreover have "unat (ke - ks + 4095) = unat (ke - ks) + 4095"
    using calculation(1) ke(2) by (subst unat_add_le) simp_all
  ultimately have n': "unat ?n = n" unfolding n by (simp only: unat_div_distrib) simp
  obtain q where q: "unat ks = 4096 * q" using ks(1) unfolding page_aligned_def by (elim dvdE)
  have "unat ks \<le> unat ke" using ke(1) by (simp add: word_le_nat_alt)
  moreover have "4096 * n \<le> unat ke - unat ks + 4095" unfolding n by (rule times_div_less_eq_dividend)
  ultimately have "4096 * (q + n) < 4096 * 1025" using ke(2) q unfolding distrib_left by linarith
  then have "q + n < 1025" by simp
  then have "unat ks + 4096 * unat ?n \<le> 4194304" unfolding q n' by linarith
  note loop = map_kernel_pages_ok [OF ks this st(1-3), unfolded n']
  have "runs (map_kernel_pages ks ?n st)
    (\<lambda>t. \<exists>u. kernel_mapped ks st n u \<and> paging_enable (page_directory st) t = paging_enable (page_directory u) u)"
    by (rule runs_mono [OF loop]) (auto simp: kernel_mapped_def same_registers_def)
  then show ?thesis using st(4) by (simp add: enter_paging_def get_page_directory_def)
qed

lemma kernel_mapped_enabled:
  assumes t: "kernel_mapped ks st n t" and st: "real_mode st" "first_table_shared st" "page_directory st \<noteq> 0"
  shows "tables_ok t" "real_mode t" "pd_phys t \<noteq> 0" "pd_phys t = pd_phys st" "first_table_shared t"
    "frames t = frames st" "\<And>i. unat i < 1024 \<Longrightarrow> pde_at t i = pde_at st i"
    "\<And>v. unat v < 4194304 \<Longrightarrow> maps t v = kernel_target ks n st v"
    "\<And>v. unat v < 4194304 \<Longrightarrow> maps t (0xC0000000 + v) = kernel_target ks n st v"
proof -
  show "tables_ok t" "real_mode t" "pd_phys t \<noteq> 0" "pd_phys t = pd_phys st" "frames t = frames st"
      and pde: "\<And>i. unat i < 1024 \<Longrightarrow> pde_at t i = pde_at st i"
      and low: "\<And>v. unat v < 4194304 \<Longrightarrow> maps t v = kernel_target ks n st v"
    using t st by (simp_all add: kernel_mapped_def same_registers_def same_tables_def pd_phys_real)
  show shared: "first_table_shared t" using st(2) pde by (simp add: first_table_shared_def)
  show "maps t (0xC0000000 + v) = kernel_target ks n st v" if "unat v < 4194304" for v
    using maps_alias [OF shared that] low [OF that] by simp
qed

lemma enter_paging_ok:
  assumes ks: "page_aligned ks" "ks \<noteq> 0" and ke: "ks \<le> ke" "unat ke \<le> 4194304"
    and st: "tables_ok st" "real_mode st" "first_table_shared st" "page_directory st \<noteq> 0"
  shows "runs (enter_paging ks ke st) (\<lambda>st'. tables_ok st' \<and> cr0_pg st' \<and>
    (\<forall>v. unat v < 4194304 \<longrightarrow>
      mmu_translate st' (0xC0000000 + v) = mmu_translate st' v \<and>
      mmu_translate st' v = kernel_target ks ((unat ke - unat ks + 4095) div 4096) st v))"
proof (rule runs_mono [OF enter_paging_run [OF ks ke st refl]], elim exE conjE)
  fix st' t
  assume t: "kernel_mapped ks st ((unat ke - unat ks + 4095) div 4096) t"
    and st': "st' = paging_enable (page_directory t) t"
  note k = kernel_mapped_enabled [OF t st(2-4)]
  show "tables_ok st' \<and> cr0_pg st' \<and> (\<forall>v. unat v < 4194304 \<longrightarrow>
      mmu_translate st' (0xC0000000 + v) = mmu_translate st' v \<and>
      mmu_translate st' v = kernel_target ks ((unat ke - unat ks + 4095) div 4096) st v)"
    using paging_enable_maps(4,5,10) [OF k(1-3) st'] k(8,9) by simp
qed

text \<open>
  A frame behind the image of the kernel in size, below 4 MiB and mapped to itself, is reached through the
  window after the switch.  So when the directory, the tables and the frame for the next table are such
  frames, the pointers of the paging code are good from then on.
\<close>

definition behind_kernel :: "machine \<Rightarrow> nat \<Rightarrow> u32 \<Rightarrow> bool" where
  "behind_kernel st n f \<longleftrightarrow> page_aligned f \<and> 4096 * n \<le> unat f \<and> unat f < 4194304 \<and>
     (\<forall>k. unat k < 4096 \<longrightarrow> maps st (f + k) = Some (f + k))"

lemma behind_kernel_windowed:
  assumes t: "kernel_mapped ks st n t" and st: "real_mode st" "first_table_shared st" "page_directory st \<noteq> 0"
    and f: "behind_kernel st n f"
  shows "windowed t f"
  unfolding windowed_def
proof (intro allI impI)
  fix k :: u32 assume k: "unat k < 4096"
  have low: "unat (f + k) < 4194304" using f k by (intro low_frame_byte) (simp_all add: behind_kernel_def)
  have "unat (f + k) = unat f + unat k" using f k by (intro unat_in_page) (simp_all add: behind_kernel_def)
  then have "kernel_target ks n st (f + k) = Some (f + k)"
    using f k by (simp add: kernel_target_def behind_kernel_def)
  then show "maps t (0xC0000000 + f + k) = Some (f + k)"
    using kernel_mapped_enabled(9) [OF t st low] by (simp add: add.assoc)
qed

section \<open>Properties\<close>

text \<open>
  A machine with 16 virtual pages whose bitmap is at physical address 0x800; paging is off, page 3
  of the kernel's addresses is mapped to the frame at 0x3000, and the last user addresses have a table.
\<close>

definition bitmap_machine :: machine where
  "bitmap_machine = small_machine\<lparr>phys :=
     put32 (put32 (put32 (put32 (\<lambda>_. 0) 0x800 0x0F) 0x1C00 0x2003) 0x200C 0x3003) 0x1BFC 0x3003,
     vmm_bitmap := 0x800, vmm_max_pages := 16\<rparr>"

lemma bitmap_machine_mapped: "bitmap_mapped bitmap_machine"
  by (simp add: bitmap_mapped_def bitmap_machine_def small_machine_def is_page_free_def load8_def
      mmu_translate_def)

lemma bitmap_machine_free:
  "runs (vmm_free_page 0xC0003000 bitmap_machine)
    (\<lambda>st'. phys st' 0x800 = 0x07 \<and> get32 (phys st') 0x200C = 0)"
  by code_simp

text \<open>C26. The end of \<open>vmm_init\<close>: when the two entries of the first table are as \<open>paging_init\<close> leaves
  them, the loop over the kernel's pages and \<open>paging_enable\<close> succeed, and then the processor
  translates an address \<open>v\<close> below 4 MiB, and its alias 3 GiB above, to the kernel's image when \<open>v\<close>
  is less than the size of the kernel in whole pages (also at the lower address, which the shared
  table moves along), otherwise to itself inside the kernel's physical pages, and as before
  elsewhere.\<close>

theorem enter_paging_maps_kernel:
  assumes "page_aligned ks" and "ks \<noteq> 0" and "ks \<le> ke" and "unat ke \<le> 4194304"
    and "tables_ok st" and "real_mode st" and "page_directory st \<noteq> 0"
    and "present (pde_at st 0)" and "present (pde_at st 768)"
    and "frame_of (pde_at st 768) = frame_of (pde_at st 0)"
    and "n = 4096 * ((unat ke - unat ks + 4095) div 4096)"
  shows "runs (enter_paging ks ke st) (\<lambda>st'. tables_ok st' \<and> cr0_pg st' \<and>
    (\<forall>v. unat v < 4194304 \<longrightarrow>
      mmu_translate st' (0xC0000000 + v) = mmu_translate st' v \<and>
      mmu_translate st' v =
        (if unat v < n then Some (ks + v)
         else if unat ks \<le> unat v \<and> unat v < unat ks + n then Some v
         else maps st v)))"
proof -
  have "first_table_shared st" using assms(8-10) by (simp add: first_table_shared_def)
  from enter_paging_ok [OF assms(1-6) this assms(7)] show ?thesis
    unfolding kernel_target_def assms(11) .
qed

theorem enter_paging_maps_kernel_witness:
  "runs (install_first_table 0x1000 0x2000 small_machine) (\<lambda>st.
    runs (enter_paging 0x100000 0x180001 st) (\<lambda>st'. tables_ok st' \<and> cr0_pg st' \<and>
    (\<forall>v. unat v < 4194304 \<longrightarrow>
      mmu_translate st' (0xC0000000 + v) = mmu_translate st' v \<and>
      mmu_translate st' v =
        (if unat v < 0x81000 then Some (0x100000 + v)
         else if unat (0x100000 :: u32) \<le> unat v \<and> unat v < unat (0x100000 :: u32) + 0x81000 then Some v
         else maps st v))))"
proof (rule runs_mono [OF small_boot], elim conjE)
  fix st assume st: "boot_tables 0x2000 st" "page_directory st = 0x1000"
  show "runs (enter_paging 0x100000 0x180001 st) (\<lambda>st'. tables_ok st' \<and> cr0_pg st' \<and>
    (\<forall>v. unat v < 4194304 \<longrightarrow>
      mmu_translate st' (0xC0000000 + v) = mmu_translate st' v \<and>
      mmu_translate st' v =
        (if unat v < 0x81000 then Some (0x100000 + v)
         else if unat (0x100000 :: u32) \<le> unat v \<and> unat v < unat (0x100000 :: u32) + 0x81000 then Some v
         else maps st v)))"
    by (rule enter_paging_maps_kernel)
      (use st in \<open>simp_all add: boot_tables_def page_aligned_def present_def\<close>)
qed

text \<open>From then on the pointers with which the paging code reaches its tables are good, when the directory, the
  tables and the next frames of the PMM lie behind the size of the kernel and below 4 MiB, and were
  mapped to themselves before.\<close>

theorem enter_paging_pointers:
  assumes "page_aligned ks" and "ks \<noteq> 0" and "ks \<le> ke" and "unat ke \<le> 4194304"
    and "tables_ok st" and "real_mode st" and "first_table_shared st" and "page_directory st \<noteq> 0"
    and "n = (unat ke - unat ks + 4095) div 4096" and "behind_kernel st n (pd_phys st)"
    and "\<And>i. unat i < 1024 \<Longrightarrow> present (pde_at st i) \<Longrightarrow> behind_kernel st n (frame_of (pde_at st i))"
    and "\<And>f s. block_taken (frames st) f s \<Longrightarrow> behind_kernel st n f"
  shows "runs (enter_paging ks ke st) (\<lambda>st'. tables_ok st' \<and> cr0_pg st' \<and> pointers_ok st')"
proof (rule runs_mono [OF enter_paging_run [OF assms(1-9)]], elim exE conjE)
  fix st' t assume t: "kernel_mapped ks st n t" and st': "st' = paging_enable (page_directory t) t"
  note k = kernel_mapped_enabled [OF t assms(6-8)]
  have win: "behind_kernel st n f \<Longrightarrow> windowed t f" for f by (rule behind_kernel_windowed [OF t assms(6-8)])
  have "pointers_ok st'"
    unfolding st' by (rule paging_enable_pointers [OF k(1-3)]; rule win) (use assms(10-12) k(4,6,7) in simp_all)
  then show "tables_ok st' \<and> cr0_pg st' \<and> pointers_ok st'"
    using paging_enable_maps(4,10) [OF k(1-3) st'] by simp
qed

theorem enter_paging_pointers_witness:
  "runs (install_first_table 0x1000 0x2000 small_machine) (\<lambda>st.
    runs (enter_paging 0x1000 0x1001 st) (\<lambda>st'. tables_ok st' \<and> cr0_pg st' \<and> pointers_ok st'))"
proof (rule runs_mono [OF small_boot], elim conjE)
  fix st assume st: "boot_tables 0x2000 st" "page_directory st = 0x1000" "frames st = small_pmm"
  have ok: "tables_ok st" "real_mode st" using st(1) by (simp_all add: boot_tables_def)
  have n: "1 = (unat (0x1001 :: u32) - unat (0x1000 :: u32) + 4095) div 4096" by simp
  have behind: "behind_kernel st 1 f" if "page_aligned f" "4096 \<le> unat f" "unat f < 4194304" for f
    using that boot_tables_maps(1) [OF st(1) low_frame_byte [OF that(1,3)]] by (simp add: behind_kernel_def)
  have tab: "frame_of (pde_at st i) = 0x2000" if "unat i < 1024" "present (pde_at st i)" for i
    using st(1) that by (auto simp: boot_tables_def frame_of_def split: if_splits)
  show "runs (enter_paging 0x1000 0x1001 st) (\<lambda>st'. tables_ok st' \<and> cr0_pg st' \<and> pointers_ok st')"
  proof (rule enter_paging_pointers [OF _ _ _ _ ok _ _ n])
    show "first_table_shared st" using st(1) by (simp add: boot_tables_def first_table_shared_def present_def)
    show "behind_kernel st 1 (pd_phys st)" using ok(2) st(2) by (intro behind) (simp_all add: pd_phys_real page_aligned_def)
    show "behind_kernel st 1 (frame_of (pde_at st i))" if "unat i < 1024" "present (pde_at st i)" for i
      by (rule behind) (simp_all add: tab [OF that] page_aligned_def)
    fix f s assume "block_taken (frames st) f s"
    then have f: "block_taken small_pmm f s" using st(3) by simp
    have "unat f div 4096 \<noteq> 0" using block_taken_frame(2) [OF small_pmm_inv f] pmm_used_small by auto
    then show "behind_kernel st 1 f"
      using small_block_low [OF f] block_taken_frame(1) [OF small_pmm_inv f]
      by (intro behind) (simp_all add: div_greater_zero_iff)
  qed (use st in \<open>simp_all add: page_aligned_def\<close>)
qed

text \<open>\<open>find_free_page\<close> returns the lowest free virtual page, and -1 exactly when there is none,
  whenever the bitmap is mapped (with or without paging).\<close>

theorem find_free_page_lowest:
  assumes "bitmap_mapped st"
  shows "runs (find_free_page st) (\<lambda>r.
    if \<exists>n. page_free st n then 0 \<le> sint r \<and> page_free st (unat r) \<and> (\<forall>n<unat r. \<not> page_free st n)
    else r = - 1)"
  using assms by (rule find_free_page_ok)

theorem find_free_page_lowest_witness:
  "runs (find_free_page bitmap_machine) (\<lambda>r.
    if \<exists>n. page_free bitmap_machine n
    then 0 \<le> sint r \<and> page_free bitmap_machine (unat r) \<and> (\<forall>n<unat r. \<not> page_free bitmap_machine n)
    else r = - 1)"
  by (rule find_free_page_lowest [OF bitmap_machine_mapped])

text \<open>\<open>find_contiguous_free_pages\<close> returns the start of the lowest run of free virtual pages of the
  requested length, and -1 exactly when there is none.\<close>

theorem find_contiguous_free_pages_first:
  assumes "bitmap_mapped st" and "0 < unat n" and "unat n \<le> 1048576"
  shows "runs (find_contiguous_free_pages n st) (\<lambda>r.
    if \<exists>i. free_pages_run st i (unat n)
    then 0 \<le> sint r \<and> free_pages_run st (unat r) (unat n) \<and>
      (\<forall>i<unat r. \<not> free_pages_run st i (unat n))
    else r = - 1)"
  using assms by (rule find_contiguous_free_pages_ok)

theorem find_contiguous_free_pages_first_witness:
  "runs (find_contiguous_free_pages 4 bitmap_machine) (\<lambda>r.
    if \<exists>i. free_pages_run bitmap_machine i (unat (4 :: u32))
    then 0 \<le> sint r \<and> free_pages_run bitmap_machine (unat r) (unat (4 :: u32)) \<and>
      (\<forall>i<unat r. \<not> free_pages_run bitmap_machine i (unat (4 :: u32)))
    else r = - 1)"
  by (rule find_contiguous_free_pages_first [OF bitmap_machine_mapped]) simp_all

text \<open>\<open>vmm_free_page\<close> and the heap's \<open>liballoc_free\<close> release virtual pages only: whatever they do,
  the bitmap of physical frames is unchanged, so that every frame taken by \<open>vmm_alloc_page\<close> is lost.\<close>

theorem vmm_free_page_leaks_frames:
  assumes "vmm_free_page addr st = Some st'" and "liballoc_free ptr n st = Some (r, st'')"
  shows "frames st' = frames st \<and> frames st'' = frames st"
  using vmm_free_page_frames [OF assms(1)] assms(2)
  by (auto simp: liballoc_free_def dest: free_pages_frames split: if_splits)

theorem vmm_free_page_leaks_frames_witness:
  "\<exists>st' st''. vmm_free_page 0xC0003000 bitmap_machine = Some st' \<and>
     phys st' 0x800 = 0x07 \<and> get32 (phys st') 0x200C = 0 \<and>
     liballoc_free 0 1 bitmap_machine = Some (-1, st'') \<and>
     frames st' = frames bitmap_machine \<and> frames st'' = frames bitmap_machine"
proof -
  obtain st' where st': "vmm_free_page 0xC0003000 bitmap_machine = Some st'"
      "phys st' 0x800 = 0x07" "get32 (phys st') 0x200C = 0"
    using bitmap_machine_free by (auto simp: runs_iff)
  have "liballoc_free 0 1 bitmap_machine = Some (-1, bitmap_machine)" by (simp add: liballoc_free_def)
  then show ?thesis using vmm_free_page_leaks_frames [OF st'(1)] st' by blast
qed

text \<open>\<open>vmm_alloc_userspace_pages\<close> counts down from \<open>0xBFFFFFFF\<close>, the last user address, and not from
  the end of the user space: the address it returns is the last byte of a page, never page-aligned.\<close>

theorem vmm_alloc_userspace_pages_misaligned:
  assumes "vmm_alloc_userspace_pages pages st = Some (a, st')"
  shows "a = 0 \<or> a AND 0xFFF = 0xFFF"
  using userspace_address [OF assms] and_fff_sub_page by auto

theorem vmm_alloc_userspace_pages_misaligned_witness:
  "\<exists>st'. vmm_alloc_userspace_pages 2 bitmap_machine = Some (0xBFFFDFFF, st') \<and>
     ((0xBFFFDFFF :: u32) = 0 \<or> (0xBFFFDFFF :: u32) AND 0xFFF = 0xFFF)"
proof -
  have "runs (vmm_alloc_userspace_pages 2 bitmap_machine) (\<lambda>(a, _). a = 0xBFFFDFFF)" by code_simp
  then obtain st' where "vmm_alloc_userspace_pages 2 bitmap_machine = Some (0xBFFFDFFF, st')"
    by (auto simp: runs_iff)
  then show ?thesis using vmm_alloc_userspace_pages_misaligned by blast
qed

text \<open>\<open>vmm_map_userspace\<close> never touches the kernel's half: an address from \<open>KERNEL_VMEM_START\<close> up is
  refused with the state unchanged, and below it a mapping in a present table carries the user
  flag into the page table entry.\<close>

theorem vmm_map_userspace_user_only:
  assumes "tables_ok st" and "pointers_ok st" and "present (pde_at st (pd_index va))"
  shows "if KERNEL_VMEM_START \<le> va then vmm_map_userspace va pa fl st = Some (False, st)
    else \<exists>st'. vmm_map_userspace va pa fl st = Some (True, st') \<and>
      get32 (phys st') (frame_of (pde_at st (pd_index va)) + 4 * pt_index va) =
        frame_of pa OR (fl OR PAGE_PRESENT OR PAGE_USER) OR PAGE_PRESENT"
  using map_page_present [OF assms(2,3)] set_pte_entry [OF assms(1,3)]
  by (auto simp: vmm_map_userspace_def)

theorem vmm_map_userspace_user_only_witness:
  "runs (install_first_table 0x1000 0x2000 small_machine) (\<lambda>st.
    if KERNEL_VMEM_START \<le> (0x3000 :: u32) then vmm_map_userspace 0x3000 0x9000 2 st = Some (False, st)
    else \<exists>st'. vmm_map_userspace 0x3000 0x9000 2 st = Some (True, st') \<and>
      get32 (phys st') (frame_of (pde_at st (pd_index 0x3000)) + 4 * pt_index 0x3000) =
        frame_of 0x9000 OR (2 OR PAGE_PRESENT OR PAGE_USER) OR PAGE_PRESENT)"
  by (rule runs_mono [OF small_boot], rule vmm_map_userspace_user_only)
    (auto simp: boot_tables_def pd_index_def present_def intro: pointers_ok_real)

end
