(* ===== verification/Inet.thy ===== *)
theory Inet
  imports CString
begin

text \<open>
  Byte order, the Internet checksum and address parsing: the macros of \<open>include/network.h\<close> and
  \<open>ip_checksum\<close> and \<open>inet_addr\<close> of \<open>src/drivers/net/ipv4.c\<close>.  A packet is a list of bytes; the code reads
  16- and 32-bit fields through pointers on a little-endian machine.
\<close>

section \<open>Byte order\<close>

definition htons :: "u16 \<Rightarrow> u16" where
  "htons x = (drop_bit 8 x AND 0xFF) OR push_bit 8 (x AND 0xFF)"

definition htonl :: "u32 \<Rightarrow> u32" where
  "htonl x = (drop_bit 24 x AND 0xFF) OR (drop_bit 8 x AND 0xFF00) OR (push_bit 8 x AND 0xFF0000)
     OR push_bit 24 x"

abbreviation ntohs :: "u16 \<Rightarrow> u16" where "ntohs \<equiv> htons"
abbreviation ntohl :: "u32 \<Rightarrow> u32" where "ntohl \<equiv> htonl"

text \<open>Native (little-endian) fields of a byte array.\<close>

definition word16 :: "u8 \<Rightarrow> u8 \<Rightarrow> u16" where
  "word16 lo hi = ucast lo OR push_bit 8 (ucast hi)"

definition word32 :: "u8 \<Rightarrow> u8 \<Rightarrow> u8 \<Rightarrow> u8 \<Rightarrow> u32" where
  "word32 a b c d = ucast a OR push_bit 8 (ucast b) OR push_bit 16 (ucast c) OR push_bit 24 (ucast d)"

definition get_u16 :: "u8 list \<Rightarrow> nat \<Rightarrow> u16 option" where
  "get_u16 p i = do { a \<leftarrow> rd p i; b \<leftarrow> rd p (i + 1); Some (word16 a b) }"

definition get_u32 :: "u8 list \<Rightarrow> nat \<Rightarrow> u32 option" where
  "get_u32 p i = do { a \<leftarrow> rd p i; b \<leftarrow> rd p (i + 1); c \<leftarrow> rd p (i + 2); d \<leftarrow> rd p (i + 3);
                      Some (word32 a b c d) }"

definition bytes16 :: "u16 \<Rightarrow> u8 list" where
  "bytes16 x = [ucast x, ucast (drop_bit 8 x)]"

definition bytes32 :: "u32 \<Rightarrow> u8 list" where
  "bytes32 x = [ucast x, ucast (drop_bit 8 x), ucast (drop_bit 16 x), ucast (drop_bit 24 x)]"

section \<open>The Internet checksum\<close>

text \<open>The sum of the 16-bit words of the data; the last odd byte counts as a low byte.\<close>

fun sum16 :: "u8 list \<Rightarrow> u32 \<Rightarrow> u32" where
  "sum16 (a # b # p) acc = sum16 p (acc + ucast (word16 a b))"
| "sum16 [a] acc = acc + ucast a"
| "sum16 [] acc = acc"

text \<open>\<open>sum = (sum >> 16) + (sum & 0xFFFF); sum += (sum >> 16); return (uint16_t)(~sum);\<close>\<close>

definition fold16 :: "u32 \<Rightarrow> u16" where
  "fold16 acc =
     (let s = drop_bit 16 acc + (acc AND 0xFFFF);
          s = s + drop_bit 16 s
      in ucast (NOT s))"

definition ip_checksum :: "u8 list \<Rightarrow> u16 \<Rightarrow> u16 option" where
  "ip_checksum data len =
     (if unat len \<le> length data then Some (fold16 (sum16 (take (unat len) data) 0)) else None)"

section \<open>Parsing a dotted address\<close>

abbreviation (input) INADDR_NONE :: u32 where "INADDR_NONE \<equiv> 0xFFFFFFFF"

text \<open>\<open>value\<close> is an \<open>int\<close>: its overflow is undefined.\<close>

fun inet_addr_loop :: "u8 list \<Rightarrow> u32 \<Rightarrow> int \<Rightarrow> int \<Rightarrow> u32 option" where
  "inet_addr_loop [] result value part = None"
| "inet_addr_loop (c # p) result value part =
     (if c = 0
      then Some (if value > 255 \<or> part \<noteq> 3 then INADDR_NONE
                 else push_bit 8 result OR word_of_int value)
      else if c = 46
      then (if value > 255 then Some INADDR_NONE
            else let part = part + 1 in
              if part > 3 then Some INADDR_NONE
              else inet_addr_loop p (push_bit 8 result OR word_of_int value) 0 part)
      else if 48 \<le> c \<and> c \<le> 57
      then do { v \<leftarrow> chk_int (value * 10 + (uint c - 48)); inet_addr_loop p result v part }
      else Some INADDR_NONE)"

definition inet_addr :: "u8 list \<Rightarrow> u32 option" where
  "inet_addr ip_str = inet_addr_loop ip_str 0 0 0"

section \<open>Byte order: lemmas\<close>

lemma bit_u16_high: "\<not> n < 16 \<Longrightarrow> \<not> bit (w :: u16) n"
  by (auto dest: bit_imp_le_length)

lemma bit_u8_high': "\<not> n < 8 \<Longrightarrow> \<not> bit (w :: u8) n"
  by (auto dest: bit_imp_le_length)

lemma bit_FF_int: "bit (0xFF :: int) n \<longleftrightarrow> n < 8"
proof -
  have "(0xFF :: int) = mask 8" by (simp add: mask_eq_exp_minus_1)
  then have "bit (0xFF :: int) n \<longleftrightarrow> bit (mask 8 :: int) n" by (simp only:)
  then show ?thesis by (simp only: bit_mask_iff) auto
qed

lemma bit_FF00_int: "bit (0xFF00 :: int) n \<longleftrightarrow> 8 \<le> n \<and> n < 16"
proof -
  have "(0xFF00 :: int) = push_bit 8 0xFF" by (simp add: push_bit_eq_mult)
  then have "bit (0xFF00 :: int) n \<longleftrightarrow> bit (push_bit 8 0xFF :: int) n" by (simp only:)
  then show ?thesis by (simp only: bit_push_bit_iff bit_FF_int) auto
qed

lemma ntohs_htons [simp]: "htons (htons x) = x"
proof (rule bit_word_eqI)
  fix n assume "n < LENGTH(16)"
  then consider "n < 8" | "8 \<le> n" "n < 16" by force
  then show "bit (htons (htons x)) n = bit x n"
    by cases (simp_all add: htons_def bit_or_iff bit_and_iff bit_push_bit_iff bit_drop_bit_eq bit_FF_int bit_FF00_int bit_u16_high)
qed

text \<open>\<open>ntohs\<close> of a field read from memory is the big-endian value of its two bytes.\<close>

lemma htons_word16: "htons (word16 a b) = word16 b a"
proof (rule bit_word_eqI)
  fix n assume "n < LENGTH(16)"
  then consider "n < 8" | "8 \<le> n" "n < 16" by force
  then show "bit (htons (word16 a b)) n = bit (word16 b a) n"
    by cases (simp_all add: htons_def word16_def bit_or_iff bit_and_iff bit_push_bit_iff bit_drop_bit_eq
        bit_FF_int bit_FF00_int bit_ucast_iff bit_u8_high')
qed

lemma word16_bytes16: "word16 (ucast x) (ucast (drop_bit 8 x)) = x"
proof (rule bit_word_eqI)
  fix n assume "n < LENGTH(16)"
  then consider "n < 8" | "8 \<le> n" "n < 16" by force
  then show "bit (word16 (ucast x) (ucast (drop_bit 8 x))) n = bit x n"
    by cases (auto simp: word16_def bit_or_iff bit_push_bit_iff bit_drop_bit_eq bit_ucast_iff bit_u8_high')
qed

lemma unat_word16: "unat (word16 a b) = unat a + 256 * unat b"
proof -
  have "word16 a b = ucast a + push_bit 8 (ucast b)"
    unfolding word16_def
    by (rule disjunctive_add [symmetric])
      (auto simp: bit_push_bit_iff bit_ucast_iff dest: bit_imp_le_length)
  also have "\<dots> = ucast a + 256 * ucast b" by (simp add: push_bit_eq_mult)
  finally have *: "word16 a b = ucast a + 256 * ucast b" .
  have "unat (256 * ucast b :: u16) = 256 * unat b"
    using u8_bound [of b] by (subst unat_mult_le) (simp_all add: unsigned_ucast_eq take_bit_nat_eq_self)
  then show ?thesis
    using u8_bound [of a] u8_bound [of b] unfolding *
    by (subst unat_add_le) (simp_all add: unsigned_ucast_eq take_bit_nat_eq_self)
qed

section \<open>One's complement arithmetic\<close>

text \<open>The mathematical sum of the words of a packet.\<close>

fun nsum16 :: "u8 list \<Rightarrow> nat" where
  "nsum16 (a # b # p) = unat (word16 a b) + nsum16 p"
| "nsum16 [a] = unat a"
| "nsum16 [] = 0"

lemma nsum16_bound: "nsum16 p \<le> 65535 * ((length p + 1) div 2)"
proof (induction p rule: nsum16.induct)
  case (1 a b p)
  then show ?case using u16_bound [of "word16 a b"] by simp
next
  case (2 a)
  then show ?case using u8_bound [of a] by simp
qed simp

lemma sum16_eq: "unat acc + nsum16 p < 2 ^ 32 \<Longrightarrow> unat (sum16 p acc) = unat acc + nsum16 p"
proof (induction p acc rule: sum16.induct)
  case (1 a b p acc)
  have u: "unat (ucast (word16 a b) :: u32) = unat (word16 a b)"
    using u16_bound [of "word16 a b"] by (simp add: unsigned_ucast_eq take_bit_nat_eq_self)
  then have "unat (acc + ucast (word16 a b)) = unat acc + unat (word16 a b)"
    using "1.prems" by (subst unat_add_le) simp_all
  then show ?case using 1 by simp
next
  case (2 a acc)
  have "unat (ucast a :: u32) = unat a"
    using u8_bound [of a] by (simp add: unsigned_ucast_eq take_bit_nat_eq_self)
  then show ?case using 2 by (simp add: unat_add_le)
qed simp

definition nfold16 :: "nat \<Rightarrow> nat" where
  "nfold16 s = (let t = s div 65536 + s mod 65536 in (t + t div 65536) mod 65536)"

lemma nfold16_eq: "s < 2 ^ 32 \<Longrightarrow> nfold16 s = (if s = 0 then 0 else (s - 1) mod 65535 + 1)"
proof -
  assume s: "s < 2 ^ 32"
  let ?t = "s div 65536 + s mod 65536"
  have q: "s div 65536 \<le> 65535" using s by simp
  have r: "s mod 65536 \<le> 65535" by simp
  have t: "?t \<le> 131070" using q r by linarith
  have eq: "s = ?t + 65535 * (s div 65536)" using div_mult_mod_eq [of s 65536] by linarith
  show ?thesis
  proof (cases "?t < 65536")
    case True
    then have "nfold16 s = ?t" by (simp add: nfold16_def Let_def)
    moreover have "?t = (if s = 0 then 0 else (s - 1) mod 65535 + 1)"
    proof (cases "s = 0")
      case False
      moreover have "s div 65536 \<le> ?t" by simp
      ultimately have pos: "0 < ?t" using eq by linarith
      then have "s - 1 = (?t - 1) + 65535 * (s div 65536)" using eq by linarith
      then have "(s - 1) mod 65535 = (?t - 1) mod 65535" by (simp only: mod_mult_self2)
      also have "\<dots> = ?t - 1" using True pos by simp
      finally show ?thesis using False pos by simp
    qed simp
    ultimately show ?thesis by simp
  next
    case False
    define u where "u = ?t - 65536"
    have u: "?t = u + 65536" "u \<le> 65534" using False t by (simp_all add: u_def)
    have "nfold16 s = (?t + ?t div 65536) mod 65536" by (simp only: nfold16_def Let_def)
    also have "?t div 65536 = 1" using u(2) unfolding u(1) by simp
    also have "(?t + 1) mod 65536 = (u + 1 + 65536) mod 65536" by (simp only: u(1) ac_simps)
    also have "\<dots> = u + 1" using u(2) by (simp only: mod_add_self2) simp
    finally have n: "nfold16 s = ?t - 65535" using u(1) by simp
    have sq: "s = (u + 65536) + 65535 * (s div 65536)" using eq unfolding u(1) .
    have "x = (u + 65536) + 65535 * q \<Longrightarrow> x - 1 = u + 65535 * (q + 1)" for x q :: nat by simp
    from this [OF sq] have "s - 1 = u + 65535 * (s div 65536 + 1)" .
    then have "(s - 1) mod 65535 = u mod 65535" by (simp only: mod_mult_self2)
    also have "\<dots> = u" using u(2) by simp
    finally have "(s - 1) mod 65535 + 1 = ?t - 65535" using u(1) by linarith
    moreover have "s \<noteq> 0" using False by auto
    ultimately show ?thesis using n by simp
  qed
qed

lemma ucast_not_u16: "(ucast (NOT x) :: u16) = NOT (ucast (x :: u32))"
  by (rule bit_word_eqI) (auto simp: bit_simps)

lemma unat_not_u16: "unat (NOT w) = 65535 - unat (w :: u16)"
proof -
  have "NOT w = - 1 - w" by (simp add: not_eq_complement)
  moreover have "w \<le> - 1" by simp
  ultimately have "unat (NOT w) = unat (- 1 :: u16) - unat w" by (simp add: unat_sub)
  moreover have "unat (- 1 :: u16) = 65535" by (simp only: unsigned_minus_1_eq_mask) (simp add: mask_eq_exp_minus_1)
  ultimately show ?thesis by simp
qed

lemma unat_fold16:
  shows "unat (fold16 acc) = 65535 - nfold16 (unat acc)"
proof -
  have mask: "acc AND 0xFFFF = take_bit 16 acc"
  proof -
    have "(0xFFFF :: u32) = mask 16" by (simp add: mask_eq_exp_minus_1)
    then show ?thesis by (simp only: take_bit_eq_mask)
  qed
  define s where "s = drop_bit 16 acc + (acc AND 0xFFFF)"
  have a: "unat (drop_bit 16 acc) = unat acc div 65536"
    by (simp add: unsigned_drop_bit_eq drop_bit_eq_div)
  have b: "unat (acc AND 0xFFFF) = unat acc mod 65536"
    unfolding mask by (simp add: unsigned_take_bit_eq take_bit_eq_mod)
  have q: "unat acc div 65536 \<le> 65535" using u32_bound [of acc] by simp
  have s: "unat s = unat acc div 65536 + unat acc mod 65536"
    unfolding s_def using q a b by (subst unat_add_le) simp_all
  have le: "unat s \<le> 131070" using s q by (simp add: add_mono_thms_linordered_semiring(1) [of _ 65535 _ 65535, simplified])
  have d: "unat (drop_bit 16 s) = unat s div 65536"
    by (simp add: unsigned_drop_bit_eq drop_bit_eq_div)
  have t: "unat (s + drop_bit 16 s) = unat s + unat s div 65536"
    using le d by (subst unat_add_le) simp_all
  have "unat (fold16 acc) = unat (NOT (ucast (s + drop_bit 16 s) :: u16))"
    by (simp only: fold16_def s_def [symmetric] Let_def ucast_not_u16)
  also have "\<dots> = 65535 - unat (ucast (s + drop_bit 16 s) :: u16)"
    by (rule unat_not_u16)
  also have "unat (ucast (s + drop_bit 16 s) :: u16) = nfold16 (unat acc)"
    using t s by (simp add: unsigned_ucast_eq take_bit_eq_mod nfold16_def Let_def)
  finally show ?thesis .
qed

lemma nsum16_append: "even (length p) \<Longrightarrow> nsum16 (p @ q) = nsum16 p + nsum16 q"
  by (induction p rule: nsum16.induct) simp_all

lemma nsum16_less: "length p \<le> 65535 \<Longrightarrow> nsum16 p < 2 ^ 32"
proof -
  assume "length p \<le> 65535"
  then have "(length p + 1) div 2 \<le> 32768" by simp
  then have "65535 * ((length p + 1) div 2) \<le> 65535 * 32768" by (rule mult_le_mono2)
  then show ?thesis using nsum16_bound [of p] by simp
qed

lemma ip_checksum_eq:
  assumes "length p = unat len"
  shows "ip_checksum p len = Some (fold16 (sum16 p 0))"
    and "unat (fold16 (sum16 p 0)) = 65535 - nfold16 (nsum16 p)"
proof -
  have "nsum16 p < 2 ^ 32" using assms u16_bound [of len] by (intro nsum16_less) simp
  then have "unat (sum16 p 0) = nsum16 p" using sum16_eq [of 0 p] by simp
  then show "unat (fold16 (sum16 p 0)) = 65535 - nfold16 (nsum16 p)" by (simp add: unat_fold16)
qed (use assms in \<open>simp add: ip_checksum_def\<close>)

lemma nfold16_complement:
  assumes "s + 65535 < 2 ^ 32"
  shows "nfold16 (s + (65535 - nfold16 s)) = 65535"
proof (cases "s = 0")
  case True
  then show ?thesis by (simp add: nfold16_def)
next
  case False
  define k where "k = (s - 1) div 65535"
  have f: "nfold16 s = (s - 1) mod 65535 + 1" using assms False by (simp add: nfold16_eq)
  have lt: "(s - 1) mod 65535 < 65535" by simp
  have "s - 1 = 65535 * k + (s - 1) mod 65535" unfolding k_def by simp
  then have "s + (65535 - nfold16 s) = 65535 * k + 65535" using f lt False by linarith
  moreover have "nfold16 (65535 * k + 65535) = 65535"
  proof -
    have "65535 * k + 65535 < 2 ^ 32" using \<open>s + (65535 - nfold16 s) = 65535 * k + 65535\<close> assms by linarith
    moreover have "(65535 * k + 65535 - 1) mod 65535 = 65534"
    proof -
      have "65535 * k + 65535 - 1 = 65534 + 65535 * k" by simp
      then have "(65535 * k + 65535 - 1) mod 65535 = 65534 mod 65535" by (simp only: mod_mult_self2)
      then show ?thesis by simp
    qed
    ultimately show ?thesis by (subst nfold16_eq) simp_all
  qed
  ultimately show ?thesis by simp
qed

text \<open>Filling in the checksum field makes the checksum of the whole packet zero.\<close>

lemma nsum16_less': "length p \<le> 131000 \<Longrightarrow> nsum16 p + 65535 < 2 ^ 32"
proof -
  assume "length p \<le> 131000"
  then have "(length p + 1) div 2 \<le> 65500" by simp
  then have "65535 * ((length p + 1) div 2) \<le> 65535 * 65500" by (rule mult_le_mono2)
  then show ?thesis using nsum16_bound [of p] by simp
qed

lemma checksum_verifies:
  assumes ev: "even (length pre)" and len: "length pre + length post \<le> 130000"
  shows "fold16 (sum16 (pre @ bytes16 (fold16 (sum16 (pre @ [0, 0] @ post) 0)) @ post) 0) = 0"
proof -
  let ?c = "fold16 (sum16 (pre @ [0, 0] @ post) 0)" and ?S = "nsum16 pre + nsum16 post"
  have s1: "nsum16 (pre @ [0, 0] @ post) = ?S"
    using ev by (simp add: nsum16_append word16_def)
  have s2: "nsum16 (pre @ bytes16 ?c @ post) = ?S + unat ?c"
    using ev by (simp add: nsum16_append bytes16_def word16_bytes16)
  have bnd: "?S + 65535 < 2 ^ 32"
    using nsum16_less' [of "pre @ post"] ev len by (simp add: nsum16_append)
  have b1: "nsum16 (pre @ [0, 0] @ post) + 65535 < 2 ^ 32" by (rule nsum16_less') (use len in simp)
  have b2: "nsum16 (pre @ bytes16 ?c @ post) + 65535 < 2 ^ 32"
    by (rule nsum16_less') (use len in \<open>simp add: bytes16_def\<close>)
  have u1: "unat (sum16 (pre @ [0, 0] @ post) 0) = ?S"
    using sum16_eq [of 0 "pre @ [0, 0] @ post"] b1 s1 by simp
  have c: "unat ?c = 65535 - nfold16 ?S" by (simp only: unat_fold16 u1)
  have u2: "unat (sum16 (pre @ bytes16 ?c @ post) 0) = ?S + unat ?c"
    using sum16_eq [of 0 "pre @ bytes16 ?c @ post"] b2 s2 by simp
  have "unat (fold16 (sum16 (pre @ bytes16 ?c @ post) 0)) = 65535 - nfold16 (?S + unat ?c)"
    by (simp only: unat_fold16 u2)
  also have "\<dots> = 0" using nfold16_complement [OF bnd] by (simp only: c diff_self_eq_0)
  finally show ?thesis by (simp add: unat_eq_iff)
qed

lemma ip_checksum_verifies_lemma:
  assumes len: "length pre + 2 + length post = unat len" and ev: "even (length pre)"
    and c: "ip_checksum (pre @ [0, 0] @ post) len = Some c"
  shows "ip_checksum (pre @ bytes16 c @ post) len = Some 0"
proof -
  have l1: "length (pre @ [0, 0] @ post) = unat len" and l2: "length (pre @ bytes16 c @ post) = unat len"
    using len by (simp_all add: bytes16_def)
  have "c = fold16 (sum16 (pre @ [0, 0] @ post) 0)"
    using c ip_checksum_eq(1) [OF l1] by (simp only: option.inject)
  moreover have "length pre + length post \<le> 130000" using len u16_bound [of len] by simp
  ultimately show ?thesis
    using checksum_verifies [OF ev, of post] ip_checksum_eq(1) [OF l2] by simp
qed

section \<open>Addresses\<close>

definition is_digits :: "u8 list \<Rightarrow> bool" where
  "is_digits d \<longleftrightarrow> (\<forall>c\<in>set d. 48 \<le> c \<and> c \<le> 57)"

definition dec_from :: "int \<Rightarrow> u8 list \<Rightarrow> int" where
  "dec_from v d = foldl (\<lambda>v c. v * 10 + (uint c - 48)) v d"

lemma dec_from_simps [simp]:
  "dec_from v [] = v" "dec_from v (c # d) = dec_from (v * 10 + (uint c - 48)) d"
  by (simp_all add: dec_from_def)

lemma dec_from_ge: "is_digits d \<Longrightarrow> 0 \<le> v \<Longrightarrow> v \<le> dec_from v d"
proof (induction d arbitrary: v)
  case (Cons c d)
  have c: "48 \<le> uint c" using Cons.prems(1) by (simp add: is_digits_def word_le_def)
  then have "v * 10 + (uint c - 48) \<le> dec_from (v * 10 + (uint c - 48)) d"
    using Cons by (intro Cons.IH) (simp_all add: is_digits_def)
  then show ?case using c Cons.prems(2) by simp
qed simp

lemma inet_addr_digits:
  "is_digits d \<Longrightarrow> 0 \<le> v \<Longrightarrow> dec_from v d < 2 ^ 31 \<Longrightarrow>
    inet_addr_loop (d @ rest) r v part = inet_addr_loop rest r (dec_from v d) part"
proof (induction d arbitrary: v)
  case (Cons c d)
  let ?v = "v * 10 + (uint c - 48)"
  have c: "48 \<le> uint c" "48 \<le> c" "c \<le> 57" using Cons.prems(1) by (simp_all add: is_digits_def word_le_def)
  then have "c \<noteq> 0" "c \<noteq> 46" by auto
  moreover have d: "is_digits d" using Cons.prems(1) by (simp add: is_digits_def)
  have v: "0 \<le> ?v" using c Cons.prems(2) by simp
  moreover have "?v < 2 ^ 31" using dec_from_ge [OF d v] Cons.prems(3) by simp
  then have "chk_int ?v = Some ?v" using v by (simp add: chk_int_def int_ok_def)
  ultimately show ?case using c Cons.IH [OF d v] Cons.prems(3) by simp
qed simp

lemma push_or_byte:
  assumes "0 \<le> v" and "v < 256" and "0 \<le> r" and "r < 16777216"
  shows "push_bit 8 (word_of_int r) OR word_of_int v = (word_of_int (r * 256 + v) :: u32)"
proof -
  have "push_bit 8 (word_of_int r) OR word_of_int v = push_bit 8 (word_of_int r) + (word_of_int v :: u32)"
  proof (rule disjunctive_add [symmetric])
    fix n
    have "\<not> bit v n" if "\<not> n < 8"
    proof -
      have "take_bit 8 v = v" using assms by (simp add: take_bit_int_eq_self)
      then show ?thesis using that by (metis bit_take_bit_iff)
    qed
    then show "\<not> bit (push_bit 8 (word_of_int r) :: u32) n \<or> \<not> bit (word_of_int v :: u32) n"
      by (auto simp: bit_push_bit_iff bit_word_of_int_iff)
  qed
  then show ?thesis by (simp add: push_bit_eq_mult mult.commute)
qed

lemma inet_addr_part:
  assumes "is_digits d" and "dec_from 0 d < 256" and "0 \<le> part" and "part < 3"
  shows "inet_addr_loop (d @ 46 # rest) r 0 part =
    inet_addr_loop rest (push_bit 8 r OR word_of_int (dec_from 0 d)) 0 (part + 1)"
  using assms by (simp add: inet_addr_digits)

lemma inet_addr_last:
  assumes "is_digits d" and "dec_from 0 d < 256"
  shows "inet_addr_loop (d @ 0 # rest) r 0 3 = Some (push_bit 8 r OR word_of_int (dec_from 0 d))"
  using assms by (simp add: inet_addr_digits)

lemma inet_addr_dotted_lemma:
  assumes "is_digits a" "is_digits b" "is_digits c" "is_digits d"
    and "dec_from 0 a < 256" "dec_from 0 b < 256" "dec_from 0 c < 256" "dec_from 0 d < 256"
  shows "inet_addr (a @ 46 # b @ 46 # c @ 46 # d @ 0 # rest) =
    Some (word_of_int (((dec_from 0 a * 256 + dec_from 0 b) * 256 + dec_from 0 c) * 256 + dec_from 0 d))"
proof -
  have pos: "0 \<le> dec_from 0 a" "0 \<le> dec_from 0 b" "0 \<le> dec_from 0 c" "0 \<le> dec_from 0 d"
    using assms(1-4) by (simp_all add: dec_from_ge)
  let ?ab = "dec_from 0 a * 256 + dec_from 0 b"
  let ?abc = "?ab * 256 + dec_from 0 c"
  have ab: "?ab < 65536" "0 \<le> ?ab" using assms(5,6) pos by simp_all
  have abc: "?abc < 16777216" "0 \<le> ?abc" using assms(7) pos ab by simp_all
  have acc: "push_bit 8 (word_of_int 0) OR word_of_int (dec_from 0 a) = (word_of_int (0 * 256 + dec_from 0 a) :: u32)"
    "push_bit 8 (word_of_int (dec_from 0 a)) OR word_of_int (dec_from 0 b) = (word_of_int ?ab :: u32)"
    "push_bit 8 (word_of_int ?ab) OR word_of_int (dec_from 0 c) = (word_of_int ?abc :: u32)"
    "push_bit 8 (word_of_int ?abc) OR word_of_int (dec_from 0 d) = (word_of_int (?abc * 256 + dec_from 0 d) :: u32)"
    by (rule push_or_byte; use assms(5-8) pos ab abc in simp)+
  have "inet_addr_loop (a @ 46 # b @ 46 # c @ 46 # d @ 0 # rest) (word_of_int 0) 0 0 =
    inet_addr_loop (b @ 46 # c @ 46 # d @ 0 # rest) (word_of_int (dec_from 0 a)) 0 1"
    using inet_addr_part [OF assms(1,5), of 0] acc(1) by simp
  also have "\<dots> = inet_addr_loop (c @ 46 # d @ 0 # rest) (word_of_int ?ab) 0 2"
    using inet_addr_part [OF assms(2,6), of 1] by (simp only: acc(2)) simp
  also have "\<dots> = inet_addr_loop (d @ 0 # rest) (word_of_int ?abc) 0 3"
    using inet_addr_part [OF assms(3,7), of 2] by (simp only: acc(3)) simp
  also have "\<dots> = Some (word_of_int (?abc * 256 + dec_from 0 d))"
    by (simp only: inet_addr_last [OF assms(4,8)] acc(4))
  finally show ?thesis by (simp add: inet_addr_def)
qed

section \<open>Properties\<close>

text \<open>C27. The Internet checksum verifies: when \<open>ip_checksum\<close> is computed over a packet whose checksum
  field (at an even offset) is zero and stored there, the checksum of the resulting packet is zero,
  which is the receiver's test; for every packet length and content.\<close>

theorem ip_checksum_verifies:
  assumes "length pre + 2 + length post = unat len" and "even (length pre)"
    and "ip_checksum (pre @ [0, 0] @ post) len = Some c"
  shows "ip_checksum (pre @ bytes16 c @ post) len = Some 0"
  using assms by (rule ip_checksum_verifies_lemma)

text \<open>The header of the reply to a ping.\<close>

theorem ip_checksum_verifies_witness:
  "ip_checksum ([0x45, 0, 0, 84, 0, 1, 0, 0, 64, 1] @ bytes16 0x9862 @ [10, 0, 2, 15, 10, 0, 2, 2]) 20 = Some 0"
proof (rule ip_checksum_verifies)
  show "ip_checksum ([0x45, 0, 0, 84, 0, 1, 0, 0, 64, 1] @ [0, 0] @ [10, 0, 2, 15, 10, 0, 2, 2]) 20 =
    Some 0x9862" by code_simp
qed simp_all

text \<open>\<open>inet_addr\<close> reads four decimal numbers below 256 separated by dots as the address whose bytes
  they are, most significant first (the numbers may have leading zeros, or no digits at all).\<close>

theorem inet_addr_dotted:
  assumes "is_digits a" "is_digits b" "is_digits c" "is_digits d"
    and "dec_from 0 a < 256" "dec_from 0 b < 256" "dec_from 0 c < 256" "dec_from 0 d < 256"
  shows "inet_addr (a @ 46 # b @ 46 # c @ 46 # d @ 0 # rest) =
    Some (word_of_int (((dec_from 0 a * 256 + dec_from 0 b) * 256 + dec_from 0 c) * 256 + dec_from 0 d))"
  using assms by (rule inet_addr_dotted_lemma)

theorem inet_addr_dotted_witness:
  "inet_addr [49, 48, 46, 48, 46, 50, 46, 49, 53, 0] = Some 0x0A00020F"
proof -
  have "inet_addr ([49, 48] @ 46 # [48] @ 46 # [50] @ 46 # [49, 53] @ 0 # []) =
    Some (word_of_int (((dec_from 0 [49, 48] * 256 + dec_from 0 [48]) * 256 + dec_from 0 [50]) * 256
      + dec_from 0 [49, 53]))"
    by (rule inet_addr_dotted) (simp_all add: is_digits_def)
  then show ?thesis by simp
qed
end
