(* ===== verification/Net.thy ===== *)
theory Net
  imports Inet
begin

text \<open>
  The lower layers of the network stack: \<open>src/drivers/net/eth.c\<close>, \<open>arp.c\<close>, \<open>ipv4.c\<close> and
  \<open>icmp.c\<close>.  The state is the NIC's configuration, the ARP cache, the queue of packets waiting
  for an address and the counters; the driver's send function appends a frame to \<open>wire\<close>.  A
  packet is a list of bytes; a copy beyond a buffer is undefined (\<open>None\<close>).  The log lines are left out.
\<close>

section \<open>State\<close>

record arp_entry =
  ae_ip :: u32
  ae_mac :: "u8 list"
  ae_timestamp :: u32

record pending_packet =
  pp_dst_ip :: u32
  pp_protocol :: u8
  pp_payload :: "u8 list"
  pp_payload_len :: u16
  pp_timestamp :: u32

text \<open>
  \<open>eth_send_packet_func\<close> says whether a driver is installed, \<open>eth_get_mac_func\<close> what the driver's
  function answers (\<open>None\<close> for \<open>NULL\<close>).  \<open>pending_queue\<close> holds the first \<open>pending_count\<close> entries of the
  array.  \<open>ticks\<close> is the value of \<open>get_ticks()\<close>.  The heap is a parameter of the state: the \<open>n\<close>-th call
  of \<open>malloc\<close> succeeds when \<open>malloc_ok n\<close>.
\<close>

record net =
  nic_mac :: "u8 list"
  nic_ip_addr :: u32
  nic_netmask :: u32
  nic_gateway_ip :: u32
  ticks :: u32
  eth_send_packet_func :: bool
  eth_get_mac_func :: "u8 list option"
  wire :: "u8 list list"
  arp_cache_entries :: "arp_entry list"
  pending_queue :: "pending_packet list"
  packet_id :: u16
  prev_id :: u32
  icmp_next_seq :: u16
  icmp_next_id :: u16
  malloc_ok :: "nat \<Rightarrow> bool"
  malloc_calls :: nat

abbreviation (input) ARP_CACHE_SIZE :: nat where "ARP_CACHE_SIZE \<equiv> 32"
abbreviation (input) ARP_CACHE_TIMEOUT :: u32 where "ARP_CACHE_TIMEOUT \<equiv> 30000"
abbreviation (input) MAX_PENDING_PACKETS :: nat where "MAX_PENDING_PACKETS \<equiv> 5"
abbreviation (input) ETHERTYPE_ARP :: u16 where "ETHERTYPE_ARP \<equiv> 0x0806"
abbreviation (input) ETHERTYPE_IP :: u16 where "ETHERTYPE_IP \<equiv> 0x0800"
abbreviation (input) IP_PROTO_ICMP :: u8 where "IP_PROTO_ICMP \<equiv> 1"
abbreviation (input) IP_PROTO_TCP :: u8 where "IP_PROTO_TCP \<equiv> 6"

definition malloc :: "'a net_scheme \<Rightarrow> bool \<times> 'a net_scheme" where
  "malloc st = (malloc_ok st (malloc_calls st), st\<lparr>malloc_calls := malloc_calls st + 1\<rparr>)"

text \<open>\<open>memcpy(buf + i, data, n)\<close>.\<close>

definition blit :: "u8 list \<Rightarrow> nat \<Rightarrow> u8 list \<Rightarrow> nat \<Rightarrow> u8 list option" where
  "blit buf i data n =
     (if n \<le> length data \<and> i + n \<le> length buf
      then Some (take i buf @ take n data @ drop (i + n) buf) else None)"

section \<open>Ethernet\<close>

definition eth_send_frame ::
  "u8 list \<Rightarrow> u16 \<Rightarrow> u8 list \<Rightarrow> u16 \<Rightarrow> 'a net_scheme \<Rightarrow> 'a net_scheme option" where
  "eth_send_frame dest_mac ethertype data len st =
     (if \<not> eth_send_packet_func st then Some st
      else do {
        let total_len = 14 + len;
        let total_len = (if total_len < 60 then 60 else total_len);
        let frame = replicate 1518 0;
        frame \<leftarrow> blit frame 0 dest_mac 6;
        frame \<leftarrow> blit frame 6 (case eth_get_mac_func st of Some mac \<Rightarrow> mac | None \<Rightarrow> nic_mac st) 6;
        frame \<leftarrow> blit frame 12 (bytes16 (htons ethertype)) 2;
        frame \<leftarrow> blit frame 14 data (unat len);
        if unat total_len \<le> 1518
        then Some (st\<lparr>wire := wire st @ [take (unat total_len) frame]\<rparr>)
        else None })"

section \<open>ARP\<close>

definition is_local_ip :: "u32 \<Rightarrow> 'a net_scheme \<Rightarrow> bool" where
  "is_local_ip ip st \<longleftrightarrow> nic_ip_addr st AND nic_netmask st = ip AND nic_netmask st"

definition arp_fresh :: "u32 \<Rightarrow> 'a net_scheme \<Rightarrow> arp_entry \<Rightarrow> bool" where
  "arp_fresh ip st e \<longleftrightarrow> ae_ip e = ip \<and> ticks st - ae_timestamp e < ARP_CACHE_TIMEOUT"

definition arp_cache_contains :: "u32 \<Rightarrow> 'a net_scheme \<Rightarrow> bool" where
  "arp_cache_contains ip st = list_ex (arp_fresh ip st) (arp_cache_entries st)"

definition create_arp_packet :: "u8 list \<Rightarrow> u32 \<Rightarrow> u32 \<Rightarrow> u8 list" where
  "create_arp_packet src_mac src_ip target_ip =
     replicate 6 0xFF @ src_mac @ [0x08, 0x06] @
     [0x00, 0x01, 0x08, 0x00, 6, 4, 0x00, 0x01] @ src_mac @ bytes32 (htonl src_ip) @
     replicate 6 0x00 @ bytes32 (htonl target_ip)"

definition rtl8139_send_arp_request :: "u32 \<Rightarrow> u32 \<Rightarrow> 'a net_scheme \<Rightarrow> 'a net_scheme" where
  "rtl8139_send_arp_request src_ip target_ip st =
     (if \<not> eth_send_packet_func st then st
      else let p = create_arp_packet (nic_mac st) src_ip target_ip
           in st\<lparr>wire := wire st @ [p @ replicate (60 - length p) 0]\<rparr>)"

definition arp_lookup :: "u32 \<Rightarrow> 'a net_scheme \<Rightarrow> u8 list option \<times> 'a net_scheme" where
  "arp_lookup ip st =
     (let target_ip = (if \<not> is_local_ip ip st then nic_gateway_ip st else ip) in
      case find (arp_fresh target_ip st) (arp_cache_entries st) of
        Some e \<Rightarrow> (Some (ae_mac e), st)
      | None \<Rightarrow>
          (None, if target_ip = nic_gateway_ip st \<and> \<not> arp_cache_contains (nic_gateway_ip st) st
                 then rtl8139_send_arp_request (nic_ip_addr st) (nic_gateway_ip st) st else st))"

fun arp_store :: "u32 \<Rightarrow> u8 list \<Rightarrow> u32 \<Rightarrow> arp_entry list \<Rightarrow> arp_entry list" where
  "arp_store ip mac now (e # es) =
     (if ae_ip e = ip \<or> ae_ip e = 0 then e\<lparr>ae_ip := ip, ae_mac := mac, ae_timestamp := now\<rparr> # es
      else e # arp_store ip mac now es)"
| "arp_store ip mac now [] = []"

definition arp_cache_update :: "u32 \<Rightarrow> u8 list \<Rightarrow> 'a net_scheme \<Rightarrow> 'a net_scheme" where
  "arp_cache_update ip mac st = st\<lparr>arp_cache_entries := arp_store ip mac (ticks st) (arp_cache_entries st)\<rparr>"

definition queue_packet :: "u32 \<Rightarrow> u8 \<Rightarrow> u8 list \<Rightarrow> u16 \<Rightarrow> 'a net_scheme \<Rightarrow> 'a net_scheme option" where
  "queue_packet dst_ip protocol payload payload_len st =
     (if length (pending_queue st) \<ge> MAX_PENDING_PACKETS then Some st
      else case malloc st of (ok, st) \<Rightarrow>
        if \<not> ok then Some st
        else if unat payload_len \<le> length payload
        then Some (st\<lparr>pending_queue := pending_queue st @
               [\<lparr>pp_dst_ip = dst_ip, pp_protocol = protocol, pp_payload = take (unat payload_len) payload,
                 pp_payload_len = payload_len, pp_timestamp = ticks st\<rparr>]\<rparr>)
        else None)"

section \<open>IPv4\<close>

definition ipv4_header :: "u16 \<Rightarrow> u16 \<Rightarrow> u8 \<Rightarrow> u32 \<Rightarrow> u32 \<Rightarrow> u16 \<Rightarrow> u8 list" where
  "ipv4_header total_len ident protocol src_ip dst_ip csum =
     [0x45, 0] @ bytes16 (htons total_len) @ bytes16 (htons ident) @ bytes16 0 @ [64, protocol] @
     bytes16 csum @ bytes32 (htonl src_ip) @ bytes32 (htonl dst_ip)"

text \<open>
  The packet is built in a static buffer of 1518 bytes; what is sent are its first \<open>total_len\<close> bytes.
  \<open>total_len\<close> is 16 bits wide.
\<close>

definition net_send_ipv4_packet ::
  "u32 \<Rightarrow> u8 \<Rightarrow> u8 list \<Rightarrow> u16 \<Rightarrow> 'a net_scheme \<Rightarrow> 'a net_scheme option" where
  "net_send_ipv4_packet dst_ip protocol payload payload_len st =
     (let total_len = 20 + payload_len in
      if total_len > 1518 then Some st
      else let next_hop = (if dst_ip AND nic_netmask st = nic_ip_addr st AND nic_netmask st
                           then dst_ip else nic_gateway_ip st)
      in case arp_lookup next_hop st of
        (None, st) \<Rightarrow>
          do { st \<leftarrow> queue_packet dst_ip protocol payload payload_len st;
               Some (rtl8139_send_arp_request (nic_ip_addr st) next_hop st) }
      | (Some dst_mac, st) \<Rightarrow>
          do { let hdr = ipv4_header total_len (packet_id st) protocol (nic_ip_addr st) dst_ip;
               csum \<leftarrow> ip_checksum (hdr 0) 20;
               let st = st\<lparr>packet_id := packet_id st + 1\<rparr>;
               buf \<leftarrow> blit (hdr csum @ replicate 1498 0) 20 payload (unat payload_len);
               eth_send_frame dst_mac ETHERTYPE_IP buf total_len st })"

text \<open>
  \<open>retry_pending_packets\<close>: a packet whose address is known is sent and replaced by the last one;
  each turn moves on or drops a packet, so that as many turns as packets suffice.
\<close>

fun retry_pending :: "nat \<Rightarrow> nat \<Rightarrow> 'a net_scheme \<Rightarrow> 'a net_scheme option" where
  "retry_pending fuel i st =
     (if i \<ge> length (pending_queue st) then Some st
      else case fuel of
        0 \<Rightarrow> None
      | Suc fuel \<Rightarrow>
          let pkt = pending_queue st ! i in
          (case arp_lookup (pp_dst_ip pkt) st of
             (None, st) \<Rightarrow> retry_pending fuel (i + 1) st
           | (Some dst_mac, st) \<Rightarrow>
               do { st \<leftarrow> net_send_ipv4_packet (pp_dst_ip pkt) (pp_protocol pkt) (pp_payload pkt) (pp_payload_len pkt) st;
                    let q = pending_queue st;
                    let q = butlast (q[i := last q]);
                    retry_pending fuel i (st\<lparr>pending_queue := q\<rparr>) }))"

definition retry_pending_packets :: "'a net_scheme \<Rightarrow> 'a net_scheme option" where
  "retry_pending_packets st = retry_pending (length (pending_queue st)) 0 st"

section \<open>ICMP\<close>

text \<open>
  \<open>src_ip\<close> is the field of the IP header as it is in memory (network byte order).  The handler clears
  the checksum field of the packet for the test and restores it, so that the packet is unchanged.
\<close>

definition icmp_reply :: "u8 list \<Rightarrow> u16 \<Rightarrow> u8 list option" where
  "icmp_reply payload len =
     do { response \<leftarrow> blit (replicate 1518 0) 0 payload (unat len);
          response \<leftarrow> blit response 0 [0, 0, 0, 0] 4;
          csum \<leftarrow> ip_checksum response len;
          blit response 2 (bytes16 csum) 2 }"

definition icmp_handle_packet :: "u32 \<Rightarrow> u8 list \<Rightarrow> u16 \<Rightarrow> 'a net_scheme \<Rightarrow> 'a net_scheme option" where
  "icmp_handle_packet src_ip payload len st =
     (if len < 8 then Some st
      else do {
        ident \<leftarrow> get_u16 payload 4;
        if prev_id st \<ge> ucast (ntohs ident) then Some st
        else do {
          saved_checksum \<leftarrow> get_u16 payload 2;
          cleared \<leftarrow> blit payload 2 [0, 0] 2;
          calc_checksum \<leftarrow> ip_checksum cleared len;
          if saved_checksum \<noteq> calc_checksum then Some st
          else do {
            type \<leftarrow> rd payload 0;
            if type = 8
            then do {
              let len = (if len > 1498 then 1498 else len);
              response \<leftarrow> icmp_reply payload len;
              net_send_ipv4_packet (ntohl src_ip) IP_PROTO_ICMP response len st }
            else if type = 0 then Some (st\<lparr>prev_id := ucast (ntohs ident)\<rparr>)
            else Some st } } })"

definition echo_request :: "u16 \<Rightarrow> u16 \<Rightarrow> u32 \<Rightarrow> u8 list" where
  "echo_request ident sq now =
     [8, 0, 0, 0] @ bytes16 (htons ident) @ bytes16 (htons sq) @ bytes32 (htonl now) @
     map (\<lambda>i. of_nat (65 + i mod 26)) [12..<64]"

definition icmp_send_echo_request :: "u32 \<Rightarrow> 'a net_scheme \<Rightarrow> 'a net_scheme option" where
  "icmp_send_echo_request dst_ip st =
     do { let packet = echo_request (icmp_next_id st) (icmp_next_seq st) (ticks st);
          let st = st\<lparr>icmp_next_id := icmp_next_id st + 1, icmp_next_seq := icmp_next_seq st + 1\<rparr>;
          csum \<leftarrow> ip_checksum packet 64;
          packet \<leftarrow> blit packet 2 (bytes16 csum) 2;
          (case arp_lookup dst_ip st of
             (None, st) \<Rightarrow>
               do { st \<leftarrow> queue_packet dst_ip IP_PROTO_ICMP packet 64 st;
                    Some (rtl8139_send_arp_request (nic_ip_addr st) dst_ip st) }
           | (Some _, st) \<Rightarrow> net_send_ipv4_packet dst_ip IP_PROTO_ICMP packet 64 st) }"

section \<open>The ARP cache\<close>

lemma arp_store_length [simp]: "length (arp_store ip mac now es) = length es"
  by (induction es) simp_all

text \<open>There is a slot for \<open>ip\<close>: its own entry or an empty one.\<close>

definition arp_slot :: "u32 \<Rightarrow> arp_entry list \<Rightarrow> bool" where
  "arp_slot ip es \<longleftrightarrow> (\<exists>e\<in>set es. ae_ip e = ip \<or> ae_ip e = 0)"

lemma arp_store_no_slot: "\<not> arp_slot ip es \<Longrightarrow> arp_store ip mac now es = es"
  by (induction es) (auto simp: arp_slot_def)

lemma find_arp_store_same:
  "arp_slot ip es \<Longrightarrow> ticks st = now \<Longrightarrow>
    \<exists>e. find (arp_fresh ip st) (arp_store ip mac now es) = Some e \<and> ae_mac e = mac"
proof (induction es)
  case (Cons e es)
  show ?case
  proof (cases "ae_ip e = ip \<or> ae_ip e = 0")
    case True
    then show ?thesis using Cons.prems by (simp add: arp_fresh_def)
  next
    case False
    then have "arp_slot ip es" using Cons.prems(1) by (auto simp: arp_slot_def)
    then show ?thesis using False Cons by (simp add: arp_fresh_def)
  qed
qed (simp add: arp_slot_def)

lemma find_arp_store_other:
  assumes "ip' \<noteq> ip" and "ip' \<noteq> 0"
  shows "find (arp_fresh ip' st) (arp_store ip mac now es) = find (arp_fresh ip' st) es"
  using assms by (induction es) (auto simp: arp_fresh_def)

lemma arp_fresh_update [simp]: "arp_fresh ip (st\<lparr>arp_cache_entries := es\<rparr>) = arp_fresh ip st"
  by (simp add: arp_fresh_def fun_eq_iff)

section \<open>Sending\<close>

lemma unat_u16_add:
  "unat a + unat b < 65536 \<Longrightarrow> unat (a + b) = unat a + unat b" for a b :: u16
  by (rule unat_add_le) simp

lemma blit_0: "n \<le> length data \<Longrightarrow> n \<le> length buf \<Longrightarrow> blit buf 0 data n = Some (take n data @ drop n buf)"
  by (simp add: blit_def)

text \<open>The frame the driver gets: header, data and zeros up to the minimal length.\<close>

definition eth_frame :: "u8 list \<Rightarrow> u8 list \<Rightarrow> u16 \<Rightarrow> u8 list \<Rightarrow> u8 list" where
  "eth_frame dest src ethertype data =
     (let f = dest @ src @ bytes16 (htons ethertype) @ data in f @ replicate (60 - length f) 0)"

definition src_mac :: "'a net_scheme \<Rightarrow> u8 list" where
  "src_mac st = (case eth_get_mac_func st of Some mac \<Rightarrow> mac | None \<Rightarrow> nic_mac st)"

lemma src_mac_packet_id [simp]: "src_mac (st\<lparr>packet_id := x\<rparr>) = src_mac st"
  by (simp add: src_mac_def cong: option.case_cong)

lemma eth_send_frame_ok:
  assumes drv: "eth_send_packet_func st" and macs: "length dest = 6" "length (src_mac st) = 6"
    and len: "unat len \<le> length data" "unat len \<le> 1504"
  shows "eth_send_frame dest et data len st =
    Some (st\<lparr>wire := wire st @ [eth_frame dest (src_mac st) et (take (unat len) data)]\<rparr>)"
proof -
  let ?d = "take (unat len) data" and ?h = "dest @ src_mac st @ bytes16 (htons et)"
  have total: "unat (14 + len) = 14 + unat len"
    using len(2) by (subst unat_add_le) simp_all
  let ?t = "if 14 + len < 60 then 60 else 14 + len :: u16"
  have t: "unat ?t = max 60 (14 + unat len)" using total by (auto simp: word_less_nat_alt)
  have h: "length ?h = 14" using macs by (simp add: bytes16_def)
  have b1: "blit (replicate 1518 0) 0 dest 6 = Some (dest @ replicate 1512 0)"
    using macs(1) by (simp add: blit_def)
  have b2: "blit (dest @ replicate 1512 0) 6 (src_mac st) 6 = Some (dest @ src_mac st @ replicate 1506 0)"
    using macs by (simp add: blit_def)
  have b3: "blit (dest @ src_mac st @ replicate 1506 0) 12 (bytes16 (htons et)) 2 = Some (?h @ replicate 1504 0)"
    using macs by (simp add: blit_def bytes16_def)
  have b4: "blit (?h @ replicate 1504 0) 14 data (unat len) = Some (?h @ ?d @ replicate (1504 - unat len) 0)"
    using h len by (simp add: blit_def)
  have fr: "take (unat ?t) (?h @ ?d @ replicate (1504 - unat len) 0) = eth_frame dest (src_mac st) et ?d"
  proof (cases "14 + unat len < 60")
    case True
    then show ?thesis using h len t macs
      by (simp add: eth_frame_def Let_def bytes16_def min_def)
  next
    case False
    then show ?thesis using h len t macs
      by (simp add: eth_frame_def Let_def bytes16_def)
  qed
  have "unat ?t \<le> 1518" using t len(2) by simp
  then show ?thesis
    using drv b1 b2 b3 b4 fr unfolding eth_send_frame_def src_mac_def [symmetric] Let_def by simp
qed

text \<open>Data of more than 1504 bytes overruns the frame buffer.\<close>

lemma eth_send_frame_overrun:
  assumes "eth_send_packet_func st" and "unat len > 1504"
  shows "eth_send_frame dest et data len st = None"
proof -
  have "blit frame 14 data (unat len) = None" if "length frame = 1518" for frame
    using that assms(2) by (simp add: blit_def)
  moreover have "length frame' = length frame" if "blit frame i d n = Some frame'" for frame frame' i d n
    using that by (auto simp: blit_def split: if_splits)
  ultimately show ?thesis using assms(1)
    by (simp add: eth_send_frame_def Let_def split: bind_splits)
qed

lemma ipv4_header_split:
  "ipv4_header t i p s d c = ([0x45, 0] @ bytes16 (htons t) @ bytes16 (htons i) @ bytes16 0 @ [64, p]) @
     bytes16 c @ (bytes32 (htonl s) @ bytes32 (htonl d))"
  by (simp add: ipv4_header_def)

lemma length_bytes [simp]: "length (bytes16 x) = 2" "length (bytes32 y) = 4"
  by (simp_all add: bytes16_def bytes32_def)

lemma length_ipv4_header [simp]: "length (ipv4_header t i p s d c) = 20"
  by (simp add: ipv4_header_def)

lemma bytes16_zero: "bytes16 0 = [0, 0]"
  by (simp add: bytes16_def)

text \<open>The header checksum \<open>net_send_ipv4_packet\<close> stores.\<close>

definition header_checksum :: "u16 \<Rightarrow> u16 \<Rightarrow> u8 \<Rightarrow> u32 \<Rightarrow> u32 \<Rightarrow> u16" where
  "header_checksum t i p s d = fold16 (sum16 (ipv4_header t i p s d 0) 0)"

lemma header_checksum_eq: "ip_checksum (ipv4_header t i p s d 0) 20 = Some (header_checksum t i p s d)"
  unfolding header_checksum_def by (rule ip_checksum_eq(1)) simp

lemma header_checksum_verifies:
  "ip_checksum (ipv4_header t i p s d (header_checksum t i p s d)) 20 = Some 0"
  using header_checksum_eq [of t i p s d] unfolding ipv4_header_split bytes16_zero
  by (intro ip_checksum_verifies_lemma) simp_all

lemma arp_lookup_Some:
  "arp_lookup ip st = (Some mac, st') \<Longrightarrow> st' = st"
  by (auto simp: arp_lookup_def Let_def split: option.splits)

definition next_hop :: "u32 \<Rightarrow> 'a net_scheme \<Rightarrow> u32" where
  "next_hop dst_ip st = (if is_local_ip dst_ip st then dst_ip else nic_gateway_ip st)"

lemma next_hop_eq:
  "(if dst_ip AND nic_netmask st = nic_ip_addr st AND nic_netmask st then dst_ip else nic_gateway_ip st) =
    next_hop dst_ip st"
  by (auto simp: next_hop_def is_local_ip_def)

text \<open>The packet on the wire for a payload that fits.\<close>

definition ipv4_packet :: "u32 \<Rightarrow> u8 \<Rightarrow> u8 list \<Rightarrow> 'a net_scheme \<Rightarrow> u8 list" where
  "ipv4_packet dst_ip protocol payload st =
     (let t = of_nat (20 + length payload); i = packet_id st; s = nic_ip_addr st
      in ipv4_header t i protocol s dst_ip (header_checksum t i protocol s dst_ip) @ payload)"

lemma net_send_ipv4_ok:
  assumes arp: "fst (arp_lookup (next_hop dst_ip st) st) = Some mac" and drv: "eth_send_packet_func st"
    and macs: "length mac = 6" "length (src_mac st) = 6"
    and len: "unat len \<le> length payload" "unat len \<le> 1484"
  shows "net_send_ipv4_packet dst_ip proto payload len st =
    Some (st\<lparr>packet_id := packet_id st + 1, wire := wire st @
      [eth_frame mac (src_mac st) ETHERTYPE_IP (ipv4_packet dst_ip proto (take (unat len) payload) st)]\<rparr>)"
proof -
  have total: "unat (20 + len) = 20 + unat len" using len(2) by (subst unat_add_le) simp_all
  then have le: "\<not> 20 + len > 1518" using len(2) by (simp add: word_less_nat_alt)
  have t: "of_nat (20 + length (take (unat len) payload)) = 20 + len"
    using len(1) by (simp add: min_def)
  obtain st' where "arp_lookup (next_hop dst_ip st) st = (Some mac, st')"
    using arp by (metis prod.collapse)
  then have lk: "arp_lookup (next_hop dst_ip st) st = (Some mac, st)" using arp_lookup_Some by blast
  let ?hdr = "ipv4_header (20 + len) (packet_id st) proto (nic_ip_addr st) dst_ip"
  let ?c = "header_checksum (20 + len) (packet_id st) proto (nic_ip_addr st) dst_ip"
  let ?buf = "?hdr ?c @ take (unat len) payload @ replicate (1498 - unat len) 0"
  have b: "blit (?hdr ?c @ replicate 1498 0) 20 payload (unat len) = Some ?buf"
    using len by (simp add: blit_def)
  have tk: "take (unat (20 + len)) ?buf = ipv4_packet dst_ip proto (take (unat len) payload) st"
    using total len t by (simp add: ipv4_packet_def Let_def)
  let ?st = "st\<lparr>packet_id := packet_id st + 1\<rparr>"
  have "eth_send_frame mac ETHERTYPE_IP ?buf (20 + len) ?st =
    Some (?st\<lparr>wire := wire ?st @ [eth_frame mac (src_mac ?st) ETHERTYPE_IP (take (unat (20 + len)) ?buf)]\<rparr>)"
    by (rule eth_send_frame_ok) (use drv macs total len in simp_all)
  then show ?thesis
    using le lk b tk header_checksum_eq
    by (simp add: net_send_ipv4_packet_def next_hop_eq Let_def)
qed

lemma net_send_ipv4_overrun:
  assumes arp: "fst (arp_lookup (next_hop dst_ip st) st) = Some mac" and drv: "eth_send_packet_func st"
    and len: "1484 < unat len" "unat len \<le> 1498"
  shows "net_send_ipv4_packet dst_ip proto payload len st = None"
proof -
  have total: "unat (20 + len) = 20 + unat len" using len(2) by (subst unat_add_le) simp_all
  then have le: "\<not> 20 + len > 1518" using len(2) by (simp add: word_less_nat_alt)
  obtain st' where "arp_lookup (next_hop dst_ip st) st = (Some mac, st')"
    using arp by (metis prod.collapse)
  then have lk: "arp_lookup (next_hop dst_ip st) st = (Some mac, st)" using arp_lookup_Some by blast
  have "eth_send_frame mac ETHERTYPE_IP buf (20 + len) (st\<lparr>packet_id := packet_id st + 1\<rparr>) = None" for buf
    by (rule eth_send_frame_overrun) (use drv total len in simp_all)
  then show ?thesis using le lk
    by (simp add: net_send_ipv4_packet_def next_hop_eq Let_def split: bind_splits)
qed

section \<open>ICMP\<close>

lemma even_checksum_reply:
  assumes "unat len \<le> length payload" and "8 \<le> unat len" and "unat len \<le> 1498"
  shows "\<exists>c. icmp_reply payload len = Some ([0, 0] @ bytes16 c @ drop 4 (take (unat len) payload) @
      replicate (1518 - unat len) 0) \<and>
    ip_checksum ([0, 0] @ bytes16 c @ drop 4 (take (unat len) payload)) len = Some 0"
proof -
  let ?n = "unat len" and ?post = "drop 4 (take (unat len) payload)"
  let ?z = "replicate (1518 - unat len) 0"
  have b1: "blit (replicate 1518 0) 0 payload ?n = Some (take ?n payload @ ?z)"
    using assms by (simp add: blit_def)
  have b2: "blit (take ?n payload @ ?z) 0 [0, 0, 0, 0] 4 = Some ([0, 0, 0, 0] @ ?post @ ?z)"
    using assms by (simp add: blit_def)
  have tk: "take ?n ([0, 0, 0, 0] @ ?post @ ?z) = [0, 0] @ [0, 0] @ ?post"
    using assms by (simp add: take_Cons' numeral_eq_Suc)
  have len: "length ([0, 0] @ [0, 0] @ ?post :: u8 list) = ?n" using assms by simp
  define c where "c = fold16 (sum16 ([0, 0] @ [0, 0] @ ?post) 0)"
  have c: "ip_checksum ([0, 0] @ [0, 0] @ ?post) len = Some c"
    unfolding c_def by (rule ip_checksum_eq(1) [OF len])
  have c': "ip_checksum ([0, 0, 0, 0] @ ?post @ ?z) len = Some c"
    using assms tk by (simp add: ip_checksum_def c_def)
  have b3: "blit ([0, 0, 0, 0] @ ?post @ ?z) 2 (bytes16 c) 2 = Some ([0, 0] @ bytes16 c @ ?post @ ?z)"
    by (simp add: blit_def bytes16_def numeral_eq_Suc)
  have "ip_checksum ([0, 0] @ bytes16 c @ ?post) len = Some 0"
    using c len by (intro ip_checksum_verifies_lemma) simp_all
  then show ?thesis
    using b1 b2 b3 c' by (intro exI [of _ c]) (simp add: icmp_reply_def)
qed

definition valid_echo_request :: "u8 list \<Rightarrow> u16 \<Rightarrow> 'a net_scheme \<Rightarrow> bool" where
  "valid_echo_request payload len st \<longleftrightarrow> 8 \<le> unat len \<and> unat len \<le> length payload \<and> payload ! 0 = 8 \<and>
     prev_id st < ucast (ntohs (word16 (payload ! 4) (payload ! 5))) \<and>
     ip_checksum (take 2 payload @ [0, 0] @ drop 4 payload) len = Some (word16 (payload ! 2) (payload ! 3))"

lemma icmp_echo_ok:
  assumes req: "valid_echo_request payload len st" and len: "unat len \<le> 1484"
    and arp: "fst (arp_lookup (next_hop (ntohl src_ip) st) st) = Some mac" and drv: "eth_send_packet_func st"
    and macs: "length mac = 6" "length (src_mac st) = 6"
  shows "\<exists>reply. icmp_handle_packet src_ip payload len st =
      Some (st\<lparr>packet_id := packet_id st + 1, wire := wire st @
        [eth_frame mac (src_mac st) ETHERTYPE_IP (ipv4_packet (ntohl src_ip) IP_PROTO_ICMP reply st)]\<rparr>) \<and>
    length reply = unat len \<and> take 2 reply = [0, 0] \<and> drop 4 reply = drop 4 (take (unat len) payload) \<and>
    ip_checksum reply len = Some 0"
proof -
  have le: "8 \<le> unat len" "unat len \<le> length payload" using req by (simp_all add: valid_echo_request_def)
  have n8: "\<not> len < 8" using le by (simp add: word_less_nat_alt)
  have n1498: "\<not> 1498 < len" using len by (simp add: word_less_nat_alt)
  have id: "get_u16 payload 4 = Some (word16 (payload ! 4) (payload ! 5))"
    and cs: "get_u16 payload 2 = Some (word16 (payload ! 2) (payload ! 3))"
    using le by (simp_all add: get_u16_def rd_def)
  have bl: "blit payload 2 [0, 0] 2 = Some (take 2 payload @ [0, 0] @ drop 4 payload)"
    using le by (simp add: blit_def numeral_eq_Suc)
  have ty: "rd payload 0 = Some 8" using req le by (auto simp: valid_echo_request_def rd_def)
  obtain c where c: "icmp_reply payload len = Some ([0, 0] @ bytes16 c @ drop 4 (take (unat len) payload) @
      replicate (1518 - unat len) 0)"
    "ip_checksum ([0, 0] @ bytes16 c @ drop 4 (take (unat len) payload)) len = Some 0"
    using even_checksum_reply [of len payload] le len by auto
  let ?reply = "[0, 0] @ bytes16 c @ drop 4 (take (unat len) payload)"
  let ?resp = "?reply @ replicate (1518 - unat len) 0"
  have l: "length ?reply = unat len" using le by simp
  have "take (length xs) (xs @ ys) = xs" for xs ys :: "u8 list" by simp
  from this [of ?reply "replicate (1518 - unat len) 0"] have tk: "take (unat len) ?resp = ?reply"
    unfolding l .
  have "net_send_ipv4_packet (ntohl src_ip) IP_PROTO_ICMP ?resp len st =
    Some (st\<lparr>packet_id := packet_id st + 1, wire := wire st @
      [eth_frame mac (src_mac st) ETHERTYPE_IP (ipv4_packet (ntohl src_ip) IP_PROTO_ICMP (take (unat len) ?resp) st)]\<rparr>)"
    by (rule net_send_ipv4_ok [OF arp drv macs]) (use l len in simp_all)
  then have snd: "net_send_ipv4_packet (ntohl src_ip) IP_PROTO_ICMP ?resp len st =
    Some (st\<lparr>packet_id := packet_id st + 1, wire := wire st @
      [eth_frame mac (src_mac st) ETHERTYPE_IP (ipv4_packet (ntohl src_ip) IP_PROTO_ICMP ?reply st)]\<rparr>)"
    by (simp only: tk)
  have "icmp_handle_packet src_ip payload len st = net_send_ipv4_packet (ntohl src_ip) IP_PROTO_ICMP ?resp len st"
    using req id cs bl ty c(1) n8 n1498 unfolding icmp_handle_packet_def Let_def
    by (simp add: valid_echo_request_def rd_def not_le [symmetric])
  then show ?thesis using snd c(2) l
    by (intro exI [of _ ?reply]) (simp add: bytes16_def numeral_eq_Suc)
qed

section \<open>Sending is total\<close>

text \<open>
  The configuration of the host that no packet changes: NIC, ARP cache, clock, heap.  \<open>net_ok\<close>:
  hardware addresses have six bytes.
\<close>

definition net_config :: "'a net_scheme \<Rightarrow> u8 list \<times> u32 \<times> u32 \<times> u32 \<times> u32 \<times> bool \<times> u8 list option \<times>
    arp_entry list \<times> (nat \<Rightarrow> bool)" where
  "net_config st = (nic_mac st, nic_ip_addr st, nic_netmask st, nic_gateway_ip st, ticks st,
     eth_send_packet_func st, eth_get_mac_func st, arp_cache_entries st, malloc_ok st)"

definition net_ok :: "'a net_scheme \<Rightarrow> bool" where
  "net_ok st \<longleftrightarrow> length (src_mac st) = 6 \<and> (\<forall>e\<in>set (arp_cache_entries st). length (ae_mac e) = 6)"

lemma net_config_ok: "net_config st' = net_config st \<Longrightarrow> net_ok st' = net_ok st"
  by (simp add: net_config_def net_ok_def src_mac_def cong: option.case_cong)

text \<open>A step that only uses the network: it keeps the configuration and the state of the upper layers.\<close>

definition net_step :: "'a net_scheme \<Rightarrow> 'a net_scheme \<Rightarrow> bool" where
  "net_step st st' \<longleftrightarrow> net_config st' = net_config st \<and> net.more st' = net.more st"

lemma net_step_refl [simp]: "net_step st st"
  by (simp add: net_step_def)

lemma net_step_trans: "net_step a b \<Longrightarrow> net_step b c \<Longrightarrow> net_step a c"
  by (simp add: net_step_def)

lemma net_step_arp_request: "net_step st (rtl8139_send_arp_request a b st)"
  by (simp add: rtl8139_send_arp_request_def net_step_def net_config_def Let_def)

lemma net_step_arp_lookup: "arp_lookup ip st = (r, st') \<Longrightarrow> net_step st st'"
  by (auto simp: arp_lookup_def Let_def net_step_arp_request split: option.splits if_splits)

lemma arp_lookup_mac:
  assumes "net_ok st" and "arp_lookup ip st = (Some mac, st')"
  shows "length mac = 6"
  using assms by (auto simp: arp_lookup_def Let_def net_ok_def find_Some_iff split: option.splits)

lemma net_step_malloc: "malloc st = (ok, st') \<Longrightarrow> net_step st st'"
  by (auto simp: malloc_def net_step_def net_config_def)

lemma queue_packet_runs:
  assumes "unat len \<le> length payload"
  shows "runs (queue_packet dst proto payload len st) (net_step st)"
proof (cases "malloc st")
  case (Pair ok st1)
  then show ?thesis
    using assms net_step_malloc [OF Pair]
    by (auto simp: queue_packet_def net_step_def net_config_def)
qed

lemma net_send_ipv4_runs:
  assumes ok: "net_ok st" and len: "unat len \<le> length payload" "unat len \<le> 1484"
  shows "runs (net_send_ipv4_packet dst_ip proto payload len st) (net_step st)"
proof (cases "arp_lookup (next_hop dst_ip st) st")
  case (Pair r st1)
  have total: "unat (20 + len) = 20 + unat len" using len(2) by (subst unat_add_le) simp_all
  then have le: "\<not> 20 + len > 1518" using len(2) by (simp add: word_less_nat_alt)
  show ?thesis
  proof (cases r)
    case None
    have "runs (queue_packet dst_ip proto payload len st1)
      (\<lambda>st2. net_step st (rtl8139_send_arp_request (nic_ip_addr st2) (next_hop dst_ip st) st2))"
      by (rule runs_mono [OF queue_packet_runs [OF len(1)]])
        (blast intro: net_step_trans net_step_arp_request net_step_arp_lookup [OF Pair])
    then show ?thesis using le Pair None
      by (simp add: net_send_ipv4_packet_def next_hop_eq Let_def)
  next
    case (Some mac)
    show ?thesis
    proof (cases "eth_send_packet_func st")
      case True
      have "net_send_ipv4_packet dst_ip proto payload len st = Some (st\<lparr>packet_id := packet_id st + 1,
        wire := wire st @ [eth_frame mac (src_mac st) ETHERTYPE_IP (ipv4_packet dst_ip proto (take (unat len) payload) st)]\<rparr>)"
        by (rule net_send_ipv4_ok)
          (use True Pair Some len ok arp_lookup_mac [OF ok, of "next_hop dst_ip st" mac st1] in
            \<open>simp_all add: net_ok_def\<close>)
      then show ?thesis by (simp add: net_step_def net_config_def)
    next
      case False
      have st1: "st1 = st" using Pair Some arp_lookup_Some by blast
      have b: "blit (ipv4_header t i p s d c @ replicate 1498 0) 20 payload (unat len) \<noteq> None"
        for t i p s d c using len by (simp add: blit_def)
      obtain buf where "blit (ipv4_header (20 + len) (packet_id st) proto (nic_ip_addr st) dst_ip
          (header_checksum (20 + len) (packet_id st) proto (nic_ip_addr st) dst_ip) @ replicate 1498 0)
          20 payload (unat len) = Some buf"
        using b by blast
      then show ?thesis using le Pair Some False st1 header_checksum_eq
        by (simp add: net_send_ipv4_packet_def next_hop_eq Let_def eth_send_frame_def net_step_def net_config_def)
    qed
  qed
qed

section \<open>The pending queue\<close>

text \<open>A packet whose address is known is sent, not queued again.\<close>

lemma arp_lookup_next_hop: "fst (arp_lookup (next_hop ip st) st) = fst (arp_lookup ip st)"
  by (auto simp: arp_lookup_def next_hop_def Let_def split: option.split)

lemma eth_send_frame_queue: "eth_send_frame mac et data len st = Some st' \<Longrightarrow> pending_queue st' = pending_queue st"
  by (auto simp: eth_send_frame_def Let_def split: if_splits bind_splits)

lemma send_known_queue:
  assumes "arp_lookup ip st = (Some mac, st1)" and "net_send_ipv4_packet ip proto payload len st = Some st'"
  shows "pending_queue st' = pending_queue st"
proof -
  obtain st2 where "arp_lookup (next_hop ip st) st = (Some mac, st2)"
    using assms(1) arp_lookup_next_hop [of ip st] by (metis fst_conv prod.collapse)
  then have "arp_lookup (next_hop ip st) st = (Some mac, st)" using arp_lookup_Some by blast
  then show ?thesis
    using assms(2) by (auto simp: net_send_ipv4_packet_def next_hop_eq Let_def
        dest!: eth_send_frame_queue split: if_splits bind_splits)
qed

lemma arp_lookup_queue: "arp_lookup ip st = (r, st') \<Longrightarrow> pending_queue st' = pending_queue st"
  by (auto simp: arp_lookup_def rtl8139_send_arp_request_def Let_def split: option.splits if_splits)

declare retry_pending.simps [simp del]

lemma retry_pending_fuel:
  "length (pending_queue st) - i \<le> fuel \<Longrightarrow> retry_pending (fuel + k) i st = retry_pending fuel i st"
proof (induction fuel arbitrary: i st)
  case 0
  then show ?case by (simp add: retry_pending.simps [of k] retry_pending.simps [of 0])
next
  case (Suc fuel)
  show ?case
  proof (cases "i \<ge> length (pending_queue st)")
    case False
    define pkt where "pkt = pending_queue st ! i"
    show ?thesis
    proof (cases "arp_lookup (pp_dst_ip pkt) st")
      case (Pair r st1)
      note q = arp_lookup_queue [OF Pair]
      show ?thesis
      proof (cases r)
        case None
        have "retry_pending (fuel + k) (i + 1) st1 = retry_pending fuel (i + 1) st1"
          using Suc.prems q by (intro Suc.IH) simp
        then show ?thesis using False Pair None
          by (simp add: retry_pending.simps [of "Suc (fuel + k)"] retry_pending.simps [of "Suc fuel"] pkt_def Let_def)
      next
        case (Some mac)
        have st1: "st1 = st" using Pair Some arp_lookup_Some by blast
        have "retry_pending (fuel + k) i (st2\<lparr>pending_queue := butlast ((pending_queue st2)[i := x])\<rparr>) =
            retry_pending fuel i (st2\<lparr>pending_queue := butlast ((pending_queue st2)[i := x])\<rparr>)"
          if "net_send_ipv4_packet (pp_dst_ip pkt) proto payload len st = Some st2" for st2 proto payload len x
          using Suc.prems False send_known_queue [OF Pair [unfolded Some] that] by (intro Suc.IH) simp
        then show ?thesis using False Pair Some st1
          by (auto simp: retry_pending.simps [of "Suc (fuel + k)"] retry_pending.simps [of "Suc fuel"] pkt_def Let_def
              split: bind_split)
      qed
    qed
  qed (simp add: retry_pending.simps [of "Suc (fuel + k)"] retry_pending.simps [of "Suc fuel"])
qed

section \<open>Properties\<close>

text \<open>A host 10.0.2.15 on a /24 network that knows the address of its gateway 10.0.2.2.\<close>

definition demo_net :: net where
  "demo_net = \<lparr>nic_mac = [0x52, 0x54, 0, 0x12, 0x34, 0x56], nic_ip_addr = 0x0A00020F, nic_netmask = 0xFFFFFF00,
     nic_gateway_ip = 0x0A000202, ticks = 1000, eth_send_packet_func = True, eth_get_mac_func = None,
     wire = [], arp_cache_entries = \<lparr>ae_ip = 0x0A000202, ae_mac = [0x52, 0x55, 10, 0, 2, 2], ae_timestamp = 900\<rparr> #
       replicate 31 \<lparr>ae_ip = 0, ae_mac = [0, 0, 0, 0, 0, 0], ae_timestamp = 0\<rparr>,
     pending_queue = [], packet_id = 0, prev_id = 0, icmp_next_seq = 1, icmp_next_id = 1,
     malloc_ok = (\<lambda>_. True), malloc_calls = 0\<rparr>"

lemma demo_net_arp:
  "fst (arp_lookup (next_hop 0x08080808 demo_net) demo_net) = Some [0x52, 0x55, 10, 0, 2, 2]"
  "fst (arp_lookup (next_hop (ntohl 0x0202000A) demo_net) demo_net) = Some [0x52, 0x55, 10, 0, 2, 2]"
  by code_simp+

lemma demo_net_nic: "eth_send_packet_func demo_net" "length (src_mac demo_net) = 6"
  by (simp_all add: demo_net_def src_mac_def)

text \<open>The ARP cache answers with what was stored last: after \<open>arp_cache_update\<close> of a local address
  that has a slot, \<open>arp_lookup\<close> finds its MAC address, and every other address is looked up as
  before; without a slot nothing is stored, however old the entries are.\<close>

theorem arp_update_lookup:
  assumes "arp_slot ip (arp_cache_entries st)" and "is_local_ip ip st"
  shows "fst (arp_lookup ip (arp_cache_update ip mac st)) = Some mac \<and>
    (\<forall>ip'. ip' \<noteq> ip \<and> ip' \<noteq> 0 \<and> is_local_ip ip' st \<longrightarrow>
      fst (arp_lookup ip' (arp_cache_update ip mac st)) = fst (arp_lookup ip' st)) \<and>
    (\<forall>ip'. \<not> arp_slot ip' (arp_cache_entries st) \<longrightarrow> arp_cache_update ip' mac st = st)"
proof (intro conjI allI impI)
  let ?st = "arp_cache_update ip mac st"
  obtain e where e: "find (arp_fresh ip st) (arp_store ip mac (ticks st) (arp_cache_entries st)) = Some e"
      "ae_mac e = mac"
    using find_arp_store_same [OF assms(1), of st "ticks st" mac] by auto
  then show "fst (arp_lookup ip ?st) = Some mac"
    using assms(2) by (simp add: arp_lookup_def arp_cache_update_def is_local_ip_def)
  fix ip' assume *: "ip' \<noteq> ip \<and> ip' \<noteq> 0 \<and> is_local_ip ip' st"
  then show "fst (arp_lookup ip' ?st) = fst (arp_lookup ip' st)"
    using find_arp_store_other [of ip' ip st mac "ticks st" "arp_cache_entries st"]
    by (auto simp: arp_lookup_def arp_cache_update_def is_local_ip_def split: option.splits)
qed (simp add: arp_cache_update_def arp_store_no_slot)

theorem arp_update_lookup_witness:
  "fst (arp_lookup 0x0A000203 (arp_cache_update 0x0A000203 [1, 2, 3, 4, 5, 6] demo_net)) = Some [1, 2, 3, 4, 5, 6]"
  using arp_update_lookup [of "0x0A000203" demo_net "[1, 2, 3, 4, 5, 6]"]
  by (simp add: arp_slot_def demo_net_def is_local_ip_def)

text \<open>C28. What \<open>net_send_ipv4_packet\<close> puts on the wire: for a payload of at most 1484 bytes and a known
  address of the next hop, one Ethernet frame to that address with an IPv4 header, the payload and
  padding to 60 bytes; the header's checksum verifies at the receiver.\<close>

theorem net_send_ipv4_frame:
  assumes "fst (arp_lookup (next_hop dst_ip st) st) = Some mac" and "eth_send_packet_func st"
    and "length mac = 6" and "length (src_mac st) = 6"
    and "unat len \<le> length payload" and "unat len \<le> 1484"
  shows "net_send_ipv4_packet dst_ip proto payload len st =
      Some (st\<lparr>packet_id := packet_id st + 1, wire := wire st @
        [eth_frame mac (src_mac st) ETHERTYPE_IP (ipv4_packet dst_ip proto (take (unat len) payload) st)]\<rparr>) \<and>
    ip_checksum (take 20 (ipv4_packet dst_ip proto (take (unat len) payload) st)) 20 = Some 0"
  using net_send_ipv4_ok [OF assms, of proto] header_checksum_verifies
  by (simp add: ipv4_packet_def Let_def)

theorem net_send_ipv4_frame_witness:
  "net_send_ipv4_packet 0x08080808 17 [1, 2, 3] 3 demo_net =
      Some (demo_net\<lparr>packet_id := packet_id demo_net + 1, wire := wire demo_net @
        [eth_frame [0x52, 0x55, 10, 0, 2, 2] (src_mac demo_net) ETHERTYPE_IP
          (ipv4_packet 0x08080808 17 (take (unat (3 :: u16)) [1, 2, 3]) demo_net)]\<rparr>) \<and>
    ip_checksum (take 20 (ipv4_packet 0x08080808 17 (take (unat (3 :: u16)) [1, 2, 3]) demo_net)) 20 = Some 0"
  by (rule net_send_ipv4_frame [OF demo_net_arp(1) demo_net_nic(1) _ demo_net_nic(2)]) simp_all

text \<open>The check of \<open>net_send_ipv4_packet\<close> admits packets of 1518 bytes, but the frame buffer of
  \<open>eth_send_frame\<close> has room for 1504 bytes after the header: a payload of 1485 to 1498 bytes to a
  known address writes beyond the buffer.\<close>

theorem net_send_ipv4_overruns_frame:
  assumes "fst (arp_lookup (next_hop dst_ip st) st) = Some mac" and "eth_send_packet_func st"
    and "1484 < unat len" and "unat len \<le> 1498"
  shows "net_send_ipv4_packet dst_ip proto payload len st = None"
  using assms by (rule net_send_ipv4_overrun)

theorem net_send_ipv4_overruns_frame_witness:
  "net_send_ipv4_packet 0x08080808 1 (replicate 1498 0) 1490 demo_net = None"
  by (rule net_send_ipv4_overruns_frame [OF demo_net_arp(1) demo_net_nic(1)]) simp_all


end
