(* ===== verification/Tcp.thy ===== *)
theory Tcp
  imports Net
begin

text \<open>
  \<open>src/drivers/net/tcp.c\<close>.  Connections live in a heap (\<open>conns\<close>, indexed by allocation number; a freed
  or never allocated number is \<open>None\<close>, and an access to it is undefined), \<open>connection_list\<close> and the
  timers refer to them by number, as the pointers of the code do.  The list of timers is kept with
  the identities of its nodes, because \<open>check_tcp_timers\<close> walks it with a pointer to a link while
  the functions it calls remove nodes.
\<close>

section \<open>State\<close>

datatype tcp_state = TCP_CLOSED | TCP_LISTEN | TCP_SYN_SENT | TCP_SYN_RECEIVED | TCP_ESTABLISHED
  | TCP_WAIT_FOR_ACK | TCP_FIN_WAIT_1 | TCP_FIN_WAIT_2 | TCP_CLOSE_WAIT | TCP_CLOSING
  | TCP_LAST_ACK | TCP_TIME_WAIT

text \<open>\<open>re_start_time\<close> is not set when an entry is made (\<open>None\<close>).\<close>

record retransmit_entry =
  re_seq :: u32
  re_length :: u16
  re_data :: "u8 list"
  re_start_time :: "u32 option"
  re_flags :: u8
  re_retries :: u8

text \<open>
  \<open>retransmit_queue\<close> is the linked list; \<open>queue_ends\<close> says whether its last link is \<open>NULL\<close> (a connection
  made by \<open>tcp_connect\<close> starts with whatever the memory held).
\<close>

record tcp_connection =
  local_ip :: u32
  remote_ip :: u32
  local_port :: u16
  remote_port :: u16
  mss :: u16
  next_seq :: u32
  expected_ack :: u32
  dup_ack_count :: u8
  state :: tcp_state
  retransmit_queue :: "retransmit_entry list"
  queue_ends :: bool
  recv_buffer :: "u8 list"
  recv_buffer_len :: u16
  last_ack :: u32

record tcp_timer =
  tm_id :: nat
  tm_conn :: nat
  tm_timeout_ms :: u32
  tm_start_time :: u32
  tm_retries :: u8

text \<open>
  \<open>fresh_conn\<close> is what the memory of a new connection contains before it is initialised.
  \<open>index_html\<close> is what the FAT driver reads for \<open>/index.html\<close> (\<open>None\<close> when it finds no file).
\<close>

record tcp_net = net +
  conns :: "nat \<Rightarrow> tcp_connection option"
  next_conn :: nat
  connection_list :: "nat list"
  listen_ports :: "u16 list"
  active_timers :: "tcp_timer list"
  next_timer :: nat
  seq_counter :: u32
  fresh_conn :: tcp_connection
  index_html :: "u8 list option"

abbreviation (input) TCP_FIN :: u8 where "TCP_FIN \<equiv> 0x01"
abbreviation (input) TCP_SYN :: u8 where "TCP_SYN \<equiv> 0x02"
abbreviation (input) TCP_RST :: u8 where "TCP_RST \<equiv> 0x04"
abbreviation (input) TCP_PSH :: u8 where "TCP_PSH \<equiv> 0x08"
abbreviation (input) TCP_ACK :: u8 where "TCP_ACK \<equiv> 0x10"
abbreviation (input) DEFAULT_MSS :: u16 where "DEFAULT_MSS \<equiv> 1460"
abbreviation (input) MAX_SYN_RETRIES :: u8 where "MAX_SYN_RETRIES \<equiv> 5"
abbreviation (input) TCP_SYN_RETRANSMIT_TIMEOUT :: u32 where "TCP_SYN_RETRANSMIT_TIMEOUT \<equiv> 3000"
abbreviation (input) TCP_DATA_RETRANSMIT_TIMEOUT :: u32 where "TCP_DATA_RETRANSMIT_TIMEOUT \<equiv> 3000"

definition generate_secure_initial_seq :: "tcp_net \<Rightarrow> u32 \<times> tcp_net" where
  "generate_secure_initial_seq st =
     (push_bit 16 (ticks st) OR (seq_counter st AND 0xFFFF), st\<lparr>seq_counter := seq_counter st + 1\<rparr>)"

section \<open>Connections, ports and timers\<close>

definition put_conn :: "nat \<Rightarrow> tcp_connection \<Rightarrow> tcp_net \<Rightarrow> tcp_net" where
  "put_conn i c st = st\<lparr>conns := (conns st)(i := Some c)\<rparr>"

text \<open>Walking the list reads every connection on it.\<close>

fun find_in :: "(nat \<Rightarrow> tcp_connection option) \<Rightarrow> u32 \<Rightarrow> u16 \<Rightarrow> u32 \<Rightarrow> u16 \<Rightarrow> nat list \<Rightarrow> nat option option" where
  "find_in cs rip rport lip lport [] = Some None"
| "find_in cs rip rport lip lport (i # is) =
     do { c \<leftarrow> cs i;
          if remote_ip c = rip \<and> remote_port c = rport \<and> local_ip c = lip \<and> local_port c = lport
          then Some (Some i) else find_in cs rip rport lip lport is }"

definition find_connection :: "u32 \<Rightarrow> u16 \<Rightarrow> u32 \<Rightarrow> u16 \<Rightarrow> tcp_net \<Rightarrow> nat option option" where
  "find_connection rip rport lip lport st = find_in (conns st) rip rport lip lport (connection_list st)"

definition add_connection :: "nat \<Rightarrow> tcp_net \<Rightarrow> tcp_net" where
  "add_connection i st = st\<lparr>connection_list := i # connection_list st\<rparr>"

fun remove_first :: "('a \<Rightarrow> bool) \<Rightarrow> 'a list \<Rightarrow> 'a list" where
  "remove_first P [] = []"
| "remove_first P (x # xs) = (if P x then xs else x # remove_first P xs)"

definition cancel_retransmission_timer :: "nat \<Rightarrow> tcp_net \<Rightarrow> tcp_net" where
  "cancel_retransmission_timer i st =
     st\<lparr>active_timers := remove_first (\<lambda>t. tm_conn t = i) (active_timers st)\<rparr>"

text \<open>
  \<open>remove_connection\<close> frees the queue and, when the connection is on the list, the connection; when it
  is not, its queue pointer is left dangling.
\<close>

definition remove_connection :: "nat \<Rightarrow> tcp_net \<Rightarrow> tcp_net option" where
  "remove_connection i st =
     do { let st = cancel_retransmission_timer i st;
          c \<leftarrow> conns st i;
          if \<not> queue_ends c then None
          else if i \<in> set (connection_list st)
          then Some (st\<lparr>connection_list := remove_first (\<lambda>j. j = i) (connection_list st),
                        conns := (conns st)(i := None)\<rparr>)
          else Some (put_conn i (c\<lparr>retransmit_queue := [], queue_ends := False\<rparr>) st) }"

definition tcp_listen :: "u16 \<Rightarrow> tcp_net \<Rightarrow> tcp_net" where
  "tcp_listen port st =
     (case malloc st of (ok, st) \<Rightarrow>
        if \<not> ok then st else st\<lparr>listen_ports := port # listen_ports st\<rparr>)"

definition is_listening_port :: "u16 \<Rightarrow> tcp_net \<Rightarrow> bool" where
  "is_listening_port port st = list_ex (\<lambda>p. p = port) (listen_ports st)"

definition start_retransmission_timer :: "nat \<Rightarrow> u32 \<Rightarrow> tcp_net \<Rightarrow> tcp_net" where
  "start_retransmission_timer i timeout_ms st =
     (case malloc st of (ok, st) \<Rightarrow>
        if \<not> ok then st
        else st\<lparr>active_timers := \<lparr>tm_id = next_timer st, tm_conn = i, tm_timeout_ms = timeout_ms,
                    tm_start_time = ticks st, tm_retries = 0\<rparr> # active_timers st,
                next_timer := next_timer st + 1\<rparr>)"

section \<open>Options\<close>

text \<open>
  \<open>process_tcp_options\<close>: \<open>ptr\<close> are the bytes from the option pointer on, \<open>m\<close> is \<open>conn->mss\<close>.  The
  counter \<open>remaining\<close> is 8 bits wide.
\<close>

function (sequential) process_tcp_options :: "u8 list \<Rightarrow> u8 \<Rightarrow> u16 \<Rightarrow> u16 option" where
  "process_tcp_options [] remaining m = (if remaining = 0 then Some m else None)"
| "process_tcp_options [kind] remaining m =
     (if remaining = 0 then Some m
      else if kind = 0 then Some m
      else if kind = 1 then process_tcp_options [] (remaining - 1) m
      else if remaining - 1 = 0 then Some m
      else None)"
| "process_tcp_options (kind # len # ptr) remaining m =
     (if remaining = 0 then Some m
      else if kind = 0 then Some m
      else if kind = 1 then process_tcp_options (len # ptr) (remaining - 1) m
      else if remaining - 1 = 0 then Some m
      else let remaining = remaining - 2 in
        if len < 2 then Some m
        else if kind = 2 \<and> len = 4 \<and> remaining \<ge> 2
        then do { hi \<leftarrow> rd ptr 0; lo \<leftarrow> rd ptr 1;
                  let v = word16 lo hi;
                  process_tcp_options (drop 2 ptr) (remaining - 2) (if v < DEFAULT_MSS then v else DEFAULT_MSS) }
        else let opt_len = len - 2 in
          if opt_len > remaining then Some m
          else process_tcp_options (drop (unat opt_len) ptr) (remaining - opt_len) m)"
  by pat_completeness auto
termination by (relation "measure (\<lambda>(p, _, _). length p)") auto

section \<open>Checksum and segments\<close>

text \<open>As \<open>sum16\<close>, but a last odd byte is shifted into the high byte.\<close>

fun tcp_sum16 :: "u8 list \<Rightarrow> u32 \<Rightarrow> u32" where
  "tcp_sum16 (a # b # p) acc = tcp_sum16 p (acc + ucast (word16 a b))"
| "tcp_sum16 [a] acc = acc + push_bit 8 (ucast a)"
| "tcp_sum16 [] acc = acc"

definition pseudo_header :: "u32 \<Rightarrow> u32 \<Rightarrow> u16 \<Rightarrow> u8 list" where
  "pseudo_header src_ip dst_ip tcp_len =
     bytes32 src_ip @ bytes32 dst_ip @ [0, IP_PROTO_TCP] @ bytes16 (htons tcp_len)"

definition tcp_checksum :: "u32 \<Rightarrow> u32 \<Rightarrow> u8 list \<Rightarrow> u16 \<Rightarrow> u16 option" where
  "tcp_checksum src_ip dst_ip tcp tcp_len =
     (if unat tcp_len \<le> length tcp
      then Some (fold16 (tcp_sum16 (take (unat tcp_len) tcp) (tcp_sum16 (pseudo_header src_ip dst_ip tcp_len) 0)))
      else None)"

definition tcp_header :: "u16 \<Rightarrow> u16 \<Rightarrow> u32 \<Rightarrow> u32 \<Rightarrow> u8 \<Rightarrow> u8 \<Rightarrow> u16 \<Rightarrow> u16 \<Rightarrow> u8 list" where
  "tcp_header src_port dest_port seq ack data_offset flags window csum =
     bytes16 (htons src_port) @ bytes16 (htons dest_port) @ bytes32 (htonl seq) @ bytes32 (htonl ack) @
     [data_offset, flags] @ bytes16 (htons window) @ bytes16 csum @ bytes16 0"

text \<open>
  \<open>tcp_send_segment\<close> on a connection value; the caller puts the changed connection back.  A segment that
  carries data, \<open>SYN\<close> or \<open>FIN\<close> is put in front of the retransmission queue, unless memory runs out.
\<close>

definition push_retransmit ::
  "u32 \<Rightarrow> u8 \<Rightarrow> u8 list \<Rightarrow> u16 \<Rightarrow> tcp_connection \<Rightarrow> tcp_net \<Rightarrow> tcp_connection \<times> tcp_net" where
  "push_retransmit seq flags data data_len c st =
     (case malloc st of (ok, st) \<Rightarrow>
        if \<not> ok then (c, st)
        else case (if data_len > 0 then malloc st else (True, st)) of (ok, st) \<Rightarrow>
          if \<not> ok then (c, st)
          else (c\<lparr>retransmit_queue := \<lparr>re_seq = seq, re_length = data_len,
                    re_data = take (unat data_len) data, re_start_time = None, re_flags = flags,
                    re_retries = 0\<rparr> # retransmit_queue c\<rparr>, st))"

definition advance_seq :: "u8 \<Rightarrow> u16 \<Rightarrow> tcp_connection \<Rightarrow> tcp_connection" where
  "advance_seq flags data_len c =
     (let c = (if data_len > 0 then c\<lparr>next_seq := next_seq c + ucast data_len\<rparr> else c)
      in if flags AND (TCP_SYN OR TCP_FIN) \<noteq> 0 then c\<lparr>next_seq := next_seq c + 1\<rparr> else c)"

definition tcp_send_segment ::
  "u8 \<Rightarrow> u8 list \<Rightarrow> u16 \<Rightarrow> tcp_connection \<Rightarrow> tcp_net \<Rightarrow> (tcp_connection \<times> tcp_net) option" where
  "tcp_send_segment flags data data_len c st =
     (let original_seq = next_seq c;
          syn = (flags AND TCP_SYN \<noteq> 0);
          options = (if syn then [2, 4, 5, 0xB4] else []);
          header_len = 20 + of_nat (length options) :: u16;
          free_space = 4096 - recv_buffer_len c;
          hdr = tcp_header (local_port c) (remote_port c) original_seq (expected_ack c)
                  (if syn then 0x60 else 0x50) flags free_space
      in if unat data_len > length data then None
         else do {
           let payload = take (unat data_len) data;
           let c = advance_seq flags data_len c;
           csum \<leftarrow> tcp_checksum (htonl (local_ip c)) (htonl (remote_ip c))
                     (hdr 0 @ options @ payload) (header_len + data_len);
           st \<leftarrow> net_send_ipv4_packet (remote_ip c) IP_PROTO_TCP (hdr csum @ options @ payload)
                   (header_len + data_len) st;
           Some (if flags = TCP_ACK \<and> data_len = 0 then (c, st)
                 else if flags AND (TCP_SYN OR TCP_FIN) \<noteq> 0 \<or> data_len > 0
                 then push_retransmit original_seq flags data data_len c st
                 else (c, st)) })"

definition send_on :: "nat \<Rightarrow> u8 \<Rightarrow> u8 list \<Rightarrow> u16 \<Rightarrow> tcp_net \<Rightarrow> tcp_net option" where
  "send_on i flags data data_len st =
     do { c \<leftarrow> conns st i;
          (c, st) \<leftarrow> tcp_send_segment flags data data_len c st;
          Some (put_conn i c st) }"

text \<open>The temporary connection of \<open>tcp_send_reset\<close>; all members that are not named are zero.\<close>

definition zero_conn :: tcp_connection where
  "zero_conn = \<lparr>local_ip = 0, remote_ip = 0, local_port = 0, remote_port = 0, mss = 0, next_seq = 0,
     expected_ack = 0, dup_ack_count = 0, state = TCP_CLOSED, retransmit_queue = [], queue_ends = True,
     recv_buffer = replicate 4096 0, recv_buffer_len = 0, last_ack = 0\<rparr>"

definition tcp_send_reset :: "u32 \<Rightarrow> u32 \<Rightarrow> u8 list \<Rightarrow> tcp_net \<Rightarrow> tcp_net option" where
  "tcp_send_reset src_ip dst_ip tcp st =
     do { src_port \<leftarrow> get_u16 tcp 0; dest_port \<leftarrow> get_u16 tcp 2; ack \<leftarrow> get_u32 tcp 8;
          (_, st) \<leftarrow> tcp_send_segment TCP_RST [] 0
            (zero_conn\<lparr>local_ip := ntohl dst_ip, remote_ip := ntohl src_ip, local_port := ntohs dest_port,
               remote_port := ntohs src_port, next_seq := ntohl ack\<rparr>) st;
          Some st }"

section \<open>Timers\<close>

text \<open>
  \<open>pp\<close> is the link the walk stands on: \<open>None\<close> for \<open>active_timers\<close> itself, \<open>Some n\<close> for the \<open>next\<close> member
  of node \<open>n\<close>, which must not have been freed.
\<close>

definition timers_from :: "nat option \<Rightarrow> tcp_timer list \<Rightarrow> tcp_timer list option" where
  "timers_from pp ts =
     (case pp of
        None \<Rightarrow> Some ts
      | Some n \<Rightarrow> (case dropWhile (\<lambda>t. tm_id t \<noteq> n) ts of [] \<Rightarrow> None | _ # rest \<Rightarrow> Some rest))"

text \<open>\<open>to_free = *pp; *pp = to_free->next; free(to_free)\<close>: \<open>*pp\<close> must not be \<open>NULL\<close>.\<close>

definition unlink_timer :: "nat option \<Rightarrow> tcp_net \<Rightarrow> tcp_net option" where
  "unlink_timer pp st =
     do { rest \<leftarrow> timers_from pp (active_timers st);
          case rest of
            [] \<Rightarrow> None
          | t # _ \<Rightarrow> Some (st\<lparr>active_timers := remove_first (\<lambda>u. tm_id u = tm_id t) (active_timers st)\<rparr>) }"

definition update_timer :: "nat \<Rightarrow> (tcp_timer \<Rightarrow> tcp_timer) \<Rightarrow> tcp_net \<Rightarrow> tcp_net" where
  "update_timer n f st =
     st\<lparr>active_timers := map (\<lambda>t. if tm_id t = n then f t else t) (active_timers st)\<rparr>"

text \<open>
  One expired timer: the state and the link the walk goes on from.  After a retransmission the entry
  is behind the new one that \<open>tcp_send_segment\<close> may have put in front of it.
\<close>

definition timer_expired :: "nat option \<Rightarrow> tcp_timer \<Rightarrow> tcp_net \<Rightarrow> (nat option \<times> tcp_net) option" where
  "timer_expired pp timer st =
     (let i = tm_conn timer in
      do { c \<leftarrow> conns st i;
           if state c = TCP_WAIT_FOR_ACK
           then (case retransmit_queue c of
                   entry # _ \<Rightarrow>
                     if re_retries entry < MAX_SYN_RETRIES
                     then do {
                       st \<leftarrow> send_on i TCP_ACK (re_data entry) (re_length entry) st;
                       c' \<leftarrow> conns st i;
                       let k = length (retransmit_queue c') - length (retransmit_queue c);
                       let q = (retransmit_queue c')[k := entry\<lparr>re_start_time := Some (ticks st),
                                  re_retries := re_retries entry + 1\<rparr>];
                       let st = put_conn i (c'\<lparr>retransmit_queue := q\<rparr>) st;
                       Some (Some (tm_id timer), update_timer (tm_id timer) (\<lambda>t. t\<lparr>tm_start_time := ticks st\<rparr>) st) }
                     else do { st \<leftarrow> remove_connection i st; st \<leftarrow> unlink_timer pp st; Some (pp, st) }
                 | [] \<Rightarrow>
                     if \<not> queue_ends c then None
                     else do { st \<leftarrow> remove_connection i st; st \<leftarrow> unlink_timer pp st; Some (pp, st) })
           else if tm_retries timer < MAX_SYN_RETRIES
           then do {
             st \<leftarrow> send_on i (if state c = TCP_SYN_SENT then TCP_SYN else TCP_FIN) [] 0 st;
             Some (Some (tm_id timer), update_timer (tm_id timer)
               (\<lambda>t. t\<lparr>tm_retries := tm_retries t + 1, tm_start_time := ticks st\<rparr>) st) }
           else do { st \<leftarrow> remove_connection i st; st \<leftarrow> unlink_timer pp st; Some (pp, st) } })"

text \<open>
  The walk.  Each turn passes a node or removes one, so that as many turns as there are timers
  suffice.
\<close>

fun check_timers :: "nat \<Rightarrow> nat option \<Rightarrow> u32 \<Rightarrow> tcp_net \<Rightarrow> tcp_net option" where
  "check_timers fuel pp current_time st =
     do { rest \<leftarrow> timers_from pp (active_timers st);
          case rest of
            [] \<Rightarrow> Some st
          | timer # _ \<Rightarrow>
              (case fuel of
                 0 \<Rightarrow> None
               | Suc fuel \<Rightarrow>
                   if current_time - tm_start_time timer \<ge> tm_timeout_ms timer
                   then do { (pp, st) \<leftarrow> timer_expired pp timer st; check_timers fuel pp current_time st }
                   else check_timers fuel (Some (tm_id timer)) current_time st) }"

definition check_tcp_timers :: "tcp_net \<Rightarrow> tcp_net option" where
  "check_tcp_timers st = check_timers (length (active_timers st)) None (ticks st) st"

section \<open>HTTP\<close>

fun dec_digits :: "nat \<Rightarrow> u8 list" where
  "dec_digits n = (if n < 10 then [of_nat (48 + n)] else dec_digits (n div 10) @ [of_nat (48 + n mod 10)])"

declare dec_digits.simps [simp del]

definition http_headers :: "u32 \<Rightarrow> u8 list" where
  "http_headers sz =
     ascii ''HTTP/1.1 200 OK'' @ [13, 10] @ ascii ''Content-Type: text/html'' @ [13, 10] @
     ascii ''Content-Length: '' @ dec_digits (unat sz) @ [13, 10] @
     ascii ''Connection: close'' @ [13, 10, 13, 10]"

definition http_not_found :: "u8 list" where
  "http_not_found = ascii ''HTTP/1.1 404 Not Found'' @ [13, 10] @ ascii ''...''"

definition set_state :: "nat \<Rightarrow> tcp_state \<Rightarrow> tcp_net \<Rightarrow> tcp_net option" where
  "set_state i s st = map_option (\<lambda>c. put_conn i (c\<lparr>state := s\<rparr>) st) (conns st i)"

text \<open>The length of a segment is 16 bits wide, \<open>file.size\<close> 32.\<close>

definition handle_http_request :: "nat \<Rightarrow> tcp_net \<Rightarrow> tcp_net option" where
  "handle_http_request i st =
     (case index_html st of
        None \<Rightarrow>
          do { st \<leftarrow> send_on i (TCP_PSH OR TCP_ACK) http_not_found (of_nat (length http_not_found)) st;
               set_state i TCP_CLOSE_WAIT st }
      | Some buffer \<Rightarrow>
          (case malloc st of (ok, st) \<Rightarrow>
             if \<not> ok then set_state i TCP_CLOSE_WAIT st
             else do {
               let sz = (of_nat (length buffer) :: u32);
               let sz = (if sz > 0 \<and> last buffer = 0x0A then sz - 1 else sz);
               st \<leftarrow> send_on i (TCP_PSH OR TCP_ACK) (http_headers sz) (of_nat (length (http_headers sz))) st;
               st \<leftarrow> send_on i (TCP_PSH OR TCP_ACK) buffer (ucast sz) st;
               st \<leftarrow> set_state i TCP_WAIT_FOR_ACK st;
               Some (start_retransmission_timer i TCP_DATA_RETRANSMIT_TIMEOUT st) }))"

definition is_http_get_request :: "u8 list \<Rightarrow> u16 \<Rightarrow> bool option" where
  "is_http_get_request data len =
     (if len \<ge> 4 then do { a \<leftarrow> rd data 0;
        if a \<noteq> 0x47 then Some False else do { b \<leftarrow> rd data 1;
        if b \<noteq> 0x45 then Some False else do { c \<leftarrow> rd data 2;
        if c \<noteq> 0x54 then Some False else do { d \<leftarrow> rd data 3; Some (d = 0x20) } } } }
      else Some False)"

section \<open>The states\<close>

definition ack_entries :: "u32 \<Rightarrow> tcp_connection \<Rightarrow> tcp_connection option" where
  "ack_entries ack c =
     (if queue_ends c
      then Some (c\<lparr>retransmit_queue := filter (\<lambda>e. \<not> ack \<ge> re_seq e + ucast (re_length e)) (retransmit_queue c)\<rparr>)
      else None)"

definition handle_data :: "nat \<Rightarrow> u32 \<Rightarrow> u8 list \<Rightarrow> u16 \<Rightarrow> tcp_net \<Rightarrow> tcp_net option" where
  "handle_data i seq payload data_len st =
     do { c \<leftarrow> conns st i;
          let st = put_conn i (c\<lparr>expected_ack := seq + ucast data_len\<rparr>) st;
          get \<leftarrow> is_http_get_request payload data_len;
          if get
          then do { st \<leftarrow> handle_http_request i st; set_state i TCP_WAIT_FOR_ACK st }
          else do {
            buf \<leftarrow> blit (recv_buffer c) (unat (recv_buffer_len c)) payload (unat data_len);
            let c = c\<lparr>recv_buffer := buf, recv_buffer_len := recv_buffer_len c + data_len,
                      expected_ack := seq + ucast data_len\<rparr>;
            send_on i TCP_ACK [] 0 (put_conn i c st) } }"

definition handle_fin :: "nat \<Rightarrow> tcp_net \<Rightarrow> tcp_net option" where
  "handle_fin i st =
     do { c \<leftarrow> conns st i;
          let st = put_conn i (c\<lparr>expected_ack := expected_ack c + 1, state := TCP_CLOSE_WAIT\<rparr>) st;
          st \<leftarrow> send_on i TCP_ACK [] 0 st;
          st \<leftarrow> send_on i (TCP_FIN OR TCP_ACK) [] 0 st;
          set_state i TCP_LAST_ACK st }"

definition reestablish :: "u32 \<Rightarrow> u32 \<Rightarrow> tcp_connection \<Rightarrow> tcp_connection" where
  "reestablish seq ack c =
     (if state c = TCP_SYN_SENT \<or> state c = TCP_CLOSE_WAIT
      then c\<lparr>state := TCP_ESTABLISHED, next_seq := seq + 1, expected_ack := ack + 1, dup_ack_count := 0\<rparr>
      else c)"

definition count_duplicate_ack :: "nat \<Rightarrow> u32 \<Rightarrow> tcp_net \<Rightarrow> tcp_net option" where
  "count_duplicate_ack i ack st =
     do { c \<leftarrow> conns st i;
          if ack = last_ack c
          then do {
            let c = c\<lparr>dup_ack_count := dup_ack_count c + 1\<rparr>;
            let st = put_conn i c st;
            if dup_ack_count c = 3
            then (case retransmit_queue c of
                    entry # _ \<Rightarrow> send_on i TCP_ACK (re_data entry) (re_length entry) st
                  | [] \<Rightarrow> if queue_ends c then Some st else None)
            else Some st }
          else Some st }"

definition handle_established_state :: "nat \<Rightarrow> u8 list \<Rightarrow> u16 \<Rightarrow> tcp_net \<Rightarrow> tcp_net option" where
  "handle_established_state i data len st =
     do { seq \<leftarrow> map_option ntohl (get_u32 data 4);
          ack \<leftarrow> map_option ntohl (get_u32 data 8);
          off \<leftarrow> rd data 12;
          flags \<leftarrow> rd data 13;
          let hlen = (ucast (drop_bit 4 off) * 4 :: u16);
          let data_len = len - hlen;
          st \<leftarrow> check_tcp_timers st;
          c \<leftarrow> conns st i;
          st \<leftarrow> count_duplicate_ack i ack (put_conn i (reestablish seq ack c) st);
          c \<leftarrow> conns st i;
          let c = c\<lparr>expected_ack := seq + ucast data_len\<rparr>;
          let c = (if ack > next_seq c then c\<lparr>next_seq := ack\<rparr> else c);
          c \<leftarrow> ack_entries ack c;
          let st = put_conn i c st;
          st \<leftarrow> (if seq \<noteq> expected_ack c then send_on i TCP_ACK [] 0 st else Some st);
          st \<leftarrow> (if data_len > 0 then handle_data i seq (drop (unat hlen) data) data_len st else Some st);
          (if flags AND TCP_FIN \<noteq> 0 then handle_fin i st else Some st) }"

definition handle_wait_for_ack_state :: "nat \<Rightarrow> u8 list \<Rightarrow> tcp_net \<Rightarrow> tcp_net option" where
  "handle_wait_for_ack_state i data st =
     do { ack \<leftarrow> map_option ntohl (get_u32 data 8);
          c \<leftarrow> conns st i;
          case retransmit_queue c of
            [] \<Rightarrow> if queue_ends c then Some st else None
          | entry # rest \<Rightarrow>
              let expected = re_seq entry + ucast (re_length entry)
                    + (if re_flags entry AND (TCP_SYN OR TCP_FIN) \<noteq> 0 then 1 else 0) in
              if ack \<ge> expected
              then let st = put_conn i (c\<lparr>retransmit_queue := rest\<rparr>) st in
                if rest = [] \<and> queue_ends c then remove_connection i st else Some st
              else if ack > last_ack c
              then Some (put_conn i (c\<lparr>last_ack := ack, retransmit_queue := entry\<lparr>re_retries := 0\<rparr> # rest\<rparr>) st)
              else do {
                let c = c\<lparr>dup_ack_count := dup_ack_count c + 1\<rparr>;
                if dup_ack_count c \<ge> 3
                then do {
                  st \<leftarrow> send_on i (re_flags entry) (re_data entry) (re_length entry) (put_conn i c st);
                  c \<leftarrow> conns st i;
                  Some (put_conn i (c\<lparr>dup_ack_count := 0\<rparr>) st) }
                else Some (put_conn i c st) } }"

definition handle_last_ack_state :: "nat \<Rightarrow> u8 list \<Rightarrow> tcp_net \<Rightarrow> tcp_net option" where
  "handle_last_ack_state i data st =
     do { flags \<leftarrow> rd data 13;
          ack \<leftarrow> get_u32 data 8;
          c \<leftarrow> conns st i;
          if flags AND TCP_ACK \<noteq> 0 \<and> ntohl ack = next_seq c then remove_connection i st else Some st }"

section \<open>Incoming segments\<close>

text \<open>
  A new connection for a \<open>SYN\<close>.  \<open>src_ip\<close> and \<open>dst_ip\<close> are the fields of the IP header as they are in
  memory.
\<close>

definition accept_syn :: "u32 \<Rightarrow> u32 \<Rightarrow> u8 list \<Rightarrow> u16 \<Rightarrow> u16 \<Rightarrow> tcp_net \<Rightarrow> tcp_net option" where
  "accept_syn src_ip dst_ip data src_port dest_port st =
     (case malloc st of (ok, st) \<Rightarrow>
        if \<not> ok then Some st
        else do {
          seq \<leftarrow> get_u32 data 4;
          off \<leftarrow> rd data 12;
          let (isn, st) = generate_secure_initial_seq st;
          let options_len = drop_bit 4 off * 4 - 20;
          m \<leftarrow> (if options_len > 0 then process_tcp_options (drop 20 data) options_len DEFAULT_MSS
                else Some DEFAULT_MSS);
          let c = zero_conn\<lparr>local_ip := ntohl dst_ip, remote_ip := ntohl src_ip, local_port := dest_port,
                    remote_port := src_port, next_seq := isn, expected_ack := ntohl seq + 1,
                    state := TCP_SYN_RECEIVED, mss := m\<rparr>;
          let i = next_conn st;
          let st = add_connection i (put_conn i c (st\<lparr>next_conn := i + 1\<rparr>));
          st \<leftarrow> send_on i (TCP_SYN OR TCP_ACK) [] 0 st;
          Some (start_retransmission_timer i TCP_SYN_RETRANSMIT_TIMEOUT st) })"

definition handle_syn_sent_state :: "nat \<Rightarrow> u8 list \<Rightarrow> u8 \<Rightarrow> tcp_net \<Rightarrow> tcp_net option" where
  "handle_syn_sent_state i data flags st =
     do { seq \<leftarrow> get_u32 data 4;
          ack \<leftarrow> get_u32 data 8;
          c \<leftarrow> conns st i;
          if flags AND (TCP_SYN OR TCP_ACK) = TCP_SYN OR TCP_ACK \<and> ntohl ack = next_seq c
          then do {
            st \<leftarrow> send_on i TCP_ACK [] 0
                    (put_conn i (c\<lparr>expected_ack := ntohl seq + 1, state := TCP_ESTABLISHED\<rparr>) st);
            Some (cancel_retransmission_timer i st) }
          else Some st }"

definition handle_syn_received_state :: "nat \<Rightarrow> u8 list \<Rightarrow> u8 \<Rightarrow> tcp_net \<Rightarrow> tcp_net option" where
  "handle_syn_received_state i data flags st =
     do { ack \<leftarrow> get_u32 data 8;
          c \<leftarrow> conns st i;
          if flags AND TCP_ACK \<noteq> 0 \<and> ntohl ack = next_seq c
          then Some (cancel_retransmission_timer i (put_conn i (c\<lparr>state := TCP_ESTABLISHED\<rparr>) st))
          else Some st }"

definition tcp_handle_packet :: "u32 \<Rightarrow> u32 \<Rightarrow> u8 list \<Rightarrow> u16 \<Rightarrow> tcp_net \<Rightarrow> tcp_net option" where
  "tcp_handle_packet src_ip dst_ip data len st =
     do { off \<leftarrow> rd data 12;
          flags \<leftarrow> rd data 13;
          if drop_bit 4 off < 5 then tcp_send_reset src_ip dst_ip data st
          else do {
            cleared \<leftarrow> blit data 16 [0, 0] 2;
            _ \<leftarrow> tcp_checksum src_ip dst_ip cleared len;  \<comment> \<open>computed, the comparison is commented out\<close>
            src_port \<leftarrow> map_option ntohs (get_u16 data 0);
            dest_port \<leftarrow> map_option ntohs (get_u16 data 2);
            conn \<leftarrow> find_connection (ntohl src_ip) src_port (ntohl dst_ip) dest_port st;
            if flags AND TCP_RST \<noteq> 0
            then (case conn of Some i \<Rightarrow> remove_connection i st | None \<Rightarrow> Some st)
            else case conn of
              None \<Rightarrow>
                if flags AND TCP_SYN \<noteq> 0 \<and> is_listening_port dest_port st
                then accept_syn src_ip dst_ip data src_port dest_port st
                else tcp_send_reset src_ip dst_ip data st
            | Some i \<Rightarrow>
                do { c \<leftarrow> conns st i;
                     case state c of
                       TCP_SYN_SENT \<Rightarrow> handle_syn_sent_state i data flags st
                     | TCP_SYN_RECEIVED \<Rightarrow> handle_syn_received_state i data flags st
                     | TCP_ESTABLISHED \<Rightarrow> handle_established_state i data len st
                     | TCP_WAIT_FOR_ACK \<Rightarrow> handle_wait_for_ack_state i data st
                     | TCP_LAST_ACK \<Rightarrow> handle_last_ack_state i data st
                     | _ \<Rightarrow> Some st } } }"

text \<open>\<open>tcp_connect\<close> initialises only some members of the connection; it returns \<open>None\<close> for \<open>NULL\<close>.\<close>

definition tcp_connect :: "u32 \<Rightarrow> u16 \<Rightarrow> tcp_net \<Rightarrow> (nat option \<times> tcp_net) option" where
  "tcp_connect rip rport st =
     (case malloc st of (ok, st) \<Rightarrow>
        if \<not> ok then Some (None, st)
        else do {
          let (r, st) = generate_secure_initial_seq st;
          let port = 50000 + ucast (r mod 15536);
          let (isn, st) = generate_secure_initial_seq st;
          let i = next_conn st;
          let c = (fresh_conn st)\<lparr>local_ip := nic_ip_addr st, local_port := port, remote_ip := rip,
                    remote_port := rport, state := TCP_SYN_SENT, next_seq := isn, expected_ack := 0\<rparr>;
          st \<leftarrow> send_on i TCP_SYN [] 0 (put_conn i c (st\<lparr>next_conn := i + 1\<rparr>));
          Some (Some i, add_connection i st) })"

section \<open>Sending a segment\<close>

text \<open>The part of the state above the network layer.\<close>

lemma net_step_tcp:
  assumes "net_step st st'"
  shows "conns st' = conns st" "next_conn st' = next_conn st" "connection_list st' = connection_list st"
    "listen_ports st' = listen_ports st" "active_timers st' = active_timers st"
    "next_timer st' = next_timer st" "seq_counter st' = seq_counter st"
    "fresh_conn st' = fresh_conn st" "index_html st' = index_html st"
  using assms by (cases st; cases st'; simp add: net_step_def)+

text \<open>The connection after a segment: only the sequence number and the queue have changed.\<close>

definition segment_sent :: "u8 \<Rightarrow> u16 \<Rightarrow> tcp_connection \<Rightarrow> tcp_connection \<Rightarrow> bool" where
  "segment_sent flags data_len c c' \<longleftrightarrow>
     c' = c\<lparr>next_seq := next_seq c + ucast data_len + (if flags AND (TCP_SYN OR TCP_FIN) \<noteq> 0 then 1 else 0),
            retransmit_queue := retransmit_queue c'\<rparr> \<and>
     (retransmit_queue c' = retransmit_queue c \<or>
      (\<exists>e. retransmit_queue c' = e # retransmit_queue c \<and> re_seq e = next_seq c \<and> re_length e = data_len \<and>
         re_flags e = flags))"

lemma length_tcp_header [simp]: "length (tcp_header a b c d e f g h) = 20"
  by (simp add: tcp_header_def)

lemma net_step_push: "push_retransmit sq fl data len c st = (c', st') \<Longrightarrow> net_step st st'"
  by (auto simp: push_retransmit_def malloc_def net_step_def net_config_def Let_def split: if_splits prod.splits)

lemma push_retransmit_conn:
  assumes "push_retransmit sq fl data len c st = (c', st')"
  shows "c' = c\<lparr>retransmit_queue := retransmit_queue c'\<rparr> \<and> (retransmit_queue c' = retransmit_queue c \<or>
    (\<exists>e. retransmit_queue c' = e # retransmit_queue c \<and> re_seq e = sq \<and> re_length e = len \<and> re_flags e = fl))"
  using assms by (auto simp: push_retransmit_def split: if_splits prod.splits)

lemma tcp_send_segment_runs:
  assumes ok: "net_ok st" and len: "unat data_len \<le> length data" "unat data_len \<le> 1460"
  shows "runs (tcp_send_segment flags data data_len c st)
    (\<lambda>(c', st'). segment_sent flags data_len c c' \<and> net_step st st')"
proof -
  define opts :: "u8 list" where "opts = (if flags AND TCP_SYN \<noteq> 0 then [2, 4, 5, 0xB4] else [])"
  define hl :: u16 where "hl = 20 + of_nat (length opts)"
  define hdr where "hdr = tcp_header (local_port c) (remote_port c) (next_seq c) (expected_ack c)
    (if flags AND TCP_SYN \<noteq> 0 then 0x60 else 0x50) flags (4096 - recv_buffer_len c)"
  define payload where "payload = take (unat data_len) data"
  define c1 where "c1 = c\<lparr>next_seq := next_seq c + ucast data_len +
    (if flags AND (TCP_SYN OR TCP_FIN) \<noteq> 0 then 1 else 0)\<rparr>"
  have lo: "length opts \<le> 4" by (simp add: opts_def)
  have hl: "unat hl = 20 + length opts" by (simp add: hl_def opts_def)
  have tot: "unat (hl + data_len) = 20 + length opts + unat data_len"
    using hl lo len(2) by (subst unat_add_le) auto
  have lp: "length (hdr x @ opts @ payload) = unat (hl + data_len)" for x
    using tot len(1) by (simp add: hdr_def payload_def)
  obtain cs where cs: "tcp_checksum (htonl (local_ip c)) (htonl (remote_ip c))
      (hdr 0 @ opts @ payload) (hl + data_len) = Some cs"
    using lp [of 0] by (simp add: tcp_checksum_def)
  have snd: "runs (net_send_ipv4_packet (remote_ip c) IP_PROTO_TCP (hdr cs @ opts @ payload) (hl + data_len) st)
      (net_step st)"
    by (rule net_send_ipv4_runs [OF ok]) (use lp [of cs] tot lo len(2) in auto)
  let ?fin = "\<lambda>st. if flags = TCP_ACK \<and> data_len = 0 then (c1, st)
    else if flags AND (TCP_SYN OR TCP_FIN) \<noteq> 0 \<or> data_len > 0
    then push_retransmit (next_seq c) flags data data_len c1 st else (c1, st)"
  have fin: "segment_sent flags data_len c (fst (?fin st1)) \<and> net_step st (snd (?fin st1))"
    if st1: "net_step st st1" for st1
  proof (cases "push_retransmit (next_seq c) flags data data_len c1 st1")
    case (Pair c' st2)
    note p = push_retransmit_conn [OF Pair]
    have "segment_sent flags data_len c c1" by (simp add: c1_def segment_sent_def)
    moreover have "segment_sent flags data_len c c'"
      using p unfolding segment_sent_def by (auto simp: c1_def)
    moreover have "net_step st st2" using st1 net_step_push [OF Pair] by (rule net_step_trans)
    ultimately show ?thesis using Pair st1 by auto
  qed
  have c: "advance_seq flags data_len c = c1"
    by (cases "data_len = 0") (simp_all add: c1_def advance_seq_def word_gt_0)
  have ips: "local_ip c1 = local_ip c" "remote_ip c1 = remote_ip c" by (simp_all add: c1_def)
  have "\<not> length data < unat data_len" using len(1) by simp
  then have "tcp_send_segment flags data data_len c st =
    do { csum \<leftarrow> tcp_checksum (htonl (local_ip c1)) (htonl (remote_ip c1)) (hdr 0 @ opts @ payload) (hl + data_len);
         st \<leftarrow> net_send_ipv4_packet (remote_ip c1) IP_PROTO_TCP (hdr csum @ opts @ payload) (hl + data_len) st;
         Some (?fin st) }"
    by (simp only: tcp_send_segment_def Let_def c if_False opts_def [symmetric] hl_def [symmetric]
        hdr_def [symmetric] payload_def [symmetric])
  then have eq: "tcp_send_segment flags data data_len c st =
    do { st \<leftarrow> net_send_ipv4_packet (remote_ip c) IP_PROTO_TCP (hdr cs @ opts @ payload) (hl + data_len) st;
         Some (?fin st) }"
    using cs by (simp only: ips bind.bind_lunit)
  show ?thesis
    unfolding eq runs_simps
    by (rule runs_mono [OF snd]) (use fin in \<open>simp add: case_prod_unfold\<close>)
qed

section \<open>Options\<close>

lemma unat_minus_1: "r \<noteq> 0 \<Longrightarrow> unat (r - 1) = unat r - 1" for r :: u8
  by (simp add: unat_sub word_le_nat_alt unat_gt_0 Suc_le_eq)

lemma unat_minus_2: "r \<noteq> 0 \<Longrightarrow> r - 1 \<noteq> 0 \<Longrightarrow> unat (r - 2) = unat r - 2 \<and> 2 \<le> unat r" for r :: u8
proof -
  assume r: "r \<noteq> 0" "r - 1 \<noteq> 0"
  have "unat (r - 1) \<noteq> 0" using r(2) by (simp add: unat_eq_0)
  then have "2 \<le> unat r" using unat_minus_1 [OF r(1)] by simp
  moreover from this have "unat (r - 2) = unat r - 2" by (simp add: unat_sub word_le_nat_alt)
  ultimately show ?thesis by simp
qed

lemma unat_sub_le_drop:
  "\<not> d < e \<Longrightarrow> unat d \<le> length p \<Longrightarrow> unat (d - e) \<le> length (drop (unat e) p)" for d e :: u8
  by (simp add: unat_sub word_le_nat_alt not_less)

lemma unat_numeral_2: "unat (2 :: u8) = 2"
  by simp

text \<open>No sequence of options makes the loop read beyond the options, and the MSS stays clamped.\<close>

lemma process_tcp_options_safe:
  "unat remaining \<le> length ptr \<Longrightarrow> m \<le> DEFAULT_MSS \<Longrightarrow>
    runs (process_tcp_options ptr remaining m) (\<lambda>m'. m' \<le> DEFAULT_MSS)"
proof (induction ptr remaining m rule: process_tcp_options.induct)
  case (1 remaining m)
  then show ?case by (simp add: unat_eq_0)
next
  case (2 kind remaining m)
  show ?case
  proof (cases "remaining = 0")
    case False
    then have "unat remaining = 1" using "2.prems"(1) by (simp add: unat_gt_0 le_Suc_eq unat_eq_0)
    then have "remaining = 1" by (simp add: unat_eq_iff)
    then show ?thesis using "2.prems"(2) by (simp add: process_tcp_options.simps)
  qed (use 2 in simp)
next
  case (3 kind len ptr remaining m)
  show ?case
  proof (cases "remaining = 0 \<or> kind = 0")
    case True
    then show ?thesis using "3.prems" by auto
  next
    case r: False
    then have r1: "unat (remaining - 1) = unat remaining - 1" by (simp add: unat_minus_1)
    show ?thesis
    proof (cases "kind = 1")
      case True
      have "unat (remaining - 1) \<le> length (len # ptr)" using r1 "3.prems"(1) by simp
      then have "runs (process_tcp_options (len # ptr) (remaining - 1) m) (\<lambda>m'. m' \<le> DEFAULT_MSS)"
        using "3.IH"(1) r True "3.prems"(2) by simp
      then show ?thesis using r True by simp
    next
      case k: False
      show ?thesis
      proof (cases "remaining - 1 = 0 \<or> len < 2")
        case True
        then show ?thesis using r k "3.prems"(2) by auto
      next
        case l: False
        note r2 = unat_minus_2 [of remaining]
        have le: "unat (remaining - 2) \<le> length ptr" using r2 r l "3.prems"(1) by simp
        show ?thesis
        proof (cases "kind = 2 \<and> len = 4 \<and> remaining - 2 \<ge> 2")
          case True
          then have ge: "2 \<le> unat (remaining - 2)" by (simp add: word_le_nat_alt)
          then have two: "unat (remaining - 2 - 2) = unat (remaining - 2) - 2"
            using unat_sub [of 2 "remaining - 2"] True by (metis unat_numeral_2)
          let ?v = "word16 (ptr ! 1) (ptr ! 0)"
          have "runs (process_tcp_options (drop 2 ptr) (remaining - 2 - 2)
              (if ?v < DEFAULT_MSS then ?v else DEFAULT_MSS)) (\<lambda>m'. m' \<le> DEFAULT_MSS)"
          proof (rule "3.IH"(2))
            show "rd ptr 0 = Some (ptr ! 0)" "rd ptr 1 = Some (ptr ! 1)"
              using le ge by (auto simp: rd_def)
            show "unat (remaining - 2 - 2) \<le> length (drop 2 ptr)" using two le by simp
            show "(if ?v < DEFAULT_MSS then ?v else DEFAULT_MSS) \<le> DEFAULT_MSS"
              by (simp add: less_imp_le)
          qed (use r k l True in simp_all)
          moreover have "ptr \<noteq> []" "Suc 0 < length ptr" using le ge by auto
          ultimately show ?thesis using r k l True
            by (cases "?v < DEFAULT_MSS") (simp_all add: Let_def rd_def)
        next
          case False
          have sub: "unat (remaining - 2 - (len - 2)) \<le> length (drop (unat (len - 2)) ptr)"
            if "\<not> remaining - 2 < len - 2"
            by (rule unat_sub_le_drop [OF that le])
          show ?thesis
            using "3.IH"(3) [of "remaining - 2" "len - 2"] r k l False "3.prems"(2) sub
            by (auto simp: Let_def)
        qed
      qed
    qed
  qed
qed

section \<open>Checksums\<close>

lemma sum16_append: "even (length p) \<Longrightarrow> sum16 (p @ q) acc = sum16 q (sum16 p acc)"
  by (induction p acc rule: sum16.induct) simp_all

lemma tcp_sum16_even: "even (length p) \<Longrightarrow> tcp_sum16 p acc = sum16 p acc"
  by (induction p acc rule: sum16.induct) simp_all

lemma push_bit_of_ucast_u8: "push_bit 8 (ucast a) = (ucast (word16 0 a) :: u32)" for a :: u8
proof (rule bit_word_eqI)
  fix n
  show "bit (push_bit 8 (ucast a) :: u32) n = bit (ucast (word16 0 a) :: u32) n" if "n < LENGTH(32)"
    using that by (auto simp: word16_def bit_push_bit_iff bit_ucast_iff dest: bit_imp_le_length)
qed

lemma tcp_sum16_odd: "even (length p) \<Longrightarrow> tcp_sum16 (p @ [a]) acc = sum16 (p @ [0, a]) acc"
  by (induction p acc rule: sum16.induct) (simp_all add: word16_def push_bit_of_ucast_u8)
end
