(* ===== verification/TcpInv.thy ===== *)
theory TcpInv
  imports Tcp
begin

text \<open>
  The invariant of the TCP layer of \<open>src/drivers/net/tcp.c\<close> and the state machine its connections follow:
  the lists refer to allocated connections only, a connection has at most one timer and none while
  it is established, and the states change along \<open>tcp_move\<close>.  Since several operations of the code
  may be undefined (\<open>check_tcp_timers\<close>, the receive buffer), the operations are described by partial
  correctness (\<open>partially\<close>).
\<close>

section \<open>Partial correctness\<close>

definition partially :: "'a option \<Rightarrow> ('a \<Rightarrow> bool) \<Rightarrow> bool" where
  "partially m Q = (case m of None \<Rightarrow> True | Some x \<Rightarrow> Q x)"

lemma partially_simps [simp]:
  "partially (Some x) Q = Q x"
  "partially None Q"
  "partially (Option.bind m f) Q = partially m (\<lambda>x. partially (f x) Q)"
  "partially (map_option g m) Q = partially m (\<lambda>x. Q (g x))"
  by (simp_all add: partially_def split: option.splits bind_splits)

lemma partially_if [simp]: "partially (if b then m else n) Q = (if b then partially m Q else partially n Q)"
  by simp

lemma partially_True [simp]: "partially m (\<lambda>x. True)"
  by (simp add: partially_def split: option.splits)

lemma partially_mono: "partially m P \<Longrightarrow> (\<And>x. P x \<Longrightarrow> Q x) \<Longrightarrow> partially m Q"
  by (simp add: partially_def split: option.splits)

lemma partially_any: "(\<And>x. Q x) \<Longrightarrow> partially m Q"
  by (simp add: partially_def split: option.splits)

lemma partiallyI: "(\<And>x. m = Some x \<Longrightarrow> Q x) \<Longrightarrow> partially m Q"
  by (simp add: partially_def split: option.splits)

lemma partiallyD: "partially m Q \<Longrightarrow> m = Some x \<Longrightarrow> Q x"
  by (simp add: partially_def)

lemma partially_mono_pair:
  "partially m (\<lambda>(a, s). P a s) \<Longrightarrow> (\<And>a s. P a s \<Longrightarrow> Q a s) \<Longrightarrow> partially m (\<lambda>(a, s). Q a s)"
  by (auto simp: partially_def split: option.splits)

section \<open>What sending changes\<close>

lemma eth_send_frame_step: "partially (eth_send_frame mac et data len st) (net_step st)"
  by (simp add: eth_send_frame_def Let_def net_step_def net_config_def partially_any)

lemma queue_packet_step: "partially (queue_packet dst proto payload len st) (net_step st)"
  by (simp add: queue_packet_def malloc_def net_step_def net_config_def)

lemma net_send_ipv4_step: "partially (net_send_ipv4_packet dst_ip proto payload len st) (net_step st)"
proof (cases "20 + len > 1518")
  case le: False
  show ?thesis
  proof (cases "arp_lookup (next_hop dst_ip st) st")
    case (Pair r st1)
    note step = net_step_arp_lookup [OF Pair]
    show ?thesis
    proof (cases r)
      case None
      have "partially (queue_packet dst_ip proto payload len st1)
        (\<lambda>st2. net_step st (rtl8139_send_arp_request (nic_ip_addr st2) (next_hop dst_ip st) st2))"
        by (rule partially_mono [OF queue_packet_step])
          (blast intro: net_step_trans net_step_arp_request step)
      then show ?thesis using le Pair None by (simp add: net_send_ipv4_packet_def next_hop_eq Let_def)
    next
      case (Some mac)
      have id: "net_step st (st1\<lparr>packet_id := x\<rparr>)" for x
        using step by (simp add: net_step_def net_config_def)
      have "partially (eth_send_frame mac ETHERTYPE_IP buf (20 + len) (st1\<lparr>packet_id := x\<rparr>)) (net_step st)" for buf x
        by (rule partially_mono [OF eth_send_frame_step]) (blast intro: net_step_trans id)
      then show ?thesis using le Pair Some
        by (simp add: net_send_ipv4_packet_def next_hop_eq Let_def partially_any)
    qed
  qed
qed (simp add: net_send_ipv4_packet_def)

text \<open>
  The members of a connection that \<open>tcp_send_segment\<close> leaves alone.
\<close>

definition kept :: "tcp_connection \<Rightarrow> tcp_connection \<Rightarrow> bool" where
  "kept c c' \<longleftrightarrow> (\<exists>s q. c' = c\<lparr>next_seq := s, retransmit_queue := q\<rparr>)"

lemma keptI [simp, intro]:
  "kept c c" "kept c (c\<lparr>next_seq := s\<rparr>)" "kept c (c\<lparr>retransmit_queue := q\<rparr>)"
  "kept c (c\<lparr>next_seq := s, retransmit_queue := q\<rparr>)"
proof -
  have "c = c\<lparr>next_seq := next_seq c, retransmit_queue := retransmit_queue c\<rparr>"
    "c\<lparr>next_seq := s\<rparr> = c\<lparr>next_seq := s, retransmit_queue := retransmit_queue c\<rparr>"
    "c\<lparr>retransmit_queue := q\<rparr> = c\<lparr>next_seq := next_seq c, retransmit_queue := q\<rparr>"
    by simp_all
  then show "kept c c" "kept c (c\<lparr>next_seq := s\<rparr>)" "kept c (c\<lparr>retransmit_queue := q\<rparr>)"
    "kept c (c\<lparr>next_seq := s, retransmit_queue := q\<rparr>)"
    unfolding kept_def by blast+
qed

lemma kept_D:
  assumes "kept c c'"
  shows "state c' = state c" "recv_buffer c' = recv_buffer c" "recv_buffer_len c' = recv_buffer_len c"
    "queue_ends c' = queue_ends c" "remote_ip c' = remote_ip c" "expected_ack c' = expected_ack c"
  using assms by (auto simp: kept_def)

lemma kept_trans: "kept a b \<Longrightarrow> kept b c \<Longrightarrow> kept a c"
  unfolding kept_def by (elim exE, simp only:, rule exI, rule exI) simp

lemma push_retransmit_kept: "push_retransmit sq fl data len c st = (c', st') \<Longrightarrow> kept c c' \<and> net_step st st'"
  using push_retransmit_conn [of sq fl data len c st c' st'] net_step_push keptI(3) by metis

lemma advance_seq_kept: "kept c (advance_seq flags len c)"
  by (simp add: advance_seq_def Let_def)

lemma tcp_send_segment_keeps:
  "partially (tcp_send_segment flags data data_len c st) (\<lambda>(c', st'). kept c c' \<and> net_step st st')"
proof -
  define c1 where "c1 = advance_seq flags data_len c"
  define fin where "fin = (\<lambda>st1. if flags = TCP_ACK \<and> data_len = 0 then (c1, st1)
    else if flags AND (TCP_SYN OR TCP_FIN) \<noteq> 0 \<or> data_len > 0
    then push_retransmit (next_seq c) flags data data_len c1 st1 else (c1, st1))"
  have k: "kept c c1" by (simp add: c1_def advance_seq_kept)
  have fin: "kept c (fst (fin st1)) \<and> net_step st (snd (fin st1))" if "net_step st st1" for st1
  proof (cases "push_retransmit (next_seq c) flags data data_len c1 st1")
    case (Pair c' st2)
    have "kept c c'" "net_step st st2"
      using push_retransmit_kept [OF Pair] that k kept_trans net_step_trans by blast+
    then show ?thesis using that k by (simp add: fin_def Pair)
  qed
  have "partially (net_send_ipv4_packet ip IP_PROTO_TCP pl len st)
    (\<lambda>st1. case fin st1 of (c', st') \<Rightarrow> kept c c' \<and> net_step st st')" for ip pl len
    by (rule partially_mono [OF net_send_ipv4_step]) (use fin in \<open>simp add: case_prod_unfold\<close>)
  note send = this
  have eq: "(if flags = TCP_ACK \<and> data_len = 0 then (c1, st1)
    else if flags AND (TCP_SYN OR TCP_FIN) \<noteq> 0 \<or> data_len > 0
    then push_retransmit (next_seq c) flags data data_len c1 st1 else (c1, st1)) = fin st1" for st1
    by (simp add: fin_def)
  show ?thesis
    unfolding tcp_send_segment_def Let_def c1_def [symmetric]
    by (simp only: partially_simps eq if_bool_eq_conj simp_thms partially_if)
      (intro impI partially_any send)
qed

section \<open>The invariant\<close>

definition has_timer :: "nat \<Rightarrow> tcp_net \<Rightarrow> bool" where
  "has_timer i st \<longleftrightarrow> i \<in> tm_conn ` set (active_timers st)"

text \<open>
  \<open>connection_list\<close> holds exactly the allocated connections, each once; every timer belongs to an
  allocated connection that is not established, and no connection has two timers.
\<close>

definition tcp_ok :: "tcp_net \<Rightarrow> bool" where
  "tcp_ok st \<longleftrightarrow>
     distinct (connection_list st) \<and> (\<forall>i. i \<in> set (connection_list st) \<longleftrightarrow> conns st i \<noteq> None) \<and>
     (\<forall>i\<in>set (connection_list st). i < next_conn st) \<and>
     (\<forall>i c. conns st i = Some c \<longrightarrow> length (recv_buffer c) = 4096) \<and>
     length (recv_buffer (fresh_conn st)) = 4096 \<and>
     distinct (map tm_conn (active_timers st)) \<and>
     (\<forall>i. has_timer i st \<longrightarrow> (\<exists>c. conns st i = Some c \<and> state c \<noteq> TCP_ESTABLISHED))"

lemma tcp_okD:
  assumes "tcp_ok st"
  shows "distinct (connection_list st)" "i \<in> set (connection_list st) \<longleftrightarrow> conns st i \<noteq> None"
    "conns st i = Some c \<Longrightarrow> i < next_conn st" "conns st i = Some c \<Longrightarrow> length (recv_buffer c) = 4096"
    "distinct (map tm_conn (active_timers st))"
    "has_timer i st \<Longrightarrow> conns st i = Some c \<Longrightarrow> state c \<noteq> TCP_ESTABLISHED"
    "conns st (next_conn st) = None" "length (recv_buffer (fresh_conn st)) = 4096"
  using assms unfolding tcp_ok_def by (blast, blast, blast, blast, blast, force, blast, blast)

lemma remove_first_subset: "set (remove_first P xs) \<subseteq> set xs"
  by (induction xs) auto

lemma remove_first_image: "f ` set (remove_first P xs) \<subseteq> f ` set xs"
  by (rule image_mono [OF remove_first_subset])

lemma distinct_map_remove_first: "distinct (map f xs) \<Longrightarrow> distinct (map f (remove_first P xs))"
proof (induction xs)
  case (Cons x xs)
  moreover have "f x \<notin> f ` set (remove_first P xs)"
    using Cons.prems remove_first_image [of f P xs] by auto
  ultimately show ?case by simp
qed simp

lemma remove_first_key:
  "distinct (map f xs) \<Longrightarrow> f ` set (remove_first (\<lambda>x. f x = k) xs) = f ` set xs - {k}"
proof (induction xs)
  case (Cons x xs)
  then show ?case by (cases "f x = k") (auto simp: rev_image_eqI)
qed simp

lemma net_step_ok: "net_step st st' \<Longrightarrow> tcp_ok st' = tcp_ok st"
  by (simp add: tcp_ok_def has_timer_def net_step_tcp)

lemma put_conn_simps [simp]:
  "conns (put_conn i c st) = (conns st)(i := Some c)" "connection_list (put_conn i c st) = connection_list st"
  "next_conn (put_conn i c st) = next_conn st" "active_timers (put_conn i c st) = active_timers st"
  "fresh_conn (put_conn i c st) = fresh_conn st" "has_timer j (put_conn i c st) = has_timer j st"
  "listen_ports (put_conn i c st) = listen_ports st" "index_html (put_conn i c st) = index_html st"
  by (simp_all add: put_conn_def has_timer_def)

lemma put_conn_ok:
  assumes "tcp_ok st" and "conns st i \<noteq> None" and "length (recv_buffer c) = 4096"
    and "state c = TCP_ESTABLISHED \<Longrightarrow> \<not> has_timer i st"
  shows "tcp_ok (put_conn i c st)"
  using assms unfolding tcp_ok_def by auto

text \<open>\<open>sets i c st st'\<close>: apart from the network below, connection \<open>i\<close> has become \<open>c\<close>.\<close>

definition sets :: "nat \<Rightarrow> tcp_connection \<Rightarrow> tcp_net \<Rightarrow> tcp_net \<Rightarrow> bool" where
  "sets i c st st' \<longleftrightarrow> net_step (put_conn i c st) st'"

lemma sets_simps:
  assumes "sets i c st st'"
  shows "conns st' = (conns st)(i := Some c)" "connection_list st' = connection_list st"
    "next_conn st' = next_conn st" "active_timers st' = active_timers st" "has_timer j st' = has_timer j st"
    "fresh_conn st' = fresh_conn st" "index_html st' = index_html st"
  using assms net_step_tcp [of "put_conn i c st" st'] by (simp_all add: sets_def has_timer_def)

lemma put_conn_again [simp]: "put_conn i d (put_conn i c st) = put_conn i d st"
  by (simp add: put_conn_def)

lemma net_step_put: "net_step st st' \<Longrightarrow> net_step (put_conn i c st) (put_conn i c st')"
  by (cases st; cases st') (simp add: net_step_def net_config_def put_conn_def)

lemma sets_put: "sets i c st st' \<Longrightarrow> sets i d st (put_conn i d st')"
  using net_step_put [of "put_conn i c st" st' i d] by (simp add: sets_def)

lemma sets_trans: "sets i c st st' \<Longrightarrow> sets i d st' st'' \<Longrightarrow> sets i d st st''"
  using net_step_put [of "put_conn i c st" st' i d] by (auto simp: sets_def intro: net_step_trans)

lemma sets_put_conn [simp]: "sets i c st (put_conn i c st)"
  by (simp add: sets_def)

lemma sets_ok: "sets i c st st' \<Longrightarrow> tcp_ok (put_conn i c st) \<Longrightarrow> tcp_ok st'"
  using net_step_ok by (auto simp: sets_def)

lemma send_on_sets:
  assumes "conns st i = Some c"
  shows "partially (send_on i flags data len st) (\<lambda>st'. \<exists>c'. kept c c' \<and> sets i c' st st')"
proof -
  have "partially (tcp_send_segment flags data len c st) (\<lambda>(c', st1). \<exists>d. kept c d \<and> sets i d st (put_conn i c' st1))"
    by (rule partially_mono_pair [OF tcp_send_segment_keeps]) (auto simp: sets_def intro: net_step_put)
  then show ?thesis using assms by (simp add: send_on_def case_prod_unfold)
qed

section \<open>Closing connections and timers\<close>

text \<open>\<open>calm st st'\<close>: every connection has kept its state or is gone.\<close>

definition calm :: "tcp_net \<Rightarrow> tcp_net \<Rightarrow> bool" where
  "calm st st' \<longleftrightarrow>
     (\<forall>i. conns st' i = None \<or> map_option state (conns st' i) = map_option state (conns st i))"

lemma calm_refl [simp]: "calm st st" by (simp add: calm_def)

lemma calm_trans: "calm a b \<Longrightarrow> calm b c \<Longrightarrow> calm a c"
  unfolding calm_def by (metis map_option_is_None)

lemma calm_sets: "sets i d st st' \<Longrightarrow> conns st i = Some c \<Longrightarrow> state d = state c \<Longrightarrow> calm st st'"
  by (simp add: calm_def sets_simps)

lemma calm_conns: "conns st' = conns st \<Longrightarrow> calm st st'"
  by (simp add: calm_def)

lemma fewer_timers_ok:
  assumes "tcp_ok st" and "set ts \<subseteq> set (active_timers st)" and "distinct (map tm_conn ts)"
  shows "tcp_ok (st\<lparr>active_timers := ts\<rparr>)"
proof -
  have "has_timer i st" if "has_timer i (st\<lparr>active_timers := ts\<rparr>)" for i
    using that assms(2) by (auto simp: has_timer_def)
  then show ?thesis using assms(1,3) by (simp add: tcp_ok_def)
qed

lemma cancel_timer_ok:
  "tcp_ok st \<Longrightarrow> tcp_ok (cancel_retransmission_timer i st)"
  unfolding cancel_retransmission_timer_def
  by (rule fewer_timers_ok) (simp_all add: remove_first_subset distinct_map_remove_first tcp_okD)

lemma cancel_timer_gone:
  "tcp_ok st \<Longrightarrow> \<not> has_timer i (cancel_retransmission_timer i st)"
  by (simp add: cancel_retransmission_timer_def has_timer_def remove_first_key tcp_okD)

lemma cancel_timer_simps [simp]:
  "conns (cancel_retransmission_timer i st) = conns st"
  "connection_list (cancel_retransmission_timer i st) = connection_list st"
  by (simp_all add: cancel_retransmission_timer_def)

lemma remove_first_eq_filter: "distinct xs \<Longrightarrow> remove_first (\<lambda>j. j = i) xs = filter (\<lambda>j. j \<noteq> i) xs"
  by (induction xs) (auto intro: filter_True [symmetric])

lemma free_conn_ok:
  assumes "tcp_ok st" and "\<not> has_timer i st"
  shows "tcp_ok (st\<lparr>connection_list := remove_first (\<lambda>j. j = i) (connection_list st), conns := (conns st)(i := None)\<rparr>)"
proof -
  have "distinct (connection_list st)" using assms(1) by (rule tcp_okD)
  then show ?thesis
    using assms by (auto simp: tcp_ok_def remove_first_eq_filter has_timer_def)
qed

lemma remove_connection_ok:
  assumes "tcp_ok st"
  shows "partially (remove_connection i st) (\<lambda>st'. tcp_ok st' \<and> calm st st' \<and> conns st' = (conns st)(i := None))"
proof (cases "conns st i")
  case (Some c)
  let ?st = "cancel_retransmission_timer i st"
  have i: "i \<in> set (connection_list st)" using assms Some by (simp add: tcp_okD)
  have "tcp_ok (?st\<lparr>connection_list := remove_first (\<lambda>j. j = i) (connection_list ?st), conns := (conns ?st)(i := None)\<rparr>)"
    by (rule free_conn_ok [OF cancel_timer_ok [OF assms] cancel_timer_gone [OF assms]])
  then show ?thesis using Some i by (simp add: remove_connection_def calm_def Let_def)
qed (simp add: remove_connection_def)

lemma unlink_timer_ok:
  assumes "tcp_ok st"
  shows "partially (unlink_timer pp st) (\<lambda>st'. tcp_ok st' \<and> conns st' = conns st)"
proof (cases "timers_from pp (active_timers st)")
  case (Some rest)
  then show ?thesis
    using fewer_timers_ok [OF assms remove_first_subset distinct_map_remove_first [OF tcp_okD(5) [OF assms]]]
    by (cases rest) (simp_all add: unlink_timer_def)
qed (simp add: unlink_timer_def)

lemma update_timer_ok:
  assumes "tcp_ok st" and "\<And>t. tm_conn (f t) = tm_conn t"
  shows "tcp_ok (update_timer n f st)"
proof -
  have "map tm_conn (active_timers (update_timer n f st)) = map tm_conn (active_timers st)"
    using assms(2) by (simp add: update_timer_def)
  then have "has_timer j (update_timer n f st) = has_timer j st" for j
    unfolding has_timer_def by (metis image_set)
  then show ?thesis using assms unfolding tcp_ok_def
    by (simp add: update_timer_def comp_def if_distrib [of tm_conn] cong: if_cong)
qed

lemma conns_update_timer [simp]: "conns (update_timer n f st) = conns st"
  by (simp add: update_timer_def)

text \<open>Sending and writing back the connection keeps the invariant as long as the state is kept.\<close>

lemma sets_same_state_ok:
  assumes "tcp_ok st" and "conns st i = Some c" and "sets i d st st'" and "state d = state c"
    and "recv_buffer d = recv_buffer c"
  shows "tcp_ok st' \<and> calm st st'"
proof -
  have "tcp_ok (put_conn i d st)"
    using assms tcp_okD(4,6) [OF assms(1), of i c] by (intro put_conn_ok) auto
  then show ?thesis using assms sets_ok calm_sets by blast
qed

lemma send_on_ok:
  assumes "tcp_ok st" and "conns st i = Some c"
  shows "partially (send_on i flags data len st)
    (\<lambda>st'. tcp_ok st' \<and> calm st st' \<and> (\<exists>c'. kept c c' \<and> sets i c' st st'))"
  by (rule partially_mono [OF send_on_sets [OF assms(2)]])
    (use sets_same_state_ok [OF assms] in \<open>auto dest: kept_D\<close>)

lemma close_expired_ok:
  assumes "tcp_ok st"
  shows "partially (do { st \<leftarrow> remove_connection i st; st \<leftarrow> unlink_timer pp st; Some (pp, st) })
    (\<lambda>(_, st'). tcp_ok st' \<and> calm st st')"
proof -
  have "partially (unlink_timer pp s) (\<lambda>st'. tcp_ok st' \<and> calm st st')"
    if "tcp_ok s \<and> calm st s \<and> conns s = (conns st)(i := None)" for s
    by (rule partially_mono [OF unlink_timer_ok]) (use that calm_trans calm_conns in blast)+
  then show ?thesis by (auto intro: partially_mono [OF remove_connection_ok [OF assms]])
qed

lemma ticks_put_conn [simp]: "ticks (put_conn i c st) = ticks st"
  by (simp add: put_conn_def)

text \<open>A retransmission: the segment is sent, the entry and the timer are updated.\<close>

lemma retransmit_ok:
  assumes ok: "tcp_ok st" and c: "conns st i = Some c" and f: "\<And>s t. tm_conn (f s t) = tm_conn t"
  shows "partially (send_on i flags data len st) (\<lambda>st1.
    partially (conns st1 i) (\<lambda>c'.
      tcp_ok (update_timer n (f st1) (put_conn i (c'\<lparr>retransmit_queue := g st1 c'\<rparr>) st1)) \<and>
      calm st (update_timer n (f st1) (put_conn i (c'\<lparr>retransmit_queue := g st1 c'\<rparr>) st1))) \<and>
    tcp_ok (update_timer n (f st1) st1) \<and> calm st (update_timer n (f st1) st1))"
proof (rule partially_mono [OF send_on_ok [OF ok c]], elim conjE exE)
  fix st1 c' assume st1: "tcp_ok st1" "calm st st1" and k: "kept c c'" and set: "sets i c' st st1"
  let ?d = "c'\<lparr>retransmit_queue := g st1 c'\<rparr>"
  have "tcp_ok (put_conn i ?d st1) \<and> calm st (put_conn i ?d st1)"
    by (rule sets_same_state_ok [OF ok c sets_put [OF set]]) (use kept_D [OF k] in simp_all)
  then show "partially (conns st1 i) (\<lambda>c'.
      tcp_ok (update_timer n (f st1) (put_conn i (c'\<lparr>retransmit_queue := g st1 c'\<rparr>) st1)) \<and>
      calm st (update_timer n (f st1) (put_conn i (c'\<lparr>retransmit_queue := g st1 c'\<rparr>) st1))) \<and>
    tcp_ok (update_timer n (f st1) st1) \<and> calm st (update_timer n (f st1) st1)"
    using set st1 update_timer_ok [of _ "f st1"] f by (simp add: sets_simps(1) calm_def)
qed

lemma timer_expired_ok:
  assumes ok: "tcp_ok st"
  shows "partially (timer_expired pp timer st) (\<lambda>(_, st'). tcp_ok st' \<and> calm st st')"
proof (cases "conns st (tm_conn timer)")
  case (Some c)
  let ?i = "tm_conn timer"
  note close = close_expired_ok [OF ok, of ?i pp]
  show ?thesis
  proof (cases "state c = TCP_WAIT_FOR_ACK")
    case True
    show ?thesis
    proof (cases "retransmit_queue c")
      case Nil
      then show ?thesis using Some True close by (simp add: timer_expired_def)
    next
      case (Cons entry rest)
      have "partially (send_on ?i TCP_ACK (re_data entry) (re_length entry) st) (\<lambda>st1. partially (conns st1 ?i) (\<lambda>c'.
          tcp_ok (update_timer n (\<lambda>t. t\<lparr>tm_start_time := ticks st1\<rparr>) (put_conn ?i (c'\<lparr>retransmit_queue := g st1 c'\<rparr>) st1)) \<and>
          calm st (update_timer n (\<lambda>t. t\<lparr>tm_start_time := ticks st1\<rparr>) (put_conn ?i (c'\<lparr>retransmit_queue := g st1 c'\<rparr>) st1))))"
        for n g
        by (rule partially_mono [OF retransmit_ok [OF ok Some, where f = "\<lambda>s t. t\<lparr>tm_start_time := ticks s\<rparr>"]]) auto
      then show ?thesis
        using Some True Cons close by (simp add: timer_expired_def Let_def)
    qed
  next
    case False
    have "partially (send_on ?i fl [] 0 st) (\<lambda>st1.
        tcp_ok (update_timer n (\<lambda>t. t\<lparr>tm_retries := tm_retries t + 1, tm_start_time := ticks st1\<rparr>) st1) \<and>
        calm st (update_timer n (\<lambda>t. t\<lparr>tm_retries := tm_retries t + 1, tm_start_time := ticks st1\<rparr>) st1))"
      for n fl
      by (rule partially_mono [OF retransmit_ok [OF ok Some,
            where f = "\<lambda>s t. t\<lparr>tm_retries := tm_retries t + 1, tm_start_time := ticks s\<rparr>"]]) auto
    then show ?thesis
      using Some False close by (simp add: timer_expired_def Let_def)
  qed
qed (simp add: timer_expired_def)

lemma check_timers_ok:
  "tcp_ok st \<Longrightarrow> partially (check_timers fuel pp now st) (\<lambda>st'. tcp_ok st' \<and> calm st st')"
proof (induction fuel arbitrary: pp st)
  case 0
  show ?case using 0 by (cases "timers_from pp (active_timers st)") (auto simp: split: list.splits)
next
  case (Suc fuel)
  show ?case
  proof (cases "timers_from pp (active_timers st)")
    case (Some rest)
    show ?thesis
    proof (cases rest)
      case (Cons timer ts)
      have "partially (timer_expired pp timer st) (\<lambda>(pp', st1).
          partially (check_timers fuel pp' now st1) (\<lambda>st'. tcp_ok st' \<and> calm st st'))"
        by (rule partially_mono_pair [OF timer_expired_ok [OF Suc.prems]])
          (blast intro: partially_mono [OF Suc.IH] calm_trans)
      then show ?thesis using Some Cons Suc by (simp add: case_prod_unfold)
    qed (use Some Suc.prems in simp)
  qed simp
qed

lemma check_tcp_timers_ok:
  "tcp_ok st \<Longrightarrow> partially (check_tcp_timers st) (\<lambda>st'. tcp_ok st' \<and> calm st st')"
  unfolding check_tcp_timers_def by (rule check_timers_ok)

section \<open>The state machine of a connection\<close>

text \<open>
  The transitions the code makes; \<open>None\<close> is a connection that does not exist.  Compared with the
  state machine of RFC 793, the passive close goes through \<open>TCP_CLOSE_WAIT\<close> within one segment, an
  answered HTTP request leads to the extra state \<open>TCP_WAIT_FOR_ACK\<close>, and there is no active close.
\<close>

inductive tcp_move :: "tcp_state option \<Rightarrow> tcp_state option \<Rightarrow> bool" where
  stay: "tcp_move s s"
| passive_open: "tcp_move None (Some TCP_SYN_RECEIVED)"
| active_open: "tcp_move None (Some TCP_SYN_SENT)"
| syn_acknowledged: "tcp_move (Some TCP_SYN_SENT) (Some TCP_ESTABLISHED)"
| handshake: "tcp_move (Some TCP_SYN_RECEIVED) (Some TCP_ESTABLISHED)"
| http_request: "tcp_move (Some TCP_ESTABLISHED) (Some TCP_WAIT_FOR_ACK)"
| fin: "tcp_move (Some TCP_ESTABLISHED) (Some TCP_LAST_ACK)"
| closed: "tcp_move (Some s) None"

declare tcp_move.intros [intro]
inductive_simps tcp_move_from_None: "tcp_move None s"
inductive_simps tcp_move_from_Some: "tcp_move (Some s) s'"

definition moves :: "tcp_net \<Rightarrow> tcp_net \<Rightarrow> bool" where
  "moves st st' \<longleftrightarrow> (\<forall>i. tcp_move (map_option state (conns st i)) (map_option state (conns st' i)))"

lemma calm_moves: "calm st st' \<Longrightarrow> moves st st'"
  unfolding calm_def moves_def
  by (metis stay closed map_option_is_None option.exhaust_sel option.map_sel)

lemma moves_one:
  assumes "calm st st1" and "\<And>j. j \<noteq> i \<Longrightarrow> conns st' j = conns st1 j"
    and "tcp_move (map_option state (conns st i)) (map_option state (conns st' i))"
  shows "moves st st'"
  unfolding moves_def
proof
  fix j
  have "moves st st1" using assms(1) by (rule calm_moves)
  then show "tcp_move (map_option state (conns st j)) (map_option state (conns st' j))"
    using assms(2,3) by (cases "j = i") (simp_all add: moves_def)
qed

text \<open>
  \<open>at i s b st st'\<close>: connection \<open>i\<close> is in state \<open>s\<close> and nothing else has changed, except that \<open>i\<close> has a new
  timer if \<open>b\<close>.
\<close>

definition becomes :: "nat \<Rightarrow> tcp_connection \<Rightarrow> bool \<Rightarrow> tcp_net \<Rightarrow> tcp_net \<Rightarrow> bool" where
  "becomes i d b st st' \<longleftrightarrow> conns st' = (conns st)(i := Some d) \<and> connection_list st' = connection_list st \<and>
     next_conn st' = next_conn st \<and> fresh_conn st' = fresh_conn st \<and>
     map tm_conn (active_timers st') = (if b then [i] else []) @ map tm_conn (active_timers st)"

definition at :: "nat \<Rightarrow> tcp_state \<Rightarrow> bool \<Rightarrow> tcp_net \<Rightarrow> tcp_net \<Rightarrow> bool" where
  "at i s b st st' \<longleftrightarrow> (\<exists>d. becomes i d b st st' \<and> state d = s \<and> length (recv_buffer d) = 4096)"

lemma becomes_put: "becomes i d b st st' \<Longrightarrow> becomes i e b st (put_conn i e st')"
  by (simp add: becomes_def)

lemma becomes_sets: "becomes i d b st st' \<Longrightarrow> sets i e st' st'' \<Longrightarrow> becomes i e b st st''"
  by (simp add: becomes_def sets_simps)

lemma at_put: "at i s b st st' \<Longrightarrow> state e = s' \<Longrightarrow> length (recv_buffer e) = 4096 \<Longrightarrow> at i s' b st (put_conn i e st')"
  unfolding at_def using becomes_put by blast

lemma at_conn: "at i s b st st' \<Longrightarrow> \<exists>c. conns st' i = Some c \<and> state c = s \<and> length (recv_buffer c) = 4096"
  by (auto simp: at_def becomes_def)

lemma at_same: "tcp_ok st \<Longrightarrow> conns st i = Some c \<Longrightarrow> at i (state c) False st st"
  unfolding at_def becomes_def by (rule exI [of _ c]) (simp add: tcp_okD fun_upd_idem)

lemma at_send:
  assumes "at i s b st st'"
  shows "partially (send_on i flags data len st') (at i s b st)"
proof -
  obtain d where d: "becomes i d b st st'" "state d = s" "length (recv_buffer d) = 4096"
    using assms by (auto simp: at_def)
  then have "conns st' i = Some d" by (simp add: becomes_def)
  from send_on_sets [OF this] show ?thesis
    by (rule partially_mono) (use d becomes_sets kept_D in \<open>fastforce simp: at_def\<close>)
qed

lemma at_set_state:
  assumes "at i s b st st'"
  shows "partially (set_state i s' st') (at i s' b st)"
proof -
  obtain c where "conns st' i = Some c" "length (recv_buffer c) = 4096"
    using at_conn [OF assms] by blast
  then show ?thesis using at_put [OF assms, of "c\<lparr>state := s'\<rparr>" s'] by (simp add: set_state_def)
qed

lemma at_start_timer:
  assumes "at i s False st st'"
  shows "\<exists>b. at i s b st (start_retransmission_timer i ms st')"
proof (cases "malloc_ok st' (malloc_calls st')")
  case True
  then have "at i s True st (start_retransmission_timer i ms st')"
    using assms by (auto simp: at_def becomes_def start_retransmission_timer_def malloc_def)
  then show ?thesis ..
next
  case False
  then have "at i s False st (start_retransmission_timer i ms st')"
    using assms by (auto simp: at_def becomes_def start_retransmission_timer_def malloc_def)
  then show ?thesis ..
qed

lemma becomes_timer: "becomes i d b st st' \<Longrightarrow> has_timer j st' \<longleftrightarrow> has_timer j st \<or> (b \<and> j = i)"
  unfolding becomes_def has_timer_def set_map [symmetric] by auto

lemma at_ok:
  assumes "tcp_ok st" and "conns st i \<noteq> None" and "\<not> has_timer i st" and "b \<Longrightarrow> s \<noteq> TCP_ESTABLISHED"
    and "at i s b st st'"
  shows "tcp_ok st'"
proof -
  obtain d where d: "becomes i d b st st'" "state d = s" "length (recv_buffer d) = 4096"
    using assms(5) by (auto simp: at_def)
  have "distinct (map tm_conn (active_timers st'))"
    using d(1) assms(1,3) by (auto simp: becomes_def has_timer_def tcp_okD)
  then show ?thesis
    using assms(1-4) d becomes_timer [OF d(1)] unfolding tcp_ok_def becomes_def by auto
qed

section \<open>The states\<close>

text \<open>The two ways into \<open>TCP_ESTABLISHED\<close>: the timer of the handshake goes away.\<close>

lemma establish_ok:
  assumes ok: "tcp_ok st" and c: "conns st i = Some c" and set: "sets i d st st1"
    and buf: "recv_buffer d = recv_buffer c"
  shows "tcp_ok (cancel_retransmission_timer i st1)"
    "conns (cancel_retransmission_timer i st1) = (conns st)(i := Some d)"
proof -
  let ?c = "cancel_retransmission_timer i"
  have "tcp_ok (put_conn i d (?c st))"
    using cancel_timer_ok [OF ok] cancel_timer_gone [OF ok] c buf tcp_okD(4) [OF ok c]
    by (intro put_conn_ok) simp_all
  moreover have "net_step (put_conn i d (?c st)) (?c st1)"
    using set by (cases st; cases st1)
      (simp add: sets_def net_step_def net_config_def put_conn_def cancel_retransmission_timer_def)
  ultimately show "tcp_ok (?c st1)" using net_step_ok by blast
  show "conns (?c st1) = (conns st)(i := Some d)" using set by (simp add: sets_simps)
qed

lemma handle_syn_sent_ok:
  assumes ok: "tcp_ok st" and c: "conns st i = Some c" "state c = TCP_SYN_SENT"
  shows "partially (handle_syn_sent_state i data flags st) (\<lambda>st'. tcp_ok st' \<and> moves st st')"
proof -
  have "partially (send_on i TCP_ACK [] 0 (put_conn i (c\<lparr>expected_ack := e, state := TCP_ESTABLISHED\<rparr>) st))
    (\<lambda>st1. tcp_ok (cancel_retransmission_timer i st1) \<and> moves st (cancel_retransmission_timer i st1))" for e
  proof (rule partially_mono [OF send_on_sets], simp, elim exE conjE)
    fix st1 c' assume k: "kept (c\<lparr>expected_ack := e, state := TCP_ESTABLISHED\<rparr>) c'"
      and "sets i c' (put_conn i (c\<lparr>expected_ack := e, state := TCP_ESTABLISHED\<rparr>) st) st1"
    then have "sets i c' st st1" by (simp add: sets_def)
    then show "tcp_ok (cancel_retransmission_timer i st1) \<and> moves st (cancel_retransmission_timer i st1)"
      using establish_ok [OF ok c(1), of c' st1] kept_D [OF k] c by (auto simp: moves_def)
  qed
  then show ?thesis
    using assms calm_moves [OF calm_refl] by (simp add: handle_syn_sent_state_def partially_any)
qed

lemma handle_syn_received_ok:
  assumes ok: "tcp_ok st" and c: "conns st i = Some c" "state c = TCP_SYN_RECEIVED"
  shows "partially (handle_syn_received_state i data flags st) (\<lambda>st'. tcp_ok st' \<and> moves st st')"
proof -
  let ?st = "cancel_retransmission_timer i (put_conn i (c\<lparr>state := TCP_ESTABLISHED\<rparr>) st)"
  have "tcp_ok ?st" by (rule establish_ok [OF ok c(1) sets_put_conn]) simp
  moreover have "moves st ?st" using c by (auto simp: moves_def)
  ultimately show ?thesis
    using assms calm_moves [OF calm_refl] by (simp add: handle_syn_received_state_def partially_any)
qed

lemma handle_http_at:
  assumes "at i s False st st1"
  shows "partially (handle_http_request i st1) (\<lambda>st2. \<exists>s b. at i s b st st2)"
proof (cases "index_html st1")
  case None
  have "partially (send_on i fl dt ln st1) (\<lambda>st2. partially (set_state i s' st2) (\<lambda>st2. \<exists>s b. at i s b st st2))"
    for fl dt ln s'
    by (rule partially_mono [OF at_send [OF assms]]) (blast intro: partially_mono [OF at_set_state])
  then show ?thesis using None by (simp add: handle_http_request_def)
next
  case (Some buffer)
  show ?thesis
  proof (cases "malloc st1")
    case (Pair ok st2)
    have at: "at i s False st st2"
      using assms Pair by (auto simp: at_def becomes_def malloc_def)
    have fail: "partially (set_state i s' st2) (\<lambda>st2. \<exists>s b. at i s b st st2)" for s'
      by (rule partially_mono [OF at_set_state [OF at]]) blast
    have "partially (set_state i s' st3)
      (\<lambda>st4. \<exists>s b. at i s b st (start_retransmission_timer i ms st4))" if "at i s False st st3" for s' ms st3
      by (rule partially_mono [OF at_set_state [OF that]]) (blast dest: at_start_timer)
    then have "partially (send_on i fl dt ln st3) (\<lambda>st3. partially (set_state i s' st3)
      (\<lambda>st4. \<exists>s b. at i s b st (start_retransmission_timer i ms st4)))" if "at i s False st st3" for fl dt ln s' ms st3
      by (rule partially_mono [OF at_send [OF that]])
    then have "partially (send_on i fl dt ln st2) (\<lambda>st3. partially (send_on i fl' dt' ln' st3) (\<lambda>st3.
      partially (set_state i s' st3) (\<lambda>st4. \<exists>s b. at i s b st (start_retransmission_timer i ms st4))))"
      for fl dt ln fl' dt' ln' s' ms
      by (rule partially_mono [OF at_send [OF at]])
    then show ?thesis using Some Pair fail by (simp add: handle_http_request_def Let_def)
  qed
qed

lemma blit_length: "blit buf i data n = Some buf' \<Longrightarrow> length buf' = length buf"
  by (auto simp: blit_def split: if_splits)

lemma count_duplicate_ack_at:
  assumes "at i s False st st1"
  shows "partially (count_duplicate_ack i ack st1) (at i s False st)"
proof -
  obtain c where c: "conns st1 i = Some c" "state c = s" "length (recv_buffer c) = 4096"
    using at_conn [OF assms] by blast
  have put: "at i s False st (put_conn i (c\<lparr>dup_ack_count := n\<rparr>) st1)" for n
    by (rule at_put [OF assms]) (use c in simp_all)
  have "partially (send_on i fl dt ln (put_conn i (c\<lparr>dup_ack_count := n\<rparr>) st1)) (at i s False st)" for fl dt ln n
    by (rule at_send [OF put])
  then show ?thesis using c(1) put assms
    by (simp add: count_duplicate_ack_def Let_def split: list.split)
qed

lemma handle_data_at:
  assumes "at i TCP_ESTABLISHED False st st1"
  shows "partially (handle_data i sq payload len st1) (\<lambda>st2. at i TCP_ESTABLISHED False st st2 \<or>
    (\<exists>b. at i TCP_WAIT_FOR_ACK b st st2))"
proof -
  obtain c where c: "conns st1 i = Some c" "state c = TCP_ESTABLISHED" "length (recv_buffer c) = 4096"
    using at_conn [OF assms] by blast
  let ?Q = "\<lambda>st2. at i TCP_ESTABLISHED False st st2 \<or> (\<exists>b. at i TCP_WAIT_FOR_ACK b st st2)"
  have put: "at i TCP_ESTABLISHED False st (put_conn i (c\<lparr>expected_ack := e\<rparr>) st1)" for e
    by (rule at_put [OF assms]) (use c in simp_all)
  have get: "partially (handle_http_request i (put_conn i (c\<lparr>expected_ack := e\<rparr>) st1))
    (\<lambda>st2. partially (set_state i TCP_WAIT_FOR_ACK st2) ?Q)" for e
    by (rule partially_mono [OF handle_http_at [OF put]]) (blast intro: partially_mono [OF at_set_state])
  have store: "partially (send_on i TCP_ACK [] 0 (put_conn i
      (c\<lparr>recv_buffer := buf, recv_buffer_len := n, expected_ack := e\<rparr>) st1)) ?Q"
    if "blit (recv_buffer c) k payload m = Some buf" for buf n e k m
  proof -
    have "at i TCP_ESTABLISHED False st (put_conn i
        (c\<lparr>recv_buffer := buf, recv_buffer_len := n, expected_ack := e\<rparr>) st1)"
      by (rule at_put [OF assms]) (use c blit_length [OF that] in simp_all)
    then show ?thesis by (rule partially_mono [OF at_send]) blast
  qed
  have "partially (blit (recv_buffer c) k payload m) (\<lambda>buf. partially (send_on i TCP_ACK [] 0 (put_conn i
      (c\<lparr>recv_buffer := buf, recv_buffer_len := n, expected_ack := e\<rparr>) st1)) ?Q)" for k m n e
    by (rule partiallyI) (rule store)
  then show ?thesis using c(1) get
    by (simp add: handle_data_def Let_def partially_any)
qed

lemma handle_fin_at:
  assumes "at i s b st st1"
  shows "partially (handle_fin i st1) (at i TCP_LAST_ACK b st)"
proof -
  obtain c where c: "conns st1 i = Some c" "length (recv_buffer c) = 4096"
    using at_conn [OF assms] by blast
  have put: "at i TCP_CLOSE_WAIT b st (put_conn i (c\<lparr>expected_ack := e, state := TCP_CLOSE_WAIT\<rparr>) st1)" for e
    by (rule at_put [OF assms]) (use c in simp_all)
  have last: "partially (send_on i fl [] 0 st2) (\<lambda>st3. partially (set_state i TCP_LAST_ACK st3) (at i TCP_LAST_ACK b st))"
    if "at i TCP_CLOSE_WAIT b st st2" for st2 fl
    by (rule partially_mono [OF at_send [OF that]]) (rule at_set_state)
  have "partially (send_on i fl' [] 0 (put_conn i (c\<lparr>expected_ack := e, state := TCP_CLOSE_WAIT\<rparr>) st1))
    (\<lambda>st2. partially (send_on i fl [] 0 st2) (\<lambda>st3. partially (set_state i TCP_LAST_ACK st3) (at i TCP_LAST_ACK b st)))"
    for fl fl' e
    by (rule partially_mono [OF at_send [OF put]]) (rule last)
  then show ?thesis using c(1) by (simp add: handle_fin_def Let_def)
qed

lemma established_rest_at:
  assumes "at i TCP_ESTABLISHED False st st1" and "conns st1 i = Some c" and "recv_buffer d = recv_buffer c"
    and "state d = state c"
  shows "partially (if b1 then send_on i fl [] 0 (put_conn i d st1) else Some (put_conn i d st1))
    (\<lambda>st2. partially (if b2 then handle_data i sq p len st2 else Some st2)
      (\<lambda>st3. partially (if b3 then handle_fin i st3 else Some st3)
        (\<lambda>st4. at i TCP_ESTABLISHED False st st4 \<or> (\<exists>s b. (s = TCP_WAIT_FOR_ACK \<or> s = TCP_LAST_ACK) \<and> at i s b st st4))))"
proof -
  let ?Q = "\<lambda>st4. at i TCP_ESTABLISHED False st st4 \<or> (\<exists>s b. (s = TCP_WAIT_FOR_ACK \<or> s = TCP_LAST_ACK) \<and> at i s b st st4)"
  have put: "at i TCP_ESTABLISHED False st (put_conn i d st1)"
    using at_conn [OF assms(1)] assms by (intro at_put [OF assms(1)]) auto
  have fin: "partially (if b3 then handle_fin i st3 else Some st3) ?Q"
    if "at i TCP_ESTABLISHED False st st3 \<or> (\<exists>b. at i TCP_WAIT_FOR_ACK b st st3)" for st3
  proof -
    have "partially (handle_fin i st3) ?Q" using that by (blast intro: partially_mono [OF handle_fin_at])
    then show ?thesis using that by auto
  qed
  have data: "partially (if b2 then handle_data i sq p len st2 else Some st2)
      (\<lambda>st3. partially (if b3 then handle_fin i st3 else Some st3) ?Q)"
    if "at i TCP_ESTABLISHED False st st2" for st2
  proof -
    have "partially (handle_data i sq p len st2) (\<lambda>st3. partially (if b3 then handle_fin i st3 else Some st3) ?Q)"
      by (rule partially_mono [OF handle_data_at [OF that]]) (rule fin)
    then show ?thesis using fin [of st2] that by simp
  qed
  have "partially (send_on i fl [] 0 (put_conn i d st1)) (\<lambda>st2. partially (if b2 then handle_data i sq p len st2 else Some st2)
      (\<lambda>st3. partially (if b3 then handle_fin i st3 else Some st3) ?Q))"
    by (rule partially_mono [OF at_send [OF put]]) (rule data)
  then show ?thesis using data [OF put] by (cases b1; cases b2; cases b3) simp_all
qed

lemma put_conn_same: "conns st i = Some c \<Longrightarrow> put_conn i c st = st"
  by (simp add: put_conn_def fun_upd_idem)

lemma reestablish_established [simp]: "state c = TCP_ESTABLISHED \<Longrightarrow> reestablish sq ack c = c"
  by (simp add: reestablish_def)

lemma established_result:
  assumes ok: "tcp_ok st1" and calm: "calm st st1" and c: "conns st1 i = Some c" "state c = TCP_ESTABLISHED"
    and at: "at i TCP_ESTABLISHED False st1 st4 \<or> (\<exists>s b. (s = TCP_WAIT_FOR_ACK \<or> s = TCP_LAST_ACK) \<and> at i s b st1 st4)"
  shows "tcp_ok st4 \<and> moves st st4"
proof
  have timer: "\<not> has_timer i st1" using tcp_okD(6) [OF ok _ c(1)] c(2) by blast
  obtain s b where s: "at i s b st1 st4" "s = TCP_ESTABLISHED \<and> \<not> b \<or> s = TCP_WAIT_FOR_ACK \<or> s = TCP_LAST_ACK"
    using at by blast
  show "tcp_ok st4" by (rule at_ok [OF ok _ timer _ s(1)]) (use c s(2) in auto)
  obtain d where d: "conns st4 = (conns st1)(i := Some d)" "state d = s"
    using s(1) by (auto simp: at_def becomes_def)
  have "map_option state (conns st i) = Some TCP_ESTABLISHED" using calm c unfolding calm_def
    by (metis option.simps(9) option.distinct(1))
  then show "moves st st4" using d s(2) by (intro moves_one [OF calm]) auto
qed

lemma ack_entries_kept: "partially (ack_entries ack c) (\<lambda>d. recv_buffer d = recv_buffer c \<and> state d = state c)"
  by (simp add: ack_entries_def)

lemma handle_established_ok:
  assumes ok: "tcp_ok st" and c: "conns st i = Some c" "state c = TCP_ESTABLISHED"
  shows "partially (handle_established_state i data len st) (\<lambda>st'. tcp_ok st' \<and> moves st st')"
proof -
  let ?Q = "\<lambda>st'. tcp_ok st' \<and> moves st st'"
  define rest where "rest = (\<lambda>sq ack hlen flags data_len st2. do {
      c \<leftarrow> conns st2 i;
      let c = c\<lparr>expected_ack := sq + ucast (data_len :: u16)\<rparr>;
      let c = (if ack > next_seq c then c\<lparr>next_seq := ack\<rparr> else c);
      c \<leftarrow> ack_entries ack c;
      let st = put_conn i c st2;
      st \<leftarrow> (if sq \<noteq> expected_ack c then send_on i TCP_ACK [] 0 st else Some st);
      st \<leftarrow> (if data_len > 0 then handle_data i sq (drop (unat (hlen :: u16)) data) data_len st else Some st);
      (if flags AND TCP_FIN \<noteq> 0 then handle_fin i st else Some st) })"
  have rest: "partially (rest sq ack hlen flags data_len st2) (\<lambda>st4. at i TCP_ESTABLISHED False st1 st4 \<or>
      (\<exists>s b. (s = TCP_WAIT_FOR_ACK \<or> s = TCP_LAST_ACK) \<and> at i s b st1 st4))"
    if at: "at i TCP_ESTABLISHED False st1 st2" for sq ack hlen flags data_len st1 st2
  proof (cases "conns st2 i")
    case (Some c2)
    define c3 where "c3 = c2\<lparr>expected_ack := sq + ucast data_len\<rparr>"
    define c4 where "c4 = (if ack > next_seq c3 then c3\<lparr>next_seq := ack\<rparr> else c3)"
    have c4: "recv_buffer c4 = recv_buffer c2" "state c4 = state c2" by (simp_all add: c4_def c3_def)
    show ?thesis
      unfolding rest_def Some bind.bind_lunit Let_def c3_def [symmetric] c4_def [symmetric] partially_simps
      by (rule partially_mono [OF ack_entries_kept], rule established_rest_at [OF at Some]) (simp_all add: c4)
  qed (simp add: rest_def)
  have step: "partially (conns st1 i) (\<lambda>c. partially (count_duplicate_ack i ack (put_conn i (reestablish sq ack c) st1))
      (\<lambda>st2. partially (rest sq ack hlen flags data_len st2) ?Q))"
    if "tcp_ok st1 \<and> calm st st1" for st1 sq ack hlen flags data_len
  proof (cases "conns st1 i")
    case (Some c1)
    then have c1: "state c1 = TCP_ESTABLISHED" using that c unfolding calm_def
      by (metis option.simps(9) option.distinct(1) option.inject)
    have at: "at i TCP_ESTABLISHED False st1 st1" using at_same [OF _ Some] that c1 by simp
    have "partially (rest sq ack hlen flags data_len st2) ?Q" if "at i TCP_ESTABLISHED False st1 st2" for st2
      by (rule partially_mono [OF rest [OF that]])
        (use established_result [OF _ _ Some c1] \<open>tcp_ok st1 \<and> calm st st1\<close> in blast)
    then have "partially (count_duplicate_ack i ack st1) (\<lambda>st2. partially (rest sq ack hlen flags data_len st2) ?Q)"
      by (rule partially_mono [OF count_duplicate_ack_at [OF at]])
    then show ?thesis using Some c1 by (simp add: put_conn_same)
  qed simp
  have "partially (check_tcp_timers st) (\<lambda>st1. partially (conns st1 i) (\<lambda>c.
      partially (count_duplicate_ack i ack (put_conn i (reestablish sq ack c) st1))
      (\<lambda>st2. partially (rest sq ack hlen flags data_len st2) ?Q)))" for sq ack hlen flags data_len
    by (rule partially_mono [OF check_tcp_timers_ok [OF ok]]) (rule step)
  note all = this [unfolded rest_def Let_def partially_simps]
  show ?thesis
    unfolding handle_established_state_def Let_def partially_simps
    by (rule partially_any, rule partially_any, rule partially_any, rule partially_any, rule all)
qed

text \<open>In \<open>TCP_WAIT_FOR_ACK\<close> and \<open>TCP_LAST_ACK\<close> the connection keeps its state or is closed.\<close>

lemma put_same_state:
  assumes "tcp_ok st" and "conns st i = Some c" and "state d = state c" and "recv_buffer d = recv_buffer c"
  shows "tcp_ok (put_conn i d st) \<and> calm st (put_conn i d st)"
  by (rule sets_same_state_ok [OF assms(1,2) sets_put_conn assms(3,4)])

lemma remove_after_put_ok:
  assumes "tcp_ok st" and "conns st i = Some c" and "state d = state c" and "recv_buffer d = recv_buffer c"
  shows "partially (remove_connection i (put_conn i d st)) (\<lambda>st'. tcp_ok st' \<and> calm st st')"
  by (rule partially_mono [OF remove_connection_ok])
    (use put_same_state [OF assms] in \<open>auto intro: calm_trans\<close>)

lemma resend_ok:
  assumes ok: "tcp_ok st" and c: "conns st i = Some c" and d: "state d = state c" "recv_buffer d = recv_buffer c"
  shows "partially (send_on i fl dt ln (put_conn i d st)) (\<lambda>st1. partially (conns st1 i)
    (\<lambda>c. tcp_ok (put_conn i (c\<lparr>dup_ack_count := n\<rparr>) st1) \<and> calm st (put_conn i (c\<lparr>dup_ack_count := n\<rparr>) st1)))"
proof (rule partially_mono [OF send_on_sets], simp, elim exE conjE)
  fix st1 c' assume k: "kept d c'" and "sets i c' (put_conn i d st) st1"
  then have set: "sets i c' st st1" by (simp add: sets_def)
  have "tcp_ok (put_conn i (c'\<lparr>dup_ack_count := n\<rparr>) st1) \<and> calm st (put_conn i (c'\<lparr>dup_ack_count := n\<rparr>) st1)"
    by (rule sets_same_state_ok [OF ok c sets_put [OF set]]) (use kept_D [OF k] d in simp_all)
  then show "partially (conns st1 i)
    (\<lambda>c. tcp_ok (put_conn i (c\<lparr>dup_ack_count := n\<rparr>) st1) \<and> calm st (put_conn i (c\<lparr>dup_ack_count := n\<rparr>) st1))"
    using set by (simp add: sets_simps(1))
qed

lemma handle_wait_for_ack_ok:
  assumes ok: "tcp_ok st" and c: "conns st i = Some c"
  shows "partially (handle_wait_for_ack_state i data st) (\<lambda>st'. tcp_ok st' \<and> calm st st')"
proof (cases "retransmit_queue c")
  case Nil
  then show ?thesis using assms by (simp add: handle_wait_for_ack_state_def partially_any)
next
  case (Cons entry rest)
  show ?thesis
    unfolding handle_wait_for_ack_state_def c bind.bind_lunit Cons list.case partially_simps Let_def
    by (rule partially_any, intro partially_if [THEN iffD2] if_bool_eq_conj [THEN iffD2] conjI impI)
      (use put_same_state [OF ok c] remove_after_put_ok [OF ok c] resend_ok [OF ok c] in simp_all)
qed

lemma handle_last_ack_ok:
  assumes ok: "tcp_ok st" and c: "conns st i = Some c"
  shows "partially (handle_last_ack_state i data st) (\<lambda>st'. tcp_ok st' \<and> calm st st')"
proof -
  have "partially (remove_connection i st) (\<lambda>st'. tcp_ok st' \<and> calm st st')"
    by (rule partially_mono [OF remove_connection_ok [OF ok]]) blast
  then show ?thesis using assms by (simp add: handle_last_ack_state_def partially_any)
qed

section \<open>New connections\<close>

lemma net_step_calm: "net_step st st' \<Longrightarrow> calm st st'"
  by (rule calm_conns) (rule net_step_tcp)

lemma tcp_send_reset_ok:
  assumes "tcp_ok st"
  shows "partially (tcp_send_reset src dst tcp st) (\<lambda>st'. tcp_ok st' \<and> calm st st')"
proof -
  have "partially (tcp_send_segment fl dt ln c st) (\<lambda>(_, st'). tcp_ok st' \<and> calm st st')" for fl dt ln c
    by (rule partially_mono_pair [OF tcp_send_segment_keeps]) (use assms net_step_ok net_step_calm in blast)
  then show ?thesis by (simp add: tcp_send_reset_def case_prod_unfold partially_any)
qed

text \<open>Up to the network, a connection \<open>c\<close> has been put in front of the list.\<close>

lemma new_conn_ok:
  assumes ok: "tcp_ok st" and buf: "length (recv_buffer c) = 4096"
    and st': "conns st' = (conns st)(next_conn st := Some c)" "connection_list st' = next_conn st # connection_list st"
      "next_conn st' = next_conn st + 1" "active_timers st' = active_timers st" "fresh_conn st' = fresh_conn st"
  shows "tcp_ok st' \<and> \<not> has_timer (next_conn st) st'"
proof -
  have none: "conns st (next_conn st) = None" using ok by (rule tcp_okD)
  have timers: "has_timer j st' = has_timer j st" for j by (simp add: has_timer_def st'(4))
  have no: "\<not> has_timer (next_conn st) st" using ok none unfolding tcp_ok_def by force
  have "tcp_ok st'" using ok buf none no timers unfolding tcp_ok_def st' by (auto simp: less_Suc_eq)
  then show ?thesis using no timers by blast
qed

lemma start_timer_ok:
  assumes ok: "tcp_ok st" and c: "conns st i = Some c" "state c \<noteq> TCP_ESTABLISHED" and no: "\<not> has_timer i st"
  shows "tcp_ok (start_retransmission_timer i ms st)" "conns (start_retransmission_timer i ms st) = conns st"
proof -
  have at: "at i (state c) False st st" using at_same [OF ok c(1)] .
  obtain b where "at i (state c) b st (start_retransmission_timer i ms st)"
    using at_start_timer [OF at] by blast
  then show "tcp_ok (start_retransmission_timer i ms st)"
    using at_ok [OF ok _ no] c by auto
  show "conns (start_retransmission_timer i ms st) = conns st"
    by (simp add: start_retransmission_timer_def malloc_def)
qed

lemma moves_new:
  assumes "conns st i = None" and "tcp_move None s" and "\<And>j. j \<noteq> i \<Longrightarrow> conns st' j = conns st j"
    and "conns st' i = None \<or> map_option state (conns st' i) = s"
  shows "moves st st'"
  by (rule moves_one [OF calm_refl]) (use assms in auto)

text \<open>After a new connection has been entered, sending on it and starting its timer.\<close>

lemma after_new_conn:
  assumes ok: "tcp_ok st1" and c: "conns st1 i = Some c" "state c = s" and s: "s \<noteq> TCP_ESTABLISHED" "tcp_move None (Some s)"
    and old: "conns st i = None" "\<And>j. j \<noteq> i \<Longrightarrow> conns st1 j = conns st j" and no: "\<not> has_timer i st1"
  shows "partially (send_on i fl dt ln st1) (\<lambda>st2. (tcp_ok st2 \<and> moves st st2) \<and>
    tcp_ok (start_retransmission_timer i ms st2) \<and> moves st (start_retransmission_timer i ms st2))"
proof (rule partially_mono [OF send_on_ok [OF ok c(1)]], elim conjE exE)
  fix st2 c' assume st2: "tcp_ok st2" "calm st1 st2" and k: "kept c c'" and set: "sets i c' st1 st2"
  have conns: "conns st2 i = Some c'" "state c' = s" "\<not> has_timer i st2"
    using set kept_D [OF k] c no by (simp_all add: sets_simps)
  note timer = start_timer_ok [OF st2(1) conns(1) _ conns(3)]
  have j: "conns st2 j = conns st j" if "j \<noteq> i" for j
    using set old that by (simp add: sets_simps)
  have "moves st st2" by (rule moves_new [OF old(1) s(2) j]) (use conns in auto)
  moreover have "moves st (start_retransmission_timer i ms st2)"
    by (rule moves_new [OF old(1) s(2)]) (use conns s j timer(2) in auto)
  ultimately show "(tcp_ok st2 \<and> moves st st2) \<and>
    tcp_ok (start_retransmission_timer i ms st2) \<and> moves st (start_retransmission_timer i ms st2)"
    using st2 timer(1) conns s by auto
qed

lemma accept_syn_ok:
  assumes ok: "tcp_ok st"
  shows "partially (accept_syn src dst data sport dport st) (\<lambda>st'. tcp_ok st' \<and> moves st st')"
proof (cases "malloc st")
  case (Pair b st1)
  have step: "net_step st st1" using Pair by (rule net_step_malloc)
  define st2 where "st2 = snd (generate_secure_initial_seq st1)"
  have st2: "conns st2 = conns st" "connection_list st2 = connection_list st" "next_conn st2 = next_conn st"
    "active_timers st2 = active_timers st" "fresh_conn st2 = fresh_conn st"
    using net_step_tcp [OF step] by (simp_all add: st2_def generate_secure_initial_seq_def)
  let ?i = "next_conn st2"
  have "partially (send_on ?i fl dt ln (add_connection ?i (put_conn ?i c (st2\<lparr>next_conn := ?i + 1\<rparr>))))
      (\<lambda>st'. tcp_ok (start_retransmission_timer ?i ms st') \<and> moves st (start_retransmission_timer ?i ms st'))"
    if c: "state c = TCP_SYN_RECEIVED" "length (recv_buffer c) = 4096" for c fl dt ln ms
  proof -
    let ?st = "add_connection ?i (put_conn ?i c (st2\<lparr>next_conn := ?i + 1\<rparr>))"
    have new: "tcp_ok ?st \<and> \<not> has_timer (next_conn st) ?st"
      by (rule new_conn_ok [OF ok c(2)]) (simp_all add: add_connection_def put_conn_def st2)
    show ?thesis
      by (rule partially_mono [OF after_new_conn [where c = c and s = TCP_SYN_RECEIVED and st = st]])
        (use new c tcp_okD(7) [OF ok] in \<open>auto simp: st2 add_connection_def put_conn_def\<close>)
  qed
  then show ?thesis
    using ok net_step_ok [OF step] calm_moves [OF net_step_calm [OF step]] Pair
    by (simp add: accept_syn_def case_prod_unfold Let_def st2_def [symmetric] partially_any zero_conn_def)
qed

lemma tcp_connect_ok:
  assumes ok: "tcp_ok st"
  shows "partially (tcp_connect rip rport st) (\<lambda>(_, st'). tcp_ok st' \<and> moves st st')"
proof (cases "malloc st")
  case (Pair b st1)
  have step: "net_step st st1" using Pair by (rule net_step_malloc)
  define st2 where "st2 = snd (generate_secure_initial_seq (snd (generate_secure_initial_seq st1)))"
  have st2: "conns st2 = conns st" "connection_list st2 = connection_list st" "next_conn st2 = next_conn st"
    "active_timers st2 = active_timers st" "fresh_conn st2 = fresh_conn st"
    using net_step_tcp [OF step] by (simp_all add: st2_def generate_secure_initial_seq_def)
  let ?i = "next_conn st2"
  have "partially (send_on ?i fl dt ln (put_conn ?i c (st2\<lparr>next_conn := ?i + 1\<rparr>)))
      (\<lambda>st'. tcp_ok (add_connection ?i st') \<and> moves st (add_connection ?i st'))"
    if c: "state c = TCP_SYN_SENT" "length (recv_buffer c) = 4096" for c fl dt ln
  proof (rule partially_mono [OF send_on_sets [where c = c]], simp add: put_conn_def, elim exE conjE)
    fix st3 c' assume k: "kept c c'" and "sets ?i c' (put_conn ?i c (st2\<lparr>next_conn := ?i + 1\<rparr>)) st3"
    then have set: "sets ?i c' (st2\<lparr>next_conn := ?i + 1\<rparr>) st3" by (simp add: sets_def)
    have "tcp_ok (add_connection ?i st3) \<and> \<not> has_timer (next_conn st) (add_connection ?i st3)"
      by (rule new_conn_ok [OF ok, of c'])
        (use kept_D [OF k] c sets_simps [OF set] in \<open>simp_all add: add_connection_def st2\<close>)
    moreover have "moves st (add_connection ?i st3)"
      by (rule moves_new [where i = ?i and s = "Some TCP_SYN_SENT"])
        (use kept_D [OF k] c sets_simps [OF set] tcp_okD(7) [OF ok] in \<open>auto simp: add_connection_def st2\<close>)
    ultimately show "tcp_ok (add_connection ?i st3) \<and> moves st (add_connection ?i st3)" by blast
  qed
  moreover have "length (recv_buffer (fresh_conn st2)) = 4096" using tcp_okD(8) [OF ok] by (simp add: st2)
  ultimately show ?thesis
    using ok net_step_ok [OF step] calm_moves [OF net_step_calm [OF step]] Pair
    by (simp add: tcp_connect_def case_prod_unfold Let_def st2_def [symmetric])
qed

text \<open>Every incoming segment.\<close>

lemma calm_result: "partially m (\<lambda>st'. tcp_ok st' \<and> calm st st') \<Longrightarrow> partially m (\<lambda>st'. tcp_ok st' \<and> moves st st')"
  by (erule partially_mono) (blast intro: calm_moves)

lemma handle_packet_ok:
  assumes ok: "tcp_ok st"
  shows "partially (tcp_handle_packet src dst data len st) (\<lambda>st'. tcp_ok st' \<and> moves st st')"
proof -
  let ?Q = "\<lambda>st'. tcp_ok st' \<and> moves st st'"
  note reset = calm_result [OF tcp_send_reset_ok [OF ok]]
  have remove: "partially (remove_connection i st) ?Q" for i
    by (rule calm_result) (rule partially_mono [OF remove_connection_ok [OF ok]], blast)
  have handlers: "partially (case state c of
        TCP_SYN_SENT \<Rightarrow> handle_syn_sent_state i data flags st
      | TCP_SYN_RECEIVED \<Rightarrow> handle_syn_received_state i data flags st
      | TCP_ESTABLISHED \<Rightarrow> handle_established_state i data len st
      | TCP_WAIT_FOR_ACK \<Rightarrow> handle_wait_for_ack_state i data st
      | TCP_LAST_ACK \<Rightarrow> handle_last_ack_state i data st
      | _ \<Rightarrow> Some st) ?Q" if c: "conns st i = Some c" for i c flags
    using ok calm_moves [OF calm_refl] handle_syn_sent_ok [OF ok c] handle_syn_received_ok [OF ok c]
      handle_established_ok [OF ok c] calm_result [OF handle_wait_for_ack_ok [OF ok c]]
      calm_result [OF handle_last_ack_ok [OF ok c]]
    by (cases "state c") simp_all
  have found: "partially (if flags AND TCP_RST \<noteq> 0
      then (case conn of Some i \<Rightarrow> remove_connection i st | None \<Rightarrow> Some st)
      else case conn of
        None \<Rightarrow> if flags AND TCP_SYN \<noteq> 0 \<and> is_listening_port dport st
                then accept_syn src dst data sport dport st else tcp_send_reset src dst data st
      | Some i \<Rightarrow> do { c \<leftarrow> conns st i;
            case state c of
              TCP_SYN_SENT \<Rightarrow> handle_syn_sent_state i data flags st
            | TCP_SYN_RECEIVED \<Rightarrow> handle_syn_received_state i data flags st
            | TCP_ESTABLISHED \<Rightarrow> handle_established_state i data len st
            | TCP_WAIT_FOR_ACK \<Rightarrow> handle_wait_for_ack_state i data st
            | TCP_LAST_ACK \<Rightarrow> handle_last_ack_state i data st
            | _ \<Rightarrow> Some st }) ?Q" for conn sport dport flags
  proof (cases conn)
    case (Some i)
    then show ?thesis using remove handlers by (cases "conns st i") simp_all
  qed (use ok calm_moves [OF calm_refl] accept_syn_ok [OF ok] reset in simp)
  show ?thesis
    unfolding tcp_handle_packet_def partially_simps partially_if
    by (rule partially_any, rule partially_any, subst if_bool_eq_conj, intro conjI impI reset)
      (intro partially_any found [unfolded partially_if])
qed

section \<open>The walk over the timers ends\<close>

text \<open>
  What lies behind the link the walk stands on gets shorter with every turn, so that as many turns as
  there are timers suffice: more fuel gives the same result.
\<close>

lemma timers_from_None [simp]: "timers_from None ts = Some ts"
  by (simp add: timers_from_def)

lemma timers_from_Nil [simp]: "timers_from (Some n) [] = None"
  by (simp add: timers_from_def)

lemma timers_from_Cons [simp]:
  "timers_from (Some n) (t # ts) = (if tm_id t = n then Some ts else timers_from (Some n) ts)"
  by (simp add: timers_from_def)

lemma timers_from_subset: "timers_from pp ts = Some rest \<Longrightarrow> set rest \<subseteq> set ts"
proof (cases pp)
  case (Some n)
  then show "timers_from pp ts = Some rest \<Longrightarrow> set rest \<subseteq> set ts"
    by (induction ts) (auto split: if_splits)
qed simp

lemma timers_from_absent: "n \<notin> tm_id ` set ts \<Longrightarrow> timers_from (Some n) ts = None"
  by (induction ts) auto

lemma timers_from_next:
  "timers_from pp ts = Some (t # rest) \<Longrightarrow> distinct (map tm_id ts) \<Longrightarrow> timers_from (Some (tm_id t)) ts = Some rest"
proof (induction ts)
  case (Cons x xs)
  show ?case
  proof (cases "pp = None \<or> pp = Some (tm_id x) \<and> xs = t # rest")
    case False
    then have "timers_from pp xs = Some (t # rest)" using Cons.prems(1) by (cases pp) (auto split: if_splits)
    then have "t \<in> set xs" using timers_from_subset by fastforce
    then show ?thesis using Cons \<open>timers_from pp xs = Some (t # rest)\<close> by auto
  qed (use Cons.prems in auto)
qed (cases pp; simp)

lemma timers_from_map:
  assumes "\<And>t. tm_id (f t) = tm_id t"
  shows "timers_from pp (map f ts) = map_option (map f) (timers_from pp ts)"
  by (cases pp; induction ts) (simp_all add: assms)

lemma length_remove_first: "length (remove_first P xs) \<le> length xs"
  by (induction xs) auto

lemma timers_from_remove:
  "timers_from pp ts = Some rest \<Longrightarrow> timers_from pp (remove_first P ts) = Some rest' \<Longrightarrow> distinct (map tm_id ts) \<Longrightarrow>
    length rest' \<le> length rest"
proof (cases pp)
  case (Some n)
  then show "timers_from pp ts = Some rest \<Longrightarrow> timers_from pp (remove_first P ts) = Some rest' \<Longrightarrow>
    distinct (map tm_id ts) \<Longrightarrow> length rest' \<le> length rest"
  proof (induction ts)
    case (Cons x xs)
    show ?case
    proof (cases "P x \<and> tm_id x = n")
      case True
      then have "timers_from (Some n) xs = None" using Cons.prems(3) by (intro timers_from_absent) auto
      then show ?thesis using Cons.prems True Some by simp
    next
      case False
      then show ?thesis using Cons Some length_remove_first [of P xs] by (auto split: if_splits)
    qed
  qed simp
qed (auto simp: length_remove_first)

lemma timers_from_unlink:
  "timers_from pp ts = Some (t # rest) \<Longrightarrow> distinct (map tm_id ts) \<Longrightarrow>
    timers_from pp (remove_first (\<lambda>u. tm_id u = tm_id t) ts) = Some rest"
proof (cases pp)
  case (Some n)
  then show "timers_from pp ts = Some (t # rest) \<Longrightarrow> distinct (map tm_id ts) \<Longrightarrow>
    timers_from pp (remove_first (\<lambda>u. tm_id u = tm_id t) ts) = Some rest"
  proof (induction ts)
    case (Cons x xs)
    then have "t \<in> set xs" using timers_from_subset [of "Some n" xs "t # rest"] by (auto split: if_splits)
    then have "tm_id x \<noteq> tm_id t" using Cons.prems by auto
    then show ?case using Cons by (auto split: if_splits)
  qed simp
qed auto

text \<open>One turn: the identities stay distinct and less is left.\<close>

definition less_left :: "nat option \<Rightarrow> nat \<Rightarrow> tcp_net \<Rightarrow> bool" where
  "less_left pp n st \<longleftrightarrow> distinct (map tm_id (active_timers st)) \<and>
     (\<forall>rest. timers_from pp (active_timers st) = Some rest \<longrightarrow> length rest \<le> n)"

lemma close_expired_left:
  assumes d: "distinct (map tm_id (active_timers st))" and r: "timers_from pp (active_timers st) = Some rest"
  shows "partially (do { st \<leftarrow> remove_connection i st; st \<leftarrow> unlink_timer pp st; Some (pp, st) })
    (\<lambda>(pp', st'). less_left pp' (length rest - 1) st')"
proof -
  have un: "partially (unlink_timer pp st1) (\<lambda>st2. less_left pp (length rest - 1) st2)"
    if ts: "active_timers st1 = remove_first P (active_timers st)" for st1 P
  proof (cases "timers_from pp (active_timers st1)")
    case (Some rest1)
    have d1: "distinct (map tm_id (active_timers st1))" using d by (simp add: ts distinct_map_remove_first)
    have l: "length rest1 \<le> length rest" using timers_from_remove [OF r _ d] Some ts by simp
    show ?thesis
    proof (cases rest1)
      case (Cons u us)
      then show ?thesis
        using Some timers_from_unlink [of pp "active_timers st1" u us] d1 l
        by (simp add: unlink_timer_def less_left_def distinct_map_remove_first)
    qed (use Some in \<open>simp add: unlink_timer_def\<close>)
  qed (simp add: unlink_timer_def)
  have "partially (remove_connection i st) (\<lambda>st1. \<exists>P. active_timers st1 = remove_first P (active_timers st))"
    by (auto simp: remove_connection_def Let_def cancel_retransmission_timer_def put_conn_def partially_def
        split: option.split bind_splits)
  then have "partially (remove_connection i st) (\<lambda>st1. partially (unlink_timer pp st1) (less_left pp (length rest - 1)))"
    by (rule partially_mono) (elim exE, rule un)
  then show ?thesis by simp
qed

lemma update_timer_left:
  assumes d: "distinct (map tm_id (active_timers st))" and r: "timers_from pp (active_timers st) = Some (t # rest)"
    and st': "active_timers st' = active_timers st" and f: "\<And>u. tm_id (f u) = tm_id u"
  shows "less_left (Some (tm_id t)) (length rest) (update_timer n f st')"
proof -
  let ?g = "\<lambda>u. if tm_id u = n then f u else u"
  have g: "tm_id (?g u) = tm_id u" for u by (simp add: f)
  have ts: "active_timers (update_timer n f st') = map ?g (active_timers st)" by (simp add: update_timer_def st')
  have "map tm_id (map ?g (active_timers st)) = map tm_id (active_timers st)" by (simp add: f)
  moreover have "timers_from (Some (tm_id t)) (map ?g (active_timers st)) = Some (map ?g rest)"
    using timers_from_next [OF r d] timers_from_map [of ?g, OF g] by simp
  ultimately show ?thesis using d by (simp only: less_left_def ts) simp
qed

lemma send_on_timers: "partially (send_on i fl dt ln st) (\<lambda>st'. active_timers st' = active_timers st)"
proof (cases "conns st i")
  case (Some c)
  show ?thesis by (rule partially_mono [OF send_on_sets [OF Some]]) (auto simp: sets_simps)
qed (simp add: send_on_def)

lemma timer_expired_left:
  assumes d: "distinct (map tm_id (active_timers st))" and r: "timers_from pp (active_timers st) = Some (t # rest)"
  shows "partially (timer_expired pp t st) (\<lambda>(pp', st'). less_left pp' (length rest) st')"
proof (cases "conns st (tm_conn t)")
  case (Some c)
  let ?i = "tm_conn t"
  have close: "partially (do { st \<leftarrow> remove_connection ?i st; st \<leftarrow> unlink_timer pp st; Some (pp, st) })
    (\<lambda>(pp', st'). less_left pp' (length rest) st')"
    using close_expired_left [OF d r] by simp
  have send: "partially (send_on ?i fl dt ln st) (\<lambda>st1. less_left (Some (tm_id t)) (length rest) (update_timer n (f st1) (h st1)))"
    if "\<And>s u. tm_id (f s u) = tm_id u" "\<And>s. active_timers (h s) = active_timers s" for fl dt ln n f h
    by (rule partially_mono [OF send_on_timers]) (use that in \<open>auto intro: update_timer_left [OF d r]\<close>)
  have send': "partially (send_on ?i fl dt ln st) (\<lambda>st1. partially (conns st1 ?i) (\<lambda>c'.
      less_left (Some (tm_id t)) (length rest) (update_timer n (f st1) (h st1 c'))))"
    if "\<And>s u. tm_id (f s u) = tm_id u" "\<And>s c. active_timers (h s c) = active_timers s" for fl dt ln n f h
    by (rule partially_mono [OF send_on_timers])
      (use that in \<open>auto intro!: partially_any intro: update_timer_left [OF d r]\<close>)
  show ?thesis
    using Some close send [where h = "\<lambda>s. s"] send'
    by (simp add: timer_expired_def Let_def split: list.split)
qed (simp add: timer_expired_def)

lemma check_timers_fuel:
  "less_left pp fuel st \<Longrightarrow> check_timers (fuel + k) pp now st = check_timers fuel pp now st"
proof (induction fuel arbitrary: pp st)
  case 0
  then show ?case
    by (cases "timers_from pp (active_timers st)") (auto simp: less_left_def check_timers.simps [of k] check_timers.simps [of 0])
next
  case (Suc fuel)
  show ?case
  proof (cases "timers_from pp (active_timers st)")
    case (Some rest)
    show ?thesis
    proof (cases rest)
      case (Cons t ts)
      have d: "distinct (map tm_id (active_timers st))" and l: "length ts \<le> fuel"
        using Suc.prems Some Cons by (auto simp: less_left_def)
      have r: "timers_from pp (active_timers st) = Some (t # ts)" using Some Cons by simp
      have next_left: "less_left (Some (tm_id t)) fuel st"
        using d l timers_from_next [OF r d] by (simp add: less_left_def)
      have "check_timers (fuel + k) pp' now st' = check_timers fuel pp' now st'"
        if "timer_expired pp t st = Some (pp', st')" for pp' st'
        using partiallyD [OF timer_expired_left [OF d r] that] l by (intro Suc.IH) (auto simp: less_left_def)
      then have "Option.bind (timer_expired pp t st) (\<lambda>(pp', st'). check_timers (fuel + k) pp' now st') =
          Option.bind (timer_expired pp t st) (\<lambda>(pp', st'). check_timers fuel pp' now st')"
        by (cases "timer_expired pp t st") auto
      then show ?thesis using Suc.IH [OF next_left]
        by (simp add: r check_timers.simps [of "Suc (fuel + k)"] check_timers.simps [of "Suc fuel"]
            del: check_timers.simps)
    qed (simp add: Some)
  qed simp
qed

end
