(* ===== verification/TcpSpec.thy ===== *)
theory TcpSpec
  imports TcpInv
begin

text \<open>
  What the TCP layer of \<open>src/drivers/net/tcp.c\<close> promises: the bytes of a segment and their checksum,
  the two steps of a passive open as total statements, the reachable states of connections, and the
  places where the code leaves the memory of a connection (timers, receive buffer).
\<close>

section \<open>The bytes of a segment\<close>

definition segment_bytes :: "u16 \<Rightarrow> u8 \<Rightarrow> u8 list \<Rightarrow> tcp_connection \<Rightarrow> u8 list" where
  "segment_bytes csum flags payload c =
     (let syn = (flags AND TCP_SYN \<noteq> 0) in
      tcp_header (local_port c) (remote_port c) (next_seq c) (expected_ack c) (if syn then 0x60 else 0x50) flags
        (4096 - recv_buffer_len c) csum @ (if syn then [2, 4, 5, 0xB4] else []) @ payload)"

definition sent_segment :: "u8 \<Rightarrow> u8 list \<Rightarrow> tcp_connection \<Rightarrow> u8 list" where
  "sent_segment flags payload c =
     (let s = segment_bytes 0 flags payload c in
      segment_bytes (the (tcp_checksum (htonl (local_ip c)) (htonl (remote_ip c)) s (of_nat (length s)))) flags payload c)"

lemma length_segment_bytes:
  "length (segment_bytes x flags payload c) = 20 + (if flags AND TCP_SYN \<noteq> 0 then 4 else 0) + length payload"
  by (simp add: segment_bytes_def)

lemma length_sent_segment: "length (sent_segment flags payload c) = length (segment_bytes 0 flags payload c)"
  by (simp add: sent_segment_def Let_def length_segment_bytes)

lemma length_pseudo_header [simp]: "length (pseudo_header s d l) = 12"
  by (simp add: pseudo_header_def)

text \<open>For an even length the checksum is that of the pseudo header followed by the segment.\<close>

lemma tcp_checksum_even:
  assumes "length seg = unat len" and "even (length seg)"
  shows "tcp_checksum s d seg len = Some (fold16 (sum16 (pseudo_header s d len @ seg) 0))"
  using assms by (simp add: tcp_checksum_def tcp_sum16_even sum16_append)

text \<open>For an odd length the last byte is added as a high byte, as if a zero byte came before it.\<close>

lemma tcp_checksum_odd_eq:
  assumes "length seg + 1 = unat len" and "even (length seg)"
  shows "tcp_checksum s d (seg @ [a]) len = Some (fold16 (sum16 (pseudo_header s d len @ seg @ [0, a]) 0))"
proof -
  have "take (unat len) (seg @ [a]) = seg @ [a]" using assms(1) by simp
  moreover have "unat len \<le> length (seg @ [a])" using assms(1) by simp
  ultimately show ?thesis
    using assms(2) by (simp only: tcp_checksum_def if_True tcp_sum16_odd)
      (simp add: tcp_sum16_even sum16_append)
qed

lemma segment_bytes_split:
  "segment_bytes x flags payload c =
     take 16 (segment_bytes 0 flags payload c) @ bytes16 x @ drop 18 (segment_bytes 0 flags payload c)"
  by (simp add: segment_bytes_def tcp_header_def Let_def bytes16_def bytes32_def)

lemma tcp_checksum_verifies:
  assumes len: "length (segment_bytes 0 flags payload c) = unat len" and ev: "even (length payload)"
    and c: "tcp_checksum s d (segment_bytes 0 flags payload c) len = Some x"
  shows "tcp_checksum s d (segment_bytes x flags payload c) len = Some 0"
proof -
  let ?s = "segment_bytes 0 flags payload c"
  have even: "even (length (segment_bytes y flags payload c))" for y
    using ev by (simp add: length_segment_bytes)
  have lens: "length (segment_bytes y flags payload c) = unat len" for y
    using len by (simp add: length_segment_bytes)
  let ?pre = "pseudo_header s d len @ take 16 ?s" and ?post = "drop 18 ?s"
  have x: "x = fold16 (sum16 (?pre @ [0, 0] @ ?post) 0)"
    using c tcp_checksum_even [OF len even] segment_bytes_split [of 0 flags payload c]
    by (simp add: bytes16_zero)
  have l: "length (take 16 ?s) = 16" by (simp add: length_segment_bytes)
  have "fold16 (sum16 (?pre @ bytes16 x @ ?post) 0) = 0"
    unfolding x by (rule checksum_verifies) (use l len u16_bound [of len] in simp_all)
  then show ?thesis
    using tcp_checksum_even [OF lens even, of s d x] segment_bytes_split [of x flags payload c] by simp
qed

section \<open>Segments on the wire\<close>

lemma push_retransmit_wire: "push_retransmit sq fl data len c st = (c', st') \<Longrightarrow> wire st' = wire st"
  by (auto simp: push_retransmit_def malloc_def split: if_splits prod.splits)

lemma tcp_send_segment_wire:
  assumes arp: "fst (arp_lookup (next_hop (remote_ip c) st) st) = Some mac" and drv: "eth_send_packet_func st"
    and macs: "length mac = 6" "length (src_mac st) = 6"
    and len: "unat data_len \<le> length data" "unat data_len \<le> 1460"
  shows "runs (tcp_send_segment flags data data_len c st) (\<lambda>(c', st').
    wire st' = wire st @ [eth_frame mac (src_mac st) ETHERTYPE_IP
      (ipv4_packet (remote_ip c) IP_PROTO_TCP (sent_segment flags (take (unat data_len) data) c) st)])"
proof -
  define opts :: "u8 list" where "opts = (if flags AND TCP_SYN \<noteq> 0 then [2, 4, 5, 0xB4] else [])"
  define hl :: u16 where "hl = 20 + of_nat (length opts)"
  define payload where "payload = take (unat data_len) data"
  define c1 where "c1 = advance_seq flags data_len c"
  have ips: "local_ip c1 = local_ip c" "remote_ip c1 = remote_ip c"
    by (simp_all add: c1_def advance_seq_def Let_def)
  have hl: "unat hl = 20 + length opts" by (simp add: hl_def opts_def)
  have tot: "unat (hl + data_len) = 20 + length opts + unat data_len"
    using hl len(2) by (subst unat_add_le) (simp_all add: opts_def)
  have segs: "segment_bytes x flags payload c = tcp_header (local_port c) (remote_port c) (next_seq c) (expected_ack c)
      (if flags AND TCP_SYN \<noteq> 0 then 0x60 else 0x50) flags (4096 - recv_buffer_len c) x @ opts @ payload" for x
    by (simp add: segment_bytes_def opts_def Let_def)
  have ls: "length (segment_bytes x flags payload c) = unat (hl + data_len)" for x
    unfolding segs using tot len(1) by (simp add: payload_def)
  have ofn: "of_nat (length (segment_bytes x flags payload c)) = hl + data_len" for x by (simp add: ls)
  obtain x where x: "tcp_checksum (htonl (local_ip c)) (htonl (remote_ip c)) (segment_bytes 0 flags payload c)
      (hl + data_len) = Some x"
    using ls [of 0] by (simp add: tcp_checksum_def)
  have sent: "sent_segment flags payload c = segment_bytes x flags payload c"
    by (simp add: sent_segment_def ofn x Let_def)
  have le: "unat (hl + data_len) \<le> 1484" using tot len(2) by (simp add: opts_def)
  have snd: "net_send_ipv4_packet (remote_ip c) IP_PROTO_TCP (segment_bytes x flags payload c) (hl + data_len) st =
    Some (st\<lparr>packet_id := packet_id st + 1, wire := wire st @
      [eth_frame mac (src_mac st) ETHERTYPE_IP (ipv4_packet (remote_ip c) IP_PROTO_TCP (sent_segment flags payload c) st)]\<rparr>)"
    using net_send_ipv4_ok [OF arp drv macs _ le, of "segment_bytes x flags payload c" IP_PROTO_TCP]
    by (simp add: ls sent)
  have "\<not> length data < unat data_len" using len(1) by simp
  then have eq: "tcp_send_segment flags data data_len c st = do {
      csum \<leftarrow> tcp_checksum (htonl (local_ip c)) (htonl (remote_ip c)) (segment_bytes 0 flags payload c) (hl + data_len);
      st \<leftarrow> net_send_ipv4_packet (remote_ip c) IP_PROTO_TCP (segment_bytes csum flags payload c) (hl + data_len) st;
      Some (if flags = TCP_ACK \<and> data_len = 0 then (c1, st)
            else if flags AND (TCP_SYN OR TCP_FIN) \<noteq> 0 \<or> data_len > 0
            then push_retransmit (next_seq c) flags data data_len c1 st else (c1, st)) }"
    by (simp only: tcp_send_segment_def Let_def if_False opts_def [symmetric] hl_def [symmetric]
        payload_def [symmetric] c1_def [symmetric] ips segs)
  show ?thesis
    unfolding eq x bind.bind_lunit snd runs_simps payload_def [symmetric]
    by (auto dest!: push_retransmit_wire split: prod.split)
qed

section \<open>Passive open\<close>

text \<open>The fields of an incoming segment, in host byte order.\<close>

definition hdr16 :: "u8 list \<Rightarrow> nat \<Rightarrow> u16" where
  "hdr16 data k = ntohs (the (get_u16 data k))"

definition hdr32 :: "u8 list \<Rightarrow> nat \<Rightarrow> u32" where
  "hdr32 data k = ntohl (the (get_u32 data k))"

text \<open>A segment whose header and options lie inside the memory it was received in.\<close>

definition segment_ok :: "u8 list \<Rightarrow> u16 \<Rightarrow> bool" where
  "segment_ok data len \<longleftrightarrow> 20 \<le> unat len \<and> unat len \<le> length data \<and>
     5 \<le> unat (data ! 12) div 16 \<and> 4 * (unat (data ! 12) div 16) \<le> length data"

lemma get_u16_Some: "k + 2 \<le> length data \<Longrightarrow> get_u16 data k = Some (the (get_u16 data k))"
  by (simp add: get_u16_def rd_def)

lemma get_u32_Some: "k + 4 \<le> length data \<Longrightarrow> get_u32 data k = Some (the (get_u32 data k))"
  by (simp add: get_u32_def rd_def)

lemma unat_drop_4: "unat (drop_bit 4 off) = unat off div 16" for off :: u8
  by (simp add: unsigned_drop_bit_eq drop_bit_eq_div)

lemma segment_fields:
  assumes "segment_ok data len"
  shows "rd data 12 = Some (data ! 12)" "rd data 13 = Some (data ! 13)" "\<not> drop_bit 4 (data ! 12) < 5"
    "get_u16 data 0 = Some (the (get_u16 data 0))" "get_u16 data 2 = Some (the (get_u16 data 2))"
    "get_u32 data 4 = Some (the (get_u32 data 4))" "get_u32 data 8 = Some (the (get_u32 data 8))"
    "\<exists>cleared. blit data 16 [0, 0] 2 = Some cleared \<and> length cleared = length data"
  using assms get_u16_Some [of 0 data] get_u16_Some [of 2 data] get_u32_Some [of 4 data] get_u32_Some [of 8 data]
  by (auto simp: segment_ok_def rd_def blit_def word_less_nat_alt unat_drop_4)

text \<open>What \<open>tcp_handle_packet\<close> does with such a segment, after the header has been read.\<close>

lemma handle_packet_eq:
  assumes ok: "segment_ok data len"
    and find: "find_connection (ntohl src) (hdr16 data 0) (ntohl dst) (hdr16 data 2) st = Some conn"
    and rst: "data ! 13 AND TCP_RST = 0"
  shows "tcp_handle_packet src dst data len st =
    (case conn of
       None \<Rightarrow> if data ! 13 AND TCP_SYN \<noteq> 0 \<and> is_listening_port (hdr16 data 2) st
               then accept_syn src dst data (hdr16 data 0) (hdr16 data 2) st
               else tcp_send_reset src dst data st
     | Some i \<Rightarrow> do { c \<leftarrow> conns st i;
                    case state c of
                      TCP_SYN_SENT \<Rightarrow> handle_syn_sent_state i data (data ! 13) st
                    | TCP_SYN_RECEIVED \<Rightarrow> handle_syn_received_state i data (data ! 13) st
                    | TCP_ESTABLISHED \<Rightarrow> handle_established_state i data len st
                    | TCP_WAIT_FOR_ACK \<Rightarrow> handle_wait_for_ack_state i data st
                    | TCP_LAST_ACK \<Rightarrow> handle_last_ack_state i data st
                    | _ \<Rightarrow> Some st })"
proof -
  note f = segment_fields [OF ok]
  obtain cleared where cl: "blit data 16 [0, 0] 2 = Some cleared" "length cleared = length data"
    using f(8) by blast
  obtain cs where cs: "tcp_checksum src dst cleared len = Some cs"
    using ok cl(2) by (simp add: tcp_checksum_def segment_ok_def)
  have p: "map_option ntohs (get_u16 data 0) = Some (hdr16 data 0)" "map_option ntohs (get_u16 data 2) = Some (hdr16 data 2)"
    using f(4,5) by (metis hdr16_def option.simps(9))+
  show ?thesis
    unfolding tcp_handle_packet_def f(1,2) bind.bind_lunit cl(1) cs p find
    using f(3) rst by simp
qed

lemma malloc_state:
  "malloc st = (b, st') \<Longrightarrow> net_ok st' = net_ok st \<and> ticks st' = ticks st \<and> conns st' = conns st \<and>
    connection_list st' = connection_list st \<and> next_conn st' = next_conn st \<and> seq_counter st' = seq_counter st"
  by (auto simp: malloc_def net_ok_def src_mac_def cong: option.case_cong)

lemma options_length:
  assumes "segment_ok data len"
  shows "unat (drop_bit 4 (data ! 12) * 4 - 20) \<le> length (drop 20 data)"
proof -
  have "unat (data ! 12) div 16 < 16" using u8_bound [of "data ! 12"] by simp
  then have "unat (drop_bit 4 (data ! 12) * 4) = 4 * (unat (data ! 12) div 16)"
    by (subst unat_mult_le) (simp_all add: unat_drop_4)
  moreover have "20 \<le> unat (drop_bit 4 (data ! 12) * 4)"
    using assms calculation by (simp add: segment_ok_def)
  moreover have "4 * (unat (data ! 12) div 16) - 20 \<le> length data - 20"
    using assms by (intro diff_le_mono) (simp add: segment_ok_def)
  ultimately show ?thesis
    using unat_sub [of 20 "drop_bit 4 (data ! 12) * 4"] by (simp add: word_le_nat_alt)
qed

lemma initial_mss_runs:
  assumes "segment_ok data len"
  shows "runs (if drop_bit 4 (data ! 12) * 4 - 20 > 0
      then process_tcp_options (drop 20 data) (drop_bit 4 (data ! 12) * 4 - 20) DEFAULT_MSS
      else Some DEFAULT_MSS) (\<lambda>m. m \<le> DEFAULT_MSS)"
  using process_tcp_options_safe [OF options_length [OF assms], of DEFAULT_MSS] by simp

lemma accept_syn_runs:
  assumes ok: "segment_ok data len" and net: "net_ok st" and mem: "malloc_ok st (malloc_calls st)"
  shows "runs (accept_syn src dst data sp dp st) (\<lambda>st'. \<exists>c.
    conns st' = (conns st)(next_conn st := Some c) \<and> connection_list st' = next_conn st # connection_list st \<and>
    state c = TCP_SYN_RECEIVED \<and> local_ip c = ntohl dst \<and> remote_ip c = ntohl src \<and>
    local_port c = dp \<and> remote_port c = sp \<and> expected_ack c = hdr32 data 4 + 1 \<and>
    next_seq c = fst (generate_secure_initial_seq st) + 1 \<and> mss c \<le> DEFAULT_MSS \<and> recv_buffer_len c = 0)"
proof -
  define st1 where "st1 = st\<lparr>malloc_calls := malloc_calls st + 1\<rparr>"
  have m: "malloc st = (True, st1)" using mem by (simp add: malloc_def st1_def)
  note st1 = malloc_state [OF m]
  obtain isn st2 where g: "generate_secure_initial_seq st1 = (isn, st2)" by fastforce
  have isn: "isn = fst (generate_secure_initial_seq st)"
    and st2: "net_ok st2" "conns st2 = conns st" "connection_list st2 = connection_list st" "next_conn st2 = next_conn st"
    using g st1 net by (auto simp: generate_secure_initial_seq_def net_ok_def src_mac_def cong: option.case_cong)
  obtain m where ms: "(if drop_bit 4 (data ! 12) * 4 - 20 > 0
      then process_tcp_options (drop 20 data) (drop_bit 4 (data ! 12) * 4 - 20) DEFAULT_MSS
      else Some DEFAULT_MSS) = Some m" "m \<le> DEFAULT_MSS"
    using initial_mss_runs [OF ok] unfolding runs_iff by blast
  obtain sq where seq: "get_u32 data 4 = Some sq" using segment_fields(6) [OF ok] by blast
  then have hdr: "hdr32 data 4 = ntohl sq" by (simp add: hdr32_def)
  define c where "c = zero_conn\<lparr>local_ip := ntohl dst, remote_ip := ntohl src, local_port := dp,
    remote_port := sp, next_seq := isn, expected_ack := ntohl sq + 1, state := TCP_SYN_RECEIVED, mss := m\<rparr>"
  let ?i = "next_conn st"
  define st3 where "st3 = add_connection ?i (put_conn ?i c (st2\<lparr>next_conn := ?i + 1\<rparr>))"
  have st3: "net_ok st3" "conns st3 = (conns st)(?i := Some c)" "connection_list st3 = ?i # connection_list st"
    using st2 by (simp_all add: st3_def add_connection_def put_conn_def net_ok_def src_mac_def cong: option.case_cong)
  have eq: "accept_syn src dst data sp dp st = do {
      st \<leftarrow> send_on ?i (TCP_SYN OR TCP_ACK) [] 0 st3;
      Some (start_retransmission_timer ?i TCP_SYN_RETRANSMIT_TIMEOUT st) }"
    by (simp only: accept_syn_def m prod.case segment_fields(1) [OF ok] seq bind.bind_lunit g ms(1) Let_def
        not_True_eq_False if_False c_def [symmetric] st2(4) st3_def [symmetric])
  have "runs (send_on ?i (TCP_SYN OR TCP_ACK) [] 0 st3) (\<lambda>st4. \<exists>c'.
      conns st4 = (conns st)(?i := Some c') \<and> connection_list st4 = ?i # connection_list st \<and>
      segment_sent (TCP_SYN OR TCP_ACK) 0 c c')"
    using runs_mono_pair [OF tcp_send_segment_runs [OF st3(1), of 0 "[]" "TCP_SYN OR TCP_ACK" c],
        where Q = "\<lambda>c' s. segment_sent (TCP_SYN OR TCP_ACK) 0 c c' \<and> net_step st3 s"]
    by (auto simp: send_on_def st3 runs_def case_prod_unfold net_step_tcp split: option.splits)
  then show ?thesis
    unfolding eq runs_simps
    by (rule runs_mono) (auto simp: start_retransmission_timer_def malloc_def segment_sent_def c_def zero_conn_def
        hdr isn ms(2))
qed

text \<open>The answer to it.\<close>

lemma syn_received_eq:
  assumes ok: "segment_ok data len" and rst: "data ! 13 AND TCP_RST = 0"
    and find: "find_connection (ntohl src) (hdr16 data 0) (ntohl dst) (hdr16 data 2) st = Some (Some i)"
    and c: "conns st i = Some c" "state c = TCP_SYN_RECEIVED"
  shows "tcp_handle_packet src dst data len st =
    Some (if data ! 13 AND TCP_ACK \<noteq> 0 \<and> hdr32 data 8 = next_seq c
          then cancel_retransmission_timer i (put_conn i (c\<lparr>state := TCP_ESTABLISHED\<rparr>) st) else st)"
proof -
  obtain ack where "get_u32 data 8 = Some ack" using segment_fields(7) [OF ok] by blast
  then show ?thesis
    using handle_packet_eq [OF ok find rst] c by (simp add: handle_syn_received_state_def hdr32_def)
qed

lemma find_first:
  assumes "connection_list st = i # rest" and "conns st i = Some c"
    and "remote_ip c = rip" "remote_port c = rport" "local_ip c = lip" "local_port c = lport"
  shows "find_connection rip rport lip lport st = Some (Some i)"
  using assms by (simp add: find_connection_def)

section \<open>Timers that run out\<close>

text \<open>An expired timer whose retries are used up.\<close>

definition exhausted :: "tcp_timer \<Rightarrow> tcp_net \<Rightarrow> bool" where
  "exhausted t st \<longleftrightarrow> ticks st - tm_start_time t \<ge> tm_timeout_ms t \<and>
     (case conns st (tm_conn t) of
        None \<Rightarrow> False
      | Some c \<Rightarrow> queue_ends c \<and> tm_conn t \<in> set (connection_list st) \<and>
          (if state c = TCP_WAIT_FOR_ACK
           then (case retransmit_queue c of [] \<Rightarrow> True | e # _ \<Rightarrow> \<not> re_retries e < MAX_SYN_RETRIES)
           else \<not> tm_retries t < MAX_SYN_RETRIES))"

lemma timer_expired_exhausted:
  assumes "exhausted t st"
  shows "timer_expired pp t st =
    do { st \<leftarrow> remove_connection (tm_conn t) st; st \<leftarrow> unlink_timer pp st; Some (pp, st) }"
  using assms unfolding exhausted_def
  by (cases "conns st (tm_conn t)") (auto simp: timer_expired_def Let_def split: if_splits list.splits)

lemma remove_exhausted:
  assumes "exhausted t st" and "active_timers st = t # ts"
  shows "\<exists>st'. remove_connection (tm_conn t) st = Some st' \<and> active_timers st' = ts"
  using assms unfolding exhausted_def
  by (cases "conns st (tm_conn t)") (simp_all add: remove_connection_def Let_def cancel_retransmission_timer_def)

lemma check_timers_exhausted:
  assumes ex: "exhausted t st" and ts: "active_timers st = t # ts"
  shows "ts = [] \<Longrightarrow> check_tcp_timers st = None"
    "ts = [u] \<Longrightarrow> \<exists>st'. check_tcp_timers st = Some st' \<and> active_timers st' = []"
proof -
  obtain st1 where st1: "remove_connection (tm_conn t) st = Some st1" "active_timers st1 = ts"
    using remove_exhausted [OF assms] by blast
  have exp: "timer_expired None t st = do { st \<leftarrow> unlink_timer None st1; Some (None, st) }"
    using timer_expired_exhausted [OF ex, of None] st1(1) by simp
  have due: "ticks st - tm_start_time t \<ge> tm_timeout_ms t" using ex by (simp add: exhausted_def)
  show "check_tcp_timers st = None" if "ts = []"
    using exp due ts st1(2) that by (simp add: check_tcp_timers_def timers_from_def unlink_timer_def)
  show "\<exists>st'. check_tcp_timers st = Some st' \<and> active_timers st' = []" if "ts = [u]"
    using exp due ts st1(2) that by (simp add: check_tcp_timers_def timers_from_def unlink_timer_def)
qed

section \<open>Reachable states\<close>

text \<open>
  What can happen to the TCP layer: a segment comes in, the shell runs the timers or opens a
  connection, a port is opened, and below it time passes and packets come and go.
\<close>

inductive tcp_reach :: "tcp_net \<Rightarrow> tcp_net \<Rightarrow> bool" for st0 where
  start: "tcp_reach st0 st0"
| segment: "tcp_reach st0 st \<Longrightarrow> tcp_handle_packet src dst data len st = Some st' \<Longrightarrow> tcp_reach st0 st'"
| timers: "tcp_reach st0 st \<Longrightarrow> check_tcp_timers st = Some st' \<Longrightarrow> tcp_reach st0 st'"
| connect: "tcp_reach st0 st \<Longrightarrow> tcp_connect rip rport st = Some (r, st') \<Longrightarrow> tcp_reach st0 st'"
| listen: "tcp_reach st0 st \<Longrightarrow> tcp_reach st0 (tcp_listen port st)"
| below: "tcp_reach st0 st \<Longrightarrow> net.more st' = net.more st \<Longrightarrow> tcp_reach st0 st'"

definition working_state :: "tcp_state \<Rightarrow> bool" where
  "working_state s \<longleftrightarrow> s \<in> {TCP_SYN_SENT, TCP_SYN_RECEIVED, TCP_ESTABLISHED, TCP_WAIT_FOR_ACK, TCP_LAST_ACK}"

definition all_working :: "tcp_net \<Rightarrow> bool" where
  "all_working st \<longleftrightarrow> (\<forall>i c. conns st i = Some c \<longrightarrow> working_state (state c))"

lemma move_working: "tcp_move s s' \<Longrightarrow> pred_option working_state s \<Longrightarrow> pred_option working_state s'"
  by (induction rule: tcp_move.induct) (simp_all add: working_state_def)

lemma all_working_iff: "all_working st \<longleftrightarrow> (\<forall>i. pred_option working_state (map_option state (conns st i)))"
  by (auto simp: all_working_def option.pred_map pred_option_def split: option.splits)

lemma moves_working: "moves st st' \<Longrightarrow> all_working st \<Longrightarrow> all_working st'"
  unfolding all_working_iff moves_def using move_working by blast

lemma tcp_listen_ok: "tcp_ok (tcp_listen port st) = tcp_ok st" "conns (tcp_listen port st) = conns st"
  by (auto simp: tcp_listen_def malloc_def tcp_ok_def has_timer_def)

lemma below_ok: "net.more st' = net.more st \<Longrightarrow> tcp_ok st' = tcp_ok st \<and> conns st' = conns (st :: tcp_net)"
  by (cases st; cases st') (simp add: tcp_ok_def has_timer_def)

lemma reach_ok: "tcp_reach st0 st \<Longrightarrow> tcp_ok st0 \<Longrightarrow> all_working st0 \<Longrightarrow> tcp_ok st \<and> all_working st"
proof (induction rule: tcp_reach.induct)
  case (segment st src dst data len st')
  then show ?case using partiallyD [OF handle_packet_ok] moves_working by blast
next
  case (timers st st')
  then show ?case using partiallyD [OF check_tcp_timers_ok] moves_working calm_moves by blast
next
  case (connect st rip rport r st')
  then have "tcp_ok st" "all_working st" by simp_all
  then show ?case using partiallyD [OF tcp_connect_ok connect.hyps(2)] moves_working by auto
next
  case (listen st port)
  then show ?case by (simp add: tcp_listen_ok all_working_def)
next
  case (below st st')
  then show ?case using below_ok [OF below.hyps(2)] by (simp add: all_working_def)
qed auto

section \<open>Properties\<close>

lemma runs_partially: "runs m P \<Longrightarrow> partially m Q \<Longrightarrow> runs m (\<lambda>x. P x \<and> Q x)"
  by (simp add: runs_def partially_def split: option.splits)

text \<open>The host of \<open>demo_net\<close>, listening on port 8080, and the two segments of a client 10.0.2.2.\<close>

definition demo_tcp :: tcp_net where
  "demo_tcp = net.extend demo_net
     (tcp_net.fields (\<lambda>_. None) 0 [] [8080] [] 0 0 (zero_conn\<lparr>queue_ends := False\<rparr>) None)"

definition demo_syn :: "u8 list" where
  "demo_syn = [0x12, 0x34, 0x1F, 0x90, 0, 0, 0, 100, 0, 0, 0, 0, 0x50, 2, 0x20, 0, 0, 0, 0, 0]"

definition demo_ack :: "u8 list" where
  "demo_ack = [0x12, 0x34, 0x1F, 0x90, 0, 0, 0, 101, 0x03, 0xE8, 0, 1, 0x50, 0x10, 0x20, 0, 0, 0, 0, 0]"

lemmas demo_defs = demo_tcp_def demo_net_def net.extend_def tcp_net.fields_def

lemma demo_tcp_ok: "tcp_ok demo_tcp" "net_ok demo_tcp" "all_working demo_tcp" "malloc_ok demo_tcp (malloc_calls demo_tcp)"
  by (simp_all add: demo_defs tcp_ok_def has_timer_def zero_conn_def net_ok_def src_mac_def all_working_def)

text \<open>C4. The passive open: a \<open>SYN\<close> for a listening port from an unknown endpoint, followed by the
  acknowledgement of the number sent in the answer, leaves exactly one new connection, established,
  with the sequence numbers of the handshake and without a timer; every step is defined.\<close>

theorem tcp_three_way_handshake:
  assumes ok: "tcp_ok st" "net_ok st" "malloc_ok st (malloc_calls st)"
    and syn: "segment_ok syn len" "syn ! 13 AND TCP_SYN \<noteq> 0" "syn ! 13 AND TCP_RST = 0"
    and new: "find_connection (ntohl src) (hdr16 syn 0) (ntohl dst) (hdr16 syn 2) st = Some None"
    and listening: "is_listening_port (hdr16 syn 2) st"
    and ack: "segment_ok ack len'" "ack ! 13 AND TCP_ACK \<noteq> 0" "ack ! 13 AND TCP_RST = 0"
      "hdr16 ack 0 = hdr16 syn 0" "hdr16 ack 2 = hdr16 syn 2"
      "hdr32 ack 8 = fst (generate_secure_initial_seq st) + 1"
  shows "runs (tcp_handle_packet src dst syn len st) (\<lambda>st1. runs (tcp_handle_packet src dst ack len' st1) (\<lambda>st2. \<exists>c.
    conns st2 = (conns st)(next_conn st := Some c) \<and> connection_list st2 = next_conn st # connection_list st \<and>
    state c = TCP_ESTABLISHED \<and> remote_ip c = ntohl src \<and> remote_port c = hdr16 syn 0 \<and>
    local_ip c = ntohl dst \<and> local_port c = hdr16 syn 2 \<and> mss c \<le> DEFAULT_MSS \<and>
    expected_ack c = hdr32 syn 4 + 1 \<and> next_seq c = hdr32 ack 8 \<and> \<not> has_timer (next_conn st) st2 \<and> tcp_ok st2))"
proof -
  have eq: "tcp_handle_packet src dst syn len st = accept_syn src dst syn (hdr16 syn 0) (hdr16 syn 2) st"
    using handle_packet_eq [OF syn(1) new syn(3)] syn(2) listening by simp
  have accepted: "runs (accept_syn src dst syn (hdr16 syn 0) (hdr16 syn 2) st) (\<lambda>st1. (\<exists>c.
      conns st1 = (conns st)(next_conn st := Some c) \<and> connection_list st1 = next_conn st # connection_list st \<and>
      state c = TCP_SYN_RECEIVED \<and> local_ip c = ntohl dst \<and> remote_ip c = ntohl src \<and>
      local_port c = hdr16 syn 2 \<and> remote_port c = hdr16 syn 0 \<and> expected_ack c = hdr32 syn 4 + 1 \<and>
      next_seq c = fst (generate_secure_initial_seq st) + 1 \<and> mss c \<le> DEFAULT_MSS \<and> recv_buffer_len c = 0) \<and>
      tcp_ok st1 \<and> moves st st1)"
    by (rule runs_partially [OF accept_syn_runs [OF syn(1) ok(2,3)] accept_syn_ok [OF ok(1)]])
  show ?thesis
    unfolding eq
  proof (rule runs_mono [OF accepted], elim conjE exE)
    fix st1 c assume st1: "tcp_ok st1" "conns st1 = (conns st)(next_conn st := Some c)"
      "connection_list st1 = next_conn st # connection_list st" and c: "state c = TCP_SYN_RECEIVED"
      "local_ip c = ntohl dst" "remote_ip c = ntohl src" "local_port c = hdr16 syn 2" "remote_port c = hdr16 syn 0"
      "expected_ack c = hdr32 syn 4 + 1" "next_seq c = fst (generate_secure_initial_seq st) + 1" "mss c \<le> DEFAULT_MSS"
    let ?i = "next_conn st" and ?d = "c\<lparr>state := TCP_ESTABLISHED\<rparr>"
    have i: "conns st1 ?i = Some c" by (simp add: st1(2))
    have "find_connection (ntohl src) (hdr16 ack 0) (ntohl dst) (hdr16 ack 2) st1 = Some (Some ?i)"
      by (rule find_first [OF st1(3) i]) (simp_all add: c ack(4,5))
    then have run: "tcp_handle_packet src dst ack len' st1 = Some (cancel_retransmission_timer ?i (put_conn ?i ?d st1))"
      using syn_received_eq [OF ack(1,3) _ i c(1)] ack(2,6) c(7) by simp
    have "tcp_ok (cancel_retransmission_timer ?i (put_conn ?i ?d st1))"
      by (rule establish_ok [OF st1(1) i sets_put_conn]) simp
    moreover have "\<not> has_timer ?i (cancel_retransmission_timer ?i (put_conn ?i ?d st1))"
      using cancel_timer_gone [OF st1(1), of ?i]
      by (simp add: has_timer_def cancel_retransmission_timer_def)
    ultimately show "runs (tcp_handle_packet src dst ack len' st1) (\<lambda>st2. \<exists>c.
      conns st2 = (conns st)(?i := Some c) \<and> connection_list st2 = ?i # connection_list st \<and>
      state c = TCP_ESTABLISHED \<and> remote_ip c = ntohl src \<and> remote_port c = hdr16 syn 0 \<and>
      local_ip c = ntohl dst \<and> local_port c = hdr16 syn 2 \<and> mss c \<le> DEFAULT_MSS \<and>
      expected_ack c = hdr32 syn 4 + 1 \<and> next_seq c = hdr32 ack 8 \<and> \<not> has_timer ?i st2 \<and> tcp_ok st2)"
      unfolding run runs_simps by (intro exI [of _ ?d]) (simp add: st1 c ack)
  qed
qed

lemma demo_handshake:
  "segment_ok demo_syn 20" "segment_ok demo_ack 20" "hdr16 demo_syn 0 = 0x1234" "hdr16 demo_syn 2 = 8080"
  "hdr16 demo_ack 0 = 0x1234" "hdr16 demo_ack 2 = 8080" "hdr32 demo_ack 8 = 0x03E80001" "hdr32 demo_syn 4 = 100"
  by (simp add: segment_ok_def demo_syn_def demo_ack_def; fail | code_simp)+

theorem tcp_three_way_handshake_witness:
  "runs (tcp_handle_packet 0x0202000A 0x0F02000A demo_syn 20 demo_tcp) (\<lambda>st1.
    runs (tcp_handle_packet 0x0202000A 0x0F02000A demo_ack 20 st1) (\<lambda>st2. \<exists>c.
    conns st2 = (conns demo_tcp)(next_conn demo_tcp := Some c) \<and>
    connection_list st2 = next_conn demo_tcp # connection_list demo_tcp \<and>
    state c = TCP_ESTABLISHED \<and> remote_ip c = ntohl 0x0202000A \<and> remote_port c = hdr16 demo_syn 0 \<and>
    local_ip c = ntohl 0x0F02000A \<and> local_port c = hdr16 demo_syn 2 \<and> mss c \<le> DEFAULT_MSS \<and>
    expected_ack c = hdr32 demo_syn 4 + 1 \<and> next_seq c = hdr32 demo_ack 8 \<and>
    \<not> has_timer (next_conn demo_tcp) st2 \<and> tcp_ok st2))"
proof (rule tcp_three_way_handshake [OF demo_tcp_ok(1,2,4) demo_handshake(1) _ _ _ _ demo_handshake(2)])
  show "find_connection (ntohl 0x0202000A) (hdr16 demo_syn 0) (ntohl 0x0F02000A) (hdr16 demo_syn 2) demo_tcp = Some None"
    by (simp add: find_connection_def demo_defs)
  show "is_listening_port (hdr16 demo_syn 2) demo_tcp"
    by (simp add: is_listening_port_def demo_handshake) (simp add: demo_defs)
  show "hdr32 demo_ack 8 = fst (generate_secure_initial_seq demo_tcp) + 1"
    by code_simp
qed (simp_all add: demo_handshake, simp_all add: demo_syn_def demo_ack_def)

text \<open>C31. \<open>tcp_send_segment\<close> puts one frame to the next hop on the wire that carries the segment with the
  connection's ports and numbers, advances the sequence number by the data and by one for \<open>SYN\<close> and
  \<open>FIN\<close>; when the data has even length the checksum of the segment verifies at the receiver.\<close>

theorem tcp_segment_on_wire:
  assumes "net_ok st" and "fst (arp_lookup (next_hop (remote_ip c) st) st) = Some mac"
    and "eth_send_packet_func st" and "length mac = 6" and "unat data_len \<le> length data" and "unat data_len \<le> 1460"
  shows "runs (tcp_send_segment flags data data_len c st) (\<lambda>(c', st').
      wire st' = wire st @ [eth_frame mac (src_mac st) ETHERTYPE_IP
        (ipv4_packet (remote_ip c) IP_PROTO_TCP (sent_segment flags (take (unat data_len) data) c) st)] \<and>
      segment_sent flags data_len c c') \<and>
    (even (unat data_len) \<longrightarrow> tcp_checksum (htonl (local_ip c)) (htonl (remote_ip c))
      (sent_segment flags (take (unat data_len) data) c)
      (of_nat (length (sent_segment flags (take (unat data_len) data) c))) = Some 0)"
proof (intro conjI impI)
  have mac: "length (src_mac st) = 6" using assms(1) by (simp add: net_ok_def)
  show "runs (tcp_send_segment flags data data_len c st) (\<lambda>(c', st').
      wire st' = wire st @ [eth_frame mac (src_mac st) ETHERTYPE_IP
        (ipv4_packet (remote_ip c) IP_PROTO_TCP (sent_segment flags (take (unat data_len) data) c) st)] \<and>
      segment_sent flags data_len c c')"
    by (rule runs_mono [OF runs_conj [OF tcp_send_segment_wire [OF assms(2-4) mac assms(5,6)]
        tcp_send_segment_runs [OF assms(1,5,6)]]]) (auto split: prod.splits)
next
  assume ev: "even (unat data_len)"
  let ?p = "take (unat data_len) data" and ?s = "segment_bytes 0 flags (take (unat data_len) data) c"
  let ?len = "of_nat (length ?s) :: u16"
  have "length ?s \<le> 1484" using assms(5,6) by (simp add: length_segment_bytes)
  then have len: "length ?s = unat ?len" by (simp add: unat_of_nat)
  then obtain x where x: "tcp_checksum (htonl (local_ip c)) (htonl (remote_ip c)) ?s ?len = Some x"
    by (simp add: tcp_checksum_def)
  have "even (length ?p)" using ev assms(5) by simp
  from tcp_checksum_verifies [OF len this x]
  show "tcp_checksum (htonl (local_ip c)) (htonl (remote_ip c)) (sent_segment flags ?p c)
    (of_nat (length (sent_segment flags ?p c))) = Some 0"
    by (simp add: length_sent_segment) (simp add: sent_segment_def x Let_def)
qed

lemma demo_lookups:
  "find_connection rip rp lip lp demo_tcp = Some None" "is_listening_port 8080 demo_tcp" "next_conn demo_tcp = 0"
  by (simp_all add: find_connection_def is_listening_port_def demo_defs)

lemma demo_accept:
  "\<exists>st c. tcp_handle_packet 0x0202000A 0x0F02000A demo_syn 20 demo_tcp = Some st \<and> conns st 0 = Some c"
proof -
  have "demo_syn ! 13 AND TCP_RST = 0" "demo_syn ! 13 AND TCP_SYN \<noteq> 0" by (simp_all add: demo_syn_def)
  then have eq: "tcp_handle_packet 0x0202000A 0x0F02000A demo_syn 20 demo_tcp =
      accept_syn 0x0202000A 0x0F02000A demo_syn (hdr16 demo_syn 0) (hdr16 demo_syn 2) demo_tcp"
    using handle_packet_eq [OF demo_handshake(1) demo_lookups(1)] demo_lookups(2) by (simp add: demo_handshake)
  show ?thesis
    using accept_syn_runs [OF demo_handshake(1) demo_tcp_ok(2,4), of "0x0202000A" "0x0F02000A" "hdr16 demo_syn 0" "hdr16 demo_syn 2"]
    unfolding eq runs_iff demo_lookups(3) by auto
qed

lemma demo_tcp_arp: "fst (arp_lookup (next_hop 0x0A000202 demo_tcp) demo_tcp) = Some [0x52, 0x55, 10, 0, 2, 2]"
  by code_simp

definition demo_conn :: tcp_connection where
  "demo_conn = zero_conn\<lparr>local_ip := 0x0A00020F, remote_ip := 0x0A000202, local_port := 8080, remote_port := 0x1234,
     next_seq := 0x03E80001, expected_ack := 101, state := TCP_ESTABLISHED\<rparr>"

theorem tcp_segment_on_wire_witness:
  "runs (tcp_send_segment TCP_ACK [1, 2] 2 demo_conn demo_tcp) (\<lambda>(c', st').
      wire st' = wire demo_tcp @ [eth_frame [0x52, 0x55, 10, 0, 2, 2] (src_mac demo_tcp) ETHERTYPE_IP
        (ipv4_packet (remote_ip demo_conn) IP_PROTO_TCP (sent_segment TCP_ACK (take (unat (2 :: u16)) [1, 2]) demo_conn) demo_tcp)] \<and>
      segment_sent TCP_ACK 2 demo_conn c') \<and>
    tcp_checksum (htonl (local_ip demo_conn)) (htonl (remote_ip demo_conn))
      (sent_segment TCP_ACK (take (unat (2 :: u16)) [1, 2]) demo_conn)
      (of_nat (length (sent_segment TCP_ACK (take (unat (2 :: u16)) [1, 2]) demo_conn))) = Some 0"
proof -
  have "even (unat (2 :: u16))" by simp
  moreover note tcp_segment_on_wire [of demo_tcp demo_conn "[0x52, 0x55, 10, 0, 2, 2]" 2 "[1, 2]" TCP_ACK]
  moreover have "net_ok demo_tcp" using demo_tcp_ok by simp
  moreover have "fst (arp_lookup (next_hop (remote_ip demo_conn) demo_tcp) demo_tcp) = Some [0x52, 0x55, 10, 0, 2, 2]"
    using demo_tcp_arp by (simp add: demo_conn_def)
  moreover have "eth_send_packet_func demo_tcp" by (simp add: demo_defs)
  ultimately show ?thesis by simp
qed

text \<open>C11. The invariant of the TCP layer: whatever segment comes in, if \<open>tcp_handle_packet\<close> returns, the
  list holds exactly the allocated connections, no timer is left behind for a connection that was
  freed or established, no connection has two timers, and every connection has followed a transition
  of the state machine.\<close>

theorem tcp_handle_packet_invariant:
  assumes "tcp_ok st" and "tcp_handle_packet src dst data len st = Some st'"
  shows "tcp_ok st' \<and> (\<forall>i. tcp_move (map_option state (conns st i)) (map_option state (conns st' i)))"
  using partiallyD [OF handle_packet_ok assms(2)] assms(1) by (simp add: moves_def)

theorem tcp_handle_packet_invariant_witness:
  "\<exists>st'. tcp_handle_packet 0x0202000A 0x0F02000A demo_syn 20 demo_tcp = Some st' \<and> tcp_ok st' \<and>
    (\<forall>i. tcp_move (map_option state (conns demo_tcp i)) (map_option state (conns st' i)))"
proof -
  obtain st' where "tcp_handle_packet 0x0202000A 0x0F02000A demo_syn 20 demo_tcp = Some st'"
    using demo_accept by blast
  then show ?thesis using tcp_handle_packet_invariant [OF demo_tcp_ok(1)] by blast
qed

text \<open>C33. In every state reachable from a good one, each connection is in one of five states; the
  states \<open>TCP_FIN_WAIT_1\<close>, \<open>TCP_FIN_WAIT_2\<close>, \<open>TCP_CLOSING\<close> and \<open>TCP_TIME_WAIT\<close> of an active close are never
  entered, and \<open>TCP_CLOSE_WAIT\<close> never outlives a segment.\<close>

theorem tcp_reachable_states:
  assumes "tcp_reach st0 st" and "tcp_ok st0" and "all_working st0" and "conns st i = Some c"
  shows "state c \<in> {TCP_SYN_SENT, TCP_SYN_RECEIVED, TCP_ESTABLISHED, TCP_WAIT_FOR_ACK, TCP_LAST_ACK} \<and>
    i \<in> set (connection_list st)"
  using reach_ok [OF assms(1-3)] assms(4) by (auto simp: all_working_def working_state_def tcp_okD)

theorem tcp_reachable_states_witness:
  "\<exists>st c. tcp_reach demo_tcp st \<and> conns st 0 = Some c \<and>
    state c \<in> {TCP_SYN_SENT, TCP_SYN_RECEIVED, TCP_ESTABLISHED, TCP_WAIT_FOR_ACK, TCP_LAST_ACK} \<and>
    0 \<in> set (connection_list st)"
proof -
  obtain st c where "tcp_handle_packet 0x0202000A 0x0F02000A demo_syn 20 demo_tcp = Some st" "conns st 0 = Some c"
    using demo_accept by blast
  then show ?thesis
    using tcp_reachable_states [OF tcp_reach.segment [OF tcp_reach.start] demo_tcp_ok(1,3)] tcp_reach.segment [OF tcp_reach.start]
    by blast
qed

text \<open>When a timer has used up its retries, \<open>check_tcp_timers\<close> closes the connection, which already
  unlinks and frees the timer, and then unlinks whatever the walk stands on: with no other timer this
  dereferences \<open>NULL\<close>, and with one other timer that one is dropped, expired or not.\<close>

theorem check_tcp_timers_unlinks_twice:
  assumes "exhausted t st" and "active_timers st = t # ts"
  shows "(ts = [] \<longrightarrow> check_tcp_timers st = None) \<and>
    (\<forall>u. ts = [u] \<longrightarrow> (\<exists>st'. check_tcp_timers st = Some st' \<and> active_timers st' = []))"
  using check_timers_exhausted [OF assms] by blast

definition timed_out :: tcp_net where
  "timed_out = demo_tcp\<lparr>conns := [0 \<mapsto> demo_conn\<lparr>state := TCP_SYN_RECEIVED\<rparr>, 1 \<mapsto> demo_conn\<lparr>remote_port := 7, state := TCP_SYN_RECEIVED\<rparr>],
     next_conn := 2, connection_list := [1, 0], next_timer := 2,
     active_timers := [\<lparr>tm_id = 1, tm_conn = 1, tm_timeout_ms = 600, tm_start_time = 0, tm_retries = 5\<rparr>,
       \<lparr>tm_id = 0, tm_conn = 0, tm_timeout_ms = 3000, tm_start_time = 900, tm_retries = 0\<rparr>]\<rparr>"

theorem check_tcp_timers_unlinks_twice_witness:
  "check_tcp_timers (timed_out\<lparr>active_timers := [hd (active_timers timed_out)]\<rparr>) = None \<and>
   (\<exists>st'. check_tcp_timers timed_out = Some st' \<and> active_timers st' = [])"
proof
  have "exhausted (hd (active_timers timed_out)) (timed_out\<lparr>active_timers := [hd (active_timers timed_out)]\<rparr>)"
    "exhausted (hd (active_timers timed_out)) timed_out"
    by (simp_all add: exhausted_def timed_out_def demo_conn_def zero_conn_def) (simp_all add: demo_defs)
  then show "check_tcp_timers (timed_out\<lparr>active_timers := [hd (active_timers timed_out)]\<rparr>) = None"
    "\<exists>st'. check_tcp_timers timed_out = Some st' \<and> active_timers st' = []"
    using check_tcp_timers_unlinks_twice [of "hd (active_timers timed_out)"]
    by (simp_all add: timed_out_def)
qed

text \<open>The receive buffer has 4096 bytes and nothing ever empties it: data that does not fit behind
  what was received before is written past its end.\<close>

theorem tcp_receive_overrun:
  assumes "conns st i = Some c" and "length (recv_buffer c) = 4096"
    and "is_http_get_request payload len = Some False" and "4096 < unat (recv_buffer_len c) + unat len"
  shows "handle_data i seq payload len st = None"
  using assms by (simp add: handle_data_def Let_def blit_def)

theorem tcp_receive_overrun_witness:
  "handle_data 0 100 (replicate 20 65) 20
     (demo_tcp\<lparr>conns := [0 \<mapsto> demo_conn\<lparr>recv_buffer_len := 4080\<rparr>]\<rparr>) = None"
  by (rule tcp_receive_overrun [where c = "demo_conn\<lparr>recv_buffer_len := 4080\<rparr>"])
    (simp_all add: demo_conn_def zero_conn_def is_http_get_request_def rd_def)

text \<open>For a segment of odd length \<open>tcp_checksum\<close> adds the last byte as if a zero byte came before it,
  where the Internet checksum pads with a zero byte behind it; the two differ.\<close>

theorem tcp_checksum_odd_length:
  assumes "length seg + 1 = unat len" and "even (length seg)"
  shows "tcp_checksum s d (seg @ [a]) len = Some (fold16 (sum16 (pseudo_header s d len @ seg @ [0, a]) 0))"
  using assms by (rule tcp_checksum_odd_eq)

theorem tcp_checksum_odd_length_witness:
  "tcp_checksum 0 0 (replicate 20 0 @ [1]) 21 = Some (fold16 (sum16 (pseudo_header 0 0 21 @ replicate 20 0 @ [0, 1]) 0)) \<and>
   fold16 (sum16 (pseudo_header 0 0 21 @ replicate 20 0 @ [0, 1]) 0) \<noteq>
   fold16 (sum16 (pseudo_header 0 0 21 @ replicate 20 0 @ [1, 0]) 0)"
proof
  show "tcp_checksum 0 0 (replicate 20 0 @ [1]) 21 =
    Some (fold16 (sum16 (pseudo_header 0 0 21 @ replicate 20 0 @ [0, 1]) 0))"
    by (rule tcp_checksum_odd_length) simp_all
  show "fold16 (sum16 (pseudo_header 0 0 21 @ replicate 20 0 @ [0, 1]) 0) \<noteq>
    fold16 (sum16 (pseudo_header 0 0 21 @ replicate 20 0 @ [1, 0]) 0)"
    by code_simp
qed

text \<open>However the options of a segment are formed, \<open>process_tcp_options\<close> reads nothing beyond the
  length it is given and leaves a maximum segment size of at most 1460.\<close>

theorem tcp_options_in_bounds:
  assumes "unat remaining \<le> length ptr" and "m \<le> DEFAULT_MSS"
  shows "runs (process_tcp_options ptr remaining m) (\<lambda>m'. m' \<le> DEFAULT_MSS)"
  using assms by (rule process_tcp_options_safe)

theorem tcp_options_in_bounds_witness:
  "runs (process_tcp_options [1, 2, 4, 5, 0x64, 0, 0, 0] 8 DEFAULT_MSS) (\<lambda>m'. m' \<le> DEFAULT_MSS)"
  by (rule tcp_options_in_bounds) simp_all

text \<open>\<open>check_tcp_timers\<close> terminates: its loop makes at most as many turns as there are timers, whatever
  expires, is sent or is closed on the way; more fuel does not change the result.\<close>

theorem check_tcp_timers_terminates:
  assumes "distinct (map tm_id (active_timers st))"
  shows "check_timers (length (active_timers st) + k) None (ticks st) st = check_tcp_timers st"
  unfolding check_tcp_timers_def
  by (rule check_timers_fuel) (use assms in \<open>simp add: less_left_def\<close>)

theorem check_tcp_timers_terminates_witness:
  "check_timers (length (active_timers timed_out) + 7) None (ticks timed_out) timed_out = check_tcp_timers timed_out"
  by (rule check_tcp_timers_terminates) (simp add: timed_out_def)

end
