(* ===== verification/Network.thy ===== *)
theory Network
  imports TcpSpec
begin

text \<open>
  \<open>src/drivers/net/network.c\<close> and \<open>eth_init\<close> of \<open>src/drivers/net/eth.c\<close>: the dispatch of received frames to
  ARP, ICMP and TCP.  A frame is given as the memory from the driver's buffer on, together with the
  length the driver reports; reading behind that memory is undefined.
\<close>

section \<open>ARP packets\<close>

text \<open>Offsets in the packed \<open>struct arp_packet\<close>, which starts behind the Ethernet header.\<close>

definition arp_field :: "nat \<Rightarrow> nat \<Rightarrow> u8 list \<Rightarrow> u8 list option" where
  "arp_field off n arp = (if off + n \<le> length arp then Some (take n (drop off arp)) else None)"

abbreviation (input) ARP_REQUEST :: u16 where "ARP_REQUEST \<equiv> 1"
abbreviation (input) ARP_REPLY :: u16 where "ARP_REPLY \<equiv> 2"

text \<open>\<open>(ip[0] << 24) | (ip[1] << 16) | (ip[2] << 8) | ip[3]\<close>\<close>

definition ip_of_bytes :: "u8 list \<Rightarrow> u32 option" where
  "ip_of_bytes b = do { b0 \<leftarrow> rd b 0; b1 \<leftarrow> rd b 1; b2 \<leftarrow> rd b 2; b3 \<leftarrow> rd b 3;
     Some (push_bit 24 (ucast b0) OR push_bit 16 (ucast b1) OR push_bit 8 (ucast b2) OR ucast b3) }"

definition arp_reply_to :: "u8 list \<Rightarrow> u8 list \<Rightarrow> u8 list option" where
  "arp_reply_to arp my_mac =
     do { head \<leftarrow> arp_field 0 6 arp;
          sender_mac \<leftarrow> arp_field 8 6 arp;
          sender_ip \<leftarrow> arp_field 14 4 arp;
          target_ip \<leftarrow> arp_field 24 4 arp;
          mac \<leftarrow> arp_field 0 6 my_mac;
          Some (head @ bytes16 (htons ARP_REPLY) @ mac @ target_ip @ sender_mac @ sender_ip) }"

definition process_arp :: "u8 list \<Rightarrow> 'a net_scheme \<Rightarrow> 'a net_scheme option" where
  "process_arp arp st =
     do { opcode \<leftarrow> map_option ntohs (get_u16 arp 6);
          if opcode = ARP_REPLY
          then do { sender_ip \<leftarrow> map_option ntohl (get_u32 arp 14);
                    sender_mac \<leftarrow> arp_field 8 6 arp;
                    Some (arp_cache_update sender_ip sender_mac st) }
          else if opcode = ARP_REQUEST
          then do { target_bytes \<leftarrow> arp_field 24 4 arp;
                    target_ip \<leftarrow> ip_of_bytes target_bytes;
                    let target_ip = ntohl target_ip;
                    if target_ip = nic_ip_addr st
                    then do { sender_bytes \<leftarrow> arp_field 14 4 arp;
                              sender_ip \<leftarrow> ip_of_bytes sender_bytes;
                              sender_mac \<leftarrow> arp_field 8 6 arp;
                              let st = arp_cache_update sender_ip sender_mac st;
                              reply \<leftarrow> arp_reply_to arp (nic_mac st);
                              eth_send_frame sender_mac 0x0806 reply 28 st }
                    else Some st }
          else Some st }"

section \<open>IP packets\<close>

definition process_ip :: "u8 list \<Rightarrow> u16 \<Rightarrow> tcp_net \<Rightarrow> tcp_net option" where
  "process_ip data len st =
     (if unat len < 14 + 20 then Some st
      else do {
        let ip = drop 14 data;
        version_ihl \<leftarrow> rd ip 0;
        total_length \<leftarrow> map_option ntohs (get_u16 ip 2);
        let version = drop_bit 4 version_ihl AND 0xF;
        let ihl = version_ihl AND 0xF;
        let header_len = (ucast ihl * 4 :: u16);
        if version \<noteq> 4 \<or> ihl < 5 \<or> total_length < header_len then Some st
        else if unat len < 14 + unat total_length then Some st
        else do {
          frag_offset \<leftarrow> map_option ntohs (get_u16 ip 6);
          if frag_offset AND 0x1FFF \<noteq> 0 \<or> frag_offset AND 0x2000 \<noteq> 0 then Some st
          else do {
            dst \<leftarrow> get_u32 ip 16;
            if ntohl dst \<noteq> nic_ip_addr st \<and> ntohl dst \<noteq> 0xFFFFFFFF then Some st
            else do {
              protocol \<leftarrow> rd ip 9;
              src \<leftarrow> get_u32 ip 12;
              let payload = drop (unat header_len) ip;
              let payload_len = total_length - header_len;
              st \<leftarrow> (if protocol = IP_PROTO_TCP then tcp_handle_packet src dst payload payload_len st else Some st);
              if protocol = IP_PROTO_ICMP
              then if payload_len < 8 then Some st else icmp_handle_packet src payload payload_len st
              else Some st } } } })"

text \<open>\<open>data\<close> is \<open>NULL\<close> in no call of the drivers.\<close>

definition net_process_packet :: "u8 list \<Rightarrow> u16 \<Rightarrow> tcp_net \<Rightarrow> tcp_net option" where
  "net_process_packet data len st =
     (if unat len < 14 then Some st
      else do {
        ethertype \<leftarrow> map_option ntohs (get_u16 data 12);
        if ethertype = 0x0806 then process_arp (drop 14 data) st
        else if ethertype = ETHERTYPE_IP then process_ip data len st
        else Some st })"

section \<open>Initialisation\<close>

text \<open>
  \<open>rtl8139\<close> and \<open>ne2k\<close> are the hardware addresses read by the two drivers, \<open>None\<close> when the card is not
  there; both drivers store the address in \<open>nic.mac\<close>.
\<close>

definition eth_init :: "u8 list option \<Rightarrow> u8 list option \<Rightarrow> tcp_net \<Rightarrow> tcp_net option" where
  "eth_init rtl8139 ne2k st =
     (let st = (case rtl8139 of
                  Some mac \<Rightarrow> st\<lparr>nic_mac := mac, eth_send_packet_func := True, eth_get_mac_func := None\<rparr>
                | None \<Rightarrow> (case ne2k of
                    Some mac \<Rightarrow> st\<lparr>nic_mac := mac, eth_send_packet_func := True, eth_get_mac_func := Some mac\<rparr>
                  | None \<Rightarrow> st\<lparr>eth_send_packet_func := False\<rparr>))
      in do { ip \<leftarrow> inet_addr (ascii ''10.0.2.15'' @ [0]);
              netmask \<leftarrow> inet_addr (ascii ''255.255.255.0'' @ [0]);
              gateway \<leftarrow> inet_addr (ascii ''10.0.2.2'' @ [0]);
              let st = st\<lparr>nic_ip_addr := ip, nic_netmask := netmask, nic_gateway_ip := gateway\<rparr>;
              let st = rtl8139_send_arp_request (nic_ip_addr st) (nic_gateway_ip st) st;
              Some (tcp_listen 8080 st) })"

section \<open>What the dispatch keeps\<close>

text \<open>Whatever frame comes in, the layers above keep the TCP invariant.\<close>

lemma more_ok: "net.more st' = net.more st \<Longrightarrow> tcp_ok st' = tcp_ok (st :: tcp_net)"
  using below_ok by blast

lemma eth_send_frame_more: "partially (eth_send_frame mac et data len st) (\<lambda>st'. net.more st' = net.more st)"
  by (rule partially_mono [OF eth_send_frame_step]) (simp add: net_step_def)

lemma process_arp_more: "partially (process_arp arp st) (\<lambda>st'. net.more st' = net.more st)"
proof -
  have "partially (eth_send_frame mac et data len (arp_cache_update ip mac' st)) (\<lambda>st'. net.more st' = net.more st)"
    for mac et data len ip mac'
    using eth_send_frame_more [of mac et data len "arp_cache_update ip mac' st"] by (simp add: arp_cache_update_def)
  then show ?thesis by (simp add: process_arp_def Let_def partially_any arp_cache_update_def)
qed

lemma icmp_more: "partially (icmp_handle_packet src p len st) (\<lambda>st'. net.more st' = net.more st)"
proof -
  have "partially (net_send_ipv4_packet ip proto pl ln st) (\<lambda>st'. net.more st' = net.more st)" for ip proto pl ln
    by (rule partially_mono [OF net_send_ipv4_step]) (simp add: net_step_def)
  then show ?thesis by (simp add: icmp_handle_packet_def Let_def partially_any)
qed

lemma partially_ifI:
  "(b \<Longrightarrow> partially m Q) \<Longrightarrow> (\<not> b \<Longrightarrow> partially n Q) \<Longrightarrow> partially (if b then m else n) Q"
  by simp

lemma partially_bind_any: "(\<And>x. partially (f x) Q) \<Longrightarrow> partially (Option.bind m f) Q"
  by (simp add: partially_any)

lemma process_ip_ok:
  assumes ok: "tcp_ok st"
  shows "partially (process_ip data len st) tcp_ok"
proof -
  have icmp: "partially (if b then if c then Some s else icmp_handle_packet src p ln s else Some s) tcp_ok"
    if "tcp_ok s" for b c src p ln s
  proof -
    have "partially (icmp_handle_packet src p ln s) tcp_ok"
      by (rule partially_mono [OF icmp_more]) (use that more_ok in blast)
    then show ?thesis using that by simp
  qed
  have tcp: "partially (if t then tcp_handle_packet src dst p ln st else Some st)
      (\<lambda>s. partially (if b then if c then Some s else icmp_handle_packet src p ln s else Some s) tcp_ok)"
    for t src dst p ln b c
  proof -
    let ?Q = "\<lambda>s. partially (if b then if c then Some s else icmp_handle_packet src p ln s else Some s) tcp_ok"
    have "partially (tcp_handle_packet src dst p ln st) ?Q"
      by (rule partially_mono [OF handle_packet_ok [OF ok]], rule icmp) (erule conjunct1)
    moreover have "partially (Some st) ?Q" unfolding partially_simps by (rule icmp [OF ok])
    ultimately show ?thesis by (cases t) (simp_all only: if_True if_False)
  qed
  note any = partially_bind_any and cond = partially_ifI
  show ?thesis
    unfolding process_ip_def Let_def
    by (rule cond, simp add: ok, rule any, rule any, rule cond, simp add: ok, rule cond, simp add: ok, rule any,
        rule cond, simp add: ok, rule any, rule cond, simp add: ok, rule any, rule any)
      (subst partially_simps(3), rule tcp)
qed

lemma net_process_packet_ok:
  assumes ok: "tcp_ok st"
  shows "partially (net_process_packet data len st) tcp_ok"
proof -
  have "partially (process_arp arp st) tcp_ok" for arp
    by (rule partially_mono [OF process_arp_more]) (use ok more_ok in blast)
  then show ?thesis using process_ip_ok [OF ok] ok by (simp add: net_process_packet_def partially_any)
qed

section \<open>A ping through the stack\<close>

text \<open>
  A frame with an unfragmented IPv4 packet for this host: \<open>payload_at\<close> bytes of headers, then
  \<open>payload_len\<close> bytes.
\<close>

definition ip_for_us :: "u8 list \<Rightarrow> u16 \<Rightarrow> u8 \<Rightarrow> 'a net_scheme \<Rightarrow> bool" where
  "ip_for_us data len proto st \<longleftrightarrow>
     unat len \<le> length data \<and> 34 \<le> unat len \<and> word16 (data ! 12) (data ! 13) = htons ETHERTYPE_IP \<and>
     data ! 14 = 0x45 \<and> 20 \<le> unat (ntohs (word16 (data ! 16) (data ! 17))) \<and>
     14 + unat (ntohs (word16 (data ! 16) (data ! 17))) \<le> unat len \<and>
     ntohs (word16 (data ! 20) (data ! 21)) AND 0x3FFF = 0 \<and> data ! 23 = proto \<and>
     ntohl (word32 (data ! 30) (data ! 31) (data ! 32) (data ! 33)) = nic_ip_addr st"

abbreviation ip_source :: "u8 list \<Rightarrow> u32" where
  "ip_source data \<equiv> word32 (data ! 26) (data ! 27) (data ! 28) (data ! 29)"

abbreviation ip_payload_len :: "u8 list \<Rightarrow> u16" where
  "ip_payload_len data \<equiv> ntohs (word16 (data ! 16) (data ! 17)) - 20"

lemma ntohs_eq_iff: "ntohs a = b \<longleftrightarrow> a = htons b"
  by (metis ntohs_htons)

lemma masked_fragment:
  assumes "f AND 0x3FFF = 0"
  shows "f AND 0x1FFF = 0" "f AND 0x2000 = (0 :: u16)"
proof -
  have "f AND 0x1FFF = (f AND 0x3FFF) AND 0x1FFF" "f AND 0x2000 = (f AND 0x3FFF) AND 0x2000"
    by (simp_all add: and.assoc)
  then show "f AND 0x1FFF = 0" "f AND 0x2000 = 0" using assms by simp_all
qed

lemma process_ip_for_us:
  assumes us: "ip_for_us data len proto st"
  shows "net_process_packet data len st =
    do { st \<leftarrow> (if proto = IP_PROTO_TCP
               then tcp_handle_packet (ip_source data) (word32 (data ! 30) (data ! 31) (data ! 32) (data ! 33))
                      (drop 34 data) (ip_payload_len data) st else Some st);
         if proto = IP_PROTO_ICMP
         then if ip_payload_len data < 8 then Some st
              else icmp_handle_packet (ip_source data) (drop 34 data) (ip_payload_len data) st
         else Some st }"
proof -
  have len: "34 \<le> length data" and l: "\<not> unat len < 14" "\<not> unat len < 14 + 20"
    using us by (simp_all add: ip_for_us_def)
  have rd: "get_u16 data 12 = Some (word16 (data ! 12) (data ! 13))" "rd (drop 14 data) 0 = Some (data ! 14)"
    "get_u16 (drop 14 data) 2 = Some (word16 (data ! 16) (data ! 17))"
    "get_u16 (drop 14 data) 6 = Some (word16 (data ! 20) (data ! 21))"
    "get_u32 (drop 14 data) 16 = Some (word32 (data ! 30) (data ! 31) (data ! 32) (data ! 33))"
    "rd (drop 14 data) 9 = Some (data ! 23)" "get_u32 (drop 14 data) 12 = Some (ip_source data)"
    using len by (simp_all add: get_u16_def get_u32_def rd_def)
  have et: "ntohs (word16 (data ! 12) (data ! 13)) = ETHERTYPE_IP"
    using us by (simp only: ip_for_us_def ntohs_htons)
  have v: "data ! 14 = 0x45" "data ! 23 = proto" using us by (simp_all add: ip_for_us_def)
  have hl: "(ucast ((0x45 :: u8) AND 0xF) * 4 :: u16) = 20" "drop_bit 4 (0x45 :: u8) AND 0xF = 4"
    "\<not> (0x45 :: u8) AND 0xF < 5" by code_simp+
  have t: "\<not> ntohs (word16 (data ! 16) (data ! 17)) < 20"
    "\<not> unat len < 14 + unat (ntohs (word16 (data ! 16) (data ! 17)))"
    using us by (simp_all add: ip_for_us_def word_less_nat_alt)
  note fr = masked_fragment [of "ntohs (word16 (data ! 20) (data ! 21))"]
  have fr: "ntohs (word16 (data ! 20) (data ! 21)) AND 0x1FFF = 0"
    "ntohs (word16 (data ! 20) (data ! 21)) AND 0x2000 = 0"
    using us by (simp_all only: ip_for_us_def fr)
  have dst: "ntohl (word32 (data ! 30) (data ! 31) (data ! 32) (data ! 33)) = nic_ip_addr st"
    using us by (simp add: ip_for_us_def)
  have "drop (unat (20 :: u16)) (drop 14 data) = drop 34 data" by simp
  then show ?thesis
    unfolding net_process_packet_def process_ip_def Let_def
    by (simp only: l if_False rd option.simps(9) bind.bind_lunit et v hl t fr dst simp_thms) simp
qed

section \<open>Properties\<close>


definition demo_ping :: "u8 list" where
  "demo_ping = [0x52, 0x54, 0, 0x12, 0x34, 0x56, 0x52, 0x55, 10, 0, 2, 2, 8, 0,
     0x45, 0, 0, 28, 0, 0, 0, 0, 64, 1, 0, 0, 10, 0, 2, 2, 10, 0, 2, 15,
     8, 0, 0xF7, 0xFD, 0, 1, 0, 1]"

lemma demo_ping_ok:
  "ip_for_us demo_ping 42 1 demo_tcp" "valid_echo_request (drop 34 demo_ping) (ip_payload_len demo_ping) demo_tcp"
  "unat (ip_payload_len demo_ping) \<le> 1484"
  "fst (arp_lookup (next_hop (ntohl (ip_source demo_ping)) demo_tcp) demo_tcp) = Some [0x52, 0x55, 10, 0, 2, 2]"
  "eth_send_packet_func demo_tcp" "length (src_mac demo_tcp) = 6"
  by (code_simp)+


text \<open>
  An Ethernet frame with an IPv4 packet, byte by byte in the order of the wire (RFC 791), numbers with their highest byte
  first; the header has \<open>ihl\<close> words of 32 bits, with the options at its end.
\<close>

definition be16 :: "u16 \<Rightarrow> u8 list" where "be16 w = [ucast (drop_bit 8 w), ucast w]"
definition be32 :: "u32 \<Rightarrow> u8 list" where "be32 w = [ucast (drop_bit 24 w), ucast (drop_bit 16 w), ucast (drop_bit 8 w), ucast w]"

definition ip_frame ::
  "u8 list \<Rightarrow> u8 list \<Rightarrow> nat \<Rightarrow> u8 \<Rightarrow> u16 \<Rightarrow> u16 \<Rightarrow> u16 \<Rightarrow> u8 \<Rightarrow> u8 \<Rightarrow> u16 \<Rightarrow> u32 \<Rightarrow> u32 \<Rightarrow> u8 list \<Rightarrow> u8 list \<Rightarrow> u8 list" where
  "ip_frame dmac smac ihl tos tlen ident frag ttl proto csum src dst options payload =
     dmac @ smac @ [8, 0] @ [of_nat (64 + ihl), tos] @ be16 tlen @ be16 ident @ be16 frag @ [ttl, proto] @ be16 csum @
     be32 src @ be32 dst @ options @ payload"

lemma ntohs_be16: "ntohs (word16 (ucast (drop_bit 8 w)) (ucast w)) = w"
  by (simp add: htons_word16 word16_bytes16)

lemma u32_byte_masks: "(0xFF :: u32) = mask 8" "(0xFF00 :: u32) = push_bit 8 (mask 8)" "(0xFF0000 :: u32) = push_bit 16 (mask 8)"
  by (simp_all add: mask_eq_exp_minus_1 push_bit_eq_mult)

lemma bit_htonl:
  "bit (htonl w) n \<longleftrightarrow> n < 32 \<and> bit w (if n < 8 then n + 24 else if n < 16 then n + 8 else if n < 24 then n - 8 else n - 24)"
  unfolding htonl_def u32_byte_masks
  by (auto simp: bit_or_iff bit_and_iff bit_push_bit_iff bit_drop_bit_eq bit_mask_iff add.commute dest: bit_imp_le_length)

lemma ntohl_htonl: "ntohl (htonl w) = w"
  by (rule bit_word_eqI) (auto simp: bit_htonl)

lemma word32_be32: "word32 (ucast (drop_bit 24 w)) (ucast (drop_bit 16 w)) (ucast (drop_bit 8 w)) (ucast w) = htonl w"
proof (rule bit_word_eqI)
  fix n assume "n < LENGTH(32)"
  then consider "n < 8" | "8 \<le> n" "n < 16" | "16 \<le> n" "n < 24" | "24 \<le> n" "n < 32" by force
  then show "bit (word32 (ucast (drop_bit 24 w)) (ucast (drop_bit 16 w)) (ucast (drop_bit 8 w)) (ucast w)) n = bit (htonl w) n"
    by cases (auto simp: word32_def bit_htonl bit_or_iff bit_push_bit_iff bit_drop_bit_eq bit_ucast_iff bit_u8_high' add.commute)
qed

lemma version_ihl:
  assumes "5 \<le> ihl" "ihl \<le> 15"
  defines "b \<equiv> of_nat (64 + ihl) :: u8"
  shows "drop_bit 4 b AND 0xF = 4" "\<not> b AND 0xF < 5" "unat (ucast (b AND 0xF) * 4 :: u16) = 4 * ihl"
proof -
  have "\<forall>i \<in> set [5..<16]. drop_bit 4 (of_nat (64 + i) :: u8) AND 0xF = 4 \<and> \<not> (of_nat (64 + i) :: u8) AND 0xF < 5 \<and>
      unat (ucast ((of_nat (64 + i) :: u8) AND 0xF) * 4 :: u16) = 4 * i"
    by code_simp
  moreover have "ihl \<in> set [5..<16]" using assms(1,2) unfolding set_upt by simp
  ultimately show "drop_bit 4 b AND 0xF = 4" "\<not> b AND 0xF < 5" "unat (ucast (b AND 0xF) * 4 :: u16) = 4 * ihl"
    unfolding b_def by blast+
qed

lemma u16_of_nat_unat: "of_nat (unat w) = (w :: u16)"
  by simp

lemma frag_bits: "f AND 0x3FFF = 0 \<longleftrightarrow> f AND 0x1FFF = 0 \<and> f AND 0x2000 = (0 :: u16)"
proof -
  have "f AND 0x3FFF = (f AND 0x1FFF) OR (f AND 0x2000)" by (simp add: bit.conj_disj_distrib [symmetric])
  then show ?thesis using masked_fragment [of f] by auto
qed

text \<open>C34. What \<open>net_process_packet\<close> does with an IPv4 packet of version 4 that has come as a whole: a TCP segment or an ICMP
  message for this host, or for all, is handed to the handler of its protocol, with the addresses of its header in network
  order and with exactly the bytes behind the header and its options; a fragment, a packet for another host, an ICMP
  message shorter than its header and any other protocol change nothing.
\<close>

theorem net_process_packet_delivers:
  assumes "length dmac = 6" and "length smac = 6" and "5 \<le> ihl" and "ihl \<le> 15" and "length options = 4 * ihl - 20"
    and "unat tlen = 4 * ihl + length payload" and "14 + unat tlen \<le> unat len"
  shows "net_process_packet (ip_frame dmac smac ihl tos tlen ident frag ttl proto csum src dst options payload @ rest) len st =
    (if frag AND 0x3FFF \<noteq> 0 \<or> dst \<noteq> nic_ip_addr st \<and> dst \<noteq> 0xFFFFFFFF then Some st
     else if proto = 6 then tcp_handle_packet (htonl src) (htonl dst) (payload @ rest) (of_nat (length payload)) st
     else if proto = 1 \<and> 8 \<le> length payload then icmp_handle_packet (htonl src) (payload @ rest) (of_nat (length payload)) st
     else Some st)"
proof -
  let ?data = "ip_frame dmac smac ihl tos tlen ident frag ttl proto csum src dst options payload @ rest"
  let ?ip = "[of_nat (64 + ihl), tos] @ be16 tlen @ be16 ident @ be16 frag @ [ttl, proto] @ be16 csum @ be32 src @ be32 dst @ options @ payload @ rest"
  let ?hl = "ucast ((of_nat (64 + ihl) :: u8) AND 0xF) * 4 :: u16"
  note v = version_ihl [OF assms(3,4)]
  have ip: "drop 14 ?data = ?ip" "get_u16 ?data 12 = Some (word16 8 0)"
    using assms(1,2) by (simp_all add: ip_frame_def get_u16_def rd_def nth_append)
  have rd: "rd ?ip 0 = Some (of_nat (64 + ihl))" "get_u16 ?ip 2 = Some (word16 (ucast (drop_bit 8 tlen)) (ucast tlen))"
    "get_u16 ?ip 6 = Some (word16 (ucast (drop_bit 8 frag)) (ucast frag))" "rd ?ip 9 = Some proto"
    "get_u32 ?ip 12 = Some (htonl src)" "get_u32 ?ip 16 = Some (htonl dst)"
    by (simp_all add: be16_def be32_def get_u16_def get_u32_def rd_def word32_be32)
  have et: "ntohs (word16 8 0) = ETHERTYPE_IP" by code_simp
  have l: "\<not> unat len < 14" "\<not> unat len < 14 + 20" "\<not> tlen < ?hl" "\<not> unat len < 14 + unat tlen"
    using assms(3,6,7) v(3) by (simp_all add: word_less_nat_alt)
  have p: "drop (unat ?hl) ?ip = payload @ rest" unfolding v(3) using assms(3,5) by (simp add: be16_def be32_def drop_Cons')
  have pn: "unat (tlen - ?hl) = length payload" using assms(6) v(3) l(3) by (simp add: unat_sub)
  have pl: "tlen - ?hl = of_nat (length payload)" unfolding pn [symmetric] by (rule u16_of_nat_unat [symmetric])
  have small: "of_nat (length payload) < (8 :: u16) \<longleftrightarrow> length payload < 8"
    using pn unfolding pl by (simp add: word_less_nat_alt)
  show ?thesis
    unfolding net_process_packet_def process_ip_def Let_def
    by (simp only: l if_False if_True ip rd et ntohs_be16 option.map bind.bind_lunit v(1,2) p pl small simp_thms frag_bits ntohl_htonl)
      auto
qed

text \<open>A segment of 20 bytes behind a header with one word of options, and padding up to the 60 bytes of a short frame.\<close>

theorem net_process_packet_delivers_witness:
  "net_process_packet (ip_frame (replicate 6 1) (replicate 6 2) 6 0 44 0 0x4000 64 6 0 0x0A000202 0x0A00020F [1, 1, 1, 0] (replicate 20 7) @ [0, 0]) 60 demo_tcp =
     tcp_handle_packet (htonl 0x0A000202) (htonl 0x0A00020F) (replicate 20 7 @ [0, 0]) 20 demo_tcp \<and>
   net_process_packet (ip_frame (replicate 6 1) (replicate 6 2) 5 0 40 0 0x2000 64 6 0 0x0A000202 0x0A00020F [] (replicate 20 7) @ []) 54 demo_tcp = Some demo_tcp"
proof
  have "nic_ip_addr demo_tcp = 0x0A00020F" by code_simp
  then show "net_process_packet (ip_frame (replicate 6 1) (replicate 6 2) 6 0 44 0 0x4000 64 6 0 0x0A000202 0x0A00020F [1, 1, 1, 0] (replicate 20 7) @ [0, 0]) 60 demo_tcp =
     tcp_handle_packet (htonl 0x0A000202) (htonl 0x0A00020F) (replicate 20 7 @ [0, 0]) 20 demo_tcp"
    by (subst net_process_packet_delivers) simp_all
  show "net_process_packet (ip_frame (replicate 6 1) (replicate 6 2) 5 0 40 0 0x2000 64 6 0 0x0A000202 0x0A00020F [] (replicate 20 7) @ []) 54 demo_tcp = Some demo_tcp"
    by (subst net_process_packet_delivers) simp_all
qed

text \<open>The host never answers an ARP request for its own address: the target address is put together
  in host byte order and then swapped once more, so that the comparison fails unless the address
  reads the same backwards.\<close>

theorem arp_request_unanswered:
  assumes "14 \<le> unat len" and "get_u16 data 12 = Some (htons 0x0806)" and "get_u16 (drop 14 data) 6 = Some (htons ARP_REQUEST)"
    and "arp_field 24 4 (drop 14 data) = Some target" and "ip_of_bytes target = Some (nic_ip_addr st)"
    and "ntohl (nic_ip_addr st) \<noteq> nic_ip_addr st"
  shows "net_process_packet data len st = Some st"
  using assms by (simp add: net_process_packet_def process_arp_def Let_def ntohs_htons)

definition demo_arp_request :: "u8 list" where
  "demo_arp_request = replicate 6 0xFF @ [0x52, 0x55, 10, 0, 2, 2, 8, 6, 0, 1, 8, 0, 6, 4, 0, 1,
     0x52, 0x55, 10, 0, 2, 2, 10, 0, 2, 2, 0, 0, 0, 0, 0, 0, 10, 0, 2, 15] @ replicate 18 0"

theorem arp_request_unanswered_witness: "net_process_packet demo_arp_request 60 demo_tcp = Some demo_tcp"
proof (rule arp_request_unanswered [where target = "[10, 0, 2, 15]"])
  show "get_u16 demo_arp_request 12 = Some (htons 0x0806)"
    "get_u16 (drop 14 demo_arp_request) 6 = Some (htons ARP_REQUEST)"
    "arp_field 24 4 (drop 14 demo_arp_request) = Some [10, 0, 2, 15]"
    "ip_of_bytes [10, 0, 2, 15] = Some (nic_ip_addr demo_tcp)"
    "ntohl (nic_ip_addr demo_tcp) \<noteq> nic_ip_addr demo_tcp"
    by (code_simp)+
qed simp

text \<open>\<open>eth_init\<close> configures the host 10.0.2.15/24 behind the gateway 10.0.2.2, opens port 8080 when
  memory allows, and, if one of the two cards is there, sends one ARP request for the gateway.\<close>

theorem eth_init_configures:
  "\<exists>st'. eth_init rtl8139 ne2k st = Some st' \<and>
    nic_ip_addr st' = 0x0A00020F \<and> nic_netmask st' = 0xFFFFFF00 \<and> nic_gateway_ip st' = 0x0A000202 \<and>
    eth_send_packet_func st' = (rtl8139 \<noteq> None \<or> ne2k \<noteq> None) \<and>
    length (wire st') = length (wire st) + (if rtl8139 \<noteq> None \<or> ne2k \<noteq> None then 1 else 0) \<and>
    listen_ports st' = (if malloc_ok st (malloc_calls st) then 8080 # listen_ports st else listen_ports st)"
proof -
  have ip: "inet_addr (ascii ''10.0.2.15'' @ [0]) = Some 0x0A00020F"
    "inet_addr (ascii ''255.255.255.0'' @ [0]) = Some 0xFFFFFF00"
    "inet_addr (ascii ''10.0.2.2'' @ [0]) = Some 0x0A000202"
    by code_simp+
  show ?thesis
    unfolding eth_init_def ip
    by (auto simp: Let_def rtl8139_send_arp_request_def tcp_listen_def malloc_def split: option.split)
qed

end
