(* ===== verification/CMath.thy ===== *)
theory CMath
  imports Prelude "HOL-Library.Signed_Division"
begin

text \<open>
  The integer functions of \<open>src/libs/math.c\<close>.  \<open>int\<close> is modelled by integers with the range checked
  (\<open>chk_int\<close>): an overflow, a division by zero and \<open>INT_MIN / -1\<close> are undefined.  Division truncates
  (\<open>sdiv\<close>, \<open>smod\<close>).  A loop that might not end is a \<open>partial_function\<close>, so that \<open>None\<close> covers it, too.
  The functions on \<open>double\<close> (\<open>fabs\<close>, \<open>fmod\<close>, \<open>sin\<close>, \<open>cos\<close>) are not modelled.
\<close>

section \<open>Operations\<close>

abbreviation (input) INT_MIN :: int where "INT_MIN \<equiv> - (2 ^ 31)"

definition add_c :: "int \<Rightarrow> int \<Rightarrow> int option" where
  "add_c a b = chk_int (a + b)"

definition sub_c :: "int \<Rightarrow> int \<Rightarrow> int option" where
  "sub_c a b = chk_int (a - b)"

definition mul_c :: "int \<Rightarrow> int \<Rightarrow> int option" where
  "mul_c a b = chk_int (a * b)"

definition div_c :: "int \<Rightarrow> int \<Rightarrow> int option" where
  "div_c a b = (if b = 0 then None else chk_int (a sdiv b))"

definition mod_c :: "int \<Rightarrow> int \<Rightarrow> int option" where
  "mod_c a b = (if b = 0 \<or> a = INT_MIN \<and> b = -1 then None else Some (a smod b))"

text \<open>\<open>n\<close> turns of the loop \<open>result *= a\<close>.\<close>

primrec pow_loop :: "nat \<Rightarrow> int \<Rightarrow> int \<Rightarrow> int option" where
  "pow_loop 0 a result = Some result"
| "pow_loop (Suc n) a result = do { result \<leftarrow> mul_c result a; pow_loop n a result }"

definition pow_c :: "int \<Rightarrow> int \<Rightarrow> int option" where
  "pow_c a b = pow_loop (nat b) a 1"

definition abs_c :: "int \<Rightarrow> int option" where
  "abs_c a = (if a < 0 then chk_int (- a) else Some a)"

definition max_c :: "int \<Rightarrow> int \<Rightarrow> int" where
  "max_c a b = (if a > b then a else b)"

definition min_c :: "int \<Rightarrow> int \<Rightarrow> int" where
  "min_c a b = (if a < b then a else b)"

definition clamp :: "int \<Rightarrow> int \<Rightarrow> int \<Rightarrow> int" where
  "clamp a lo hi = (if a < lo then lo else if a > hi then hi else a)"

definition sign_c :: "int \<Rightarrow> int" where
  "sign_c a = (if a < 0 then -1 else if a > 0 then 1 else 0)"

partial_function (option) sqrt_loop :: "int \<Rightarrow> int \<Rightarrow> int \<Rightarrow> int option" where
  "sqrt_loop a x y =
     (if x > y
      then do { s \<leftarrow> add_c x y; x \<leftarrow> div_c s 2; y \<leftarrow> div_c a x; sqrt_loop a x y }
      else Some x)"

definition sqrt_c :: "int \<Rightarrow> int option" where
  "sqrt_c a = sqrt_loop a a 1"

partial_function (option) factorial_loop :: "int \<Rightarrow> int \<Rightarrow> int \<Rightarrow> int option" where
  "factorial_loop a i result =
     (if i \<le> a
      then do { result \<leftarrow> mul_c result i; i \<leftarrow> add_c i 1; factorial_loop a i result }
      else Some result)"

definition factorial :: "int \<Rightarrow> int option" where
  "factorial a = factorial_loop a 1 1"

partial_function (option) is_prime_loop :: "int \<Rightarrow> int \<Rightarrow> int option" where
  "is_prime_loop a i =
     do { s \<leftarrow> sqrt_c a;
          if i \<le> s
          then do { m \<leftarrow> mod_c a i;
                    if m = 0 then Some 0 else do { i \<leftarrow> add_c i 1; is_prime_loop a i } }
          else Some 1 }"

definition is_prime :: "int \<Rightarrow> int option" where
  "is_prime a = (if a < 2 then Some 0 else is_prime_loop a 2)"

partial_function (option) gcd_c :: "int \<Rightarrow> int \<Rightarrow> int option" where
  "gcd_c a b = (if b \<noteq> 0 then do { m \<leftarrow> mod_c a b; gcd_c b m } else Some a)"

definition lcm_c :: "int \<Rightarrow> int \<Rightarrow> int option" where
  "lcm_c a b = do { p \<leftarrow> mul_c a b; g \<leftarrow> gcd_c a b; div_c p g }"

definition is_even :: "int \<Rightarrow> bool" where
  "is_even a = (a smod 2 = 0)"

definition is_odd :: "int \<Rightarrow> bool" where
  "is_odd a = (a smod 2 \<noteq> 0)"

definition is_positive :: "int \<Rightarrow> bool" where
  "is_positive a = (a > 0)"

definition is_negative :: "int \<Rightarrow> bool" where
  "is_negative a = (a < 0)"

definition is_zero :: "int \<Rightarrow> bool" where
  "is_zero a = (a = 0)"

definition is_between :: "int \<Rightarrow> int \<Rightarrow> int \<Rightarrow> bool" where
  "is_between a lo hi = (a \<ge> lo \<and> a \<le> hi)"

text \<open>\<open>n\<close> turns of \<open>result += a[i]\<close> from index \<open>i\<close>.\<close>

primrec sum_loop :: "nat \<Rightarrow> int list \<Rightarrow> nat \<Rightarrow> int \<Rightarrow> int option" where
  "sum_loop 0 a i result = Some result"
| "sum_loop (Suc n) a i result = do { v \<leftarrow> rd a i; result \<leftarrow> add_c result v; sum_loop n a (i + 1) result }"

definition sum_c :: "int list \<Rightarrow> int \<Rightarrow> int option" where
  "sum_c a n = sum_loop (nat n) a 0 0"

section \<open>Square roots\<close>

lemma sdiv_nonneg: "0 \<le> a \<Longrightarrow> 0 < b \<Longrightarrow> a sdiv b = a div b" for a b :: int
  by (simp add: signed_divide_int_def sgn_if)

lemma smod_nonneg: "0 \<le> a \<Longrightarrow> 0 < b \<Longrightarrow> a smod b = a mod b" for a b :: int
  by (simp add: signed_modulo_int_def signed_divide_int_def sgn_if minus_div_mult_eq_mod)

lemma div_c_nonneg: "0 \<le> a \<Longrightarrow> a < 2 ^ 31 \<Longrightarrow> 0 < b \<Longrightarrow> div_c a b = Some (a div b)"
proof -
  assume a: "0 \<le> a" "a < 2 ^ 31" "0 < b"
  have "0 \<le> a div b" "a div b \<le> a" using a by (simp_all add: pos_imp_zdiv_nonneg_iff zdiv_mono2 [of a 1 b, simplified])
  then show ?thesis using a by (simp add: div_c_def sdiv_nonneg chk_int_def int_ok_def)
qed

lemma mod_c_nonneg: "0 \<le> a \<Longrightarrow> 0 < b \<Longrightarrow> mod_c a b = Some (a mod b)"
  by (simp add: mod_c_def smod_nonneg)

text \<open>One step of Newton's iteration stays above the root.\<close>

lemma newton_above:
  fixes a x :: int
  assumes x: "1 \<le> x" and a: "1 \<le> a"
  shows "a < ((x + a div x) div 2 + 1)\<^sup>2"
proof -
  define q where "q = a div x"
  define z where "z = (x + q) div 2 + 1"
  have "a mod x < x" "a = x * q + a mod x" using x by (simp_all add: q_def)
  then have "a < x * (q + 1)" by (simp add: algebra_simps)
  moreover have "0 \<le> q" using a x by (simp add: q_def pos_imp_zdiv_nonneg_iff)
  moreover have "x + (q + 1) \<le> 2 * z" by (simp add: z_def)
  ultimately have "4 * a < (2 * z)\<^sup>2"
  proof -
    have "4 * (x * (q + 1)) \<le> (x + (q + 1))\<^sup>2"
      using zero_le_power2 [of "x - (q + 1)"] by (simp add: power2_eq_square algebra_simps)
    also have "\<dots> \<le> (2 * z)\<^sup>2"
      using x \<open>0 \<le> q\<close> \<open>x + (q + 1) \<le> 2 * z\<close> by (intro power_mono) simp_all
    finally show ?thesis using \<open>a < x * (q + 1)\<close> by simp
  qed
  then have "a < z\<^sup>2" by (simp add: power2_eq_square)
  then show ?thesis by (simp add: z_def q_def)
qed

lemma sqrt_loop_ok:
  assumes "1 \<le> a" "a < 2 ^ 31 - 1" "1 \<le> x" "x \<le> a" "a < (x + 1)\<^sup>2"
  shows "runs (sqrt_loop a x (a div x)) (\<lambda>r. 1 \<le> r \<and> r\<^sup>2 \<le> a \<and> a < (r + 1)\<^sup>2)"
  using assms
proof (induction "nat x" arbitrary: x rule: less_induct)
  case less
  define q where "q = a div x"
  have q: "1 \<le> q" using less.prems by (simp add: q_def pos_imp_zdiv_pos_iff int_one_le_iff_zero_less)
  have "a div x * x + a mod x = a" by (rule div_mult_mod_eq)
  moreover have "0 \<le> a mod x" using less.prems by simp
  ultimately have qx: "q * x \<le> a" unfolding q_def by linarith
  show ?case
  proof (cases "x > q")
    case True
    let ?x = "(x + q) div 2"
    have "0 \<le> (x - 1) * (q - 1)" using q less.prems(3) by simp
    then have "x + q \<le> a + 1" using qx by (simp add: algebra_simps)
    then have s: "add_c x q = Some (x + q)" "div_c (x + q) 2 = Some ?x"
      using q less.prems by (simp_all add: add_c_def chk_int_def int_ok_def div_c_nonneg)
    have x': "1 \<le> ?x" "?x < x" "?x \<le> a" using True q less.prems(3,4) by auto
    have "div_c a ?x = Some (a div ?x)" using x' less.prems(1,2) by (intro div_c_nonneg) simp_all
    moreover have "runs (sqrt_loop a ?x (a div ?x)) (\<lambda>r. 1 \<le> r \<and> r\<^sup>2 \<le> a \<and> a < (r + 1)\<^sup>2)"
      using x' less.prems newton_above [of x a] by (intro less.hyps) (simp_all add: q_def)
    ultimately show ?thesis
      using True s by (subst sqrt_loop.simps) (simp add: q_def [symmetric])
  next
    case False
    then have "x * x \<le> q * x" using less.prems(3) by (intro mult_right_mono) simp_all
    then have "x * x \<le> a" using qx by linarith
    then show ?thesis using False less.prems
      by (subst sqrt_loop.simps) (simp add: q_def [symmetric] power2_eq_square)
  qed
qed


lemma sqrt_c_ok:
  assumes "1 \<le> a" "a < 2 ^ 31 - 1"
  shows "runs (sqrt_c a) (\<lambda>r. 1 \<le> r \<and> r\<^sup>2 \<le> a \<and> a < (r + 1)\<^sup>2)"
proof -
  have "div_c (a + 1) 2 = Some ((a + 1) div 2)" using assms by (intro div_c_nonneg) simp_all
  moreover define x where "x = (a + 1) div 2"
  moreover have x: "1 \<le> x" "x \<le> a" using assms by (auto simp: x_def)
  moreover have "div_c a x = Some (a div x)" using x assms by (intro div_c_nonneg) simp_all
  moreover have "add_c a 1 = Some (a + 1)" using assms by (simp add: add_c_def chk_int_def int_ok_def)
  moreover have "a < (x + 1)\<^sup>2"
  proof -
    have "a \<le> 2 * x" by (simp add: x_def)
    moreover have "0 \<le> x * x" by simp
    moreover have "(x + 1)\<^sup>2 = x * x + 2 * x + 1" by (simp add: power2_eq_square algebra_simps)
    ultimately show ?thesis by linarith
  qed
  then have "runs (sqrt_loop a x (a div x)) (\<lambda>r. 1 \<le> r \<and> r\<^sup>2 \<le> a \<and> a < (r + 1)\<^sup>2)"
    using x assms by (intro sqrt_loop_ok)
  ultimately show ?thesis
    using sqrt_loop_ok [of a a] assms
    by (cases "a = 1") (simp_all add: sqrt_c_def sqrt_loop.simps [of a a 1] sqrt_loop.simps [of 1 1 1])
qed


lemma sqrt_c_unique:
  assumes "sqrt_c a = Some r" "1 \<le> a" "a < 2 ^ 31 - 1"
  shows "0 \<le> r" "r\<^sup>2 \<le> a" "a < (r + 1)\<^sup>2"
  using sqrt_c_ok [OF assms(2,3)] assms(1) by simp_all

lemma le_sqrt:
  fixes r i a :: int
  assumes "a < (r + 1)\<^sup>2" "0 \<le> r" "i * i \<le> a"
  shows "i \<le> r"
proof (rule ccontr)
  assume "\<not> i \<le> r"
  then have "(r + 1)\<^sup>2 \<le> i\<^sup>2" using assms by (intro power_mono) simp_all
  then show False using assms by (simp add: power2_eq_square)
qed

lemma sqrt_le:
  fixes r i a :: int
  assumes "r\<^sup>2 \<le> a" "i \<le> r" "0 \<le> i"
  shows "i * i \<le> a"
proof -
  have "i * i \<le> r * r" using assms by (intro mult_mono) simp_all
  then show ?thesis using assms(1) by (simp add: power2_eq_square)
qed

section \<open>Primes\<close>

text \<open>A composite number has a divisor up to its root.\<close>

definition no_divisor :: "int \<Rightarrow> int \<Rightarrow> bool" where
  "no_divisor a i = (\<forall>d. 2 \<le> d \<and> d < i \<longrightarrow> \<not> d dvd a)"

lemma small_divisor:
  assumes "2 \<le> a" "no_divisor a i" "a < i * i" "0 \<le> i"
  shows "no_divisor a a"
  unfolding no_divisor_def
proof (intro allI impI notI)
  fix d assume d: "2 \<le> d \<and> d < a" "d dvd a"
  then obtain e where e: "a = d * e" by (elim dvdE)
  have "1 < e"
  proof (rule ccontr)
    assume "\<not> 1 < e"
    then have "d * e \<le> d * 1" using d(1) by (intro mult_left_mono) simp_all
    then show False using d(1) e by linarith
  qed
  have "d dvd a" "e dvd a" using e by simp_all
  moreover have "\<not> d dvd a \<or> \<not> d < i" "\<not> e dvd a \<or> \<not> e < i"
    using assms(2) d(1) \<open>1 < e\<close> unfolding no_divisor_def by auto
  ultimately have "i \<le> d" "i \<le> e" by simp_all
  then have "i * i \<le> d * e" using assms(4) d by (intro mult_mono) simp_all
  then show False using assms(3) e by simp
qed

lemma is_prime_loop_ok:
  assumes "2 \<le> a" "a < 2 ^ 31 - 1" "2 \<le> i" "no_divisor a i" "i * i \<le> a \<or> i \<le> a"
  shows "is_prime_loop a i = Some (if no_divisor a a then 1 else 0)"
  using assms(3-5)
proof (induction "nat (a - i)" arbitrary: i rule: less_induct)
  case less
  obtain s where s: "sqrt_c a = Some s" "0 \<le> s" "s\<^sup>2 \<le> a" "a < (s + 1)\<^sup>2"
    using sqrt_c_ok [of a] assms(1,2) by (auto simp: runs_iff)
  show ?case
  proof (cases "i \<le> s")
    case False
    then have "a < i * i" using le_sqrt [OF s(4,2)] by (meson not_le)
    then have "no_divisor a a" using small_divisor [of a i] less.prems assms(1) by simp
    then show ?thesis using False s(1) by (subst is_prime_loop.simps) simp
  next
    case True
    then have ii: "i * i \<le> a" using sqrt_le [OF s(3)] less.prems(1) by simp
    moreover have "2 * i \<le> i * i" using less.prems(1) by simp
    ultimately have i: "i < a" using less.prems(1) by linarith
    have m: "mod_c a i = Some (a mod i)" using less.prems(1) assms(1) by (simp add: mod_c_nonneg)
    show ?thesis
    proof (cases "a mod i = 0")
      case True
      then have "\<not> no_divisor a a" using i less.prems(1) by (auto simp: no_divisor_def dvd_eq_mod_eq_0)
      then show ?thesis using \<open>i \<le> s\<close> True s(1) m by (subst is_prime_loop.simps) simp
    next
      case False
      then have "\<not> i dvd a" by (simp add: dvd_eq_mod_eq_0)
      then have "no_divisor a (i + 1)"
        using less.prems(2) unfolding no_divisor_def by (metis zless_add1_eq)
      then have "is_prime_loop a (i + 1) = Some (if no_divisor a a then 1 else 0)"
        using i less.prems(1) by (intro less.hyps) simp_all
      moreover have "add_c i 1 = Some (i + 1)"
        using i less.prems(1) assms(2) by (simp add: add_c_def chk_int_def int_ok_def)
      ultimately show ?thesis using \<open>i \<le> s\<close> False s(1) m by (subst is_prime_loop.simps) simp
    qed
  qed
qed

lemma is_prime_ok:
  assumes "a < 2 ^ 31 - 1"
  shows "is_prime a = Some (if 2 \<le> a \<and> no_divisor a a then 1 else 0)"
proof (cases "a < 2")
  case False
  then have "is_prime_loop a 2 = Some (if no_divisor a a then 1 else 0)"
    using assms by (intro is_prime_loop_ok) (auto simp: no_divisor_def)
  then show ?thesis using False by (simp add: is_prime_def)
qed (simp add: is_prime_def)

section \<open>Greatest common divisors\<close>

lemma gcd_c_ok:
  assumes "0 \<le> a" "0 \<le> b"
  shows "gcd_c a b = Some (gcd a b)"
  using assms
proof (induction "nat b" arbitrary: a b rule: less_induct)
  case less
  show ?case
  proof (cases "b = 0")
    case True
    then show ?thesis using less.prems by (subst gcd_c.simps) simp
  next
    case False
    then have "gcd_c b (a mod b) = Some (gcd b (a mod b))"
      using less.prems by (intro less.hyps) (simp_all add: nat_mono_iff)
    then show ?thesis
      using False less.prems by (subst gcd_c.simps) (simp add: mod_c_nonneg gcd_red_int [of a b])
  qed
qed

lemma lcm_c_ok:
  assumes "1 \<le> a" "1 \<le> b" "a * b < 2 ^ 31"
  shows "lcm_c a b = Some (lcm a b)"
proof -
  have "0 \<le> a * b" "0 < gcd a b" using assms by simp_all
  then have "div_c (a * b) (gcd a b) = Some (a * b div gcd a b)"
    using assms by (intro div_c_nonneg) simp_all
  moreover have "mul_c a b = Some (a * b)"
    using assms(3) \<open>0 \<le> a * b\<close> unfolding mul_c_def chk_int_def int_ok_def by auto
  ultimately show ?thesis using assms by (simp add: lcm_c_def gcd_c_ok lcm_altdef_int)
qed

section \<open>Properties\<close>

text \<open>\<open>sqrt\<close> is the integer square root: for every positive \<open>int\<close> below \<open>INT_MAX\<close> Newton's iteration ends,
  without overflow or division by zero, with the largest \<open>r\<close> whose square does not exceed the
  argument.  At \<open>INT_MAX\<close> the first sum overflows, and no argument below one is rejected: it is
  returned as it is.\<close>

theorem sqrt_c_floor:
  "(1 \<le> a \<and> a < 2 ^ 31 - 1 \<longrightarrow> (\<exists>r. sqrt_c a = Some r \<and> 1 \<le> r \<and> r\<^sup>2 \<le> a \<and> a < (r + 1)\<^sup>2)) \<and>
   sqrt_c (2 ^ 31 - 1) = None \<and> (a < 1 \<longrightarrow> sqrt_c a = Some a)"
proof (intro conjI impI)
  assume "1 \<le> a \<and> a < 2 ^ 31 - 1"
  then show "\<exists>r. sqrt_c a = Some r \<and> 1 \<le> r \<and> r\<^sup>2 \<le> a \<and> a < (r + 1)\<^sup>2"
    using sqrt_c_ok [of a] by (simp add: runs_iff)
next
  show "sqrt_c (2 ^ 31 - 1) = None"
    by (simp add: sqrt_c_def sqrt_loop.simps [of _ _ 1] add_c_def chk_int_def int_ok_def)
next
  assume "a < 1"
  then show "sqrt_c a = Some a" by (simp add: sqrt_c_def sqrt_loop.simps [of _ _ 1])
qed

theorem sqrt_c_floor_witness: "\<exists>r. sqrt_c 1000000 = Some r \<and> r\<^sup>2 \<le> 1000000 \<and> 1000000 < (r + 1)\<^sup>2"
  using sqrt_c_floor [of 1000000] by auto

text \<open>\<open>is_prime\<close> decides primality for every \<open>int\<close> below \<open>INT_MAX\<close>: it answers 1 exactly for the numbers
  from 2 on without a divisor between 1 and themselves, although it only tries divisors up to the
  root it computes anew in every turn.\<close>

theorem is_prime_decides:
  assumes "a < 2 ^ 31 - 1"
  shows "is_prime a = Some (if 2 \<le> a \<and> (\<forall>d. 2 \<le> d \<and> d < a \<longrightarrow> \<not> d dvd a) then 1 else 0)"
  using is_prime_ok [OF assms] by (simp only: no_divisor_def)

theorem is_prime_decides_witness:
  "is_prime 91 = Some 0"
proof -
  have "(7::int) dvd 91" by simp
  then have "\<not> (\<forall>d::int. 2 \<le> d \<and> d < 91 \<longrightarrow> \<not> d dvd 91)"
    by (intro notI) (drule spec [of _ 7], simp)
  then show ?thesis by (subst is_prime_decides) simp_all
qed

text \<open>On non-negative arguments \<open>gcd\<close> ends with the greatest common divisor; \<open>lcm\<close> is the least common
  multiple whenever the product of its positive arguments is an \<open>int\<close> (the product is formed before
  the division).\<close>

theorem gcd_lcm_correct:
  assumes "1 \<le> a" "1 \<le> b"
  shows "gcd_c a b = Some (gcd a b) \<and> (a * b < 2 ^ 31 \<longrightarrow> lcm_c a b = Some (lcm a b)) \<and>
    (2 ^ 31 \<le> a * b \<longrightarrow> lcm_c a b = None)"
proof (intro conjI impI)
  show "gcd_c a b = Some (gcd a b)" using assms by (simp add: gcd_c_ok)
  show "lcm_c a b = Some (lcm a b)" if "a * b < 2 ^ 31" using that assms by (intro lcm_c_ok)
  show "lcm_c a b = None" if "2 ^ 31 \<le> a * b"
    using that by (simp add: lcm_c_def mul_c_def chk_int_def int_ok_def)
qed

theorem gcd_lcm_correct_witness:
  "gcd_c 84 36 = Some 12 \<and> lcm_c 84 36 = Some 252 \<and> lcm_c 65536 65536 = None"
proof -
  have "gcd (84::int) 36 = 12" "lcm (84::int) 36 = 252" by code_simp+
  then show ?thesis using gcd_lcm_correct [of 84 36] gcd_lcm_correct [of 65536 65536] by simp
qed

end
