(* ===== verification/Devices.thy ===== *)
theory Devices
  imports Prelude
begin

text \<open>
  The interrupt controller (\<open>src/drivers/8259_pic.c\<close>), the dispatch of hardware interrupts
  (\<open>src/cpu/isr.c\<close>) and the timer (\<open>src/drivers/timer.c\<close>).

  The devices behind the I/O ports are not part of the repository.  They are a record of two
  functions, one for reading and one for writing a byte at a port, over a state of any type; every
  driver takes it as its first argument.  A handler that is installed by its address is an element of
  a type of its own, and what the call of it does is a parameter.  The waiting loops of the kernel have
  no body of their own: what changes the state is the next interrupt, which is therefore their body.
\<close>

section \<open>Ports\<close>

record 'w bus =
  bus_in :: "u16 \<Rightarrow> 'w \<Rightarrow> u8 \<times> 'w"
  bus_out :: "u16 \<Rightarrow> u8 \<Rightarrow> 'w \<Rightarrow> 'w"

definition inportb :: "('w, 'x) bus_scheme \<Rightarrow> u16 \<Rightarrow> 'w \<Rightarrow> u8 \<times> 'w" where
  "inportb B port w = bus_in B port w"

definition outportb :: "('w, 'x) bus_scheme \<Rightarrow> u16 \<Rightarrow> u8 \<Rightarrow> 'w \<Rightarrow> 'w" where
  "outportb B port val w = bus_out B port val w"

abbreviation (input) PIC1_COMMAND :: u16 where "PIC1_COMMAND \<equiv> 0x20"
abbreviation (input) PIC1_DATA :: u16 where "PIC1_DATA \<equiv> 0x21"
abbreviation (input) PIC2_COMMAND :: u16 where "PIC2_COMMAND \<equiv> 0xA0"
abbreviation (input) PIC2_DATA :: u16 where "PIC2_DATA \<equiv> 0xA1"
abbreviation (input) PIC_EOI :: u8 where "PIC_EOI \<equiv> 0x20"
abbreviation (input) IRQ_BASE :: u8 where "IRQ_BASE \<equiv> 0x20"

section \<open>The interrupt controller\<close>

definition pic8259_init :: "'w bus \<Rightarrow> 'w \<Rightarrow> 'w" where
  "pic8259_init B w =
     (let w = outportb B PIC1_COMMAND 0x11 w;
          w = outportb B PIC2_COMMAND 0x11 w;
          w = outportb B PIC1_DATA 0x20 w;
          w = outportb B PIC2_DATA 0x28 w;
          w = outportb B PIC1_DATA 0x04 w;
          w = outportb B PIC2_DATA 0x02 w;
          w = outportb B PIC1_DATA 0x01 w;
          w = outportb B PIC2_DATA 0x01 w;
          w = outportb B PIC1_DATA 0xFF w
      in outportb B PIC2_DATA 0xFF w)"

definition pic8259_eoi :: "'w bus \<Rightarrow> u8 \<Rightarrow> 'w \<Rightarrow> 'w" where
  "pic8259_eoi B irq w =
     (if irq \<ge> 8 then outportb B PIC1_COMMAND PIC_EOI (outportb B PIC2_COMMAND PIC_EOI w)
      else outportb B PIC1_COMMAND PIC_EOI w)"

definition pic8259_is_spurious :: "'w bus \<Rightarrow> u8 \<Rightarrow> 'w \<Rightarrow> bool \<times> 'w" where
  "pic8259_is_spurious B irq w =
     (if irq = 7 then (let (v, w) = inportb B PIC1_COMMAND w in (v AND 0x80 = 0, w))
      else if irq = 15 then (let (v, w) = inportb B PIC2_COMMAND w in (v AND 0x80 = 0, w))
      else (True, w))"

text \<open>\<open>1 << irq\<close> in \<open>int\<close>, then converted to a byte.\<close>

definition irq_bit :: "u8 \<Rightarrow> u8 option" where
  "irq_bit irq = (if irq < 31 then Some (push_bit (unat irq) 1) else None)"

definition pic8259_mask :: "'w bus \<Rightarrow> u8 \<Rightarrow> 'w \<Rightarrow> 'w option" where
  "pic8259_mask B irq w =
     (let (port, irq) = (if irq < 8 then (PIC1_DATA, irq) else (PIC2_DATA, irq - 8))
      in do { b \<leftarrow> irq_bit irq;
              let (v, w) = inportb B port w;
              Some (outportb B port (v OR b) w) })"

definition pic8259_unmask :: "'w bus \<Rightarrow> u8 \<Rightarrow> 'w \<Rightarrow> 'w option" where
  "pic8259_unmask B irq w =
     (let (port, irq) = (if irq \<ge> 8 then (PIC2_DATA, irq - 8) else (PIC1_DATA, irq))
      in do { b \<leftarrow> irq_bit irq;
              let (v, w) = inportb B port w;
              Some (outportb B port (v AND NOT b) w) })"

definition pic8259_get_mask :: "'w bus \<Rightarrow> 'w \<Rightarrow> u16 \<times> 'w" where
  "pic8259_get_mask B w =
     (let (mask1, w) = inportb B PIC1_DATA w;
          (mask2, w) = inportb B PIC2_DATA w
      in (push_bit 8 (ucast mask2) OR ucast mask1, w))"

section \<open>Interrupt dispatch\<close>

text \<open>\<open>g_interrupt_handlers\<close> has 256 entries, \<open>None\<close> for the null pointer.\<close>

definition isr_register_interrupt_handler ::
  "nat \<Rightarrow> 'h option \<Rightarrow> 'h option list \<Rightarrow> 'h option list option" where
  "isr_register_interrupt_handler num handler hs = (if num < 256 then wr hs num handler else Some hs)"

definition isr_end_interrupt :: "'w bus \<Rightarrow> nat \<Rightarrow> 'w \<Rightarrow> 'w" where
  "isr_end_interrupt B num w = pic8259_eoi B (of_nat num) w"

text \<open>\<open>call h\<close> is the effect of the handler \<open>h\<close>, which may also use the ports.\<close>

definition isr_irq_handler ::
  "'w bus \<Rightarrow> ('h \<Rightarrow> 's \<times> 'w \<Rightarrow> ('s \<times> 'w) option) \<Rightarrow> 'h option list \<Rightarrow> u32 \<Rightarrow> 's \<times> 'w \<Rightarrow> ('s \<times> 'w) option" where
  "isr_irq_handler B call hs int_no sw =
     (let irq = ucast (int_no - 0x20) :: u8;
          (s, w) = sw;
          (spurious, w) = (if irq = 7 \<or> irq = 15 then pic8259_is_spurious B irq w else (False, w))
      in if spurious then Some (s, w)
         else do { h \<leftarrow> rd hs (unat int_no);
                   (s, w) \<leftarrow> (case h of Some h \<Rightarrow> call h (s, w) | None \<Rightarrow> Some (s, w));
                   Some (s, pic8259_eoi B irq w) })"

section \<open>The timer\<close>

record 'u timer_func_args =
  timeout :: u32
  user :: 'u

record ('f, 'u) timer =
  seed :: u32
  g_ticks :: u32
  g_freq_hz :: u16
  current_index :: u32
  timer_functions :: "'f option list"
  func_args :: "'u timer_func_args list"

definition timer_set_frequency :: "'w bus \<Rightarrow> u16 \<Rightarrow> ('f, 'u) timer \<times> 'w \<Rightarrow> (('f, 'u) timer \<times> 'w) option" where
  "timer_set_frequency B f tw =
     (let (t, w) = tw; t = t\<lparr>g_freq_hz := f\<rparr>
      in if f = 0 then None
         else let divisor = word_of_int (1193180 div uint f) :: u16;
                  w = outportb B 0x43 0b00110110 w;
                  w = outportb B 0x40 (ucast (divisor AND 0xFF)) w;
                  w = outportb B 0x40 (ucast (drop_bit 8 divisor AND 0xFF)) w
              in Some (t, w))"

definition srand :: "u32 \<Rightarrow> ('f, 'u) timer \<Rightarrow> ('f, 'u) timer" where
  "srand new_seed t = t\<lparr>seed := new_seed XOR push_bit 16 (g_ticks t)\<rparr>"

text \<open>The calls of one interrupt, from entry \<open>i\<close> on (\<open>n\<close> entries are left).\<close>

primrec run_functions ::
  "('f \<Rightarrow> nat \<Rightarrow> ('f, 'u) timer \<times> 'w \<Rightarrow> (('f, 'u) timer \<times> 'w) option) \<Rightarrow> nat \<Rightarrow> nat \<Rightarrow>
    ('f, 'u) timer \<times> 'w \<Rightarrow> (('f, 'u) timer \<times> 'w) option" where
  "run_functions call 0 i tw = Some tw"
| "run_functions call (Suc n) i tw =
     do { args \<leftarrow> rd (func_args (fst tw)) i;
          tw \<leftarrow> (if timeout args = 0 then Some tw
                 else if g_ticks (fst tw) mod timeout args = 0
                 then do { f \<leftarrow> rd (timer_functions (fst tw)) i;
                           case f of Some f \<Rightarrow> call f i tw | None \<Rightarrow> None }
                 else Some tw);
          run_functions call n (i + 1) tw }"

definition timer_handler ::
  "'w bus \<Rightarrow> ('f \<Rightarrow> nat \<Rightarrow> ('f, 'u) timer \<times> 'w \<Rightarrow> (('f, 'u) timer \<times> 'w) option) \<Rightarrow>
    ('f, 'u) timer \<times> 'w \<Rightarrow> (('f, 'u) timer \<times> 'w) option" where
  "timer_handler B call tw =
     (let (t, w) = tw
      in do { (t, w) \<leftarrow> run_functions call 32 0 (t\<lparr>g_ticks := g_ticks t + 1\<rparr>, w);
              Some (t, pic8259_eoi B IRQ_BASE w) })"

text \<open>The arguments are \<open>None\<close> for the null pointer.\<close>

definition timer_register_function ::
  "'f option \<Rightarrow> 'u timer_func_args option \<Rightarrow> ('f, 'u) timer \<Rightarrow> ('f, 'u) timer option" where
  "timer_register_function f args t =
     (case args of
        None \<Rightarrow> Some t
      | Some args \<Rightarrow>
          if f = None then Some t
          else let index = (current_index t + 1) mod 32
               in do { fs \<leftarrow> wr (timer_functions t) (unat index) f;
                       as \<leftarrow> wr (func_args t) (unat index) args;
                       Some (t\<lparr>current_index := index, timer_functions := fs, func_args := as\<rparr>) })"

text \<open>\<open>nul\<close> is the pointer \<open>user\<close> after \<open>memset\<close>.\<close>

definition timer_init ::
  "'w bus \<Rightarrow> 'u \<Rightarrow> 'h \<Rightarrow> 'h option list \<Rightarrow> ('f, 'u) timer \<times> 'w \<Rightarrow> ('h option list \<times> ('f, 'u) timer \<times> 'w) option" where
  "timer_init B nul handler hs tw =
     (let (t, w) = tw;
          t = t\<lparr>current_index := 0, timer_functions := replicate 32 None,
                func_args := replicate 32 \<lparr>timeout = 0, user = nul\<rparr>\<rparr>
      in do { (t, w) \<leftarrow> timer_set_frequency B 100 (t, w);
              hs \<leftarrow> isr_register_interrupt_handler 32 (Some handler) hs;
              w \<leftarrow> pic8259_unmask B 0 w;
              Some (hs, t, w) })"

text \<open>
  \<open>sleep\<close> and \<open>usleep\<close>: a turn of the waiting loop is one timer interrupt \<open>tick\<close>.  Before the loop
  \<open>sec * g_freq_hz\<close> is an \<open>int\<close> product.
\<close>

partial_function (option) wait_until ::
  "(('f, 'u) timer \<times> 'w \<Rightarrow> (('f, 'u) timer \<times> 'w) option) \<Rightarrow> u32 \<Rightarrow>
    ('f, 'u) timer \<times> 'w \<Rightarrow> (('f, 'u) timer \<times> 'w) option" where
  "wait_until tick until tw =
     (if g_ticks (fst tw) < until then do { tw \<leftarrow> tick tw; wait_until tick until tw } else Some tw)"

definition sleep ::
  "(('f, 'u) timer \<times> 'w \<Rightarrow> (('f, 'u) timer \<times> 'w) option) \<Rightarrow> int \<Rightarrow>
    ('f, 'u) timer \<times> 'w \<Rightarrow> (('f, 'u) timer \<times> 'w) option" where
  "sleep tick sec tw =
     do { d \<leftarrow> chk_int (sec * uint (g_freq_hz (fst tw)));
          wait_until tick (g_ticks (fst tw) + word_of_int d) tw }"

definition usleep ::
  "(('f, 'u) timer \<times> 'w \<Rightarrow> (('f, 'u) timer \<times> 'w) option) \<Rightarrow> int \<Rightarrow>
    ('f, 'u) timer \<times> 'w \<Rightarrow> (('f, 'u) timer \<times> 'w) option" where
  "usleep tick usec tw =
     do { d \<leftarrow> chk_int (usec * uint (g_freq_hz (fst tw)));
          let d = (if d < 0 then - ((- d) div 1000000) else d div 1000000);
          wait_until tick (g_ticks (fst tw) + word_of_int d) tw }"

text \<open>The number \<open>uptime\<close> prints.\<close>

definition uptime :: "('f, 'u) timer \<Rightarrow> u32 option" where
  "uptime t = (if g_freq_hz t = 0 then None else Some (g_ticks t div ucast (g_freq_hz t)))"

text \<open>The constant \<open>0x5DEECE66D\<close> makes the last sum one of 64 bits.\<close>

definition rand_seed :: "u32 \<Rightarrow> u32 \<Rightarrow> u32" where
  "rand_seed s ticks =
     (let s = (s * 1103515245 + 12345) AND 0x7fffffff;
          s = s XOR push_bit 13 s;
          s = s XOR drop_bit 17 s;
          s = s XOR push_bit 5 s;
          s = (s + ticks) XOR drop_bit 16 (s * ticks)
      in ucast (((ucast s XOR 0x5DEECE66D) + ucast (ticks * 69069) :: 64 word) AND 0x7fffffff))"

definition rand :: "('f, 'u) timer \<Rightarrow> int \<times> ('f, 'u) timer" where
  "rand t = (let s = rand_seed (seed t) (g_ticks t)
             in (uint (drop_bit 16 s AND 0x7FFF), t\<lparr>seed := s\<rparr>))"

definition get_ticks :: "('f, 'u) timer \<Rightarrow> u32" where
  "get_ticks t = g_ticks t"


section \<open>The mask register\<close>

text \<open>
  What the controller's data ports do once it is initialised: a read returns the byte last written to
  this port and changes nothing.
\<close>

definition mask_ports :: "'w bus \<Rightarrow> bool" where
  "mask_ports B =
     ((\<forall>p\<in>{PIC1_DATA, PIC2_DATA}. \<forall>w. snd (bus_in B p w) = w) \<and>
      (\<forall>p\<in>{PIC1_DATA, PIC2_DATA}. \<forall>q\<in>{PIC1_DATA, PIC2_DATA}. \<forall>v w.
         fst (bus_in B p (bus_out B q v w)) = (if p = q then v else fst (bus_in B p w))))"

lemma mask_portsD:
  assumes "mask_ports B"
  shows "snd (bus_in B PIC1_DATA w) = w"
    and "snd (bus_in B PIC2_DATA w) = w"
    and "fst (bus_in B PIC1_DATA (bus_out B PIC1_DATA v w)) = v"
    and "fst (bus_in B PIC2_DATA (bus_out B PIC2_DATA v w)) = v"
    and "fst (bus_in B PIC1_DATA (bus_out B PIC2_DATA v w)) = fst (bus_in B PIC1_DATA w)"
    and "fst (bus_in B PIC2_DATA (bus_out B PIC1_DATA v w)) = fst (bus_in B PIC2_DATA w)"
  using assms by (auto simp: mask_ports_def)

definition irq_masked :: "'w bus \<Rightarrow> u8 \<Rightarrow> 'w \<Rightarrow> bool" where
  "irq_masked B irq w = bit (fst (pic8259_get_mask B w)) (unat irq)"

lemma irq_masked_ports:
  assumes "mask_ports B" "irq < 16"
  shows "irq_masked B irq w =
    (if irq < 8 then bit (fst (bus_in B PIC1_DATA w)) (unat irq)
     else bit (fst (bus_in B PIC2_DATA w)) (unat irq - 8))"
proof -
  have "unat irq < 16" using assms(2) by (simp add: word_less_nat_alt)
  moreover have "pic8259_get_mask B w =
    (push_bit 8 (ucast (fst (bus_in B PIC2_DATA w))) OR ucast (fst (bus_in B PIC1_DATA w)), w)"
    using mask_portsD(1,2) [OF assms(1)]
    by (simp add: pic8259_get_mask_def inportb_def split_def)
  ultimately show ?thesis
    by (auto simp: irq_masked_def bit_or_iff bit_push_bit_iff bit_ucast_iff word_less_nat_alt
        dest: bit_imp_le_length)
qed

lemma irq_bit_ok: "irq < 8 \<Longrightarrow> irq_bit irq = Some (push_bit (unat irq) 1)"
  by (simp add: irq_bit_def word_less_nat_alt)

lemma bit_irq_bit: "bit (push_bit n 1 :: u8) j \<longleftrightarrow> j = n \<and> n < 8"
  by (auto simp: bit_exp_iff possible_bit_word)

lemma unat_minus_8: "8 \<le> (irq :: u8) \<Longrightarrow> unat (irq - 8) = unat irq - 8"
  by (simp add: unat_sub word_le_nat_alt)

lemma mask_eq:
  assumes "mask_ports B" "irq < 16"
  shows "pic8259_mask B irq w =
      Some (if irq < 8 then bus_out B PIC1_DATA (fst (bus_in B PIC1_DATA w) OR push_bit (unat irq) 1) w
            else bus_out B PIC2_DATA (fst (bus_in B PIC2_DATA w) OR push_bit (unat irq - 8) 1) w)"
    and "pic8259_unmask B irq w =
      Some (if irq < 8 then bus_out B PIC1_DATA (fst (bus_in B PIC1_DATA w) AND NOT (push_bit (unat irq) 1)) w
            else bus_out B PIC2_DATA (fst (bus_in B PIC2_DATA w) AND NOT (push_bit (unat irq - 8) 1)) w)"
proof -
  have "\<not> irq < 8 \<Longrightarrow> irq_bit (irq - 8) = Some (push_bit (unat irq - 8) 1)"
  proof -
    assume "\<not> irq < 8"
    then have "unat (irq - 8) = unat irq - 8" by (simp add: unat_minus_8 not_less)
    moreover from this have "irq - 8 < 8" using assms(2) by (simp add: word_less_nat_alt)
    ultimately show ?thesis by (simp only: irq_bit_ok)
  qed
  then show "pic8259_mask B irq w =
      Some (if irq < 8 then bus_out B PIC1_DATA (fst (bus_in B PIC1_DATA w) OR push_bit (unat irq) 1) w
            else bus_out B PIC2_DATA (fst (bus_in B PIC2_DATA w) OR push_bit (unat irq - 8) 1) w)"
    and "pic8259_unmask B irq w =
      Some (if irq < 8 then bus_out B PIC1_DATA (fst (bus_in B PIC1_DATA w) AND NOT (push_bit (unat irq) 1)) w
            else bus_out B PIC2_DATA (fst (bus_in B PIC2_DATA w) AND NOT (push_bit (unat irq - 8) 1)) w)"
    using mask_portsD(1,2) [OF assms(1)]
    by (auto simp: pic8259_mask_def pic8259_unmask_def irq_bit_ok inportb_def outportb_def split_def Let_def not_less)
qed

lemma mask_ok:
  assumes B: "mask_ports B" and irq: "irq < 16"
  shows "runs (pic8259_mask B irq w) (\<lambda>w'. \<forall>j<16. irq_masked B j w' \<longleftrightarrow> j = irq \<or> irq_masked B j w)"
    and "runs (pic8259_unmask B irq w) (\<lambda>w'. \<forall>j<16. irq_masked B j w' \<longleftrightarrow> j \<noteq> irq \<and> irq_masked B j w)"
proof -
  have eq: "j = irq \<longleftrightarrow> unat j = unat irq" for j by (rule unat_eq_iff)
  have lt: "j < 8 \<longleftrightarrow> unat j < 8" "j < 16 \<longleftrightarrow> unat j < 16" for j :: u8
    by (simp_all add: word_less_nat_alt)
  show "runs (pic8259_mask B irq w) (\<lambda>w'. \<forall>j<16. irq_masked B j w' \<longleftrightarrow> j = irq \<or> irq_masked B j w)"
    using irq mask_portsD(3-) [OF B]
    by (auto simp: mask_eq [OF B irq] irq_masked_ports [OF B] bit_or_iff bit_irq_bit eq lt
        simp del: push_bit_of_1)
  show "runs (pic8259_unmask B irq w) (\<lambda>w'. \<forall>j<16. irq_masked B j w' \<longleftrightarrow> j \<noteq> irq \<and> irq_masked B j w)"
    using irq mask_portsD(3-) [OF B]
    by (auto simp: mask_eq [OF B irq] irq_masked_ports [OF B] bit_and_iff bit_not_iff bit_irq_bit eq lt
        possible_bit_word simp del: push_bit_of_1 dest: bit_imp_le_length)
qed

section \<open>A timer interrupt\<close>

text \<open>
  The table of the timer has 32 entries, and an entry that is in use has a function.
\<close>

definition timer_inv :: "('f, 'u) timer \<Rightarrow> bool" where
  "timer_inv t \<longleftrightarrow> length (timer_functions t) = 32 \<and> length (func_args t) = 32 \<and>
     (\<forall>i<32. timeout (func_args t ! i) \<noteq> 0 \<longrightarrow> timer_functions t ! i \<noteq> None)"

text \<open>The entries that are due at the tick \<open>n\<close>.\<close>

definition due :: "('f, 'u) timer \<Rightarrow> u32 \<Rightarrow> nat \<Rightarrow> bool" where
  "due t n i = (timeout (func_args t ! i) \<noteq> 0 \<and> n mod timeout (func_args t ! i) = 0)"

text \<open>Functions that only act on the rest of the system, not on the timer's own tables.\<close>

definition calling :: "('f \<Rightarrow> nat \<Rightarrow> 'w \<Rightarrow> 'w) \<Rightarrow> 'f \<Rightarrow> nat \<Rightarrow> ('f, 'u) timer \<times> 'w \<Rightarrow> (('f, 'u) timer \<times> 'w) option" where
  "calling eff f i tw = Some (fst tw, eff f i (snd tw))"

definition calls_due :: "('f \<Rightarrow> nat \<Rightarrow> 'w \<Rightarrow> 'w) \<Rightarrow> ('f, 'u) timer \<Rightarrow> u32 \<Rightarrow> 'w \<Rightarrow> 'w" where
  "calls_due eff t n w = fold (\<lambda>i. eff (the (timer_functions t ! i)) i) (filter (due t n) [0..<32]) w"

lemma run_functions_ok:
  assumes "timer_inv t" "i + n \<le> 32"
  shows "run_functions (calling eff) n i (t, w) =
    Some (t, fold (\<lambda>i. eff (the (timer_functions t ! i)) i) (filter (due t (g_ticks t)) [i..<i + n]) w)"
  using assms(2)
proof (induction n arbitrary: i w)
  case (Suc n)
  have "timeout (func_args t ! i) \<noteq> 0 \<Longrightarrow> \<exists>f. timer_functions t ! i = Some f"
    using assms(1) Suc.prems by (auto simp: timer_inv_def)
  moreover have "i < length (func_args t)" "i < length (timer_functions t)"
    using assms(1) Suc.prems by (simp_all add: timer_inv_def)
  moreover have "[i..<i + Suc n] = i # [Suc i..<Suc i + n]" by (simp add: upt_conv_Cons)
  ultimately show ?case
    using Suc.IH [of "Suc i"] Suc.prems by (auto simp: rd_def due_def calling_def simp del: upt_Suc)
qed simp

lemma timer_inv_tick: "timer_inv (t\<lparr>g_ticks := n\<rparr>) = timer_inv t"
  by (simp add: timer_inv_def)

lemma due_tick: "due (t\<lparr>g_ticks := n\<rparr>) = due t"
  by (simp add: due_def fun_eq_iff)

lemma timer_handler_ok:
  assumes "timer_inv t"
  shows "timer_handler B (calling eff) (t, w) =
    Some (t\<lparr>g_ticks := g_ticks t + 1\<rparr>,
          bus_out B PIC1_COMMAND PIC_EOI (bus_out B PIC2_COMMAND PIC_EOI (calls_due eff t (g_ticks t + 1) w)))"
proof -
  have "timer_inv (t\<lparr>g_ticks := g_ticks t + 1\<rparr>)" using assms by (simp add: timer_inv_tick)
  then have "run_functions (calling eff) 32 0 (t\<lparr>g_ticks := g_ticks t + 1\<rparr>, w) =
    Some (t\<lparr>g_ticks := g_ticks t + 1\<rparr>, calls_due eff t (g_ticks t + 1) w)"
    by (simp add: run_functions_ok calls_due_def due_tick)
  then show ?thesis by (simp add: timer_handler_def pic8259_eoi_def outportb_def)
qed

lemma timer_register_inv:
  assumes "timer_inv t"
  shows "runs (timer_register_function f args t) timer_inv"
proof -
  have "unat ((current_index t + 1) mod 32) < 32" by simp
  then show ?thesis
    using assms
    by (auto simp: timer_register_function_def timer_inv_def nth_list_update Let_def split: option.splits)
qed

lemma timer_init_inv:
  assumes "timer_init B nul h hs (t, w) = Some (hs', t', w')"
  shows "timer_inv t'"
  using assms
  by (auto simp: timer_init_def timer_set_frequency_def timer_inv_def Let_def split: bind_splits)

lemma wait_until_ok:
  assumes "timer_inv t" "g_ticks t \<le> until"
  shows "runs (wait_until (timer_handler B (calling eff)) until (t, w))
    (\<lambda>(t', w'). t' = t\<lparr>g_ticks := until\<rparr>)"
  using assms
proof (induction "unat until - unat (g_ticks t)" arbitrary: t w)
  case 0
  then have "g_ticks t = until" by (simp add: word_le_nat_alt unat_eq_iff)
  then show ?case by (subst wait_until.simps) simp
next
  case (Suc n)
  then have lt: "g_ticks t < until" by (simp add: word_less_nat_alt)
  let ?t = "t\<lparr>g_ticks := g_ticks t + 1\<rparr>"
  have "unat (g_ticks ?t) = Suc (unat (g_ticks t))" using lt by (simp add: unat_inc)
  then have "runs (wait_until (timer_handler B (calling eff)) until (?t, v))
    (\<lambda>(t', w'). t' = ?t\<lparr>g_ticks := until\<rparr>)" for v
    using Suc.hyps(2) Suc.prems by (intro Suc.hyps(1)) (simp_all add: timer_inv_tick word_le_nat_alt)
  then show ?case
    using lt Suc.prems(1) by (subst wait_until.simps) (simp add: timer_handler_ok)
qed

lemma timer_register_entry:
  assumes "timer_inv t" "timer_register_function (Some f) (Some args) t = Some t'"
  shows "timer_inv t' \<and> g_ticks t' = g_ticks t \<and>
    timer_functions t' = (timer_functions t)[unat (current_index t') := Some f] \<and>
    func_args t' = (func_args t)[unat (current_index t') := args] \<and>
    current_index t' = (current_index t + 1) mod 32 \<and> unat (current_index t') < 32"
proof -
  have "unat ((current_index t + 1) mod 32) < 32" by simp
  moreover have "timer_inv t'" using timer_register_inv [OF assms(1)] assms(2) by (metis runs_simps(1))
  ultimately show ?thesis using assms(2) by (auto simp: timer_register_function_def Let_def split: bind_splits)
qed

section \<open>Properties\<close>

text \<open>Ports with two mask registers, for the witnesses; every write is logged in front of the list.\<close>

definition mask_bus :: "(u8 \<times> u8 \<times> (u16 \<times> u8) list) bus" where
  "mask_bus = \<lparr>
     bus_in = \<lambda>p (m1, m2, l). (if p = 0x21 then m1 else if p = 0xA1 then m2 else 0, (m1, m2, l)),
     bus_out = \<lambda>p v (m1, m2, l).
       (if p = 0x21 then (v, m2, (p, v) # l) else if p = 0xA1 then (m1, v, (p, v) # l) else (m1, m2, (p, v) # l))\<rparr>"

lemma mask_bus_ports: "mask_ports mask_bus"
  by (auto simp: mask_ports_def mask_bus_def)

text \<open>Masking an interrupt line of the two controllers disables exactly this line, unmasking enables exactly
  this line, and both are defined for all sixteen lines, provided the data ports of the controllers are
  registers: \<open>pic8259_get_mask\<close> then shows all other lines as before.\<close>

theorem pic_mask_unmask:
  assumes "mask_ports B" "irq < 16"
  shows "(\<exists>w'. pic8259_mask B irq w = Some w' \<and> (\<forall>j<16. irq_masked B j w' \<longleftrightarrow> j = irq \<or> irq_masked B j w)) \<and>
    (\<exists>w'. pic8259_unmask B irq w = Some w' \<and> (\<forall>j<16. irq_masked B j w' \<longleftrightarrow> j \<noteq> irq \<and> irq_masked B j w))"
  using mask_ok [OF assms, of w] by (simp add: runs_iff)

theorem pic_mask_unmask_witness:
  "\<exists>w. pic8259_unmask mask_bus 12 (0xFF, 0xFF, []) = Some w \<and> irq_masked mask_bus 11 w \<and> \<not> irq_masked mask_bus 12 w"
proof -
  have "irq_masked mask_bus 11 (0xFF, 0xFF, [])" by code_simp
  then show ?thesis using pic_mask_unmask [OF mask_bus_ports, of 12 "(0xFF, 0xFF, [])"] by auto
qed

text \<open>One timer interrupt, from the dispatch to the end: the tick count grows by one, every registered function
  whose period divides the new count is called once, in the order of the table, and then three
  commands end the interrupt where one is due - the handler passes the vector 32 instead of the line
  0, so that it also ends an interrupt of the second controller, and the dispatcher ends line 0 again.\<close>

theorem timer_interrupt:
  assumes "timer_inv t" "hs ! 32 = Some h" "length hs = 256"
  shows "isr_irq_handler B (\<lambda>_. timer_handler B (calling eff)) hs 32 (t, w) =
    Some (t\<lparr>g_ticks := g_ticks t + 1\<rparr>,
      outportb B 0x20 0x20 (outportb B 0x20 0x20 (outportb B 0xA0 0x20
        (fold (\<lambda>i. eff (the (timer_functions t ! i)) i)
          (filter (\<lambda>i. timeout (func_args t ! i) \<noteq> 0 \<and> (g_ticks t + 1) mod timeout (func_args t ! i) = 0) [0..<32]) w))))"
  using assms
  by (simp add: isr_irq_handler_def rd_def timer_handler_ok pic8259_eoi_def outportb_def calls_due_def
      due_def [abs_def] Let_def del: upt_conv_Nil upt_Suc)

definition demo_timer :: "(nat, unit) timer" where
  "demo_timer = \<lparr>seed = 0, g_ticks = 5, g_freq_hz = 100, current_index = 2,
     timer_functions = (replicate 32 None)[1 := Some 7, 2 := Some 8],
     func_args = (replicate 32 \<lparr>timeout = 0, user = ()\<rparr>)[1 := \<lparr>timeout = 3, user = ()\<rparr>, 2 := \<lparr>timeout = 4, user = ()\<rparr>]\<rparr>"

lemma demo_timer_inv: "timer_inv demo_timer"
proof -
  have "(\<forall>i\<in>set [0..<32]. timeout (func_args demo_timer ! i) \<noteq> 0 \<longrightarrow> timer_functions demo_timer ! i \<noteq> None)"
    by code_simp
  moreover have "length (timer_functions demo_timer) = 32" "length (func_args demo_timer) = 32" by code_simp+
  ultimately show ?thesis by (simp only: timer_inv_def) auto
qed

theorem timer_interrupt_witness:
  "\<exists>t. isr_irq_handler mask_bus (\<lambda>_. timer_handler mask_bus (calling (\<lambda>f i (a, b, l). (a, b, (0, of_nat f) # l))))
     (replicate 256 (Some ())) 32 (demo_timer, 0, 0, []) =
   Some (t, 0, 0, [(0x20, 0x20), (0x20, 0x20), (0xA0, 0x20), (0, 7)])"
proof -
  have "hs ! 32 = Some () \<Longrightarrow> length hs = 256 \<Longrightarrow> hs = replicate 256 (Some ()) \<Longrightarrow> ?thesis" for hs
    by (drule (1) timer_interrupt [OF demo_timer_inv, of hs "()" mask_bus
          "\<lambda>f i (a, b, l). (a, b, (0, of_nat f) # l)" "(0, 0, [])"]) (simp, code_simp)
  then show ?thesis by simp
qed

text \<open>\<open>timer_register_function\<close> keeps the table well formed and installs the function so that every tick from
  then on calls it exactly when its period divides the tick count; its slot is the one after the last,
  so the thirty-third function takes the place of the first.\<close>

theorem timer_register_fires:
  assumes "timer_inv t" "timer_register_function (Some f) (Some args) t = Some t'"
  shows "timer_inv t' \<and> current_index t' = (current_index t + 1) mod 32 \<and>
    (\<exists>i<32. i = unat (current_index t') \<and> timer_functions t' ! i = Some f \<and>
      (\<forall>n. due t' n i \<longleftrightarrow> timeout args \<noteq> 0 \<and> n mod timeout args = 0) \<and>
      (\<forall>j<32. j \<noteq> i \<longrightarrow> timer_functions t' ! j = timer_functions t ! j \<and> (\<forall>n. due t' n j = due t n j)))"
  using timer_register_entry [OF assms] assms(1) by (auto simp: timer_inv_def due_def)

theorem timer_register_fires_witness:
  "\<exists>t. timer_register_function (Some 9) (Some \<lparr>timeout = 50, user = ()\<rparr>) demo_timer = Some t \<and>
     due t 100 3 \<and> \<not> due t 101 3 \<and> due t 6 1"
proof -
  obtain t where t: "timer_register_function (Some 9) (Some \<lparr>timeout = 50, user = ()\<rparr>) demo_timer = Some t"
    by (simp add: timer_register_function_def demo_timer_def Let_def wr_def)
  have v: "current_index demo_timer = 2" "due demo_timer 6 1" by code_simp+
  note r = timer_register_fires [OF demo_timer_inv t]
  then have i: "unat (current_index t) = 3" using v by simp
  have s: "\<forall>n. due t n 3 \<longleftrightarrow> n mod 50 = 0" using r unfolding i by simp
  have o: "\<forall>j<32. j \<noteq> 3 \<longrightarrow> (\<forall>n. due t n j = due demo_timer n j)" using r unfolding i by simp
  show ?thesis using t v(2) s spec [OF o, of 1] by simp
qed

text \<open>\<open>sleep\<close> returns, and exactly \<open>sec * g_freq_hz\<close> ticks later, when this product and the tick count at its
  end fit their types; whenever the count of its end wraps around, it returns at once.\<close>

theorem sleep_ticks:
  assumes "timer_inv t" "0 \<le> sec" "sec * uint (g_freq_hz t) < 2 ^ 31"
  shows "(unat (g_ticks t) + nat (sec * uint (g_freq_hz t)) < 2 ^ 32 \<longrightarrow>
      (\<exists>t' w'. sleep (timer_handler B (calling eff)) sec (t, w) = Some (t', w') \<and>
        unat (g_ticks t') = unat (g_ticks t) + nat (sec * uint (g_freq_hz t)))) \<and>
    (2 ^ 32 \<le> unat (g_ticks t) + nat (sec * uint (g_freq_hz t)) \<longrightarrow>
      sleep (timer_handler B (calling eff)) sec (t, w) = Some (t, w))"
proof -
  define d where "d = sec * uint (g_freq_hz t)"
  have d: "0 \<le> d" "d < 2 ^ 31" using assms by (simp_all add: d_def)
  have c: "chk_int d = Some d" using d by (simp add: chk_int_def int_ok_def)
  have u: "unat (word_of_int d :: u32) = nat d"
    using d by (simp add: unsigned_of_int take_bit_int_eq_self nat_less_iff)
  let ?u = "g_ticks t + word_of_int d"
  show ?thesis unfolding d_def [symmetric]
  proof (intro conjI impI)
    assume "unat (g_ticks t) + nat d < 2 ^ 32"
    then have e: "unat ?u = unat (g_ticks t) + nat d" using u by (simp add: unat_add_le)
    then have "g_ticks t \<le> ?u" by (simp add: word_le_nat_alt)
    from wait_until_ok [OF assms(1) this, of B eff w]
    show "\<exists>t' w'. sleep (timer_handler B (calling eff)) sec (t, w) = Some (t', w') \<and>
        unat (g_ticks t') = unat (g_ticks t) + nat d"
      using e c by (auto simp: sleep_def d_def [symmetric] runs_iff)
  next
    assume a: "2 ^ 32 \<le> unat (g_ticks t) + nat d"
    have "unat ?u = (unat (g_ticks t) + nat d) mod 2 ^ 32" using u by (simp add: unat_word_ariths)
    also have "\<dots> = unat (g_ticks t) + nat d - 2 ^ 32"
      using a d u32_bound [of "g_ticks t"] by (simp add: mod_if)
    finally have "\<not> g_ticks t < ?u" using d a by (simp add: word_less_nat_alt nat_less_iff)
    then show "sleep (timer_handler B (calling eff)) sec (t, w) = Some (t, w)"
      using c by (simp add: sleep_def d_def [symmetric] wait_until.simps)
  qed
qed

theorem sleep_ticks_witness:
  "(\<exists>t w. sleep (timer_handler mask_bus (calling (\<lambda>f i. id))) 3 (demo_timer, 0, 0, []) = Some (t, w) \<and> unat (g_ticks t) = 305) \<and>
   sleep (timer_handler mask_bus (calling (\<lambda>f i. id))) 3 (demo_timer\<lparr>g_ticks := -1\<rparr>, 0, 0, []) =
     Some (demo_timer\<lparr>g_ticks := -1\<rparr>, 0, 0, [])"
proof -
  have v: "uint (g_freq_hz demo_timer) = 100" "unat (g_ticks demo_timer) = 5" by (simp_all add: demo_timer_def)
  have "timer_inv (demo_timer\<lparr>g_ticks := -1\<rparr>)" using demo_timer_inv by (simp add: timer_inv_tick)
  then show ?thesis
    using v sleep_ticks [OF demo_timer_inv, of 3 mask_bus "\<lambda>f i. id" "(0, 0, [])"]
      sleep_ticks [of "demo_timer\<lparr>g_ticks := -1\<rparr>" 3 mask_bus "\<lambda>f i. id" "(0, 0, [])"]
    by (simp add: unsigned_minus_1_eq_mask mask_eq_exp_minus_1)
qed

end
