(* ===== verification/Keyboard.thy ===== *)
theory Keyboard
  imports Devices CString
begin

text \<open>
  The keyboard driver, \<open>src/drivers/keyboard.c\<close>: the interrupt handler with its two modifier flags, and the
  calls that wait for a key.  A \<open>char\<close> is a byte that is read as signed.  The waiting loops spin on
  variables that only the handler changes, so that a turn of the loop is one keyboard interrupt;
  \<open>None\<close> covers the wait that never ends.
\<close>

section \<open>The driver\<close>

record keyboard =
  g_caps_lock :: bool
  g_shift_pressed :: bool
  g_ch :: u8
  g_scan_code :: u8

definition g_scan_code_chars :: "u8 list" where
  "g_scan_code_chars =
    [0, 27, 49, 50, 51, 52, 53, 54, 55, 56, 57, 48, 45, 61, 8, 9,
     113, 119, 101, 114, 116, 121, 117, 105, 111, 112, 91, 93, 10, 0, 97, 115,
     100, 102, 103, 104, 106, 107, 108, 59, 39, 96, 0, 92, 122, 120, 99, 118,
     98, 110, 109, 44, 46, 47, 0, 42, 0, 32, 0, 0, 0, 0, 0, 0,
     0, 0, 0, 0, 0, 0, 0, 0, 0, 0, 45, 0, 0, 0, 43, 0,
     0, 0, 0, 0, 0, 0, 0, 0, 0, 0, 0, 0, 0, 0, 0, 0] @
    replicate 32 0"

definition alternate_chars :: "u8 \<Rightarrow> u8" where
  "alternate_chars ch =
     (case map_of
       [(96, 126), (49, 33), (50, 64), (51, 35), (52, 36), (53, 37), (54, 94), (55, 38), (56, 42),
        (57, 40), (48, 41), (45, 95), (61, 43), (91, 123), (93, 125), (92, 124), (59, 58), (39,
        34), (44, 60), (46, 62), (47, 63)] ch of
        Some c \<Rightarrow> c
      | None \<Rightarrow> ch)"

text \<open>The loop of \<open>get_scancode\<close> with its \<open>int\<close> counter.\<close>

partial_function (option) get_scancode_loop :: "'w bus \<Rightarrow> int \<Rightarrow> 'w \<Rightarrow> (u8 \<times> 'w) option" where
  "get_scancode_loop B i w =
     (if i > 0
      then (let (status, w) = inportb B 0x64 w
            in if status AND 1 = 0
               then do { i \<leftarrow> chk_int (i + 1); get_scancode_loop B i w }
               else Some (inportb B 0x60 w))
      else Some (0, w))"

definition get_scancode :: "'w bus \<Rightarrow> 'w \<Rightarrow> (u8 \<times> 'w) option" where
  "get_scancode B w = get_scancode_loop B 1000 w"

text \<open>The handler after the scan code is read.\<close>

definition keyboard_key :: "u8 \<Rightarrow> keyboard \<Rightarrow> keyboard" where
  "keyboard_key scancode kb =
     (let kb = kb\<lparr>g_ch := 0, g_scan_code := scancode\<rparr>
      in if scancode AND 0x80 \<noteq> 0 then kb
         else if scancode = 0x3A then kb\<lparr>g_caps_lock := (if g_caps_lock kb = False then True else False)\<rparr>
         else if scancode = 0x1C then kb\<lparr>g_ch := 10\<rparr>
         else if scancode = 0x0F then kb\<lparr>g_ch := 9\<rparr>
         else if scancode = 0x2A then kb\<lparr>g_shift_pressed := True\<rparr>
         else let kb = kb\<lparr>g_ch := g_scan_code_chars ! unat scancode\<rparr>
              in if g_caps_lock kb
                 then (if g_shift_pressed kb then kb\<lparr>g_ch := alternate_chars (g_ch kb)\<rparr>
                       else kb\<lparr>g_ch := upper (g_ch kb)\<rparr>)
                 else (if g_shift_pressed kb
                       then (if isalpha (sint (g_ch kb)) then kb\<lparr>g_ch := upper (g_ch kb)\<rparr>
                             else kb\<lparr>g_ch := alternate_chars (g_ch kb)\<rparr>)
                       else kb\<lparr>g_ch := g_scan_code_chars ! unat scancode\<rparr>)\<lparr>g_shift_pressed := False\<rparr>)"

definition keyboard_handler :: "'w bus \<Rightarrow> keyboard \<times> 'w \<Rightarrow> (keyboard \<times> 'w) option" where
  "keyboard_handler B kw =
     do { (scancode, w) \<leftarrow> get_scancode B (snd kw);
          Some (keyboard_key scancode (fst kw), w) }"

definition keyboard_init :: "'h \<Rightarrow> 'h option list \<Rightarrow> 'h option list option" where
  "keyboard_init handler hs = isr_register_interrupt_handler 33 (Some handler) hs"

partial_function (option) wait_key :: "(keyboard \<Rightarrow> u8) \<Rightarrow> 'w bus \<Rightarrow> keyboard \<times> 'w \<Rightarrow> (keyboard \<times> 'w) option" where
  "wait_key v B kw =
     (if sint (v (fst kw)) \<le> 0 then do { kw \<leftarrow> keyboard_handler B kw; wait_key v B kw } else Some kw)"

definition kb_getchar :: "'w bus \<Rightarrow> keyboard \<times> 'w \<Rightarrow> (u8 \<times> keyboard \<times> 'w) option" where
  "kb_getchar B kw =
     do { (kb, w) \<leftarrow> wait_key g_ch B kw;
          Some (g_ch kb, kb\<lparr>g_ch := 0, g_scan_code := 0\<rparr>, w) }"

definition kbhit :: "keyboard \<Rightarrow> int" where
  "kbhit kb = (if g_ch kb = 0 then 0 else 1)"

definition kb_get_scancode :: "'w bus \<Rightarrow> keyboard \<times> 'w \<Rightarrow> (u8 \<times> keyboard \<times> 'w) option" where
  "kb_get_scancode B kw =
     do { (kb, w) \<leftarrow> wait_key g_scan_code B kw;
          Some (g_scan_code kb, kb\<lparr>g_ch := 0, g_scan_code := 0\<rparr>, w) }"

section \<open>Keys\<close>

text \<open>The keys that are no modifiers and produce the table's character.\<close>

definition plain_key :: "u8 \<Rightarrow> bool" where
  "plain_key s \<longleftrightarrow> s < 0x80 \<and> s \<notin> {0x3A, 0x1C, 0x0F, 0x2A}"

text \<open>Every entry of the table is a character of ASCII, and no capital letter.\<close>

lemma table_entries:
  "\<forall>c\<in>set g_scan_code_chars. c < 128 \<and> \<not> (65 \<le> c \<and> c \<le> 90) \<and> (isalpha (sint c) \<longleftrightarrow> 97 \<le> c \<and> c \<le> 122) \<and>
     (isalpha (sint c) \<longrightarrow> alternate_chars c = c) \<and> (\<not> isalpha (sint c) \<longrightarrow> upper c = c) \<and>
     0 \<le> sint c \<and> 0 \<le> sint (upper c) \<and> 0 \<le> sint (alternate_chars c)"
  by code_simp

lemma table_length: "length g_scan_code_chars = 128"
  by code_simp

lemma plain_key_entry:
  assumes "plain_key s"
  shows "g_scan_code_chars ! unat s \<in> set g_scan_code_chars" "s AND 0x80 = 0"
proof -
  have "unat s < 128" using assms by (simp add: plain_key_def word_less_nat_alt)
  then show "g_scan_code_chars ! unat s \<in> set g_scan_code_chars" by (simp add: table_length)
  have "\<forall>n\<in>set [0..<128]. (of_nat n :: u8) AND 0x80 = 0" by code_simp
  moreover have "unat s \<in> set [0..<128]" using \<open>unat s < 128\<close> by simp
  ultimately have "(of_nat (unat s) :: u8) AND 0x80 = 0" by (rule bspec)
  then show "s AND 0x80 = 0" by simp
qed

lemma keyboard_key_plain:
  assumes "plain_key s"
  shows "keyboard_key s kb =
    (let c = g_scan_code_chars ! unat s
     in kb\<lparr>g_shift_pressed := g_shift_pressed kb \<and> g_caps_lock kb,
           g_ch := (if isalpha (sint c) then (if g_caps_lock kb \<noteq> g_shift_pressed kb then upper c else c)
                    else if g_shift_pressed kb then alternate_chars c else c),
           g_scan_code := s\<rparr>)"
proof -
  define c where "c = g_scan_code_chars ! unat s"
  have "c \<in> set g_scan_code_chars" "s AND 0x80 = 0"
    using plain_key_entry [OF assms] by (simp_all add: c_def)
  moreover from this have "isalpha (sint c) \<Longrightarrow> alternate_chars c = c" "\<not> isalpha (sint c) \<Longrightarrow> upper c = c"
    using table_entries by blast+
  ultimately show ?thesis
    using assms by (cases kb) (auto simp: keyboard_key_def plain_key_def c_def [symmetric] Let_def)
qed

lemma keyboard_key_release: "s AND 0x80 \<noteq> 0 \<Longrightarrow> keyboard_key s kb = kb\<lparr>g_ch := 0, g_scan_code := s\<rparr>"
  by (simp add: keyboard_key_def)

section \<open>Waiting for a key\<close>

text \<open>The interrupts whose handler reads the codes \<open>cs\<close> one after the other.\<close>

primrec delivers :: "'w bus \<Rightarrow> u8 list \<Rightarrow> 'w \<Rightarrow> 'w \<Rightarrow> bool" where
  "delivers B [] w w' = (w' = w)"
| "delivers B (c # cs) w w' = (\<exists>w1. get_scancode B w = Some (c, w1) \<and> delivers B cs w1 w')"

lemma wait_key_ok:
  assumes "delivers B cs w w'" "0 <s v (fold keyboard_key cs kb)"
    and "\<forall>n<length cs. \<not> 0 <s v (fold keyboard_key (take n cs) kb)"
  shows "wait_key v B (kb, w) = Some (fold keyboard_key cs kb, w')"
  using assms
proof (induction cs arbitrary: kb w)
  case Nil
  then show ?case by (subst wait_key.simps) (simp add: word_sless_alt)
next
  case (Cons c cs)
  then obtain w1 where w1: "get_scancode B w = Some (c, w1)" "delivers B cs w1 w'" by auto
  have "\<forall>n<length cs. \<not> 0 <s v (fold keyboard_key (take n cs) (keyboard_key c kb))"
    using Cons.prems(3) by (auto dest: spec [of _ "Suc _"])
  then have "wait_key v B (keyboard_key c kb, w1) = Some (fold keyboard_key cs (keyboard_key c kb), w')"
    using Cons.IH [OF w1(2)] Cons.prems(2) by simp
  moreover have "\<not> 0 <s v kb" using Cons.prems(3) by (auto dest: spec [of _ 0])
  ultimately show ?case
    using w1(1) by (subst wait_key.simps) (simp add: word_sless_alt keyboard_handler_def)
qed

text \<open>The counter of \<open>get_scancode\<close> only grows.\<close>

lemma get_scancode_loop_stuck:
  assumes "\<And>w. P w \<Longrightarrow> fst (inportb B 0x64 w) AND 1 = 0 \<and> P (snd (inportb B 0x64 w))"
    and "P w" "0 < i"
  shows "get_scancode_loop B i w = None"
  using assms(2,3)
proof (induction "nat (2 ^ 31 - i)" arbitrary: i w rule: less_induct)
  case less
  obtain st w1 where st: "inportb B 0x64 w = (st, w1)" by (cases "inportb B 0x64 w")
  then have "st AND 1 = 0" "P w1" using assms(1) [OF less.prems(1)] by simp_all
  moreover have "get_scancode_loop B (i + 1) w1 = None" if "i + 1 < 2 ^ 31"
    using that less.prems \<open>P w1\<close> by (intro less.hyps) simp_all
  ultimately show ?case
    using less.prems(2) by (subst get_scancode_loop.simps) (simp add: st chk_int_def int_ok_def)
qed

lemma shift_kept:
  "g_caps_lock kb \<Longrightarrow> g_shift_pressed kb \<Longrightarrow> s \<noteq> 0x3A \<Longrightarrow>
     g_caps_lock (keyboard_key s kb) \<and> g_shift_pressed (keyboard_key s kb)"
  by (simp add: keyboard_key_def Let_def)

lemma shift_kept_list:
  "g_caps_lock kb \<Longrightarrow> g_shift_pressed kb \<Longrightarrow> 0x3A \<notin> set cs \<Longrightarrow>
     g_caps_lock (fold keyboard_key cs kb) \<and> g_shift_pressed (fold keyboard_key cs kb)"
  by (induction cs arbitrary: kb) (auto simp: shift_kept)

section \<open>Properties\<close>

text \<open>A keyboard with a queue of scan codes, for the witnesses.\<close>

definition key_bus :: "u8 list bus" where
  "key_bus = \<lparr>
     bus_in = \<lambda>p w. (if p = 0x64 then (if w = [] then 0 else 1, w)
                     else case w of [] \<Rightarrow> (0, []) | c # w \<Rightarrow> (c, w)),
     bus_out = \<lambda>p v w. w\<rparr>"

lemma key_bus_scancode: "get_scancode key_bus (c # cs) = Some (c, cs)"
  by (simp add: get_scancode_def get_scancode_loop.simps key_bus_def inportb_def)

lemma key_bus_delivers: "delivers key_bus cs (cs @ rest) rest"
  by (induction cs) (simp_all add: key_bus_scancode)

text \<open>C40. The keyboard interrupt decodes every key: a letter is a capital exactly when one of caps lock and shift is on,
  any other key gives its shifted character exactly when shift is on, a shift lasts for one key unless
  caps lock is on, and the code of a released key only clears the character that was waiting.\<close>

theorem keyboard_handler_decodes:
  assumes "get_scancode B w = Some (s, w')"
  shows "(plain_key s \<longrightarrow>
      (\<exists>kb'. keyboard_handler B (kb, w) = Some (kb', w') \<and> g_caps_lock kb' = g_caps_lock kb \<and>
        g_shift_pressed kb' = (g_shift_pressed kb \<and> g_caps_lock kb) \<and>
        g_ch kb' = (let c = g_scan_code_chars ! unat s
          in if isalpha (sint c) then (if g_caps_lock kb \<noteq> g_shift_pressed kb then upper c else c)
             else if g_shift_pressed kb then alternate_chars c else c))) \<and>
    (s AND 0x80 \<noteq> 0 \<longrightarrow> keyboard_handler B (kb, w) = Some (kb\<lparr>g_ch := 0, g_scan_code := s\<rparr>, w'))"
  using assms by (auto simp: keyboard_handler_def keyboard_key_plain keyboard_key_release Let_def)

theorem keyboard_handler_decodes_witness:
  "\<exists>kb. keyboard_handler key_bus (\<lparr>g_caps_lock = False, g_shift_pressed = True, g_ch = 0, g_scan_code = 0\<rparr>, [0x1E]) =
     Some (kb, []) \<and> g_ch kb = 65 \<and> \<not> g_shift_pressed kb"
proof -
  have "plain_key 0x1E" by code_simp
  moreover have "g_scan_code_chars ! unat (0x1E :: u8) = 97" "isalpha (sint (97 :: u8))" "upper 97 = 65"
    by code_simp+
  ultimately show ?thesis
    using keyboard_handler_decodes [OF key_bus_scancode [of "0x1E" "[]"], of
      "\<lparr>g_caps_lock = False, g_shift_pressed = True, g_ch = 0, g_scan_code = 0\<rparr>"]
    by (auto simp: Let_def)
qed

text \<open>\<open>kb_getchar\<close> returns the first character the keyboard interrupts produce, and leaves nothing behind: the
  codes that come before it (modifiers, releases) are consumed by the driver's flags, none after it is
  read.  A key that is pressed and released before anyone asks is lost.\<close>

theorem kb_getchar_next:
  assumes "delivers B cs w w'" "0 <s g_ch (fold keyboard_key cs kb)"
    and "\<forall>n<length cs. \<not> 0 <s g_ch (fold keyboard_key (take n cs) kb)"
  shows "kb_getchar B (kb, w) =
      Some (g_ch (fold keyboard_key cs kb), (fold keyboard_key cs kb)\<lparr>g_ch := 0, g_scan_code := 0\<rparr>, w') \<and>
    kbhit ((fold keyboard_key cs kb)\<lparr>g_ch := 0, g_scan_code := 0\<rparr>) = 0 \<and>
    (\<forall>s. s AND 0x80 \<noteq> 0 \<longrightarrow> kbhit (keyboard_key s (fold keyboard_key cs kb)) = 0)"
  using wait_key_ok [of B cs w w' g_ch kb, OF assms]
  by (simp add: kb_getchar_def kbhit_def keyboard_key_release)

theorem kb_getchar_next_witness:
  "\<exists>kb. kb_getchar key_bus (\<lparr>g_caps_lock = False, g_shift_pressed = False, g_ch = 0, g_scan_code = 0\<rparr>, [0x2A, 0xAA, 0x02, 0x82]) =
     Some (33, kb, [0x82])"
proof -
  let ?kb = "\<lparr>g_caps_lock = False, g_shift_pressed = False, g_ch = 0, g_scan_code = 0\<rparr>"
  let ?cs = "[0x2A, 0xAA, 0x02] :: u8 list"
  have d: "delivers key_bus ?cs [0x2A, 0xAA, 0x02, 0x82] [0x82]"
    using key_bus_delivers [of ?cs "[0x82]"] by simp
  have g: "g_ch (fold keyboard_key ?cs ?kb) = 33" by code_simp
  have pos: "0 <s g_ch (fold keyboard_key ?cs ?kb)" by code_simp
  have "\<forall>n\<in>set [0..<3]. \<not> 0 <s g_ch (fold keyboard_key (take n ?cs) ?kb)" by code_simp
  then have p: "\<forall>n<length ?cs. \<not> 0 <s g_ch (fold keyboard_key (take n ?cs) ?kb)" by simp
  show ?thesis using kb_getchar_next [OF d pos p] unfolding g by blast
qed

text \<open>The time-out of \<open>get_scancode\<close> never happens: as long as the status port reports no data the counter, which
  should count down from 1000, counts up, until it overflows.\<close>

theorem get_scancode_no_timeout:
  assumes "\<And>w. P w \<Longrightarrow> fst (inportb B 0x64 w) AND 1 = 0 \<and> P (snd (inportb B 0x64 w))" "P w"
  shows "get_scancode B w = None \<and> keyboard_handler B (kb, w) = None"
  using get_scancode_loop_stuck [of P B w 1000, OF assms]
  by (simp add: get_scancode_def keyboard_handler_def)

theorem get_scancode_no_timeout_witness: "get_scancode key_bus [] = None"
  using get_scancode_no_timeout [of "\<lambda>w. w = []" key_bus "[]"] by (simp add: key_bus_def inportb_def)

text \<open>With caps lock on nothing but the caps lock key ends a shift: whatever keys are pressed and released, the
  modifier stays on.\<close>

theorem caps_lock_keeps_shift:
  assumes "g_caps_lock kb" "g_shift_pressed kb" "0x3A \<notin> set cs"
  shows "g_shift_pressed (fold keyboard_key cs kb)"
  using shift_kept_list [OF assms] by simp

theorem caps_lock_keeps_shift_witness:
  "g_shift_pressed (fold keyboard_key [0x1E, 0x9E, 0xAA, 0x30, 0xB0]
     \<lparr>g_caps_lock = True, g_shift_pressed = True, g_ch = 0, g_scan_code = 0\<rparr>)"
  by (rule caps_lock_keeps_shift) simp_all

end
