(* ===== verification/Ide.thy ===== *)
theory Ide
  imports Devices CString
begin

text \<open>
  The disk driver, \<open>src/drivers/ide.c\<close>: the registers of the two channels behind the I/O ports, the
  transfer of sectors by programmed I/O, the identification of the drives.  The drives are the ports'
  parameter, here with accesses of 16 and 32 bits; a loop that waits for a drive is a
  \<open>partial_function\<close>.  The memory a transfer reads or fills is a byte list, an access beyond it \<open>None\<close>;
  so is the use of a variable that was never set.  Messages are left out.
\<close>

section \<open>State\<close>

record 'w ide_bus = "'w bus" +
  bus_inw :: "u16 \<Rightarrow> 'w \<Rightarrow> u16 \<times> 'w"
  bus_outw :: "u16 \<Rightarrow> u16 \<Rightarrow> 'w \<Rightarrow> 'w"
  bus_inl :: "u16 \<Rightarrow> 'w \<Rightarrow> u32 \<times> 'w"
  bus_outl :: "u16 \<Rightarrow> u32 \<Rightarrow> 'w \<Rightarrow> 'w"

definition inportl :: "'w ide_bus \<Rightarrow> u16 \<Rightarrow> 'w \<Rightarrow> u32 \<times> 'w" where
  "inportl B port w = bus_inl B port w"

definition outportl :: "'w ide_bus \<Rightarrow> u16 \<Rightarrow> u32 \<Rightarrow> 'w \<Rightarrow> 'w" where
  "outportl B port v w = bus_outl B port v w"

record ide_channel =
  ch_base :: u16
  ch_control :: u16
  ch_bm_ide :: u16
  ch_no_intr :: u16

record ide_device =
  dev_reserved :: u8
  dev_channel :: u8
  dev_drive :: u8
  dev_type :: u16
  dev_signature :: u16
  dev_features :: u16
  dev_command_sets :: u32
  dev_size :: u32
  dev_model :: "u8 list"

record ide =
  g_ide_channels :: "ide_channel list"
  g_ide_devices :: "ide_device list"
  g_ide_irq_invoked :: u8

abbreviation (input) ATA_REG_DATA :: u8 where "ATA_REG_DATA \<equiv> 0x00"
abbreviation (input) ATA_REG_ERROR :: u8 where "ATA_REG_ERROR \<equiv> 0x01"
abbreviation (input) ATA_REG_SECCOUNT0 :: u8 where "ATA_REG_SECCOUNT0 \<equiv> 0x02"
abbreviation (input) ATA_REG_LBA0 :: u8 where "ATA_REG_LBA0 \<equiv> 0x03"
abbreviation (input) ATA_REG_LBA1 :: u8 where "ATA_REG_LBA1 \<equiv> 0x04"
abbreviation (input) ATA_REG_LBA2 :: u8 where "ATA_REG_LBA2 \<equiv> 0x05"
abbreviation (input) ATA_REG_HDDEVSEL :: u8 where "ATA_REG_HDDEVSEL \<equiv> 0x06"
abbreviation (input) ATA_REG_COMMAND :: u8 where "ATA_REG_COMMAND \<equiv> 0x07"
abbreviation (input) ATA_REG_STATUS :: u8 where "ATA_REG_STATUS \<equiv> 0x07"
abbreviation (input) ATA_REG_SECCOUNT1 :: u8 where "ATA_REG_SECCOUNT1 \<equiv> 0x08"
abbreviation (input) ATA_REG_LBA3 :: u8 where "ATA_REG_LBA3 \<equiv> 0x09"
abbreviation (input) ATA_REG_LBA4 :: u8 where "ATA_REG_LBA4 \<equiv> 0x0A"
abbreviation (input) ATA_REG_LBA5 :: u8 where "ATA_REG_LBA5 \<equiv> 0x0B"
abbreviation (input) ATA_REG_CONTROL :: u8 where "ATA_REG_CONTROL \<equiv> 0x0C"
abbreviation (input) ATA_REG_ALTSTATUS :: u8 where "ATA_REG_ALTSTATUS \<equiv> 0x0C"
abbreviation (input) ATA_READ :: u8 where "ATA_READ \<equiv> 0"
abbreviation (input) ATA_WRITE :: u8 where "ATA_WRITE \<equiv> 1"
abbreviation (input) LBA_MODE_CHS :: u8 where "LBA_MODE_CHS \<equiv> 0"
abbreviation (input) LBA_MODE_28 :: u8 where "LBA_MODE_28 \<equiv> 1"
abbreviation (input) LBA_MODE_48 :: u8 where "LBA_MODE_48 \<equiv> 2"

section \<open>Registers\<close>

text \<open>The port of a register; there is none from \<open>0x16\<close> on.\<close>

definition reg_port :: "ide_channel \<Rightarrow> u8 \<Rightarrow> u16 option" where
  "reg_port c reg =
     (if reg < 0x08 then Some (ch_base c + ucast reg)
      else if reg < 0x0C then Some (ch_base c + ucast reg - 0x06)
      else if reg < 0x0E then Some (ch_control c + ucast reg - 0x0A)
      else if reg < 0x16 then Some (ch_bm_ide c + ucast reg - 0x0E)
      else None)"

text \<open>The registers behind the high-order bit of the control register.\<close>

definition high_order :: "u8 \<Rightarrow> bool" where
  "high_order reg \<longleftrightarrow> reg > 0x07 \<and> reg < 0x0C"

text \<open>
  \<open>ide_write_register\<close> calls itself, but only with the control register, which is not one of these;
  \<open>write_plain\<close> is that inner call.
\<close>

definition write_plain :: "'w ide_bus \<Rightarrow> ide \<Rightarrow> u8 \<Rightarrow> u8 \<Rightarrow> u8 \<Rightarrow> 'w \<Rightarrow> 'w option" where
  "write_plain B s channel reg data w =
     do { c \<leftarrow> rd (g_ide_channels s) (unat channel);
          Some (case reg_port c reg of Some port \<Rightarrow> outportb B port data w | None \<Rightarrow> w) }"

definition write_control :: "'w ide_bus \<Rightarrow> ide \<Rightarrow> u8 \<Rightarrow> u8 \<Rightarrow> u16 \<Rightarrow> 'w \<Rightarrow> 'w option" where
  "write_control B s channel reg bits w =
     (if high_order reg
      then do { c \<leftarrow> rd (g_ide_channels s) (unat channel);
                write_plain B s channel ATA_REG_CONTROL (ucast (bits OR ch_no_intr c)) w }
      else Some w)"

definition ide_write_register :: "'w ide_bus \<Rightarrow> ide \<Rightarrow> u8 \<Rightarrow> u8 \<Rightarrow> u8 \<Rightarrow> 'w \<Rightarrow> 'w option" where
  "ide_write_register B s channel reg data w =
     do { w \<leftarrow> write_control B s channel reg 0x80 w;
          w \<leftarrow> write_plain B s channel reg data w;
          write_control B s channel reg 0 w }"

definition ide_read_register :: "'w ide_bus \<Rightarrow> ide \<Rightarrow> u8 \<Rightarrow> u8 \<Rightarrow> 'w \<Rightarrow> (u8 \<times> 'w) option" where
  "ide_read_register B s channel reg w =
     do { w \<leftarrow> write_control B s channel reg 0x80 w;
          c \<leftarrow> rd (g_ide_channels s) (unat channel);
          port \<leftarrow> reg_port c reg;
          let (ret, w) = inportb B port w;
          w \<leftarrow> write_control B s channel reg 0 w;
          Some (ret, w) }"

section \<open>Blocks of data\<close>

text \<open>A word or double word at an offset of a byte list, low byte first.\<close>

definition put_le16 :: "u8 list \<Rightarrow> nat \<Rightarrow> u16 \<Rightarrow> u8 list option" where
  "put_le16 b off v = do { b \<leftarrow> wr b off (ucast v); wr b (off + 1) (ucast (drop_bit 8 v)) }"

definition put_le32 :: "u8 list \<Rightarrow> nat \<Rightarrow> u32 \<Rightarrow> u8 list option" where
  "put_le32 b off v =
     do { b \<leftarrow> put_le16 b off (ucast v); put_le16 b (off + 2) (ucast (drop_bit 16 v)) }"

definition get_le16 :: "u8 list \<Rightarrow> nat \<Rightarrow> u16 option" where
  "get_le16 b off =
     do { lo \<leftarrow> rd b off; hi \<leftarrow> rd b (off + 1); Some (ucast lo OR push_bit 8 (ucast hi)) }"

definition get_le32 :: "u8 list \<Rightarrow> nat \<Rightarrow> u32 option" where
  "get_le32 b off =
     do { lo \<leftarrow> get_le16 b off; hi \<leftarrow> get_le16 b (off + 2); Some (ucast lo OR push_bit 16 (ucast hi)) }"

text \<open>\<open>n\<close> turns of the loops over double words, from the offset \<open>off\<close> on.\<close>

primrec insl :: "'w ide_bus \<Rightarrow> u16 \<Rightarrow> nat \<Rightarrow> nat \<Rightarrow> u8 list \<Rightarrow> 'w \<Rightarrow> (u8 list \<times> 'w) option" where
  "insl B reg 0 off buffer w = Some (buffer, w)"
| "insl B reg (Suc n) off buffer w =
     (let (v, w) = inportl B reg w
      in do { buffer \<leftarrow> put_le32 buffer off v; insl B reg n (off + 4) buffer w })"

primrec outsl :: "'w ide_bus \<Rightarrow> u16 \<Rightarrow> nat \<Rightarrow> nat \<Rightarrow> u8 list \<Rightarrow> 'w \<Rightarrow> 'w option" where
  "outsl B reg 0 off buffer w = Some w"
| "outsl B reg (Suc n) off buffer w =
     do { v \<leftarrow> get_le32 buffer off; outsl B reg n (off + 4) buffer (outportl B reg v w) }"

text \<open>The instructions \<open>rep insw\<close> and \<open>rep outsw\<close>.\<close>

primrec insw :: "'w ide_bus \<Rightarrow> u16 \<Rightarrow> nat \<Rightarrow> nat \<Rightarrow> u8 list \<Rightarrow> 'w \<Rightarrow> (u8 list \<times> 'w) option" where
  "insw B port 0 off buffer w = Some (buffer, w)"
| "insw B port (Suc n) off buffer w =
     (let (v, w) = bus_inw B port w
      in do { buffer \<leftarrow> put_le16 buffer off v; insw B port n (off + 2) buffer w })"

primrec outsw :: "'w ide_bus \<Rightarrow> u16 \<Rightarrow> nat \<Rightarrow> nat \<Rightarrow> u8 list \<Rightarrow> 'w \<Rightarrow> 'w option" where
  "outsw B port 0 off buffer w = Some w"
| "outsw B port (Suc n) off buffer w =
     do { v \<leftarrow> get_le16 buffer off; outsw B port n (off + 2) buffer (bus_outw B port v w) }"

definition ide_read_buffer :: "'w ide_bus \<Rightarrow> ide \<Rightarrow> u8 \<Rightarrow> u8 \<Rightarrow> u8 list \<Rightarrow> nat \<Rightarrow> 'w \<Rightarrow> (u8 list \<times> 'w) option" where
  "ide_read_buffer B s channel reg buffer quads w =
     do { w \<leftarrow> write_control B s channel reg 0x80 w;
          c \<leftarrow> rd (g_ide_channels s) (unat channel);
          (buffer, w) \<leftarrow> (case reg_port c reg of Some port \<Rightarrow> insl B port quads 0 buffer w | None \<Rightarrow> Some (buffer, w));
          w \<leftarrow> write_control B s channel reg 0 w;
          Some (buffer, w) }"

definition ide_write_buffer :: "'w ide_bus \<Rightarrow> ide \<Rightarrow> u8 \<Rightarrow> u8 \<Rightarrow> u8 list \<Rightarrow> nat \<Rightarrow> 'w \<Rightarrow> 'w option" where
  "ide_write_buffer B s channel reg buffer quads w =
     do { w \<leftarrow> write_control B s channel reg 0x80 w;
          c \<leftarrow> rd (g_ide_channels s) (unat channel);
          w \<leftarrow> (case reg_port c reg of Some port \<Rightarrow> outsl B port quads 0 buffer w | None \<Rightarrow> Some w);
          write_control B s channel reg 0 w }"

section \<open>Waiting and errors\<close>

partial_function (option) wait_not_busy :: "'w ide_bus \<Rightarrow> ide \<Rightarrow> u8 \<Rightarrow> 'w \<Rightarrow> 'w option" where
  "wait_not_busy B s channel w =
     do { (status, w) \<leftarrow> ide_read_register B s channel ATA_REG_STATUS w;
          if status AND 0x80 \<noteq> 0 then wait_not_busy B s channel w else Some w }"

definition ide_polling :: "'w ide_bus \<Rightarrow> ide \<Rightarrow> u8 \<Rightarrow> bool \<Rightarrow> 'w \<Rightarrow> (u8 \<times> 'w) option" where
  "ide_polling B s channel advanced_check w =
     do { (_, w) \<leftarrow> ide_read_register B s channel ATA_REG_ALTSTATUS w;
          (_, w) \<leftarrow> ide_read_register B s channel ATA_REG_ALTSTATUS w;
          (_, w) \<leftarrow> ide_read_register B s channel ATA_REG_ALTSTATUS w;
          (_, w) \<leftarrow> ide_read_register B s channel ATA_REG_ALTSTATUS w;
          w \<leftarrow> wait_not_busy B s channel w;
          if advanced_check
          then do { (state, w) \<leftarrow> ide_read_register B s channel ATA_REG_STATUS w;
                    Some (if state AND 0x01 \<noteq> 0 then 2
                          else if state AND 0x20 \<noteq> 0 then 1
                          else if state AND 0x08 = 0 then 3 else 0, w) }
          else Some (0, w) }"

text \<open>The bits of the error register, each overwriting the number found before.\<close>

definition error_number :: "u8 \<Rightarrow> u8 \<Rightarrow> u8" where
  "error_number st err =
     (let err = (if st AND 0x01 \<noteq> 0 then 7 else err);
          err = (if st AND 0x02 \<noteq> 0 then 3 else err);
          err = (if st AND 0x04 \<noteq> 0 then 20 else err);
          err = (if st AND 0x08 \<noteq> 0 then 3 else err);
          err = (if st AND 0x10 \<noteq> 0 then 21 else err);
          err = (if st AND 0x20 \<noteq> 0 then 3 else err);
          err = (if st AND 0x40 \<noteq> 0 then 22 else err)
      in if st AND 0x80 \<noteq> 0 then 13 else err)"

definition ide_print_error :: "'w ide_bus \<Rightarrow> ide \<Rightarrow> nat \<Rightarrow> u8 \<Rightarrow> 'w \<Rightarrow> (u8 \<times> 'w) option" where
  "ide_print_error B s drive err w =
     (if err = 0 then Some (err, w)
      else if err = 1 then Some (19, w)
      else if err = 2
      then do { d \<leftarrow> rd (g_ide_devices s) drive;
                (st, w) \<leftarrow> ide_read_register B s (dev_channel d) ATA_REG_ERROR w;
                Some (error_number st err, w) }
      else if err = 3 then Some (23, w)
      else if err = 4 then Some (8, w)
      else Some (err, w))"

section \<open>Transfers\<close>

text \<open>How a sector is addressed: the mode, the six address bytes, and the head.\<close>

definition ata_address :: "u32 \<Rightarrow> u16 \<Rightarrow> u8 \<times> u8 list \<times> u8" where
  "ata_address lba features =
     (if lba \<ge> 0x10000000
      then (LBA_MODE_48, [ucast (lba AND 0xFF), ucast (drop_bit 8 (lba AND 0xFF00)),
             ucast (drop_bit 16 (lba AND 0xFF0000)), ucast (drop_bit 24 (lba AND 0xFF000000)), 0, 0], 0)
      else if features AND 0x200 \<noteq> 0
      then (LBA_MODE_28, [ucast (lba AND 0xFF), ucast (drop_bit 8 (lba AND 0xFF00)),
             ucast (drop_bit 16 (lba AND 0xFF0000)), 0, 0, 0], ucast (drop_bit 24 (lba AND 0xF000000)))
      else let sect = ucast (lba mod 63 + 1) :: u8;
               cyl = ucast ((lba + 1 - ucast sect) div (16 * 63)) :: u16
           in (LBA_MODE_CHS, [sect, ucast (cyl AND 0xFF), ucast (drop_bit 8 cyl AND 0xFF), 0, 0, 0],
               ucast ((lba + 1 - ucast sect) mod (16 * 63) div 63)))"

text \<open>The command without DMA; it stays unset for any other direction.\<close>

definition ata_command :: "u8 \<Rightarrow> u8 \<Rightarrow> u8 option" where
  "ata_command direction lba_mode =
     (if direction = ATA_READ then Some (if lba_mode = LBA_MODE_48 then 0x24 else 0x20)
      else if direction = ATA_WRITE then Some (if lba_mode = LBA_MODE_48 then 0x34 else 0x30)
      else None)"

text \<open>The registers of one command, in the order they are written.\<close>

definition ata_setup :: "'w ide_bus \<Rightarrow> ide \<Rightarrow> u8 \<Rightarrow> u8 \<Rightarrow> u8 \<times> u8 list \<times> u8 \<Rightarrow> u8 \<Rightarrow> u8 \<Rightarrow> 'w \<Rightarrow> 'w option" where
  "ata_setup B s channel slavebit addr num_sectors cmd w =
     (let (lba_mode, lba_io, head) = addr
      in do { w \<leftarrow> ide_write_register B s channel ATA_REG_HDDEVSEL
                 ((if lba_mode = LBA_MODE_CHS then 0xA0 else 0xE0) OR push_bit 4 slavebit OR head) w;
              w \<leftarrow> (if lba_mode = LBA_MODE_48
                    then do { w \<leftarrow> ide_write_register B s channel ATA_REG_SECCOUNT1 0 w;
                              w \<leftarrow> ide_write_register B s channel ATA_REG_LBA3 (lba_io ! 3) w;
                              w \<leftarrow> ide_write_register B s channel ATA_REG_LBA4 (lba_io ! 4) w;
                              ide_write_register B s channel ATA_REG_LBA5 (lba_io ! 5) w }
                    else Some w);
              w \<leftarrow> ide_write_register B s channel ATA_REG_SECCOUNT0 num_sectors w;
              w \<leftarrow> ide_write_register B s channel ATA_REG_LBA0 (lba_io ! 0) w;
              w \<leftarrow> ide_write_register B s channel ATA_REG_LBA1 (lba_io ! 1) w;
              w \<leftarrow> ide_write_register B s channel ATA_REG_LBA2 (lba_io ! 2) w;
              ide_write_register B s channel ATA_REG_COMMAND cmd w })"

text \<open>The loops over the sectors, from the offset \<open>off\<close> of the buffer on.\<close>

primrec read_loop :: "'w ide_bus \<Rightarrow> ide \<Rightarrow> u8 \<Rightarrow> u16 \<Rightarrow> nat \<Rightarrow> nat \<Rightarrow> u8 list \<Rightarrow> 'w \<Rightarrow> (u8 \<times> u8 list \<times> 'w) option" where
  "read_loop B s channel bus 0 off buffer w = Some (0, buffer, w)"
| "read_loop B s channel bus (Suc n) off buffer w =
     do { (err, w) \<leftarrow> ide_polling B s channel True w;
          if err \<noteq> 0 then Some (err, buffer, w)
          else do { (buffer, w) \<leftarrow> insw B bus 256 off buffer w;
                    read_loop B s channel bus n (off + 512) buffer w } }"

primrec write_loop :: "'w ide_bus \<Rightarrow> ide \<Rightarrow> u8 \<Rightarrow> u16 \<Rightarrow> nat \<Rightarrow> nat \<Rightarrow> u8 list \<Rightarrow> 'w \<Rightarrow> 'w option" where
  "write_loop B s channel bus 0 off buffer w = Some w"
| "write_loop B s channel bus (Suc n) off buffer w =
     do { (_, w) \<leftarrow> ide_polling B s channel False w;
          w \<leftarrow> outsw B bus 256 off buffer w;
          write_loop B s channel bus n (off + 512) buffer w }"

definition ide_ata_access ::
  "'w ide_bus \<Rightarrow> u8 \<Rightarrow> nat \<Rightarrow> u32 \<Rightarrow> u8 \<Rightarrow> u8 list \<Rightarrow> ide \<times> 'w \<Rightarrow> (u8 \<times> u8 list \<times> ide \<times> 'w) option" where
  "ide_ata_access B direction drive lba num_sectors buffer sw =
     (let (s, w) = sw
      in do { d \<leftarrow> rd (g_ide_devices s) drive;
              let channel = dev_channel d;
              c \<leftarrow> rd (g_ide_channels s) (unat channel);
              let bus = ch_base c;
              let s = s\<lparr>g_ide_channels := (g_ide_channels s)[unat channel := c\<lparr>ch_no_intr := 2\<rparr>],
                        g_ide_irq_invoked := 0\<rparr>;
              w \<leftarrow> ide_write_register B s channel ATA_REG_CONTROL 2 w;
              let addr = ata_address lba (dev_features d);
              w \<leftarrow> wait_not_busy B s channel w;
              cmd \<leftarrow> ata_command direction (fst addr);
              w \<leftarrow> ata_setup B s channel (dev_drive d) addr num_sectors cmd w;
              if direction = ATA_READ
              then do { (err, buffer, w) \<leftarrow> read_loop B s channel bus (unat num_sectors) 0 buffer w;
                        Some (err, buffer, s, w) }
              else do { w \<leftarrow> write_loop B s channel bus (unat num_sectors) 0 buffer w;
                        w \<leftarrow> ide_write_register B s channel ATA_REG_COMMAND
                               (if fst addr = LBA_MODE_48 then 0xEA else 0xE7) w;
                        (_, w) \<leftarrow> ide_polling B s channel False w;
                        Some (0, buffer, s, w) } })"

text \<open>The common body of \<open>ide_read_sectors\<close> and \<open>ide_write_sectors\<close>: \<open>err\<close> is only set for an ATA drive.\<close>

definition ide_access_sectors ::
  "'w ide_bus \<Rightarrow> u8 \<Rightarrow> u8 \<Rightarrow> u8 \<Rightarrow> u32 \<Rightarrow> u8 list \<Rightarrow> ide \<times> 'w \<Rightarrow> (int \<times> u8 list \<times> ide \<times> 'w) option" where
  "ide_access_sectors B direction drive num_sectors lba buffer sw =
     (if drive > 5 then Some (-1, buffer, sw)
      else do { d \<leftarrow> rd (g_ide_devices (fst sw)) (unat drive);
                if dev_reserved d = 0 then Some (-1, buffer, sw)
                else if lba + ucast num_sectors > dev_size d \<and> dev_type d = 0 then Some (-2, buffer, sw)
                else if dev_type d \<noteq> 0 then None
                else do { (err, buffer, s, w) \<leftarrow> ide_ata_access B direction (unat drive) lba num_sectors buffer sw;
                          (err, w) \<leftarrow> ide_print_error B s (unat drive) err w;
                          Some (uint err, buffer, s, w) } })"

definition ide_read_sectors ::
  "'w ide_bus \<Rightarrow> u8 \<Rightarrow> u8 \<Rightarrow> u32 \<Rightarrow> u8 list \<Rightarrow> ide \<times> 'w \<Rightarrow> (int \<times> u8 list \<times> ide \<times> 'w) option" where
  "ide_read_sectors B drive num_sectors lba buffer sw = ide_access_sectors B ATA_READ drive num_sectors lba buffer sw"

definition ide_write_sectors ::
  "'w ide_bus \<Rightarrow> u8 \<Rightarrow> u8 \<Rightarrow> u32 \<Rightarrow> u8 list \<Rightarrow> ide \<times> 'w \<Rightarrow> (int \<times> ide \<times> 'w) option" where
  "ide_write_sectors B drive num_sectors lba buffer sw =
     map_option (\<lambda>(r, _, sw). (r, sw)) (ide_access_sectors B ATA_WRITE drive num_sectors lba buffer sw)"

text \<open>\<open>ide_wait_irq\<close> is entered with the flag set, or waits for the interrupt that calls \<open>ide_irq\<close>.\<close>

definition ide_irq :: "ide \<Rightarrow> ide" where
  "ide_irq s = s\<lparr>g_ide_irq_invoked := 1\<rparr>"

definition ide_wait_irq :: "ide \<Rightarrow> ide" where
  "ide_wait_irq s =
     (let s = (if g_ide_irq_invoked s = 0 then ide_irq s else s)
      in s\<lparr>g_ide_irq_invoked := 0\<rparr>)"

section \<open>Identification\<close>

text \<open>The wait for the answer to \<open>IDENTIFY\<close>: whether the drive reported an error.\<close>

partial_function (option) identify_wait :: "'w ide_bus \<Rightarrow> ide \<Rightarrow> u8 \<Rightarrow> 'w \<Rightarrow> (bool \<times> 'w) option" where
  "identify_wait B s i w =
     do { (status, w) \<leftarrow> ide_read_register B s i ATA_REG_STATUS w;
          if status AND 0x01 \<noteq> 0 then Some (True, w)
          else if status AND 0x80 = 0 \<and> status AND 0x08 \<noteq> 0 then Some (False, w)
          else identify_wait B s i w }"

text \<open>The model's name: the bytes of each pair swapped, trailing blanks cut off.\<close>

fun swap_pairs :: "u8 list \<Rightarrow> u8 list" where
  "swap_pairs (a # b # r) = b # a # swap_pairs r"
| "swap_pairs r = r"

definition model_name :: "u8 list \<Rightarrow> u8 list" where
  "model_name buf =
     (let m = swap_pairs (take 40 (drop 54 buf));
          n = length (dropWhile (\<lambda>ch. ch = 32) (rev m))
      in take n m @ replicate (40 - n) 0 @ [0])"

definition identified :: "u16 \<Rightarrow> u8 \<Rightarrow> u8 \<Rightarrow> u8 list \<Rightarrow> ide_device option" where
  "identified type i j buf =
     do { sig \<leftarrow> get_le16 buf 0;
          features \<leftarrow> get_le16 buf 98;
          sets \<leftarrow> get_le32 buf 164;
          sz \<leftarrow> get_le32 buf (if sets AND push_bit 26 1 \<noteq> 0 then 200 else 120);
          Some \<lparr>dev_reserved = 1, dev_channel = i, dev_drive = j, dev_type = type, dev_signature = sig,
                dev_features = features, dev_command_sets = sets, dev_size = sz, dev_model = model_name buf\<rparr> }"

text \<open>One turn of the two loops of \<open>ide_init\<close>; \<open>count\<close> is the next free entry.\<close>

definition ide_probe ::
  "'w ide_bus \<Rightarrow> u8 \<Rightarrow> u8 \<Rightarrow> nat \<times> u8 list \<times> ide \<times> 'w \<Rightarrow> (nat \<times> u8 list \<times> ide \<times> 'w) option" where
  "ide_probe B i j st =
     (let (count, buf, s, w) = st
      in do { d \<leftarrow> rd (g_ide_devices s) count;
              let s = s\<lparr>g_ide_devices := (g_ide_devices s)[count := d\<lparr>dev_reserved := 0\<rparr>]\<rparr>;
              w \<leftarrow> ide_write_register B s i ATA_REG_HDDEVSEL (0xA0 OR push_bit 4 j) w;
              w \<leftarrow> ide_write_register B s i ATA_REG_COMMAND 0xEC w;
              (status, w) \<leftarrow> ide_read_register B s i ATA_REG_STATUS w;
              if status = 0 then Some (count, buf, s, w)
              else do {
                (err, w) \<leftarrow> identify_wait B s i w;
                (type, w) \<leftarrow>
                  (if \<not> err then Some (Some 0, w)
                   else do { (cl, w) \<leftarrow> ide_read_register B s i ATA_REG_LBA1 w;
                             (ch, w) \<leftarrow> ide_read_register B s i ATA_REG_LBA2 w;
                             if cl = 0x14 \<and> ch = 0xEB \<or> cl = 0x69 \<and> ch = 0x96
                             then do { w \<leftarrow> ide_write_register B s i ATA_REG_COMMAND 0xA1 w; Some (Some 1, w) }
                             else Some (None, w) });
                case type of
                  None \<Rightarrow> Some (count, buf, s, w)
                | Some type \<Rightarrow>
                    do { (buf, w) \<leftarrow> ide_read_buffer B s i ATA_REG_DATA buf 128 w;
                         d \<leftarrow> identified type i j buf;
                         Some (count + 1, buf, s\<lparr>g_ide_devices := (g_ide_devices s)[count := d]\<rparr>, w) } } })"

definition ide_init :: "'w ide_bus \<Rightarrow> u32 \<Rightarrow> u32 \<Rightarrow> u32 \<Rightarrow> u32 \<Rightarrow> u32 \<Rightarrow> ide \<times> 'w \<Rightarrow> (ide \<times> 'w) option" where
  "ide_init B prim_base prim_control sec_base sec_control bus_master sw =
     do { let (s, w) = sw;
          c0 \<leftarrow> rd (g_ide_channels s) 0;
          c1 \<leftarrow> rd (g_ide_channels s) 1;
          let s = s\<lparr>g_ide_channels :=
            (g_ide_channels s)[0 := c0\<lparr>ch_base := ucast prim_base, ch_control := ucast prim_control, ch_bm_ide := ucast bus_master\<rparr>,
                               1 := c1\<lparr>ch_base := ucast sec_base, ch_control := ucast sec_control, ch_bm_ide := ucast bus_master\<rparr>]\<rparr>;
          w \<leftarrow> ide_write_register B s 0 ATA_REG_CONTROL 2 w;
          w \<leftarrow> ide_write_register B s 1 ATA_REG_CONTROL 2 w;
          st \<leftarrow> ide_probe B 0 0 (0, replicate 2048 0, s, w);
          st \<leftarrow> ide_probe B 0 1 st;
          st \<leftarrow> ide_probe B 1 0 st;
          (count, buf, s, w) \<leftarrow> ide_probe B 1 1 st;
          Some (s, w) }"

definition ata_init :: "'w ide_bus \<Rightarrow> ide \<times> 'w \<Rightarrow> (ide \<times> 'w) option" where
  "ata_init B sw = ide_init B 0x1F0 0x3F6 0x170 0x376 0x000 sw"

text \<open>The search of \<open>ata_get_drive_by_model\<close> from entry \<open>i\<close> on.\<close>

primrec drive_by_model :: "nat \<Rightarrow> nat \<Rightarrow> u8 list \<Rightarrow> ide \<Rightarrow> int option" where
  "drive_by_model 0 i model s = Some (-1)"
| "drive_by_model (Suc n) i model s =
     do { d \<leftarrow> rd (g_ide_devices s) i;
          r \<leftarrow> strcmp (dev_model d) model;
          if r = 0 then Some (int i) else drive_by_model n (i + 1) model s }"

definition ata_get_drive_by_model :: "u8 list \<Rightarrow> ide \<Rightarrow> int option" where
  "ata_get_drive_by_model model s = drive_by_model 5 0 model s"

end
