(* ===== verification/IdeSpec.thy ===== *)
theory IdeSpec
  imports Ide
begin

text \<open>
  What the disk driver does with a drive that follows the protocol for reading sectors by programmed
  I/O: the contract of the drive as a relation between the state behind the ports and its task file, the
  lemmas that carry the driver through a transfer, and the addressing of sectors.
\<close>

section \<open>A drive\<close>

text \<open>The task file of a drive, and the words that wait to be read from its data port.\<close>

record ata_regs =
  r_count :: u8
  r_lba0 :: u8
  r_lba1 :: u8
  r_lba2 :: u8
  r_dev :: u8
  r_data :: "u16 list"

definition lba28 :: "ata_regs \<Rightarrow> u32" where
  "lba28 d = ucast (r_lba0 d) OR push_bit 8 (ucast (r_lba1 d)) OR push_bit 16 (ucast (r_lba2 d))
     OR push_bit 24 (ucast (r_dev d AND 0x0F))"

fun words_of :: "u8 list \<Rightarrow> u16 list" where
  "words_of (a # b # r) = (ucast a OR push_bit 8 (ucast b)) # words_of r"
| "words_of r = []"

definition bytes_of :: "u16 list \<Rightarrow> u8 list" where
  "bytes_of ws = concat (map (\<lambda>v. [ucast v, ucast (drop_bit 8 v)]) ws)"

text \<open>The sectors from \<open>lba\<close> on.\<close>

definition sectors :: "(u32 \<Rightarrow> u8 list) \<Rightarrow> u32 \<Rightarrow> nat \<Rightarrow> u8 list list" where
  "sectors img lba n = map (\<lambda>k. img (lba + of_nat k)) [0..<n]"

text \<open>
  The contract of a drive with the sectors \<open>img\<close>, its task file at \<open>base\<close>; \<open>ctl\<close> is the port the driver
  takes for the control register.  \<open>R\<close> relates the state to the task file and \<open>busy\<close> bounds how often the
  status register will still show the drive busy.  A drive is not busy while a sector is being read.
\<close>

definition ata_drive ::
  "'w ide_bus \<Rightarrow> u16 \<Rightarrow> u16 \<Rightarrow> (u32 \<Rightarrow> u8 list) \<Rightarrow> ('w \<Rightarrow> ata_regs \<Rightarrow> bool) \<Rightarrow> ('w \<Rightarrow> nat) \<Rightarrow> bool" where
  "ata_drive B base ctl img R busy \<longleftrightarrow>
     (\<forall>lba. length (img lba) = 512) \<and>
     (\<forall>w d v. R w d \<longrightarrow>
        R (bus_out B ctl v w) d \<and> R (snd (bus_in B ctl w)) d \<and>
        R (bus_out B (base + 2) v w) (d\<lparr>r_count := v\<rparr>) \<and> R (bus_out B (base + 3) v w) (d\<lparr>r_lba0 := v\<rparr>) \<and>
        R (bus_out B (base + 4) v w) (d\<lparr>r_lba1 := v\<rparr>) \<and> R (bus_out B (base + 5) v w) (d\<lparr>r_lba2 := v\<rparr>) \<and>
        R (bus_out B (base + 6) v w) (d\<lparr>r_dev := v\<rparr>)) \<and>
     (\<forall>w d. R w d \<longrightarrow> r_count d \<noteq> 0 \<longrightarrow> r_dev d AND 0xE0 = 0xE0 \<longrightarrow>
        R (bus_out B (base + 7) 0x20 w)
          (d\<lparr>r_data := concat (map words_of (sectors img (lba28 d) (unat (r_count d))))\<rparr>)) \<and>
     (\<forall>w d. R w d \<longrightarrow>
        R (snd (bus_in B (base + 7) w)) d \<and>
        (if fst (bus_in B (base + 7) w) AND 0x80 \<noteq> 0 then busy (snd (bus_in B (base + 7) w)) < busy w
         else busy w = 0 \<and> busy (snd (bus_in B (base + 7) w)) = 0 \<and> fst (bus_in B (base + 7) w) AND 0x01 = 0 \<and>
           fst (bus_in B (base + 7) w) AND 0x20 = 0 \<and>
           (r_data d \<noteq> [] \<longrightarrow> fst (bus_in B (base + 7) w) AND 0x08 \<noteq> 0))) \<and>
     (\<forall>w d x xs. R w d \<longrightarrow> busy w = 0 \<longrightarrow> r_data d = x # xs \<longrightarrow>
        fst (bus_inw B base w) = x \<and> R (snd (bus_inw B base w)) (d\<lparr>r_data := xs\<rparr>) \<and>
        (length xs mod 256 \<noteq> 0 \<longrightarrow> busy (snd (bus_inw B base w)) = 0))"

lemma ata_drive_len: "ata_drive B base ctl img R busy \<Longrightarrow> length (img lba) = 512"
  by (simp add: ata_drive_def)

lemma ata_drive_regs:
  assumes "ata_drive B base ctl img R busy" "R w d"
  shows "R (bus_out B ctl v w) d" "R (snd (bus_in B ctl w)) d"
    "R (bus_out B (base + 2) v w) (d\<lparr>r_count := v\<rparr>)" "R (bus_out B (base + 3) v w) (d\<lparr>r_lba0 := v\<rparr>)"
    "R (bus_out B (base + 4) v w) (d\<lparr>r_lba1 := v\<rparr>)" "R (bus_out B (base + 5) v w) (d\<lparr>r_lba2 := v\<rparr>)"
    "R (bus_out B (base + 6) v w) (d\<lparr>r_dev := v\<rparr>)"
  using assms unfolding ata_drive_def by blast+

lemma ata_drive_command:
  assumes "ata_drive B base ctl img R busy" "R w d" "r_count d \<noteq> 0" "r_dev d AND 0xE0 = 0xE0"
  shows "R (bus_out B (base + 7) 0x20 w)
    (d\<lparr>r_data := concat (map words_of (sectors img (lba28 d) (unat (r_count d))))\<rparr>)"
  using assms unfolding ata_drive_def by blast

lemma ata_drive_status:
  assumes "ata_drive B base ctl img R busy" "R w d" "bus_in B (base + 7) w = (v, w')"
  shows "R w' d" "v AND 0x80 \<noteq> 0 \<Longrightarrow> busy w' < busy w" "v AND 0x80 = 0 \<Longrightarrow> busy w = 0 \<and> busy w' = 0"
    "v AND 0x80 = 0 \<Longrightarrow> v AND 0x01 = 0" "v AND 0x80 = 0 \<Longrightarrow> v AND 0x20 = 0"
    "v AND 0x80 = 0 \<Longrightarrow> r_data d \<noteq> [] \<Longrightarrow> v AND 0x08 \<noteq> 0"
proof -
  have "R (snd (bus_in B (base + 7) w)) d \<and>
    (if fst (bus_in B (base + 7) w) AND 0x80 \<noteq> 0 then busy (snd (bus_in B (base + 7) w)) < busy w
     else busy w = 0 \<and> busy (snd (bus_in B (base + 7) w)) = 0 \<and> fst (bus_in B (base + 7) w) AND 0x01 = 0 \<and>
       fst (bus_in B (base + 7) w) AND 0x20 = 0 \<and>
       (r_data d \<noteq> [] \<longrightarrow> fst (bus_in B (base + 7) w) AND 0x08 \<noteq> 0))"
    using assms(1,2) unfolding ata_drive_def by blast
  then show "R w' d" "v AND 0x80 \<noteq> 0 \<Longrightarrow> busy w' < busy w" "v AND 0x80 = 0 \<Longrightarrow> busy w = 0 \<and> busy w' = 0"
    "v AND 0x80 = 0 \<Longrightarrow> v AND 0x01 = 0" "v AND 0x80 = 0 \<Longrightarrow> v AND 0x20 = 0"
    "v AND 0x80 = 0 \<Longrightarrow> r_data d \<noteq> [] \<Longrightarrow> v AND 0x08 \<noteq> 0"
    unfolding assms(3) by simp_all
qed

lemma ata_drive_data:
  assumes "ata_drive B base ctl img R busy" "R w d" "busy w = 0" "r_data d = x # xs"
  shows "fst (bus_inw B base w) = x" "R (snd (bus_inw B base w)) (d\<lparr>r_data := xs\<rparr>)"
    "length xs mod 256 \<noteq> 0 \<Longrightarrow> busy (snd (bus_inw B base w)) = 0"
  using assms unfolding ata_drive_def by blast+

section \<open>The driver's accesses\<close>

lemma runs_bindI: "runs m P \<Longrightarrow> (\<And>x. P x \<Longrightarrow> runs (f x) Q) \<Longrightarrow> runs (Option.bind m f) Q"
  by (auto simp: runs_iff)

text \<open>The channel is the one whose task file is at \<open>base\<close>.\<close>

definition channel_at :: "ide \<Rightarrow> u8 \<Rightarrow> u16 \<Rightarrow> u16 \<Rightarrow> bool" where
  "channel_at s channel base ctl \<longleftrightarrow> unat channel < length (g_ide_channels s) \<and>
     ch_base (g_ide_channels s ! unat channel) = base \<and> ch_control (g_ide_channels s ! unat channel) + 2 = ctl"

lemma write_register_ok:
  assumes "channel_at s channel base ctl" "reg < 8"
  shows "ide_write_register B s channel reg v w = Some (bus_out B (base + ucast reg) v w)"
proof -
  have "\<not> high_order reg" using assms(2) by (simp add: high_order_def not_less word_le_nat_alt word_less_nat_alt)
  then show ?thesis
    using assms by (simp add: ide_write_register_def write_control_def write_plain_def channel_at_def rd_def
        reg_port_def outportb_def)
qed

lemma reg_port_control: "reg_port c ATA_REG_CONTROL = Some (ch_control c + 2)"
  by (simp add: reg_port_def flip: add_diff_eq)

lemma not_high_order_control: "\<not> high_order ATA_REG_CONTROL"
  by (simp add: high_order_def)

lemma write_control_ok:
  assumes "channel_at s channel base ctl"
  shows "ide_write_register B s channel ATA_REG_CONTROL v w = Some (bus_out B ctl v w)"
  using assms by (simp add: ide_write_register_def write_control_def write_plain_def channel_at_def rd_def
      reg_port_control outportb_def not_high_order_control)

lemma read_register_ok:
  assumes "channel_at s channel base ctl" "reg < 8"
  shows "ide_read_register B s channel reg w = Some (bus_in B (base + ucast reg) w)"
proof -
  have "\<not> high_order reg" using assms(2) by (simp add: high_order_def not_less word_le_nat_alt word_less_nat_alt)
  then show ?thesis
    using assms by (simp add: ide_read_register_def write_control_def channel_at_def rd_def
        reg_port_def inportb_def split_def)
qed

lemma read_altstatus_ok:
  assumes "channel_at s channel base ctl"
  shows "ide_read_register B s channel ATA_REG_ALTSTATUS w = Some (bus_in B ctl w)"
  using assms by (simp add: ide_read_register_def write_control_def channel_at_def rd_def
      reg_port_control inportb_def not_high_order_control split_def)

lemma wait_not_busy_ok:
  assumes A: "ata_drive B base ctl img R busy" and c: "channel_at s channel base ctl" and "R w d"
  shows "runs (wait_not_busy B s channel w) (\<lambda>w'. R w' d \<and> busy w' = 0)"
  using assms(3)
proof (induction "busy w" arbitrary: w rule: less_induct)
  case less
  obtain v w' where v: "bus_in B (base + 7) w = (v, w')" by (cases "bus_in B (base + 7) w")
  have rr: "ide_read_register B s channel ATA_REG_STATUS w = Some (v, w')"
    by (simp add: read_register_ok [OF c] v)
  show ?case
  proof (cases "v AND 0x80 = 0")
    case True
    then show ?thesis
      using ata_drive_status [OF A less.prems v] rr by (subst wait_not_busy.simps) simp
  next
    case False
    then have "runs (wait_not_busy B s channel w') (\<lambda>w'. R w' d \<and> busy w' = 0)"
      using ata_drive_status(1,2) [OF A less.prems v] by (intro less.hyps) simp_all
    then show ?thesis using False rr by (subst wait_not_busy.simps) simp
  qed
qed

lemma polling_ok:
  assumes A: "ata_drive B base ctl img R busy" and c: "channel_at s channel base ctl" and R: "R w d"
    and "r_data d \<noteq> []"
  shows "runs (ide_polling B s channel True w) (\<lambda>(err, w'). err = 0 \<and> R w' d \<and> busy w' = 0)"
proof -
  have alt: "runs (ide_read_register B s channel ATA_REG_ALTSTATUS w) (\<lambda>p. R (snd p) d)" if "R w d" for w
    using ata_drive_regs(2) [OF A that] by (simp add: read_altstatus_ok [OF c])
  have last: "runs (ide_read_register B s channel ATA_REG_STATUS w)
      (\<lambda>(v, w'). v AND 0x01 = 0 \<and> v AND 0x20 = 0 \<and> v AND 0x08 \<noteq> 0 \<and> R w' d \<and> busy w' = 0)"
    if "R w d" "busy w = 0" for w
  proof -
    obtain v w' where v: "bus_in B (base + 7) w = (v, w')" by (cases "bus_in B (base + 7) w")
    note st = ata_drive_status [OF A that(1) v]
    have "v AND 0x80 = 0" using st(2) that(2) by auto
    then show ?thesis using st assms(4) by (simp add: read_register_ok [OF c] v)
  qed
  show ?thesis
    unfolding ide_polling_def
    by (simp only: split_def if_True,
        rule runs_bindI [OF alt [OF R]], (rule runs_bindI [OF alt], assumption)+,
        rule runs_bindI [OF wait_not_busy_ok [OF A c]], assumption,
        rule runs_bindI [OF last [unfolded split_def]], simp_all)
qed

lemma insw_ok:
  assumes A: "ata_drive B base ctl img R busy"
  shows "R w d \<Longrightarrow> busy w = 0 \<Longrightarrow> r_data d = ws @ rest \<Longrightarrow> length ws \<le> 256 \<Longrightarrow>
    length rest mod 256 = 0 \<Longrightarrow> off + 2 * length ws \<le> length buf \<Longrightarrow>
    runs (insw B base (length ws) off buf w) (\<lambda>(buf', w').
      buf' = take off buf @ bytes_of ws @ drop (off + 2 * length ws) buf \<and> R w' (d\<lparr>r_data := rest\<rparr>))"
proof (induction ws arbitrary: w d off buf)
  case Nil
  then have "R w (d\<lparr>r_data := rest\<rparr>)" by (cases d) simp
  then show ?case using Nil.prems(6) by (simp add: bytes_of_def)
next
  case (Cons x ws)
  define w' where "w' = snd (bus_inw B base w)"
  define buf' where "buf' = buf[off := ucast x, off + 1 := ucast (drop_bit 8 x)]"
  have len: "off + 1 < length buf" using Cons.prems(6) by simp
  have dat: "r_data d = x # (ws @ rest)" using Cons.prems(3) by simp
  note st = ata_drive_data [OF A Cons.prems(1,2) dat]
  have in_: "bus_inw B base w = (x, w')" using st(1) by (simp add: w'_def prod_eq_iff)
  have put: "put_le16 buf off x = Some buf'" using len by (simp add: put_le16_def wr_def buf'_def)
  have "runs (insw B base (length ws) (off + 2) buf' w') (\<lambda>(b, w').
      b = take (off + 2) buf' @ bytes_of ws @ drop (off + 2 + 2 * length ws) buf' \<and>
      R w' (d\<lparr>r_data := ws @ rest, r_data := rest\<rparr>))" (is "runs _ ?Q")
  proof (cases "ws = []")
    case True
    then show ?thesis using st(2) Cons.prems(3) by (simp add: bytes_of_def w'_def)
  next
    case False
    have "length (ws @ rest) mod 256 = length ws"
      using Cons.prems(4,5) by (simp add: mod_add_eq [of "length ws" 256 "length rest", symmetric])
    then have "busy w' = 0" using st(3) False by (simp add: w'_def)
    then show ?thesis
      using Cons.IH [of w' "d\<lparr>r_data := ws @ rest\<rparr>" "off + 2" buf'] st(2) Cons.prems(4-6)
      by (simp add: w'_def buf'_def)
  qed
  moreover have "take (off + 2) buf' = take off buf @ [ucast x, ucast (drop_bit 8 x)]"
    using len by (auto simp: buf'_def list_eq_iff_nth_eq nth_append nth_list_update less_Suc_eq min_def)
  moreover have "drop (off + 2 + 2 * length ws) buf' = drop (off + 2 * length (x # ws)) buf"
    by (simp add: buf'_def drop_update_cancel add.assoc)
  ultimately show ?case using in_ put by (simp add: bytes_of_def)
qed

text \<open>Sectors are even numbers of bytes.\<close>

lemma bytes_words: "even (length b) \<Longrightarrow> bytes_of (words_of b) = b"
proof (induction b rule: words_of.induct)
  case (1 a b r)
  have "ucast (ucast a OR push_bit 8 (ucast b) :: u16) = a"
    by (rule bit_word_eqI) (auto simp: bit_ucast_iff bit_or_iff bit_push_bit_iff)
  moreover have "ucast (drop_bit 8 (ucast a OR push_bit 8 (ucast b) :: u16)) = b"
    by (rule bit_word_eqI) (auto simp: bit_ucast_iff bit_or_iff bit_push_bit_iff bit_drop_bit_eq
        dest: bit_imp_le_length)
  ultimately show ?case using 1 by (simp add: bytes_of_def)
qed (simp_all add: bytes_of_def)

lemma length_words: "length (words_of b) = length b div 2"
  by (induction b rule: words_of.induct) simp_all

lemma read_loop_ok:
  assumes A: "ata_drive B base ctl img R busy" and c: "channel_at s channel base ctl"
  shows "R w d \<Longrightarrow> r_data d = concat (map words_of secs) \<Longrightarrow> (\<forall>b\<in>set secs. length b = 512) \<Longrightarrow>
    off + 512 * length secs \<le> length buf \<Longrightarrow>
    runs (read_loop B s channel base (length secs) off buf w) (\<lambda>(err, buf', w').
      err = 0 \<and> buf' = take off buf @ concat secs @ drop (off + 512 * length secs) buf \<and> (\<exists>d'. R w' d'))"
proof (induction secs arbitrary: w d off buf)
  case Nil
  then show ?case by auto
next
  case (Cons b secs)
  have len: "length (words_of b) = 256" "bytes_of (words_of b) = b"
    using Cons.prems(3) by (simp_all add: length_words bytes_words)
  have "length (concat (map words_of secs)) mod 256 = 0"
    using Cons.prems(3) by (induction secs) (auto simp: length_words)
  moreover have "r_data d = words_of b @ concat (map words_of secs)" using Cons.prems(2) by simp
  moreover from this have "r_data d \<noteq> []" using len(1) by auto
  moreover have "off + 512 \<le> length buf" using Cons.prems(4) by simp
  ultimately have "runs (insw B base 256 off buf w) (\<lambda>(buf', w').
      buf' = take off buf @ b @ drop (off + 512) buf \<and> R w' (d\<lparr>r_data := concat (map words_of secs)\<rparr>))"
    if "R w d" "busy w = 0" for w
    using insw_ok [OF A that, of "words_of b" "concat (map words_of secs)" off buf] len by simp
  note insw = this
  have rest: "runs (read_loop B s channel base (length secs) (off + 512) (take off buf @ b @ drop (off + 512) buf) w)
      (\<lambda>(err, buf', w'). err = 0 \<and> buf' = take off buf @ concat (b # secs) @ drop (off + 512 * length (b # secs)) buf \<and>
        (\<exists>d'. R w' d'))"
    if "R w (d\<lparr>r_data := concat (map words_of secs)\<rparr>)" for w
  proof -
    have "off + 512 * length secs \<le> length buf - 512" using Cons.prems(4) by simp
    then show ?thesis
      using Cons.IH [OF that, of "off + 512" "take off buf @ b @ drop (off + 512) buf"] Cons.prems(3,4)
      by (simp add: min_def add.assoc add.commute [of "512 * length secs" 512])
  qed
  have "runs (ide_polling B s channel True w) (\<lambda>p. fst p = 0 \<and> R (snd p) d \<and> busy (snd p) = 0)"
    using polling_ok [OF A c Cons.prems(1)] \<open>r_data d \<noteq> []\<close> by (simp add: split_def)
  then show ?case
    apply (simp only: read_loop.simps length_Cons split_def)
    apply (erule runs_bindI)
    apply (simp only: simp_thms if_False)
    apply (rule runs_bindI [OF insw [unfolded split_def]], simp_all)
    apply (rule runs_mono [OF rest])
    apply (simp_all add: split_def)
    done
qed

text \<open>The task file after the registers of a 28-bit command.\<close>

definition task28 :: "u32 \<Rightarrow> u8 \<Rightarrow> u8 \<Rightarrow> ata_regs \<Rightarrow> ata_regs" where
  "task28 lba slavebit n d = d\<lparr>
     r_count := n, r_lba0 := ucast (lba AND 0xFF), r_lba1 := ucast (drop_bit 8 (lba AND 0xFF00)),
     r_lba2 := ucast (drop_bit 16 (lba AND 0xFF0000)),
     r_dev := 0xE0 OR push_bit 4 slavebit OR ucast (drop_bit 24 (lba AND 0xF000000))\<rparr>"

lemma byte_masks:
  "bit (0xFF :: u32) n \<longleftrightarrow> n < 8" "bit (0xFF00 :: u32) n \<longleftrightarrow> 8 \<le> n \<and> n < 16"
  "bit (0xFF0000 :: u32) n \<longleftrightarrow> 16 \<le> n \<and> n < 24" "bit (0xF000000 :: u32) n \<longleftrightarrow> 24 \<le> n \<and> n < 28"
  "bit (0x0F :: u8) n \<longleftrightarrow> n < 4" "bit (0x0F :: u32) n \<longleftrightarrow> n < 4"
proof -
  have e: "(0xFF :: u32) = mask 8" "(0xFF00 :: u32) = push_bit 8 (mask 8)" "(0xFF0000 :: u32) = push_bit 16 (mask 8)"
    "(0xF000000 :: u32) = push_bit 24 (mask 4)" "(0x0F :: u8) = mask 4" "(0x0F :: u32) = mask 4" by code_simp+
  show "bit (0xFF :: u32) n \<longleftrightarrow> n < 8" "bit (0xFF00 :: u32) n \<longleftrightarrow> 8 \<le> n \<and> n < 16"
    "bit (0xFF0000 :: u32) n \<longleftrightarrow> 16 \<le> n \<and> n < 24" "bit (0xF000000 :: u32) n \<longleftrightarrow> 24 \<le> n \<and> n < 28"
    "bit (0x0F :: u8) n \<longleftrightarrow> n < 4" "bit (0x0F :: u32) n \<longleftrightarrow> n < 4"
    unfolding e bit_push_bit_iff bit_mask_iff possible_bit_word by auto
qed

lemma small_lba_bits: "lba < 0x10000000 \<Longrightarrow> bit (lba :: u32) n \<Longrightarrow> n < 28"
proof -
  assume "lba < 0x10000000" "bit lba n"
  moreover have "lba AND mask 28 = lba" using \<open>lba < 0x10000000\<close> by (intro less_mask_eq) simp
  ultimately show "n < 28" by (metis bit_and_iff bit_mask_iff)
qed

lemma lba28_task:
  assumes "lba < 0x10000000" "slavebit < 2"
  shows "lba28 (task28 lba slavebit n d) = lba" "r_dev (task28 lba slavebit n d) AND 0xE0 = 0xE0"
proof -
  have "slavebit = 0 \<or> slavebit = 1" using assms(2) by (simp add: word_less_nat_alt unat_eq_iff) linarith
  then have sl: "push_bit 4 slavebit \<in> {0, 0x10}" by auto
  have dev: "(0xE0 OR push_bit 4 slavebit OR h) AND 0x0F = (h :: u8)" "(0xE0 OR push_bit 4 slavebit OR h) AND 0xE0 = 0xE0"
    if "h AND 0x0F = h" for h
  proof -
    have "h AND 0xE0 = (h AND 0x0F) AND 0xE0" using that by simp
    also have "\<dots> = 0" by (simp only: and.assoc) simp
    finally show "(0xE0 OR push_bit 4 slavebit OR h) AND 0x0F = h" "(0xE0 OR push_bit 4 slavebit OR h) AND 0xE0 = 0xE0"
      using sl that by (auto simp: bit.conj_disj_distrib2)
  qed
  let ?h = "ucast (drop_bit 24 (lba AND 0xF000000)) :: u8"
  have h: "?h AND 0x0F = ?h"
    by (rule bit_word_eqI) (auto simp: bit_ucast_iff bit_and_iff bit_drop_bit_eq byte_masks)
  have parts: "ucast (ucast (lba AND 0xFF) :: u8) = lba AND 0xFF"
    "push_bit 8 (ucast (ucast (drop_bit 8 (lba AND 0xFF00)) :: u8)) = lba AND 0xFF00"
    "push_bit 16 (ucast (ucast (drop_bit 16 (lba AND 0xFF0000)) :: u8)) = lba AND 0xFF0000"
    "push_bit 24 (ucast ?h) = lba AND 0xF000000"
    by (rule bit_word_eqI,
        simp only: bit_ucast_iff bit_push_bit_iff bit_and_iff bit_drop_bit_eq o_def byte_masks, auto)+
  have "(lba AND 0xFF) OR (lba AND 0xFF00) OR (lba AND 0xFF0000) OR (lba AND 0xF000000) = lba"
  proof (rule bit_word_eqI)
    fix n
    have "bit lba n \<Longrightarrow> n < 8 \<or> 8 \<le> n \<and> n < 16 \<or> 16 \<le> n \<and> n < 24 \<or> 24 \<le> n \<and> n < 28"
      using small_lba_bits [OF assms(1)] by fastforce
    then show "bit ((lba AND 0xFF) OR (lba AND 0xFF00) OR (lba AND 0xFF0000) OR (lba AND 0xF000000)) n \<longleftrightarrow> bit lba n"
      unfolding bit_or_iff bit_and_iff byte_masks by blast
  qed
  then show "lba28 (task28 lba slavebit n d) = lba"
    using dev(1) [OF h] parts by (simp add: lba28_def task28_def or.assoc)
  show "r_dev (task28 lba slavebit n d) AND 0xE0 = 0xE0"
    using dev(2) [OF h] by (simp add: task28_def)
qed

section \<open>Reading sectors\<close>

text \<open>
  Entry \<open>drive\<close> of the table is an ATA drive with 28-bit addresses whose task file is at \<open>base\<close>.
\<close>

definition drive_at :: "ide \<Rightarrow> u8 \<Rightarrow> u16 \<Rightarrow> u16 \<Rightarrow> bool" where
  "drive_at s drive base ctl \<longleftrightarrow> length (g_ide_devices s) = 5 \<and> unat drive < 5 \<and>
     (let d = g_ide_devices s ! unat drive
      in dev_reserved d \<noteq> 0 \<and> dev_type d = 0 \<and> dev_features d AND 0x200 \<noteq> 0 \<and> dev_drive d < 2 \<and>
         dev_size d \<le> 0x10000000 \<and> channel_at s (dev_channel d) base ctl)"

text \<open>The driver after an access: only its flags for interrupts have changed.\<close>

definition accessed :: "ide \<Rightarrow> u8 \<Rightarrow> ide" where
  "accessed s drive =
     (let ch = unat (dev_channel (g_ide_devices s ! unat drive))
      in s\<lparr>g_ide_channels := (g_ide_channels s)[ch := (g_ide_channels s ! ch)\<lparr>ch_no_intr := 2\<rparr>], g_ide_irq_invoked := 0\<rparr>)"

lemma accessed_drive_at: "drive_at s drive base ctl \<Longrightarrow> drive_at (accessed s drive) drive base ctl"
  by (auto simp: drive_at_def accessed_def channel_at_def Let_def nth_list_update)

lemma setup28_ok:
  assumes A: "ata_drive B base ctl img R busy" and c: "channel_at s channel base ctl" and R: "R w d"
    and "lba < 0x10000000" "slavebit < 2" "n \<noteq> 0" and that: "features AND 0x200 \<noteq> 0"
  shows "runs (ata_setup B s channel slavebit (ata_address lba features) n 0x20 w)
      (\<lambda>w'. \<exists>d'. R w' d' \<and> r_data d' = concat (map words_of (sectors img lba (unat n))))"
proof -
  have addr: "ata_address lba features = (LBA_MODE_28, [ucast (lba AND 0xFF), ucast (drop_bit 8 (lba AND 0xFF00)),
      ucast (drop_bit 16 (lba AND 0xFF0000)), 0, 0, 0], ucast (drop_bit 24 (lba AND 0xF000000)))"
    using assms(4) that by (simp add: ata_address_def not_le)
  define dv where "dv = 0xE0 OR push_bit 4 slavebit OR (ucast (drop_bit 24 (lba AND 0xF000000)) :: u8)"
  define w1 where "w1 = bus_out B (base + 6) dv w"
  define w2 where "w2 = bus_out B (base + 2) n w1"
  define w3 where "w3 = bus_out B (base + 3) (ucast (lba AND 0xFF)) w2"
  define w4 where "w4 = bus_out B (base + 4) (ucast (drop_bit 8 (lba AND 0xFF00))) w3"
  define w5 where "w5 = bus_out B (base + 5) (ucast (drop_bit 16 (lba AND 0xFF0000))) w4"
  have "ata_setup B s channel slavebit (ata_address lba features) n 0x20 w = Some (bus_out B (base + 7) 0x20 w5)"
    unfolding addr ata_setup_def w5_def w4_def w3_def w2_def w1_def dv_def
    by (simp add: write_register_ok [OF c])
  moreover have "R w5 (task28 lba slavebit n d)"
  proof -
    have "R w1 (d\<lparr>r_dev := dv\<rparr>)" unfolding w1_def by (rule ata_drive_regs [OF A R])
    then have "R w2 (d\<lparr>r_dev := dv, r_count := n\<rparr>)" unfolding w2_def by (rule ata_drive_regs [OF A])
    then have "R w3 (d\<lparr>r_dev := dv, r_count := n, r_lba0 := ucast (lba AND 0xFF)\<rparr>)"
      unfolding w3_def by (rule ata_drive_regs [OF A])
    then have "R w4 (d\<lparr>r_dev := dv, r_count := n, r_lba0 := ucast (lba AND 0xFF), r_lba1 := ucast (drop_bit 8 (lba AND 0xFF00))\<rparr>)"
      unfolding w4_def by (rule ata_drive_regs [OF A])
    then have "R w5 (d\<lparr>r_dev := dv, r_count := n, r_lba0 := ucast (lba AND 0xFF), r_lba1 := ucast (drop_bit 8 (lba AND 0xFF00)),
        r_lba2 := ucast (drop_bit 16 (lba AND 0xFF0000))\<rparr>)"
      unfolding w5_def by (rule ata_drive_regs [OF A])
    then show ?thesis by (cases d) (simp add: task28_def dv_def)
  qed
  moreover have "r_count (task28 lba slavebit n d) = n" by (simp add: task28_def)
  ultimately show ?thesis
    using ata_drive_command [OF A, of w5 "task28 lba slavebit n d"] lba28_task [OF assms(4,5), of n d] assms(6)
    by auto
qed

lemma ata_access_read_ok:
  assumes A: "ata_drive B base ctl img R busy" and dr: "drive_at s drive base ctl" and R: "R w d"
    and "lba < 0x10000000" "n \<noteq> 0" "512 * unat n \<le> length buf"
  shows "runs (ide_ata_access B ATA_READ (unat drive) lba n buf (s, w)) (\<lambda>(err, buf', s', w').
      err = 0 \<and> buf' = concat (sectors img lba (unat n)) @ drop (512 * unat n) buf \<and> s' = accessed s drive \<and> (\<exists>d'. R w' d'))"
proof -
  let ?d = "g_ide_devices s ! unat drive"
  let ?ch = "dev_channel ?d"
  let ?s = "accessed s drive"
  have props: "unat drive < length (g_ide_devices s)" "dev_features ?d AND 0x200 \<noteq> 0" "dev_drive ?d < 2"
    "unat ?ch < length (g_ide_channels s)" "ch_base (g_ide_channels s ! unat ?ch) = base"
    using dr by (auto simp: drive_at_def channel_at_def Let_def)
  have c: "channel_at ?s ?ch base ctl"
    using accessed_drive_at [OF dr] by (simp add: drive_at_def Let_def accessed_def)
  have secs: "length (sectors img lba (unat n)) = unat n" "\<forall>b\<in>set (sectors img lba (unat n)). length b = 512"
    using ata_drive_len [OF A] by (auto simp: sectors_def)
  have mode: "fst (ata_address lba (dev_features ?d)) = LBA_MODE_28"
    using assms(4) props(2) by (simp add: ata_address_def not_le)
  have R1: "R (bus_out B ctl 2 w) d" by (rule ata_drive_regs(1) [OF A R])
  have loop: "runs (read_loop B ?s ?ch base (unat n) 0 buf w) (\<lambda>(err, buf', w').
      err = 0 \<and> buf' = concat (sectors img lba (unat n)) @ drop (512 * unat n) buf \<and> (\<exists>d'. R w' d'))"
    if "\<exists>d'. R w d' \<and> r_data d' = concat (map words_of (sectors img lba (unat n)))" for w
    using that read_loop_ok [OF A c _ _ secs(2), of w _ 0 buf] secs(1) assms(6) by auto
  have eq: "ide_ata_access B ATA_READ (unat drive) lba n buf (s, w) =
    do { w \<leftarrow> ide_write_register B ?s ?ch ATA_REG_CONTROL 2 w;
         w \<leftarrow> wait_not_busy B ?s ?ch w;
         w \<leftarrow> ata_setup B ?s ?ch (dev_drive ?d) (ata_address lba (dev_features ?d)) n 0x20 w;
         (err, buffer, w) \<leftarrow> read_loop B ?s ?ch base (unat n) 0 buf w;
         Some (err, buffer, ?s, w) }"
    using props(1,4,5) mode
    by (simp add: ide_ata_access_def accessed_def rd_def Let_def ata_command_def)
  show ?thesis
    unfolding eq write_control_ok [OF c] Option.bind.bind_lunit
    by (rule runs_bindI [OF wait_not_busy_ok [OF A c R1]],
        rule runs_bindI [OF setup28_ok [OF A c _ assms(4) props(3) assms(5) props(2)]], blast,
        rule runs_bindI [OF loop], assumption, auto)
qed

lemma read_sectors_ok:
  assumes A: "ata_drive B base ctl img R busy" and dr: "drive_at s drive base ctl" and R: "R w d"
    and n: "n \<noteq> 0" "unat lba + unat n \<le> unat (dev_size (g_ide_devices s ! unat drive))" "512 * unat n \<le> length buf"
  shows "runs (ide_read_sectors B drive n lba buf (s, w)) (\<lambda>(r, buf', s', w').
      r = 0 \<and> buf' = concat (sectors img lba (unat n)) @ drop (512 * unat n) buf \<and> s' = accessed s drive \<and> (\<exists>d'. R w' d'))"
proof -
  let ?d = "g_ide_devices s ! unat drive"
  have props: "unat drive < length (g_ide_devices s)" "\<not> drive > 5" "dev_reserved ?d \<noteq> 0" "dev_type ?d = 0"
    "unat (dev_size ?d) \<le> 0x10000000"
    using dr by (auto simp: drive_at_def Let_def word_less_nat_alt word_le_nat_alt)
  have "unat n < 256" using u8_bound by simp
  then have sum: "unat (lba + ucast n) = unat lba + unat n"
    using n(2) props(5) by (subst unat_add_le) (simp_all add: unsigned_ucast_eq take_bit_nat_eq_self)
  have "unat n \<noteq> 0" using n(1) by (simp add: unat_eq_zero)
  then have "lba < 0x10000000" using n(2) props(5) by (simp add: word_less_nat_alt)
  moreover have "\<not> lba + ucast n > dev_size ?d" using sum n(2) by (simp add: word_less_nat_alt)
  ultimately have "ide_read_sectors B drive n lba buf (s, w) =
    do { (err, buffer, s, w) \<leftarrow> ide_ata_access B ATA_READ (unat drive) lba n buf (s, w);
         (err, w) \<leftarrow> ide_print_error B s (unat drive) err w;
         Some (uint err, buffer, s, w) }"
    using props by (simp add: ide_read_sectors_def ide_access_sectors_def rd_def)
  then show ?thesis
    by (simp only:) (rule runs_bindI [OF ata_access_read_ok [OF A dr R \<open>lba < 0x10000000\<close> n(1,3)]],
      auto simp: ide_print_error_def)
qed

text \<open>Probing the drives leaves the channels alone.\<close>

lemma ide_probe_channels:
  "ide_probe B i j (count, buf, s, w) = Some (count', buf', s', w') \<Longrightarrow> g_ide_channels s' = g_ide_channels s"
  by (auto simp: ide_probe_def Let_def split: bind_splits if_splits option.splits)

lemma ata_init_channels:
  assumes "ata_init B (s, w) = Some (s', w')" "length (g_ide_channels s) = 2"
  shows "length (g_ide_channels s') = 2" "ch_base (g_ide_channels s' ! 0) = 0x1F0" "ch_control (g_ide_channels s' ! 0) = 0x3F6"
    "ch_base (g_ide_channels s' ! 1) = 0x170" "ch_control (g_ide_channels s' ! 1) = 0x376"
  using assms
  by (auto simp: ata_init_def ide_init_def Let_def split: bind_splits prod.splits dest!: ide_probe_channels)

section \<open>Addresses\<close>

lemma unat_byte: "unat (ucast (drop_bit k x) :: u8) = unat (x :: u32) div 2 ^ k mod 256"
proof -
  have "unat (drop_bit k x) = drop_bit k (unat x)"
    using u32_bound [of x] by (simp only: unsigned_drop_bit_eq) (simp add: take_bit_nat_eq_self)
  then show ?thesis by (simp only: unsigned_ucast_eq) (simp add: take_bit_eq_mod drop_bit_eq_div)
qed

lemma unat_bytes28:
  fixes lba :: u32
  assumes "lba < 0x10000000"
  shows "unat (ucast (lba AND 0xFF) :: u8) = unat lba mod 256"
    "unat (ucast (drop_bit 8 (lba AND 0xFF00)) :: u8) = unat lba div 256 mod 256"
    "unat (ucast (drop_bit 16 (lba AND 0xFF0000)) :: u8) = unat lba div 65536 mod 256"
    "unat (ucast (drop_bit 24 (lba AND 0xF000000)) :: u8) = unat lba div 16777216"
proof -
  have "(ucast (lba AND 0xFF) :: u8) = ucast (drop_bit 0 lba)"
    "(ucast (drop_bit 8 (lba AND 0xFF00)) :: u8) = ucast (drop_bit 8 lba)"
    "(ucast (drop_bit 16 (lba AND 0xFF0000)) :: u8) = ucast (drop_bit 16 lba)"
    by (rule bit_word_eqI, simp only: bit_ucast_iff bit_and_iff bit_drop_bit_eq o_def byte_masks, auto)+
  then show "unat (ucast (lba AND 0xFF) :: u8) = unat lba mod 256"
    "unat (ucast (drop_bit 8 (lba AND 0xFF00)) :: u8) = unat lba div 256 mod 256"
    "unat (ucast (drop_bit 16 (lba AND 0xFF0000)) :: u8) = unat lba div 65536 mod 256"
    by (simp_all only: unat_byte) simp_all
  have "(ucast (drop_bit 24 (lba AND 0xF000000)) :: u8) = ucast (drop_bit 24 lba)"
    by (rule bit_word_eqI, simp only: bit_ucast_iff bit_and_iff bit_drop_bit_eq o_def byte_masks,
        auto dest: small_lba_bits [OF assms])
  moreover have "unat lba < 268435456" using assms by (simp add: word_less_nat_alt)
  ultimately show "unat (ucast (drop_bit 24 (lba AND 0xF000000)) :: u8) = unat lba div 16777216"
    by (simp only: unat_byte) simp
qed

lemma u16_bytes:
  "unat (ucast (cyl AND 0xFF) :: u8) = unat (cyl :: u16) mod 256"
  "unat (ucast (drop_bit 8 cyl AND 0xFF) :: u8) = unat cyl div 256"
proof -
  have m: "(0xFF :: u16) = mask 8" by code_simp
  show "unat (ucast (cyl AND 0xFF) :: u8) = unat cyl mod 256"
    by (simp only: m take_bit_eq_mask [symmetric] unsigned_ucast_eq unsigned_take_bit_eq) (simp add: take_bit_eq_mod)
  have "unat (drop_bit 8 cyl) = drop_bit 8 (unat cyl)"
    using u16_bound [of cyl] by (simp only: unsigned_drop_bit_eq) (simp add: take_bit_nat_eq_self)
  then have "unat (drop_bit 8 cyl) = unat cyl div 256" by (simp add: drop_bit_eq_div)
  moreover have "unat cyl div 256 < 256" using u16_bound [of cyl] by simp
  ultimately show "unat (ucast (drop_bit 8 cyl AND 0xFF) :: u8) = unat cyl div 256"
    by (simp only: m take_bit_eq_mask [symmetric] unsigned_ucast_eq unsigned_take_bit_eq) (simp add: take_bit_eq_mod)
qed

lemma base256: "x mod 256 + 256 * (x div 256 mod 256) + 65536 * (x div 65536 mod 256) + 16777216 * (x div 16777216) = (x :: nat)"
proof -
  have step: "a + 256 * b + 65536 * c + 16777216 * t = x" if "x = a + 256 * y" "y = b + 256 * z" "z = c + 256 * t"
    for a b c t x y z :: nat
    using that by simp
  have d: "x div 65536 = x div 256 div 256" "x div 16777216 = x div 256 div 256 div 256"
    by (simp_all add: div_mult2_eq [symmetric])
  show ?thesis unfolding d by (rule step) (rule mod_mult_div_eq [symmetric])+
qed

lemma chs_parts:
  assumes "unat (lba :: u32) < 65536 * 1008"
  defines "sect \<equiv> ucast (lba mod 63 + 1) :: u8"
  shows "unat sect = unat lba mod 63 + 1"
    "unat (ucast ((lba + 1 - ucast sect) div (16 * 63)) :: u16) = unat lba div 63 div 16"
    "unat (ucast ((lba + 1 - ucast sect) mod (16 * 63) div 63) :: u8) = unat lba div 63 mod 16"
proof -
  have m: "unat (lba mod 63 + 1) = unat lba mod 63 + 1" by (subst unat_add_le) simp_all
  then show u: "unat sect = unat lba mod 63 + 1"
    by (simp add: sect_def unsigned_ucast_eq take_bit_nat_eq_self)
  have "unat (ucast sect :: u32) = unat lba mod 63 + 1"
    using u by (simp add: unsigned_ucast_eq take_bit_nat_eq_self)
  moreover have "unat (lba + 1) = unat lba + 1" using assms(1) by (subst unat_add_le) simp_all
  moreover have "unat lba mod 63 \<le> unat lba" by simp
  ultimately have "unat (lba + 1 - ucast sect) = unat lba - unat lba mod 63"
    by (subst unat_sub) (simp_all add: word_le_nat_alt)
  also have "\<dots> = 63 * (unat lba div 63)" by (simp add: minus_mod_eq_mult_div)
  finally have e: "unat (lba + 1 - ucast sect) = 63 * (unat lba div 63)" .
  have "unat lba div 63 div 16 < 65536" using assms(1) by (simp add: div_mult2_eq [symmetric] less_mult_imp_div_less)
  then show "unat (ucast ((lba + 1 - ucast sect) div (16 * 63)) :: u16) = unat lba div 63 div 16"
    by (simp add: unsigned_ucast_eq e take_bit_nat_eq_self div_mult2_eq [of _ 63 16, simplified])
  have "63 * (unat lba div 63) mod 1008 = 63 * (unat lba div 63 mod 16)"
    using mult_mod_right [of 63 "unat lba div 63" 16] by simp
  then show "unat (ucast ((lba + 1 - ucast sect) mod (16 * 63) div 63) :: u8) = unat lba div 63 mod 16"
    by (simp add: unsigned_ucast_eq e take_bit_nat_eq_self)
qed

section \<open>Properties\<close>

text \<open>A drive at the primary channel whose sectors all hold their number, for the witnesses.\<close>

definition demo_sector :: "u32 \<Rightarrow> u8 list" where
  "demo_sector lba = replicate 512 (ucast lba)"

definition image_disk :: "(u32 \<Rightarrow> u8 list) \<Rightarrow> ata_regs ide_bus" where
  "image_disk img = \<lparr>
     bus_in = \<lambda>p d. (if p = 0x1F7 then (if r_data d = [] then 0x40 else 0x48) else 0, d),
     bus_out = \<lambda>p v d.
       (if p = 0x1F2 then d\<lparr>r_count := v\<rparr> else if p = 0x1F3 then d\<lparr>r_lba0 := v\<rparr>
        else if p = 0x1F4 then d\<lparr>r_lba1 := v\<rparr> else if p = 0x1F5 then d\<lparr>r_lba2 := v\<rparr>
        else if p = 0x1F6 then d\<lparr>r_dev := v\<rparr>
        else if p = 0x1F7
        then d\<lparr>r_data := concat (map words_of (sectors img (lba28 d) (unat (r_count d))))\<rparr>
        else d),
     bus_inw = \<lambda>p d. case r_data d of [] \<Rightarrow> (0, d) | x # xs \<Rightarrow> (x, d\<lparr>r_data := xs\<rparr>),
     bus_outw = \<lambda>p v d. d, bus_inl = \<lambda>p d. (0, d), bus_outl = \<lambda>p v d. d\<rparr>"

lemma image_disk_ata: "\<forall>lba. length (img lba) = 512 \<Longrightarrow> ata_drive (image_disk img) 0x1F0 0x3F8 img (=) (\<lambda>_. 0)"
  by (simp add: ata_drive_def image_disk_def)

definition demo_disk :: "ata_regs ide_bus" where
  "demo_disk = image_disk demo_sector"

lemma demo_disk_ata: "ata_drive demo_disk 0x1F0 0x3F8 demo_sector (=) (\<lambda>_. 0)"
  by (simp add: demo_disk_def image_disk_ata demo_sector_def)

definition demo_ide :: ide where
  "demo_ide = \<lparr>
     g_ide_channels = [\<lparr>ch_base = 0x1F0, ch_control = 0x3F6, ch_bm_ide = 0, ch_no_intr = 0\<rparr>,
                       \<lparr>ch_base = 0x170, ch_control = 0x376, ch_bm_ide = 0, ch_no_intr = 0\<rparr>],
     g_ide_devices = replicate 5 \<lparr>dev_reserved = 1, dev_channel = 0, dev_drive = 0, dev_type = 0, dev_signature = 0,
       dev_features = 0x200, dev_command_sets = 0, dev_size = 1000, dev_model = replicate 41 0\<rparr>,
     g_ide_irq_invoked = 0\<rparr>"

lemma demo_ide_drive: "drive_at demo_ide 0 0x1F0 0x3F8"
  by (simp add: drive_at_def demo_ide_def channel_at_def Let_def)

text \<open>C3. With a drive that follows the ATA protocol, \<open>ide_read_sectors\<close> ends, whatever time the drive takes, with
  result 0 and the contents of exactly the sectors asked for at the start of the buffer, the rest of
  which is untouched, for every range of sectors inside a disk with 28-bit addresses.\<close>

theorem ide_read_sectors_reads:
  assumes "ata_drive B base ctl img R busy" "drive_at s drive base ctl" "R w d"
    and "n \<noteq> 0" "unat lba + unat n \<le> unat (dev_size (g_ide_devices s ! unat drive))" "512 * unat n \<le> length buf"
  shows "\<exists>w' d'. ide_read_sectors B drive n lba buf (s, w) =
      Some (0, concat (map (\<lambda>k. img (lba + of_nat k)) [0..<unat n]) @ drop (512 * unat n) buf, accessed s drive, w') \<and> R w' d'"
  using read_sectors_ok [OF assms] by (auto simp: runs_iff sectors_def)

theorem ide_read_sectors_reads_witness:
  "\<exists>w'. ide_read_sectors demo_disk 0 2 7 (replicate 1025 1) (demo_ide, \<lparr>r_count = 0, r_lba0 = 0, r_lba1 = 0, r_lba2 = 0, r_dev = 0, r_data = []\<rparr>)
    = Some (0, replicate 512 7 @ replicate 512 8 @ [1], accessed demo_ide 0, w')"
proof -
  have "unat (2 :: u8) = 2" "[0..<2] = [0, 1 :: nat]" by (simp_all add: upt_rec)
  moreover have "demo_sector 7 = replicate 512 7" "demo_sector 8 = replicate 512 8" by (simp_all add: demo_sector_def)
  moreover have "unat (7 :: u32) + unat (2 :: u8) \<le> unat (dev_size (g_ide_devices demo_ide ! unat (0 :: u8)))"
    by (simp add: demo_ide_def)
  ultimately show ?thesis
    using ide_read_sectors_reads [OF demo_disk_ata demo_ide_drive refl, of 2 7 "replicate 1025 1"
      "\<lparr>r_count = 0, r_lba0 = 0, r_lba1 = 0, r_lba2 = 0, r_dev = 0, r_data = []\<rparr>"]
    by auto
qed

text \<open>What \<open>ide_read_sectors\<close> and \<open>ide_write_sectors\<close> refuse: a drive number from 6 on or an empty entry gives
  -1, sectors beyond the end of an ATA disk -2, both without touching a port.  The number 5 passes the
  check and reads behind the table, and a sum of sector and count that wraps around passes the bound.\<close>

theorem ide_sectors_refused:
  assumes "length (g_ide_devices s) = 5"
  shows "(5 < drive \<longrightarrow> ide_read_sectors B drive n lba buf (s, w) = Some (-1, buf, s, w)) \<and>
    (drive < 5 \<and> dev_reserved (g_ide_devices s ! unat drive) = 0 \<longrightarrow>
      ide_read_sectors B drive n lba buf (s, w) = Some (-1, buf, s, w)) \<and>
    (drive < 5 \<and> dev_reserved (g_ide_devices s ! unat drive) \<noteq> 0 \<and> dev_type (g_ide_devices s ! unat drive) = 0 \<and>
      unat (dev_size (g_ide_devices s ! unat drive)) < unat lba + unat n \<and> unat lba + unat n < 2 ^ 32 \<longrightarrow>
      ide_read_sectors B drive n lba buf (s, w) = Some (-2, buf, s, w) \<and>
      ide_write_sectors B drive n lba buf (s, w) = Some (-2, s, w)) \<and>
    ide_read_sectors B 5 n lba buf (s, w) = None \<and>
    (drive < 5 \<and> dev_reserved (g_ide_devices s ! unat drive) \<noteq> 0 \<and> dev_type (g_ide_devices s ! unat drive) = 0 \<longrightarrow>
      ide_read_sectors B drive 1 (-1) buf (s, w) = (do {
        (err, buffer, s, w) \<leftarrow> ide_ata_access B ATA_READ (unat drive) (-1) 1 buf (s, w);
        (err, w) \<leftarrow> ide_print_error B s (unat drive) err w;
        Some (uint err, buffer, s, w) }))"
proof -
  have lt: "drive < 5 \<Longrightarrow> \<not> 5 < drive \<and> unat drive < length (g_ide_devices s)"
    using assms by (simp add: word_less_nat_alt)
  have sum: "unat lba + unat n < 2 ^ 32 \<Longrightarrow> unat (lba + ucast n) = unat lba + unat n"
    by (subst unat_add_le) (simp_all add: unsigned_ucast_eq take_bit_nat_eq_self)
  have wrap: "(-1 :: u32) + ucast (1 :: u8) = 0" by simp
  show ?thesis
    using lt sum assms wrap
    by (auto simp: ide_read_sectors_def ide_write_sectors_def ide_access_sectors_def rd_def word_less_nat_alt)
qed

definition idle_drive :: ata_regs where
  "idle_drive = \<lparr>r_count = 0, r_lba0 = 0, r_lba1 = 0, r_lba2 = 0, r_dev = 0, r_data = []\<rparr>"

theorem ide_sectors_refused_witness:
  "ide_read_sectors demo_disk 9 1 0 [] (demo_ide, idle_drive) = Some (-1, [], demo_ide, idle_drive) \<and>
   ide_read_sectors demo_disk 0 1 1000 [] (demo_ide, idle_drive) = Some (-2, [], demo_ide, idle_drive) \<and>
   ide_read_sectors demo_disk 5 1 0 [] (demo_ide, idle_drive) = None"
proof -
  have "length (g_ide_devices demo_ide) = 5" by (simp add: demo_ide_def)
  then show ?thesis
    using ide_sectors_refused [of demo_ide 9 demo_disk 1 0 "[]" idle_drive]
      ide_sectors_refused [of demo_ide 0 demo_disk 1 1000 "[]" idle_drive]
    by (simp add: demo_ide_def)
qed

text \<open>Both addressings name the sector: the 28-bit registers hold the sector number, and cylinder, head and sector
  of the old addressing give it back for every sector the sixteen bits of the cylinder can reach.\<close>

theorem ata_address_roundtrip:
  "(lba < 0x10000000 \<and> features AND 0x200 \<noteq> 0 \<longrightarrow>
     (\<exists>b0 b1 b2 h. ata_address lba features = (LBA_MODE_28, [b0, b1, b2, 0, 0, 0], h) \<and> unat h < 16 \<and>
       unat lba = unat b0 + 256 * unat b1 + 65536 * unat b2 + 16777216 * unat h)) \<and>
   (unat lba < 65536 * 1008 \<and> features AND 0x200 = 0 \<longrightarrow>
     (\<exists>sect c0 c1 h. ata_address lba features = (LBA_MODE_CHS, [sect, c0, c1, 0, 0, 0], h) \<and>
       1 \<le> unat sect \<and> unat sect \<le> 63 \<and> unat h < 16 \<and>
       unat lba = ((unat c0 + 256 * unat c1) * 16 + unat h) * 63 + (unat sect - 1)))"
proof (intro conjI impI)
  assume a: "lba < 0x10000000 \<and> features AND 0x200 \<noteq> 0"
  then have l: "lba < 0x10000000" and "unat lba < 268435456" by (simp_all add: word_less_nat_alt)
  define b0 :: u8 where "b0 = ucast (lba AND 0xFF)"
  define b1 :: u8 where "b1 = ucast (drop_bit 8 (lba AND 0xFF00))"
  define b2 :: u8 where "b2 = ucast (drop_bit 16 (lba AND 0xFF0000))"
  define h :: u8 where "h = ucast (drop_bit 24 (lba AND 0xF000000))"
  have u: "unat b0 = unat lba mod 256" "unat b1 = unat lba div 256 mod 256" "unat b2 = unat lba div 65536 mod 256"
    "unat h = unat lba div 16777216"
    unfolding b0_def b1_def b2_def h_def by (rule unat_bytes28 [OF l])+
  have "ata_address lba features = (LBA_MODE_28, [b0, b1, b2, 0, 0, 0], h)"
    using a unfolding b0_def b1_def b2_def h_def by (simp add: ata_address_def not_le)
  moreover have "unat h < 16" using \<open>unat lba < 268435456\<close> by (simp add: u(4))
  moreover have "unat lba = unat b0 + 256 * unat b1 + 65536 * unat b2 + 16777216 * unat h"
    unfolding u by (rule base256 [symmetric])
  ultimately show "\<exists>b0 b1 b2 h. ata_address lba features = (LBA_MODE_28, [b0, b1, b2, 0, 0, 0], h) \<and> unat h < 16 \<and>
       unat lba = unat b0 + 256 * unat b1 + 65536 * unat b2 + 16777216 * unat h" by blast
next
  assume a: "unat lba < 65536 * 1008 \<and> features AND 0x200 = 0"
  define q where "q = unat lba div 63"
  define sect :: u8 where "sect = ucast (lba mod 63 + 1)"
  define cyl :: u16 where "cyl = ucast ((lba + 1 - ucast sect) div (16 * 63))"
  define h :: u8 where "h = ucast ((lba + 1 - ucast sect) mod (16 * 63) div 63)"
  have ch: "unat sect = unat lba mod 63 + 1" "unat cyl = q div 16" "unat h = q mod 16"
    using chs_parts [of lba] a by (simp_all add: sect_def cyl_def h_def q_def)
  have c: "unat (ucast (cyl AND 0xFF) :: u8) = unat cyl mod 256"
    "unat (ucast (drop_bit 8 cyl AND 0xFF) :: u8) = unat cyl div 256"
    using u16_bytes [of cyl] by simp_all
  have "ata_address lba features = (LBA_MODE_CHS, [sect, ucast (cyl AND 0xFF), ucast (drop_bit 8 cyl AND 0xFF), 0, 0, 0], h)"
    using a by (simp add: ata_address_def word_le_nat_alt sect_def cyl_def h_def Let_def)
  moreover have "unat lba = ((unat cyl mod 256 + 256 * (unat cyl div 256)) * 16 + unat h) * 63 + (unat sect - 1)"
    by (simp add: ch q_def)
  moreover have "1 \<le> unat sect" "unat sect \<le> 63" "unat h < 16" by (simp_all add: ch Suc_le_eq)
  ultimately show "\<exists>sect c0 c1 h. ata_address lba features = (LBA_MODE_CHS, [sect, c0, c1, 0, 0, 0], h) \<and>
       1 \<le> unat sect \<and> unat sect \<le> 63 \<and> unat h < 16 \<and>
       unat lba = ((unat c0 + 256 * unat c1) * 16 + unat h) * 63 + (unat sect - 1)"
    unfolding c [symmetric] by blast
qed

theorem ata_address_roundtrip_witness:
  "\<exists>b0 b1 b2 h. ata_address 305419 0x200 = (1, [b0, b1, b2, 0, 0, 0], h) \<and>
     305419 = unat b0 + 256 * unat b1 + 65536 * unat b2 + 16777216 * unat h"
proof -
  have "unat (305419 :: u32) = 305419" "(0x200 :: u16) AND 0x200 \<noteq> 0" by simp_all
  then show ?thesis using ata_address_roundtrip [of 305419 "0x200"] by fastforce
qed

text \<open>After \<open>ata_init\<close> the driver takes other ports than those of the drives for the control registers: it passes
  their addresses themselves as the base from which the register is two ports away, so that disabling
  the interrupts of the primary channel sends a byte through the serial port \<open>0x3F8\<close>.\<close>

theorem ata_init_control_port:
  assumes "ata_init B (s, w) = Some (s', w')" "length (g_ide_channels s) = 2"
  shows "ide_write_register B s' 0 ATA_REG_CONTROL v u = Some (outportb B 0x3F8 v u) \<and>
    ide_write_register B s' 1 ATA_REG_CONTROL v u = Some (outportb B 0x378 v u)"
  using ata_init_channels [OF assms] write_control_ok [of s' 0 "0x1F0" "0x3F8" B v u]
    write_control_ok [of s' 1 "0x170" "0x378" B v u]
  by (simp add: channel_at_def outportb_def)

text \<open>Ports without drives.\<close>

definition no_disk :: "(u16 \<times> u8) list ide_bus" where
  "no_disk = \<lparr>bus_in = \<lambda>p w. (0, w), bus_out = \<lambda>p v w. (p, v) # w, bus_inw = \<lambda>p w. (0, w), bus_outw = \<lambda>p v w. w,
     bus_inl = \<lambda>p w. (0, w), bus_outl = \<lambda>p v w. w\<rparr>"

lemma no_disk_probe:
  assumes "length (g_ide_channels s) = 2" "length (g_ide_devices s) = 5" "i < 2"
  shows "\<exists>s' w'. ide_probe no_disk i j (0, buf, s, w) = Some (0, buf, s', w') \<and>
    length (g_ide_channels s') = 2 \<and> length (g_ide_devices s') = 5"
proof -
  have "g_ide_devices s \<noteq> []" using assms(2) by auto
  let ?s = "s\<lparr>g_ide_devices := (g_ide_devices s)[0 := (g_ide_devices s ! 0)\<lparr>dev_reserved := 0\<rparr>]\<rparr>"
  have c: "channel_at ?s i (ch_base (g_ide_channels s ! unat i)) (ch_control (g_ide_channels s ! unat i) + 2)"
    using assms by (simp add: channel_at_def word_less_nat_alt)
  show ?thesis
    using assms \<open>g_ide_devices s \<noteq> []\<close>
    by (simp add: ide_probe_def rd_def write_register_ok [OF c] read_register_ok [OF c] no_disk_def)
qed

lemma no_disk_init: "\<exists>s w. ata_init no_disk (demo_ide, []) = Some (s, w)"
proof -
  let ?c0 = "\<lparr>ch_base = 0x1F0, ch_control = 0x3F6, ch_bm_ide = 0, ch_no_intr = 0\<rparr>"
  let ?c1 = "\<lparr>ch_base = 0x170, ch_control = 0x376, ch_bm_ide = 0, ch_no_intr = 0\<rparr>"
  have ch: "g_ide_channels demo_ide = [?c0, ?c1]" "demo_ide\<lparr>g_ide_channels := [?c0, ?c1]\<rparr> = demo_ide"
    by (simp_all add: demo_ide_def)
  have c: "channel_at demo_ide 0 0x1F0 0x3F8" "channel_at demo_ide 1 0x170 0x378" by (simp_all add: channel_at_def ch)
  have probe: "runs (ide_probe no_disk i j st) (\<lambda>(k, buf, s, w). k = 0 \<and> length (g_ide_channels s) = 2 \<and> length (g_ide_devices s) = 5)"
    if "(\<lambda>(k, buf, s, w). k = 0 \<and> length (g_ide_channels s) = 2 \<and> length (g_ide_devices s) = 5) st" "i < 2" for i j st
    using that no_disk_probe [of "fst (snd (snd st))" i j "fst (snd st)" "snd (snd (snd st))"] by (cases st) auto
  have "runs (do { st \<leftarrow> ide_probe no_disk 0 0 (0, buf, demo_ide, w);
                   st \<leftarrow> ide_probe no_disk 0 1 st;
                   st \<leftarrow> ide_probe no_disk 1 0 st;
                   (count, buf, s, w) \<leftarrow> ide_probe no_disk 1 1 st;
                   Some (s, w) }) (\<lambda>_. True)" for buf w
    by (rule runs_bindI [OF probe], simp add: demo_ide_def, simp, rule runs_bindI [OF probe], assumption, simp,
        rule runs_bindI [OF probe], assumption, simp, rule runs_bindI [OF probe], assumption, simp, auto)
  moreover have "ata_init no_disk (demo_ide, []) =
    do { st \<leftarrow> ide_probe no_disk 0 0 (0, replicate 2048 0, demo_ide, bus_out no_disk 0x378 2 (bus_out no_disk 0x3F8 2 []));
         st \<leftarrow> ide_probe no_disk 0 1 st;
         st \<leftarrow> ide_probe no_disk 1 0 st;
         (count, buf, s, w) \<leftarrow> ide_probe no_disk 1 1 st;
         Some (s, w) }"
    by (simp add: ata_init_def ide_init_def rd_def ch write_control_ok [OF c(1)] write_control_ok [OF c(2)])
  ultimately show ?thesis by (auto simp: runs_iff)
qed

theorem ata_init_control_port_witness:
  "\<exists>s w. ata_init no_disk (demo_ide, []) = Some (s, w) \<and>
     ide_write_register no_disk s 0 ATA_REG_CONTROL 2 [] = Some [(0x3F8, 2)]"
proof -
  obtain s w where i: "ata_init no_disk (demo_ide, []) = Some (s, w)" using no_disk_init by blast
  moreover have "length (g_ide_channels demo_ide) = 2" by (simp add: demo_ide_def)
  ultimately show ?thesis
    using ata_init_control_port [OF i, of 2 "[]"] by (simp add: no_disk_def outportb_def)
qed

end
