(* ===== verification/Fat.thy ===== *)
theory Fat
  imports IdeSpec Vmm
begin

text \<open>
  The FAT32 reader, \<open>src/drivers/fat.c\<close>, over the disk driver and the virtual memory manager: mounting, the
  cluster chains, reading files, directories with short and long names, and the search for a path.
  Directory entries and sectors are byte lists with the offsets of the packed structures of
  \<open>include/fat.h\<close>; the FAT itself lies in the memory behind the pointer \<open>vol_fat\<close>.  Pointers that the
  callers never pass as \<open>NULL\<close> have no such case; the log lines are left out.
\<close>

section \<open>State\<close>

record 'w fat_state =
  mem :: machine
  disk :: "ide \<times> 'w"
  g_fat32_drive :: u8
  lfn_buffer :: "u8 list"
  lfn_length :: u8

record fat32_header =
  bytes_per_sector :: u16
  sectors_per_cluster :: u8
  reserved_sectors :: u16
  fat_count :: u8
  fat_size_16 :: u16
  fat_size_32 :: u32
  root_cluster :: u32

record fat32_volume =
  vol_header :: fat32_header
  fat_size_in_sectors :: u32
  data_start_sector :: u32
  partition_start :: u32
  vol_fat :: u32
  cluster_size :: u32

record fat32_file =
  f_attrib :: u32
  f_cluster :: u32
  f_size :: u32
  f_offset :: u32

record fat32_dir_list =
  dl_cluster :: u32
  dl_entry :: u32
  sector_buffer :: "u8 list"
  buffered_sector :: u32

abbreviation (input) SECTOR_SIZE :: u32 where "SECTOR_SIZE \<equiv> 512"
abbreviation (input) FAT32_IS_DIR :: u32 where "FAT32_IS_DIR \<equiv> 0x10"

definition zero_volume :: fat32_volume where
  "zero_volume = \<lparr>vol_header = \<lparr>bytes_per_sector = 0, sectors_per_cluster = 0, reserved_sectors = 0, fat_count = 0,
       fat_size_16 = 0, fat_size_32 = 0, root_cluster = 0\<rparr>,
     fat_size_in_sectors = 0, data_start_sector = 0, partition_start = 0, vol_fat = 0, cluster_size = 0\<rparr>"

text \<open>The fields of the boot sector that the code uses.\<close>

definition parse_header :: "u8 list \<Rightarrow> fat32_header option" where
  "parse_header s =
     do { bps \<leftarrow> get_le16 s 11; spc \<leftarrow> rd s 13; res \<leftarrow> get_le16 s 14; cnt \<leftarrow> rd s 16;
          f16 \<leftarrow> get_le16 s 22; f32 \<leftarrow> get_le32 s 36; root \<leftarrow> get_le32 s 44;
          Some \<lparr>bytes_per_sector = bps, sectors_per_cluster = spc, reserved_sectors = res, fat_count = cnt,
                fat_size_16 = f16, fat_size_32 = f32, root_cluster = root\<rparr> }"

section \<open>Sectors and clusters\<close>

text \<open>The comparison of names; a byte is folded through \<open>toupper\<close> and cut to an \<open>unsigned char\<close>.\<close>

definition fold_case :: "u8 \<Rightarrow> u8" where
  "fold_case c = word_of_int (toupper (sint c))"

fun fat32_strcasecmp :: "u8 list \<Rightarrow> u8 list \<Rightarrow> int option" where
  "fat32_strcasecmp (a # s1) (b # s2) =
     (if fold_case a \<noteq> fold_case b then Some (uint (fold_case a) - uint (fold_case b))
      else if fold_case a = 0 then Some 0 else fat32_strcasecmp s1 s2)"
| "fat32_strcasecmp s1 s2 = None"

text \<open>Either way the first turn of the loop of \<open>disk_read_sector\<close> returns.\<close>

definition disk_read_sector ::
  "'w ide_bus \<Rightarrow> u8 list \<Rightarrow> u32 \<Rightarrow> 'w fat_state \<Rightarrow> (bool \<times> u8 list \<times> 'w fat_state) option" where
  "disk_read_sector B buffer sector st =
     do { (r, buffer, d) \<leftarrow> ide_read_sectors B (g_fat32_drive st) 1 sector buffer (disk st);
          Some (r = 0, buffer, st\<lparr>disk := d\<rparr>) }"

definition cluster_to_sector :: "fat32_volume \<Rightarrow> u32 \<Rightarrow> u32" where
  "cluster_to_sector vol cluster =
     data_start_sector vol + (cluster - 2) * ucast (sectors_per_cluster (vol_header vol))"

text \<open>\<open>volume->fat[cluster] & 0xFFFFFF\<close>\<close>

definition next_cluster :: "fat32_volume \<Rightarrow> u32 \<Rightarrow> 'w fat_state \<Rightarrow> u32 option" where
  "next_cluster vol cluster st = map_option (\<lambda>v. v AND 0xFFFFFF) (load32 (vol_fat vol + 4 * cluster) (mem st))"

section \<open>Reading a file\<close>

text \<open>\<open>n\<close> turns of the first loop: the offset that is left and the cluster, \<open>None\<close> when the chain has ended.\<close>

primrec skip_clusters :: "fat32_volume \<Rightarrow> nat \<Rightarrow> u32 \<Rightarrow> u32 \<Rightarrow> 'w fat_state \<Rightarrow> (u32 \<times> u32) option option" where
  "skip_clusters vol 0 offset cluster st = Some (Some (offset, cluster))"
| "skip_clusters vol (Suc n) offset cluster st =
     do { c \<leftarrow> next_cluster vol cluster st;
          if c = 0xFFFFFF then Some None else skip_clusters vol n (offset - cluster_size vol) c st }"

text \<open>What the loops carry: the offset in the next sector, the buffer, the position in it, the bytes left.\<close>

record 'w reading =
  rd_offset :: u32
  rd_buffer :: "u8 list"
  rd_pos :: nat
  rd_left :: u32
  rd_state :: "'w fat_state"

text \<open>One sector, sector \<open>i\<close> of the cluster.\<close>

definition read_sector ::
  "'w ide_bus \<Rightarrow> fat32_volume \<Rightarrow> u32 \<Rightarrow> nat \<Rightarrow> 'w reading \<Rightarrow> ('w reading, bool) ctl option" where
  "read_sector B vol cluster i r =
     do { let offset = rd_offset r mod SECTOR_SIZE;
          (ok, sec, st) \<leftarrow> disk_read_sector B (replicate 512 0) (cluster_to_sector vol cluster + of_nat i) (rd_state r);
          if \<not> ok then Some (Return False (r\<lparr>rd_state := st\<rparr>))
          else do {
            let n = (if rd_left r + offset > SECTOR_SIZE then SECTOR_SIZE - offset else rd_left r);
            tail \<leftarrow> memcpy (drop (rd_pos r) (rd_buffer r)) (drop (unat offset) sec) (unat n);
            let r = \<lparr>rd_offset = 0, rd_buffer = take (rd_pos r) (rd_buffer r) @ tail,
                     rd_pos = rd_pos r + unat n, rd_left = rd_left r - n, rd_state = st\<rparr>;
            Some (if rd_left r = 0 then Return True r else Next r) } }"

text \<open>\<open>n\<close> turns of the loop over the sectors of a cluster, from sector \<open>i\<close> on.\<close>

primrec read_cluster ::
  "'w ide_bus \<Rightarrow> fat32_volume \<Rightarrow> u32 \<Rightarrow> nat \<Rightarrow> nat \<Rightarrow> 'w reading \<Rightarrow> ('w reading, bool) ctl option" where
  "read_cluster B vol cluster 0 i r = Some (Next r)"
| "read_cluster B vol cluster (Suc n) i r =
     do { c \<leftarrow> read_sector B vol cluster i r;
          case c of Next r \<Rightarrow> read_cluster B vol cluster n (i + 1) r | _ \<Rightarrow> Some c }"

partial_function (option) read_chain ::
  "'w ide_bus \<Rightarrow> fat32_volume \<Rightarrow> u32 \<Rightarrow> 'w reading \<Rightarrow> (bool \<times> 'w reading) option" where
  "read_chain B vol cluster r =
     do { let i = unat (rd_offset r div SECTOR_SIZE);
          c \<leftarrow> read_cluster B vol cluster (unat (sectors_per_cluster (vol_header vol)) - i) i r;
          case c of
            Next r \<Rightarrow> do { cl \<leftarrow> next_cluster vol cluster (rd_state r);
                            if cl = 0xFFFFFF then Some (False, r) else read_chain B vol cl r }
          | Break r \<Rightarrow> Some (False, r)
          | Return ok r \<Rightarrow> Some (ok, r) }"

definition fat32_read_file ::
  "'w ide_bus \<Rightarrow> fat32_volume \<Rightarrow> fat32_file \<Rightarrow> u32 \<Rightarrow> u8 list \<Rightarrow> u32 \<Rightarrow> 'w fat_state \<Rightarrow>
    (bool \<times> u8 list \<times> 'w fat_state) option" where
  "fat32_read_file B vol file offset buffer sz st =
     (if offset + sz > f_size file \<and> f_attrib file AND FAT32_IS_DIR = 0 then Some (False, buffer, st)
      else if cluster_size vol = 0 then None
      else do {
        s \<leftarrow> skip_clusters vol (unat (offset div cluster_size vol)) offset (f_cluster file) st;
        case s of
          None \<Rightarrow> Some (False, buffer, st)
        | Some (offset, cluster) \<Rightarrow>
            do { (ok, r) \<leftarrow> read_chain B vol cluster
                   \<lparr>rd_offset = offset, rd_buffer = buffer, rd_pos = 0, rd_left = sz, rd_state = st\<rparr>;
                 Some (ok, rd_buffer r, rd_state r) } })"

section \<open>Names\<close>

text \<open>The loop that cuts off blanks; its value is \<open>i + 1\<close>.\<close>

fun trim_blanks :: "u8 list \<Rightarrow> nat \<Rightarrow> (u8 list \<times> nat) option" where
  "trim_blanks out 0 = Some (out, 0)"
| "trim_blanks out (Suc i) =
     do { c \<leftarrow> rd out i;
          if c \<noteq> 32 then Some (out, Suc i) else do { out \<leftarrow> wr out i 0; trim_blanks out i } }"

definition parse_short_filename :: "u8 list \<Rightarrow> u8 list \<Rightarrow> u8 list option" where
  "parse_short_filename output entry =
     do { output \<leftarrow> strncpy output entry 8;
          (output, i1) \<leftarrow> trim_blanks output 8;
          cmp \<leftarrow> strncmp (drop 8 entry) [32, 32, 32, 0] 3;
          if cmp = 0 then wr output i1 0
          else do {
            output \<leftarrow> wr output i1 46;
            output \<leftarrow> wr output (i1 + 1) 0;
            output \<leftarrow> strncat output (drop 8 entry) 3;
            lowercase \<leftarrow> rd entry 12;
            if lowercase \<noteq> 0
            then if length output < 13 then None
                 else Some (map (\<lambda>c. word_of_int (tolower (sint c))) (take 13 output) @ drop 13 output)
            else Some output } }"

text \<open>The thirteen characters of an entry of a long name, and the loop that stores them.\<close>

definition lfn_chars :: "u8 list \<Rightarrow> u16 list" where
  "lfn_chars entry = words_of (take 10 (drop 1 entry) @ take 12 (drop 14 entry) @ take 4 (drop 28 entry))"

fun lfn_store :: "u16 list \<Rightarrow> nat \<Rightarrow> u8 list \<Rightarrow> u8 list option" where
  "lfn_store [] k buf = Some buf"
| "lfn_store (c # cs) k buf =
     (if c = 0xFFFF then Some buf else do { buf \<leftarrow> wr buf k (ucast (c AND 0xFF)); lfn_store cs (k + 1) buf })"

definition parse_lfn_entry :: "u8 list \<Rightarrow> u8 list \<Rightarrow> u8 list option" where
  "parse_lfn_entry entry buf =
     do { s \<leftarrow> rd entry 0;
          let seq = s AND 0x1F;
          if seq = 0 then None else lfn_store (lfn_chars entry) ((unat seq - 1) * 13) buf }"

text \<open>The loop that puts the parts of a long name together, from part \<open>i\<close> on.\<close>

primrec lfn_parts :: "nat \<Rightarrow> nat \<Rightarrow> nat \<Rightarrow> u8 list \<Rightarrow> u8 list \<Rightarrow> u8 list option" where
  "lfn_parts 0 i parts lfn temp = Some temp"
| "lfn_parts (Suc n) i parts lfn temp =
     do { part \<leftarrow> (if i * 13 \<le> length temp \<and> (parts - i - 1) * 13 \<le> length lfn
                    then strncpy (drop (i * 13) temp) (drop ((parts - i - 1) * 13) lfn) 13 else None);
          lfn_parts n (i + 1) parts lfn (take (i * 13) temp @ part) }"

definition long_name :: "nat \<Rightarrow> u8 list \<Rightarrow> u8 list \<Rightarrow> u8 list option" where
  "long_name parts lfn out_name =
     do { temp \<leftarrow> lfn_parts parts 0 parts lfn (replicate 256 0);
          temp \<leftarrow> wr temp (parts * 13) 0;
          strcpy out_name temp }"

section \<open>Directories\<close>

definition fat32_list_dir :: "fat32_file \<Rightarrow> fat32_dir_list \<Rightarrow> fat32_dir_list" where
  "fat32_list_dir dir dl =
     (if f_attrib dir AND FAT32_IS_DIR = 0 then dl
      else dl\<lparr>dl_cluster := f_cluster dir, dl_entry := 0, buffered_sector := 0\<rparr>)"

text \<open>The 32 bytes of the next entry, \<open>None\<close> for \<open>NULL\<close>.\<close>

definition read_next_entry ::
  "'w ide_bus \<Rightarrow> fat32_volume \<Rightarrow> fat32_dir_list \<times> 'w fat_state \<Rightarrow>
    (u8 list option \<times> fat32_dir_list \<times> 'w fat_state) option" where
  "read_next_entry B vol ds =
     (let (dl, st) = ds;
          entries_per_cluster = cluster_size vol div 32;
          entries_per_sector = SECTOR_SIZE div 32
      in do {
        (ended, dl) \<leftarrow>
          (if dl_entry dl \<ge> entries_per_cluster
           then do { c \<leftarrow> next_cluster vol (dl_cluster dl) st;
                     Some (c = 0xFFFFFF, if c = 0xFFFFFF then dl\<lparr>dl_cluster := c\<rparr> else dl\<lparr>dl_cluster := c, dl_entry := 0\<rparr>) }
           else Some (False, dl));
        if ended then Some (None, dl, st)
        else do {
          let right_sector = cluster_to_sector vol (dl_cluster dl) + dl_entry dl div entries_per_sector;
          (ok, dl, st) \<leftarrow>
            (if buffered_sector dl \<noteq> right_sector
             then do { (ok, buf, st) \<leftarrow> disk_read_sector B (sector_buffer dl) right_sector st;
                       Some (ok, if ok then dl\<lparr>sector_buffer := buf, buffered_sector := right_sector\<rparr>
                                 else dl\<lparr>sector_buffer := buf\<rparr>, st) }
             else Some (True, dl, st));
          if \<not> ok then Some (None, dl, st)
          else do {
            let k = unat (dl_entry dl mod entries_per_sector) * 32;
            let entry = take 32 (drop k (sector_buffer dl));
            let dl = dl\<lparr>dl_entry := dl_entry dl + 1\<rparr>;
            c \<leftarrow> rd entry 0;
            Some (if c = 0 then None else Some entry, dl, st) } } })"

text \<open>What \<open>fat32_next_dir_entry\<close> makes of an entry that is no part of a long name.\<close>

definition file_of_entry :: "u8 list \<Rightarrow> fat32_file \<Rightarrow> fat32_file option" where
  "file_of_entry entry f =
     do { attrib \<leftarrow> rd entry 11; hi \<leftarrow> get_le16 entry 20; lo \<leftarrow> get_le16 entry 26; sz \<leftarrow> get_le32 entry 28;
          Some (f\<lparr>f_attrib := ucast attrib, f_cluster := push_bit 16 (ucast hi) OR ucast lo, f_size := sz\<rparr>) }"

partial_function (option) fat32_next_dir_entry ::
  "'w ide_bus \<Rightarrow> fat32_volume \<Rightarrow> fat32_file \<Rightarrow> u8 list \<Rightarrow> fat32_dir_list \<times> 'w fat_state \<Rightarrow>
    (bool \<times> fat32_file \<times> u8 list \<times> fat32_dir_list \<times> 'w fat_state) option" where
  "fat32_next_dir_entry B vol out_file out_name ds =
     do { (e, dl, st) \<leftarrow> read_next_entry B vol ds;
          case e of
            None \<Rightarrow> Some (False, out_file, out_name, dl, st\<lparr>lfn_length := 0\<rparr>)
          | Some entry \<Rightarrow>
              do { attrib \<leftarrow> rd entry 11;
                   seq \<leftarrow> map_option (\<lambda>s. s AND 0x1F) (rd entry 0);
                   if attrib = 0x0F
                   then if seq = 0 then fat32_next_dir_entry B vol out_file out_name (dl, st)
                        else do { let st = (if seq > lfn_length st then st\<lparr>lfn_length := seq\<rparr> else st);
                                  buf \<leftarrow> parse_lfn_entry entry (lfn_buffer st);
                                  fat32_next_dir_entry B vol out_file out_name (dl, st\<lparr>lfn_buffer := buf\<rparr>) }
                   else do { (name, st) \<leftarrow>
                               (if lfn_length st > 0
                                then do { n \<leftarrow> long_name (unat (lfn_length st)) (lfn_buffer st) out_name;
                                          Some (n, st\<lparr>lfn_length := 0\<rparr>) }
                                else do { n \<leftarrow> parse_short_filename out_name entry; Some (n, st) });
                             f \<leftarrow> file_of_entry entry out_file;
                             Some (True, f, name, dl, st) } } }"

section \<open>Paths\<close>

text \<open>The search of a directory for a name.\<close>

partial_function (option) find_entry ::
  "'w ide_bus \<Rightarrow> fat32_volume \<Rightarrow> u8 list \<Rightarrow> fat32_file \<Rightarrow> u8 list \<Rightarrow> fat32_dir_list \<times> 'w fat_state \<Rightarrow>
    (fat32_file option \<times> 'w fat_state) option" where
  "find_entry B vol upper_name entry name ds =
     do { (ok, entry, name, dl, st) \<leftarrow> fat32_next_dir_entry B vol entry name ds;
          if \<not> ok then Some (None, st)
          else do { r \<leftarrow> fat32_strcasecmp name upper_name;
                    if r = 0 then Some (Some entry, st) else find_entry B vol upper_name entry name (dl, st) } }"

text \<open>The length of the component at the start of a path.\<close>

fun path_end :: "u8 list \<Rightarrow> nat option" where
  "path_end [] = None"
| "path_end (c # p) = (if c \<noteq> 0 \<and> c \<noteq> 47 then map_option Suc (path_end p) else Some 0)"

fun upcase :: "u8 list \<Rightarrow> u8 list option" where
  "upcase [] = None"
| "upcase (c # s) = (if c \<noteq> 0 then map_option (Cons (fold_case c)) (upcase s) else Some [0])"

text \<open>
  The loop over the components.  \<open>scratch\<close> is what the local variable \<open>list\<close> holds before it is set: its
  sector buffer is read as it is when the sector wanted is number 0.
\<close>

partial_function (option) find_path ::
  "'w ide_bus \<Rightarrow> fat32_volume \<Rightarrow> fat32_dir_list \<Rightarrow> u8 list \<Rightarrow> nat \<Rightarrow> nat \<Rightarrow> fat32_file \<Rightarrow> 'w fat_state \<Rightarrow>
    (fat32_file option \<times> 'w fat_state) option" where
  "find_path B vol scratch path path_len start current st =
     (if start < path_len
      then do {
        n \<leftarrow> path_end (drop start path);
        if n = 0 then Some (Some current, st)
        else do {
          component \<leftarrow> strncpy (replicate 256 0) (drop start path) n;
          component \<leftarrow> wr component n 0;
          upper_name \<leftarrow> upcase component;
          (found, st) \<leftarrow> find_entry B vol upper_name \<lparr>f_attrib = 0, f_cluster = 0, f_size = 0, f_offset = 0\<rparr> (replicate 256 0)
                           (fat32_list_dir current scratch, st);
          case found of
            None \<Rightarrow> Some (None, st)
          | Some current \<Rightarrow>
              do { c \<leftarrow> rd path (start + n);
                   if f_attrib current AND FAT32_IS_DIR = 0 \<and> c = 47 then Some (None, st)
                   else find_path B vol scratch path path_len (start + n + 1) current st } } }
      else Some (Some current, st))"

definition fat32_find_file ::
  "'w ide_bus \<Rightarrow> fat32_volume \<Rightarrow> fat32_dir_list \<Rightarrow> u8 list \<Rightarrow> 'w fat_state \<Rightarrow> (fat32_file option \<times> 'w fat_state) option" where
  "fat32_find_file B vol scratch path st =
     do { path_len \<leftarrow> strlen path;
          if path_len = 0 then Some (None, st)
          else do {
            c \<leftarrow> rd path 0;
            find_path B vol scratch path path_len (if c = 47 then 1 else 0)
              \<lparr>f_attrib = FAT32_IS_DIR, f_cluster = root_cluster (vol_header vol), f_size = 0, f_offset = 0\<rparr> st } }"

section \<open>Mounting\<close>

primrec load_bytes :: "u32 \<Rightarrow> nat \<Rightarrow> machine \<Rightarrow> u8 list option" where
  "load_bytes a 0 m = Some []"
| "load_bytes a (Suc n) m = do { v \<leftarrow> load8 a m; vs \<leftarrow> load_bytes (a + 1) n m; Some (v # vs) }"

fun store_bytes :: "u32 \<Rightarrow> u8 list \<Rightarrow> machine \<Rightarrow> machine option" where
  "store_bytes a [] m = Some m"
| "store_bytes a (v # vs) m = do { m \<leftarrow> store8 a v m; store_bytes (a + 1) vs m }"

text \<open>The search for the first ATA drive, from entry \<open>i\<close> on.\<close>

primrec find_drive :: "nat \<Rightarrow> nat \<Rightarrow> ide \<Rightarrow> nat option" where
  "find_drive 0 i s = Some i"
| "find_drive (Suc n) i s =
     do { d \<leftarrow> rd (g_ide_devices s) i;
          if dev_reserved d \<noteq> 0 \<and> dev_type d = 0 then Some i else find_drive n (i + 1) s }"

text \<open>A sector read into memory.\<close>

definition read_boot_sector ::
  "'w ide_bus \<Rightarrow> u32 \<Rightarrow> 'w fat_state \<Rightarrow> (bool \<times> 'w fat_state) option" where
  "read_boot_sector B addr st =
     do { buf \<leftarrow> load_bytes addr 512 (mem st);
          (ok, buf, st) \<leftarrow> disk_read_sector B buf 0 st;
          m \<leftarrow> store_bytes addr buf (mem st);
          Some (ok, st\<lparr>mem := m\<rparr>) }"

text \<open>The buffer for the boot sector: DMA memory, or any page.\<close>

definition boot_buffer :: "'w fat_state \<Rightarrow> (u32 \<times> 'w fat_state) option" where
  "boot_buffer st =
     do { (buf, m) \<leftarrow> dma_alloc SECTOR_SIZE (mem st);
          (buf, m) \<leftarrow> (if buf = 0 then vmm_alloc_page m else Some (buf, m));
          Some (buf, st\<lparr>mem := m\<rparr>) }"

text \<open>After the first reading of the boot sector: the header, the second reading, the FAT.\<close>

definition fat32_mount ::
  "'w ide_bus \<Rightarrow> u32 \<Rightarrow> 'w fat_state \<Rightarrow> (fat32_volume \<times> 'w fat_state) option" where
  "fat32_mount B buf st =
     do { sec \<leftarrow> load_bytes buf 512 (mem st);
          s1 \<leftarrow> rd sec 510; s2 \<leftarrow> rd sec 511;
          if s1 \<noteq> 0x55 \<or> s2 \<noteq> 0xAA then Some (zero_volume, st)
          else do {
            cmp \<leftarrow> strncmp (drop 82 sec) [70, 65, 84, 51, 50, 32, 32, 32, 0] 8;
            if cmp \<noteq> 0 then Some (zero_volume, st)
            else do {
              h \<leftarrow> parse_header sec;
              let vol = zero_volume\<lparr>vol_header := h\<rparr>;
              if bytes_per_sector h \<noteq> 512 then Some (vol, st)
              else do {
                let size = (if fat_size_16 h = 0 then fat_size_32 h else ucast (fat_size_16 h));
                let vol = vol\<lparr>fat_size_in_sectors := size,
                              data_start_sector := ucast (reserved_sectors h) + ucast (fat_count h) * size\<rparr>;
                (ok, st) \<leftarrow> read_boot_sector B buf st;
                if \<not> ok then do { m \<leftarrow> dma_free buf SECTOR_SIZE (mem st); Some (vol, st\<lparr>mem := m\<rparr>) }
                else if size = 0 then Some (vol, st)
                else do {
                  (fat, m) \<leftarrow> dma_alloc (size * SECTOR_SIZE) (mem st);
                  if fat = 0 then do { m \<leftarrow> dma_free buf SECTOR_SIZE m; Some (vol, st\<lparr>mem := m\<rparr>) }
                  else Some (vol\<lparr>vol_fat := fat, cluster_size := ucast (sectors_per_cluster h) * SECTOR_SIZE\<rparr>,
                             st\<lparr>mem := m\<rparr>) } } } } }"

definition fat32_init_volume :: "'w ide_bus \<Rightarrow> 'w fat_state \<Rightarrow> (fat32_volume \<times> 'w fat_state) option" where
  "fat32_init_volume B st =
     do { (buf, st) \<leftarrow> boot_buffer st;
          if buf = 0 then Some (zero_volume, st)
          else do {
            i \<leftarrow> find_drive 5 0 (fst (disk st));
            let st = st\<lparr>g_fat32_drive := of_nat i\<rparr>;
            if i \<ge> 5 then Some (zero_volume, st)
            else do {
              (ok, st) \<leftarrow> read_boot_sector B buf st;
              if \<not> ok then Some (zero_volume, st) else fat32_mount B buf st } } }"

definition fat32_unmount_volume :: "fat32_volume \<Rightarrow> 'w fat_state \<Rightarrow> (fat32_volume \<times> 'w fat_state) option" where
  "fat32_unmount_volume vol st =
     (if vol_fat vol \<noteq> 0
      then if fat_size_in_sectors vol = 0 then Some (vol, st)
           else do { m \<leftarrow> dma_free (vol_fat vol) (fat_size_in_sectors vol * SECTOR_SIZE) (mem st);
                     Some (zero_volume, st\<lparr>mem := m\<rparr>) }
      else Some (zero_volume, st))"

end
