(* ===== verification/FatSpec.thy ===== *)
theory FatSpec
  imports Fat
begin

text \<open>
  What the FAT32 reader does on a disk that can be read: the sectors, the bytes of a cluster and of a chain of
  clusters, and a whole read of a file; what it refuses and how it steps along a chain.
\<close>

section \<open>A readable disk\<close>

text \<open>
  Whatever the state of the disk in \<open>dinv\<close>, reading one of its \<open>n\<close> sectors succeeds and gives the contents
  \<open>img\<close>.  This is what the driver guarantees with an ATA drive.
\<close>

definition serves :: "'w ide_bus \<Rightarrow> (u32 \<Rightarrow> u8 list) \<Rightarrow> nat \<Rightarrow> (u8 \<Rightarrow> ide \<times> 'w \<Rightarrow> bool) \<Rightarrow> bool" where
  "serves B img n dinv \<longleftrightarrow> (\<forall>lba. length (img lba) = 512) \<and>
     (\<forall>drive sw sector buf. dinv drive sw \<longrightarrow> unat sector < n \<longrightarrow> length buf = 512 \<longrightarrow>
        (\<exists>sw'. ide_read_sectors B drive 1 sector buf sw = Some (0, img sector, sw') \<and> dinv drive sw'))"

definition ata_inv :: "u16 \<Rightarrow> u16 \<Rightarrow> ('w \<Rightarrow> ata_regs \<Rightarrow> bool) \<Rightarrow> nat \<Rightarrow> u8 \<Rightarrow> ide \<times> 'w \<Rightarrow> bool" where
  "ata_inv base ctl R n drive sw \<longleftrightarrow> drive_at (fst sw) drive base ctl \<and>
     unat (dev_size (g_ide_devices (fst sw) ! unat drive)) = n \<and> (\<exists>d. R (snd sw) d)"

lemma accessed_devices: "g_ide_devices (accessed s drive) = g_ide_devices s"
  by (simp add: accessed_def Let_def)

lemma ata_serves:
  assumes "ata_drive B base ctl img R busy"
  shows "serves B img n (ata_inv base ctl R n)"
  unfolding serves_def
proof (intro conjI allI impI)
  show "length (img lba) = 512" for lba by (rule ata_drive_len [OF assms])
  fix drive sw and sector :: u32 and buf :: "u8 list"
  assume "ata_inv base ctl R n drive sw" and s: "unat sector < n" "length buf = 512"
  then obtain s w d where sw: "sw = (s, w)" and dr: "drive_at s drive base ctl" and R: "R w d"
    and sz: "unat (dev_size (g_ide_devices s ! unat drive)) = n"
    by (cases sw) (auto simp: ata_inv_def)
  have "runs (ide_read_sectors B drive 1 sector buf (s, w)) (\<lambda>(r, buf', s', w').
      r = 0 \<and> buf' = concat (sectors img sector (unat (1 :: u8))) @ drop (512 * unat (1 :: u8)) buf \<and>
      s' = accessed s drive \<and> (\<exists>d'. R w' d'))"
    using s sz by (intro read_sectors_ok [OF assms dr R]) simp_all
  then show "\<exists>sw'. ide_read_sectors B drive 1 sector buf sw = Some (0, img sector, sw') \<and> ata_inv base ctl R n drive sw'"
    using accessed_drive_at [OF dr] sz s
    by (auto simp: runs_iff sw ata_inv_def accessed_devices sectors_def)
qed

lemma disk_read_sector_ok:
  assumes "serves B img n dinv" "dinv (g_fat32_drive st) (disk st)" "unat sector < n" "length buf = 512"
  shows "\<exists>d'. disk_read_sector B buf sector st = Some (True, img sector, st\<lparr>disk := d'\<rparr>) \<and> dinv (g_fat32_drive st) d'"
proof -
  obtain sw' where "ide_read_sectors B (g_fat32_drive st) 1 sector buf (disk st) = Some (0, img sector, sw')"
    "dinv (g_fat32_drive st) sw'"
    using assms unfolding serves_def by blast
  then show ?thesis by (intro exI [of _ sw']) (simp add: disk_read_sector_def)
qed

section \<open>Reading along a chain\<close>

definition spc :: "fat32_volume \<Rightarrow> nat" where
  "spc vol = unat (sectors_per_cluster (vol_header vol))"

definition cluster_bytes :: "(u32 \<Rightarrow> u8 list) \<Rightarrow> fat32_volume \<Rightarrow> u32 \<Rightarrow> u8 list" where
  "cluster_bytes img vol c = concat (map (\<lambda>i. img (cluster_to_sector vol c + of_nat i)) [0..<spc vol])"

definition chain_bytes :: "(u32 \<Rightarrow> u8 list) \<Rightarrow> fat32_volume \<Rightarrow> u32 list \<Rightarrow> u8 list" where
  "chain_bytes img vol cs = concat (map (cluster_bytes img vol) cs)"

text \<open>The clusters \<open>cs\<close> follow each other in the FAT.\<close>

fun fat_chain :: "fat32_volume \<Rightarrow> machine \<Rightarrow> u32 list \<Rightarrow> bool" where
  "fat_chain vol m (c # c' # cs) \<longleftrightarrow>
     map_option (\<lambda>v. v AND 0xFFFFFF) (load32 (vol_fat vol + 4 * c) m) = Some c' \<and> c' \<noteq> 0xFFFFFF \<and> fat_chain vol m (c' # cs)"
| "fat_chain vol m cs \<longleftrightarrow> True"

text \<open>All sectors of the clusters are on the disk.\<close>

definition on_disk :: "fat32_volume \<Rightarrow> nat \<Rightarrow> u32 list \<Rightarrow> bool" where
  "on_disk vol n cs \<longleftrightarrow> (\<forall>c\<in>set cs. \<forall>i < spc vol. unat (cluster_to_sector vol c + of_nat i) < n)"

text \<open>\<open>r\<close> after \<open>bytes\<close> were copied.\<close>

definition copied :: "u8 list \<Rightarrow> 'w reading \<Rightarrow> u8 list" where
  "copied bytes r = take (rd_pos r) (rd_buffer r) @ bytes @ drop (rd_pos r + length bytes) (rd_buffer r)"

definition readable :: "(u8 \<Rightarrow> ide \<times> 'w \<Rightarrow> bool) \<Rightarrow> 'w reading \<Rightarrow> bool" where
  "readable dinv r \<longleftrightarrow> dinv (g_fat32_drive (rd_state r)) (disk (rd_state r)) \<and> 0 < rd_left r \<and> unat (rd_left r) \<le> 2 ^ 31 \<and>
     rd_pos r + unat (rd_left r) \<le> length (rd_buffer r)"

text \<open>The state of the reader but for the disk.\<close>

definition same_fat :: "(u8 \<Rightarrow> ide \<times> 'w \<Rightarrow> bool) \<Rightarrow> 'w fat_state \<Rightarrow> 'w fat_state \<Rightarrow> bool" where
  "same_fat dinv st st' \<longleftrightarrow> (\<exists>d. st' = st\<lparr>disk := d\<rparr> \<and> dinv (g_fat32_drive st) d)"

text \<open>How a part of the reading ends: with everything read, or with all of \<open>avail\<close> copied and more to come.\<close>

definition part_read ::
  "(u8 \<Rightarrow> ide \<times> 'w \<Rightarrow> bool) \<Rightarrow> u8 list \<Rightarrow> 'w reading \<Rightarrow> ('w reading, bool) ctl \<Rightarrow> bool" where
  "part_read dinv avail r c \<longleftrightarrow>
     (if unat (rd_left r) \<le> length avail
      then \<exists>r'. c = Return True r' \<and> rd_buffer r' = copied (take (unat (rd_left r)) avail) r \<and> same_fat dinv (rd_state r) (rd_state r')
      else \<exists>r'. c = Next r' \<and> rd_buffer r' = copied avail r \<and> same_fat dinv (rd_state r) (rd_state r') \<and> rd_offset r' = 0 \<and>
             rd_pos r' = rd_pos r + length avail \<and> unat (rd_left r') = unat (rd_left r) - length avail \<and> readable dinv r')"

lemma read_sector_ok:
  assumes S: "serves B img n dinv" and r: "readable dinv r"
    and "unat (cluster_to_sector vol c + of_nat i) < n"
  shows "runs (read_sector B vol c i r)
    (part_read dinv (drop (unat (rd_offset r) mod 512) (img (cluster_to_sector vol c + of_nat i))) r)"
proof -
  let ?o = "rd_offset r mod 512"
  let ?sec = "img (cluster_to_sector vol c + of_nat i)"
  define k where "k = (if rd_left r + ?o > 512 then 512 - ?o else rd_left r)"
  have o: "unat ?o = unat (rd_offset r) mod 512" "unat ?o < 512" by simp_all
  have len: "length ?sec = 512" using S by (simp add: serves_def)
  have left: "0 < unat (rd_left r)" "unat (rd_left r) \<le> 2 ^ 31" "rd_pos r + unat (rd_left r) \<le> length (rd_buffer r)"
    using r by (simp_all add: readable_def word_less_nat_alt)
  have sum: "unat (rd_left r + ?o) = unat (rd_left r) + unat ?o"
    using left(2) o(2) by (intro unat_add_le) simp
  have k: "unat k = min (unat (rd_left r)) (512 - unat ?o)"
  proof -
    have "unat (512 - ?o) = 512 - unat ?o" using o(2) by (subst unat_sub) (simp_all add: word_le_nat_alt)
    then show ?thesis using sum by (auto simp: k_def word_less_nat_alt min_def)
  qed
  have inv: "dinv (g_fat32_drive (rd_state r)) (disk (rd_state r))" using r by (simp add: readable_def)
  obtain d where d: "disk_read_sector B (replicate 512 0) (cluster_to_sector vol c + of_nat i) (rd_state r) =
      Some (True, ?sec, rd_state r\<lparr>disk := d\<rparr>)" "dinv (g_fat32_drive (rd_state r)) d"
    using disk_read_sector_ok [OF S inv assms(3) length_replicate] by blast
  have cp: "memcpy (drop (rd_pos r) (rd_buffer r)) (drop (unat ?o) ?sec) (unat k) =
      Some (take (unat k) (drop (unat ?o) ?sec) @ drop (rd_pos r + unat k) (rd_buffer r))"
    using left(3) len o(2) by (subst memcpy_ok) (auto simp: k add.commute)
  have sub: "unat (rd_left r - k) = unat (rd_left r) - unat k" "rd_left r - k = 0 \<longleftrightarrow> unat (rd_left r) \<le> unat k"
  proof -
    have "k \<le> rd_left r" by (simp add: word_le_nat_alt k)
    then show "unat (rd_left r - k) = unat (rd_left r) - unat k" by (simp add: unat_sub)
    then show "rd_left r - k = 0 \<longleftrightarrow> unat (rd_left r) \<le> unat k" by (simp add: unat_eq_zero [symmetric])
  qed
  define r' where "r' = \<lparr>rd_offset = 0,
    rd_buffer = take (rd_pos r) (rd_buffer r) @ take (unat k) (drop (unat ?o) ?sec) @ drop (rd_pos r + unat k) (rd_buffer r),
    rd_pos = rd_pos r + unat k, rd_left = rd_left r - k, rd_state = rd_state r\<lparr>disk := d\<rparr>\<rparr>"
  have step: "read_sector B vol c i r = Some (if rd_left r - k = 0 then Return True r' else Next r')"
    by (simp only: read_sector_def Let_def d(1) Option.bind.bind_lunit prod.case simp_thms if_False k_def [symmetric] cp)
      (simp add: r'_def)
  have same: "same_fat dinv (rd_state r) (rd_state r')" unfolding same_fat_def using d(2) by (intro exI [of _ d]) (simp add: r'_def)
  have buf: "rd_buffer r' = copied (take (unat k) (drop (unat ?o) ?sec)) r"
  proof -
    have l: "length (take (unat k) (drop (unat ?o) ?sec)) = unat k" using len o(2) k by simp
    show ?thesis unfolding copied_def l by (simp add: r'_def)
  qed
  show ?thesis
  proof (cases "unat (rd_left r) \<le> 512 - unat ?o")
    case True
    then have ku: "unat k = unat (rd_left r)" by (simp add: k)
    then have "rd_left r - k = 0" unfolding sub(2) by simp
    then have "read_sector B vol c i r = Some (Return True r')" unfolding step by simp
    moreover have "unat (rd_left r) \<le> length (drop (unat (rd_offset r) mod 512) ?sec)" using True len by simp
    ultimately show ?thesis
      unfolding part_read_def using same buf [unfolded ku o(1)] by (simp only: runs_simps if_True) blast
  next
    case False
    then have k': "unat k = 512 - unat ?o" by (simp add: k)
    then have b: "rd_buffer r' = copied (drop (unat (rd_offset r) mod 512) ?sec) r" using buf len o(1) by simp
    have "rd_left r - k \<noteq> 0" using False k' unfolding sub(2) by simp
    then have "read_sector B vol c i r = Some (Next r')" unfolding step by simp
    moreover have l: "length (drop (unat (rd_offset r) mod 512) ?sec) = unat k" using k' len by simp
    moreover have "\<not> unat (rd_left r) \<le> unat k" using False k' by simp
    moreover have "readable dinv r'"
    proof -
      have "0 < unat (rd_left r - k)" "unat (rd_left r - k) \<le> 2 ^ 31" "unat k + unat (rd_left r - k) = unat (rd_left r)"
        using sub(1) False k' left(2) by linarith+
      moreover have "length (rd_buffer r') = length (rd_buffer r)"
        using l left(3) \<open>unat k + unat (rd_left r - k) = unat (rd_left r)\<close> unfolding b copied_def by simp
      ultimately show ?thesis
        using left(3) d(2) by (simp add: readable_def r'_def word_less_nat_alt)
    qed
    moreover have "rd_offset r' = 0 \<and> rd_pos r' = rd_pos r + unat k \<and> unat (rd_left r') = unat (rd_left r) - unat k"
      using sub(1) by (simp add: r'_def)
    ultimately have "part_read dinv (drop (unat (rd_offset r) mod 512) ?sec) r (Next r')"
      unfolding part_read_def using same b by (metis (no_types, lifting))
    then show ?thesis unfolding \<open>read_sector B vol c i r = Some (Next r')\<close> by simp
  qed
qed

lemma same_fat_trans: "same_fat dinv a b \<Longrightarrow> same_fat dinv b c \<Longrightarrow> same_fat dinv a c"
  unfolding same_fat_def by (elim exE conjE) (rename_tac d d', rule_tac x = d' in exI, simp)

lemma part_read_done: "part_read dinv a r (Return ok r1) \<Longrightarrow> part_read dinv (a @ b) r (Return ok r1)"
  by (auto simp: part_read_def split: if_splits)

lemma copied_append:
  assumes "rd_buffer r1 = copied a r" "rd_pos r1 = rd_pos r + length a" "rd_pos r \<le> length (rd_buffer r)"
  shows "copied b r1 = copied (a @ b) r"
proof -
  have "drop (length b + (rd_pos r + length a)) xs = drop (rd_pos r + (length a + length b)) xs" for xs :: "u8 list"
    by (simp only: ac_simps)
  then show ?thesis using assms by (simp add: copied_def add.assoc)
qed

lemma part_read_next:
  assumes "part_read dinv a r (Next r1)" "part_read dinv b r1 c" "rd_pos r \<le> length (rd_buffer r)"
  shows "part_read dinv (a @ b) r c"
proof -
  have r1: "\<not> unat (rd_left r) \<le> length a" "rd_buffer r1 = copied a r" "same_fat dinv (rd_state r) (rd_state r1)"
    "rd_pos r1 = rd_pos r + length a" "unat (rd_left r1) = unat (rd_left r) - length a"
    using assms(1) by (simp_all add: part_read_def split: if_splits)
  have cp: "copied x r1 = copied (a @ x) r" for x by (rule copied_append [OF r1(2,4) assms(3)])
  show ?thesis
  proof (cases "unat (rd_left r1) \<le> length b")
    case True
    then obtain r' where "c = Return True r'" "rd_buffer r' = copied (take (unat (rd_left r1)) b) r1"
      "same_fat dinv (rd_state r1) (rd_state r')" using assms(2) by (auto simp: part_read_def)
    then show ?thesis using True r1 same_fat_trans [OF r1(3)] by (simp add: part_read_def cp)
  next
    case False
    then obtain r' where "c = Next r'" "rd_buffer r' = copied b r1" "same_fat dinv (rd_state r1) (rd_state r')"
      "rd_offset r' = 0" "rd_pos r' = rd_pos r1 + length b" "unat (rd_left r') = unat (rd_left r1) - length b"
      "readable dinv r'" using assms(2) by (auto simp: part_read_def)
    then show ?thesis using False r1 same_fat_trans [OF r1(3)] by (simp add: part_read_def cp)
  qed
qed

lemma part_read_readable: "part_read dinv a r (Next r1) \<Longrightarrow> readable dinv r1 \<and> rd_offset r1 = 0"
  by (auto simp: part_read_def split: if_splits)

lemma readable_pos: "readable dinv r \<Longrightarrow> rd_pos r \<le> length (rd_buffer r)"
  by (simp add: readable_def)

definition sector_range :: "(u32 \<Rightarrow> u8 list) \<Rightarrow> fat32_volume \<Rightarrow> u32 \<Rightarrow> nat \<Rightarrow> nat \<Rightarrow> u8 list" where
  "sector_range img vol c i n = concat (map (\<lambda>k. img (cluster_to_sector vol c + of_nat k)) [i..<i + n])"

lemma sector_range_Suc:
  "sector_range img vol c i (Suc n) = img (cluster_to_sector vol c + of_nat i) @ sector_range img vol c (Suc i) n"
  by (simp add: sector_range_def upt_conv_Cons del: upt_Suc)

lemma read_cluster_ok:
  assumes S: "serves B img N dinv"
  shows "readable dinv r \<Longrightarrow> (\<forall>k. i \<le> k \<longrightarrow> k < i + Suc n \<longrightarrow> unat (cluster_to_sector vol c + of_nat k) < N) \<Longrightarrow>
    runs (read_cluster B vol c (Suc n) i r)
      (part_read dinv (drop (unat (rd_offset r) mod 512) (sector_range img vol c i (Suc n))) r)"
proof (induction n arbitrary: i r)
  case (Suc n)
  let ?o = "unat (rd_offset r) mod 512"
  let ?s = "img (cluster_to_sector vol c + of_nat i)"
  have len: "length ?s = 512" using S by (simp add: serves_def)
  have split: "drop ?o (sector_range img vol c i (Suc (Suc n))) = drop ?o ?s @ sector_range img vol c (Suc i) (Suc n)"
  proof -
    have "?o \<le> length ?s" using len by simp
    then show ?thesis by (subst sector_range_Suc) simp
  qed
  have one: "runs (read_sector B vol c i r) (part_read dinv (drop ?o ?s) r)"
    using Suc.prems by (intro read_sector_ok [OF S]) auto
  show ?case unfolding read_cluster.simps(2) [of B vol c "Suc n"] split
  proof (rule runs_bindI [OF one])
    fix x assume x: "part_read dinv (drop ?o ?s) r x"
    show "runs (case x of Next r \<Rightarrow> read_cluster B vol c (Suc n) (i + 1) r | _ \<Rightarrow> Some x)
      (part_read dinv (drop ?o ?s @ sector_range img vol c (Suc i) (Suc n)) r)"
    proof (cases x)
      case (Next r1)
      then have r1: "readable dinv r1" "rd_offset r1 = 0" using x part_read_readable by blast+
      then have "runs (read_cluster B vol c (Suc n) (i + 1) r1) (part_read dinv (sector_range img vol c (Suc i) (Suc n)) r1)"
        using Suc.IH [of r1 "i + 1"] Suc.prems(2) by simp
      moreover have "part_read dinv b r1 y \<Longrightarrow> part_read dinv (drop ?o ?s @ b) r y" for b y
        using x Next part_read_next [OF _ _ readable_pos [OF Suc.prems(1)]] by blast
      ultimately show ?thesis unfolding Next ctl.case by (rule runs_mono)
    next
      case (Break r1)
      then show ?thesis using x by (auto simp: part_read_def split: if_splits)
    next
      case (Return ok r1)
      then show ?thesis using x part_read_done by auto
    qed
  qed
next
  case 0
  have "runs (read_sector B vol c i r)
      (part_read dinv (drop (unat (rd_offset r) mod 512) (img (cluster_to_sector vol c + of_nat i))) r)"
    using 0 by (intro read_sector_ok [OF S]) auto
  moreover have "sector_range img vol c i (Suc 0) = img (cluster_to_sector vol c + of_nat i)"
    by (simp add: sector_range_def)
  ultimately show ?case unfolding read_cluster.simps by (simp only: runs_simps(3)) (erule runs_mono, auto split: ctl.split)
qed

lemma drop_sector_range:
  assumes "\<forall>lba. length (img lba) = 512"
  shows "drop (512 * i) (sector_range img vol c j (i + n)) = sector_range img vol c (j + i) n"
proof (induction i arbitrary: j)
  case (Suc i)
  have "drop (512 * Suc i) (sector_range img vol c j (Suc i + n)) =
      drop (512 * i) (sector_range img vol c (Suc j) (i + n))"
    using assms by (simp add: sector_range_Suc)
  then show ?case using Suc.IH [of "Suc j"] by simp
qed simp

lemma drop_cluster_bytes:
  assumes "\<forall>lba. length (img lba) = 512" "off div 512 < spc vol"
  shows "drop (off mod 512) (sector_range img vol c (off div 512) (spc vol - off div 512)) = drop off (cluster_bytes img vol c)"
proof -
  have "cluster_bytes img vol c = sector_range img vol c 0 (off div 512 + (spc vol - off div 512))"
    using assms(2) by (simp add: cluster_bytes_def sector_range_def)
  then have "drop (512 * (off div 512)) (cluster_bytes img vol c) = sector_range img vol c (off div 512) (spc vol - off div 512)"
    using drop_sector_range [OF assms(1), of "off div 512" vol c 0 "spc vol - off div 512"] by simp
  then have "drop (off mod 512) (sector_range img vol c (off div 512) (spc vol - off div 512)) =
      drop (off mod 512) (drop (512 * (off div 512)) (cluster_bytes img vol c))" by (simp only:)
  also have "\<dots> = drop (off mod 512 + 512 * (off div 512)) (cluster_bytes img vol c)" by (rule drop_drop)
  also have "off mod 512 + 512 * (off div 512) = off" by (rule mod_mult_div_eq)
  finally show ?thesis .
qed

lemma length_cluster_bytes: "\<forall>lba. length (img lba) = 512 \<Longrightarrow> length (cluster_bytes img vol c) = 512 * spc vol"
  by (simp add: cluster_bytes_def length_concat o_def sum_list_triv)

text \<open>The first cluster of a reading, from wherever the offset points in it.\<close>

lemma first_cluster_ok:
  assumes S: "serves B img N dinv" and r: "readable dinv r" and "on_disk vol N (c # cs)"
    and off: "unat (rd_offset r) < 512 * spc vol"
  shows "runs (read_cluster B vol c (spc vol - unat (rd_offset r) div 512) (unat (rd_offset r) div 512) r)
    (part_read dinv (drop (unat (rd_offset r)) (cluster_bytes img vol c)) r)"
proof -
  let ?off = "unat (rd_offset r)"
  have len: "\<forall>lba. length (img lba) = 512" using S by (simp add: serves_def)
  have i: "?off div 512 < spc vol" using off by (simp add: less_mult_imp_div_less mult.commute)
  then obtain n where n: "spc vol - ?off div 512 = Suc n" by (metis Suc_diff_Suc)
  show ?thesis
    unfolding drop_cluster_bytes [OF len i, symmetric] n
    using assms(3) n by (intro read_cluster_ok [OF S r]) (auto simp: on_disk_def)
qed

lemma read_chain_ok:
  assumes S: "serves B img N dinv"
  shows "readable dinv r \<Longrightarrow> fat_chain vol (mem (rd_state r)) (c # cs) \<Longrightarrow> on_disk vol N (c # cs) \<Longrightarrow>
    unat (rd_offset r) < 512 * spc vol \<Longrightarrow>
    unat (rd_offset r) + unat (rd_left r) \<le> length (chain_bytes img vol (c # cs)) \<Longrightarrow>
    runs (read_chain B vol c r) (\<lambda>(ok, r'). ok \<and> same_fat dinv (rd_state r) (rd_state r') \<and>
      rd_buffer r' = copied (take (unat (rd_left r)) (drop (unat (rd_offset r)) (chain_bytes img vol (c # cs)))) r)"
proof (induction cs arbitrary: c r)
  case Nil
  have i: "unat (rd_offset r div 512) = unat (rd_offset r) div 512" by simp
  let ?avail = "drop (unat (rd_offset r)) (cluster_bytes img vol c)"
  have bytes: "chain_bytes img vol [c] = cluster_bytes img vol c" by (simp add: chain_bytes_def)
  have "unat (rd_left r) \<le> length ?avail" using Nil.prems(5) by (simp add: bytes)
  then show ?case
    unfolding read_chain.simps [of B vol c r] Let_def i spc_def [symmetric] bytes
    by (intro runs_bindI [OF first_cluster_ok [OF S Nil.prems(1,3,4)]]) (auto simp: part_read_def)
next
  case (Cons c' cs)
  have len: "\<forall>lba. length (img lba) = 512" using S by (simp add: serves_def)
  let ?off = "unat (rd_offset r)"
  define avail where "avail = drop ?off (cluster_bytes img vol c)"
  have i: "unat (rd_offset r div 512) = ?off div 512" by simp
  have part: "runs (read_cluster B vol c (spc vol - ?off div 512) (?off div 512) r) (part_read dinv avail r)"
    unfolding avail_def by (rule first_cluster_ok [OF S Cons.prems(1,3,4)])
  have bytes: "drop ?off (chain_bytes img vol (c # c' # cs)) = avail @ chain_bytes img vol (c' # cs)"
    using Cons.prems(4) length_cluster_bytes [OF len, of vol c] by (simp add: avail_def chain_bytes_def)
  show ?case
    unfolding read_chain.simps [of B vol c r] Let_def i spc_def [symmetric] bytes
  proof (rule runs_bindI [OF part])
    fix x assume x: "part_read dinv avail r x"
    show "runs (case x of
              Next r \<Rightarrow> do { cl \<leftarrow> next_cluster vol c (rd_state r);
                              if cl = 0xFFFFFF then Some (False, r) else read_chain B vol cl r }
            | Break r \<Rightarrow> Some (False, r)
            | Return ok r \<Rightarrow> Some (ok, r)) (\<lambda>(ok, r'). ok \<and> same_fat dinv (rd_state r) (rd_state r') \<and>
      rd_buffer r' = copied (take (unat (rd_left r)) (avail @ chain_bytes img vol (c' # cs))) r)"
    proof (cases "unat (rd_left r) \<le> length avail")
      case True
      then show ?thesis using x by (auto simp: part_read_def)
    next
      case False
      then obtain r1 where r1: "x = Next r1" "rd_buffer r1 = copied avail r" "same_fat dinv (rd_state r) (rd_state r1)"
        "rd_offset r1 = 0" "rd_pos r1 = rd_pos r + length avail" "unat (rd_left r1) = unat (rd_left r) - length avail"
        "readable dinv r1" using x by (auto simp: part_read_def)
      have m: "mem (rd_state r1) = mem (rd_state r)" using r1(3) by (auto simp: same_fat_def)
      have nx: "next_cluster vol c (rd_state r1) = Some c'" "c' \<noteq> 0xFFFFFF"
        using Cons.prems(2) by (simp_all add: next_cluster_def m)
      have "length (drop ?off (chain_bytes img vol (c # c' # cs))) = length avail + length (chain_bytes img vol (c' # cs))"
        unfolding bytes by simp
      then have "unat (rd_left r1) \<le> length (chain_bytes img vol (c' # cs))" using Cons.prems(5) r1(6) by simp
      then have "runs (read_chain B vol c' r1) (\<lambda>(ok, r'). ok \<and> same_fat dinv (rd_state r1) (rd_state r') \<and>
          rd_buffer r' = copied (take (unat (rd_left r1)) (chain_bytes img vol (c' # cs))) r1)"
        using Cons.IH [of r1 c'] Cons.prems r1(4,7) m by (simp add: on_disk_def)
      moreover have "copied (take (unat (rd_left r1)) b) r1 = copied (take (unat (rd_left r)) (avail @ b)) r" for b
        using copied_append [OF r1(2,5) readable_pos [OF Cons.prems(1)]] False r1(6) by simp
      ultimately show ?thesis
        unfolding r1(1) ctl.case nx Option.bind.bind_lunit
        using nx(2) same_fat_trans [OF r1(3)] by (simp add: split_def) (erule runs_mono, auto)
    qed
  qed
qed

lemma skip_clusters_ok:
  assumes "fat_chain vol (mem st) (c # cs)" "k < length (c # cs)"
  shows "skip_clusters vol k offset c st = Some (Some (offset - of_nat k * cluster_size vol, (c # cs) ! k))"
  using assms
proof (induction k arbitrary: c cs offset)
  case (Suc k)
  then obtain c' cs' where cs: "cs = c' # cs'" by (cases cs) simp_all
  have "next_cluster vol c st = Some c'" "c' \<noteq> 0xFFFFFF" "fat_chain vol (mem st) (c' # cs')"
    using Suc.prems(1) by (simp_all add: cs next_cluster_def)
  then show ?case using Suc.IH [of c' cs'] Suc.prems(2) by (simp add: cs algebra_simps)
qed simp

lemma fat_chain_drop: "fat_chain vol m cs \<Longrightarrow> fat_chain vol m (drop k cs)"
proof (induction k arbitrary: cs)
  case (Suc k)
  then show ?case by (cases cs; cases "tl cs") auto
qed simp

lemma on_disk_drop: "on_disk vol n cs \<Longrightarrow> on_disk vol n (drop k cs)"
  by (auto simp: on_disk_def dest: in_set_dropD)

lemma drop_chain_bytes:
  assumes "\<forall>lba. length (img lba) = 512" "k \<le> length cs"
  shows "drop (k * (512 * spc vol)) (chain_bytes img vol cs) = chain_bytes img vol (drop k cs)"
  using assms(2)
proof (induction k arbitrary: cs)
  case (Suc k)
  then obtain c cs' where cs: "cs = c # cs'" by (cases cs) simp_all
  then show ?case
    using Suc length_cluster_bytes [OF assms(1), of vol c] by (simp add: chain_bytes_def)
qed simp

lemma length_chain_bytes:
  "\<forall>lba. length (img lba) = 512 \<Longrightarrow> length (chain_bytes img vol cs) = length cs * (512 * spc vol)"
  by (induction cs) (simp_all add: chain_bytes_def length_cluster_bytes)

text \<open>A mounted volume.\<close>

definition mounted :: "fat32_volume \<Rightarrow> bool" where
  "mounted vol \<longleftrightarrow> 0 < spc vol \<and> cluster_size vol = ucast (sectors_per_cluster (vol_header vol)) * 512"

lemma mounted_cluster_size: "mounted vol \<Longrightarrow> unat (cluster_size vol) = 512 * spc vol"
proof -
  assume "mounted vol"
  moreover have "unat (ucast (sectors_per_cluster (vol_header vol)) :: u32) = spc vol"
    using u8_bound [of "sectors_per_cluster (vol_header vol)"]
    by (simp add: spc_def unsigned_ucast_eq take_bit_nat_eq_self)
  moreover have "spc vol < 256" using u8_bound by (simp add: spc_def)
  ultimately show ?thesis by (simp add: mounted_def unat_mult_le)
qed

lemma read_file_ok:
  assumes S: "serves B img N dinv" and inv: "dinv (g_fat32_drive st) (disk st)" and m: "mounted vol"
    and chain: "fat_chain vol (mem st) cs" "cs \<noteq> []" "hd cs = f_cluster file" "on_disk vol N cs"
    and sz: "0 < sz" "unat sz \<le> 2 ^ 31" "unat sz \<le> length buffer"
    and "unat offset + unat sz \<le> unat (f_size file)"
    and av: "unat offset + unat sz \<le> length (chain_bytes img vol cs)"
  shows "runs (fat32_read_file B vol file offset buffer sz st) (\<lambda>(ok, buffer', st').
    ok \<and> buffer' = take (unat sz) (drop (unat offset) (chain_bytes img vol cs)) @ drop (unat sz) buffer \<and> same_fat dinv st st')"
proof -
  have len: "\<forall>lba. length (img lba) = 512" using S by (simp add: serves_def)
  have csz: "unat (cluster_size vol) = 512 * spc vol" "0 < spc vol"
    using mounted_cluster_size [OF m] m by (simp_all add: mounted_def)
  define k where "k = unat (offset div cluster_size vol)"
  have k: "k = unat offset div (512 * spc vol)" by (simp add: k_def csz)
  have pos: "0 < unat sz" using sz(1) by (simp add: word_less_nat_alt)
  have kl: "k < length cs"
    using av pos csz(2) unfolding length_chain_bytes [OF len] k by (simp add: less_mult_imp_div_less)
  obtain c cs' where cs: "cs = c # cs'" using chain(2) by (cases cs) simp_all
  define offset' where "offset' = offset - of_nat k * cluster_size vol"
  have o': "unat offset' = unat offset mod (512 * spc vol)"
  proof -
    have "of_nat k = offset div cluster_size vol" by (simp add: k_def del: unat_div_distrib)
    then have "offset' = offset mod cluster_size vol" by (simp add: offset'_def minus_div_mult_eq_mod)
    then show ?thesis by (simp add: csz)
  qed
  have skip: "skip_clusters vol k offset (f_cluster file) st = Some (Some (offset', cs ! k))"
    using skip_clusters_ok [of vol st c cs' k offset] chain kl by (simp add: cs offset'_def)
  have drop_cs: "drop k cs = cs ! k # drop (Suc k) cs" using kl by (simp add: Cons_nth_drop_Suc)
  have bytes: "drop (unat offset') (chain_bytes img vol (drop k cs)) = drop (unat offset) (chain_bytes img vol cs)"
  proof -
    have "drop (unat offset') (chain_bytes img vol (drop k cs)) =
        drop (unat offset') (drop (k * (512 * spc vol)) (chain_bytes img vol cs))"
      using drop_chain_bytes [OF len, of k cs vol] kl by simp
    also have "\<dots> = drop (unat offset' + k * (512 * spc vol)) (chain_bytes img vol cs)" by (rule drop_drop)
    also have "unat offset' + k * (512 * spc vol) = unat offset" by (simp only: o' k mod_div_mult_eq)
    finally show ?thesis .
  qed
  have le: "length (chain_bytes img vol (drop k cs)) - unat offset' = length (chain_bytes img vol cs) - unat offset"
    using arg_cong [OF bytes, of length] by simp
  let ?r = "\<lparr>rd_offset = offset', rd_buffer = buffer, rd_pos = 0, rd_left = sz, rd_state = st\<rparr>"
  have ready: "readable dinv ?r" using inv sz by (simp add: readable_def)
  have "runs (read_chain B vol (cs ! k) ?r) (\<lambda>(ok, r'). ok \<and> same_fat dinv (rd_state ?r) (rd_state r') \<and>
      rd_buffer r' = copied (take (unat (rd_left ?r)) (drop (unat (rd_offset ?r)) (chain_bytes img vol (cs ! k # drop (Suc k) cs)))) ?r)"
  proof (rule read_chain_ok [OF S ready])
    show "fat_chain vol (mem (rd_state ?r)) (cs ! k # drop (Suc k) cs)"
      using fat_chain_drop [OF chain(1), of k] by (simp add: drop_cs)
    show "on_disk vol N (cs ! k # drop (Suc k) cs)" using on_disk_drop [OF chain(4), of k] by (simp add: drop_cs)
    show "unat (rd_offset ?r) < 512 * spc vol" using csz(2) by (simp add: o')
    show "unat (rd_offset ?r) + unat (rd_left ?r) \<le> length (chain_bytes img vol (cs ! k # drop (Suc k) cs))"
      using le av pos by (simp add: drop_cs)
  qed
  moreover have cp: "copied (take (unat sz) (drop (unat offset) (chain_bytes img vol cs))) ?r =
      take (unat sz) (drop (unat offset) (chain_bytes img vol cs)) @ drop (unat sz) buffer"
    using av by (simp add: copied_def)
  ultimately have read: "runs (read_chain B vol (cs ! k) ?r) (\<lambda>(ok, r'). ok \<and> same_fat dinv st (rd_state r') \<and>
      rd_buffer r' = take (unat sz) (drop (unat offset) (chain_bytes img vol cs)) @ drop (unat sz) buffer)"
    using bytes cp by (simp add: drop_cs)
  have "unat (offset + sz) = unat offset + unat sz" using assms(11) u32_bound [of "f_size file"] by (simp add: unat_add_le)
  then have "\<not> offset + sz > f_size file" using assms(11) by (simp add: word_less_nat_alt)
  moreover have "cluster_size vol \<noteq> 0" using csz by auto
  ultimately have "fat32_read_file B vol file offset buffer sz st =
      do { (ok, r) \<leftarrow> read_chain B vol (cs ! k) ?r; Some (ok, rd_buffer r, rd_state r) }"
    using skip by (simp add: fat32_read_file_def k_def [symmetric] del: unat_div_distrib)
  then show ?thesis by (simp only: runs_simps) (rule runs_mono [OF read], auto)
qed

section \<open>Properties\<close>

text \<open>C1. Over an ATA drive \<open>fat32_read_file\<close> gives exactly the bytes \<open>[offset, offset + size)\<close> of the file's chain of
  clusters, over every boundary of sectors and clusters, whatever the driver's delays, writes nothing
  behind them, and changes nothing but the state of the disk.\<close>

theorem fat32_read_file_reads:
  assumes "ata_drive B base ctl img R busy" "ata_inv base ctl R n (g_fat32_drive st) (disk st)"
    and "mounted vol" "fat_chain vol (mem st) cs" "cs \<noteq> []" "hd cs = f_cluster file" "on_disk vol n cs"
    and "0 < sz" "unat sz \<le> 2 ^ 31" "unat sz \<le> length buffer"
    and "unat offset + unat sz \<le> unat (f_size file)"
    and "unat offset + unat sz \<le> length cs * (512 * spc vol)"
  shows "\<exists>d. fat32_read_file B vol file offset buffer sz st =
      Some (True, take (unat sz) (drop (unat offset) (chain_bytes img vol cs)) @ drop (unat sz) buffer, st\<lparr>disk := d\<rparr>) \<and>
    ata_inv base ctl R n (g_fat32_drive st) d"
proof -
  have len: "\<forall>lba. length (img lba) = 512" using ata_drive_len [OF assms(1)] by blast
  have "unat offset + unat sz \<le> length (chain_bytes img vol cs)"
    using assms(12) by (simp only: length_chain_bytes [OF len])
  then have "runs (fat32_read_file B vol file offset buffer sz st) (\<lambda>(ok, buffer', st').
    ok \<and> buffer' = take (unat sz) (drop (unat offset) (chain_bytes img vol cs)) @ drop (unat sz) buffer \<and>
    same_fat (ata_inv base ctl R n) st st')"
    by (intro read_file_ok [OF ata_serves [OF assms(1)] assms(2-11)])
  then obtain ok buffer' st' where "fat32_read_file B vol file offset buffer sz st = Some (ok, buffer', st')"
    "ok" "buffer' = take (unat sz) (drop (unat offset) (chain_bytes img vol cs)) @ drop (unat sz) buffer"
    "same_fat (ata_inv base ctl R n) st st'"
    by (auto simp: runs_iff simp del: split_paired_Ex)
  moreover from this(4) obtain d where "st' = st\<lparr>disk := d\<rparr>" "ata_inv base ctl R n (g_fat32_drive st) d"
    unfolding same_fat_def by blast
  ultimately show ?thesis by (intro exI [of _ d]) simp
qed

text \<open>A volume with one sector per cluster and a file in the clusters 3 and 5.\<close>

definition demo_volume :: fat32_volume where
  "demo_volume = zero_volume\<lparr>
     vol_header := (vol_header zero_volume)\<lparr>bytes_per_sector := 512, sectors_per_cluster := 1, root_cluster := 3\<rparr>,
     data_start_sector := 100, vol_fat := 0x1000, cluster_size := 512\<rparr>"

definition demo_state :: "ata_regs fat_state" where
  "demo_state = \<lparr>mem = small_machine\<lparr>phys := (\<lambda>_. 0)(0x100C := 5)\<rparr>,
     disk = (demo_ide, \<lparr>r_count = 0, r_lba0 = 0, r_lba1 = 0, r_lba2 = 0, r_dev = 0, r_data = []\<rparr>),
     g_fat32_drive = 0, lfn_buffer = replicate 256 0, lfn_length = 0\<rparr>"

lemma demo_chain: "fat_chain demo_volume (mem demo_state) [3, 5]"
  by (simp add: demo_volume_def demo_state_def zero_volume_def load32_def mmu_translate_def small_machine_def get32_def)

lemma demo_spc: "spc demo_volume = 1" "mounted demo_volume"
  by (simp_all add: demo_volume_def zero_volume_def spc_def mounted_def)

lemma demo_inv: "ata_inv 0x1F0 0x3F8 (=) 1000 (g_fat32_drive demo_state) (disk demo_state)"
  using demo_ide_drive by (simp add: ata_inv_def demo_state_def) (simp add: demo_ide_def)

lemma demo_on_disk: "on_disk demo_volume 1000 [3, 5]"
  by (simp add: on_disk_def demo_spc) (simp add: cluster_to_sector_def demo_volume_def zero_volume_def)

lemma demo_bytes: "chain_bytes demo_sector demo_volume [3, 5] = replicate 512 101 @ replicate 512 103"
  by (simp add: chain_bytes_def cluster_bytes_def demo_spc)
    (simp add: cluster_to_sector_def demo_volume_def zero_volume_def demo_sector_def)

theorem fat32_read_file_reads_witness:
  "\<exists>d. fat32_read_file demo_disk demo_volume \<lparr>f_attrib = 0, f_cluster = 3, f_size = 600, f_offset = 0\<rparr> 500
      (replicate 21 1) 20 demo_state = Some (True, replicate 12 101 @ replicate 8 103 @ [1], demo_state\<lparr>disk := d\<rparr>)"
proof -
  have "\<exists>d. fat32_read_file demo_disk demo_volume \<lparr>f_attrib = 0, f_cluster = 3, f_size = 600, f_offset = 0\<rparr> 500
      (replicate 21 1) 20 demo_state = Some (True,
        take (unat (20 :: u32)) (drop (unat (500 :: u32)) (chain_bytes demo_sector demo_volume [3, 5])) @
        drop (unat (20 :: u32)) (replicate 21 1), demo_state\<lparr>disk := d\<rparr>) \<and>
      ata_inv 0x1F0 0x3F8 (=) 1000 (g_fat32_drive demo_state) d"
    by (rule fat32_read_file_reads [OF demo_disk_ata demo_inv demo_spc(2) demo_chain _ _ demo_on_disk])
      (simp_all add: demo_spc(1))
  then show ?thesis unfolding demo_bytes by (auto simp: take_replicate drop_replicate)
qed

text \<open>What \<open>fat32_read_file\<close> refuses: a range that ends behind the end of a file is answered with \<open>false\<close> and the
  buffer and the disk are left alone, unless the sum of offset and size wraps around in 32 bits; then a
  range far behind the end passes the check.  An offset whose cluster lies behind the end of the
  chain, for a directory as for a file, is answered with \<open>false\<close> without reading the disk.\<close>

theorem fat32_read_file_refused:
  "(unat (f_size file) < unat offset + unat sz \<and> unat offset + unat sz < 2 ^ 32 \<and> f_attrib file AND 0x10 = 0 \<longrightarrow>
      fat32_read_file B vol file offset buffer sz st = Some (False, buffer, st)) \<and>
   (cluster_size vol \<noteq> 0 \<and> skip_clusters vol (unat (offset div cluster_size vol)) offset (f_cluster file) st = Some None \<longrightarrow>
      fat32_read_file B vol file offset buffer sz st = Some (False, buffer, st)) \<and>
   (unat offset + unat sz \<ge> 2 ^ 32 \<and> unat offset + unat sz - 2 ^ 32 \<le> unat (f_size file) \<longrightarrow>
      \<not> f_size file < offset + sz)"
proof (intro conjI impI; (elim conjE)?)
  assume "unat (f_size file) < unat offset + unat sz" "unat offset + unat sz < 2 ^ 32" "f_attrib file AND 0x10 = 0"
  moreover from this have "unat (offset + sz) = unat offset + unat sz" by (intro unat_add_le) simp
  ultimately show "fat32_read_file B vol file offset buffer sz st = Some (False, buffer, st)"
    by (simp add: fat32_read_file_def word_less_nat_alt)
next
  assume "cluster_size vol \<noteq> 0"
    "skip_clusters vol (unat (offset div cluster_size vol)) offset (f_cluster file) st = Some None"
  then show "fat32_read_file B vol file offset buffer sz st = Some (False, buffer, st)"
    by (simp add: fat32_read_file_def del: unat_div_distrib)
next
  assume a: "2 ^ 32 \<le> unat offset + unat sz" "unat offset + unat sz - 2 ^ 32 \<le> unat (f_size file)"
  have "unat offset + unat sz < 2 * 2 ^ 32" using u32_bound [of offset] u32_bound [of sz] by simp
  then have "(unat offset + unat sz) mod 2 ^ 32 = unat offset + unat sz - 2 ^ 32"
    using a(1) by (simp add: le_mod_geq)
  then have "unat (offset + sz) = unat offset + unat sz - 2 ^ 32" by (simp add: unat_word_ariths)
  then show "\<not> f_size file < offset + sz" using a(2) by (simp add: word_less_nat_alt)
qed

theorem fat32_read_file_refused_witness:
  "fat32_read_file demo_disk demo_volume \<lparr>f_attrib = 0, f_cluster = 3, f_size = 600, f_offset = 0\<rparr> 590
      [] 11 demo_state = Some (False, [], demo_state) \<and> \<not> (600 :: u32) < 4294967290 + 10"
  using fat32_read_file_refused [of "\<lparr>f_attrib = 0, f_cluster = 3, f_size = 600, f_offset = 0\<rparr>" 590 11
      demo_disk demo_volume "[]" demo_state]
    fat32_read_file_refused [of "\<lparr>f_attrib = 0, f_cluster = 3, f_size = 600, f_offset = 0\<rparr>" 4294967290 10
      demo_disk demo_volume "[]" demo_state]
  by simp

text \<open>The step along a chain: an entry below \<open>0xFFFFFF\<close> is followed as it is, but only the entries whose low 24 bits
  are all ones end a chain; the other end-of-chain marks of FAT32, \<open>0x0FFFFFF8\<close> up to \<open>0x0FFFFFFE\<close>, are
  followed as if they were clusters, and so is a cluster number of more than 24 bits, cut off.\<close>

theorem next_cluster_step:
  assumes "load32 (vol_fat vol + 4 * c) (mem st) = Some v"
  shows "(v < 0xFFFFFF \<longrightarrow> next_cluster vol c st = Some v) \<and>
    (next_cluster vol c st = Some 0xFFFFFF \<longleftrightarrow> unat v mod 2 ^ 24 = 2 ^ 24 - 1) \<and>
    (0x0FFFFFF8 \<le> v \<and> v < 0x0FFFFFFF \<longrightarrow>
      (\<exists>c'. next_cluster vol c st = Some c' \<and> c' \<noteq> 0xFFFFFF \<and> unat c' = unat v - 0xF000000))"
proof -
  have n: "next_cluster vol c st = Some (v AND 0xFFFFFF)" using assms by (simp add: next_cluster_def)
  have "(0xFFFFFF :: u32) = mask 24" by (simp add: mask_eq_exp_minus_1)
  then have m: "unat (v AND 0xFFFFFF) = unat v mod 2 ^ 24"
    by (simp only: take_bit_eq_mask [symmetric] unsigned_take_bit_eq) (rule take_bit_eq_mod)
  show ?thesis unfolding n
  proof (intro conjI impI)
    assume "v < 0xFFFFFF"
    then have "unat v < 2 ^ 24" by (simp add: word_less_nat_alt)
    then have "unat (v AND 0xFFFFFF) = unat v" by (simp only: m mod_less)
    then show "Some (v AND 0xFFFFFF) = Some v" by (simp only: option.inject unat_eq_iff)
  next
    show "Some (v AND 0xFFFFFF) = Some 0xFFFFFF \<longleftrightarrow> unat v mod 2 ^ 24 = 2 ^ 24 - 1"
      unfolding option.inject unat_eq_iff m by simp
  next
    assume v: "0x0FFFFFF8 \<le> v \<and> v < 0x0FFFFFFF"
    then have b: "0x0FFFFFF8 \<le> unat v" "unat v < 0x0FFFFFFF" by (simp_all add: word_le_nat_alt word_less_nat_alt)
    have "unat v mod 2 ^ 24 = unat v - 0xF000000"
    proof -
      have "unat v = 15 * 2 ^ 24 + (unat v - 0xF000000)" using b(1) by simp
      then have "unat v mod 2 ^ 24 = (unat v - 0xF000000) mod 2 ^ 24" by (metis mod_mult_self3)
      also have "\<dots> = unat v - 0xF000000" using b by (intro mod_less) simp
      finally show ?thesis .
    qed
    then have u: "unat (v AND 0xFFFFFF) = unat v - 0xF000000" by (simp only: m)
    then have "v AND 0xFFFFFF \<noteq> 0xFFFFFF" using b(2) arg_cong [of "v AND 0xFFFFFF" "0xFFFFFF" unat] by auto
    then show "\<exists>c'. Some (v AND 0xFFFFFF) = Some c' \<and> c' \<noteq> 0xFFFFFF \<and> unat c' = unat v - 0xF000000"
      using u by blast
  qed
qed

theorem next_cluster_step_witness: "next_cluster demo_volume 3 demo_state = Some 5"
proof -
  have "load32 (vol_fat demo_volume + 4 * 3) (mem demo_state) = Some 5"
    by (simp add: demo_volume_def demo_state_def zero_volume_def load32_def mmu_translate_def small_machine_def get32_def)
  then show ?thesis using next_cluster_step [of demo_volume 3 demo_state 5] by simp
qed

end
