(* ===== verification/FatDir.thy ===== *)
theory FatDir
  imports FatSpec
begin

text \<open>
  Names and directories of the FAT32 reader: the name of a directory entry as \<open>parse_short_filename\<close> builds it,
  what becomes of long names, the comparison of names, the search of a directory for a name along its
  chain of clusters, and the directories and names of the FAT format as the reference for it.
\<close>

section \<open>Short names\<close>

text \<open>The name an entry stands for: the base without its trailing blanks, and the extension if there is one.\<close>

definition short_name :: "u8 list \<Rightarrow> u8 list" where
  "short_name e =
     (let base = rev (dropWhile (\<lambda>c. c = 32) (rev (take 8 e))); ext = take 3 (drop 8 e)
      in if ext = [32, 32, 32] then base
         else map (\<lambda>c. if e ! 12 \<noteq> 0 then word_of_int (tolower (sint c)) else c) (base @ 46 # ext))"

lemma strncpy_full: "n \<le> length s \<Longrightarrow> n \<le> length d \<Longrightarrow> 0 \<notin> set (take n s) \<Longrightarrow> strncpy d s n = Some (take n s @ drop n d)"
proof (induction n arbitrary: d s)
  case (Suc n)
  then obtain a s' b d' where "s = a # s'" "d = b # d'" by (cases s; cases d) auto
  then show ?case using Suc by auto
qed simp

text \<open>Cutting the blanks off.\<close>

lemma trim_blanks_ok:
  "length base + k \<le> length out \<Longrightarrow> take (length base + k) out = base @ replicate k 32 \<Longrightarrow> base = [] \<or> last base \<noteq> 32 \<Longrightarrow>
    trim_blanks out (length base + k) = Some (base @ replicate k 0 @ drop (length base + k) out, length base)"
proof (induction k arbitrary: out)
  case 0
  have out: "base @ drop (length base) out = out"
    using 0(2) by (metis add.right_neutral append.right_neutral append_take_drop_id replicate_0)
  show ?case
  proof (cases base)
    case Nil
    then show ?thesis by simp
  next
    case (Cons b bs)
    then have "out ! length bs = last base"
      using out by (metis append_butlast_last_id butlast.simps(2) diff_Suc_1 length_Cons length_butlast list.distinct(1) nth_append_length append.assoc append_Cons)
    then show ?thesis using 0 out Cons by (simp add: rd_def)
  qed
next
  case (Suc k)
  let ?i = "length base + k"
  have i: "out ! ?i = 32"
  proof -
    have "out ! ?i = take (length base + Suc k) out ! ?i" using Suc.prems(1) by simp
    then show ?thesis unfolding Suc.prems(2) by (simp add: nth_append nth_replicate del: replicate_Suc)
  qed
  have "take ?i (out[?i := 0]) = base @ replicate k 32"
  proof -
    have "take ?i out = take ?i (take (length base + Suc k) out)" by simp
    then show ?thesis unfolding Suc.prems(2) by (simp add: replicate_append_same [symmetric])
  qed
  then have "trim_blanks (out[?i := 0]) ?i = Some (base @ replicate k 0 @ drop ?i (out[?i := 0]), length base)"
    using Suc.prems by (intro Suc.IH) simp_all
  moreover have "drop ?i (out[?i := 0]) = 0 # drop (Suc ?i) out"
    using Suc.prems(1) by (simp add: Cons_nth_drop_Suc [symmetric])
  ultimately show ?case
    using Suc.prems(1) i by (simp add: rd_def wr_def replicate_append_same [symmetric])
qed

lemma split_blanks:
  fixes s :: "u8 list"
  obtains base k where "s = base @ replicate k 32" "base = rev (dropWhile (\<lambda>c. c = 32) (rev s))" "base = [] \<or> last base \<noteq> 32"
proof -
  let ?base = "rev (dropWhile (\<lambda>c. c = 32) (rev s))" and ?t = "takeWhile (\<lambda>c. c = 32) (rev s)"
  have "\<forall>c\<in>set ?t. c = 32" by (auto dest: set_takeWhileD)
  then have t: "?t = replicate (length ?t) 32" by (rule replicate_length_same [symmetric])
  have "s = rev (?t @ dropWhile (\<lambda>c. c = 32) (rev s))" by (simp only: takeWhile_dropWhile_id rev_rev_ident)
  also have "\<dots> = ?base @ rev ?t" by (rule rev_append)
  also have "rev ?t = rev (replicate (length ?t) 32)" by (rule arg_cong [OF t])
  also have "\<dots> = replicate (length ?t) 32" by (rule rev_replicate)
  finally have s: "s = ?base @ replicate (length ?t) 32" .
  have "?base = [] \<or> last ?base \<noteq> 32"
    using hd_dropWhile [of "\<lambda>c. c = 32" "rev s"] by (cases "dropWhile (\<lambda>c. c = 32) (rev s) = []") (simp_all add: last_rev)
  then show ?thesis using s that by blast
qed

lemma sint_32: "sint x = 32 \<longleftrightarrow> x = (32 :: u8)"
  using signed_word_eqI [of x 32] by auto

lemma strncmp_blanks: "3 \<le> length s \<Longrightarrow> \<exists>r. strncmp s [32, 32, 32, 0] 3 = Some r \<and> (r = 0 \<longleftrightarrow> take 3 s = [32, 32, 32])"
  by (auto simp: numeral_3_eq_3 Suc_le_length_iff Let_def sint_32)

lemma strncat_full:
  assumes "cstr d xs" "n \<le> length s" "0 \<notin> set (take n s)" "length xs + n < length d"
  shows "strncat d s n = Some (xs @ take n s @ 0 # drop (Suc (length xs + n)) d)"
proof -
  obtain rest where d: "d = xs @ 0 # rest" using assms(1) by (auto simp: cstr_def)
  have "strncat_copy p s n = Some (take n s @ 0 # drop (Suc n) p)" if "n < length p" for p
    using assms(2,3) that
  proof (induction n arbitrary: p s)
    case 0
    then show ?case by (cases p) auto
  next
    case (Suc n)
    then obtain a p' c s' where "p = a # p'" "s = c # s'" by (cases p; cases s) auto
    then show ?case using Suc by auto
  qed
  then show ?thesis using assms strlen_cstr [OF assms(1)] by (simp add: strncat_def d)
qed

text \<open>Changing the case of a byte never makes it, or keeps it from being, the end of a string.\<close>

lemma bit_32: "bit (32 :: u8) n \<longleftrightarrow> n = 5"
proof -
  have "(32 :: u8) = 2 ^ 5" by simp
  then show ?thesis by (simp only: bit_exp_iff) auto
qed

lemma lower_zero [simp]: "word_of_int (tolower (sint c)) = (0 :: u8) \<longleftrightarrow> c = (0 :: u8)"
proof -
  have "word_of_int (sint c OR 32) = c OR 32" by (simp only: of_int_or_eq of_int_sint scast_id id_apply of_int_numeral)
  moreover have "bit (c OR 32) 5" unfolding bit_or_iff bit_32 by simp
  then have "c OR 32 \<noteq> 0" by (metis bit_0_eq bot_apply bot_bool_def)
  ultimately show ?thesis by (auto simp: tolower_def)
qed

lemma fold_case_zero [simp]: "fold_case c = 0 \<longleftrightarrow> c = 0"
proof -
  have "word_of_int (sint c AND NOT 32) = c AND NOT 32"
    by (simp only: of_int_and_eq of_int_not_eq of_int_sint scast_id id_apply of_int_numeral)
  moreover have "c = 0 \<or> c = 32" if z: "c AND NOT 32 = 0"
  proof -
    have "n = 5" if "bit c n" for n
    proof -
      have "\<not> bit (c AND NOT 32) n" unfolding z by simp
      moreover have "n < 8" using bit_imp_le_length [OF that] by simp
      ultimately show ?thesis using that unfolding bit_and_iff bit_not_iff bit_32 by simp
    qed
    note five = this
    show ?thesis
    proof (cases "bit c 5")
      case True
      have "bit c m \<longleftrightarrow> bit (32 :: u8) m" for m
        unfolding bit_32 using five [of m] True by metis
      then have "c = 32" by (simp only: bit_eq_iff simp_thms)
      then show ?thesis ..
    next
      case False
      have "c = 0" by (rule bit_word_eqI) (use five False in force)
      then show ?thesis ..
    qed
  qed
  ultimately show ?thesis by (auto simp: fold_case_def toupper_def)
qed

lemma parse_short_filename_ok:
  assumes "13 \<le> length e" "0 \<notin> set (take 11 e)" "13 \<le> length out"
  shows "\<exists>out'. parse_short_filename out e = Some out' \<and> cstr out' (short_name e) \<and> length out' = length out"
proof -
  obtain base k where b: "take 8 e = base @ replicate k 32" "base = rev (dropWhile (\<lambda>c. c = 32) (rev (take 8 e)))"
    "base = [] \<or> last base \<noteq> 32" by (rule split_blanks)
  let ?ext = "take 3 (drop 8 e)"
  have t11: "take 11 e = take 8 e @ ?ext" using take_add [of 8 3 e] by simp
  have nz: "0 \<notin> set (take 8 e)" "0 \<notin> set base" "0 \<notin> set ?ext" using assms(2) b(1) unfolding t11 by auto
  have "length (take 8 e) = 8" "length ?ext = 3" using assms(1) by simp_all
  then have len: "length base + k = 8" "length ?ext = 3" unfolding b(1) by simp_all
  define o1 where "o1 = take 8 e @ drop 8 out"
  have "strncpy out e 8 = Some o1" using strncpy_full [of 8 e out] assms nz(1) by (simp add: o1_def)
  moreover define o2 where "o2 = base @ replicate k 0 @ drop 8 out"
  have "trim_blanks o1 8 = Some (o2, length base)"
    using trim_blanks_ok [of base k o1] len assms b(1,3) by (simp add: o1_def o2_def)
  moreover obtain r where r: "strncmp (drop 8 e) [32, 32, 32, 0] 3 = Some r" "r = 0 \<longleftrightarrow> ?ext = [32, 32, 32]"
  proof -
    have "3 \<le> length (drop 8 e)" unfolding length_drop using assms(1) by linarith
    then show ?thesis using strncmp_blanks that by blast
  qed
  have l2: "length o2 = length out" "length base < length o2" using len assms(3) by (simp_all add: o2_def)
  have u2: "o2[length base := x] = base @ x # drop (Suc (length base)) o2" for x
    using l2(2) by (simp add: upd_conv_take_nth_drop o2_def)
  show ?thesis
  proof (cases "?ext = [32, 32, 32]")
    case True
    then have "parse_short_filename out e = Some (o2[length base := 0])"
      using calculation r l2 by (simp add: parse_short_filename_def wr_def)
    moreover have "cstr (o2[length base := 0]) (short_name e)"
      unfolding u2 using True nz(2) by (simp add: short_name_def b(2) [symmetric] cstr_def)
    ultimately show ?thesis using l2(1) by (metis length_list_update)
  next
    case False
    define o3 where "o3 = (o2[length base := 46])[Suc (length base) := 0]"
    have o3: "o3 = (base @ [46]) @ 0 # drop (Suc (Suc (length base))) o2"
      using l2 len assms(3) by (simp add: o3_def u2 list_update_append upd_conv_take_nth_drop)
    have c3: "cstr o3 (base @ [46])" using nz(2) by (auto simp: cstr_def o3)
    have l3: "length o3 = length out" by (simp add: o3_def l2)
    define o4 where "o4 = (base @ [46]) @ ?ext @ 0 # drop (Suc (length base + 4)) o3"
    have "strncat o3 (drop 8 e) 3 = Some o4"
      using strncat_full [OF c3, of 3 "drop 8 e"] nz(3) assms len(1) by (simp add: l3 o4_def)
    moreover have "rd e 12 = Some (e ! 12)" using assms(1) by (simp add: rd_def)
    moreover have l4: "length o4 = length out" using len assms(3) by (simp add: o4_def l3)
    ultimately have p: "parse_short_filename out e = Some (if e ! 12 \<noteq> 0
        then map (\<lambda>c. word_of_int (tolower (sint c))) (take 13 o4) @ drop 13 o4 else o4)"
      using \<open>strncpy out e 8 = Some o1\<close> \<open>trim_blanks o1 8 = Some (o2, length base)\<close> r False l2 len assms(3)
      by (simp add: parse_short_filename_def wr_def o3_def [symmetric] del: rd_Some_iff)
    have t13: "take 13 o4 = base @ 46 # ?ext @ 0 # take (8 - length base) (drop (Suc (length base + 4)) o3)"
      using len by (simp add: o4_def take_Cons')
    let ?f = "\<lambda>c :: u8. word_of_int (tolower (sint c)) :: u8"
    have f: "word_of_int (tolower 46) = (46 :: u8)" "word_of_int (tolower 0) = (0 :: u8)" by (simp_all add: tolower_def)
    have name: "short_name e = (if e ! 12 \<noteq> 0 then map ?f (base @ 46 # ?ext) else base @ 46 # ?ext)"
      using False by (simp add: short_name_def b(2) [symmetric])
    have "cstr (if e ! 12 \<noteq> 0 then map ?f (take 13 o4) @ drop 13 o4 else o4) (short_name e)"
    proof (cases "e ! 12 = 0")
      case True
      then show ?thesis using nz by (auto simp: name cstr_def o4_def)
    next
      case False
      then show ?thesis using nz by (auto simp: name cstr_def t13 f)
    qed
    moreover have "length (map ?f (take 13 o4) @ drop 13 o4) = length out" using l4 assms(3) by simp
    ultimately show ?thesis using p l4 by (cases "e ! 12 = 0") (simp_all only: if_False if_True simp_thms, blast+)
  qed
qed

section \<open>The comparison of names\<close>

lemma strcasecmp_ok:
  "cstr p xs \<Longrightarrow> cstr q ys \<Longrightarrow> \<exists>r. fat32_strcasecmp p q = Some r \<and> (r = 0 \<longleftrightarrow> map fold_case xs = map fold_case ys)"
proof (induction p q arbitrary: xs ys rule: fat32_strcasecmp.induct)
  case (1 a s1 b s2)
  show ?case
  proof (cases "fold_case a = fold_case b \<and> a \<noteq> 0")
    case True
    then have "a \<noteq> 0" "b \<noteq> 0" "fold_case a \<noteq> 0" using fold_case_zero by metis+
    then show ?thesis using 1 True by (auto simp: cstr_split)
  next
    case False
    have "fold_case 0 = 0" by simp
    then show ?thesis
      using False 1(2,3) fold_case_zero [of a] fold_case_zero [of b]
      by (cases "fold_case a = fold_case b") (auto simp: cstr_split word_uint_eq_iff [symmetric] simp del: fold_case_zero split: if_splits)
  qed
qed auto

section \<open>Long names\<close>

text \<open>A part of thirteen bytes as \<open>strncpy\<close> copies it, and the name the parts, in their order on the disk, come out as.\<close>

definition cut_part :: "u8 list \<Rightarrow> u8 list" where
  "cut_part s = takeWhile (\<lambda>c. c \<noteq> 0) s @ replicate (length s - length (takeWhile (\<lambda>c. c \<noteq> 0) s)) 0"

definition long_of :: "u8 list list \<Rightarrow> u8 list" where
  "long_of parts = takeWhile (\<lambda>c. c \<noteq> 0) (concat (map cut_part (rev parts)))"

lemma length_cut [simp]: "length (cut_part s) = length s"
  by (simp add: cut_part_def length_takeWhile_le)

lemma strncpy_cut: "n \<le> length s \<Longrightarrow> n \<le> length d \<Longrightarrow> strncpy d s n = Some (cut_part (take n s) @ drop n d)"
proof (induction n arbitrary: d s)
  case (Suc n)
  then obtain a s' b d' where ab: "s = a # s'" "d = b # d'" by (cases s; cases d) auto
  then show ?case using Suc by (auto simp: cut_part_def strncpy_pad_ok)
qed (simp add: cut_part_def)

lemma drop_parts: "\<forall>c\<in>set ch. length c = 13 \<Longrightarrow> n \<le> length ch \<Longrightarrow> drop (n * 13) (concat ch @ rest) = concat (drop n ch) @ rest"
proof (induction n arbitrary: ch)
  case (Suc n)
  then show ?case by (cases ch) simp_all
qed simp

lemma length_parts: "\<forall>c\<in>set ch. length c = 13 \<Longrightarrow> length (concat ch) = length ch * 13"
  by (induction ch) simp_all

lemma lfn_parts_ok:
  assumes "\<forall>c\<in>set ch. length c = 13"
  shows "i + n = length ch \<Longrightarrow> length ch * 13 \<le> length temp \<Longrightarrow>
    lfn_parts n i (length ch) (concat ch @ rest) temp =
      Some (take (i * 13) temp @ concat (map cut_part (rev (take n ch))) @ drop (length ch * 13) temp)"
proof (induction n arbitrary: i temp)
  case (Suc n)
  have n: "length ch - Suc i = n" "n < length ch" using Suc.prems(1) by simp_all
  have c: "length (ch ! n) = 13" using assms n(2) by simp
  have src: "take 13 (drop (n * 13) (concat ch @ rest)) = ch ! n"
    using drop_parts [OF assms, of n rest] n(2) c by (simp add: Cons_nth_drop_Suc [symmetric])
  have l: "n * 13 \<le> length (concat ch @ rest)" "13 \<le> length (drop (n * 13) (concat ch @ rest))"
    using length_parts [OF assms] n(2) by simp_all
  have d: "i * 13 \<le> length temp" "13 \<le> length (drop (i * 13) temp)" using Suc.prems by simp_all
  let ?t = "take (i * 13) temp @ cut_part (ch ! n) @ drop 13 (drop (i * 13) temp)"
  have lt: "length ?t = length temp" using c d by simp
  have "lfn_parts (Suc n) i (length ch) (concat ch @ rest) temp = lfn_parts n (i + 1) (length ch) (concat ch @ rest) ?t"
    using strncpy_cut [OF l(2) d(2)] l(1) d(1) unfolding src by (simp add: n(1))
  also have "\<dots> = Some (take ((i + 1) * 13) ?t @ concat (map cut_part (rev (take n ch))) @ drop (length ch * 13) ?t)"
    using Suc.prems lt by (intro Suc.IH) simp_all
  also have "take ((i + 1) * 13) ?t = take (i * 13) temp @ cut_part (ch ! n)" using d(1) c by simp
  also have "drop (length ch * 13) ?t = drop (length ch * 13) temp"
  proof -
    have "length ch * 13 = n * 13 + ((i + 1) * 13)" using Suc.prems(1) by simp
    then show ?thesis using d(1) c by (simp add: add.commute)
  qed
  finally show ?case using n(2) by (simp add: take_Suc_conv_app_nth)
qed simp

lemma long_name_ok:
  assumes "\<forall>c\<in>set ch. length c = 13" "length ch \<le> 19" "length ch * 13 < length out"
  shows "long_name (length ch) (concat ch @ rest) out = Some (long_of ch @ 0 # drop (Suc (length (long_of ch))) out)"
proof -
  let ?t = "concat (map cut_part (rev ch))"
  have lt: "length ?t = length ch * 13" using length_parts [of "map cut_part (rev ch)"] assms(1) by simp
  have "lfn_parts (length ch) 0 (length ch) (concat ch @ rest) (replicate 256 0) = Some (?t @ replicate (256 - length ch * 13) 0)"
    using lfn_parts_ok [OF assms(1), of 0 "length ch" "replicate 256 0" rest] assms(2) by simp
  moreover obtain m where m: "256 - length ch * 13 = Suc m" using assms(2) by (cases "256 - length ch * 13") simp_all
  moreover have "wr (?t @ replicate (256 - length ch * 13) 0) (length ch * 13) 0 = Some (?t @ replicate (256 - length ch * 13) 0)"
    using lt unfolding m by (simp add: list_update_append)
  moreover have "cstr (?t @ replicate (256 - length ch * 13) 0) (long_of ch)"
  proof -
    have "?t @ replicate (Suc m) 0 = long_of ch @ dropWhile (\<lambda>c. c \<noteq> 0) ?t @ 0 # replicate m 0"
      by (simp add: long_of_def)
    moreover have "\<exists>rest. dropWhile (\<lambda>c. c \<noteq> 0) ?t @ 0 # replicate m 0 = 0 # rest"
    proof (cases "dropWhile (\<lambda>c. c \<noteq> 0) ?t")
      case Nil
      then show ?thesis by (simp only: append_Nil) blast
    next
      case (Cons x xs)
      then have "x = 0" using hd_dropWhile [of "\<lambda>c. c \<noteq> 0" ?t] by simp
      then show ?thesis unfolding Cons by simp
    qed
    moreover have "0 \<notin> set (long_of ch)" by (auto simp: long_of_def dest: set_takeWhileD)
    ultimately show ?thesis unfolding m cstr_def by metis
  qed
  moreover have "length (long_of ch) < length out"
    using assms(3) length_takeWhile_le [of "\<lambda>c. c \<noteq> 0" ?t] lt by (simp add: long_of_def)
  ultimately show ?thesis by (simp add: long_name_def strcpy_ok del: wr_Some_iff)
qed

section \<open>Directories\<close>

text \<open>Entry \<open>k\<close> of a directory is bytes \<open>32 k\<close> to \<open>32 k + 31\<close> of its chain of clusters.\<close>

definition entry_at :: "(u32 \<Rightarrow> u8 list) \<Rightarrow> fat32_volume \<Rightarrow> u32 list \<Rightarrow> nat \<Rightarrow> u8 list" where
  "entry_at img vol cs k = take 32 (drop (32 * k) (chain_bytes img vol cs))"

text \<open>The chain of a directory; the number 0 of \<open>buffered_sector\<close> stands for no sector.\<close>

definition dir_chain :: "fat32_volume \<Rightarrow> nat \<Rightarrow> machine \<Rightarrow> u32 list \<Rightarrow> bool" where
  "dir_chain vol N m cs \<longleftrightarrow> mounted vol \<and> fat_chain vol m cs \<and> on_disk vol N cs \<and>
     (\<forall>c\<in>set cs. \<forall>i < spc vol. cluster_to_sector vol c + of_nat i \<noteq> 0)"

text \<open>The list stands before entry \<open>k\<close>.\<close>

definition dir_pos :: "(u32 \<Rightarrow> u8 list) \<Rightarrow> fat32_volume \<Rightarrow> u32 list \<Rightarrow> nat \<Rightarrow> fat32_dir_list \<Rightarrow> bool" where
  "dir_pos img vol cs k dl \<longleftrightarrow> length (sector_buffer dl) = 512 \<and>
     (buffered_sector dl \<noteq> 0 \<longrightarrow> sector_buffer dl = img (buffered_sector dl)) \<and>
     (\<exists>q. q < length cs \<and> dl_cluster dl = cs ! q \<and> unat (dl_entry dl) \<le> 16 * spc vol \<and>
        k = q * (16 * spc vol) + unat (dl_entry dl))"

lemma entry_at_sector:
  assumes len: "\<forall>lba. length (img lba) = 512" and q: "q < length cs" and i: "i < 16 * spc vol"
  shows "entry_at img vol cs (q * (16 * spc vol) + i) =
    take 32 (drop (i mod 16 * 32) (img (cluster_to_sector vol (cs ! q) + of_nat (i div 16))))"
proof -
  let ?S = "img (cluster_to_sector vol (cs ! q) + of_nat (i div 16))"
  have "32 * (q * (16 * spc vol) + i) = 32 * i + q * (512 * spc vol)" by (simp add: algebra_simps)
  then have "drop (32 * (q * (16 * spc vol) + i)) (chain_bytes img vol cs) =
      drop (32 * i) (drop (q * (512 * spc vol)) (chain_bytes img vol cs))" by (simp only: drop_drop)
  also have "\<dots> = drop (32 * i) (chain_bytes img vol (drop q cs))"
    using drop_chain_bytes [OF len, of q cs vol] q by simp
  also have "\<dots> = drop (32 * i) (cluster_bytes img vol (cs ! q)) @ chain_bytes img vol (drop (Suc q) cs)"
    using q i length_cluster_bytes [OF len, of vol "cs ! q"]
    by (simp add: Cons_nth_drop_Suc [symmetric] chain_bytes_def)
  also have "drop (32 * i) (cluster_bytes img vol (cs ! q)) =
      drop (32 * i mod 512) (sector_range img vol (cs ! q) (32 * i div 512) (spc vol - 32 * i div 512))"
    using i by (intro drop_cluster_bytes [OF len, symmetric]) (simp add: less_mult_imp_div_less)
  also have "32 * i div 512 = i div 16" using div_mult_mult1 [of 32 i 16] by simp
  also have "32 * i mod 512 = i mod 16 * 32" using mult_mod_right [of 32 i 16] by (simp add: mult.commute)
  also obtain r where "spc vol - i div 16 = Suc r"
    using i by (metis Suc_diff_Suc less_mult_imp_div_less mult.commute)
  then have "sector_range img vol (cs ! q) (i div 16) (spc vol - i div 16) =
      ?S @ sector_range img vol (cs ! q) (Suc (i div 16)) r" by (simp only: sector_range_Suc)
  finally have "drop (32 * (q * (16 * spc vol) + i)) (chain_bytes img vol cs) =
      drop (i mod 16 * 32) (?S @ sector_range img vol (cs ! q) (Suc (i div 16)) r) @ chain_bytes img vol (drop (Suc q) cs)" .
  moreover have "i mod 16 * 32 + 32 \<le> 512" using mod_less_divisor [of 16 i] by linarith
  then have "i mod 16 * 32 + 32 \<le> length ?S" using len by simp
  ultimately show ?thesis by (simp add: entry_at_def)
qed

lemma entry_at_length:
  assumes len: "\<forall>lba. length (img lba) = 512" and k: "k < length cs * (16 * spc vol)"
  shows "length (entry_at img vol cs k) = 32"
proof -
  let ?n = "16 * spc vol"
  have n: "0 < ?n" using k by (cases "spc vol") simp_all
  have q: "k div ?n < length cs" using k by (simp add: less_mult_imp_div_less)
  have "entry_at img vol cs (k div ?n * ?n + k mod ?n) =
      take 32 (drop (k mod ?n mod 16 * 32) (img (cluster_to_sector vol (cs ! (k div ?n)) + of_nat (k mod ?n div 16))))"
    using n by (intro entry_at_sector [OF len q] mod_less_divisor)
  then have "entry_at img vol cs k =
      take 32 (drop (k mod ?n mod 16 * 32) (img (cluster_to_sector vol (cs ! (k div ?n)) + of_nat (k mod ?n div 16))))"
    by (simp only: div_mult_mod_eq)
  moreover have "k mod ?n mod 16 * 32 + 32 \<le> 512" using mod_less_divisor [of 16 "k mod ?n"] by linarith
  ultimately show ?thesis using len by simp
qed

lemma fat_chain_next:
  "fat_chain vol (mem st) cs \<Longrightarrow> Suc q < length cs \<Longrightarrow> next_cluster vol (cs ! q) st = Some (cs ! Suc q) \<and> cs ! Suc q \<noteq> 0xFFFFFF"
  using fat_chain_drop [of vol "mem st" cs q]
  by (simp add: Cons_nth_drop_Suc [symmetric] next_cluster_def)

text \<open>The entry of the list, in the cluster it stands in or, at its end, in the next one.\<close>

lemma next_cluster_of_dir:
  assumes "dir_chain vol N (mem st) cs" "dir_pos img vol cs k dl" "k < length cs * (16 * spc vol)"
  obtains dl' q where
    "(if dl_entry dl \<ge> cluster_size vol div 32
      then do { c \<leftarrow> next_cluster vol (dl_cluster dl) st;
                Some (c = 0xFFFFFF, if c = 0xFFFFFF then dl\<lparr>dl_cluster := c\<rparr> else dl\<lparr>dl_cluster := c, dl_entry := 0\<rparr>) }
      else Some (False, dl)) = Some (False, dl')"
    "q < length cs" "dl_cluster dl' = cs ! q" "unat (dl_entry dl') < 16 * spc vol"
    "k = q * (16 * spc vol) + unat (dl_entry dl')"
    "sector_buffer dl' = sector_buffer dl" "buffered_sector dl' = buffered_sector dl"
proof -
  have m: "mounted vol" "0 < spc vol" using assms(1) by (simp_all add: dir_chain_def mounted_def)
  have "unat (cluster_size vol div 32) = 16 * spc vol" by (simp add: mounted_cluster_size [OF m(1)])
  then have ge: "cluster_size vol div 32 \<le> dl_entry dl \<longleftrightarrow> 16 * spc vol \<le> unat (dl_entry dl)"
    unfolding word_le_nat_alt by (simp only:)
  obtain q where q: "q < length cs" "dl_cluster dl = cs ! q" "unat (dl_entry dl) \<le> 16 * spc vol"
    "k = q * (16 * spc vol) + unat (dl_entry dl)"
    using assms(2) unfolding dir_pos_def by blast
  show ?thesis
  proof (cases "unat (dl_entry dl) < 16 * spc vol")
    case True
    then show ?thesis using q ge by (intro that [of dl q]) simp_all
  next
    case False
    then have e: "unat (dl_entry dl) = 16 * spc vol" using q(3) by simp
    then have "Suc q * (16 * spc vol) < length cs * (16 * spc vol)" using q(4) assms(3) by simp
    then have sq: "Suc q < length cs" by (simp only: mult_less_cancel2)
    have "next_cluster vol (cs ! q) st = Some (cs ! Suc q)" "cs ! Suc q \<noteq> 0xFFFFFF"
      using fat_chain_next [of vol st cs q] assms(1) sq by (simp_all add: dir_chain_def)
    then show ?thesis
      using sq q e m ge by (intro that [of "dl\<lparr>dl_cluster := cs ! Suc q, dl_entry := 0\<rparr>" "Suc q"]) simp_all
  qed
qed

lemma read_next_entry_ok:
  assumes S: "serves B img N dinv" and inv: "dinv (g_fat32_drive st) (disk st)"
    and dir: "dir_chain vol N (mem st) cs" and pos: "dir_pos img vol cs k dl" and k: "k < length cs * (16 * spc vol)"
  shows "\<exists>dl' d. read_next_entry B vol (dl, st) =
      Some (if entry_at img vol cs k ! 0 = 0 then None else Some (entry_at img vol cs k), dl', st\<lparr>disk := d\<rparr>) \<and>
    dinv (g_fat32_drive st) d \<and> dir_pos img vol cs (Suc k) dl' \<and> length (entry_at img vol cs k) = 32"
proof -
  have len: "\<forall>lba. length (img lba) = 512" using S by (simp add: serves_def)
  have buf: "length (sector_buffer dl) = 512" "buffered_sector dl \<noteq> 0 \<Longrightarrow> sector_buffer dl = img (buffered_sector dl)"
    using pos by (simp_all add: dir_pos_def)
  obtain dl1 q where A: "(if dl_entry dl \<ge> cluster_size vol div 32
      then do { c \<leftarrow> next_cluster vol (dl_cluster dl) st;
                Some (c = 0xFFFFFF, if c = 0xFFFFFF then dl\<lparr>dl_cluster := c\<rparr> else dl\<lparr>dl_cluster := c, dl_entry := 0\<rparr>) }
      else Some (False, dl)) = Some (False, dl1)"
    and q: "q < length cs" "dl_cluster dl1 = cs ! q" "unat (dl_entry dl1) < 16 * spc vol"
      "k = q * (16 * spc vol) + unat (dl_entry dl1)"
    and same: "sector_buffer dl1 = sector_buffer dl" "buffered_sector dl1 = buffered_sector dl"
    by (rule next_cluster_of_dir [OF dir pos k])
  let ?i = "unat (dl_entry dl1)"
  define right where "right = cluster_to_sector vol (dl_cluster dl1) + dl_entry dl1 div 16"
  have i: "?i div 16 < spc vol" using q(3) by (simp add: less_mult_imp_div_less mult.commute)
  have "of_nat (unat (dl_entry dl1 div 16)) = dl_entry dl1 div 16" by (simp del: unat_div_distrib)
  moreover have "unat (dl_entry dl1 div 16) = ?i div 16" by simp
  ultimately have "of_nat (?i div 16) = dl_entry dl1 div 16" by (simp only:)
  then have right: "right = cluster_to_sector vol (cs ! q) + of_nat (?i div 16)" by (simp add: right_def q(2))
  have "cs ! q \<in> set cs" using q(1) by simp
  then have R: "unat right < N" "right \<noteq> 0" using dir i unfolding right dir_chain_def on_disk_def by blast+
  have entry: "entry_at img vol cs k = take 32 (drop (?i mod 16 * 32) (img right))"
    unfolding q(4) right by (rule entry_at_sector [OF len q(1,3)])
  define dl2 where "dl2 = dl1\<lparr>sector_buffer := img right, buffered_sector := right\<rparr>"
  obtain d where B: "(if buffered_sector dl1 \<noteq> right
      then do { (ok, buf, st) \<leftarrow> disk_read_sector B (sector_buffer dl1) right st;
                Some (ok, if ok then dl1\<lparr>sector_buffer := buf, buffered_sector := right\<rparr> else dl1\<lparr>sector_buffer := buf\<rparr>, st) }
      else Some (True, dl1, st)) = Some (True, dl2, st\<lparr>disk := d\<rparr>)" "dinv (g_fat32_drive st) d"
  proof (cases "buffered_sector dl1 = right")
    case True
    then have "dl2 = dl1" using buf(2) R(2) same by (simp add: dl2_def)
    then show ?thesis using True inv by (intro that [of "disk st"]) simp_all
  next
    case False
    obtain d where "disk_read_sector B (sector_buffer dl1) right st = Some (True, img right, st\<lparr>disk := d\<rparr>)"
      "dinv (g_fat32_drive st) d"
      using disk_read_sector_ok [of B img N dinv st right "sector_buffer dl1"] S inv R buf(1) same by auto
    then show ?thesis using False by (intro that [of d]) (simp_all add: dl2_def)
  qed
  have l32: "length (entry_at img vol cs k) = 32"
    using len mod_less_divisor [of 16 ?i] by (simp add: entry)
  let ?dl = "dl2\<lparr>dl_entry := dl_entry dl2 + 1\<rparr>"
  have e2: "take 32 (drop (unat (dl_entry dl2 mod 16) * 32) (sector_buffer dl2)) = entry_at img vol cs k"
    by (simp add: entry dl2_def)
  have "read_next_entry B vol (dl, st) =
      Some (if entry_at img vol cs k ! 0 = 0 then None else Some (entry_at img vol cs k), ?dl, st\<lparr>disk := d\<rparr>)"
  proof -
    have d16: "(512 :: u32) div 32 = 16" by simp
    have r: "rd (entry_at img vol cs k) 0 = Some (entry_at img vol cs k ! 0)" using l32 by simp
    show ?thesis
      by (simp only: read_next_entry_def Let_def prod.case d16 A bind.bind_lunit if_False right_def [symmetric]
        B(1) not_True_eq_False fat32_dir_list.simps e2 r)
  qed
  moreover have "unat (dl_entry dl1 + 1) = Suc ?i"
  proof -
    have "16 * spc vol < 2 ^ 32" using u8_bound [of "sectors_per_cluster (vol_header vol)"] by (simp add: spc_def)
    then show ?thesis using q(3) by (subst unat_add_le) simp_all
  qed
  then have "dir_pos img vol cs (Suc k) ?dl"
    using len q R by (auto simp: dir_pos_def dl2_def intro!: exI [of _ q])
  ultimately show ?thesis using B(2) l32 by blast
qed

text \<open>Behind the last entry of a chain that ends the directory ends, too.\<close>

definition chain_ends :: "fat32_volume \<Rightarrow> machine \<Rightarrow> u32 list \<Rightarrow> bool" where
  "chain_ends vol m cs \<longleftrightarrow> map_option (\<lambda>v. v AND 0xFFFFFF) (load32 (vol_fat vol + 4 * last cs) m) = Some 0xFFFFFF"

lemma read_next_entry_end:
  assumes dir: "dir_chain vol N (mem st) cs" and ends: "chain_ends vol (mem st) cs"
    and pos: "dir_pos img vol cs (length cs * (16 * spc vol)) dl"
  shows "\<exists>dl'. read_next_entry B vol (dl, st) = Some (None, dl', st)"
proof -
  have m: "mounted vol" "0 < spc vol" using dir by (simp_all add: dir_chain_def mounted_def)
  obtain q where q: "q < length cs" "dl_cluster dl = cs ! q" "unat (dl_entry dl) \<le> 16 * spc vol"
    "length cs * (16 * spc vol) = q * (16 * spc vol) + unat (dl_entry dl)"
    using pos unfolding dir_pos_def by blast
  have "length cs * (16 * spc vol) \<le> Suc q * (16 * spc vol)" using q(3,4) by simp
  then have "length cs \<le> Suc q" using m(2) by (simp only: mult_le_cancel2)
  then have len: "length cs = Suc q" using q(1) by simp
  then have e: "unat (dl_entry dl) = 16 * spc vol" using q(4) by simp
  have "unat (cluster_size vol div 32) = 16 * spc vol" by (simp add: mounted_cluster_size [OF m(1)])
  then have ge: "cluster_size vol div 32 \<le> dl_entry dl" using e unfolding word_le_nat_alt by (simp only: order_refl)
  have "cs \<noteq> []" using q(1) by auto
  then have "dl_cluster dl = last cs" using q(2) len by (simp add: last_conv_nth)
  then have "next_cluster vol (dl_cluster dl) st = Some 0xFFFFFF"
    using ends by (simp add: next_cluster_def chain_ends_def)
  then show ?thesis using ge by (simp add: read_next_entry_def)
qed

section \<open>The search of a directory\<close>

text \<open>An entry in use with a short name.\<close>

definition plain_entry :: "u8 list \<Rightarrow> bool" where
  "plain_entry e \<longleftrightarrow> e ! 0 \<noteq> 0 \<and> e ! 11 \<noteq> 0x0F \<and> 0 \<notin> set (take 11 e)"

definition same_name :: "u8 list \<Rightarrow> u8 list \<Rightarrow> bool" where
  "same_name xs ys \<longleftrightarrow> map fold_case xs = map fold_case ys"

abbreviation (input) no_file :: fat32_file where
  "no_file \<equiv> \<lparr>f_attrib = 0, f_cluster = 0, f_size = 0, f_offset = 0\<rparr>"

lemma file_of_entry_total: "length e = 32 \<Longrightarrow> \<exists>g. file_of_entry e f = Some g \<and> f_offset g = f_offset f"
  by (simp add: file_of_entry_def rd_def get_le16_def get_le32_def)

lemma file_of_entry_offset: "f_offset f = f_offset f' \<Longrightarrow> file_of_entry e f = file_of_entry e f'"
  by (cases f; cases f') (simp add: file_of_entry_def)

lemma next_dir_entry_ok:
  assumes S: "serves B img N dinv" and inv: "dinv (g_fat32_drive st) (disk st)"
    and dir: "dir_chain vol N (mem st) cs" and pos: "dir_pos img vol cs k dl" and k: "k < length cs * (16 * spc vol)"
    and "lfn_length st = 0" "13 \<le> length name" and e: "entry_at img vol cs k ! 0 \<noteq> 0 \<Longrightarrow> plain_entry (entry_at img vol cs k)"
  obtains dl' d f' name' where
    "fat32_next_dir_entry B vol f name (dl, st) = Some (entry_at img vol cs k ! 0 \<noteq> 0, f', name', dl', st\<lparr>disk := d\<rparr>)"
    "dinv (g_fat32_drive st) d" "dir_pos img vol cs (Suc k) dl'" "length name' = length name" "f_offset f' = f_offset f"
    "entry_at img vol cs k ! 0 \<noteq> 0 \<Longrightarrow> file_of_entry (entry_at img vol cs k) f = Some f' \<and> cstr name' (short_name (entry_at img vol cs k))"
proof -
  let ?e = "entry_at img vol cs k"
  obtain dl' d where r: "read_next_entry B vol (dl, st) = Some (if ?e ! 0 = 0 then None else Some ?e, dl', st\<lparr>disk := d\<rparr>)"
    "dinv (g_fat32_drive st) d" "dir_pos img vol cs (Suc k) dl'" "length ?e = 32"
    using read_next_entry_ok [OF S inv dir pos k] by blast
  show ?thesis
  proof (cases "?e ! 0 = 0")
    case True
    have "st\<lparr>disk := d, lfn_length := 0\<rparr> = st\<lparr>disk := d\<rparr>" using assms(6) by simp
    then show ?thesis
      using r True by (intro that [of f name dl' d]) (simp_all add: fat32_next_dir_entry.simps)
  next
    case False
    then have pl: "plain_entry ?e" by (rule e)
    obtain name' where n: "parse_short_filename name ?e = Some name'" "cstr name' (short_name ?e)" "length name' = length name"
      using parse_short_filename_ok [of ?e name] r(4) assms(7) pl by (auto simp: plain_entry_def)
    obtain f' where f: "file_of_entry ?e f = Some f'" "f_offset f' = f_offset f"
      using file_of_entry_total [OF r(4)] by blast
    have rd: "rd ?e 11 = Some (?e ! 11)" "rd ?e 0 = Some (?e ! 0)" using r(4) by simp_all
    have "fat32_next_dir_entry B vol f name (dl, st) = Some (True, f', name', dl', st\<lparr>disk := d\<rparr>)"
      using r(1) False pl assms(6) n(1) f(1) rd
      by (subst fat32_next_dir_entry.simps) (simp add: plain_entry_def del: rd_Some_iff)
    then show ?thesis using that r False n f by simp
  qed
qed

lemma next_dir_entry_end:
  assumes "dir_chain vol N (mem st) cs" "chain_ends vol (mem st) cs" "dir_pos img vol cs (length cs * (16 * spc vol)) dl"
    and "lfn_length st = 0"
  shows "\<exists>dl'. fat32_next_dir_entry B vol f name (dl, st) = Some (False, f, name, dl', st)"
proof -
  obtain dl' where "read_next_entry B vol (dl, st) = Some (None, dl', st)"
    using read_next_entry_end [OF assms(1-3)] by blast
  moreover have "st\<lparr>lfn_length := 0\<rparr> = st" using assms(4) by simp
  ultimately show ?thesis by (simp add: fat32_next_dir_entry.simps)
qed

lemma find_entry_ok:
  assumes S: "serves B img N dinv" and up: "cstr uname us"
    and before: "\<forall>j<m. plain_entry (entry_at img vol cs j) \<and> \<not> same_name (short_name (entry_at img vol cs j)) us"
    and hit: "hit \<Longrightarrow> m < length cs * (16 * spc vol) \<and> plain_entry (entry_at img vol cs m) \<and>
      same_name (short_name (entry_at img vol cs m)) us"
    and miss: "\<not> hit \<Longrightarrow> m < length cs * (16 * spc vol) \<and> entry_at img vol cs m ! 0 = 0 \<or> m = length cs * (16 * spc vol)"
  shows "dinv (g_fat32_drive st) (disk st) \<Longrightarrow> dir_chain vol N (mem st) cs \<Longrightarrow> lfn_length st = 0 \<Longrightarrow>
    (m = length cs * (16 * spc vol) \<longrightarrow> chain_ends vol (mem st) cs) \<Longrightarrow> k \<le> m \<Longrightarrow>
    dir_pos img vol cs k dl \<Longrightarrow> 13 \<le> length name \<Longrightarrow> f_offset f = 0 \<Longrightarrow>
    \<exists>d. find_entry B vol uname f name (dl, st) =
      Some ((if hit then file_of_entry (entry_at img vol cs m) no_file else None), st\<lparr>disk := d\<rparr>) \<and>
      dinv (g_fat32_drive st) d"
proof (induction "m - k" arbitrary: k st dl f name rule: less_induct)
  case less
  show ?case
  proof (cases "k = length cs * (16 * spc vol)")
    case True
    then have m: "m = length cs * (16 * spc vol)" "\<not> hit" using less.prems(5) hit miss by (cases hit; auto)+
    then have "chain_ends vol (mem st) cs" "dir_pos img vol cs (length cs * (16 * spc vol)) dl"
      using less.prems(4,6) True by simp_all
    from next_dir_entry_end [OF less.prems(2) this less.prems(3)] obtain dl' where
      "fat32_next_dir_entry B vol f name (dl, st) = Some (False, f, name, dl', st)" by blast
    then have "find_entry B vol uname f name (dl, st) = Some (None, st\<lparr>disk := disk st\<rparr>)"
      by (simp add: find_entry.simps [of _ _ _ f])
    then show ?thesis using m(2) less.prems(1) by (intro exI [of _ "disk st"]) simp
  next
    case False
    then have k: "k < length cs * (16 * spc vol)" using less.prems(5) hit miss by (cases hit; auto)
    have e: "plain_entry (entry_at img vol cs k)" if "entry_at img vol cs k ! 0 \<noteq> 0"
      using that before hit miss less.prems(5) k by (cases "k = m"; cases hit) auto
    obtain dl' d f' name' where
      n: "fat32_next_dir_entry B vol f name (dl, st) = Some (entry_at img vol cs k ! 0 \<noteq> 0, f', name', dl', st\<lparr>disk := d\<rparr>)"
      and p: "dinv (g_fat32_drive st) d" "dir_pos img vol cs (Suc k) dl'" "length name' = length name" "f_offset f' = f_offset f"
      and fn: "entry_at img vol cs k ! 0 \<noteq> 0 \<Longrightarrow>
        file_of_entry (entry_at img vol cs k) f = Some f' \<and> cstr name' (short_name (entry_at img vol cs k))"
      using next_dir_entry_ok [OF S less.prems(1,2,6) k less.prems(3,7) e] by metis
    show ?thesis
    proof (cases "k = m")
      case True
      show ?thesis
      proof (cases hit)
        case no: False
        then have "entry_at img vol cs m ! 0 = 0" using miss k True by auto
        then show ?thesis
          using n p(1) True no by (intro exI [of _ d]) (simp add: find_entry.simps [of _ _ _ f])
      next
        case yes: True
        then have nz: "entry_at img vol cs m ! 0 \<noteq> 0" using hit by (auto simp: plain_entry_def)
        then have "cstr name' (short_name (entry_at img vol cs m))" "file_of_entry (entry_at img vol cs m) f = Some f'"
          using fn True by simp_all
        moreover from this obtain r where "fat32_strcasecmp name' uname = Some r" "r = 0"
          using strcasecmp_ok [OF _ up] hit yes unfolding same_name_def by blast
        moreover have "file_of_entry (entry_at img vol cs m) no_file = file_of_entry (entry_at img vol cs m) f"
          using less.prems(8) by (intro file_of_entry_offset) simp
        ultimately show ?thesis
          using n p(1) True yes nz by (intro exI [of _ d]) (simp add: find_entry.simps [of _ _ _ f])
      qed
    next
      case False
      then have lt: "k < m" using less.prems(5) by simp
      then have nz: "entry_at img vol cs k ! 0 \<noteq> 0" using before by (auto simp: plain_entry_def)
      then obtain r where "fat32_strcasecmp name' uname = Some r" "r \<noteq> 0"
        using strcasecmp_ok [OF _ up] fn before lt unfolding same_name_def by blast
      then have step: "find_entry B vol uname f name (dl, st) = find_entry B vol uname f' name' (dl', st\<lparr>disk := d\<rparr>)"
        using n nz by (subst find_entry.simps) simp
      have "\<exists>d'. find_entry B vol uname f' name' (dl', st\<lparr>disk := d\<rparr>) =
          Some ((if hit then file_of_entry (entry_at img vol cs m) no_file else None),
            (st\<lparr>disk := d\<rparr>)\<lparr>disk := d'\<rparr>) \<and> dinv (g_fat32_drive (st\<lparr>disk := d\<rparr>)) d'"
        using less.prems p lt by (intro less.hyps) simp_all
      then show ?thesis unfolding step by simp
    qed
  qed
qed

section \<open>Paths\<close>

lemma fold_case_idem [simp]: "fold_case (fold_case c) = fold_case c"
proof (cases "97 \<le> sint c \<and> sint c \<le> 122")
  case True
  then have "sint c \<in> set [97..122]" by (simp only: set_upto atLeastAtMost_iff)
  moreover have "c = word_of_int (sint c)" by simp
  ultimately obtain k where k: "k \<in> set [97..122]" "c = word_of_int k" by metis
  have all: "list_all (\<lambda>k. fold_case (fold_case (word_of_int k)) = fold_case (word_of_int k)) [97..122]"
    by (simp add: fold_case_def toupper_def upto_rec1)
  show ?thesis unfolding k(2) by (rule list_all_iff [THEN iffD1, rule_format, OF all k(1)])
next
  case False
  then show ?thesis by (auto simp: fold_case_def toupper_def)
qed

lemma map_fold_case_idem: "map fold_case (map fold_case xs) = map fold_case xs"
  by simp

text \<open>The directory \<open>dir\<close> has a file or directory under the name \<open>xs\<close>: its first entry of that name is \<open>f\<close>.\<close>

definition dir_finds ::
  "(u32 \<Rightarrow> u8 list) \<Rightarrow> fat32_volume \<Rightarrow> nat \<Rightarrow> machine \<Rightarrow> fat32_file \<Rightarrow> u8 list \<Rightarrow> fat32_file \<Rightarrow> bool" where
  "dir_finds img vol N m dir xs f \<longleftrightarrow> f_attrib dir AND 0x10 \<noteq> 0 \<and>
     (\<exists>cs k. dir_chain vol N m cs \<and> cs \<noteq> [] \<and> hd cs = f_cluster dir \<and> k < length cs * (16 * spc vol) \<and>
        (\<forall>j<k. plain_entry (entry_at img vol cs j) \<and> \<not> same_name (short_name (entry_at img vol cs j)) xs) \<and>
        plain_entry (entry_at img vol cs k) \<and> same_name (short_name (entry_at img vol cs k)) xs \<and>
        file_of_entry (entry_at img vol cs k) no_file = Some f)"

text \<open>The directory ends without an entry of the name \<open>xs\<close>.\<close>

definition dir_misses ::
  "(u32 \<Rightarrow> u8 list) \<Rightarrow> fat32_volume \<Rightarrow> nat \<Rightarrow> machine \<Rightarrow> fat32_file \<Rightarrow> u8 list \<Rightarrow> bool" where
  "dir_misses img vol N m dir xs \<longleftrightarrow> f_attrib dir AND 0x10 \<noteq> 0 \<and>
     (\<exists>cs k. dir_chain vol N m cs \<and> cs \<noteq> [] \<and> hd cs = f_cluster dir \<and>
        (\<forall>j<k. plain_entry (entry_at img vol cs j) \<and> \<not> same_name (short_name (entry_at img vol cs j)) xs) \<and>
        (k < length cs * (16 * spc vol) \<and> entry_at img vol cs k ! 0 = 0 \<or>
         k = length cs * (16 * spc vol) \<and> chain_ends vol m cs))"

text \<open>What a path of components leads to, from a directory on.\<close>

fun resolves ::
  "(u32 \<Rightarrow> u8 list) \<Rightarrow> fat32_volume \<Rightarrow> nat \<Rightarrow> machine \<Rightarrow> fat32_file \<Rightarrow> u8 list list \<Rightarrow> fat32_file option \<Rightarrow> bool" where
  "resolves img vol N m dir [] r \<longleftrightarrow> r = Some dir"
| "resolves img vol N m dir (x # xs) r \<longleftrightarrow>
     dir_misses img vol N m dir x \<and> r = None \<or>
     (\<exists>f. dir_finds img vol N m dir x f \<and>
        (if xs \<noteq> [] \<and> f_attrib f AND 0x10 = 0 then r = None else resolves img vol N m f xs r))"

section \<open>Directories as the FAT format has them\<close>

text \<open>
  The names and files of a directory, stated from the format and without the reader's routines.  A
  directory is the list of its entries of 32 bytes up to the first that starts with zero, or up to
  the end of its chain.  An entry that starts with \<open>0xE5\<close> is deleted, bit 3 of the attributes marks
  a volume label, the attributes 15 a part of a long name; every other entry is a file, with its name
  in eight and three bytes padded with blanks, and numbers with the low byte first.
\<close>

definition trimmed :: "u8 list \<Rightarrow> u8 list" where
  "trimmed xs = rev (dropWhile (\<lambda>c. c = 32) (rev xs))"

definition ext_of :: "u8 list \<Rightarrow> u8 list" where
  "ext_of e = take 3 (drop 8 e)"

definition dos_name :: "u8 list \<Rightarrow> u8 list" where
  "dos_name e =
     trimmed ((if e ! 0 = 0x05 then 0xE5 else e ! 0) # take 7 (tl e)) @
     (if trimmed (ext_of e) = [] then [] else 46 # trimmed (ext_of e))"

definition number_at :: "u8 list \<Rightarrow> nat list \<Rightarrow> u32" where
  "number_at e ks = of_nat (foldr (\<lambda>k n. unat (e ! k) + 256 * n) ks 0)"

definition dos_file :: "u8 list \<Rightarrow> fat32_file" where
  "dos_file e = \<lparr>f_attrib = number_at e [11], f_cluster = number_at e [26, 27, 20, 21],
     f_size = number_at e [28, 29, 30, 31], f_offset = 0\<rparr>"

definition is_label :: "u8 list \<Rightarrow> bool" where
  "is_label e \<longleftrightarrow> bit (e ! 11) 3"

definition is_file :: "u8 list \<Rightarrow> bool" where
  "is_file e \<longleftrightarrow> e ! 0 \<noteq> 0xE5 \<and> \<not> is_label e"

definition dos_lookup :: "u8 list list \<Rightarrow> u8 list \<Rightarrow> fat32_file option" where
  "dos_lookup es x = map_option dos_file (find (\<lambda>e. is_file e \<and> same_name (dos_name e) x) es)"

definition dir_entries :: "(u32 \<Rightarrow> u8 list) \<Rightarrow> fat32_volume \<Rightarrow> u32 list \<Rightarrow> u8 list list" where
  "dir_entries img vol cs =
     takeWhile (\<lambda>e. e ! 0 \<noteq> 0) (map (entry_at img vol cs) [0..<length cs * (16 * spc vol)])"

definition lists_dir ::
  "(u32 \<Rightarrow> u8 list) \<Rightarrow> fat32_volume \<Rightarrow> nat \<Rightarrow> machine \<Rightarrow> fat32_file \<Rightarrow> u8 list list \<Rightarrow> bool" where
  "lists_dir img vol N m dir es \<longleftrightarrow> f_attrib dir AND 0x10 \<noteq> 0 \<and>
     (\<exists>cs. dir_chain vol N m cs \<and> cs \<noteq> [] \<and> hd cs = f_cluster dir \<and> es = dir_entries img vol cs \<and>
        (length es < length cs * (16 * spc vol) \<or> chain_ends vol m cs))"

text \<open>
  The directories in which the reader finds the name \<open>x\<close> as the format asks: no entry is a part of a
  long name, no byte of a name is zero, and \<open>x\<close> is neither the name of a volume label nor that of a
  file whose extension has one or two characters (the reader compares the blanks behind such an
  extension, and does not look at the label bit).  Names looked up are printable ASCII without a
  blank at the end.
\<close>

definition short_ext :: "u8 list \<Rightarrow> bool" where
  "short_ext e \<longleftrightarrow> trimmed (ext_of e) \<noteq> [] \<and> trimmed (ext_of e) \<noteq> ext_of e"

definition readable_for :: "u8 list \<Rightarrow> u8 list list \<Rightarrow> bool" where
  "readable_for x es \<longleftrightarrow> (\<forall>e\<in>set es. e ! 11 \<noteq> 0x0F \<and> 0 \<notin> set (take 11 e) \<and>
     (is_label e \<or> short_ext e \<longrightarrow> \<not> same_name (dos_name e) x))"

definition ascii_name :: "u8 list \<Rightarrow> bool" where
  "ascii_name x \<longleftrightarrow> x \<noteq> [] \<and> last x \<noteq> 32 \<and> (\<forall>c\<in>set x. 32 \<le> unat c \<and> unat c < 127)"

fun leads_to ::
  "(u32 \<Rightarrow> u8 list) \<Rightarrow> fat32_volume \<Rightarrow> nat \<Rightarrow> machine \<Rightarrow> fat32_file \<Rightarrow> u8 list list \<Rightarrow> fat32_file option \<Rightarrow> bool" where
  "leads_to img vol N m dir [] r \<longleftrightarrow> r = Some dir"
| "leads_to img vol N m dir (x # xs) r \<longleftrightarrow>
     (\<exists>es. lists_dir img vol N m dir es \<and> readable_for x es \<and>
        (case dos_lookup es x of
           None \<Rightarrow> r = None
         | Some f \<Rightarrow> if xs \<noteq> [] \<and> f_attrib f AND 0x10 = 0 then r = None else leads_to img vol N m f xs r))"

text \<open>The names the reader compares are those of the format.\<close>

lemma u8_all: "list_all (\<lambda>k. P (word_of_int k)) [0..255] \<Longrightarrow> P (c :: u8)"
proof -
  assume all: "list_all (\<lambda>k. P (word_of_int k)) [0..255]"
  have "uint c < 2 ^ 8" using uint_lt2p [of c] by simp
  then have "uint c \<in> set [0..255]" by (simp only: set_upto atLeastAtMost_iff) simp
  then have "P (word_of_int (uint c))" using all unfolding list_all_iff by (rule bspec [rotated])
  then show ?thesis by simp
qed

lemma fold_case_tolower [simp]: "fold_case (word_of_int (tolower (sint c))) = fold_case c"
  by (rule u8_all [where P = "\<lambda>c. fold_case (word_of_int (tolower (sint c))) = fold_case c"])
    (simp add: fold_case_def toupper_def tolower_def upto_rec1)

lemma fold_case_facts:
  "fold_case c = 32 \<longleftrightarrow> c = 32" "fold_case 0xE5 = 0xE5" "fold_case 5 = 5"
  "32 \<le> unat c \<Longrightarrow> unat c < 127 \<Longrightarrow> fold_case c \<noteq> 0xE5 \<and> fold_case c \<noteq> 5"
proof -
  show "fold_case c = 32 \<longleftrightarrow> c = 32"
    by (rule u8_all [where P = "\<lambda>c. fold_case c = 32 \<longleftrightarrow> c = 32"])
      (simp add: fold_case_def toupper_def upto_rec1)
  have "32 \<le> unat c \<longrightarrow> unat c < 127 \<longrightarrow> fold_case c \<noteq> 0xE5 \<and> fold_case c \<noteq> 5"
    by (rule u8_all [where P = "\<lambda>c. 32 \<le> unat c \<longrightarrow> unat c < 127 \<longrightarrow> fold_case c \<noteq> 0xE5 \<and> fold_case c \<noteq> 5"])
      (simp add: fold_case_def toupper_def upto_rec1)
  then show "32 \<le> unat c \<Longrightarrow> unat c < 127 \<Longrightarrow> fold_case c \<noteq> 0xE5 \<and> fold_case c \<noteq> 5" by blast
qed (simp_all add: fold_case_def toupper_def)

lemma list_11: "length e = 32 \<Longrightarrow> take 11 e = e ! 0 # take 7 (tl e) @ ext_of e" for e :: "u8 list"
proof -
  assume l: "length e = 32"
  then obtain a e' where e: "e = a # e'" by (cases e) auto
  have "take 10 e' = take 7 e' @ take 3 (drop 7 e')" using take_add [of 7 3 e'] by simp
  then show ?thesis by (simp add: e ext_of_def numeral_eq_Suc)
qed

lemma short_name_trimmed:
  assumes "length e = 32"
  shows "short_name e =
    (let base = trimmed (e ! 0 # take 7 (tl e)) in if ext_of e = [32, 32, 32] then base
     else map (\<lambda>c. if e ! 12 \<noteq> 0 then word_of_int (tolower (sint c)) else c) (base @ 46 # ext_of e))"
proof -
  obtain a e' where e: "e = a # e'" using assms by (cases e) auto
  have "take 8 e = e ! 0 # take 7 (tl e)" by (simp add: e numeral_eq_Suc)
  then show ?thesis by (simp add: short_name_def trimmed_def ext_of_def Let_def)
qed

lemma ext_blank: "length xs = 3 \<Longrightarrow> trimmed xs = [] \<longleftrightarrow> xs = [32, 32, 32]"
  by (auto simp: trimmed_def dropWhile_eq_Nil_conv numeral_eq_Suc length_Suc_conv)

lemma fold_lower: "map fold_case (map (\<lambda>c. if b then word_of_int (tolower (sint c)) else c) xs) = map fold_case xs"
  by (cases b) simp_all

lemma trimmed_Cons: "c \<noteq> 32 \<Longrightarrow> \<exists>ys. trimmed (c # xs) = c # ys"
proof -
  assume c: "c \<noteq> 32"
  have "dropWhile (\<lambda>c. c = 32) (rev xs @ [c]) = dropWhile (\<lambda>c. c = 32) (rev xs) @ [c]"
    using c by (cases "\<forall>x\<in>set xs. x = 32") (simp_all add: dropWhile_append3 dropWhile_append1)
  then show ?thesis by (simp add: trimmed_def)
qed

text \<open>With a blank or a full extension both names agree; with a short one the reader's ends in a blank.\<close>

lemma short_name_dos:
  assumes len: "length e = 32" and "e ! 0 \<noteq> 5"
  shows "\<not> short_ext e \<Longrightarrow> map fold_case (short_name e) = map fold_case (dos_name e)"
    and "short_ext e \<Longrightarrow> short_name e \<noteq> [] \<and> fold_case (last (short_name e)) = 32"
proof -
  have l3: "length (ext_of e) = 3" using len by (simp add: ext_of_def)
  have d: "dos_name e = trimmed (e ! 0 # take 7 (tl e)) @ (if ext_of e = [32, 32, 32] then [] else 46 # trimmed (ext_of e))"
    using assms(2) by (simp add: dos_name_def ext_blank [OF l3])
  show "map fold_case (short_name e) = map fold_case (dos_name e)" if "\<not> short_ext e"
    using that ext_blank [OF l3] fold_case_tolower [of 46]
    by (auto simp: short_name_trimmed [OF len] d Let_def fold_lower short_ext_def simp del: map_map)
  assume s: "short_ext e"
  then have ne: "ext_of e \<noteq> [32, 32, 32]" using ext_blank [OF l3] by (auto simp: short_ext_def)
  have "last (ext_of e) = 32"
  proof (rule ccontr)
    assume "last (ext_of e) \<noteq> 32"
    moreover obtain ys y where "ext_of e = ys @ [y]" using l3 by (cases "ext_of e" rule: rev_cases) auto
    ultimately have "trimmed (ext_of e) = ext_of e" by (simp add: trimmed_def)
    then show False using s by (simp add: short_ext_def)
  qed
  moreover have "ext_of e \<noteq> []" using l3 by auto
  ultimately show "short_name e \<noteq> [] \<and> fold_case (last (short_name e)) = 32"
    using ne by (simp add: short_name_trimmed [OF len] Let_def last_map fold_case_facts(1)) (simp add: tolower_def)
qed

lemma short_name_head:
  assumes "length e = 32" and "e ! 0 \<noteq> 32" "e ! 0 = 5 \<or> e ! 0 = 0xE5"
  shows "short_name e \<noteq> [] \<and> fold_case (hd (short_name e)) = e ! 0"
proof -
  obtain ys where "trimmed (e ! 0 # take 7 (tl e)) = e ! 0 # ys" using trimmed_Cons [OF assms(2)] by blast
  then show ?thesis using assms(3) by (auto simp: short_name_trimmed [OF assms(1)] Let_def fold_case_facts)
qed

lemma dos_name_head: "e ! 0 = 5 \<Longrightarrow> \<exists>ys. dos_name e = 0xE5 # ys"
  using trimmed_Cons [of "0xE5" "take 7 (tl e)"] by (auto simp: dos_name_def)

lemma same_name_dos:
  assumes len: "length e = 32" and x: "ascii_name x"
    and hyp: "is_label e \<or> short_ext e \<Longrightarrow> \<not> same_name (dos_name e) x"
  shows "same_name (short_name e) x \<longleftrightarrow> is_file e \<and> same_name (dos_name e) x"
proof -
  have hd: "fold_case (hd x) \<noteq> 5" "fold_case (hd x) \<noteq> 0xE5" and last: "fold_case (last x) \<noteq> 32" and ne: "x \<noteq> []"
    using x fold_case_facts(4) [of "hd x"] by (auto simp: ascii_name_def fold_case_facts(1))
  have head: "\<not> same_name (c # ys) x" if "fold_case c = 5 \<or> fold_case c = 0xE5" for c ys
    using that hd ne by (cases x) (auto simp: same_name_def)
  have special: "\<not> same_name (short_name e) x" if "e ! 0 = 5 \<or> e ! 0 = 0xE5"
  proof -
    have "e ! 0 \<noteq> 32" using that by auto
    from short_name_head [OF len this that] obtain c ys where "short_name e = c # ys" "fold_case c = e ! 0"
      by (cases "short_name e") auto
    then show ?thesis using head [of c ys] that by simp
  qed
  have ending: "\<not> same_name ys x" if "ys \<noteq> []" "fold_case (last ys) = 32" for ys
  proof
    assume "same_name ys x"
    then have "last (map fold_case ys) = last (map fold_case x)" by (simp add: same_name_def)
    then show False using that last ne by (simp add: last_map)
  qed
  show ?thesis
  proof (cases "e ! 0 = 5 \<or> e ! 0 = 0xE5")
    case True
    have "\<not> (is_file e \<and> same_name (dos_name e) x)"
    proof (cases "e ! 0 = 5")
      case True
      obtain ys where "dos_name e = 0xE5 # ys" using dos_name_head [OF True] by blast
      then show ?thesis using head [of "0xE5" ys] by (simp add: fold_case_facts)
    next
      case False
      then show ?thesis using True by (simp add: is_file_def)
    qed
    then show ?thesis using special [OF True] by blast
  next
    case False
    then show ?thesis
      using short_name_dos [OF len] ending hyp by (cases "short_ext e") (auto simp: same_name_def is_file_def)
  qed
qed

text \<open>The numbers the reader puts together are those of the format.\<close>

lemma le16_bytes:
  fixes b0 b1 :: u8
  shows "ucast (ucast b0 OR push_bit 8 (ucast b1) :: u16) = (ucast b0 OR push_bit 8 (ucast b1) :: u32)"
  by (rule bit_word_eqI) (auto simp: bit_simps dest: bit_imp_le_length)

lemma le32_bytes:
  fixes b0 b1 b2 b3 :: u8
  shows "(ucast b0 OR push_bit 8 (ucast b1)) OR push_bit 16 (ucast b2 OR push_bit 8 (ucast b3)) =
    (of_nat (unat b0 + 256 * (unat b1 + 256 * (unat b2 + 256 * unat b3))) :: u32)"
proof -
  have p: "push_bit n x = 2 ^ n * x" for n and x :: u32 by (simp add: push_bit_eq_mult)
  have "ucast b0 OR push_bit 8 (ucast b1) = (ucast b0 + push_bit 8 (ucast b1) :: u32)"
    by (rule disjunctive_add [symmetric]) (auto simp: bit_simps bit_u8_high)
  moreover have "ucast b2 OR push_bit 8 (ucast b3) = (ucast b2 + push_bit 8 (ucast b3) :: u32)"
    by (rule disjunctive_add [symmetric]) (auto simp: bit_simps bit_u8_high)
  moreover have "(ucast b0 OR push_bit 8 (ucast b1)) OR push_bit 16 (ucast b2 OR push_bit 8 (ucast b3)) =
      ((ucast b0 OR push_bit 8 (ucast b1)) + push_bit 16 (ucast b2 OR push_bit 8 (ucast b3)) :: u32)"
    by (rule disjunctive_add [symmetric]) (auto simp: bit_simps bit_u8_high)
  ultimately show ?thesis by (simp add: p distrib_left)
qed

lemma file_of_entry_dos:
  assumes "length e = 32"
  shows "file_of_entry e no_file = Some (dos_file e)"
proof -
  have "push_bit 16 (ucast (ucast (e ! 20) OR push_bit 8 (ucast (e ! 21)) :: u16)) OR
      ucast (ucast (e ! 26) OR push_bit 8 (ucast (e ! 27)) :: u16) = number_at e [26, 27, 20, 21]"
    unfolding le16_bytes by (subst or.commute) (simp only: le32_bytes number_at_def foldr.simps o_def id_def mult_0_right add_0_right)
  moreover have "ucast (ucast (e ! 28) OR push_bit 8 (ucast (e ! 29)) :: u16) OR
      push_bit 16 (ucast (ucast (e ! 30) OR push_bit 8 (ucast (e ! 31)) :: u16)) = number_at e [28, 29, 30, 31]"
    unfolding le16_bytes by (simp only: le32_bytes number_at_def foldr.simps o_def id_def mult_0_right add_0_right)
  moreover have "ucast (e ! 11) = number_at e [11]" by (simp add: number_at_def)
  ultimately show ?thesis
    using assms by (simp add: file_of_entry_def dos_file_def rd_def get_le16_def get_le32_def)
qed

text \<open>So a lookup by the format is one by the reader.\<close>

lemma dir_entries_nth:
  "k < length (dir_entries img vol cs) \<Longrightarrow> dir_entries img vol cs ! k = entry_at img vol cs k"
  "length (dir_entries img vol cs) \<le> length cs * (16 * spc vol)"
  "length (dir_entries img vol cs) < length cs * (16 * spc vol) \<Longrightarrow>
    entry_at img vol cs (length (dir_entries img vol cs)) ! 0 = 0"
proof -
  let ?P = "\<lambda>e :: u8 list. e ! 0 \<noteq> 0" and ?es = "map (entry_at img vol cs) [0..<length cs * (16 * spc vol)]"
  show le: "length (dir_entries img vol cs) \<le> length cs * (16 * spc vol)"
    using length_takeWhile_le [of ?P ?es] by (simp add: dir_entries_def)
  show "dir_entries img vol cs ! k = entry_at img vol cs k" if "k < length (dir_entries img vol cs)"
    using that le takeWhile_nth [of k ?P ?es] by (simp add: dir_entries_def)
  show "entry_at img vol cs (length (dir_entries img vol cs)) ! 0 = 0"
    if "length (dir_entries img vol cs) < length cs * (16 * spc vol)"
    using that nth_length_takeWhile [of ?P ?es] by (simp add: dir_entries_def)
qed

lemma dir_entries_nonzero: "e \<in> set (dir_entries img vol cs) \<Longrightarrow> e ! 0 \<noteq> 0"
  by (auto simp: dir_entries_def dest: set_takeWhileD)

lemma dos_lookup_reader:
  assumes len: "\<forall>lba. length (img lba) = 512" and l: "lists_dir img vol N m dir es"
    and ok: "readable_for x es" "ascii_name x"
  shows "case dos_lookup es x of None \<Rightarrow> dir_misses img vol N m dir x | Some f \<Rightarrow> dir_finds img vol N m dir x f"
proof -
  obtain cs where d: "f_attrib dir AND 0x10 \<noteq> 0" "dir_chain vol N m cs" "cs \<noteq> []" "hd cs = f_cluster dir"
      "length es < length cs * (16 * spc vol) \<or> chain_ends vol m cs" and es: "es = dir_entries img vol cs"
    using l unfolding lists_dir_def by blast
  note nth = dir_entries_nth [where img = img and vol = vol and cs = cs, folded es]
  have l32: "length (entry_at img vol cs k) = 32" if "k < length es" for k
    using that nth(2) len by (intro entry_at_length) (simp_all add: d)
  have ent: "plain_entry (entry_at img vol cs k)"
    "same_name (short_name (entry_at img vol cs k)) x \<longleftrightarrow> is_file (es ! k) \<and> same_name (dos_name (es ! k)) x"
    if k: "k < length es" for k
  proof -
    have mem: "es ! k \<in> set es" using k by simp
    then show "plain_entry (entry_at img vol cs k)"
      using ok(1) dir_entries_nonzero [of "es ! k" img vol cs] nth(1) [OF k] es
      by (auto simp: readable_for_def plain_entry_def)
    show "same_name (short_name (entry_at img vol cs k)) x \<longleftrightarrow> is_file (es ! k) \<and> same_name (dos_name (es ! k)) x"
      using same_name_dos [OF _ ok(2), of "es ! k"] l32 [OF k] nth(1) [OF k] ok(1) mem
      by (auto simp: readable_for_def)
  qed
  show ?thesis
  proof (cases "find (\<lambda>e. is_file e \<and> same_name (dos_name e) x) es")
    case None
    then have "\<forall>k<length es. \<not> same_name (short_name (entry_at img vol cs k)) x"
      using ent(2) by (simp add: find_None_iff)
    then have "dir_misses img vol N m dir x"
      unfolding dir_misses_def using d ent(1) nth(2) nth(3)
      by (intro conjI exI [of _ cs] exI [of _ "length es"]) auto
    then show ?thesis using None by (simp add: dos_lookup_def)
  next
    case (Some e)
    then obtain k where k: "k < length es" "is_file (es ! k) \<and> same_name (dos_name (es ! k)) x" "e = es ! k"
        "\<forall>j<k. \<not> (is_file (es ! j) \<and> same_name (dos_name (es ! j)) x)"
      by (auto simp: find_Some_iff)
    have "dir_finds img vol N m dir x (dos_file e)"
      unfolding dir_finds_def
      using d k ent nth(2) file_of_entry_dos [OF l32 [OF k(1)]] nth(1) [OF k(1)]
      by (intro conjI exI [of _ cs] exI [of _ k]) auto
    then show ?thesis using Some by (simp add: dos_lookup_def)
  qed
qed

lemma leads_to_resolves:
  assumes "\<forall>lba. length (img lba) = 512"
  shows "leads_to img vol N m dir xs r \<Longrightarrow> \<forall>x\<in>set xs. ascii_name x \<Longrightarrow> resolves img vol N m dir xs r"
proof (induction xs arbitrary: dir)
  case (Cons x xs)
  then obtain es where es: "lists_dir img vol N m dir es" "readable_for x es" "ascii_name x"
      "case dos_lookup es x of None \<Rightarrow> r = None
         | Some f \<Rightarrow> if xs \<noteq> [] \<and> f_attrib f AND 0x10 = 0 then r = None else leads_to img vol N m f xs r"
    by auto
  show ?case
    using dos_lookup_reader [OF assms es(1,2,3)] es(4) Cons.IH Cons.prems(2)
    by (cases "dos_lookup es x") (auto split: if_splits)
qed simp

fun path_of :: "u8 list list \<Rightarrow> u8 list" where
  "path_of [] = []"
| "path_of [x] = x"
| "path_of (x # xs) = x @ 47 # path_of xs"

definition component_ok :: "u8 list \<Rightarrow> bool" where
  "component_ok x \<longleftrightarrow> x \<noteq> [] \<and> length x < 256 \<and> 0 \<notin> set x \<and> 47 \<notin> set x"

lemma path_end_ok: "0 \<notin> set x \<Longrightarrow> 47 \<notin> set x \<Longrightarrow> c = 0 \<or> c = 47 \<Longrightarrow> path_end (x @ c # rest) = Some (length x)"
  by (induction x) auto

lemma upcase_ok: "0 \<notin> set x \<Longrightarrow> upcase (x @ 0 # rest) = Some (map fold_case x @ [0])"
  by (induction x) auto

lemma search_ok:
  assumes S: "serves B img N dinv" and inv: "dinv (g_fat32_drive st) (disk st)" and "lfn_length st = 0"
    and scr: "length (sector_buffer scratch) = 512" and x: "component_ok x"
    and r: "dir_misses img vol N (mem st) dir x \<and> r = None \<or> (\<exists>f. dir_finds img vol N (mem st) dir x f \<and> r = Some f)"
  shows "\<exists>d. find_entry B vol (map fold_case x @ [0]) no_file (replicate 256 0) (fat32_list_dir dir scratch, st) =
      Some (r, st\<lparr>disk := d\<rparr>) \<and> dinv (g_fat32_drive st) d"
proof -
  have "fold_case ` set x \<subseteq> - {0}" using x by (auto simp: component_ok_def)
  then have up: "cstr (map fold_case x @ [0]) (map fold_case x)" by (auto simp: cstr_def)
  have name: "same_name ys (map fold_case x) = same_name ys x" for ys by (simp only: same_name_def map_fold_case_idem)
  obtain cs k hit where c: "f_attrib dir AND 0x10 \<noteq> 0" "dir_chain vol N (mem st) cs" "cs \<noteq> []" "hd cs = f_cluster dir"
    "\<forall>j<k. plain_entry (entry_at img vol cs j) \<and> \<not> same_name (short_name (entry_at img vol cs j)) (map fold_case x)"
    "hit \<Longrightarrow> k < length cs * (16 * spc vol) \<and> plain_entry (entry_at img vol cs k) \<and>
      same_name (short_name (entry_at img vol cs k)) (map fold_case x)"
    "\<not> hit \<Longrightarrow> k < length cs * (16 * spc vol) \<and> entry_at img vol cs k ! 0 = 0 \<or> k = length cs * (16 * spc vol)"
    "k = length cs * (16 * spc vol) \<longrightarrow> chain_ends vol (mem st) cs"
    "r = (if hit then file_of_entry (entry_at img vol cs k) no_file else None)"
  proof -
    from r consider (miss) "dir_misses img vol N (mem st) dir x" "r = None"
      | (found) f where "dir_finds img vol N (mem st) dir x f" "r = Some f" by blast
    then show ?thesis
    proof cases
      case miss
      then show ?thesis using that [where hit = False] unfolding dir_misses_def name by auto
    next
      case found
      then show ?thesis using that [where hit = True] unfolding dir_finds_def name by auto
    qed
  qed
  have "dir_pos img vol cs 0 (fat32_list_dir dir scratch)"
    using c(1,3,4) scr by (auto simp: dir_pos_def fat32_list_dir_def hd_conv_nth intro!: exI [of _ 0])
  then show ?thesis
    using find_entry_ok [where img = img and cs = cs and vol = vol and m = k and hit = hit, OF S up c(5,6,7) inv c(2) assms(3) c(8), of 0]
    unfolding c(9) by simp
qed

lemma find_path_ok:
  assumes S: "serves B img N dinv" and scr: "length (sector_buffer scratch) = 512"
  shows "dinv (g_fat32_drive st) (disk st) \<Longrightarrow> lfn_length st = 0 \<Longrightarrow> comps \<noteq> [] \<Longrightarrow> \<forall>x\<in>set comps. component_ok x \<Longrightarrow>
    resolves img vol N (mem st) dir comps r \<Longrightarrow> start \<le> length path \<Longrightarrow> drop start path = path_of comps @ 0 # rest \<Longrightarrow>
    path_len = start + length (path_of comps) \<Longrightarrow>
    \<exists>d. find_path B vol scratch path path_len start dir st = Some (r, st\<lparr>disk := d\<rparr>) \<and> dinv (g_fat32_drive st) d"
proof (induction comps arbitrary: st dir start)
  case (Cons x comps)
  obtain c rest' where split: "path_of (x # comps) @ 0 # rest = x @ c # rest'"
    "c = (if comps = [] then 0 else 47)" "comps \<noteq> [] \<Longrightarrow> rest' = path_of comps @ 0 # rest"
    by (cases comps) auto
  have x: "component_ok x" using Cons.prems(4) by simp
  then have xx: "x \<noteq> []" "length x < 256" "0 \<notin> set x" "47 \<notin> set x" by (simp_all add: component_ok_def)
  have c: "c = 0 \<or> c = 47" using split(2) by simp
  have dp: "drop start path = x @ c # rest'" using Cons.prems(7) split(1) by simp
  have lt: "start < path_len" using xx(1) by (cases comps) (simp_all add: Cons.prems(8))
  have pe: "path_end (drop start path) = Some (length x)" unfolding dp by (rule path_end_ok [OF xx(3,4) c])
  have cp: "strncpy (replicate 256 0) (drop start path) (length x) = Some (x @ replicate (256 - length x) 0)"
    using strncpy_full [of "length x" "drop start path" "replicate 256 0"] xx(2,3) by (simp add: dp)
  obtain m where m: "256 - length x = Suc m" using xx(2) by (cases "256 - length x") simp_all
  have w: "wr (x @ replicate (256 - length x) 0) (length x) 0 = Some (x @ replicate (256 - length x) 0)"
    unfolding m by (simp add: list_update_append)
  have u: "upcase (x @ replicate (256 - length x) 0) = Some (map fold_case x @ [0])"
    unfolding m using upcase_ok [OF xx(3)] by simp
  have len: "length path = start + (length x + Suc (length rest'))"
    using arg_cong [OF dp, of length] Cons.prems(6) by simp
  have rc: "rd path (start + length x) = Some c"
  proof -
    have "path ! (start + length x) = drop start path ! length x" using Cons.prems(6) by simp
    then show ?thesis unfolding dp using len by simp
  qed
  have nx: "length x \<noteq> 0" using xx(1) by simp
  from Cons.prems(5) consider (miss) "dir_misses img vol N (mem st) dir x" "r = None"
    | (found) f where "dir_finds img vol N (mem st) dir x f"
        "if comps \<noteq> [] \<and> f_attrib f AND 0x10 = 0 then r = None else resolves img vol N (mem st) f comps r"
    by auto
  then show ?case
  proof cases
    case miss
    then obtain d where "find_entry B vol (map fold_case x @ [0]) no_file (replicate 256 0) (fat32_list_dir dir scratch, st) =
        Some (None, st\<lparr>disk := d\<rparr>)" "dinv (g_fat32_drive st) d"
      using search_ok [OF S Cons.prems(1,2) scr x, of vol dir None] by blast
    then show ?thesis
      using miss(2) by (intro exI [of _ d], subst find_path.simps) (simp only: lt pe cp w u nx bind.bind_lunit if_True if_False prod.case option.case simp_thms)
  next
    case (found f)
    then obtain d where d: "find_entry B vol (map fold_case x @ [0]) no_file (replicate 256 0) (fat32_list_dir dir scratch, st) =
        Some (Some f, st\<lparr>disk := d\<rparr>)" "dinv (g_fat32_drive st) d"
      using search_ok [OF S Cons.prems(1,2) scr x, of vol dir "Some f"] by blast
    have step: "find_path B vol scratch path path_len start dir st =
        (if f_attrib f AND 0x10 = 0 \<and> c = 47 then Some (None, st\<lparr>disk := d\<rparr>)
         else find_path B vol scratch path path_len (start + length x + 1) f (st\<lparr>disk := d\<rparr>))"
      by (subst find_path.simps) (simp only: lt pe cp w u nx d(1) rc bind.bind_lunit if_True if_False prod.case option.case simp_thms)
    show ?thesis
    proof (cases "comps = []")
      case True
      then have "c = 0" "r = Some f" "path_len = start + length x" using split(2) found(2) Cons.prems(8) by simp_all
      then show ?thesis
        unfolding step using d(2) by (intro exI [of _ d]) (simp add: find_path.simps)
    next
      case False
      then have c47: "c = 47" using split(2) by simp
      show ?thesis
      proof (cases "f_attrib f AND 0x10 = 0")
        case True
        then show ?thesis unfolding step using c47 False found(2) d(2) by (intro exI [of _ d]) simp
      next
        case dirf: False
        obtain y ys where ys: "comps = y # ys" using False by (cases comps) auto
        have "drop (start + length x + 1) path = drop (Suc (length x)) (drop start path)" by (simp add: add.commute)
        then have dr: "drop (start + length x + 1) path = path_of comps @ 0 # rest" unfolding dp using split(3) False by simp
        have "\<exists>d'. find_path B vol scratch path path_len (start + length x + 1) f (st\<lparr>disk := d\<rparr>) =
            Some (r, (st\<lparr>disk := d\<rparr>)\<lparr>disk := d'\<rparr>) \<and> dinv (g_fat32_drive (st\<lparr>disk := d\<rparr>)) d'"
          using Cons.prems False found(2) dirf d(2) dr len by (intro Cons.IH) (simp_all add: ys)
        then show ?thesis unfolding step using dirf by simp
      qed
    qed
  qed
qed simp

section \<open>Properties\<close>

text \<open>The lookup over any disk that serves its sectors; the empty path is the root when it starts with a slash.\<close>

lemma find_file_ok:
  assumes S: "serves B img n dinv" and inv: "dinv (g_fat32_drive st) (disk st)" and l: "lfn_length st = 0"
    and scratch: "length (sector_buffer scratch) = 512" and comps: "comps \<noteq> [] \<or> absolute" "\<forall>x\<in>set comps. component_ok x"
    and path: "path = (if absolute then [47] else []) @ path_of comps @ 0 # rest"
    and r: "resolves img vol n (mem st) \<lparr>f_attrib = 0x10, f_cluster = root_cluster (vol_header vol), f_size = 0, f_offset = 0\<rparr> comps r"
  shows "\<exists>d. fat32_find_file B vol scratch path st = Some (r, st\<lparr>disk := d\<rparr>) \<and> dinv (g_fat32_drive st) d"
proof -
  let ?s = "if absolute then 1 else 0 :: nat"
  have nz: "0 \<notin> set (path_of comps)"
    using comps(2) by (induction comps rule: path_of.induct) (auto simp: component_ok_def)
  have "cstr path ((if absolute then [47] else []) @ path_of comps)" using nz by (auto simp: cstr_def path)
  then have len: "strlen path = Some (?s + length (path_of comps))" by (auto dest: strlen_cstr)
  show ?thesis
  proof (cases "comps = []")
    case True
    have "find_path B vol scratch path 1 1 f st = Some (Some f, st)" for f by (subst find_path.simps) simp
    moreover have "rd path 0 = Some 47" using True comps(1) path by simp
    ultimately have "fat32_find_file B vol scratch path st = Some (r, st\<lparr>disk := disk st\<rparr>)"
      using True comps(1) len r by (simp add: fat32_find_file_def del: rd_Some_iff)
    then show ?thesis using inv by blast
  next
    case False
    then obtain x xs where x: "path_of comps = x # xs" "x \<noteq> 47" "x \<noteq> 0"
      using comps(2) by (cases comps rule: path_of.cases; cases "hd comps") (auto simp: component_ok_def)
    have c: "\<exists>c. rd path 0 = Some c \<and> (if c = 47 then 1 else 0) = ?s"
      using x by (auto simp: path)
    have "\<exists>d. find_path B vol scratch path (?s + length (path_of comps)) ?s
        \<lparr>f_attrib = 0x10, f_cluster = root_cluster (vol_header vol), f_size = 0, f_offset = 0\<rparr> st =
        Some (r, st\<lparr>disk := d\<rparr>) \<and> dinv (g_fat32_drive st) d"
      using assms False by (intro find_path_ok [OF S]) auto
    then show ?thesis using len c x(1) by (auto simp: fat32_find_file_def simp del: rd_Some_iff split_paired_Ex)
  qed
qed


text \<open>A disk with the directory of the root in cluster 3 and a directory in cluster 5.\<close>

definition demo_entry :: "u8 list \<Rightarrow> u8 \<Rightarrow> u8 \<Rightarrow> u8 \<Rightarrow> u8 list" where
  "demo_entry name attrib cluster sz =
     name @ [attrib, 0, 0, 0, 0, 0, 0, 0, 0, 0, 0, 0, 0, 0, 0, cluster, 0, sz, 0, 0, 0]"

definition tree_image :: "u32 \<Rightarrow> u8 list" where
  "tree_image lba =
     (if lba = 101
      then demo_entry [82, 69, 65, 68, 77, 69, 32, 32, 84, 88, 84] 0x20 9 100 @
           demo_entry [83, 85, 66, 32, 32, 32, 32, 32, 32, 32, 32] 0x10 5 0 @ replicate 448 0
      else if lba = 103
      then demo_entry [65, 32, 32, 32, 32, 32, 32, 32, 66, 73, 78] 0x20 7 42 @ replicate 480 0
      else replicate 512 0)"

lemma tree_image_len: "\<forall>lba. length (tree_image lba) = 512"
  by (simp add: tree_image_def demo_entry_def)

lemma tree_image_chain: "dir_chain demo_volume 1000 m [3]" "dir_chain demo_volume 1000 m [5]"
  by (simp_all add: dir_chain_def demo_spc on_disk_def cluster_to_sector_def)
    (simp_all add: demo_volume_def zero_volume_def)

lemma tree_image_entries:
  "entry_at tree_image demo_volume [3] 0 = demo_entry [82, 69, 65, 68, 77, 69, 32, 32, 84, 88, 84] 0x20 9 100"
  "entry_at tree_image demo_volume [3] (Suc 0) = demo_entry [83, 85, 66, 32, 32, 32, 32, 32, 32, 32, 32] 0x10 5 0"
  "entry_at tree_image demo_volume [5] 0 = demo_entry [65, 32, 32, 32, 32, 32, 32, 32, 66, 73, 78] 0x20 7 42"
  by (simp_all add: entry_at_def chain_bytes_def cluster_bytes_def demo_spc cluster_to_sector_def)
    (simp_all add: demo_volume_def zero_volume_def tree_image_def demo_entry_def)

lemmas tree_image_simps = demo_spc tree_image_entries demo_entry_def plain_entry_def short_name_def same_name_def
  fold_case_def toupper_def file_of_entry_def get_le16_def get_le32_def rd_def

lemma tree_image_sub:
  "dir_finds tree_image demo_volume 1000 m \<lparr>f_attrib = 0x10, f_cluster = 3, f_size = 0, f_offset = 0\<rparr> [115, 117, 98]
    \<lparr>f_attrib = 0x10, f_cluster = 5, f_size = 0, f_offset = 0\<rparr>"
  unfolding dir_finds_def
  by (intro conjI exI [of _ "[3]"] exI [of _ "Suc 0"] tree_image_chain) (simp_all add: tree_image_simps)

lemma tree_image_file:
  "dir_finds tree_image demo_volume 1000 m \<lparr>f_attrib = 0x10, f_cluster = 5, f_size = 0, f_offset = 0\<rparr> [97, 46, 98, 105, 110]
    \<lparr>f_attrib = 0x20, f_cluster = 7, f_size = 42, f_offset = 0\<rparr>"
  unfolding dir_finds_def
  by (intro conjI exI [of _ "[5]"] exI [of _ 0] tree_image_chain) (simp_all add: tree_image_simps)

text \<open>A disk whose root has a volume label, a deleted file, a file and a directory with a file.\<close>

definition dos_image :: "u32 \<Rightarrow> u8 list" where
  "dos_image lba =
     (if lba = 101
      then demo_entry [72, 65, 76, 79, 83, 32, 32, 32, 32, 32, 32] 0x08 0 0 @
           demo_entry [0xE5, 76, 68, 32, 32, 32, 32, 32, 84, 88, 84] 0x20 8 10 @
           demo_entry [82, 69, 65, 68, 77, 69, 32, 32, 84, 88, 84] 0x20 9 100 @
           demo_entry [83, 85, 66, 32, 32, 32, 32, 32, 32, 32, 32] 0x10 5 0 @ replicate 384 0
      else if lba = 103
      then demo_entry [65, 32, 32, 32, 32, 32, 32, 32, 66, 73, 78] 0x20 7 42 @ replicate 480 0
      else replicate 512 0)"

lemma dos_image_len: "\<forall>lba. length (dos_image lba) = 512"
  by (simp add: dos_image_def demo_entry_def)

lemma dos_image_root: "dir_entries dos_image demo_volume [3] =
   [demo_entry [72, 65, 76, 79, 83, 32, 32, 32, 32, 32, 32] 0x08 0 0,
    demo_entry [0xE5, 76, 68, 32, 32, 32, 32, 32, 84, 88, 84] 0x20 8 10,
    demo_entry [82, 69, 65, 68, 77, 69, 32, 32, 84, 88, 84] 0x20 9 100,
    demo_entry [83, 85, 66, 32, 32, 32, 32, 32, 32, 32, 32] 0x10 5 0]"
  by code_simp

lemma dos_image_sub: "dir_entries dos_image demo_volume [5] =
   [demo_entry [65, 32, 32, 32, 32, 32, 32, 32, 66, 73, 78] 0x20 7 42]"
  by code_simp

lemma dos_image_lists:
  "lists_dir dos_image demo_volume 1000 m \<lparr>f_attrib = 0x10, f_cluster = 3, f_size = 0, f_offset = 0\<rparr>
    (dir_entries dos_image demo_volume [3])"
  "lists_dir dos_image demo_volume 1000 m \<lparr>f_attrib = 0x10, f_cluster = 5, f_size = 0, f_offset = 0\<rparr>
    (dir_entries dos_image demo_volume [5])"
  unfolding lists_dir_def
  by (intro conjI exI [of _ "[3]"] tree_image_chain, simp_all add: demo_spc dos_image_root)
    (intro exI [of _ "[5]"] conjI tree_image_chain, simp_all add: demo_spc dos_image_sub)

lemma dos_image_names:
  "readable_for [115, 117, 98] (dir_entries dos_image demo_volume [3])"
  "readable_for [97, 46, 98, 105, 110] (dir_entries dos_image demo_volume [5])"
  "dos_lookup (dir_entries dos_image demo_volume [3]) [115, 117, 98] =
    Some \<lparr>f_attrib = 0x10, f_cluster = 5, f_size = 0, f_offset = 0\<rparr>"
  "dos_lookup (dir_entries dos_image demo_volume [5]) [97, 46, 98, 105, 110] =
    Some \<lparr>f_attrib = 0x20, f_cluster = 7, f_size = 42, f_offset = 0\<rparr>"
  unfolding dos_image_root dos_image_sub
  by (simp_all add: readable_for_def dos_lookup_def demo_entry_def is_label_def short_ext_def ext_of_def trimmed_def
      dos_name_def same_name_def fold_case_def toupper_def is_file_def dos_file_def number_at_def)


text \<open>The short name of an entry is its base without trailing blanks and, unless the extension is blank, a dot and
  the three bytes of the extension with their blanks; the flag for lower case applies to names with an
  extension only.  Every entry without zero bytes in its name is parsed inside the thirteen bytes.\<close>

theorem parse_short_filename_name:
  assumes "13 \<le> length entry" "0 \<notin> set (take 11 entry)" "13 \<le> length output"
  shows "\<exists>name. parse_short_filename output entry = Some name \<and> length name = length output \<and> cstr name
    (let base = rev (dropWhile (\<lambda>c. c = 32) (rev (take 8 entry))); ext = take 3 (drop 8 entry)
     in if ext = [32, 32, 32] then base
        else if entry ! 12 = 0 then base @ 46 # ext
        else map (\<lambda>c. word_of_int (tolower (sint c))) (base @ 46 # ext))"
  using parse_short_filename_ok [OF assms] unfolding short_name_def Let_def by (auto cong: if_cong)

theorem parse_short_filename_name_witness:
  "\<exists>name. parse_short_filename (replicate 256 0)
      [70, 73, 76, 69, 32, 32, 32, 32, 67, 32, 32, 0x20, 8] = Some name \<and>
    cstr name [102, 105, 108, 101, 46, 99, 32, 32]"
  using parse_short_filename_name [of "[70, 73, 76, 69, 32, 32, 32, 32, 67, 32, 32, 0x20, 8]" "replicate 256 0"]
  by (auto simp: tolower_def)

text \<open>A long name that is stored in parts of thirteen characters comes out wrong unless it has a single part: with
  full parts the parts are joined in reverse order, and with a last part that ends early nothing but
  that part is returned.\<close>

theorem long_name_reversed:
  assumes "\<forall>c\<in>set parts. length c = 13 \<and> 0 \<notin> set c" "length parts < 19" "length out = 256"
    and "length (tail @ 0 # pad) = 13" "0 \<notin> set tail"
  shows "(\<exists>more. long_name (length parts) (concat parts @ rest) out = Some (concat (rev parts) @ 0 # more)) \<and>
    (\<exists>more. long_name (Suc (length parts)) (concat parts @ (tail @ 0 # pad) @ rest) out = Some (tail @ 0 # more))"
proof
  have nz: "takeWhile (\<lambda>c. c \<noteq> 0) s = s" if "0 \<notin> set s" for s :: "u8 list"
    using that by (intro takeWhile_eq_all_conv [THEN iffD2]) metis
  have full: "cut_part c = c" if "c \<in> set parts" for c
  proof -
    have "0 \<notin> set c" using assms(1) that by blast
    then have all: "takeWhile (\<lambda>x. x \<noteq> 0) c = c" by (rule nz)
    show ?thesis unfolding cut_part_def all by simp
  qed
  have "map cut_part (rev parts) = rev parts" by (rule map_idI) (simp add: full)
  moreover have "0 \<notin> set (concat (rev parts))" using assms(1) by auto
  ultimately have "long_of parts = concat (rev parts)" unfolding long_of_def using nz by metis
  then show "\<exists>more. long_name (length parts) (concat parts @ rest) out = Some (concat (rev parts) @ 0 # more)"
    using long_name_ok [of parts out rest] assms by auto
  have "takeWhile (\<lambda>c. c \<noteq> 0) (tail @ 0 # pad) = tail" using assms(5) by (subst takeWhile_append2) auto
  then have "\<exists>pad'. cut_part (tail @ 0 # pad) = tail @ 0 # pad'" by (simp add: cut_part_def)
  then have "long_of (parts @ [tail @ 0 # pad]) = tail"
    using assms(5) by (auto simp: long_of_def) (subst takeWhile_append2, auto)
  then show "\<exists>more. long_name (Suc (length parts)) (concat parts @ (tail @ 0 # pad) @ rest) out = Some (tail @ 0 # more)"
    using long_name_ok [of "parts @ [tail @ 0 # pad]" out rest] assms by auto
qed

theorem long_name_reversed_witness:
  "(\<exists>more. long_name 2 (concat [replicate 13 65, replicate 13 66]) (replicate 256 0) =
      Some (replicate 13 66 @ replicate 13 65 @ 0 # more)) \<and>
   (\<exists>more. long_name 2 (replicate 13 65 @ [46, 99, 0] @ replicate 10 255) (replicate 256 0) = Some (46 # 99 # 0 # more))"
  unfolding numeral_2_eq_2 using long_name_reversed [of "[replicate 13 65, replicate 13 66]" "replicate 256 0" "[46, 99]" "replicate 10 255" "[]"]
    long_name_reversed [of "[replicate 13 65]" "replicate 256 0" "[46, 99]" "replicate 10 255" "[]"]
  by simp

text \<open>Two names compare as equal exactly when their characters agree after folding to upper case; the comparison
  reads no further than the ends of the strings.\<close>

theorem fat32_strcasecmp_equal:
  assumes "cstr p xs" "cstr q ys"
  shows "\<exists>r. fat32_strcasecmp p q = Some r \<and> (r = 0 \<longleftrightarrow> length xs = length ys \<and> (\<forall>i < length xs. fold_case (xs ! i) = fold_case (ys ! i)))"
proof -
  have "map fold_case xs = map fold_case ys \<longleftrightarrow>
      length xs = length ys \<and> (\<forall>i < length xs. fold_case (xs ! i) = fold_case (ys ! i))"
    by (auto simp: list_eq_iff_nth_eq)
  then show ?thesis using strcasecmp_ok [OF assms] by (simp only:)
qed

theorem fat32_strcasecmp_equal_witness:
  "fat32_strcasecmp [97, 66, 0] [65, 98, 0, 7] = Some 0 \<and> (\<exists>r. fat32_strcasecmp [97, 0] [98, 0] = Some r \<and> r \<noteq> 0)"
  using fat32_strcasecmp_equal [of "[97, 66, 0]" "[97, 66]" "[65, 98, 0, 7]" "[65, 98]"]
    fat32_strcasecmp_equal [of "[97, 0]" "[97]" "[98, 0]" "[98]"]
  by (auto simp: fold_case_def toupper_def less_Suc_eq)

text \<open>What a computation gives if it is defined, by its steps.\<close>

lemma if_Some_bind:
  "(\<And>x. m = Some x \<Longrightarrow> case f x of None \<Rightarrow> True | Some r \<Rightarrow> P r) \<Longrightarrow> case Option.bind m f of None \<Rightarrow> True | Some r \<Rightarrow> P r"
  by (cases m) simp_all

lemma if_Some_if:
  "(b \<Longrightarrow> case m of None \<Rightarrow> True | Some r \<Rightarrow> P r) \<Longrightarrow> (\<not> b \<Longrightarrow> case n of None \<Rightarrow> True | Some r \<Rightarrow> P r) \<Longrightarrow>
    case (if b then m else n) of None \<Rightarrow> True | Some r \<Rightarrow> P r"
  by simp

lemma if_Some_prod:
  "(\<And>x y. p = (x, y) \<Longrightarrow> case f x y of None \<Rightarrow> True | Some r \<Rightarrow> P r) \<Longrightarrow>
    case (case p of (x, y) \<Rightarrow> f x y) of None \<Rightarrow> True | Some r \<Rightarrow> P r"
  by (cases p) simp

text \<open>A volume that \<open>fat32_init_volume\<close> leaves with a FAT has sectors of 512 bytes, a cluster size that fits the
  header, and a FAT whose contents are whatever lay in the memory that \<open>dma_alloc\<close> found: nothing is
  written to it between the allocation and the return.\<close>

theorem fat32_mount_fat_unread:
  "case fat32_mount B buf st of None \<Rightarrow> True
   | Some (vol, st') \<Rightarrow> vol_fat vol = 0 \<or>
       bytes_per_sector (vol_header vol) = 512 \<and> fat_size_in_sectors vol \<noteq> 0 \<and>
       cluster_size vol = ucast (sectors_per_cluster (vol_header vol)) * 512 \<and>
       (\<exists>m. dma_alloc (fat_size_in_sectors vol * 512) m = Some (vol_fat vol, mem st'))"
proof -
  have "vol_fat zero_volume = 0" by (simp add: zero_volume_def)
  then show ?thesis
    unfolding fat32_mount_def Let_def
    by (intro if_Some_bind if_Some_if if_Some_prod; simp; (auto split: if_splits)?)
qed

end
