(* ===== verification/Screen.thy ===== *)
theory Screen
  imports Ide Vmm
begin

text \<open>
  The frame buffer, \<open>src/drivers/vesa.c\<close>: the pixels of the back buffer, the copy to the screen with the wait
  for the vertical retrace, and the allocation of the back buffer in chunks of 32 pages.  The two buffers
  are lists of pixels, one per 32-bit word; an access beyond them is \<open>None\<close>.  \<open>malloc\<close> belongs to the
  third-party allocator: whether it succeeds is a parameter.  The log lines are left out.
\<close>

section \<open>Pixels\<close>

record screen =
  g_width :: u32
  g_height :: u32
  g_pitch :: u32
  g_bpp :: u32
  g_vbe_buffer :: "u32 list"
  g_back_buffer :: "u32 list"
  g_vsync_enabled :: bool
  g_vsync_supported :: bool

definition vbe_rgb :: "u8 \<Rightarrow> u8 \<Rightarrow> u8 \<Rightarrow> u32" where
  "vbe_rgb red green blue = push_bit 16 (ucast red) OR push_bit 8 (ucast green) OR ucast blue"

text \<open>An \<open>int\<close> coordinate is given by its 32 bits.\<close>

definition off_screen :: "u32 \<Rightarrow> u32 \<Rightarrow> screen \<Rightarrow> bool" where
  "off_screen x y s \<longleftrightarrow> sint x < 0 \<or> x \<ge> g_width s \<or> sint y < 0 \<or> y \<ge> g_height s"

definition pixel_index :: "u32 \<Rightarrow> u32 \<Rightarrow> screen \<Rightarrow> nat" where
  "pixel_index x y s = unat (y * (g_pitch s div 4) + x)"

definition vbe_putpixel :: "u32 \<Rightarrow> u32 \<Rightarrow> u32 \<Rightarrow> screen \<Rightarrow> screen option" where
  "vbe_putpixel x y color s =
     (if off_screen x y s then Some s
      else do { b \<leftarrow> wr (g_back_buffer s) (pixel_index x y s) color; Some (s\<lparr>g_back_buffer := b\<rparr>) })"

definition vbe_getpixel :: "u32 \<Rightarrow> u32 \<Rightarrow> screen \<Rightarrow> u32 option" where
  "vbe_getpixel x y s = (if off_screen x y s then Some 0 else rd (g_back_buffer s) (pixel_index x y s))"

section \<open>The copy to the screen\<close>

text \<open>\<open>memcpy\<close> of \<open>n\<close> bytes between two arrays of words.\<close>

definition memcpy32 :: "u32 list \<Rightarrow> u32 list \<Rightarrow> nat \<Rightarrow> u32 list option" where
  "memcpy32 d s n =
     (let k = n div 4; m = mask (8 * (n mod 4))
      in if n mod 4 = 0
         then (if k \<le> length d \<and> k \<le> length s then Some (take k s @ drop k d) else None)
         else (if k < length d \<and> k < length s
               then Some (take k s @ ((s ! k AND m) OR (d ! k AND NOT m)) # drop (k + 1) d) else None))"

text \<open>The two waiting loops: until bit 3 of the status port is clear, and until it is set.\<close>

partial_function (option) wait_retrace :: "('w, 'x) bus_scheme \<Rightarrow> bool \<Rightarrow> 'w \<Rightarrow> 'w option" where
  "wait_retrace B on w =
     (let (v, w) = inportb B 0x3DA w
      in if (v AND 0x08 \<noteq> 0) = on then Some w else wait_retrace B on w)"

definition vesa_wait_for_vsync :: "('w, 'x) bus_scheme \<Rightarrow> screen \<Rightarrow> 'w \<Rightarrow> 'w option" where
  "vesa_wait_for_vsync B s w =
     (if \<not> g_vsync_enabled s \<or> \<not> g_vsync_supported s then Some w
      else do { w \<leftarrow> wait_retrace B False w; wait_retrace B True w })"

definition vesa_swap_buffers :: "('w, 'x) bus_scheme \<Rightarrow> screen \<times> 'w \<Rightarrow> (screen \<times> 'w) option" where
  "vesa_swap_buffers B sw =
     do { w \<leftarrow> vesa_wait_for_vsync B (fst sw) (snd sw);
          f \<leftarrow> memcpy32 (g_vbe_buffer (fst sw)) (g_back_buffer (fst sw)) (unat (g_height (fst sw) * g_pitch (fst sw)));
          Some ((fst sw)\<lparr>g_vbe_buffer := f\<rparr>, w) }"

definition vesa_is_vsync_supported :: "screen \<Rightarrow> bool" where
  "vesa_is_vsync_supported s = g_vsync_supported s"

definition vesa_enable_vsync :: "bool \<Rightarrow> screen \<Rightarrow> screen" where
  "vesa_enable_vsync enable s = s\<lparr>g_vsync_enabled := enable\<rparr>"

section \<open>Initialisation\<close>

abbreviation (input) PAGE_UNCACHED :: u32 where "PAGE_UNCACHED \<equiv> 0x10"

text \<open>A chunk: its physical and its virtual address and its pages.\<close>

record chunk =
  ck_phys :: u32
  ck_virt :: u32
  ck_pages :: u32

text \<open>The loops that give the chunks back, each as 32 blocks.\<close>

fun free_chunks :: "u32 list \<Rightarrow> machine \<Rightarrow> machine option" where
  "free_chunks [] m = Some m"
| "free_chunks (p # ps) m = do { m \<leftarrow> frames_update_opt (pmm_free_blocks p 32) m; free_chunks ps m }"

text \<open>One chunk, \<open>None\<close> when it cannot be had and everything was given back.\<close>

definition alloc_chunk :: "u32 \<Rightarrow> chunk list \<Rightarrow> machine \<Rightarrow> (chunk option \<times> machine) option" where
  "alloc_chunk pages chunks m =
     do { (phys_chunk, m) \<leftarrow> with_frames (pmm_alloc_blocks pages) m;
          if phys_chunk = 0
          then do { m \<leftarrow> free_chunks (map ck_phys chunks) m; Some (None, m) }
          else do {
            (virt_chunk, m) \<leftarrow> vmm_map_mmio phys_chunk (pages * PAGE_SIZE) (PAGE_PRESENT OR PAGE_WRITABLE OR PAGE_UNCACHED) m;
            if virt_chunk = 0
            then do { m \<leftarrow> free_chunks (map ck_phys chunks @ [phys_chunk]) m; Some (None, m) }
            else do { m \<leftarrow> memset8 virt_chunk 0 (pages * PAGE_SIZE) m;
                      Some (Some \<lparr>ck_phys = phys_chunk, ck_virt = virt_chunk, ck_pages = pages\<rparr>, m) } } }"

text \<open>Whether all chunks could be had, and the chunks so far.\<close>

function alloc_chunks :: "u32 \<Rightarrow> chunk list \<Rightarrow> machine \<Rightarrow> (bool \<times> chunk list \<times> machine) option" where
  "alloc_chunks remaining chunks m =
     (if remaining > 0
      then do { (c, m) \<leftarrow> alloc_chunk (if remaining > 32 then 32 else remaining) chunks m;
                case c of None \<Rightarrow> Some (False, chunks, m)
                | Some c \<Rightarrow> alloc_chunks (remaining - (if remaining > 32 then 32 else remaining)) (chunks @ [c]) m }
      else Some (True, chunks, m))"
  by pat_completeness auto

termination alloc_chunks
proof (relation "measure (\<lambda>(remaining, _, _). unat remaining)")
  fix remaining :: u32
  assume "0 < remaining"
  then have "unat (remaining - (if remaining > 32 then 32 else remaining)) < unat remaining"
    by (auto simp: word_less_nat_alt unat_sub_if_size)
  then show "\<And>chunks m p c x a. ((remaining - (if remaining > 32 then 32 else remaining), chunks @ [a], m), remaining, chunks, x)
      \<in> measure (\<lambda>(remaining, _, _). unat remaining)" by simp
qed simp

text \<open>
  The first chunk is taken as the start of the back buffer; the buffer reaches as far as the chunks behind it
  were mapped at adjoining addresses.
\<close>

fun adjoining_pages :: "chunk list \<Rightarrow> nat" where
  "adjoining_pages [] = 0"
| "adjoining_pages [c] = unat (ck_pages c)"
| "adjoining_pages (c # c' # cs) =
     unat (ck_pages c) + (if ck_virt c' = ck_virt c + ck_pages c * PAGE_SIZE then adjoining_pages (c' # cs) else 0)"

text \<open>\<open>framebuffer\<close> is the object the first argument points to, \<open>None\<close> for \<open>NULL\<close>.\<close>

definition vesa_init ::
  "('w, 'x) bus_scheme \<Rightarrow> bool \<Rightarrow> u32 list option \<Rightarrow> u32 \<Rightarrow> u32 \<Rightarrow> u32 \<Rightarrow> u32 \<Rightarrow> screen \<times> machine \<times> 'w \<Rightarrow>
    (int \<times> screen \<times> machine \<times> 'w) option" where
  "vesa_init B malloc_ok framebuffer width height pitch bpp st =
     (let (s, m, w) = st in
      case framebuffer of
        None \<Rightarrow> Some (-1, s, m, w)
      | Some fb \<Rightarrow>
          if width = 0 \<or> height = 0 \<or> pitch = 0 \<or> bpp = 0 then Some (-1, s, m, w)
          else
            let s = s\<lparr>g_vbe_buffer := fb, g_width := width, g_height := height, g_pitch := pitch, g_bpp := bpp\<rparr>;
                buffer_size = height * pitch
            in if buffer_size > 1024 * 1024 * 32 then Some (-1, s, m, w)
               else if \<not> malloc_ok then Some (-1, s, m, w)
               else do {
                 let aligned_size = (buffer_size + PAGE_SIZE - 1) AND NOT (PAGE_SIZE - 1);
                 (ok, cs, m) \<leftarrow> alloc_chunks (aligned_size div PAGE_SIZE) [] m;
                 let s = (if cs = [] then s else s\<lparr>g_back_buffer := replicate (adjoining_pages cs * 1024) 0\<rparr>);
                 if \<not> ok then Some (-1, s, m, w)
                 else let (status, w) = inportb B 0x3DA w
                      in Some (0, s\<lparr>g_vsync_supported := status \<noteq> 0xFF\<rparr>, m, w) })"

end
