(* ===== verification/Output.thy ===== *)
theory Output
  imports Prelude
begin

text \<open>
  Output character by character: the interface between the code that writes text and the device it is
  written to, here the console and the serial port.
\<close>

fun put_all :: "(u8 \<Rightarrow> 's \<Rightarrow> 's option) \<Rightarrow> u8 list \<Rightarrow> 's \<Rightarrow> 's option" where
  "put_all put [] s = Some s"
| "put_all put (c # cs) s = do { s \<leftarrow> put c s; put_all put cs s }"

text \<open>
  A device takes every character while it is \<open>ok\<close> and stays so; \<open>text\<close> is what it has taken, \<open>step\<close> what a
  character does to it, and \<open>keep\<close> relates the states before and after.
\<close>

locale text_output =
  fixes put :: "u8 \<Rightarrow> 's \<Rightarrow> 's option"
    and ok :: "'s \<Rightarrow> bool"
    and keep :: "'s \<Rightarrow> 's \<Rightarrow> bool"
    and written :: "'s \<Rightarrow> 't"
    and step :: "u8 \<Rightarrow> 't \<Rightarrow> 't"
  assumes put_law: "ok s \<Longrightarrow> runs (put c s) (\<lambda>s'. ok s' \<and> keep s s' \<and> written s' = step c (written s))"
    and keep_refl: "ok s \<Longrightarrow> keep s s"
    and keep_trans: "keep s s' \<Longrightarrow> keep s' s'' \<Longrightarrow> keep s s''"
begin

lemma put_all_law: "ok s \<Longrightarrow> runs (put_all put cs s) (\<lambda>s'. ok s' \<and> keep s s' \<and> written s' = fold step cs (written s))"
proof (induction cs arbitrary: s)
  case (Cons c cs)
  have "runs (put c s) (\<lambda>s1. runs (put_all put cs s1) (\<lambda>s'. ok s' \<and> keep s s' \<and> written s' = fold step (c # cs) (written s)))"
  proof (rule runs_mono [OF put_law [OF Cons.prems]], elim conjE)
    fix s1 assume "ok s1" "keep s s1" "written s1 = step c (written s)"
    then show "runs (put_all put cs s1) (\<lambda>s'. ok s' \<and> keep s s' \<and> written s' = fold step (c # cs) (written s))"
      using keep_trans by (intro runs_mono [OF Cons.IH]) auto
  qed
  then show ?case by simp
qed (simp add: keep_refl)

end

end
