(* ===== verification/Console.thy ===== *)
theory Console
  imports Screen Keyboard Output
begin

text \<open>
  The text console, \<open>src/drivers/console.c\<close>: the cursor and the text buffer, the glyphs of the font, the
  dirty rectangle between the back buffer and the screen, scrolling, line input and formatted output.
  The characters \<open>kb_getchar\<close> returns are a list; a read that goes on behind its end waits for ever and is
  \<open>None\<close>, as is every access outside an object.  Log lines are left out.
\<close>

section \<open>State\<close>

record psf_font =
  font_headersize :: u32
  font_bytesperglyph :: u32
  font_height :: u32
  font_width :: u32
  font_data :: "u8 list"

record dirty_rect =
  x1 :: u32
  y1 :: u32
  x2 :: u32
  y2 :: u32
  dirty :: bool

record 'w console =
  con_fg :: u32
  con_bg :: u32
  con_cols :: u32
  con_rows :: u32
  cursor_x :: u32
  cursor_y :: u32
  cursor_visible :: bool
  con_buffer :: "u8 list"
  con_font :: psf_font
  con_dirty :: dirty_rect
  con_screen :: screen
  con_world :: 'w

abbreviation (input) NEWLINE :: u8 where "NEWLINE \<equiv> 10"
abbreviation (input) BACKSPACE :: u8 where "BACKSPACE \<equiv> 8"

text \<open>A loop that goes to its end.\<close>

definition each :: "u32 \<Rightarrow> u32 \<Rightarrow> (u32 \<Rightarrow> 's \<Rightarrow> 's option) \<Rightarrow> 's \<Rightarrow> 's option" where
  "each i n f s = map_option exit_state (for_loop i n (\<lambda>j s. map_option Next (f j s) :: ('s, unit) ctl option) s)"

definition putpixel :: "u32 \<Rightarrow> u32 \<Rightarrow> u32 \<Rightarrow> 'w console \<Rightarrow> 'w console option" where
  "putpixel x y color c = map_option (\<lambda>s. c\<lparr>con_screen := s\<rparr>) (vbe_putpixel x y color (con_screen c))"

section \<open>The dirty rectangle\<close>

definition mark_rect :: "u32 \<Rightarrow> u32 \<Rightarrow> u32 \<Rightarrow> u32 \<Rightarrow> dirty_rect \<Rightarrow> dirty_rect" where
  "mark_rect x y width height r =
     (if \<not> dirty r then \<lparr>x1 = x, y1 = y, x2 = x + width, y2 = y + height, dirty = True\<rparr>
      else let r = (if x < x1 r then r\<lparr>x1 := x\<rparr> else r);
               r = (if y < y1 r then r\<lparr>y1 := y\<rparr> else r);
               r = (if x + width > x2 r then r\<lparr>x2 := x + width\<rparr> else r)
           in (if y + height > y2 r then r\<lparr>y2 := y + height\<rparr> else r))"

definition console_mark_dirty :: "u32 \<Rightarrow> u32 \<Rightarrow> u32 \<Rightarrow> u32 \<Rightarrow> 'w console \<Rightarrow> 'w console" where
  "console_mark_dirty x y width height c = c\<lparr>con_dirty := mark_rect x y width height (con_dirty c)\<rparr>"

text \<open>One row of the copy.\<close>

definition flush_row :: "u32 \<Rightarrow> 'w console \<Rightarrow> 'w console option" where
  "flush_row y c =
     (let s = con_screen c; r = con_dirty c;
          off = unat (y * (g_pitch s div 4)) + unat (x1 r)
      in do { f \<leftarrow> memcpy32 (drop off (g_vbe_buffer s)) (drop off (g_back_buffer s)) (unat ((x2 r - x1 r) * 4));
              Some (c\<lparr>con_screen := s\<lparr>g_vbe_buffer := take off (g_vbe_buffer s) @ f\<rparr>\<rparr>) })"

definition console_flush :: "'w console \<Rightarrow> 'w console option" where
  "console_flush c =
     (if \<not> dirty (con_dirty c) then Some c
      else do { c \<leftarrow> each (y1 (con_dirty c)) (y2 (con_dirty c)) flush_row c;
                Some (c\<lparr>con_dirty := (con_dirty c)\<lparr>dirty := False\<rparr>\<rparr>) })"

definition console_refresh :: "'w console \<Rightarrow> 'w console option" where
  "console_refresh c = console_flush c"

section \<open>Glyphs\<close>

text \<open>One byte of a glyph, eight pixels; \<open>base\<close> is the entry of \<open>row_offsets\<close>.\<close>

definition draw_byte :: "u8 \<Rightarrow> u32 \<Rightarrow> u32 \<Rightarrow> u32 \<Rightarrow> 'w console \<Rightarrow> 'w console option" where
  "draw_byte font_byte base screen_x y c =
     (if font_byte = 0 then Some c
      else map_option exit_state (for_loop 0 8
        (\<lambda>bt c. if font_byte AND drop_bit (unat bt) 0x80 = 0 then Some (Next c)
                 else let font_x = base + bt
                      in if font_x \<ge> font_width (con_font c) then Some (Break c :: ('w console, unit) ctl)
                         else map_option Next (putpixel (screen_x + font_x) y (con_fg c) c)) c))"

definition draw_char :: "u32 \<Rightarrow> u32 \<Rightarrow> u8 \<Rightarrow> 'w console \<Rightarrow> 'w console option" where
  "draw_char x y ch c =
     (let font = con_font c;
          screen_x = x * font_width font;
          screen_y = y * font_height font;
          bytes_per_row = (font_width font + 7) div 8;
          glyph = unat (font_headersize font) + unat (ucast ch * font_bytesperglyph font)
      in if bytes_per_row > 8 then None
         else do {
           c \<leftarrow> each 0 (font_height font) (\<lambda>font_y. each 0 bytes_per_row (\<lambda>byte c.
                  do { font_byte \<leftarrow> rd (font_data font) (glyph + unat (font_y * bytes_per_row + byte));
                       draw_byte font_byte (byte * 8) screen_x (screen_y + font_y) c })) c;
           Some (console_mark_dirty screen_x screen_y (font_width font) (font_height font) c) })"

section \<open>Clearing and scrolling\<close>

definition fill_rect :: "u32 \<Rightarrow> u32 \<Rightarrow> 'w console \<Rightarrow> 'w console option" where
  "fill_rect y_from y_to c =
     each y_from y_to (\<lambda>y. each 0 (g_width (con_screen c)) (\<lambda>x c. putpixel x y (con_bg c) c)) c"

definition console_clear :: "'w console \<Rightarrow> 'w console option" where
  "console_clear c =
     do { c \<leftarrow> fill_rect 0 (g_height (con_screen c)) c;
          buf \<leftarrow> memset (con_buffer c) 0 (unat (con_rows c * con_cols c));
          let c = c\<lparr>con_buffer := buf, cursor_x := 0, cursor_y := 0\<rparr>;
          console_flush (console_mark_dirty 0 0 (g_width (con_screen c)) (g_height (con_screen c)) c) }"

text \<open>
  \<open>console_init\<close>: \<open>panic\<close> does not return; \<open>buffer\<close> is the object \<open>malloc\<close> returns, \<open>None\<close> for \<open>NULL\<close>, which
  the code does not check.
\<close>

definition console_init :: "u32 \<Rightarrow> psf_font \<Rightarrow> u8 list option \<Rightarrow> u32 \<Rightarrow> u32 \<Rightarrow> 'w console \<Rightarrow> 'w console option" where
  "console_init magic font buffer fg bg c =
     (if magic \<noteq> 0x864ab572 \<or> font_width font = 0 \<or> font_height font = 0 then None
      else do { buf \<leftarrow> buffer;
                console_clear (c\<lparr>con_font := font, con_cols := g_width (con_screen c) div font_width font,
                  con_rows := g_height (con_screen c) div font_height font, con_buffer := buf,
                  cursor_x := 0, cursor_y := 0, cursor_visible := True, con_fg := fg, con_bg := bg\<rparr>) })"

text \<open>\<open>memmove\<close> of \<open>n\<close> words from the offset \<open>src\<close> to the start of an array.\<close>

definition move_down :: "u32 list \<Rightarrow> nat \<Rightarrow> nat \<Rightarrow> u32 list option" where
  "move_down b src n = (if src + n \<le> length b then Some (take n (drop src b) @ drop n b) else None)"

definition console_scroll :: "('w, 'x) bus_scheme \<Rightarrow> u32 \<Rightarrow> 'w console \<Rightarrow> 'w console option" where
  "console_scroll B lines c =
     (let s = con_screen c;
          scroll_pixels = lines * font_height (con_font c);
          pitch_pixels = g_pitch s div 4
      in do { b \<leftarrow> move_down (g_back_buffer s) (unat (scroll_pixels * pitch_pixels))
                    (unat ((g_height s - scroll_pixels) * pitch_pixels * 4) div 4);
              c \<leftarrow> fill_rect (g_height s - scroll_pixels) (g_height s) (c\<lparr>con_screen := s\<lparr>g_back_buffer := b\<rparr>\<rparr>);
              let c = console_mark_dirty 0 (g_height s - scroll_pixels) (g_width s) scroll_pixels c;
              (s, w) \<leftarrow> vesa_swap_buffers B (con_screen c, con_world c);
              Some (c\<lparr>con_screen := s, con_world := w\<rparr>) })"

section \<open>Characters\<close>

text \<open>\<open>console_putchar\<close> calls itself for a newline only; \<open>newline\<close> is that call.\<close>

definition newline :: "('w, 'x) bus_scheme \<Rightarrow> 'w console \<Rightarrow> 'w console option" where
  "newline B c =
     do { let c = c\<lparr>cursor_x := 0, cursor_y := cursor_y c + 1\<rparr>;
          c \<leftarrow> (if cursor_y c \<ge> con_rows c
                then map_option (\<lambda>c. c\<lparr>cursor_y := con_rows c - 1\<rparr>) (console_scroll B 1 c)
                else Some c);
          console_flush c }"

definition console_putchar :: "('w, 'x) bus_scheme \<Rightarrow> u8 \<Rightarrow> 'w console \<Rightarrow> 'w console option" where
  "console_putchar B ch c =
     (if (sint ch < 0x20 \<or> sint ch > 0x7E) \<and> ch \<noteq> NEWLINE then Some c
      else if ch = NEWLINE then newline B c
      else do { c \<leftarrow> (if cursor_x c \<ge> con_cols c then newline B c else Some c);
                buf \<leftarrow> wr (con_buffer c) (unat (cursor_y c * con_cols c + cursor_x c)) ch;
                c \<leftarrow> draw_char (cursor_x c) (cursor_y c) ch (c\<lparr>con_buffer := buf\<rparr>);
                Some (c\<lparr>cursor_x := cursor_x c + 1\<rparr>) })"

definition console_ungetchar :: "'w console \<Rightarrow> 'w console option" where
  "console_ungetchar c =
     do { c \<leftarrow> (if cursor_x c > 0
                then do { let c = c\<lparr>cursor_x := cursor_x c - 1\<rparr>;
                          buf \<leftarrow> wr (con_buffer c) (unat (cursor_y c * con_cols c + cursor_x c)) 0;
                          let screen_x = cursor_x c * font_width (con_font c);
                          let screen_y = cursor_y c * font_height (con_font c);
                          c \<leftarrow> each 0 17 (\<lambda>y. each 0 9 (\<lambda>x c. putpixel (screen_x + x) (screen_y + y) (con_bg c) c))
                                 (c\<lparr>con_buffer := buf\<rparr>);
                          Some (console_mark_dirty screen_x screen_y (font_width (con_font c)) (font_height (con_font c)) c) }
                else Some c);
          console_flush c }"

primrec console_ungetchar_bound :: "nat \<Rightarrow> 'w console \<Rightarrow> 'w console option" where
  "console_ungetchar_bound 0 c = Some c"
| "console_ungetchar_bound (Suc n) c =
     (if cursor_x c > 0 then do { c \<leftarrow> console_ungetchar c; console_ungetchar_bound n c } else Some c)"

definition console_gotoxy :: "u32 \<Rightarrow> u32 \<Rightarrow> 'w console \<Rightarrow> 'w console" where
  "console_gotoxy x y c = (if x < con_cols c \<and> y < con_rows c then c\<lparr>cursor_x := x, cursor_y := y\<rparr> else c)"

fun console_putstr :: "('w, 'x) bus_scheme \<Rightarrow> u8 list \<Rightarrow> 'w console \<Rightarrow> 'w console option" where
  "console_putstr B [] c = None"
| "console_putstr B (ch # str) c =
     (if ch \<noteq> 0 then do { c \<leftarrow> console_putchar B ch c; console_putstr B str c } else Some c)"

section \<open>Line input\<close>

text \<open>The line break when the cursor has reached the right border.\<close>

definition wrap_line :: "('w, 'x) bus_scheme \<Rightarrow> 'w console \<Rightarrow> 'w console option" where
  "wrap_line B c =
     (if cursor_x c \<ge> con_cols c then do { c \<leftarrow> console_putchar B NEWLINE c; console_flush c } else Some c)"

text \<open>The loop of \<open>getstr\<close>; the result carries the keys not read.\<close>

fun getstr_loop ::
  "('w, 'x) bus_scheme \<Rightarrow> u32 \<Rightarrow> u8 list \<Rightarrow> u32 \<Rightarrow> u8 list \<Rightarrow> 'w console \<Rightarrow> (u8 list \<times> u8 list \<times> 'w console) option" where
  "getstr_loop B max_size keys i buffer c =
     (if i < max_size - 1
      then (case keys of
          [] \<Rightarrow> None
        | k # keys \<Rightarrow>
            if k = BACKSPACE
            then do { (i, c) \<leftarrow> (if i > 0 then do { c \<leftarrow> console_ungetchar c; Some (i - 1, c) } else Some (i, c));
                      c \<leftarrow> wrap_line B c;
                      getstr_loop B max_size keys i buffer c }
            else if k = NEWLINE
            then do { c \<leftarrow> console_putchar B NEWLINE c;
                      c \<leftarrow> console_flush c;
                      buffer \<leftarrow> wr buffer (unat i) 0;
                      Some (buffer, keys, c) }
            else if 32 \<le> sint k \<and> sint k \<le> 126
            then do { buffer \<leftarrow> wr buffer (unat i) k;
                      c \<leftarrow> console_putchar B k c;
                      c \<leftarrow> console_flush c;
                      c \<leftarrow> wrap_line B c;
                      getstr_loop B max_size keys (i + 1) buffer c }
            else do { c \<leftarrow> wrap_line B c; getstr_loop B max_size keys i buffer c })
      else do { buffer \<leftarrow> wr buffer (unat i) 0; Some (buffer, keys, c) })"

declare getstr_loop.simps [simp del]

definition getstr ::
  "('w, 'x) bus_scheme \<Rightarrow> u32 \<Rightarrow> u8 list \<Rightarrow> u8 list \<Rightarrow> 'w console \<Rightarrow> (u8 list \<times> u8 list \<times> 'w console) option" where
  "getstr B max_size keys buffer c = getstr_loop B max_size keys 0 buffer c"

text \<open>The loop of \<open>getstr_bound\<close>; \<open>idx < bound - 1\<close> is a comparison of \<open>int\<close>s.\<close>

fun getstr_bound_loop ::
  "('w, 'x) bus_scheme \<Rightarrow> u8 \<Rightarrow> u8 list \<Rightarrow> u8 \<Rightarrow> u8 list \<Rightarrow> 'w console \<Rightarrow> (u8 list \<times> u8 list \<times> 'w console) option" where
  "getstr_bound_loop B bound keys idx buffer c =
     (if uint idx < uint bound - 1
      then (case keys of
          [] \<Rightarrow> None
        | k # keys \<Rightarrow>
            if k = NEWLINE
            then do { c \<leftarrow> console_putchar B NEWLINE c;
                      buffer \<leftarrow> wr buffer (unat idx) 0;
                      c \<leftarrow> console_flush c;
                      Some (buffer, keys, c) }
            else if k = BACKSPACE \<and> idx > 0
            then do { buffer \<leftarrow> wr buffer (unat (idx - 1)) 0;
                      c \<leftarrow> console_ungetchar c;
                      c \<leftarrow> console_flush c;
                      getstr_bound_loop B bound keys (idx - 1) buffer c }
            else do { (idx, buffer, c) \<leftarrow>
                        (if 32 \<le> sint k \<and> sint k \<le> 126
                         then do { buffer \<leftarrow> wr buffer (unat idx) k;
                                   c \<leftarrow> console_putchar B k c;
                                   c \<leftarrow> console_flush c;
                                   Some (idx + 1, buffer, c) }
                         else Some (idx, buffer, c));
                      c \<leftarrow> wrap_line B c;
                      getstr_bound_loop B bound keys idx buffer c })
      else do { buffer \<leftarrow> wr buffer (unat idx) 0;
                c \<leftarrow> console_flush c;
                Some (buffer, keys, c) })"

declare getstr_bound_loop.simps [simp del]

definition getstr_bound ::
  "('w, 'x) bus_scheme \<Rightarrow> u8 \<Rightarrow> u8 list \<Rightarrow> u8 list \<Rightarrow> 'w console \<Rightarrow> (u8 list \<times> u8 list \<times> 'w console) option" where
  "getstr_bound B bound keys buffer c =
     (if bound = 0 then Some (buffer, keys, c)
      else do { c \<leftarrow> console_flush c; getstr_bound_loop B bound keys 0 buffer c })"

section \<open>Formatted output\<close>

definition digit_char :: "bool \<Rightarrow> nat \<Rightarrow> u8" where
  "digit_char uppercase d = (if d < 10 then of_nat (48 + d) else of_nat ((if uppercase then 55 else 87) + d))"

text \<open>The digits from the lowest on; then the padding, the reversal and the end of the string.\<close>

fun number_digits :: "nat \<Rightarrow> nat \<Rightarrow> bool \<Rightarrow> u8 list" where
  "number_digits val base uppercase =
     (if val = 0 \<or> base < 2 then [] else digit_char uppercase (val mod base) # number_digits (val div base) base uppercase)"

declare number_digits.simps [simp del]

definition format_number :: "u32 \<Rightarrow> nat \<Rightarrow> bool \<Rightarrow> int \<Rightarrow> bool \<Rightarrow> u8 list option" where
  "format_number val base uppercase width pad_zero =
     (let ds = (if val = 0 then [48] else number_digits (unat val) base uppercase);
          ds = ds @ replicate (nat width - length ds) (if pad_zero then 48 else 32)
      in if length ds < 32 then Some (rev ds) else None)"

text \<open>The arguments behind the format: integers, and strings or \<open>NULL\<close>.\<close>

datatype fmt_arg = IntArg u32 | StrArg "u8 list option"

definition put_chars :: "('w, 'x) bus_scheme \<Rightarrow> u8 list \<Rightarrow> 'w console \<Rightarrow> 'w console option" where
  "put_chars B = put_all (console_putchar B)"

text \<open>The digits of the width.\<close>

fun fmt_width :: "u8 list \<Rightarrow> int \<Rightarrow> (int \<times> u8 list) option" where
  "fmt_width [] width = None"
| "fmt_width (ch # f) width =
     (if 48 \<le> sint ch \<and> sint ch \<le> 57
      then do { w10 \<leftarrow> chk_int (width * 10); w \<leftarrow> chk_int (w10 + (sint ch - 48)); fmt_width f w }
      else Some (width, ch # f))"

definition put_number :: "('w, 'x) bus_scheme \<Rightarrow> nat \<Rightarrow> bool \<Rightarrow> int \<Rightarrow> bool \<Rightarrow> fmt_arg list \<Rightarrow> 'w console \<Rightarrow> (fmt_arg list \<times> 'w console) option" where
  "put_number B base uppercase width pad_zero args c =
     (case args of
        IntArg v # args \<Rightarrow>
          do { ds \<leftarrow> format_number v base uppercase width pad_zero; c \<leftarrow> put_chars B ds c; Some (args, c) }
      | _ \<Rightarrow> None)"

text \<open>One conversion with the letter \<open>n\<close>.\<close>

definition fmt_conversion :: "('w, 'x) bus_scheme \<Rightarrow> u8 \<Rightarrow> int \<Rightarrow> bool \<Rightarrow> fmt_arg list \<Rightarrow> 'w console \<Rightarrow> (fmt_arg list \<times> 'w console) option" where
  "fmt_conversion B n width pad_zero args c =
     (if n = 99
      then (case args of IntArg v # args \<Rightarrow> do { c \<leftarrow> console_putchar B (ucast v) c; Some (args, c) } | _ \<Rightarrow> None)
      else if n = 115
      then (case args of
              StrArg (Some s) # args \<Rightarrow> do { c \<leftarrow> console_putstr B s c; Some (args, c) }
            | StrArg None # args \<Rightarrow> do { c \<leftarrow> put_chars B [40, 110, 117, 108, 108, 41] c; Some (args, c) }
            | _ \<Rightarrow> None)
      else if n = 100 then put_number B 10 False width pad_zero args c
      else if n = 117 \<or> n = 120 \<or> n = 88 then put_number B 16 (n = 88) width pad_zero args c
      else do { c \<leftarrow> put_chars B [37, n] c; Some (args, c) })"

text \<open>The format string from a position on; a \<open>%\<close> at its end makes the loop read behind the string.\<close>

function console_vprintf :: "('w, 'x) bus_scheme \<Rightarrow> u8 list \<Rightarrow> fmt_arg list \<Rightarrow> 'w console \<Rightarrow> 'w console option" where
  "console_vprintf B [] args c = None"
| "console_vprintf B (n # f) args c =
     (if n = 0 then Some c
      else if n \<noteq> 37 then do { c \<leftarrow> console_putchar B n c; console_vprintf B f args c }
      else (case f of
          [] \<Rightarrow> None
        | z # f' \<Rightarrow>
            (case fmt_width (if z = 48 then f' else f) 0 of
               Some (width, n # f) \<Rightarrow>
                 do { (args, c) \<leftarrow> fmt_conversion B n width (z = 48) args c; console_vprintf B f args c }
             | _ \<Rightarrow> None)))"
  by pat_completeness auto

lemma fmt_width_shorter: "fmt_width f w = Some (w', f') \<Longrightarrow> length f' \<le> length f"
  by (induction f arbitrary: w) (auto simp: bind_eq_Some_conv split: if_splits dest: le_SucI)

termination console_vprintf
proof (relation "measure (\<lambda>(B, f, args, c). length f)", goal_cases)
  case (3 B n f args c z f' p width fs n' f'')
  then show ?case using fmt_width_shorter [of "if z = 48 then f' else f" 0 width fs] by (auto split: if_splits)
qed auto

definition console_printf :: "('w, 'x) bus_scheme \<Rightarrow> u8 list \<Rightarrow> fmt_arg list \<Rightarrow> 'w console \<Rightarrow> 'w console option" where
  "console_printf B format args c = do { c \<leftarrow> console_vprintf B format args c; console_flush c }"

end
