(* ===== verification/ConsoleSpec.thy ===== *)
theory ConsoleSpec
  imports Console IdeSpec
begin

text \<open>
  What the console shows: the exact pixels that a glyph or a filled rectangle paints, the invariant that
  the screen agrees with the back buffer outside the dirty rectangle, scrolling, and line input.
\<close>

section \<open>Painting\<close>

text \<open>The pixel in column \<open>x\<close> and row \<open>y\<close> of a buffer.\<close>

definition px :: "screen \<Rightarrow> u32 list \<Rightarrow> nat \<Rightarrow> nat \<Rightarrow> u32" where
  "px s b x y = b ! (y * unat (g_pitch s div 4) + x)"

definition screen_ok :: "screen \<Rightarrow> bool" where
  "screen_ok s \<longleftrightarrow> 0 < g_width s \<and> unat (g_width s) \<le> unat (g_pitch s div 4) \<and> unat (g_pitch s) mod 4 = 0 \<and>
     unat (g_height s) * (unat (g_pitch s div 4) * 4) < 2 ^ 31 \<and>
     unat (g_height s) * unat (g_pitch s div 4) \<le> length (g_back_buffer s) \<and>
     unat (g_height s) * unat (g_pitch s div 4) \<le> length (g_vbe_buffer s)"

definition on_screen :: "screen \<Rightarrow> nat \<Rightarrow> nat \<Rightarrow> bool" where
  "on_screen s x y \<longleftrightarrow> x < unat (g_width s) \<and> y < unat (g_height s)"

lemma screen_small:
  assumes "screen_ok s"
  shows "0 < unat (g_pitch s div 4)" "unat (g_height s) < 2 ^ 29" "0 < unat (g_height s) \<Longrightarrow> unat (g_width s) < 2 ^ 29"
proof -
  have w: "0 < unat (g_width s)" "unat (g_width s) \<le> unat (g_pitch s div 4)"
    using assms by (simp_all add: screen_ok_def word_less_nat_alt)
  then show p: "0 < unat (g_pitch s div 4)" by linarith
  have b: "unat (g_height s) * unat (g_pitch s div 4) < 2 ^ 29" using assms by (simp add: screen_ok_def)
  moreover have "unat (g_height s) * 1 \<le> unat (g_height s) * unat (g_pitch s div 4)" using p by (intro mult_le_mono2) linarith
  ultimately show "unat (g_height s) < 2 ^ 29" by linarith
  assume "0 < unat (g_height s)"
  then have "1 * unat (g_pitch s div 4) \<le> unat (g_height s) * unat (g_pitch s div 4)" by (intro mult_le_mono1) linarith
  then show "unat (g_width s) < 2 ^ 29" using w b by linarith
qed

lemma pixel_in_buffer:
  assumes "screen_ok s" "on_screen s x y"
  shows "y * unat (g_pitch s div 4) + x < unat (g_height s) * unat (g_pitch s div 4)"
proof -
  have "x < unat (g_pitch s div 4)" "Suc y \<le> unat (g_height s)"
    using assms by (simp_all add: screen_ok_def on_screen_def)
  then have "Suc y * unat (g_pitch s div 4) \<le> unat (g_height s) * unat (g_pitch s div 4)" by (intro mult_le_mono1)
  then show ?thesis using \<open>x < unat (g_pitch s div 4)\<close> by simp
qed

lemma pixel_inj:
  assumes "screen_ok s" "on_screen s x y" "on_screen s x' y'"
    and "y * unat (g_pitch s div 4) + x = y' * unat (g_pitch s div 4) + x'"
  shows "x = x' \<and> y = y'"
proof -
  let ?p = "unat (g_pitch s div 4)"
  have "x < ?p" "x' < ?p" using assms by (simp_all add: screen_ok_def on_screen_def)
  then have "(y * ?p + x) mod ?p = x" "(y' * ?p + x') mod ?p = x'" "(y * ?p + x) div ?p = y" "(y' * ?p + x') div ?p = y'"
    by simp_all
  then show ?thesis using assms(4) by metis
qed

text \<open>\<open>c'\<close> is \<open>c\<close> with the pixels of \<open>S\<close> in the back buffer set to the color.\<close>

definition painted :: "(nat \<times> nat) set \<Rightarrow> u32 \<Rightarrow> 'w console \<Rightarrow> 'w console \<Rightarrow> bool" where
  "painted S color c c' \<longleftrightarrow> (\<exists>b. c' = c\<lparr>con_screen := (con_screen c)\<lparr>g_back_buffer := b\<rparr>\<rparr> \<and>
     length b = length (g_back_buffer (con_screen c)) \<and>
     (\<forall>x y. on_screen (con_screen c) x y \<longrightarrow>
        px (con_screen c) b x y = (if (x, y) \<in> S then color else px (con_screen c) (g_back_buffer (con_screen c)) x y)))"

lemma px_back_update [simp]: "px (s\<lparr>g_back_buffer := b\<rparr>) = px s" "px (s\<lparr>g_vbe_buffer := b\<rparr>) = px s"
  by (simp_all add: fun_eq_iff px_def)

lemma on_screen_update [simp]: "on_screen (s\<lparr>g_back_buffer := b\<rparr>) = on_screen s" "on_screen (s\<lparr>g_vbe_buffer := b\<rparr>) = on_screen s"
  by (simp_all add: fun_eq_iff on_screen_def)

lemma painted_refl: "painted {} color c c"
  unfolding painted_def by (intro exI [of _ "g_back_buffer (con_screen c)"]) simp

lemma painted_screen:
  "painted S color c c' \<Longrightarrow> screen_ok (con_screen c) \<Longrightarrow> screen_ok (con_screen c') \<and> on_screen (con_screen c') = on_screen (con_screen c)"
  by (auto simp: painted_def screen_ok_def)

lemma painted_trans: "painted S color c c1 \<Longrightarrow> painted T color c1 c2 \<Longrightarrow> painted (S \<union> T) color c c2"
  unfolding painted_def by (elim exE conjE, hypsubst) (rule exI, auto)

lemma painted_mono_off:
  "painted S color c c' \<Longrightarrow> (\<And>x y. on_screen (con_screen c) x y \<Longrightarrow> (x, y) \<in> S \<longleftrightarrow> (x, y) \<in> T) \<Longrightarrow> painted T color c c'"
  unfolding painted_def by (elim exE conjE) (rule exI, auto)

lemma putpixel_painted:
  assumes ok: "screen_ok (con_screen c)" and x: "unat x < 2 ^ 31" and y: "unat y < 2 ^ 31"
  shows "runs (putpixel x y color c) (painted {(unat x, unat y)} color c)"
proof -
  let ?s = "con_screen c"
  have off: "off_screen x y ?s \<longleftrightarrow> \<not> on_screen ?s (unat x) (unat y)"
    using sint_of_small [OF x] sint_of_small [OF y] by (auto simp: off_screen_def on_screen_def word_le_nat_alt)
  show ?thesis
  proof (cases "on_screen ?s (unat x) (unat y)")
    case False
    then show ?thesis
      by (auto simp: putpixel_def vbe_putpixel_def off painted_def intro!: exI [of _ "g_back_buffer ?s"])
  next
    case True
    let ?i = "unat y * unat (g_pitch ?s div 4) + unat x"
    have lt: "?i < unat (g_height ?s) * unat (g_pitch ?s div 4)" by (rule pixel_in_buffer [OF ok True])
    then have small: "?i < 2 ^ 32" using ok by (simp add: screen_ok_def)
    then have m: "unat (y * (g_pitch ?s div 4)) = unat y * unat (g_pitch ?s div 4)" by (intro unat_mult_le) simp
    have i: "pixel_index x y ?s = ?i"
      unfolding pixel_index_def using small by (subst unat_add_le) (simp_all only: m, simp)
    have "?i < length (g_back_buffer ?s)" using lt ok by (simp add: screen_ok_def)
    moreover have "px ?s ((g_back_buffer ?s)[?i := color]) x' y' =
        (if (x', y') \<in> {(unat x, unat y)} then color else px ?s (g_back_buffer ?s) x' y')" if "on_screen ?s x' y'" for x' y'
      using pixel_inj [OF ok that True] \<open>?i < length (g_back_buffer ?s)\<close>
      by (auto simp: px_def nth_list_update simp del: unat_div_distrib)
    ultimately show ?thesis
      using True by (auto simp: putpixel_def vbe_putpixel_def off i painted_def wr_def intro!: exI [of _ "(g_back_buffer ?s)[?i := color]"] simp del: unat_div_distrib)
  qed
qed

lemma each_rule:
  assumes "unat i \<le> unat n" "I (unat i) s"
    and "\<And>j s. unat i \<le> unat j \<Longrightarrow> unat j < unat n \<Longrightarrow> I (unat j) s \<Longrightarrow> runs (f j s) (I (Suc (unat j)))"
  shows "runs (each i n f s) (I (unat n))"
proof -
  have "runs (for_loop i n (\<lambda>j s. map_option Next (f j s) :: ('a, unit) ctl option) s)
      (\<lambda>out. \<exists>s'. out = Done s' \<and> I (unat n) s')"
    using assms by (intro for_loop_rule_next [where I = I]) simp_all
  then show ?thesis unfolding each_def runs_map_option by (rule runs_mono) auto
qed

text \<open>A loop whose turns paint paints what its turns paint.\<close>

lemma each_painted:
  assumes "unat i \<le> unat n"
    and step: "\<And>j c1 T. unat i \<le> unat j \<Longrightarrow> unat j < unat n \<Longrightarrow> painted T color c c1 \<Longrightarrow> runs (f j c1) (painted (S (unat j)) color c1)"
  shows "runs (each i n f c) (painted (\<Union>j\<in>{unat i..<unat n}. S j) color c)"
proof (rule each_rule [OF assms(1)])
  show "painted (\<Union>k\<in>{unat i..<unat i}. S k) color c c" by (simp add: painted_refl)
  fix j :: u32 and c1
  assume j: "unat i \<le> unat j" "unat j < unat n" and c1: "painted (\<Union>k\<in>{unat i..<unat j}. S k) color c c1"
  have "{unat i..<Suc (unat j)} = insert (unat j) {unat i..<unat j}" using j(1) by auto
  then have U: "(\<Union>k\<in>{unat i..<Suc (unat j)}. S k) = (\<Union>k\<in>{unat i..<unat j}. S k) \<union> S (unat j)" by auto
  show "runs (f j c1) (painted (\<Union>k\<in>{unat i..<Suc (unat j)}. S k) color c)"
    unfolding U by (rule runs_mono [OF step [OF j c1]]) (rule painted_trans [OF c1])
qed

lemma painted_fields:
  assumes "painted S color c c'"
  shows "con_font c' = con_font c" "con_fg c' = con_fg c" "con_bg c' = con_bg c" "con_cols c' = con_cols c"
    "con_rows c' = con_rows c" "cursor_x c' = cursor_x c" "cursor_y c' = cursor_y c" "con_buffer c' = con_buffer c"
    "con_dirty c' = con_dirty c" "con_world c' = con_world c" "g_width (con_screen c') = g_width (con_screen c)"
    "g_height (con_screen c') = g_height (con_screen c)" "g_pitch (con_screen c') = g_pitch (con_screen c)"
    "g_vbe_buffer (con_screen c') = g_vbe_buffer (con_screen c)"
    "g_vsync_enabled (con_screen c') = g_vsync_enabled (con_screen c)"
    "g_vsync_supported (con_screen c') = g_vsync_supported (con_screen c)"
  using assms by (auto simp: painted_def)

section \<open>Glyphs and rectangles\<close>

text \<open>Whether pixel \<open>i\<close> of row \<open>j\<close> of the glyph is set.\<close>

definition glyph_bit :: "psf_font \<Rightarrow> u8 \<Rightarrow> nat \<Rightarrow> nat \<Rightarrow> bool" where
  "glyph_bit font ch i j \<longleftrightarrow>
     bit (font_data font ! (unat (font_headersize font) + unat (ucast ch * font_bytesperglyph font) +
       (j * unat ((font_width font + 7) div 8) + i div 8))) (7 - i mod 8)"

text \<open>The glyphs of all characters are inside the font; the width is at most the 64 pixels of \<open>row_offsets\<close>.\<close>

definition font_ok :: "psf_font \<Rightarrow> bool" where
  "font_ok font \<longleftrightarrow> 0 < unat (font_width font) \<and> unat (font_width font) \<le> 64 \<and> 0 < unat (font_height font) \<and>
     unat (font_height font) < 2 ^ 16 \<and>
     unat (font_headersize font) + 255 * unat (font_bytesperglyph font) +
       unat (font_height font) * unat ((font_width font + 7) div 8) \<le> length (font_data font) \<and>
     255 * unat (font_bytesperglyph font) < 2 ^ 32"

text \<open>The pixels of one byte of a glyph.\<close>

definition byte_pixels :: "u8 \<Rightarrow> nat \<Rightarrow> nat \<Rightarrow> nat \<Rightarrow> nat \<Rightarrow> (nat \<times> nat) set" where
  "byte_pixels v base fw sx y = {(sx + base + b, y) | b. b < 8 \<and> base + b < fw \<and> bit v (7 - b)}"

lemma bit_of_byte:
  fixes v :: u8
  assumes "b < 8"
  shows "v AND drop_bit b 0x80 = 0 \<longleftrightarrow> \<not> bit v (7 - b)"
proof -
  have "drop_bit b 0x80 = (2 :: u8) ^ (7 - b)"
  proof -
    have "b \<in> {0, 1, 2, 3, 4, 5, 6, 7}" using assms by auto
    then show ?thesis by auto
  qed
  then show ?thesis using and_exp_eq_0_iff_not_bit by metis
qed

lemma draw_byte_painted:
  assumes ok: "screen_ok (con_screen c)" and "unat base + 8 \<le> 64" and sx: "unat screen_x < 2 ^ 30" and y: "unat y < 2 ^ 31"
  shows "runs (draw_byte v base screen_x y c)
    (painted (byte_pixels v (unat base) (unat (font_width (con_font c))) (unat screen_x) (unat y)) (con_fg c) c)"
proof (cases "v = 0")
  case True
  then show ?thesis using painted_refl by (simp add: draw_byte_def byte_pixels_def)
next
  case False
  let ?fw = "unat (font_width (con_font c))"
  define S where "S = (\<lambda>j. {(unat screen_x + unat base + b, unat y) | b. b < j \<and> unat base + b < ?fw \<and> bit v (7 - b)})"
  define I where "I = (\<lambda>j. painted (S j) (con_fg c) c)"
  let ?body = "\<lambda>bt c. if v AND drop_bit (unat bt) 0x80 = 0 then Some (Next c)
                 else let font_x = base + bt
                      in if font_x \<ge> font_width (con_font c) then Some (Break c :: ('a console, unit) ctl)
                         else map_option Next (putpixel (screen_x + font_x) y (con_fg c) c)"
  have "runs (for_loop 0 8 ?body c)
    (\<lambda>out. case out of Done c' \<Rightarrow> I (unat (8 :: u32)) c' \<or> I 8 c' | Returned r c' \<Rightarrow> False)"
  proof (rule for_loop_rule [where I = I])
    show "unat (0 :: u32) \<le> unat (8 :: u32)" by simp
    show "I (unat (0 :: u32)) c" by (simp add: I_def S_def painted_refl)
    fix j :: u32 and c1
    assume "unat (0 :: u32) \<le> unat j" "unat j < unat (8 :: u32)" and c1: "I (unat j) c1"
    then have j: "unat j < 8" by simp
    have sum: "unat (base + j) = unat base + unat j" using assms(2) j by (intro unat_add_le) simp
    have sum2: "unat (screen_x + (base + j)) = unat screen_x + unat base + unat j"
      using assms(2) j sx by (subst unat_add_le) (simp_all add: sum)
    have fs: "con_font c1 = con_font c" "con_fg c1 = con_fg c" using c1 painted_fields unfolding I_def by blast+
    show "runs (?body j c1) (\<lambda>out. case out of Next s' \<Rightarrow> I (Suc (unat j)) s' | Break s' \<Rightarrow> I 8 s' | Return r s' \<Rightarrow> False)"
    proof (cases "bit v (7 - unat j)")
      case False
      then have "S (Suc (unat j)) = S (unat j)" by (auto simp: S_def less_Suc_eq)
      then show ?thesis using False c1 by (simp add: bit_of_byte [OF j] I_def)
    next
      case set: True
      show ?thesis
      proof (cases "?fw \<le> unat base + unat j")
        case True
        then have "S 8 = S (unat j)" using j by (auto simp: S_def)
        then show ?thesis using True set c1 fs by (simp add: bit_of_byte [OF j] word_le_nat_alt sum I_def)
      next
        case False
        then have S: "S (Suc (unat j)) = S (unat j) \<union> {(unat screen_x + unat base + unat j, unat y)}"
          using set by (auto simp: S_def less_Suc_eq)
        have "screen_ok (con_screen c1)" using c1 ok painted_screen unfolding I_def by blast
        then have "runs (putpixel (screen_x + (base + j)) y (con_fg c1) c1)
            (painted {(unat screen_x + unat base + unat j, unat y)} (con_fg c) c1)"
          using putpixel_painted [of c1 "screen_x + (base + j)" y "con_fg c1"] sum2 sx assms(2) j y fs by simp
        then have "runs (putpixel (screen_x + (base + j)) y (con_fg c1) c1) (I (Suc (unat j)))"
          by (rule runs_mono) (simp only: I_def S, rule painted_trans [OF c1 [unfolded I_def]])
        then show ?thesis using False set fs by (simp add: bit_of_byte [OF j] word_le_nat_alt sum)
      qed
    qed
  qed
  moreover have "S 8 = byte_pixels v (unat base) ?fw (unat screen_x) (unat y)" by (auto simp: S_def byte_pixels_def)
  ultimately show ?thesis
    using False unfolding draw_byte_def I_def by (simp only: if_False runs_map_option) (erule runs_mono, auto split: outcome.splits)
qed

definition glyph_pixels :: "psf_font \<Rightarrow> u8 \<Rightarrow> nat \<Rightarrow> nat \<Rightarrow> (nat \<times> nat) set" where
  "glyph_pixels font ch sx sy =
     {(sx + i, sy + j) | i j. i < unat (font_width font) \<and> j < unat (font_height font) \<and> glyph_bit font ch i j}"

definition rect :: "nat \<Rightarrow> nat \<Rightarrow> nat \<Rightarrow> nat \<Rightarrow> (nat \<times> nat) set" where
  "rect x y w h = {x..<x + w} \<times> {y..<y + h}"

lemma bytes_per_row:
  assumes "font_ok font"
  shows "unat ((font_width font + 7) div 8) = (unat (font_width font) + 7) div 8" "(unat (font_width font) + 7) div 8 \<le> 8"
proof -
  have w: "unat (font_width font) \<le> 64" using assms by (simp add: font_ok_def)
  then have "unat (font_width font + 7) = unat (font_width font) + 7" by (subst unat_add_le) simp_all
  then show "unat ((font_width font + 7) div 8) = (unat (font_width font) + 7) div 8" by simp
  show "(unat (font_width font) + 7) div 8 \<le> 8" using w by simp
qed

lemma glyph_inside:
  assumes "font_ok font" "j < unat (font_height font)" "k < unat ((font_width font + 7) div 8)"
  shows "unat (font_headersize font) + unat (ucast (ch :: u8) * font_bytesperglyph font) + (j * unat ((font_width font + 7) div 8) + k)
    < length (font_data font)"
proof -
  let ?bpr = "unat ((font_width font + 7) div 8)"
  have "unat (ucast ch :: u32) = unat ch" using u8_bound [of ch] by (simp add: unsigned_ucast_eq take_bit_nat_eq_self)
  moreover have "unat ch * unat (font_bytesperglyph font) \<le> 255 * unat (font_bytesperglyph font)"
    using u8_bound [of ch] by (intro mult_le_mono1) linarith
  moreover from this have "unat ch * unat (font_bytesperglyph font) < 2 ^ 32" using assms(1) unfolding font_ok_def by linarith
  ultimately have "unat (ucast ch * font_bytesperglyph font) \<le> 255 * unat (font_bytesperglyph font)"
    by (subst unat_mult_le) simp_all
  moreover have "j * ?bpr + k < Suc j * ?bpr" using assms(3) by simp
  moreover have "Suc j * ?bpr \<le> unat (font_height font) * ?bpr" using assms(2) by (intro mult_le_mono1) linarith
  ultimately show ?thesis using assms(1) by (simp add: font_ok_def del: unat_div_distrib)
qed

lemma glyph_pixels_bytes:
  assumes "font_ok font"
  shows "(\<Union>j\<in>{0..<unat (font_height font)}. \<Union>k\<in>{0..<unat ((font_width font + 7) div 8)}.
      byte_pixels (font_data font ! (unat (font_headersize font) + unat (ucast ch * font_bytesperglyph font) +
          (j * unat ((font_width font + 7) div 8) + k))) (k * 8) (unat (font_width font)) sx (sy + j)) =
    glyph_pixels font ch sx sy" (is "?L = ?R")
proof (intro set_eqI iffI)
  fix p assume "p \<in> ?L"
  then obtain j k b where "j < unat (font_height font)" "b < 8" "k * 8 + b < unat (font_width font)" "p = (sx + k * 8 + b, sy + j)"
    "bit (font_data font ! (unat (font_headersize font) + unat (ucast ch * font_bytesperglyph font) +
          (j * unat ((font_width font + 7) div 8) + k))) (7 - b)"
    by (auto simp: byte_pixels_def simp del: unat_div_distrib)
  moreover from this have "(k * 8 + b) div 8 = k" "(k * 8 + b) mod 8 = b" by simp_all
  ultimately show "p \<in> ?R"
    unfolding glyph_pixels_def glyph_bit_def by (intro CollectI exI [of _ "k * 8 + b"] exI [of _ j]) (simp add: add.assoc del: unat_div_distrib)
next
  fix p assume "p \<in> ?R"
  then obtain i j where ij: "i < unat (font_width font)" "j < unat (font_height font)" "glyph_bit font ch i j" "p = (sx + i, sy + j)"
    by (auto simp: glyph_pixels_def)
  have "i div 8 < unat ((font_width font + 7) div 8)" unfolding bytes_per_row [OF assms] using ij(1) by linarith
  moreover have "p \<in> byte_pixels (font_data font ! (unat (font_headersize font) + unat (ucast ch * font_bytesperglyph font) +
          (j * unat ((font_width font + 7) div 8) + i div 8))) (i div 8 * 8) (unat (font_width font)) sx (sy + j)"
    unfolding byte_pixels_def ij(4) using ij(1,3)
    by (intro CollectI exI [of _ "i mod 8"]) (simp add: glyph_bit_def add.assoc del: unat_div_distrib)
  ultimately show "p \<in> ?L" using ij(2) by (intro UN_I [of j] UN_I [of "i div 8"]) simp_all
qed

lemma draw_char_painted:
  assumes ok: "screen_ok (con_screen c)" and font: "font_ok (con_font c)"
    and x: "unat x * unat (font_width (con_font c)) + unat (font_width (con_font c)) \<le> unat (g_width (con_screen c))"
    and y: "unat y * unat (font_height (con_font c)) + unat (font_height (con_font c)) \<le> unat (g_height (con_screen c))"
  shows "runs (draw_char x y ch c) (\<lambda>c'. \<exists>c1.
    painted (glyph_pixels (con_font c) ch (unat x * unat (font_width (con_font c))) (unat y * unat (font_height (con_font c)))) (con_fg c) c c1 \<and>
    c' = console_mark_dirty (x * font_width (con_font c)) (y * font_height (con_font c)) (font_width (con_font c)) (font_height (con_font c)) c1)"
proof -
  let ?f = "con_font c"
  let ?bpr = "(font_width ?f + 7) div 8" and ?sx = "x * font_width ?f" and ?sy = "y * font_height ?f"
  let ?g = "unat (font_headersize ?f) + unat (ucast ch * font_bytesperglyph ?f)"
  have bpr: "unat ?bpr \<le> 8" using bytes_per_row [OF font] by (simp only:)
  then have nb: "\<not> ?bpr > 8" by (simp only: word_less_nat_alt unat_numeral) simp
  have pos: "0 < unat (font_height ?f)" "unat (font_height ?f) < 2 ^ 16" "unat (font_width ?f) \<le> 64" using font by (simp_all add: font_ok_def)
  then have small: "unat (g_width (con_screen c)) < 2 ^ 29" "unat (g_height (con_screen c)) < 2 ^ 29"
    using screen_small [OF ok] y by linarith+
  have sx: "unat ?sx = unat x * unat (font_width ?f)" using x small by (intro unat_mult_le) simp
  have sy: "unat ?sy = unat y * unat (font_height ?f)" using y small by (intro unat_mult_le) simp
  define P where "P = (\<lambda>j k. byte_pixels (font_data ?f ! (?g + (j * unat ?bpr + k))) (k * 8) (unat (font_width ?f)) (unat ?sx) (unat ?sy + j))"
  have byte: "runs (do { v \<leftarrow> rd (font_data ?f) (?g + unat (j * ?bpr + k)); draw_byte v (k * 8) ?sx (?sy + j) c1 })
      (painted (P (unat j) (unat k)) (con_fg c) c1)"
    if "unat j < unat (font_height ?f)" "unat k < unat ?bpr" "painted T (con_fg c) c c1" for j k T c1
  proof -
    have c1: "con_font c1 = ?f" "con_fg c1 = con_fg c" "screen_ok (con_screen c1)"
      using painted_fields [OF that(3)] painted_screen [OF that(3) ok] by simp_all
    have k: "unat (k * 8) = unat k * 8" using that(2) bpr by (subst unat_mult_le) simp_all
    have "unat j * unat ?bpr \<le> 2 ^ 16 * 8" using that(1) pos(2) bpr by (intro mult_le_mono) linarith+
    then have jk: "unat (j * ?bpr + k) = unat j * unat ?bpr + unat k"
      using that(2) bpr by (subst unat_add_le; subst unat_mult_le) (simp_all del: unat_div_distrib)
    have yj: "unat (?sy + j) = unat ?sy + unat j" using sy y that(1) small by (subst unat_add_le) simp_all
    have "?g + (unat j * unat ?bpr + unat k) < length (font_data ?f)" using that by (intro glyph_inside [OF font])
    moreover have "runs (draw_byte (font_data ?f ! (?g + (unat j * unat ?bpr + unat k))) (k * 8) ?sx (?sy + j) c1)
        (painted (P (unat j) (unat k)) (con_fg c) c1)"
      using draw_byte_painted [of c1 "k * 8" ?sx "?sy + j" "font_data ?f ! (?g + (unat j * unat ?bpr + unat k))"]
        c1 k that(2) bpr sx x small y sy yj that(1)
      unfolding P_def by (simp del: unat_div_distrib)
    ultimately show ?thesis by (simp add: jk c1(1) del: unat_div_distrib)
  qed
  have row: "runs (each 0 ?bpr (\<lambda>k c1. do { v \<leftarrow> rd (font_data ?f) (?g + unat (j * ?bpr + k)); draw_byte v (k * 8) ?sx (?sy + j) c1 }) c1)
      (painted (\<Union>k\<in>{0..<unat ?bpr}. P (unat j) k) (con_fg c) c1)"
    if "unat j < unat (font_height ?f)" "painted T (con_fg c) c c1" for j T c1
  proof -
    have "runs (each 0 ?bpr (\<lambda>k c1. do { v \<leftarrow> rd (font_data ?f) (?g + unat (j * ?bpr + k)); draw_byte v (k * 8) ?sx (?sy + j) c1 }) c1)
      (painted (\<Union>k\<in>{unat (0 :: u32)..<unat ?bpr}. P (unat j) k) (con_fg c) c1)"
    proof (rule each_painted)
      fix k :: u32 and c2 U
      assume k: "unat k < unat ?bpr" and "painted U (con_fg c) c1 c2"
      then have "painted (T \<union> U) (con_fg c) c c2" by (intro painted_trans [OF that(2)])
      then show "runs (do { v \<leftarrow> rd (font_data ?f) (?g + unat (j * ?bpr + k)); draw_byte v (k * 8) ?sx (?sy + j) c2 })
          (painted (P (unat j) (unat k)) (con_fg c) c2)" by (rule byte [OF that(1) k])
    qed simp
    then show ?thesis by (simp only: unsigned_0)
  qed
  have all: "runs (each 0 (font_height ?f) (\<lambda>j. each 0 ?bpr (\<lambda>k c1.
        do { v \<leftarrow> rd (font_data ?f) (?g + unat (j * ?bpr + k)); draw_byte v (k * 8) ?sx (?sy + j) c1 })) c)
      (painted (\<Union>j\<in>{unat (0 :: u32)..<unat (font_height ?f)}. \<Union>k\<in>{0..<unat ?bpr}. P j k) (con_fg c) c)"
    using row by (intro each_painted) simp_all
  moreover have "(\<Union>j\<in>{unat (0 :: u32)..<unat (font_height ?f)}. \<Union>k\<in>{0..<unat ?bpr}. P j k) = glyph_pixels ?f ch (unat ?sx) (unat ?sy)"
    unfolding P_def using glyph_pixels_bytes [OF font] by (simp only: unsigned_0)
  ultimately show ?thesis
    unfolding sx sy draw_char_def Let_def if_not_P [OF nb] runs_simps
    by (simp only:) (erule runs_mono, blast)
qed

lemma fill_rect_painted:
  assumes ok: "screen_ok (con_screen c)" and y: "unat y_from \<le> unat y_to" "unat y_to \<le> unat (g_height (con_screen c))"
  shows "runs (fill_rect y_from y_to c) (painted (rect 0 (unat y_from) (unat (g_width (con_screen c))) (unat y_to - unat y_from)) (con_bg c) c)"
proof -
  let ?W = "g_width (con_screen c)"
  have row: "runs (each 0 ?W (\<lambda>x c. putpixel x j (con_bg c) c) c1) (painted (\<Union>x\<in>{unat (0 :: u32)..<unat ?W}. {(x, unat j)}) (con_bg c) c1)"
    if "unat j < unat y_to" "painted T (con_bg c) c c1" for j :: u32 and T c1
  proof (rule each_painted)
    fix x :: u32 and c2 U
    assume x: "unat x < unat ?W" and "painted U (con_bg c) c1 c2"
    then have c2: "painted (T \<union> U) (con_bg c) c c2" by (intro painted_trans [OF that(2)])
    have "unat ?W < 2 ^ 29" "unat (g_height (con_screen c)) < 2 ^ 29" using screen_small [OF ok] that(1) y by linarith+
    then show "runs (putpixel x j (con_bg c2) c2) (painted {(unat x, unat j)} (con_bg c) c2)"
      using putpixel_painted [of c2 x j "con_bg c"] painted_screen [OF c2 ok] painted_fields(3) [OF c2] x y that(1) by simp
  qed simp
  have "runs (fill_rect y_from y_to c) (painted (\<Union>j\<in>{unat y_from..<unat y_to}. \<Union>x\<in>{0..<unat ?W}. {(x, j)}) (con_bg c) c)"
    unfolding fill_rect_def
  proof (rule each_painted [OF y(1)])
    fix j :: u32 and c1 T
    assume j: "unat j < unat y_to" and c1: "painted T (con_bg c) c c1"
    show "runs (each 0 ?W (\<lambda>x c. putpixel x j (con_bg c) c) c1) (painted (\<Union>x\<in>{0..<unat ?W}. {(x, unat j)}) (con_bg c) c1)"
      using row [OF j c1] by (simp only: unsigned_0)
  qed
  moreover have "(\<Union>j\<in>{unat y_from..<unat y_to}. \<Union>x\<in>{0..<unat ?W}. {(x, j)}) = rect 0 (unat y_from) (unat ?W) (unat y_to - unat y_from)"
    using y(1) by (auto simp: rect_def)
  ultimately show ?thesis by simp
qed

section \<open>The dirty rectangle\<close>

definition covered :: "dirty_rect \<Rightarrow> (nat \<times> nat) set" where
  "covered r = (if dirty r then {unat (x1 r)..<unat (x2 r)} \<times> {unat (y1 r)..<unat (y2 r)} else {})"

definition rect_ok :: "screen \<Rightarrow> dirty_rect \<Rightarrow> bool" where
  "rect_ok s r \<longleftrightarrow> dirty r \<longrightarrow> x1 r \<le> x2 r \<and> x2 r \<le> g_width s \<and> y1 r \<le> y2 r \<and> y2 r \<le> g_height s"

lemma mark_rect_ok:
  assumes "rect_ok s r" and x: "unat x + unat w \<le> unat (g_width s)" and y: "unat y + unat h \<le> unat (g_height s)"
  shows "rect_ok s (mark_rect x y w h r)" "covered r \<union> rect (unat x) (unat y) (unat w) (unat h) \<subseteq> covered (mark_rect x y w h r)"
    "dirty (mark_rect x y w h r)"
proof -
  have s: "unat (x + w) = unat x + unat w" "unat (y + h) = unat y + unat h"
    using x y u32_bound [of "g_width s"] u32_bound [of "g_height s"] by (subst unat_add_le; simp)+
  show "rect_ok s (mark_rect x y w h r)" "dirty (mark_rect x y w h r)"
    using assms by (auto simp: rect_ok_def mark_rect_def Let_def word_le_nat_alt word_less_nat_alt s)
  show "covered r \<union> rect (unat x) (unat y) (unat w) (unat h) \<subseteq> covered (mark_rect x y w h r)"
    by (auto simp: covered_def rect_def mark_rect_def Let_def word_le_nat_alt word_less_nat_alt s)
qed

text \<open>The screen shows the back buffer outside the dirty rectangle.\<close>

definition tracked :: "'w console \<Rightarrow> bool" where
  "tracked c \<longleftrightarrow> (\<forall>x y. on_screen (con_screen c) x y \<longrightarrow> (x, y) \<notin> covered (con_dirty c) \<longrightarrow>
     px (con_screen c) (g_vbe_buffer (con_screen c)) x y = px (con_screen c) (g_back_buffer (con_screen c)) x y)"

definition shown :: "'w console \<Rightarrow> bool" where
  "shown c \<longleftrightarrow> \<not> dirty (con_dirty c) \<and> tracked c"

lemma tracked_mark:
  assumes "tracked c" "painted S color c c1" "rect_ok (con_screen c) (con_dirty c)"
    and "unat x + unat w \<le> unat (g_width (con_screen c))" "unat y + unat h \<le> unat (g_height (con_screen c))"
    and S: "\<And>i j. on_screen (con_screen c) i j \<Longrightarrow> (i, j) \<in> S \<Longrightarrow> (i, j) \<in> rect (unat x) (unat y) (unat w) (unat h)"
  shows "tracked (console_mark_dirty x y w h c1)"
proof -
  have "covered (con_dirty c) \<union> rect (unat x) (unat y) (unat w) (unat h) \<subseteq> covered (mark_rect x y w h (con_dirty c))"
    by (rule mark_rect_ok [OF assms(3-5)])
  moreover obtain b where b: "c1 = c\<lparr>con_screen := (con_screen c)\<lparr>g_back_buffer := b\<rparr>\<rparr>"
    "\<And>x y. on_screen (con_screen c) x y \<Longrightarrow> px (con_screen c) b x y = (if (x, y) \<in> S then color else px (con_screen c) (g_back_buffer (con_screen c)) x y)"
    using assms(2) unfolding painted_def by blast
  ultimately show ?thesis
    using assms(1) S unfolding tracked_def console_mark_dirty_def by (simp add: subset_iff) blast
qed

section \<open>Copying the dirty rectangle\<close>

lemma nth_spliced:
  assumes "off + k \<le> length f" "off + k \<le> length b"
  shows "(take off f @ take k (drop off b) @ drop k (drop off f)) ! n = (if off \<le> n \<and> n < off + k then b ! n else f ! n)"
proof -
  have l: "length (take off f) = off" "length (take k (drop off b)) = k" using assms by simp_all
  consider "n < off" | "off \<le> n" "n < off + k" | "off + k \<le> n" by linarith
  then show ?thesis
  proof cases
    case 1
    then show ?thesis unfolding nth_append l by simp
  next
    case 2
    then have "n - off < k" by linarith
    then show ?thesis unfolding nth_append l using 2 assms by simp
  next
    case 3
    then have "\<not> n < off" "\<not> n - off < k" "k + off + (n - off - k) = n" by linarith+
    then show ?thesis unfolding nth_append l using assms by simp
  qed
qed

lemma span_pixel:
  assumes "screen_ok s" "on_screen s x y" "a \<le> e" "e \<le> unat (g_width s)"
  shows "row * unat (g_pitch s div 4) + a \<le> y * unat (g_pitch s div 4) + x \<and>
      y * unat (g_pitch s div 4) + x < row * unat (g_pitch s div 4) + a + (e - a) \<longleftrightarrow> y = row \<and> a \<le> x \<and> x < e"
proof -
  let ?p = "unat (g_pitch s div 4)"
  have x: "x < ?p" "e \<le> ?p" using assms by (simp_all add: screen_ok_def on_screen_def)
  show ?thesis
  proof (cases y row rule: linorder_cases)
    case less
    then have "Suc y * ?p \<le> row * ?p" by (intro mult_le_mono1) simp
    then show ?thesis using x less by simp
  next
    case greater
    then have "Suc row * ?p \<le> y * ?p" by (intro mult_le_mono1) simp
    then show ?thesis using x assms(3) greater by simp
  qed (use assms(3) in auto)
qed

text \<open>The screen after the rows of \<open>S\<close> were copied.\<close>

definition copied_to :: "(nat \<times> nat) set \<Rightarrow> 'w console \<Rightarrow> 'w console \<Rightarrow> bool" where
  "copied_to S c c' \<longleftrightarrow> (\<exists>f. c' = c\<lparr>con_screen := (con_screen c)\<lparr>g_vbe_buffer := f\<rparr>\<rparr> \<and>
     length f = length (g_vbe_buffer (con_screen c)) \<and>
     (\<forall>x y. on_screen (con_screen c) x y \<longrightarrow>
        px (con_screen c) f x y = (if (x, y) \<in> S then px (con_screen c) (g_back_buffer (con_screen c)) x y
          else px (con_screen c) (g_vbe_buffer (con_screen c)) x y)))"

lemma copied_to_refl: "copied_to {} c c"
  unfolding copied_to_def by (intro exI [of _ "g_vbe_buffer (con_screen c)"]) simp

lemma copied_to_trans: "copied_to S c c1 \<Longrightarrow> copied_to T c1 c2 \<Longrightarrow> copied_to (S \<union> T) c c2"
  unfolding copied_to_def by (elim exE conjE, hypsubst) (rule exI, auto)

lemma memcpy32_words: "k \<le> length d \<Longrightarrow> k \<le> length s \<Longrightarrow> memcpy32 d s (k * 4) = Some (take k s @ drop k d)"
  by (simp add: memcpy32_def)

lemma flush_row_copies:
  assumes ok: "screen_ok (con_screen c)" and r: "rect_ok (con_screen c) (con_dirty c)" "dirty (con_dirty c)"
    and y: "unat y < unat (g_height (con_screen c))"
  shows "runs (flush_row y c) (copied_to ({unat (x1 (con_dirty c))..<unat (x2 (con_dirty c))} \<times> {unat y}) c)"
proof -
  let ?s = "con_screen c" and ?r = "con_dirty c"
  let ?p = "unat (g_pitch ?s div 4)" and ?a = "unat (x1 ?r)" and ?e = "unat (x2 ?r)"
  have ae: "?a \<le> ?e" "?e \<le> unat (g_width ?s)" using r by (simp_all add: rect_ok_def word_le_nat_alt)
  have w: "unat (g_width ?s) \<le> ?p" using ok by (simp add: screen_ok_def)
  have small: "unat (g_width ?s) < 2 ^ 29" using screen_small [OF ok] y by linarith
  have "Suc (unat y) * ?p \<le> unat (g_height ?s) * ?p" using y by (intro mult_le_mono1) linarith
  then have in_buf: "unat y * ?p + ?e \<le> unat (g_height ?s) * ?p" using ae w by simp
  then have off: "unat (y * (g_pitch ?s div 4)) = unat y * ?p" using ok by (intro unat_mult_le) (simp add: screen_ok_def)
  have n: "unat ((x2 ?r - x1 ?r) * 4) = (?e - ?a) * 4"
  proof -
    have "unat (x2 ?r - x1 ?r) = ?e - ?a" using r by (intro unat_sub) (simp add: rect_ok_def)
    then show ?thesis using ae small by (subst unat_mult_le) simp_all
  qed
  define f where "f = take (unat y * ?p + ?a) (g_vbe_buffer ?s) @ take (?e - ?a) (drop (unat y * ?p + ?a) (g_back_buffer ?s)) @
      drop (?e - ?a) (drop (unat y * ?p + ?a) (g_vbe_buffer ?s))"
  have l: "unat y * ?p + ?a + (?e - ?a) \<le> length (g_vbe_buffer ?s)" "unat y * ?p + ?a + (?e - ?a) \<le> length (g_back_buffer ?s)"
    using in_buf ae ok unfolding screen_ok_def by linarith+
  then have lf: "length f = length (g_vbe_buffer ?s)" by (simp add: f_def del: unat_div_distrib)
  have "memcpy32 (drop (unat y * ?p + ?a) (g_vbe_buffer ?s)) (drop (unat y * ?p + ?a) (g_back_buffer ?s)) ((?e - ?a) * 4) =
      Some (take (?e - ?a) (drop (unat y * ?p + ?a) (g_back_buffer ?s)) @ drop (?e - ?a) (drop (unat y * ?p + ?a) (g_vbe_buffer ?s)))"
    by (intro memcpy32_words, unfold length_drop) (use l in linarith)+
  then have "flush_row y c = Some (c\<lparr>con_screen := ?s\<lparr>g_vbe_buffer := f\<rparr>\<rparr>)"
    by (simp only: flush_row_def Let_def off n bind.bind_lunit f_def)
  moreover have "px ?s f i j = (if (i, j) \<in> {?a..<?e} \<times> {unat y} then px ?s (g_back_buffer ?s) i j else px ?s (g_vbe_buffer ?s) i j)"
    if "on_screen ?s i j" for i j
    using span_pixel [OF ok that ae, of "unat y"] unfolding px_def f_def nth_spliced [OF l] by auto
  ultimately show ?thesis using lf by (auto simp: copied_to_def)
qed

lemma flush_ok:
  assumes ok: "screen_ok (con_screen c)" and r: "rect_ok (con_screen c) (con_dirty c)"
  shows "runs (console_flush c) (\<lambda>c'. \<exists>c1. copied_to (covered (con_dirty c)) c c1 \<and> c' = c1\<lparr>con_dirty := (con_dirty c)\<lparr>dirty := False\<rparr>\<rparr>)"
proof (cases "dirty (con_dirty c)")
  case False
  then have "con_dirty c\<lparr>dirty := False\<rparr> = con_dirty c" by simp
  then show ?thesis using False copied_to_refl by (auto simp: console_flush_def covered_def intro!: exI [of _ c])
next
  case True
  let ?r = "con_dirty c" and ?s = "con_screen c"
  let ?X = "{unat (x1 ?r)..<unat (x2 ?r)}"
  have y: "unat (y1 ?r) \<le> unat (y2 ?r)" "unat (y2 ?r) \<le> unat (g_height ?s)" using r True by (simp_all add: rect_ok_def word_le_nat_alt)
  have "runs (each (y1 ?r) (y2 ?r) flush_row c) (copied_to (?X \<times> {unat (y1 ?r)..<unat (y2 ?r)}) c)"
  proof (rule each_rule [OF y(1)])
    show "copied_to (?X \<times> {unat (y1 ?r)..<unat (y1 ?r)}) c c" by (simp add: copied_to_refl)
    fix j :: u32 and c1
    assume j: "unat (y1 ?r) \<le> unat j" "unat j < unat (y2 ?r)" and c1: "copied_to (?X \<times> {unat (y1 ?r)..<unat j}) c c1"
    have same: "screen_ok (con_screen c1)" "con_dirty c1 = ?r" "g_height (con_screen c1) = g_height ?s" "rect_ok (con_screen c1) ?r"
      using c1 ok r by (auto simp: copied_to_def screen_ok_def rect_ok_def)
    have "runs (flush_row j c1) (copied_to (?X \<times> {unat j}) c1)"
      using flush_row_copies [of c1 j] same True j(2) y(2) by simp
    moreover have "?X \<times> {unat (y1 ?r)..<Suc (unat j)} = ?X \<times> {unat (y1 ?r)..<unat j} \<union> ?X \<times> {unat j}" using j(1) by auto
    ultimately show "runs (flush_row j c1) (copied_to (?X \<times> {unat (y1 ?r)..<Suc (unat j)}) c)"
      using copied_to_trans [OF c1] by (simp only:) (erule runs_mono)
  qed
  moreover have "con_dirty c1 = ?r" if "copied_to S c c1" for S c1 using that by (auto simp: copied_to_def)
  ultimately show ?thesis
    using True unfolding console_flush_def covered_def by (simp only: if_False not_True_eq_False if_True runs_simps) (erule runs_mono, auto)
qed

lemma flush_shows:
  assumes "copied_to (covered (con_dirty c)) c c1" "tracked c"
  shows "shown (c1\<lparr>con_dirty := (con_dirty c)\<lparr>dirty := False\<rparr>\<rparr>)"
proof -
  let ?s = "con_screen c"
  obtain f where f: "c1 = c\<lparr>con_screen := ?s\<lparr>g_vbe_buffer := f\<rparr>\<rparr>"
    "\<And>x y. on_screen ?s x y \<Longrightarrow> px ?s f x y = (if (x, y) \<in> covered (con_dirty c) then px ?s (g_back_buffer ?s) x y else px ?s (g_vbe_buffer ?s) x y)"
    using assms(1) unfolding copied_to_def by blast
  have "px ?s f x y = px ?s (g_back_buffer ?s) x y" if xy: "on_screen ?s x y" for x y
  proof (cases "(x, y) \<in> covered (con_dirty c)")
    case True
    then show ?thesis by (simp only: f(2) [OF xy] if_True)
  next
    case False
    then have "px ?s (g_vbe_buffer ?s) x y = px ?s (g_back_buffer ?s) x y" using assms(2) xy unfolding tracked_def by blast
    then show ?thesis by (simp only: f(2) [OF xy] False if_False)
  qed
  then show ?thesis unfolding shown_def tracked_def covered_def f(1) by simp
qed

section \<open>The state of the console\<close>

definition grid_ok :: "'w console \<Rightarrow> bool" where
  "grid_ok c \<longleftrightarrow> con_cols c = g_width (con_screen c) div font_width (con_font c) \<and>
     con_rows c = g_height (con_screen c) div font_height (con_font c)"

definition con_ok :: "'w console \<Rightarrow> bool" where
  "con_ok c \<longleftrightarrow> screen_ok (con_screen c) \<and> font_ok (con_font c) \<and> rect_ok (con_screen c) (con_dirty c) \<and> grid_ok c \<and>
     0 < unat (con_cols c) \<and> cursor_x c \<le> con_cols c \<and> cursor_y c < con_rows c \<and>
     unat (con_rows c) * unat (con_cols c) \<le> length (con_buffer c)"

text \<open>The wait for the retrace comes to an end.\<close>

definition retrace_ends :: "('w, 'x) bus_scheme \<Rightarrow> bool \<Rightarrow> bool" where
  "retrace_ends B on \<longleftrightarrow> on \<longrightarrow> (\<forall>w. \<exists>w'. do { w \<leftarrow> wait_retrace B False w; wait_retrace B True w } = Some w')"

abbreviation vsync :: "'w console \<Rightarrow> bool" where
  "vsync c \<equiv> g_vsync_enabled (con_screen c) \<and> g_vsync_supported (con_screen c)"

text \<open>What no operation changes.\<close>

definition same_setup :: "'w console \<Rightarrow> 'w console \<Rightarrow> bool" where
  "same_setup c c' \<longleftrightarrow> con_font c' = con_font c \<and> con_fg c' = con_fg c \<and> con_bg c' = con_bg c \<and> con_cols c' = con_cols c \<and>
     con_rows c' = con_rows c \<and> g_width (con_screen c') = g_width (con_screen c) \<and>
     g_height (con_screen c') = g_height (con_screen c) \<and> g_pitch (con_screen c') = g_pitch (con_screen c) \<and>
     vsync c' = vsync c"

lemma same_setup_trans: "same_setup a b \<Longrightarrow> same_setup b c \<Longrightarrow> same_setup a c"
  by (simp add: same_setup_def)

lemma below_quarter: "a \<le> b \<Longrightarrow> b * 4 < 2 ^ 31 \<Longrightarrow> a < 2 ^ 32 \<and> a * 4 < 2 ^ 32" for a b :: nat
  by simp

lemma scroll_ok:
  assumes ok: "screen_ok (con_screen c)" and r: "rect_ok (con_screen c) (con_dirty c)" and v: "retrace_ends B (vsync c)"
    and h: "unat (font_height (con_font c)) \<le> unat (g_height (con_screen c))"
  shows "runs (console_scroll B 1 c) (\<lambda>c'. \<exists>b f w.
    c' = c\<lparr>con_screen := (con_screen c)\<lparr>g_back_buffer := b, g_vbe_buffer := f\<rparr>, con_world := w,
      con_dirty := mark_rect 0 (g_height (con_screen c) - font_height (con_font c)) (g_width (con_screen c)) (font_height (con_font c)) (con_dirty c)\<rparr> \<and>
    length b = length (g_back_buffer (con_screen c)) \<and> length f = length (g_vbe_buffer (con_screen c)) \<and>
    (\<forall>x y. on_screen (con_screen c) x y \<longrightarrow> px (con_screen c) f x y = px (con_screen c) b x y \<and>
       px (con_screen c) b x y = (if y + unat (font_height (con_font c)) < unat (g_height (con_screen c))
         then px (con_screen c) (g_back_buffer (con_screen c)) x (y + unat (font_height (con_font c))) else con_bg c)))"
proof -
  let ?s = "con_screen c" and ?fh = "font_height (con_font c)"
  let ?p = "unat (g_pitch ?s div 4)" and ?H = "unat (g_height ?s)" and ?W = "unat (g_width ?s)"
  let ?n = "(?H - unat ?fh) * ?p"
  have bound: "?H * (?p * 4) < 2 ^ 31" "?H * ?p \<le> length (g_back_buffer ?s)" "?H * ?p \<le> length (g_vbe_buffer ?s)"
    using ok by (simp_all add: screen_ok_def)
  have sub: "unat (g_height ?s - ?fh) = ?H - unat ?fh" using h by (intro unat_sub) (simp add: word_le_nat_alt)
  have le: "unat ?fh * ?p \<le> ?H * ?p" "?n \<le> ?H * ?p" using h by (intro mult_le_mono1, linarith)+
  have "?H * ?p * 4 < 2 ^ 31" using bound(1) by (simp only: mult.assoc)
  note small = below_quarter [OF _ this]
  have n1: "unat ?fh * ?p < 2 ^ 32" and n2: "?n * 4 < 2 ^ 32" by (rule conjunct1 [OF small [OF le(1)]], rule conjunct2 [OF small [OF le(2)]])
  have n3: "unat ?fh * ?p + ?n = ?H * ?p" using h unfolding add_mult_distrib [symmetric] by simp
  note n = n1 n2 n3
  have src: "unat (1 * ?fh * (g_pitch ?s div 4)) = unat ?fh * ?p" using n(1) by (simp only: mult_1) (rule unat_mult_le, simp)
  have cnt: "unat ((g_height ?s - 1 * ?fh) * (g_pitch ?s div 4) * 4) = ?n * 4"
  proof -
    have "unat ((g_height ?s - ?fh) * (g_pitch ?s div 4)) = ?n" using n(2) by (subst unat_mult_le) (simp_all only: sub, simp)
    then show ?thesis using n(2) by (simp only: mult_1) (subst unat_mult_le, simp_all only:, simp_all)
  qed
  define b0 where "b0 = take ?n (drop (unat ?fh * ?p) (g_back_buffer ?s)) @ drop ?n (g_back_buffer ?s)"
  have move: "move_down (g_back_buffer ?s) (unat (1 * ?fh * (g_pitch ?s div 4))) (unat ((g_height ?s - 1 * ?fh) * (g_pitch ?s div 4) * 4) div 4) = Some b0"
    unfolding src cnt move_down_def using n(3) bound(2) by (simp add: b0_def del: unat_div_distrib)
  have lb0: "length b0 = length (g_back_buffer ?s)" using n(3) bound(2) by (simp add: b0_def del: unat_div_distrib)
  have b0: "px ?s b0 x y = px ?s (g_back_buffer ?s) x (y + unat ?fh)" if xy: "x < ?W" "y < ?H - unat ?fh" for x y
  proof -
    have "x < ?p" using xy(1) ok by (simp add: screen_ok_def)
    then have lt: "y * ?p + x < Suc y * ?p" by simp
    moreover have "Suc y * ?p \<le> ?n" using xy(2) by (intro mult_le_mono1) simp
    ultimately have "y * ?p + x < ?n" by linarith
    then show ?thesis using n(3) bound(2) by (simp add: px_def b0_def nth_append add_mult_distrib ac_simps del: unat_div_distrib)
  qed
  let ?c0 = "c\<lparr>con_screen := ?s\<lparr>g_back_buffer := b0\<rparr>\<rparr>"
  have ok0: "screen_ok (con_screen ?c0)" using ok lb0 by (simp add: screen_ok_def)
  have fill: "runs (fill_rect (g_height ?s - 1 * ?fh) (g_height ?s) ?c0) (painted (rect 0 (?H - unat ?fh) ?W (?H - (?H - unat ?fh))) (con_bg c) ?c0)"
    using fill_rect_painted [OF ok0, of "g_height ?s - ?fh" "g_height ?s"] sub by simp
  have swap: "runs (vesa_swap_buffers B (con_screen c1, con_world c1)) (\<lambda>(s, w). \<exists>f. s = (con_screen c1)\<lparr>g_vbe_buffer := f\<rparr> \<and>
      length f = length (g_vbe_buffer ?s) \<and> (\<forall>x y. on_screen ?s x y \<longrightarrow> px ?s f x y = px ?s (g_back_buffer (con_screen c1)) x y))"
    if c1: "painted S (con_bg c) ?c0 c2" "c1 = console_mark_dirty X Y V U c2" for S c1 c2 X Y V U
  proof -
    let ?s1 = "con_screen c1"
    have s1: "g_vbe_buffer ?s1 = g_vbe_buffer ?s" "g_height ?s1 = g_height ?s" "g_pitch ?s1 = g_pitch ?s" "vsync c1 = vsync c"
      "length (g_back_buffer ?s1) = length (g_back_buffer ?s)"
      using c1 lb0 by (auto simp: painted_def console_mark_dirty_def)
    obtain w where w: "vesa_wait_for_vsync B ?s1 (con_world c1) = Some w"
      using v s1(4) unfolding retrace_ends_def vesa_wait_for_vsync_def by (cases "vsync c") auto
    have "unat (g_pitch ?s) mod 4 = 0" using ok by (simp add: screen_ok_def)
    then have "unat (g_pitch ?s) = ?p * 4" using div_mult_mod_eq [of "unat (g_pitch ?s)" 4] by simp
    then have sz: "unat (g_height ?s * g_pitch ?s) = ?H * ?p * 4" using bound(1) by (subst unat_mult_le) (simp_all del: unat_div_distrib)
    define f where "f = take (?H * ?p) (g_back_buffer ?s1) @ drop (?H * ?p) (g_vbe_buffer ?s)"
    have "vesa_swap_buffers B (?s1, con_world c1) = Some (?s1\<lparr>g_vbe_buffer := f\<rparr>, w)"
      using bound s1(5) by (simp add: vesa_swap_buffers_def w s1(1-3) sz memcpy32_def f_def Let_def del: unat_div_distrib)
    moreover have "length f = length (g_vbe_buffer ?s)" using bound s1(5) by (simp add: f_def del: unat_div_distrib)
    moreover have "px ?s f x y = px ?s (g_back_buffer ?s1) x y" if "on_screen ?s x y" for x y
      using pixel_in_buffer [OF ok that] bound s1(5) by (simp add: px_def f_def nth_append del: unat_div_distrib)
    ultimately show ?thesis by (simp del: ex_simps) (rule exI [of _ f], simp)
  qed
  show ?thesis
    unfolding console_scroll_def Let_def move bind.bind_lunit
  proof (rule runs_bindI [OF fill])
    fix c2 assume c2: "painted (rect 0 (?H - unat ?fh) ?W (?H - (?H - unat ?fh))) (con_bg c) ?c0 c2"
    let ?c3 = "console_mark_dirty 0 (g_height ?s - 1 * ?fh) (g_width ?s) (1 * ?fh) c2"
    obtain b where b: "c2 = ?c0\<lparr>con_screen := (con_screen ?c0)\<lparr>g_back_buffer := b\<rparr>\<rparr>" "length b = length (g_back_buffer ?s)"
      "\<And>x y. on_screen ?s x y \<Longrightarrow> px ?s b x y = (if (x, y) \<in> rect 0 (?H - unat ?fh) ?W (?H - (?H - unat ?fh)) then con_bg c else px ?s b0 x y)"
      using c2 lb0 unfolding painted_def by auto
    show "runs (do { (s, w) \<leftarrow> vesa_swap_buffers B (con_screen ?c3, con_world ?c3); Some (?c3\<lparr>con_screen := s, con_world := w\<rparr>) })
      (\<lambda>c'. \<exists>b f w.
        c' = c\<lparr>con_screen := ?s\<lparr>g_back_buffer := b, g_vbe_buffer := f\<rparr>, con_world := w,
          con_dirty := mark_rect 0 (g_height ?s - ?fh) (g_width ?s) ?fh (con_dirty c)\<rparr> \<and>
        length b = length (g_back_buffer ?s) \<and> length f = length (g_vbe_buffer ?s) \<and>
        (\<forall>x y. on_screen ?s x y \<longrightarrow> px ?s f x y = px ?s b x y \<and>
           px ?s b x y = (if y + unat ?fh < ?H then px ?s (g_back_buffer ?s) x (y + unat ?fh) else con_bg c)))"
    proof (rule runs_bindI [OF swap [OF c2 refl]], clarify, unfold runs_simps)
      fix s w f
      assume f: "length f = length (g_vbe_buffer ?s)"
        "\<forall>x y. on_screen ?s x y \<longrightarrow> px ?s f x y = px ?s (g_back_buffer (con_screen ?c3)) x y"
      have b3: "g_back_buffer (con_screen ?c3) = b" using b(1) by (simp add: console_mark_dirty_def)
      have pix: "px ?s b x y = (if y + unat ?fh < ?H then px ?s (g_back_buffer ?s) x (y + unat ?fh) else con_bg c)"
        if "on_screen ?s x y" for x y
        using b(3) [OF that] b0 [of x y] that h by (auto simp: rect_def on_screen_def)
      show "\<exists>b' f' w'. ?c3\<lparr>con_screen := (con_screen ?c3)\<lparr>g_vbe_buffer := f\<rparr>, con_world := w\<rparr> =
          c\<lparr>con_screen := ?s\<lparr>g_back_buffer := b', g_vbe_buffer := f'\<rparr>, con_world := w',
            con_dirty := mark_rect 0 (g_height ?s - ?fh) (g_width ?s) ?fh (con_dirty c)\<rparr> \<and>
          length b' = length (g_back_buffer ?s) \<and> length f' = length (g_vbe_buffer ?s) \<and>
          (\<forall>x y. on_screen ?s x y \<longrightarrow> px ?s f' x y = px ?s b' x y \<and>
            px ?s b' x y = (if y + unat ?fh < ?H then px ?s (g_back_buffer ?s) x (y + unat ?fh) else con_bg c))"
      proof (intro exI conjI allI impI)
        show "?c3\<lparr>con_screen := (con_screen ?c3)\<lparr>g_vbe_buffer := f\<rparr>, con_world := w\<rparr> =
          c\<lparr>con_screen := ?s\<lparr>g_back_buffer := b, g_vbe_buffer := f\<rparr>, con_world := w,
            con_dirty := mark_rect 0 (g_height ?s - ?fh) (g_width ?s) ?fh (con_dirty c)\<rparr>"
          unfolding b(1) console_mark_dirty_def by simp
        show "px ?s f x y = px ?s b x y" if "on_screen ?s x y" for x y using f(2) that unfolding b3 by blast
      qed (rule b(2) f(1) pix, assumption?)+
    qed
  qed
qed

section \<open>Operations keep the console well formed\<close>

text \<open>The picture: the color of a pixel in the back buffer.\<close>

abbreviation picture :: "'w console \<Rightarrow> nat \<Rightarrow> nat \<Rightarrow> u32" where
  "picture c \<equiv> px (con_screen c) (g_back_buffer (con_screen c))"

lemma cell_fits:
  fixes x y :: u32
  assumes "con_ok c" "unat x < unat (con_cols c)" "unat y < unat (con_rows c)"
  shows "unat x * unat (font_width (con_font c)) + unat (font_width (con_font c)) \<le> unat (g_width (con_screen c))"
    "unat y * unat (font_height (con_font c)) + unat (font_height (con_font c)) \<le> unat (g_height (con_screen c))"
proof -
  have fit: "unat a * unat d + unat d \<le> unat n" if "unat a < unat b" "b = n div d" for a :: u32 and b d n :: u32
  proof -
    have "Suc (unat a) * unat d \<le> unat b * unat d" using that(1) by (intro mult_le_mono1) linarith
    also have "\<dots> \<le> unat n" using that(2) by simp
    finally show ?thesis by simp
  qed
  show "unat x * unat (font_width (con_font c)) + unat (font_width (con_font c)) \<le> unat (g_width (con_screen c))"
    using assms(1) by (intro fit [OF assms(2)]) (simp only: con_ok_def grid_ok_def)
  show "unat y * unat (font_height (con_font c)) + unat (font_height (con_font c)) \<le> unat (g_height (con_screen c))"
    using assms(1) by (intro fit [OF assms(3)]) (simp only: con_ok_def grid_ok_def)
qed

text \<open>What the operations rely on: the setup, and what an operation may not break.\<close>

lemma con_ok_change:
  assumes "con_ok c" "same_setup c c'"
    and "length (g_back_buffer (con_screen c')) = length (g_back_buffer (con_screen c))"
    and "length (g_vbe_buffer (con_screen c')) = length (g_vbe_buffer (con_screen c))"
    and "length (con_buffer c') = length (con_buffer c)"
    and "rect_ok (con_screen c') (con_dirty c')" "cursor_x c' \<le> con_cols c" "cursor_y c' < con_rows c"
  shows "con_ok c'"
proof -
  have "grid_ok c'" using assms(1,2) by (simp add: con_ok_def grid_ok_def same_setup_def)
  moreover have "screen_ok (con_screen c')" using assms(1-4) by (simp add: con_ok_def screen_ok_def same_setup_def)
  ultimately show ?thesis using assms by (simp add: con_ok_def same_setup_def)
qed

lemma grid_same: "grid_ok (c\<lparr>con_dirty := d\<rparr>) = grid_ok c"
  by (simp add: grid_ok_def)

lemma painted_con_ok:
  assumes "con_ok c" "painted S color c c'"
  shows "con_ok c'" "same_setup c c'"
proof -
  have same: "same_setup c c'" "length (g_back_buffer (con_screen c')) = length (g_back_buffer (con_screen c))"
    using assms(2) by (auto simp: painted_def same_setup_def)
  then show "same_setup c c'" by simp
  show "con_ok c'"
    using same assms painted_fields [OF assms(2)] by (intro con_ok_change [of c c']; simp add: con_ok_def rect_ok_def)+
qed

lemma marked_con_ok:
  assumes "con_ok c" "unat x + unat w \<le> unat (g_width (con_screen c))" "unat y + unat h \<le> unat (g_height (con_screen c))"
  shows "con_ok (console_mark_dirty x y w h c)" "same_setup c (console_mark_dirty x y w h c)"
proof -
  have "rect_ok (con_screen c) (mark_rect x y w h (con_dirty c))" using assms by (intro mark_rect_ok) (simp_all add: con_ok_def)
  then show "con_ok (console_mark_dirty x y w h c)" "same_setup c (console_mark_dirty x y w h c)"
    using assms(1) unfolding con_ok_def by (simp_all add: grid_same console_mark_dirty_def same_setup_def)
qed

lemma flush_con_ok:
  assumes "con_ok c"
  shows "runs (console_flush c) (\<lambda>c'. \<exists>f. con_ok c' \<and> (tracked c \<longrightarrow> shown c') \<and>
    c' = c\<lparr>con_screen := (con_screen c)\<lparr>g_vbe_buffer := f\<rparr>, con_dirty := (con_dirty c)\<lparr>dirty := False\<rparr>\<rparr> \<and>
    (\<forall>x y. on_screen (con_screen c) x y \<longrightarrow> px (con_screen c) f x y =
       (if (x, y) \<in> covered (con_dirty c) then picture c x y else px (con_screen c) (g_vbe_buffer (con_screen c)) x y)))"
proof (rule runs_mono [OF flush_ok], goal_cases)
  case (3 c')
  then obtain c1 where c1: "copied_to (covered (con_dirty c)) c c1" and c': "c' = c1\<lparr>con_dirty := (con_dirty c)\<lparr>dirty := False\<rparr>\<rparr>" by blast
  then obtain f where f: "c1 = c\<lparr>con_screen := (con_screen c)\<lparr>g_vbe_buffer := f\<rparr>\<rparr>" "length f = length (g_vbe_buffer (con_screen c))"
    "\<forall>x y. on_screen (con_screen c) x y \<longrightarrow> px (con_screen c) f x y =
       (if (x, y) \<in> covered (con_dirty c) then picture c x y else px (con_screen c) (g_vbe_buffer (con_screen c)) x y)"
    unfolding copied_to_def by blast
  have "con_ok c'" unfolding c' f(1)
    by (rule con_ok_change [OF assms]) (use f(2) assms in \<open>simp_all add: same_setup_def rect_ok_def con_ok_def\<close>)
  moreover have "tracked c \<longrightarrow> shown c'" using flush_shows [OF c1] c' by blast
  ultimately show ?case using c' f(1,3) by (intro exI [of _ f]) simp
qed (use assms in \<open>simp_all add: con_ok_def\<close>)

text \<open>What a copy to the screen or the drawing of a cell leaves as it is.\<close>

definition same_text :: "'w console \<Rightarrow> 'w console \<Rightarrow> bool" where
  "same_text c c' \<longleftrightarrow> same_setup c c' \<and> cursor_x c' = cursor_x c \<and> cursor_y c' = cursor_y c \<and> con_buffer c' = con_buffer c"

lemma flush_keeps:
  assumes "con_ok c"
  shows "runs (console_flush c) (\<lambda>c'. con_ok c' \<and> (tracked c \<longrightarrow> shown c') \<and> same_text c c' \<and> picture c' = picture c)"
proof (rule runs_mono [OF flush_con_ok [OF assms]])
  fix c' assume "\<exists>f. con_ok c' \<and> (tracked c \<longrightarrow> shown c') \<and>
    c' = c\<lparr>con_screen := (con_screen c)\<lparr>g_vbe_buffer := f\<rparr>, con_dirty := (con_dirty c)\<lparr>dirty := False\<rparr>\<rparr> \<and>
    (\<forall>x y. on_screen (con_screen c) x y \<longrightarrow> px (con_screen c) f x y =
       (if (x, y) \<in> covered (con_dirty c) then picture c x y else px (con_screen c) (g_vbe_buffer (con_screen c)) x y))"
  then obtain f where c': "con_ok c'" "tracked c \<longrightarrow> shown c'"
    "c' = c\<lparr>con_screen := (con_screen c)\<lparr>g_vbe_buffer := f\<rparr>, con_dirty := (con_dirty c)\<lparr>dirty := False\<rparr>\<rparr>" by blast
  have "same_text c c'" "picture c' = picture c" unfolding c'(3) by (simp_all add: same_text_def same_setup_def)
  with c'(1,2) show "con_ok c' \<and> (tracked c \<longrightarrow> shown c') \<and> same_text c c' \<and> picture c' = picture c" by blast
qed

text \<open>The picture after a new line: unchanged, or one text row higher with an empty last row.\<close>

definition after_newline :: "'w console \<Rightarrow> nat \<Rightarrow> nat \<Rightarrow> u32" where
  "after_newline c x y =
     (if Suc (unat (cursor_y c)) < unat (con_rows c) then picture c x y
      else if y + unat (font_height (con_font c)) < unat (g_height (con_screen c))
      then picture c x (y + unat (font_height (con_font c))) else con_bg c)"

lemma con_rows_fit:
  assumes "con_ok c"
  shows "unat (font_height (con_font c)) \<le> unat (g_height (con_screen c))" "0 < unat (con_rows c)"
proof -
  show "0 < unat (con_rows c)" using assms by (simp add: con_ok_def word_less_nat_alt)
  then show "unat (font_height (con_font c)) \<le> unat (g_height (con_screen c))"
    using cell_fits(2) [OF assms _ , of 0 0] assms by (simp add: con_ok_def)
qed

text \<open>The state with the cursor at the top: while a new line scrolls, the cursor is below the last row.\<close>

abbreviation (input) home :: "'w console \<Rightarrow> 'w console" where "home c \<equiv> c\<lparr>cursor_x := 0, cursor_y := 0\<rparr>"

lemma scroll_con_ok:
  assumes home: "con_ok (home c)" and v: "retrace_ends B (vsync c)"
  shows "runs (console_scroll B 1 c) (\<lambda>c'. con_ok (home c') \<and> tracked c' \<and> same_setup c c' \<and> cursor_x c' = cursor_x c \<and>
    cursor_y c' = cursor_y c \<and> con_buffer c' = con_buffer c \<and>
    (\<forall>x y. on_screen (con_screen c) x y \<longrightarrow> picture c' x y =
      (if y + unat (font_height (con_font c)) < unat (g_height (con_screen c))
       then picture c x (y + unat (font_height (con_font c))) else con_bg c)))"
proof -
  have fit: "unat (font_height (con_font c)) \<le> unat (g_height (con_screen c))" using con_rows_fit(1) [OF home] by simp
  have ok: "screen_ok (con_screen c)" "rect_ok (con_screen c) (con_dirty c)" using home by (simp_all add: con_ok_def)
  show ?thesis
  proof (rule runs_mono [OF scroll_ok [OF ok v fit]])
  fix c' assume "\<exists>b f w. c' = c\<lparr>con_screen := (con_screen c)\<lparr>g_back_buffer := b, g_vbe_buffer := f\<rparr>, con_world := w,
      con_dirty := mark_rect 0 (g_height (con_screen c) - font_height (con_font c)) (g_width (con_screen c)) (font_height (con_font c)) (con_dirty c)\<rparr> \<and>
    length b = length (g_back_buffer (con_screen c)) \<and> length f = length (g_vbe_buffer (con_screen c)) \<and>
    (\<forall>x y. on_screen (con_screen c) x y \<longrightarrow> px (con_screen c) f x y = px (con_screen c) b x y \<and>
       px (con_screen c) b x y = (if y + unat (font_height (con_font c)) < unat (g_height (con_screen c))
         then px (con_screen c) (g_back_buffer (con_screen c)) x (y + unat (font_height (con_font c))) else con_bg c))"
  then obtain b f w where c': "c' = c\<lparr>con_screen := (con_screen c)\<lparr>g_back_buffer := b, g_vbe_buffer := f\<rparr>, con_world := w,
      con_dirty := mark_rect 0 (g_height (con_screen c) - font_height (con_font c)) (g_width (con_screen c)) (font_height (con_font c)) (con_dirty c)\<rparr>"
    and len: "length b = length (g_back_buffer (con_screen c))" "length f = length (g_vbe_buffer (con_screen c))"
    and f: "\<And>x y. on_screen (con_screen c) x y \<Longrightarrow> px (con_screen c) f x y = px (con_screen c) b x y"
    and b: "\<And>x y. on_screen (con_screen c) x y \<Longrightarrow> px (con_screen c) b x y =
       (if y + unat (font_height (con_font c)) < unat (g_height (con_screen c))
         then picture c x (y + unat (font_height (con_font c))) else con_bg c)"
    by blast
  have "unat (g_height (con_screen c) - font_height (con_font c)) + unat (font_height (con_font c)) \<le> unat (g_height (con_screen c))"
    using fit by (subst unat_sub) (simp_all add: word_le_nat_alt)
  then have r: "rect_ok (con_screen c) (con_dirty c')" unfolding c' using ok by (simp add: mark_rect_ok(1))
  have s: "same_setup c c'" by (simp add: c' same_setup_def)
  have "con_ok (home c')"
    by (rule con_ok_change [OF home]) (use s r len home in \<open>simp_all add: c' con_ok_def rect_ok_def same_setup_def\<close>)
  moreover have "tracked c'" unfolding tracked_def using f by (simp add: c')
  moreover have "picture c' x y = (if y + unat (font_height (con_font c)) < unat (g_height (con_screen c))
         then picture c x (y + unat (font_height (con_font c))) else con_bg c)" if "on_screen (con_screen c) x y" for x y
    unfolding b [OF that, symmetric] by (simp add: c')
  ultimately show "con_ok (home c') \<and> tracked c' \<and> same_setup c c' \<and> cursor_x c' = cursor_x c \<and>
    cursor_y c' = cursor_y c \<and> con_buffer c' = con_buffer c \<and>
    (\<forall>x y. on_screen (con_screen c) x y \<longrightarrow> picture c' x y =
      (if y + unat (font_height (con_font c)) < unat (g_height (con_screen c))
       then picture c x (y + unat (font_height (con_font c))) else con_bg c))" using s by (simp add: c')
qed
qed

lemma newline_ok:
  assumes ok: "con_ok c" and v: "retrace_ends B (vsync c)"
  shows "runs (newline B c) (\<lambda>c'. con_ok c' \<and> (tracked c \<longrightarrow> shown c') \<and> same_setup c c' \<and> cursor_x c' = 0 \<and>
    unat (cursor_y c') = min (Suc (unat (cursor_y c))) (unat (con_rows c) - 1) \<and> con_buffer c' = con_buffer c \<and>
    (\<forall>x y. on_screen (con_screen c) x y \<longrightarrow> picture c' x y = after_newline c x y))"
proof -
  let ?c0 = "c\<lparr>cursor_x := 0, cursor_y := cursor_y c + 1\<rparr>" and ?P = "\<lambda>c1. con_ok c1 \<and> (tracked c \<longrightarrow> tracked c1) \<and> same_setup c c1 \<and>
      cursor_x c1 = 0 \<and> unat (cursor_y c1) = min (Suc (unat (cursor_y c))) (unat (con_rows c) - 1) \<and> con_buffer c1 = con_buffer c \<and>
      (\<forall>x y. on_screen (con_screen c) x y \<longrightarrow> picture c1 x y = after_newline c x y)"
  have lt: "unat (cursor_y c) < unat (con_rows c)" using ok by (simp add: con_ok_def word_less_nat_alt)
  have up: "unat (cursor_y c + 1) = Suc (unat (cursor_y c))" using lt u32_bound [of "con_rows c"] by (subst unat_add_le) simp_all
  have "runs (if cursor_y ?c0 \<ge> con_rows ?c0 then map_option (\<lambda>c. c\<lparr>cursor_y := con_rows c - 1\<rparr>) (console_scroll B 1 ?c0) else Some ?c0) ?P"
  proof (cases "Suc (unat (cursor_y c)) < unat (con_rows c)")
    case True
    have "con_ok ?c0" by (rule con_ok_change [OF ok]) (use True ok up in \<open>simp_all add: same_setup_def con_ok_def word_less_nat_alt\<close>)
    then show ?thesis using True up by (simp add: word_le_nat_alt same_setup_def tracked_def after_newline_def)
  next
    case False
    have "con_ok (home ?c0)" by (rule con_ok_change [OF ok]) (use ok con_rows_fit(2) [OF ok] in \<open>simp_all add: same_setup_def con_ok_def word_less_nat_alt\<close>)
    moreover have "retrace_ends B (vsync ?c0)" using v by simp
    ultimately have "runs (map_option (\<lambda>c. c\<lparr>cursor_y := con_rows c - 1\<rparr>) (console_scroll B 1 ?c0)) ?P"
    proof (unfold runs_map_option, intro runs_mono [OF scroll_con_ok], goal_cases)
      case (3 c1)
      let ?c2 = "c1\<lparr>cursor_y := con_rows c1 - 1\<rparr>"
      have s: "same_setup c ?c2" using 3 by (simp add: same_setup_def)
      have rows: "unat (con_rows c - 1) = unat (con_rows c) - 1" using con_rows_fit(2) [OF ok] by (subst unat_sub) (simp_all add: word_le_nat_alt)
      have "con_ok ?c2"
        by (rule con_ok_change [of "home c1"])
          (use 3 rows con_rows_fit(2) [OF ok] in \<open>simp_all add: same_setup_def con_ok_def word_less_nat_alt\<close>)
      moreover have "min (Suc (unat (cursor_y c))) (unat (con_rows c) - 1) = unat (con_rows c) - 1" using False lt by simp
      ultimately show ?case using 3 s rows False by (simp add: same_setup_def tracked_def after_newline_def)
    qed
    then show ?thesis using False up by (simp add: word_le_nat_alt)
  qed
  then show ?thesis unfolding newline_def Let_def
  proof (rule runs_bindI)
    fix c1 assume c1: "?P c1"
    show "runs (console_flush c1) (\<lambda>c'. con_ok c' \<and> (tracked c \<longrightarrow> shown c') \<and> same_setup c c' \<and> cursor_x c' = 0 \<and>
        unat (cursor_y c') = min (Suc (unat (cursor_y c))) (unat (con_rows c) - 1) \<and> con_buffer c' = con_buffer c \<and>
        (\<forall>x y. on_screen (con_screen c) x y \<longrightarrow> picture c' x y = after_newline c x y))"
    proof (rule runs_mono [OF flush_keeps])
      show "con_ok c1" using c1 by blast
      fix c' assume "con_ok c' \<and> (tracked c1 \<longrightarrow> shown c') \<and> same_text c1 c' \<and> picture c' = picture c1"
      then show "con_ok c' \<and> (tracked c \<longrightarrow> shown c') \<and> same_setup c c' \<and> cursor_x c' = 0 \<and>
        unat (cursor_y c') = min (Suc (unat (cursor_y c))) (unat (con_rows c) - 1) \<and> con_buffer c' = con_buffer c \<and>
        (\<forall>x y. on_screen (con_screen c) x y \<longrightarrow> picture c' x y = after_newline c x y)"
        using c1 same_setup_trans [of c c1 c'] by (simp add: same_text_def)
    qed
  qed
qed

text \<open>The cell of a character drawn at a position on the screen.\<close>

lemma draw_cell_ok:
  assumes ok: "con_ok c" and x: "unat x < unat (con_cols c)" and y: "unat y < unat (con_rows c)"
  shows "runs (draw_char x y ch c) (\<lambda>c'. con_ok c' \<and> (tracked c \<longrightarrow> tracked c') \<and> same_text c c' \<and>
    (\<forall>i j. on_screen (con_screen c) i j \<longrightarrow> picture c' i j =
      (if (i, j) \<in> glyph_pixels (con_font c) ch (unat x * unat (font_width (con_font c))) (unat y * unat (font_height (con_font c)))
       then con_fg c else picture c i j)))"
proof -
  let ?f = "con_font c"
  let ?G = "glyph_pixels ?f ch (unat x * unat (font_width ?f)) (unat y * unat (font_height ?f))"
  have base: "screen_ok (con_screen c)" "font_ok ?f" "rect_ok (con_screen c) (con_dirty c)" using ok by (simp_all add: con_ok_def)
  note fits = cell_fits [OF ok x y]
  have at: "unat (x * font_width ?f) = unat x * unat (font_width ?f)" "unat (y * font_height ?f) = unat y * unat (font_height ?f)"
    using fits u32_bound [of "g_width (con_screen c)"] u32_bound [of "g_height (con_screen c)"] by (intro unat_mult_le; simp)+
  show ?thesis
  proof (rule runs_mono [OF draw_char_painted [OF base(1,2) fits]])
    fix c' assume "\<exists>c1. painted ?G (con_fg c) c c1 \<and>
      c' = console_mark_dirty (x * font_width ?f) (y * font_height ?f) (font_width ?f) (font_height ?f) c1"
    then obtain c1 where c1: "painted ?G (con_fg c) c c1"
      and c': "c' = console_mark_dirty (x * font_width ?f) (y * font_height ?f) (font_width ?f) (font_height ?f) c1" by blast
    have c1_ok: "con_ok c1" "same_setup c c1" using painted_con_ok [OF ok c1] by blast+
    have c'_ok: "con_ok c'" "same_setup c1 c'"
      unfolding c' using marked_con_ok [OF c1_ok(1)] fits at painted_fields [OF c1] by simp_all
    have "tracked c'" if "tracked c"
      unfolding c' by (rule tracked_mark [OF that c1 base(3)]) (use fits at in \<open>auto simp: glyph_pixels_def rect_def\<close>)
    moreover have "picture c' i j = (if (i, j) \<in> ?G then con_fg c else picture c i j)" if "on_screen (con_screen c) i j" for i j
      using c1 that unfolding c' painted_def console_mark_dirty_def by auto
    moreover have "same_text c c'"
      using same_setup_trans [OF c1_ok(2) c'_ok(2)] painted_fields [OF c1] by (simp add: same_text_def c' console_mark_dirty_def)
    ultimately show "con_ok c' \<and> (tracked c \<longrightarrow> tracked c') \<and> same_text c c' \<and>
        (\<forall>i j. on_screen (con_screen c) i j \<longrightarrow> picture c' i j = (if (i, j) \<in> ?G then con_fg c else picture c i j))"
      using c'_ok(1) by blast
  qed
qed

section \<open>The text terminal\<close>

text \<open>
  What the characters mean: the cursor and the cells, as a terminal with \<open>cols\<close> columns and \<open>rows\<close> rows has
  them.
\<close>

type_synonym terminal = "nat \<times> nat \<times> u8 list"

definition term_newline :: "nat \<Rightarrow> terminal \<Rightarrow> terminal" where
  "term_newline rows t = (case t of (x, y, cells) \<Rightarrow> (0, min (Suc y) (rows - 1), cells))"

definition printable :: "u8 \<Rightarrow> bool" where
  "printable ch \<longleftrightarrow> 32 \<le> unat ch \<and> unat ch \<le> 126"

definition term_put :: "nat \<Rightarrow> nat \<Rightarrow> u8 \<Rightarrow> terminal \<Rightarrow> terminal" where
  "term_put cols rows ch t =
     (if ch = 10 then term_newline rows t
      else if printable ch
      then (case if fst t < cols then t else term_newline rows t of (x, y, cells) \<Rightarrow> (Suc x, y, cells[y * cols + x := ch]))
      else t)"

definition text_of :: "'w console \<Rightarrow> terminal" where
  "text_of c = (unat (cursor_x c), unat (cursor_y c), con_buffer c)"

lemma sint_u8: "sint ch = (if uint ch < 128 then uint ch else uint ch - 256)" for ch :: u8
proof -
  have u: "0 \<le> uint ch" "uint ch < 256" using uint_lt2p [of ch] by simp_all
  have "sint ch = signed_take_bit 7 (uint ch)" by (subst sint_uint) simp
  also have "\<dots> = take_bit 8 (uint ch) - 256 * of_bool (bit (uint ch) 7)"
    using signed_take_bit_eq_take_bit_minus [of 7 "uint ch"] by simp
  also have "take_bit 8 (uint ch) = uint ch" using u by (simp add: take_bit_int_eq_self)
  also have "bit (uint ch) 7 \<longleftrightarrow> \<not> uint ch < 128"
  proof -
    have "uint ch div 128 = (if uint ch < 128 then 0 else 1)" using u by (auto simp: int_div_pos_eq)
    then show ?thesis unfolding bit_iff_odd by simp
  qed
  finally show ?thesis by simp
qed

lemma printable_sint: "(sint ch < 0x20 \<or> sint ch > 0x7E) = (\<not> printable ch)" for ch :: u8
proof -
  define u where "u = uint ch"
  have u: "unat ch = nat u" "0 \<le> u" "u < 256" unfolding u_def using uint_lt2p [of ch] by simp_all
  show ?thesis unfolding printable_def sint_u8 u(1) u_def [symmetric] using u(2,3) by auto
qed

definition on_text :: "'w console \<Rightarrow> 'w console \<Rightarrow> bool" where
  "on_text c c' \<longleftrightarrow> con_ok c' \<and> (tracked c \<longrightarrow> tracked c') \<and> same_setup c c'"

lemma on_text_trans: "on_text a b \<Longrightarrow> on_text b c \<Longrightarrow> on_text a c"
  using same_setup_trans by (auto simp: on_text_def)

lemma shown_tracked: "shown c \<Longrightarrow> tracked c"
  by (simp add: shown_def)

lemma cells_small:
  assumes "grid_ok c" "screen_ok (con_screen c)"
  shows "unat (con_rows c) * unat (con_cols c) < 2 ^ 32"
proof -
  let ?n = "unat (con_cols c)" and ?m = "unat (con_rows c)"
  have "?n \<le> unat (g_width (con_screen c))" "?m \<le> unat (g_height (con_screen c))" using assms(1) by (simp_all add: grid_ok_def)
  then have "?m * ?n \<le> unat (g_height (con_screen c)) * unat (g_pitch (con_screen c) div 4)"
    using assms(2) unfolding screen_ok_def by (intro mult_le_mono) linarith+
  then show ?thesis using assms(2) by (simp add: screen_ok_def)
qed

lemma cell_index:
  fixes x y :: u32
  assumes ok: "con_ok c" and x: "unat x < unat (con_cols c)" and y: "unat y < unat (con_rows c)"
  shows "unat (y * con_cols c + x) = unat y * unat (con_cols c) + unat x"
    "unat y * unat (con_cols c) + unat x < length (con_buffer c)"
proof -
  let ?n = "unat (con_cols c)" and ?m = "unat (con_rows c)"
  have grid: "grid_ok c" "screen_ok (con_screen c)" using ok by (simp_all add: con_ok_def)
  have "Suc (unat y) * ?n \<le> ?m * ?n" using y by (intro mult_le_mono1) simp
  then have lt: "unat y * ?n + unat x < ?m * ?n" using x by simp
  have "unat y * ?n + unat x < 2 ^ 32" using lt cells_small [OF grid] by linarith
  then show "unat (y * con_cols c + x) = unat y * ?n + unat x" by (subst unat_add_le; subst unat_mult_le) simp_all
  show "unat y * ?n + unat x < length (con_buffer c)" using lt ok by (simp add: con_ok_def)
qed

text \<open>A printable character behind the wrap of the line.\<close>

lemma put_cell_ok:
  assumes ok: "con_ok c" and x: "unat (cursor_x c) < unat (con_cols c)"
  shows "runs (do { buf \<leftarrow> wr (con_buffer c) (unat (cursor_y c * con_cols c + cursor_x c)) ch;
        c \<leftarrow> draw_char (cursor_x c) (cursor_y c) ch (c\<lparr>con_buffer := buf\<rparr>);
        Some (c\<lparr>cursor_x := cursor_x c + 1\<rparr>) })
    (\<lambda>c'. on_text c c' \<and>
      text_of c' = (Suc (unat (cursor_x c)), unat (cursor_y c),
        (con_buffer c)[unat (cursor_y c) * unat (con_cols c) + unat (cursor_x c) := ch]) \<and>
      (\<forall>i j. on_screen (con_screen c) i j \<longrightarrow> picture c' i j =
        (if (i, j) \<in> glyph_pixels (con_font c) ch (unat (cursor_x c) * unat (font_width (con_font c))) (unat (cursor_y c) * unat (font_height (con_font c)))
         then con_fg c else picture c i j)))"
proof -
  let ?n = "unat (con_cols c)" and ?m = "unat (con_rows c)" and ?x = "unat (cursor_x c)" and ?y = "unat (cursor_y c)"
  have y: "?y < ?m" and buf: "?m * ?n \<le> length (con_buffer c)" using ok by (simp_all add: con_ok_def word_less_nat_alt)
  have grid: "grid_ok c" "screen_ok (con_screen c)" "font_ok (con_font c)" using ok by (simp_all add: con_ok_def)
  note i = cell_index [OF ok x y]
  let ?c1 = "c\<lparr>con_buffer := (con_buffer c)[?y * ?n + ?x := ch]\<rparr>"
  have c1: "con_ok ?c1" by (rule con_ok_change [OF ok]) (use ok in \<open>simp_all add: same_setup_def con_ok_def\<close>)
  have w: "wr (con_buffer c) (?y * ?n + ?x) ch = Some ((con_buffer c)[?y * ?n + ?x := ch])" using i(2) by (simp add: wr_def)
  have up: "unat (cursor_x c + 1) = Suc ?x" using x u32_bound [of "con_cols c"] by (subst unat_add_le) simp_all
  show ?thesis
    unfolding i(1) w bind.bind_lunit
  proof (rule runs_bindI [OF draw_cell_ok [OF c1]])
    fix c2
    assume "con_ok c2 \<and> (tracked ?c1 \<longrightarrow> tracked c2) \<and> same_text ?c1 c2 \<and>
      (\<forall>i j. on_screen (con_screen ?c1) i j \<longrightarrow> picture c2 i j =
        (if (i, j) \<in> glyph_pixels (con_font ?c1) ch (unat (cursor_x c) * unat (font_width (con_font ?c1))) (unat (cursor_y c) * unat (font_height (con_font ?c1)))
         then con_fg ?c1 else picture ?c1 i j))"
    then have c2: "con_ok c2" "tracked ?c1 \<longrightarrow> tracked c2" "same_text ?c1 c2" and
      pic: "\<forall>i j. on_screen (con_screen c) i j \<longrightarrow> picture c2 i j =
        (if (i, j) \<in> glyph_pixels (con_font c) ch (unat (cursor_x c) * unat (font_width (con_font c))) (unat (cursor_y c) * unat (font_height (con_font c)))
         then con_fg c else picture c i j)" by simp_all
    let ?c3 = "c2\<lparr>cursor_x := cursor_x c2 + 1\<rparr>"
    have s: "same_setup c ?c3" "text_of ?c3 = (Suc ?x, ?y, (con_buffer c)[?y * ?n + ?x := ch])"
      using c2(3) up by (simp_all add: same_text_def same_setup_def text_of_def)
    moreover have "con_ok ?c3"
      by (rule con_ok_change [OF c2(1)])
        (use c2(1,3) x up y in \<open>simp_all add: same_setup_def same_text_def con_ok_def word_le_nat_alt word_less_nat_alt\<close>)
    moreover have "tracked c \<longrightarrow> tracked ?c3" using c2(2) by (simp add: tracked_def)
    moreover have "picture ?c3 = picture c2" by simp
    ultimately show "runs (Some ?c3) (\<lambda>c'. on_text c c' \<and>
      text_of c' = (Suc ?x, ?y, (con_buffer c)[?y * ?n + ?x := ch]) \<and>
      (\<forall>i j. on_screen (con_screen c) i j \<longrightarrow> picture c' i j =
        (if (i, j) \<in> glyph_pixels (con_font c) ch (unat (cursor_x c) * unat (font_width (con_font c))) (unat (cursor_y c) * unat (font_height (con_font c)))
         then con_fg c else picture c i j)))"
      unfolding runs_simps on_text_def using pic by (simp only:)
  qed (use x y in simp_all)
qed

lemma newline_term:
  assumes ok: "con_ok c" and v: "retrace_ends B (vsync c)"
  shows "runs (newline B c) (\<lambda>c'. on_text c c' \<and> (tracked c \<longrightarrow> shown c') \<and>
    text_of c' = term_newline (unat (con_rows c)) (text_of c) \<and>
    (\<forall>x y. on_screen (con_screen c) x y \<longrightarrow> picture c' x y = after_newline c x y))"
  by (rule runs_mono [OF newline_ok [OF assms]])
    (simp add: on_text_def text_of_def term_newline_def shown_tracked)

text \<open>The picture after a character.\<close>

definition after_put :: "u8 \<Rightarrow> 'w console \<Rightarrow> nat \<Rightarrow> nat \<Rightarrow> u32" where
  "after_put ch c i j =
     (if ch = 10 then after_newline c i j
      else if printable ch
      then let wrap = \<not> cursor_x c < con_cols c;
               (x, y, _) = (if wrap then term_newline (unat (con_rows c)) (text_of c) else text_of c)
           in if (i, j) \<in> glyph_pixels (con_font c) ch (x * unat (font_width (con_font c))) (y * unat (font_height (con_font c)))
              then con_fg c else if wrap then after_newline c i j else picture c i j
      else picture c i j)"

lemma putchar_ok:
  assumes ok: "con_ok c" and v: "retrace_ends B (vsync c)"
  shows "runs (console_putchar B ch c) (\<lambda>c'. on_text c c' \<and>
    text_of c' = term_put (unat (con_cols c)) (unat (con_rows c)) ch (text_of c) \<and>
    (\<forall>i j. on_screen (con_screen c) i j \<longrightarrow> picture c' i j = after_put ch c i j))"
proof -
  consider (skip) "\<not> printable ch" "ch \<noteq> 10" | (newline) "ch = 10" | (put) "printable ch" "ch \<noteq> 10" by blast
  then show ?thesis
  proof cases
    case skip
    then show ?thesis
      by (simp add: console_putchar_def printable_sint term_put_def on_text_def ok same_setup_def after_put_def)
  next
    case newline
    show ?thesis
      unfolding console_putchar_def newline
      by (simp, rule runs_mono [OF newline_term [OF ok v]]) (auto simp: after_put_def term_put_def)
  next
    case put
    let ?put = "\<lambda>c. do { buf \<leftarrow> wr (con_buffer c) (unat (cursor_y c * con_cols c + cursor_x c)) ch;
        c \<leftarrow> draw_char (cursor_x c) (cursor_y c) ch (c\<lparr>con_buffer := buf\<rparr>);
        Some (c\<lparr>cursor_x := cursor_x c + 1\<rparr>) }"
    have eq: "console_putchar B ch c = Option.bind (if cursor_x c \<ge> con_cols c then newline B c else Some c) ?put"
      using put by (simp add: console_putchar_def printable_sint)
    show ?thesis
    proof (cases "cursor_x c < con_cols c")
      case True
      then have x: "unat (cursor_x c) < unat (con_cols c)" by (simp add: word_less_nat_alt)
      show ?thesis
        unfolding eq using True
        by (simp only: linorder_not_less [symmetric] not_not if_not_P if_P bind.bind_lunit simp_thms if_False)
          (rule runs_mono [OF put_cell_ok [OF ok x]], simp add: term_put_def text_of_def put x after_put_def Let_def)
    next
      case False
      then have x: "\<not> unat (cursor_x c) < unat (con_cols c)" by (simp add: word_less_nat_alt)
      have "runs (Option.bind (newline B c) ?put) (\<lambda>c'. on_text c c' \<and>
          text_of c' = term_put (unat (con_cols c)) (unat (con_rows c)) ch (text_of c) \<and>
          (\<forall>i j. on_screen (con_screen c) i j \<longrightarrow> picture c' i j = after_put ch c i j))"
      proof (rule runs_bindI [OF newline_term [OF ok v]])
        fix c1
        assume "on_text c c1 \<and> (tracked c \<longrightarrow> shown c1) \<and> text_of c1 = term_newline (unat (con_rows c)) (text_of c) \<and>
          (\<forall>x y. on_screen (con_screen c) x y \<longrightarrow> picture c1 x y = after_newline c x y)"
        then have c1: "on_text c c1" and t: "text_of c1 = term_newline (unat (con_rows c)) (text_of c)"
          and pic: "\<forall>x y. on_screen (con_screen c) x y \<longrightarrow> picture c1 x y = after_newline c x y" by blast+
        have ok1: "con_ok c1" and s: "same_setup c c1" using c1 by (simp_all add: on_text_def)
        have tx: "unat (cursor_x c1) = 0" "unat (cursor_y c1) = min (Suc (unat (cursor_y c))) (unat (con_rows c) - 1)"
          "con_buffer c1 = con_buffer c" using t by (simp_all add: text_of_def term_newline_def)
        then have x1: "unat (cursor_x c1) < unat (con_cols c1)" using ok1 by (simp add: con_ok_def)
        have same: "con_font c1 = con_font c" "con_fg c1 = con_fg c" "con_cols c1 = con_cols c" "on_screen (con_screen c1) = on_screen (con_screen c)"
          using s by (simp_all add: same_setup_def on_screen_def fun_eq_iff)
        have cell: "after_put ch c i j = (if (i, j) \<in> glyph_pixels (con_font c) ch (unat (cursor_x c1) * unat (font_width (con_font c)))
              (unat (cursor_y c1) * unat (font_height (con_font c))) then con_fg c else after_newline c i j)" for i j
          using put False by (simp add: after_put_def term_newline_def text_of_def tx)
        show "runs (?put c1) (\<lambda>c'. on_text c c' \<and>
          text_of c' = term_put (unat (con_cols c)) (unat (con_rows c)) ch (text_of c) \<and>
          (\<forall>i j. on_screen (con_screen c) i j \<longrightarrow> picture c' i j = after_put ch c i j))"
        proof (rule runs_mono [OF put_cell_ok [OF ok1 x1, unfolded same(1,2,4)]])
          fix c2
          assume "on_text c1 c2 \<and>
            text_of c2 = (Suc (unat (cursor_x c1)), unat (cursor_y c1), (con_buffer c1)[unat (cursor_y c1) * unat (con_cols c1) + unat (cursor_x c1) := ch]) \<and>
            (\<forall>i j. on_screen (con_screen c) i j \<longrightarrow> picture c2 i j =
              (if (i, j) \<in> glyph_pixels (con_font c) ch (unat (cursor_x c1) * unat (font_width (con_font c))) (unat (cursor_y c1) * unat (font_height (con_font c)))
               then con_fg c else picture c1 i j))"
          then show "on_text c c2 \<and> text_of c2 = term_put (unat (con_cols c)) (unat (con_rows c)) ch (text_of c) \<and>
            (\<forall>i j. on_screen (con_screen c) i j \<longrightarrow> picture c2 i j = after_put ch c i j)"
            using on_text_trans [OF c1] pic x put by (simp add: same(3) cell term_put_def term_newline_def text_of_def tx)
        qed
      qed
      moreover have "con_cols c \<le> cursor_x c" using False by simp
      ultimately show ?thesis unfolding eq by (simp only: if_True)
    qed
  qed
qed

lemma putchar_on_text:
  "con_ok c \<Longrightarrow> retrace_ends B (vsync c) \<Longrightarrow> runs (console_putchar B ch c) (on_text c)"
  by (rule runs_mono [OF putchar_ok]) blast+

lemma flush_on_text: "con_ok c \<Longrightarrow> runs (console_flush c) (on_text c)"
  by (rule runs_mono [OF flush_keeps]) (auto simp: on_text_def same_text_def shown_def)

lemma on_text_next:
  assumes "on_text c c'" "con_ok c" "retrace_ends B (vsync c)"
  shows "con_ok c'" "retrace_ends B (vsync c')"
  using assms by (simp_all add: on_text_def same_setup_def)

text \<open>The console is a device for text: the terminal with its columns and rows.\<close>

abbreviation (input) terminal_of :: "'w console \<Rightarrow> nat \<times> nat \<times> terminal" where
  "terminal_of c \<equiv> (unat (con_cols c), unat (con_rows c), text_of c)"

interpretation console_output: text_output "console_putchar B" "\<lambda>c. con_ok c \<and> retrace_ends B (vsync c)" on_text terminal_of
  "\<lambda>ch (cols, rows, t). (cols, rows, term_put cols rows ch t)" for B
proof
  fix c :: "'a console" and ch
  assume c: "con_ok c \<and> retrace_ends B (vsync c)"
  then show "runs (console_putchar B ch c) (\<lambda>c'. (con_ok c' \<and> retrace_ends B (vsync c')) \<and> on_text c c' \<and>
      terminal_of c' = (case terminal_of c of (cols, rows, t) \<Rightarrow> (cols, rows, term_put cols rows ch t)))"
    by (intro runs_mono [OF putchar_ok]) (auto simp: on_text_def same_setup_def)
  show "on_text c c" using c by (simp add: on_text_def same_setup_def)
qed (rule on_text_trans)

lemma fold_terminal: "fold (\<lambda>ch (cols, rows, t). (cols, rows, term_put cols rows ch t)) s (m, n, t) = (m, n, fold (term_put m n) s t)"
  by (induction s arbitrary: t) auto

lemma putstr_put_all: "0 \<in> set s \<Longrightarrow> console_putstr B s c = put_all (console_putchar B) (takeWhile (\<lambda>ch. ch \<noteq> 0) s) c"
  by (induction s arbitrary: c) (auto simp: bind_eq_Some_conv intro!: Option.bind_cong)

text \<open>A string is typed one character after the other, up to its end.\<close>

lemma putstr_ok:
  assumes "con_ok c" "retrace_ends B (vsync c)" "0 \<in> set s"
  shows "runs (console_putstr B s c) (\<lambda>c'. on_text c c' \<and>
    text_of c' = fold (term_put (unat (con_cols c)) (unat (con_rows c))) (takeWhile (\<lambda>ch. ch \<noteq> 0) s) (text_of c))"
  unfolding putstr_put_all [OF assms(3)]
  by (rule runs_mono [OF console_output.put_all_law [of c B]]) (use assms in \<open>auto simp: fold_terminal\<close>)

end
