(* ===== verification/ConsoleText.thy ===== *)
theory ConsoleText
  imports ConsoleSpec
begin

text \<open>
  The properties of the console: what a character, a string and a copy to the screen show, what deleting a
  character leaves on the screen, the line editor, and the formatting of numbers.
\<close>

section \<open>Deleting a character\<close>

lemma erase_painted:
  assumes ok: "screen_ok (con_screen c)" and x: "unat sx < 2 ^ 30" and y: "unat sy < 2 ^ 30"
  shows "runs (each 0 17 (\<lambda>y. each 0 9 (\<lambda>x c. putpixel (sx + x) (sy + y) (con_bg c) c)) c)
    (painted (rect (unat sx) (unat sy) 9 17) (con_bg c) c)"
proof -
  have pixel: "runs (putpixel (sx + i) (sy + j) (con_bg c2) c2) (painted {(unat sx + unat i, unat sy + unat j)} (con_bg c) c2)"
    if "unat i < 9" "unat j < 17" "painted U (con_bg c) c c2" for i j U c2
  proof -
    have "unat (sx + i) = unat sx + unat i" "unat (sy + j) = unat sy + unat j"
      using x y that(1,2) by (subst unat_add_le; simp)+
    then show ?thesis
      using putpixel_painted [of c2 "sx + i" "sy + j" "con_bg c"] painted_screen [OF that(3) ok] painted_fields(3) [OF that(3)] x y that(1,2)
      by simp
  qed
  have row: "runs (each 0 9 (\<lambda>x c. putpixel (sx + x) (sy + j) (con_bg c) c) c1)
      (painted (\<Union>i\<in>{unat (0 :: u32)..<unat (9 :: u32)}. {(unat sx + i, unat sy + unat j)}) (con_bg c) c1)"
    if "unat j < 17" "painted T (con_bg c) c c1" for j T c1
    by (rule each_painted) (use that in \<open>auto intro!: pixel painted_trans\<close>)
  have "runs (each 0 17 (\<lambda>y. each 0 9 (\<lambda>x c. putpixel (sx + x) (sy + y) (con_bg c) c)) c)
      (painted (\<Union>j\<in>{unat (0 :: u32)..<unat (17 :: u32)}. \<Union>i\<in>{unat (0 :: u32)..<unat (9 :: u32)}. {(unat sx + i, unat sy + j)}) (con_bg c) c)"
    by (rule each_painted) (simp, rule row, simp_all)
  moreover have "(\<Union>j\<in>{unat (0 :: u32)..<unat (17 :: u32)}. \<Union>i\<in>{unat (0 :: u32)..<unat (9 :: u32)}. {(unat sx + i, unat sy + j)}) =
      rect (unat sx) (unat sy) 9 17"
  proof (intro set_eqI iffI)
    fix p assume "p \<in> rect (unat sx) (unat sy) 9 17"
    then show "p \<in> (\<Union>j\<in>{unat (0 :: u32)..<unat (17 :: u32)}. \<Union>i\<in>{unat (0 :: u32)..<unat (9 :: u32)}. {(unat sx + i, unat sy + j)})"
      by (intro UN_I [of "snd p - unat sy"] UN_I [of "fst p - unat sx"]) (auto simp: rect_def)
  qed (auto simp: rect_def)
  ultimately show ?thesis by (simp only:)
qed

text \<open>The last character of the line goes; the cursor stays in its row.\<close>

lemma ungetchar_ok:
  assumes ok: "con_ok c" and x: "0 < cursor_x c"
  defines "sx \<equiv> (unat (cursor_x c) - 1) * unat (font_width (con_font c))" and "sy \<equiv> unat (cursor_y c) * unat (font_height (con_font c))"
  shows "runs (console_ungetchar c) (\<lambda>c'. con_ok c' \<and> same_setup c c' \<and> \<not> dirty (con_dirty c') \<and>
    text_of c' = (unat (cursor_x c) - 1, unat (cursor_y c),
      (con_buffer c)[unat (cursor_y c) * unat (con_cols c) + (unat (cursor_x c) - 1) := 0]) \<and>
    (\<forall>i j. on_screen (con_screen c) i j \<longrightarrow>
       picture c' i j = (if (i, j) \<in> rect sx sy 9 17 then con_bg c else picture c i j) \<and>
       (shown c \<longrightarrow> px (con_screen c') (g_vbe_buffer (con_screen c')) i j =
          (if (i, j) \<in> rect sx sy (unat (font_width (con_font c))) (unat (font_height (con_font c)))
           then picture c' i j else picture c i j))))"
proof -
  let ?n = "unat (con_cols c)" and ?m = "unat (con_rows c)" and ?y = "unat (cursor_y c)" and ?x = "unat (cursor_x c) - 1"
  let ?s = "con_screen c" and ?fw = "font_width (con_font c)" and ?fh = "font_height (con_font c)"
  have x1: "unat (cursor_x c - 1) = ?x" using x by (subst unat_sub) (simp_all add: word_le_nat_alt word_less_nat_alt Suc_le_eq)
  have y: "?y < ?m" and buf: "?m * ?n \<le> length (con_buffer c)" and le: "unat (cursor_x c) \<le> ?n"
    using ok by (simp_all add: con_ok_def word_less_nat_alt word_le_nat_alt)
  have xn: "?x < ?n" using le x by (simp add: word_less_nat_alt)
  have i: "unat (cursor_y c * con_cols c + (cursor_x c - 1)) = ?y * ?n + ?x" "?y * ?n + ?x < length (con_buffer c)"
    using cell_index [OF ok, of "cursor_x c - 1" "cursor_y c"] xn y x1 by simp_all
  define c1 where "c1 = c\<lparr>cursor_x := cursor_x c - 1, con_buffer := (con_buffer c)[?y * ?n + ?x := 0]\<rparr>"
  have s1: "same_setup c c1" "con_screen c1 = ?s" "con_dirty c1 = con_dirty c" "text_of c1 = (?x, ?y, (con_buffer c)[?y * ?n + ?x := 0])"
    by (simp_all add: c1_def same_setup_def text_of_def x1)
  have ok1: "con_ok c1" by (rule con_ok_change [OF ok s1(1)]) (use ok le x1 in \<open>simp_all add: c1_def con_ok_def word_le_nat_alt\<close>)
  note fits = cell_fits [OF ok, of "cursor_x c - 1" "cursor_y c", unfolded x1, OF xn y]
  have small: "unat (g_width ?s) < 2 ^ 29" "unat (g_height ?s) < 2 ^ 29"
    using screen_small [of ?s] con_rows_fit [OF ok] ok fits(2) by (simp_all add: con_ok_def font_ok_def)
  have sxy: "unat ((cursor_x c - 1) * ?fw) = sx" "unat (cursor_y c * ?fh) = sy"
    unfolding sx_def sy_def x1 [symmetric] using fits small x1 by (intro unat_mult_le; simp)+
  have prog: "console_ungetchar c = do { c \<leftarrow> each 0 17 (\<lambda>y. each 0 9 (\<lambda>x c. putpixel ((cursor_x c1 * ?fw) + x) ((cursor_y c1 * ?fh) + y) (con_bg c) c)) c1;
      console_flush (console_mark_dirty (cursor_x c1 * ?fw) (cursor_y c1 * ?fh) (font_width (con_font c)) (font_height (con_font c)) c) }"
    using x i by (simp add: console_ungetchar_def c1_def wr_def Let_def)
  have at: "cursor_x c1 = cursor_x c - 1" "cursor_y c1 = cursor_y c" "con_bg c1 = con_bg c" by (simp_all add: c1_def)
  show ?thesis
    unfolding prog at
  proof (rule runs_bindI [OF erase_painted [of c1 "(cursor_x c - 1) * ?fw" "cursor_y c * ?fh", unfolded sxy at]])
    show "screen_ok (con_screen c1)" "sx < 2 ^ 30" "sy < 2 ^ 30"
      using ok1 fits small by (simp_all add: con_ok_def sx_def sy_def)
    fix c2 assume c2: "painted (rect sx sy 9 17) (con_bg c) c1 c2"
    let ?c3 = "console_mark_dirty ((cursor_x c - 1) * ?fw) (cursor_y c * ?fh) ?fw ?fh c2"
    have ok2: "con_ok c2" "same_setup c1 c2" using painted_con_ok [OF ok1 c2] by blast+
    have ok3: "con_ok ?c3" "same_setup c2 ?c3"
      using marked_con_ok [OF ok2(1), of "(cursor_x c - 1) * ?fw" ?fw "cursor_y c * ?fh" ?fh] fits
      by (simp_all add: sxy painted_fields [OF c2] s1(2)) (simp_all add: sx_def sy_def)
    have font: "con_font c2 = con_font c" using painted_fields(1) [OF c2] by (simp add: c1_def)
    show "runs (console_flush (console_mark_dirty ((cursor_x c - 1) * ?fw) (cursor_y c * ?fh) (font_width (con_font c2)) (font_height (con_font c2)) c2)) (\<lambda>c'. con_ok c' \<and> same_setup c c' \<and> \<not> dirty (con_dirty c') \<and> text_of c' = (?x, ?y, (con_buffer c)[?y * ?n + ?x := 0]) \<and>
      (\<forall>i j. on_screen ?s i j \<longrightarrow> picture c' i j = (if (i, j) \<in> rect sx sy 9 17 then con_bg c else picture c i j) \<and>
         (shown c \<longrightarrow> px (con_screen c') (g_vbe_buffer (con_screen c')) i j =
            (if (i, j) \<in> rect sx sy (unat ?fw) (unat ?fh) then picture c' i j else picture c i j))))"
      unfolding font
    proof (rule runs_mono [OF flush_con_ok [OF ok3(1)]], elim exE conjE, intro conjI allI impI)
      fix c' f
      assume c': "con_ok c'" "c' = ?c3\<lparr>con_screen := (con_screen ?c3)\<lparr>g_vbe_buffer := f\<rparr>, con_dirty := (con_dirty ?c3)\<lparr>dirty := False\<rparr>\<rparr>"
        and f: "\<forall>x y. on_screen (con_screen ?c3) x y \<longrightarrow> px (con_screen ?c3) f x y =
          (if (x, y) \<in> covered (con_dirty ?c3) then picture ?c3 x y else px (con_screen ?c3) (g_vbe_buffer (con_screen ?c3)) x y)"
      show "con_ok c'" by (rule c'(1))
      show "same_setup c c'" using s1(1) ok2(2) ok3(2) unfolding c'(2) by (simp add: same_setup_def)
      show "\<not> dirty (con_dirty c')" unfolding c'(2) by simp
      show "text_of c' = (?x, ?y, (con_buffer c)[?y * ?n + ?x := 0])"
        unfolding c'(2) s1(4) [symmetric] using painted_fields [OF c2] by (simp add: console_mark_dirty_def text_of_def)
      fix i j assume ij: "on_screen ?s i j"
      have px: "px (con_screen c') = px ?s" using painted_fields [OF c2] s1(2) unfolding c'(2)
        by (simp add: fun_eq_iff px_def console_mark_dirty_def)
      have pic: "picture c' i j = (if (i, j) \<in> rect sx sy 9 17 then con_bg c else picture c i j)"
        using c2 ij s1(2) unfolding painted_def c'(2) console_mark_dirty_def by auto
      then show "picture c' i j = (if (i, j) \<in> rect sx sy 9 17 then con_bg c else picture c i j)" .
      assume sh: "shown c"
      have fr: "px ?s (g_vbe_buffer ?s) i j = picture c i j" using sh ij by (simp add: shown_def tracked_def covered_def)
      have cov: "covered (con_dirty ?c3) = rect sx sy (unat ?fw) (unat ?fh)"
      proof -
        have "\<not> dirty (con_dirty c2)" using sh painted_fields(9) [OF c2] by (simp add: shown_def s1(3))
        moreover have "unat ((cursor_x c - 1) * ?fw + ?fw) = sx + unat ?fw" "unat (cursor_y c * ?fh + ?fh) = sy + unat ?fh"
          using fits small sxy by (subst unat_add_le; simp add: sx_def sy_def)+
        ultimately show ?thesis using sxy by (simp add: covered_def console_mark_dirty_def mark_rect_def rect_def)
      qed
      show "px (con_screen c') (g_vbe_buffer (con_screen c')) i j =
          (if (i, j) \<in> rect sx sy (unat ?fw) (unat ?fh) then picture c' i j else picture c i j)"
      proof -
        have c3: "px (con_screen ?c3) = px ?s" "on_screen (con_screen ?c3) i j" "g_vbe_buffer (con_screen ?c3) = g_vbe_buffer ?s"
          "g_back_buffer (con_screen c') = g_back_buffer (con_screen ?c3)" "g_vbe_buffer (con_screen c') = f"
          using painted_fields [OF c2] s1(2) ij unfolding c'(2) by (simp_all add: fun_eq_iff px_def on_screen_def console_mark_dirty_def)
        show ?thesis using f [rule_format, OF c3(2)] unfolding c3(1,3,4,5) px cov fr .
      qed
    qed
  qed
qed

section \<open>Clearing the console\<close>

lemma clear_ok:
  assumes "screen_ok (con_screen c)" "font_ok (con_font c)" "rect_ok (con_screen c) (con_dirty c)" "grid_ok c"
    "0 < con_cols c" "0 < con_rows c" "unat (con_rows c) * unat (con_cols c) \<le> length (con_buffer c)"
  shows "runs (console_clear c) (\<lambda>c'. con_ok c' \<and> shown c' \<and> same_setup c c' \<and>
    text_of c' = (0, 0, replicate (unat (con_rows c) * unat (con_cols c)) 0 @ drop (unat (con_rows c) * unat (con_cols c)) (con_buffer c)) \<and>
    (\<forall>i j. on_screen (con_screen c) i j \<longrightarrow> picture c' i j = con_bg c))"
proof -
  let ?n = "unat (con_rows c) * unat (con_cols c)" and ?s = "con_screen c"
  let ?all = "rect 0 0 (unat (g_width ?s)) (unat (g_height ?s))"
  have homeok: "con_ok (home c)" using assms by (simp add: con_ok_def grid_ok_def word_less_nat_alt)
  have len: "unat (con_rows c * con_cols c) = ?n"
    using cells_small [OF assms(4,1)] by (intro unat_mult_le) simp
  have fill: "runs (fill_rect 0 (g_height ?s) c) (painted ?all (con_bg c) c)"
    using fill_rect_painted [OF assms(1), of 0 "g_height ?s"] by simp
  show ?thesis
    unfolding console_clear_def
  proof (rule runs_bindI [OF fill])
    fix c1 assume c1: "painted ?all (con_bg c) c c1"
    note f = painted_fields [OF c1]
    define c2 where "c2 = c1\<lparr>con_buffer := replicate ?n 0 @ drop ?n (con_buffer c), cursor_x := 0, cursor_y := 0\<rparr>"
    let ?c3 = "console_mark_dirty 0 0 (g_width ?s) (g_height ?s) c2"
    have "painted ?all (con_bg c) (home c) (home c1)"
      using c1 unfolding painted_def by (elim exE conjE) (rule_tac x = b in exI, simp)
    note h = painted_con_ok [OF homeok this]
    have c2: "same_setup c c2" "con_screen c2 = con_screen c1" "con_dirty c2 = con_dirty c"
      "text_of c2 = (0, 0, replicate ?n 0 @ drop ?n (con_buffer c))"
      using h(2) f by (simp_all add: same_setup_def c2_def text_of_def)
    have "con_ok c2" by (rule con_ok_change [OF h(1)]) (use assms h(1) f in \<open>simp_all add: same_setup_def c2_def con_ok_def word_less_nat_alt\<close>)
    note ok3 = marked_con_ok [OF this, of 0 "g_width ?s" 0 "g_height ?s"]
    have m: "memset (con_buffer c1) 0 (unat (con_rows c1 * con_cols c1)) = Some (replicate ?n 0 @ drop ?n (con_buffer c))"
      using assms(7) by (simp add: f len memset_ok)
    have "rect (unat (0 :: u32)) (unat (0 :: u32)) (unat (g_width ?s)) (unat (g_height ?s)) \<subseteq>
        covered (mark_rect 0 0 (g_width ?s) (g_height ?s) (con_dirty c))"
      using mark_rect_ok(2) [OF assms(3), of 0 "g_width ?s" 0 "g_height ?s"] by simp
    then have "tracked ?c3"
      using f by (auto simp: tracked_def c2 console_mark_dirty_def on_screen_def rect_def subset_iff)
    note t3 = this
    have "picture ?c3 i j = con_bg c" if "on_screen ?s i j" for i j
      using c1 that unfolding painted_def by (auto simp: console_mark_dirty_def c2 rect_def on_screen_def)
    note pic3 = this
    have c3: "con_ok ?c3" "same_setup c ?c3" "text_of ?c3 = (0, 0, replicate ?n 0 @ drop ?n (con_buffer c))"
      using ok3 same_setup_trans [OF c2(1)] c2(4) f by (simp_all add: c2 console_mark_dirty_def text_of_def)
    show "runs (do { buf \<leftarrow> memset (con_buffer c1) 0 (unat (con_rows c1 * con_cols c1));
          let c = c1\<lparr>con_buffer := buf, cursor_x := 0, cursor_y := 0\<rparr>;
          console_flush (console_mark_dirty 0 0 (g_width (con_screen c)) (g_height (con_screen c)) c) })
       (\<lambda>c'. con_ok c' \<and> shown c' \<and> same_setup c c' \<and> text_of c' = (0, 0, replicate ?n 0 @ drop ?n (con_buffer c)) \<and>
         (\<forall>i j. on_screen ?s i j \<longrightarrow> picture c' i j = con_bg c))"
      unfolding m bind.bind_lunit Let_def c2_def [symmetric] c2(2) f(11,12)
    proof (rule runs_mono [OF flush_keeps [OF c3(1)]])
      fix c' assume c': "con_ok c' \<and> (tracked ?c3 \<longrightarrow> shown c') \<and> same_text ?c3 c' \<and> picture c' = picture ?c3"
      then have "same_setup c c'" "text_of c' = text_of ?c3"
        using same_setup_trans [OF c3(2)] by (simp_all add: same_text_def text_of_def)
      then show "con_ok c' \<and> shown c' \<and> same_setup c c' \<and> text_of c' = (0, 0, replicate ?n 0 @ drop ?n (con_buffer c)) \<and>
         (\<forall>i j. on_screen ?s i j \<longrightarrow> picture c' i j = con_bg c)"
        using c' t3 pic3 c3(3) by simp
    qed
  qed
qed

section \<open>The line editor\<close>

text \<open>What the keys mean: the line typed so far, and the keys behind the end of the line.\<close>

fun edit_line :: "nat \<Rightarrow> u8 list \<Rightarrow> u8 list \<Rightarrow> (u8 list \<times> u8 list) option" where
  "edit_line limit line keys =
     (if length line < limit
      then (case keys of
          [] \<Rightarrow> None
        | k # keys \<Rightarrow>
            if k = 10 then Some (line, keys)
            else edit_line limit (if k = 8 then butlast line else if printable k then line @ [k] else line) keys)
      else Some (line, keys))"

declare edit_line.simps [simp del]

definition keeps :: "'w console \<Rightarrow> 'w console \<Rightarrow> bool" where
  "keeps c c' \<longleftrightarrow> con_ok c' \<and> same_setup c c'"

lemma keeps_trans: "keeps a b \<Longrightarrow> keeps b c \<Longrightarrow> keeps a c"
  using same_setup_trans by (auto simp: keeps_def)

lemma keeps_next: "keeps c c' \<Longrightarrow> con_ok c \<Longrightarrow> retrace_ends B (vsync c) \<Longrightarrow> con_ok c' \<and> retrace_ends B (vsync c')"
  by (simp add: keeps_def same_setup_def)

lemma putchar_keeps: "con_ok c \<Longrightarrow> retrace_ends B (vsync c) \<Longrightarrow> runs (console_putchar B ch c) (keeps c)"
  by (rule runs_mono [OF putchar_on_text]) (auto simp: on_text_def keeps_def)

lemma flush_keeps_setup: "con_ok c \<Longrightarrow> runs (console_flush c) (keeps c)"
  by (rule runs_mono [OF flush_on_text]) (auto simp: on_text_def keeps_def)

lemma then_keeps:
  assumes "con_ok c" "retrace_ends B (vsync c)" "runs (f c) (keeps c)"
    and "\<And>c'. con_ok c' \<Longrightarrow> retrace_ends B (vsync c') \<Longrightarrow> runs (g c') (keeps c')"
  shows "runs (Option.bind (f c) g) (keeps c)"
  by (rule runs_bindI [OF assms(3)], rule runs_mono, rule assms(4)) (use keeps_next [OF _ assms(1,2)] keeps_trans in blast)+

lemma putchar_flush_keeps:
  "con_ok c \<Longrightarrow> retrace_ends B (vsync c) \<Longrightarrow> runs (Option.bind (console_putchar B ch c) console_flush) (keeps c)"
  by (rule then_keeps [where B = B]) (auto intro: putchar_keeps flush_keeps_setup)

lemma wrap_line_keeps: "con_ok c \<Longrightarrow> retrace_ends B (vsync c) \<Longrightarrow> runs (wrap_line B c) (keeps c)"
  using putchar_flush_keeps [of c B 10] by (simp add: wrap_line_def keeps_def same_setup_def)

lemma ungetchar_keeps: "con_ok c \<Longrightarrow> runs (console_ungetchar c) (keeps c)"
proof (cases "0 < cursor_x c")
  case True
  assume "con_ok c"
  then show ?thesis by (rule runs_mono [OF ungetchar_ok [OF _ True]]) (auto simp: keeps_def)
next
  case False
  assume "con_ok c"
  then show ?thesis using False by (simp add: console_ungetchar_def flush_keeps_setup)
qed

text \<open>A computation that reads the line and the rest of the keys which \<open>e\<close> gives, or waits for ever.\<close>

definition typed :: "(u8 list \<times> u8 list) option \<Rightarrow> nat \<Rightarrow> 'w console \<Rightarrow> (u8 list \<times> u8 list \<times> 'w console) option \<Rightarrow> bool" where
  "typed e n c m \<longleftrightarrow> (case e of
     None \<Rightarrow> m = None
   | Some (line, rest) \<Rightarrow> runs m (\<lambda>(buf, keys, c'). keys = rest \<and> length buf = n \<and> take (Suc (length line)) buf = line @ [0] \<and> keeps c c'))"

lemma typed_bind: "runs m P \<Longrightarrow> (\<And>x. P x \<Longrightarrow> typed e n c (f x)) \<Longrightarrow> typed e n c (Option.bind m f)"
  by (auto simp: runs_iff)

lemma typed_later: "keeps c c1 \<Longrightarrow> typed e n c1 m \<Longrightarrow> typed e n c m"
  by (auto simp: typed_def elim!: runs_mono intro: keeps_trans split: option.splits)

lemma typed_end:
  "i < length buffer \<Longrightarrow> take i buffer = line \<Longrightarrow> keeps c c' \<Longrightarrow> typed (Some (line, keys)) (length buffer) c (Some (buffer[i := 0], keys, c'))"
  by (auto simp: typed_def take_Suc_conv_app_nth min_def)

lemma keeps_refl: "con_ok c \<Longrightarrow> keeps c c"
  by (simp add: keeps_def same_setup_def)

lemma getstr_loop_edits:
  assumes "con_ok c" "retrace_ends B (vsync c)" "unat max_size \<le> length buffer" "unat i < unat max_size" "take (unat i) buffer = line"
  shows "typed (edit_line (unat max_size - 1) line keys) (length buffer) c (getstr_loop B max_size keys i buffer c)"
  using assms
proof (induction keys arbitrary: i buffer c line)
  case (Nil i buffer c line)
  have m: "unat (max_size - 1) = unat max_size - 1" using Nil.prems(4) by (subst unat_sub) (simp_all add: word_le_nat_alt)
  have l: "length line = unat i" using Nil.prems(3-5) by auto
  show ?case
  proof (cases "i < max_size - 1")
    case True
    then show ?thesis using l by (simp add: getstr_loop.simps edit_line.simps word_less_nat_alt m typed_def)
  next
    case False
    then show ?thesis
      using l Nil.prems typed_end [of "unat i" buffer line c c "[]"]
      by (simp add: getstr_loop.simps edit_line.simps word_less_nat_alt m wr_def keeps_refl)
  qed
next
  case (Cons k keys i buffer c line)
  have m: "unat (max_size - 1) = unat max_size - 1" using Cons.prems(4) by (subst unat_sub) (simp_all add: word_le_nat_alt)
  have l: "length line = unat i" "unat i < length buffer" using Cons.prems(3-5) by auto
  let ?e = "edit_line (unat max_size - 1)"
  note loop = getstr_loop.simps [of B max_size "k # keys" i buffer c]
  have wrap: "typed (?e line' keys) (length buffer) c (do { c \<leftarrow> wrap_line B c1; getstr_loop B max_size keys i' buffer' c })"
    if "keeps c c1" "length buffer' = length buffer" "unat i' < unat max_size" "take (unat i') buffer' = line'" for c1 i' buffer' line'
  proof -
    note ok1 = keeps_next [OF that(1) Cons.prems(1,2)]
    show ?thesis
    proof (rule typed_bind)
      show "runs (wrap_line B c1) (keeps c1)" using ok1 by (intro wrap_line_keeps) blast+
      fix c2 assume c2: "keeps c1 c2"
      then have k: "keeps c c2" by (rule keeps_trans [OF that(1)])
      note ok2 = keeps_next [OF k Cons.prems(1,2)]
      show "typed (?e line' keys) (length buffer) c (getstr_loop B max_size keys i' buffer' c2)"
        using Cons.IH [of c2 buffer' i' line'] ok2 that Cons.prems(3) by (intro typed_later [OF k]) simp
    qed
  qed
  show ?case
  proof (cases "i < max_size - 1")
    case False
    then show ?thesis
      using l Cons.prems typed_end [of "unat i" buffer line c c "k # keys"]
      by (simp add: getstr_loop.simps edit_line.simps word_less_nat_alt m wr_def keeps_refl)
  next
    case True
    then have lt: "unat i < unat max_size - 1" by (simp add: word_less_nat_alt m)
    then have e: "?e line (k # keys) = (if k = 10 then Some (line, keys)
        else ?e (if k = 8 then butlast line else if printable k then line @ [k] else line) keys)"
      using l by (simp add: edit_line.simps [of _ _ "k # keys"])
    consider "k = 8" | "k = 10" | "k \<noteq> 8" "k \<noteq> 10" "printable k" | "k \<noteq> 8" "k \<noteq> 10" "\<not> printable k" by blast
    then show ?thesis
    proof cases
      case 1
      then have g: "getstr_loop B max_size (k # keys) i buffer c =
          do { (i, c) \<leftarrow> (if i > 0 then do { c \<leftarrow> console_ungetchar c; Some (i - 1, c) } else Some (i, c));
               c \<leftarrow> wrap_line B c; getstr_loop B max_size keys i buffer c }"
        unfolding loop using True by simp
      have e1: "?e line (k # keys) = ?e (butlast line) keys" unfolding e using 1 by simp
      show ?thesis
      proof (cases "0 < i")
        case False
        then have "line = []" using l by (simp add: word_less_nat_alt)
        then show ?thesis
          unfolding g e1 using False wrap [OF keeps_refl [OF Cons.prems(1)] refl Cons.prems(4,5)] by simp
      next
        case i: True
        then have i1: "unat (i - 1) = unat i - 1" by (subst unat_sub) (simp_all add: word_le_nat_alt word_less_nat_alt Suc_le_eq)
        have line: "take (unat (i - 1)) buffer = butlast line" unfolding Cons.prems(5) [symmetric] i1 using l(2) by (simp add: butlast_take)
        have "typed (?e (butlast line) keys) (length buffer) c
            (Option.bind (console_ungetchar c) (\<lambda>c. do { c \<leftarrow> wrap_line B c; getstr_loop B max_size keys (i - 1) buffer c }))"
          by (rule typed_bind [OF ungetchar_keeps [OF Cons.prems(1)]], rule wrap [OF _ refl _ line]) (use i1 Cons.prems(4) in simp_all)
        then show ?thesis unfolding g e1 using i by simp
      qed
    next
      case 2
      then have g: "getstr_loop B max_size (k # keys) i buffer c =
          do { c \<leftarrow> do { c \<leftarrow> console_putchar B 10 c; console_flush c }; buffer \<leftarrow> wr buffer (unat i) 0; Some (buffer, keys, c) }"
        unfolding loop using True by simp
      have w: "wr buffer (unat i) 0 = Some (buffer[unat i := 0])" using l(2) by (simp add: wr_def)
      have e2: "?e line (k # keys) = Some (line, keys)" unfolding e using 2 by simp
      show ?thesis
        unfolding g w bind.bind_lunit e2
        by (rule typed_bind [OF putchar_flush_keeps [OF Cons.prems(1,2)]], rule typed_end [OF l(2) Cons.prems(5)])
    next
      case 3
      have "32 \<le> sint k \<and> sint k \<le> 126" using 3(3) printable_sint [of k] by auto
      then have g: "getstr_loop B max_size (k # keys) i buffer c =
          do { buffer \<leftarrow> wr buffer (unat i) k;
               c \<leftarrow> do { c \<leftarrow> console_putchar B k c; console_flush c };
               c \<leftarrow> wrap_line B c; getstr_loop B max_size keys (i + 1) buffer c }"
        unfolding loop using 3(1,2) True by simp
      have w: "wr buffer (unat i) k = Some (buffer[unat i := k])" using l(2) by (simp add: wr_def)
      have i1: "unat (i + 1) = Suc (unat i)" using lt u32_bound [of max_size] by (subst unat_add_le) simp_all
      have line: "take (unat (i + 1)) (buffer[unat i := k]) = line @ [k]"
        unfolding i1 using l(2) Cons.prems(5) by (simp add: take_Suc_conv_app_nth)
      have e3: "?e line (k # keys) = ?e (line @ [k]) keys" unfolding e using 3 by simp
      show ?thesis
        unfolding g w bind.bind_lunit e3 using i1 lt
        by (intro typed_bind [OF putchar_flush_keeps [OF Cons.prems(1,2)]] wrap [OF _ _ _ line]) simp_all
    next
      case 4
      have "\<not> (32 \<le> sint k \<and> sint k \<le> 126)" using 4(3) printable_sint [of k] by auto
      then have g: "getstr_loop B max_size (k # keys) i buffer c = do { c \<leftarrow> wrap_line B c; getstr_loop B max_size keys i buffer c }"
        unfolding loop using 4(1,2) True by auto
      have e4: "?e line (k # keys) = ?e line keys" unfolding e using 4 by simp
      show ?thesis unfolding g e4 by (rule wrap [OF keeps_refl [OF Cons.prems(1)] refl Cons.prems(4,5)])
    qed
  qed
qed

section \<open>Numbers\<close>

definition digit_of :: "u8 \<Rightarrow> nat" where
  "digit_of d = (if unat d < 58 then unat d - 48 else if unat d < 97 then unat d - 55 else unat d - 87)"

definition numeral_value :: "nat \<Rightarrow> u8 list \<Rightarrow> nat" where
  "numeral_value base ds = foldl (\<lambda>v d. v * base + digit_of d) 0 ds"

lemma digit_of_char: "d < 16 \<Longrightarrow> digit_of (digit_char up d) = d"
proof -
  have "\<forall>up \<in> {True, False}. \<forall>d \<in> set [0..<16]. digit_of (digit_char up d) = d" by code_simp
  then show "d < 16 \<Longrightarrow> digit_of (digit_char up d) = d" by (cases up) auto
qed

lemma digit_char_zero: "d < 16 \<Longrightarrow> digit_char up d = 48 \<Longrightarrow> d = 0"
  using digit_of_char [of d up] by (simp add: digit_of_def)

lemma number_digits_step:
  "2 \<le> base \<Longrightarrow> v \<noteq> 0 \<Longrightarrow> number_digits v base up = digit_char up (v mod base) # number_digits (v div base) base up"
  by (subst number_digits.simps) simp

lemma number_digits_0 [simp]: "number_digits 0 base up = []"
  by (subst number_digits.simps) simp

lemma number_digits_value:
  assumes "2 \<le> base" "base \<le> 16"
  shows "numeral_value base (rev (number_digits v base up)) = v"
proof (induction v rule: less_induct)
  case (less v)
  show ?case
  proof (cases "v = 0")
    case False
    then have "v div base < v" "v mod base < 16" using assms by (simp_all add: order.strict_trans2 [OF mod_less_divisor])
    then show ?thesis
      using less [of "v div base"] assms False by (simp add: number_digits_step numeral_value_def digit_of_char)
  qed (simp add: numeral_value_def)
qed

lemma number_digits_last:
  assumes "2 \<le> base" "base \<le> 16"
  shows "v \<noteq> 0 \<Longrightarrow> number_digits v base up \<noteq> [] \<and> last (number_digits v base up) \<noteq> 48"
proof (induction v rule: less_induct)
  case (less v)
  show ?case
  proof (cases "v div base = 0")
    case True
    then have "v < base" using assms by (simp add: div_eq_0_iff)
    then show ?thesis using assms less.prems digit_char_zero [of v up] by (auto simp: number_digits_step)
  next
    case False
    then show ?thesis using less.IH [of "v div base"] less.prems assms by (simp add: number_digits_step)
  qed
qed

lemma number_digits_length: "2 \<le> base \<Longrightarrow> v < base ^ n \<Longrightarrow> length (number_digits v base up) \<le> n"
proof (induction n arbitrary: v)
  case (Suc n)
  then have "v div base < base ^ n" by (simp add: less_mult_imp_div_less mult.commute)
  then show ?case using Suc by (cases "v = 0") (simp_all add: number_digits_step)
qed simp

section \<open>Properties\<close>

text \<open>A console of two by two cells, one pixel each.\<close>

definition demo_screen :: screen where
  "demo_screen = \<lparr>g_width = 2, g_height = 2, g_pitch = 8, g_bpp = 32, g_vbe_buffer = [0, 0, 0, 0], g_back_buffer = [0, 0, 0, 0],
     g_vsync_enabled = False, g_vsync_supported = False\<rparr>"

definition demo_console :: "u8 list console" where
  "demo_console = \<lparr>con_fg = 1, con_bg = 0, con_cols = 2, con_rows = 2, cursor_x = 0, cursor_y = 1, cursor_visible = True,
     con_buffer = [0, 0, 0, 0],
     con_font = \<lparr>font_headersize = 0, font_bytesperglyph = 0, font_height = 1, font_width = 1, font_data = [0x80]\<rparr>,
     con_dirty = \<lparr>x1 = 0, y1 = 0, x2 = 0, y2 = 0, dirty = False\<rparr>, con_screen = demo_screen, con_world = []\<rparr>"

lemma demo_console_ok: "con_ok demo_console" "retrace_ends key_bus (vsync demo_console)" "shown demo_console"
  by (simp_all add: con_ok_def screen_ok_def font_ok_def rect_ok_def grid_ok_def demo_console_def demo_screen_def
      retrace_ends_def shown_def tracked_def)

text \<open>C35. \<open>console_init\<close> makes the console well formed: with a font of the right format whose glyphs fit on the
  screen and a text buffer of \<open>rows * cols\<close> bytes the console has as many columns and rows as fit, the cursor is
  at the top, the cells are empty and every pixel, of the picture and of the screen, has the background color.
\<close>

theorem console_init_well_formed:
  assumes "screen_ok (con_screen c)" "font_ok font" "\<not> dirty (con_dirty c)"
    and "unat (font_width font) \<le> unat (g_width (con_screen c))" "unat (font_height font) \<le> unat (g_height (con_screen c))"
    and "length buf = unat (g_height (con_screen c)) div unat (font_height font) * (unat (g_width (con_screen c)) div unat (font_width font))"
  shows "runs (console_init 0x864ab572 font (Some buf) fg bg c) (\<lambda>c'. con_ok c' \<and> shown c' \<and>
    text_of c' = (0, 0, replicate (length buf) 0) \<and> con_fg c' = fg \<and> con_bg c' = bg \<and>
    (\<forall>i j. on_screen (con_screen c) i j \<longrightarrow>
       picture c' i j = bg \<and> px (con_screen c') (g_vbe_buffer (con_screen c')) i j = bg))"
proof -
  let ?W = "g_width (con_screen c)" and ?H = "g_height (con_screen c)"
  let ?c = "c\<lparr>con_font := font, con_cols := ?W div font_width font, con_rows := ?H div font_height font, con_buffer := buf,
      cursor_x := 0, cursor_y := 0, cursor_visible := True, con_fg := fg, con_bg := bg\<rparr>"
  have f: "0 < unat (font_width font)" "0 < unat (font_height font)" using assms(2) by (simp_all add: font_ok_def)
  have "0 < unat ?W div unat (font_width font)" "0 < unat ?H div unat (font_height font)"
    using assms(4,5) f by (simp_all add: div_greater_zero_iff)
  then have pos: "0 < con_cols ?c" "0 < con_rows ?c" by (simp_all add: word_less_nat_alt)
  have grid: "grid_ok ?c" by (simp add: grid_ok_def)
  have "rect_ok (con_screen ?c) (con_dirty ?c)" using assms(3) by (simp add: rect_ok_def)
  moreover have n: "unat (con_rows ?c) * unat (con_cols ?c) = length buf" using assms(6) by simp
  ultimately have "runs (console_clear ?c) (\<lambda>c'. con_ok c' \<and> shown c' \<and> same_setup ?c c' \<and>
      text_of c' = (0, 0, replicate (length buf) 0) \<and> (\<forall>i j. on_screen (con_screen c) i j \<longrightarrow> picture c' i j = bg))"
    using clear_ok [OF _ _ _ grid pos, unfolded n] assms(1,2) by simp
  moreover have "console_init 0x864ab572 font (Some buf) fg bg c = console_clear ?c"
    using f by (auto simp: console_init_def)
  ultimately show ?thesis
  proof (simp only:, elim runs_mono conjE, intro conjI allI impI)
    fix c' i j
    assume c': "con_ok c'" "shown c'" "same_setup ?c c'" "text_of c' = (0, 0, replicate (length buf) 0)"
      "\<forall>i j. on_screen (con_screen c) i j \<longrightarrow> picture c' i j = bg"
    show "con_ok c'" "shown c'" "text_of c' = (0, 0, replicate (length buf) 0)" by (fact c')+
    show "con_fg c' = fg" "con_bg c' = bg" using c'(3) by (simp_all add: same_setup_def)
    assume ij: "on_screen (con_screen c) i j"
    show p: "picture c' i j = bg" using c'(5) ij by blast
    have "on_screen (con_screen c') i j" using c'(3) ij by (simp add: same_setup_def on_screen_def)
    then show "px (con_screen c') (g_vbe_buffer (con_screen c')) i j = bg"
      using c'(2) p by (simp add: shown_def tracked_def covered_def)
  qed
qed

theorem console_init_well_formed_witness:
  "runs (console_init 0x864ab572 (con_font demo_console) (Some [1, 2, 3, 4]) 5 6 demo_console)
    (\<lambda>c'. con_ok c' \<and> text_of c' = (0, 0, [0, 0, 0, 0]))"
proof -
  have "screen_ok (con_screen demo_console)" "font_ok (con_font demo_console)" "\<not> dirty (con_dirty demo_console)"
    using demo_console_ok(1,3) by (simp_all add: con_ok_def shown_def)
  moreover have "unat (g_width (con_screen demo_console)) = 2" "unat (g_height (con_screen demo_console)) = 2"
    "unat (font_width (con_font demo_console)) = 1" "unat (font_height (con_font demo_console)) = 1"
    by (simp_all add: demo_console_def demo_screen_def)
  ultimately show ?thesis by (intro runs_mono [OF console_init_well_formed]) simp_all
qed

text \<open>C8. Any character can be put on a well-formed console, and exactly its glyph changes the picture: a
  printable character paints the set bits of its glyph, in the foreground color, in the cell of the cursor,
  after the line was wrapped where the cursor stood behind the last column; a newline moves the picture one
  text row up when the cursor is in the last row; every other character changes nothing.  The console stays
  well formed, and the screen is still the back buffer outside the dirty rectangle.
\<close>

theorem console_putchar_draws:
  assumes "con_ok c" "retrace_ends B (vsync c)"
  shows "runs (console_putchar B ch c) (\<lambda>c'. con_ok c' \<and> (tracked c \<longrightarrow> tracked c') \<and> same_setup c c' \<and>
    text_of c' = term_put (unat (con_cols c)) (unat (con_rows c)) ch (text_of c) \<and>
    (\<forall>i j. on_screen (con_screen c) i j \<longrightarrow> picture c' i j = after_put ch c i j))"
  by (rule runs_mono [OF putchar_ok [OF assms]]) (simp add: on_text_def)

theorem console_putchar_draws_witness:
  "runs (console_putchar key_bus 65 demo_console) (\<lambda>c'. tracked c' \<and> text_of c' = (1, 1, [0, 0, 65, 0]) \<and> picture c' 0 1 = 1)"
proof (rule runs_mono [OF console_putchar_draws [OF demo_console_ok(1,2)]], elim conjE, intro conjI)
  fix c'
  assume "tracked demo_console \<longrightarrow> tracked c'"
  then show "tracked c'" using demo_console_ok(3) by (simp add: shown_def)
  assume "text_of c' = term_put (unat (con_cols demo_console)) (unat (con_rows demo_console)) 65 (text_of demo_console)"
  then show "text_of c' = (1, 1, [0, 0, 65, 0])" by (simp add: term_put_def printable_def text_of_def demo_console_def)
  assume "\<forall>i j. on_screen (con_screen demo_console) i j \<longrightarrow> picture c' i j = after_put 65 demo_console i j"
  then have "picture c' 0 1 = after_put 65 demo_console 0 1" by (simp add: on_screen_def demo_console_def demo_screen_def)
  then show "picture c' 0 1 = 1"
    by (simp add: after_put_def printable_def text_of_def glyph_pixels_def glyph_bit_def demo_console_def)
qed

text \<open>Writing a string is typing its characters, up to its end, on a text terminal with the columns and rows
  of the console: \<open>console_putstr\<close> refines the terminal's \<open>term_put\<close>, on the cursor and on the cells.
\<close>

theorem console_putstr_types:
  assumes "con_ok c" "retrace_ends B (vsync c)" "0 \<in> set s"
  shows "runs (console_putstr B s c) (\<lambda>c'. con_ok c' \<and> (tracked c \<longrightarrow> tracked c') \<and>
    text_of c' = fold (term_put (unat (con_cols c)) (unat (con_rows c))) (takeWhile (\<lambda>ch. ch \<noteq> 0) s) (text_of c))"
  by (rule runs_mono [OF putstr_ok [OF assms]]) (simp add: on_text_def)

theorem console_putstr_types_witness:
  "runs (console_putstr key_bus [65, 66, 67, 0, 68] demo_console) (\<lambda>c'. text_of c' = (1, 1, [0, 0, 67, 66]))"
  by (rule runs_mono [OF console_putstr_types [OF demo_console_ok(1,2)]])
    (simp_all add: text_of_def demo_console_def term_put_def term_newline_def printable_def)

text \<open>C32. \<open>console_flush\<close> copies the dirty rectangle, exactly: afterwards every pixel of the screen inside the
  rectangle is that of the picture, every pixel outside it is what it was before, the rectangle is clean, and picture,
  text and cursor are unchanged.  Nothing is assumed of what the screen showed before.\<close>

theorem console_flush_copies:
  assumes "con_ok c"
  shows "runs (console_flush c) (\<lambda>c'. con_ok c' \<and> text_of c' = text_of c \<and> \<not> dirty (con_dirty c') \<and>
    (\<forall>x y. on_screen (con_screen c) x y \<longrightarrow> picture c' x y = picture c x y \<and>
       px (con_screen c') (g_vbe_buffer (con_screen c')) x y =
         (if dirty (con_dirty c) \<and> unat (x1 (con_dirty c)) \<le> x \<and> x < unat (x2 (con_dirty c)) \<and>
             unat (y1 (con_dirty c)) \<le> y \<and> y < unat (y2 (con_dirty c))
          then picture c x y else px (con_screen c) (g_vbe_buffer (con_screen c)) x y)))"
proof (rule runs_mono [OF flush_con_ok [OF assms]])
  fix c' assume "\<exists>f. con_ok c' \<and> (tracked c \<longrightarrow> shown c') \<and>
    c' = c\<lparr>con_screen := (con_screen c)\<lparr>g_vbe_buffer := f\<rparr>, con_dirty := (con_dirty c)\<lparr>dirty := False\<rparr>\<rparr> \<and>
    (\<forall>x y. on_screen (con_screen c) x y \<longrightarrow> px (con_screen c) f x y =
       (if (x, y) \<in> covered (con_dirty c) then picture c x y else px (con_screen c) (g_vbe_buffer (con_screen c)) x y))"
  then obtain f where ok: "con_ok c'"
    and c': "c' = c\<lparr>con_screen := (con_screen c)\<lparr>g_vbe_buffer := f\<rparr>, con_dirty := (con_dirty c)\<lparr>dirty := False\<rparr>\<rparr>"
    and f: "\<forall>x y. on_screen (con_screen c) x y \<longrightarrow> px (con_screen c) f x y =
       (if (x, y) \<in> covered (con_dirty c) then picture c x y else px (con_screen c) (g_vbe_buffer (con_screen c)) x y)"
    by blast
  show "con_ok c' \<and> text_of c' = text_of c \<and> \<not> dirty (con_dirty c') \<and>
    (\<forall>x y. on_screen (con_screen c) x y \<longrightarrow> picture c' x y = picture c x y \<and>
       px (con_screen c') (g_vbe_buffer (con_screen c')) x y =
         (if dirty (con_dirty c) \<and> unat (x1 (con_dirty c)) \<le> x \<and> x < unat (x2 (con_dirty c)) \<and>
             unat (y1 (con_dirty c)) \<le> y \<and> y < unat (y2 (con_dirty c))
          then picture c x y else px (con_screen c) (g_vbe_buffer (con_screen c)) x y))"
    using ok f by (auto simp: c' text_of_def px_def covered_def)
qed

text \<open>The console whose last row is yet to be copied to the screen.\<close>

definition dirty_console :: "u8 list console" where
  "dirty_console = demo_console\<lparr>con_screen := demo_screen\<lparr>g_back_buffer := [0, 0, 7, 0]\<rparr>,
     con_dirty := \<lparr>x1 = 0, y1 = 1, x2 = 1, y2 = 2, dirty = True\<rparr>\<rparr>"

theorem console_flush_copies_witness:
  "runs (console_flush dirty_console) (\<lambda>c'. px (con_screen c') (g_vbe_buffer (con_screen c')) 0 1 = 7)"
proof -
  have "con_ok dirty_console"
    by (simp add: con_ok_def screen_ok_def font_ok_def rect_ok_def grid_ok_def dirty_console_def demo_console_def demo_screen_def)
  moreover have "picture dirty_console 0 1 = 7" "on_screen (con_screen dirty_console) 0 1"
    by (simp_all add: on_screen_def px_def dirty_console_def demo_console_def demo_screen_def)
  moreover have "dirty (con_dirty dirty_console)" "unat (x1 (con_dirty dirty_console)) = 0" "unat (x2 (con_dirty dirty_console)) = 1"
      "unat (y1 (con_dirty dirty_console)) = 1" "unat (y2 (con_dirty dirty_console)) = 2"
    by (simp_all add: dirty_console_def)
  ultimately show ?thesis using console_flush_copies [of dirty_console] by (auto elim!: runs_mono)
qed

text \<open>Deleting a character leaves the screen wrong.  The loops of \<open>console_ungetchar\<close> paint a block of 9 by
  17 pixels in the background color, whatever the font is, and so the first column of the next cell and the
  first row of the cell below as well when the font is 8 by 16; but only the cell of the font's size is
  marked, so the screen shows the new picture in that cell and the old picture everywhere else.
\<close>

theorem console_ungetchar_stale:
  assumes "con_ok c" "shown c" "0 < cursor_x c"
  defines "sx \<equiv> (unat (cursor_x c) - 1) * unat (font_width (con_font c))" and "sy \<equiv> unat (cursor_y c) * unat (font_height (con_font c))"
  shows "runs (console_ungetchar c) (\<lambda>c'. con_ok c' \<and> \<not> dirty (con_dirty c') \<and>
    (\<forall>i j. on_screen (con_screen c) i j \<longrightarrow>
       picture c' i j = (if (i, j) \<in> rect sx sy 9 17 then con_bg c else picture c i j) \<and>
       px (con_screen c') (g_vbe_buffer (con_screen c')) i j =
         (if (i, j) \<in> rect sx sy (unat (font_width (con_font c))) (unat (font_height (con_font c)))
          then picture c' i j else picture c i j)))"
  using assms(2) unfolding sx_def sy_def by (intro runs_mono [OF ungetchar_ok [OF assms(1,3)]]) simp

text \<open>The console after a first and a second character, with all of it on the screen.\<close>

definition typed_console :: "u8 list console" where
  "typed_console = demo_console\<lparr>cursor_x := 1, cursor_y := 0,
     con_screen := demo_screen\<lparr>g_back_buffer := [1, 1, 1, 1], g_vbe_buffer := [1, 1, 1, 1]\<rparr>\<rparr>"

theorem console_ungetchar_stale_witness:
  "runs (console_ungetchar typed_console) (\<lambda>c'. \<not> dirty (con_dirty c') \<and> picture c' 1 1 = 0 \<and>
     px (con_screen c') (g_vbe_buffer (con_screen c')) 1 1 = 1)"
proof -
  have "con_ok typed_console" "shown typed_console" "0 < cursor_x typed_console"
    by (simp_all add: con_ok_def screen_ok_def font_ok_def rect_ok_def grid_ok_def shown_def tracked_def
        typed_console_def demo_console_def demo_screen_def)
  note stale = console_ungetchar_stale [OF this]
  have "on_screen (con_screen typed_console) 1 1" "con_bg typed_console = 0" "picture typed_console 1 1 = 1" "cursor_x typed_console = 1"
    "cursor_y typed_console = 0" "font_width (con_font typed_console) = 1" "font_height (con_font typed_console) = 1"
    by (simp_all add: on_screen_def px_def typed_console_def demo_console_def demo_screen_def)
  moreover have "(1, 1) \<in> rect 0 0 9 17" "(1, 1) \<notin> rect 0 0 1 1" by (simp_all add: rect_def)
  ultimately show ?thesis using stale by (auto elim!: runs_mono)
qed

text \<open>C18. \<open>getstr\<close> is the reference line editor: from the keys it reads the line \<open>edit_line\<close> gives, with a
  backspace taking the last character back, other characters that cannot be printed ignored, and at most one
  character less than the buffer has room for; it leaves the keys behind the end of the line, ends the
  buffer's string there, and waits for ever exactly when the keys never end a line.  The console stays well
  formed.
\<close>

theorem getstr_edits:
  assumes "con_ok c" "retrace_ends B (vsync c)" "0 < max_size" "unat max_size \<le> length buffer"
  shows "case edit_line (unat max_size - 1) [] keys of
      None \<Rightarrow> getstr B max_size keys buffer c = None
    | Some (line, rest) \<Rightarrow> runs (getstr B max_size keys buffer c) (\<lambda>(buf, keys, c'). keys = rest \<and> length buf = length buffer \<and>
        take (Suc (length line)) buf = line @ [0] \<and> con_ok c' \<and> same_setup c c')"
proof -
  have "typed (edit_line (unat max_size - 1) [] keys) (length buffer) c (getstr B max_size keys buffer c)"
    unfolding getstr_def using assms(3) by (intro getstr_loop_edits [OF assms(1,2,4)]) (simp_all add: word_less_nat_alt)
  then show ?thesis unfolding typed_def keeps_def .
qed

theorem getstr_edits_witness:
  "runs (getstr key_bus 8 [65, 66, 8, 7, 67, 10, 68] (replicate 8 0) demo_console) (\<lambda>(buf, keys, c'). keys = [68] \<and> take 3 buf = [65, 67, 0])"
proof -
  have "edit_line 7 [] [65, 66, 8, 7, 67, 10, 68] = Some ([65, 67], [68])" by (simp add: edit_line.simps printable_def)
  then show ?thesis
    using getstr_edits [OF demo_console_ok(1,2), of 8 "replicate 8 0" "[65, 66, 8, 7, 67, 10, 68]"]
    by (auto elim!: runs_mono simp: numeral_3_eq_3)
qed

text \<open>The text of a number is read back to the number: in base 10 and 16 \<open>format_number\<close> gives the shortest
  numeral of the value, filled up on the left with zeros or spaces to the width, and at most 31 characters
  never run over the buffer of 32.  A negative \<open>int\<close> is the value of its 32 bits, as \<open>%d\<close> passes it on.
\<close>

theorem format_number_reads_back:
  assumes "base = 10 \<or> base = 16" "width \<le> 31"
  shows "\<exists>ds. format_number val base up width pad = Some (replicate (nat width - length ds) (if pad then 48 else 32) @ ds) \<and>
    numeral_value base ds = unat val \<and> ds \<noteq> [] \<and> (1 < length ds \<longrightarrow> hd ds \<noteq> 48)"
proof -
  define ds where "ds = (if val = 0 then [48] else number_digits (unat val) base up)"
  have b: "2 \<le> base" "base \<le> 16" using assms(1) by auto
  have "(2 :: nat) ^ 32 \<le> base ^ 10" using assms(1) by auto
  then have "unat val < base ^ 10" using u32_bound [of val] by simp
  then have len: "length ds \<le> 10" using number_digits_length [OF b(1)] by (simp add: ds_def)
  have "format_number val base up width pad = Some (replicate (nat width - length ds) (if pad then 48 else 32) @ rev ds)"
    using len assms(2) by (simp add: format_number_def Let_def ds_def [symmetric])
  moreover have "numeral_value base (rev ds) = unat val"
    using number_digits_value [OF b] by (simp add: ds_def numeral_value_def digit_of_def)
  moreover have "ds \<noteq> [] \<and> (1 < length ds \<longrightarrow> hd (rev ds) \<noteq> 48)"
    using number_digits_last [OF b, of "unat val"] by (auto simp: ds_def hd_rev unat_eq_zero)
  ultimately show ?thesis by (intro exI [of _ "rev ds"]) simp
qed

theorem format_number_reads_back_witness:
  "\<exists>ds. format_number 255 16 True 4 True = Some (replicate (4 - length ds) 48 @ ds) \<and> numeral_value 16 ds = 255"
  using format_number_reads_back [of 16 4 255 True True] by auto

end
