(* ===== verification/Pci.thy ===== *)
theory Pci
  imports Ide Console Network
begin

text \<open>
  The PCI bus, \<open>src/drivers/pci.c\<close>: the access to the configuration space through the ports \<open>0xCF8\<close> and
  \<open>0xCFC\<close>, the search for a device and the listing of the devices.  The devices are the ports' parameter.
  The scan of a bus calls itself for the bus behind a bridge; \<open>fuel\<close> bounds the depth of these calls, and a
  deeper nesting is \<open>None\<close>, as a read outside \<open>pci_size_map\<close> is.
\<close>

section \<open>State\<close>

definition inports :: "'w ide_bus \<Rightarrow> u16 \<Rightarrow> 'w \<Rightarrow> u16 \<times> 'w" where
  "inports B port w = bus_inw B port w"

definition outports :: "'w ide_bus \<Rightarrow> u16 \<Rightarrow> u16 \<Rightarrow> 'w \<Rightarrow> 'w" where
  "outports B port v w = bus_outw B port v w"

text \<open>The union is modelled by its bit-fields; an assignment to a field cuts the value to its width.\<close>

record pci_dev =
  pci_offset :: "2 word"
  pci_field :: "6 word"
  pci_function :: "3 word"
  pci_device :: "5 word"
  pci_bus :: "8 word"
  pci_reserved :: "7 word"
  pci_enable :: "1 word"

definition pci_bits :: "pci_dev \<Rightarrow> u32" where
  "pci_bits dev =
     ucast (pci_offset dev) OR push_bit 2 (ucast (pci_field dev)) OR push_bit 8 (ucast (pci_function dev)) OR
     push_bit 11 (ucast (pci_device dev)) OR push_bit 16 (ucast (pci_bus dev)) OR push_bit 24 (ucast (pci_reserved dev)) OR
     push_bit 31 (ucast (pci_enable dev))"

definition dev_zero :: pci_dev where
  "dev_zero = \<lparr>pci_offset = 0, pci_field = 0, pci_function = 0, pci_device = 0, pci_bus = 0, pci_reserved = 0, pci_enable = 0\<rparr>"

abbreviation (input) PCI_CONFIG_ADDRESS :: u16 where "PCI_CONFIG_ADDRESS \<equiv> 0xCF8"
abbreviation (input) PCI_CONFIG_DATA :: u32 where "PCI_CONFIG_DATA \<equiv> 0xCFC"
abbreviation (input) PCI_VENDOR_ID :: u32 where "PCI_VENDOR_ID \<equiv> 0x00"
abbreviation (input) PCI_DEVICE_ID :: u32 where "PCI_DEVICE_ID \<equiv> 0x02"
abbreviation (input) PCI_SUBCLASS :: u32 where "PCI_SUBCLASS \<equiv> 0x0A"
abbreviation (input) PCI_CLASS :: u32 where "PCI_CLASS \<equiv> 0x0B"
abbreviation (input) PCI_HEADER_TYPE :: u32 where "PCI_HEADER_TYPE \<equiv> 0x0E"
abbreviation (input) PCI_SECONDARY_BUS :: u32 where "PCI_SECONDARY_BUS \<equiv> 0x19"
abbreviation (input) PCI_TYPE_BRIDGE :: u32 where "PCI_TYPE_BRIDGE \<equiv> 0x0604"
abbreviation (input) PCI_NONE :: u32 where "PCI_NONE \<equiv> 0xFFFF"
abbreviation (input) DEVICE_PER_BUS :: u32 where "DEVICE_PER_BUS \<equiv> 32"
abbreviation (input) FUNCTION_PER_DEVICE :: u32 where "FUNCTION_PER_DEVICE \<equiv> 32"

text \<open>\<open>pci_size_map\<close>, the width of each register in bytes.\<close>

fun set_sizes :: "(nat \<times> u32) list \<Rightarrow> u32 list \<Rightarrow> u32 list option" where
  "set_sizes [] sizes = Some sizes"
| "set_sizes ((i, v) # xs) sizes = do { sizes \<leftarrow> wr sizes i v; set_sizes xs sizes }"

definition pci_init :: "u32 list \<Rightarrow> u32 list option" where
  "pci_init = set_sizes
     [(0x00, 2), (0x02, 2), (0x04, 2), (0x06, 2), (0x0A, 1), (0x0B, 1), (0x0C, 1), (0x0D, 1), (0x0E, 1), (0x0F, 1),
      (0x10, 4), (0x14, 4), (0x18, 4), (0x1C, 4), (0x20, 4), (0x24, 4), (0x3C, 1), (0x19, 1)]"

section \<open>Configuration space\<close>

text \<open>The address written before each access.\<close>

definition config_address :: "pci_dev \<Rightarrow> u32 \<Rightarrow> u32" where
  "config_address dev field = pci_bits (dev\<lparr>pci_field := ucast (drop_bit 2 (field AND 0xFC)), pci_enable := 1\<rparr>)"

definition pci_read :: "'w ide_bus \<Rightarrow> u32 list \<Rightarrow> pci_dev \<Rightarrow> u32 \<Rightarrow> 'w \<Rightarrow> (u32 \<times> 'w) option" where
  "pci_read B sizes dev field w =
     (let w = outportl B PCI_CONFIG_ADDRESS (config_address dev field) w
      in do { size \<leftarrow> rd sizes (unat field);
              Some (if size = 1 then (let (t, w) = inportb B (ucast (PCI_CONFIG_DATA + (field AND 3))) w in (ucast t, w))
                    else if size = 2 then (let (t, w) = inports B (ucast (PCI_CONFIG_DATA + (field AND 2))) w in (ucast t, w))
                    else if size = 4 then inportl B (ucast PCI_CONFIG_DATA) w
                    else (0xFFFFFFFF, w)) })"

definition pci_write :: "'w ide_bus \<Rightarrow> pci_dev \<Rightarrow> u32 \<Rightarrow> u32 \<Rightarrow> 'w \<Rightarrow> 'w" where
  "pci_write B dev field v w =
     outportl B (ucast PCI_CONFIG_DATA) v (outportl B PCI_CONFIG_ADDRESS (config_address dev field) w)"

definition get_device_type :: "'w ide_bus \<Rightarrow> u32 list \<Rightarrow> pci_dev \<Rightarrow> 'w \<Rightarrow> (u32 \<times> 'w) option" where
  "get_device_type B sizes dev w =
     do { (c, w) \<leftarrow> pci_read B sizes dev PCI_CLASS w;
          (s, w) \<leftarrow> pci_read B sizes dev PCI_SUBCLASS w;
          Some (push_bit 8 c OR s, w) }"

definition get_secondary_bus :: "'w ide_bus \<Rightarrow> u32 list \<Rightarrow> pci_dev \<Rightarrow> 'w \<Rightarrow> (u32 \<times> 'w) option" where
  "get_secondary_bus B sizes dev w = pci_read B sizes dev PCI_SECONDARY_BUS w"

definition pci_reach_end :: "'w ide_bus \<Rightarrow> u32 list \<Rightarrow> pci_dev \<Rightarrow> 'w \<Rightarrow> (u32 \<times> 'w) option" where
  "pci_reach_end B sizes dev w =
     do { (t, w) \<leftarrow> pci_read B sizes dev PCI_HEADER_TYPE w; Some (if t = 0 then 1 else 0, w) }"

section \<open>The search\<close>

text \<open>
  What is searched for: vendor, device and type, \<open>-1\<close> for any type.  \<open>scan\<close> is the scan of a bus, which the
  functions call for the bus behind a bridge, for its effect on the ports only.
\<close>

record pci_query =
  q_vendor :: u16
  q_device :: u16
  q_type :: u32

definition pci_scan_function ::
  "'w ide_bus \<Rightarrow> u32 list \<Rightarrow> (u32 \<Rightarrow> 'w \<Rightarrow> (pci_dev \<times> 'w) option) \<Rightarrow> pci_query \<Rightarrow> u32 \<Rightarrow> u32 \<Rightarrow> u32 \<Rightarrow> 'w \<Rightarrow> (pci_dev \<times> 'w) option" where
  "pci_scan_function B sizes scan q bus device fn w =
     (let dev = dev_zero\<lparr>pci_bus := ucast bus, pci_device := ucast device, pci_function := ucast fn\<rparr>
      in do {
        (t, w) \<leftarrow> get_device_type B sizes dev w;
        w \<leftarrow> (if t = PCI_TYPE_BRIDGE
              then do { (b, w) \<leftarrow> get_secondary_bus B sizes dev w; map_option snd (scan b w) }
              else Some w);
        (same_type, w) \<leftarrow> (if q_type q = -1 then Some (True, w)
                           else do { (t, w) \<leftarrow> get_device_type B sizes dev w; Some (q_type q = t, w) });
        if same_type
        then do { (dev_id, w) \<leftarrow> pci_read B sizes dev PCI_DEVICE_ID w;
                  (vend_id, w) \<leftarrow> pci_read B sizes dev PCI_VENDOR_ID w;
                  Some (if vend_id = ucast (q_vendor q) \<and> dev_id = ucast (q_device q) then dev else dev_zero, w) }
        else Some (dev_zero, w) })"

text \<open>What a search loop returns when it comes to its end.\<close>

definition found :: "('w, pci_dev) outcome \<Rightarrow> pci_dev \<times> 'w" where
  "found out = (case out of Done w \<Rightarrow> (dev_zero, w) | Returned t w \<Rightarrow> (t, w))"

definition pci_scan_device ::
  "'w ide_bus \<Rightarrow> u32 list \<Rightarrow> (u32 \<Rightarrow> 'w \<Rightarrow> (pci_dev \<times> 'w) option) \<Rightarrow> pci_query \<Rightarrow> u32 \<Rightarrow> u32 \<Rightarrow> 'w \<Rightarrow> (pci_dev \<times> 'w) option" where
  "pci_scan_device B sizes scan q bus device w =
     (let dev = dev_zero\<lparr>pci_bus := ucast bus, pci_device := ucast device\<rparr>
      in do {
        (v, w) \<leftarrow> pci_read B sizes dev PCI_VENDOR_ID w;
        if v = PCI_NONE then Some (dev_zero, w)
        else map_option found (for_loop 0 FUNCTION_PER_DEVICE (\<lambda>fn w.
          do { (v, w) \<leftarrow> pci_read B sizes (dev\<lparr>pci_function := ucast fn\<rparr>) PCI_VENDOR_ID w;
               if v \<noteq> PCI_NONE
               then do { (t, w) \<leftarrow> pci_scan_function B sizes scan q bus device fn w;
                         Some (if pci_bits t \<noteq> 0 then Return t w else Next w) }
               else Some (Next w) }) w) })"

primrec pci_scan_bus :: "nat \<Rightarrow> 'w ide_bus \<Rightarrow> u32 list \<Rightarrow> pci_query \<Rightarrow> u32 \<Rightarrow> 'w \<Rightarrow> (pci_dev \<times> 'w) option" where
  "pci_scan_bus 0 B sizes q bus w = None"
| "pci_scan_bus (Suc fuel) B sizes q bus w =
     map_option found (for_loop 0 DEVICE_PER_BUS (\<lambda>device w.
       do { (t, w) \<leftarrow> pci_scan_device B sizes (pci_scan_bus fuel B sizes q) q bus device w;
            if pci_bits t \<noteq> 0
            then do { (ty, w) \<leftarrow> get_device_type B sizes t w;
                      w \<leftarrow> (if ty = PCI_TYPE_BRIDGE
                            then do { (b, w) \<leftarrow> get_secondary_bus B sizes t w; map_option snd (pci_scan_bus fuel B sizes q b w) }
                            else Some w);
                      Some (Return t w) }
            else Some (Next w) }) w)"

definition pci_get_device :: "nat \<Rightarrow> 'w ide_bus \<Rightarrow> u32 list \<Rightarrow> pci_query \<Rightarrow> 'w \<Rightarrow> (pci_dev \<times> 'w) option" where
  "pci_get_device fuel B sizes q w =
     do { (t, w) \<leftarrow> pci_scan_bus fuel B sizes q 0 w;
          if pci_bits t \<noteq> 0 then Some (t, w)
          else map_option found (for_loop 1 256 (\<lambda>bus w.
            do { (t, w) \<leftarrow> pci_scan_bus fuel B sizes q bus w;
                 Some (if pci_bits t \<noteq> 0 then Return t w else Next w) }) w) }"

section \<open>The listing\<close>

definition pci_class_subclass_table :: "(u32 \<times> u32 \<times> string) list" where
  "pci_class_subclass_table =
    [(0x01, 0x01, ''IDE Controller''),
     (0x01, 0x02, ''Floppy Disk Controller''),
     (0x01, 0x03, ''IPI Bus Controller''),
     (0x01, 0x04, ''RAID Controller''),
     (0x01, 0x05, ''ATA Controller''),
     (0x01, 0x06, ''Serial ATA Controller''),
     (0x01, 0x07, ''Serial Attached SCSI Controller''),
     (0x01, 0x08, ''NVMe Controller''),
     (0x02, 0x00, ''Ethernet Controller''),
     (0x02, 0x01, ''Token Ring Controller''),
     (0x02, 0x02, ''FDDI Controller''),
     (0x02, 0x03, ''ATM Controller''),
     (0x02, 0x04, ''ISDN Controller''),
     (0x02, 0x05, ''WorldFip Controller''),
     (0x02, 0x06, ''PICMG 2.14 Multi Computing''),
     (0x03, 0x00, ''VGA Compatible Controller''),
     (0x03, 0x01, ''XGA Controller''),
     (0x03, 0x02, ''3D Controller''),
     (0x04, 0x00, ''Multimedia Video Controller''),
     (0x04, 0x01, ''Multimedia Audio Controller''),
     (0x04, 0x02, ''Computer Telephony Device''),
     (0x04, 0x03, ''Audio Device''),
     (0x05, 0x00, ''RAM Controller''),
     (0x05, 0x01, ''Flash Controller''),
     (0x06, 0x00, ''Host Bridge''),
     (0x06, 0x01, ''ISA Bridge''),
     (0x06, 0x02, ''EISA Bridge''),
     (0x06, 0x03, ''MCA Bridge''),
     (0x06, 0x04, ''PCI-to-PCI Bridge''),
     (0x06, 0x05, ''PCMCIA Bridge''),
     (0x06, 0x06, ''NuBus Bridge''),
     (0x06, 0x07, ''Cardbus Bridge''),
     (0x06, 0x08, ''RACEway Bridge''),
     (0x06, 0x09, ''PCI-to-PCI Bridge ''),
     (0x06, 0x0A, ''InfiniBand-to-PCI Host Bridge''),
     (0x06, 0x80, ''Other Bridge''),
     (0x07, 0x00, ''Serial Controller''),
     (0x07, 0x01, ''Parallel Controller''),
     (0x07, 0x02, ''Multiport Serial Controller''),
     (0x07, 0x03, ''Modem''),
     (0x07, 0x04, ''IEEE 488.1/2 (GPIB) Controller''),
     (0x07, 0x05, ''Smart card''),
     (0x08, 0x00, ''PIC''),
     (0x08, 0x01, ''DMA Controller''),
     (0x08, 0x02, ''Timer''),
     (0x08, 0x03, ''RTC Controller''),
     (0x08, 0x04, ''PCI Hot-Plug Controller''),
     (0x08, 0x05, ''SD Host controller''),
     (0x08, 0x06, ''IOMMU''),
     (0x09, 0x00, ''Keyboard Controller''),
     (0x09, 0x01, ''Digitizer Pen''),
     (0x09, 0x02, ''Mouse Controller''),
     (0x09, 0x03, ''Scanner Controller''),
     (0x09, 0x04, ''Game Port Controller''),
     (0x0A, 0x00, ''Docking Station Generic''),
     (0x0B, 0x00, ''386''),
     (0x0B, 0x01, ''486''),
     (0x0B, 0x02, ''Pentium''),
     (0x0B, 0x03, ''Pentium Pro''),
     (0x0B, 0x10, ''Alpha''),
     (0x0B, 0x20, ''PowerPC''),
     (0x0B, 0x30, ''MIPS''),
     (0x0B, 0x40, ''Co-Processor''),
     (0x0C, 0x00, ''FireWire (IEEE 1394) Controller ''),
     (0x0C, 0x01, ''ACCESS Bus Controller''),
     (0x0C, 0x02, ''SSA''),
     (0x0C, 0x03, ''USB Controller''),
     (0x0C, 0x04, ''Fibre Channel''),
     (0x0C, 0x05, ''SMBus Controller''),
     (0x0C, 0x06, ''Infiniband Controller''),
     (0x0C, 0x07, ''IPMI Controller''),
     (0x0C, 0x08, ''SERCOS Interface (IEC 61491)''),
     (0x0C, 0x09, ''CANbus Controller'')]"

text \<open>The bytes of a string literal.\<close>

definition literal :: "string \<Rightarrow> u8 list" where
  "literal s = ascii s @ [0]"

definition get_subclass_name :: "u32 \<Rightarrow> u32 \<Rightarrow> u8 list" where
  "get_subclass_name class_code subclass_code =
     literal (case List.find (\<lambda>(c, s, name). c = drop_bit 8 class_code \<and> s = subclass_code AND 0xFF) pci_class_subclass_table of
       Some (c, s, name) \<Rightarrow> name
     | None \<Rightarrow> ''Unknown'')"

text \<open>The ports of the console and of the bus are those of the same machine.\<close>

definition on_ports :: "('w \<Rightarrow> ('a \<times> 'w) option) \<Rightarrow> 'w console \<Rightarrow> ('a \<times> 'w console) option" where
  "on_ports f c = map_option (\<lambda>(x, w). (x, c\<lparr>con_world := w\<rparr>)) (f (con_world c))"

definition print_device :: "'w ide_bus \<Rightarrow> u32 list \<Rightarrow> pci_dev \<Rightarrow> 'w console \<Rightarrow> 'w console option" where
  "print_device B sizes dev c =
     do { (v, c) \<leftarrow> on_ports (pci_read B sizes dev PCI_VENDOR_ID) c;
          if v \<noteq> PCI_NONE
          then do { (class_code, c) \<leftarrow> on_ports (get_device_type B sizes dev) c;
                    (subclass_code, c) \<leftarrow> on_ports (pci_read B sizes dev PCI_SUBCLASS) c;
                    console_printf B (ascii ''PCI Device: %x:%x:%x, Class: %x, Subclass: %x (%s)'' @ [10, 0])
                      [IntArg (ucast (pci_bus dev)), IntArg (ucast (pci_device dev)), IntArg (ucast (pci_function dev)),
                       IntArg class_code, IntArg subclass_code, StrArg (Some (get_subclass_name class_code subclass_code))] c }
          else Some c }"

definition pci_print_devices :: "nat \<Rightarrow> 'w ide_bus \<Rightarrow> u32 list \<Rightarrow> 'w console \<Rightarrow> 'w console option" where
  "pci_print_devices fuel B sizes c =
     do { (t, c) \<leftarrow> on_ports (get_device_type B sizes dev_zero) c;
          c \<leftarrow> (if t = PCI_TYPE_BRIDGE
                then do { (b, c) \<leftarrow> on_ports (get_secondary_bus B sizes dev_zero) c;
                          map_option snd (on_ports (pci_scan_bus fuel B sizes \<lparr>q_vendor = 0, q_device = 0, q_type = -1\<rparr> b) c) }
                else Some c);
          each 0 256 (\<lambda>bus. each 0 DEVICE_PER_BUS (\<lambda>device. each 0 FUNCTION_PER_DEVICE (\<lambda>fn.
            print_device B sizes (dev_zero\<lparr>pci_bus := ucast bus, pci_device := ucast device, pci_function := ucast fn\<rparr>)))) c }"

end
