(* ===== verification/PciSpec.thy ===== *)
theory PciSpec
  imports Pci IdeSpec
begin

text \<open>
  What the search of the PCI bus finds: with ports that give access to a configuration space and bridges that
  lead to buses of higher numbers, \<open>pci_get_device\<close> ends and returns the first match in the order of the
  addresses.
\<close>

section \<open>Search loops\<close>

primrec first_some :: "('a \<Rightarrow> 'b option) \<Rightarrow> 'a list \<Rightarrow> 'b option" where
  "first_some g [] = None"
| "first_some g (x # xs) = (case g x of None \<Rightarrow> first_some g xs | Some t \<Rightarrow> Some t)"

lemma first_some_append:
  "first_some g (xs @ ys) = (case first_some g xs of None \<Rightarrow> first_some g ys | Some t \<Rightarrow> Some t)"
  by (induction xs) (auto split: option.splits)

lemma first_some_cong: "(\<And>x. x \<in> set xs \<Longrightarrow> f x = g x) \<Longrightarrow> first_some f xs = first_some g xs"
  by (induction xs) (auto split: option.splits)

lemma first_some_concat: "first_some g (concat xss) = first_some (first_some g) xss"
  by (induction xss) (auto simp: first_some_append split: option.splits)

lemma first_some_map: "first_some g (map h xs) = first_some (g \<circ> h) xs"
  by (induction xs) (auto split: option.splits)

lemma first_some_Suc: "first_some g [i..<Suc j] = (if i \<le> j then (case first_some g [i..<j] of None \<Rightarrow> g j | Some t \<Rightarrow> Some t) else None)"
  by (auto simp: first_some_append split: option.splits)

text \<open>A loop that returns the first result of its turns.\<close>

lemma for_loop_first:
  assumes "unat i \<le> unat n"
    and turn: "\<And>j w. unat i \<le> unat j \<Longrightarrow> unat j < unat n \<Longrightarrow>
      runs (body j w) (\<lambda>out. \<exists>w'. out = (case g (unat j) of None \<Rightarrow> Next w' | Some t \<Rightarrow> Return t w'))"
  shows "runs (for_loop i n body w) (\<lambda>out. \<exists>w'. out = (case first_some g [unat i..<unat n] of None \<Rightarrow> Done w' | Some t \<Rightarrow> Returned t w'))"
proof -
  let ?I = "\<lambda>j w. first_some g [unat i..<j] = None" and ?R = "\<lambda>r w. first_some g [unat i..<unat n] = Some r"
  have "runs (for_loop i n body w) (\<lambda>out. case out of Done w' \<Rightarrow> ?I (unat n) w' \<or> False | Returned r w' \<Rightarrow> ?R r w')"
  proof (rule for_loop_rule [where I = ?I])
    show "first_some g [unat i..<unat i] = None" by simp
    fix j :: u32 and w
    assume j: "unat i \<le> unat j" "unat j < unat n" "first_some g [unat i..<unat j] = None"
    then have "[unat i..<unat n] = [unat i..<unat j] @ unat j # [Suc (unat j)..<unat n]"
      by (metis le_Suc_ex less_imp_le_nat upt_add_eq_append upt_conv_Cons)
    then have "first_some g [unat i..<unat n] = Some t" if "g (unat j) = Some t" for t using that j(3) by (simp add: first_some_append)
    then show "runs (body j w) (\<lambda>out. case out of Next w' \<Rightarrow> ?I (Suc (unat j)) w' | Break w' \<Rightarrow> False | Return r w' \<Rightarrow> ?R r w')"
      using j by (intro runs_mono [OF turn [OF j(1,2)]]) (auto simp: first_some_append split: option.splits)
  qed (use assms in simp)
  then show ?thesis by (rule runs_mono) (auto split: outcome.splits)
qed

section \<open>The configuration space\<close>

text \<open>
  The ports give access to the configuration space \<open>cfg\<close>, 32 bits at an address that has the enable bit: what
  was written to \<open>0xCF8\<close> selects the address, and the ports from \<open>0xCFC\<close> on read its bytes.
\<close>

definition pci_mechanism :: "'w ide_bus \<Rightarrow> (u32 \<Rightarrow> u32) \<Rightarrow> ('w \<Rightarrow> u32 \<Rightarrow> bool) \<Rightarrow> bool" where
  "pci_mechanism B cfg selected \<longleftrightarrow> (\<forall>w a. bit a 31 \<longrightarrow> selected (outportl B 0xCF8 a w) a) \<and>
     (\<forall>w a. selected w a \<longrightarrow> (\<forall>k < 4. fst (inportb B (0xCFC + of_nat k) w) = ucast (drop_bit (8 * k) (cfg a))) \<and>
        (\<forall>k \<in> {0, 2}. fst (inports B (0xCFC + of_nat k) w) = ucast (drop_bit (8 * k) (cfg a))) \<and>
        fst (inportl B 0xCFC w) = cfg a)"

text \<open>The map of the sizes after \<open>pci_init\<close>.\<close>

definition pci_sizes :: "u32 list" where
  "pci_sizes = the (pci_init (replicate 100 0))"

lemma pci_init_sizes: "pci_init (replicate 100 0) = Some pci_sizes"
  unfolding pci_sizes_def by code_simp

text \<open>The value of a register of one, two or four bytes.\<close>

definition register8 :: "(u32 \<Rightarrow> u32) \<Rightarrow> pci_dev \<Rightarrow> u32 \<Rightarrow> u32" where
  "register8 cfg dev field = ucast (ucast (drop_bit (8 * unat (field AND 3)) (cfg (config_address dev field))) :: u8)"

definition register16 :: "(u32 \<Rightarrow> u32) \<Rightarrow> pci_dev \<Rightarrow> u32 \<Rightarrow> u32" where
  "register16 cfg dev field = ucast (ucast (drop_bit (8 * unat (field AND 2)) (cfg (config_address dev field))) :: u16)"

lemma config_address_enabled: "bit (config_address dev field) 31"
  by (simp add: config_address_def pci_bits_def bit_or_iff bit_push_bit_iff)

lemma and_3_cases:
  fixes x :: u32
  obtains "x AND 3 = 0" | "x AND 3 = 1" | "x AND 3 = 2" | "x AND 3 = 3"
proof -
  have "x AND 3 = take_bit 2 x" by (simp add: take_bit_eq_mask mask_eq_exp_minus_1)
  then have "unat (x AND 3) < 4" using take_bit_nat_less_exp [of 2 "unat x"] by (simp add: unsigned_take_bit_eq)
  then have "unat (x AND 3) = unat (0 :: u32) \<or> unat (x AND 3) = unat (1 :: u32) \<or> unat (x AND 3) = unat (2 :: u32) \<or> unat (x AND 3) = unat (3 :: u32)"
    by (simp only: unsigned_0 unsigned_1 unat_numeral) auto
  then show ?thesis using that unfolding unsigned_word_eqI word_unat_eq_iff [symmetric] by blast
qed

lemma read8:
  assumes "pci_mechanism B cfg selected" "rd sizes (unat field) = Some 1"
  shows "runs (pci_read B sizes dev field w) (\<lambda>(v, w'). v = register8 cfg dev field)"
proof -
  let ?w = "outportl B 0xCF8 (config_address dev field) w"
  have "selected ?w (config_address dev field)" using assms(1) config_address_enabled unfolding pci_mechanism_def by blast
  then have "fst (inportb B (0xCFC + of_nat k) ?w) = ucast (drop_bit (8 * k) (cfg (config_address dev field)))" if "k < 4" for k
    using assms(1) that unfolding pci_mechanism_def by blast
  note k = this [of 0] this [of 1] this [of 2] this [of 3]
  show ?thesis
    by (rule and_3_cases [of field]) (use k assms(2) in \<open>simp_all add: pci_read_def Let_def register8_def split_def del: rd_Some_iff\<close>)
qed

lemma read16:
  assumes "pci_mechanism B cfg selected" "rd sizes (unat field) = Some 2"
  shows "runs (pci_read B sizes dev field w) (\<lambda>(v, w'). v = register16 cfg dev field)"
proof -
  let ?w = "outportl B 0xCF8 (config_address dev field) w"
  have "selected ?w (config_address dev field)" using assms(1) config_address_enabled unfolding pci_mechanism_def by blast
  then have "fst (inports B (0xCFC + of_nat k) ?w) = ucast (drop_bit (8 * k) (cfg (config_address dev field)))" if "k = 0 \<or> k = 2" for k
    using assms(1) that unfolding pci_mechanism_def by blast
  note k = this [of 0] this [of 2]
  have "field AND 2 = (field AND 3) AND 2" by (simp add: and.assoc)
  then have "field AND 2 = 0 \<or> field AND 2 = 2" by (rule_tac x = field in and_3_cases) simp_all
  then show ?thesis using k assms(2) by (auto simp: pci_read_def Let_def register16_def split_def simp del: rd_Some_iff)
qed

lemma register8_bound: "unat (register8 cfg dev field) < 256"
proof -
  have "unat (ucast v :: u32) = unat v" for v :: u8 using u8_bound [of v] by (simp add: unsigned_ucast_eq take_bit_nat_eq_self)
  then show ?thesis unfolding register8_def by (simp only: u8_bound)
qed

text \<open>The identification of a function.\<close>

definition vendor_of :: "(u32 \<Rightarrow> u32) \<Rightarrow> pci_dev \<Rightarrow> u32" where
  "vendor_of cfg dev = register16 cfg dev PCI_VENDOR_ID"

definition device_of :: "(u32 \<Rightarrow> u32) \<Rightarrow> pci_dev \<Rightarrow> u32" where
  "device_of cfg dev = register16 cfg dev PCI_DEVICE_ID"

definition type_of_dev :: "(u32 \<Rightarrow> u32) \<Rightarrow> pci_dev \<Rightarrow> u32" where
  "type_of_dev cfg dev = push_bit 8 (register8 cfg dev PCI_CLASS) OR register8 cfg dev PCI_SUBCLASS"

definition secondary_of :: "(u32 \<Rightarrow> u32) \<Rightarrow> pci_dev \<Rightarrow> u32" where
  "secondary_of cfg dev = register8 cfg dev PCI_SECONDARY_BUS"

lemma sizes:
  "rd pci_sizes (unat PCI_VENDOR_ID) = Some 2" "rd pci_sizes (unat PCI_DEVICE_ID) = Some 2" "rd pci_sizes (unat PCI_CLASS) = Some 1"
  "rd pci_sizes (unat PCI_SUBCLASS) = Some 1" "rd pci_sizes (unat PCI_SECONDARY_BUS) = Some 1"
  by code_simp+

lemma read_vendor: "pci_mechanism B cfg selected \<Longrightarrow> runs (pci_read B pci_sizes dev PCI_VENDOR_ID w) (\<lambda>(v, w'). v = vendor_of cfg dev)"
  unfolding vendor_of_def by (rule read16 [OF _ sizes(1)])

lemma read_device: "pci_mechanism B cfg selected \<Longrightarrow> runs (pci_read B pci_sizes dev PCI_DEVICE_ID w) (\<lambda>(v, w'). v = device_of cfg dev)"
  unfolding device_of_def by (rule read16 [OF _ sizes(2)])

lemma read_type:
  assumes "pci_mechanism B cfg selected"
  shows "runs (get_device_type B pci_sizes dev w) (\<lambda>(v, w'). v = type_of_dev cfg dev)"
  unfolding get_device_type_def type_of_dev_def
  by (intro runs_bindI [OF read8 [OF assms sizes(3)]], clarify, intro runs_bindI [OF read8 [OF assms sizes(4)]]) auto

lemma read_secondary:
  "pci_mechanism B cfg selected \<Longrightarrow> runs (get_secondary_bus B pci_sizes dev w) (\<lambda>(v, w'). v = secondary_of cfg dev)"
  unfolding secondary_of_def get_secondary_bus_def by (rule read8 [OF _ sizes(5)])

section \<open>The scan\<close>

definition pci_at :: "nat \<Rightarrow> nat \<Rightarrow> nat \<Rightarrow> pci_dev" where
  "pci_at bus device fn = dev_zero\<lparr>pci_bus := of_nat bus, pci_device := of_nat device, pci_function := of_nat fn\<rparr>"

text \<open>The function is the one that is searched for; the address 0 cannot be told from nothing found.\<close>

definition matches :: "(u32 \<Rightarrow> u32) \<Rightarrow> pci_query \<Rightarrow> pci_dev \<Rightarrow> bool" where
  "matches cfg q dev \<longleftrightarrow> (q_type q = -1 \<or> q_type q = type_of_dev cfg dev) \<and> vendor_of cfg dev = ucast (q_vendor q) \<and>
     device_of cfg dev = ucast (q_device q) \<and> pci_bits dev \<noteq> 0"

text \<open>Every bridge leads to a bus with a higher number, as the enumeration of the firmware sets them up.\<close>

definition bridges_up :: "(u32 \<Rightarrow> u32) \<Rightarrow> bool" where
  "bridges_up cfg \<longleftrightarrow> (\<forall>dev. type_of_dev cfg dev = PCI_TYPE_BRIDGE \<longrightarrow> unat (pci_bus dev) < unat (secondary_of cfg dev))"

lemma dev_zero_bits [simp]: "pci_bits dev_zero = 0"
  by (simp add: pci_bits_def dev_zero_def)

lemma scan_function_ok:
  assumes m: "pci_mechanism B cfg selected"
    and scan: "\<And>w. type_of_dev cfg (pci_at (unat bus) (unat device) (unat fn)) = PCI_TYPE_BRIDGE \<Longrightarrow>
      runs (scan (secondary_of cfg (pci_at (unat bus) (unat device) (unat fn))) w) (\<lambda>_. True)"
  shows "runs (pci_scan_function B pci_sizes scan q bus device fn w) (\<lambda>(t, w').
    if matches cfg q (pci_at (unat bus) (unat device) (unat fn)) then t = pci_at (unat bus) (unat device) (unat fn) else pci_bits t = 0)"
proof -
  let ?dev = "pci_at (unat bus) (unat device) (unat fn)"
  have dev: "dev_zero\<lparr>pci_bus := ucast bus, pci_device := ucast device, pci_function := ucast fn\<rparr> = ?dev"
    by (simp add: pci_at_def)
  show ?thesis
    unfolding pci_scan_function_def Let_def dev
  proof (intro runs_bindI [OF read_type [OF m]], clarify)
    fix w
    show "runs (do {
        w \<leftarrow> (if type_of_dev cfg ?dev = PCI_TYPE_BRIDGE
              then do { (b, w) \<leftarrow> get_secondary_bus B pci_sizes ?dev w; map_option snd (scan b w) }
              else Some w);
        (same_type, w) \<leftarrow> (if q_type q = -1 then Some (True, w)
                           else do { (t, w) \<leftarrow> get_device_type B pci_sizes ?dev w; Some (q_type q = t, w) });
        if same_type
        then do { (dev_id, w) \<leftarrow> pci_read B pci_sizes ?dev PCI_DEVICE_ID w;
                  (vend_id, w) \<leftarrow> pci_read B pci_sizes ?dev PCI_VENDOR_ID w;
                  Some (if vend_id = ucast (q_vendor q) \<and> dev_id = ucast (q_device q) then ?dev else dev_zero, w) }
        else Some (dev_zero, w) })
      (\<lambda>(t, w'). if matches cfg q ?dev then t = ?dev else pci_bits t = 0)"
    proof (rule runs_bindI [where P = "\<lambda>_. True"], goal_cases)
      case 1
      have "runs (map_option snd (scan (secondary_of cfg ?dev) w)) (\<lambda>_. True)" if "type_of_dev cfg ?dev = PCI_TYPE_BRIDGE" for w
        using scan [OF that] by (simp add: runs_map_option)
      then show ?case by (auto intro!: runs_mono [OF read_secondary [OF m]])
    next
      case (2 w1)
      show ?case
      proof (rule runs_bindI [where P = "\<lambda>(s, _). s = (q_type q = -1 \<or> q_type q = type_of_dev cfg ?dev)"], goal_cases)
        case 1
        show ?case by (auto intro!: runs_mono [OF read_type [OF m]])
      next
        case (2 x)
        then show ?case
          by (cases x) (auto intro!: runs_mono [OF read_device [OF m]] runs_mono [OF read_vendor [OF m]] simp: matches_def)
      qed
    qed
  qed
qed

text \<open>The match in one device, on one bus, on all buses; device 0 is asked for the presence of the others.\<close>

definition hit :: "(u32 \<Rightarrow> u32) \<Rightarrow> pci_query \<Rightarrow> pci_dev \<Rightarrow> pci_dev option" where
  "hit cfg q dev = (if vendor_of cfg dev \<noteq> PCI_NONE \<and> matches cfg q dev then Some dev else None)"

definition in_device :: "(u32 \<Rightarrow> u32) \<Rightarrow> pci_query \<Rightarrow> nat \<Rightarrow> nat \<Rightarrow> pci_dev option" where
  "in_device cfg q b d =
     (if vendor_of cfg (pci_at b d 0) = PCI_NONE then None else first_some (\<lambda>f. hit cfg q (pci_at b d f)) [0..<8])"

definition in_bus :: "(u32 \<Rightarrow> u32) \<Rightarrow> pci_query \<Rightarrow> nat \<Rightarrow> pci_dev option" where
  "in_bus cfg q b = first_some (in_device cfg q b) [0..<32]"

lemma hit_bits: "hit cfg q dev = Some t \<Longrightarrow> t = dev \<and> pci_bits t \<noteq> 0"
  by (auto simp: hit_def matches_def split: if_splits)

lemma first_some_Some: "first_some g xs = Some t \<Longrightarrow> \<exists>x \<in> set xs. g x = Some t"
  by (induction xs) (auto split: option.splits)

lemma in_device_bits: "in_device cfg q b d = Some t \<Longrightarrow> pci_bits t \<noteq> 0 \<and> pci_bus t = of_nat b"
  by (auto simp: in_device_def pci_at_def split: if_splits dest!: first_some_Some hit_bits)

lemma in_bus_bits: "in_bus cfg q b = Some t \<Longrightarrow> pci_bits t \<noteq> 0"
  by (auto simp: in_bus_def dest!: first_some_Some in_device_bits)

text \<open>The functions 8 to 31 of the loop are the functions 0 to 7 again, since the field has three bits.\<close>

lemma pci_at_again: "pci_at b d (f + 8 * k) = pci_at b d f"
proof -
  have "of_nat (f + 8 * k) = (of_nat f :: 3 word) + 8 * of_nat k" by (simp only: of_nat_add of_nat_mult of_nat_numeral)
  moreover have "(8 :: 3 word) = 0" by simp
  ultimately have "of_nat (f + 8 * k) = (of_nat f :: 3 word)" by (simp only: mult_zero_left add_0_right)
  then show ?thesis by (simp only: pci_at_def)
qed

lemma functions_again: "first_some (\<lambda>f. hit cfg q (pci_at b d f)) [0..<32] = first_some (\<lambda>f. hit cfg q (pci_at b d f)) [0..<8]"
proof -
  let ?h = "\<lambda>f. hit cfg q (pci_at b d f)"
  have "[0..<32] = [0..<8] @ map (\<lambda>f. f + 8 * 1) [0..<8] @ map (\<lambda>f. f + 8 * 2) [0..<8] @ map (\<lambda>f. f + 8 * 3) [0..<8]"
    by code_simp
  moreover have "first_some ?h (map (\<lambda>f. f + 8 * k) [0..<8]) = first_some ?h [0..<8]" for k
    by (simp only: first_some_map comp_def pci_at_again)
  ultimately show ?thesis by (simp only: first_some_append) (auto split: option.splits)
qed

lemma found_first:
  assumes "unat i \<le> unat n"
    and "\<And>j w. unat i \<le> unat j \<Longrightarrow> unat j < unat n \<Longrightarrow>
      runs (body j w) (\<lambda>out. \<exists>w'. out = (case g (unat j) of None \<Rightarrow> Next w' | Some t \<Rightarrow> Return t w'))"
  shows "runs (map_option found (for_loop i n body w))
    (\<lambda>(t, w'). t = (case first_some g [unat i..<unat n] of None \<Rightarrow> dev_zero | Some t \<Rightarrow> t))"
  unfolding runs_map_option
  by (rule runs_mono [OF for_loop_first [where g = g, OF assms]]) (auto simp: found_def split: option.splits)

lemma scan_device_ok:
  assumes m: "pci_mechanism B cfg selected"
    and scan: "\<And>dev w. pci_bus dev = of_nat (unat bus) \<Longrightarrow> type_of_dev cfg dev = PCI_TYPE_BRIDGE \<Longrightarrow>
      runs (scan (secondary_of cfg dev) w) (\<lambda>_. True)"
  shows "runs (pci_scan_device B pci_sizes scan q bus device w)
    (\<lambda>(t, w'). t = (case in_device cfg q (unat bus) (unat device) of None \<Rightarrow> dev_zero | Some t \<Rightarrow> t))"
proof -
  let ?h = "\<lambda>f. hit cfg q (pci_at (unat bus) (unat device) f)"
  let ?dev = "dev_zero\<lparr>pci_bus := ucast bus, pci_device := ucast device\<rparr>"
  have dev: "?dev = pci_at (unat bus) (unat device) 0" "?dev\<lparr>pci_function := ucast fn\<rparr> = pci_at (unat bus) (unat device) (unat fn)" for fn :: u32
    by (simp_all add: pci_at_def dev_zero_def)
  have loop: "runs (map_option found (for_loop 0 FUNCTION_PER_DEVICE (\<lambda>fn w.
          do { (v, w) \<leftarrow> pci_read B pci_sizes (pci_at (unat bus) (unat device) (unat fn)) PCI_VENDOR_ID w;
               if v \<noteq> PCI_NONE
               then do { (t, w) \<leftarrow> pci_scan_function B pci_sizes scan q bus device fn w;
                         Some (if pci_bits t \<noteq> 0 then Return t w else Next w) }
               else Some (Next w) }) w))
      (\<lambda>(t, w'). t = (case first_some ?h [unat (0 :: u32)..<unat (32 :: u32)] of None \<Rightarrow> dev_zero | Some t \<Rightarrow> t))" for w
  proof (rule found_first, simp, rule runs_bindI [OF read_vendor [OF m]], clarify)
    fix fn :: u32 and v w
    let ?at = "pci_at (unat bus) (unat device) (unat fn)"
    have "runs (scan (secondary_of cfg ?at) w) (\<lambda>_. True)" if "type_of_dev cfg ?at = PCI_TYPE_BRIDGE" for w
      using scan [of ?at] that by (simp add: pci_at_def)
    then show "runs (if vendor_of cfg ?at \<noteq> PCI_NONE
        then do { (t, w) \<leftarrow> pci_scan_function B pci_sizes scan q bus device fn w; Some (if pci_bits t \<noteq> 0 then Return t w else Next w) }
        else Some (Next w)) (\<lambda>out. \<exists>w'. out = (case ?h (unat fn) of None \<Rightarrow> Next w' | Some t \<Rightarrow> Return t w'))"
      by (auto intro!: runs_mono [OF scan_function_ok [OF m]] simp: hit_def matches_def split: if_splits)
  qed
  show ?thesis
    unfolding pci_scan_device_def Let_def dev(2) unfolding dev(1)
    by (rule runs_bindI [OF read_vendor [OF m]]) (use loop in \<open>auto simp: in_device_def functions_again\<close>)
qed

text \<open>The scan of bus \<open>b\<close> needs fuel for the buses above it.\<close>

lemma scan_bus_ok:
  assumes m: "pci_mechanism B cfg selected" and up: "bridges_up cfg"
  shows "unat bus < 256 \<Longrightarrow> 256 - unat bus \<le> fuel \<Longrightarrow> runs (pci_scan_bus fuel B pci_sizes q bus w)
    (\<lambda>(t, w'). t = (case in_bus cfg q (unat bus) of None \<Rightarrow> dev_zero | Some t \<Rightarrow> t))"
proof (induction fuel arbitrary: bus w)
  case (Suc fuel)
  have behind: "runs (pci_scan_bus fuel B pci_sizes q (secondary_of cfg dev) w) (\<lambda>_. True)"
    if "pci_bus dev = of_nat (unat bus)" "type_of_dev cfg dev = PCI_TYPE_BRIDGE" for dev w
  proof -
    have "unat (pci_bus dev) = unat bus" using that(1) Suc.prems(1) by (simp add: unsigned_ucast_eq take_bit_nat_eq_self)
    then have "unat bus < unat (secondary_of cfg dev)" using up that(2) by (auto simp: bridges_up_def)
    moreover have "unat (secondary_of cfg dev) < 256"
      unfolding secondary_of_def by (rule register8_bound)
    ultimately have "256 - unat (secondary_of cfg dev) \<le> fuel" using Suc.prems(2) by simp
    then show ?thesis using Suc.IH [of "secondary_of cfg dev" w] \<open>unat (secondary_of cfg dev) < 256\<close> by (auto elim: runs_mono)
  qed
  have "runs (pci_scan_bus (Suc fuel) B pci_sizes q bus w)
      (\<lambda>(t, w'). t = (case first_some (in_device cfg q (unat bus)) [unat (0 :: u32)..<unat (32 :: u32)] of None \<Rightarrow> dev_zero | Some t \<Rightarrow> t))"
    unfolding pci_scan_bus.simps
  proof (rule found_first, simp, rule runs_bindI [OF scan_device_ok [OF m, where scan = "pci_scan_bus fuel B pci_sizes q"]], rule behind, assumption, assumption, clarify)
    fix device :: u32 and w t
    let ?g = "in_device cfg q (unat bus) (unat device)"
    show "runs (if pci_bits (case ?g of None \<Rightarrow> dev_zero | Some t \<Rightarrow> t) \<noteq> 0
        then do { (ty, w) \<leftarrow> get_device_type B pci_sizes (case ?g of None \<Rightarrow> dev_zero | Some t \<Rightarrow> t) w;
                  w \<leftarrow> (if ty = PCI_TYPE_BRIDGE
                        then do { (b, w) \<leftarrow> get_secondary_bus B pci_sizes (case ?g of None \<Rightarrow> dev_zero | Some t \<Rightarrow> t) w;
                                  map_option snd (pci_scan_bus fuel B pci_sizes q b w) }
                        else Some w);
                  Some (Return (case ?g of None \<Rightarrow> dev_zero | Some t \<Rightarrow> t) w) }
        else Some (Next w)) (\<lambda>out. \<exists>w'. out = (case ?g of None \<Rightarrow> Next w' | Some t \<Rightarrow> Return t w'))"
    proof (cases ?g)
      case (Some d)
      note d = in_device_bits [OF Some]
      show ?thesis
        using d behind [of d]
        by (auto simp: Some runs_map_option intro!: runs_mono [OF read_type [OF m]] runs_mono [OF read_secondary [OF m]])
    qed simp
  qed
  then show ?case by (simp add: in_bus_def)
qed simp

lemma get_device_ok:
  assumes m: "pci_mechanism B cfg selected" and up: "bridges_up cfg" and fuel: "256 \<le> fuel"
  shows "runs (pci_get_device fuel B pci_sizes q w)
    (\<lambda>(t, w'). t = (case first_some (in_bus cfg q) [0..<256] of None \<Rightarrow> dev_zero | Some t \<Rightarrow> t))"
proof -
  have bus: "runs (pci_scan_bus fuel B pci_sizes q bus w) (\<lambda>(t, w'). t = (case in_bus cfg q (unat bus) of None \<Rightarrow> dev_zero | Some t \<Rightarrow> t))"
    if "unat bus < 256" for bus w
    using scan_bus_ok [OF m up that] fuel by simp
  have rest: "runs (map_option found (for_loop 1 256 (\<lambda>bus w.
            do { (t, w) \<leftarrow> pci_scan_bus fuel B pci_sizes q bus w;
                 Some (if pci_bits t \<noteq> 0 then Return t w else Next w) }) w))
      (\<lambda>(t, w'). t = (case first_some (in_bus cfg q) [unat (1 :: u32)..<unat (256 :: u32)] of None \<Rightarrow> dev_zero | Some t \<Rightarrow> t))" for w
  proof (rule found_first, simp, rule runs_bindI [OF bus], simp, clarify)
    fix j :: u32 and w
    let ?t = "case in_bus cfg q (unat j) of None \<Rightarrow> dev_zero | Some t \<Rightarrow> t"
    show "runs (Some (if pci_bits ?t \<noteq> 0 then Return ?t w else Next w))
        (\<lambda>out. \<exists>w'. out = (case in_bus cfg q (unat j) of None \<Rightarrow> Next w' | Some t \<Rightarrow> Return t w'))"
      by (cases "in_bus cfg q (unat j)") (auto dest: in_bus_bits)
  qed
  have all: "first_some (in_bus cfg q) [0..<256] = (case in_bus cfg q 0 of None \<Rightarrow> first_some (in_bus cfg q) [1..<256] | Some t \<Rightarrow> Some t)"
    by (subst upt_conv_Cons) (simp_all add: One_nat_def [symmetric] del: One_nat_def)
  show ?thesis
    unfolding pci_get_device_def
  proof (rule runs_bindI [OF bus], simp, clarify)
    fix w
    let ?t = "case in_bus cfg q (unat (0 :: u32)) of None \<Rightarrow> dev_zero | Some t \<Rightarrow> t"
    show "runs (if pci_bits ?t \<noteq> 0 then Some (?t, w)
          else map_option found (for_loop 1 256 (\<lambda>bus w.
            do { (t, w) \<leftarrow> pci_scan_bus fuel B pci_sizes q bus w;
                 Some (if pci_bits t \<noteq> 0 then Return t w else Next w) }) w))
      (\<lambda>(t, w'). t = (case first_some (in_bus cfg q) [0..<256] of None \<Rightarrow> dev_zero | Some t \<Rightarrow> t))"
    proof (cases "in_bus cfg q 0")
      case None
      then show ?thesis using rest by (simp add: all)
    next
      case (Some t)
      then show ?thesis using in_bus_bits [OF Some] by (simp add: all)
    qed
  qed
qed

section \<open>Properties\<close>

text \<open>A function answers the search: device and function are there, and it matches.\<close>

definition answers :: "(u32 \<Rightarrow> u32) \<Rightarrow> pci_query \<Rightarrow> pci_dev \<Rightarrow> bool" where
  "answers cfg q dev \<longleftrightarrow> vendor_of cfg (dev\<lparr>pci_function := 0\<rparr>) \<noteq> PCI_NONE \<and> vendor_of cfg dev \<noteq> PCI_NONE \<and> matches cfg q dev"

text \<open>All functions in the order of their addresses.\<close>

definition all_functions :: "pci_dev list" where
  "all_functions = [pci_at b d f. b \<leftarrow> [0..<256], d \<leftarrow> [0..<32], f \<leftarrow> [0..<8]]"

lemma find_first_some: "List.find P xs = first_some (\<lambda>x. if P x then Some x else None) xs"
  by (induction xs) auto

lemma first_some_None: "first_some (\<lambda>x. None) xs = None"
  by (induction xs) auto

lemma find_answers: "List.find (answers cfg q) all_functions = first_some (in_bus cfg q) [0..<256]"
proof -
  let ?g = "\<lambda>dev. if answers cfg q dev then Some dev else None"
  have "first_some (\<lambda>f. ?g (pci_at b d f)) [0..<8] = in_device cfg q b d" for b d
  proof -
    have "(pci_at b d f)\<lparr>pci_function := 0\<rparr> = pci_at b d 0" for f by (simp add: pci_at_def)
    then show ?thesis by (simp add: in_device_def hit_def answers_def first_some_None)
  qed
  then show ?thesis
    by (simp add: find_first_some all_functions_def in_bus_def first_some_concat first_some_map comp_def in_bus_def [abs_def])
qed

text \<open>C29. Over ports that give access to a configuration space, with every bridge leading to a bus of a higher
  number, \<open>pci_get_device\<close> ends within a nesting of 256 scans and returns the first function, in the order of
  the addresses, that has the vendor and the device asked for and, unless any will do, the type, of a device
  whose function 0 is there; and \<open>dev_zero\<close> when there is none.  The scans of the buses behind bridges have no
  influence on the result.
\<close>

theorem pci_get_device_first:
  assumes "pci_mechanism B cfg selected" "bridges_up cfg" "256 \<le> fuel"
  shows "runs (pci_get_device fuel B pci_sizes q w)
    (\<lambda>(t, w'). t = (case List.find (answers cfg q) all_functions of None \<Rightarrow> dev_zero | Some t \<Rightarrow> t))"
  unfolding find_answers by (rule get_device_ok [OF assms])

text \<open>A machine with a network card as device 3 on bus 0; the state of the ports is the selected address.\<close>

definition card_cfg :: "u32 \<Rightarrow> u32" where
  "card_cfg a = (if a = 0x80001800 then 0x813910EC else if a = 0x80001808 then 0x02000000 else 0xFFFFFFFF)"

definition config_ports :: "(u32 \<Rightarrow> u32) \<Rightarrow> u32 ide_bus" where
  "config_ports cfg = \<lparr>
     bus_in = \<lambda>p a. (ucast (drop_bit (8 * unat (p - 0xCFC)) (cfg a)), a), bus_out = \<lambda>p v a. a,
     bus_inw = \<lambda>p a. (ucast (drop_bit (8 * unat (p - 0xCFC)) (cfg a)), a), bus_outw = \<lambda>p v a. a,
     bus_inl = \<lambda>p a. (cfg a, a), bus_outl = \<lambda>p v a. if p = 0xCF8 then v else a\<rparr>"

lemma config_ports_mechanism: "pci_mechanism (config_ports cfg) cfg (=)"
  by (simp add: pci_mechanism_def config_ports_def outportl_def inportl_def inports_def inportb_def unsigned_of_nat take_bit_nat_eq_self)

theorem pci_get_device_first_witness:
  "runs (pci_get_device 256 (config_ports card_cfg) pci_sizes \<lparr>q_vendor = 0x10EC, q_device = 0x8139, q_type = -1\<rparr> 0)
    (\<lambda>(t, w'). t = pci_at 0 3 0)"
proof -
  have "type_of_dev card_cfg dev \<in> {0x8139, 0x0200, 0xFFFF}" for dev
  proof -
    have "config_address dev 0x0A = config_address dev 0x0B" by (simp add: config_address_def)
    moreover have "card_cfg (config_address dev 0x0B) \<in> {0x813910EC, 0x02000000, 0xFFFFFFFF}" by (simp add: card_cfg_def)
    ultimately show ?thesis by (auto simp: type_of_dev_def register8_def)
  qed
  note types = this
  have "type_of_dev card_cfg dev \<noteq> PCI_TYPE_BRIDGE" for dev using types [of dev] by auto
  then have "bridges_up card_cfg" by (simp add: bridges_up_def)
  moreover have "first_some (in_bus card_cfg \<lparr>q_vendor = 0x10EC, q_device = 0x8139, q_type = -1\<rparr>) [0..<256] = Some (pci_at 0 3 0)"
  proof -
    have "in_bus card_cfg \<lparr>q_vendor = 0x10EC, q_device = 0x8139, q_type = -1\<rparr> 0 = Some (pci_at 0 3 0)" by code_simp
    then show ?thesis by (subst upt_conv_Cons) simp_all
  qed
  ultimately show ?thesis
    using pci_get_device_first [OF config_ports_mechanism, of card_cfg 256 "\<lparr>q_vendor = 0x10EC, q_device = 0x8139, q_type = -1\<rparr>" 0]
    by (simp add: find_answers)
qed

end
