(* ===== verification/Nic.thy ===== *)
theory Nic
  imports Pci Network "HOL-Library.Signed_Division"
begin

text \<open>
  The two network cards, \<open>src/drivers/nic/rtl8139.c\<close> and \<open>src/drivers/nic/ne2k.c\<close>: their detection and set-up, the
  transmission of a frame, the reception of frames in an interrupt.  The chips are behind the ports, a wait
  for one is a \<open>partial_function\<close>.  The buffers of the RTL8139 are in the memory of the machine, which the
  chip fills by itself.  A received frame goes through the network stack of \<open>Network\<close>; the frames the stack
  puts on the wire meanwhile are handed to the driver that was found, in their order.
\<close>

section \<open>State\<close>

definition inportw :: "'w ide_bus \<Rightarrow> u16 \<Rightarrow> 'w \<Rightarrow> u16 \<times> 'w" where
  "inportw B port w = bus_inw B port w"

definition outportw :: "'w ide_bus \<Rightarrow> u16 \<Rightarrow> u16 \<Rightarrow> 'w \<Rightarrow> 'w" where
  "outportw B port v w = bus_outw B port v w"

datatype nic_handler = Rtl8139_irq_handler | Ne2k_isr

text \<open>
  The fields of \<open>nic\<close> that only the RTL8139 uses, the static variables of the NE2000, and what the drivers
  work on: memory, network stack, interrupt table and ports.  The hardware address \<open>nic.mac\<close> is \<open>nic_mac\<close> of
  the network stack.
\<close>

record 'w cards =
  rtl8139_present :: bool
  rtl_iobase :: u16
  rtl_irq :: u8
  rx_buffer :: u32
  rx_phys :: u32
  rx_ptr :: u16
  tx_current :: u8
  tx_buffer :: u32
  tx_phys :: u32
  ne2k_iobase :: u16
  ne2k_mac :: "u8 list"
  ne2k_present :: bool
  ne2k_irq :: u8
  card_mem :: machine
  card_net :: tcp_net
  card_isrs :: "nic_handler option list"
  card_ports :: 'w

text \<open>Access to the parts of the state.\<close>

definition out8 :: "'w ide_bus \<Rightarrow> u16 \<Rightarrow> u8 \<Rightarrow> 'w cards \<Rightarrow> 'w cards" where
  "out8 B p v s = s\<lparr>card_ports := outportb B p v (card_ports s)\<rparr>"

definition out16 :: "'w ide_bus \<Rightarrow> u16 \<Rightarrow> u16 \<Rightarrow> 'w cards \<Rightarrow> 'w cards" where
  "out16 B p v s = s\<lparr>card_ports := outportw B p v (card_ports s)\<rparr>"

definition out32 :: "'w ide_bus \<Rightarrow> u16 \<Rightarrow> u32 \<Rightarrow> 'w cards \<Rightarrow> 'w cards" where
  "out32 B p v s = s\<lparr>card_ports := outportl B p v (card_ports s)\<rparr>"

definition at_ports :: "('w \<Rightarrow> 'a \<times> 'w) \<Rightarrow> 'w cards \<Rightarrow> 'a \<times> 'w cards" where
  "at_ports f s = (case f (card_ports s) of (x, w) \<Rightarrow> (x, s\<lparr>card_ports := w\<rparr>))"

definition try_ports :: "('w \<Rightarrow> ('a \<times> 'w) option) \<Rightarrow> 'w cards \<Rightarrow> ('a \<times> 'w cards) option" where
  "try_ports f s = map_option (\<lambda>(x, w). (x, s\<lparr>card_ports := w\<rparr>)) (f (card_ports s))"

definition do_ports :: "('w \<Rightarrow> 'w option) \<Rightarrow> 'w cards \<Rightarrow> 'w cards option" where
  "do_ports f s = map_option (\<lambda>w. s\<lparr>card_ports := w\<rparr>) (f (card_ports s))"

definition at_memory :: "(machine \<Rightarrow> ('a \<times> machine) option) \<Rightarrow> 'w cards \<Rightarrow> ('a \<times> 'w cards) option" where
  "at_memory f s = map_option (\<lambda>(x, m). (x, s\<lparr>card_mem := m\<rparr>)) (f (card_mem s))"

text \<open>Wait until a bit of a port is set or clear.\<close>

partial_function (option) wait_port :: "'w ide_bus \<Rightarrow> u16 \<Rightarrow> u8 \<Rightarrow> bool \<Rightarrow> 'w \<Rightarrow> 'w option" where
  "wait_port B port m on w =
     (let (v, w) = inportb B port w in if (v AND m \<noteq> 0) = on then Some w else wait_port B port m on w)"

text \<open>The bytes of an object in memory, and \<open>memcpy\<close> into it.\<close>

fun load_bytes :: "u32 \<Rightarrow> nat \<Rightarrow> machine \<Rightarrow> u8 list option" where
  "load_bytes addr 0 m = Some []"
| "load_bytes addr (Suc n) m = do { v \<leftarrow> load8 addr m; vs \<leftarrow> load_bytes (addr + 1) n m; Some (v # vs) }"

fun store_bytes :: "u32 \<Rightarrow> u8 list \<Rightarrow> machine \<Rightarrow> machine option" where
  "store_bytes addr [] m = Some m"
| "store_bytes addr (v # vs) m = do { m \<leftarrow> store8 addr v m; store_bytes (addr + 1) vs m }"

text \<open>\<open>memcmp\<close> of an object in memory with a list, up to the first difference.\<close>

fun same_bytes :: "u32 \<Rightarrow> u8 list \<Rightarrow> machine \<Rightarrow> bool option" where
  "same_bytes addr [] m = Some True"
| "same_bytes addr (b # bs) m = do { v \<leftarrow> load8 addr m; if v = b then same_bytes (addr + 1) bs m else Some False }"

section \<open>RTL8139\<close>

abbreviation (input) RX_BUFFER_PAGES :: u32 where "RX_BUFFER_PAGES \<equiv> 4"
abbreviation (input) NUM_TX_BUFFERS :: u32 where "NUM_TX_BUFFERS \<equiv> 4"
abbreviation (input) TX_BUFFER_SIZE :: u32 where "TX_BUFFER_SIZE \<equiv> 1792"
abbreviation (input) REG_MAC0 :: u16 where "REG_MAC0 \<equiv> 0x00"
abbreviation (input) REG_TXSTATUS0 :: u16 where "REG_TXSTATUS0 \<equiv> 0x10"
abbreviation (input) REG_TXADDR0 :: u16 where "REG_TXADDR0 \<equiv> 0x20"
abbreviation (input) REG_RXBUF :: u16 where "REG_RXBUF \<equiv> 0x30"
abbreviation (input) REG_CMD :: u16 where "REG_CMD \<equiv> 0x37"
abbreviation (input) REG_CAPR :: u16 where "REG_CAPR \<equiv> 0x38"
abbreviation (input) REG_IMR :: u16 where "REG_IMR \<equiv> 0x3C"
abbreviation (input) REG_RCR :: u16 where "REG_RCR \<equiv> 0x44"
abbreviation (input) REG_CONFIG1 :: u16 where "REG_CONFIG1 \<equiv> 0x52"
abbreviation (input) PCI_COMMAND :: u32 where "PCI_COMMAND \<equiv> 0x04"
abbreviation (input) PCI_BAR0 :: u32 where "PCI_BAR0 \<equiv> 0x10"
abbreviation (input) PCI_INTERRUPT_LINE :: u32 where "PCI_INTERRUPT_LINE \<equiv> 0x3C"

definition read_mac_address :: "'w ide_bus \<Rightarrow> 'w cards \<Rightarrow> 'w cards" where
  "read_mac_address B s =
     (let (mac_low, s) = at_ports (inportl B (rtl_iobase s + REG_MAC0)) s;
          (mac_high, s) = at_ports (inportw B (rtl_iobase s + REG_MAC0 + 4)) s
      in s\<lparr>card_net := (card_net s)\<lparr>nic_mac := bytes32 mac_low @ bytes16 mac_high\<rparr>\<rparr>)"

text \<open>The chip is switched on and reset, and its receiver and interrupts are enabled.\<close>

definition rtl8139_start :: "'w ide_bus \<Rightarrow> 'w cards \<Rightarrow> 'w cards option" where
  "rtl8139_start B s =
     do { let io = rtl_iobase s;
          let s = out8 B (io + REG_CONFIG1) 0x0 s;
          let s = out8 B (io + REG_CMD) 0x10 s;
          s \<leftarrow> do_ports (wait_port B (io + REG_CMD) 0x10 False) s;
          let s = out32 B (io + REG_RXBUF) (rx_phys s) s;
          let s = out16 B (io + REG_IMR) 0x0005 s;
          let s = out32 B (io + REG_RCR) (0xF OR push_bit 7 1) s;
          let s = out8 B (io + REG_CMD) 0x0C s;
          let s = out8 B (io + REG_CONFIG1) 0x0 s;
          let s = out8 B (io + REG_CONFIG1) 0x0 s;
          let s = out8 B (io + REG_CONFIG1) 0x0 s;
          let s = read_mac_address B s;
          s \<leftarrow> do_ports (pic8259_unmask (bus.truncate B) (rtl_irq s)) s;
          hs \<leftarrow> isr_register_interrupt_handler (unat (rtl_irq s) + 0x20) (Some Rtl8139_irq_handler) (card_isrs s);
          Some (s\<lparr>card_isrs := hs\<rparr>) }"

text \<open>The addresses of the transmit buffers.\<close>

definition set_tx_addresses :: "'w ide_bus \<Rightarrow> 'w cards \<Rightarrow> 'w cards option" where
  "set_tx_addresses B s =
     each 0 NUM_TX_BUFFERS (\<lambda>i s. Some (out32 B (rtl_iobase s + REG_TXADDR0 + ucast (i * 4)) (tx_phys s + i * TX_BUFFER_SIZE) s)) s"

definition rtl8139_init :: "nat \<Rightarrow> 'w ide_bus \<Rightarrow> u32 list \<Rightarrow> 'w cards \<Rightarrow> 'w cards option" where
  "rtl8139_init fuel B sizes s =
     do { (dev, s) \<leftarrow> try_ports (pci_get_device fuel B sizes \<lparr>q_vendor = 0x10EC, q_device = 0x8139, q_type = -1\<rparr>) s;
          if pci_bits dev = pci_bits dev_zero then Some (s\<lparr>rtl8139_present := False\<rparr>)
          else do {
            let s = s\<lparr>rtl8139_present := True\<rparr>;
            (pci_cmd, s) \<leftarrow> try_ports (pci_read B sizes dev PCI_COMMAND) s;
            s \<leftarrow> do_ports (\<lambda>w. Some (pci_write B dev PCI_COMMAND (pci_cmd OR (push_bit 0 1 OR push_bit 2 1)) w)) s;
            (bar0, s) \<leftarrow> try_ports (pci_read B sizes dev PCI_BAR0) s;
            let s = s\<lparr>rtl_iobase := ucast (bar0 AND 0xFFFC)\<rparr>;
            (line, s) \<leftarrow> try_ports (pci_read B sizes dev PCI_INTERRUPT_LINE) s;
            let s = s\<lparr>rtl_irq := ucast (line AND 0xFF)\<rparr>;
            if rtl_iobase s = 0 then Some s
            else if rtl_irq s = 0 then Some s
            else do {
              (rx, s) \<leftarrow> at_memory (dma_alloc RX_BUFFER_PAGES) s;
              let s = s\<lparr>rx_buffer := rx\<rparr>;
              if rx = 0 then Some s
              else do {
                p \<leftarrow> virt_to_phys rx (card_mem s);
                let s = out32 B (rtl_iobase s + REG_RXBUF) p (s\<lparr>rx_phys := p\<rparr>);
                let tx_pages = (NUM_TX_BUFFERS * TX_BUFFER_SIZE + 4096 - 1) div 4096;
                (tx, s) \<leftarrow> at_memory (dma_alloc tx_pages) s;
                let s = s\<lparr>tx_buffer := tx\<rparr>;
                if tx = 0
                then map_option (\<lambda>m. s\<lparr>card_mem := m\<rparr>) (dma_free rx RX_BUFFER_PAGES (card_mem s))
                else do {
                  p \<leftarrow> virt_to_phys tx (card_mem s);
                  s \<leftarrow> set_tx_addresses B (s\<lparr>tx_phys := p\<rparr>);
                  rtl8139_start B s } } } } }"

definition rtl8139_send_packet :: "'w ide_bus \<Rightarrow> u8 list \<Rightarrow> u16 \<Rightarrow> 'w cards \<Rightarrow> 'w cards option" where
  "rtl8139_send_packet B data len s =
     (if ucast len > TX_BUFFER_SIZE then Some s
      else if length data < unat len then None
      else do {
        m \<leftarrow> store_bytes (tx_buffer s + ucast (tx_current s) * TX_BUFFER_SIZE) (take (unat len) data) (card_mem s);
        let s = out32 B (rtl_iobase s + REG_TXSTATUS0 + ucast (tx_current s) * 4) (ucast len) (s\<lparr>card_mem := m\<rparr>);
        Some (s\<lparr>tx_current := (tx_current s + 1) mod 4\<rparr>) })"

section \<open>NE2000\<close>

abbreviation (input) NE2K_CR :: u16 where "NE2K_CR \<equiv> 0x00"
abbreviation (input) NE2K_PSTART :: u16 where "NE2K_PSTART \<equiv> 0x01"
abbreviation (input) NE2K_PSTOP :: u16 where "NE2K_PSTOP \<equiv> 0x02"
abbreviation (input) NE2K_BNRY :: u16 where "NE2K_BNRY \<equiv> 0x03"
abbreviation (input) NE2K_TSR :: u16 where "NE2K_TSR \<equiv> 0x04"
abbreviation (input) NE2K_TBCR0 :: u16 where "NE2K_TBCR0 \<equiv> 0x05"
abbreviation (input) NE2K_TBCR1 :: u16 where "NE2K_TBCR1 \<equiv> 0x06"
abbreviation (input) NE2K_ISR :: u16 where "NE2K_ISR \<equiv> 0x07"
abbreviation (input) NE2K_RSAR0 :: u16 where "NE2K_RSAR0 \<equiv> 0x08"
abbreviation (input) NE2K_RSAR1 :: u16 where "NE2K_RSAR1 \<equiv> 0x09"
abbreviation (input) NE2K_RBCR0 :: u16 where "NE2K_RBCR0 \<equiv> 0x0A"
abbreviation (input) NE2K_RBCR1 :: u16 where "NE2K_RBCR1 \<equiv> 0x0B"
abbreviation (input) NE2K_RCR :: u16 where "NE2K_RCR \<equiv> 0x0C"
abbreviation (input) NE2K_TCR :: u16 where "NE2K_TCR \<equiv> 0x0D"
abbreviation (input) NE2K_DCR :: u16 where "NE2K_DCR \<equiv> 0x0E"
abbreviation (input) NE2K_IMR :: u16 where "NE2K_IMR \<equiv> 0x0F"
abbreviation (input) NE2K_DATA :: u16 where "NE2K_DATA \<equiv> 0x10"
abbreviation (input) NE2K_RESET :: u16 where "NE2K_RESET \<equiv> 0x1F"
abbreviation (input) NE2K_RX_START :: u8 where "NE2K_RX_START \<equiv> 0x46"
abbreviation (input) NE2K_RX_STOP :: u8 where "NE2K_RX_STOP \<equiv> 0x60"

definition ne2k_is_present :: "'w cards \<Rightarrow> bool" where
  "ne2k_is_present s = ne2k_present s"

definition ne2k_get_mac :: "'w cards \<Rightarrow> u8 list" where
  "ne2k_get_mac s = ne2k_mac s"

text \<open>A register of the chip.\<close>

definition put :: "'w ide_bus \<Rightarrow> u16 \<Rightarrow> u8 \<Rightarrow> 'w cards \<Rightarrow> 'w cards" where
  "put B reg v s = out8 B (ne2k_iobase s + reg) v s"

definition get :: "'w ide_bus \<Rightarrow> u16 \<Rightarrow> 'w cards \<Rightarrow> u8 \<times> 'w cards" where
  "get B reg s = at_ports (inportb B (ne2k_iobase s + reg)) s"

text \<open>The loops that wait for a bit of the interrupt status, and \<open>n\<close> bytes from the data port.\<close>

definition wait_isr :: "'w ide_bus \<Rightarrow> u8 \<Rightarrow> 'w cards \<Rightarrow> 'w cards option" where
  "wait_isr B m s = do_ports (wait_port B (ne2k_iobase s + NE2K_ISR) m True) s"

fun get_bytes :: "'w ide_bus \<Rightarrow> nat \<Rightarrow> 'w cards \<Rightarrow> u8 list \<times> 'w cards" where
  "get_bytes B 0 s = ([], s)"
| "get_bytes B (Suc n) s = (let (v, s) = get B NE2K_DATA s; (vs, s) = get_bytes B n s in (v # vs, s))"

text \<open>The start of a transfer of \<open>n\<close> bytes from or to the address \<open>off\<close> of the chip's memory.\<close>

definition set_remote :: "'w ide_bus \<Rightarrow> u16 \<Rightarrow> u16 \<Rightarrow> 'w cards \<Rightarrow> 'w cards" where
  "set_remote B off n s =
     (let s = put B NE2K_RSAR0 (ucast (off AND 0xFF)) s;
          s = put B NE2K_RSAR1 (ucast (drop_bit 8 off AND 0xFF)) s;
          s = put B NE2K_RBCR0 (ucast (n AND 0xFF)) s
      in put B NE2K_RBCR1 (ucast (drop_bit 8 n)) s)"

definition ne2k_reset_chip :: "'w ide_bus \<Rightarrow> 'w cards \<Rightarrow> 'w cards option" where
  "ne2k_reset_chip B s =
     do { let (_, s) = get B NE2K_RESET s;
          s \<leftarrow> wait_isr B 0x80 s;
          Some (put B NE2K_ISR 0x80 s) }"

definition ne2k_read_mac :: "'w ide_bus \<Rightarrow> 'w cards \<Rightarrow> (u8 list \<times> 'w cards) option" where
  "ne2k_read_mac B s =
     do { let s = put B NE2K_CR (0x02 OR 0x20) s;
          let s = set_remote B 0 12 s;
          let s = put B NE2K_CR (0x02 OR 0x20 OR 0x08) s;
          let (mac, s) = get_bytes B 6 s;
          let (_, s) = get_bytes B 6 s;
          s \<leftarrow> wait_isr B 0x40 s;
          Some (mac, put B NE2K_ISR 0x40 s) }"

text \<open>One received packet: \<open>read_packet\<close> reads its header and its data at page \<open>page\<close>.\<close>

definition read_packet :: "'w ide_bus \<Rightarrow> u8 \<Rightarrow> 'w cards \<Rightarrow> (u8 \<times> u8 list \<times> 'w cards) option" where
  "read_packet B page s =
     do { let pkt_offset = (push_bit 8 (ucast page) :: u16);
          let s = set_remote B pkt_offset 4 s;
          let s = put B NE2K_CR (0x02 OR 0x20 OR 0x08) s;
          let (header, s) = get_bytes B 4 s;
          s \<leftarrow> wait_isr B 0x40 s;
          let s = put B NE2K_ISR 0x40 s;
          let len = (ucast (header ! 2) OR push_bit 8 (ucast (header ! 3)) :: u16);
          let len = (if len < 4 then 4 else len) - 4;
          let len = (if len > 1514 then 1514 else len);
          let s = set_remote B (push_bit 8 (ucast page) + 4) len s;
          let s = put B NE2K_CR (0x02 OR 0x20 OR 0x08) s;
          let (buf, s) = get_bytes B (unat len) s;
          s \<leftarrow> wait_isr B 0x40 s;
          let s = put B NE2K_ISR 0x40 s;
          Some (header ! 1, buf, s) }"

text \<open>The bounded wait for the end of a transmission: what is left of the time-out.\<close>

primrec count_down :: "'w ide_bus \<Rightarrow> u16 \<Rightarrow> (u8 \<Rightarrow> bool) \<Rightarrow> nat \<Rightarrow> 'w cards \<Rightarrow> nat \<times> 'w cards" where
  "count_down B reg busy 0 s = (0, s)"
| "count_down B reg busy (Suc n) s =
     (let (v, s) = get B reg s
      in if busy v then (if n > 0 then count_down B reg busy n s else (0, s)) else (Suc n, s))"

text \<open>The data in words, from index \<open>i\<close> on.\<close>

function put_words :: "'w ide_bus \<Rightarrow> u8 list \<Rightarrow> nat \<Rightarrow> nat \<Rightarrow> 'w cards \<Rightarrow> 'w cards option" where
  "put_words B data len i s =
     (if i + 1 < len
      then do { a \<leftarrow> rd data i; b \<leftarrow> rd data (i + 1);
                put_words B data len (i + 2) (out16 B (ne2k_iobase s + NE2K_DATA) (ucast a OR push_bit 8 (ucast b)) s) }
      else if i < len
      then do { a \<leftarrow> rd data i; Some (out16 B (ne2k_iobase s + NE2K_DATA) (ucast a) s) }
      else Some s)"
  by pat_completeness auto

termination put_words by (relation "measure (\<lambda>(B, data, len, i, s). len - i)") auto

declare put_words.simps [simp del]

text \<open>The chip is told where the frame goes and how long it is.\<close>

definition prepare_transmit :: "'w ide_bus \<Rightarrow> u16 \<Rightarrow> 'w cards \<Rightarrow> 'w cards" where
  "prepare_transmit B len s =
     (let s = put B NE2K_TSR 0x40 s;
          s = put B NE2K_TBCR0 (ucast (len AND 0xFF)) s;
          s = put B NE2K_TBCR1 (ucast (drop_bit 8 len)) s;
          s = set_remote B 0x4000 len s
      in put B NE2K_CR (0x02 OR 0x20 OR 0x10) s)"

text \<open>The transmission is started and its end awaited; the outcome is only printed.\<close>

definition transmit :: "'w ide_bus \<Rightarrow> 'w cards \<Rightarrow> 'w cards" where
  "transmit B s =
     (let s = put B NE2K_CR (0x02 OR 0x04 OR 0x20) s;
          (timeout, s) = count_down B NE2K_ISR (\<lambda>v. v AND 0x02 = 0) 100000 s;
          (v, s) = get B NE2K_ISR s;
          s = (if v AND 0x02 \<noteq> 0 then put B NE2K_ISR 0x02 s else s);
          (tsr, s) = get B NE2K_TSR s
      in s)"

definition ne2k_send_packet :: "'w ide_bus \<Rightarrow> u8 list \<Rightarrow> u16 \<Rightarrow> 'w cards \<Rightarrow> 'w cards option" where
  "ne2k_send_packet B data len0 s =
     (if \<not> ne2k_present s then Some s
      else let len = (if len0 < 60 then 60 else len0);
               len = (if len > 1514 then 1514 else len);
               s = put B NE2K_CR (0x00 OR 0x02 OR 0x20) s;
               (txp_timeout, s) = count_down B NE2K_CR (\<lambda>v. v AND 0x04 \<noteq> 0) 1000 s
           in if txp_timeout = 0 then Some s
              else do {
                s \<leftarrow> put_words B data (unat len) 0 (prepare_transmit B len s);
                s \<leftarrow> wait_isr B 0x40 s;
                Some (transmit B (put B NE2K_ISR 0x40 s)) })"

definition ne2k_start :: "'w ide_bus \<Rightarrow> 'w cards \<Rightarrow> 'w cards option" where
  "ne2k_start B s =
     do { s \<leftarrow> ne2k_reset_chip B s;
          let s = put B NE2K_DCR 0x49 s;
          let s = put B NE2K_CR (0x01 OR 0x20) s;
          let s = put B NE2K_RCR 0x0C s;
          let s = put B NE2K_TCR 0x00 s;
          let s = put B NE2K_PSTART NE2K_RX_START s;
          let s = put B NE2K_PSTOP NE2K_RX_STOP s;
          let s = put B NE2K_BNRY NE2K_RX_START s;
          let s = put B NE2K_CR (0x40 OR 0x02) s;
          let s = put B 0x07 (NE2K_RX_START + 1) s;
          let s = put B NE2K_CR (0x00 OR 0x02) s;
          let s = put B NE2K_IMR (0x01 OR 0x02 OR 0x04 OR 0x08 OR 0x10) s;
          (mac, s) \<leftarrow> ne2k_read_mac B s;
          let s = s\<lparr>ne2k_mac := mac, card_net := (card_net s)\<lparr>nic_mac := mac\<rparr>\<rparr>;
          let s = put B NE2K_CR (0x02 OR 0x20) s;
          s \<leftarrow> do_ports (pic8259_unmask (bus.truncate B) (ne2k_irq s)) s;
          hs \<leftarrow> isr_register_interrupt_handler (unat (ne2k_irq s) + 0x20) (Some Ne2k_isr) (card_isrs s);
          Some (s\<lparr>card_isrs := hs, ne2k_present := True\<rparr>) }"

definition ne2k_init :: "nat \<Rightarrow> 'w ide_bus \<Rightarrow> u32 list \<Rightarrow> 'w cards \<Rightarrow> (int \<times> 'w cards) option" where
  "ne2k_init fuel B sizes s =
     do { (dev, s) \<leftarrow> try_ports (pci_get_device fuel B sizes \<lparr>q_vendor = 0x10EC, q_device = 0x8029, q_type = -1\<rparr>) s;
          if pci_bits dev = pci_bits dev_zero then Some (-1, s\<lparr>ne2k_present := False\<rparr>)
          else do {
            (bar0, s) \<leftarrow> try_ports (pci_read B sizes dev PCI_BAR0) s;
            let s = s\<lparr>ne2k_iobase := ucast (bar0 AND NOT 0x3)\<rparr>;
            if ne2k_iobase s = 0 then Some (-1, s\<lparr>ne2k_present := False\<rparr>)
            else do {
              (line, s) \<leftarrow> try_ports (pci_read B sizes dev PCI_INTERRUPT_LINE) s;
              s \<leftarrow> ne2k_start B (s\<lparr>ne2k_irq := ucast (line AND 0xFF)\<rparr>);
              Some (0, s) } } }"

section \<open>Reception\<close>

text \<open>The driver that \<open>eth_init\<close> installs sends a frame.\<close>

definition send_frame :: "'w ide_bus \<Rightarrow> u8 list \<Rightarrow> 'w cards \<Rightarrow> 'w cards option" where
  "send_frame B frame s =
     (if rtl8139_present s then rtl8139_send_packet B frame (of_nat (length frame)) s
      else ne2k_send_packet B frame (of_nat (length frame)) s)"

fun send_frames :: "'w ide_bus \<Rightarrow> u8 list list \<Rightarrow> 'w cards \<Rightarrow> 'w cards option" where
  "send_frames B [] s = Some s"
| "send_frames B (f # fs) s = do { s \<leftarrow> send_frame B f s; send_frames B fs s }"

text \<open>A received packet goes through the stack, and what the stack sends goes out.\<close>

definition receive_packet :: "'w ide_bus \<Rightarrow> u8 list \<Rightarrow> u16 \<Rightarrow> 'w cards \<Rightarrow> 'w cards option" where
  "receive_packet B data len s =
     do { n \<leftarrow> net_process_packet data len (card_net s);
          send_frames B (drop (length (wire (card_net s))) (wire n)) (s\<lparr>card_net := n\<rparr>) }"

definition ne2k_isr :: "'w ide_bus \<Rightarrow> 'w cards \<Rightarrow> 'w cards option" where
  "ne2k_isr B s =
     do { let (isr, s) = get B NE2K_ISR s;
          let (curr, s) = get B 0x07 s;
          let s = put B NE2K_CR (0x00 OR 0x02) s;
          let (bnry, s) = get B NE2K_BNRY s;
          let page = bnry + 1;
          let page = (if page \<ge> NE2K_RX_STOP then NE2K_RX_START else page);
          s \<leftarrow> (if page \<noteq> curr
                then do { (nxt, buf, s) \<leftarrow> read_packet B page s;
                          s \<leftarrow> receive_packet B buf (of_nat (length buf)) s;
                          Some (put B NE2K_BNRY (if nxt = NE2K_RX_START then NE2K_RX_STOP - 1 else nxt - 1) s) }
                else Some s);
          let s = put B NE2K_ISR (isr AND (0x01 OR 0x04 OR 0x10 OR 0x02 OR 0x08 OR 0x40)) s;
          Some (s\<lparr>card_ports := pic8259_eoi (bus.truncate B) (ne2k_irq s) (card_ports s)\<rparr>) }"

abbreviation (input) RX_BUFFER_SIZE :: u16 where "RX_BUFFER_SIZE \<equiv> 0x4000"

text \<open>
  The position of the write pointer: \<open>% RX_BUFFER_SIZE\<close> on an \<open>int\<close> that may be negative, converted to 16 bits.
\<close>

definition less_16 :: "u16 \<Rightarrow> u16" where
  "less_16 x = word_of_int ((uint x - 16) smod 0x4000)"

text \<open>
  The packets from \<open>rx_offset\<close> to \<open>cbr\<close>; \<open>None\<close> in the result is the early return of the function for a packet of
  its own or of an impossible length.
\<close>

partial_function (option) rx_loop :: "'w ide_bus \<Rightarrow> u16 \<Rightarrow> u16 \<Rightarrow> 'w cards \<Rightarrow> (u16 option \<times> 'w cards) option" where
  "rx_loop B cbr rx_offset s =
     (if rx_offset \<noteq> cbr
      then do {
        let buffer_pos = rx_offset mod RX_BUFFER_SIZE;
        rx_status \<leftarrow> load32 (rx_buffer s + ucast buffer_pos) (card_mem s);
        let packet_len = (ucast (drop_bit 16 rx_status) :: u16);
        let packet = rx_buffer s + ucast buffer_pos + 4;
        own \<leftarrow> same_bytes (packet + 6) (nic_mac (card_net s)) (card_mem s);
        if own then Some (None, s)
        else if packet_len = 0 \<or> packet_len > 1514 then Some (None, s)
        else do {
          data \<leftarrow> load_bytes packet (unat packet_len) (card_mem s);
          s \<leftarrow> receive_packet B data packet_len s;
          let rx_offset = (ucast ((ucast buffer_pos + ucast packet_len + 4 + 3 :: u32) AND NOT 3) :: u16);
          rx_loop B cbr (if rx_offset \<ge> RX_BUFFER_SIZE then rx_offset - RX_BUFFER_SIZE else rx_offset) s } }
      else Some (Some rx_offset, s))"

definition rtl8139_receive_packet :: "'w ide_bus \<Rightarrow> 'w cards \<Rightarrow> 'w cards option" where
  "rtl8139_receive_packet B s =
     do { let io = rtl_iobase s;
          let (a, s) = at_ports (inportw B (io + 0x3A)) s;
          let (b, s) = at_ports (inportw B (io + 0x3C)) s;
          let cbr = less_16 (push_bit 8 a OR (b AND 0xFF));
          if cbr = rx_ptr s then Some s
          else do {
            (off, s) \<leftarrow> rx_loop B cbr (rx_ptr s) s;
            case off of
              None \<Rightarrow> Some s
            | Some off \<Rightarrow> do {
                v \<leftarrow> load_bytes (rx_buffer s + ucast (off mod RX_BUFFER_SIZE)) 2 (card_mem s);
                if word16 (v ! 0) (v ! 1) AND 0x8000 \<noteq> 0 then Some s
                else Some (out16 B (io + REG_CAPR) (less_16 off) (s\<lparr>rx_ptr := off\<rparr>)) } } }"

text \<open>The status of the transmit buffers is read and ignored.\<close>

definition read_tx_status :: "'w ide_bus \<Rightarrow> 'w cards \<Rightarrow> 'w cards option" where
  "read_tx_status B s =
     each 0 NUM_TX_BUFFERS (\<lambda>i s. Some (snd (at_ports (inportl B (rtl_iobase s + REG_TXSTATUS0 + ucast (i * 4))) s))) s"

definition rtl8139_irq_handler :: "'w ide_bus \<Rightarrow> 'w cards \<Rightarrow> 'w cards option" where
  "rtl8139_irq_handler B s =
     do { let io = rtl_iobase s;
          let (status, s) = at_ports (inportw B (io + 0x3E)) s;
          let s = out16 B (io + 0x3E) 0x05 s;
          s \<leftarrow> (if status AND 0x01 \<noteq> 0 then rtl8139_receive_packet B s else Some s);
          s \<leftarrow> (if status AND 0x04 \<noteq> 0 then read_tx_status B s else Some s);
          let s = (if status AND 0x10 \<noteq> 0
                   then let (cmd, s) = at_ports (inportb B (io + REG_CMD)) s;
                            s = out8 B (io + REG_CMD) (cmd AND NOT 0x08) s;
                            s = out16 B (io + REG_CAPR) 0 (s\<lparr>rx_ptr := 0\<rparr>);
                            s = out32 B (io + REG_RXBUF) (rx_phys s) s
                        in out8 B (io + REG_CMD) (cmd OR 0x08) s
                   else s);
          s \<leftarrow> do_ports (pic8259_unmask (bus.truncate B) (rtl_irq s)) s;
          Some (s\<lparr>card_ports := pic8259_eoi (bus.truncate B) (rtl_irq s) (card_ports s)\<rparr>) }"

end
