(* ===== verification/NicSpec.thy ===== *)
theory NicSpec
  imports Nic
begin

text \<open>
  What the network cards send and where they read.  The ports of the NE2000 are watched by a recorder of the
  16-bit outputs: it shows that the bytes that reach the chip are the bytes of the frame, whatever the chip
  answers.  For the RTL8139 the position that the receiver remembers is followed through an interrupt.
\<close>

section \<open>Recording the words written\<close>

definition recording :: "'w ide_bus \<Rightarrow> ('w \<times> (u16 \<times> u16) list) ide_bus" where
  "recording B = \<lparr>bus_in = \<lambda>p (w, l). (let (v, w) = bus_in B p w in (v, (w, l))),
     bus_out = \<lambda>p v (w, l). (bus_out B p v w, l),
     bus_inw = \<lambda>p (w, l). (let (v, w) = bus_inw B p w in (v, (w, l))),
     bus_outw = \<lambda>p v (w, l). (bus_outw B p v w, l @ [(p, v)]),
     bus_inl = \<lambda>p (w, l). (let (v, w) = bus_inl B p w in (v, (w, l))),
     bus_outl = \<lambda>p v (w, l). (bus_outl B p v w, l)\<rparr>"

text \<open>A step that leaves the record and the base address alone.\<close>

definition quiet :: "('w \<times> 'l) cards \<Rightarrow> ('w \<times> 'l) cards \<Rightarrow> bool" where
  "quiet s s' \<longleftrightarrow> ne2k_iobase s' = ne2k_iobase s \<and> snd (card_ports s') = snd (card_ports s)"

lemma quiet_refl [simp]: "quiet s s"
  by (simp add: quiet_def)

lemma recording_simps:
  "snd (bus_out (recording B) p b w) = snd w" "snd (snd (bus_in (recording B) p w)) = snd w"
  "snd (bus_outw (recording B) p v w) = snd w @ [(p, v)]"
  by (simp_all add: recording_def split_def Let_def)

lemma quiet_put [simp]: "quiet s' (put (recording B) r v s) = quiet s' s"
  by (simp add: quiet_def put_def out8_def outportb_def recording_simps)

lemma get_quiet: "quiet s (snd (get (recording B) r s))"
  by (simp add: quiet_def get_def at_ports_def inportb_def recording_simps split_def)

lemma quiet_trans: "quiet s s' \<Longrightarrow> quiet s' s'' \<Longrightarrow> quiet s s''"
  by (simp add: quiet_def)

lemma quiet_get: "get (recording B) r s = (v, s'') \<Longrightarrow> quiet s' s \<Longrightarrow> quiet s' s''"
  using quiet_trans [OF _ get_quiet [of s B r]] by simp

lemma quiet_count_down: "count_down (recording B) r busy n s = (k, s'') \<Longrightarrow> quiet s' s \<Longrightarrow> quiet s' s''"
proof (induction n arbitrary: s)
  case (Suc n)
  obtain v t where g: "get (recording B) r s = (v, t)" by (cases "get (recording B) r s")
  then show ?case using Suc.IH [of t] Suc.prems quiet_get [OF g Suc.prems(2)] by (auto split: if_splits)
qed simp

lemma quiet_set_remote [simp]: "quiet s' (set_remote (recording B) off n s) = quiet s' s"
  by (simp add: set_remote_def Let_def)

lemma wait_port_quiet:
  assumes "wait_port B p m on w = Some w'"
  shows "\<forall>B'. B = recording B' \<longrightarrow> snd w' = snd w"
proof (rule wait_port.raw_induct [where P = "\<lambda>B p m on w y. \<forall>B'. B = recording B' \<longrightarrow> snd y = snd w", OF _ assms], goal_cases)
  case (1 f B p m on w y)
  show ?case
  proof (intro allI impI)
    fix B' assume B: "B = recording B'"
    obtain v w1 where r: "inportb B p w = (v, w1)" by (cases "inportb B p w")
    then have "snd w1 = snd w" using recording_simps(2) [of B' p w] B by (simp add: inportb_def)
    moreover have "snd y = snd w1" if "f B p m on w1 = Some y" using 1(1) [OF that] B by blast
    ultimately show "snd y = snd w" using 1(2) r by (auto split: if_splits)
  qed
qed

lemma quiet_wait_isr: "wait_isr (recording B) m s = Some s'' \<Longrightarrow> quiet s' s \<Longrightarrow> quiet s' s''"
  using wait_port_quiet [of "recording B" _ m True "card_ports s"]
  by (fastforce simp: wait_isr_def do_ports_def quiet_def)

lemma quiet_prepare [simp]: "quiet s' (prepare_transmit (recording B) len s) = quiet s' s"
  by (simp add: prepare_transmit_def Let_def)

lemma quiet_transmit: "quiet s' s \<Longrightarrow> quiet s' (transmit (recording B) s)"
  unfolding transmit_def Let_def
  by (simp split: prod.split add: quiet_get quiet_count_down)

section \<open>The words of a frame\<close>

fun words_le :: "u8 list \<Rightarrow> u16 list" where
  "words_le [] = []"
| "words_le [a] = [ucast a]"
| "words_le (a # b # bs) = (ucast a OR push_bit 8 (ucast b)) # words_le bs"

text \<open>The bytes of the words written to port \<open>p\<close>.\<close>

definition bytes_at :: "u16 \<Rightarrow> (u16 \<times> u16) list \<Rightarrow> u8 list" where
  "bytes_at p l = concat (map (\<lambda>(q, v). bytes16 v) (filter (\<lambda>(q, v). q = p) l))"

lemma bytes16_word: "bytes16 (ucast a OR push_bit 8 (ucast b)) = [a, b]" for a b :: u8
proof -
  have "ucast (ucast a OR push_bit 8 (ucast b) :: u16) = a"
    by (rule bit_word_eqI) (auto simp: bit_or_iff bit_push_bit_iff bit_unsigned_iff)
  moreover have "ucast (drop_bit 8 (ucast a OR push_bit 8 (ucast b) :: u16)) = b"
    by (rule bit_word_eqI) (auto simp: bit_or_iff bit_push_bit_iff bit_unsigned_iff bit_drop_bit_eq dest: bit_imp_le_length)
  ultimately show ?thesis by (simp add: bytes16_def)
qed

lemma bytes_words_le: "concat (map bytes16 (words_le bs)) = bs @ (if odd (length bs) then [0] else [])"
proof (induction bs rule: words_le.induct)
  case (2 a)
  have "bytes16 (ucast a) = [a, 0]" using bytes16_word [of a 0] by simp
  then show ?case by simp
qed (simp_all add: bytes16_word)

lemma bytes_at_map: "bytes_at p (map (Pair p) vs) = concat (map bytes16 vs)"
  by (simp add: bytes_at_def comp_def)

lemma out16_recording:
  "ne2k_iobase (out16 (recording B) p v s) = ne2k_iobase s"
  "snd (card_ports (out16 (recording B) p v s)) = snd (card_ports s) @ [(p, v)]"
  by (simp_all add: out16_def outportw_def recording_simps)

lemma put_words_spec:
  assumes "put_words B data len i s = Some s'" and "i \<le> len" and "B = recording B'"
  shows "(i < len \<longrightarrow> len \<le> length data) \<and>
    snd (card_ports s') = snd (card_ports s) @ map (Pair (ne2k_iobase s + 0x10)) (words_le (drop i (take len data)))"
  using assms
proof (induction B data len i s rule: put_words.induct)
  case (1 B data len i s)
  consider "i + 1 < len" | "i + 1 = len" | "i = len" using "1.prems"(2) by linarith
  then show ?case
  proof cases
    case 1
    then obtain a b where ab: "rd data i = Some a" "rd data (i + 1) = Some b"
      and rec: "put_words B data len (i + 2) (out16 B (ne2k_iobase s + NE2K_DATA) (ucast a OR push_bit 8 (ucast b)) s) = Some s'"
      using "1.prems"(1) by (subst (asm) put_words.simps) (auto simp: bind_eq_Some_conv simp del: rd_Some_iff)
    have "drop i (take len data) = a # b # drop (i + 2) (take len data)"
      using ab 1 by (simp add: Cons_nth_drop_Suc [symmetric])
    then show ?thesis
      using "1.IH" [OF 1 ab rec] "1.prems"(3) 1 ab by (auto simp: out16_recording)
  next
    case 2
    then obtain a where a: "rd data i = Some a" and "s' = out16 B (ne2k_iobase s + NE2K_DATA) (ucast a) s"
      using "1.prems"(1) by (subst (asm) put_words.simps) (auto simp: bind_eq_Some_conv simp del: rd_Some_iff)
    moreover have "drop i (take len data) = [a]"
      using a 2 by (simp add: Cons_nth_drop_Suc [symmetric])
    ultimately show ?thesis using 2 "1.prems"(3) by (simp add: out16_recording)
  next
    case 3
    then have "s' = s" using "1.prems"(1) by (subst (asm) put_words.simps) simp
    then show ?thesis using 3 by simp
  qed
qed

lemma put_words_iobase: "put_words B data len i s = Some s' \<Longrightarrow> ne2k_iobase s' = ne2k_iobase s"
proof (induction B data len i s rule: put_words.induct)
  case (1 B data len i s)
  show ?case
    using "1.prems" "1.IH" by (subst (asm) put_words.simps) (auto simp: bind_eq_Some_conv out16_def split: if_splits)
qed

text \<open>What a call sends, with the length it is brought to.\<close>

definition frame_len :: "u16 \<Rightarrow> nat" where
  "frame_len len = min 1514 (max 60 (unat len))"

lemma frame_len_code: "unat (let len = (if len < 60 then 60 else len) in if len > 1514 then 1514 else len) = frame_len len"
  for len :: u16
  by (auto simp: frame_len_def word_less_nat_alt Let_def)

lemma ne2k_send_record:
  assumes "ne2k_send_packet (recording B) data len s = Some s'"
  shows "snd (card_ports s') = snd (card_ports s) \<or>
    frame_len len \<le> length data \<and>
    snd (card_ports s') = snd (card_ports s) @ map (Pair (ne2k_iobase s + 0x10)) (words_le (take (frame_len len) data))"
proof -
  define l where "l = (let len = (if len < 60 then 60 else len) in if len > 1514 then 1514 else len)"
  have l: "unat l = frame_len len" using frame_len_code [of len] by (simp add: l_def)
  obtain t s1 where c: "count_down (recording B) NE2K_CR (\<lambda>v. v AND 0x04 \<noteq> 0) 1000 (put (recording B) NE2K_CR (0x00 OR 0x02 OR 0x20) s) = (t, s1)"
    by fastforce
  have q1: "quiet s s1" by (rule quiet_count_down [OF c]) simp
  have send: "(if \<not> ne2k_present s then Some s else if t = 0 then Some s1
      else do { s \<leftarrow> put_words (recording B) data (unat l) 0 (prepare_transmit (recording B) l s1);
                s \<leftarrow> wait_isr (recording B) 0x40 s;
                Some (transmit (recording B) (put (recording B) NE2K_ISR 0x40 s)) }) = Some s'"
    using assms unfolding ne2k_send_packet_def Let_def c l_def prod.case .
  show ?thesis
  proof (cases "ne2k_present s \<and> t \<noteq> 0")
    case False
    then have "s' = s \<or> s' = s1" using send by (auto split: if_splits)
    then show ?thesis using q1 by (auto simp: quiet_def)
  next
    case True
    then obtain s3 s4 where s3: "put_words (recording B) data (unat l) 0 (prepare_transmit (recording B) l s1) = Some s3"
      and s4: "wait_isr (recording B) 0x40 s3 = Some s4"
      and s': "s' = transmit (recording B) (put (recording B) NE2K_ISR 0x40 s4)"
      using send by (auto simp: bind_eq_Some_conv)
    have "quiet s3 s4" by (rule quiet_wait_isr [OF s4]) simp
    then have q3: "quiet s3 s'" unfolding s' by (intro quiet_transmit) simp
    have q2: "quiet s (prepare_transmit (recording B) l s1)" using q1 by (simp add: quiet_prepare)
    show ?thesis
      using put_words_spec [OF s3 le0 refl] q2 q3 by (auto simp: quiet_def l frame_len_def)
  qed
qed

text \<open>A chip that is never busy takes the frame.\<close>

definition chip_ready :: "'w ide_bus \<Rightarrow> u16 \<Rightarrow> bool" where
  "chip_ready B io \<longleftrightarrow> (\<forall>w. fst (inportb B (io + NE2K_CR) w) AND 0x04 = 0) \<and>
     (\<forall>w. fst (inportb B (io + NE2K_ISR) w) AND 0x40 \<noteq> 0)"

lemma chip_ready_recording: "chip_ready B io \<Longrightarrow> chip_ready (recording B) io"
  by (simp add: chip_ready_def recording_def inportb_def split_def Let_def)

lemma put_words_defined: "len \<le> length data \<Longrightarrow> \<exists>s'. put_words B data len i s = Some s'"
proof (induction B data len i s rule: put_words.induct)
  case (1 B data len i s)
  then show ?case by (subst put_words.simps) (auto simp: rd_def)
qed

lemma wait_isr_ready:
  assumes "chip_ready B (ne2k_iobase s)"
  shows "\<exists>s'. wait_isr B 0x40 s = Some s'"
proof -
  have "fst (inportb B (ne2k_iobase s + NE2K_ISR) (card_ports s)) AND 0x40 \<noteq> 0"
    using assms unfolding chip_ready_def by blast
  then show ?thesis
    unfolding wait_isr_def do_ports_def
    by (cases "inportb B (ne2k_iobase s + NE2K_ISR) (card_ports s)") (simp add: wait_port.simps)
qed

lemma count_down_ready:
  assumes "chip_ready B (ne2k_iobase s)" and "count_down B NE2K_CR (\<lambda>v. v AND 0x04 \<noteq> 0) (Suc n) s = (t, s1)"
  shows "t = Suc n"
proof -
  have "fst (inportb B (ne2k_iobase s + NE2K_CR) (card_ports s)) AND 0x04 = 0"
    using assms(1) unfolding chip_ready_def by blast
  then show ?thesis using assms(2)
    by (cases "inportb B (ne2k_iobase s + NE2K_CR) (card_ports s)") (simp add: get_def at_ports_def)
qed

lemma put_iobase [simp]: "ne2k_iobase (put B r v s) = ne2k_iobase s"
  by (simp add: put_def out8_def)

lemma ne2k_send_defined:
  assumes ready: "chip_ready B (ne2k_iobase s)" and "ne2k_present s" and len: "frame_len len \<le> length data"
  shows "\<exists>s'. ne2k_send_packet (recording B) data len s = Some s' \<and> snd (card_ports s') =
    snd (card_ports s) @ map (Pair (ne2k_iobase s + 0x10)) (words_le (take (frame_len len) data))"
proof -
  define l where "l = (let len = (if len < 60 then 60 else len) in if len > 1514 then 1514 else len)"
  have l: "unat l = frame_len len" using frame_len_code [of len] by (simp add: l_def)
  have rec: "chip_ready (recording B) (ne2k_iobase s)" using ready by (rule chip_ready_recording)
  obtain t s1 where c: "count_down (recording B) NE2K_CR (\<lambda>v. v AND 0x04 \<noteq> 0) 1000 (put (recording B) NE2K_CR (0x00 OR 0x02 OR 0x20) s) = (t, s1)"
    by fastforce
  have q1: "quiet s s1" by (rule quiet_count_down [OF c]) simp
  have t: "t \<noteq> 0"
    using count_down_ready [of "recording B" "put (recording B) NE2K_CR (0x00 OR 0x02 OR 0x20) s" 999 t s1] c rec by simp
  obtain s3 where s3: "put_words (recording B) data (unat l) 0 (prepare_transmit (recording B) l s1) = Some s3"
    using put_words_defined [of "unat l" data] len l by fastforce
  have q2: "quiet s (prepare_transmit (recording B) l s1)" using q1 by simp
  note w = put_words_spec [OF s3 le0 refl]
  have "ne2k_iobase s3 = ne2k_iobase s" using put_words_iobase [OF s3] q2 by (simp add: quiet_def)
  then obtain s4 where s4: "wait_isr (recording B) 0x40 s3 = Some s4" using wait_isr_ready [of "recording B" s3] rec by auto
  have "quiet s3 s4" by (rule quiet_wait_isr [OF s4]) simp
  then have q3: "quiet s3 (transmit (recording B) (put (recording B) NE2K_ISR 0x40 s4))" by (intro quiet_transmit) simp
  have "ne2k_send_packet (recording B) data len s = Some (transmit (recording B) (put (recording B) NE2K_ISR 0x40 s4))"
    using assms(2) t s3 s4 unfolding ne2k_send_packet_def Let_def c l_def prod.case by simp
  then show ?thesis using w q2 q3 by (auto simp: quiet_def l frame_len_def)
qed

section \<open>Properties of the NE2000\<close>

text \<open>C30. Whatever the chip answers, \<open>ne2k_send_packet\<close> either writes no word at all, or writes to its data port
  exactly the bytes of the frame, brought to a length between 60 and 1514, the first byte of each pair in the
  low half of the word, with a zero for the byte that makes up the last pair; it never writes 16 bits
  elsewhere.  A chip that is never busy and always reports the end of the transfer gets the frame.
\<close>

theorem ne2k_send_packet_bytes:
  assumes "card_ports s = (w, [])"
  shows "(ne2k_send_packet (recording B) data len s = Some s' \<longrightarrow> snd (card_ports s') = [] \<or>
      frame_len len \<le> length data \<and> (\<forall>(q, v) \<in> set (snd (card_ports s')). q = ne2k_iobase s + 0x10) \<and>
      bytes_at (ne2k_iobase s + 0x10) (snd (card_ports s')) = take (frame_len len) data @ (if odd (frame_len len) then [0] else [])) \<and>
    (chip_ready B (ne2k_iobase s) \<and> ne2k_present s \<and> frame_len len \<le> length data \<longrightarrow>
      runs (ne2k_send_packet (recording B) data len s)
        (\<lambda>s'. bytes_at (ne2k_iobase s + 0x10) (snd (card_ports s')) = take (frame_len len) data @ (if odd (frame_len len) then [0] else [])))"
  using ne2k_send_record [of B data len s s'] ne2k_send_defined [of B s len data] assms
  by (auto simp: bytes_at_map bytes_words_le min_def runs_iff)

text \<open>A card without the two variables of the driver that was found; its chip answers every read with \<open>0x42\<close>.\<close>

definition demo_cards :: "'w \<Rightarrow> 'w cards" where
  "demo_cards w = \<lparr>rtl8139_present = False, rtl_iobase = 0xC000, rtl_irq = 11, rx_buffer = 0x10000, rx_phys = 0x10000, rx_ptr = 0,
     tx_current = 0, tx_buffer = 0, tx_phys = 0, ne2k_iobase = 0xC100, ne2k_mac = [], ne2k_present = True, ne2k_irq = 10,
     card_mem = small_machine, card_net = demo_tcp, card_isrs = [], card_ports = w\<rparr>"

definition chip_42 :: "unit ide_bus" where
  "chip_42 = \<lparr>bus_in = \<lambda>p w. (0x42, w), bus_out = \<lambda>p v w. w, bus_inw = \<lambda>p w. (0, w), bus_outw = \<lambda>p v w. w,
     bus_inl = \<lambda>p w. (0, w), bus_outl = \<lambda>p v w. w\<rparr>"

theorem ne2k_send_packet_bytes_witness:
  "runs (ne2k_send_packet (recording chip_42) (replicate 61 5) 61 (demo_cards ((), [])))
     (\<lambda>s'. bytes_at 0xC110 (snd (card_ports s')) = replicate 61 5 @ [0])"
proof -
  have s: "card_ports (demo_cards ((), [])) = ((), [] :: (u16 \<times> u16) list)" "ne2k_iobase (demo_cards ((), [] :: (u16 \<times> u16) list)) = 0xC100"
    "ne2k_present (demo_cards ((), [] :: (u16 \<times> u16) list))"
    by (simp_all add: demo_cards_def)
  have "chip_ready chip_42 0xC100" by (simp add: chip_ready_def chip_42_def inportb_def)
  moreover have "frame_len 61 = 61" by (simp add: frame_len_def)
  ultimately show ?thesis
    using ne2k_send_packet_bytes [OF s(1), where B = chip_42 and data = "replicate 61 5" and len = 61] s by (simp del: replicate.simps)
qed

section \<open>The receive pointer of the RTL8139\<close>

text \<open>What the network stack and the drivers do with a frame leaves the receiver's own variables alone.\<close>

definition same_rx :: "'w cards \<Rightarrow> 'w cards \<Rightarrow> bool" where
  "same_rx s s' \<longleftrightarrow> rx_ptr s' = rx_ptr s \<and> rtl_iobase s' = rtl_iobase s"

lemma same_rx_refl [simp]: "same_rx s s"
  by (simp add: same_rx_def)

lemma same_rx_trans: "same_rx s s' \<Longrightarrow> same_rx s' s'' \<Longrightarrow> same_rx s s''"
  by (simp add: same_rx_def)

lemma same_rx_out [simp]:
  "same_rx s' (out8 B p v8 s) = same_rx s' s" "same_rx s' (out16 B p v16 s) = same_rx s' s"
  "same_rx s' (out32 B p v32 s) = same_rx s' s" "same_rx s' (put B r v8 s) = same_rx s' s"
  "same_rx s' (snd (get B r s)) = same_rx s' s" "same_rx s' (snd (at_ports f s)) = same_rx s' s"
  "same_rx s' (set_remote B off n s) = same_rx s' s"
  by (simp_all add: same_rx_def out8_def out16_def out32_def put_def get_def at_ports_def set_remote_def Let_def
      split: prod.split)

lemma same_rx_get: "get B r s = (v, s'') \<Longrightarrow> same_rx s' s \<Longrightarrow> same_rx s' s''"
  using same_rx_out(5) [of s' B r s] by simp

lemma same_rx_count_down [simp]: "same_rx s' (snd (count_down B r busy n s)) = same_rx s' s"
proof (induction n arbitrary: s)
  case (Suc n)
  obtain v t where g: "get B r s = (v, t)" by fastforce
  then have "same_rx s' t = same_rx s' s" using same_rx_out(5) [of s' B r s] by simp
  then show ?case using Suc.IH [of t] g by simp
qed simp

lemma same_rx_put_words: "put_words B data len i s = Some s'' \<Longrightarrow> same_rx s s''"
proof (induction B data len i s rule: put_words.induct)
  case (1 B data len i s)
  show ?case
  proof (cases "i + 1 < len")
    case True
    then obtain a b where ab: "rd data i = Some a" "rd data (i + 1) = Some b"
      and rec: "put_words B data len (i + 2) (out16 B (ne2k_iobase s + NE2K_DATA) (ucast a OR push_bit 8 (ucast b)) s) = Some s''"
      using "1.prems" by (subst (asm) put_words.simps) (auto simp: bind_eq_Some_conv simp del: rd_Some_iff)
    show ?thesis by (rule same_rx_trans [OF _ "1.IH" [OF True ab rec]]) simp
  next
    case False
    then show ?thesis using "1.prems" by (subst (asm) put_words.simps) (auto simp: bind_eq_Some_conv split: if_splits)
  qed
qed

lemma same_rx_wait: "wait_isr B m s = Some s' \<Longrightarrow> same_rx s s'"
  by (auto simp: wait_isr_def do_ports_def same_rx_def)

lemma same_rx_transmit [simp]: "same_rx s' (transmit B s) = same_rx s' s"
  by (simp add: transmit_def Let_def split_def)

lemma same_rx_prepare [simp]: "same_rx s' (prepare_transmit B len s) = same_rx s' s"
  by (simp add: prepare_transmit_def Let_def)

lemma same_rx_ne2k:
  assumes "ne2k_send_packet B data len s = Some s'"
  shows "same_rx s s'"
proof -
  obtain t s1 where c: "count_down B NE2K_CR (\<lambda>v. v AND 0x04 \<noteq> 0) 1000 (put B NE2K_CR (0x00 OR 0x02 OR 0x20) s) = (t, s1)"
    by fastforce
  then have "same_rx s s1" using same_rx_count_down [of s B NE2K_CR "\<lambda>v. v AND 0x04 \<noteq> 0" 1000] same_rx_out(4) [of s B] by (metis same_rx_refl snd_conv)
  moreover have "same_rx s1 s4" if "put_words B data l 0 (prepare_transmit B k s1) = Some s3" "wait_isr B 0x40 s3 = Some s4" for l k s3 s4
    by (rule same_rx_trans [OF _ same_rx_trans [OF same_rx_put_words [OF that(1)] same_rx_wait [OF that(2)]]]) simp
  ultimately show ?thesis
    using assms unfolding ne2k_send_packet_def Let_def c prod.case
    by (auto simp: bind_eq_Some_conv split: if_split_asm elim!: same_rx_trans)
qed

lemma same_rx_send_frame: "send_frame B f s = Some s' \<Longrightarrow> same_rx s s'"
  by (auto simp: send_frame_def rtl8139_send_packet_def bind_eq_Some_conv Let_def same_rx_def out32_def same_rx_ne2k [unfolded same_rx_def]
      split: if_splits)

lemma same_rx_send_frames: "send_frames B fs s = Some s' \<Longrightarrow> same_rx s s'"
proof (induction B fs s rule: send_frames.induct)
  case (2 B f fs s)
  then show ?case by (auto simp: bind_eq_Some_conv intro: same_rx_trans [OF same_rx_send_frame])
qed simp

lemma same_rx_receive_packet: "receive_packet B data len s = Some s' \<Longrightarrow> same_rx s s'"
  by (auto simp: receive_packet_def bind_eq_Some_conv same_rx_def dest!: same_rx_send_frames)

lemma and_3: "unat (x AND 3) = unat x mod 4" for x :: u16
proof -
  have "x AND 3 = take_bit 2 x" by (simp add: take_bit_eq_mask mask_eq_exp_minus_1)
  then show ?thesis by (simp add: unsigned_take_bit_eq take_bit_eq_mod)
qed

lemma and_3_eq: "x AND 3 = 0 \<longleftrightarrow> unat x mod 4 = 0" "x AND 3 = 1 \<longleftrightarrow> unat x mod 4 = 1" for x :: u16
  by (simp_all only: and_3 [symmetric] unat_eq_iff unat_0 unat_1)

lemma aligned_offset:
  fixes x :: u32
  shows "(ucast (x AND NOT 3) :: u16) AND 3 = 0" (is "?y AND 3 = 0") and "(ucast (x AND NOT 3) - 16384 :: u16) AND 3 = 0"
proof -
  have n3: "(3 :: u32) = mask 2" "(3 :: u16) = mask 2" by (simp_all add: mask_eq_exp_minus_1)
  show y: "?y AND 3 = 0"
    unfolding n3 by (rule bit_word_eqI) (auto simp: bit_and_iff bit_not_iff bit_unsigned_iff bit_mask_iff)
  have "unat (?y + 49152) mod 4 = (unat ?y + 49152) mod 4"
    by (simp add: unat_word_ariths mod_mod_cancel)
  also have "\<dots> = 0" using y unfolding and_3_eq by presburger
  moreover have "?y - 16384 = ?y + 49152" unfolding diff_conv_add_uminus by (rule arg_cong [where f = "(+) ?y"]) simp
  ultimately show "(?y - 16384) AND 3 = 0" by (simp only: and_3_eq)
qed

text \<open>The loop ends at the write pointer only if that is a multiple of four, since every packet ends at one.\<close>

lemma rx_loop_ends:
  assumes "rx_loop B cbr off s = Some r"
  shows "off AND 3 = 0 \<longrightarrow> same_rx s (snd r) \<and> (fst r \<noteq> None \<longrightarrow> cbr AND 3 = 0)"
proof (rule rx_loop.raw_induct [where P = "\<lambda>B cbr off s r. off AND 3 = 0 \<longrightarrow> same_rx s (snd r) \<and> (fst r \<noteq> None \<longrightarrow> cbr AND 3 = 0)", OF _ assms], goal_cases)
  case (1 f B cbr off s r)
  have go: "same_rx s (snd r) \<and> (fst r \<noteq> None \<longrightarrow> cbr AND 3 = 0)"
    if "receive_packet B d l s = Some t" "f B cbr k t = Some r" "k AND 3 = 0" for d l t k
    using 1(1) [OF that(2)] that(3) same_rx_receive_packet [OF that(1)] by (blast intro: same_rx_trans)
  show ?case
    using 1(2) go by (auto simp: Let_def bind_eq_Some_conv aligned_offset [simplified] split: if_splits)
qed

text \<open>The position computed from the registers \<open>0x3A\<close> and \<open>0x3C\<close> is never a multiple of four.\<close>

lemma smod_16384: "(k smod 16384) mod 4 = k mod 4" for k :: int
proof -
  have "k mod 4 = (k sdiv 16384 * 16384 + k smod 16384) mod 4" by (simp only: sdiv_mult_smod_eq)
  also have "k sdiv 16384 * 16384 + k smod 16384 = k smod 16384 + 4 * (k sdiv 16384 * 4096)" by simp
  also have "\<dots> mod 4 = k smod 16384 mod 4" by (rule mod_mult_self2)
  finally show ?thesis by (rule sym)
qed

lemma less_16_odd:
  fixes a b :: u16
  assumes "b AND 3 = 1"
  shows "less_16 (push_bit 8 a OR (b AND 0xFF)) AND 3 \<noteq> 0"
proof -
  define x where "x = push_bit 8 a OR (b AND 0xFF)"
  have n: "(3 :: u16) = mask 2" "(0xFF :: u16) = mask 8" by (simp_all add: mask_eq_exp_minus_1)
  have "x AND 3 = b AND 3"
    unfolding x_def n by (rule bit_word_eqI) (auto simp: bit_simps)
  then have "unat x mod 4 = 1" using assms by (simp only: and_3_eq)
  then have "uint x mod 4 = 1" by (simp only: uint_nat) presburger
  then have "((uint x - 16) smod 0x4000) mod 4 = 1"
    unfolding smod_16384 by presburger
  then have "uint (less_16 x) mod 4 = 1"
    by (simp add: less_16_def uint_word_of_int mod_mod_cancel)
  then have "unat (less_16 x) mod 4 = 1" by (simp only: uint_nat) presburger
  then show ?thesis by (simp add: and_3_eq x_def)
qed

text \<open>The receiver of the RTL8139 never moves on.  Its read position is a multiple of four, as every packet
  ends at one; the write position is computed from the high byte of the chip's buffer address and from the
  interrupt mask at \<open>0x3C\<close>, which the driver has set to 5.  So the two never meet, the loop over the packets can
  only be left by the early returns for a packet of an impossible length or of the card's own, and these leave
  the position where it was: the next interrupt starts with the same packet again.
\<close>

theorem rtl8139_rx_ptr_stuck:
  assumes "rtl8139_receive_packet B s = Some s'" and "rx_ptr s AND 3 = 0"
    and "\<And>w. fst (inportw B (rtl_iobase s + 0x3C) w) AND 3 = 1"
  shows "rx_ptr s' = rx_ptr s"
proof -
  obtain a s1 where a: "at_ports (inportw B (rtl_iobase s + 0x3A)) s = (a, s1)" by fastforce
  obtain b s2 where b: "at_ports (inportw B (rtl_iobase s + 0x3C)) s1 = (b, s2)" by fastforce
  define cbr where "cbr = less_16 (push_bit 8 a OR (b AND 0xFF))"
  have s2: "same_rx s s2" using same_rx_out(6) [of s _ s1] same_rx_out(6) [of s _ s] a b by (metis same_rx_refl snd_conv)
  have "b = fst (inportw B (rtl_iobase s + 0x3C) (card_ports s1))" using b by (auto simp: at_ports_def split: prod.splits)
  then have cbr: "cbr AND 3 \<noteq> 0" using assms(3) less_16_odd by (simp add: cbr_def)
  have ptr: "rx_ptr s2 = rx_ptr s" using s2 by (simp add: same_rx_def)
  have "cbr \<noteq> rx_ptr s2" using cbr assms(2) ptr by auto
  then obtain r where r: "rx_loop B cbr (rx_ptr s) s2 = Some r"
    and s': "(case r of (None, t) \<Rightarrow> s' = t | (Some off, t) \<Rightarrow> True)"
    using assms(1) ptr by (auto simp: rtl8139_receive_packet_def a b cbr_def [symmetric] bind_eq_Some_conv split: option.splits)
  have "fst r = None" "same_rx s2 (snd r)" using rx_loop_ends [OF r] assms(2) cbr by auto
  then show ?thesis using s' ptr by (cases r) (auto simp: same_rx_def)
qed

text \<open>
  The mask at \<open>0x3C\<close> is 5, the buffer address 1; the first packet has no header yet, so that its length
  is zero.
\<close>

definition chip_masked :: "unit ide_bus" where
  "chip_masked = chip_42\<lparr>bus_inw := \<lambda>p w. (if p = 0xC03C then 5 else 1, w)\<rparr>"

lemma less_16_code: "less_16 (push_bit 8 1 OR 5) = 0xF5"
  by code_simp

theorem rtl8139_rx_ptr_stuck_witness:
  "rtl8139_receive_packet chip_masked (demo_cards ()) = Some (demo_cards ()) \<and> rx_ptr (demo_cards ()) = 0"
proof -
  have port: "rtl_iobase (demo_cards ()) + 0x3C = 0xC03C" "rx_ptr (demo_cards ()) = 0" by (simp_all add: demo_cards_def)
  have "rx_loop chip_masked 0xF5 0 (demo_cards ()) = Some (None, demo_cards ())"
    by (subst rx_loop.simps)
      (simp add: demo_cards_def load32_def load8_def mmu_translate_def small_machine_def get32_def Let_def demo_tcp_def demo_net_def net.defs)
  then have r: "rtl8139_receive_packet chip_masked (demo_cards ()) = Some (demo_cards ())"
    using less_16_code
    by (simp add: rtl8139_receive_packet_def at_ports_def inportw_def chip_masked_def demo_cards_def Let_def)
  have "rx_ptr (demo_cards ()) = rx_ptr (demo_cards ())"
    by (rule rtl8139_rx_ptr_stuck [OF r]) (simp_all add: port inportw_def chip_masked_def)
  with r port show ?thesis by simp
qed

end
