(* ===== verification/Serial.thy ===== *)
theory Serial
  imports Devices Output
begin

text \<open>
  The serial port, \<open>src/drivers/serial.c\<close>: its registers, the wait for a character, and the output of
  text.  When the transmitter is busy \<open>serial_putchar\<close> prints a message, which goes through
  \<open>serial_putchar\<close> again.  The message has no conversions, so that the formatted output of the third-party
  \<open>vprintf_\<close> writes its characters as they are.
\<close>

abbreviation (input) COM1 :: u16 where "COM1 \<equiv> 0x3F8"
abbreviation (input) INT_ENABLE_REG :: u16 where "INT_ENABLE_REG \<equiv> 1"
abbreviation (input) FIFO_CTRL_REG :: u16 where "FIFO_CTRL_REG \<equiv> 2"
abbreviation (input) LINE_CTRL_REG :: u16 where "LINE_CTRL_REG \<equiv> 3"
abbreviation (input) MODEM_CTRL_REG :: u16 where "MODEM_CTRL_REG \<equiv> 4"
abbreviation (input) LINE_STATUS_REG :: u16 where "LINE_STATUS_REG \<equiv> 5"

definition serial_init :: "('w, 'x) bus_scheme \<Rightarrow> 'w \<Rightarrow> 'w" where
  "serial_init B w =
     (let w = outportb B (COM1 + INT_ENABLE_REG) 0x00 w;
          w = outportb B (COM1 + LINE_CTRL_REG) 0x80 w;
          w = outportb B (COM1 + 0) 0x03 w;
          w = outportb B (COM1 + 1) 0x00 w;
          w = outportb B (COM1 + LINE_CTRL_REG) 0x03 w;
          w = outportb B (COM1 + FIFO_CTRL_REG) 0xC7 w
      in outportb B (COM1 + MODEM_CTRL_REG) 0x0B w)"

definition serial_received :: "('w, 'x) bus_scheme \<Rightarrow> 'w \<Rightarrow> u8 \<times> 'w" where
  "serial_received B w = (let (v, w) = inportb B (COM1 + LINE_STATUS_REG) w in (v AND 1, w))"

partial_function (option) serial_read :: "('w, 'x) bus_scheme \<Rightarrow> 'w \<Rightarrow> (u8 \<times> 'w) option" where
  "serial_read B w =
     (let (v, w) = serial_received B w in if v = 0 then serial_read B w else Some (inportb B COM1 w))"

definition serial_is_transmit_empty :: "('w, 'x) bus_scheme \<Rightarrow> 'w \<Rightarrow> u8 \<times> 'w" where
  "serial_is_transmit_empty B w = (let (v, w) = inportb B (COM1 + LINE_STATUS_REG) w in (v AND 0x20, w))"

text \<open>\<open>Serial buffer overflow!\<close> and a line feed.\<close>

definition overflow_message :: "u8 list" where
  "overflow_message = [83, 101, 114, 105, 97, 108, 32, 98, 117, 102, 102, 101, 114, 32, 111, 118, 101, 114, 102, 108, 111, 119, 33, 10]"

text \<open>The characters of a text one after the other, each with the message when the transmitter is busy.\<close>

partial_function (option) serial_chars :: "('w, 'x) bus_scheme \<Rightarrow> u8 list \<Rightarrow> 'w \<Rightarrow> 'w option" where
  "serial_chars B cs w =
     (case cs of
        [] \<Rightarrow> Some w
      | c # cs \<Rightarrow>
          (let (v, w) = serial_is_transmit_empty B w
           in do { w \<leftarrow> (if v = 0 then serial_chars B overflow_message w else Some (outportb B COM1 c w));
                   serial_chars B cs w }))"

definition serial_putchar :: "('w, 'x) bus_scheme \<Rightarrow> u8 \<Rightarrow> 'w \<Rightarrow> 'w option" where
  "serial_putchar B c w = serial_chars B [c] w"

text \<open>\<open>_putchar\<close>, the output function of \<open>vprintf_\<close>, and a text without conversions.\<close>

definition putchar :: "('w, 'x) bus_scheme \<Rightarrow> u8 \<Rightarrow> 'w \<Rightarrow> 'w option" where
  "putchar B character w = serial_putchar B character w"

definition serial_text :: "('w, 'x) bus_scheme \<Rightarrow> u8 list \<Rightarrow> 'w \<Rightarrow> 'w option" where
  "serial_text B = put_all (putchar B)"

section \<open>Output to a line that is ready\<close>

text \<open>
  The transmitter is always ready again: while it is \<open>idle\<close> bit 5 of the line status is set and a written
  character is appended to what was \<open>sent\<close>.
\<close>

definition uart_ready :: "('w, 'x) bus_scheme \<Rightarrow> ('w \<Rightarrow> bool) \<Rightarrow> ('w \<Rightarrow> u8 list) \<Rightarrow> bool" where
  "uart_ready B idle sent \<longleftrightarrow> (\<forall>w. idle w \<longrightarrow>
     (case inportb B (COM1 + LINE_STATUS_REG) w of (v, w') \<Rightarrow> v AND 0x20 \<noteq> 0 \<and> idle w' \<and> sent w' = sent w) \<and>
     (\<forall>c. idle (outportb B COM1 c w) \<and> sent (outportb B COM1 c w) = sent w @ [c]))"

interpretation serial_output: text_output "putchar B" "\<lambda>w. uart_ready B idle sent \<and> idle w" "\<lambda>_ _. True" sent "\<lambda>c s. s @ [c]"
  for B idle sent
proof
  fix w c
  assume w: "uart_ready B idle sent \<and> idle w"
  then obtain v w' where r: "inportb B (COM1 + LINE_STATUS_REG) w = (v, w')" "v AND 0x20 \<noteq> 0" "idle w'" "sent w' = sent w"
    unfolding uart_ready_def by (cases "inportb B (COM1 + LINE_STATUS_REG) w") auto
  moreover have "idle (outportb B COM1 c w') \<and> sent (outportb B COM1 c w') = sent w' @ [c]"
    using w r(3) unfolding uart_ready_def by blast
  moreover have "putchar B c w = Some (outportb B COM1 c w')"
    using r(1,2) by (simp add: putchar_def serial_putchar_def serial_chars.simps [of B "[c]"] serial_chars.simps [of B "[]"] serial_is_transmit_empty_def)
  ultimately show "runs (putchar B c w) (\<lambda>w'. (uart_ready B idle sent \<and> idle w') \<and> True \<and> sent w' = sent w @ [c])"
    using w by simp
qed simp_all

lemma fold_append: "fold (\<lambda>c s. s @ [c]) cs s = s @ cs"
  by (induction cs arbitrary: s) auto

section \<open>A line that stays busy\<close>

text \<open>\<open>Q w\<close>: the line is busy in \<open>w\<close> and after every look at the status.\<close>

definition uart_stuck :: "('w, 'x) bus_scheme \<Rightarrow> ('w \<Rightarrow> bool) \<Rightarrow> bool" where
  "uart_stuck B busy \<longleftrightarrow> (\<forall>w. busy w \<longrightarrow> (case inportb B (COM1 + LINE_STATUS_REG) w of (v, w') \<Rightarrow> v AND 0x20 = 0 \<and> busy w'))"

lemma serial_chars_returns:
  assumes "serial_chars B cs w = Some w'"
  shows "uart_stuck B busy \<longrightarrow> busy w \<longrightarrow> cs = []"
proof (rule serial_chars.raw_induct [where P = "\<lambda>B cs w y. uart_stuck B busy \<longrightarrow> busy w \<longrightarrow> cs = []", OF _ assms], goal_cases)
  case (1 f B cs w y)
  show ?case
  proof (intro impI)
    assume s: "uart_stuck B busy" "busy w"
    obtain v w1 where r: "inportb B (COM1 + LINE_STATUS_REG) w = (v, w1)" by (cases "inportb B (COM1 + LINE_STATUS_REG) w")
    then have "v AND 0x20 = 0" "busy w1" using s unfolding uart_stuck_def by auto
    moreover have "overflow_message \<noteq> []" by (simp add: overflow_message_def)
    ultimately show "cs = []"
      using 1 s r by (auto simp: serial_is_transmit_empty_def bind_eq_Some_conv split: list.splits)
  qed
qed

section \<open>Properties\<close>

text \<open>A text written to the serial port is sent, character by character and in order, when the transmitter is
  ready whenever it is asked; while it stays busy, the first character makes \<open>serial_putchar\<close> print its
  message, whose first character finds the transmitter busy too, and so on without end: no text that is not
  empty is ever written.
\<close>

theorem serial_text_sent_or_stuck:
  "(uart_ready B idle sent \<and> idle w \<longrightarrow> runs (serial_text B cs w) (\<lambda>w'. idle w' \<and> sent w' = sent w @ cs)) \<and>
   (uart_stuck B busy \<and> busy w \<and> cs \<noteq> [] \<longrightarrow> serial_text B cs w = None)"
proof (intro conjI impI)
  assume "uart_ready B idle sent \<and> idle w"
  then show "runs (serial_text B cs w) (\<lambda>w'. idle w' \<and> sent w' = sent w @ cs)"
    unfolding serial_text_def
    by (rule runs_mono [OF serial_output.put_all_law [of B idle sent w cs]]) (simp add: fold_append)
next
  assume s: "uart_stuck B busy \<and> busy w \<and> cs \<noteq> []"
  have "serial_chars B [c] w = None" for c
    using serial_chars_returns [of B "[c]" w _ busy] s by (cases "serial_chars B [c] w") auto
  then show "serial_text B cs w = None"
    using s by (cases cs) (simp_all add: serial_text_def putchar_def serial_putchar_def)
qed

text \<open>The state of the port is what was sent; the second port is never ready.\<close>

definition ready_port :: "u8 list bus" where
  "ready_port = \<lparr>bus_in = \<lambda>p w. (0x20, w), bus_out = \<lambda>p v w. if p = 0x3F8 then w @ [v] else w\<rparr>"

definition busy_port :: "u8 list bus" where
  "busy_port = \<lparr>bus_in = \<lambda>p w. (0, w), bus_out = \<lambda>p v w. w\<rparr>"

theorem serial_text_sent_or_stuck_witness:
  "runs (serial_text ready_port [72, 105] [33]) (\<lambda>w. w = [33, 72, 105]) \<and> serial_text busy_port [72, 105] [] = None"
proof -
  have "uart_ready ready_port (\<lambda>_. True) (\<lambda>w. w)" "uart_stuck busy_port (\<lambda>_. True)"
    by (simp_all add: uart_ready_def uart_stuck_def inportb_def outportb_def ready_port_def busy_port_def)
  then show ?thesis
    using serial_text_sent_or_stuck [of ready_port "\<lambda>_. True" "\<lambda>w. w" "[33]" "[72, 105]"]
      serial_text_sent_or_stuck [of busy_port "\<lambda>_. False" "\<lambda>w. w" "[]" "[72, 105]" "\<lambda>_. True"] by simp
qed

end
