(* ===== verification/Cpu.thy ===== *)
theory Cpu
  imports Devices
begin

text \<open>
  The tables for the processor: segment descriptors (\<open>src/cpu/gdt.c\<close>), interrupt gates (\<open>src/cpu/idt.c\<close>),
  the task state segment (\<open>src/cpu/tss.c\<close>), the control registers of the floating-point unit
  (\<open>src/cpu/fpu.c\<close>) and the end of an exception (\<open>src/cpu/isr.c\<close>).  The addresses of the tables and of the assembler
  stubs are parameters, and so are the feature bits that \<open>cpuid\<close> answers.  Log lines are left out.
\<close>

section \<open>State\<close>

record gdt_entry =
  gdt_segment_limit :: u16
  gdt_base_low :: u16
  gdt_base_middle :: u8
  gdt_access :: u8
  gdt_granularity :: u8
  gdt_base_high :: u8

record idt_entry =
  idt_base_low :: u16
  idt_segment_selector :: u16
  idt_zero :: u8
  idt_type :: u8
  idt_base_high :: u16

record tss =
  prev_tss :: u32
  esp0 :: u32
  ss0 :: u32
  esp1 :: u32
  ss1 :: u32
  esp2 :: u32
  ss2 :: u32
  tss_cr3 :: u32
  tss_eip :: u32
  tss_eflags :: u32
  tss_general :: "u32 list"
  tss_segments :: "u32 list"
  tss_ldt :: u32
  tss_trap :: u16
  tss_iomap_base :: u16

text \<open>
  The tables and the registers of the processor that point to them, each with limit and base; \<open>cr0\<close> and \<open>cr4\<close> with
  the control word of the floating-point unit.
\<close>

record cpu =
  g_gdt :: "gdt_entry list"
  g_idt :: "idt_entry list"
  cpu_tss :: tss
  gdtr :: "u16 \<times> u32"
  idtr :: "u16 \<times> u32"
  task_register :: u16
  cr0 :: u32
  cr4 :: u32
  fpu_control :: u16

section \<open>Segments\<close>

definition gdt_set_entry :: "nat \<Rightarrow> u32 \<Rightarrow> u32 \<Rightarrow> u8 \<Rightarrow> u8 \<Rightarrow> gdt_entry list \<Rightarrow> gdt_entry list option" where
  "gdt_set_entry index base limit access gran g =
     wr g index \<lparr>
       gdt_segment_limit = ucast (limit AND 0xFFFF),
       gdt_base_low = ucast (base AND 0xFFFF),
       gdt_base_middle = ucast (drop_bit 16 base AND 0xFF),
       gdt_access = access,
       gdt_granularity = ucast (drop_bit 16 limit AND 0x0F) OR (gran AND 0xF0),
       gdt_base_high = ucast (drop_bit 24 base AND 0xFF)\<rparr>"

text \<open>The pointer is set up before the entries and loaded after them.\<close>

definition gdt_init :: "u32 \<Rightarrow> cpu \<Rightarrow> cpu option" where
  "gdt_init gdt_addr c =
     do { g \<leftarrow> gdt_set_entry 0 0 0 0 0 (g_gdt c);
          g \<leftarrow> gdt_set_entry 1 0 0xFFFFFFFF 0x9A 0xCF g;
          g \<leftarrow> gdt_set_entry 2 0 0xFFFFFFFF 0x92 0xCF g;
          g \<leftarrow> gdt_set_entry 3 0 0xFFFFFFFF 0xFA 0xCF g;
          g \<leftarrow> gdt_set_entry 4 0 0xFFFFFFFF 0xF2 0xCF g;
          Some (c\<lparr>g_gdt := g, gdtr := (8 * 8 - 1, gdt_addr)\<rparr>) }"

section \<open>Interrupt gates\<close>

definition idt_set_entry :: "nat \<Rightarrow> u32 \<Rightarrow> u16 \<Rightarrow> u8 \<Rightarrow> idt_entry list \<Rightarrow> idt_entry list option" where
  "idt_set_entry index base seg_sel flags i =
     wr i index \<lparr>
       idt_base_low = ucast (base AND 0xFFFF),
       idt_segment_selector = seg_sel,
       idt_zero = 0,
       idt_type = flags,
       idt_base_high = ucast (drop_bit 16 base AND 0xFFFF)\<rparr>"

text \<open>\<open>stub n\<close> is the address of the stub of vector \<open>n\<close>.\<close>

fun set_gates :: "(nat \<Rightarrow> u32) \<Rightarrow> nat list \<Rightarrow> idt_entry list \<Rightarrow> idt_entry list option" where
  "set_gates stub [] i = Some i"
| "set_gates stub (n # ns) i = do { i \<leftarrow> idt_set_entry n (stub n) 0x08 0x8E i; set_gates stub ns i }"

definition idt_init :: "'w bus \<Rightarrow> (nat \<Rightarrow> u32) \<Rightarrow> u32 \<Rightarrow> cpu \<times> 'w \<Rightarrow> (cpu \<times> 'w) option" where
  "idt_init B stub idt_addr cw =
     (let (c, w) = cw; w = pic8259_init B w
      in do { i \<leftarrow> set_gates stub ([0..<48] @ [128]) (g_idt c);
              Some (c\<lparr>g_idt := i, idtr := (256 * 8 - 1, idt_addr)\<rparr>, w) })"

section \<open>Task state, floating point, exceptions\<close>

definition tss_zero :: tss where
  "tss_zero = \<lparr>prev_tss = 0, esp0 = 0, ss0 = 0, esp1 = 0, ss1 = 0, esp2 = 0, ss2 = 0, tss_cr3 = 0, tss_eip = 0,
     tss_eflags = 0, tss_general = replicate 8 0, tss_segments = replicate 6 0, tss_ldt = 0, tss_trap = 0, tss_iomap_base = 0\<rparr>"

definition tss_init :: "u32 \<Rightarrow> cpu \<Rightarrow> cpu option" where
  "tss_init tss_addr c =
     do { let t = tss_zero\<lparr>ss0 := 0x10, esp0 := 0xC0000000 + 0x9000\<rparr>;
          g \<leftarrow> gdt_set_entry 5 tss_addr (104 - 1) 0x89 0x00 (g_gdt c);
          Some (c\<lparr>cpu_tss := t, g_gdt := g, task_register := 0x28\<rparr>) }"

definition tss_set_stack :: "u32 \<Rightarrow> cpu \<Rightarrow> cpu" where
  "tss_set_stack stack c = c\<lparr>cpu_tss := (cpu_tss c)\<lparr>esp0 := stack\<rparr>\<rparr>"

definition fpu_set_control_word :: "u16 \<Rightarrow> cpu \<Rightarrow> cpu" where
  "fpu_set_control_word cw c = c\<lparr>fpu_control := cw\<rparr>"

text \<open>\<open>edx\<close> are the feature bits; \<open>fninit\<close> loads the control word that is then set once more.\<close>

definition fpu_enable :: "u32 \<Rightarrow> cpu \<Rightarrow> cpu" where
  "fpu_enable edx c =
     (if edx AND 1 = 0 then c
      else let c = c\<lparr>cr0 := (cr0 c AND NOT (push_bit 2 1)) OR push_bit 1 1\<rparr>;
               c = (if edx AND push_bit 25 1 \<noteq> 0 then c\<lparr>cr4 := cr4 c OR push_bit 9 1\<rparr> else c)
           in fpu_set_control_word 0x037F (c\<lparr>fpu_control := 0x037F\<rparr>))"

text \<open>
  An exception below 32 is logged and the processor halted for ever; other vectors return.  The table of the
  messages has 31 entries for 32 places, the last one is \<open>NULL\<close>.
\<close>

definition isr_exception_handler :: "u32 \<Rightarrow> 's \<Rightarrow> 's option" where
  "isr_exception_handler int_no s = (if int_no < 32 then None else Some s)"

section \<open>What the processor reads\<close>

text \<open>The fields of a descriptor as the processor puts them together.\<close>

definition gdt_base :: "gdt_entry \<Rightarrow> u32" where
  "gdt_base e = ucast (gdt_base_low e) OR push_bit 16 (ucast (gdt_base_middle e)) OR push_bit 24 (ucast (gdt_base_high e))"

definition gdt_limit :: "gdt_entry \<Rightarrow> u32" where
  "gdt_limit e = ucast (gdt_segment_limit e) OR push_bit 16 (ucast (gdt_granularity e AND 0x0F))"

definition idt_offset :: "idt_entry \<Rightarrow> u32" where
  "idt_offset e = ucast (idt_base_low e) OR push_bit 16 (ucast (idt_base_high e))"

lemma low_bytes:
  fixes x :: u32
  shows "ucast (x AND 0xFFFF) = (ucast x :: u16)" "ucast (x AND 0xFF) = (ucast x :: u8)"
proof -
  have m: "(0xFFFF :: u32) = mask 16" "(0xFF :: u32) = mask 8" by (simp_all add: mask_eq_exp_minus_1)
  show "ucast (x AND 0xFFFF) = (ucast x :: u16)" "ucast (x AND 0xFF) = (ucast x :: u8)"
    unfolding m by (rule bit_word_eqI, auto simp: bit_unsigned_iff bit_and_iff bit_mask_iff)+
qed

lemma reassemble16: "ucast (ucast x :: u16) OR push_bit 16 (ucast (ucast (drop_bit 16 x) :: u16)) = x" for x :: u32
  by (rule bit_word_eqI) (auto simp: bit_or_iff bit_push_bit_iff bit_unsigned_iff bit_drop_bit_eq)

lemma reassemble8:
  "ucast (ucast x :: u16) OR push_bit 16 (ucast (ucast (drop_bit 16 x) :: u8)) OR push_bit 24 (ucast (ucast (drop_bit 24 x) :: u8)) = x"
  for x :: u32
  by (rule bit_word_eqI, rename_tac n, case_tac "n < 24") (auto simp: bit_or_iff bit_push_bit_iff bit_unsigned_iff bit_drop_bit_eq)

lemma limit_bits:
  fixes x :: u32 and gran :: u8
  shows "ucast (ucast x :: u16) OR push_bit 16 (ucast ((ucast (drop_bit 16 x AND 0x0F) OR (gran AND 0xF0)) AND (0x0F :: u8))) = x AND 0xFFFFF"
    "(ucast (drop_bit 16 x AND 0x0F) OR (gran AND 0xF0)) AND 0xF0 = gran AND 0xF0"
proof -
  have F: "(0x0F :: u8) = mask 4" "(0x0F :: u32) = mask 4" "(0xFFFFF :: u32) = mask 20" "(0xF0 :: u8) = push_bit 4 (mask 4)"
    by (simp_all add: mask_eq_exp_minus_1)
  show "ucast (ucast x :: u16) OR push_bit 16 (ucast ((ucast (drop_bit 16 x AND 0x0F) OR (gran AND 0xF0)) AND (0x0F :: u8))) = x AND 0xFFFFF"
    unfolding F
    by (rule bit_word_eqI) (auto simp: bit_or_iff bit_and_iff bit_push_bit_iff bit_unsigned_iff bit_drop_bit_eq bit_mask_iff)
  show "(ucast (drop_bit 16 x AND 0x0F) OR (gran AND 0xF0)) AND 0xF0 = gran AND 0xF0"
    unfolding F
    by (rule bit_word_eqI) (auto simp: bit_or_iff bit_and_iff bit_push_bit_iff bit_unsigned_iff bit_drop_bit_eq bit_mask_iff)
qed

lemma set_gates_ok:
  assumes "\<forall>n \<in> set ns. n < length i" "distinct ns"
  shows "runs (set_gates stub ns i) (\<lambda>i'. length i' = length i \<and> (\<forall>n < length i.
    if n \<in> set ns then idt_offset (i' ! n) = stub n \<and> idt_segment_selector (i' ! n) = 8 \<and> idt_zero (i' ! n) = 0 \<and> idt_type (i' ! n) = 0x8E
    else i' ! n = i ! n))"
  using assms
proof (induction ns arbitrary: i)
  case (Cons n ns)
  define e where "e = \<lparr>idt_base_low = ucast (stub n AND 0xFFFF), idt_segment_selector = 8, idt_zero = 0, idt_type = 0x8E,
       idt_base_high = ucast (drop_bit 16 (stub n) AND 0xFFFF)\<rparr>"
  have off: "idt_offset e = stub n" by (simp add: e_def idt_offset_def low_bytes reassemble16)
  have n: "idt_set_entry n (stub n) 0x08 0x8E i = Some (i[n := e])" using Cons.prems by (simp add: idt_set_entry_def wr_def e_def)
  have "runs (set_gates stub ns (i[n := e])) (\<lambda>i'. length i' = length i \<and> (\<forall>k < length i.
    if k \<in> set (n # ns) then idt_offset (i' ! k) = stub k \<and> idt_segment_selector (i' ! k) = 8 \<and> idt_zero (i' ! k) = 0 \<and> idt_type (i' ! k) = 0x8E
    else i' ! k = i ! k))"
  proof (rule runs_mono [OF Cons.IH [of "i[n := e]"]])
    fix i'
    assume a: "length i' = length (i[n := e]) \<and> (\<forall>k < length (i[n := e]).
      if k \<in> set ns then idt_offset (i' ! k) = stub k \<and> idt_segment_selector (i' ! k) = 8 \<and> idt_zero (i' ! k) = 0 \<and> idt_type (i' ! k) = 0x8E
      else i' ! k = i[n := e] ! k)"
    have "i' ! n = e" using a Cons.prems by auto
    then show "length i' = length i \<and> (\<forall>k < length i.
      if k \<in> set (n # ns) then idt_offset (i' ! k) = stub k \<and> idt_segment_selector (i' ! k) = 8 \<and> idt_zero (i' ! k) = 0 \<and> idt_type (i' ! k) = 0x8E
      else i' ! k = i ! k)"
      using a off by (auto simp: e_def)
  qed (use Cons.prems in auto)
  then show ?case using n by simp
qed simp

section \<open>Properties\<close>

text \<open>The processor reads back what \<open>gdt_set_entry\<close> wrote: base, the low 20 bits of the limit, access byte
  and flags; the other descriptors are unchanged, and an index outside the table of eight is undefined.
\<close>

theorem gdt_set_entry_read_back:
  "case gdt_set_entry i base limit access gran g of
     None \<Rightarrow> length g \<le> i
   | Some g' \<Rightarrow> i < length g \<and> length g' = length g \<and> gdt_base (g' ! i) = base \<and> gdt_limit (g' ! i) = limit AND 0xFFFFF \<and>
       gdt_access (g' ! i) = access \<and> gdt_granularity (g' ! i) AND 0xF0 = gran AND 0xF0 \<and> (\<forall>j. j \<noteq> i \<longrightarrow> g' ! j = g ! j)"
  by (simp add: gdt_set_entry_def wr_def gdt_base_def gdt_limit_def low_bytes reassemble8 limit_bits)

text \<open>After \<open>idt_init\<close> the vectors 0 to 47 and 128 are present 32-bit interrupt gates of ring 0 into the kernel's
  code segment at the addresses of their stubs, all other gates are as before, and the register of the
  processor covers the whole table.
\<close>

theorem idt_init_gates:
  assumes "length (g_idt c) = 256"
  shows "runs (idt_init B stub idt_addr (c, w)) (\<lambda>(c', w'). idtr c' = (2047, idt_addr) \<and> length (g_idt c') = 256 \<and> (\<forall>n < 256.
    if n < 48 \<or> n = 128
    then idt_offset (g_idt c' ! n) = stub n \<and> idt_segment_selector (g_idt c' ! n) = 8 \<and> idt_zero (g_idt c' ! n) = 0 \<and>
      idt_type (g_idt c' ! n) = 0x8E
    else g_idt c' ! n = g_idt c ! n))"
proof -
  have "\<forall>n \<in> set ([0..<48] @ [128]). n < length (g_idt c)" "distinct ([0..<48] @ [128 :: nat])" using assms by auto
  note gates = set_gates_ok [OF this, of stub]
  have "n \<in> set ([0..<48] @ [128]) \<longleftrightarrow> n < 48 \<or> n = 128" for n :: nat by auto
  then show ?thesis
    unfolding idt_init_def Let_def prod.case runs_simps
    by (intro runs_mono [OF gates]) (simp only: assms prod.case, simp)
qed

theorem idt_init_gates_witness:
  "\<exists>c'. idt_init \<lparr>bus_in = \<lambda>p w. (0, w), bus_out = \<lambda>p v w. w\<rparr> (\<lambda>n. 0xC0100000 + of_nat n) 0xC0200000
      (\<lparr>g_gdt = [], g_idt = replicate 256 \<lparr>idt_base_low = 0, idt_segment_selector = 0, idt_zero = 0, idt_type = 0, idt_base_high = 0\<rparr>,
        cpu_tss = tss_zero, gdtr = (0, 0), idtr = (0, 0), task_register = 0, cr0 = 0, cr4 = 0, fpu_control = 0\<rparr>, ()) = Some (c', ()) \<and>
    idt_offset (g_idt c' ! 33) = 0xC0100021"
proof -
  let ?c = "\<lparr>g_gdt = [], g_idt = replicate 256 \<lparr>idt_base_low = 0, idt_segment_selector = 0, idt_zero = 0, idt_type = 0, idt_base_high = 0\<rparr>,
        cpu_tss = tss_zero, gdtr = (0, 0), idtr = (0, 0), task_register = 0, cr0 = 0, cr4 = 0, fpu_control = 0\<rparr>"
  have "length (g_idt ?c) = 256" by simp
  from idt_init_gates [OF this, where B = "\<lparr>bus_in = \<lambda>p w. (0, w), bus_out = \<lambda>p v w. w\<rparr>" and
      stub = "\<lambda>n. 0xC0100000 + of_nat n" and idt_addr = "0xC0200000" and w = "()"]
  show ?thesis by (auto simp: runs_iff dest: spec [of _ 33])
qed

end
