(* ===== verification/Snake.thy ===== *)
theory Snake
  imports Console
begin

text \<open>
  The game of \<open>src/shell/snake.c\<close>: the snake on its board, the drawing, and the loop of the game over the
  console, the screen and the timer.  An \<open>int\<close> is an integer whose arithmetic is checked where it could
  overflow; a read or write outside the array of the snake's cells is \<open>None\<close>.  In each turn of the loop the
  keyboard holds a key or none; the list of what it holds is given, and a game that is not over when the list
  ends goes on (\<open>None\<close>).
\<close>

section \<open>State\<close>

type_synonym point = "int \<times> int"

record snake =
  body :: "point list"
  snake_length :: int
  direction :: point
  food :: point
  game_over :: bool
  score :: int

abbreviation (input) SNAKE_MAX_LENGTH :: nat where "SNAKE_MAX_LENGTH \<equiv> 100"
abbreviation (input) CELL_SIZE :: u32 where "CELL_SIZE \<equiv> 16"
abbreviation (input) BORDER_SIZE :: int where "BORDER_SIZE \<equiv> 2"

text \<open>The size of the board in cells, computed without sign.\<close>

definition BOARD_WIDTH :: "screen \<Rightarrow> u32" where
  "BOARD_WIDTH scr = g_width scr div CELL_SIZE - 4"

definition BOARD_HEIGHT :: "screen \<Rightarrow> u32" where
  "BOARD_HEIGHT scr = g_height scr div CELL_SIZE - 4"

text \<open>\<open>rand() % n\<close>, stored in an \<open>int\<close>.\<close>

definition rand_below :: "u32 \<Rightarrow> ('f, 'u) timer \<Rightarrow> (int \<times> ('f, 'u) timer) option" where
  "rand_below n t = (if n = 0 then None else let (r, t) = rand t in Some (sint (word_of_int r mod n), t))"

definition new_food :: "screen \<Rightarrow> snake \<times> ('f, 'u) timer \<Rightarrow> (snake \<times> ('f, 'u) timer) option" where
  "new_food scr st =
     do { (x, t) \<leftarrow> rand_below (BOARD_WIDTH scr) (snd st);
          (y, t) \<leftarrow> rand_below (BOARD_HEIGHT scr) t;
          Some ((fst st)\<lparr>food := (x, y)\<rparr>, t) }"

section \<open>The snake\<close>

definition snake_init :: "screen \<Rightarrow> snake \<times> ('f, 'u) timer \<Rightarrow> (snake \<times> ('f, 'u) timer) option" where
  "snake_init scr st =
     do { b \<leftarrow> wr (body (fst st)) 0 (sint (BOARD_WIDTH scr div 2), sint (BOARD_HEIGHT scr div 2));
          (s, t) \<leftarrow> new_food scr ((fst st)\<lparr>snake_length := 1, body := b, direction := (1, 0)\<rparr>, snd st);
          Some (s\<lparr>game_over := False, score := 0\<rparr>, t) }"

text \<open>The comparison with the cells from \<open>i\<close> on, \<open>n\<close> of them.\<close>

primrec hits_body :: "nat \<Rightarrow> nat \<Rightarrow> point \<Rightarrow> point list \<Rightarrow> bool option" where
  "hits_body i 0 head b = Some False"
| "hits_body i (Suc n) head b = do { p \<leftarrow> rd b i; if p = head then Some True else hits_body (Suc i) n head b }"

definition snake_collision :: "screen \<Rightarrow> point \<Rightarrow> snake \<Rightarrow> bool option" where
  "snake_collision scr head s =
     (if fst head < 0 \<or> word_of_int (fst head) \<ge> BOARD_WIDTH scr \<or> snd head < 0 \<or> word_of_int (snd head) \<ge> BOARD_HEIGHT scr
      then Some True
      else hits_body 1 (nat (snake_length s - 1)) head (body s))"

text \<open>The loop that moves the cells up by one, from index \<open>i\<close> down.\<close>

primrec move_body :: "nat \<Rightarrow> point list \<Rightarrow> point list option" where
  "move_body 0 b = Some b"
| "move_body (Suc i) b = do { p \<leftarrow> rd b i; b \<leftarrow> wr b (Suc i) p; move_body i b }"

definition snake_update :: "screen \<Rightarrow> snake \<times> ('f, 'u) timer \<Rightarrow> (snake \<times> ('f, 'u) timer) option" where
  "snake_update scr st =
     (let (s, t) = st
      in if game_over s then Some (s, t)
         else do {
           p \<leftarrow> rd (body s) 0;
           x \<leftarrow> chk_int (fst p + fst (direction s));
           y \<leftarrow> chk_int (snd p + snd (direction s));
           c \<leftarrow> snake_collision scr (x, y) s;
           if c then Some (s\<lparr>game_over := True\<rparr>, t)
           else do {
             b \<leftarrow> move_body (nat (snake_length s)) (body s);
             b \<leftarrow> wr b 0 (x, y);
             let s = s\<lparr>body := b\<rparr>;
             if (x, y) = food s
             then do {
               n \<leftarrow> chk_int (snake_length s + 1);
               k \<leftarrow> chk_int (score s + 1);
               new_food scr (s\<lparr>snake_length := n, score := k\<rparr>, t) }
             else Some (s, t) } })"

definition snake_handle_input :: "u8 \<Rightarrow> snake \<Rightarrow> snake" where
  "snake_handle_input key s =
     (if key = 119 then (if snd (direction s) = 0 then s\<lparr>direction := (0, -1)\<rparr> else s)
      else if key = 115 then (if snd (direction s) = 0 then s\<lparr>direction := (0, 1)\<rparr> else s)
      else if key = 97 then (if fst (direction s) = 0 then s\<lparr>direction := (-1, 0)\<rparr> else s)
      else if key = 100 then (if fst (direction s) = 0 then s\<lparr>direction := (1, 0)\<rparr> else s)
      else s)"

section \<open>Drawing\<close>

text \<open>\<open>org\<close> are \<open>g_start_x\<close> and \<open>g_start_y\<close>; a loop to a bound that is not positive does nothing.\<close>

primrec draw_column :: "int \<Rightarrow> int \<Rightarrow> u32 \<Rightarrow> int \<Rightarrow> int \<Rightarrow> nat \<Rightarrow> screen \<Rightarrow> screen option" where
  "draw_column x y color i j 0 scr = Some scr"
| "draw_column x y color i j (Suc n) scr =
     do { px \<leftarrow> chk_int (x + i); py \<leftarrow> chk_int (y + j);
          scr \<leftarrow> vbe_putpixel (word_of_int px) (word_of_int py) color scr;
          draw_column x y color i (j + 1) n scr }"

primrec draw_columns :: "int \<Rightarrow> int \<Rightarrow> u32 \<Rightarrow> int \<Rightarrow> nat \<Rightarrow> nat \<Rightarrow> screen \<Rightarrow> screen option" where
  "draw_columns x y color i h 0 scr = Some scr"
| "draw_columns x y color i h (Suc n) scr = do { scr \<leftarrow> draw_column x y color i 0 h scr; draw_columns x y color (i + 1) h n scr }"

definition draw_rect :: "point \<Rightarrow> int \<Rightarrow> int \<Rightarrow> int \<Rightarrow> int \<Rightarrow> u32 \<Rightarrow> screen \<Rightarrow> screen option" where
  "draw_rect org x y w h color scr =
     do { x \<leftarrow> chk_int (x + fst org); y \<leftarrow> chk_int (y + snd org); draw_columns x y color 0 (nat h) (nat w) scr }"

definition draw_border :: "point \<Rightarrow> screen \<Rightarrow> screen option" where
  "draw_border org scr =
     do { let width = sint (BOARD_WIDTH scr * CELL_SIZE + 4);
          let height = sint (BOARD_HEIGHT scr * CELL_SIZE + 4);
          scr \<leftarrow> draw_rect org 0 0 width BORDER_SIZE 0x00FFFFFF scr;
          b \<leftarrow> chk_int (height - BORDER_SIZE);
          scr \<leftarrow> draw_rect org 0 b width BORDER_SIZE 0x00FFFFFF scr;
          scr \<leftarrow> draw_rect org 0 0 BORDER_SIZE height 0x00FFFFFF scr;
          r \<leftarrow> chk_int (width - BORDER_SIZE);
          draw_rect org r 0 BORDER_SIZE height 0x00FFFFFF scr }"

definition draw_cell :: "point \<Rightarrow> point \<Rightarrow> u32 \<Rightarrow> screen \<Rightarrow> screen option" where
  "draw_cell org p color scr =
     do { x16 \<leftarrow> chk_int (fst p * 16); y16 \<leftarrow> chk_int (snd p * 16);
          x \<leftarrow> chk_int (BORDER_SIZE + x16); y \<leftarrow> chk_int (BORDER_SIZE + y16);
          draw_rect org x y 15 15 color scr }"

primrec draw_snake :: "point \<Rightarrow> point list \<Rightarrow> nat \<Rightarrow> nat \<Rightarrow> screen \<Rightarrow> screen option" where
  "draw_snake org b i 0 scr = Some scr"
| "draw_snake org b i (Suc n) scr = do { p \<leftarrow> rd b i; scr \<leftarrow> draw_cell org p 0x00FF00 scr; draw_snake org b (Suc i) n scr }"

definition draw_game :: "point \<Rightarrow> snake \<Rightarrow> screen \<Rightarrow> screen option" where
  "draw_game org s scr =
     do { scr \<leftarrow> draw_rect org BORDER_SIZE BORDER_SIZE (sint (BOARD_WIDTH scr * CELL_SIZE)) (sint (BOARD_HEIGHT scr * CELL_SIZE)) 0 scr;
          scr \<leftarrow> draw_snake org (body s) 0 (nat (snake_length s)) scr;
          draw_cell org (food s) 0xFF0000 scr }"

text \<open>The origin of the board; the difference is computed without sign.\<close>

definition board_origin :: "screen \<Rightarrow> point" where
  "board_origin scr =
     (sint ((g_width scr - (BOARD_WIDTH scr * CELL_SIZE + 4)) div 2), sint ((g_height scr - (BOARD_HEIGHT scr * CELL_SIZE + 4)) div 2))"

definition init_graphics :: "'w console \<Rightarrow> (point \<times> 'w console) option" where
  "init_graphics c = do { let org = board_origin (con_screen c); c \<leftarrow> console_clear c; Some (org, c) }"

section \<open>The game\<close>

text \<open>What changes in the loop: the snake, the console with the screen, and the timer with the world of its interrupts.\<close>

type_synonym ('f, 'u, 'v, 'w) snake_state = "snake \<times> ('f, 'u) timer \<times> 'v \<times> 'w console"

definition draw_on :: "(screen \<Rightarrow> screen option) \<Rightarrow> 'w console \<Rightarrow> 'w console option" where
  "draw_on f c = map_option (\<lambda>scr. c\<lparr>con_screen := scr\<rparr>) (f (con_screen c))"

text \<open>A turn of the loop before the counters: the key and, when it is time, the move.\<close>

definition snake_move :: "point \<Rightarrow> ('f, 'u, 'v, 'w) snake_state \<Rightarrow> ('f, 'u, 'v, 'w) snake_state option" where
  "snake_move org g =
     (let (s, t, v, c) = g
      in do { (s, t) \<leftarrow> snake_update (con_screen c) (s, t);
              c \<leftarrow> draw_on (draw_game org s) c;
              Some (s, t, v, c) })"

text \<open>The pause and the picture at the end of a turn; \<open>tick\<close> is one timer interrupt.\<close>

definition snake_pause ::
  "('w, 'x) bus_scheme \<Rightarrow> (('f, 'u) timer \<times> 'v \<Rightarrow> (('f, 'u) timer \<times> 'v) option) \<Rightarrow>
    ('f, 'u, 'v, 'w) snake_state \<Rightarrow> ('f, 'u, 'v, 'w) snake_state option" where
  "snake_pause B tick g =
     (let (s, t, v, c) = g
      in do { (t, v) \<leftarrow> usleep tick 10000 (t, v);
              (scr, w) \<leftarrow> vesa_swap_buffers B (con_screen c, con_world c);
              Some (s, t, v, c\<lparr>con_screen := scr, con_world := w\<rparr>) })"

fun snake_loop ::
  "('w, 'x) bus_scheme \<Rightarrow> (('f, 'u) timer \<times> 'v \<Rightarrow> (('f, 'u) timer \<times> 'v) option) \<Rightarrow> point \<Rightarrow> u8 option list \<Rightarrow>
    int \<Rightarrow> int \<Rightarrow> int \<Rightarrow> ('f, 'u, 'v, 'w) snake_state \<Rightarrow> (u8 option list \<times> ('f, 'u, 'v, 'w) snake_state) option" where
  "snake_loop B tick org keys counter threshold length_threshold (s, g) =
     (if game_over s then Some (keys, s, g)
      else (case keys of
          [] \<Rightarrow> None
        | key # keys \<Rightarrow>
            do { let s = (case key of None \<Rightarrow> s | Some k \<Rightarrow> snake_handle_input k s);
                 (counter, s, g) \<leftarrow> (if counter \<ge> threshold
                                      then do { (s, g) \<leftarrow> snake_move org (s, g); Some (0, s, g) }
                                      else Some (counter, s, g));
                 (threshold, length_threshold) \<leftarrow>
                   (if snake_length s \<ge> length_threshold
                    then do { t \<leftarrow> chk_int (threshold - 1); l \<leftarrow> chk_int (length_threshold + 5); Some (t, l) }
                    else Some (threshold, length_threshold));
                 counter \<leftarrow> chk_int (counter + 1);
                 (s, g) \<leftarrow> snake_pause B tick (s, g);
                 snake_loop B tick org keys counter threshold length_threshold (s, g) }))"

declare snake_loop.simps [simp del]

text \<open>\<open>Game Over! Final Score: %d\<close> and \<open>Press any key to continue...\<close>, each with a line feed and the end of the string.\<close>

definition final_score :: "u8 list" where
  "final_score = ascii ''Game Over! Final Score: %d'' @ [10, 0]"

definition press_any_key :: "u8 list" where
  "press_any_key = ascii ''Press any key to continue...'' @ [10, 0]"

text \<open>The whole game; the last key is the one that ends the final screen.\<close>

definition snake_game ::
  "('w, 'x) bus_scheme \<Rightarrow> (('f, 'u) timer \<times> 'v \<Rightarrow> (('f, 'u) timer \<times> 'v) option) \<Rightarrow> u8 option list \<Rightarrow>
    ('f, 'u, 'v, 'w) snake_state \<Rightarrow> ('f, 'u, 'v, 'w) snake_state option" where
  "snake_game B tick keys g =
     (let (s, t, v, c) = g
      in do { c \<leftarrow> console_clear c;
              (org, c) \<leftarrow> init_graphics c;
              (s, t) \<leftarrow> snake_init (con_screen c) (s, t);
              c \<leftarrow> draw_on (draw_border org) c;
              (keys, s, t, v, c) \<leftarrow> snake_loop B tick org keys 0 25 5 (s, t, v, c);
              c \<leftarrow> console_printf B final_score [IntArg (word_of_int (score s))] c;
              c \<leftarrow> console_printf B press_any_key [] c;
              if \<exists>k \<in> set keys. k \<noteq> None then do { c \<leftarrow> console_clear c; Some (s, t, v, c) } else None })"

section \<open>The rules of the game\<close>

definition board_ok :: "screen \<Rightarrow> bool" where
  "board_ok scr \<longleftrightarrow> 80 \<le> g_width scr \<and> 80 \<le> g_height scr"

definition on_board :: "screen \<Rightarrow> point \<Rightarrow> bool" where
  "on_board scr p \<longleftrightarrow> 0 \<le> fst p \<and> fst p < uint (BOARD_WIDTH scr) \<and> 0 \<le> snd p \<and> snd p < uint (BOARD_HEIGHT scr)"

definition adjacent :: "point \<Rightarrow> point \<Rightarrow> bool" where
  "adjacent p q \<longleftrightarrow> \<bar>fst p - fst q\<bar> + \<bar>snd p - snd q\<bar> = 1"

definition cells :: "snake \<Rightarrow> point list" where
  "cells s = take (nat (snake_length s)) (body s)"

text \<open>The snake is a path of distinct neighbouring cells on the board.\<close>

definition snake_ok :: "screen \<Rightarrow> snake \<Rightarrow> bool" where
  "snake_ok scr s \<longleftrightarrow> length (body s) = SNAKE_MAX_LENGTH \<and> 1 \<le> snake_length s \<and> snake_length s \<le> 100 \<and>
     (\<forall>p \<in> set (cells s). on_board scr p) \<and> distinct (cells s) \<and> successively adjacent (cells s) \<and>
     adjacent (direction s) (0, 0) \<and> on_board scr (food s) \<and> score s = snake_length s - 1"

definition next_head :: "snake \<Rightarrow> point" where
  "next_head s = (fst (hd (cells s)) + fst (direction s), snd (hd (cells s)) + snd (direction s))"

lemma board_bounds:
  assumes "board_ok scr"
  shows "0 < uint (BOARD_WIDTH scr)" "uint (BOARD_WIDTH scr) < 2 ^ 28" "0 < uint (BOARD_HEIGHT scr)" "uint (BOARD_HEIGHT scr) < 2 ^ 28"
proof -
  have "0 < uint (x div 16 - 4) \<and> uint (x div 16 - 4) < 2 ^ 28" if "80 \<le> x" for x :: u32
  proof -
    have "unat (x div 16) = unat x div 16" by simp
    moreover have "80 \<le> unat x" using that by (simp add: word_le_nat_alt)
    moreover have "unat x < 2 ^ 32" using u32_bound [of x] by simp
    ultimately have "unat (x div 16 - 4) = unat x div 16 - 4" by (subst unat_sub) (auto simp: word_le_nat_alt)
    then have "uint (x div 16 - 4) = int (unat x div 16 - 4)" by (simp only: uint_nat)
    moreover have "5 \<le> unat x div 16" "unat x div 16 < 2 ^ 28"
      using \<open>80 \<le> unat x\<close> \<open>unat x < 2 ^ 32\<close> by (linarith, intro less_mult_imp_div_less, simp)
    ultimately show ?thesis by simp
  qed
  then show "0 < uint (BOARD_WIDTH scr)" "uint (BOARD_WIDTH scr) < 2 ^ 28" "0 < uint (BOARD_HEIGHT scr)" "uint (BOARD_HEIGHT scr) < 2 ^ 28"
    using assms by (auto simp: board_ok_def BOARD_WIDTH_def BOARD_HEIGHT_def)
qed

lemma move_body_shift:
  "move_body n b = (if n = 0 \<or> n < length b then Some (map (\<lambda>j. if 0 < j \<and> j \<le> n then b ! (j - 1) else b ! j) [0..<length b]) else None)"
proof (induction n arbitrary: b)
  case (Suc n)
  show ?case
  proof (cases "Suc n < length b")
    case True
    then have "move_body (Suc n) b = move_body n (b[Suc n := b ! n])" by (simp add: rd_def wr_def)
    also have "\<dots> = Some (map (\<lambda>j. if 0 < j \<and> j \<le> n then b[Suc n := b ! n] ! (j - 1) else b[Suc n := b ! n] ! j) [0..<length b])"
      using Suc.IH [of "b[Suc n := b ! n]"] True by simp
    also have "\<dots> = Some (map (\<lambda>j. if 0 < j \<and> j \<le> Suc n then b ! (j - 1) else b ! j) [0..<length b])"
      using True by (auto simp: nth_list_update le_Suc_eq)
    finally show ?thesis using True by simp
  next
    case False
    then show ?thesis by (auto simp: rd_def wr_def bind_eq_None_conv)
  qed
qed (auto intro: nth_equalityI)

text \<open>The cells after a move without and with food.\<close>

lemma cells_nth: "length (body s) = 100 \<Longrightarrow> snake_length s \<le> 100 \<Longrightarrow> j < nat (snake_length s) \<Longrightarrow> cells s ! j = body s ! j"
  by (simp add: cells_def)

lemma moved_body:
  assumes "length b = 100" and "0 < n" and "n < 100"
  shows "\<exists>b'. move_body n b = Some b' \<and> length b' = 100 \<and> take (Suc n) (b'[0 := h]) = h # take n b"
proof -
  let ?b = "map (\<lambda>j. if 0 < j \<and> j \<le> n then b ! (j - 1) else b ! j) [0..<length b]"
  have "move_body n b = Some ?b" using assms by (simp add: move_body_shift)
  moreover have "take (Suc n) (?b[0 := h]) = h # take n b"
    using assms by (intro nth_equalityI) (auto simp: nth_Cons nth_list_update split: nat.split)
  ultimately show ?thesis using assms(1) by (intro exI [of _ ?b]) simp
qed

lemma hits_body_iff: "n + i \<le> length b \<Longrightarrow> hits_body i n head b = Some (head \<in> set (take n (drop i b)))"
proof (induction n arbitrary: i)
  case (Suc n)
  then have "take (Suc n) (drop i b) = b ! i # take n (drop (Suc i) b)"
    by (simp add: Cons_nth_drop_Suc [symmetric])
  then show ?case using Suc by (auto simp: rd_def)
qed simp

lemma word_of_nonneg: "0 \<le> k \<Longrightarrow> k < 2 ^ 32 \<Longrightarrow> uint (word_of_int k :: u32) = k"
  by (simp add: uint_word_of_int)

lemma snake_collision_iff:
  assumes "board_ok scr" "length (body s) = 100" "1 \<le> snake_length s" "snake_length s \<le> 100"
    and "fst head < 2 ^ 30" "snd head < 2 ^ 30"
  shows "snake_collision scr head s = Some (\<not> on_board scr head \<or> head \<in> set (tl (cells s)))"
proof -
  have w: "word_of_int k \<ge> x \<longleftrightarrow> uint x \<le> k" if "0 \<le> k" "k < 2 ^ 30" for k and x :: u32
    using word_of_nonneg [of k] that by (simp add: word_le_def)
  have "tl (cells s) = take (nat (snake_length s - 1)) (drop 1 (body s))"
    using assms(2-4) by (simp add: cells_def tl_take tl_drop [symmetric] drop_Suc nat_diff_distrib)
  moreover have "hits_body 1 (nat (snake_length s - 1)) head (body s) = Some (head \<in> set (take (nat (snake_length s - 1)) (drop 1 (body s))))"
    by (rule hits_body_iff) (use assms(2-4) in linarith)
  ultimately show ?thesis
    using w [of "fst head" "BOARD_WIDTH scr"] w [of "snd head" "BOARD_HEIGHT scr"] assms(5,6)
    by (auto simp: snake_collision_def on_board_def)
qed

lemma rand_below_ok:
  assumes "0 < uint n" "uint n < 2 ^ 28"
  shows "runs (rand_below n t) (\<lambda>(x, t'). 0 \<le> x \<and> x < uint n)"
proof -
  have small: "a < 2 ^ 31" if "int a < int b" "int b < 2 ^ 28" for a b :: nat using that by simp
  have "uint (w mod n) < uint n" for w :: u32
    using assms(1) by (simp add: uint_mod)
  moreover have "sint (w mod n) = uint (w mod n)" for w :: u32
  proof -
    have "unat (w mod n) < 2 ^ 31" using \<open>uint (w mod n) < uint n\<close> assms(2) unfolding uint_nat by (rule small)
    then show ?thesis unfolding uint_nat by (rule sint_of_small)
  qed
  moreover have "n \<noteq> 0" using assms by auto
  ultimately show ?thesis by (simp add: rand_below_def split: prod.split)
qed

lemma new_food_ok:
  assumes "board_ok scr"
  shows "runs (new_food scr (s, t)) (\<lambda>(s', t'). \<exists>f. s' = s\<lparr>food := f\<rparr> \<and> on_board scr f)"
  unfolding new_food_def runs_simps
  by (rule runs_mono [OF rand_below_ok [OF board_bounds(1,2) [OF assms]]], clarsimp)
    (rule runs_mono [OF rand_below_ok [OF board_bounds(3,4) [OF assms]]], force simp: on_board_def)

section \<open>A move\<close>

lemma cells_update: "cells (s\<lparr>body := b\<rparr>) = take (nat (snake_length s)) b"
  by (simp add: cells_def)

lemma cells_other [simp]: "cells (s\<lparr>food := f\<rparr>) = cells s" "cells (s\<lparr>direction := d\<rparr>) = cells s"
  by (simp_all add: cells_def)

lemma successively_take: "successively P xs \<Longrightarrow> successively P (take n xs)"
  by (metis append_take_drop_id successively_append_iff)

lemma snake_ok_parts:
  assumes "snake_ok scr s"
  shows "length (cells s) = nat (snake_length s)" "cells s \<noteq> []" "hd (cells s) = body s ! 0" "on_board scr (hd (cells s))"
    "rd (body s) 0 = Some (hd (cells s))"
proof -
  have l: "length (body s) = 100" "1 \<le> snake_length s" "snake_length s \<le> 100" using assms by (simp_all add: snake_ok_def)
  then show len: "length (cells s) = nat (snake_length s)" by (simp add: cells_def)
  then show ne: "cells s \<noteq> []" using l by auto
  show hd: "hd (cells s) = body s ! 0" using l ne by (simp add: cells_def hd_conv_nth)
  show "on_board scr (hd (cells s))" using assms ne by (simp add: snake_ok_def)
  show "rd (body s) 0 = Some (hd (cells s))" using l hd by simp
qed

lemma snake_update_cases:
  assumes ok: "snake_ok scr s" and board: "board_ok scr" and go: "\<not> game_over s"
  shows "snake_update scr (s, t) =
    (if \<not> on_board scr (next_head s) \<or> next_head s \<in> set (tl (cells s)) then Some (s\<lparr>game_over := True\<rparr>, t)
     else do { b \<leftarrow> move_body (nat (snake_length s)) (body s);
               b \<leftarrow> wr b 0 (next_head s);
               if next_head s = food s
               then new_food scr (s\<lparr>body := b, snake_length := snake_length s + 1, score := score s + 1\<rparr>, t)
               else Some (s\<lparr>body := b\<rparr>, t) })"
proof -
  note p = snake_ok_parts [OF ok]
  have d: "\<bar>fst (direction s)\<bar> \<le> 1" "\<bar>snd (direction s)\<bar> \<le> 1" using ok by (auto simp: snake_ok_def adjacent_def)
  have h: "0 \<le> fst (hd (cells s))" "fst (hd (cells s)) < 2 ^ 28" "0 \<le> snd (hd (cells s))" "snd (hd (cells s)) < 2 ^ 28"
    using p(4) board_bounds [OF board] by (auto simp: on_board_def)
  have n: "int_ok (fst (next_head s))" "int_ok (snd (next_head s))" "fst (next_head s) < 2 ^ 30" "snd (next_head s) < 2 ^ 30"
    using d h by (auto simp: next_head_def int_ok_def)
  have l: "length (body s) = 100" "1 \<le> snake_length s" "snake_length s \<le> 100" "score s = snake_length s - 1"
    using ok by (simp_all add: snake_ok_def)
  have nh: "next_head s = (fst (next_head s), snd (next_head s))" by simp
  have c: "snake_collision scr (next_head s) s = Some (\<not> on_board scr (next_head s) \<or> next_head s \<in> set (tl (cells s)))"
    by (rule snake_collision_iff [OF board l(1-3) n(3,4)])
  have k: "chk_int (snake_length s + 1) = Some (snake_length s + 1)" "chk_int (score s + 1) = Some (score s + 1)"
    using l by (simp_all add: chk_int_def int_ok_def)
  have x: "chk_int (fst (hd (cells s)) + fst (direction s)) = Some (fst (next_head s))"
    "chk_int (snd (hd (cells s)) + snd (direction s)) = Some (snd (next_head s))"
    using n by (simp_all add: chk_int_def next_head_def)
  show ?thesis
    using go by (simp add: snake_update_def p(5) x nh [symmetric] c k Let_def cong: if_cong del: rd_Some_iff wr_Some_iff)
qed

text \<open>What the move does to the cells: the new head in front, the last cell gone unless the snake has eaten.\<close>

definition grown :: "snake \<Rightarrow> point list" where
  "grown s = next_head s # (if next_head s = food s then cells s else butlast (cells s))"

lemma grown_ok:
  assumes ok: "snake_ok scr s" and head: "on_board scr (next_head s)" "next_head s \<notin> set (tl (cells s))"
  shows "(\<forall>p \<in> set (grown s). on_board scr p) \<and> distinct (grown s) \<and> successively adjacent (grown s)"
proof -
  note p = snake_ok_parts [OF ok]
  have c: "\<forall>p \<in> set (cells s). on_board scr p" "distinct (cells s)" "successively adjacent (cells s)" "adjacent (direction s) (0, 0)"
    using ok by (simp_all add: snake_ok_def)
  obtain h t where ht: "cells s = h # t" using p(2) by (cases "cells s") auto
  have adj: "adjacent (next_head s) h" and "next_head s \<noteq> h"
    using c(4) ht by (auto simp: adjacent_def next_head_def prod_eq_iff)
  then have new: "next_head s \<notin> set (cells s)" using head(2) ht by auto
  define xs where "xs = (if next_head s = food s then cells s else butlast (cells s))"
  have "\<exists>n. xs = take n (cells s)" by (metis xs_def butlast_conv_take take_all_iff order_refl)
  then obtain n where n: "xs = take n (cells s)" by blast
  have "set xs \<subseteq> set (cells s)" "distinct xs" "successively adjacent xs"
    using c n by (simp_all add: set_take_subset successively_take)
  moreover have "xs = [] \<or> hd xs = h" using n ht by (cases n) auto
  ultimately have "distinct (next_head s # xs)" "successively adjacent (next_head s # xs)" "\<forall>p \<in> set (next_head s # xs). on_board scr p"
    using new adj c(1) head(1) by (auto simp: successively_Cons)
  then show ?thesis by (simp add: grown_def xs_def)
qed

lemma cells_after:
  assumes "length b = 100" "length b' = 100" "take (Suc (nat (snake_length s))) (b'[0 := h]) = h # take (nat (snake_length s)) b"
    and "1 \<le> snake_length s" "body s = b" "snake_length s \<le> 100"
  shows "cells (s\<lparr>body := b'[0 := h], snake_length := snake_length s + 1, score := k\<rparr>) = h # cells s"
    and "cells (s\<lparr>body := b'[0 := h]\<rparr>) = h # butlast (cells s)"
proof -
  have n: "nat (snake_length s + 1) = Suc (nat (snake_length s))" using assms(4) by simp
  then show "cells (s\<lparr>body := b'[0 := h], snake_length := snake_length s + 1, score := k\<rparr>) = h # cells s"
    using assms(3,5) by (simp add: cells_def)
  obtain m where m: "nat (snake_length s) = Suc m" using assms(4) by (cases "nat (snake_length s)") auto
  have "take (nat (snake_length s)) (b'[0 := h]) = take (Suc m) (take (Suc (nat (snake_length s))) (b'[0 := h]))"
    using m by simp
  also have "\<dots> = h # take m b" unfolding assms(3) using m by (simp add: min_def)
  finally show "cells (s\<lparr>body := b'[0 := h]\<rparr>) = h # butlast (cells s)"
    using assms(1,5,6) m by (simp add: cells_def butlast_take)
qed

lemma snake_move_ok:
  assumes ok: "snake_ok scr s" and board: "board_ok scr" and go: "\<not> game_over s"
  shows "if \<not> on_board scr (next_head s) \<or> next_head s \<in> set (tl (cells s))
    then snake_update scr (s, t) = Some (s\<lparr>game_over := True\<rparr>, t)
    else if snake_length s = 100 then snake_update scr (s, t) = None
    else runs (snake_update scr (s, t)) (\<lambda>(s', t'). snake_ok scr s' \<and> \<not> game_over s' \<and> cells s' = grown s)"
proof -
  have l: "length (body s) = 100" "1 \<le> snake_length s" "snake_length s \<le> 100" "score s = snake_length s - 1"
    "adjacent (direction s) (0, 0)" "on_board scr (food s)"
    using ok by (simp_all add: snake_ok_def)
  show ?thesis
  proof (cases "on_board scr (next_head s) \<and> next_head s \<notin> set (tl (cells s))")
    case False
    then show ?thesis using snake_update_cases [OF ok board go] by auto
  next
    case head: True
    show ?thesis
    proof (cases "snake_length s = 100")
      case True
      then show ?thesis using snake_update_cases [OF ok board go] head l(1) by (simp add: move_body_shift)
    next
      case False
      then have "nat (snake_length s) < 100" "0 < nat (snake_length s)" using l(2,3) by linarith+
      then obtain b' where b': "move_body (nat (snake_length s)) (body s) = Some b'" "length b' = 100"
        "take (Suc (nat (snake_length s))) (b'[0 := next_head s]) = next_head s # take (nat (snake_length s)) (body s)"
        using moved_body [OF l(1), of "nat (snake_length s)" "next_head s"] by blast
      note after = cells_after [OF l(1) b'(2,3) l(2) refl l(3)]
      note good = grown_ok [OF ok conjunct1 [OF head] conjunct2 [OF head]]
      have w: "wr b' 0 (next_head s) = Some (b'[0 := next_head s])" using b'(2) by (auto simp: wr_def)
      have upd: "snake_update scr (s, t) =
        (if next_head s = food s
         then new_food scr (s\<lparr>body := b'[0 := next_head s], snake_length := snake_length s + 1, score := score s + 1\<rparr>, t)
         else Some (s\<lparr>body := b'[0 := next_head s]\<rparr>, t))"
        using snake_update_cases [OF ok board go, of t] head b'(1) w by (simp del: wr_Some_iff)
      have "runs (snake_update scr (s, t)) (\<lambda>(s', t'). snake_ok scr s' \<and> \<not> game_over s' \<and> cells s' = grown s)"
      proof (cases "next_head s = food s")
        case True
        have c: "cells (s\<lparr>body := b'[0 := next_head s], snake_length := snake_length s + 1, score := score s + 1\<rparr>) = grown s"
          using after(1) [of "score s + 1"] True by (simp add: grown_def)
        define s1 where "s1 = s\<lparr>body := b'[0 := next_head s], snake_length := snake_length s + 1, score := score s + 1\<rparr>"
        have s1: "length (body s1) = 100" "snake_length s1 = snake_length s + 1" "score s1 = snake_length s1 - 1"
          "direction s1 = direction s" "\<not> game_over s1" "cells s1 = grown s"
          using b'(2) l go c by (simp_all add: s1_def)
        have "snake_ok scr (s1\<lparr>food := f\<rparr>)" if "on_board scr f" for f
          using s1 l False good that by (simp add: snake_ok_def)
        then have "runs (new_food scr (s1, t)) (\<lambda>(s', t'). snake_ok scr s' \<and> \<not> game_over s' \<and> cells s' = grown s)"
          using s1 by (intro runs_mono [OF new_food_ok [OF board]]) auto
        then show ?thesis using True by (simp add: upd s1_def)
      next
        case False
        then have "cells (s\<lparr>body := b'[0 := next_head s]\<rparr>) = grown s" using after(2) by (simp add: grown_def)
        then show ?thesis using good l b'(2) go False by (simp add: upd snake_ok_def)
      qed
      then show ?thesis using head False by simp
    qed
  qed
qed

section \<open>The states of a game\<close>

text \<open>A game starts with \<open>snake_init\<close>; keys are handled and the snake moves, in any order.\<close>

inductive snake_reach :: "screen \<Rightarrow> snake \<times> ('f, 'u) timer \<Rightarrow> bool" for scr where
  start: "length (body (fst st)) = 100 \<Longrightarrow> snake_init scr st = Some st' \<Longrightarrow> snake_reach scr st'"
| key: "snake_reach scr (s, t) \<Longrightarrow> snake_reach scr (snake_handle_input k s, t)"
| move: "snake_reach scr st \<Longrightarrow> snake_update scr st = Some st' \<Longrightarrow> snake_reach scr st'"

lemma input_keeps: "snake_ok scr s \<Longrightarrow> snake_ok scr (snake_handle_input k s)"
  by (auto simp: snake_ok_def snake_handle_input_def cells_def adjacent_def)

lemma nat_range: "int a < 2 ^ 28 \<longleftrightarrow> a < 2 ^ 28" "0 < int a \<longleftrightarrow> 0 < a"
  by simp_all

lemma half_board:
  fixes n :: u32
  assumes "0 < uint n" "uint n < 2 ^ 28"
  shows "0 \<le> sint (n div 2) \<and> sint (n div 2) < uint n"
proof -
  have u: "uint n = int (unat n)" by (rule uint_nat)
  have h: "unat (n div 2) = unat n div 2" by simp
  have n: "unat n < 2 ^ 28" "0 < unat n" using assms unfolding u by (simp_all only: nat_range)
  have "unat n div 2 < 2 ^ 31" using n by simp
  then have "sint (n div 2) = int (unat n div 2)" using sint_of_small [of "n div 2"] unfolding h by simp
  then show ?thesis using n unfolding u by linarith
qed

lemma init_ok:
  assumes board: "board_ok scr" and len: "length (body s) = 100" and run: "snake_init scr (s, t) = Some (s', t')"
  shows "snake_ok scr s' \<and> \<not> game_over s'"
proof -
  let ?h = "(sint (BOARD_WIDTH scr div 2), sint (BOARD_HEIGHT scr div 2))"
  have h: "on_board scr ?h"
    using half_board [OF board_bounds(1,2) [OF board]] half_board [OF board_bounds(3,4) [OF board]] by (simp add: on_board_def)
  have w: "wr (body s) 0 ?h = Some ((body s)[0 := ?h])" using len by (auto simp: wr_def)
  have "take 1 ((body s)[0 := ?h]) = [?h]" using len by (cases "body s") auto
  moreover obtain s1 where s1: "new_food scr (s\<lparr>snake_length := 1, body := (body s)[0 := ?h], direction := (1, 0)\<rparr>, t) = Some (s1, t')"
    and s': "s' = s1\<lparr>game_over := False, score := 0\<rparr>"
    using run w by (auto simp: snake_init_def bind_eq_Some_conv simp del: wr_Some_iff)
  moreover obtain f where "s1 = s\<lparr>snake_length := 1, body := (body s)[0 := ?h], direction := (1, 0), food := f\<rparr>" "on_board scr f"
    using new_food_ok [OF board, of "s\<lparr>snake_length := 1, body := (body s)[0 := ?h], direction := (1, 0)\<rparr>" t] s1 by (auto simp: runs_iff)
  ultimately show ?thesis using h len by (auto simp: snake_ok_def cells_def adjacent_def)
qed

lemma snake_reach_ok:
  assumes "snake_reach scr st" and board: "board_ok scr"
  shows "snake_ok scr (fst st)"
  using assms(1)
proof (induction rule: snake_reach.induct)
  case (start st st')
  then show ?case using init_ok [OF board, of "fst st" "snd st" "fst st'" "snd st'"] by simp
next
  case (key s t k)
  then show ?case by (simp add: input_keeps)
next
  case (move st st')
  obtain s t where st: "st = (s, t)" by (cases st)
  have over: "snake_ok scr (s\<lparr>game_over := True\<rparr>)" if "snake_ok scr s" using that by (simp add: snake_ok_def cells_def)
  show ?case
  proof (cases "game_over s")
    case True
    then show ?thesis using move st by (simp add: snake_update_def)
  next
    case False
    have ok: "snake_ok scr s" using move st by simp
    show ?thesis
      using snake_move_ok [OF ok board False, of t] over [OF ok] move st by (auto split: if_splits simp: runs_iff)
  qed
qed

text \<open>A move of a snake that is well formed (a path of distinct neighbouring cells on the board, one point for
  each cell after the first) keeps it well formed.  When the next cell is off the board or one of
  the cells behind the head the game is over and nothing moves; otherwise the head moves there, and the last
  cell follows unless the food was there.  With 100 cells a move writes behind the array, whether the snake
  eats or not.
\<close>

theorem snake_update_moves:
  assumes ok: "snake_ok scr s" and board: "board_ok scr" and go: "\<not> game_over s"
  shows "if \<not> on_board scr (next_head s) \<or> next_head s \<in> set (tl (cells s))
    then snake_update scr (s, t) = Some (s\<lparr>game_over := True\<rparr>, t)
    else if snake_length s = 100 then snake_update scr (s, t) = None
    else runs (snake_update scr (s, t)) (\<lambda>(s', t'). snake_ok scr s' \<and> \<not> game_over s' \<and> cells s' = grown s)"
  by (rule snake_move_ok [OF assms])

text \<open>C16. On a screen of at least 80 by 80 pixels every state of a game is well formed: the snake is a path of
  distinct neighbouring cells of the board, the food lies on the board and the score is the number of cells
  eaten.
\<close>

theorem snake_game_invariant:
  assumes "snake_reach scr (s, t)" and "board_ok scr"
  shows "snake_ok scr s"
  using snake_reach_ok [OF assms] by simp

text \<open>One key never turns the snake back into itself, but two keys between two moves do: a snake of at least
  two cells that has just moved in its direction dies when a turn and the opposite direction are typed before the next move.
\<close>

theorem snake_turns_back:
  assumes ok: "snake_ok scr s" and board: "board_ok scr" and go: "\<not> game_over s"
    and neck: "cells s ! 1 = (fst (hd (cells s)) - fst (direction s), snd (hd (cells s)) - snd (direction s))" and two: "2 \<le> snake_length s"
  shows "next_head (snake_handle_input k s) \<noteq> cells s ! 1 \<and>
    (\<exists>k k'. snake_update scr (snake_handle_input k' (snake_handle_input k s), t) =
       Some ((snake_handle_input k' (snake_handle_input k s))\<lparr>game_over := True\<rparr>, t))"
proof -
  have d: "direction s \<in> {(1, 0), (-1, 0), (0, 1), (0, -1)}"
    using ok by (auto simp: snake_ok_def adjacent_def prod_eq_iff)
  have cells: "cells (snake_handle_input k s) = cells s" for k s by (simp add: snake_handle_input_def cells_def)
  have neck_in: "cells s ! 1 \<in> set (tl (cells s))"
  proof -
    obtain h q qs where "cells s = h # q # qs"
      using snake_ok_parts(1) [OF ok] two by (cases "cells s"; cases "tl (cells s)") auto
    then show ?thesis by simp
  qed
  have one: "next_head (snake_handle_input k s) \<noteq> cells s ! 1"
    using d neck by (auto simp: next_head_def cells snake_handle_input_def split: if_splits)
  define k where "k = (if snd (direction s) = 0 then 119 else 97 :: u8)"
  define k' where "k' = (if direction s = (1, 0) then 97 else if direction s = (-1, 0) then 100 else if direction s = (0, 1) then 119 else 115 :: u8)"
  define s' where "s' = snake_handle_input k' (snake_handle_input k s)"
  have "direction s' = (- fst (direction s), - snd (direction s))"
    using d by (auto simp: s'_def k_def k'_def snake_handle_input_def)
  then have "next_head s' = cells s ! 1" using neck by (simp add: next_head_def s'_def cells)
  moreover have "snake_ok scr s'" unfolding s'_def by (intro input_keeps ok)
  moreover have "\<not> game_over s'" using go by (simp add: s'_def snake_handle_input_def)
  moreover have "cells s' = cells s" by (simp add: s'_def cells)
  ultimately have "snake_update scr (s', t) = Some (s'\<lparr>game_over := True\<rparr>, t)"
    using snake_move_ok [of scr s' t] board neck_in by simp
  then show ?thesis using one by (auto simp: s'_def)
qed

text \<open>A board of 6 by 6 cells with a snake of two cells on it that is about to eat.\<close>

definition small_screen :: screen where
  "small_screen = \<lparr>g_width = 160, g_height = 160, g_pitch = 640, g_bpp = 32, g_vbe_buffer = [], g_back_buffer = [],
     g_vsync_enabled = False, g_vsync_supported = False\<rparr>"

definition demo_snake :: snake where
  "demo_snake = \<lparr>body = [(3, 3), (2, 3)] @ replicate 98 (0, 0), snake_length = 2, direction = (1, 0), food = (4, 3),
     game_over = False, score = 1\<rparr>"

lemma small_board: "board_ok small_screen" "uint (BOARD_WIDTH small_screen) = 6" "uint (BOARD_HEIGHT small_screen) = 6"
  by (simp_all add: board_ok_def small_screen_def BOARD_WIDTH_def BOARD_HEIGHT_def)

lemma demo_cells: "cells demo_snake = [(3, 3), (2, 3)]" "next_head demo_snake = (4, 3)" "grown demo_snake = [(4, 3), (3, 3), (2, 3)]"
  by (simp_all add: cells_def demo_snake_def next_head_def grown_def numeral_2_eq_2)

lemma demo_snake_ok: "snake_ok small_screen demo_snake" "\<not> game_over demo_snake"
proof -
  have "length (body demo_snake) = 100" by (simp add: demo_snake_def)
  then show "snake_ok small_screen demo_snake"
    unfolding snake_ok_def demo_cells(1)
    by (simp add: on_board_def small_board adjacent_def demo_snake_def del: length_append)
  show "\<not> game_over demo_snake" by (simp add: demo_snake_def)
qed

theorem snake_update_moves_witness:
  "runs (snake_update small_screen (demo_snake, demo_timer)) (\<lambda>(s', t'). snake_ok small_screen s' \<and> cells s' = [(4, 3), (3, 3), (2, 3)])"
proof -
  have "on_board small_screen (4, 3)" "snake_length demo_snake \<noteq> 100" by (simp_all add: on_board_def small_board demo_snake_def)
  then show ?thesis
    using snake_update_moves [OF demo_snake_ok(1) small_board(1) demo_snake_ok(2), of demo_timer]
    by (auto simp: demo_cells elim: runs_mono)
qed

theorem snake_game_invariant_witness:
  "\<exists>s t. snake_reach small_screen (s :: snake, t :: (nat, unit) timer) \<and> snake_ok small_screen s"
proof -
  have w: "wr (body demo_snake) 0 p = Some ((body demo_snake)[0 := p])" for p by (simp add: wr_def demo_snake_def)
  define s0 where "s0 = demo_snake\<lparr>snake_length := 1,
    body := (body demo_snake)[0 := (sint (BOARD_WIDTH small_screen div 2), sint (BOARD_HEIGHT small_screen div 2))], direction := (1, 0)\<rparr>"
  obtain s1 t1 where "new_food small_screen (s0, demo_timer) = Some (s1, t1)"
    using new_food_ok [OF small_board(1), of s0 demo_timer] by (auto simp: runs_iff)
  then have "\<exists>st'. snake_init small_screen (demo_snake, demo_timer) = Some st'"
    by (simp add: snake_init_def w s0_def del: wr_Some_iff)
  then obtain s t where st: "snake_init small_screen (demo_snake, demo_timer) = Some (s, t)" by fastforce
  have "snake_reach small_screen (s, t)"
    by (rule snake_reach.start [OF _ st]) (simp add: demo_snake_def)
  then show ?thesis using snake_game_invariant [OF _ small_board(1)] by blast
qed

theorem snake_turns_back_witness:
  "\<exists>k k'. snake_update small_screen (snake_handle_input k' (snake_handle_input k demo_snake), demo_timer) =
     Some ((snake_handle_input k' (snake_handle_input k demo_snake))\<lparr>game_over := True\<rparr>, demo_timer)"
proof -
  have "cells demo_snake ! 1 = (fst (hd (cells demo_snake)) - fst (direction demo_snake), snd (hd (cells demo_snake)) - snd (direction demo_snake))"
    "2 \<le> snake_length demo_snake"
    by (simp_all add: demo_cells) (simp_all add: demo_snake_def)
  from snake_turns_back [OF demo_snake_ok(1) small_board(1) demo_snake_ok(2) this]
  show ?thesis by blast
qed

end
