(* ===== verification/Pong.thy ===== *)
theory Pong
  imports Console CMath
begin

text \<open>
  The game of \<open>src/shell/pong.c\<close>.  Positions are 32-bit words without sign, velocities are \<open>int\<close>s.  The speed
  multiplier is a \<open>float\<close>, whose arithmetic depends on the control word of the floating-point unit: its three
  uses (the factor 1, the factor times 1.05, and a coordinate moved by a velocity times the factor) are
  the parameter \<open>float_ops\<close>; \<open>None\<close> is the conversion of a value that does not fit 32 bits without sign, which is
  undefined.  What the keyboard holds in each turn is a list, as in \<open>Snake\<close>.
\<close>

section \<open>State\<close>

record 'f float_ops =
  float_one :: 'f
  float_faster :: "'f \<Rightarrow> 'f"
  float_move :: "u32 \<Rightarrow> int \<Rightarrow> 'f \<Rightarrow> u32 option"

record 'f pong =
  left_paddle_y :: u32
  right_paddle_y :: u32
  ball_x :: u32
  ball_y :: u32
  ball_vel_x :: int
  ball_vel_y :: int
  ball_base_speed :: int
  ball_speed_multiplier :: 'f

abbreviation (input) PADDLE_WIDTH :: u32 where "PADDLE_WIDTH \<equiv> 4"
abbreviation (input) PADDLE_HEIGHT :: u32 where "PADDLE_HEIGHT \<equiv> 40"
abbreviation (input) BALL_SIZE :: u32 where "BALL_SIZE \<equiv> 5"
abbreviation (input) PADDLE_SPEED :: u32 where "PADDLE_SPEED \<equiv> 10"
abbreviation (input) PONG_BORDER :: u32 where "PONG_BORDER \<equiv> 2"

section \<open>Drawing\<close>

definition pong_draw_rect :: "u32 \<Rightarrow> u32 \<Rightarrow> u32 \<Rightarrow> u32 \<Rightarrow> u32 \<Rightarrow> screen \<Rightarrow> screen option" where
  "pong_draw_rect x y w h color scr =
     each 0 w (\<lambda>i. each 0 h (\<lambda>j scr.
       let px = x + i; py = y + j
       in if px < g_width scr \<and> py < g_height scr then vbe_putpixel px py color scr else Some scr)) scr"

definition pong_picture :: "'f pong \<Rightarrow> screen \<Rightarrow> screen option" where
  "pong_picture p scr =
     (let w = g_width scr; h = g_height scr
      in do { scr \<leftarrow> pong_draw_rect 0 0 w h 0x000000 scr;
              scr \<leftarrow> pong_draw_rect 0 0 w PONG_BORDER 0xFFFFFF scr;
              scr \<leftarrow> pong_draw_rect 0 (h - PONG_BORDER) w PONG_BORDER 0xFFFFFF scr;
              scr \<leftarrow> pong_draw_rect 0 0 PONG_BORDER h 0xFFFFFF scr;
              scr \<leftarrow> pong_draw_rect (w - PONG_BORDER) 0 PONG_BORDER h 0xFFFFFF scr;
              scr \<leftarrow> pong_draw_rect 10 (left_paddle_y p) PADDLE_WIDTH PADDLE_HEIGHT 0xFFFFFF scr;
              scr \<leftarrow> pong_draw_rect (w - 10 - PADDLE_WIDTH) (right_paddle_y p) PADDLE_WIDTH PADDLE_HEIGHT 0xFFFFFF scr;
              pong_draw_rect (ball_x p) (ball_y p) BALL_SIZE BALL_SIZE 0xFFFFFF scr })"

definition pong_draw_game :: "('w, 'x) bus_scheme \<Rightarrow> 'f pong \<Rightarrow> 'w console \<Rightarrow> 'w console option" where
  "pong_draw_game B p c =
     do { scr \<leftarrow> pong_picture p (con_screen c);
          (scr, w) \<leftarrow> vesa_swap_buffers B (scr, con_world c);
          Some (c\<lparr>con_screen := scr, con_world := w\<rparr>) }"

section \<open>A turn of the game\<close>

text \<open>Paddles go up and down in steps, and stop at the borders.\<close>

definition paddle_up :: "u32 \<Rightarrow> u32" where
  "paddle_up y = (if y > PADDLE_SPEED then y - PADDLE_SPEED else 0)"

definition paddle_down :: "u32 \<Rightarrow> u32 \<Rightarrow> u32" where
  "paddle_down h y = (let new_y = y + PADDLE_SPEED in if new_y < h - PADDLE_HEIGHT then new_y else h - PADDLE_HEIGHT)"

definition pong_key :: "u32 \<Rightarrow> u8 \<Rightarrow> 'f pong \<Rightarrow> 'f pong" where
  "pong_key h k p =
     (if k = 119 then p\<lparr>left_paddle_y := paddle_up (left_paddle_y p)\<rparr>
      else if k = 115 then p\<lparr>left_paddle_y := paddle_down h (left_paddle_y p)\<rparr>
      else p)"

definition ai_move :: "u32 \<Rightarrow> 'f pong \<Rightarrow> 'f pong" where
  "ai_move h p =
     (let paddle_center = right_paddle_y p + PADDLE_HEIGHT div 2;
          ball_center = ball_y p + BALL_SIZE div 2
      in if ball_center < paddle_center - 5 then p\<lparr>right_paddle_y := paddle_up (right_paddle_y p)\<rparr>
         else if ball_center > paddle_center + 5 then p\<lparr>right_paddle_y := paddle_down h (right_paddle_y p)\<rparr>
         else p)"

definition ball_move :: "'f float_ops \<Rightarrow> 'f pong \<Rightarrow> 'f pong option" where
  "ball_move F p =
     do { x \<leftarrow> float_move F (ball_x p) (ball_vel_x p) (ball_speed_multiplier p);
          y \<leftarrow> float_move F (ball_y p) (ball_vel_y p) (ball_speed_multiplier p);
          Some (p\<lparr>ball_x := x, ball_y := y\<rparr>) }"

definition vertical_bounce :: "u32 \<Rightarrow> 'f pong \<Rightarrow> 'f pong option" where
  "vertical_bounce h p =
     (if ball_y p \<le> PONG_BORDER \<or> ball_y p + BALL_SIZE \<ge> h - PONG_BORDER
      then do { v \<leftarrow> chk_int (- ball_vel_y p); Some (p\<lparr>ball_vel_y := v, ball_y := ball_y p + word_of_int v\<rparr>) }
      else Some p)"

text \<open>The ball on a paddle at height \<open>y\<close>: its vertical velocity becomes a third of the offset from the middle.\<close>

definition meets :: "u32 \<Rightarrow> 'f pong \<Rightarrow> bool" where
  "meets y p \<longleftrightarrow> ball_y p < y + PADDLE_HEIGHT \<and> ball_y p + BALL_SIZE > y"

definition hit_speed :: "u32 \<Rightarrow> 'f pong \<Rightarrow> int" where
  "hit_speed y p = (let hit_offset = sint (ball_y p + BALL_SIZE div 2 - (y + PADDLE_HEIGHT div 2))
     in hit_offset sdiv 3)"

definition left_bounce :: "'f float_ops \<Rightarrow> 'f pong \<Rightarrow> 'f pong option" where
  "left_bounce F p =
     (if ball_x p \<le> 10 + PADDLE_WIDTH \<and> meets (left_paddle_y p) p
      then do { v \<leftarrow> abs_c (ball_vel_x p);
                Some (p\<lparr>ball_vel_x := v, ball_x := 10 + PADDLE_WIDTH + 1,
                        ball_speed_multiplier := float_faster F (ball_speed_multiplier p),
                        ball_vel_y := hit_speed (left_paddle_y p) p\<rparr>) }
      else Some p)"

definition right_bounce :: "'f float_ops \<Rightarrow> u32 \<Rightarrow> 'f pong \<Rightarrow> 'f pong option" where
  "right_bounce F w p =
     (if ball_x p + BALL_SIZE \<ge> w - 10 - PADDLE_WIDTH \<and> meets (right_paddle_y p) p
      then do { v \<leftarrow> abs_c (ball_vel_x p); v \<leftarrow> chk_int (- v);
                Some (p\<lparr>ball_vel_x := v, ball_x := w - 10 - PADDLE_WIDTH - BALL_SIZE - 1,
                        ball_speed_multiplier := float_faster F (ball_speed_multiplier p),
                        ball_vel_y := hit_speed (right_paddle_y p) p\<rparr>) }
      else Some p)"

definition clamp_speed :: "'f pong \<Rightarrow> 'f pong option" where
  "clamp_speed p =
     do { a \<leftarrow> abs_c (ball_vel_y p);
          m \<leftarrow> chk_int (ball_base_speed p * 2);
          if a > m
          then if ball_vel_y p > 0 then Some (p\<lparr>ball_vel_y := m\<rparr>)
               else do { n \<leftarrow> chk_int (- ball_base_speed p); n \<leftarrow> chk_int (n * 2); Some (p\<lparr>ball_vel_y := n\<rparr>) }
          else Some p }"

text \<open>Everything in a turn between the key and the picture.\<close>

definition pong_turn :: "'f float_ops \<Rightarrow> u32 \<Rightarrow> u32 \<Rightarrow> 'f pong \<Rightarrow> 'f pong option" where
  "pong_turn F w h p =
     do { let p = ai_move h p;
          p \<leftarrow> ball_move F p;
          p \<leftarrow> vertical_bounce h p;
          p \<leftarrow> left_bounce F p;
          p \<leftarrow> right_bounce F w p;
          clamp_speed p }"

text \<open>A turn with the key \<open>key\<close>.\<close>

definition keyed_turn :: "'f float_ops \<Rightarrow> u32 \<Rightarrow> u32 \<Rightarrow> u8 option \<Rightarrow> 'f pong \<Rightarrow> 'f pong option" where
  "keyed_turn F w h key p = pong_turn F w h (case key of None \<Rightarrow> p | Some k \<Rightarrow> pong_key h k p)"

section \<open>The game\<close>

definition pong_start :: "u32 \<Rightarrow> u32 \<Rightarrow> 'f pong \<Rightarrow> 'f pong" where
  "pong_start w h p =
     p\<lparr>left_paddle_y := (h - PADDLE_HEIGHT) div 2, right_paddle_y := (h - PADDLE_HEIGHT) div 2,
       ball_x := w div 2, ball_y := h div 2, ball_vel_x := ball_base_speed p, ball_vel_y := ball_base_speed p\<rparr>"

definition exiting_pong :: "u8 list" where
  "exiting_pong = ascii ''Exiting Pong game...'' @ [10, 0]"

definition pong_continue :: "u8 list" where
  "pong_continue = ascii ''Press any key to continue...'' @ [10, 0]"

text \<open>The wait for a key with pauses; the timer and its world are \<open>tv\<close>.\<close>

fun pong_wait :: "('t \<Rightarrow> 't option) \<Rightarrow> u8 option list \<Rightarrow> 't \<Rightarrow> 't option" where
  "pong_wait pause [] tv = None"
| "pong_wait pause (None # keys) tv = do { tv \<leftarrow> pause tv; pong_wait pause keys tv }"
| "pong_wait pause (Some k # keys) tv = Some tv"

fun pong_loop ::
  "('w, 'x) bus_scheme \<Rightarrow> (('t, 'u) timer \<times> 'v \<Rightarrow> (('t, 'u) timer \<times> 'v) option) \<Rightarrow> 'f float_ops \<Rightarrow> u8 option list \<Rightarrow>
    'f pong \<Rightarrow> ('t, 'u) timer \<times> 'v \<Rightarrow> 'w console \<Rightarrow> ('f pong \<times> (('t, 'u) timer \<times> 'v) \<times> 'w console) option" where
  "pong_loop B tick F [] p tv c = None"
| "pong_loop B tick F (key # keys) p tv c =
     (if key = Some 113
      then do { c \<leftarrow> console_clear c;
                c \<leftarrow> console_printf B exiting_pong [] c;
                c \<leftarrow> console_printf B pong_continue [] c;
                tv \<leftarrow> pong_wait (usleep tick 10000) keys tv;
                c \<leftarrow> console_clear c;
                Some (p\<lparr>ball_speed_multiplier := float_one F, ball_base_speed := 5\<rparr>, tv, c) }
      else do { p \<leftarrow> keyed_turn F (g_width (con_screen c)) (g_height (con_screen c)) key p;
                c \<leftarrow> pong_draw_game B p c;
                tv \<leftarrow> usleep tick 15 tv;
                pong_loop B tick F keys p tv c })"

definition pong_game ::
  "('w, 'x) bus_scheme \<Rightarrow> (('t, 'u) timer \<times> 'v \<Rightarrow> (('t, 'u) timer \<times> 'v) option) \<Rightarrow> 'f float_ops \<Rightarrow> u8 option list \<Rightarrow>
    'f pong \<Rightarrow> ('t, 'u) timer \<times> 'v \<Rightarrow> 'w console \<Rightarrow> ('f pong \<times> (('t, 'u) timer \<times> 'v) \<times> 'w console) option" where
  "pong_game B tick F keys p tv c =
     pong_loop B tick F keys (pong_start (g_width (con_screen c)) (g_height (con_screen c)) p) tv c"

section \<open>The paddles and the speed\<close>

definition pong_ok :: "u32 \<Rightarrow> 'f pong \<Rightarrow> bool" where
  "pong_ok h p \<longleftrightarrow> left_paddle_y p \<le> h - PADDLE_HEIGHT \<and> right_paddle_y p \<le> h - PADDLE_HEIGHT \<and>
     ball_base_speed p = 5 \<and> \<bar>ball_vel_x p\<bar> = 5 \<and> \<bar>ball_vel_y p\<bar> \<le> 10"

text \<open>A paddle moves by at most ten pixels, and stays between the borders.\<close>

definition near :: "u32 \<Rightarrow> u32 \<Rightarrow> bool" where
  "near y y' \<longleftrightarrow> \<bar>uint y' - uint y\<bar> \<le> 10"

lemma near_refl [simp]: "near y y"
  by (simp add: near_def)

lemma paddle_ok:
  assumes "40 \<le> h" "y \<le> h - 40"
  shows "paddle_up y \<le> h - 40 \<and> near y (paddle_up y)" "paddle_down h y \<le> h - 40 \<and> near y (paddle_down h y)"
  using assms unsigned_less [of h, where ?'a = int] unsigned_less [of y, where ?'a = int] unsigned_greater_eq [of y, where ?'a = int]
  by (auto simp: paddle_up_def paddle_down_def near_def word_le_def word_less_def uint_sub_if' uint_plus_if' Let_def)

lemma ai_move_ok:
  assumes "40 \<le> h" "pong_ok h p"
  shows "pong_ok h (ai_move h p) \<and> near (right_paddle_y p) (right_paddle_y (ai_move h p)) \<and>
    left_paddle_y (ai_move h p) = left_paddle_y p"
  using assms paddle_ok [of h "right_paddle_y p"] by (auto simp: ai_move_def pong_ok_def Let_def)

text \<open>Between the moves of the paddles and the clamp the vertical speed may be larger.\<close>

definition loose :: "u32 \<Rightarrow> 'f pong \<Rightarrow> bool" where
  "loose h p \<longleftrightarrow> left_paddle_y p \<le> h - PADDLE_HEIGHT \<and> right_paddle_y p \<le> h - PADDLE_HEIGHT \<and>
     ball_base_speed p = 5 \<and> \<bar>ball_vel_x p\<bar> = 5 \<and> \<bar>ball_vel_y p\<bar> < 2 ^ 31"

definition same_paddles :: "'f pong \<Rightarrow> 'f pong \<Rightarrow> bool" where
  "same_paddles p p' \<longleftrightarrow> left_paddle_y p' = left_paddle_y p \<and> right_paddle_y p' = right_paddle_y p"

lemma hit_speed_bound: "\<bar>hit_speed y p\<bar> < 2 ^ 31"
proof -
  define k where "k = sint (ball_y p + BALL_SIZE div 2 - (y + PADDLE_HEIGHT div 2))"
  have k: "- (2 ^ 31) \<le> k" "k < 2 ^ 31" unfolding k_def
    using sint_greater_eq [of "ball_y p + BALL_SIZE div 2 - (y + PADDLE_HEIGHT div 2)"]
      sint_less [of "ball_y p + BALL_SIZE div 2 - (y + PADDLE_HEIGHT div 2)"] by simp_all
  have "\<bar>k sdiv 3\<bar> = \<bar>k\<bar> div 3" by (simp add: signed_divide_int_def abs_mult sgn_if)
  then have "\<bar>k sdiv 3\<bar> < 2 ^ 31" using k by linarith
  then show ?thesis by (simp add: hit_speed_def k_def Let_def)
qed

lemma bounces_ok:
  assumes "loose h p"
  shows "runs (left_bounce F p) (\<lambda>p'. loose h p' \<and> same_paddles p p' \<and>
      (p' = p \<or> ball_vel_x p' = 5 \<and> ball_x p' = 15))"
    and "runs (right_bounce F w p) (\<lambda>p'. loose h p' \<and> same_paddles p p' \<and>
      (p' = p \<or> ball_vel_x p' = - 5 \<and> ball_x p' = w - 20))"
    and "runs (clamp_speed p) (\<lambda>p'. pong_ok h p' \<and> same_paddles p p')"
  using assms hit_speed_bound [of "left_paddle_y p" p] hit_speed_bound [of "right_paddle_y p" p]
  by (auto simp: left_bounce_def right_bounce_def clamp_speed_def abs_c_def chk_int_def int_ok_def loose_def pong_ok_def same_paddles_def)

lemma vertical_bounce_ok:
  assumes "loose h p"
  shows "runs (vertical_bounce h p) (\<lambda>p'. loose h p' \<and> same_paddles p p')"
  using assms by (auto simp: vertical_bounce_def chk_int_def int_ok_def loose_def same_paddles_def)

lemma pong_key_ok:
  assumes "40 \<le> h" "pong_ok h p"
  shows "pong_ok h (pong_key h k p) \<and> near (left_paddle_y p) (left_paddle_y (pong_key h k p)) \<and>
    right_paddle_y (pong_key h k p) = right_paddle_y p"
  using assms paddle_ok [of h "left_paddle_y p"] by (auto simp: pong_key_def pong_ok_def)

lemma bounce_chain:
  assumes "loose h p"
  shows "runs (do { p \<leftarrow> vertical_bounce h p; p \<leftarrow> left_bounce F p; p \<leftarrow> right_bounce F w p; clamp_speed p })
    (\<lambda>p'. pong_ok h p' \<and> same_paddles p p')"
  unfolding runs_simps
  by (rule runs_mono [OF vertical_bounce_ok [OF assms]], elim conjE,
      rule runs_mono [OF bounces_ok(1)], assumption, elim conjE,
      rule runs_mono [OF bounces_ok(2)], assumption, elim conjE,
      rule runs_mono [OF bounces_ok(3)], assumption, simp add: same_paddles_def)

text \<open>C37. The paddles of Pong and the base velocity of the ball, on a screen at least 40 pixels high and whatever the
  arithmetic on \<open>float\<close> is: from the start on both paddles stay between the borders, and each moves by at most ten
  pixels in a turn; the base velocity of the ball is always five across, in one of the directions, and at most ten up or
  down.  The movement of the ball itself is that velocity times the factor, which is not bounded; the only way
  a turn can fail is that a coordinate of the ball does not fit its 32 bits any more.
\<close>

theorem pong_turn_keeps:
  assumes h: "40 \<le> h"
  shows "(ball_base_speed p = 5 \<longrightarrow> pong_ok h (pong_start w h p)) \<and>
    (pong_ok h p \<longrightarrow>
      (case keyed_turn F w h key p of
         None \<Rightarrow> float_move F (ball_x p) (ball_vel_x p) (ball_speed_multiplier p) = None \<or>
                 float_move F (ball_y p) (ball_vel_y p) (ball_speed_multiplier p) = None
       | Some p' \<Rightarrow> pong_ok h p' \<and> near (left_paddle_y p) (left_paddle_y p') \<and> near (right_paddle_y p) (right_paddle_y p')))"
proof (intro conjI impI)
  assume "ball_base_speed p = 5"
  moreover have "(h - 40) div 2 \<le> h - 40" by (simp add: word_le_nat_alt)
  ultimately show "pong_ok h (pong_start w h p)" by (simp add: pong_start_def pong_ok_def)
next
  assume ok: "pong_ok h p"
  define q where "q = (case key of None \<Rightarrow> p | Some k \<Rightarrow> pong_key h k p)"
  have q: "pong_ok h q" "near (left_paddle_y p) (left_paddle_y q)" "right_paddle_y q = right_paddle_y p"
    using ok pong_key_ok [OF h ok] by (auto simp: q_def split: option.split)
  define r where "r = ai_move h q"
  have r: "pong_ok h r" "near (right_paddle_y q) (right_paddle_y r)" "left_paddle_y r = left_paddle_y q"
    using ai_move_ok [OF h q(1)] by (simp_all add: r_def)
  have ball: "ball_x r = ball_x p" "ball_y r = ball_y p" "ball_vel_x r = ball_vel_x p" "ball_vel_y r = ball_vel_y p"
    "ball_speed_multiplier r = ball_speed_multiplier p"
    by (simp_all add: r_def q_def ai_move_def pong_key_def Let_def split: option.split)
  show "case keyed_turn F w h key p of
         None \<Rightarrow> float_move F (ball_x p) (ball_vel_x p) (ball_speed_multiplier p) = None \<or>
                 float_move F (ball_y p) (ball_vel_y p) (ball_speed_multiplier p) = None
       | Some p' \<Rightarrow> pong_ok h p' \<and> near (left_paddle_y p) (left_paddle_y p') \<and> near (right_paddle_y p) (right_paddle_y p')"
  proof (cases "ball_move F r")
    case None
    then have "keyed_turn F w h key p = None" by (simp add: keyed_turn_def pong_turn_def q_def r_def)
    then show ?thesis using None by (auto simp: ball_move_def bind_eq_None_conv ball)
  next
    case (Some b)
    then have "loose h b" "same_paddles r b"
      using r(1) by (auto simp: ball_move_def bind_eq_Some_conv pong_ok_def loose_def same_paddles_def)
    then obtain p' where "keyed_turn F w h key p = Some p'" "pong_ok h p'" "same_paddles b p'"
      using bounce_chain [of h b F w] Some unfolding keyed_turn_def pong_turn_def q_def [symmetric] r_def [symmetric] Let_def
      by (auto simp: runs_iff)
    then show ?thesis using q r \<open>same_paddles r b\<close> by (simp add: same_paddles_def)
  qed
qed

text \<open>Exact arithmetic on integers, with the factor always 1.\<close>

definition exact_floats :: "unit float_ops" where
  "exact_floats = \<lparr>float_one = (), float_faster = \<lambda>_. (),
     float_move = \<lambda>x v f. if 0 \<le> uint x + v \<and> uint x + v < 2 ^ 32 then Some (word_of_int (uint x + v)) else None\<rparr>"

definition demo_pong :: "unit pong" where
  "demo_pong = pong_start 640 480 \<lparr>left_paddle_y = 0, right_paddle_y = 0, ball_x = 0, ball_y = 0, ball_vel_x = 0, ball_vel_y = 0,
     ball_base_speed = 5, ball_speed_multiplier = ()\<rparr>"

theorem pong_turn_keeps_witness:
  "\<exists>p'. keyed_turn exact_floats 640 480 (Some 119) demo_pong = Some p' \<and> pong_ok 480 p'"
proof -
  have "pong_ok 480 demo_pong" unfolding demo_pong_def by (rule pong_turn_keeps [THEN conjunct1, THEN mp]) simp_all
  moreover have "float_move exact_floats (ball_x demo_pong) (ball_vel_x demo_pong) () \<noteq> None"
    "float_move exact_floats (ball_y demo_pong) (ball_vel_y demo_pong) () \<noteq> None"
    by (simp_all add: exact_floats_def demo_pong_def pong_start_def)
  ultimately show ?thesis
    using pong_turn_keeps [of 480 demo_pong 640 exact_floats "Some 119"] by (auto split: option.splits)
qed

end
