(* ===== verification/ShellPath.thy ===== *)
theory ShellPath
  imports CString
begin

text \<open>
  The resolution of paths in \<open>src/shell/shell.c\<close> (\<open>resolve_path\<close>): a path that need not start with a slash is put behind
  the current one, split at its slashes with \<open>strtok\<close>, the components \<open>.\<close> and \<open>..\<close> are worked off on a stack of
  pointers, and what is left is written out in capital letters.  The pointers are offsets into the local
  buffer; a store outside a buffer is \<open>None\<close>.
\<close>

abbreviation (input) SLASH :: u8 where "SLASH \<equiv> 47"
abbreviation (input) DOT :: u8 where "DOT \<equiv> 46"

section \<open>Operations\<close>

text \<open>The local buffer \<open>combined\<close> of 512 bytes; its old contents are never read.\<close>

definition combine :: "u8 list \<Rightarrow> u8 list \<Rightarrow> u8 list option" where
  "combine current path =
     do { combined \<leftarrow> wr (replicate 512 0) 0 0;
          c \<leftarrow> rd path 0;
          combined \<leftarrow>
            (if c = SLASH then strncpy combined path 512
             else do {
               combined \<leftarrow> strncpy combined current 512;
               current_len \<leftarrow> strlen current;
               needs \<leftarrow> (if current_len > 0 then do { l \<leftarrow> rd current (current_len - 1); Some (l \<noteq> SLASH) } else Some False);
               combined \<leftarrow> (if needs then do { n \<leftarrow> strlen combined; strncat combined [SLASH, 0] (512 - n - 1) } else Some combined);
               n \<leftarrow> strlen combined;
               strncat combined path (512 - n - 1) });
          wr combined 511 0 }"

text \<open>One token, and the loop over the tokens; \<open>comps\<close> are the first \<open>num_components\<close> pointers.\<close>

definition push_component :: "u8 list \<Rightarrow> nat \<Rightarrow> nat list \<Rightarrow> nat list option" where
  "push_component buf t comps =
     do { d \<leftarrow> strcmp (drop t buf) [DOT, 0];
          if d = 0 then Some comps
          else do { dd \<leftarrow> strcmp (drop t buf) [DOT, DOT, 0];
                    Some (if dd = 0 then butlast comps else comps @ [t]) } }"

partial_function (option) resolve_loop :: "u8 list \<Rightarrow> nat option \<Rightarrow> nat option \<Rightarrow> nat list \<Rightarrow> (u8 list \<times> nat list) option" where
  "resolve_loop buf lst token comps =
     (case token of
        None \<Rightarrow> Some (buf, comps)
      | Some t \<Rightarrow>
          if length comps \<ge> 256 then Some (buf, comps)
          else do {
            comps \<leftarrow> push_component buf t comps;
            (token, buf, lst) \<leftarrow> strtok buf lst None [SLASH, 0];
            resolve_loop buf lst token comps })"

text \<open>A component in capital letters, in the local buffer \<open>upper\<close> of 13 bytes.\<close>

primrec copy_upper :: "nat \<Rightarrow> nat \<Rightarrow> u8 list \<Rightarrow> u8 list \<Rightarrow> u8 list option" where
  "copy_upper 0 j s u = Some u"
| "copy_upper (Suc n) j s u = do { c \<leftarrow> rd s j; u \<leftarrow> wr u j (word_of_int (toupper (sint c))); copy_upper n (Suc j) s u }"

definition upper_name :: "u8 list \<Rightarrow> u8 list option" where
  "upper_name s = do { n \<leftarrow> strlen s; u \<leftarrow> copy_upper (min n 12) 0 s (replicate 13 0); wr u n 0 }"

fun emit :: "nat \<Rightarrow> u8 list \<Rightarrow> nat list \<Rightarrow> nat \<Rightarrow> u8 list \<Rightarrow> (nat \<times> u8 list) option" where
  "emit resolved_size buf [] pos resolved = Some (pos, resolved)"
| "emit resolved_size buf (c # cs) pos resolved =
     do { upper \<leftarrow> upper_name (drop c buf);
          len \<leftarrow> strlen upper;
          if pos + len + 1 > resolved_size then Some (pos, resolved)
          else do { r \<leftarrow> memcpy (drop pos resolved) upper len;
                    resolved \<leftarrow> wr (take pos resolved @ r) (pos + len) SLASH;
                    emit resolved_size buf cs (pos + len + 1) resolved } }"

definition resolve_path :: "u8 list \<Rightarrow> u8 list \<Rightarrow> u8 list \<Rightarrow> nat \<Rightarrow> u8 list option" where
  "resolve_path current path resolved resolved_size =
     do { combined \<leftarrow> combine current path;
          (token, combined, lst) \<leftarrow> strtok combined None (Some 0) [SLASH, 0];
          (combined, comps) \<leftarrow> resolve_loop combined lst token [];
          resolved \<leftarrow> wr resolved 0 SLASH;
          (pos, resolved) \<leftarrow> emit resolved_size combined comps 1 resolved;
          if pos > 1 then wr resolved (pos - 1) 0 else wr resolved 1 0 }"

section \<open>The reference\<close>

text \<open>The non-empty pieces between the slashes.\<close>

function pieces :: "u8 list \<Rightarrow> u8 list list" where
  "pieces [] = []"
| "pieces (c # s) =
     (if c = SLASH then pieces s
      else (c # takeWhile (\<lambda>x. x \<noteq> SLASH) s) # pieces (dropWhile (\<lambda>x. x \<noteq> SLASH) s))"
  by pat_completeness auto

termination pieces
  by (relation "measure length") (auto simp: less_Suc_eq_le length_dropWhile_le)

text \<open>\<open>.\<close> stays, \<open>..\<close> goes up (not above the root), any other name goes down.\<close>

definition walk1 :: "u8 list \<Rightarrow> u8 list list \<Rightarrow> u8 list list" where
  "walk1 name dir = (if name = [DOT] then dir else if name = [DOT, DOT] then butlast dir else dir @ [name])"

definition walk :: "u8 list list \<Rightarrow> u8 list list \<Rightarrow> u8 list list" where
  "walk names dir = fold walk1 names dir"

definition capital :: "u8 \<Rightarrow> u8" where
  "capital c = word_of_int (toupper (sint c))"

text \<open>A directory as a path: the root is a slash, otherwise a slash stands before every name.\<close>

definition render :: "u8 list list \<Rightarrow> u8 list" where
  "render dir = (if dir = [] then [SLASH] else concat (map (\<lambda>n. SLASH # map capital n) dir))"

text \<open>The path that \<open>path\<close> means seen from \<open>current\<close>, and the directory it names.\<close>

definition joined :: "u8 list \<Rightarrow> u8 list \<Rightarrow> u8 list" where
  "joined current path =
     (if path \<noteq> [] \<and> hd path = SLASH then path
      else current @ (if current \<noteq> [] \<and> last current \<noteq> SLASH then [SLASH] else []) @ path)"

definition target :: "u8 list \<Rightarrow> u8 list \<Rightarrow> u8 list list" where
  "target current path = walk (pieces (joined current path)) []"

section \<open>The combined path\<close>

lemma strncat_ok:
  assumes "cstr d xs" "cstr s ys" "length xs + min n (length ys) < length d"
  shows "\<exists>r. strncat d s n = Some r \<and> cstr r (xs @ take n ys) \<and> length r = length d"
proof -
  obtain rest where d: "d = xs @ 0 # rest" "0 \<notin> set xs" using assms(1) by (auto simp: cstr_def)
  have y: "0 \<notin> set (take n ys)" using assms(2) by (auto simp: cstr_def dest: in_set_takeD)
  have "strncat_copy (0 # rest) s n = Some (take n ys @ 0 # drop (min n (length ys)) rest)"
    using strncat_copy_ok [OF assms(2), of n "0 # rest"] assms(3) d by simp
  then have "strncat d s n = Some (xs @ take n ys @ 0 # drop (min n (length ys)) rest)"
    using strlen_cstr [OF assms(1)] by (simp add: strncat_def d)
  then show ?thesis using d y assms(3) by (auto simp: cstr_def)
qed

lemma combine_ok:
  assumes cur: "cstr current cur" and path: "cstr path p" and len: "length (joined cur p) < 512"
  shows "\<exists>b. combine current path = Some b \<and> cstr b (joined cur p) \<and> length b = 512"
proof -
  have w0: "wr (replicate 512 0) 0 0 = Some (replicate 512 (0 :: u8))" by (simp add: wr_def list_update_same_conv)
  have last: "\<exists>b'. wr b 511 0 = Some b' \<and> cstr b' xs \<and> length b' = 512" if b0: "cstr b xs" and l: "length b = 512" "length xs < 512" for b xs
  proof -
    obtain rest where b: "b = xs @ 0 # rest" "0 \<notin> set xs" using b0 by (auto simp: cstr_def)
    have "b[511 := 0] = xs @ (0 # rest)[511 - length xs := 0]" using l(2) by (simp add: b list_update_append)
    moreover have "\<exists>rest'. (0 # rest)[511 - length xs := 0] = 0 # rest'" by (cases "511 - length xs") auto
    ultimately have "\<exists>rest'. b[511 := 0] = xs @ 0 # rest'" by simp
    then show ?thesis using b(2) l(1) by (intro exI [of _ "b[511 := 0]"]) (auto simp: cstr_def wr_def)
  qed
  have cpy: "\<exists>b. strncpy (replicate 512 0) s 512 = Some b \<and> cstr b xs \<and> length b = 512" if "cstr s xs" "length xs < 512" for s xs
    using strncpy_ok [OF that(1), of 512 "replicate 512 0"] that
    by (auto simp: cstr_def intro!: exI [of _ "replicate (511 - length xs) 0"] simp flip: replicate_Suc)
  obtain c where c: "rd path 0 = Some c" "c = SLASH \<longleftrightarrow> p \<noteq> [] \<and> hd p = SLASH"
    using path by (cases p) (auto simp: cstr_def)
  show ?thesis
  proof (cases "c = SLASH")
    case True
    then have j: "joined cur p = p" using c by (simp add: joined_def)
    obtain b where "strncpy (replicate 512 0) path 512 = Some b" "cstr b p" "length b = 512"
      using cpy [OF path] len j by auto
    moreover from this obtain b' where "wr b 511 0 = Some b'" "cstr b' p" "length b' = 512" using last [of b p] len j by auto
    ultimately show ?thesis using True c(1) w0 by (simp add: combine_def j del: rd_Some_iff wr_Some_iff)
  next
    case False
    define sl where "sl = (if cur \<noteq> [] \<and> last cur \<noteq> SLASH then [SLASH] else [])"
    have j: "joined cur p = cur @ sl @ p" using c False by (auto simp: joined_def sl_def)
    have n: "length cur + length sl + length p < 512" using len by (simp add: j)
    obtain b where b: "strncpy (replicate 512 0) current 512 = Some b" "cstr b cur" "length b = 512"
      using cpy [OF cur] n by auto
    obtain rest where cr: "current = cur @ 0 # rest" using cur by (auto simp: cstr_def)
    have needs: "(if length cur > 0 then do { l \<leftarrow> rd current (length cur - 1); Some (l \<noteq> SLASH) } else Some False) = Some (sl \<noteq> [])"
      by (auto simp: cr sl_def rd_def nth_append last_conv_nth)
    have "\<exists>b'. (if sl \<noteq> [] then do { n \<leftarrow> strlen b; strncat b [SLASH, 0] (512 - n - 1) } else Some b) = Some b' \<and>
        cstr b' (cur @ sl) \<and> length b' = 512"
    proof (cases "sl = []")
      case False
      then have "sl = [SLASH]" by (simp add: sl_def split: if_splits)
      moreover have "cstr [SLASH, 0] [SLASH]" by simp
      ultimately show ?thesis
        using strncat_ok [OF b(2) \<open>cstr [SLASH, 0] [SLASH]\<close>, of "512 - length cur - 1"] b n strlen_cstr [OF b(2)] by auto
    qed (use b in simp)
    then obtain b' where b': "(if sl \<noteq> [] then do { n \<leftarrow> strlen b; strncat b [SLASH, 0] (512 - n - 1) } else Some b) = Some b'"
      "cstr b' (cur @ sl)" "length b' = 512" by blast
    obtain b'' where b'': "strncat b' path (512 - length (cur @ sl) - 1) = Some b''" "cstr b'' (cur @ sl @ p)" "length b'' = 512"
      using strncat_ok [OF b'(2) path, of "512 - length (cur @ sl) - 1"] b' n by auto
    moreover obtain b3 where "wr b'' 511 0 = Some b3" "cstr b3 (cur @ sl @ p)" "length b3 = 512"
      using last [OF b''(2,3)] n by auto
    ultimately show ?thesis
      using False c(1) w0 b b' needs strlen_cstr [OF b'(2)] strlen_cstr [OF cur]
      by (simp add: combine_def j del: rd_Some_iff wr_Some_iff)
  qed
qed

section \<open>Tokens\<close>

text \<open>What is left to split: the pointer \<open>strtok\<close> keeps, or nothing.\<close>

definition token_scan :: "u8 list \<Rightarrow> nat option \<Rightarrow> u8 list \<Rightarrow> bool" where
  "token_scan buf lst s \<longleftrightarrow> (case lst of None \<Rightarrow> s = [] | Some p \<Rightarrow> cstr (drop p buf) s)"

lemma strchr_slash: "c \<noteq> 0 \<Longrightarrow> (strchr [SLASH, 0] (sint c) = Some d) \<Longrightarrow> d = None \<longleftrightarrow> c \<noteq> SLASH" for c :: u8
  by (auto simp: strchr_def split: if_splits)

lemma strchr_defined: "\<exists>d. strchr [SLASH, 0] (sint c) = Some d" for c :: u8
  by (simp add: strchr_def)

lemma cstr_drop: "cstr (drop p buf) (c # s) \<Longrightarrow> p < length buf \<and> buf ! p = c \<and> c \<noteq> 0 \<and> cstr (drop (Suc p) buf) s"
  by (cases "p < length buf") (auto simp: Cons_nth_drop_Suc [symmetric])

lemma cstr_drop_Nil: "cstr (drop p buf) [] \<Longrightarrow> p < length buf \<and> buf ! p = 0"
  by (cases "p < length buf") (auto simp: Cons_nth_drop_Suc [symmetric])

lemma skip_ok:
  "cstr (drop p buf) s \<Longrightarrow> strtok_skip buf [SLASH, 0] p = Some (p + length (takeWhile (\<lambda>x. x = SLASH) s))"
proof (induction s arbitrary: p)
  case Nil
  then show ?case using cstr_drop_Nil by (subst strtok_skip.simps) simp
next
  case (Cons c s)
  note c = cstr_drop [OF Cons.prems]
  obtain d where d: "strchr [SLASH, 0] (sint c) = Some d" using strchr_defined by blast
  show ?case using Cons.IH [of "Suc p"] c d strchr_slash [OF _ d] by (subst strtok_skip.simps) auto
qed

lemma end_ok:
  "cstr (drop p buf) s \<Longrightarrow> strtok_end buf [SLASH, 0] p = Some (p + length (takeWhile (\<lambda>x. x \<noteq> SLASH) s))"
proof (induction s arbitrary: p)
  case Nil
  then show ?case using cstr_drop_Nil by (subst strtok_end.simps) simp
next
  case (Cons c s)
  note c = cstr_drop [OF Cons.prems]
  obtain d where d: "strchr [SLASH, 0] (sint c) = Some d" using strchr_defined by blast
  show ?case using Cons.IH [of "Suc p"] c d strchr_slash [OF _ d] by (subst strtok_end.simps) auto
qed

lemma pieces_skip: "pieces s = pieces (dropWhile (\<lambda>x. x = SLASH) s)"
  by (induction s) auto

lemma cstr_drop_append: "cstr (drop p buf) (xs @ ys) \<Longrightarrow> cstr (drop (p + length xs) buf) ys"
proof -
  assume a: "cstr (drop p buf) (xs @ ys)"
  then obtain rest where d: "drop p buf = xs @ ys @ 0 # rest" and nz: "0 \<notin> set ys" by (auto simp: cstr_def)
  have "drop (p + length xs) buf = drop (length xs) (drop p buf)" by (simp add: add.commute)
  also have "\<dots> = ys @ 0 # rest" unfolding d by simp
  finally show ?thesis using nz by (simp add: cstr_def)
qed

lemma cstr_drop_bound: "cstr (drop p buf) s \<Longrightarrow> p + length s < length buf"
proof -
  assume "cstr (drop p buf) s"
  then obtain rest where "drop p buf = s @ 0 # rest" by (auto simp: cstr_def)
  then have "length (drop p buf) = length s + Suc (length rest)" by simp
  then show ?thesis by simp
qed

text \<open>
  One call: the next piece, ended by a \<open>NUL\<close> of its own, and the rest; nothing before the place where the search
  started is changed.
\<close>

lemma strtok_step:
  assumes s: "cstr (drop p buf) s" and start: "(case str of Some q \<Rightarrow> Some q | None \<Rightarrow> lst) = Some p"
  shows "\<exists>token buf' lst'. strtok buf lst str [SLASH, 0] = Some (token, buf', lst') \<and> length buf' = length buf \<and>
    (case pieces s of
       [] \<Rightarrow> token = None \<and> buf' = buf
     | t # ts \<Rightarrow> \<exists>q s'. token = Some q \<and> p \<le> q \<and> cstr (drop q buf') t \<and> take q buf' = take q buf \<and>
         token_scan buf' lst' s' \<and> pieces s' = ts \<and> (\<forall>p'. lst' = Some p' \<longrightarrow> q + length t < p'))"
proof -
  define q where "q = p + length (takeWhile (\<lambda>x. x = SLASH) s)"
  define s1 where "s1 = dropWhile (\<lambda>x. x = SLASH) s"
  have s1: "cstr (drop q buf) s1"
    using cstr_drop_append [of p buf "takeWhile (\<lambda>x. x = SLASH) s" s1] s by (simp add: q_def s1_def)
  have skip: "strtok_skip buf [SLASH, 0] p = Some q" using skip_ok [OF s] by (simp add: q_def)
  have ps: "pieces s = pieces s1" using pieces_skip by (simp add: s1_def)
  show ?thesis
  proof (cases s1)
    case Nil
    then have "rd buf q = Some 0" using cstr_drop_Nil [of q buf] s1 by simp
    then have "strtok buf lst str [SLASH, 0] = Some (None, buf, Some q)"
      using skip start by (simp add: strtok_def del: rd_Some_iff)
    then show ?thesis using ps Nil by simp
  next
    case (Cons c r)
    have c: "c \<noteq> SLASH" using Cons hd_dropWhile [of "\<lambda>x. x = SLASH" s] by (auto simp: s1_def)
    note cq = cstr_drop [OF s1 [unfolded Cons]]
    define t where "t = takeWhile (\<lambda>x. x \<noteq> SLASH) s1"
    define s2 where "s2 = dropWhile (\<lambda>x. x \<noteq> SLASH) s1"
    define e where "e = q + length t"
    have pieces: "pieces s = t # pieces s2" using c by (simp add: ps Cons t_def s2_def)
    have split: "s1 = t @ s2" by (simp add: t_def s2_def)
    have endp: "strtok_end buf [SLASH, 0] q = Some e" using end_ok [OF s1] by (simp add: e_def t_def)
    have s2: "cstr (drop e buf) s2" using cstr_drop_append [of q buf t s2] s1 by (simp add: e_def split)
    have rq: "rd buf q = Some c" "c \<noteq> 0" using cq by simp_all
    show ?thesis
    proof (cases s2)
      case Nil
      then have "rd buf e = Some 0" using cstr_drop_Nil [of e buf] s2 by simp
      then have "strtok buf lst str [SLASH, 0] = Some (Some q, buf, None)"
        using skip start endp rq by (simp add: strtok_def del: rd_Some_iff)
      moreover have "cstr (drop q buf) t" using s1 split Nil by simp
      moreover have "p \<le> q" by (simp add: q_def)
      ultimately show ?thesis using pieces Nil
        by (intro exI [of _ "Some q"] exI [of _ buf] exI [of _ None]) (auto simp: token_scan_def intro!: exI [of _ "[]"])
    next
      case (Cons d r2)
      have d: "d = SLASH" using Cons hd_dropWhile [of "\<lambda>x. x \<noteq> SLASH" s1] by (auto simp: s2_def)
      note ce = cstr_drop [OF s2 [unfolded Cons]]
      have "rd buf e = Some d" "d \<noteq> 0" using ce by simp_all
      moreover have "wr buf e 0 = Some (buf[e := 0])" using ce by (simp add: wr_def)
      ultimately have "strtok buf lst str [SLASH, 0] = Some (Some q, buf[e := 0], Some (Suc e))"
        using skip start endp rq by (simp add: strtok_def del: rd_Some_iff wr_Some_iff)
      moreover have "cstr (drop q (buf[e := 0])) t"
      proof -
        obtain rest where "drop q buf = t @ d # rest" and nz: "0 \<notin> set t" using s1 split Cons by (auto simp: cstr_def)
        then have "drop q (buf[e := 0]) = t @ 0 # rest" by (simp add: drop_update_swap e_def list_update_append)
        then show ?thesis using nz by (simp add: cstr_def)
      qed
      moreover have "token_scan (buf[e := 0]) (Some (Suc e)) r2" using ce by (simp add: token_scan_def)
      moreover have "p \<le> q" "q \<le> e" by (simp_all add: q_def e_def)
      ultimately show ?thesis using pieces Cons d
        by (intro exI [of _ "Some q"] exI [of _ "buf[e := 0]"] exI [of _ "Some (Suc e)"])
          (auto simp: e_def intro!: exI [of _ r2])
    qed
  qed
qed

section \<open>The stack of components\<close>

lemma cstr_take: "cstr p n \<longleftrightarrow> 0 \<notin> set n \<and> take (Suc (length n)) p = n @ [0]"
proof
  assume "0 \<notin> set n \<and> take (Suc (length n)) p = n @ [0]"
  then show "cstr p n" using append_take_drop_id [of "Suc (length n)" p] by (metis append.assoc append_Cons append_Nil cstr_def)
qed (auto simp: cstr_def)

text \<open>The pointers \<open>cs\<close> point to the strings \<open>names\<close>, which lie before the place \<open>bound\<close>.\<close>

definition held :: "u8 list \<Rightarrow> nat \<Rightarrow> nat list \<Rightarrow> u8 list list \<Rightarrow> bool" where
  "held buf bound = list_all2 (\<lambda>c n. cstr (drop c buf) n \<and> c + length n < bound)"

lemma held_change:
  assumes "held buf bound cs names" "take b buf' = take b buf" "bound \<le> b"
  shows "held buf' bound cs names"
proof -
  have "cstr (drop c buf') n" if "cstr (drop c buf) n" "c + length n < bound" for c n
  proof -
    have "take (Suc (length n)) (drop c buf') = drop c (take (c + Suc (length n)) buf')" for buf' :: "u8 list"
      by (simp add: take_drop add.commute)
    moreover have "take (c + Suc (length n)) buf' = take (c + Suc (length n)) buf"
      using assms(2,3) that(2) by (metis add_Suc_right less_eq_Suc_le min.absorb1 order_trans take_take)
    ultimately show ?thesis using that(1) by (simp add: cstr_take)
  qed
  then show ?thesis using assms(1) unfolding held_def by (auto elim: list_all2_mono)
qed

lemma list_all2_butlast: "list_all2 P xs ys \<Longrightarrow> list_all2 P (butlast xs) (butlast ys)"
  by (auto simp: list_all2_conv_all_nth nth_butlast)

lemma held_walk1:
  assumes "held buf q cs names" "cstr (drop q buf) t"
  shows "\<exists>cs1. push_component buf q cs = Some cs1 \<and>
    held buf (Suc (q + length t)) cs1 (walk1 t names) \<and> length cs1 \<le> Suc (length cs)"
proof -
  obtain d where d: "strcmp (drop q buf) [DOT, 0] = Some d" "d = 0 \<longleftrightarrow> t = [DOT]"
    using strcmp_ok [OF assms(2), of "[DOT, 0]" "[DOT]"] by auto
  obtain dd where dd: "strcmp (drop q buf) [DOT, DOT, 0] = Some dd" "dd = 0 \<longleftrightarrow> t = [DOT, DOT]"
    using strcmp_ok [OF assms(2), of "[DOT, DOT, 0]" "[DOT, DOT]"] by auto
  have up: "held buf (Suc (q + length t)) cs names" using assms(1) unfolding held_def by (auto elim: list_all2_mono)
  then have "held buf (Suc (q + length t)) (butlast cs) (butlast names)" unfolding held_def by (rule list_all2_butlast)
  moreover have "held buf (Suc (q + length t)) (cs @ [q]) (names @ [t])"
    using up assms(2) unfolding held_def by (intro list_all2_appendI) simp_all
  ultimately show ?thesis using up d dd by (auto simp: walk1_def push_component_def)
qed

lemma resolve_loop_None: "resolve_loop buf lst None cs = Some (buf, cs)"
  by (subst resolve_loop.simps) simp

lemma resolve_loop_Some:
  assumes "length cs < 256" "push_component buf q cs = Some cs1" "strtok buf lst None [SLASH, 0] = Some (token, buf', lst')"
  shows "resolve_loop buf lst (Some q) cs = resolve_loop buf' lst' token cs1"
  using assms by (subst resolve_loop.simps) simp

lemma resolve_loop_ok:
  assumes "cstr (drop q buf) t" "token_scan buf lst s" "\<forall>p. lst = Some p \<longrightarrow> q + length t < p" "held buf q cs names"
    and "length cs + Suc (length (pieces s)) \<le> 256"
  shows "\<exists>buf' cs' bound. resolve_loop buf lst (Some q) cs = Some (buf', cs') \<and> held buf' bound cs' (walk (t # pieces s) names) \<and>
    bound \<le> length buf"
  using assms
proof (induction "pieces s" arbitrary: q buf t lst s cs names)
  case Nil
  obtain cs1 where cs1: "push_component buf q cs = Some cs1"
    "held buf (Suc (q + length t)) cs1 (walk1 t names)"
    using held_walk1 [OF Nil.prems(4,1)] by blast
  have "\<exists>lst'. strtok buf lst None [SLASH, 0] = Some (None, buf, lst')"
  proof (cases lst)
    case None
    then show ?thesis by (simp add: strtok_def)
  next
    case (Some p)
    then have "cstr (drop p buf) s" using Nil.prems(2) by (simp add: token_scan_def)
    from strtok_step [OF this, where str = None and lst = lst] show ?thesis using Some Nil.hyps [symmetric] by auto
  qed
  then obtain lst' where "strtok buf lst None [SLASH, 0] = Some (None, buf, lst')" by blast
  from resolve_loop_Some [OF _ cs1(1) this] have "resolve_loop buf lst (Some q) cs = Some (buf, cs1)"
    using Nil.prems(5) resolve_loop_None [of buf lst' cs1] by simp
  moreover have "Suc (q + length t) \<le> length buf" using cstr_drop_bound [OF Nil.prems(1)] by simp
  moreover have "walk (t # pieces s) names = walk1 t names" using Nil.hyps [symmetric] by (simp add: walk_def)
  ultimately show ?case using cs1(2) by metis
next
  case (Cons t' ts)
  obtain cs1 where cs1: "push_component buf q cs = Some cs1"
    "held buf (Suc (q + length t)) cs1 (walk1 t names)" "length cs1 \<le> Suc (length cs)"
    using held_walk1 [OF Cons.prems(4,1)] by blast
  obtain p where p: "lst = Some p" "cstr (drop p buf) s" "q + length t < p"
    using Cons.prems(2,3) Cons.hyps(2) by (auto simp: token_scan_def split: option.splits)
  obtain q' buf' lst' s' where st: "strtok buf lst None [SLASH, 0] = Some (Some q', buf', lst')" "length buf' = length buf"
    "p \<le> q'" "cstr (drop q' buf') t'" "take q' buf' = take q' buf" "token_scan buf' lst' s'" "pieces s' = ts"
    "\<forall>p'. lst' = Some p' \<longrightarrow> q' + length t' < p'"
    using strtok_step [OF p(2), where str = None and lst = lst] p(1) Cons.hyps(2) [symmetric] by auto
  have "held buf' (Suc (q + length t)) cs1 (walk1 t names)"
    by (rule held_change [OF cs1(2) st(5)]) (use p(3) st(3) in simp)
  then have "held buf' q' cs1 (walk1 t names)"
    using p(3) st(3) unfolding held_def by (auto elim: list_all2_mono)
  then have "\<exists>buf'' cs' bound. resolve_loop buf' lst' (Some q') cs1 = Some (buf'', cs') \<and>
      held buf'' bound cs' (walk (t' # pieces s') (walk1 t names)) \<and> bound \<le> length buf'"
    using Cons.hyps(1) [OF st(7) [symmetric] st(4,6,8)] Cons.prems(5) cs1(3) Cons.hyps(2) [symmetric] st(7) by simp
  moreover have "resolve_loop buf lst (Some q) cs = resolve_loop buf' lst' (Some q') cs1"
    using resolve_loop_Some [OF _ cs1(1) st(1)] Cons.prems(5) by simp
  ultimately show ?case using Cons.hyps(2) [symmetric] st(2,7) by (simp add: walk_def)
qed

lemma pieces_count: "2 * length (pieces s) \<le> length s + (if s = [] \<or> hd s = SLASH then 0 else 1)"
proof (induction s rule: pieces.induct)
  case (2 c s)
  define s' where "s' = dropWhile (\<lambda>x. x \<noteq> SLASH) s"
  have "s' = [] \<or> hd s' = SLASH" using hd_dropWhile [of "\<lambda>x. x \<noteq> SLASH" s] by (auto simp: s'_def)
  moreover have "length s' \<le> length s" by (simp add: s'_def length_dropWhile_le)
  ultimately show ?case using 2 by (auto simp: s'_def [symmetric] split: if_splits)
qed simp

section \<open>Writing the path\<close>

lemma copy_upper_ok:
  "j + n \<le> length s \<Longrightarrow> j + n \<le> length u \<Longrightarrow>
    copy_upper n j s u = Some (take j u @ map capital (take n (drop j s)) @ drop (j + n) u)"
proof (induction n arbitrary: j u)
  case (Suc n)
  let ?u = "u[j := capital (s ! j)]"
  have "copy_upper (Suc n) j s u = copy_upper n (Suc j) s ?u"
    using Suc.prems by (simp add: rd_def wr_def capital_def)
  also have "\<dots> = Some (take (Suc j) ?u @ map capital (take n (drop (Suc j) s)) @ drop (Suc j + n) ?u)"
    using Suc.prems by (intro Suc.IH) simp_all
  also have "take (Suc j) ?u = take j u @ [capital (s ! j)]" using Suc.prems by (simp add: take_Suc_conv_app_nth)
  finally show ?case using Suc.prems by (simp add: Cons_nth_drop_Suc [symmetric])
qed simp

lemma capital_nonzero: "c \<noteq> 0 \<Longrightarrow> capital c \<noteq> 0"
proof -
  assume "c \<noteq> 0"
  moreover have "\<forall>n \<in> set [1..<256]. capital (of_nat n) \<noteq> 0" by code_simp
  moreover have "unat c \<in> set [1..<256]" using \<open>c \<noteq> 0\<close> u8_bound [of c] by (auto simp: unat_eq_0 Suc_le_eq intro: gr0I)
  ultimately show ?thesis by fastforce
qed

lemma upper_name_ok:
  assumes "cstr s n"
  shows "if length n \<le> 12 then \<exists>u. upper_name s = Some u \<and> cstr u (map capital n) else upper_name s = None"
proof -
  obtain rest where s: "s = n @ 0 # rest" "0 \<notin> set n" using assms by (auto simp: cstr_def)
  define k where "k = min (length n) 12"
  have "copy_upper k 0 s (replicate 13 0) = Some (take 0 (replicate 13 0) @ map capital (take k (drop 0 s)) @ drop (0 + k) (replicate 13 0))"
    by (rule copy_upper_ok) (auto simp: s k_def)
  then have c: "copy_upper k 0 s (replicate 13 0) = Some (map capital (take k n) @ replicate (13 - k) 0)"
    by (simp add: s k_def)
  have up: "upper_name s = wr (map capital (take k n) @ replicate (13 - k) 0) (length n) 0"
    unfolding upper_name_def strlen_cstr [OF assms] bind.bind_lunit k_def [symmetric] c ..
  show ?thesis
  proof (cases "length n \<le> 12")
    case True
    then have "13 - k = Suc (12 - length n)" "take k n = n" by (simp_all add: k_def)
    then have "upper_name s = Some (map capital n @ 0 # replicate (12 - length n) 0)"
      by (simp add: up wr_def list_update_append)
    moreover have "0 \<notin> set (map capital n)" using s(2) capital_nonzero by (metis imageE list.set_map)
    ultimately show ?thesis using True by (auto simp: cstr_def)
  next
    case False
    then have "length (map capital (take k n) @ replicate (13 - k) (0 :: u8)) = 13" by (simp add: k_def)
    then show ?thesis using False by (simp add: up wr_def)
  qed
qed

lemma emit_ok:
  assumes "list_all2 (\<lambda>c n. cstr (drop c buf) n) cs names"
    and "length resolved = sz" "pos \<le> sz"
    and "pos + length (concat (map (\<lambda>n. n @ [SLASH]) names)) \<le> sz"
  shows "if \<exists>n \<in> set names. 12 < length n then emit sz buf cs pos resolved = None
    else \<exists>r. emit sz buf cs pos resolved = Some (pos + length (concat (map (\<lambda>n. n @ [SLASH]) names)), r) \<and> length r = sz \<and>
      take (pos + length (concat (map (\<lambda>n. n @ [SLASH]) names))) r = take pos resolved @ concat (map (\<lambda>n. map capital n @ [SLASH]) names)"
  using assms
proof (induction cs names arbitrary: pos resolved rule: list_all2_induct)
  case (Cons c cs n names)
  note up = upper_name_ok [OF Cons.hyps(1)]
  show ?case
  proof (cases "length n \<le> 12")
    case True
    then obtain u where u: "upper_name (drop c buf) = Some u" "cstr u (map capital n)" using up by auto
    obtain rest where ur: "u = map capital n @ 0 # rest" using u(2) by (auto simp: cstr_def)
    define pos' where "pos' = pos + length n + 1"
    have fit: "pos' \<le> sz" "pos' + length (concat (map (\<lambda>n. n @ [SLASH]) names)) \<le> sz"
      using Cons.prems(3) by (simp_all add: pos'_def)
    define res where "res = take pos resolved @ map capital n @ SLASH # drop pos' resolved"
    have m: "memcpy (drop pos resolved) u (length n) = Some (map capital n @ drop (pos + length n) resolved)"
      using memcpy_ok [of "length n" "drop pos resolved" u] Cons.prems(1,2) fit
      by (simp add: ur pos'_def add.commute)
    have "wr (take pos resolved @ map capital n @ drop (pos + length n) resolved) (pos + length n) SLASH = Some res"
    proof -
      have "drop (pos + length n) resolved = resolved ! (pos + length n) # drop pos' resolved"
        using fit Cons.prems(1) by (simp add: pos'_def Cons_nth_drop_Suc)
      then show ?thesis using Cons.prems(1) fit by (simp add: wr_def res_def list_update_append pos'_def)
    qed
    then have step: "emit sz buf (c # cs) pos resolved = emit sz buf cs pos' res"
      using fit u strlen_cstr [OF u(2)] m by (simp add: pos'_def del: wr_Some_iff)
    have len: "length res = sz" using fit Cons.prems(1,2) by (simp add: res_def pos'_def)
    have t: "take pos' res = take pos resolved @ map capital n @ [SLASH]"
      using Cons.prems(1,2) by (simp add: res_def pos'_def)
    have e: "pos + length (concat (map (\<lambda>n. n @ [SLASH]) (n # names))) = pos' + length (concat (map (\<lambda>n. n @ [SLASH]) names))"
      by (simp add: pos'_def)
    show ?thesis using Cons.IH [OF len fit] True unfolding step e
      by (cases "\<exists>n \<in> set names. 12 < length n") (auto simp: t)
  next
    case False
    then show ?thesis using up by simp
  qed
qed simp

section \<open>The whole function\<close>

lemma render_slashes:
  assumes "dir \<noteq> []"
  shows "SLASH # concat (map (\<lambda>n. map capital n @ [SLASH]) dir) = render dir @ [SLASH]"
  using assms
proof (induction dir)
  case (Cons n dir)
  then show ?case by (cases "dir = []") (simp_all add: render_def)
qed simp

lemma length_render: "dir \<noteq> [] \<Longrightarrow> length (render dir) = length (concat (map (\<lambda>n. n @ [SLASH]) dir))"
  by (simp add: render_def length_concat comp_def)

lemma tokens_ok:
  assumes "cstr buf s" "length s < 512"
  shows "\<exists>token buf1 lst buf' cs'. strtok buf None (Some 0) [SLASH, 0] = Some (token, buf1, lst) \<and>
    resolve_loop buf1 lst token [] = Some (buf', cs') \<and> list_all2 (\<lambda>c n. cstr (drop c buf') n) cs' (walk (pieces s) [])"
proof -
  have s0: "cstr (drop 0 buf) s" using assms(1) by simp
  note st = strtok_step [OF s0, where str = "Some 0" and lst = None, simplified]
  show ?thesis
  proof (cases "pieces s")
    case Nil
    then show ?thesis using st by (auto simp: walk_def resolve_loop_None)
  next
    case (Cons t ts)
    then obtain q buf' lst' s' where h: "strtok buf None (Some 0) [SLASH, 0] = Some (Some q, buf', lst')"
      "cstr (drop q buf') t" "token_scan buf' lst' s'" "pieces s' = ts" "\<forall>p'. lst' = Some p' \<longrightarrow> q + length t < p'"
      using st by auto
    have "2 * length (pieces s) \<le> 512" using pieces_count [of s] assms(2) by (auto split: if_splits)
    then have "length ([] :: nat list) + Suc (length (pieces s')) \<le> 256" using Cons h(4) by simp
    from resolve_loop_ok [OF h(2,3,5) _ this, of "[]"]
    obtain buf'' cs' bound where r: "resolve_loop buf' lst' (Some q) [] = Some (buf'', cs')" "held buf'' bound cs' (walk (t # pieces s') [])"
      by (auto simp: held_def)
    from r(2) have "list_all2 (\<lambda>c n. cstr (drop c buf'') n) cs' (walk (pieces s) [])"
      using Cons h(4) unfolding held_def by (auto elim: list_all2_mono)
    then show ?thesis using h(1) r(1) by blast
  qed
qed

lemma resolve_path_ok:
  assumes cur: "cstr current cur" and path: "cstr path p" and len: "length (joined cur p) < 512"
    and res: "length resolved = 256" and fit: "length (render (target cur p)) \<le> 255"
  shows "if \<exists>n \<in> set (target cur p). 12 < length n then resolve_path current path resolved 256 = None
    else \<exists>r. resolve_path current path resolved 256 = Some r \<and> cstr r (render (target cur p))"
proof -
  obtain b where b: "combine current path = Some b" "cstr b (joined cur p)" using combine_ok [OF cur path len] by blast
  obtain token b1 lst b2 cs where t: "strtok b None (Some 0) [SLASH, 0] = Some (token, b1, lst)" "resolve_loop b1 lst token [] = Some (b2, cs)"
    and cs: "list_all2 (\<lambda>c n. cstr (drop c b2) n) cs (target cur p)"
    using tokens_ok [OF b(2) len] by (auto simp: target_def)
  define dir where "dir = target cur p"
  define L where "L = length (concat (map (\<lambda>n. n @ [SLASH]) dir))"
  have L: "1 + L \<le> 256" using fit length_render [of dir] by (cases "dir = []") (auto simp: L_def dir_def)
  have nz: "0 \<notin> set (render dir)"
  proof -
    have "\<forall>n \<in> set dir. 0 \<notin> set n" using cs by (auto simp: dir_def list_all2_conv_all_nth in_set_conv_nth cstr_def)
    then show ?thesis using capital_nonzero by (auto simp: render_def image_iff) metis
  qed
  have w0: "wr resolved 0 SLASH = Some (resolved[0 := SLASH])" using res by (auto simp: wr_def)
  have t0: "take 1 (resolved[0 := SLASH]) = [SLASH]" using res by (cases resolved) auto
  have e: "if \<exists>n \<in> set dir. 12 < length n then emit 256 b2 cs 1 (resolved[0 := SLASH]) = None
    else \<exists>r. emit 256 b2 cs 1 (resolved[0 := SLASH]) = Some (1 + L, r) \<and> length r = 256 \<and>
      take (1 + L) r = [SLASH] @ concat (map (\<lambda>n. map capital n @ [SLASH]) dir)"
  proof -
    have p: "length (resolved[0 := SLASH]) = 256" "(1 :: nat) \<le> 256" "1 + length (concat (map (\<lambda>n. n @ [SLASH]) (target cur p))) \<le> 256"
      using res L by (simp_all add: L_def dir_def)
    show ?thesis using emit_ok [OF cs p, unfolded t0] unfolding L_def dir_def .
  qed
  show ?thesis
  proof (cases "\<exists>n \<in> set dir. 12 < length n")
    case True
    then have "emit 256 b2 cs 1 (resolved[0 := SLASH]) = None" using e by simp
    then show ?thesis using True b(1) t w0 by (simp add: resolve_path_def dir_def del: wr_Some_iff)
  next
    case False
    then obtain r where r: "emit 256 b2 cs 1 (resolved[0 := SLASH]) = Some (1 + L, r)" "length r = 256"
      "take (1 + L) r = [SLASH] @ concat (map (\<lambda>n. map capital n @ [SLASH]) dir)" using e by (auto split: if_splits)
    define r' where "r' = (if dir = [] then r[1 := 0] else r[L := 0])"
    have run: "resolve_path current path resolved 256 = Some r'"
    proof -
      have "resolve_path current path resolved 256 = (if 1 + L > 1 then wr r (1 + L - 1) 0 else wr r 1 0)"
        unfolding resolve_path_def b(1) bind.bind_lunit t prod.case w0 r(1) ..
      moreover have "L = 0 \<longleftrightarrow> dir = []" by (auto simp: L_def)
      ultimately show ?thesis using r(2) L by (cases "dir = []") (auto simp: r'_def wr_def)
    qed
    have split: "r = take (1 + L) r @ drop (1 + L) r" by simp
    have "cstr r' (render dir)"
    proof (cases "dir = []")
      case True
      then have "take 1 r = [SLASH]" using r(3) by (simp add: L_def)
      then obtain a x rest where "r = SLASH # x # rest" using r(2) by (cases r; cases "tl r") auto
      then show ?thesis using True by (simp add: r'_def render_def)
    next
      case False
      then have "r = render dir @ SLASH # drop (1 + L) r"
        using split r(3) render_slashes [of dir] by (metis append.assoc append_Cons append_Nil)
      moreover have "length (render dir) = L" using length_render [OF False] by (simp add: L_def)
      ultimately have "r' = render dir @ 0 # drop (1 + L) r"
        using False unfolding r'_def by (metis list_update_length)
      then show ?thesis using nz by (simp add: cstr_def)
    qed
    then show ?thesis using run False by (simp add: dir_def)
  qed
qed

text \<open>The names on the stack.\<close>

definition proper :: "u8 list \<Rightarrow> bool" where
  "proper n \<longleftrightarrow> n \<noteq> [] \<and> SLASH \<notin> set n \<and> n \<noteq> [DOT] \<and> n \<noteq> [DOT, DOT]"

lemma pieces_names: "n \<in> set (pieces s) \<Longrightarrow> n \<noteq> [] \<and> SLASH \<notin> set n"
  by (induction s rule: pieces.induct) (auto split: if_splits dest: set_takeWhileD)

lemma walk_proper:
  "\<forall>n \<in> set names. n \<noteq> [] \<and> SLASH \<notin> set n \<Longrightarrow> \<forall>n \<in> set dir. proper n \<Longrightarrow> \<forall>n \<in> set (walk names dir). proper n"
proof (induction names arbitrary: dir)
  case (Cons n names)
  have "\<forall>m \<in> set (walk1 n dir). proper m" using Cons.prems by (auto simp: walk1_def proper_def dest: in_set_butlastD)
  then show ?case using Cons by (simp add: walk_def)
qed (simp add: walk_def)

lemma walk1_proper: "proper n \<Longrightarrow> walk1 n dir = dir @ [n]"
  by (simp add: walk1_def proper_def)

lemma walk_same: "\<forall>n \<in> set names. proper n \<Longrightarrow> walk names dir = dir @ names"
  unfolding walk_def by (induction names arbitrary: dir) (simp_all add: walk1_proper)

lemma pieces_render:
  "\<forall>n \<in> set dir. n \<noteq> [] \<and> SLASH \<notin> set n \<Longrightarrow> pieces (concat (map (\<lambda>n. SLASH # n) dir)) = dir"
proof (induction dir)
  case (Cons n dir)
  then obtain c m where n: "n = c # m" "c \<noteq> SLASH" "SLASH \<notin> set m" by (cases n) auto
  define rest where "rest = concat (map (\<lambda>n. SLASH # n) dir)"
  have "rest = [] \<or> hd rest = SLASH" by (cases dir) (auto simp: rest_def)
  then have "takeWhile (\<lambda>x. x \<noteq> SLASH) rest = []" "dropWhile (\<lambda>x. x \<noteq> SLASH) rest = rest" by (cases rest; simp)+
  moreover have "takeWhile (\<lambda>x. x \<noteq> SLASH) (m @ rest) = m @ takeWhile (\<lambda>x. x \<noteq> SLASH) rest"
    by (rule takeWhile_append2) (use n(3) in auto)
  moreover have "dropWhile (\<lambda>x. x \<noteq> SLASH) (m @ rest) = dropWhile (\<lambda>x. x \<noteq> SLASH) rest"
    by (rule dropWhile_append2) (use n(3) in auto)
  ultimately have "takeWhile (\<lambda>x. x \<noteq> SLASH) (m @ rest) = m" "dropWhile (\<lambda>x. x \<noteq> SLASH) (m @ rest) = rest" by simp_all
  then show ?case using Cons n by (simp add: rest_def [symmetric])
qed simp

lemma capital_facts: "capital (capital c) = capital c" "capital c = SLASH \<longleftrightarrow> c = SLASH" "capital c = DOT \<longleftrightarrow> c = DOT"
proof -
  have "\<forall>n \<in> set [0..<256]. capital (capital (of_nat n)) = capital (of_nat n) \<and> (capital (of_nat n) = SLASH \<longleftrightarrow> n = 47) \<and>
      (capital (of_nat n) = DOT \<longleftrightarrow> n = 46)" by code_simp
  moreover have "unat c \<in> set [0..<256]" using u8_bound [of c] by simp
  ultimately have "capital (capital (of_nat (unat c))) = capital (of_nat (unat c)) \<and> (capital (of_nat (unat c)) = SLASH \<longleftrightarrow> unat c = 47) \<and>
      (capital (of_nat (unat c)) = DOT \<longleftrightarrow> unat c = 46)"
    by (rule bspec)
  then show "capital (capital c) = capital c" "capital c = SLASH \<longleftrightarrow> c = SLASH" "capital c = DOT \<longleftrightarrow> c = DOT"
    by (auto simp: unat_eq_iff)
qed

lemma capital_proper: "proper n \<Longrightarrow> proper (map capital n)"
  using capital_facts(2,3) by (auto simp: proper_def map_eq_Cons_conv)

text \<open>Seen from anywhere, a written path names the directory it was written for, in capital letters.\<close>

lemma target_render:
  assumes "\<forall>n \<in> set dir. proper n"
  shows "target cur (render dir) = map (map capital) dir"
proof -
  have j: "joined cur (render dir) = render dir" by (cases dir) (simp_all add: joined_def render_def)
  have "pieces (render dir) = map (map capital) dir"
  proof (cases "dir = []")
    case False
    then have "render dir = concat (map (\<lambda>n. SLASH # n) (map (map capital) dir))" by (simp add: render_def comp_def)
    then show ?thesis using assms pieces_render [of "map (map capital) dir"] capital_proper by (auto simp: proper_def)
  qed (simp add: render_def)
  moreover have "\<forall>n \<in> set (map (map capital) dir). proper n" using assms capital_proper by auto
  ultimately show ?thesis by (simp add: target_def j walk_same)
qed

lemma target_proper: "\<forall>n \<in> set (target cur p). proper n"
  unfolding target_def by (rule walk_proper) (auto dest: pieces_names)

lemma render_capital: "render (map (map capital) dir) = render dir"
  by (simp add: render_def comp_def capital_facts)

section \<open>Properties\<close>

text \<open>C13. \<open>resolve_path\<close> is the walk through the directories: for strings that fit its buffers it writes the path of the
  directory that the names of \<open>path\<close> lead to from \<open>current\<close>, where \<open>.\<close> stays, \<open>..\<close> goes up but not above
  the root, and empty names are skipped, in capital letters; if a name that is left is longer than the
  12 characters of a short name, it writes behind its local buffer.
\<close>

theorem resolve_path_walks:
  assumes "cstr current cur" and "cstr path p" and "length (joined cur p) < 512"
    and "length resolved = 256" and "length (render (target cur p)) \<le> 255"
  shows "if \<exists>n \<in> set (target cur p). 12 < length n then resolve_path current path resolved 256 = None
    else \<exists>r. resolve_path current path resolved 256 = Some r \<and> cstr r (render (target cur p))"
  by (rule resolve_path_ok [OF assms])

text \<open>A resolved path is canonical: resolving it again, seen from any directory, gives the same path.  So the
  path that \<open>cd\<close> stores is a fixed point.
\<close>

theorem resolve_path_canonical:
  assumes "cstr current cur" and "cstr path p" and "length (joined cur p) < 512"
    and "length resolved = 256" and "length (render (target cur p)) \<le> 255"
    and "resolve_path current path resolved 256 = Some r" and "cstr current' cur'" and "length resolved' = 256"
  shows "\<exists>r' s. resolve_path current' r resolved' 256 = Some r' \<and> cstr r s \<and> cstr r' s"
proof -
  define dir where "dir = target cur p"
  have names: "\<forall>n \<in> set dir. proper n" unfolding dir_def by (rule target_proper)
  have short: "\<forall>n \<in> set dir. length n \<le> 12" and r: "cstr r (render dir)"
    using resolve_path_ok [OF assms(1-5)] assms(6) by (auto simp: dir_def not_less split: if_splits)
  have t: "target cur' (render dir) = map (map capital) dir" by (rule target_render [OF names])
  have j: "joined cur' (render dir) = render dir" by (cases dir) (simp_all add: joined_def render_def)
  have "length (render dir) \<le> 255" using assms(5) by (simp add: dir_def)
  moreover have "\<not> (\<exists>n \<in> set (map (map capital) dir). 12 < length n)" using short by auto
  ultimately have "\<exists>r'. resolve_path current' r resolved' 256 = Some r' \<and> cstr r' (render dir)"
    using resolve_path_ok [OF assms(7) r _ assms(8), unfolded t j] by (simp add: render_capital)
  then show ?thesis using r by blast
qed

lemma bin_x:
  "joined (ascii ''/USR'') (ascii ''../bin//./x'') = ascii ''/USR/../bin//./x''"
  "target (ascii ''/USR'') (ascii ''../bin//./x'') = [ascii ''bin'', ascii ''x'']"
  "render [ascii ''bin'', ascii ''x''] = ascii ''/BIN/X''"
  by code_simp+

lemma ascii_cstr:
  "cstr (ascii ''/USR'' @ [0]) (ascii ''/USR'')" "cstr (ascii ''../bin//./x'' @ [0]) (ascii ''../bin//./x'')"
  by (simp_all add: ascii_def)

theorem resolve_path_walks_witness:
  "\<exists>r. resolve_path (ascii ''/USR'' @ [0]) (ascii ''../bin//./x'' @ [0]) (replicate 256 0) 256 = Some r \<and> cstr r (ascii ''/BIN/X'')"
proof -
  have l: "length (ascii ''/USR/../bin//./x'') < 512" "length (ascii ''/BIN/X'') \<le> 255"
    "\<not> (\<exists>n \<in> set [ascii ''bin'', ascii ''x'']. 12 < length n)"
    by (simp_all add: ascii_def)
  show ?thesis
    using resolve_path_walks [OF ascii_cstr, of "replicate 256 0", unfolded bin_x] l by (simp del: replicate.simps)
qed

theorem resolve_path_canonical_witness:
  "\<exists>r r' s. resolve_path (ascii ''/USR'' @ [0]) (ascii ''../bin//./x'' @ [0]) (replicate 256 0) 256 = Some r \<and>
     resolve_path (ascii ''/USR'' @ [0]) r (replicate 256 0) 256 = Some r' \<and> cstr r s \<and> cstr r' s"
proof -
  have l: "length (ascii ''/USR/../bin//./x'') < 512" "length (ascii ''/BIN/X'') \<le> 255"
    "\<not> (\<exists>n \<in> set [ascii ''bin'', ascii ''x'']. 12 < length n)"
    by (simp_all add: ascii_def)
  obtain r where r: "resolve_path (ascii ''/USR'' @ [0]) (ascii ''../bin//./x'' @ [0]) (replicate 256 0) 256 = Some r"
    using resolve_path_ok [OF ascii_cstr, of "replicate 256 0", unfolded bin_x] l by (auto simp del: replicate.simps)
  show ?thesis
    using resolve_path_canonical [OF ascii_cstr, of "replicate 256 0" r, unfolded bin_x, OF _ _ _ r ascii_cstr(1), of "replicate 256 0"] l r
    by (auto simp del: replicate.simps)
qed

end
