(* ===== verification/ConsoleFormat.thy ===== *)
theory ConsoleFormat
  imports ConsoleText
begin

text \<open>
  Formatted output of \<open>drivers/console.c\<close> seen as text: \<open>formatted\<close> is the text that a format stands for, and
  \<open>console_printf\<close> types it on the terminal of the console.  The shell's messages rest on this.
\<close>

section \<open>The text of a format\<close>

definition number_text :: "nat \<Rightarrow> bool \<Rightarrow> int \<Rightarrow> bool \<Rightarrow> fmt_arg list \<Rightarrow> (fmt_arg list \<times> u8 list) option" where
  "number_text base uppercase width pad_zero args =
     (case args of IntArg v # args \<Rightarrow> map_option (Pair args) (format_number v base uppercase width pad_zero) | _ \<Rightarrow> None)"

definition conversion_text :: "u8 \<Rightarrow> int \<Rightarrow> bool \<Rightarrow> fmt_arg list \<Rightarrow> (fmt_arg list \<times> u8 list) option" where
  "conversion_text n width pad_zero args =
     (if n = 99 then (case args of IntArg v # args \<Rightarrow> Some (args, [ucast v]) | _ \<Rightarrow> None)
      else if n = 115
      then (case args of
              StrArg (Some s) # args \<Rightarrow> if 0 \<in> set s then Some (args, takeWhile (\<lambda>ch. ch \<noteq> 0) s) else None
            | StrArg None # args \<Rightarrow> Some (args, [40, 110, 117, 108, 108, 41])
            | _ \<Rightarrow> None)
      else if n = 100 then number_text 10 False width pad_zero args
      else if n = 117 \<or> n = 120 \<or> n = 88 then number_text 16 (n = 88) width pad_zero args
      else Some (args, [37, n]))"

function formatted :: "u8 list \<Rightarrow> fmt_arg list \<Rightarrow> u8 list option" where
  "formatted [] args = None"
| "formatted (n # f) args =
     (if n = 0 then Some []
      else if n \<noteq> 37 then map_option (Cons n) (formatted f args)
      else (case f of
          [] \<Rightarrow> None
        | z # f' \<Rightarrow>
            (case fmt_width (if z = 48 then f' else f) 0 of
               Some (width, n # f) \<Rightarrow>
                 do { (args, s) \<leftarrow> conversion_text n width (z = 48) args; map_option ((@) s) (formatted f args) }
             | _ \<Rightarrow> None)))"
  by pat_completeness auto

termination formatted
proof (relation "measure (\<lambda>(f, args). length f)", goal_cases)
  case (3 n f args z f' p width fs n' f'')
  then show ?case using fmt_width_shorter [of "if z = 48 then f' else f" 0 width fs] by (auto split: if_splits)
qed auto

lemma put_all_append: "put_all put (s @ t) c = do { c \<leftarrow> put_all put s c; put_all put t c }"
  by (induction s arbitrary: c) (auto intro!: Option.bind_cong)

lemma putstr_no_end: "0 \<notin> set s \<Longrightarrow> console_putstr B s c = None"
  by (induction s arbitrary: c) (auto split: bind_splits)

lemma conversion_writes:
  "fmt_conversion B n width pad_zero args c =
     do { (args, s) \<leftarrow> conversion_text n width pad_zero args; c \<leftarrow> put_chars B s c; Some (args, c) }"
proof -
  have number: "put_number B base up width pad_zero args c =
      do { (args, s) \<leftarrow> number_text base up width pad_zero args; c \<leftarrow> put_chars B s c; Some (args, c) }" for base up
    by (auto simp: put_number_def number_text_def map_conv_bind_option split: list.splits fmt_arg.splits)
  show ?thesis
    by (auto simp: fmt_conversion_def conversion_text_def number putstr_put_all putstr_no_end put_chars_def
        split: list.splits fmt_arg.splits option.splits)
qed

text \<open>The output is the text, put character by character.\<close>

lemma vprintf_formatted: "console_vprintf B f args c = do { s \<leftarrow> formatted f args; put_chars B s c }"
proof (induction f args arbitrary: c rule: formatted.induct)
  case (2 n f args)
  consider "n = 0" | "n \<noteq> 0" "n \<noteq> 37" | "n = 37" by blast
  then show ?case
  proof cases
    case 2
    then show ?thesis using "2.IH"(1) by (cases "formatted f args") (auto simp: put_chars_def split: bind_splits)
  next
    case 3
    show ?thesis
    proof (cases f)
      case (Cons z f')
      show ?thesis
      proof (cases "fmt_width (if z = 48 then f' else f) 0")
        case (Some wf)
        show ?thesis
        proof (cases "snd wf")
          case Nil
          then show ?thesis using 3 \<open>f = z # f'\<close> Some by (cases wf; cases "z = 48") (simp_all del: fmt_width.simps)
        next
          case (Cons m g)
          then have wf: "wf = (fst wf, m # g)" by (cases wf) simp
          show ?thesis
          proof (cases "conversion_text m (fst wf) (z = 48) args")
            case None
            then show ?thesis using 3 \<open>f = z # f'\<close> Some wf by (cases wf; cases "z = 48") (simp_all add: conversion_writes del: fmt_width.simps)
          next
            case conv: (Some as)
            have IH: "console_vprintf B g (fst as) c = do { s \<leftarrow> formatted g (fst as); put_chars B s c }" for c
              using "2.IH"(2) [of z f' wf "fst wf" "m # g" m g as "fst as" "snd as"] 3 \<open>f = z # f'\<close> Some wf conv by (cases "z = 48") (simp_all del: fmt_width.simps)
            show ?thesis using 3 \<open>f = z # f'\<close> Some wf conv IH
              by (cases wf; cases as; cases "formatted g (fst as)"; cases "z = 48") (auto simp: conversion_writes put_chars_def put_all_append simp del: fmt_width.simps split: bind_splits)
          qed
        qed
      qed (use 3 Cons in \<open>cases "z = 48"; simp del: fmt_width.simps\<close>)
    qed (use 3 in simp)
  qed (simp add: put_chars_def)
qed simp

section \<open>What is on the terminal\<close>

text \<open>Output is possible, and \<open>c'\<close> is \<open>c\<close> with the text \<open>s\<close> displayed and shown on the screen.\<close>

definition ready :: "('w, 'x) bus_scheme \<Rightarrow> 'w console \<Rightarrow> bool" where
  "ready B c \<longleftrightarrow> con_ok c \<and> retrace_ends B (vsync c)"

definition displayed :: "u8 list \<Rightarrow> 'w console \<Rightarrow> 'w console \<Rightarrow> bool" where
  "displayed s c c' \<longleftrightarrow> on_text c c' \<and> (tracked c \<longrightarrow> shown c') \<and>
     text_of c' = fold (term_put (unat (con_cols c)) (unat (con_rows c))) s (text_of c)"

lemma displayed_ready: "displayed s c c' \<Longrightarrow> ready B c \<Longrightarrow> ready B c'"
  using on_text_next by (auto simp: displayed_def ready_def)

lemma displayed_trans: "displayed s a b \<Longrightarrow> displayed t b c \<Longrightarrow> displayed (s @ t) a c"
  using on_text_trans by (auto simp: displayed_def on_text_def same_setup_def shown_def)

lemma put_and_flush_types:
  assumes "ready B c"
  shows "runs (do { c \<leftarrow> put_chars B s c; console_flush c }) (displayed s c)"
proof -
  have "runs (put_chars B s c) (\<lambda>c'. on_text c c' \<and> text_of c' = fold (term_put (unat (con_cols c)) (unat (con_rows c))) s (text_of c))"
    unfolding put_chars_def
    by (rule runs_mono [OF console_output.put_all_law [of c B]]) (use assms in \<open>auto simp: ready_def fold_terminal\<close>)
  moreover have "runs (console_flush c1) (displayed s c)"
    if "on_text c c1 \<and> text_of c1 = fold (term_put (unat (con_cols c)) (unat (con_rows c))) s (text_of c)" for c1
    by (rule runs_mono [OF flush_keeps])
      (use that in \<open>auto simp: displayed_def on_text_def same_text_def text_of_def shown_def intro: same_setup_trans\<close>)
  ultimately show ?thesis by simp (erule runs_mono, auto)
qed

lemma printf_types:
  assumes "ready B c" "formatted f args = Some s"
  shows "runs (console_printf B f args c) (displayed s c)"
  using put_and_flush_types [OF assms(1), of s] assms(2) by (simp add: console_printf_def vprintf_formatted)

lemma printf_malformed: "formatted f args = None \<Longrightarrow> console_printf B f args c = None"
  by (simp add: console_printf_def vprintf_formatted)


lemma formatted_text: "0 \<notin> set s \<Longrightarrow> 37 \<notin> set s \<Longrightarrow> formatted (s @ f) args = map_option ((@) s) (formatted f args)"
  by (induction s; cases "formatted f args") auto

lemma cstr_takeWhile: "cstr p xs \<Longrightarrow> takeWhile (\<lambda>ch. ch \<noteq> 0) p = xs \<and> 0 \<in> set p"
  unfolding cstr_def by (auto, subst takeWhile_append2) auto

lemma string_text: "cstr p xs \<Longrightarrow> conversion_text 115 w z (StrArg (Some p) # args) = Some (args, xs)"
  using cstr_takeWhile [of p xs] by (simp add: conversion_text_def)

section \<open>The meaning of a format\<close>

text \<open>
  What the pieces of a format mean in C: a character that stands for itself, \<open>%c\<close>, \<open>%s\<close>, and numbers in base 10
  (\<open>%d\<close>) or 16 (\<open>%x\<close>, \<open>%X\<close>), filled up with blanks or zeros to a width.  \<open>piece_bytes\<close> is how a piece is written,
  \<open>pieces_text\<close> what the pieces print for their arguments.  The reference has no \<open>%u\<close>, which the console prints in
  base 16, no \<open>%%\<close>, which it prints as two percent signs, and no negative number in base 10, which it prints as
  its 32 bits.
\<close>

datatype fmt_piece = Literal u8 | CharOf | StringOf | NumberOf nat bool bool nat

fun numeral_of :: "nat \<Rightarrow> nat \<Rightarrow> nat list" where
  "numeral_of b n = (if n < b \<or> b < 2 then [n] else numeral_of b (n div b) @ [n mod b])"

declare numeral_of.simps [simp del]

definition numeral_chars :: "bool \<Rightarrow> nat \<Rightarrow> nat \<Rightarrow> u8 list" where
  "numeral_chars caps b n = map (\<lambda>d. ascii (if caps then ''0123456789ABCDEF'' else ''0123456789abcdef'') ! d) (numeral_of b n)"

definition piece_ok :: "fmt_piece \<Rightarrow> bool" where
  "piece_ok p = (case p of
     Literal c \<Rightarrow> c \<noteq> 0 \<and> c \<noteq> 37
   | NumberOf b caps zero width \<Rightarrow> (b = 10 \<and> \<not> caps \<or> b = 16) \<and> width \<le> 31
   | _ \<Rightarrow> True)"

definition piece_bytes :: "fmt_piece \<Rightarrow> u8 list" where
  "piece_bytes p = (case p of
     Literal c \<Rightarrow> [c]
   | CharOf \<Rightarrow> ascii ''%c''
   | StringOf \<Rightarrow> ascii ''%s''
   | NumberOf b caps zero width \<Rightarrow>
       ascii ''%'' @ (if zero then ascii ''0'' else []) @ (if width = 0 then [] else numeral_chars False 10 width) @
       ascii (if b = 10 then ''d'' else if caps then ''X'' else ''x''))"

fun pieces_text :: "fmt_piece list \<Rightarrow> fmt_arg list \<Rightarrow> u8 list option" where
  "pieces_text [] args = Some []"
| "pieces_text (Literal c # ps) args = map_option (Cons c) (pieces_text ps args)"
| "pieces_text (CharOf # ps) (IntArg v # args) = map_option (Cons (ucast v)) (pieces_text ps args)"
| "pieces_text (StringOf # ps) (StrArg None # args) = map_option ((@) (ascii ''(null)'')) (pieces_text ps args)"
| "pieces_text (StringOf # ps) (StrArg (Some s) # args) =
     (if 0 \<in> set s then map_option ((@) (takeWhile (\<lambda>ch. ch \<noteq> 0) s)) (pieces_text ps args) else None)"
| "pieces_text (NumberOf b caps zero width # ps) (IntArg v # args) =
     (if b = 10 \<and> sint v < 0 then None
      else let ds = numeral_chars caps b (unat v)
           in map_option ((@) (replicate (width - length ds) (if zero then 48 else 32) @ ds)) (pieces_text ps args))"
| "pieces_text _ _ = None"

lemma digit_char_table:
  assumes "d < 16"
  shows "ascii (if caps then ''0123456789ABCDEF'' else ''0123456789abcdef'') ! d = digit_char caps d"
proof -
  have "\<forall>d \<in> set [0..<16]. ascii (if caps then ''0123456789ABCDEF'' else ''0123456789abcdef'') ! d = digit_char caps d"
    by (cases caps) (simp_all add: upt_rec digit_char_def ascii_def)
  then show ?thesis using assms by simp
qed

lemma numeral_chars_digits:
  assumes "2 \<le> b" "b \<le> 16"
  shows "numeral_chars caps b n = rev (if n = 0 then [48] else number_digits n b caps)"
proof (induction n rule: less_induct)
  case (less n)
  show ?case
  proof (cases "n < b")
    case True
    then show ?thesis using assms digit_char_table [of n caps]
      by (cases "n = 0") (auto simp: numeral_chars_def numeral_of.simps [of b n] numeral_of.simps [of b 0] number_digits_step digit_char_def)
  next
    case False
    then have n: "0 < n div b" "n div b < n" "n mod b < 16" using assms by (simp_all add: div_greater_zero_iff order.strict_trans2 [OF mod_less_divisor])
    then have "numeral_chars caps b n = numeral_chars caps b (n div b) @ [digit_char caps (n mod b)]"
      using False assms digit_char_table [OF n(3), of caps] by (simp add: numeral_chars_def numeral_of.simps [of b n])
    then show ?thesis using less.IH [OF n(2)] n False assms by (simp add: number_digits_step)
  qed
qed

lemma format_number_text:
  assumes "b = 10 \<or> b = 16" "width \<le> 31"
  shows "format_number v b caps (int width) zero =
    Some (replicate (width - length (numeral_chars caps b (unat v))) (if zero then 48 else 32) @ numeral_chars caps b (unat v))"
proof -
  define ds where "ds = (if v = 0 then [48] else number_digits (unat v) b caps)"
  have b: "2 \<le> b" "b \<le> 16" using assms(1) by auto
  have "(2 :: nat) ^ 32 \<le> b ^ 10" using assms(1) by auto
  then have "unat v < b ^ 10" using u32_bound [of v] by simp
  then have "length ds \<le> 10" using number_digits_length [OF b(1)] by (simp add: ds_def)
  moreover have "numeral_chars caps b (unat v) = rev ds" using numeral_chars_digits [OF b] by (simp add: ds_def unat_eq_zero)
  ultimately show ?thesis using assms(2) by (simp add: format_number_def Let_def ds_def [symmetric])
qed

lemma fmt_width_text:
  assumes "width \<le> 31" "n = 100 \<or> n = 120 \<or> n = 88"
  shows "fmt_width ((if width = 0 then [] else numeral_chars False 10 width) @ n # f) 0 = Some (int width, n # f)"
proof -
  have "\<forall>w \<in> set [0..<32]. fmt_width ((if w = 0 then [] else numeral_chars False 10 w) @ n # f) 0 = Some (int w, n # f)"
    using assms(2) by (auto simp: upt_rec numeral_chars_def numeral_of.simps ascii_def chk_int_def int_ok_def)
  then show ?thesis using assms(1) by simp
qed

lemma formatted_Literal: "c \<noteq> 0 \<Longrightarrow> c \<noteq> 37 \<Longrightarrow> formatted (c # f) args = map_option (Cons c) (formatted f args)"
  by simp

lemma formatted_letter:
  "n = 99 \<or> n = 115 \<Longrightarrow> formatted (37 # n # f) args = do { (args, s) \<leftarrow> conversion_text n 0 False args; map_option ((@) s) (formatted f args) }"
  by auto

lemma formatted_number:
  assumes "piece_ok (NumberOf b caps zero width)"
  shows "formatted (piece_bytes (NumberOf b caps zero width) @ f) args =
    do { (args, s) \<leftarrow> number_text b caps (int width) zero args; map_option ((@) s) (formatted f args) }"
proof -
  let ?n = "if b = 10 then 100 else if caps then 88 else 120 :: u8"
  let ?w = "if width = 0 then [] else numeral_chars False 10 width"
  have w: "fmt_width (?w @ ?n # f) 0 = Some (int width, ?n # f)"
    by (rule fmt_width_text) (use assms in \<open>simp_all add: piece_ok_def\<close>)
  have conv: "conversion_text ?n (int width) zero args = number_text b caps (int width) zero args"
    using assms by (auto simp: piece_ok_def conversion_text_def)
  have bytes: "piece_bytes (NumberOf b caps zero width) @ f = 37 # (if zero then [48] else []) @ ?w @ ?n # f"
    by (simp add: piece_bytes_def ascii_def)
  show ?thesis
  proof (cases zero)
    case True
    then show ?thesis unfolding bytes using w conv by simp
  next
    case False
    obtain z f' where zf: "?w @ ?n # f = z # f'" "z \<noteq> 48"
    proof (cases "width = 0")
      case False
      then have "\<exists>d ds. numeral_chars False 10 width = d # ds \<and> d \<noteq> 48"
        using number_digits_last [of 10 width False] numeral_chars_digits [of 10 False width]
        by (cases "rev (number_digits width 10 False)") (auto simp: last_rev [symmetric] simp del: last_rev)
      then show ?thesis using that False by auto
    qed (use that in auto)
    then show ?thesis unfolding bytes using False w conv by simp
  qed
qed

lemma formatted_pieces:
  assumes "\<forall>p \<in> set ps. piece_ok p" "pieces_text ps args = Some s"
  shows "formatted (concat (map piece_bytes ps) @ 0 # rest) args = Some s"
  using assms
proof (induction ps args arbitrary: s rule: pieces_text.induct)
  case (2 c ps args)
  then show ?case by (auto simp: piece_bytes_def piece_ok_def)
next
  case (3 ps v args)
  then show ?case by (auto simp: piece_bytes_def ascii_def formatted_letter conversion_text_def simp del: formatted.simps)
next
  case (4 ps args)
  then show ?case by (auto simp: piece_bytes_def ascii_def formatted_letter conversion_text_def simp del: formatted.simps)
next
  case (5 ps str args)
  then show ?case by (auto simp: piece_bytes_def ascii_def formatted_letter conversion_text_def simp del: formatted.simps split: if_splits)
next
  case (6 b caps zero width ps v args)
  then have p: "piece_ok (NumberOf b caps zero width)" "(b = 10 \<or> b = 16)" "width \<le> 31" by (auto simp: piece_ok_def)
  from 6 show ?case
    by (auto simp: formatted_number [OF p(1)] number_text_def format_number_text [OF p(2,3)] Let_def simp del: formatted.simps split: if_splits)
qed auto

section \<open>Properties\<close>



end
