(* ===== verification/ShellFiles.thy ===== *)
theory ShellFiles
  imports ShellPath ConsoleFormat FatDir
begin

text \<open>
  The commands of \<open>src/shell/shell.c\<close> on files: \<open>cd\<close>, \<open>ls\<close>, \<open>cat\<close> and \<open>pwd\<close>, over the console, the FAT driver and
  the resolution of paths.  \<open>scratch\<close> and the other arguments of this kind are what local variables hold before
  they are set, as in \<open>Fat\<close>.  \<open>cwd\<close> ties the path the shell shows to the directory it lists.
\<close>

section \<open>State and messages\<close>

record ('w, 'd) shell =
  sh_con :: "'w console"
  sh_fat :: "'d fat_state"
  fat_volume :: fat32_volume
  fat_root :: fat32_file
  current_path :: "u8 list"

definition say :: "('w, 'x) bus_scheme \<Rightarrow> u8 list \<Rightarrow> fmt_arg list \<Rightarrow> ('w, 'd, 'y) shell_scheme \<Rightarrow> ('w, 'd, 'y) shell_scheme option" where
  "say B f args sh = map_option (\<lambda>c. sh\<lparr>sh_con := c\<rparr>) (console_printf B f args (sh_con sh))"

definition msg_no_path :: "u8 list" where "msg_no_path = ascii ''Error: No path specified'' @ [10, 0]"
definition msg_no_directory :: "u8 list" where "msg_no_directory = ascii ''Error: Directory not found: %s'' @ [10, 0]"
definition msg_not_directory :: "u8 list" where "msg_not_directory = ascii ''Error: %s is not a directory'' @ [10, 0]"
definition msg_changed :: "u8 list" where "msg_changed = ascii ''Changed directory to: %s'' @ [10, 0]"
definition msg_invalid_directory :: "u8 list" where "msg_invalid_directory = ascii ''Error: Current directory is invalid'' @ [10, 0]"
definition msg_contents :: "u8 list" where "msg_contents = ascii ''Contents of '' @ [39] @ ascii ''%s'' @ [39, 58, 10, 0]"
definition msg_entry :: "u8 list" where "msg_entry = ascii '' [%s] %s (%d bytes)'' @ [10, 0]"
definition msg_dir :: "u8 list" where "msg_dir = ascii ''DIR'' @ [0]"
definition msg_file :: "u8 list" where "msg_file = ascii ''FILE'' @ [0]"
definition msg_line :: "u8 list" where "msg_line = ascii ''%s'' @ [10, 0]"
definition msg_no_memory :: "u8 list" where "msg_no_memory = ascii ''Error: Memory allocation failed'' @ [10, 0]"
definition msg_no_file :: "u8 list" where "msg_no_file = ascii ''Error: File not found: %s'' @ [10, 0]"

lemmas msg_defs = msg_no_path_def msg_no_directory_def msg_not_directory_def msg_changed_def msg_invalid_directory_def
  msg_contents_def msg_entry_def msg_dir_def msg_file_def msg_line_def msg_no_memory_def msg_no_file_def

section \<open>Commands\<close>

definition cd ::
  "('w, 'x) bus_scheme \<Rightarrow> 'd ide_bus \<Rightarrow> fat32_dir_list \<Rightarrow> u8 list option \<Rightarrow> ('w, 'd, 'y) shell_scheme \<Rightarrow> ('w, 'd, 'y) shell_scheme option" where
  "cd B D scratch path sh =
     (case path of
        None \<Rightarrow> say B msg_no_path [] sh
      | Some path \<Rightarrow>
          do { n \<leftarrow> strlen path;
               if n = 0 then say B msg_no_path [] sh
               else do {
                 resolved \<leftarrow> resolve_path (current_path sh) path (replicate 256 0) 256;
                 (found, fs) \<leftarrow> fat32_find_file D (fat_volume sh) scratch resolved (sh_fat sh);
                 let sh = sh\<lparr>sh_fat := fs\<rparr>;
                 case found of
                   None \<Rightarrow> say B msg_no_directory [StrArg (Some resolved)] sh
                 | Some new_dir \<Rightarrow>
                     if f_attrib new_dir AND FAT32_IS_DIR = 0 then say B msg_not_directory [StrArg (Some resolved)] sh
                     else do {
                       p \<leftarrow> strncpy (current_path sh) resolved 256;
                       p \<leftarrow> wr p 255 0;
                       say B msg_changed [StrArg (Some p)] (sh\<lparr>current_path := p, fat_root := new_dir\<rparr>) } } })"

partial_function (option) ls_loop ::
  "('w, 'x) bus_scheme \<Rightarrow> 'd ide_bus \<Rightarrow> fat32_file \<Rightarrow> u8 list \<Rightarrow> fat32_dir_list \<Rightarrow> ('w, 'd, 'y) shell_scheme \<Rightarrow> ('w, 'd, 'y) shell_scheme option" where
  "ls_loop B D entry name dir_list sh =
     do { (ok, entry, name, dir_list, fs) \<leftarrow> fat32_next_dir_entry D (fat_volume sh) entry name (dir_list, sh_fat sh);
          if ok
          then do { sh \<leftarrow> say B msg_entry
                      [StrArg (Some (if f_attrib entry AND FAT32_IS_DIR \<noteq> 0 then msg_dir else msg_file)), StrArg (Some name), IntArg (f_size entry)]
                      (sh\<lparr>sh_fat := fs\<rparr>);
                    ls_loop B D entry name dir_list sh }
          else Some (sh\<lparr>sh_fat := fs\<rparr>) }"

definition ls ::
  "('w, 'x) bus_scheme \<Rightarrow> 'd ide_bus \<Rightarrow> fat32_dir_list \<Rightarrow> fat32_file \<Rightarrow> ('w, 'd, 'y) shell_scheme \<Rightarrow> ('w, 'd, 'y) shell_scheme option" where
  "ls B D scratch entry sh =
     (if f_attrib (fat_root sh) AND FAT32_IS_DIR = 0 then say B msg_invalid_directory [] sh
      else do { let dir_list = fat32_list_dir (fat_root sh) scratch;
                sh \<leftarrow> say B msg_contents [StrArg (Some (current_path sh))] sh;
                ls_loop B D entry (replicate 256 0) dir_list sh })"

text \<open>\<open>cat\<close>; \<open>heap n\<close> is the memory that \<open>malloc(n)\<close> returns, \<open>None\<close> for \<open>NULL\<close>.\<close>

definition cat ::
  "('w, 'x) bus_scheme \<Rightarrow> 'd ide_bus \<Rightarrow> fat32_dir_list \<Rightarrow> (u32 \<Rightarrow> u8 list option) \<Rightarrow> u8 list \<Rightarrow> ('w, 'd, 'y) shell_scheme \<Rightarrow> ('w, 'd, 'y) shell_scheme option" where
  "cat B D scratch heap filename sh =
     do { (found, fs) \<leftarrow> fat32_find_file D (fat_volume sh) scratch filename (sh_fat sh);
          let sh = sh\<lparr>sh_fat := fs\<rparr>;
          case found of
            None \<Rightarrow> say B msg_no_file [StrArg (Some filename)] sh
          | Some file \<Rightarrow>
              (case heap (f_size file + 1) of
                 None \<Rightarrow> say B msg_no_memory [] sh
               | Some buf \<Rightarrow>
                   do { (_, buf, fs) \<leftarrow> fat32_read_file D (fat_volume sh) file 0 buf (f_size file) (sh_fat sh);
                        buf \<leftarrow> wr buf (unat (f_size file)) 0;
                        say B msg_line [StrArg (Some buf)] (sh\<lparr>sh_fat := fs\<rparr>) }) }"

definition pwd :: "('w, 'x) bus_scheme \<Rightarrow> ('w, 'd, 'y) shell_scheme \<Rightarrow> ('w, 'd, 'y) shell_scheme option" where
  "pwd B sh = say B msg_line [StrArg (Some (current_path sh))] sh"

section \<open>Messages on the terminal\<close>

lemma say_types:
  assumes "ready B (sh_con sh)" "formatted f args = Some s"
  shows "runs (say B f args sh) (\<lambda>sh'. \<exists>c. sh' = sh\<lparr>sh_con := c\<rparr> \<and> displayed s (sh_con sh) c)"
  unfolding say_def runs_map_option by (rule runs_mono [OF printf_types [OF assms]]) blast

lemma message_texts:
  "formatted msg_no_path [] = Some (ascii ''Error: No path specified'' @ [10])"
  "cstr p xs \<Longrightarrow> formatted msg_no_directory [StrArg (Some p)] = Some (ascii ''Error: Directory not found: '' @ xs @ [10])"
  "cstr p xs \<Longrightarrow> formatted msg_not_directory [StrArg (Some p)] = Some (ascii ''Error: '' @ xs @ ascii '' is not a directory'' @ [10])"
  "cstr p xs \<Longrightarrow> formatted msg_changed [StrArg (Some p)] = Some (ascii ''Changed directory to: '' @ xs @ [10])"
  "cstr p xs \<Longrightarrow> formatted msg_line [StrArg (Some p)] = Some (xs @ [10])"
  by (simp_all add: msg_defs ascii_def string_text)


section \<open>The current directory\<close>

abbreviation (input) root_of :: "fat32_volume \<Rightarrow> fat32_file" where
  "root_of vol \<equiv> \<lparr>f_attrib = 0x10, f_cluster = root_cluster (vol_header vol), f_size = 0, f_offset = 0\<rparr>"

definition capitals :: "u8 list list \<Rightarrow> u8 list list" where
  "capitals dir = map (map capital) dir"

text \<open>A lookup that a \<open>cd\<close> follows, and what \<open>cd\<close> says.\<close>

definition enters :: "fat32_file option \<Rightarrow> bool" where
  "enters r \<longleftrightarrow> (\<exists>f. r = Some f \<and> f_attrib f AND 0x10 \<noteq> 0)"

definition cd_text :: "fat32_file option \<Rightarrow> u8 list \<Rightarrow> u8 list" where
  "cd_text r s =
     (if enters r then ascii ''Changed directory to: '' @ s @ [10]
      else if r = None then ascii ''Error: Directory not found: '' @ s @ [10]
      else ascii ''Error: '' @ s @ ascii '' is not a directory'' @ [10])"

lemma proper_path:
  assumes "\<forall>n \<in> set dir. proper n \<and> 0 \<notin> set n \<and> length n \<le> 12" and "cstr q (render dir)"
  shows "\<exists>rest. q = [47] @ path_of (capitals dir) @ 0 # rest" and "\<forall>x \<in> set (capitals dir). component_ok x"
proof -
  have "render dir = 47 # path_of (capitals dir)"
  proof (cases dir)
    case (Cons n ns)
    have "concat (map (\<lambda>n. SLASH # map capital n) (m # ms)) = 47 # path_of (capitals (m # ms))" for m ms
      by (induction ms arbitrary: m) (simp_all add: capitals_def)
    then show ?thesis using Cons by (simp add: render_def)
  qed (simp add: render_def capitals_def)
  then show "\<exists>rest. q = [47] @ path_of (capitals dir) @ 0 # rest" using assms(2) by (auto simp: cstr_def)
  show "\<forall>x \<in> set (capitals dir). component_ok x"
  proof
    fix x assume "x \<in> set (capitals dir)"
    then obtain n where n: "n \<in> set dir" "x = map capital n" by (auto simp: capitals_def)
    then have "proper x" "0 \<notin> set x" "length x < 256"
      using assms(1) capital_proper [of n] capital_nonzero by (auto simp: image_iff) metis
    then show "component_ok x" by (simp add: component_ok_def proper_def)
  qed
qed

lemma walk_from: "n \<in> set (walk names dir) \<Longrightarrow> n \<in> set names \<or> n \<in> set dir"
proof (induction names arbitrary: dir)
  case (Cons m names)
  then have "n \<in> set names \<or> n \<in> set (walk1 m dir)" by (simp add: walk_def)
  then show ?case by (auto simp: walk1_def dest: in_set_butlastD split: if_splits)
qed (simp add: walk_def)

lemma pieces_from: "n \<in> set (pieces s) \<Longrightarrow> set n \<subseteq> set s"
proof (induction s rule: pieces.induct)
  case (2 c s)
  then show ?case by (auto split: if_splits dest: set_takeWhileD set_dropWhileD)
qed simp

lemma target_nonzero:
  assumes "cstr current cur" "cstr path p" "n \<in> set (target cur p)"
  shows "0 \<notin> set n"
proof -
  have "0 \<notin> set (joined cur p)" using assms(1,2) by (auto simp: joined_def cstr_def)
  moreover have "set n \<subseteq> set (joined cur p)"
    using assms(3) walk_from [of n "pieces (joined cur p)" "[]"] pieces_from by (auto simp: target_def)
  ultimately show ?thesis by blast
qed

lemma stored_path:
  assumes "cstr q s" "length s \<le> 255" "length old = 256"
  shows "\<exists>p. strncpy old q 256 = Some p \<and> length p = 256 \<and> wr p 255 0 = Some (p[255 := 0]) \<and> cstr (p[255 := 0]) s"
proof -
  let ?p = "s @ replicate (256 - length s) 0"
  have "strncpy old q 256 = Some ?p" using strncpy_ok [OF assms(1), of 256 old] assms(2,3) by simp
  moreover have "?p[255 := 0] = ?p"
    using assms(2) by (intro list_update_same_conv [THEN iffD2]) (auto simp: nth_append)
  moreover obtain k where "256 - length s = Suc k" using assms(2) by (cases "256 - length s") auto
  then have "cstr ?p s" using assms(1) by (auto simp: cstr_def)
  ultimately show ?thesis using assms(2) by simp
qed


lemma cd_step:
  assumes S: "serves D img n dinv" and inv: "dinv (g_fat32_drive (sh_fat sh)) (disk (sh_fat sh))" and l: "lfn_length (sh_fat sh) = 0"
    and scratch: "length (sector_buffer scratch) = 512" and con: "ready B (sh_con sh)"
    and cur: "cstr (current_path sh) cur" "length (current_path sh) = 256" and p: "cstr path p" "p \<noteq> []"
    and fit: "length (joined cur p) < 512" "length (render (target cur p)) \<le> 255" "\<forall>m \<in> set (target cur p). length m \<le> 12"
    and r: "resolves img (fat_volume sh) n (mem (sh_fat sh)) (root_of (fat_volume sh)) (capitals (target cur p)) r"
  shows "runs (cd B D scratch (Some path) sh) (\<lambda>sh'. \<exists>d c. dinv (g_fat32_drive (sh_fat sh)) d \<and>
    displayed (cd_text r (render (target cur p))) (sh_con sh) c \<and>
    (if enters r
     then \<exists>q. cstr q (render (target cur p)) \<and> length q = 256 \<and>
       sh' = sh\<lparr>sh_fat := (sh_fat sh)\<lparr>disk := d\<rparr>, current_path := q, fat_root := the r, sh_con := c\<rparr>
     else sh' = sh\<lparr>sh_fat := (sh_fat sh)\<lparr>disk := d\<rparr>, sh_con := c\<rparr>))"
  (is "runs _ (?Q dinv)")
proof -
  let ?s = "render (target cur p)"
  have good: "\<forall>m \<in> set (target cur p). proper m \<and> 0 \<notin> set m \<and> length m \<le> 12"
    using target_proper target_nonzero [OF cur(1) p(1)] fit(3) by blast
  obtain q where q: "resolve_path (current_path sh) path (replicate 256 0) 256 = Some q" "cstr q ?s"
    using resolve_path_ok [OF cur(1) p(1) fit(1), of "replicate 256 0"] fit(2,3) by (force split: if_splits)
  obtain rest where rest: "q = [47] @ path_of (capitals (target cur p)) @ 0 # rest" using proper_path(1) [OF good q(2)] by blast
  obtain d where d: "fat32_find_file D (fat_volume sh) scratch q (sh_fat sh) = Some (r, (sh_fat sh)\<lparr>disk := d\<rparr>)"
      "dinv (g_fat32_drive (sh_fat sh)) d"
    using find_file_ok [OF S inv l scratch _ proper_path(2) [OF good q(2)] _ r, of True q rest] rest by auto
  obtain k where k: "strlen path = Some (Suc k)" using strlen_cstr [OF p(1)] p(2) by (cases p) auto
  let ?sh = "sh\<lparr>sh_fat := (sh_fat sh)\<lparr>disk := d\<rparr>\<rparr>"
  note run = cd_def k q(1) d(1)
  consider f where "r = Some f" "f_attrib f AND 0x10 \<noteq> 0" | f where "r = Some f" "f_attrib f AND 0x10 = 0" | "r = None"
    by (cases r) auto
  then show ?thesis
  proof cases
    case 1
    obtain t where t: "strncpy (current_path sh) q 256 = Some t" "length t = 256" "wr t 255 0 = Some (t[255 := 0])" "cstr (t[255 := 0]) ?s"
      using stored_path [OF q(2) fit(2) cur(2)] by blast
    have "runs (say B msg_changed [StrArg (Some (t[255 := 0]))] (?sh\<lparr>current_path := t[255 := 0], fat_root := f\<rparr>)) (?Q dinv)"
    proof (rule runs_mono [OF say_types [where s = "cd_text r ?s"]])
      fix sh' assume "\<exists>c. sh' = ?sh\<lparr>current_path := t[255 := 0], fat_root := f, sh_con := c\<rparr> \<and>
          displayed (cd_text r ?s) (sh_con (?sh\<lparr>current_path := t[255 := 0], fat_root := f\<rparr>)) c"
      then obtain c where c: "sh' = ?sh\<lparr>current_path := t[255 := 0], fat_root := f, sh_con := c\<rparr>" "displayed (cd_text r ?s) (sh_con sh) c"
        by auto
      have "\<exists>q. cstr q ?s \<and> length q = 256 \<and> sh' = ?sh\<lparr>current_path := q, fat_root := the r, sh_con := c\<rparr>"
        using t(2,4) c(1) 1 by (intro exI [of _ "t[255 := 0]"]) simp
      then show "?Q dinv sh'" using c(2) d(2) 1 unfolding enters_def by (intro exI [of _ d] exI [of _ c]) auto
    qed (use 1 con message_texts(4) [OF t(4)] in \<open>simp_all add: cd_text_def enters_def\<close>)
    then show ?thesis using 1 t(1-3) by (simp add: run del: wr_Some_iff split_paired_Ex)
  next
    case 2
    have "runs (say B msg_not_directory [StrArg (Some q)] ?sh) (\<lambda>sh'. \<exists>c. sh' = ?sh\<lparr>sh_con := c\<rparr> \<and> displayed (cd_text r ?s) (sh_con sh) c)"
      using 2 con message_texts(3) [OF q(2)] by (intro runs_mono [OF say_types]) (auto simp: cd_text_def enters_def)
    then show ?thesis using 2 by (simp add: run del: split_paired_Ex) (erule runs_mono, use d(2) in \<open>auto simp: enters_def simp del: split_paired_Ex intro!: exI [of _ d]\<close>)
  next
    case 3
    have "runs (say B msg_no_directory [StrArg (Some q)] ?sh) (\<lambda>sh'. \<exists>c. sh' = ?sh\<lparr>sh_con := c\<rparr> \<and> displayed (cd_text r ?s) (sh_con sh) c)"
      using 3 con message_texts(2) [OF q(2)] by (intro runs_mono [OF say_types]) (auto simp: cd_text_def enters_def)
    then show ?thesis using 3 by (simp add: run del: split_paired_Ex) (erule runs_mono, use d(2) in \<open>auto simp: enters_def simp del: split_paired_Ex intro!: exI [of _ d]\<close>)
  qed
qed


section \<open>The contents of a file\<close>

lemma cstr_cut: "length bytes = n \<Longrightarrow> cstr ((bytes @ [b])[n := 0]) (takeWhile (\<lambda>c. c \<noteq> 0) bytes)"
proof -
  assume n: "length bytes = n"
  have "bytes @ [0] = takeWhile (\<lambda>c. c \<noteq> 0) bytes @ dropWhile (\<lambda>c. c \<noteq> 0) bytes @ [0]" by simp
  moreover have "\<exists>rest. dropWhile (\<lambda>c. c \<noteq> 0) bytes @ [0] = 0 # rest"
  proof (cases "dropWhile (\<lambda>c. c \<noteq> 0) bytes")
    case (Cons c rest)
    then have "c = 0" using hd_dropWhile [of "\<lambda>c. c \<noteq> 0" bytes] by simp
    then show ?thesis unfolding Cons by simp
  qed (simp only: append_Nil, simp)
  ultimately have "\<exists>rest. bytes @ [0] = takeWhile (\<lambda>c. c \<noteq> 0) bytes @ 0 # rest" by metis
  moreover have "0 \<notin> set (takeWhile (\<lambda>c. c \<noteq> 0) bytes)" by (auto dest: set_takeWhileD)
  ultimately show ?thesis using n by (simp add: cstr_def list_update_append)
qed

lemma cat_step:
  assumes S: "serves D img n dinv" and inv: "dinv (g_fat32_drive (sh_fat sh)) (disk (sh_fat sh))" and l: "lfn_length (sh_fat sh) = 0"
    and scratch: "length (sector_buffer scratch) = 512" and con: "ready B (sh_con sh)"
    and comps: "comps \<noteq> [] \<or> absolute" "\<forall>x\<in>set comps. component_ok x"
    and name: "filename = (if absolute then [47] else []) @ path_of comps @ 0 # rest"
    and r: "resolves img (fat_volume sh) n (mem (sh_fat sh)) (root_of (fat_volume sh)) comps (Some f)"
    and chain: "mounted (fat_volume sh)" "fat_chain (fat_volume sh) (mem (sh_fat sh)) cs" "cs \<noteq> []" "hd cs = f_cluster f" "on_disk (fat_volume sh) n cs"
    and sz: "0 < f_size f" "unat (f_size f) \<le> 2 ^ 31" "unat (f_size f) \<le> length (chain_bytes img (fat_volume sh) cs)"
    and heap: "heap (f_size f + 1) = Some buf" "length buf = unat (f_size f) + 1"
  shows "runs (cat B D scratch heap filename sh) (\<lambda>sh'. \<exists>d c. dinv (g_fat32_drive (sh_fat sh)) d \<and>
    displayed (takeWhile (\<lambda>c. c \<noteq> 0) (take (unat (f_size f)) (chain_bytes img (fat_volume sh) cs)) @ [10]) (sh_con sh) c \<and>
    sh' = sh\<lparr>sh_fat := (sh_fat sh)\<lparr>disk := d\<rparr>, sh_con := c\<rparr>)"
  (is "runs _ (?Q dinv)")
proof -
  let ?bytes = "take (unat (f_size f)) (chain_bytes img (fat_volume sh) cs)"
  obtain d1 where d1: "fat32_find_file D (fat_volume sh) scratch filename (sh_fat sh) = Some (Some f, (sh_fat sh)\<lparr>disk := d1\<rparr>)"
      "dinv (g_fat32_drive (sh_fat sh)) d1"
    using find_file_ok [OF S inv l scratch comps name r] by blast
  let ?st = "(sh_fat sh)\<lparr>disk := d1\<rparr>"
  have "runs (fat32_read_file D (fat_volume sh) f 0 buf (f_size f) ?st) (\<lambda>(ok, buffer', st').
    ok \<and> buffer' = take (unat (f_size f)) (drop (unat (0 :: u32)) (chain_bytes img (fat_volume sh) cs)) @ drop (unat (f_size f)) buf \<and> same_fat dinv ?st st')"
    by (rule read_file_ok [OF S]) (use d1(2) chain sz heap in simp_all)
  then obtain ok buf' st' where "fat32_read_file D (fat_volume sh) f 0 buf (f_size f) ?st = Some (ok, buf', st')"
      "buf' = ?bytes @ drop (unat (f_size f)) buf" "same_fat dinv ?st st'"
    by (auto simp: runs_iff simp del: split_paired_Ex)
  then obtain d b where rf: "fat32_read_file D (fat_volume sh) f 0 buf (f_size f) ?st = Some (ok, ?bytes @ [b], (sh_fat sh)\<lparr>disk := d\<rparr>)"
      "dinv (g_fat32_drive (sh_fat sh)) d"
    using heap(2) by (cases "drop (unat (f_size f)) buf") (auto simp: same_fat_def dest: arg_cong [where f = length])
  have len: "length ?bytes = unat (f_size f)" using sz(3) by simp
  have w: "wr (?bytes @ [b]) (unat (f_size f)) 0 = Some ((?bytes @ [b])[unat (f_size f) := 0])" using sz(3) by simp
  let ?sh = "sh\<lparr>sh_fat := (sh_fat sh)\<lparr>disk := d\<rparr>\<rparr>"
  have "runs (say B msg_line [StrArg (Some ((?bytes @ [b])[unat (f_size f) := 0]))] ?sh) (?Q dinv)"
  proof (rule runs_mono [OF say_types [OF _ message_texts(5) [OF cstr_cut [OF len]]]])
    fix sh' assume "\<exists>c. sh' = ?sh\<lparr>sh_con := c\<rparr> \<and> displayed (takeWhile (\<lambda>c. c \<noteq> 0) ?bytes @ [10]) (sh_con ?sh) c"
    then obtain c where "sh' = ?sh\<lparr>sh_con := c\<rparr>" "displayed (takeWhile (\<lambda>c. c \<noteq> 0) ?bytes @ [10]) (sh_con sh) c" by auto
    then show "?Q dinv sh'" using rf(2) by (intro exI [of _ d] exI [of _ c]) auto
  qed (use con in simp)
  then show ?thesis using w by (simp add: cat_def d1(1) rf(1) heap(1) del: wr_Some_iff split_paired_Ex)
qed


section \<open>Properties\<close>

text \<open>
  The shell at work on a disk whose sectors are \<open>img\<close>; a path that fits the buffers and has no name longer than
  a short name; and the shell's two variables in step: the path names the directory \<open>dir\<close>, and \<open>fat_root\<close> is what
  that path leads to on the disk.
\<close>

definition working ::
  "('w, 'x) bus_scheme \<Rightarrow> 'd ide_bus \<Rightarrow> (u32 \<Rightarrow> u8 list) \<Rightarrow> nat \<Rightarrow> (u8 \<Rightarrow> ide \<times> 'd \<Rightarrow> bool) \<Rightarrow> ('w, 'd, 'y) shell_scheme \<Rightarrow> bool" where
  "working B D img n dinv sh \<longleftrightarrow> serves D img n dinv \<and> dinv (g_fat32_drive (sh_fat sh)) (disk (sh_fat sh)) \<and>
     lfn_length (sh_fat sh) = 0 \<and> ready B (sh_con sh) \<and> length (current_path sh) = 256"

definition fitting :: "u8 list \<Rightarrow> u8 list \<Rightarrow> bool" where
  "fitting cur p \<longleftrightarrow> p \<noteq> [] \<and> length (joined cur p) < 512 \<and> length (render (target cur p)) \<le> 255 \<and>
     (\<forall>m \<in> set (target cur p). length m \<le> 12)"

definition cwd :: "(u32 \<Rightarrow> u8 list) \<Rightarrow> nat \<Rightarrow> u8 list list \<Rightarrow> ('w, 'd, 'y) shell_scheme \<Rightarrow> bool" where
  "cwd img n dir sh \<longleftrightarrow> cstr (current_path sh) (render dir) \<and> f_attrib (fat_root sh) AND 0x10 \<noteq> 0 \<and>
     resolves img (fat_volume sh) n (mem (sh_fat sh)) (root_of (fat_volume sh)) (capitals dir) (Some (fat_root sh))"

lemma cd_keeps_cwd:
  assumes w: "working B D img n dinv sh" and scratch: "length (sector_buffer scratch) = 512" and dir: "cwd img n dir sh"
    and p: "cstr path p" "fitting (render dir) p"
    and r: "resolves img (fat_volume sh) n (mem (sh_fat sh)) (root_of (fat_volume sh)) (capitals (target (render dir) p)) r"
  shows "runs (cd B D scratch (Some path) sh) (\<lambda>sh'. working B D img n dinv sh' \<and>
    cwd img n (if enters r then target (render dir) p else dir) sh' \<and>
    displayed (cd_text r (render (target (render dir) p))) (sh_con sh) (sh_con sh'))"
proof (rule runs_mono [OF cd_step [where n = n and img = img and dinv = dinv, OF _ _ _ scratch]])
  fix sh' assume "\<exists>d c. dinv (g_fat32_drive (sh_fat sh)) d \<and> displayed (cd_text r (render (target (render dir) p))) (sh_con sh) c \<and>
    (if enters r
     then \<exists>q. cstr q (render (target (render dir) p)) \<and> length q = 256 \<and>
       sh' = sh\<lparr>sh_fat := (sh_fat sh)\<lparr>disk := d\<rparr>, current_path := q, fat_root := the r, sh_con := c\<rparr>
     else sh' = sh\<lparr>sh_fat := (sh_fat sh)\<lparr>disk := d\<rparr>, sh_con := c\<rparr>)"
  then obtain d c where d: "dinv (g_fat32_drive (sh_fat sh)) d" "displayed (cd_text r (render (target (render dir) p))) (sh_con sh) c"
    and sh': "if enters r
     then \<exists>q. cstr q (render (target (render dir) p)) \<and> length q = 256 \<and>
       sh' = sh\<lparr>sh_fat := (sh_fat sh)\<lparr>disk := d\<rparr>, current_path := q, fat_root := the r, sh_con := c\<rparr>
     else sh' = sh\<lparr>sh_fat := (sh_fat sh)\<lparr>disk := d\<rparr>, sh_con := c\<rparr>"
    by blast
  have c: "ready B c" using displayed_ready [OF d(2), where B = B] w by (simp add: working_def)
  show "working B D img n dinv sh' \<and> cwd img n (if enters r then target (render dir) p else dir) sh' \<and>
    displayed (cd_text r (render (target (render dir) p))) (sh_con sh) (sh_con sh')"
  proof (cases "enters r")
    case True
    then obtain f where f: "r = Some f" "f_attrib f AND 0x10 \<noteq> 0" by (auto simp: enters_def)
    show ?thesis using sh' True f w d c r by (auto simp: working_def cwd_def)
  next
    case False
    then show ?thesis using sh' w d c dir by (simp add: working_def cwd_def)
  qed
qed (use w dir p r in \<open>simp_all add: working_def cwd_def fitting_def\<close>)


text \<open>C10. \<open>cd\<close> keeps the path and the directory in step: when the path names the directory that is listed, it
  does so after a \<open>cd\<close> to any path.  If what the path leads to, name by name from the current directory, is a
  directory on the disk, both move there; if it is missing or is a file, both stay.  The message on the
  terminal says which.\<close>

theorem cd_follows_path:
  assumes "working B D img n dinv sh" and "length (sector_buffer scratch) = 512" and "cwd img n dir sh"
    and "cstr path p" and "fitting (render dir) p"
    and "resolves img (fat_volume sh) n (mem (sh_fat sh)) (root_of (fat_volume sh)) (capitals (target (render dir) p)) r"
  shows "runs (cd B D scratch (Some path) sh) (\<lambda>sh'. working B D img n dinv sh' \<and>
    cwd img n (if enters r then target (render dir) p else dir) sh' \<and>
    displayed (cd_text r (render (target (render dir) p))) (sh_con sh) (sh_con sh'))"
  by (rule cd_keeps_cwd [OF assms])

definition demo_shell :: "(u8 list, ata_regs) shell" where
  "demo_shell = \<lparr>sh_con = demo_console, sh_fat = demo_state, fat_volume = demo_volume,
     fat_root = \<lparr>f_attrib = 0x10, f_cluster = 3, f_size = 0, f_offset = 0\<rparr>, current_path = 47 # 0 # replicate 254 0\<rparr>"

abbreviation (input) demo_scratch :: fat32_dir_list where
  "demo_scratch \<equiv> \<lparr>dl_cluster = 0, dl_entry = 0, sector_buffer = replicate 512 0, buffered_sector = 0\<rparr>"

lemma demo_shell_working:
  "working key_bus (image_disk tree_image) tree_image 1000 (ata_inv 0x1F0 0x3F8 (=) 1000) demo_shell"
  using demo_inv demo_console_ok(1,2) ata_serves [OF image_disk_ata [OF tree_image_len], of 1000]
  by (simp add: working_def demo_shell_def ready_def) (simp add: demo_state_def)

lemma demo_shell_cwd: "cwd tree_image 1000 [] demo_shell"
  by (simp add: cwd_def demo_shell_def render_def capitals_def demo_volume_def)

lemma demo_sub: "target [47] [115, 117, 98] = [[115, 117, 98]]" "render [] = [47]" "render [[115, 117, 98]] = [47, 83, 85, 66]"
  "joined [47] [115, 117, 98] = [47, 115, 117, 98]" "capitals [[115, 117, 98]] = [[83, 85, 66]]"
  by code_simp+

lemma demo_resolves_sub:
  "resolves tree_image demo_volume 1000 m (root_of demo_volume) [[83, 85, 66]] (Some \<lparr>f_attrib = 0x10, f_cluster = 5, f_size = 0, f_offset = 0\<rparr>)"
proof -
  have "dir_finds tree_image demo_volume 1000 m \<lparr>f_attrib = 0x10, f_cluster = 3, f_size = 0, f_offset = 0\<rparr> [83, 85, 66]
      \<lparr>f_attrib = 0x10, f_cluster = 5, f_size = 0, f_offset = 0\<rparr>"
    unfolding dir_finds_def
    by (intro conjI exI [of _ "[3]"] exI [of _ "Suc 0"] tree_image_chain) (simp_all add: tree_image_simps)
  then show ?thesis by (simp add: demo_volume_def)
qed

theorem cd_follows_path_witness:
  "runs (cd key_bus (image_disk tree_image) demo_scratch (Some [115, 117, 98, 0]) demo_shell)
     (\<lambda>sh'. cstr (current_path sh') [47, 83, 85, 66] \<and> cwd tree_image 1000 [[115, 117, 98]] sh')"
proof -
  have r: "resolves tree_image (fat_volume demo_shell) 1000 (mem (sh_fat demo_shell)) (root_of (fat_volume demo_shell))
      (capitals (target (render []) [115, 117, 98])) (Some \<lparr>f_attrib = 0x10, f_cluster = 5, f_size = 0, f_offset = 0\<rparr>)"
    using demo_resolves_sub by (simp add: demo_sub demo_shell_def)
  have f: "fitting (render []) [115, 117, 98]" by (simp add: fitting_def demo_sub)
  have s: "length (sector_buffer demo_scratch) = 512" by simp
  have p: "cstr [115, 117, 98, 0] [115, 117, 98]" by simp
  show ?thesis
    by (rule runs_mono [OF cd_follows_path [OF demo_shell_working s demo_shell_cwd p f r]])
      (simp add: enters_def demo_sub, simp add: cwd_def demo_sub)
qed

text \<open>C19. \<open>cat\<close> types a file: the bytes of its clusters up to its size, as far as the first zero byte, and a line feed.
  The name is looked up from the root, whatever the current directory is.\<close>

theorem cat_types_file:
  assumes "working B D img n dinv sh" and "length (sector_buffer scratch) = 512"
    and "comps \<noteq> [] \<or> absolute" and "\<forall>x\<in>set comps. component_ok x"
    and "filename = (if absolute then [47] else []) @ path_of comps @ 0 # rest"
    and "resolves img (fat_volume sh) n (mem (sh_fat sh)) (root_of (fat_volume sh)) comps (Some f)"
    and "mounted (fat_volume sh)" and "fat_chain (fat_volume sh) (mem (sh_fat sh)) cs" and "cs \<noteq> []" and "hd cs = f_cluster f"
    and "on_disk (fat_volume sh) n cs"
    and "0 < f_size f" and "unat (f_size f) \<le> 2 ^ 31" and "unat (f_size f) \<le> length (chain_bytes img (fat_volume sh) cs)"
    and "heap (f_size f + 1) = Some buf" and "length buf = unat (f_size f) + 1"
  shows "runs (cat B D scratch heap filename sh) (\<lambda>sh'.
    displayed (takeWhile (\<lambda>c. c \<noteq> 0) (take (unat (f_size f)) (chain_bytes img (fat_volume sh) cs)) @ [10]) (sh_con sh) (sh_con sh') \<and>
    current_path sh' = current_path sh \<and> fat_root sh' = fat_root sh)"
proof -
  have w: "serves D img n dinv" "dinv (g_fat32_drive (sh_fat sh)) (disk (sh_fat sh))" "lfn_length (sh_fat sh) = 0" "ready B (sh_con sh)"
    using assms(1) by (simp_all add: working_def)
  show ?thesis
    by (rule runs_mono [OF cat_step [where heap = heap and sh = sh and B = B and absolute = absolute, OF w(1-3) assms(2) w(4) assms(3-16)]]) auto
qed

theorem cat_types_file_witness:
  "runs (cat key_bus (image_disk tree_image) demo_scratch (\<lambda>n. Some (replicate (unat n) 1)) [115, 117, 98, 47, 97, 46, 98, 105, 110, 0] demo_shell)
     (\<lambda>sh'. displayed [10] demo_console (sh_con sh'))"
proof -
  let ?f = "\<lparr>f_attrib = 0x20, f_cluster = 7, f_size = 42, f_offset = 0\<rparr>"
  have vol: "fat_volume demo_shell = demo_volume" "sh_con demo_shell = demo_console" by (simp_all add: demo_shell_def)
  have s: "length (sector_buffer demo_scratch) = 512" by simp
  have bytes: "chain_bytes tree_image demo_volume [7] = replicate 512 0"
    by (simp add: chain_bytes_def cluster_bytes_def demo_spc)
      (simp add: cluster_to_sector_def demo_volume_def zero_volume_def tree_image_def)
  have r: "resolves tree_image (fat_volume demo_shell) 1000 (mem (sh_fat demo_shell)) (root_of (fat_volume demo_shell))
      [[115, 117, 98], [97, 46, 98, 105, 110]] (Some ?f)"
    using tree_image_sub [of "mem demo_state"] tree_image_file [of "mem demo_state"]
    by (auto simp: demo_shell_def demo_volume_def intro!: exI [of _ "\<lparr>f_attrib = 0x10, f_cluster = 5, f_size = 0, f_offset = 0\<rparr>"])
  have d: "on_disk demo_volume 1000 [7]"
    by (simp add: on_disk_def demo_spc) (simp add: cluster_to_sector_def demo_volume_def zero_volume_def)
  have c: "fat_chain demo_volume m [7]" for m by simp
  show ?thesis
    by (rule runs_mono [OF cat_types_file [OF demo_shell_working s, of "[[115, 117, 98], [97, 46, 98, 105, 110]]" False _ "[]" ?f "[7]" _ "replicate 43 1"]])
      (use r d in \<open>simp_all add: vol bytes demo_spc component_ok_def\<close>)
qed

end
