(* ===== verification/Telnet.thy ===== *)
theory Telnet
  imports Network ConsoleFormat
begin

text \<open>
  The telnet client of \<open>src/shell/shell.c\<close>: the filter that takes the commands of the protocol out of what the
  other side sends, and the session over a connection of the TCP layer, the console and the keyboard.  The
  counters of the filter are natural numbers: they are \<open>int\<close>s bounded by the sizes of the buffers.  The
  session takes a list of turns: what the interrupts of a turn bring (frames that arrive, the
  clock), and the key that the keyboard holds, if any; a session that has not ended with the list goes on
  (\<open>None\<close>).
\<close>

abbreviation (input) TELNET_IAC :: u8 where "TELNET_IAC \<equiv> 0xFF"
abbreviation (input) TELNET_WILL :: u8 where "TELNET_WILL \<equiv> 0xFB"
abbreviation (input) TELNET_SB :: u8 where "TELNET_SB \<equiv> 0xFA"
abbreviation (input) TELNET_SE :: u8 where "TELNET_SE \<equiv> 0xF0"
abbreviation (input) TELOPT_SGA :: u8 where "TELOPT_SGA \<equiv> 0x03"

section \<open>The filter\<close>

text \<open>The loop over a subnegotiation.\<close>

function skip_to_iac :: "u8 list \<Rightarrow> nat \<Rightarrow> nat \<Rightarrow> nat option" where
  "skip_to_iac data len i =
     (if i < len then do { c \<leftarrow> rd data i; if c \<noteq> TELNET_IAC then skip_to_iac data len (i + 1) else Some i } else Some i)"
  by pat_completeness auto

termination skip_to_iac
  by (relation "measure (\<lambda>(data, len, i). len - i)") auto

declare skip_to_iac.simps [simp del]

lemma skip_to_iac_mono: "skip_to_iac data len i = Some j \<Longrightarrow> i \<le> j"
  by (induction data len i rule: skip_to_iac.induct)
    (subst (asm) skip_to_iac.simps, auto simp: bind_eq_Some_conv simp del: rd_Some_iff split: if_splits)

function filter_loop :: "u8 list \<Rightarrow> nat \<Rightarrow> nat \<Rightarrow> nat \<Rightarrow> nat \<Rightarrow> u8 list \<Rightarrow> (nat \<times> u8 list) option" where
  "filter_loop data len outsz i n out =
     (if i < len \<and> n < outsz - 1
      then do {
        c \<leftarrow> rd data i;
        if c = TELNET_IAC
        then if i + 1 < len
             then do {
               cmd \<leftarrow> rd data (i + 1);
               if cmd = TELNET_IAC
               then do { out \<leftarrow> wr out n TELNET_IAC; filter_loop data len outsz (i + 2) (n + 1) out }
               else if cmd = TELNET_SB
               then (case skip_to_iac data len (i + 2) of
                       None \<Rightarrow> None
                     | Some j \<Rightarrow>
                         if j + 1 < len
                         then do { se \<leftarrow> rd data (j + 1);
                                   if se = TELNET_SE then filter_loop data len outsz (j + 2) n out
                                   else filter_loop data len outsz j n out }
                         else filter_loop data len outsz j n out)
               else filter_loop data len outsz (i + 3) n out }
             else filter_loop data len outsz (i + 1) n out
        else do { out \<leftarrow> wr out n c; filter_loop data len outsz (i + 1) (n + 1) out } }
      else Some (n, out))"
  by pat_completeness auto

termination filter_loop
  by (relation "measure (\<lambda>(data, len, outsz, i, n, out). len - i)") (auto dest: skip_to_iac_mono)

declare filter_loop.simps [simp del]

definition telnet_filter :: "u8 list \<Rightarrow> nat \<Rightarrow> u8 list \<Rightarrow> nat \<Rightarrow> (nat \<times> u8 list) option" where
  "telnet_filter data len out outsz =
     do { (n, out) \<leftarrow> filter_loop data len outsz 0 0 out; out \<leftarrow> wr out n 0; Some (n, out) }"

section \<open>The session\<close>

text \<open>What the interrupts of a turn bring: frames that the card's driver hands over, and ticks of the timer.\<close>

datatype arrival = FrameIn "u8 list" u16 | TickIn

primrec arrive :: "arrival list \<Rightarrow> tcp_net \<Rightarrow> tcp_net option" where
  "arrive [] st = Some st"
| "arrive (e # es) st =
     do { st \<leftarrow> (case e of FrameIn data len \<Rightarrow> net_process_packet data len st | TickIn \<Rightarrow> Some (st\<lparr>ticks := ticks st + 1\<rparr>));
          arrive es st }"

type_synonym telnet_turn = "arrival list \<times> u8 option"

text \<open>The wait for the connection, at most 500 ticks.\<close>

fun telnet_wait :: "telnet_turn list \<Rightarrow> nat \<Rightarrow> u32 \<Rightarrow> tcp_net \<Rightarrow> (telnet_turn list \<times> tcp_net) option" where
  "telnet_wait turns i start st =
     do { k \<leftarrow> conns st i;
          if state k \<noteq> TCP_ESTABLISHED \<and> ticks st - start < 500
          then (case turns of
                  [] \<Rightarrow> None
                | (events, _) # turns \<Rightarrow>
                    do { st \<leftarrow> arrive events st; st \<leftarrow> check_tcp_timers st; telnet_wait turns i start st })
          else Some (turns, st) }"

declare telnet_wait.simps [simp del]

text \<open>What has arrived is filtered into a buffer one byte larger than the receive buffer, and shown.\<close>

definition telnet_receive ::
  "('w, 'x) bus_scheme \<Rightarrow> nat \<Rightarrow> tcp_net \<times> 'w console \<Rightarrow> (tcp_net \<times> 'w console) option" where
  "telnet_receive B i sc =
     (let (st, c) = sc
      in do { k \<leftarrow> conns st i;
              if recv_buffer_len k > 0
              then do {
                (n, filtered) \<leftarrow> telnet_filter (recv_buffer k) (unat (recv_buffer_len k)) (replicate 4097 0) 4097;
                c \<leftarrow> (if n > 0 then do { c \<leftarrow> put_chars B (take n filtered) c; console_flush c } else Some c);
                Some (put_conn i (k\<lparr>recv_buffer_len := 0\<rparr>) st, c) }
              else Some (st, c) })"

text \<open>The bytes sent for a key, and what a key does; the first component says that the session ends.\<close>

definition key_bytes :: "u8 \<Rightarrow> u8 list" where
  "key_bytes k = (if k = 13 \<or> k = 10 then [13, 10] else if k = TELNET_IAC then [TELNET_IAC, TELNET_IAC] else [k])"

definition telnet_key ::
  "('w, 'x) bus_scheme \<Rightarrow> nat \<Rightarrow> u8 option \<Rightarrow> tcp_net \<times> 'w console \<Rightarrow> (bool \<times> tcp_net \<times> 'w console) option" where
  "telnet_key B i key sc =
     (let (st, c) = sc
      in case key of
           None \<Rightarrow> Some (False, st, c)
         | Some k \<Rightarrow>
             if k = 3 then Some (True, st, c)
             else do { st \<leftarrow> send_on i (TCP_PSH OR TCP_ACK) (key_bytes k) (of_nat (length (key_bytes k))) st;
                       c \<leftarrow> console_putchar B k c;
                       c \<leftarrow> console_flush c;
                       Some (False, st, c) })"

fun telnet_session ::
  "('w, 'x) bus_scheme \<Rightarrow> telnet_turn list \<Rightarrow> nat \<Rightarrow> tcp_net \<times> 'w console \<Rightarrow> (telnet_turn list \<times> tcp_net \<times> 'w console) option" where
  "telnet_session B turns i sc =
     do { k \<leftarrow> conns (fst sc) i;
          if state k \<noteq> TCP_ESTABLISHED then Some (turns, sc)
          else (case turns of
                  [] \<Rightarrow> None
                | (events, key) # turns \<Rightarrow>
                    do { st \<leftarrow> arrive events (fst sc);
                         st \<leftarrow> check_tcp_timers st;
                         sc \<leftarrow> telnet_receive B i (st, snd sc);
                         (stop, sc) \<leftarrow> telnet_key B i key sc;
                         if stop then Some (turns, sc)
                         else do { k \<leftarrow> conns (fst sc) i;
                                   if state k = TCP_CLOSE_WAIT \<or> state k = TCP_LAST_ACK \<or> state k = TCP_CLOSED
                                   then Some (turns, sc)
                                   else telnet_session B turns i sc } }) }"

declare telnet_session.simps [simp del]

definition telnet_invalid :: "u8 list" where "telnet_invalid = ascii ''Invalid IP address'' @ [10, 0]"
definition telnet_failed :: "u8 list" where "telnet_failed = ascii ''Failed to initiate connection'' @ [10, 0]"
definition telnet_timeout :: "u8 list" where "telnet_timeout = ascii ''Connection timed out'' @ [10, 0]"
definition telnet_connected :: "u8 list" where "telnet_connected = ascii ''Connected to %s:%d'' @ [10, 0]"
definition telnet_closed :: "u8 list" where "telnet_closed = [10] @ ascii ''Connection closed'' @ [10, 0]"

text \<open>With the connection \<open>i\<close> that \<open>tcp_connect\<close> has made.\<close>

definition telnet_connection ::
  "('w, 'x) bus_scheme \<Rightarrow> telnet_turn list \<Rightarrow> nat \<Rightarrow> u8 list \<Rightarrow> u16 \<Rightarrow> tcp_net \<times> 'w console \<Rightarrow>
    (telnet_turn list \<times> tcp_net \<times> 'w console) option" where
  "telnet_connection B turns i ip_str port sc =
     (let (st, c) = sc
      in do { (turns, st) \<leftarrow> telnet_wait turns i (ticks st) st;
              k \<leftarrow> conns st i;
              if state k \<noteq> TCP_ESTABLISHED
              then do { c \<leftarrow> console_printf B telnet_timeout [] c; st \<leftarrow> remove_connection i st; Some (turns, st, c) }
              else do {
                c \<leftarrow> console_printf B telnet_connected [StrArg (Some ip_str), IntArg (ucast port)] c;
                st \<leftarrow> send_on i (TCP_PSH OR TCP_ACK) [TELNET_IAC, TELNET_WILL, TELOPT_SGA] 3 st;
                (turns, st, c) \<leftarrow> telnet_session B turns i (st, c);
                c \<leftarrow> console_printf B telnet_closed [] c;
                st \<leftarrow> remove_connection i st;
                Some (turns, st, c) } })"

definition telnet_command ::
  "('w, 'x) bus_scheme \<Rightarrow> telnet_turn list \<Rightarrow> u8 list \<Rightarrow> tcp_net \<times> 'w console \<Rightarrow> (telnet_turn list \<times> tcp_net \<times> 'w console) option" where
  "telnet_command B turns args sc =
     (let (st, c) = sc
      in do { (ip_str, args, lst) \<leftarrow> strtok args None (Some 0) [32, 0];
              (port_str, args, lst) \<leftarrow> strtok args lst None [32, 0];
              port \<leftarrow> (case port_str of Some q \<Rightarrow> map_option word_of_int (atoi (drop q args)) | None \<Rightarrow> Some 23);
              p \<leftarrow> ip_str;
              remote \<leftarrow> inet_addr (drop p args);
              if remote = INADDR_NONE
              then do { c \<leftarrow> console_printf B telnet_invalid [] c; Some (turns, st, c) }
              else do {
                (conn, st) \<leftarrow> tcp_connect remote port st;
                case conn of
                  None \<Rightarrow> do { c \<leftarrow> console_printf B telnet_failed [] c; Some (turns, st, c) }
                | Some i \<Rightarrow> telnet_connection B turns i (drop p args) port (st, c) } })"

section \<open>What the filter lets through\<close>

text \<open>
  A doubled \<open>IAC\<close> is the byte 255; a subnegotiation goes to the next \<open>IAC\<close>, with the \<open>SE\<close> behind it; any other
  command is \<open>IAC\<close> with two bytes.
\<close>

definition after_sub :: "u8 list \<Rightarrow> u8 list" where
  "after_sub s =
     (let r = dropWhile (\<lambda>x. x \<noteq> TELNET_IAC) s in case r of _ # se # r' \<Rightarrow> if se = TELNET_SE then r' else r | _ \<Rightarrow> r)"

lemma after_sub_shorter: "length (after_sub s) \<le> length s"
  using length_dropWhile_le [of "\<lambda>x. x \<noteq> TELNET_IAC" s]
  by (auto simp: after_sub_def Let_def split: list.splits)

function plain :: "u8 list \<Rightarrow> u8 list" where
  "plain [] = []"
| "plain [c] = (if c = TELNET_IAC then [] else [c])"
| "plain (c # cmd # s) =
     (if c \<noteq> TELNET_IAC then c # plain (cmd # s)
      else if cmd = TELNET_IAC then TELNET_IAC # plain s
      else if cmd = TELNET_SB then plain (after_sub s)
      else plain (drop 1 s))"
  by pat_completeness auto

termination plain
  using after_sub_shorter by (relation "measure length") (auto simp: less_Suc_eq_le le_SucI)

text \<open>Bytes as they are sent: the byte 255 is doubled.\<close>

definition escape :: "u8 list \<Rightarrow> u8 list" where
  "escape s = concat (map (\<lambda>c. if c = TELNET_IAC then [TELNET_IAC, TELNET_IAC] else [c]) s)"

lemma plain_other: "c \<noteq> TELNET_IAC \<Longrightarrow> plain (c # s) = c # plain s"
  by (cases s) auto

lemma plain_escape: "plain (escape s @ r) = s @ plain r"
proof (induction s)
  case (Cons c s)
  then show ?case by (cases "c = TELNET_IAC") (simp_all add: escape_def plain_other)
qed (simp add: escape_def)

lemma skip_to_iac_ok:
  assumes "len \<le> length data"
  shows "\<exists>j. skip_to_iac data len i = Some j \<and> i \<le> j \<and> drop j (take len data) = dropWhile (\<lambda>x. x \<noteq> TELNET_IAC) (drop i (take len data))"
  using assms
proof (induction data len i rule: skip_to_iac.induct)
  case (1 data len i)
  show ?case
  proof (cases "i < len")
    case True
    then have d: "drop i (take len data) = data ! i # drop (Suc i) (take len data)" and r: "rd data i = Some (data ! i)"
      using 1(2) by (simp_all add: Cons_nth_drop_Suc [symmetric])
    show ?thesis
    proof (cases "data ! i = TELNET_IAC")
      case False
      obtain j where j: "skip_to_iac data len (i + 1) = Some j" "i + 1 \<le> j"
          "drop j (take len data) = dropWhile (\<lambda>x. x \<noteq> TELNET_IAC) (drop (i + 1) (take len data))"
        using 1(1) [OF True r False 1(2)] by blast
      have "skip_to_iac data len i = Some j" using True r False j(1) by (subst skip_to_iac.simps) (simp del: rd_Some_iff)
      then show ?thesis using j False by (auto simp: d)
    next
      case iac: True
      have "skip_to_iac data len i = Some i" using True r iac by (subst skip_to_iac.simps) (simp del: rd_Some_iff)
      then show ?thesis using iac by (simp add: d)
    qed
  qed (simp add: skip_to_iac.simps)
qed


text \<open>What the loop has written when the filtered bytes are \<open>s\<close>.\<close>

definition filled :: "nat \<Rightarrow> nat \<Rightarrow> u8 list \<Rightarrow> u8 list \<Rightarrow> nat \<times> u8 list" where
  "filled outsz n out s =
     (let r = take (outsz - 1 - n) s in (n + length r, take n out @ r @ drop (n + length r) out))"

lemma filled_Nil [simp]: "filled outsz n out [] = (n, out)"
  by (simp add: filled_def)

lemma filled_full: "\<not> n < outsz - 1 \<Longrightarrow> filled outsz n out s = (n, out)"
  by (simp add: filled_def)

lemma filled_Cons:
  assumes "n < outsz - 1" "outsz \<le> length out"
  shows "filled outsz (n + 1) (out[n := c]) s = filled outsz n out (c # s)"
proof -
  have "outsz - 1 - n = Suc (outsz - 1 - (n + 1))" using assms by simp
  moreover have "take (n + 1) (out[n := c]) = take n out @ [c]" using assms by (simp add: take_Suc_conv_app_nth)
  ultimately show ?thesis by (simp add: filled_def)
qed

lemma filter_loop_ok:
  assumes "len \<le> length data" "n < outsz" "outsz \<le> length out"
  shows "filter_loop data len outsz i n out = Some (filled outsz n out (plain (drop i (take len data))))"
  using assms(2,3)
proof (induction "len - i" arbitrary: i n out rule: less_induct)
  case less
  define d where "d = take len data"
  show ?case
  proof (cases "i < len \<and> n < outsz - 1")
    case False
    then show ?thesis by (subst filter_loop.simps) (auto simp: filled_full)
  next
    case True
    have at: "rd data j = Some (data ! j) \<and> drop j d = data ! j # drop (j + 1) d" if "j < len" for j
      using that assms(1) by (simp add: d_def Cons_nth_drop_Suc [symmetric])
    have IH: "filter_loop data len outsz j m out' = Some (filled outsz m out' (plain (drop j d)))"
      if "i < j" "m < outsz" "length out' = length out" for j m out'
      using less.hyps [of j m out'] diff_less_mono2 [of i j len] that True less.prems by (simp add: d_def)
    have put: "wr out n c = Some (out[n := c])" for c using True less.prems by simp
    have store: "filter_loop data len outsz j (n + 1) (out[n := c]) = Some (filled outsz n out (c # plain (drop j d)))" if "i < j" for j c
    proof -
      have "n + 1 < outsz" using True by arith
      then show ?thesis using IH [of j "n + 1" "out[n := c]"] filled_Cons [of n outsz out c] True that less.prems by simp
    qed
    note here = at [THEN conjunct1] at [THEN conjunct2]
    show ?thesis
    proof (cases "data ! i = TELNET_IAC")
      case False
      then have "plain (drop i d) = data ! i # plain (drop (i + 1) d)" using at True by (simp add: plain_other)
      then show ?thesis using True False here(1) [of i] put store [of "i + 1"] unfolding d_def [symmetric]
        by (subst filter_loop.simps) (simp del: rd_Some_iff wr_Some_iff)
    next
      case iac: True
      show ?thesis
      proof (cases "i + 1 < len")
        case False
        then have "drop i d = [TELNET_IAC]" using at [of i] True iac assms(1) by (simp add: d_def)
        moreover have "drop (i + 1) d = []" using False by (simp add: d_def)
        ultimately show ?thesis using True False iac here(1) [of i] IH [of "i + 1" n out] less.prems unfolding d_def [symmetric]
          by (subst filter_loop.simps) (simp del: rd_Some_iff wr_Some_iff)
      next
        case cmd: True
        have two: "drop i d = TELNET_IAC # data ! (i + 1) # drop (i + 2) d" using at [of i] at [of "i + 1"] True cmd iac by simp
        consider "data ! (i + 1) = TELNET_IAC" | "data ! (i + 1) = TELNET_SB" | "data ! (i + 1) \<noteq> TELNET_IAC" "data ! (i + 1) \<noteq> TELNET_SB"
          by blast
        then show ?thesis
        proof cases
          case 1
          then show ?thesis using True cmd iac here(1) [of i] here(1) [of "i + 1"] put store [of "i + 2"] two unfolding d_def [symmetric]
            by (subst filter_loop.simps) (simp del: rd_Some_iff wr_Some_iff)
        next
          case 3
          then show ?thesis
            using True cmd iac here(1) [of i] here(1) [of "i + 1"] IH [of "i + 3" n out] two less.prems unfolding d_def [symmetric]
            by (subst filter_loop.simps) (simp add: eval_nat_numeral del: rd_Some_iff wr_Some_iff)
        next
          case 2
          obtain j where j: "skip_to_iac data len (i + 2) = Some j" "i + 2 \<le> j"
              "drop j d = dropWhile (\<lambda>x. x \<noteq> TELNET_IAC) (drop (i + 2) d)"
            using skip_to_iac_ok [OF assms(1), of "i + 2"] by (auto simp: d_def)
          have p: "plain (drop i d) = plain (after_sub (drop (i + 2) d))" using two 2 by simp
          show ?thesis
          proof (cases "j + 1 < len")
            case True1: True
            then have dj: "drop j d = data ! j # data ! (j + 1) # drop (j + 2) d" using at [of j] at [of "j + 1"] by simp
            then have "after_sub (drop (i + 2) d) = (if data ! (j + 1) = TELNET_SE then drop (j + 2) d else drop j d)"
              using j(3) by (simp add: after_sub_def)
            then show ?thesis
              using True True1 cmd iac 2 here(1) [of i] here(1) [of "i + 1"] here(1) [of "j + 1"] j(1,2) IH [of "j + 2" n out] IH [of j n out] p less.prems
              unfolding d_def [symmetric] by (subst filter_loop.simps) (simp del: rd_Some_iff wr_Some_iff)
          next
            case False1: False
            then have "drop j d = [] \<or> (\<exists>x. drop j d = [x])" by (cases "j < len") (use at [of j] in \<open>auto simp: d_def\<close>)
            then have "after_sub (drop (i + 2) d) = drop j d" unfolding after_sub_def Let_def j(3) [symmetric] by auto
            then show ?thesis
              using True False1 cmd iac 2 here(1) [of i] here(1) [of "i + 1"] j(1,2) IH [of j n out] p less.prems
              unfolding d_def [symmetric] by (subst filter_loop.simps) (simp del: rd_Some_iff wr_Some_iff)
          qed
        qed
      qed
    qed
  qed
qed

text \<open>The filter is \<open>plain\<close>, cut off where the output is full.\<close>

lemma telnet_filter_ok:
  assumes "len \<le> length data" "0 < outsz" "outsz \<le> length out" and r: "r = take (outsz - 1) (plain (take len data))"
  shows "telnet_filter data len out outsz = Some (length r, r @ 0 # drop (Suc (length r)) out)"
proof -
  have l: "length r < length out" using assms by simp
  have "filter_loop data len outsz 0 0 out = Some (length r, r @ drop (length r) out)"
    using filter_loop_ok [OF assms(1,2,3), of 0] by (simp add: filled_def r Let_def)
  moreover have "wr (r @ drop (length r) out) (length r) 0 = Some (r @ 0 # drop (Suc (length r)) out)"
    using l by (simp add: list_update_append Cons_nth_drop_Suc [symmetric])
  ultimately show ?thesis by (simp add: telnet_filter_def del: wr_Some_iff)
qed

section \<open>The session leaves the TCP layer in order\<close>

lemma tick_keeps: "tcp_ok st \<Longrightarrow> tcp_ok (st\<lparr>ticks := t\<rparr>)"
  by (simp add: tcp_ok_def has_timer_def)

lemma arrive_keeps: "tcp_ok st \<Longrightarrow> arrive es st = Some st' \<Longrightarrow> tcp_ok st'"
proof (induction es arbitrary: st)
  case (Cons e es)
  obtain st1 where st1: "(case e of FrameIn data len \<Rightarrow> net_process_packet data len st | TickIn \<Rightarrow> Some (st\<lparr>ticks := ticks st + 1\<rparr>)) = Some st1"
      "arrive es st1 = Some st'"
    using Cons.prems(2) by (auto simp: bind_eq_Some_conv)
  then have "tcp_ok st1"
    using partiallyD [OF net_process_packet_ok [OF Cons.prems(1)]] tick_keeps [OF Cons.prems(1)] by (auto split: arrival.splits)
  then show ?case using Cons.IH st1(2) by blast
qed simp

lemma check_tcp_timers_keeps: "tcp_ok st \<Longrightarrow> check_tcp_timers st = Some st' \<Longrightarrow> tcp_ok st'"
  using partiallyD [OF check_tcp_timers_ok] by blast

lemma telnet_wait_keeps:
  "telnet_wait turns i start st = Some (turns', st') \<Longrightarrow> tcp_ok st \<Longrightarrow> tcp_ok st'"
proof (induction turns i start st rule: telnet_wait.induct)
  case (1 turns i start st)
  from "1.prems"(1) obtain k where k: "conns st i = Some k" by (subst (asm) telnet_wait.simps) (auto simp: bind_eq_Some_conv)
  show ?case
  proof (cases "state k \<noteq> TCP_ESTABLISHED \<and> ticks st - start < 500")
    case True
    with "1.prems"(1) k obtain es key ts st1 st2 where
      t: "turns = (es, key) # ts" "arrive es st = Some st1" "check_tcp_timers st1 = Some st2" "telnet_wait ts i start st2 = Some (turns', st')"
      by (subst (asm) telnet_wait.simps) (auto simp: bind_eq_Some_conv split: list.splits)
    then have "tcp_ok st1" using arrive_keeps "1.prems"(2) by blast
    with t(3) have "tcp_ok st2" using check_tcp_timers_keeps by blast
    then show ?thesis using "1.IH" [OF k True t(1) refl t(2,3,4)] by blast
  next
    case False
    then show ?thesis using "1.prems" k by (subst (asm) telnet_wait.simps) auto
  qed
qed

lemma telnet_receive_keeps:
  assumes "telnet_receive B i (st, c) = Some (st', c')" "tcp_ok st"
  shows "tcp_ok st'"
proof -
  obtain k where k: "conns st i = Some k" using assms(1) by (auto simp: telnet_receive_def bind_eq_Some_conv)
  then have "tcp_ok (put_conn i (k\<lparr>recv_buffer_len := 0\<rparr>) st)"
    using assms(2) by (intro sets_same_state_ok [OF assms(2) k sets_put_conn, THEN conjunct1]) (auto simp: tcp_okD)
  then show ?thesis using assms k by (auto simp: telnet_receive_def bind_eq_Some_conv split: if_splits)
qed

lemma send_on_keeps: "tcp_ok st \<Longrightarrow> send_on i flags data len st = Some st' \<Longrightarrow> tcp_ok st'"
  using partiallyD [OF send_on_ok] by (cases "conns st i") (auto simp: send_on_def)

lemma telnet_key_keeps:
  assumes "telnet_key B i key (st, c) = Some (stop, st', c')" "tcp_ok st"
  shows "tcp_ok st'"
  using assms send_on_keeps [OF assms(2)] by (auto simp: telnet_key_def bind_eq_Some_conv split: option.splits if_splits)


lemma telnet_session_keeps:
  "telnet_session B turns i sc = Some (turns', st', c') \<Longrightarrow> tcp_ok (fst sc) \<Longrightarrow> tcp_ok st'"
proof (induction B turns i sc rule: telnet_session.induct)
  case (1 B turns i sc)
  from "1.prems"(1) obtain k where k: "conns (fst sc) i = Some k" by (subst (asm) telnet_session.simps) (auto simp: bind_eq_Some_conv)
  show ?case
  proof (cases "state k = TCP_ESTABLISHED")
    case True
    with "1.prems"(1) k obtain es key ts st1 st2 sc1 stop sc2 where
      t: "turns = (es, key) # ts" "arrive es (fst sc) = Some st1" "check_tcp_timers st1 = Some st2"
        "telnet_receive B i (st2, snd sc) = Some sc1" "telnet_key B i key sc1 = Some (stop, sc2)"
      and r: "(if stop then Some (ts, sc2)
               else do { k \<leftarrow> conns (fst sc2) i;
                         if state k = TCP_CLOSE_WAIT \<or> state k = TCP_LAST_ACK \<or> state k = TCP_CLOSED
                         then Some (ts, sc2) else telnet_session B ts i sc2 }) = Some (turns', st', c')"
      by (subst (asm) telnet_session.simps) (auto simp: bind_eq_Some_conv split: list.splits)
    have 1: "tcp_ok st1" using arrive_keeps "1.prems"(2) t(2) by blast
    then have "tcp_ok st2" using check_tcp_timers_keeps t(3) by blast
    then have "tcp_ok (fst sc1)" using telnet_receive_keeps [of B i st2 "snd sc" "fst sc1" "snd sc1"] t(4) by simp
    then have 2: "tcp_ok (fst sc2)" using telnet_key_keeps [of B i key "fst sc1" "snd sc1" stop "fst sc2" "snd sc2"] t(5) by simp
    show ?thesis
    proof (cases "stop \<or> (\<exists>k. conns (fst sc2) i = Some k \<and> (state k = TCP_CLOSE_WAIT \<or> state k = TCP_LAST_ACK \<or> state k = TCP_CLOSED))")
      case True
      then show ?thesis using r 2 by (auto split: if_splits)
    next
      case False
      then obtain k2 where k2: "conns (fst sc2) i = Some k2" "\<not> stop"
          "\<not> (state k2 = TCP_CLOSE_WAIT \<or> state k2 = TCP_LAST_ACK \<or> state k2 = TCP_CLOSED)"
        using r by (auto simp: bind_eq_Some_conv)
      then have "telnet_session B ts i sc2 = Some (turns', st', c')" using r by simp
      then show ?thesis
        using "1.IH" [OF k _ t(1) refl t(2-4) t(5) refl _ k2(1) k2(3) _ 2] True k2(2) by simp
    qed
  next
    case False
    then show ?thesis using "1.prems" k by (subst (asm) telnet_session.simps) auto
  qed
qed

lemma remove_connection_keeps:
  "tcp_ok st \<Longrightarrow> remove_connection i st = Some st' \<Longrightarrow> tcp_ok st' \<and> conns st' i = None"
  using partiallyD [OF remove_connection_ok] by fastforce

lemma telnet_connection_keeps:
  assumes "telnet_connection B turns i ip port (st, c) = Some (turns', st', c')" "tcp_ok st"
  shows "tcp_ok st' \<and> conns st' i = None"
proof -
  obtain turns1 st1 k where w: "telnet_wait turns i (ticks st) st = Some (turns1, st1)" "conns st1 i = Some k"
    using assms(1) by (auto simp: telnet_connection_def bind_eq_Some_conv)
  have 1: "tcp_ok st1" using telnet_wait_keeps [OF w(1) assms(2)] .
  show ?thesis
  proof (cases "state k = TCP_ESTABLISHED")
    case False
    then show ?thesis using assms(1) w remove_connection_keeps [OF 1] by (auto simp: telnet_connection_def bind_eq_Some_conv)
  next
    case True
    with assms(1) w obtain c1 st2 turns3 st3 c3 where
      s: "send_on i (TCP_PSH OR TCP_ACK) [TELNET_IAC, TELNET_WILL, TELOPT_SGA] 3 st1 = Some st2"
        "telnet_session B turns1 i (st2, c1) = Some (turns3, st3, c3)" "remove_connection i st3 = Some st'"
      by (auto simp: telnet_connection_def bind_eq_Some_conv)
    have "tcp_ok st3" using telnet_session_keeps [OF s(2)] send_on_keeps [OF 1 s(1)] by simp
    then show ?thesis using remove_connection_keeps s(3) by blast
  qed
qed

lemma tcp_connect_new:
  assumes "tcp_connect rip rport st = Some (r, st')" "tcp_ok st"
  shows "tcp_ok st' \<and> (case r of None \<Rightarrow> conns st' = conns st | Some i \<Rightarrow> i = next_conn st)"
proof -
  have "tcp_ok st'" using partiallyD [OF tcp_connect_ok [OF assms(2)] assms(1)] by simp
  moreover have "case r of None \<Rightarrow> conns st' = conns st | Some i \<Rightarrow> i = next_conn st"
    using assms(1) by (auto simp: tcp_connect_def malloc_def generate_secure_initial_seq_def bind_eq_Some_conv Let_def split: if_splits)
  ultimately show ?thesis ..
qed

lemma telnet_command_keeps:
  assumes "telnet_command B turns args (st, c) = Some (turns', st', c')" "tcp_ok st"
  shows "tcp_ok st' \<and> conns st' (next_conn st) = None \<and> \<not> has_timer (next_conn st) st'"
proof -
  have "tcp_ok st' \<and> conns st' (next_conn st) = None"
    using assms(1,2) tcp_connect_new [OF _ assms(2)] telnet_connection_keeps tcp_okD(7) [OF assms(2)]
    by (fastforce simp: telnet_command_def bind_eq_Some_conv split: if_splits option.splits)
  moreover from this have "\<not> has_timer (next_conn st) st'" by (auto simp: tcp_ok_def)
  ultimately show ?thesis by blast
qed


section \<open>Properties\<close>

text \<open>
  What is sent over a telnet line (RFC 854): characters, of which 255 is doubled, negotiations of an option
  (\<open>WILL\<close>, \<open>WONT\<close>, \<open>DO\<close>, \<open>DONT\<close>) and subnegotiations.  The commands of two bytes (\<open>NOP\<close>, \<open>GA\<close> and others) are not
  among them: the filter takes the byte behind them for an option and drops it.
\<close>

datatype telnet_item = Character u8 | Negotiation u8 u8 | Subnegotiation "u8 list"

definition item_bytes :: "telnet_item \<Rightarrow> u8 list" where
  "item_bytes x = (case x of
     Character ch \<Rightarrow> if ch = 255 then [255, 255] else [ch]
   | Negotiation verb opt \<Rightarrow> [255, verb, opt]
   | Subnegotiation params \<Rightarrow> [255, 250] @ params @ [255, 240])"

definition item_text :: "telnet_item \<Rightarrow> u8 list" where
  "item_text x = (case x of Character ch \<Rightarrow> [ch] | _ \<Rightarrow> [])"

definition item_ok :: "telnet_item \<Rightarrow> bool" where
  "item_ok x = (case x of
     Character ch \<Rightarrow> True | Negotiation verb opt \<Rightarrow> verb \<in> {251, 252, 253, 254} | Subnegotiation params \<Rightarrow> 255 \<notin> set params)"

definition stream_bytes :: "telnet_item list \<Rightarrow> u8 list" where "stream_bytes xs = concat (map item_bytes xs)"
definition stream_text :: "telnet_item list \<Rightarrow> u8 list" where "stream_text xs = concat (map item_text xs)"

lemma plain_item:
  assumes "item_ok x"
  shows "plain (item_bytes x @ s) = item_text x @ plain s"
proof (cases x)
  case (Character ch)
  then show ?thesis by (simp add: item_bytes_def item_text_def plain_other)
next
  case (Negotiation verb opt)
  then show ?thesis using assms by (auto simp: item_bytes_def item_text_def item_ok_def)
next
  case (Subnegotiation params)
  have "dropWhile (\<lambda>x. x \<noteq> 255) (params @ 255 # 240 # s) = 255 # 240 # s"
    using assms Subnegotiation by (subst dropWhile_append2) (auto simp: item_ok_def)
  then show ?thesis using Subnegotiation by (simp add: item_bytes_def item_text_def after_sub_def)
qed

lemma plain_stream: "\<forall>x \<in> set xs. item_ok x \<Longrightarrow> plain (stream_bytes xs) = stream_text xs"
proof (induction xs)
  case (Cons x xs)
  then show ?case using plain_item [of x "stream_bytes xs"] by (simp add: stream_bytes_def stream_text_def)
qed (simp add: stream_bytes_def stream_text_def)





text \<open>C39. What a telnet session sends for the keys typed is read back by the filter at the other end: every
  character as it is, the byte 255 too, and the enter keys as carriage return and line feed.
\<close>

theorem telnet_keys_read_back:
  assumes "data = concat (map key_bytes ks) @ rest" and "len = length (concat (map key_bytes ks))"
    and "r = concat (map (\<lambda>k. if k = 13 \<or> k = 10 then [13, 10] else [k]) ks)" and "length r < outsz" and "outsz \<le> length out"
  shows "telnet_filter data len out outsz = Some (length r, r @ 0 # drop (Suc (length r)) out)"
proof -
  have "plain (concat (map key_bytes ks) @ t) = concat (map (\<lambda>k. if k = 13 \<or> k = 10 then [13, 10] else [k]) ks) @ plain t" for t
    by (induction ks) (simp_all add: key_bytes_def plain_other)
  from this [of "[]"] have "r = take (outsz - 1) (plain (take len data))" using assms by simp
  then show ?thesis using assms by (intro telnet_filter_ok) auto
qed

theorem telnet_keys_read_back_witness:
  "telnet_filter [104, 255, 255, 13, 10, 9] 5 [7, 7, 7, 7, 7, 7, 7, 7] 8 = Some (4, [104, 255, 13, 10, 0, 7, 7, 7])"
proof -
  have 1: "[104, 255, 255, 13, 10, 9] = concat (map key_bytes [104, 255, 13]) @ [9]" by (simp add: key_bytes_def)
  have 2: "5 = length (concat (map key_bytes [104, 255, 13]))" by (simp add: key_bytes_def)
  have 3: "[104, 255, 13, 10] = concat (map (\<lambda>k. if k = 13 \<or> k = 10 then [13, 10] else [k :: u8]) [104, 255, 13])" by simp
  show ?thesis using telnet_keys_read_back [OF 1 2 3, of 8 "[7, 7, 7, 7, 7, 7, 7, 7]"] by simp
qed

text \<open>A command that is cut by the end of a segment is not recognised: its rest is taken for text, since
  every call of the filter starts anew.
\<close>

theorem telnet_filter_split:
  "telnet_filter [255, 251, 1] 3 [7, 7, 7, 7, 7, 7, 7, 7] 8 = Some (0, [0, 7, 7, 7, 7, 7, 7, 7]) \<and>
   telnet_filter [255] 1 [7, 7, 7, 7, 7, 7, 7, 7] 8 = Some (0, [0, 7, 7, 7, 7, 7, 7, 7]) \<and>
   telnet_filter [251, 1] 2 [7, 7, 7, 7, 7, 7, 7, 7] 8 = Some (2, [251, 1, 0, 7, 7, 7, 7, 7])"
  using telnet_filter_ok [of 3 "[255, 251, 1]" 8 "[7, 7, 7, 7, 7, 7, 7, 7]" "[]"] telnet_filter_ok [of 1 "[255]" 8 "[7, 7, 7, 7, 7, 7, 7, 7]" "[]"]
    telnet_filter_ok [of 2 "[251, 1]" 8 "[7, 7, 7, 7, 7, 7, 7, 7]" "[251, 1]"]
  by simp

end
