(* ===== verification/Demos.thy ===== *)
theory Demos
  imports ConsoleText "HOL-Library.Multiset"
begin

text \<open>
  The two graphics demonstrations of \<open>src/shell/shell.c\<close>: the picture and the ball of \<open>test_vesa\<close>, and the particles
  of \<open>fireworks\<close>.  The keyboard in each turn of a loop is given by a list, as in \<open>Snake\<close>.  Cosine and sine of a
  \<open>float\<close> are parameters: \<open>spray i s\<close> is the velocity, converted to \<open>int\<close>s, of particle \<open>i\<close> of a burst for the
  random number \<open>s\<close>; \<open>None\<close> is a conversion that does not fit.
\<close>

section \<open>The picture and the ball\<close>

text \<open>The color of row \<open>y\<close>: three bytes cut off from 32-bit arithmetic without sign.\<close>

definition row_color :: "u32 \<Rightarrow> u32 \<Rightarrow> u32 option" where
  "row_color h y =
     (if h = 0 then None
      else let r = ucast (y * 255 div h) :: u8;
               g = ucast (if y * 510 div h > 255 then 510 - y * 510 div h else y * 510 div h) :: u8;
               b = ucast (255 - y * 255 div h) :: u8
           in Some (push_bit 16 (ucast r) OR push_bit 8 (ucast g) OR ucast b))"

definition vesa_background :: "screen \<Rightarrow> screen option" where
  "vesa_background scr =
     each 0 (g_height scr) (\<lambda>y scr. do { color \<leftarrow> row_color (g_height scr) y;
       each 0 (g_width scr) (\<lambda>x. vbe_putpixel x y color) scr }) scr"

text \<open>A row given as \<open>int\<close>: the products are \<open>int\<close>s.\<close>

definition int_row_color :: "u32 \<Rightarrow> int \<Rightarrow> u32 option" where
  "int_row_color h y = do { a \<leftarrow> chk_int (y * 255); b \<leftarrow> chk_int (y * 510); row_color h (word_of_int y) }"

text \<open>The points of a disk of radius 20 around the origin, row by row.\<close>

definition disk_points :: "(int \<times> int) list" where
  "disk_points = filter (\<lambda>(x, y). x * x + y * y \<le> 400) (concat (map (\<lambda>y. map (\<lambda>x. (x, y)) [-20..20]) [-20..20]))"

text \<open>The disk around \<open>(bx, by)\<close>, each point on the screen in the color \<open>f x y py\<close>.\<close>

fun draw_disk :: "(int \<Rightarrow> int \<Rightarrow> int \<Rightarrow> u32 option) \<Rightarrow> int \<Rightarrow> int \<Rightarrow> (int \<times> int) list \<Rightarrow> screen \<Rightarrow> screen option" where
  "draw_disk f bx by [] scr = Some scr"
| "draw_disk f bx by ((x, y) # ps) scr =
     do { px \<leftarrow> chk_int (bx + x); py \<leftarrow> chk_int (by + y);
          scr \<leftarrow> (if px \<ge> 0 \<and> word_of_int px < g_width scr \<and> py \<ge> 0 \<and> word_of_int py < g_height scr
                  then do { color \<leftarrow> f x y py; vbe_putpixel (word_of_int px) (word_of_int py) color scr }
                  else Some scr);
          draw_disk f bx by ps scr }"

definition ball_color :: "int \<Rightarrow> int \<Rightarrow> int \<Rightarrow> u32 option" where
  "ball_color x y py = (let i = word_of_int (255 - (x * x + y * y) * 255 div 400) :: u32 in Some (push_bit 16 i OR push_bit 8 i OR i))"

record ball =
  vb_x :: int
  vb_y :: int
  vb_dx :: int
  vb_dy :: int

definition ball_start :: "screen \<Rightarrow> ball" where
  "ball_start scr = \<lparr>vb_x = sint (g_width scr div 2), vb_y = sint (g_height scr div 2), vb_dx = 5, vb_dy = 3\<rparr>"

text \<open>One coordinate: it moves, and the velocity is turned around at the borders.\<close>

definition bounce :: "u32 \<Rightarrow> int \<Rightarrow> int \<Rightarrow> (int \<times> int) option" where
  "bounce limit p v =
     do { p \<leftarrow> chk_int (p + v); far \<leftarrow> chk_int (p + 20);
          if p \<le> 20 \<or> word_of_int far \<ge> limit then do { v \<leftarrow> chk_int (- v); Some (p, v) } else Some (p, v) }"

definition ball_turn :: "ball \<times> screen \<Rightarrow> (ball \<times> screen) option" where
  "ball_turn bs =
     (let (b, scr) = bs
      in do { scr \<leftarrow> draw_disk (\<lambda>_ _. int_row_color (g_height scr)) (vb_x b) (vb_y b) disk_points scr;
              (x, dx) \<leftarrow> bounce (g_width scr) (vb_x b) (vb_dx b);
              (y, dy) \<leftarrow> bounce (g_height scr) (vb_y b) (vb_dy b);
              scr \<leftarrow> draw_disk ball_color x y disk_points scr;
              Some (\<lparr>vb_x = x, vb_y = y, vb_dx = dx, vb_dy = dy\<rparr>, scr) })"

text \<open>The end of a turn: the picture, then the pause.\<close>

definition show_and_wait ::
  "('w, 'x) bus_scheme \<Rightarrow> (('t, 'u) timer \<times> 'v \<Rightarrow> (('t, 'u) timer \<times> 'v) option) \<Rightarrow> bool \<Rightarrow>
    (('t, 'u) timer \<times> 'v) \<times> 'w console \<Rightarrow> ((('t, 'u) timer \<times> 'v) \<times> 'w console) option" where
  "show_and_wait B tick wait_first tc =
     (let (tv, c) = tc
      in do { tv \<leftarrow> (if wait_first then usleep tick 20000 tv else Some tv);
              (scr, w) \<leftarrow> vesa_swap_buffers B (con_screen c, con_world c);
              tv \<leftarrow> (if wait_first then Some tv else usleep tick 20000 tv);
              Some (tv, c\<lparr>con_screen := scr, con_world := w\<rparr>) })"

fun vesa_loop ::
  "('w, 'x) bus_scheme \<Rightarrow> (('t, 'u) timer \<times> 'v \<Rightarrow> (('t, 'u) timer \<times> 'v) option) \<Rightarrow> nat \<Rightarrow> u8 option list \<Rightarrow> ball \<Rightarrow>
    (('t, 'u) timer \<times> 'v) \<times> 'w console \<Rightarrow> (u8 option list \<times> (('t, 'u) timer \<times> 'v) \<times> 'w console) option" where
  "vesa_loop B tick 0 keys b tc = Some (keys, tc)"
| "vesa_loop B tick (Suc n) [] b tc = None"
| "vesa_loop B tick (Suc n) (Some k # keys) b tc = Some (Some k # keys, tc)"
| "vesa_loop B tick (Suc n) (None # keys) b tc =
     (let (tv, c) = tc
      in do { (b, scr) \<leftarrow> ball_turn (b, con_screen c);
              tc \<leftarrow> show_and_wait B tick False (tv, c\<lparr>con_screen := scr\<rparr>);
              vesa_loop B tick n keys b tc })"

definition vesa_running :: "u8 list" where
  "vesa_running = ascii ''Running VESA graphics demo...'' @ [10, 0]"

definition vesa_exit :: "u8 list" where
  "vesa_exit = ascii ''Press any key to exit VESA demo...'' @ [10, 0]"

text \<open>The end: without a key the code waits for one, with a key it does not read it.\<close>

definition test_vesa ::
  "('w, 'x) bus_scheme \<Rightarrow> (('t, 'u) timer \<times> 'v \<Rightarrow> (('t, 'u) timer \<times> 'v) option) \<Rightarrow> u8 option list \<Rightarrow>
    (('t, 'u) timer \<times> 'v) \<times> 'w console \<Rightarrow> ((('t, 'u) timer \<times> 'v) \<times> 'w console) option" where
  "test_vesa B tick keys tc =
     (let (tv, c) = tc
      in do { c \<leftarrow> console_printf B vesa_running [] c;
              scr \<leftarrow> vesa_background (con_screen c);
              (keys, tv, c) \<leftarrow> vesa_loop B tick 5000 keys (ball_start scr) (tv, c\<lparr>con_screen := scr\<rparr>);
              c \<leftarrow> console_printf B vesa_exit [] c;
              if \<exists>k \<in> set keys. k \<noteq> None then do { c \<leftarrow> console_clear c; Some (tv, c) } else None })"

section \<open>Fireworks\<close>

record particle =
  pt_x :: u32
  pt_y :: u32
  pt_dx :: int
  pt_dy :: int
  pt_color :: u32
  pt_lifetime :: int

text \<open>
  The particles are the array of 1000 with the number of active ones.  The three random numbers of the color
  are taken from left to right; C leaves their order open.
\<close>

definition burst_color :: "('f, 'u) timer \<Rightarrow> u32 \<times> ('f, 'u) timer" where
  "burst_color t =
     (let (r, t) = rand t; (g, t) = rand t; (b, t) = rand t
      in (word_of_int (r mod 255) * 65536 OR word_of_int (g mod 255) * 256 OR word_of_int (b mod 255), t))"

primrec add_particles ::
  "(nat \<Rightarrow> int \<Rightarrow> (int \<times> int) option) \<Rightarrow> u32 \<Rightarrow> u32 \<Rightarrow> u32 \<Rightarrow> nat \<Rightarrow> nat \<Rightarrow> particle list \<times> nat \<times> ('f, 'u) timer \<Rightarrow>
    (particle list \<times> nat \<times> ('f, 'u) timer) option" where
  "add_particles spray x y color i 0 st = Some st"
| "add_particles spray x y color i (Suc n) st =
     (let (ps, active, t) = st; (s, t) = rand t
      in do { (vx, vy) \<leftarrow> spray i (s mod 1000);
              vy \<leftarrow> chk_int (vy - 10);
              let (l, t) = rand t;
              ps \<leftarrow> wr ps active \<lparr>pt_x = x, pt_y = y, pt_dx = vx, pt_dy = vy, pt_color = color, pt_lifetime = 70 + l mod 30\<rparr>;
              add_particles spray x y color (Suc i) n (ps, active + 1, t) })"

definition launch ::
  "(nat \<Rightarrow> int \<Rightarrow> (int \<times> int) option) \<Rightarrow> screen \<Rightarrow> particle list \<times> nat \<times> ('f, 'u) timer \<Rightarrow> (particle list \<times> nat \<times> ('f, 'u) timer) option" where
  "launch spray scr st =
     (let (ps, active, t) = st
      in if active < 900
         then let (r, t) = rand t
              in if r mod 10 = 0
                 then if g_width scr = 0 then None
                      else let (x, t) = rand t; (color, t) = burst_color t
                           in add_particles spray (word_of_int x mod g_width scr) (g_height scr) color 0 100 (ps, active, t)
                 else Some (ps, active, t)
         else Some (ps, active, t))"

text \<open>A particle drawn where it is on the screen.\<close>

definition put_particle :: "particle \<Rightarrow> u32 \<Rightarrow> screen \<Rightarrow> screen option" where
  "put_particle p color scr =
     (if sint (pt_x p) \<ge> 0 \<and> pt_x p < g_width scr \<and> sint (pt_y p) \<ge> 0 \<and> pt_y p < g_height scr
      then vbe_putpixel (pt_x p) (pt_y p) color scr else Some scr)"

primrec erase_particles :: "particle list \<Rightarrow> nat \<Rightarrow> nat \<Rightarrow> screen \<Rightarrow> screen option" where
  "erase_particles ps i 0 scr = Some scr"
| "erase_particles ps i (Suc n) scr = do { p \<leftarrow> rd ps i; scr \<leftarrow> put_particle p 0 scr; erase_particles ps (Suc i) n scr }"

text \<open>
  The move of a particle.  \<open>dy += 0.2\<close> on an \<open>int\<close> is the sum cut off towards zero: nothing changes unless \<open>dy\<close> is
  negative, then it goes up by one.
\<close>

definition move_particle :: "particle \<Rightarrow> particle option" where
  "move_particle p =
     do { l \<leftarrow> chk_int (pt_lifetime p - 1);
          Some (p\<lparr>pt_x := pt_x p + word_of_int (pt_dx p), pt_y := pt_y p + word_of_int (pt_dy p),
                  pt_dy := (if pt_dy p < 0 then pt_dy p + 1 else pt_dy p), pt_lifetime := l\<rparr>) }"

definition fade :: "particle \<Rightarrow> u32" where
  "fade p =
     (let l = word_of_int (pt_lifetime p);
          r = (drop_bit 16 (pt_color p) AND 0xFF) * l div 50;
          g = (drop_bit 8 (pt_color p) AND 0xFF) * l div 50;
          b = (pt_color p AND 0xFF) * l div 50
      in push_bit 16 r OR push_bit 8 g OR b)"

text \<open>The second loop; a particle whose time is over is replaced by the last one, which comes next.\<close>

function age_particles :: "nat \<Rightarrow> particle list \<times> nat \<times> screen \<Rightarrow> (particle list \<times> nat \<times> screen) option" where
  "age_particles i (ps, active, scr) =
     (if i < active
      then do {
        p \<leftarrow> rd ps i;
        p \<leftarrow> move_particle p;
        ps \<leftarrow> wr ps i p;
        scr \<leftarrow> put_particle p (fade p) scr;
        if pt_lifetime p \<le> 0
        then do { q \<leftarrow> rd ps (active - 1); ps \<leftarrow> wr ps i q; age_particles i (ps, active - 1, scr) }
        else age_particles (i + 1) (ps, active, scr) }
      else Some (ps, active, scr))"
  by pat_completeness auto

termination age_particles
  by (relation "measure (\<lambda>(i, ps, active, scr). active - i)") auto

declare age_particles.simps [simp del]

definition fireworks_turn ::
  "(nat \<Rightarrow> int \<Rightarrow> (int \<times> int) option) \<Rightarrow> particle list \<times> nat \<times> ('f, 'u) timer \<times> screen \<Rightarrow>
    (particle list \<times> nat \<times> ('f, 'u) timer \<times> screen) option" where
  "fireworks_turn spray st =
     (let (ps, active, t, scr) = st
      in do { (ps, active, t) \<leftarrow> launch spray scr (ps, active, t);
              scr \<leftarrow> erase_particles ps 0 active scr;
              (ps, active, scr) \<leftarrow> age_particles 0 (ps, active, scr);
              Some (ps, active, t, scr) })"

fun fireworks_loop ::
  "('w, 'x) bus_scheme \<Rightarrow> (('t, 'u) timer \<times> 'v \<Rightarrow> (('t, 'u) timer \<times> 'v) option) \<Rightarrow> (nat \<Rightarrow> int \<Rightarrow> (int \<times> int) option) \<Rightarrow> u8 option list \<Rightarrow>
    particle list \<times> nat \<Rightarrow> (('t, 'u) timer \<times> 'v) \<times> 'w console \<Rightarrow> ((('t, 'u) timer \<times> 'v) \<times> 'w console) option" where
  "fireworks_loop B tick spray [] pa tc = None"
| "fireworks_loop B tick spray (Some k # keys) pa tc = Some tc"
| "fireworks_loop B tick spray (None # keys) pa tc =
     (let (ps, active) = pa; ((t, v), c) = tc
      in do { (ps, active, t, scr) \<leftarrow> fireworks_turn spray (ps, active, t, con_screen c);
              tc \<leftarrow> show_and_wait B tick True ((t, v), c\<lparr>con_screen := scr\<rparr>);
              fireworks_loop B tick spray keys (ps, active) tc })"

text \<open>\<open>fireworks\<close>; \<open>ps\<close> is what the local array holds before.\<close>

definition fireworks ::
  "('w, 'x) bus_scheme \<Rightarrow> (('t, 'u) timer \<times> 'v \<Rightarrow> (('t, 'u) timer \<times> 'v) option) \<Rightarrow> (nat \<Rightarrow> int \<Rightarrow> (int \<times> int) option) \<Rightarrow> u8 option list \<Rightarrow>
    particle list \<Rightarrow> (('t, 'u) timer \<times> 'v) \<times> 'w console \<Rightarrow> ((('t, 'u) timer \<times> 'v) \<times> 'w console) option" where
  "fireworks B tick spray keys ps tc =
     do { (tv, c) \<leftarrow> fireworks_loop B tick spray keys (ps, 0) tc; c \<leftarrow> console_clear c; Some (tv, c) }"


section \<open>The particles stay in the array\<close>

definition same_size :: "screen \<Rightarrow> screen \<Rightarrow> bool" where
  "same_size s s' \<longleftrightarrow> screen_ok s' \<and> g_width s' = g_width s \<and> g_height s' = g_height s"

lemma same_size_trans: "same_size a b \<Longrightarrow> same_size b c \<Longrightarrow> same_size a c"
  by (simp add: same_size_def)

lemma putpixel_same:
  assumes "screen_ok s"
  shows "runs (vbe_putpixel x y color s) (same_size s)"
proof (cases "off_screen x y s")
  case True
  then show ?thesis using assms by (simp add: vbe_putpixel_def same_size_def)
next
  case False
  let ?i = "unat y * unat (g_pitch s div 4) + unat x"
  have lt: "?i < unat (g_height s) * unat (g_pitch s div 4)"
    using False by (intro pixel_in_buffer [OF assms]) (auto simp: off_screen_def on_screen_def word_le_nat_alt)
  then have small: "?i < 2 ^ 32" using assms by (simp add: screen_ok_def)
  then have "unat (y * (g_pitch s div 4)) = unat y * unat (g_pitch s div 4)" by (intro unat_mult_le) simp
  then have "pixel_index x y s = ?i" unfolding pixel_index_def using small by (subst unat_add_le) simp_all
  then have "pixel_index x y s < length (g_back_buffer s)" using lt assms by (simp add: screen_ok_def)
  then show ?thesis using False assms by (simp add: vbe_putpixel_def same_size_def screen_ok_def wr_def)
qed

lemma put_particle_same: "screen_ok s \<Longrightarrow> runs (put_particle p color s) (same_size s)"
  using putpixel_same by (auto simp: put_particle_def same_size_def)

lemma erase_same:
  "screen_ok s \<Longrightarrow> i + n \<le> length ps \<Longrightarrow> runs (erase_particles ps i n s) (same_size s)"
proof (induction n arbitrary: i s)
  case (Suc n)
  have "runs (put_particle (ps ! i) 0 s) (\<lambda>s1. runs (erase_particles ps (Suc i) n s1) (same_size s))"
  proof (rule runs_mono [OF put_particle_same [OF Suc.prems(1)]])
    fix s1 assume s1: "same_size s s1"
    show "runs (erase_particles ps (Suc i) n s1) (same_size s)"
      by (rule runs_mono [OF Suc.IH]) (use s1 Suc.prems in \<open>auto simp: same_size_def\<close>)
  qed
  then show ?case using Suc.prems by (simp add: rd_def)
qed (simp add: same_size_def)

text \<open>A particle after a turn.\<close>

definition aged :: "particle \<Rightarrow> particle" where
  "aged p = p\<lparr>pt_x := pt_x p + word_of_int (pt_dx p), pt_y := pt_y p + word_of_int (pt_dy p),
     pt_dy := (if pt_dy p < 0 then pt_dy p + 1 else pt_dy p), pt_lifetime := pt_lifetime p - 1\<rparr>"

definition alive :: "particle \<Rightarrow> bool" where
  "alive p \<longleftrightarrow> 1 \<le> pt_lifetime p \<and> pt_lifetime p \<le> 99 \<and> \<bar>pt_dx p\<bar> \<le> 13 \<and> \<bar>pt_dy p\<bar> \<le> 23"

lemma move_particle_aged: "alive p \<Longrightarrow> move_particle p = Some (aged p)"
  by (simp add: move_particle_def aged_def alive_def chk_int_def int_ok_def)

text \<open>The second loop leaves, in some order, the particles whose time is not over, moved by one turn.\<close>

lemma age_particles_ok:
  assumes "screen_ok scr" "i \<le> active" "active \<le> length ps" "\<forall>p \<in> set (drop i (take active ps)). alive p"
  shows "runs (age_particles i (ps, active, scr)) (\<lambda>(ps', active', scr'). length ps' = length ps \<and> active' \<le> active \<and>
    mset (take active' ps') = mset (take i ps) + image_mset aged {#p \<in># mset (drop i (take active ps)). 1 < pt_lifetime p#} \<and>
    same_size scr scr')"
  using assms
proof (induction "active - i" arbitrary: i ps active scr rule: less_induct)
  case less
  show ?case
  proof (cases "i < active")
    case False
    then show ?thesis using less.prems by (subst age_particles.simps) (simp add: same_size_def)
  next
    case True
    define p where "p = ps ! i"
    define ps1 where "ps1 = ps[i := aged p]"
    have split: "drop i (take active ps) = p # drop (Suc i) (take active ps)"
      using True less.prems(3) by (simp add: p_def Cons_nth_drop_Suc [symmetric])
    have p: "alive p" "rd ps i = Some p" "wr ps i (aged p) = Some ps1"
      using less.prems(3,4) True split by (simp_all add: p_def ps1_def)
    have step: "runs (age_particles i (ps, active, scr)) Q" if
      "\<And>scr1. same_size scr scr1 \<Longrightarrow>
        runs (if pt_lifetime (aged p) \<le> 0
              then do { q \<leftarrow> rd ps1 (active - 1); ps \<leftarrow> wr ps1 i q; age_particles i (ps, active - 1, scr1) }
              else age_particles (i + 1) (ps1, active, scr1)) Q" for Q
    proof -
      have "age_particles i (ps, active, scr) = do { scr \<leftarrow> put_particle (aged p) (fade (aged p)) scr;
          if pt_lifetime (aged p) \<le> 0
          then do { q \<leftarrow> rd ps1 (active - 1); ps \<leftarrow> wr ps1 i q; age_particles i (ps, active - 1, scr) }
          else age_particles (i + 1) (ps1, active, scr) }"
        using True by (subst age_particles.simps) (simp add: p(2,3) move_particle_aged [OF p(1)] del: rd_Some_iff wr_Some_iff)
      then show ?thesis
        using runs_mono [OF put_particle_same [OF less.prems(1)] that] by (simp only: runs_simps)
    qed
    show ?thesis
    proof (cases "pt_lifetime (aged p) \<le> 0")
      case gone: True
      define q where "q = ps1 ! (active - 1)"
      define ps2 where "ps2 = ps1[i := q]"
      have q: "rd ps1 (active - 1) = Some q" "wr ps1 i q = Some ps2"
        using True less.prems(3) by (simp_all add: ps1_def ps2_def q_def)
      have take2: "take i ps2 = take i ps" "length ps2 = length ps" by (simp_all add: ps2_def ps1_def)
      have rest: "mset (drop i (take (active - 1) ps2)) = mset (drop (Suc i) (take active ps))"
      proof (cases "i = active - 1")
        case False
        then have i: "i < active - 1" "active - 1 < length ps" using True less.prems(3) by simp_all
        have "take active ps = take (active - 1) ps @ [ps ! (active - 1)]"
          using True i(2) by (simp add: take_Suc_conv_app_nth [symmetric])
        moreover have "ps2 = ps[i := ps ! (active - 1)]" using i by (simp add: ps2_def ps1_def q_def)
        then have "drop i (take (active - 1) ps2) = ps ! (active - 1) # drop (Suc i) (take (active - 1) ps)"
          using i by (simp add: take_update_swap drop_update_swap drop_update_cancel Cons_nth_drop_Suc [symmetric])
        ultimately show ?thesis using i by simp
      qed simp
      have "runs (age_particles i (ps2, active - 1, scr1)) (\<lambda>(ps', active', scr'). length ps' = length ps \<and> active' \<le> active \<and>
          mset (take active' ps') = mset (take i ps) + image_mset aged {#p \<in># mset (drop i (take active ps)). 1 < pt_lifetime p#} \<and>
          same_size scr scr')" if s1: "same_size scr scr1" for scr1
      proof (rule runs_mono [OF less.hyps])
        show "\<forall>p \<in> set (drop i (take (active - 1) ps2)). alive p"
          using less.prems(4) split arg_cong [OF rest, of set_mset] by auto
      qed (use True less.prems s1 take2 rest split gone same_size_trans [OF s1] in \<open>auto simp: same_size_def aged_def\<close>)
      then show ?thesis using gone q by (intro step) (simp del: rd_Some_iff wr_Some_iff)
    next
      case False
      have t1: "take (i + 1) ps1 = take i ps @ [aged p]" "drop (i + 1) (take active ps1) = drop (Suc i) (take active ps)"
      proof -
        have l: "i < length ps1" using True less.prems(3) by (simp add: ps1_def)
        then have "take (i + 1) ps1 = take i ps1 @ [ps1 ! i]" by (simp add: take_Suc_conv_app_nth)
        then show "take (i + 1) ps1 = take i ps @ [aged p]" using l by (simp add: ps1_def)
        show "drop (i + 1) (take active ps1) = drop (Suc i) (take active ps)" by (simp add: ps1_def take_update_swap)
      qed
      have "runs (age_particles (i + 1) (ps1, active, scr1)) (\<lambda>(ps', active', scr'). length ps' = length ps \<and> active' \<le> active \<and>
          mset (take active' ps') = mset (take i ps) + image_mset aged {#p \<in># mset (drop i (take active ps)). 1 < pt_lifetime p#} \<and>
          same_size scr scr')" if s1: "same_size scr scr1" for scr1
        by (rule runs_mono [OF less.hyps])
          (use True less.prems s1 t1 split False same_size_trans [OF s1] in \<open>auto simp: same_size_def aged_def ps1_def\<close>)
      then show ?thesis using False by (intro step) simp
    qed
  qed
qed


section \<open>A turn of the fireworks\<close>

text \<open>The speed of a particle is between 3 and 13, so that its parts along the axes fit as well.\<close>

definition sprays :: "(nat \<Rightarrow> int \<Rightarrow> (int \<times> int) option) \<Rightarrow> bool" where
  "sprays spray \<longleftrightarrow> (\<forall>i s. 0 \<le> s \<and> s < 1000 \<longrightarrow> (\<exists>vx vy. spray i s = Some (vx, vy) \<and> \<bar>vx\<bar> \<le> 13 \<and> \<bar>vy\<bar> \<le> 13))"

definition all_alive :: "particle list \<Rightarrow> nat \<Rightarrow> bool" where
  "all_alive ps active \<longleftrightarrow> length ps = 1000 \<and> active < 1000 \<and> (\<forall>p \<in> set (take active ps). alive p)"

lemma rand_nonneg: "fst (rand t) \<ge> 0"
  by (simp add: rand_def Let_def)

lemma add_particles_ok:
  assumes "sprays spray" "length ps = 1000" "active + n < 1000" "\<forall>p \<in> set (take active ps). alive p"
  shows "runs (add_particles spray x y color i n (ps, active, t)) (\<lambda>(ps', active', t').
    active' = active + n \<and> length ps' = 1000 \<and> take active ps' = take active ps \<and> (\<forall>p \<in> set (take active' ps'). alive p))"
  using assms(2-4)
proof (induction n arbitrary: i ps active t)
  case (Suc n)
  obtain s t1 where s: "rand t = (s, t1)" by (cases "rand t")
  obtain l t2 where l: "rand t1 = (l, t2)" by (cases "rand t1")
  obtain vx vy where v: "spray i (s mod 1000) = Some (vx, vy)" "\<bar>vx\<bar> \<le> 13" "\<bar>vy\<bar> \<le> 13"
    using assms(1) unfolding sprays_def by (metis pos_mod_bound pos_mod_sign zero_less_numeral)
  define q where "q = \<lparr>pt_x = x, pt_y = y, pt_dx = vx, pt_dy = vy - 10, pt_color = color, pt_lifetime = 70 + l mod 30\<rparr>"
  have q: "alive q" using v pos_mod_bound [of 30 l] pos_mod_sign [of 30 l] unfolding alive_def q_def by simp arith
  have c: "chk_int (vy - 10) = Some (vy - 10)" using v by (simp add: chk_int_def int_ok_def abs_le_iff)
  have w: "wr ps active q = Some (ps[active := q])" using Suc.prems by simp
  have t: "take (Suc active) (ps[active := q]) = take active ps @ [q]" using Suc.prems by (simp add: take_Suc_conv_app_nth)
  have "runs (add_particles spray x y color (Suc i) n (ps[active := q], Suc active, t2)) (\<lambda>(ps', active', t').
      active' = active + Suc n \<and> length ps' = 1000 \<and> take active ps' = take active ps \<and> (\<forall>p \<in> set (take active' ps'). alive p))"
  proof (rule runs_mono [OF Suc.IH])
    fix r assume r: "case r of (ps', active', t') \<Rightarrow> active' = Suc active + n \<and> length ps' = 1000 \<and>
        take (Suc active) ps' = take (Suc active) (ps[active := q]) \<and> (\<forall>p \<in> set (take active' ps'). alive p)"
    obtain ps' active' t' where "r = (ps', active', t')" by (cases r)
    moreover from this r have "take active (take (Suc active) ps') = take active (take (Suc active) (ps[active := q]))" by simp
    ultimately show "case r of (ps', active', t') \<Rightarrow> active' = active + Suc n \<and> length ps' = 1000 \<and>
        take active ps' = take active ps \<and> (\<forall>p \<in> set (take active' ps'). alive p)" using r by simp
  qed (use Suc.prems q t in auto)
  then show ?case by (simp add: s l v(1) c q_def [symmetric] w Let_def del: wr_Some_iff)
qed simp

lemma launch_ok:
  assumes "sprays spray" "screen_ok scr" "all_alive ps active"
  shows "runs (launch spray scr (ps, active, t)) (\<lambda>(ps', active', t'). all_alive ps' active' \<and> (active' = active \<or> active < 900 \<and> active' = active + 100) \<and>
    take active ps' = take active ps)"
proof (cases "active < 900")
  case True
  obtain r t1 where r: "rand t = (r, t1)" by (cases "rand t")
  show ?thesis
  proof (cases "r mod 10 = 0")
    case burst: True
    obtain x t2 where x: "rand t1 = (x, t2)" by (cases "rand t1")
    obtain color t3 where color: "burst_color t2 = (color, t3)" by (cases "burst_color t2")
    have "g_width scr \<noteq> 0" using assms(2) by (auto simp: screen_ok_def)
    moreover have "runs (add_particles spray (word_of_int x mod g_width scr) (g_height scr) color 0 100 (ps, active, t3))
        (\<lambda>(ps', active', t'). all_alive ps' active' \<and> (active' = active \<or> active < 900 \<and> active' = active + 100) \<and> take active ps' = take active ps)"
      by (rule runs_mono [OF add_particles_ok [OF assms(1)]]) (use True assms(3) in \<open>auto simp: all_alive_def\<close>)
    ultimately show ?thesis using True burst by (simp add: launch_def r x color Let_def)
  qed (use True assms(3) in \<open>simp add: launch_def r\<close>)
qed (use assms(3) in \<open>simp add: launch_def\<close>)


lemma aged_alive: "alive p \<Longrightarrow> 1 < pt_lifetime p \<Longrightarrow> alive (aged p)"
  by (auto simp: alive_def aged_def abs_le_iff)

lemma fireworks_turn_ok:
  assumes sp: "sprays spray" and scr: "screen_ok scr" and al: "all_alive ps active"
  shows "runs (fireworks_turn spray (ps, active, t, scr)) (\<lambda>(ps', active', t', scr'). all_alive ps' active' \<and> same_size scr scr' \<and>
    (\<exists>new. (new = [] \<or> active < 900 \<and> length new = 100) \<and> (\<forall>p \<in> set new. alive p) \<and>
       mset (take active' ps') = image_mset aged {#p \<in># mset (take active ps @ new). 1 < pt_lifetime p#}))"
proof -
  obtain ps1 n t1 where launch: "launch spray scr (ps, active, t) = Some (ps1, n, t1)" and n: "all_alive ps1 n"
    "n = active \<or> active < 900 \<and> n = active + 100" "take active ps1 = take active ps"
    using launch_ok [OF sp scr al, of t] by (auto simp: runs_iff)
  define new where "new = drop active (take n ps1)"
  have cut: "take n ps1 = take active ps @ new"
  proof -
    have "active \<le> n" using n(2) by auto
    then have "take active (take n ps1) = take active ps" using n(3) by (simp add: min_def)
    then show ?thesis using append_take_drop_id [of active "take n ps1"] by (simp add: new_def)
  qed
  have new: "new = [] \<or> active < 900 \<and> length new = 100" "\<forall>p \<in> set new. alive p"
  proof -
    have "length new = n - active" using n(1) by (simp add: new_def all_alive_def)
    then show "new = [] \<or> active < 900 \<and> length new = 100" using n(2) by auto
    show "\<forall>p \<in> set new. alive p" using n(1) set_drop_subset [of active "take n ps1"] by (auto simp: new_def all_alive_def)
  qed
  obtain scr1 where erase: "erase_particles ps1 0 n scr = Some scr1" "same_size scr scr1"
    using erase_same [OF scr, of 0 n ps1] n(1) by (auto simp: runs_iff all_alive_def)
  have s1: "screen_ok scr1" using erase(2) by (simp add: same_size_def)
  have "runs (age_particles 0 (ps1, n, scr1)) (\<lambda>(ps', active', scr'). length ps' = length ps1 \<and> active' \<le> n \<and>
    mset (take active' ps') = mset (take 0 ps1) + image_mset aged {#p \<in># mset (drop 0 (take n ps1)). 1 < pt_lifetime p#} \<and> same_size scr1 scr')"
    by (rule age_particles_ok [OF s1]) (use n(1) in \<open>auto simp: all_alive_def\<close>)
  then obtain ps' active' scr' where age: "age_particles 0 (ps1, n, scr1) = Some (ps', active', scr')" "length ps' = length ps1" "active' \<le> n"
    "mset (take active' ps') = image_mset aged {#p \<in># mset (take active ps @ new). 1 < pt_lifetime p#}" "same_size scr1 scr'"
    by (auto simp: runs_iff cut)
  have "set (take active' ps') = aged ` {p \<in> set (take n ps1). 1 < pt_lifetime p}"
    using arg_cong [OF age(4), of set_mset] unfolding cut [symmetric] by simp
  then have "all_alive ps' active'" using n(1) age(2,3) aged_alive by (auto simp: all_alive_def)
  then show ?thesis
    using launch erase age same_size_trans [OF erase(2) age(5)] new by (auto simp: fireworks_turn_def intro!: exI [of _ new])
qed

section \<open>Properties\<close>

text \<open>C38. Fireworks never leave their array: whatever the random numbers are, a turn adds no particle or a burst of
  100 while fewer than 900 are in the air, moves every particle by its velocity and takes away exactly those whose
  time is over (a loop that puts the last particle in the place of the one removed), so that always fewer
  than 1000 are left, each with time to live; and nothing is drawn outside the screen.\<close>

theorem fireworks_turn_keeps:
  assumes "sprays spray" and "screen_ok scr" and "all_alive ps active"
  shows "runs (fireworks_turn spray (ps, active, t, scr)) (\<lambda>(ps', active', t', scr'). all_alive ps' active' \<and> same_size scr scr' \<and>
    (\<exists>new. (new = [] \<or> active < 900 \<and> length new = 100) \<and> (\<forall>p \<in> set new. alive p) \<and>
       mset (take active' ps') = image_mset aged {#p \<in># mset (take active ps @ new). 1 < pt_lifetime p#}))"
  by (rule fireworks_turn_ok [OF assms])

theorem fireworks_turn_keeps_witness:
  "runs (fireworks_turn (\<lambda>i s. Some (3, - 4)) (replicate 1000 \<lparr>pt_x = 0, pt_y = 0, pt_dx = 1, pt_dy = - 1, pt_color = 255, pt_lifetime = 1\<rparr>, 2, demo_timer, demo_screen))
     (\<lambda>(ps', active', t', scr'). all_alive ps' active')"
proof -
  have "sprays (\<lambda>i s. Some (3, - 4))" by (simp add: sprays_def)
  moreover have "screen_ok demo_screen" using demo_console_ok(1) by (simp add: con_ok_def demo_console_def)
  moreover have "all_alive (replicate 1000 \<lparr>pt_x = 0, pt_y = 0, pt_dx = 1, pt_dy = - 1, pt_color = 255, pt_lifetime = 1\<rparr>) 2"
    by (auto simp: all_alive_def alive_def)
  ultimately show ?thesis by (rule runs_mono [OF fireworks_turn_keeps]) auto
qed

end
