(* ===== verification/Shell.thy ===== *)
theory Shell
  imports ShellFiles Telnet Demos Snake Pong Pci
begin

text \<open>
  The other commands of \<open>src/shell/shell.c\<close> and the loop of the shell: which command a line names, and what the
  shell does for it, with the games, the demonstrations, the network and the files behind it.  What the
  machine answers (\<open>cpuid\<close>, the ports, the interrupts of a wait) and what is not modelled (\<open>float\<close>, the heap) is
  the record \<open>machine_env\<close>; what is typed in a turn of the loop is \<open>shell_input\<close>.
\<close>

section \<open>The processor\<close>

text \<open>\<open>cpuid type\<close> gives the four registers.\<close>

type_synonym cpuid = "u32 \<Rightarrow> u32 \<times> u32 \<times> u32 \<times> u32"

definition le_bytes :: "u32 \<Rightarrow> u8 list" where
  "le_bytes w = [ucast w, ucast (drop_bit 8 w), ucast (drop_bit 16 w), ucast (drop_bit 24 w)]"

definition brand_string :: "cpuid \<Rightarrow> u8 list" where
  "brand_string cpuid =
     concat (map (\<lambda>leaf. let (a, b, c, d) = cpuid leaf in le_bytes a @ le_bytes b @ le_bytes c @ le_bytes d)
       [0x80000002, 0x80000003, 0x80000004]) @ [0]"

definition print_leaf :: "('w, 'x) bus_scheme \<Rightarrow> cpuid \<Rightarrow> u32 \<Rightarrow> 'w console \<Rightarrow> 'w console option" where
  "print_leaf B cpuid leaf con =
     (let (a, b, c, d) = cpuid leaf
      in console_printf B (ascii ''type:0x%x, eax:0x%x, ebx:0x%x, ecx:0x%x, edx:0x%x'' @ [10, 0])
           [IntArg leaf, IntArg a, IntArg b, IntArg c, IntArg d] con)"

text \<open>The result is 1 for QEMU and 2 for anything else.\<close>

definition cpuid_info :: "('w, 'x) bus_scheme \<Rightarrow> cpuid \<Rightarrow> bool \<Rightarrow> 'w console \<Rightarrow> (int \<times> 'w console) option" where
  "cpuid_info B cpuid print con =
     do { let brand = brand_string cpuid;
          con \<leftarrow> (if print
                  then do { con \<leftarrow> console_printf B (ascii ''Brand: %s'' @ [10, 0]) [StrArg (Some brand)] con;
                            each 0 4 (print_leaf B cpuid) con }
                  else Some con);
          r \<leftarrow> strstr brand (ascii ''QEMU'' @ [0]);
          Some (if r \<noteq> None then 1 else 2, con) }"

definition shutdown :: "'w ide_bus \<Rightarrow> cpuid \<Rightarrow> 'w console \<Rightarrow> 'w console option" where
  "shutdown B cpuid con =
     do { (brand, con) \<leftarrow> cpuid_info B cpuid False con;
          Some (con\<lparr>con_world := (if brand = 1 then outports B 0x604 0x2000 (con_world con) else outports B 0x4004 0x3400 (con_world con))\<rparr>) }"

definition reboot :: "('w, 'x) bus_scheme \<Rightarrow> 'w console \<Rightarrow> 'w console" where
  "reboot B con = con\<lparr>con_world := outportb B 0x64 0xFE (con_world con)\<rparr>"

section \<open>Small commands\<close>

definition echo :: "('w, 'x) bus_scheme \<Rightarrow> u8 list \<Rightarrow> 'w console \<Rightarrow> (u8 list \<times> 'w console) option" where
  "echo B keys con =
     do { con \<leftarrow> console_printf B (ascii ''echo> '' @ [0]) [] con;
          (buffer, keys, con) \<leftarrow> getstr B 255 keys (replicate 255 0) con;
          con \<leftarrow> console_printf B (ascii ''%s'' @ [10, 0]) [StrArg (Some buffer)] con;
          Some (keys, con) }"

text \<open>The seconds since the start, then a second's wait.\<close>

definition timer_command ::
  "('w, 'x) bus_scheme \<Rightarrow> (('t, 'u) timer \<times> 'v \<Rightarrow> (('t, 'u) timer \<times> 'v) option) \<Rightarrow> (('t, 'u) timer \<times> 'v) \<times> 'w console \<Rightarrow>
    ((('t, 'u) timer \<times> 'v) \<times> 'w console) option" where
  "timer_command B tick tc =
     (let (tv, con) = tc
      in do { n \<leftarrow> uptime (fst tv);
              con \<leftarrow> console_printf B (ascii ''uptime: %d seconds'' @ [10, 0]) [IntArg n] con;
              tv \<leftarrow> sleep tick 1 tv;
              Some (tv, con) })"

text \<open>\<open>KERNEL_MEMORY_MAP\<close> of \<open>include/kernel.h\<close>.\<close>

record kernel_map =
  k_start_addr :: u32
  k_end_addr :: u32
  k_len :: u32
  text_start_addr :: u32
  text_end_addr :: u32
  text_len :: u32
  data_start_addr :: u32
  data_end_addr :: u32
  data_len :: u32
  rodata_start_addr :: u32
  rodata_end_addr :: u32
  rodata_len :: u32
  bss_start_addr :: u32
  bss_end_addr :: u32
  bss_len :: u32
  total_memory :: u32
  available_start_addr :: u32
  available_end_addr :: u32
  available_size :: u32

definition memory :: "('w, 'x) bus_scheme \<Rightarrow> kernel_map \<Rightarrow> u32 \<Rightarrow> 'w console \<Rightarrow> 'w console option" where
  "memory B kmap used_blocks con =
     do { con \<leftarrow> console_printf B (ascii ''total_memory: %d MB, %d Bytes'' @ [10, 0]) [IntArg (total_memory kmap div 1024), IntArg (available_size kmap)] con;
          con \<leftarrow> console_printf B (ascii ''kernel: %d MB, %d Bytes'' @ [10, 0]) [IntArg (k_len kmap div 1024), IntArg (k_len kmap)] con;
          con \<leftarrow> console_printf B (ascii ''Used: %d MB, %d Bytes'' @ [10, 0]) [IntArg (used_blocks * 4096 div 1024 div 1024), IntArg (used_blocks * 4096)] con;
          console_printf B (ascii ''Free: %d MB, %d Bytes'' @ [10, 0])
            [IntArg ((available_size kmap - used_blocks * 4096) div 1024 div 1024), IntArg (available_size kmap - used_blocks * 4096)] con }"

definition five_syllable_lines :: "u8 list list" where
  "five_syllable_lines =
     [ascii ''An old silent pond'' @ [0], ascii ''Autumn moonlight'' @ [0], ascii ''In the cicada'' @ [39] @ ascii ''s cry'' @ [0],
      ascii ''A world of dew'' @ [0], ascii ''The light of a star'' @ [0]]"

definition seven_syllable_lines :: "u8 list list" where
  "seven_syllable_lines =
     [ascii ''A frog jumps into the pond'' @ [0], ascii ''Shadows stretch across the lake'' @ [0],
      ascii ''The summer grass whispers soft'' @ [0], ascii ''Dew drops glisten in the sun'' @ [0],
      ascii ''Waves crashing against the rocks'' @ [0]]"

definition haiku :: "('w, 'x) bus_scheme \<Rightarrow> ('t, 'u) timer \<times> 'w console \<Rightarrow> (('t, 'u) timer \<times> 'w console) option" where
  "haiku B tc =
     (let (t, con) = tc; (i1, t) = rand t; (i2, t) = rand t; (i3, t) = rand t
      in do { con \<leftarrow> console_printf B (ascii ''here is a haiku:'' @ [10, 0]) [] con;
              l1 \<leftarrow> rd five_syllable_lines (unat (word_of_int i1 mod 5 :: u32));
              con \<leftarrow> console_printf B (ascii ''%s'' @ [10, 0]) [StrArg (Some l1)] con;
              l2 \<leftarrow> rd seven_syllable_lines (unat (word_of_int i2 mod 5 :: u32));
              con \<leftarrow> console_printf B (ascii ''%s'' @ [10, 0]) [StrArg (Some l2)] con;
              l3 \<leftarrow> rd five_syllable_lines (unat (word_of_int i3 mod 5 :: u32));
              con \<leftarrow> console_printf B (ascii ''%s'' @ [10, 0]) [StrArg (Some l3)] con;
              Some (t, con) })"

text \<open>The heap, with addresses; 0 is \<open>NULL\<close>.\<close>

record 'h heap_ops =
  h_malloc :: "u32 \<Rightarrow> 'h \<Rightarrow> u32 \<times> 'h"
  h_realloc :: "u32 \<Rightarrow> u32 \<Rightarrow> 'h \<Rightarrow> u32 \<times> 'h"
  h_free :: "u32 \<Rightarrow> 'h \<Rightarrow> 'h"

definition test_memory_allocation :: "('w, 'x) bus_scheme \<Rightarrow> 'h heap_ops \<Rightarrow> 'h \<times> 'w console \<Rightarrow> (int \<times> 'h \<times> 'w console) option" where
  "test_memory_allocation B H hc =
     (let (h, con) = hc; (p1, h) = h_malloc H 512 h
      in if p1 = 0
         then do { con \<leftarrow> console_printf B (ascii ''Initial malloc allocation failed'' @ [10, 0]) [] con; Some (-1, h, con) }
         else let (p2, h) = h_realloc H p1 128 h
              in if p2 = 0
                 then do { con \<leftarrow> console_printf B (ascii ''Realloc expansion failed'' @ [10, 0]) [] con; Some (-1, h_free H p1 h, con) }
                 else let (p3, h) = h_realloc H p2 32 h
                      in if p3 = 0
                         then do { con \<leftarrow> console_printf B (ascii ''Realloc shrink failed'' @ [10, 0]) [] con; Some (-1, h_free H p2 h, con) }
                         else do { con \<leftarrow> console_printf B (ascii ''Memory allocation test passed'' @ [10, 0]) [] con;
                                   Some (0, h_free H p3 h, con) })"

definition hwinfo :: "('w, 'x) bus_scheme \<Rightarrow> cpuid \<Rightarrow> kernel_map \<Rightarrow> 'w console \<Rightarrow> 'w console option" where
  "hwinfo B cpuid kmap con =
     do { con \<leftarrow> console_printf B (ascii ''Hardware Information:'' @ [10, 0]) [] con;
          con \<leftarrow> console_printf B (ascii ''CPU: '' @ [0]) [] con;
          (_, con) \<leftarrow> cpuid_info B cpuid True con;
          con \<leftarrow> console_printf B (ascii ''Memory: %d MB'' @ [10, 0]) [IntArg (total_memory kmap div 1024)] con;
          console_printf B (ascii ''VESA Mode: %dx%d'' @ [10, 0]) [IntArg (g_width (con_screen con)), IntArg (g_height (con_screen con))] con }"

section \<open>The network\<close>

definition rule_line :: "u8 list" where
  "rule_line = ascii ''-----------------------------------------------'' @ [10, 0]"

text \<open>The four bytes of an address, and six bytes of a MAC address.\<close>

definition ip_args :: "u32 \<Rightarrow> fmt_arg list" where
  "ip_args a = [IntArg (drop_bit 24 a AND 0xFF), IntArg (drop_bit 16 a AND 0xFF), IntArg (drop_bit 8 a AND 0xFF), IntArg (a AND 0xFF)]"

definition mac_args :: "u8 list \<Rightarrow> fmt_arg list option" where
  "mac_args mac = (if length mac < 6 then None else Some (map (\<lambda>b. IntArg (ucast b)) (take 6 mac)))"

definition print_arp_entry :: "('w, 'x) bus_scheme \<Rightarrow> u32 \<Rightarrow> arp_entry \<Rightarrow> 'w console \<Rightarrow> 'w console option" where
  "print_arp_entry B current_time e con =
     (if ae_ip e \<noteq> 0
      then do { con \<leftarrow> console_printf B (ascii ''%d.%d.%d.%d    '' @ [0]) (ip_args (ae_ip e)) con;
                mac \<leftarrow> mac_args (ae_mac e);
                con \<leftarrow> console_printf B (ascii ''      %02x:%02x:%02x:%02x:%02x:%02x    '' @ [0]) mac con;
                console_printf B (ascii ''     %ds'' @ [10, 0]) [IntArg ((current_time - ae_timestamp e) div 100)] con }
      else Some con)"

primrec print_arp_entries :: "('w, 'x) bus_scheme \<Rightarrow> u32 \<Rightarrow> arp_entry list \<Rightarrow> nat \<Rightarrow> nat \<Rightarrow> 'w console \<Rightarrow> 'w console option" where
  "print_arp_entries B now es i 0 con = Some con"
| "print_arp_entries B now es i (Suc n) con =
     do { e \<leftarrow> rd es i; con \<leftarrow> print_arp_entry B now e con; print_arp_entries B now es (Suc i) n con }"

definition show_arp_cache :: "('w, 'x) bus_scheme \<Rightarrow> ('n) net_scheme \<Rightarrow> 'w console \<Rightarrow> 'w console option" where
  "show_arp_cache B st con =
     do { con \<leftarrow> console_printf B (ascii ''ARP Cache Table:'' @ [10, 0]) [] con;
          con \<leftarrow> console_printf B rule_line [] con;
          con \<leftarrow> console_printf B (ascii ''IP Address        MAC Address               Age'' @ [10, 0]) [] con;
          con \<leftarrow> console_printf B rule_line [] con;
          con \<leftarrow> print_arp_entries B (ticks st) (arp_cache_entries st) 0 ARP_CACHE_SIZE con;
          console_printf B rule_line [] con }"

definition show_ip_info :: "('w, 'x) bus_scheme \<Rightarrow> ('n) net_scheme \<Rightarrow> 'w console \<Rightarrow> 'w console option" where
  "show_ip_info B st con =
     do { con \<leftarrow> console_printf B (ascii ''Network Interface Information:'' @ [10, 0]) [] con;
          con \<leftarrow> console_printf B rule_line [] con;
          con \<leftarrow> console_printf B (ascii ''IP Address: %d.%d.%d.%d'' @ [10, 0]) (ip_args (nic_ip_addr st)) con;
          con \<leftarrow> console_printf B (ascii ''Netmask: %d.%d.%d.%d'' @ [10, 0]) (ip_args (nic_netmask st)) con;
          con \<leftarrow> console_printf B (ascii ''Gateway: %d.%d.%d.%d'' @ [10, 0]) (ip_args (nic_gateway_ip st)) con;
          mac \<leftarrow> mac_args (nic_mac st);
          con \<leftarrow> console_printf B (ascii ''MAC Address: %02x:%02x:%02x:%02x:%02x:%02x'' @ [10, 0]) mac con;
          console_printf B rule_line [] con }"

definition ping :: "('w, 'x) bus_scheme \<Rightarrow> u8 list \<Rightarrow> 'n net_scheme \<times> 'w console \<Rightarrow> ('n net_scheme \<times> 'w console) option" where
  "ping B ip_str sc =
     (let (st, con) = sc
      in do { ip \<leftarrow> inet_addr ip_str;
              if ip = INADDR_NONE
              then do { con \<leftarrow> console_printf B (ascii ''Invalid IP address: %s'' @ [10, 0]) [StrArg (Some ip_str)] con; Some (st, con) }
              else do { st \<leftarrow> icmp_send_echo_request ip st; Some (st, con) } })"

section \<open>Texts\<close>

definition help_lines :: "u8 list list" where
  "help_lines =
  [ascii ''==============================================='',
   ascii ''|              Hal OS Terminal                |'',
   ascii ''==============================================='',
   ascii ''|  Available Commands:                        |'',
   ascii ''|   * arp - Display ARP cache                 |'',
   ascii ''|   * cat - Display file content              |'',
   ascii ''|   * cd <path> - Change directory            |'',
   ascii ''|   * clear - Clear the console screen        |'',
   ascii ''|   * cpuid - Display CPU information         |'',
   ascii ''|   * echo - Echo a message to the console    |'',
   ascii ''|   * fireworks - Fireworks effect            |'',
   ascii ''|   * haiku - Display a haiku                 |'',
   ascii ''|   * help - Display this help message        |'',
   ascii ''|   * hwinfo - Display hardware information   |'',
   ascii ''|   * ip - Display network interface info     |'',
   ascii ''|   * ls - List files in current directory    |'',
   ascii ''|   * lspci - Display PCI information         |'',
   ascii ''|   * malloc - Test memory allocation         |'',
   ascii ''|   * memory - Display system memory          |'',
   ascii ''|   * ping - Send ICMP echo request           |'',
   ascii ''|   * pong - Play a game of Pong              |'',
   ascii ''|   * pwd - Print current directory           |'',
   ascii ''|   * reboot - Reboot the system              |'',
   ascii ''|   * shutdown - Shut down the system         |'',
   ascii ''|   * snake - Play a game of Snake            |'',
   ascii ''|   * timer - Display system timer            |'',
   ascii ''|   * vesa - Display VESA graphics            |'',
   ascii ''|   * version - Display Hal OS version        |'',
   ascii ''==============================================='']"

definition help_short :: "u8 list" where
  "help_short = ascii ''arp, cd, clear, cpuid, echo, fireworks, haiku, help, hwinfo, ls, lspci, malloc, memory, ping, pong, pwd, reboot, shutdown, snake, timer, vesa, version'' @ [10, 0]"

primrec print_lines :: "('w, 'x) bus_scheme \<Rightarrow> u8 list list \<Rightarrow> 'w console \<Rightarrow> 'w console option" where
  "print_lines B [] con = Some con"
| "print_lines B (l # rest) con = do { con \<leftarrow> console_printf B (l @ [10, 0]) [] con; print_lines B rest con }"

text \<open>The version; date, time and compiler are put in by the compiler.\<close>

definition print_version :: "('w, 'x) bus_scheme \<Rightarrow> u8 list \<Rightarrow> u8 list \<Rightarrow> u8 list \<Rightarrow> 'w console \<Rightarrow> 'w console option" where
  "print_version B date time gcc con =
     do { con \<leftarrow> console_printf B (ascii ''--------------------------------------------------------------'' @ [10, 0]) [] con;
          con \<leftarrow> console_printf B (ascii ''Hal OS v0.15.0'' @ [10, 0]) [] con;
          con \<leftarrow> console_printf B (ascii ''Built on: %s %s'' @ [10, 0]) [StrArg (Some date), StrArg (Some time)] con;
          con \<leftarrow> console_printf B (ascii ''Built with: GCC %s'' @ [10, 0]) [StrArg (Some gcc)] con;
          console_printf B (ascii ''--------------------------------------------------------------'' @ [10, 0]) [] con }"

section \<open>Which command\<close>

datatype command = Cpuid | Haiku | Help | HelpShort | TelnetTo | CatNothing | CatFile | ChangeDir | ShowIp | Ping | Reboot | Echo | PlayPong | ShowArp
  | PrintDir | ListDir | Shutdown | Clear | ShowTime | TestMalloc | ShowMemory | ListPci | PlaySnake | VesaDemo | ShowVersion | ShowHardware
  | ShowFireworks | Invalid

text \<open>The tests in their order: a whole line (\<open>strcmp\<close>) or the start of a line (\<open>strncmp\<close>).\<close>

definition command_tests :: "(bool \<times> string \<times> command) list" where
  "command_tests =
     [(True, ''cpuid'', Cpuid), (True, ''haiku'', Haiku), (True, ''help'', Help), (True, ''help /f'', HelpShort),
      (False, ''telnet'', TelnetTo), (True, ''cat'', CatNothing), (False, ''cat '', CatFile), (False, ''cd '', ChangeDir),
      (True, ''ip'', ShowIp), (False, ''ping '', Ping), (True, ''reboot'', Reboot), (True, ''echo'', Echo), (True, ''pong'', PlayPong),
      (True, ''arp'', ShowArp), (True, ''pwd'', PrintDir), (True, ''ls'', ListDir), (True, ''shutdown'', Shutdown), (True, ''clear'', Clear),
      (True, ''timer'', ShowTime), (True, ''malloc'', TestMalloc), (True, ''memory'', ShowMemory), (True, ''lspci'', ListPci),
      (True, ''snake'', PlaySnake), (True, ''vesa'', VesaDemo), (True, ''version'', ShowVersion), (True, ''hwinfo'', ShowHardware),
      (True, ''fireworks'', ShowFireworks)]"

fun first_command :: "(bool \<times> string \<times> command) list \<Rightarrow> u8 list \<Rightarrow> command option" where
  "first_command [] buffer = Some Invalid"
| "first_command ((whole, name, cmd) # tests) buffer =
     do { r \<leftarrow> (if whole then strcmp buffer (ascii name @ [0]) else strncmp buffer (ascii name @ [0]) (length name));
          if r = 0 then Some cmd else first_command tests buffer }"

definition command_of :: "u8 list \<Rightarrow> command option" where
  "command_of buffer = first_command command_tests buffer"

section \<open>What the shell does\<close>

record ('w, 'd, 'f, 'u, 'v, 'p, 'h) kernel = "('w, 'd) shell" +
  sh_timer :: "('f, 'u) timer \<times> 'v"
  sh_net :: tcp_net
  sh_snake :: snake
  sh_pong :: "'p pong"
  sh_heap :: 'h

record ('w, 'd, 'f, 'u, 'v, 'p, 'h) machine_env =
  env_ports :: "'w ide_bus"
  env_disk :: "'d ide_bus"
  env_tick :: "('f, 'u) timer \<times> 'v \<Rightarrow> (('f, 'u) timer \<times> 'v) option"
  env_cpuid :: cpuid
  env_heap :: "'h heap_ops"
  env_memory :: "u32 \<Rightarrow> u8 list option"
  env_floats :: "'p float_ops"
  env_spray :: "nat \<Rightarrow> int \<Rightarrow> (int \<times> int) option"
  env_scratch :: fat32_dir_list
  env_entry :: fat32_file
  env_particles :: "particle list"
  env_kmap :: kernel_map
  env_used_blocks :: u32
  env_pci_depth :: nat
  env_pci_sizes :: "u32 list"
  env_built :: "u8 list \<times> u8 list \<times> u8 list"

text \<open>What is typed in a turn: the line, the keys a command reads as a line, those a game finds, and the turns of a telnet session.\<close>

record shell_input =
  in_line :: "u8 list"
  in_text :: "u8 list"
  in_keys :: "u8 option list"
  in_telnet :: "telnet_turn list"

definition on_console :: "('w console \<Rightarrow> 'w console option) \<Rightarrow> ('w, 'd, 'y) shell_scheme \<Rightarrow> ('w, 'd, 'y) shell_scheme option" where
  "on_console f k = map_option (\<lambda>c. k\<lparr>sh_con := c\<rparr>) (f (sh_con k))"

text \<open>A command on timer and console, and one on the network and the console.\<close>

definition on_timer ::
  "((('f, 'u) timer \<times> 'v) \<times> 'w console \<Rightarrow> ((('f, 'u) timer \<times> 'v) \<times> 'w console) option) \<Rightarrow>
    ('w, 'd, 'f, 'u, 'v, 'p, 'h) kernel \<Rightarrow> ('w, 'd, 'f, 'u, 'v, 'p, 'h) kernel option" where
  "on_timer f k = map_option (\<lambda>(t, c). k\<lparr>sh_timer := t, sh_con := c\<rparr>) (f (sh_timer k, sh_con k))"

definition on_net ::
  "(tcp_net \<times> 'w console \<Rightarrow> (tcp_net \<times> 'w console) option) \<Rightarrow>
    ('w, 'd, 'f, 'u, 'v, 'p, 'h) kernel \<Rightarrow> ('w, 'd, 'f, 'u, 'v, 'p, 'h) kernel option" where
  "on_net f k = map_option (\<lambda>(st, c). k\<lparr>sh_net := st, sh_con := c\<rparr>) (f (sh_net k, sh_con k))"

definition run_command ::
  "('w, 'd, 'f, 'u, 'v, 'p, 'h) machine_env \<Rightarrow> shell_input \<Rightarrow> u8 list \<Rightarrow> command \<Rightarrow>
    ('w, 'd, 'f, 'u, 'v, 'p, 'h) kernel \<Rightarrow> ('w, 'd, 'f, 'u, 'v, 'p, 'h) kernel option" where
  "run_command E inp buffer cmd k =
     (let B = env_ports E; D = env_disk E
      in case cmd of
           Cpuid \<Rightarrow> on_console (\<lambda>c. map_option snd (cpuid_info B (env_cpuid E) True c)) k
         | Haiku \<Rightarrow> on_timer (\<lambda>((t, v), c). map_option (\<lambda>(t, c). ((t, v), c)) (haiku B (t, c))) k
         | Help \<Rightarrow> on_console (print_lines B help_lines) k
         | HelpShort \<Rightarrow> say B help_short [] k
         | TelnetTo \<Rightarrow> on_net (\<lambda>sc. map_option snd (telnet_command B (in_telnet inp) (drop 7 buffer) sc)) k
         | CatNothing \<Rightarrow> say B (ascii ''cat: No file specified'' @ [10, 0]) [] k
         | CatFile \<Rightarrow> cat B D (env_scratch E) (env_memory E) (drop 4 buffer) k
         | ChangeDir \<Rightarrow> cd B D (env_scratch E) (Some (drop 3 buffer)) k
         | ShowIp \<Rightarrow> on_console (show_ip_info B (sh_net k)) k
         | Ping \<Rightarrow> on_net (ping B (drop 5 buffer)) k
         | Reboot \<Rightarrow> on_console (\<lambda>c. Some (reboot B c)) k
         | Echo \<Rightarrow> on_console (\<lambda>c. map_option snd (echo B (in_text inp) c)) k
         | PlayPong \<Rightarrow>
             do { (p, tv, c) \<leftarrow> pong_game B (env_tick E) (env_floats E) (in_keys inp) (sh_pong k) (sh_timer k) (sh_con k);
                  Some (k\<lparr>sh_pong := p, sh_timer := tv, sh_con := c\<rparr>) }
         | ShowArp \<Rightarrow> on_console (show_arp_cache B (sh_net k)) k
         | PrintDir \<Rightarrow> pwd B k
         | ListDir \<Rightarrow> ls B D (env_scratch E) (env_entry E) k
         | Shutdown \<Rightarrow> on_console (shutdown B (env_cpuid E)) k
         | Clear \<Rightarrow> on_console console_clear k
         | ShowTime \<Rightarrow> on_timer (timer_command B (env_tick E)) k
         | TestMalloc \<Rightarrow>
             do { (_, h, c) \<leftarrow> test_memory_allocation B (env_heap E) (sh_heap k, sh_con k); Some (k\<lparr>sh_heap := h, sh_con := c\<rparr>) }
         | ShowMemory \<Rightarrow> on_console (memory B (env_kmap E) (env_used_blocks E)) k
         | ListPci \<Rightarrow> on_console (pci_print_devices (env_pci_depth E) B (env_pci_sizes E)) k
         | PlaySnake \<Rightarrow>
             do { (s, t, v, c) \<leftarrow> snake_game B (env_tick E) (in_keys inp) (sh_snake k, fst (sh_timer k), snd (sh_timer k), sh_con k);
                  Some (k\<lparr>sh_snake := s, sh_timer := (t, v), sh_con := c\<rparr>) }
         | VesaDemo \<Rightarrow> on_timer (test_vesa B (env_tick E) (in_keys inp)) k
         | ShowVersion \<Rightarrow> on_console (\<lambda>c. let (date, time, gcc) = env_built E in print_version B date time gcc c) k
         | ShowHardware \<Rightarrow> on_console (hwinfo B (env_cpuid E) (env_kmap E)) k
         | ShowFireworks \<Rightarrow> on_timer (fireworks B (env_tick E) (env_spray E) (in_keys inp) (env_particles E)) k
         | Invalid \<Rightarrow> say B (ascii ''invalid command: %s'' @ [10, 0]) [StrArg (Some buffer)] k)"

definition prompt :: "u8 list" where
  "prompt = ascii ''kernel> '' @ [0]"

text \<open>A turn of the loop: the prompt, the line, the command.\<close>

definition shell_turn ::
  "('w, 'd, 'f, 'u, 'v, 'p, 'h) machine_env \<Rightarrow> shell_input \<Rightarrow> ('w, 'd, 'f, 'u, 'v, 'p, 'h) kernel \<Rightarrow> ('w, 'd, 'f, 'u, 'v, 'p, 'h) kernel option" where
  "shell_turn E inp k =
     do { k \<leftarrow> say (env_ports E) prompt [] k;
          k \<leftarrow> on_console console_refresh k;
          (buffer, keys, c) \<leftarrow> getstr (env_ports E) 255 (in_line inp) (replicate 255 0) (sh_con k);
          let k = k\<lparr>sh_con := c\<rparr>;
          n \<leftarrow> strlen buffer;
          if n = 0 then Some k
          else do { cmd \<leftarrow> command_of buffer; run_command E inp buffer cmd k } }"

text \<open>The loop never ends: the state after the turns \<open>inps\<close>.\<close>

fun shell_turns ::
  "('w, 'd, 'f, 'u, 'v, 'p, 'h) machine_env \<Rightarrow> shell_input list \<Rightarrow> ('w, 'd, 'f, 'u, 'v, 'p, 'h) kernel \<Rightarrow> ('w, 'd, 'f, 'u, 'v, 'p, 'h) kernel option" where
  "shell_turns E [] k = Some k"
| "shell_turns E (inp # inps) k = do { k \<leftarrow> shell_turn E inp k; shell_turns E inps k }"

text \<open>The start: the volume is mounted and the root looked up; a lookup that fails leaves the variable as it is.\<close>

definition shell_start ::
  "('w, 'd, 'f, 'u, 'v, 'p, 'h) machine_env \<Rightarrow> ('w, 'd, 'f, 'u, 'v, 'p, 'h) kernel \<Rightarrow> ('w, 'd, 'f, 'u, 'v, 'p, 'h) kernel option" where
  "shell_start E k =
     do { k \<leftarrow> on_console console_clear k;
          k \<leftarrow> say (env_ports E) (ascii ''Hal OS v0.15.0'' @ [10, 0]) [] k;
          k \<leftarrow> say (env_ports E) (ascii ''Type '' @ [39] @ ascii ''help'' @ [39] @ ascii '' for a list of commands'' @ [10, 0]) [] k;
          (vol, fs) \<leftarrow> fat32_init_volume (env_disk E) (sh_fat k);
          (found, fs) \<leftarrow> fat32_find_file (env_disk E) vol (env_scratch E) [47, 0] fs;
          Some (k\<lparr>sh_fat := fs, fat_volume := vol, fat_root := (case found of Some f \<Rightarrow> f | None \<Rightarrow> fat_root k)\<rparr>) }"

end
