(* ===== verification/ShellSpec.thy ===== *)
theory ShellSpec
  imports Shell
begin

text \<open>
  What a line typed at the prompt does: the table of commands as a lookup, and the way of a \<open>cd\<close> from the keys
  over the line editor and the table to the file system and back to the screen.
\<close>

section \<open>The table of commands\<close>

definition names_command :: "u8 list \<Rightarrow> command" where
  "names_command s =
     (case find (\<lambda>(whole, name, cmd). if whole then s = ascii name else take (length name) s = ascii name) command_tests of
        Some (_, _, cmd) \<Rightarrow> cmd
      | None \<Rightarrow> Invalid)"

lemma length_ascii [simp]: "length (ascii s) = length s"
  by (simp add: ascii_def)

lemma first_command_find:
  assumes "cstr buffer s" "\<forall>t \<in> set tests. 0 \<notin> set (ascii (fst (snd t)))"
  shows "first_command tests buffer =
    Some (case find (\<lambda>(whole, name, cmd). if whole then s = ascii name else take (length name) s = ascii name) tests of
        Some (_, _, cmd) \<Rightarrow> cmd | None \<Rightarrow> Invalid)"
  using assms(2)
proof (induction tests)
  case (Cons t tests)
  obtain whole name cmd where t: "t = (whole, name, cmd)" by (cases t)
  have n: "cstr (ascii name @ [0]) (ascii name)" using Cons.prems by (simp add: t cstr_def)
  show ?case
  proof (cases whole)
    case True
    obtain r where "strcmp buffer (ascii name @ [0]) = Some r" "r = 0 \<longleftrightarrow> s = ascii name"
      using strcmp_ok [OF assms(1) n] by blast
    then show ?thesis using Cons True by (simp add: t)
  next
    case False
    obtain r where "strncmp buffer (ascii name @ [0]) (length name) = Some r" "r = 0 \<longleftrightarrow> take (length name) s = ascii name"
      using strncmp_prefix [OF assms(1) n] by auto
    then show ?thesis using Cons False by (simp add: t)
  qed
qed simp

lemma command_names_ok: "\<forall>t \<in> set command_tests. 0 \<notin> set (ascii (fst (snd t)))"
  by (simp add: command_tests_def ascii_def)

lemma command_of_ok: "cstr buffer s \<Longrightarrow> command_of buffer = Some (names_command s)"
  unfolding command_of_def names_command_def by (rule first_command_find [OF _ command_names_ok])

section \<open>A line at the prompt\<close>

lemma edit_line_plain:
  assumes "\<forall>k \<in> set s. printable k" "length line + length s < limit"
  shows "edit_line limit line (s @ 10 # rest) = Some (line @ s, rest)"
  using assms
proof (induction s arbitrary: line)
  case (Cons k s)
  then have "k \<noteq> 10" "k \<noteq> 8" "printable k" by (auto simp: printable_def)
  then show ?case using Cons by (subst edit_line.simps) simp
qed (simp add: edit_line.simps)

lemma getstr_plain:
  assumes "ready B c" "\<forall>k \<in> set s. printable k" "length s < 254"
  shows "runs (getstr B 255 (s @ 10 # rest) (replicate 255 0) c) (\<lambda>(buf, keys, c'). cstr buf s \<and> ready B c')"
proof -
  have "ConsoleText.typed (edit_line (unat (255 :: u32) - 1) [] (s @ 10 # rest)) (length (replicate 255 (0 :: u8))) c
      (getstr B 255 (s @ 10 # rest) (replicate 255 0) c)"
    unfolding getstr_def using assms(1) by (intro getstr_loop_edits) (simp_all add: ready_def word_less_nat_alt)
  moreover have "edit_line (unat (255 :: u32) - 1) [] (s @ 10 # rest) = Some (s, rest)"
    using edit_line_plain [OF assms(2), of "[]" 254 rest] assms(3) by simp
  ultimately have "runs (getstr B 255 (s @ 10 # rest) (replicate 255 0) c)
      (\<lambda>(buf, keys, c'). take (Suc (length s)) buf = s @ [0] \<and> con_ok c' \<and> same_setup c c')"
    by (simp add: ConsoleText.typed_def keeps_def) (erule runs_mono, auto)
  moreover have "0 \<notin> set s" using assms(2) by (auto simp: printable_def)
  ultimately show ?thesis
    by - (erule runs_mono, use assms(1) in \<open>auto simp: cstr_take ready_def same_setup_def\<close>)
qed

lemma names_change_dir: "names_command (ascii ''cd '' @ p) = ChangeDir"
  by (simp add: names_command_def command_tests_def ascii_def)

lemma working_con: "working B D img n dinv k \<Longrightarrow> ready B c \<Longrightarrow> working B D img n dinv (k\<lparr>sh_con := c\<rparr>)"
  by (simp add: working_def)

lemma cwd_con [simp]: "cwd img n dir (k\<lparr>sh_con := c\<rparr>) = cwd img n dir k"
  by (simp add: cwd_def)

lemma refresh_ready: "ready B c \<Longrightarrow> runs (console_refresh c) (ready B)"
  unfolding console_refresh_def
  by (rule runs_mono [OF flush_keeps]) (auto simp: ready_def same_text_def same_setup_def)

lemma prompt_text: "formatted prompt [] = Some (ascii ''kernel> '')"
  by (simp add: prompt_def ascii_def)

text \<open>The turn up to the command: the line is in the buffer, and only the console has changed.\<close>

lemma turn_reads_line:
  assumes con: "ready (env_ports E) (sh_con k)"
    and s: "\<forall>c \<in> set s. printable c" "0 < length s" "length s < 254" and inp: "in_line inp = s @ 10 # rest"
  shows "\<exists>buffer c. cstr buffer s \<and> ready (env_ports E) c \<and>
    shell_turn E inp k = run_command E inp buffer (names_command s) (k\<lparr>sh_con := c\<rparr>)"
proof -
  obtain c1 where c1: "say (env_ports E) prompt [] k = Some (k\<lparr>sh_con := c1\<rparr>)" "ready (env_ports E) c1"
    using say_types [OF con prompt_text] displayed_ready [OF _ con] by (auto simp: runs_iff)
  obtain c2 where c2: "console_refresh c1 = Some c2" "ready (env_ports E) c2"
    using refresh_ready [OF c1(2)] by (auto simp: runs_iff)
  obtain buffer keys c3 where c3: "getstr (env_ports E) 255 (in_line inp) (replicate 255 0) c2 = Some (buffer, keys, c3)"
      "cstr buffer s" "ready (env_ports E) c3"
    using getstr_plain [OF c2(2) s(1,3), of rest] inp unfolding runs_iff by auto
  have "shell_turn E inp k = run_command E inp buffer (names_command s) (k\<lparr>sh_con := c3\<rparr>)"
    using s(2) strlen_cstr [OF c3(2)] by (simp add: shell_turn_def c1(1) on_console_def c2(1) c3(1) command_of_ok [OF c3(2)])
  then show ?thesis using c3(2,3) by blast
qed

section \<open>Properties\<close>

text \<open>The chain of tests finds the command that the table lists first: a line names the commands without argument
  when it is that word, \<open>telnet\<close>, \<open>cat\<close>, \<open>cd\<close> and \<open>ping\<close> when it starts with it, and anything else is an
  invalid command.\<close>

theorem command_of_names:
  assumes "cstr buffer s"
  shows "command_of buffer = Some (names_command s)"
  by (rule command_of_ok [OF assms])

theorem command_of_names_witness:
  "command_of [108, 115, 0, 7] = Some ListDir \<and> command_of [99, 100, 32, 47, 0] = Some ChangeDir \<and> command_of [108, 115, 32, 0] = Some Invalid"
proof -
  have "names_command [108, 115] = ListDir" "names_command [99, 100, 32, 47] = ChangeDir" "names_command [108, 115, 32] = Invalid"
    by (simp_all add: names_command_def command_tests_def ascii_def)
  then show ?thesis
    using command_of_names [of "[108, 115, 0, 7]" "[108, 115]"] command_of_names [of "[99, 100, 32, 47, 0]" "[99, 100, 32, 47]"]
      command_of_names [of "[108, 115, 32, 0]" "[108, 115, 32]"] by simp
qed

text \<open>C9. A line \<open>cd p\<close> typed at the prompt, whatever is typed after it, changes the directory: one turn of the shell
  takes the path that is shown and the directory that is listed to what \<open>p\<close> leads to on the disk, or leaves both
  where they are when that is no directory, and the shell is ready for the next line.\<close>

theorem shell_changes_directory:
  assumes "working (env_ports E) (env_disk E) img n dinv k" and "cwd img n dir k" and "length (sector_buffer (env_scratch E)) = 512"
    and "in_line inp = ascii ''cd '' @ p @ 10 # rest" and "\<forall>c \<in> set p. printable c" and "length p < 251"
    and "fitting (render dir) p"
    and "resolves img (fat_volume k) n (mem (sh_fat k)) (root_of (fat_volume k)) (capitals (target (render dir) p)) r"
  shows "runs (shell_turn E inp k) (\<lambda>k'. working (env_ports E) (env_disk E) img n dinv k' \<and>
    cwd img n (if enters r then target (render dir) p else dir) k')"
proof -
  have line: "\<forall>c \<in> set (ascii ''cd '' @ p). printable c" "length (ascii ''cd '' @ p) < 254"
    using assms(5,6) by (auto simp: ascii_def printable_def)
  obtain buffer c where b: "cstr buffer (ascii ''cd '' @ p)" "ready (env_ports E) c"
      "shell_turn E inp k = run_command E inp buffer ChangeDir (k\<lparr>sh_con := c\<rparr>)"
    using turn_reads_line [of E k "ascii ''cd '' @ p" inp rest] assms(1,4) line names_change_dir by (auto simp: working_def)
  have p: "cstr (drop 3 buffer) p" using b(1) by (auto simp: cstr_def ascii_def)
  show ?thesis unfolding b(3)
    using runs_mono [OF cd_keeps_cwd [OF working_con [OF assms(1) b(2)] assms(3) _ p assms(7)]] assms(2,8)
    by (simp add: run_command_def)
qed

definition demo_ports :: "u8 list ide_bus" where
  "demo_ports = \<lparr>bus_in = bus_in key_bus, bus_out = bus_out key_bus, bus_inw = \<lambda>p w. (0, w), bus_outw = \<lambda>p v w. w,
     bus_inl = \<lambda>p w. (0, w), bus_outl = \<lambda>p v w. w\<rparr>"

definition demo_turn :: "(u8 list, ata_regs, unit, unit, unit, unit, unit) machine_env \<Rightarrow>
    (u8 list, ata_regs, unit, unit, unit, unit, unit) kernel \<Rightarrow> (u8 list, ata_regs, unit, unit, unit, unit, unit) kernel option" where
  "demo_turn E k = shell_turn (E\<lparr>env_ports := demo_ports, env_disk := image_disk tree_image, env_scratch := demo_scratch\<rparr>)
     \<lparr>in_line = [99, 100, 32, 115, 117, 98, 10, 108, 115], in_text = [], in_keys = [], in_telnet = []\<rparr>
     (k\<lparr>sh_con := sh_con demo_shell, sh_fat := sh_fat demo_shell, fat_volume := fat_volume demo_shell,
        fat_root := fat_root demo_shell, current_path := current_path demo_shell\<rparr>)"

theorem shell_changes_directory_witness:
  "\<forall>E k. runs (demo_turn E k) (\<lambda>k'. cstr (current_path k') [47, 83, 85, 66] \<and> cwd tree_image 1000 [[115, 117, 98]] k')"
proof (intro allI)
  fix E :: "(u8 list, ata_regs, unit, unit, unit, unit, unit) machine_env" and k0 :: "(u8 list, ata_regs, unit, unit, unit, unit, unit) kernel"
  let ?E = "E\<lparr>env_ports := demo_ports, env_disk := image_disk tree_image, env_scratch := demo_scratch\<rparr>"
  let ?k = "k0\<lparr>sh_con := sh_con demo_shell, sh_fat := sh_fat demo_shell, fat_volume := fat_volume demo_shell,
        fat_root := fat_root demo_shell, current_path := current_path demo_shell\<rparr>"
  have w: "working (env_ports ?E) (env_disk ?E) tree_image 1000 (ata_inv 0x1F0 0x3F8 (=) 1000) ?k"
    using demo_shell_working by (simp add: working_def ready_def retrace_ends_def) (simp add: demo_shell_def demo_console_def demo_screen_def)
  have c: "cwd tree_image 1000 [] ?k" using demo_shell_cwd by (simp add: cwd_def)
  have r: "resolves tree_image (fat_volume ?k) 1000 (mem (sh_fat ?k)) (root_of (fat_volume ?k))
      (capitals (target (render []) [115, 117, 98])) (Some \<lparr>f_attrib = 0x10, f_cluster = 5, f_size = 0, f_offset = 0\<rparr>)"
    using demo_resolves_sub by (simp add: demo_sub demo_shell_def)
  have f: "fitting (render []) [115, 117, 98]" by (simp add: fitting_def demo_sub)
  show "runs (demo_turn E k0) (\<lambda>k'. cstr (current_path k') [47, 83, 85, 66] \<and> cwd tree_image 1000 [[115, 117, 98]] k')"
    unfolding demo_turn_def
    by (rule runs_mono [OF shell_changes_directory [OF w c _ _ _ _ f r, where rest = "[108, 115]"]])
      (simp_all add: ascii_def printable_def enters_def demo_sub, simp add: cwd_def demo_sub)
qed

end
