(* ===== verification/Spec2Isabelle.thy ===== *)
theory Spec2Isabelle
  imports Vmm Network CMath Keyboard FatDir ConsoleText PciSpec NicSpec Serial Cpu Snake Pong ShellSpec
begin

text \<open>
  HalOS is a small kernel for 32-bit x86 machines that runs entirely in ring 0.  This library models the
  parts of it that compute: memory management, the network stack, the drivers for disk, file system, PCI
  bus, network cards, serial port, keyboard, timer, interrupt controller and screen, the tables of the
  processor, the string and arithmetic libraries, and the shell with its commands, its telnet client and
  its games.  It proves what they guarantee and, where the code falls short of its intention, what it does
  instead.

  Conventions (theory \<open>Prelude\<close>).  A C integer is a word of its width; \<open>int\<close> is an integer with an
  explicit check (\<open>chk_int\<close>), since its overflow is undefined.  A function that may run into undefined
  behaviour, an access outside an object, a null pointer, an overflow of \<open>int\<close>, returns an option,
  and \<open>None\<close> stands for that.  \<open>runs m Q\<close> is total correctness: \<open>m\<close> is defined and its result satisfies
  \<open>Q\<close>.  Counting loops are \<open>for_loop\<close> with the constructors \<open>Next\<close>, \<open>Break\<close> and \<open>Return\<close> for what a turn
  does, and one rule with an invariant.  A wait for a device is a \<open>partial_function\<close>, so that a wait
  without end is \<open>None\<close> too.  Objects on the heap are byte lists or records; log lines are left out everywhere.

  Memory.  \<open>Bitmap\<close> and \<open>Pmm\<close>, \<open>PmmBlocks\<close> model \<open>mm/pmm.c\<close>: the bitmap of physical blocks with its
  counters, its initialisation from the memory map, first-fit and next-fit allocation.  \<open>pmm_inv\<close> ties the
  counters to the bitmap; the lemmas say which block each allocation takes and that a sequence of
  allocations gives distinct blocks.  The locale \<open>frame_allocator\<close> states the contract of the
  allocator; it is interpreted by \<open>pmm_alloc_block\<close> and, in \<open>Paging\<close>, by the allocation of page tables.
  \<open>Paging\<close> models \<open>mm/paging.c\<close> over byte-addressed physical memory (\<open>machine\<close>) behind the page walk of the
  processor (\<open>mmu_translate\<close>); \<open>maps\<close> is the abstract address space the tables stand for.  Mapping and
  unmapping a page are exact updates of it, with paging off and on: \<open>same_entry\<close> says which addresses share a
  table entry, \<open>pointers_ok\<close> and \<open>tables_identity\<close> that the pointers of the code reach the tables.  \<open>Vmm\<close> models
  \<open>mm/vmm.c\<close> and the two allocating hooks of \<open>mm/liballoc_hook.c\<close>; it shows where the kernel is mapped when
  paging is turned on (\<open>enter_paging\<close>), that the pointers to the tables are good from then on for tables that lie
  behind the size of the kernel and below 4 MiB, and how free virtual pages are found.

  Network.  \<open>Inet\<close> holds byte order, checksum and address parser (\<open>net/ipv4.c\<close>, \<open>include/network.h\<close>);
  \<open>Net\<close> the ARP cache with its queue, Ethernet and IPv4 output and ICMP (\<open>net/arp.c\<close>, \<open>eth.c\<close>, \<open>icmp.c\<close>);
  \<open>Tcp\<close> the connections, timers and state handlers of \<open>net/tcp.c\<close>; \<open>TcpInv\<close> the invariant of the TCP layer
  and that every handler keeps it; \<open>TcpSpec\<close> the handshake, the segments on the wire, the reachable states and the
  timers; \<open>Network\<close> the dispatch of received frames (\<open>net/network.c\<close>), which packet of the wire
  (\<open>ip_frame\<close>) reaches which handler, and the answer to a ping through all layers.  The state is one record, \<open>net\<close> extended by \<open>tcp_net\<close>; \<open>wire\<close> is the list of frames sent, and
  \<open>malloc_ok n\<close> says whether the \<open>n\<close>-th \<open>malloc\<close> succeeds.

  Disk and files.  \<open>Ide\<close> models \<open>drivers/ide.c\<close> over the ports, which are a parameter (\<open>bus\<close>, in \<open>Devices\<close>,
  and \<open>ide_bus\<close>); \<open>IdeSpec\<close> assumes of the drive what the ATA protocol says (\<open>ata_drive\<close>) and proves
  that a read delivers the sectors asked for.  \<open>Fat\<close> models \<open>drivers/fat.c\<close>; \<open>FatSpec\<close> relates reading a
  file to the chain of its clusters, \<open>FatDir\<close> looking up a path to the directories on the disk: \<open>dos_lookup\<close> and \<open>leads_to\<close> say what a
  path leads to by the FAT format, \<open>readable_for\<close> in which directories the reader agrees with it (no long
  names; no volume label and no short extension under the name looked up), and \<open>resolves\<close> what it finds with its own
  naming of entries.

  Devices.  \<open>Devices\<close> models the interrupt controller, the dispatch of interrupts and the timer
  (\<open>drivers/8259_pic.c\<close>, \<open>cpu/isr.c\<close>, \<open>drivers/timer.c\<close>), \<open>Keyboard\<close> \<open>drivers/keyboard.c\<close> with one interrupt per
  turn of its waiting loops, \<open>Pci\<close> \<open>drivers/pci.c\<close>: configuration space, search and listing; \<open>PciSpec\<close>
  assumes that the ports give access to a configuration space (\<open>pci_mechanism\<close>) and proves that the search
  finds the first match.  \<open>Serial\<close> models \<open>drivers/serial.c\<close>, \<open>Cpu\<close> the descriptor tables and control registers
  (\<open>cpu/gdt.c\<close>, \<open>cpu/idt.c\<close>, \<open>cpu/tss.c\<close>, \<open>cpu/fpu.c\<close>).  \<open>Nic\<close> models the network cards (\<open>nic/rtl8139.c\<close>,
  \<open>nic/ne2k.c\<close>) with the memory of the machine and the network stack behind them; \<open>NicSpec\<close> watches the
  words the NE2000 is given (\<open>recording\<close>) and follows the read position of the RTL8139.

  Screen.  \<open>Screen\<close> models \<open>drivers/vesa.c\<close>, two buffers of pixels, the copy between them and the allocation of
  the back buffer through the memory manager; \<open>Console\<close> models \<open>drivers/console.c\<close>: cursor, text
  buffer, glyphs, dirty rectangle, scrolling, line input, formatted output.  \<open>ConsoleSpec\<close> says which
  pixels each operation paints and keeps the invariants \<open>con_ok\<close> (the console is well formed) and
  \<open>tracked\<close> (the screen is the back buffer outside the dirty rectangle), and refines output to a text terminal
  (\<open>term_put\<close>) through the locale \<open>text_output\<close> of \<open>Output\<close>, which \<open>Serial\<close> interprets too; \<open>ConsoleText\<close> states the properties, with \<open>edit_line\<close> as the reference of line input.

  \<open>ConsoleFormat\<close> gives formatted output its meaning (\<open>pieces_text\<close>).

  Shell.  \<open>Shell\<close> models \<open>shell/shell.c\<close>: the table of commands, the commands that report on the machine
  and the network, and the loop; what the machine answers (\<open>cpuid\<close>, waits, the heap, the velocities computed with \<open>float\<close>)
  is the record \<open>machine_env\<close>, and what is typed the input of a turn.  \<open>ShellPath\<close> models the resolution of paths and
  relates it to a walk through names; \<open>ShellFiles\<close> the commands on files, \<open>cd\<close>, \<open>ls\<close>, \<open>cat\<close> and \<open>pwd\<close>, whose
  properties rest on \<open>FatDir\<close>; \<open>Telnet\<close> the telnet client, with the protocol as a list of \<open>telnet_item\<close>s and with the
  frames and clock ticks that arrive in a turn as its input; \<open>Demos\<close> the two graphics demonstrations;
  \<open>Snake\<close> and \<open>Pong\<close> the games of \<open>shell/snake.c\<close> and \<open>shell/pong.c\<close>, with the state of the keyboard in each turn as a
  list and, for Pong, the arithmetic on \<open>float\<close> as a parameter.  \<open>ShellSpec\<close> follows a line from the keys through the
  line editor and the table of commands to the file system.

  Libraries.  \<open>CString\<close> models \<open>libs/string.c\<close>, \<open>CMath\<close> the integer functions of \<open>libs/math.c\<close>.

  Bounds and fuel.  The retry of pending packets and the loop over the TCP timers take the number of entries
  as fuel, and lemmas show that this is enough; \<open>pci_scan_bus\<close> takes the depth of nested bridges,
  for which 256 is enough when every bridge leads to a bus of a higher number.  Chains of clusters are followed
  with \<open>partial_function\<close>; the properties assume the chain that the FAT in memory has.

  Not modelled.  \<open>libs/printf.c\<close> and \<open>mm/liballoc.c\<close> are third-party code (formatted output for
  the log, the heap).  The functions of \<open>libs/math.c\<close> on \<open>double\<close> and the two functions of the shell that
  print a \<open>float\<close>, which nothing calls, are left out, as are the sequence of initialisations in \<open>kernel.c\<close> and
  the ELF loader, which is commented out.  The cache of translations (TLB) is not modelled: what is said of
  addresses with paging on is what the tables give.
\<close>

end
